(* ===== verification/Prelude.thy ===== *)
theory Prelude
  imports Main "HOL-Library.Word" "HOL-Library.Signed_Division"
begin

text \<open>Shared vocabulary of the development: the type names of the machine
  integers, the option-valued error style, ordered lists that stand for
  \<open>std::set\<close> and \<open>std::map\<close> under a comparator, and the
  collections of simplification rules the component proofs use.\<close>

unbundle bit_operations_syntax

section \<open>Collections\<close>

named_theorems wrap_simps \<open>window reading of the wrap-around comparisons\<close>
named_theorems codec_simps \<open>round trips of byte and bit-field codecs\<close>
named_theorems frame_simps \<open>fields an operation leaves alone\<close>

section \<open>Types\<close>

type_synonym byte = "8 word"
type_synonym u16 = "16 word"
type_synonym u32 = "32 word"
type_synonym u64 = "64 word"
type_synonym bytes = "byte list"
type_synonym tick = int

section \<open>Ordered lists under a comparator\<close>

text \<open>An ordered associative container is kept as the list of its elements in
  iteration order. \<open>oset_insert\<close> is the insertion of \<open>std::set\<close> and
  \<open>std::map\<close>: the first element that is not less than the new one decides;
  an equivalent element leaves the container alone.\<close>

fun oset_insert :: "('a \<Rightarrow> 'a \<Rightarrow> bool) \<Rightarrow> 'a \<Rightarrow> 'a list \<Rightarrow> 'a list" where
  "oset_insert lt x [] = [x]"
| "oset_insert lt x (y # ys) =
     (if lt y x then y # oset_insert lt x ys
      else if lt x y then x # y # ys else y # ys)"

fun omset_insert :: "('a \<Rightarrow> 'a \<Rightarrow> bool) \<Rightarrow> 'a \<Rightarrow> 'a list \<Rightarrow> 'a list" where
  "omset_insert lt x [] = [x]"
| "omset_insert lt x (y # ys) = (if lt x y then x # y # ys else y # omset_insert lt x ys)"

definition oset_mem :: "('a \<Rightarrow> 'a \<Rightarrow> bool) \<Rightarrow> 'a \<Rightarrow> 'a list \<Rightarrow> bool" where
  "oset_mem lt x ys = (\<exists>y \<in> set ys. \<not> lt x y \<and> \<not> lt y x)"

lemma length_oset_insert: "length (oset_insert lt x ys) \<le> Suc (length ys)"
  by (induction ys) auto

lemma set_oset_insert_subset: "set (oset_insert lt x ys) \<subseteq> insert x (set ys)"
  by (induction ys) auto

lemma set_oset_insert_superset: "set ys \<subseteq> set (oset_insert lt x ys)"
  by (induction ys) auto

lemma set_omset_insert [simp]: "set (omset_insert lt x ys) = insert x (set ys)"
  by (induction ys) auto

lemma length_omset_insert [simp]: "length (omset_insert lt x ys) = Suc (length ys)"
  by (induction ys) auto

text \<open>The laws a comparator owes the container: a strict order on the elements
  that may be in the container at the same time (the carrier).\<close>

locale carrier_order =
  fixes lt :: "'a \<Rightarrow> 'a \<Rightarrow> bool"
    and carrier :: "'a set"
  assumes lt_irrefl: "x \<in> carrier \<Longrightarrow> \<not> lt x x"
    and lt_trans: "x \<in> carrier \<Longrightarrow> y \<in> carrier \<Longrightarrow> z \<in> carrier \<Longrightarrow>
                   lt x y \<Longrightarrow> lt y z \<Longrightarrow> lt x z"
    and incomp_trans: "x \<in> carrier \<Longrightarrow> y \<in> carrier \<Longrightarrow> z \<in> carrier \<Longrightarrow>
                   lt x y \<Longrightarrow> \<not> lt x z \<Longrightarrow> lt z y"
begin

lemma lt_asym:
  assumes "x \<in> carrier" and "y \<in> carrier" and "lt x y"
  shows "\<not> lt y x"
  using assms lt_trans lt_irrefl by blast

lemma before_head:
  assumes "sorted_wrt lt (y # ys)" and "set (y # ys) \<subseteq> carrier" and "x \<in> carrier"
    and "lt x y" and "z \<in> set (y # ys)"
  shows "lt x z"
proof (cases "z = y")
  case False
  then have "lt y z" and "y \<in> carrier" and "z \<in> carrier"
    using assms by auto
  then show ?thesis
    using lt_trans [of x y z] assms by blast
qed (use assms in simp)

lemma oset_insert_sorted:
  assumes "sorted_wrt lt ys" and "set ys \<subseteq> carrier" and "x \<in> carrier"
  shows "sorted_wrt lt (oset_insert lt x ys)"
  using assms
proof (induction ys)
  case (Cons y ys)
  have tl: "sorted_wrt lt (oset_insert lt x ys)"
    using Cons by simp
  consider "lt y x" | "\<not> lt y x" "lt x y" | "\<not> lt y x" "\<not> lt x y" by blast
  then show ?case
  proof cases
    case 1
    have "\<forall>z \<in> set (oset_insert lt x ys). lt y z"
      using set_oset_insert_subset [of lt x ys] Cons.prems(1) 1 by fastforce
    then show ?thesis
      using 1 tl by simp
  next
    case 2
    then show ?thesis
      using Cons.prems(1) before_head [OF Cons.prems 2(2)] by simp
  next
    case 3
    then show ?thesis
      using Cons.prems(1) by simp
  qed
qed simp

lemma not_mem_before:
  assumes "sorted_wrt lt (y # ys)" and "set (y # ys) \<subseteq> carrier" and "x \<in> carrier"
    and "lt x y"
  shows "\<not> oset_mem lt x (y # ys)"
  using before_head [OF assms(1-4)] by (auto simp: oset_mem_def)

lemma oset_insert_member:
  assumes "sorted_wrt lt ys" and "set ys \<subseteq> carrier" and "x \<in> carrier"
  shows "set (oset_insert lt x ys) = (if oset_mem lt x ys then set ys else insert x (set ys))"
  using assms
proof (induction ys)
  case Nil
  then show ?case by (simp add: oset_mem_def)
next
  case (Cons y ys)
  have IH: "set (oset_insert lt x ys) = (if oset_mem lt x ys then set ys else insert x (set ys))"
    using Cons by simp
  consider "lt y x" | "\<not> lt y x" "lt x y" | "\<not> lt y x" "\<not> lt x y" by blast
  then show ?case
  proof cases
    case 1
    then show ?thesis
      using IH by (auto simp: oset_mem_def)
  next
    case 2
    then show ?thesis
      using not_mem_before [OF Cons.prems 2(2)] by simp
  next
    case 3
    then show ?thesis
      by (simp add: oset_mem_def)
  qed
qed

lemma oset_insert_length:
  assumes "sorted_wrt lt ys" and "set ys \<subseteq> carrier" and "x \<in> carrier"
  shows "length (oset_insert lt x ys) = (if oset_mem lt x ys then length ys else Suc (length ys))"
  using assms
proof (induction ys)
  case Nil
  then show ?case by (simp add: oset_mem_def)
next
  case (Cons y ys)
  have IH: "length (oset_insert lt x ys) = (if oset_mem lt x ys then length ys else Suc (length ys))"
    using Cons by simp
  consider "lt y x" | "\<not> lt y x" "lt x y" | "\<not> lt y x" "\<not> lt x y" by blast
  then show ?case
  proof cases
    case 1
    then show ?thesis
      using IH by (simp add: oset_mem_def)
  next
    case 2
    then show ?thesis
      using not_mem_before [OF Cons.prems 2(2)] by simp
  next
    case 3
    then show ?thesis
      by (simp add: oset_mem_def)
  qed
qed

end

section \<open>Small facts on lists and options\<close>

lemma dropWhile_length_le: "length (dropWhile P xs) \<le> length xs"
  by (induction xs) auto

lemma sum_list_take_le: "sum_list (map f (take n xs)) \<le> (sum_list (map f xs) :: nat)"
proof -
  have "sum_list (map f xs) = sum_list (map f (take n xs)) + sum_list (map f (drop n xs))"
    by (metis append_take_drop_id map_append sum_list_append)
  then show ?thesis by simp
qed

lemma option_eqI: "(\<And>x. a = Some x \<longleftrightarrow> b = Some x) \<Longrightarrow> a = b"
  by (cases a; cases b) auto

end
