(* ===== verification/Wrappable.thy ===== *)
theory Wrappable
  imports Prelude
begin

text \<open>\<open>p2engine/wrappable_integer.hpp\<close>: comparison, difference and average of
  integers on a circle, and the class \<open>wrappable_integer\<close>. The template
  parameter \<open>T\<close> is a word of any width; a value is its bit pattern, so that the
  conversions to \<open>make_unsigned<T>\<close> and back are the identity and the signed
  difference is \<open>sint\<close> of the modular one. The negation of the smallest signed
  value, which the source evaluates at the antipodal distance, is the wrapped one.\<close>

section \<open>The comparison functions\<close>

definition wrappable_cmp :: "'w::len word \<Rightarrow> 'w word \<Rightarrow> int" where
  "wrappable_cmp val1 val2 =
     (let dist = val1 - val2; dist_down = dist; dist_up = - dist
      in if dist_up < dist_down then -1 else if dist_up = dist_down then 0 else 1)"

definition wrappable_sub :: "'w::len word \<Rightarrow> 'w word \<Rightarrow> int" where
  "wrappable_sub val1 val2 = sint (val1 - val2)"

definition wrappable_average :: "'w::len word \<Rightarrow> 'w word \<Rightarrow> 'w word" where
  "wrappable_average val1 val2 = val1 + word_of_int (wrappable_sub val2 val1 sdiv 2)"

definition wrappable_minus :: "'w::len word \<Rightarrow> 'w word \<Rightarrow> int" where
  "wrappable_minus l r = sint (l - r)"

definition wrappable_less :: "'w::len word \<Rightarrow> 'w word \<Rightarrow> bool" where
  "wrappable_less l r = (let dist = l - r in - dist < dist)"

definition wrappable_greater :: "'w::len word \<Rightarrow> 'w word \<Rightarrow> bool" where
  "wrappable_greater l r = wrappable_less r l"

definition wrappable_greater3 :: "'w::len word \<Rightarrow> 'w word \<Rightarrow> 'w word \<Rightarrow> bool" where
  "wrappable_greater3 l m r = (wrappable_greater l m \<and> wrappable_greater m r)"

definition wrappable_greater4 ::
  "'w::len word \<Rightarrow> 'w word \<Rightarrow> 'w word \<Rightarrow> 'w word \<Rightarrow> bool" where
  "wrappable_greater4 v1 v2 v3 v4 = (wrappable_greater3 v1 v2 v3 \<and> wrappable_greater v3 v4)"

definition wrappable_greater5 ::
  "'w::len word \<Rightarrow> 'w word \<Rightarrow> 'w word \<Rightarrow> 'w word \<Rightarrow> 'w word \<Rightarrow> bool" where
  "wrappable_greater5 v1 v2 v3 v4 v5 =
     (wrappable_greater4 v1 v2 v3 v4 \<and> wrappable_greater v4 v5)"

definition wrappable_less_equal :: "'w::len word \<Rightarrow> 'w word \<Rightarrow> bool" where
  "wrappable_less_equal l r = (\<not> wrappable_less r l)"

definition wrappable_less_equal3 :: "'w::len word \<Rightarrow> 'w word \<Rightarrow> 'w word \<Rightarrow> bool" where
  "wrappable_less_equal3 l m r = (wrappable_less_equal l m \<and> wrappable_less_equal m r)"

definition wrappable_less_equal4 ::
  "'w::len word \<Rightarrow> 'w word \<Rightarrow> 'w word \<Rightarrow> 'w word \<Rightarrow> bool" where
  "wrappable_less_equal4 v1 v2 v3 v4 =
     (wrappable_less_equal3 v1 v2 v3 \<and> wrappable_less_equal v3 v4)"

definition wrappable_less_equal5 ::
  "'w::len word \<Rightarrow> 'w word \<Rightarrow> 'w word \<Rightarrow> 'w word \<Rightarrow> 'w word \<Rightarrow> bool" where
  "wrappable_less_equal5 v1 v2 v3 v4 v5 =
     (wrappable_less_equal4 v1 v2 v3 v4 \<and> wrappable_less_equal v4 v5)"

definition wrappable_greater_equal :: "'w::len word \<Rightarrow> 'w word \<Rightarrow> bool" where
  "wrappable_greater_equal l r = (\<not> wrappable_less l r)"

definition wrappable_greater_equal3 :: "'w::len word \<Rightarrow> 'w word \<Rightarrow> 'w word \<Rightarrow> bool" where
  "wrappable_greater_equal3 l m r =
     (wrappable_greater_equal l m \<and> wrappable_greater_equal m r)"

definition wrappable_greater_equal4 ::
  "'w::len word \<Rightarrow> 'w word \<Rightarrow> 'w word \<Rightarrow> 'w word \<Rightarrow> bool" where
  "wrappable_greater_equal4 v1 v2 v3 v4 =
     (wrappable_greater_equal3 v1 v2 v3 \<and> wrappable_greater_equal v3 v4)"

definition wrappable_greater_equal5 ::
  "'w::len word \<Rightarrow> 'w word \<Rightarrow> 'w word \<Rightarrow> 'w word \<Rightarrow> 'w word \<Rightarrow> bool" where
  "wrappable_greater_equal5 v1 v2 v3 v4 v5 =
     (wrappable_greater_equal4 v1 v2 v3 v4 \<and> wrappable_greater_equal v4 v5)"

section \<open>The class\<close>

text \<open>\<open>wrappable_integer<T>\<close> has one field. Its mutating operators return the
  updated object; \<open>boost::operators\<close> derives the rest from \<open><\<close> and \<open>==\<close>.\<close>

record 'i wrappable_integer =
  wi_value :: 'i

definition wi_default :: "('w::len word) wrappable_integer" where
  "wi_default = \<lparr>wi_value = 0\<rparr>"

definition wi_of :: "'w::len word \<Rightarrow> ('w word) wrappable_integer" where
  "wi_of v = \<lparr>wi_value = v\<rparr>"

definition wi_less :: "('w::len word) wrappable_integer \<Rightarrow> ('w word) wrappable_integer \<Rightarrow> bool" where
  "wi_less a b = wrappable_less (wi_value a) (wi_value b)"

definition wi_eq :: "('w::len word) wrappable_integer \<Rightarrow> ('w word) wrappable_integer \<Rightarrow> bool" where
  "wi_eq a b = (wi_value a = wi_value b)"

definition wi_plus :: "('w::len word) wrappable_integer \<Rightarrow> 'w word \<Rightarrow> ('w word) wrappable_integer" where
  "wi_plus a v = a\<lparr>wi_value := wi_value a + v\<rparr>"

definition wi_minus :: "('w::len word) wrappable_integer \<Rightarrow> 'w word \<Rightarrow> ('w word) wrappable_integer" where
  "wi_minus a v = a\<lparr>wi_value := wi_value a - v\<rparr>"

definition wi_times ::
  "('w::len word) wrappable_integer \<Rightarrow> ('w word) wrappable_integer \<Rightarrow> ('w word) wrappable_integer" where
  "wi_times a b = a\<lparr>wi_value := wi_value a * wi_value b\<rparr>"

definition wi_or ::
  "('w::len word) wrappable_integer \<Rightarrow> ('w word) wrappable_integer \<Rightarrow> ('w word) wrappable_integer" where
  "wi_or a b = a\<lparr>wi_value := wi_value a OR wi_value b\<rparr>"

definition wi_and ::
  "('w::len word) wrappable_integer \<Rightarrow> ('w word) wrappable_integer \<Rightarrow> ('w word) wrappable_integer" where
  "wi_and a b = a\<lparr>wi_value := wi_value a AND wi_value b\<rparr>"

definition wi_xor ::
  "('w::len word) wrappable_integer \<Rightarrow> ('w word) wrappable_integer \<Rightarrow> ('w word) wrappable_integer" where
  "wi_xor a b = a\<lparr>wi_value := wi_value a XOR wi_value b\<rparr>"

definition wi_incr :: "('w::len word) wrappable_integer \<Rightarrow> ('w word) wrappable_integer" where
  "wi_incr a = a\<lparr>wi_value := wi_value a + 1\<rparr>"

definition wi_decr :: "('w::len word) wrappable_integer \<Rightarrow> ('w word) wrappable_integer" where
  "wi_decr a = a\<lparr>wi_value := wi_value a - 1\<rparr>"

definition wi_max_distance :: "'w::len itself \<Rightarrow> 'w word" where
  "wi_max_distance t = of_nat (2 ^ (LENGTH('w) - 1) - 1)"

section \<open>The window reading\<close>

lemma uint_neg_nz:
  fixes d :: "'w::len word"
  assumes "d \<noteq> 0"
  shows "uint (- d) = 2 ^ LENGTH('w) - uint d"
  using assms uint_word_ariths(4) [of d] uint_lt2p [of d]
  by (simp add: zmod_zminus1_eq_if) (metis mod_pos_pos_trivial uint_0_iff uint_ge_0)

lemma neg_less_iff_half:
  fixes d :: "'w::len word"
  shows "d < - d \<longleftrightarrow> 0 < uint d \<and> 2 * uint d < 2 ^ LENGTH('w)"
proof (cases "d = 0")
  case False
  then have pos: "0 < uint d"
    using uint_ge_0 [of d] uint_0_iff [of d] by linarith
  then show ?thesis
    using uint_neg_nz [OF False] pos by (auto simp: word_less_def)
qed simp

lemma wrappable_less_window [wrap_simps]:
  fixes l r :: "'w::len word"
  shows "wrappable_less l r \<longleftrightarrow> 0 < uint (r - l) \<and> 2 * uint (r - l) < 2 ^ LENGTH('w)"
  using neg_less_iff_half [of "r - l"] by (simp add: wrappable_less_def)

lemma wrappable_less_shift [simp]:
  "wrappable_less (a + c) (b + c) = wrappable_less a (b :: 'w::len word)"
  by (simp add: wrappable_less_def)

lemma wrappable_less_irrefl [simp]: "\<not> wrappable_less a a"
  by (simp add: wrappable_less_def)

lemma uint_sub_sum:
  fixes a b c :: "'w::len word"
  assumes "2 * uint (b - a) < 2 ^ LENGTH('w)" and "2 * uint (c - b) < 2 ^ LENGTH('w)"
  shows "uint (c - a) = uint (b - a) + uint (c - b)"
proof -
  have "c - a = (b - a) + (c - b)" by simp
  then have "uint (c - a) = (uint (b - a) + uint (c - b)) mod 2 ^ LENGTH('w)"
    by (metis uint_word_ariths(1))
  then show ?thesis
    using assms by simp
qed

lemma wrappable_less_asym: "wrappable_less a b \<Longrightarrow> \<not> wrappable_less b a"
  by (auto simp: wrappable_less_def)

section \<open>Half windows\<close>

text \<open>The values at most half a circle ahead of a base: what a sequence-number
  container holds at one time. Inside a half window the comparison is the order of
  the distances from the base, so it is a strict order; outside it is not transitive.\<close>

definition half_window :: "'w::len word \<Rightarrow> 'w word set" where
  "half_window b = {x. 2 * uint (x - b) < 2 ^ LENGTH('w)}"

lemma uint_sub_diff:
  fixes a b c :: "'w::len word"
  assumes "uint (x - b) \<le> uint (y - b)"
  shows "uint (y - x) = uint (y - b) - uint (x - b :: 'w word)"
proof -
  have "y - x = (y - b) - (x - b)" by simp
  then have "uint (y - x) = (uint (y - b) - uint (x - b)) mod 2 ^ LENGTH('w)"
    by (metis uint_word_ariths(2))
  moreover have "uint (y - b) - uint (x - b) < 2 ^ LENGTH('w)"
    using uint_lt2p [of "y - b"] uint_ge_0 [of "x - b"] by linarith
  ultimately show ?thesis
    using assms by simp
qed

lemma less_dist_imp_less:
  fixes x y b :: "'w::len word"
  assumes "y \<in> half_window b" and "uint (x - b) < uint (y - b)"
  shows "wrappable_less x y"
proof -
  have "uint (y - x) = uint (y - b) - uint (x - b)"
    using uint_sub_diff [of x b y] assms(2) by simp
  then show ?thesis
    using assms uint_ge_0 [of "x - b"] unfolding wrappable_less_window half_window_def mem_Collect_eq
    by linarith
qed

lemma less_iff_dist_less:
  fixes x y b :: "'w::len word"
  assumes "x \<in> half_window b" and "y \<in> half_window b"
  shows "wrappable_less x y \<longleftrightarrow> uint (x - b) < uint (y - b)"
proof (cases "uint (x - b) = uint (y - b)")
  case True
  then have "x = y"
    by (simp add: word_uint_eq_iff [symmetric])
  then show ?thesis by simp
next
  case False
  then show ?thesis
    using less_dist_imp_less [OF assms(2)] less_dist_imp_less [OF assms(1)]
      wrappable_less_asym [of x y] by (metis linorder_neqE_linordered_idom order_less_asym)
qed

interpretation seqwin: carrier_order wrappable_less "half_window b" for b :: "'w::len word"
  by unfold_locales (auto simp: less_iff_dist_less)

lemma half_window_base [simp]: "b \<in> half_window b"
  by (simp add: half_window_def)

lemma mem_half_window_iff: "x \<in> half_window b \<longleftrightarrow> x = b \<or> wrappable_less b x"
  using uint_0_iff [of "x - b"] uint_ge_0 [of "x - b"]
  by (auto simp: half_window_def wrap_simps less_le)

lemma total_in_window:
  assumes "x \<in> half_window b" and "y \<in> half_window b" and "x \<noteq> y"
  shows "wrappable_less x y \<or> wrappable_less y x"
proof -
  have "uint (x - b) \<noteq> uint (y - b)"
    using assms(3) by (simp add: word_uint_eq_iff [symmetric])
  then show ?thesis
    using assms less_iff_dist_less by (metis linorder_neqE_linordered_idom)
qed

lemma antipodal_unordered:
  fixes a b :: "'w::len word"
  assumes "2 * uint (b - a) = 2 ^ LENGTH('w)"
  shows "\<not> wrappable_less a b \<and> \<not> wrappable_less b a"
proof -
  have nz: "b - a \<noteq> 0" using assms by auto
  have "a - b = - (b - a)" by simp
  then have "uint (a - b) = 2 ^ LENGTH('w) - uint (b - a)"
    using uint_neg_nz [OF nz] by simp
  then show ?thesis
    using assms by (simp add: wrap_simps)
qed

section \<open>Properties\<close>

lemma three_way:
  "(if p < q then -1 else if p = q then 0 else 1) =
   (if p < q then -1 else if q < p then 1 else (0 :: int))" for p q :: "'a::linorder"
  by auto

lemma cmp_cases:
  "wrappable_cmp a b = (if wrappable_less a b then -1 else if wrappable_less b a then 1
     else 0)" for a b :: "'w::len word"
  unfolding wrappable_cmp_def wrappable_less_def Let_def minus_diff_eq
  by (rule three_way)

text \<open>In the half circle ahead of any base value, the three-way comparison, the
  less-than, and the derived comparisons all are the order of the distances from the base;
  so a container keyed by sequence numbers is ordered as long as its keys lie in one half
  circle, wherever the circle wraps.\<close>
lemma wrappable_order_in_window:
  fixes x y b :: "'w::len word"
  assumes "x \<in> half_window b" and "y \<in> half_window b"
  shows "wrappable_cmp x y = sgn (uint (x - b) - uint (y - b))
    \<and> wrappable_less x y = (uint (x - b) < uint (y - b))
    \<and> wrappable_less_equal x y = (uint (x - b) \<le> uint (y - b))
    \<and> wrappable_greater x y = (uint (x - b) > uint (y - b))
    \<and> wrappable_greater_equal x y = (uint (x - b) \<ge> uint (y - b))"
  using less_iff_dist_less [OF assms] less_iff_dist_less [OF assms(2,1)]
  by (auto simp: cmp_cases wrappable_less_equal_def wrappable_greater_def
      wrappable_greater_equal_def)

text \<open>The comparison is not an order of the whole circle: it does not depend on where
  the circle is cut, it is asymmetric, two values half a circle apart are unordered
  although different, and the less-than of three values can be cyclic.\<close>
lemma wrappable_less_circle:
  "(\<forall>a b c :: u16. wrappable_less (a + c) (b + c) = wrappable_less a b)
   \<and> (\<forall>a b :: u16. \<not> (wrappable_less a b \<and> wrappable_less b a))
   \<and> (\<forall>a :: u16. wrappable_cmp a (a + 0x8000) = 0 \<and> a + 0x8000 \<noteq> a)
   \<and> wrappable_greater4 (0 :: u16) 0xaaaa 0x5555 0"
proof -
  have half: "wrappable_cmp a (a + 0x8000) = 0 \<and> a + 0x8000 \<noteq> a" for a :: u16
    using antipodal_unordered [of "a + 0x8000" a] by (simp add: cmp_cases)
  have cyc: "wrappable_greater4 (0 :: u16) 0xaaaa 0x5555 0"
    by (simp add: wrappable_greater4_def wrappable_greater3_def wrappable_greater_def
        wrappable_less_def)
  show ?thesis
    using half cyc wrappable_less_asym by auto
qed

lemma sint_small_int:
  assumes "- (2 ^ (LENGTH('w) - 1)) \<le> k" and "k < 2 ^ (LENGTH('w) - 1)"
  shows "sint (word_of_int k :: 'w::len word) = k"
  using signed_take_bit_int_eq_self [OF assms] by (simp only: sint_sbintrunc')

lemma half_power: "(2 :: int) ^ LENGTH('w::len) = 2 * 2 ^ (LENGTH('w) - 1)"
  by (metis One_nat_def Suc_pred len_gt_0 power_Suc)

lemma sint_small:
  fixes d :: "'w::len word"
  assumes "2 * uint d < 2 ^ LENGTH('w)"
  shows "sint d = uint d" and "sint (- d) = - uint d"
proof -
  have lt: "uint d < 2 ^ (LENGTH('w) - 1)" and ge: "0 \<le> uint d"
    using assms half_power [where 'w = 'w] uint_ge_0 [of d] by simp_all
  have pos: "(0 :: int) < 2 ^ (LENGTH('w) - 1)" by simp
  show "sint d = uint d"
    using sint_small_int [of "uint d", where 'w = 'w] lt ge pos by simp
  have "sint (word_of_int (- uint d) :: 'w word) = - uint d"
    by (rule sint_small_int) (use lt ge pos in linarith)+
  then show "sint (- d) = - uint d"
    by (simp add: wi_hom_neg [symmetric])
qed

lemma uint_word_of_small:
  assumes "0 \<le> k" and "k < 2 ^ LENGTH('w)"
  shows "uint (word_of_int k :: 'w::len word) = k"
  using assms by (simp add: uint_word_of_int)

text \<open>The difference read as a signed number is exact and moves one value to the
  other, with a magnitude of at most half the circle, and the average of two values that are
  less than half a circle apart is the midpoint of the shorter arc between them, whichever
  is given first and wherever the circle wraps (rounded towards the first argument).\<close>
lemma wrappable_sub_average:
  fixes a b :: "'w::len word"
  assumes "2 * uint (b - a) < 2 ^ LENGTH('w)"
  shows "wrappable_sub b a = uint (b - a) \<and> wrappable_sub a b = - uint (b - a)
    \<and> b + word_of_int (wrappable_sub a b) = a
    \<and> uint (wrappable_average a b - a) = uint (b - a) div 2
    \<and> uint (wrappable_average b a - a) = uint (b - a) - uint (b - a) div 2"
proof -
  let ?d = "uint (b - a)"
  have d: "0 \<le> ?d" "?d < 2 ^ LENGTH('w)" using assms by auto
  have s: "wrappable_sub b a = ?d" "wrappable_sub a b = - ?d"
    using sint_small [OF assms] by (simp_all add: wrappable_sub_def)
  have q: "?d sdiv 2 = ?d div 2" "(- ?d) sdiv 2 = - (?d div 2)"
    using d by (simp_all add: signed_divide_int_def sgn_if)
  have inv: "b + word_of_int (wrappable_sub a b) = a"
    by (simp add: s wi_hom_neg [symmetric])
  have m1: "wrappable_average a b - a = word_of_int (?d div 2)"
    by (simp add: wrappable_average_def s q)
  have "wrappable_average b a - a = (b - a) + word_of_int (- (?d div 2))"
    by (simp add: wrappable_average_def s q)
  also have "\<dots> = word_of_int (?d - ?d div 2)"
    by (simp add: wi_hom_neg [symmetric] wi_hom_sub [symmetric])
  finally have m2: "wrappable_average b a - a = word_of_int (?d - ?d div 2)" .
  have u1: "uint (word_of_int (?d div 2) :: 'w word) = ?d div 2"
    by (rule uint_word_of_small) (use d in linarith)+
  have u2: "uint (word_of_int (?d - ?d div 2) :: 'w word) = ?d - ?d div 2"
    by (rule uint_word_of_small) (use d in linarith)+
  show ?thesis
    using s inv u1 u2 unfolding m1 m2 by blast
qed

end
