(* ===== verification/Op_Mark.thy ===== *)
theory Op_Mark
  imports Complex_Main Wrappable
begin

text \<open>\<open>p2engine/operation_mark.hpp\<close>: the stamps by which asynchronous operations are
  cancelled, and \<open>p2engine/random.hpp\<close>: the generator and the bounded draws. Stamps are
  32-bit and compared on the circle.\<close>

section \<open>Operation marks\<close>

type_synonym op_stamp_t = u32

record operation_mark =
  om_stamp :: op_stamp_t
  om_cancel :: op_stamp_t

definition operation_mark_new :: operation_mark where
  "operation_mark_new = \<lparr>om_stamp = 0, om_cancel = 0\<rparr>"

definition next_op_stamp :: "operation_mark \<Rightarrow> operation_mark" where
  "next_op_stamp m = m\<lparr>om_stamp := om_stamp m + 1\<rparr>"

definition set_cancel :: "operation_mark \<Rightarrow> operation_mark" where
  "set_cancel m = m\<lparr>om_cancel := om_stamp m\<rparr>"

definition is_canceled_op :: "op_stamp_t \<Rightarrow> operation_mark \<Rightarrow> bool" where
  "is_canceled_op stamp m = wrappable_less_equal stamp (om_cancel m)"

definition dispatch_handler :: "('s \<Rightarrow> 's) \<Rightarrow> op_stamp_t \<Rightarrow> operation_mark \<Rightarrow> 's \<Rightarrow> 's" where
  "dispatch_handler handler stamp m s = (if \<not> is_canceled_op stamp m then handler s else s)"

section \<open>Random numbers\<close>

text \<open>The five-word xorshift state of \<open>random()\<close>; the seed \<open>x\<close> is taken from
  the clock and the process id.\<close>

record rng =
  rng_x :: u32
  rng_y :: u32
  rng_z :: u32
  rng_w :: u32
  rng_v :: u32
  rng_d :: u32

definition rng_seed :: "u32 \<Rightarrow> rng" where
  "rng_seed seed = \<lparr>rng_x = seed, rng_y = 362436069, rng_z = 521288629, rng_w = 88675123,
     rng_v = 5783321, rng_d = 6615241\<rparr>"

definition random_u32 :: "rng \<Rightarrow> u32 \<times> rng" where
  "random_u32 r =
     (let t = rng_x r XOR drop_bit 2 (rng_x r);
          v = (rng_v r XOR push_bit 4 (rng_v r)) XOR (t XOR push_bit 1 t);
          d = rng_d r + 362437
      in (d + v, \<lparr>rng_x = rng_y r, rng_y = rng_z r, rng_z = rng_w r, rng_w = rng_v r,
                  rng_v = v, rng_d = d\<rparr>))"

text \<open>\<open>range_random\<close> for an integer type of less than 64 bits: the draw is reduced
  modulo the width of the interval, the upper end is excluded.\<close>

definition range_random :: "int \<Rightarrow> int \<Rightarrow> rng \<Rightarrow> int \<times> rng" where
  "range_random from to r =
     (if from = to then (from, r)
      else let (x, r') = random_u32 r in (from + uint x mod (to - from), r'))"

text \<open>\<open>random01\<close> and the draw from an interval of doubles; the source subtracts an
  epsilon that is below the resolution of the quotient.\<close>

definition random01 :: "rng \<Rightarrow> rat \<times> rng" where
  "random01 r = (let (x, r') = random_u32 r in (of_int (uint x) / of_int (2 ^ 32 - 1), r'))"

definition range_random_double :: "rat \<Rightarrow> rat \<Rightarrow> rng \<Rightarrow> rat \<times> rng" where
  "range_random_double from to r = (let (x, r') = random01 r in (from + (to - from) * x, r'))"

section \<open>Facts\<close>

text \<open>The stamps handed out since the last cancellation are less than half a circle
  ahead of it.\<close>

definition om_ok :: "operation_mark \<Rightarrow> bool" where
  "om_ok m = (om_stamp m \<in> half_window (om_cancel m))"

lemma om_ok_cancel [simp]: "om_ok (set_cancel m)"
  by (simp add: om_ok_def set_cancel_def)

lemma canceled_iff: "is_canceled_op s m \<longleftrightarrow> \<not> wrappable_less (om_cancel m) s"
  by (simp add: is_canceled_op_def wrappable_less_equal_def)

lemma current_canceled_iff:
  "om_ok m \<Longrightarrow> is_canceled_op (om_stamp m) m \<longleftrightarrow> om_stamp m = om_cancel m"
  by (auto simp: canceled_iff om_ok_def mem_half_window_iff)

lemma set_cancel_idem [simp]: "set_cancel (set_cancel m) = set_cancel m"
  by (simp add: set_cancel_def)

lemma om_stamp_set_cancel [simp]: "om_stamp (set_cancel m) = om_stamp m"
  by (simp add: set_cancel_def)

lemma is_canceled_after_cancel [simp]: "is_canceled_op (om_stamp m) (set_cancel m)"
  by (simp add: canceled_iff set_cancel_def)

lemma range_random_bounds:
  "from < to \<Longrightarrow> from \<le> fst (range_random from to r) \<and> fst (range_random from to r) < to"
  using pos_mod_bound [of "to - from" "uint (fst (random_u32 r))"]
    pos_mod_sign [of "to - from" "uint (fst (random_u32 r))"]
  by (simp add: range_random_def case_prod_unfold Let_def del: pos_mod_bound)

lemma random01_bounds: "0 \<le> fst (random01 r) \<and> fst (random01 r) \<le> 1"
proof -
  have "uint (fst (random_u32 r)) \<le> 2 ^ 32 - 1"
    using uint_lt2p [of "fst (random_u32 r)"] by simp
  then have "(of_int (uint (fst (random_u32 r))) :: rat) \<le> of_int (2 ^ 32 - 1)"
    by (simp only: of_int_le_iff)
  moreover have "(0 :: rat) \<le> of_int (uint (fst (random_u32 r)))"
    by (simp only: of_int_0_le_iff uint_ge_0)
  ultimately show ?thesis
    by (simp add: random01_def case_prod_unfold Let_def)
qed

section \<open>Properties\<close>

text \<open>Cancelling an object cancels the operations it has started and none it starts
  later: after a cancellation every stamp of the last half circle counts as cancelled, and
  the stamp of the next operation does not, also when the 32-bit stamp wraps.\<close>
lemma cancel_covers_started_only:
  assumes "om_stamp m \<in> half_window s" and "n < 2 ^ 31 - 1"
  shows "is_canceled_op s (set_cancel m)
    \<and> \<not> is_canceled_op (om_stamp ((next_op_stamp ^^ Suc n) (set_cancel m)))
          ((next_op_stamp ^^ Suc n) (set_cancel m))"
proof -
  have stamp: "(next_op_stamp ^^ k) x = x\<lparr>om_stamp := om_stamp x + of_nat k\<rparr>" for k x
    by (induction k) (simp_all add: next_op_stamp_def algebra_simps)
  have "uint (of_nat (Suc n) :: u32) = int (Suc n)"
    using assms(2) by (simp add: uint_nat unat_of_nat del: of_nat_Suc)
  then have "wrappable_less c (c + of_nat (Suc n))" for c :: u32
    using assms(2) by (simp add: wrap_simps del: of_nat_Suc)
  then have later: "\<not> is_canceled_op (om_stamp ((next_op_stamp ^^ Suc n) (set_cancel m)))
          ((next_op_stamp ^^ Suc n) (set_cancel m))"
    unfolding stamp canceled_iff by (simp add: set_cancel_def del: of_nat_Suc)
  have "\<not> wrappable_less (om_stamp m) s"
    using assms(1) wrappable_less_asym by (auto simp: mem_half_window_iff)
  then show ?thesis
    using later by (simp add: canceled_iff set_cancel_def)
qed

end
