(* ===== verification/Keeper.thy ===== *)
theory Keeper
  imports Prelude
begin

text \<open>\<open>p2engine/keeper.hpp\<close>: the set and the map whose entries expire. The
  multi-index container is the list of its elements in the order of the out-time index
  (insertion puts an element after those of equal out time); the unique index by key is a
  search in that list. The clock is read once per operation and passed as \<open>now\<close>; the
  expiry signal is the list of the data it is raised for. An iterator is the key it stands at.\<close>

record 'd eliment =
  e_data :: 'd
  e_out :: tick
  e_keep :: tick

type_synonym 'd keeper = "'d eliment list"

section \<open>The shared index operations\<close>

definition out_insert :: "'d eliment \<Rightarrow> 'd keeper \<Rightarrow> 'd keeper" where
  "out_insert e es = omset_insert (\<lambda>a b. e_out a < e_out b) e es"

fun expire_loop :: "(tick \<Rightarrow> tick \<Rightarrow> bool) \<Rightarrow> tick \<Rightarrow> 'd keeper \<Rightarrow> 'd list \<times> 'd keeper" where
  "expire_loop expired now [] = ([], [])"
| "expire_loop expired now (e # es) =
     (if expired (e_out e) now
      then let (sigs, rest) = expire_loop expired now es in (e_data e # sigs, rest)
      else ([], e # es))"

definition find_key :: "('d \<Rightarrow> 'k) \<Rightarrow> 'k \<Rightarrow> 'd keeper \<Rightarrow> 'd eliment option" where
  "find_key key k es = find (\<lambda>e. key (e_data e) = k) es"

definition erase_key :: "('d \<Rightarrow> 'k) \<Rightarrow> 'k \<Rightarrow> 'd keeper \<Rightarrow> 'd keeper" where
  "erase_key key k es = filter (\<lambda>e. key (e_data e) \<noteq> k) es"

section \<open>\<open>timed_keeper_set\<close>\<close>

definition set_expired :: "tick \<Rightarrow> tick \<Rightarrow> bool" where
  "set_expired out now = (out \<le> now)"

definition set_clear_timeout :: "tick \<Rightarrow> 'k keeper \<Rightarrow> 'k list \<times> 'k keeper" where
  "set_clear_timeout now s = expire_loop set_expired now s"

definition set_try_keep :: "'k \<Rightarrow> tick \<Rightarrow> tick \<Rightarrow> 'k keeper \<Rightarrow> bool \<times> 'k list \<times> 'k keeper" where
  "set_try_keep d t now s =
     (let (sigs, s1) = set_clear_timeout now s
      in if find_key id d s1 \<noteq> None then (False, sigs, s1)
         else (True, sigs, out_insert \<lparr>e_data = d, e_out = now + t, e_keep = now\<rparr> s1))"

definition set_is_keeped :: "'k \<Rightarrow> tick \<Rightarrow> 'k keeper \<Rightarrow> bool \<times> 'k list \<times> 'k keeper" where
  "set_is_keeped d now s =
     (let (sigs, s1) = set_clear_timeout now s in (find_key id d s1 \<noteq> None, sigs, s1))"

text \<open>\<open>None\<close> is the negative infinity the source answers for an absent key.\<close>

definition set_expires_time :: "'k \<Rightarrow> tick \<Rightarrow> 'k keeper \<Rightarrow> tick option \<times> 'k list \<times> 'k keeper" where
  "set_expires_time d now s =
     (let (sigs, s1) = set_clear_timeout now s
      in (map_option (\<lambda>e. now - e_keep e) (find_key id d s1), sigs, s1))"

definition set_remain_time :: "'k \<Rightarrow> tick \<Rightarrow> 'k keeper \<Rightarrow> tick option \<times> 'k list \<times> 'k keeper" where
  "set_remain_time d now s =
     (let (sigs, s1) = set_clear_timeout now s
      in (map_option (\<lambda>e. e_out e - now) (find_key id d s1), sigs, s1))"

definition set_max_remain_time :: "tick \<Rightarrow> 'k keeper \<Rightarrow> tick" where
  "set_max_remain_time now s = (if s = [] then 0 else e_out (last s) - now)"

definition set_min_remain_time :: "tick \<Rightarrow> 'k keeper \<Rightarrow> tick" where
  "set_min_remain_time now s = (if s = [] then 0 else e_out (hd s) - now)"

definition set_erase :: "'k \<Rightarrow> tick \<Rightarrow> 'k keeper \<Rightarrow> 'k list \<times> 'k keeper" where
  "set_erase d now s = (let (sigs, s1) = set_clear_timeout now s in (sigs, erase_key id d s1))"

text \<open>Erasing through an iterator clears the expired elements first, the one the iterator
  stands at among them: then the iterator dangles (\<open>None\<close>).\<close>

definition set_erase_at :: "'k \<Rightarrow> tick \<Rightarrow> 'k keeper \<Rightarrow> ('k list \<times> 'k keeper) option" where
  "set_erase_at d now s =
     (let (sigs, s1) = set_clear_timeout now s
      in if find_key id d s1 = None then None else Some (sigs, erase_key id d s1))"

definition set_size :: "tick \<Rightarrow> 'k keeper \<Rightarrow> nat \<times> 'k list \<times> 'k keeper" where
  "set_size now s = (let (sigs, s1) = set_clear_timeout now s in (length s1, sigs, s1))"

definition set_clear_timeout_before ::
  "'k \<Rightarrow> tick \<Rightarrow> 'k keeper \<Rightarrow> ('k list \<times> 'k keeper) option" where
  "set_clear_timeout_before d now s =
     (case find_key id d s of None \<Rightarrow> None
      | Some e \<Rightarrow> Some (set_clear_timeout (now + (e_out e - now)) s))"

section \<open>\<open>timed_keeper_map\<close>\<close>

definition map_expired :: "tick \<Rightarrow> tick \<Rightarrow> bool" where
  "map_expired out now = (out < now)"

definition map_clear_timeout ::
  "tick \<Rightarrow> ('k \<times> 'v) keeper \<Rightarrow> ('k \<times> 'v) list \<times> ('k \<times> 'v) keeper" where
  "map_clear_timeout now s = expire_loop map_expired now s"

definition map_try_keep :: "('k \<times> 'v) \<Rightarrow> tick \<Rightarrow> tick \<Rightarrow> ('k \<times> 'v) keeper \<Rightarrow>
    bool \<times> ('k \<times> 'v) list \<times> ('k \<times> 'v) keeper" where
  "map_try_keep d t now s =
     (let (sigs, s1) = map_clear_timeout now s
      in if find_key fst (fst d) s1 \<noteq> None then (False, sigs, s1)
         else (True, sigs, out_insert \<lparr>e_data = d, e_out = now + t, e_keep = now\<rparr> s1))"

definition map_is_keeped :: "'k \<Rightarrow> tick \<Rightarrow> ('k \<times> 'v) keeper \<Rightarrow>
    bool \<times> ('k \<times> 'v) list \<times> ('k \<times> 'v) keeper" where
  "map_is_keeped k now s =
     (let (sigs, s1) = map_clear_timeout now s in (find_key fst k s1 \<noteq> None, sigs, s1))"

definition map_find :: "'k \<Rightarrow> tick \<Rightarrow> ('k \<times> 'v) keeper \<Rightarrow>
    'v option \<times> ('k \<times> 'v) list \<times> ('k \<times> 'v) keeper" where
  "map_find k now s =
     (let (sigs, s1) = map_clear_timeout now s
      in (map_option (\<lambda>e. snd (e_data e)) (find_key fst k s1), sigs, s1))"

definition map_expires_time :: "'k \<Rightarrow> tick \<Rightarrow> ('k \<times> 'v) keeper \<Rightarrow>
    tick option \<times> ('k \<times> 'v) list \<times> ('k \<times> 'v) keeper" where
  "map_expires_time k now s =
     (let (sigs, s1) = map_clear_timeout now s
      in (map_option (\<lambda>e. now - e_keep e) (find_key fst k s1), sigs, s1))"

definition map_remain_time :: "'k \<Rightarrow> tick \<Rightarrow> ('k \<times> 'v) keeper \<Rightarrow>
    tick option \<times> ('k \<times> 'v) list \<times> ('k \<times> 'v) keeper" where
  "map_remain_time k now s =
     (let (sigs, s1) = map_clear_timeout now s
      in (map_option (\<lambda>e. e_out e - now) (find_key fst k s1), sigs, s1))"

definition map_erase :: "'k \<Rightarrow> tick \<Rightarrow> ('k \<times> 'v) keeper \<Rightarrow>
    ('k \<times> 'v) list \<times> ('k \<times> 'v) keeper" where
  "map_erase k now s = (let (sigs, s1) = map_clear_timeout now s in (sigs, erase_key fst k s1))"

definition map_erase_at :: "'k \<Rightarrow> tick \<Rightarrow> ('k \<times> 'v) keeper \<Rightarrow>
    (('k \<times> 'v) list \<times> ('k \<times> 'v) keeper) option" where
  "map_erase_at k now s =
     (let (sigs, s1) = map_clear_timeout now s
      in if find_key fst k s1 = None then None else Some (sigs, erase_key fst k s1))"

definition map_size :: "tick \<Rightarrow> ('k \<times> 'v) keeper \<Rightarrow>
    nat \<times> ('k \<times> 'v) list \<times> ('k \<times> 'v) keeper" where
  "map_size now s = (let (sigs, s1) = map_clear_timeout now s in (length s1, sigs, s1))"

section \<open>The abstract keeper: deadlines per key\<close>

definition keeper_abs :: "('d \<Rightarrow> 'k) \<Rightarrow> 'd keeper \<Rightarrow> 'k \<Rightarrow> tick option" where
  "keeper_abs key s k = map_option e_out (find_key key k s)"

definition keeper_inv :: "('d \<Rightarrow> 'k) \<Rightarrow> 'd keeper \<Rightarrow> bool" where
  "keeper_inv key s \<longleftrightarrow> distinct (map (\<lambda>e. key (e_data e)) s) \<and> sorted (map e_out s)"

text \<open>The answers to a sequence of attempts, each with its key, its time to keep and the
  clock.\<close>

fun attempts :: "('d \<Rightarrow> tick \<Rightarrow> tick \<Rightarrow> 's \<Rightarrow> bool \<times> 'e \<times> 's) \<Rightarrow>
    ('d \<times> tick \<times> tick) list \<Rightarrow> 's \<Rightarrow> bool list" where
  "attempts attempt [] s = []"
| "attempts attempt ((d, t, now) # as) s =
     fst (attempt d t now s) # attempts attempt as (snd (snd (attempt d t now s)))"

text \<open>The contract of a keeper, whatever the comparison that decides expiry: a state is a
  finite map from keys to deadlines, an attempt first drops the expired keys, succeeds iff the
  key is then absent, and in that case sets its deadline.\<close>

locale timed_keeper =
  fixes attempt :: "'d \<Rightarrow> tick \<Rightarrow> tick \<Rightarrow> 's \<Rightarrow> bool \<times> 'e \<times> 's"
    and abs :: "'s \<Rightarrow> 'k \<Rightarrow> tick option"
    and inv :: "'s \<Rightarrow> bool"
    and key :: "'d \<Rightarrow> 'k"
    and expired :: "tick \<Rightarrow> tick \<Rightarrow> bool"
  assumes inv_attempt: "inv s \<Longrightarrow> inv (snd (snd (attempt d t now s)))"
    and attempt_iff: "inv s \<Longrightarrow> fst (attempt d t now s) \<longleftrightarrow>
          (case abs s (key d) of None \<Rightarrow> True | Some out \<Rightarrow> expired out now)"
    and abs_attempt: "inv s \<Longrightarrow> abs (snd (snd (attempt d t now s))) k =
          (if fst (attempt d t now s) \<and> k = key d then Some (now + t)
           else case abs s k of None \<Rightarrow> None
                | Some out \<Rightarrow> if expired out now then None else Some out)"
    and expired_mono: "expired out now \<Longrightarrow> now \<le> later \<Longrightarrow> expired out later"
begin

lemma kept_stays:
  assumes "inv s" and "abs s (key d) = Some out" and "\<not> expired out now"
  shows "\<not> fst (attempt d t now s)"
    and "abs (snd (snd (attempt d' t' now s))) (key d) = Some out"
  using assms attempt_iff [OF assms(1), of d t now] abs_attempt [OF assms(1)]
    attempt_iff [OF assms(1), of d' t' now]
  by auto

lemma no_success_before_deadline:
  assumes "inv s" and "abs s k = Some out" and "j < length as"
    and "attempts attempt as s ! j" and "key (fst (as ! j)) = k"
    and "sorted (map (\<lambda>a. snd (snd a)) as)"
  shows "expired out (snd (snd (as ! j)))"
  using assms
proof (induction as arbitrary: s j)
  case (Cons a as)
  obtain d t now where a: "a = (d, t, now)" by (cases a)
  show ?case
  proof (cases j)
    case 0
    then show ?thesis
      using Cons.prems attempt_iff [OF Cons.prems(1), of d t now] a by simp
  next
    case (Suc i)
    have le: "now \<le> snd (snd (as ! i))"
      using Cons.prems(3,6) Suc a nth_mem [of i as] by auto
    show ?thesis
    proof (cases "expired out now")
      case True
      then show ?thesis
        using expired_mono le Suc by simp
    next
      case False
      have "abs (snd (snd (attempt d t now s))) k = Some out"
        using kept_stays(2) [OF Cons.prems(1) _ False, of "fst (as ! i)" d t] Cons.prems(2,5) Suc
        by simp
      then show ?thesis
        using Cons.IH [OF inv_attempt [OF Cons.prems(1)], of d t now i] Cons.prems Suc a by simp
    qed
  qed
qed simp

lemma successes_spaced:
  assumes "inv s" and "sorted (map (\<lambda>a. snd (snd a)) as)" and "i < j" and "j < length as"
    and "attempts attempt as s ! i" and "attempts attempt as s ! j"
    and "key (fst (as ! i)) = key (fst (as ! j))"
  shows "expired (snd (snd (as ! i)) + fst (snd (as ! i))) (snd (snd (as ! j)))"
  using assms
proof (induction as arbitrary: s i j)
  case (Cons a as)
  obtain d t now where a: "a = (d, t, now)" by (cases a)
  obtain j' where j: "j = Suc j'" using Cons.prems(3) by (cases j) auto
  show ?case
  proof (cases i)
    case 0
    have "abs (snd (snd (attempt d t now s))) (key d) = Some (now + t)"
      using abs_attempt [OF Cons.prems(1), of d t now "key d"] Cons.prems(5) 0 a by simp
    then show ?thesis
      using no_success_before_deadline [OF inv_attempt [OF Cons.prems(1), of d t now], of "key d"
          "now + t" j' as] Cons.prems 0 j a by simp
  next
    case (Suc i')
    then show ?thesis
      using Cons.IH [OF inv_attempt [OF Cons.prems(1), of d t now], of i' j'] Cons.prems j a by simp
  qed
qed simp

end

section \<open>The two keepers meet the contract\<close>

lemma expire_loop_filter:
  assumes "sorted (map e_out s)" and "\<And>a b. a \<le> b \<Longrightarrow> expired b now \<Longrightarrow> expired a now"
  shows "expire_loop expired now s =
    (map e_data (filter (\<lambda>e. expired (e_out e) now) s), filter (\<lambda>e. \<not> expired (e_out e) now) s)"
  using assms(1)
proof (induction s)
  case (Cons e es)
  show ?case
  proof (cases "expired (e_out e) now")
    case True
    then show ?thesis using Cons by simp
  next
    case False
    have "\<not> expired (e_out x) now" if "x \<in> set es" for x
      using Cons.prems that False assms(2) [of "e_out e" "e_out x"] by auto
    then show ?thesis using False by (simp add: filter_empty_conv filter_id_conv)
  qed
qed simp

lemma find_key_some_iff:
  assumes "distinct (map (\<lambda>e. key (e_data e)) s)"
  shows "find_key key k s = Some e \<longleftrightarrow> e \<in> set s \<and> key (e_data e) = k"
  using assms by (induction s) (auto simp: find_key_def)

lemma find_key_none_iff: "find_key key k s = None \<longleftrightarrow> (\<forall>e \<in> set s. key (e_data e) \<noteq> k)"
  by (auto simp: find_key_def find_None_iff)

lemma keeper_inv_filter: "keeper_inv key s \<Longrightarrow> keeper_inv key (filter P s)"
  by (auto simp: keeper_inv_def distinct_map_filter sorted_filter)

lemma keeper_abs_eq:
  assumes "keeper_inv key s"
  shows "keeper_abs key s k = Some out \<longleftrightarrow> (\<exists>e \<in> set s. key (e_data e) = k \<and> e_out e = out)"
  using find_key_some_iff [of key s k] assms
  by (auto simp: keeper_abs_def keeper_inv_def)

lemma keeper_abs_filter:
  assumes "keeper_inv key s"
  shows "keeper_abs key (filter (\<lambda>e. P (e_out e)) s) k =
    (case keeper_abs key s k of None \<Rightarrow> None | Some out \<Rightarrow> if P out then Some out else None)"
proof (rule option_eqI)
  fix out
  have "keeper_abs key (filter (\<lambda>e. P (e_out e)) s) k = Some out \<longleftrightarrow>
    keeper_abs key s k = Some out \<and> P out"
    unfolding keeper_abs_eq [OF assms] keeper_abs_eq [OF keeper_inv_filter [OF assms]] by auto
  then show "keeper_abs key (filter (\<lambda>e. P (e_out e)) s) k = Some out \<longleftrightarrow>
    (case keeper_abs key s k of None \<Rightarrow> None | Some out \<Rightarrow> if P out then Some out else None) =
      Some out"
    by (auto split: option.splits)
qed

lemma set_out_insert [simp]: "set (out_insert e s) = insert e (set s)"
  by (simp add: out_insert_def)

lemma out_insert_inv:
  assumes "keeper_inv key s" and "find_key key (key (e_data e)) s = None"
  shows "keeper_inv key (out_insert e s)"
proof -
  have "sorted (map e_out s) \<Longrightarrow> sorted (map e_out (out_insert e s))"
    unfolding out_insert_def by (induction s) auto
  moreover have "distinct (map (\<lambda>e. key (e_data e)) (out_insert e s))"
    using assms unfolding out_insert_def keeper_inv_def find_key_none_iff
    by (induction s) (auto simp: image_iff)
  ultimately show ?thesis
    using assms(1) by (simp add: keeper_inv_def)
qed

lemma out_insert_abs:
  assumes "keeper_inv key s" and "find_key key (key (e_data e)) s = None"
  shows "keeper_abs key (out_insert e s) k =
    (if k = key (e_data e) then Some (e_out e) else keeper_abs key s k)"
proof (rule option_eqI)
  fix out
  show "keeper_abs key (out_insert e s) k = Some out \<longleftrightarrow>
    (if k = key (e_data e) then Some (e_out e) else keeper_abs key s k) = Some out"
    using keeper_abs_eq [OF assms(1)] keeper_abs_eq [OF out_insert_inv [OF assms]] assms(2)
    by (auto simp: find_key_none_iff)
qed

lemma timed_keeper_impl:
  fixes key :: "'d \<Rightarrow> 'k"
  assumes mono: "\<And>a b now. a \<le> b \<Longrightarrow> expired b now \<Longrightarrow> expired a now"
    and later: "\<And>out now later. expired out now \<Longrightarrow> now \<le> later \<Longrightarrow> expired out later"
    and attempt: "\<And>d t now s. attempt d t now s =
      (let (sigs, s1) = expire_loop expired now s
       in if find_key key (key d) s1 \<noteq> None then (False, sigs, s1)
          else (True, sigs, out_insert \<lparr>e_data = d, e_out = now + t, e_keep = now\<rparr> s1))"
  shows "timed_keeper attempt (keeper_abs key) (keeper_inv key) key expired"
proof
  fix s :: "'d keeper" and d :: 'd and t now and k :: 'k
  assume inv: "keeper_inv key s"
  let ?s1 = "filter (\<lambda>e. \<not> expired (e_out e) now) s"
  have loop: "snd (expire_loop expired now s) = ?s1"
    using expire_loop_filter [of s expired now] inv mono by (simp add: keeper_inv_def)
  have inv1: "keeper_inv key ?s1" using inv by (rule keeper_inv_filter)
  have abs1: "keeper_abs key ?s1 k =
    (case keeper_abs key s k of None \<Rightarrow> None
     | Some out \<Rightarrow> if expired out now then None else Some out)" for k
    using keeper_abs_filter [OF inv, of "\<lambda>out. \<not> expired out now"]
    by (simp split: option.splits if_splits)
  have none: "find_key key (key d) ?s1 = None \<longleftrightarrow> keeper_abs key ?s1 (key d) = None"
    by (simp add: keeper_abs_def)
  have res: "fst (attempt d t now s) = (find_key key (key d) ?s1 = None)"
    "snd (snd (attempt d t now s)) = (if find_key key (key d) ?s1 = None
      then out_insert \<lparr>e_data = d, e_out = now + t, e_keep = now\<rparr> ?s1 else ?s1)"
    unfolding attempt Let_def case_prod_unfold loop by auto
  show "keeper_inv key (snd (snd (attempt d t now s)))"
    using inv1 out_insert_inv [OF inv1] unfolding res by auto
  show "fst (attempt d t now s) = (case keeper_abs key s (key d) of None \<Rightarrow> True
      | Some out \<Rightarrow> expired out now)"
    unfolding res none abs1 by (auto split: option.splits)
  show "keeper_abs key (snd (snd (attempt d t now s))) k =
      (if fst (attempt d t now s) \<and> k = key d then Some (now + t)
       else case keeper_abs key s k of None \<Rightarrow> None
            | Some out \<Rightarrow> if expired out now then None else Some out)"
    using out_insert_abs [OF inv1] abs1 unfolding res by auto
next
  show "\<And>out now later. expired out now \<Longrightarrow> now \<le> later \<Longrightarrow> expired out later"
    by (rule later)
qed

interpretation kset: timed_keeper set_try_keep "keeper_abs id" "keeper_inv id" id set_expired
  by (rule timed_keeper_impl) (auto simp: set_expired_def set_try_keep_def set_clear_timeout_def)

interpretation kmap: timed_keeper map_try_keep "keeper_abs fst" "keeper_inv fst" fst map_expired
  by (rule timed_keeper_impl) (auto simp: map_expired_def map_try_keep_def map_clear_timeout_def)

section \<open>Properties\<close>

text \<open>In any sequence of attempts at non-decreasing times on a new set keeper, two
  successful attempts for the same key are at least the time to keep of the first one apart:
  a key is accepted once per period, however many other keys come in between.\<close>
lemma set_keeper_accepts_once_per_period:
  assumes "sorted (map (\<lambda>a. snd (snd a)) as)" and "i < j" and "j < length as"
    and "attempts set_try_keep as [] ! i" and "attempts set_try_keep as [] ! j"
    and "fst (as ! i) = fst (as ! j)"
  shows "snd (snd (as ! i)) + fst (snd (as ! i)) \<le> snd (snd (as ! j))"
  using kset.successes_spaced [of "[]" as i j] assms by (simp add: keeper_inv_def set_expired_def)

text \<open>The two keepers disagree at the deadline: an entry kept for a period is gone from
  the set, and can be kept again, exactly when the period has passed, while the map still
  holds it at that instant.\<close>
lemma keepers_differ_at_deadline:
  "fst (set_is_keeped k (now + t) (snd (snd (set_try_keep k t now [])))) = False
   \<and> fst (map_is_keeped k (now + t) (snd (snd (map_try_keep (k, v) t now [])))) = True"
  by (simp add: set_is_keeped_def set_try_keep_def set_clear_timeout_def set_expired_def
      map_is_keeped_def map_try_keep_def map_clear_timeout_def map_expired_def find_key_def
      out_insert_def)

end
