(* ===== verification/Speed_Meter.thy ===== *)
theory Speed_Meter
  imports Complex_Main Prelude
begin

text \<open>\<open>p2engine/speed_meter.hpp\<close>: the sliding-window byte counter both transports and the
  shared layer keep. Ticks are milliseconds of the clock, read by the caller and passed as
  \<open>now\<close>; the speed is a rational where the source has a double. The byte counts of the
  queue and of its entries are 32-bit ints and the total is 64 bits wide: every conversion
  and sum that is stored in one wraps (\<open>int32\<close>, \<open>int64\<close>; the overflow of the signed sum is
  undefined in the source). \<open>sm_fault\<close> records that an assertion of the source fails.\<close>

definition int32 :: "int \<Rightarrow> int" where
  "int32 x = signed_take_bit 31 x"

definition int64 :: "int \<Rightarrow> int" where
  "int64 x = signed_take_bit 63 x"

lemma int32_small: "0 \<le> x \<Longrightarrow> x < 2 ^ 31 \<Longrightarrow> int32 x = x"
  unfolding int32_def by (rule signed_take_bit_int_eq_self) simp_all

record speed_meter =
  sm_history :: "(tick \<times> int) list"
  sm_queued :: int
  sm_window :: tick
  sm_start :: tick
  sm_last_forget :: tick
  sm_last_speed :: rat
  sm_total_bytes :: int
  sm_total_cnt :: int
  sm_need_recalc :: bool
  sm_fault :: bool

definition min_time_threshold :: tick where
  "min_time_threshold = 100"

definition speed_meter_new :: "tick \<Rightarrow> speed_meter" where
  "speed_meter_new timewindow =
     \<lparr>sm_history = [], sm_queued = 0, sm_window = timewindow, sm_start = -1,
      sm_last_forget = -1, sm_last_speed = 0, sm_total_bytes = 0, sm_total_cnt = 0,
      sm_need_recalc = True, sm_fault = (timewindow \<le> min_time_threshold)\<rparr>"

fun forget_loop :: "tick \<Rightarrow> (tick \<times> int) list \<Rightarrow> int \<Rightarrow> bool
    \<Rightarrow> (tick \<times> int) list \<times> int \<times> bool" where
  "forget_loop t [] q x = ([], q, x)"
| "forget_loop t (e # es) q x =
     (if fst e < t
      then let q' = int32 (q - snd e) in forget_loop t es q' (x \<or> q' < 0)
      else (e # es, q, x))"

definition forget_history :: "tick \<Rightarrow> speed_meter \<Rightarrow> bool \<times> speed_meter" where
  "forget_history now m =
     (if sm_last_forget m = now then (False, m)
      else let (h, q, x) = forget_loop (now - sm_window m) (sm_history m) (sm_queued m) (sm_fault m)
           in (True, m\<lparr>sm_need_recalc := True, sm_last_forget := now,
                       sm_history := h, sm_queued := q, sm_fault := x\<rparr>))"

definition bytes_per_second :: "tick \<Rightarrow> speed_meter \<Rightarrow> rat \<times> speed_meter" where
  "bytes_per_second cur m =
     (if sm_start m = -1 \<and> sm_history m = [] then (0, m\<lparr>sm_start := cur\<rparr>)
      else
        let m1 = (if sm_start m = -1 then m\<lparr>sm_start := fst (hd (sm_history m))\<rparr> else m);
            m2 = snd (forget_history cur m1)
        in if \<not> sm_need_recalc m2 then (sm_last_speed m2, m2)
           else let w = min (cur - sm_start m2) (sm_window m2);
                    window = (if min_time_threshold > w then min_time_threshold else w);
                    speed = of_int (sm_queued m2) * 1000 / of_int window
                in (speed, m2\<lparr>sm_need_recalc := False, sm_last_speed := speed\<rparr>))"

definition sm_reset :: "bool \<Rightarrow> speed_meter \<Rightarrow> speed_meter" where
  "sm_reset releas_memory m =
     m\<lparr>sm_need_recalc := True, sm_last_forget := -1, sm_start := -1, sm_total_bytes := 0,
       sm_total_cnt := 0, sm_queued := 0, sm_last_speed := 0,
       sm_history := (if releas_memory then [] else sm_history m)\<rparr>"

definition push_history :: "tick \<Rightarrow> int \<Rightarrow> (tick \<times> int) list \<Rightarrow> (tick \<times> int) list" where
  "push_history cur bytes h =
     (if h \<noteq> [] \<and> fst (last h) = cur then butlast h @ [(cur, int32 (snd (last h) + bytes))]
      else h @ [(cur, int32 bytes)])"

definition sm_add :: "tick \<Rightarrow> nat \<Rightarrow> speed_meter \<Rightarrow> speed_meter" where
  "sm_add cur bytes m =
     (let m1 = snd (forget_history cur m)
      in m1\<lparr>sm_start := (if sm_start m1 = -1 then cur else sm_start m1),
            sm_need_recalc := True,
            sm_total_bytes := int64 (sm_total_bytes m1 + int bytes),
            sm_total_cnt := int64 (sm_total_cnt m1 + 1),
            sm_queued := int32 (sm_queued m1 + int32 (int bytes)),
            sm_history := push_history cur (int bytes) (sm_history m1)\<rparr>)"

section \<open>What the meter counts\<close>

text \<open>The abstract meter is the log of all additions; its speed at a time is the number of
  bytes of the window that ends then over the observed part of the window.\<close>

definition window_sum :: "tick \<Rightarrow> (tick \<times> int) list \<Rightarrow> int" where
  "window_sum t es = sum_list (map snd (filter (\<lambda>e. t \<le> fst e) es))"

definition window_len :: "tick \<Rightarrow> tick \<Rightarrow> tick \<Rightarrow> tick" where
  "window_len now start w = max min_time_threshold (min (now - start) w)"

definition window_speed :: "tick \<Rightarrow> tick \<Rightarrow> tick \<Rightarrow> (tick \<times> int) list \<Rightarrow> rat" where
  "window_speed now start w es =
     of_int (window_sum (now - w) es) * 1000 / of_int (window_len now start w)"

lemma window_sum_simps [simp]:
  "window_sum t [] = 0"
  "window_sum t (e # es) = (if t \<le> fst e then snd e else 0) + window_sum t es"
  "window_sum t (xs @ ys) = window_sum t xs + window_sum t ys"
  by (simp_all add: window_sum_def)

lemma window_sum_all: "\<forall>e \<in> set es. t \<le> fst e \<Longrightarrow> window_sum t es = sum_list (map snd es)"
  by (simp add: window_sum_def)

lemma bytes_sum_nonneg: "\<forall>e \<in> set es. 0 \<le> snd e \<Longrightarrow> 0 \<le> sum_list (map snd es)"
  for es :: "(tick \<times> int) list"
  by (induction es) auto

lemma forget_loop_spec:
  assumes "sorted (map fst es)" and "q = sum_list (map snd es)"
    and "\<forall>e \<in> set es. 0 \<le> snd e" and "q < 2 ^ 31"
  shows "forget_loop t es q x =
    (filter (\<lambda>e. t \<le> fst e) es, sum_list (map snd (filter (\<lambda>e. t \<le> fst e) es)), x)"
  using assms
proof (induction es arbitrary: q)
  case (Cons e es)
  show ?case
  proof (cases "fst e < t")
    case True
    have n: "0 \<le> sum_list (map snd es)" "0 \<le> snd e"
      using Cons.prems(3) bytes_sum_nonneg by auto
    then have w: "int32 (q - snd e) = sum_list (map snd es)"
      using Cons.prems(2,4) by (simp add: int32_small)
    have "forget_loop t es (sum_list (map snd es)) x = (filter (\<lambda>e. t \<le> fst e) es,
        sum_list (map snd (filter (\<lambda>e. t \<le> fst e) es)), x)"
      using Cons.IH [OF _ refl] Cons.prems n by simp
    then show ?thesis using True n w by simp
  next
    case False
    then have "filter (\<lambda>e. t \<le> fst e) es = es"
      using Cons.prems by (intro filter_True) auto
    then show ?thesis using False Cons by simp
  qed
qed simp

text \<open>The invariant relates a meter to its log: the history is sorted, its total is kept, and
  it has the sums of the log for every window still to be asked for.\<close>

definition sm_rel :: "speed_meter \<Rightarrow> (tick \<times> int) list \<Rightarrow> tick \<Rightarrow> bool" where
  "sm_rel m lg now \<longleftrightarrow>
     sorted (map fst (sm_history m)) \<and> sm_queued m = sum_list (map snd (sm_history m)) \<and>
     (\<forall>e \<in> set (sm_history m). fst e \<le> now) \<and> (\<forall>e \<in> set lg. 0 \<le> fst e \<and> fst e \<le> now) \<and>
     (\<forall>e \<in> set (sm_history m). 0 \<le> snd e) \<and> (\<forall>e \<in> set lg. 0 \<le> snd e) \<and>
     sm_queued m < 2 ^ 31 \<and> \<not> sm_fault m \<and>
     sm_last_forget m \<le> now \<and> 0 \<le> now \<and> min_time_threshold < sm_window m \<and>
     (sm_last_forget m \<noteq> -1 \<longrightarrow>
        (\<forall>e \<in> set (sm_history m). sm_last_forget m - sm_window m \<le> fst e)) \<and>
     (\<forall>t \<ge> sm_last_forget m - sm_window m. window_sum t (sm_history m) = window_sum t lg) \<and>
     (sm_start m = -1 \<longrightarrow> sm_history m = []) \<and>
     (\<not> sm_need_recalc m \<longrightarrow> sm_last_forget m \<noteq> -1 \<and> sm_start m \<noteq> -1 \<and>
        sm_last_speed m = window_speed (sm_last_forget m) (sm_start m) (sm_window m) lg)"

lemma sm_rel_new: "min_time_threshold < w \<Longrightarrow> sm_rel (speed_meter_new w) [] 0"
  by (simp add: sm_rel_def speed_meter_new_def)

lemma window_sum_filter:
  "t \<le> u \<Longrightarrow> window_sum u (filter (\<lambda>e. t \<le> fst e) es) = window_sum u es"
  by (induction es) auto

lemma bytes_sum_filter:
  "\<forall>e \<in> set es. 0 \<le> snd e \<Longrightarrow> sum_list (map snd (filter P es)) \<le> sum_list (map snd es)"
  for es :: "(tick \<times> int) list"
  by (induction es) auto

lemma sm_rel_forget:
  assumes "sm_rel m lg now" and "now \<le> cur"
  shows "sm_rel (snd (forget_history cur m)) lg cur
    \<and> sm_last_forget (snd (forget_history cur m)) = cur
    \<and> sm_start (snd (forget_history cur m)) = sm_start m
    \<and> sm_window (snd (forget_history cur m)) = sm_window m"
proof (cases "sm_last_forget m = cur")
  case True
  then show ?thesis
    using assms by (auto simp: sm_rel_def forget_history_def)
next
  case False
  have h: "sorted (map fst (sm_history m))" "sm_queued m = sum_list (map snd (sm_history m))"
    "\<forall>e \<in> set (sm_history m). 0 \<le> snd e" "sm_queued m < 2 ^ 31"
    using assms(1) by (simp_all add: sm_rel_def)
  let ?h = "filter (\<lambda>e. cur - sm_window m \<le> fst e) (sm_history m)"
  have eq: "forget_history cur m = (True, m\<lparr>sm_need_recalc := True, sm_last_forget := cur,
      sm_history := ?h, sm_queued := sum_list (map snd ?h)\<rparr>)"
    using False by (simp add: forget_history_def forget_loop_spec [OF h])
  have sorted: "sorted (map fst ?h)"
    using h(1) sorted_filter by blast
  have few: "sum_list (map snd ?h) < 2 ^ 31"
    using bytes_sum_filter [OF h(3)] h(2,4) by (metis order_le_less_trans)
  show ?thesis
    unfolding eq using assms sorted few by (auto simp: sm_rel_def window_sum_filter)
qed

lemma push_history_cases:
  obtains (merge) h0 b0 where "h = h0 @ [(cur, b0)]"
    and "push_history cur b h = h0 @ [(cur, int32 (b0 + b))]"
  | (extend) "push_history cur b h = h @ [(cur, int32 b)]"
proof (cases "h \<noteq> [] \<and> fst (last h) = cur")
  case True
  then have "h = butlast h @ [(cur, snd (last h))]"
    by (metis append_butlast_last_id prod.collapse)
  then show ?thesis
    using merge [of "butlast h" "snd (last h)"] True by (simp add: push_history_def)
next
  case False
  then have "push_history cur b h = h @ [(cur, int32 b)]"
    unfolding push_history_def by (rule if_not_P)
  then show ?thesis by (rule extend)
qed

lemma push_history_times:
  "fst ` set (push_history cur b h) = insert cur (fst ` set h)"
  "sorted (map fst h) \<Longrightarrow> \<forall>e \<in> set h. fst e \<le> cur \<Longrightarrow> sorted (map fst (push_history cur b h))"
  by (cases rule: push_history_cases [of h cur b]; force simp: sorted_append)+

lemma push_history_bytes:
  assumes "0 \<le> b" and "\<forall>e \<in> set h. 0 \<le> snd e" and "sum_list (map snd h) + b < 2 ^ 31"
  shows "sum_list (map snd (push_history cur b h)) = sum_list (map snd h) + b"
    and "window_sum t (push_history cur b h) = window_sum t h + (if t \<le> cur then b else 0)"
    and "\<forall>e \<in> set (push_history cur b h). 0 \<le> snd e"
proof -
  have all: "sum_list (map snd (push_history cur b h)) = sum_list (map snd h) + b
    \<and> window_sum t (push_history cur b h) = window_sum t h + (if t \<le> cur then b else 0)
    \<and> (\<forall>e \<in> set (push_history cur b h). 0 \<le> snd e)"
  proof (cases rule: push_history_cases [of h cur b])
    case (merge h0 b0)
    have "0 \<le> sum_list (map snd h0)" "0 \<le> b0"
      using assms(2) merge(1) bytes_sum_nonneg [of h0] by auto
    then have "int32 (b0 + b) = b0 + b"
      using assms(1,3) merge(1) by (intro int32_small) simp_all
    then show ?thesis using merge assms(1,2) by simp
  next
    case extend
    have "int32 b = b"
      using assms bytes_sum_nonneg [of h] by (intro int32_small) simp_all
    then show ?thesis using extend assms(1,2) by simp
  qed
  then show "sum_list (map snd (push_history cur b h)) = sum_list (map snd h) + b"
    and "window_sum t (push_history cur b h) = window_sum t h + (if t \<le> cur then b else 0)"
    and "\<forall>e \<in> set (push_history cur b h). 0 \<le> snd e"
    by blast+
qed

lemma push_history_ball:
  "(\<forall>e \<in> set (push_history cur b h). P (fst e)) \<longleftrightarrow> P cur \<and> (\<forall>e \<in> set h. P (fst e))"
proof -
  have "(\<forall>e \<in> set (push_history cur b h). P (fst e)) \<longleftrightarrow>
    (\<forall>x \<in> fst ` set (push_history cur b h). P x)"
    by simp
  then show ?thesis
    unfolding push_history_times(1) by simp
qed

lemma push_history_nonempty [simp]: "push_history cur b h \<noteq> []"
  by (simp add: push_history_def)

lemma sm_rel_add:
  assumes "sm_rel m lg now" and "now \<le> cur"
    and "window_sum (cur - sm_window m) lg + int b < 2 ^ 31"
  shows "sm_rel (sm_add cur b m) (lg @ [(cur, int b)]) cur
    \<and> sm_window (sm_add cur b m) = sm_window m
    \<and> sm_start (sm_add cur b m) = (if sm_start m = -1 then cur else sm_start m)"
proof -
  define m1 where "m1 = snd (forget_history cur m)"
  have f: "sm_rel m1 lg cur" "sm_last_forget m1 = cur" "sm_start m1 = sm_start m"
    "sm_window m1 = sm_window m"
    using sm_rel_forget [OF assms(1,2)] by (simp_all add: m1_def)
  have cur: "0 \<le> cur" using f(1) by (simp add: sm_rel_def)
  have pos: "\<forall>e \<in> set (sm_history m1). 0 \<le> snd e" using f(1) by (simp add: sm_rel_def)
  have "\<forall>e \<in> set (sm_history m1). cur - sm_window m1 \<le> fst e"
    using f(1,2) cur by (auto simp: sm_rel_def)
  then have "sum_list (map snd (sm_history m1)) = window_sum (cur - sm_window m1) lg"
    using f(1,2) window_sum_all [of "sm_history m1" "cur - sm_window m1"]
    by (simp add: sm_rel_def)
  then have few: "sum_list (map snd (sm_history m1)) + int b < 2 ^ 31"
    using assms(3) f(4) by simp
  have q: "sm_queued m1 = sum_list (map snd (sm_history m1))" "0 \<le> sm_queued m1"
    using f(1) bytes_sum_nonneg [OF pos] by (simp_all add: sm_rel_def)
  have b32: "int32 (int b) = int b" "int32 (sm_queued m1 + int b) = sm_queued m1 + int b"
    using few q by (simp_all add: int32_small)
  note push = push_history_bytes [of "int b" "sm_history m1", OF _ pos few, simplified]
  have sorted: "sorted (map fst (push_history cur (int b) (sm_history m1)))"
    using f(1) by (intro push_history_times(2)) (simp_all add: sm_rel_def)
  have le: "\<forall>e \<in> set (push_history cur (int b) (sm_history m1)). fst e \<le> cur"
    using f(1) by (subst push_history_ball) (simp add: sm_rel_def)
  have ge: "\<forall>e \<in> set (push_history cur (int b) (sm_history m1)). cur - sm_window m1 \<le> fst e"
    using f(1,2) cur by (subst push_history_ball) (auto simp: sm_rel_def min_time_threshold_def)
  have start: "(if sm_start m1 = -1 then cur else sm_start m1) \<noteq> -1"
    using cur by simp
  have rel: "sm_rel (m1\<lparr>sm_start := st, sm_need_recalc := True, sm_total_bytes := x,
      sm_total_cnt := y, sm_queued := sm_queued m1 + int b,
      sm_history := push_history cur (int b) (sm_history m1)\<rparr>) (lg @ [(cur, int b)]) cur"
    if "st \<noteq> -1" for st x y
    using f(1,2) cur that sorted le ge push(3) few q unfolding sm_rel_def
    by (simp add: push(1,2) Ball_def)
  have eq: "sm_add cur b m = m1\<lparr>sm_start := (if sm_start m1 = -1 then cur else sm_start m1),
      sm_need_recalc := True, sm_total_bytes := int64 (sm_total_bytes m1 + int b),
      sm_total_cnt := int64 (sm_total_cnt m1 + 1), sm_queued := sm_queued m1 + int b,
      sm_history := push_history cur (int b) (sm_history m1)\<rparr>"
    by (simp add: sm_add_def Let_def m1_def [symmetric] b32)
  show ?thesis
    unfolding eq using rel [OF start] f(3,4) by simp
qed

lemma if_less_max: "(if t > w then t else w) = max t w" for t w :: int
  by auto

lemma sm_rel_query:
  assumes "sm_rel m lg now" and "now \<le> cur"
  shows "sm_rel (snd (bytes_per_second cur m)) lg cur
    \<and> sm_window (snd (bytes_per_second cur m)) = sm_window m
    \<and> sm_start (snd (bytes_per_second cur m)) = (if sm_start m = -1 then cur else sm_start m)
    \<and> fst (bytes_per_second cur m) = window_speed cur (if sm_start m = -1 then cur else sm_start m)
        (sm_window m) lg"
proof (cases "sm_start m = -1")
  case True
  have h: "sm_history m = []" using assms(1) True by (simp add: sm_rel_def)
  have "window_sum (cur - sm_window m) lg = window_sum (cur - sm_window m) (sm_history m)"
    using assms by (simp add: sm_rel_def)
  then have zero: "window_sum (cur - sm_window m) lg = 0" using h by simp
  have "sm_rel (m\<lparr>sm_start := cur\<rparr>) lg cur"
    using assms True h unfolding sm_rel_def by (auto intro: order_trans)
  then show ?thesis
    using True h zero by (simp add: bytes_per_second_def window_speed_def)
next
  case False
  define m2 where "m2 = snd (forget_history cur m)"
  have f: "sm_rel m2 lg cur" "sm_last_forget m2 = cur" "sm_start m2 = sm_start m"
    "sm_window m2 = sm_window m"
    using sm_rel_forget [OF assms] by (simp_all add: m2_def)
  have "\<forall>e \<in> set (sm_history m2). cur - sm_window m2 \<le> fst e"
    using f(1,2) by (auto simp: sm_rel_def)
  then have sum: "sm_queued m2 = window_sum (cur - sm_window m2) lg"
    using f(1,2) window_sum_all [of "sm_history m2" "cur - sm_window m2"]
    by (simp add: sm_rel_def)
  show ?thesis
  proof (cases "sm_need_recalc m2")
    case True
    let ?w = "min (cur - sm_start m2) (sm_window m2)"
    let ?window = "if min_time_threshold > ?w then min_time_threshold else ?w"
    let ?speed = "of_int (sm_queued m2) * 1000 / of_int ?window :: rat"
    have win: "?window = window_len cur (sm_start m2) (sm_window m2)"
      unfolding window_len_def by (rule if_less_max)
    have eq: "bytes_per_second cur m =
      (?speed, m2\<lparr>sm_need_recalc := False, sm_last_speed := ?speed\<rparr>)"
      using False True by (simp add: bytes_per_second_def Let_def m2_def)
    have speed: "?speed = window_speed cur (sm_start m2) (sm_window m2) lg"
      by (simp only: win sum window_speed_def)
    have "sm_rel (m2\<lparr>sm_need_recalc := False,
        sm_last_speed := window_speed cur (sm_start m2) (sm_window m2) lg\<rparr>) lg cur"
      using f False unfolding sm_rel_def by simp
    then show ?thesis
      unfolding eq speed using f(3,4) False by simp
  next
    case False': False
    then have eq: "bytes_per_second cur m = (sm_last_speed m2, m2)"
      using False by (simp add: bytes_per_second_def Let_def m2_def)
    show ?thesis
      unfolding eq using f False False' by (simp add: sm_rel_def)
  qed
qed

section \<open>Properties\<close>

datatype meter_op = Add tick nat | Query tick

fun meter_time :: "meter_op \<Rightarrow> tick" where
  "meter_time (Add t b) = t"
| "meter_time (Query t) = t"

fun meter_step :: "speed_meter \<Rightarrow> meter_op \<Rightarrow> speed_meter" where
  "meter_step m (Add t b) = sm_add t b m"
| "meter_step m (Query t) = snd (bytes_per_second t m)"

fun meter_log :: "meter_op list \<Rightarrow> (tick \<times> int) list" where
  "meter_log [] = []"
| "meter_log (Add t b # ops) = (t, int b) # meter_log ops"
| "meter_log (Query t # ops) = meter_log ops"

lemma meter_log_append [simp]: "meter_log (xs @ ys) = meter_log xs @ meter_log ys"
  by (induction xs rule: meter_log.induct) auto

definition meter_run :: "tick \<Rightarrow> meter_op list \<Rightarrow> speed_meter" where
  "meter_run w ops = foldl meter_step (speed_meter_new w) ops"

text \<open>The bytes of the window that ends at an operation fit in an int.\<close>

definition meter_fits :: "tick \<Rightarrow> meter_op list \<Rightarrow> bool" where
  "meter_fits w ops \<longleftrightarrow> (\<forall>n < length ops.
     window_sum (meter_time (ops ! n) - w) (meter_log (take (Suc n) ops)) < 2 ^ 31)"

lemma meter_fits_snoc:
  "meter_fits w (ops @ [op]) \<longleftrightarrow>
     meter_fits w ops \<and> window_sum (meter_time op - w) (meter_log (ops @ [op])) < 2 ^ 31"
  unfolding meter_fits_def by (simp add: nth_append less_Suc_eq all_conj_distrib imp_conjL
      disj_imp cong: imp_cong)

lemma meter_run_rel:
  assumes "sorted (map meter_time ops)" and "\<forall>op \<in> set ops. 0 \<le> meter_time op"
    and "min_time_threshold < w" and "meter_fits w ops"
  shows "sm_rel (meter_run w ops) (meter_log ops) (if ops = [] then 0 else meter_time (last ops))
    \<and> sm_window (meter_run w ops) = w
    \<and> sm_start (meter_run w ops) = (if ops = [] then -1 else meter_time (hd ops))"
  using assms
proof (induction ops rule: rev_induct)
  case Nil
  then show ?case
    using sm_rel_new by (simp add: meter_run_def speed_meter_new_def)
next
  case (snoc op ops)
  have step: "meter_run w (ops @ [op]) = meter_step (meter_run w ops) op"
    by (simp add: meter_run_def)
  have prev: "(if ops = [] then 0 else meter_time (last ops)) \<le> meter_time op"
    using snoc.prems by (auto simp: sorted_append)
  have pos: "ops \<noteq> [] \<Longrightarrow> meter_time (hd ops) \<noteq> -1"
    using snoc.prems(2) hd_in_set by fastforce
  have IH: "sm_rel (meter_run w ops) (meter_log ops) (if ops = [] then 0 else meter_time (last ops))"
    "sm_window (meter_run w ops) = w"
    "sm_start (meter_run w ops) = (if ops = [] then -1 else meter_time (hd ops))"
    using snoc by (auto simp: sorted_append meter_fits_snoc)
  have fits: "window_sum (meter_time op - w) (meter_log (ops @ [op])) < 2 ^ 31"
    using snoc.prems(4) by (simp add: meter_fits_snoc)
  show ?case
  proof (cases op)
    case (Add t b)
    moreover have "0 \<le> w" using snoc.prems(3) by (simp add: min_time_threshold_def)
    ultimately show ?thesis
      using sm_rel_add [OF IH(1), of t b] fits prev IH(2,3) pos step by (cases "ops = []") auto
  next
    case (Query t)
    then show ?thesis
      using sm_rel_query [OF IH(1), of t] prev IH(2,3) pos step by (cases "ops = []") auto
  qed
qed

text \<open>C40: For every sequence of additions and queries at non-decreasing times, of a meter whose
  window is longer than 100 ms (the constructor asserts it), where the bytes added in the
  window that ends at each operation stay below $2^{31}$ (the counters are 32-bit ints): the
  speed a query returns is the abstract one, a thousand times the bytes added in the window
  that ends at the query, over the observed part of the window, at least 100 ms; and no
  assertion of the meter ever fails. Merging equal time stamps, forgetting old ones and the
  cached value never show. Without the bound the count wraps, and the speed is negative
  (\<open>large_window_wraps\<close>).\<close>
theorem speed_is_window_average:
  assumes "sorted (map meter_time ops)" and "\<forall>op \<in> set ops. 0 \<le> meter_time op"
    and "\<forall>op \<in> set ops. meter_time op \<le> now" and "0 \<le> now" and "min_time_threshold < w"
    and "meter_fits w ops"
  shows "fst (bytes_per_second now (meter_run w ops)) =
      window_speed now (if ops = [] then now else meter_time (hd ops)) w (meter_log ops)
    \<and> \<not> sm_fault (snd (bytes_per_second now (meter_run w ops)))"
proof -
  let ?t = "if ops = [] then 0 else meter_time (last ops)"
  have rel: "sm_rel (meter_run w ops) (meter_log ops) ?t" "sm_window (meter_run w ops) = w"
    "sm_start (meter_run w ops) = (if ops = [] then -1 else meter_time (hd ops))"
    using meter_run_rel [OF assms(1,2,5,6)] by simp_all
  have "?t \<le> now" using assms(3,4) by auto
  moreover have "ops \<noteq> [] \<Longrightarrow> meter_time (hd ops) \<noteq> -1"
    using assms(2) hd_in_set by fastforce
  ultimately show ?thesis
    using sm_rel_query [OF rel(1), of now] rel(2,3) by (cases "ops = []") (auto simp: sm_rel_def)
qed

theorem speed_is_window_average_witness:
  "fst (bytes_per_second 2500 (meter_run 2000 [Add 0 700, Add 900 300, Query 1000, Add 1000 500]))
   = 400"
  using speed_is_window_average [of "[Add 0 700, Add 900 300, Query 1000, Add 1000 500]" 2500 2000]
  by (simp add: window_speed_def window_len_def min_time_threshold_def meter_fits_def
      All_less_Suc)

lemma large_window_wraps:
  "fst (bytes_per_second 1000 (meter_run 2000 [Add 0 2000000000, Add 500 1000000000])) < 0"
  by (simp add: meter_run_def sm_add_def speed_meter_new_def forget_history_def push_history_def
      bytes_per_second_def min_time_threshold_def int32_def Let_def)

text \<open>Resetting a meter without releasing its memory keeps the old entries but not their
  total, so forgetting them later drives the byte count, and the reported speed, below zero;
  the default reset, which drops the entries, gives a fresh meter.\<close>
lemma reset_keeping_memory_goes_negative:
  "(let m = sm_reset False (sm_add 1000 600 (speed_meter_new 2000))
    in fst (bytes_per_second 5000 m) < 0)
   \<and> sm_reset True m = (speed_meter_new (sm_window m))\<lparr>sm_fault := sm_fault m\<rparr>"
  by (simp add: int32_def Let_def sm_reset_def sm_add_def speed_meter_new_def forget_history_def push_history_def
      bytes_per_second_def min_time_threshold_def)

end
