(* ===== verification/Byte_Order.thy ===== *)
theory Byte_Order
  imports Prelude
begin

text \<open>\<open>p2engine/byteorder.hpp\<close> and \<open>p2engine/io.hpp\<close>: byte swapping, host and
  network order, and reading and writing integers through a byte pointer. A pointer is a
  position in a byte list; an access that leaves the list is \<open>None\<close> (the source
  would touch memory it does not own). The byte order of the host is an argument
  (\<open>True\<close> for big endian), as \<open>is_host_order_big_endian\<close> finds it at run time.\<close>

section \<open>Integers in memory\<close>

definition bytes_of_word :: "'w::len word \<Rightarrow> bytes" where
  "bytes_of_word v = map (\<lambda>i. ucast (drop_bit (8 * i) v)) [0..<LENGTH('w) div 8]"

definition word_of_bytes :: "bytes \<Rightarrow> 'w::len word" where
  "word_of_bytes bs = foldr (\<lambda>b acc. push_bit 8 acc OR ucast b) bs 0"

definition to_memory :: "bool \<Rightarrow> 'w::len word \<Rightarrow> bytes" where
  "to_memory big v = (if big then rev (bytes_of_word v) else bytes_of_word v)"

definition of_memory :: "bool \<Rightarrow> bytes \<Rightarrow> 'w::len word" where
  "of_memory big bs = word_of_bytes (if big then rev bs else bs)"

definition is_host_order_big_endian :: "bool \<Rightarrow> bool" where
  "is_host_order_big_endian big = (hd (to_memory big (1 :: u64)) = 0)"

section \<open>Swapping\<close>

definition bswap_16 :: "u16 \<Rightarrow> u16" where
  "bswap_16 v = drop_bit 8 v OR push_bit 8 v"

definition bswap_32 :: "u32 \<Rightarrow> u32" where
  "bswap_32 v = drop_bit 24 v OR drop_bit 8 (v AND 0x00ff0000)
     OR push_bit 8 (v AND 0x0000ff00) OR push_bit 24 v"

definition bswap_64 :: "u64 \<Rightarrow> u64" where
  "bswap_64 v =
     drop_bit 56 v
     OR drop_bit 40 (v AND 0x00ff000000000000)
     OR drop_bit 24 (v AND 0x0000ff0000000000)
     OR drop_bit 8 (v AND 0x000000ff00000000)
     OR push_bit 8 (v AND 0x00000000ff000000)
     OR push_bit 24 (v AND 0x0000000000ff0000)
     OR push_bit 40 (v AND 0x000000000000ff00)
     OR push_bit 56 v"

definition htons :: "bool \<Rightarrow> u16 \<Rightarrow> u16" where
  "htons big h = (if big then h else bswap_16 h)"

definition htonl :: "bool \<Rightarrow> u32 \<Rightarrow> u32" where
  "htonl big h = (if big then h else bswap_32 h)"

definition htonll :: "bool \<Rightarrow> u64 \<Rightarrow> u64" where
  "htonll big hostlonglong =
     (if is_host_order_big_endian big then hostlonglong else bswap_64 hostlonglong)"

definition ntohll :: "bool \<Rightarrow> u64 \<Rightarrow> u64" where
  "ntohll big netlonglong = htonll big netlonglong"

text \<open>The primary template is the identity and there is a specialisation per size.\<close>

definition hton_with_n_bytes :: "bool \<Rightarrow> nat \<Rightarrow> 'w::len word \<Rightarrow> 'w word" where
  "hton_with_n_bytes big n h =
     (if n = 2 then ucast (htons big (ucast h))
      else if n = 4 then ucast (htonl big (ucast h))
      else if n = 8 then ucast (htonll big (ucast h))
      else h)"

definition bswap_with_n_bytes :: "nat \<Rightarrow> 'w::len word \<Rightarrow> 'w word" where
  "bswap_with_n_bytes n h =
     (if n = 2 then ucast (bswap_16 (ucast h))
      else if n = 4 then ucast (bswap_32 (ucast h))
      else if n = 8 then ucast (bswap_64 (ucast h))
      else h)"

definition hton :: "bool \<Rightarrow> 'w::len word \<Rightarrow> 'w word" where
  "hton big h = hton_with_n_bytes big (LENGTH('w) div 8) h"

definition ntoh :: "bool \<Rightarrow> 'w::len word \<Rightarrow> 'w word" where
  "ntoh big n = hton_with_n_bytes big (LENGTH('w) div 8) n"

definition bswap :: "'w::len word \<Rightarrow> 'w word" where
  "bswap n = bswap_with_n_bytes (LENGTH('w) div 8) n"

section \<open>Reading and writing through a pointer\<close>

definition mem_copy :: "bytes \<Rightarrow> nat \<Rightarrow> bytes \<Rightarrow> bytes option" where
  "mem_copy buf pos bs =
     (if pos + length bs \<le> length buf
      then Some (take pos buf @ bs @ drop (pos + length bs) buf) else None)"

definition read_value :: "bool \<Rightarrow> bytes \<Rightarrow> nat \<Rightarrow> bool \<Rightarrow> ('w::len word \<times> nat) option" where
  "read_value big buf start advance =
     (let n = LENGTH('w) div 8
      in if start + n \<le> length buf
         then Some (of_memory big (take n (drop start buf)),
                    if advance then start + n else start)
         else None)"

definition write_value :: "bool \<Rightarrow> 'w::len word \<Rightarrow> bytes \<Rightarrow> nat \<Rightarrow> bool \<Rightarrow> (bytes \<times> nat) option" where
  "write_value big val buf start advance =
     (case mem_copy buf start (to_memory big val) of
        None \<Rightarrow> None
      | Some buf' \<Rightarrow> Some (buf', if advance then start + LENGTH('w) div 8 else start))"

definition read_int :: "bool \<Rightarrow> bytes \<Rightarrow> nat \<Rightarrow> bool \<Rightarrow> ('w::len word \<times> nat) option" where
  "read_int big buf start advance = read_value big buf start advance"

definition read_int_ntoh :: "bool \<Rightarrow> bytes \<Rightarrow> nat \<Rightarrow> bool \<Rightarrow> ('w::len word \<times> nat) option" where
  "read_int_ntoh big buf start advance =
     map_option (\<lambda>(v, p). (ntoh big v, p)) (read_int big buf start advance)"

definition write_int :: "bool \<Rightarrow> 'w::len word \<Rightarrow> bytes \<Rightarrow> nat \<Rightarrow> bool \<Rightarrow> (bytes \<times> nat) option" where
  "write_int big val buf start advance = write_value big val buf start advance"

definition write_int_hton :: "bool \<Rightarrow> 'w::len word \<Rightarrow> bytes \<Rightarrow> nat \<Rightarrow> bool \<Rightarrow> (bytes \<times> nat) option" where
  "write_int_hton big val buf start advance = write_int big (hton big val) buf start advance"

definition write_string :: "bytes \<Rightarrow> bytes \<Rightarrow> nat \<Rightarrow> bool \<Rightarrow> (bytes \<times> nat) option" where
  "write_string str buf start advance =
     map_option (\<lambda>buf'. (buf', if advance then start + length str else start))
       (mem_copy buf start str)"

section \<open>Facts about one integer\<close>

lemma length_bytes_of_word [simp]: "length (bytes_of_word (v :: 'w::len word)) = LENGTH('w) div 8"
  by (simp add: bytes_of_word_def)

lemma length_to_memory [simp]: "length (to_memory big (v :: 'w::len word)) = LENGTH('w) div 8"
  by (simp add: to_memory_def)

lemma bytes_of_word16: "bytes_of_word (v :: u16) = [ucast v, ucast (drop_bit 8 v)]"
  by (simp add: bytes_of_word_def upt_rec)

lemma bytes_of_word32:
  "bytes_of_word (v :: u32) =
     [ucast v, ucast (drop_bit 8 v), ucast (drop_bit 16 v), ucast (drop_bit 24 v)]"
  by (simp add: bytes_of_word_def upt_rec)

lemma bytes_of_word64:
  "bytes_of_word (v :: u64) =
     [ucast v, ucast (drop_bit 8 v), ucast (drop_bit 16 v), ucast (drop_bit 24 v),
      ucast (drop_bit 32 v), ucast (drop_bit 40 v), ucast (drop_bit 48 v), ucast (drop_bit 56 v)]"
  by (simp add: bytes_of_word_def upt_rec)

lemma bit_word_of_bytes:
  "bit (word_of_bytes bs :: 'w::len word) n \<longleftrightarrow>
     n < LENGTH('w) \<and> n div 8 < length bs \<and> bit (bs ! (n div 8)) (n mod 8)"
proof (induction bs arbitrary: n)
  case Nil
  then show ?case by (simp add: word_of_bytes_def)
next
  case (Cons b bs)
  have step: "word_of_bytes (b # bs) = push_bit 8 (word_of_bytes bs) OR (ucast b :: 'w word)"
    by (simp add: word_of_bytes_def)
  show ?case
  proof (cases "n < 8")
    case True
    then show ?thesis
      by (auto simp: step bit_simps)
  next
    case False
    then have idx: "n div 8 = Suc ((n - 8) div 8)" and m: "n mod 8 = (n - 8) mod 8"
      by (simp_all add: le_div_geq le_mod_geq)
    have "\<not> bit b n"
      using False bit_imp_le_length [of b n] by auto
    then show ?thesis
      using False Cons.IH [of "n - 8"] by (auto simp: step bit_simps idx m)
  qed
qed

lemma bit_nth_bytes_of_word:
  "i < LENGTH('w) div 8 \<Longrightarrow>
     bit (bytes_of_word (v :: 'w::len word) ! i) k \<longleftrightarrow> k < 8 \<and> bit v (8 * i + k)"
  by (auto simp: bytes_of_word_def bit_simps)

lemma word_of_bytes_of_word [codec_simps]:
  assumes "8 dvd LENGTH('w::len)"
  shows "word_of_bytes (bytes_of_word v) = (v :: 'w word)"
proof (rule bit_word_eqI)
  fix n assume n: "n < LENGTH('w)"
  have "n div 8 < LENGTH('w) div 8"
    using n assms by (metis div_less_iff_less_mult dvd_div_mult_self zero_less_numeral)
  then show "bit (word_of_bytes (bytes_of_word v) :: 'w word) n = bit v n"
    using n by (simp add: bit_word_of_bytes bit_nth_bytes_of_word)
qed

lemma of_memory_to_memory [codec_simps]:
  "8 dvd LENGTH('w::len) \<Longrightarrow> of_memory big (to_memory big v) = (v :: 'w word)"
  by (simp add: of_memory_def to_memory_def word_of_bytes_of_word)

section \<open>Network order does not depend on the host\<close>

lemma byte_eqI:
  fixes a b :: byte
  assumes "bit a 0 = bit b 0" and "bit a 1 = bit b 1" and "bit a 2 = bit b 2"
    and "bit a 3 = bit b 3" and "bit a 4 = bit b 4" and "bit a 5 = bit b 5"
    and "bit a 6 = bit b 6" and "bit a 7 = bit b 7"
  shows "a = b"
proof (rule bit_word_eqI)
  fix n assume "n < LENGTH(8)"
  then have "n = 0 \<or> n = 1 \<or> n = 2 \<or> n = 3 \<or> n = 4 \<or> n = 5 \<or> n = 6 \<or> n = 7"
    by simp presburger
  then show "bit a n = bit b n"
    using assms by blast
qed

lemma bytes_of_bswap_16: "bytes_of_word (bswap_16 v) = rev (bytes_of_word v)"
  unfolding bytes_of_word16 bswap_16_def
  by (simp; intro conjI; intro byte_eqI; simp add: bit_simps)

lemma bytes_of_bswap_32: "bytes_of_word (bswap_32 v) = rev (bytes_of_word v)"
  unfolding bytes_of_word32 bswap_32_def
  by (simp; intro conjI; intro byte_eqI; simp add: bit_simps)

lemma bytes_of_bswap_64: "bytes_of_word (bswap_64 v) = rev (bytes_of_word v)"
  unfolding bytes_of_word64 bswap_64_def
  by (simp; intro conjI; intro byte_eqI; simp add: bit_simps)

lemma bytes_of_one64: "bytes_of_word (1 :: u64) = [1, 0, 0, 0, 0, 0, 0, 0]"
  by (simp add: bytes_of_word64)

lemma is_host_order_big_endian_iff [simp]: "is_host_order_big_endian big = big"
  by (simp add: is_host_order_big_endian_def to_memory_def bytes_of_one64)

lemma hton_widths:
  "hton big (a :: byte) = a" "hton big (b :: u16) = htons big b"
  "hton big (c :: u32) = htonl big c" "hton big (d :: u64) = htonll big d"
  by (simp_all add: hton_def hton_with_n_bytes_def)

lemma network_bytes [codec_simps]:
  "to_memory big (hton big (a :: byte)) = [a]"
  "to_memory big (hton big (b :: u16)) = rev (bytes_of_word b)"
  "to_memory big (hton big (c :: u32)) = rev (bytes_of_word c)"
  "to_memory big (hton big (d :: u64)) = rev (bytes_of_word d)"
  by (simp_all add: hton_widths to_memory_def htons_def htonl_def htonll_def bytes_of_word_def [of a]
      bytes_of_bswap_16 bytes_of_bswap_32 bytes_of_bswap_64)

lemma bytes_of_word_inject:
  assumes "8 dvd LENGTH('w::len)" and "bytes_of_word u = bytes_of_word (v :: 'w word)"
  shows "u = v"
  using assms word_of_bytes_of_word by metis

lemma bswap_involution [simp]:
  "bswap_16 (bswap_16 a) = a" "bswap_32 (bswap_32 b) = b" "bswap_64 (bswap_64 c) = c"
  by (simp_all add: bytes_of_word_inject bytes_of_bswap_16 bytes_of_bswap_32 bytes_of_bswap_64)

lemma ntoh_hton [codec_simps]:
  "ntoh big (hton big (a :: byte)) = a" "ntoh big (hton big (b :: u16)) = b"
  "ntoh big (hton big (c :: u32)) = c" "ntoh big (hton big (d :: u64)) = d"
  by (simp_all add: hton_def ntoh_def hton_with_n_bytes_def htons_def htonl_def htonll_def)

section \<open>The contract of an integer on the wire\<close>

text \<open>What the packet code relies on for an integer type: writing puts a fixed number of
  bytes, the same on every host, at the position and fails only outside the buffer; reading
  the bytes back gives the value.\<close>

locale wire_int =
  fixes wr :: "'v \<Rightarrow> bytes \<Rightarrow> nat \<Rightarrow> bytes option"
    and rd :: "bytes \<Rightarrow> nat \<Rightarrow> 'v option"
    and enc :: "'v \<Rightarrow> bytes"
    and size_of :: nat
  assumes enc_length: "length (enc v) = size_of"
    and wr_spec: "wr v buf p = mem_copy buf p (enc v)"
    and rd_enc: "rd (xs @ enc v @ ys) (length xs) = Some v"
    and rd_local: "rd buf p = (if p + size_of \<le> length buf
                    then rd (take size_of (drop p buf)) 0 else None)"
begin

lemma wr_defined_iff: "(\<exists>buf'. wr v buf p = Some buf') \<longleftrightarrow> p + size_of \<le> length buf"
  by (simp add: wr_spec mem_copy_def enc_length)

lemma wr_length: "wr v buf p = Some buf' \<Longrightarrow> length buf' = length buf"
  by (auto simp: wr_spec mem_copy_def enc_length split: if_splits)

lemma wr_outside:
  assumes "wr v buf p = Some buf'" and "i < p \<or> p + size_of \<le> i"
  shows "buf' ! i = buf ! i"
  using assms by (auto simp: wr_spec mem_copy_def enc_length nth_append split: if_splits)

lemma rd_wr_same:
  assumes "wr v buf p = Some buf'"
  shows "rd buf' p = Some v"
proof -
  have "p + size_of \<le> length buf"
    using assms by (auto simp: wr_spec mem_copy_def enc_length split: if_splits)
  then show ?thesis
    using assms rd_enc [of "take p buf" v "drop (p + size_of) buf"]
    by (auto simp: wr_spec mem_copy_def enc_length split: if_splits)
qed

lemma rd_wr_other:
  assumes "wr v buf p = Some buf'" and "q + size_of \<le> p \<or> p + size_of \<le> q"
  shows "rd buf' q = rd buf q"
proof -
  have len: "length buf' = length buf"
    using assms wr_length by blast
  have "take size_of (drop q buf') = take size_of (drop q buf)" if q: "q + size_of \<le> length buf"
    by (rule nth_equalityI) (use assms len q wr_outside in \<open>auto simp: nth_append\<close>)
  then show ?thesis
    using rd_local [of buf' q] rd_local [of buf q] len by simp
qed

end

definition wr_net :: "bool \<Rightarrow> 'w::len word \<Rightarrow> bytes \<Rightarrow> nat \<Rightarrow> bytes option" where
  "wr_net big v buf p = map_option fst (write_int_hton big v buf p True)"

definition rd_net :: "bool \<Rightarrow> bytes \<Rightarrow> nat \<Rightarrow> 'w::len word option" where
  "rd_net big buf p = map_option fst (read_int_ntoh big buf p True)"

lemma wr_net_eq: "wr_net big v buf p = mem_copy buf p (to_memory big (hton big v))"
  by (auto simp: wr_net_def write_int_hton_def write_int_def write_value_def split: option.splits)

lemma rd_net_eq:
  "(rd_net big buf p :: 'w::len word option) =
     (if p + LENGTH('w) div 8 \<le> length buf
      then Some (ntoh big (of_memory big (take (LENGTH('w) div 8) (drop p buf)))) else None)"
  by (simp add: rd_net_def read_int_ntoh_def read_int_def read_value_def Let_def)

lemma wire_int_net:
  fixes enc :: "'w::len word \<Rightarrow> bytes"
  assumes "8 dvd LENGTH('w)" and "\<And>v :: 'w word. to_memory big (hton big v) = enc v"
    and "\<And>v :: 'w word. ntoh big (hton big v) = v"
  shows "wire_int (wr_net big) (rd_net big) enc (LENGTH('w) div 8)"
proof
  fix v :: "'w word" and buf xs ys :: bytes and p :: nat
  show len: "length (enc v) = LENGTH('w) div 8"
    using length_to_memory [of big "hton big v"] assms(2) [of v] by simp
  show "wr_net big v buf p = mem_copy buf p (enc v)"
    by (simp add: wr_net_eq assms(2))
  have "of_memory big (enc v) = hton big v"
    by (metis assms(1,2) of_memory_to_memory)
  then show "rd_net big (xs @ enc v @ ys) (length xs) = Some v"
    using len assms(3) by (simp add: rd_net_eq)
  show "(rd_net big buf p :: 'w word option) = (if p + LENGTH('w) div 8 \<le> length buf
      then rd_net big (take (LENGTH('w) div 8) (drop p buf)) 0 else None)"
    by (simp add: rd_net_eq)
qed

interpretation net8: wire_int "wr_net big" "rd_net big" "\<lambda>v :: byte. [v]" 1 for big
  using wire_int_net [of big "\<lambda>v :: byte. [v]"] by (simp add: codec_simps)

interpretation net16: wire_int "wr_net big" "rd_net big" "\<lambda>v :: u16. rev (bytes_of_word v)" 2
  for big
  using wire_int_net [of big "\<lambda>v :: u16. rev (bytes_of_word v)"] by (simp add: codec_simps)

interpretation net32: wire_int "wr_net big" "rd_net big" "\<lambda>v :: u32. rev (bytes_of_word v)" 4
  for big
  using wire_int_net [of big "\<lambda>v :: u32. rev (bytes_of_word v)"] by (simp add: codec_simps)

interpretation net64: wire_int "wr_net big" "rd_net big" "\<lambda>v :: u64. rev (bytes_of_word v)" 8
  for big
  using wire_int_net [of big "\<lambda>v :: u64. rev (bytes_of_word v)"] by (simp add: codec_simps)

section \<open>Properties\<close>

definition net_roundtrip :: "bool \<Rightarrow> bool \<Rightarrow> 'w::len word \<Rightarrow> bytes \<Rightarrow> nat \<Rightarrow> bool" where
  "net_roundtrip w_big r_big v buf p =
     (case write_int_hton w_big v buf p True of
        None \<Rightarrow> length buf < p + LENGTH('w) div 8
      | Some (buf', q) \<Rightarrow>
          q = p + LENGTH('w) div 8 \<and> q \<le> length buf
          \<and> buf' = take p buf @ rev (bytes_of_word v) @ drop q buf
          \<and> read_int_ntoh r_big buf' p True = Some (v, q))"

lemma net_roundtrip_wire:
  fixes v :: "'w::len word"
  assumes "8 dvd LENGTH('w)"
    and "\<And>big. to_memory big (hton big v) = rev (bytes_of_word v)"
    and "\<And>big. ntoh big (hton big v) = v"
  shows "net_roundtrip w_big r_big v buf p"
proof (cases "p + LENGTH('w) div 8 \<le> length buf")
  case True
  have "of_memory r_big (rev (bytes_of_word v)) = hton r_big v"
    by (metis assms(1,2) of_memory_to_memory)
  then show ?thesis
    using True assms(2,3)
    by (simp add: net_roundtrip_def write_int_hton_def write_int_def write_value_def mem_copy_def
        read_int_ntoh_def read_int_def read_value_def Let_def)
next
  case False
  then show ?thesis
    by (simp add: net_roundtrip_def write_int_hton_def write_int_def write_value_def mem_copy_def)
qed

text \<open>An integer written in network order by a host of either byte order and read back by
  a host of either byte order is the same integer, for the 16, 32 and 64 bit types; the bytes
  written are the big-endian ones, the rest of the buffer is untouched, and the write fails
  exactly when the integer does not fit the buffer at that position.\<close>
lemma network_order_roundtrip:
  "net_roundtrip w_big r_big (v16 :: u16) buf p
   \<and> net_roundtrip w_big r_big (v32 :: u32) buf p
   \<and> net_roundtrip w_big r_big (v64 :: u64) buf p"
  by (intro conjI; rule net_roundtrip_wire) (simp_all add: codec_simps)

end
