(* ===== verification/Buffer_Io.thy ===== *)
theory Buffer_Io
  imports Byte_Order
begin

text \<open>\<open>p2engine/safe_buffer_io.hpp\<close>: the stream view of a buffer. The state is the get
  area, the bytes between \<open>gptr\<close> and \<open>pptr\<close>; capacity and sharing are memory
  management and not observable here. Integers travel in network order. \<open>_read\<close> asserts that the
  bytes of the integer are there and then handles the case that they are not: \<open>io_get_int\<close> is the
  code behind the assertion, as a build without assertions runs it on a short packet; the operation
  of \<open>Safe_Buffer\<close> over it fails there.\<close>

section \<open>Raw bytes\<close>

definition io_write :: "bytes \<Rightarrow> bytes \<Rightarrow> nat \<times> bytes" where
  "io_write bs buf = (length bs, buf @ bs)"

definition io_read :: "nat \<Rightarrow> bytes \<Rightarrow> bytes \<times> bytes" where
  "io_read len buf = (let n = min len (length buf) in (take n buf, drop n buf))"

definition io_append :: "bytes \<Rightarrow> bytes \<Rightarrow> bytes" where
  "io_append other buf = buf @ other"

definition io_consume :: "nat \<Rightarrow> bytes \<Rightarrow> bytes" where
  "io_consume n buf = drop n buf"

section \<open>Integers, strings, flags\<close>

definition io_put_int :: "bool \<Rightarrow> 'w::len word \<Rightarrow> bytes \<Rightarrow> bytes" where
  "io_put_int big v buf =
     (case write_int_hton big v (buf @ replicate (LENGTH('w) div 8) 0) (length buf) True of
        Some (buf', p) \<Rightarrow> buf' | None \<Rightarrow> buf)"

definition io_get_int :: "bool \<Rightarrow> bytes \<Rightarrow> 'w::len word \<times> bytes" where
  "io_get_int big buf =
     (case read_int_ntoh big buf 0 True of
        None \<Rightarrow> (0, drop (length buf) buf)
      | Some (v, p) \<Rightarrow> (v, drop p buf))"

definition io_put_string :: "bytes \<Rightarrow> bytes \<Rightarrow> bytes" where
  "io_put_string s buf = snd (io_write s buf)"

definition io_get_string :: "bytes \<Rightarrow> bytes \<Rightarrow> bytes \<times> bytes" where
  "io_get_string s buf = (s @ buf, io_consume (length buf) buf)"

definition io_put_bool :: "bool \<Rightarrow> bool \<Rightarrow> bytes \<Rightarrow> bytes" where
  "io_put_bool big b buf = io_put_int big (if b then 1 else 0 :: byte) buf"

definition io_get_bool :: "bool \<Rightarrow> bytes \<Rightarrow> bool \<times> bytes" where
  "io_get_bool big buf = (let (v, r) = io_get_int big buf in ((v :: byte) \<noteq> 0, r))"

section \<open>Addresses and endpoints\<close>

text \<open>An IPv4 address is written as the \<open>unsigned long\<close> that \<open>to_ulong\<close> returns, so
  its encoding has the width of that type on the platform: the argument \<open>lp64\<close> says that
  it is 8 bytes. It is read as an \<open>uint32_t\<close>.\<close>

definition io_put_address_v4 :: "bool \<Rightarrow> bool \<Rightarrow> u32 \<Rightarrow> bytes \<Rightarrow> bytes" where
  "io_put_address_v4 lp64 big a buf =
     (if lp64 then io_put_int big (ucast a :: u64) buf else io_put_int big a buf)"

definition io_get_address_v4 :: "bool \<Rightarrow> bytes \<Rightarrow> u32 \<times> bytes" where
  "io_get_address_v4 big buf = io_get_int big buf"

definition io_put_endpoint :: "bool \<Rightarrow> bool \<Rightarrow> u32 \<times> u16 \<Rightarrow> bytes \<Rightarrow> bytes" where
  "io_put_endpoint lp64 big ep buf =
     io_put_int big (snd ep) (io_put_address_v4 lp64 big (fst ep) buf)"

definition read_v4_endpoint :: "bool \<Rightarrow> bytes \<Rightarrow> (u32 \<times> u16) \<times> bytes" where
  "read_v4_endpoint big buf =
     (let (a, b1) = io_get_address_v4 big buf; (p, b2) = io_get_int big b1 in ((a, p), b2))"

section \<open>Facts\<close>

lemma put_int_wire:
  fixes v :: "'w::len word"
  assumes "\<And>v :: 'w word. to_memory big (hton big v) = rev (bytes_of_word v)"
  shows "io_put_int big v buf = buf @ rev (bytes_of_word v)"
  using assms by (simp add: io_put_int_def write_int_hton_def write_int_def write_value_def mem_copy_def)

lemma io_put_ints [codec_simps]:
  "io_put_int big (b :: u16) buf = buf @ rev (bytes_of_word b)"
  "io_put_int big (c :: u32) buf = buf @ rev (bytes_of_word c)"
  "io_put_int big (d :: u64) buf = buf @ rev (bytes_of_word d)"
  by (simp_all add: put_int_wire codec_simps)

lemma get_int_wire:
  fixes v :: "'w::len word"
  assumes "8 dvd LENGTH('w)"
    and "\<And>v :: 'w word. to_memory big (hton big v) = rev (bytes_of_word v)"
    and "\<And>v :: 'w word. ntoh big (hton big v) = v"
  shows "io_get_int big (rev (bytes_of_word v) @ rest) = (v, rest)"
proof -
  have "of_memory big (rev (bytes_of_word v)) = hton big v"
    by (metis assms(1,2) of_memory_to_memory)
  then show ?thesis
    using assms(3) by (simp add: io_get_int_def read_int_ntoh_def read_int_def read_value_def Let_def)
qed

lemma io_get_ints [codec_simps]:
  "io_get_int big (rev (bytes_of_word (b :: u16)) @ rest) = (b, rest)"
  "io_get_int big (rev (bytes_of_word (c :: u32)) @ rest) = (c, rest)"
  "io_get_int big (rev (bytes_of_word (d :: u64)) @ rest) = (d, rest)"
  by (simp_all add: get_int_wire codec_simps)

text \<open>The contract of a stream codec: what is written at the end is read from the front, in
  the same order, and nothing else is touched.\<close>

locale stream_codec =
  fixes put :: "'v \<Rightarrow> bytes \<Rightarrow> bytes"
    and get :: "bytes \<Rightarrow> 'v \<times> bytes"
    and enc :: "'v \<Rightarrow> bytes"
  assumes put_enc: "put v buf = buf @ enc v"
    and get_enc: "get (enc v @ rest) = (v, rest)"
begin

lemma get_put: "get (put v [] @ rest) = (v, rest)"
  by (simp add: put_enc get_enc)

lemma fifo: "get (put w (put v [])) = (v, enc w) \<and> get (enc w) = (w, [])"
  using get_enc [of w "[]"] by (simp add: put_enc get_enc)

lemma put_fold: "fold put vs buf = buf @ concat (map enc vs)"
  by (induction vs arbitrary: buf) (simp_all add: put_enc)

lemma enc_inject: "enc v = enc w \<longleftrightarrow> v = w"
  using get_enc by (metis prod.inject)

end

interpretation io16: stream_codec "io_put_int big" "io_get_int big" "\<lambda>v :: u16. rev (bytes_of_word v)"
  for big
  by unfold_locales (simp_all add: codec_simps)

interpretation io32: stream_codec "io_put_int big" "io_get_int big" "\<lambda>v :: u32. rev (bytes_of_word v)"
  for big
  by unfold_locales (simp_all add: codec_simps)

interpretation io64: stream_codec "io_put_int big" "io_get_int big" "\<lambda>v :: u64. rev (bytes_of_word v)"
  for big
  by unfold_locales (simp_all add: codec_simps)

interpretation io_endpoint: stream_codec "io_put_endpoint False big" "read_v4_endpoint big"
  "\<lambda>ep. rev (bytes_of_word (fst ep)) @ rev (bytes_of_word (snd ep))" for big
  by unfold_locales (simp_all add: io_put_endpoint_def io_put_address_v4_def read_v4_endpoint_def
      io_get_address_v4_def codec_simps)

section \<open>Properties\<close>

text \<open>An IPv4 endpoint written to a buffer is read back where \<open>unsigned long\<close> has 32
  bits. Where it has 64 bits the address takes 8 bytes and is read as 4, so whatever endpoint
  was written, the address read is 0.0.0.0 and the port is the upper half of the address.\<close>
lemma endpoint_roundtrip_needs_32bit_long:
  "read_v4_endpoint r_big (io_put_endpoint False w_big ep [] @ rest) = (ep, rest)
   \<and> fst (read_v4_endpoint r_big (io_put_endpoint True w_big ep [] @ rest)) =
       (0, ucast (drop_bit 16 (fst ep)))"
proof -
  have le: "bytes_of_word (ucast a :: u64) = bytes_of_word a @ [0, 0, 0, 0]" for a :: u32
  proof -
    have z: "(ucast (drop_bit n (ucast a :: u64)) :: byte) = 0" if "32 \<le> n" for n
      by (rule bit_word_eqI) (use that in \<open>auto simp: bit_simps dest: bit_imp_le_length\<close>)
    have "(ucast (drop_bit n (ucast a :: u64)) :: byte) = ucast (drop_bit n a)" for n
      by (rule bit_word_eqI) (auto simp: bit_simps dest: bit_imp_le_length)
    from this [of 0] this [of 8] this [of 16] this [of 24] show ?thesis
      using z [of 32] z [of 40] z [of 48] z [of 56] by (simp add: bytes_of_word64 bytes_of_word32)
  qed
  have zero: "rev (bytes_of_word (0 :: u32)) = [0, 0, 0, 0]"
    by (simp add: bytes_of_word32)
  have hi: "rev (bytes_of_word a) =
      rev (bytes_of_word (ucast (drop_bit 16 a) :: u16)) @ rev (bytes_of_word (ucast a :: u16))"
    for a :: u32
  proof -
    have lo: "(ucast (drop_bit n (ucast a :: u16)) :: byte) = ucast (drop_bit n a)"
      if "n + 8 \<le> 16" for n
      by (rule bit_word_eqI) (use that in \<open>auto simp: bit_simps dest: bit_imp_le_length\<close>)
    have "(ucast (drop_bit n (ucast (drop_bit 16 a) :: u16)) :: byte) = ucast (drop_bit (n + 16) a)"
      if "n + 8 \<le> 16" for n
      by (rule bit_word_eqI)
        (use that in \<open>auto simp: bit_simps ac_simps dest: bit_imp_le_length\<close>)
    from this [of 0] this [of 8] show ?thesis
      using lo [of 0] lo [of 8] by (simp add: bytes_of_word32 bytes_of_word16)
  qed
  have wire: "io_put_endpoint True w_big ep [] @ rest = rev (bytes_of_word (0 :: u32)) @
      rev (bytes_of_word (ucast (drop_bit 16 (fst ep)) :: u16)) @
      (rev (bytes_of_word (ucast (fst ep) :: u16)) @ rev (bytes_of_word (snd ep)) @ rest)"
    using hi [of "fst ep"] by (simp add: io_put_endpoint_def io_put_address_v4_def codec_simps le zero)
  have "fst (read_v4_endpoint r_big (io_put_endpoint True w_big ep [] @ rest)) =
       (0, ucast (drop_bit 16 (fst ep)))"
    unfolding wire by (simp add: read_v4_endpoint_def io_get_address_v4_def io_get_ints)
  then show ?thesis
    by (simp add: io_endpoint.put_enc io_endpoint.get_enc [of r_big ep rest, simplified])
qed

end
