(* ===== verification/Packet_Format.thy ===== *)
theory Packet_Format
  imports Byte_Order
begin

text \<open>\<open>p2engine/packet_format_def.hpp\<close>: the placement of the fields of a packet
  format, computed from their declaration order as the macros do at compile time, and the
  getters and setters of whole and bit fields on a packet buffer. A packet buffer is a byte
  list; an access outside it (refused by \<open>BOOST_ASSERT\<close>) is \<open>None\<close>. Arrays of
  fields, nested formats and signatures are not used by the transport and are left out.\<close>

section \<open>Placement\<close>

text \<open>\<open>field_rear_offset\<close>: what a field tells its successor.\<close>

record rear_offset =
  prev_head :: nat
  prev_rear :: nat
  prev_type_bits :: nat

definition layout_begin :: rear_offset where
  "layout_begin = \<lparr>prev_head = 0, prev_rear = 0, prev_type_bits = 0\<rparr>"

definition field_head_offset :: "nat \<Rightarrow> nat \<Rightarrow> bool \<Rightarrow> nat" where
  "field_head_offset phead prear forward = (if forward then prear else phead)"

definition type_bits :: "'w::len itself \<Rightarrow> nat" where
  "type_bits t = LENGTH('w) div 8 * 8"

datatype field_kind = Whole | Bits nat

record placed =
  p_kind :: field_kind
  p_abs_bit :: nat
  p_head_byte :: nat
  p_off_in_type :: nat
  p_bits :: nat

text \<open>\<open>PACKET_FIELD_DEF\<close> and \<open>PACKET_BIT_FIELD_DEF\<close>; \<open>None\<close> is a
  failed static assertion.\<close>

definition place_field ::
  "nat \<Rightarrow> rear_offset \<Rightarrow> nat \<Rightarrow> field_kind \<Rightarrow> (placed \<times> rear_offset) option" where
  "place_field base_bytes r tbits k =
     (case k of
        Whole \<Rightarrow>
          (let head = field_head_offset (prev_head r) (prev_rear r) True;
               abs_bit = base_bytes * 8 + head
           in if prev_head r + prev_type_bits r = prev_rear r
              then Some (\<lparr>p_kind = Whole, p_abs_bit = abs_bit, p_head_byte = abs_bit div 8,
                          p_off_in_type = 0, p_bits = tbits\<rparr>,
                         \<lparr>prev_head = head, prev_rear = prev_rear r + tbits,
                          prev_type_bits = tbits\<rparr>)
              else None)
      | Bits bits \<Rightarrow>
          (let rear = prev_rear r + bits;
               head = field_head_offset (prev_head r) (prev_rear r)
                        (prev_head r + prev_type_bits r = prev_rear r);
               abs_bit = base_bytes * 8 + rear - bits;
               off = rear - bits - head
           in if bits \<le> tbits \<and> off < tbits
              then Some (\<lparr>p_kind = Bits bits, p_abs_bit = abs_bit, p_head_byte = abs_bit div 8,
                          p_off_in_type = off, p_bits = bits\<rparr>,
                         \<lparr>prev_head = head, prev_rear = rear, prev_type_bits = tbits\<rparr>)
              else None))"

fun place_fields ::
  "nat \<Rightarrow> rear_offset \<Rightarrow> nat \<Rightarrow> ('f \<times> field_kind) list \<Rightarrow> (('f \<times> placed) list \<times> nat) option" where
  "place_fields base_bytes r tbits [] = Some ([], base_bytes + prev_rear r div 8)"
| "place_fields base_bytes r tbits ((f, k) # fs) =
     (case place_field base_bytes r tbits k of
        None \<Rightarrow> None
      | Some (p, r') \<Rightarrow>
          map_option (\<lambda>(ps, size). ((f, p) # ps, size)) (place_fields base_bytes r' tbits fs))"

section \<open>Bit fields\<close>

definition field_mask :: "nat \<Rightarrow> nat \<Rightarrow> 'w::len word" where
  "field_mask off bits = drop_bit (LENGTH('w) - bits) (push_bit off (-1))"

definition extract_field :: "'w::len word \<Rightarrow> nat \<Rightarrow> nat \<Rightarrow> 'w word" where
  "extract_field u off bits =
     drop_bit (LENGTH('w) - bits - off) u AND field_mask off bits"

definition replace_field :: "'w::len word \<Rightarrow> nat \<Rightarrow> nat \<Rightarrow> 'w word \<Rightarrow> 'w word" where
  "replace_field u off bits val =
     (let shift = LENGTH('w) - bits - off;
          mask = push_bit shift (field_mask off bits)
      in (u AND NOT mask) OR (push_bit shift val AND mask))"

definition get_bit_field ::
  "bool \<Rightarrow> bytes \<Rightarrow> nat \<Rightarrow> nat \<Rightarrow> nat \<Rightarrow> 'w::len word option" where
  "get_bit_field big buf offset_in_buf off bits =
     map_option (\<lambda>(u, p). extract_field u off bits) (read_int_ntoh big buf offset_in_buf True)"

definition set_bit_field ::
  "bool \<Rightarrow> bytes \<Rightarrow> nat \<Rightarrow> nat \<Rightarrow> nat \<Rightarrow> 'w::len word \<Rightarrow> bytes option" where
  "set_bit_field big buf offset_in_buf off bits val =
     (case read_int_ntoh big buf offset_in_buf True of
        None \<Rightarrow> None
      | Some (u, p) \<Rightarrow>
          map_option fst
            (write_int_hton big (replace_field u off bits val) buf offset_in_buf True))"

section \<open>Getters and setters of placed fields\<close>

definition get_field :: "bool \<Rightarrow> bytes \<Rightarrow> placed \<Rightarrow> 'w::len word option" where
  "get_field big buf p =
     (case p_kind p of
        Whole \<Rightarrow> map_option (\<lambda>(v, q). ntoh big v) (read_value big buf (p_head_byte p) True)
      | Bits bits \<Rightarrow>
          get_bit_field big buf (p_head_byte p - p_off_in_type p div 8) (p_off_in_type p) bits)"

definition set_field :: "bool \<Rightarrow> bytes \<Rightarrow> placed \<Rightarrow> 'w::len word \<Rightarrow> bytes option" where
  "set_field big buf p val =
     (case p_kind p of
        Whole \<Rightarrow> map_option fst (write_value big (hton big val) buf (p_head_byte p) True)
      | Bits bits \<Rightarrow>
          set_bit_field big buf (p_head_byte p - p_off_in_type p div 8) (p_off_in_type p) bits val)"

text \<open>The value the dumper of a field prints. For a bit field it passes the byte of the field
  itself where the getter passes the first byte of the unit.\<close>

definition dump_field_value ::
  "bool \<Rightarrow> bytes \<Rightarrow> nat \<Rightarrow> placed \<Rightarrow> 'w::len word option" where
  "dump_field_value big buf max_dumped p =
     (if p_head_byte p + LENGTH('w) div 8 \<le> min (length buf) max_dumped
      then (case p_kind p of
              Whole \<Rightarrow> map_option (\<lambda>(v, q). ntoh big v) (read_value big buf (p_head_byte p) True)
            | Bits bits \<Rightarrow> get_bit_field big buf (p_head_byte p) (p_off_in_type p) bits)
      else None)"

section \<open>Bits of the fields\<close>

lemma bit_field_mask:
  "off + bits \<le> LENGTH('w) \<Longrightarrow>
     bit (field_mask off bits :: 'w::len word) n \<longleftrightarrow> n < bits"
  by (auto simp: field_mask_def bit_simps)

lemma bit_extract_field:
  "off + bits \<le> LENGTH('w) \<Longrightarrow>
     bit (extract_field (u :: 'w::len word) off bits) n \<longleftrightarrow>
       n < bits \<and> bit u (LENGTH('w) - bits - off + n)"
  by (auto simp: extract_field_def bit_simps bit_field_mask)

lemma bit_replace_field:
  "off + bits \<le> LENGTH('w) \<Longrightarrow>
     bit (replace_field (u :: 'w::len word) off bits v) n \<longleftrightarrow>
       (if LENGTH('w) - bits - off \<le> n \<and> n < LENGTH('w) - off
        then bit v (n - (LENGTH('w) - bits - off)) else bit u n)"
  by (auto simp: replace_field_def Let_def bit_simps bit_field_mask dest: bit_imp_le_length)

lemma extract_replace_same [codec_simps]:
  "off + bits \<le> LENGTH('w) \<Longrightarrow>
     extract_field (replace_field (u :: 'w::len word) off bits v) off bits = take_bit bits v"
  by (rule bit_word_eqI)
    (auto simp: bit_extract_field bit_replace_field bit_simps)

lemma extract_replace_other [codec_simps]:
  assumes "off + bits \<le> LENGTH('w)" and "off' + bits' \<le> LENGTH('w)"
    and "off + bits \<le> off' \<or> off' + bits' \<le> off"
  shows "extract_field (replace_field (u :: 'w::len word) off bits v) off' bits' =
    extract_field u off' bits'"
  by (rule bit_word_eqI)
    (use assms in \<open>auto simp: bit_extract_field bit_replace_field\<close>)

section \<open>Reading back through the wire contract\<close>

lemma get_bit_field_net:
  "get_bit_field big buf p off bits =
     map_option (\<lambda>u. extract_field u off bits) (rd_net big buf p)"
  by (simp add: get_bit_field_def rd_net_def option.map_comp comp_def case_prod_unfold)

lemma set_bit_field_net:
  "set_bit_field big buf p off bits v =
     (case rd_net big buf p of None \<Rightarrow> None
      | Some u \<Rightarrow> wr_net big (replace_field u off bits v) buf p)"
  by (auto simp: set_bit_field_def rd_net_def wr_net_def split: option.splits)

lemma set_bit_field_someE:
  assumes "set_bit_field big buf p off bits (v :: u32) = Some buf'"
  obtains u where "rd_net big buf p = Some u" and
    "wr_net big (replace_field u off bits v) buf p = Some buf'"
  using assms unfolding set_bit_field_net by (cases "rd_net big buf p :: u32 option") simp_all

lemma extract_whole: "extract_field (u :: 'w::len word) 0 LENGTH('w) = u"
  by (rule bit_word_eqI) (simp add: bit_extract_field)

lemma replace_whole: "replace_field (u :: 'w::len word) 0 LENGTH('w) v = v"
  by (rule bit_word_eqI) (simp add: bit_replace_field)

text \<open>A placed field as a bit range of a unit: the first byte of its 32-bit unit, the
  offset in it and the width. A whole field is the full range.\<close>

definition unit_byte :: "placed \<Rightarrow> nat" where
  "unit_byte p = p_head_byte p - p_off_in_type p div 8"

definition placed_ok :: "placed \<Rightarrow> bool" where
  "placed_ok p = (p_off_in_type p + p_bits p \<le> 32 \<and>
     (case p_kind p of Whole \<Rightarrow> p_off_in_type p = 0 \<and> p_bits p = 32 | Bits b \<Rightarrow> b = p_bits p))"

definition placed_disjoint :: "placed \<Rightarrow> placed \<Rightarrow> bool" where
  "placed_disjoint p q =
     (unit_byte p + 4 \<le> unit_byte q \<or> unit_byte q + 4 \<le> unit_byte p
      \<or> unit_byte p = unit_byte q \<and>
          (p_off_in_type p + p_bits p \<le> p_off_in_type q
           \<or> p_off_in_type q + p_bits q \<le> p_off_in_type p))"

lemma get_field_bits:
  assumes "placed_ok p"
  shows "get_field big buf p =
    (get_bit_field big buf (unit_byte p) (p_off_in_type p) (p_bits p) :: u32 option)"
proof (cases "p_kind p")
  case Whole
  then show ?thesis
    using assms extract_whole [where 'w = 32]
    by (simp add: get_field_def placed_ok_def get_bit_field_def unit_byte_def read_int_ntoh_def
        read_int_def option.map_comp comp_def case_prod_unfold)
next
  case (Bits b)
  then show ?thesis
    using assms by (simp add: get_field_def placed_ok_def unit_byte_def)
qed

lemma set_field_bits:
  assumes "placed_ok p"
  shows "set_field big buf p (v :: u32) =
    set_bit_field big buf (unit_byte p) (p_off_in_type p) (p_bits p) v"
proof (cases "p_kind p")
  case Whole
  have whole: "map_option fst (write_value big (hton big v) buf q True) = (case rd_net big buf q :: u32 option of None \<Rightarrow> None
      | Some u \<Rightarrow> wr_net big v buf q)" for q
    by (simp add: wr_net_eq rd_net_eq mem_copy_def write_value_def split: option.splits)
  show ?thesis
    using assms Whole replace_whole [where 'w = 32]
    by (simp add: set_field_def placed_ok_def set_bit_field_net unit_byte_def whole
        cong: option.case_cong)
next
  case (Bits b)
  then show ?thesis
    using assms by (simp add: set_field_def placed_ok_def unit_byte_def)
qed

lemma get_set_bit_field_same:
  assumes "set_bit_field big buf p off bits (v :: u32) = Some buf'" and "off + bits \<le> 32"
  shows "get_bit_field big buf' p off bits = Some (take_bit bits v)"
  using assms(1)
  by (rule set_bit_field_someE)
    (use assms(2) in \<open>simp add: get_bit_field_net net32.rd_wr_same extract_replace_same\<close>)

lemma get_set_bit_field_other:
  assumes "set_bit_field big buf p off bits (v :: u32) = Some buf'"
    and "off + bits \<le> 32" and "off' + bits' \<le> 32"
    and "q + 4 \<le> p \<or> p + 4 \<le> q \<or> p = q \<and> (off + bits \<le> off' \<or> off' + bits' \<le> off)"
  shows "get_bit_field big buf' q off' bits' = (get_bit_field big buf q off' bits' :: u32 option)"
  using assms(1)
proof (rule set_bit_field_someE)
  fix u assume u: "rd_net big buf p = Some u"
    and wr: "wr_net big (replace_field u off bits v) buf p = Some buf'"
  show ?thesis
  proof (cases "p = q")
    case True
    then show ?thesis
      using assms(2-4) u net32.rd_wr_same [OF wr]
      by (simp add: get_bit_field_net extract_replace_other)
  next
    case False
    then show ?thesis
      using assms(4) net32.rd_wr_other [OF wr, of q] by (auto simp: get_bit_field_net)
  qed
qed

lemma set_bit_field_length:
  assumes "set_bit_field big buf p off bits (v :: u32) = Some buf'"
  shows "length buf' = length buf"
  using assms by (rule set_bit_field_someE) (rule net32.wr_length)

lemma set_bit_field_defined:
  "(\<exists>buf'. set_bit_field big buf p off bits (v :: u32) = Some buf') \<longleftrightarrow> p + 4 \<le> length buf"
proof -
  have "(rd_net big buf p :: u32 option) = None \<longleftrightarrow> \<not> p + 4 \<le> length buf"
    by (simp add: rd_net_eq)
  then show ?thesis
    using net32.wr_defined_iff [where p = p and buf = buf]
    by (auto simp: set_bit_field_net split: option.splits)
qed

lemma get_set_field_same [codec_simps]:
  assumes "set_field big buf p (v :: u32) = Some buf'" and "placed_ok p"
  shows "get_field big buf' p = Some (take_bit (p_bits p) v)"
  using assms get_set_bit_field_same
  by (simp add: get_field_bits set_field_bits placed_ok_def)

lemma get_set_field_other [codec_simps]:
  assumes "set_field big buf p (v :: u32) = Some buf'" and "placed_ok p" and "placed_ok q"
    and "placed_disjoint p q"
  shows "get_field big buf' q = (get_field big buf q :: u32 option)"
  using assms get_set_bit_field_other [of big buf "unit_byte p"]
  by (auto simp: get_field_bits set_field_bits placed_ok_def placed_disjoint_def)

lemma set_field_length:
  "set_field big buf p (v :: u32) = Some buf' \<Longrightarrow> placed_ok p \<Longrightarrow> length buf' = length buf"
  using set_bit_field_length by (simp add: set_field_bits)

lemma set_field_defined:
  "placed_ok p \<Longrightarrow>
     (\<exists>buf'. set_field big buf p (v :: u32) = Some buf') \<longleftrightarrow> unit_byte p + 4 \<le> length buf"
  using set_bit_field_defined by (simp add: set_field_bits)

section \<open>Properties\<close>

text \<open>Writing a bit field of a 32-bit unit and reading it back gives the value reduced to
  the width of the field; every other field of the unit that shares no bit with it, and every
  field of another unit, reads as before, and the packet keeps its length. The write succeeds
  whenever the unit lies in the packet.\<close>
lemma bit_field_write_read:
  fixes v :: u32
  assumes "off + bits \<le> 32" and "off' + bits' \<le> 32" and "p + 4 \<le> length buf"
    and "q + 4 \<le> p \<or> p + 4 \<le> q \<or> p = q \<and> (off + bits \<le> off' \<or> off' + bits' \<le> off)"
  shows "\<exists>buf'. set_bit_field big buf p off bits v = Some buf'
    \<and> length buf' = length buf
    \<and> get_bit_field big buf' p off bits = Some (take_bit bits v)
    \<and> get_bit_field big buf' q off' bits' = (get_bit_field big buf q off' bits' :: u32 option)"
proof -
  obtain buf' where set: "set_bit_field big buf p off bits v = Some buf'"
    using assms(3) set_bit_field_defined [of big buf p off bits v] by blast
  show ?thesis
    using set set_bit_field_length [OF set] get_set_bit_field_same [OF set assms(1)]
      get_set_bit_field_other [OF set assms(1,2,4)] by blast
qed

end
