(* ===== verification/Urdp_Header.thy ===== *)
theory Urdp_Header
  imports Packet_Format
begin

text \<open>\<open>p2engine/rdp/urdp_visitor.hpp\<close>, \<open>basic_urdp_visitor.hpp\<close> and
  \<open>const_define.hpp\<close>: the control codes, the three packet formats of the reliable UDP
  transport and the visitors the shared UDP layer uses to route a packet. A header object is
  the packet buffer it is laid over.\<close>

section \<open>Constants and control codes\<close>

definition INVALID_FLOWID :: u32 where "INVALID_FLOWID = 0xffffff"
definition INVALID_MSGTYPE :: u16 where "INVALID_MSGTYPE = 0xffff"
definition MTU_SIZE :: nat where "MTU_SIZE = 1450"
definition INVALID_DOMAIN :: string where "INVALID_DOMAIN = ''INVALID_DOMAIN''"
definition DEFAULT_DOMAIN :: string where "DEFAULT_DOMAIN = ''DEFAULT_DOMAIN''"

definition DISCONN_INIT :: nat where "DISCONN_INIT = 0"
definition DISCONN_LOCAL :: nat where "DISCONN_LOCAL = 1"
definition DISCONN_REMOTE :: nat where "DISCONN_REMOTE = 2"
definition DISCONN_ERROR :: nat where "DISCONN_ERROR = 4"

datatype urdp_packet_type =
    CTRL_NETWORK_UNREACHABLE
  | CTRL_PUNCH
  | CTRL_CONNECT
  | CTRL_CONNECT_ACK
  | CTRL_CONNECT_ACK_ACK
  | CTRL_DATA
  | CTRL_UNRELIABLE_DATA
  | CTRL_SEMIRELIABLE_DATA
  | CTRL_ACK
  | CTRL_RST
  | CTRL_FIN
  | CTRL_FIN_ACK

definition control_types :: "urdp_packet_type list" where
  "control_types = [CTRL_NETWORK_UNREACHABLE, CTRL_PUNCH, CTRL_CONNECT, CTRL_CONNECT_ACK,
     CTRL_CONNECT_ACK_ACK, CTRL_DATA, CTRL_UNRELIABLE_DATA, CTRL_SEMIRELIABLE_DATA, CTRL_ACK,
     CTRL_RST, CTRL_FIN, CTRL_FIN_ACK]"

fun control_code :: "urdp_packet_type \<Rightarrow> u32" where
  "control_code CTRL_NETWORK_UNREACHABLE = 0"
| "control_code CTRL_PUNCH = 1"
| "control_code CTRL_CONNECT = 2"
| "control_code CTRL_CONNECT_ACK = 3"
| "control_code CTRL_CONNECT_ACK_ACK = 4"
| "control_code CTRL_DATA = 5"
| "control_code CTRL_UNRELIABLE_DATA = 6"
| "control_code CTRL_SEMIRELIABLE_DATA = 7"
| "control_code CTRL_ACK = 8"
| "control_code CTRL_RST = 9"
| "control_code CTRL_FIN = 10"
| "control_code CTRL_FIN_ACK = 11"

text \<open>The value a received control byte has in the \<open>switch\<close> statements; the codes
  above 11 fall to the default branch.\<close>

definition control_of :: "u32 \<Rightarrow> urdp_packet_type option" where
  "control_of c = (if unat c < length control_types then Some (control_types ! unat c) else None)"

section \<open>Formats\<close>

datatype urdp_field =
    F_control | F_peer_id | F_lostrate_recving | F_id_for_lost_detect | F_session_id
  | F_bandwidth_recving | F_window | F_time_sending | F_time_echo | F_seqno | F_ackno

definition urdp_packet_basic_format :: "(urdp_field \<times> field_kind) list" where
  "urdp_packet_basic_format =
     [(F_control, Bits 8), (F_peer_id, Bits 24),
      (F_lostrate_recving, Bits 8), (F_id_for_lost_detect, Bits 8), (F_session_id, Bits 16),
      (F_bandwidth_recving, Bits 16), (F_window, Bits 16)]"

definition urdp_packet_reliable_fields :: "(urdp_field \<times> field_kind) list" where
  "urdp_packet_reliable_fields =
     [(F_time_sending, Bits 16), (F_time_echo, Bits 16), (F_seqno, Whole), (F_ackno, Whole)]"

definition basic_layout :: "(urdp_field \<times> placed) list \<times> nat" where
  "basic_layout = the (place_fields 0 layout_begin 32 urdp_packet_basic_format)"

definition reliable_layout :: "(urdp_field \<times> placed) list \<times> nat" where
  "reliable_layout =
     (let (ps, size) = basic_layout;
          (qs, size') = the (place_fields size layout_begin 32 urdp_packet_reliable_fields)
      in (ps @ qs, size'))"

definition basic_format_size :: nat where
  "basic_format_size = snd basic_layout"

definition unreliable_format_size :: nat where
  "unreliable_format_size = basic_format_size"

definition reliable_format_size :: nat where
  "reliable_format_size = snd reliable_layout"

definition placed_of :: "urdp_field \<Rightarrow> placed" where
  "placed_of f = the (map_of (fst reliable_layout) f)"

definition hget :: "bool \<Rightarrow> bytes \<Rightarrow> urdp_field \<Rightarrow> u32 option" where
  "hget big buf f = get_field big buf (placed_of f)"

definition hset :: "bool \<Rightarrow> bytes \<Rightarrow> urdp_field \<Rightarrow> u32 \<Rightarrow> bytes option" where
  "hset big buf f v = set_field big buf (placed_of f) v"

text \<open>Laying a reliable header over a buffer initialises the two time fields.\<close>

definition reliable_header_init :: "bool \<Rightarrow> bytes \<Rightarrow> bytes option" where
  "reliable_header_init big buf =
     Option.bind (hset big buf F_time_sending 0) (\<lambda>b. hset big b F_time_echo 0)"

section \<open>Visitors\<close>

definition is_conn_request :: "bool \<Rightarrow> bytes \<Rightarrow> bool option" where
  "is_conn_request big h = map_option (\<lambda>c. c = control_code CTRL_CONNECT) (hget big h F_control)"

definition is_punch_ping :: "bool \<Rightarrow> bytes \<Rightarrow> bool option" where
  "is_punch_ping big h = map_option (\<lambda>c. c = control_code CTRL_PUNCH) (hget big h F_control)"

definition is_refuse :: "bool \<Rightarrow> bytes \<Rightarrow> bool option" where
  "is_refuse big h =
     map_option (\<lambda>c. c = control_code CTRL_NETWORK_UNREACHABLE) (hget big h F_control)"

definition get_dst_peer_id :: "bool \<Rightarrow> bytes \<Rightarrow> u32 option" where
  "get_dst_peer_id big h =
     Option.bind (is_conn_request big h) (\<lambda>c.
       if c then Some INVALID_FLOWID else hget big h F_peer_id)"

definition get_src_peer_id :: "bool \<Rightarrow> bytes \<Rightarrow> u32 option" where
  "get_src_peer_id big h =
     Option.bind (is_conn_request big h) (\<lambda>c.
       if c then hget big h F_peer_id else Some INVALID_FLOWID)"

definition get_session :: "bool \<Rightarrow> bytes \<Rightarrow> u32 option" where
  "get_session big h = hget big h F_session_id"

text \<open>A domain name is the bytes after the reliable header; a name is a byte list here,
  and the reserved name of an absent domain is its bytes.\<close>

definition bytes_of_string :: "string \<Rightarrow> bytes" where
  "bytes_of_string s = map (\<lambda>c. of_char c) s"

definition get_demain_name :: "bool \<Rightarrow> bytes \<Rightarrow> bytes \<Rightarrow> bytes option" where
  "get_demain_name big h buf =
     (if reliable_format_size < length buf
      then Option.bind (is_conn_request big h) (\<lambda>c.
             Some (if c then drop reliable_format_size buf else bytes_of_string INVALID_DOMAIN))
      else Some (bytes_of_string INVALID_DOMAIN))"

text \<open>The refusal a layer answers to a packet of an unknown flow. The new buffer comes from
  the pool with whatever bytes it had (the argument \<open>raw\<close>).\<close>

definition make_refuse :: "bool \<Rightarrow> bytes \<Rightarrow> bytes \<Rightarrow> bytes option" where
  "make_refuse big raw h =
     Option.bind (hset big (take basic_format_size raw) F_control
                    (control_code CTRL_NETWORK_UNREACHABLE)) (\<lambda>b1.
     Option.bind (hget big h F_peer_id) (\<lambda>pid.
     Option.bind (hset big b1 F_peer_id pid) (\<lambda>b2.
     Option.bind (hget big h F_session_id) (\<lambda>sid.
     hset big b2 F_session_id sid))))"

section \<open>The layout is the diagram of the source\<close>

lemma basic_layout_eq: "basic_layout = (
   [(F_control, \<lparr>p_kind = Bits 8, p_abs_bit = 0, p_head_byte = 0, p_off_in_type = 0, p_bits = 8\<rparr>),
    (F_peer_id, \<lparr>p_kind = Bits 24, p_abs_bit = 8, p_head_byte = 1, p_off_in_type = 8, p_bits = 24\<rparr>),
    (F_lostrate_recving,
      \<lparr>p_kind = Bits 8, p_abs_bit = 32, p_head_byte = 4, p_off_in_type = 0, p_bits = 8\<rparr>),
    (F_id_for_lost_detect,
      \<lparr>p_kind = Bits 8, p_abs_bit = 40, p_head_byte = 5, p_off_in_type = 8, p_bits = 8\<rparr>),
    (F_session_id,
      \<lparr>p_kind = Bits 16, p_abs_bit = 48, p_head_byte = 6, p_off_in_type = 16, p_bits = 16\<rparr>),
    (F_bandwidth_recving,
      \<lparr>p_kind = Bits 16, p_abs_bit = 64, p_head_byte = 8, p_off_in_type = 0, p_bits = 16\<rparr>),
    (F_window,
      \<lparr>p_kind = Bits 16, p_abs_bit = 80, p_head_byte = 10, p_off_in_type = 16, p_bits = 16\<rparr>)],
   12)"
  by (simp add: basic_layout_def urdp_packet_basic_format_def place_field_def layout_begin_def
      field_head_offset_def Let_def)

lemma reliable_layout_eq: "reliable_layout = (fst basic_layout @
   [(F_time_sending,
      \<lparr>p_kind = Bits 16, p_abs_bit = 96, p_head_byte = 12, p_off_in_type = 0, p_bits = 16\<rparr>),
    (F_time_echo,
      \<lparr>p_kind = Bits 16, p_abs_bit = 112, p_head_byte = 14, p_off_in_type = 16, p_bits = 16\<rparr>),
    (F_seqno, \<lparr>p_kind = Whole, p_abs_bit = 128, p_head_byte = 16, p_off_in_type = 0, p_bits = 32\<rparr>),
    (F_ackno, \<lparr>p_kind = Whole, p_abs_bit = 160, p_head_byte = 20, p_off_in_type = 0, p_bits = 32\<rparr>)],
   24)"
  by (simp add: reliable_layout_def basic_layout_eq urdp_packet_reliable_fields_def place_field_def
      layout_begin_def field_head_offset_def Let_def)

lemma format_sizes [simp]:
  "basic_format_size = 12" "unreliable_format_size = 12" "reliable_format_size = 24"
  by (simp_all add: basic_format_size_def unreliable_format_size_def reliable_format_size_def
      basic_layout_eq reliable_layout_eq)

lemma layout_fst:
  "fst basic_layout @ xs = (fst basic_layout) @ xs" "snd basic_layout = 12"
  by (simp_all add: basic_layout_eq)

fun field_bits :: "urdp_field \<Rightarrow> nat" where
  "field_bits F_control = 8"
| "field_bits F_peer_id = 24"
| "field_bits F_lostrate_recving = 8"
| "field_bits F_id_for_lost_detect = 8"
| "field_bits F_session_id = 16"
| "field_bits F_bandwidth_recving = 16"
| "field_bits F_window = 16"
| "field_bits F_time_sending = 16"
| "field_bits F_time_echo = 16"
| "field_bits F_seqno = 32"
| "field_bits F_ackno = 32"

lemma placed_of_simps:
  "placed_of F_control =
     \<lparr>p_kind = Bits 8, p_abs_bit = 0, p_head_byte = 0, p_off_in_type = 0, p_bits = 8\<rparr>"
  "placed_of F_peer_id =
     \<lparr>p_kind = Bits 24, p_abs_bit = 8, p_head_byte = 1, p_off_in_type = 8, p_bits = 24\<rparr>"
  "placed_of F_lostrate_recving =
     \<lparr>p_kind = Bits 8, p_abs_bit = 32, p_head_byte = 4, p_off_in_type = 0, p_bits = 8\<rparr>"
  "placed_of F_id_for_lost_detect =
     \<lparr>p_kind = Bits 8, p_abs_bit = 40, p_head_byte = 5, p_off_in_type = 8, p_bits = 8\<rparr>"
  "placed_of F_session_id =
     \<lparr>p_kind = Bits 16, p_abs_bit = 48, p_head_byte = 6, p_off_in_type = 16, p_bits = 16\<rparr>"
  "placed_of F_bandwidth_recving =
     \<lparr>p_kind = Bits 16, p_abs_bit = 64, p_head_byte = 8, p_off_in_type = 0, p_bits = 16\<rparr>"
  "placed_of F_window =
     \<lparr>p_kind = Bits 16, p_abs_bit = 80, p_head_byte = 10, p_off_in_type = 16, p_bits = 16\<rparr>"
  "placed_of F_time_sending =
     \<lparr>p_kind = Bits 16, p_abs_bit = 96, p_head_byte = 12, p_off_in_type = 0, p_bits = 16\<rparr>"
  "placed_of F_time_echo =
     \<lparr>p_kind = Bits 16, p_abs_bit = 112, p_head_byte = 14, p_off_in_type = 16, p_bits = 16\<rparr>"
  "placed_of F_seqno =
     \<lparr>p_kind = Whole, p_abs_bit = 128, p_head_byte = 16, p_off_in_type = 0, p_bits = 32\<rparr>"
  "placed_of F_ackno =
     \<lparr>p_kind = Whole, p_abs_bit = 160, p_head_byte = 20, p_off_in_type = 0, p_bits = 32\<rparr>"
  by (simp_all add: placed_of_def reliable_layout_eq basic_layout_eq)

lemma placed_of_ok: "placed_ok (placed_of f)"
  by (cases f) (simp_all add: placed_of_simps placed_ok_def)

lemma placed_of_disjoint: "f \<noteq> g \<Longrightarrow> placed_disjoint (placed_of f) (placed_of g)"
  by (cases f; cases g) (simp_all add: placed_of_simps placed_disjoint_def unit_byte_def)

lemma placed_of_bits: "p_bits (placed_of f) = field_bits f"
  by (cases f) (simp_all add: placed_of_simps)

definition field_end :: "urdp_field \<Rightarrow> nat" where
  "field_end f = unit_byte (placed_of f) + 4"

lemma field_end_le: "field_end f \<le> 24"
  by (cases f) (simp_all add: field_end_def placed_of_simps unit_byte_def)

lemma field_end_basic:
  "f \<in> {F_control, F_peer_id, F_lostrate_recving, F_id_for_lost_detect, F_session_id,
     F_bandwidth_recving, F_window} \<Longrightarrow> field_end f \<le> 12"
  by (auto simp: field_end_def placed_of_simps unit_byte_def)

lemma hset_defined: "(\<exists>buf'. hset big buf f v = Some buf') \<longleftrightarrow> field_end f \<le> length buf"
  using set_field_defined [OF placed_of_ok] by (simp add: hset_def field_end_def)

lemma hset_length: "hset big buf f v = Some buf' \<Longrightarrow> length buf' = length buf"
  using set_field_length placed_of_ok by (auto simp: hset_def)

lemma hget_hset:
  assumes "hset big buf f v = Some buf'"
  shows "hget big buf' g = (if g = f then Some (take_bit (field_bits f) v) else hget big buf g)"
  using assms get_set_field_same [OF _ placed_of_ok] placed_of_bits [of f]
    get_set_field_other [OF _ placed_of_ok placed_of_ok placed_of_disjoint [of f g]]
  by (auto simp: hget_def hset_def)

lemma hget_defined: "(\<exists>v. hget big buf f = Some v) \<longleftrightarrow> field_end f \<le> length buf"
  by (simp add: hget_def get_field_bits [OF placed_of_ok] get_bit_field_net rd_net_eq field_end_def)

lemma take_bit_extract:
  "off + bits \<le> LENGTH('w) \<Longrightarrow>
     take_bit bits (extract_field (u :: 'w::len word) off bits) = extract_field u off bits"
  by (rule bit_word_eqI) (auto simp: bit_extract_field bit_simps)

lemma extract_field_take:
  "off + bits \<le> LENGTH('w) \<Longrightarrow>
     extract_field (u :: 'w::len word) off bits = take_bit bits (drop_bit (LENGTH('w) - bits - off) u)"
  by (rule bit_word_eqI) (auto simp: bit_extract_field bit_simps add.commute)

lemma hget_bits: "hget big h f = Some v \<Longrightarrow> take_bit (field_bits f) v = v"
  using placed_of_ok [of f] take_bit_extract [where 'w = 32] placed_of_bits [of f]
  by (auto simp: hget_def get_field_bits [OF placed_of_ok] get_bit_field_net placed_ok_def)

section \<open>Properties\<close>

text \<open>The compile-time placement of the reliable header is the diagram of the source: the
  fields tile the 192 bits of the 24 bytes in their declared order with no gap and no overlap,
  and the first seven are the 12 byte basic header.\<close>
lemma header_layout_tiles:
  "map (\<lambda>(f, p). (f, p_abs_bit p, p_abs_bit p + p_bits p)) (fst reliable_layout) =
     [(F_control, 0, 8), (F_peer_id, 8, 32), (F_lostrate_recving, 32, 40),
      (F_id_for_lost_detect, 40, 48), (F_session_id, 48, 64), (F_bandwidth_recving, 64, 80),
      (F_window, 80, 96), (F_time_sending, 96, 112), (F_time_echo, 112, 128),
      (F_seqno, 128, 160), (F_ackno, 160, 192)]
   \<and> basic_format_size = 12 \<and> reliable_format_size = 24"
  by (simp add: reliable_layout_eq basic_layout_eq)

text \<open>Setting any field of a reliable header succeeds on a packet of at least 24 bytes,
  keeps the length, makes that field read as the value reduced to its width, and changes no
  other field, on a host of either byte order.\<close>
lemma header_set_get:
  assumes "reliable_format_size \<le> length buf"
  shows "\<exists>buf'. hset big buf f v = Some buf' \<and> length buf' = length buf
    \<and> (\<forall>g. hget big buf' g = (if g = f then Some (take_bit (field_bits f) v) else hget big buf g))"
proof -
  have "field_end f \<le> length buf"
    using assms field_end_le [of f] by simp
  then obtain buf' where "hset big buf f v = Some buf'"
    using hset_defined by blast
  then show ?thesis
    using hset_length hget_hset by blast
qed

text \<open>The refusal built for a packet reads back as a refusal for the same peer and
  session, whatever bytes the pool buffer held, and is not a connection request, so that a
  layer receiving it routes it to the flow with that id.\<close>
lemma make_refuse_addresses:
  assumes "basic_format_size \<le> length raw" and "basic_format_size \<le> length h"
  shows "\<exists>b. make_refuse big raw h = Some b \<and> length b = basic_format_size
    \<and> is_refuse big b = Some True \<and> is_conn_request big b = Some False
    \<and> get_dst_peer_id big b = hget big h F_peer_id \<and> get_session big b = get_session big h"
proof -
  have ok: "\<exists>b. hset big x f v = Some b" if "length x = 12" and "field_end f \<le> 12" for x f v
    using that hset_defined by simp
  have ends: "field_end F_control \<le> 12" "field_end F_peer_id \<le> 12" "field_end F_session_id \<le> 12"
    using field_end_basic by auto
  obtain b1 where b1: "hset big (take 12 raw) F_control 0 = Some b1" and l1: "length b1 = 12"
    using ok [OF _ ends(1), of "take 12 raw" 0] hset_length assms(1) by fastforce
  obtain pid where pid: "hget big h F_peer_id = Some pid"
    using hget_defined ends(2) assms(2) by (metis format_sizes(1) order_trans)
  obtain sid where sid: "hget big h F_session_id = Some sid"
    using hget_defined ends(3) assms(2) by (metis format_sizes(1) order_trans)
  obtain b2 where b2: "hset big b1 F_peer_id pid = Some b2" and l2: "length b2 = 12"
    using ok [OF l1 ends(2)] hset_length l1 by metis
  obtain b3 where b3: "hset big b2 F_session_id sid = Some b3" and l3: "length b3 = 12"
    using ok [OF l2 ends(3)] hset_length l2 by metis
  have small: "take_bit 24 pid = pid" "take_bit 16 sid = sid"
    using hget_bits [OF pid] hget_bits [OF sid] by simp_all
  show ?thesis
    using b1 b2 b3 pid sid l3 small
    by (simp add: make_refuse_def is_refuse_def is_conn_request_def get_dst_peer_id_def
        get_session_def hget_hset [OF b3] hget_hset [OF b2] hget_hset [OF b1])
qed

text \<open>The dumper of a bit field that does not begin its 32-bit unit prints a wrong value:
  it reads the unit from the byte of the field but still shifts by the offset in the unit, so
  the session id 0x0102 of a packet is dumped as the bandwidth field that follows it, and the
  peer id as another number, where the getters return the fields.\<close>
lemma dump_reads_wrong_unit:
  "let pkt = [5, 0, 0, 1, 0, 0, 1, 2, 0x33, 0x44, 0, 0, 0, 0, 0, 0, 0, 0, 0, 0, 0, 0, 0, 0] in
     hget True pkt F_session_id = Some 0x0102
     \<and> dump_field_value True pkt 24 (placed_of F_session_id) = Some (0x3344 :: u32)
     \<and> hget True pkt F_peer_id = Some 1
     \<and> dump_field_value True pkt 24 (placed_of F_peer_id) = Some (0x000100 :: u32)"
  by (simp add: hget_def get_field_def dump_field_value_def placed_of_simps get_bit_field_def
      read_int_ntoh_def read_int_def read_value_def Let_def of_memory_def word_of_bytes_def
      ntoh_def hton_with_n_bytes_def htonl_def extract_field_take)

end
