(* ===== verification/Urdp_Types.thy ===== *)
theory Urdp_Types
  imports Op_Mark Speed_Meter Keeper Urdp_Header
begin

text \<open>\<open>p2engine/rdp/urdp_flow.hpp\<close>: the state of one reliable-UDP flow. Clock values
  (\<open>time32_type\<close>) are 32-bit patterns compared on the circle; durations
  (\<open>m_rto\<close>, \<open>m_srtt\<close>, \<open>m_rttvar\<close>, \<open>m_ping_interval\<close>) are integers added to
  them modulo \<open>2^32\<close>; sequence numbers, windows and lengths are \<open>u32\<close>. Sockets,
  user callbacks and posted handlers are effects appended to \<open>f_outs\<close>. The record also
  carries what the flow reads of its environment: the clock, the generator, the pool bytes a
  fresh buffer holds and the process-wide statistics (\<open>trafic_statistics.hpp\<close>).\<close>

section \<open>Constants of \<open>urdp_flow.cpp\<close>\<close>

definition MIN_RTO :: int where "MIN_RTO = 250"
definition DEF_RTO :: int where "DEF_RTO = 3000"
definition MAX_RTO :: int where "MAX_RTO = 8000"
definition ACK_DELAY :: int where "ACK_DELAY = 100"
definition DEFAULT_TIMEOUT :: int where "DEFAULT_TIMEOUT = 10000"
definition IDLE_TIMEOUT :: int where "IDLE_TIMEOUT = 20000"
definition WAIT_FIN_ACK_TIMEOUT :: int where "WAIT_FIN_ACK_TIMEOUT = 10000"
definition MIN_CLOCK_CHECK_TIME :: int where "MIN_CLOCK_CHECK_TIME = 30"

definition RECV_BUF_SIZE :: nat where "RECV_BUF_SIZE = 0xffff + 16 * 1024"
definition SND_BUF_SIZE :: nat where "SND_BUF_SIZE = RECV_BUF_SIZE * 3 div 2"

text \<open>\<open>m_mss\<close> is assigned once, in \<open>__init\<close>, to \<open>MTU_SIZE\<close>.\<close>

abbreviation mss :: nat where "mss \<equiv> MTU_SIZE"
abbreviation mss_w :: u32 where "mss_w \<equiv> of_nat MTU_SIZE"

type_synonym time32 = u32
type_synonym endpoint = "u32 \<times> u16"

definition bound :: "int \<Rightarrow> int \<Rightarrow> int \<Rightarrow> int" where
  "bound lower middle upper = min (max lower middle) upper"

definition scape_zero :: "time32 \<Rightarrow> time32" where
  "scape_zero t = (if t \<noteq> 0 then t else t + 1)"

definition mod_less :: "'w::len word \<Rightarrow> 'w word \<Rightarrow> bool" where
  "mod_less n1 n2 = wrappable_less n1 n2"

definition mod_less_equal :: "'w::len word \<Rightarrow> 'w word \<Rightarrow> bool" where
  "mod_less_equal n1 n2 = wrappable_less_equal n1 n2"

definition mod_minus :: "'w::len word \<Rightarrow> 'w word \<Rightarrow> int" where
  "mod_minus n1 n2 = wrappable_minus n1 n2"

definition later :: "time32 \<Rightarrow> int \<Rightarrow> time32" where
  "later t d = t + word_of_int d"

section \<open>Data\<close>

datatype shutdown_mode = SD_NONE | SD_GRACEFUL | SD_FORCEFUL

datatype tcp_state =
  INIT | LISTEN | SYN_SENT | SYN_RCVD | ESTABLISHED | CLOSING | WATING_FIN_ACK | CLOSED

fun state_rank :: "tcp_state \<Rightarrow> nat" where
  "state_rank INIT = 0"
| "state_rank LISTEN = 1"
| "state_rank SYN_SENT = 2"
| "state_rank SYN_RCVD = 3"
| "state_rank ESTABLISHED = 4"
| "state_rank CLOSING = 5"
| "state_rank WATING_FIN_ACK = 6"
| "state_rank CLOSED = 7"

lemma state_rank_inject [simp]: "state_rank a = state_rank b \<longleftrightarrow> a = b"
  by (cases a; cases b) simp_all

text \<open>The source compares states by their position in the enumeration.\<close>

instantiation tcp_state :: linorder
begin

definition less_eq_tcp_state :: "tcp_state \<Rightarrow> tcp_state \<Rightarrow> bool" where
  "less_eq_tcp_state a b = (state_rank a \<le> state_rank b)"

definition less_tcp_state :: "tcp_state \<Rightarrow> tcp_state \<Rightarrow> bool" where
  "less_tcp_state a b = (state_rank a < state_rank b)"

instance
  by intro_classes (auto simp: less_eq_tcp_state_def less_tcp_state_def)

end

datatype send_flags = sfNone | sfDelayedAck | sfImmediateAck

datatype tribool = T_true | T_false | T_indeterminate

datatype error_code =
    no_error | already_connected | in_progress | not_connected | would_block | timed_out
  | connection_reset | host_unreachable | bad_descriptor | not_socket

record s_segment =
  ss_buf :: bytes
  ss_seq :: u32
  ss_xmit :: byte
  ss_ctrl :: urdp_packet_type
  ss_reserved :: nat

record r_segment =
  rs_buf :: bytes
  rs_seq :: u32

record u_segment =
  us_buf :: bytes
  us_id :: u32
  us_timeout :: time32
  us_pktID :: u16
  us_msgType :: u16
  us_remainXmit :: int
  us_control :: urdp_packet_type

definition rs_less :: "r_segment \<Rightarrow> r_segment \<Rightarrow> bool" where
  "rs_less a b = mod_less (rs_seq a) (rs_seq b)"

definition us_less :: "u_segment \<Rightarrow> u_segment \<Rightarrow> bool" where
  "us_less a b = (if us_timeout a \<noteq> us_timeout b then mod_less (us_timeout a) (us_timeout b)
     else mod_less (us_id a) (us_id b))"

text \<open>What the flow asks of the world: a datagram handed to the socket of the shared layer,
  calls of the user's connection and of the acceptor, and handlers posted to the service.\<close>

datatype effect =
    Socket_send_to bytes endpoint
  | On_connected error_code
  | On_disconnected error_code
  | On_received bytes
  | On_writeable
  | Accept_flow
  | Post_on_clock
  | Post_async_receive op_stamp_t
  | Post_allert_connected error_code
  | Post_allert_disconnected error_code
  | Post_allert_writeable
  | Post_release
  | Resolve string

text \<open>Where the source would follow a null pointer or read an element of an empty container.\<close>

datatype fault_kind = Null_token | Null_timer | Empty_retrans | Empty_rlist

datatype flow_timer = Timer_gone | Timer_idle | Timer_waiting time32

record trafic_statistics =
  ts_l2r_lost :: int
  ts_r2l_lost :: int
  ts_l2r_meter :: speed_meter
  ts_r2l_meter :: speed_meter

definition trafic_statistics_pricition :: int where
  "trafic_statistics_pricition = 100000"

definition get_local_to_remote_lost_rate :: "trafic_statistics \<Rightarrow> rat" where
  "get_local_to_remote_lost_rate ts = of_int (ts_l2r_lost ts) / of_int trafic_statistics_pricition"

definition get_remote_to_local_lost_rate :: "trafic_statistics \<Rightarrow> rat" where
  "get_remote_to_local_lost_rate ts = of_int (ts_r2l_lost ts) / of_int trafic_statistics_pricition"

text \<open>The conversion of a double to an integer truncates towards zero.\<close>

definition trunc :: "rat \<Rightarrow> int" where
  "trunc r = (if 0 \<le> r then \<lfloor>r\<rfloor> else \<lceil>r\<rceil>)"

definition set_local_to_remote_lost_rate :: "rat \<Rightarrow> trafic_statistics \<Rightarrow> trafic_statistics" where
  "set_local_to_remote_lost_rate v ts =
     ts\<lparr>ts_l2r_lost := trunc (v * of_int trafic_statistics_pricition)\<rparr>"

definition set_remote_to_local_lost_rate :: "rat \<Rightarrow> trafic_statistics \<Rightarrow> trafic_statistics" where
  "set_remote_to_local_lost_rate v ts =
     ts\<lparr>ts_r2l_lost := trunc (v * of_int trafic_statistics_pricition)\<rparr>"

section \<open>The flow\<close>

record urdp_flow =
  m_unreliable_rlist :: "bytes list"
  m_unreliable_slist :: "u_segment list"
  m_unreliable_rkeeper :: "u16 keeper"
  m_unreliable_pktid :: u16
  m_shutdown :: shutdown_mode
  m_establish_time :: time32
  m_session_id :: u16
  m_detect_readable :: bool
  m_detect_writable :: bool
  m_rlist :: "r_segment list"
  m_rcv_nxt :: u32
  m_rcv_wnd :: u32
  m_rlen :: u32
  m_slist :: "s_segment list"
  m_retrans_slist :: "s_segment list"
  m_snd_nxt :: u32
  m_snd_wnd :: u32
  m_slen :: u32
  m_snd_una :: u32
  m_t_rto_base :: time32
  m_t_recent :: u16
  m_t_recent_now :: u16
  m_t_lastrecv :: time32
  m_t_lastsend :: time32
  m_t_lasttraffic :: time32
  m_t_last_on_clock :: time32
  m_rttvar :: int
  m_srtt :: int
  m_rto :: int
  m_lastack :: u32
  m_ssthresh :: u32
  m_cwnd :: u32
  m_recover :: u32
  m_t_ack :: time32
  m_dup_acks :: byte
  m_remote_peer_id :: u32
  m_ping_interval :: int
  m_self_holder :: bool
  m_remote_endpoint :: endpoint
  m_state :: tcp_state
  m_timer :: flow_timer
  m_socket :: bool
  m_token :: "u32 option"
  m_acceptor :: bool
  m_dissconnect_reason :: nat
  m_t_close_base :: "time32 option"
  b_ignore_all_pkt :: bool
  b_keep_recving :: bool
  b_active :: bool
  b_timer_posted :: bool
  b_close_called :: bool
  in_speed_meter :: speed_meter
  out_speed_meter :: speed_meter
  remote_to_local_lost_rate :: rat
  local_to_remote_lost_rate :: rat
  recvd_seqno_mark :: "(byte \<times> time32) list"
  id_for_lost_rate :: byte
  m_resolver :: bool
  m_mark :: operation_mark
  f_layer_open :: bool
  f_id_seed :: u32
  f_session_seed :: u16
  f_clock :: tick
  f_rng :: rng
  f_stats :: trafic_statistics
  f_pool :: bytes
  f_host_big :: bool
  f_fault :: "fault_kind option"
  f_outs :: "effect list"

text \<open>A flow in zeroed memory, where a concrete one is wanted.\<close>

definition blank_flow :: urdp_flow where
  "blank_flow = \<lparr>
     m_unreliable_rlist = [], m_unreliable_slist = [], m_unreliable_rkeeper = [],
     m_unreliable_pktid = 0, m_shutdown = SD_NONE, m_establish_time = 0, m_session_id = 0,
     m_detect_readable = False, m_detect_writable = False, m_rlist = [], m_rcv_nxt = 0,
     m_rcv_wnd = 0, m_rlen = 0, m_slist = [], m_retrans_slist = [], m_snd_nxt = 0, m_snd_wnd = 0,
     m_slen = 0, m_snd_una = 0, m_t_rto_base = 0, m_t_recent = 0, m_t_recent_now = 0,
     m_t_lastrecv = 0, m_t_lastsend = 0, m_t_lasttraffic = 0, m_t_last_on_clock = 0,
     m_rttvar = 0, m_srtt = 0, m_rto = 0, m_lastack = 0, m_ssthresh = 0, m_cwnd = 0,
     m_recover = 0, m_t_ack = 0, m_dup_acks = 0, m_remote_peer_id = 0, m_ping_interval = 0,
     m_self_holder = False, m_remote_endpoint = (0, 0), m_state = INIT, m_timer = Timer_idle,
     m_socket = False, m_token = None, m_acceptor = False, m_dissconnect_reason = 0,
     m_t_close_base = None, b_ignore_all_pkt = False, b_keep_recving = False, b_active = False,
     b_timer_posted = False, b_close_called = False, in_speed_meter = speed_meter_new 2000,
     out_speed_meter = speed_meter_new 2000, remote_to_local_lost_rate = 0,
     local_to_remote_lost_rate = 0, recvd_seqno_mark = [], id_for_lost_rate = 0,
     m_resolver = False, m_mark = operation_mark_new, f_layer_open = False, f_id_seed = 0,
     f_session_seed = 0, f_clock = 0, f_rng = rng_seed 1, f_stats = \<lparr>ts_l2r_lost = 0, ts_r2l_lost = 0, ts_l2r_meter = speed_meter_new 3000,
       ts_r2l_meter = speed_meter_new 3000\<rparr>,
     f_pool = [], f_host_big = False, f_fault = None, f_outs = []\<rparr>"

definition tick_now :: "urdp_flow \<Rightarrow> time32" where
  "tick_now f = word_of_int (f_clock f)"

definition emit :: "effect \<Rightarrow> urdp_flow \<Rightarrow> urdp_flow" where
  "emit e f = f\<lparr>f_outs := f_outs f @ [e]\<rparr>"

definition draw :: "int \<Rightarrow> int \<Rightarrow> urdp_flow \<Rightarrow> int \<times> urdp_flow" where
  "draw from to f = (let (x, r) = range_random from to (f_rng f) in (x, f\<lparr>f_rng := r\<rparr>))"

text \<open>The first fault is remembered.\<close>

definition fault :: "fault_kind \<Rightarrow> urdp_flow \<Rightarrow> urdp_flow" where
  "fault k f = (if f_fault f = None then f\<lparr>f_fault := Some k\<rparr> else f)"

definition is_open :: "urdp_flow \<Rightarrow> bool" where
  "is_open f = (m_token f \<noteq> None \<and> f_layer_open f)"

definition is_connected :: "urdp_flow \<Rightarrow> bool" where
  "is_connected f = (is_open f \<and> m_state f = ESTABLISHED)"

definition flow_id :: "urdp_flow \<Rightarrow> u32" where
  "flow_id f = (if is_open f then the (m_token f) else INVALID_FLOWID)"

definition flow_canceled :: "urdp_flow \<Rightarrow> bool" where
  "flow_canceled f = is_canceled_op (om_stamp (m_mark f)) (m_mark f)"

end
