(* ===== verification/Urdp_Send.thy ===== *)
theory Urdp_Send
  imports Urdp_Types
begin

text \<open>\<open>src/rdp/urdp_flow.cpp\<close>, the sending half: packets on the wire, the two segment
  queues, (re)transmission and the framing of messages. Each function takes the clock value
  its caller read, as in the source.\<close>

section \<open>Packets\<close>

text \<open>\<open>basic_shared_udp_layer::async_send_to\<close> with \<open>RUDP_SCRAMBLE\<close>: eight zero
  bytes go before the packet and the process-wide meter counts them too.\<close>

definition zero_8_bytes :: bytes where
  "zero_8_bytes = replicate 8 0"

definition layer_async_send_to :: "bytes \<Rightarrow> endpoint \<Rightarrow> urdp_flow \<Rightarrow> urdp_flow" where
  "layer_async_send_to buf ep f =
     (let len = length (zero_8_bytes @ buf)
      in if len = 8 then f
         else emit (Socket_send_to (zero_8_bytes @ buf) ep)
                (f\<lparr>f_stats := (f_stats f)\<lparr>ts_l2r_meter :=
                     sm_add (f_clock f) len (ts_l2r_meter (f_stats f))\<rparr>\<rparr>))"

text \<open>A buffer from the pool: its bytes are whatever the pool holds.\<close>

definition fresh_buffer :: "nat \<Rightarrow> urdp_flow \<Rightarrow> bytes" where
  "fresh_buffer n f = take n (f_pool f @ replicate n 0)"

definition put_fields :: "bool \<Rightarrow> (urdp_field \<times> u32) list \<Rightarrow> bytes \<Rightarrow> bytes" where
  "put_fields big vs buf = foldl (\<lambda>b (g, v). the (hset big b g v)) buf vs"

definition wire_lostrate :: "rat \<Rightarrow> u32" where
  "wire_lostrate rate = word_of_int \<lfloor>(if rate < 0 then 0 else rate) * 255\<rfloor>"

definition wire_window :: "u32 \<Rightarrow> u32" where
  "wire_window wnd = ucast (ucast (min wnd 0xffff) :: u16)"

text \<open>The header fields every packet carries; the bandwidth field is never written.\<close>

definition basic_fields :: "urdp_packet_type \<Rightarrow> urdp_flow \<Rightarrow> (urdp_field \<times> u32) list" where
  "basic_fields control f =
     [(F_control, control_code control),
      (F_peer_id, if control = CTRL_CONNECT then the (m_token f) else m_remote_peer_id f),
      (F_lostrate_recving, wire_lostrate (remote_to_local_lost_rate f)),
      (F_id_for_lost_detect, scast (id_for_lost_rate f)),
      (F_session_id, ucast (m_session_id f)),
      (F_window, wire_window (m_rcv_wnd f))]"

definition reliable_fields :: "u32 \<Rightarrow> time32 \<Rightarrow> urdp_flow \<Rightarrow> (urdp_field \<times> u32) list" where
  "reliable_fields seq now f =
     [(F_time_sending, ucast (ucast (scape_zero now) :: u16)),
      (F_time_echo, ucast (m_t_recent f) + (ucast (ucast now :: u16) - ucast (m_t_recent_now f))),
      (F_seqno, seq),
      (F_ackno, m_rcv_nxt f)]"

text \<open>\<open>__packet_as_reliable_and_sendout\<close>. Constructing the header object over a fresh
  buffer zeroes the time fields first.\<close>

definition reliable_packet ::
  "u32 \<Rightarrow> urdp_packet_type \<Rightarrow> bytes \<Rightarrow> time32 \<Rightarrow> urdp_flow \<Rightarrow> bytes" where
  "reliable_packet seq control data now f =
     put_fields (f_host_big f) (basic_fields control f @ reliable_fields seq now f)
       (the (reliable_header_init (f_host_big f) (fresh_buffer reliable_format_size f))) @ data"

definition packet_as_reliable_and_sendout ::
  "u32 \<Rightarrow> urdp_packet_type \<Rightarrow> bytes \<Rightarrow> time32 \<Rightarrow> urdp_flow \<Rightarrow> urdp_flow" where
  "packet_as_reliable_and_sendout seq control data now f =
     (if m_token f = None then fault Null_token f
      else
        let f1 = f\<lparr>id_for_lost_rate := id_for_lost_rate f + 1,
                   out_speed_meter :=
                     sm_add (f_clock f) (reliable_format_size + length data) (out_speed_meter f)\<rparr>;
            f2 = layer_async_send_to (reliable_packet seq control data now f)
                   (m_remote_endpoint f) f1
        in f2\<lparr>m_lastack := m_rcv_nxt f, m_t_ack := 0, m_t_lasttraffic := now,
              m_t_lastsend := now\<rparr>)"

definition unreliable_packet :: "u_segment \<Rightarrow> urdp_flow \<Rightarrow> bytes" where
  "unreliable_packet seg f =
     put_fields (f_host_big f) (basic_fields (us_control seg) f)
       (fresh_buffer unreliable_format_size f)
     @ rev (bytes_of_word (us_pktID seg)) @ rev (bytes_of_word (us_msgType seg)) @ us_buf seg"

definition packet_as_unreliable_and_sendout ::
  "u_segment \<Rightarrow> time32 \<Rightarrow> urdp_flow \<Rightarrow> u_segment \<times> urdp_flow" where
  "packet_as_unreliable_and_sendout seg now f =
     (if m_token f = None then (seg, fault Null_token f)
      else
        let f1 = f\<lparr>id_for_lost_rate := id_for_lost_rate f + 1\<rparr>;
            f2 = layer_async_send_to (unreliable_packet seg f) (m_remote_endpoint f) f1;
            f3 = f2\<lparr>out_speed_meter :=
                      sm_add (f_clock f2) (length (us_buf seg) + unreliable_format_size)
                        (out_speed_meter f2),
                    m_t_lasttraffic := now, m_t_lastsend := now\<rparr>;
            (d, f4) = draw 10 30 f3
        in (seg\<lparr>us_remainXmit := us_remainXmit seg - 1, us_timeout := later now d\<rparr>, f4))"

section \<open>The send queue\<close>

text \<open>\<open>__queue\<close>: bytes are appended to the last unsent data segment as long as it has
  room, then to new segments of at most one MSS.\<close>

definition segment_extends :: "urdp_packet_type \<Rightarrow> s_segment list \<Rightarrow> bool" where
  "segment_extends ctrl sl =
     (ctrl = CTRL_DATA \<and> sl \<noteq> [] \<and> ss_xmit (last sl) = 0 \<and> ss_ctrl (last sl) = ctrl
      \<and> length (ss_buf (last sl)) < mss)"

definition segment_room :: "nat \<Rightarrow> nat \<Rightarrow> nat \<Rightarrow> nat" where
  "segment_room n len reserve =
     (if n = len then (let r = min mss (n + reserve) in if r > mss div 2 then mss else r) else n)"

definition extend_last :: "bytes \<Rightarrow> s_segment list \<Rightarrow> s_segment list" where
  "extend_last bs sl = butlast sl @ [(last sl)\<lparr>ss_buf := ss_buf (last sl) @ bs\<rparr>]"

function queue_loop ::
  "u32 \<Rightarrow> urdp_packet_type \<Rightarrow> nat \<Rightarrow> bytes \<Rightarrow> s_segment list \<Rightarrow> u32 \<Rightarrow> s_segment list \<times> u32" where
  "queue_loop una ctrl reserve data sl slen =
     (if data = [] then (sl, slen)
      else if segment_extends ctrl sl then
        (let n = min (mss - length (ss_buf (last sl))) (length data)
         in queue_loop una ctrl reserve (drop n data) (extend_last (take n data) sl)
              (slen + of_nat n))
      else
        (let n = min mss (length data)
         in queue_loop una ctrl reserve (drop n data)
              (sl @ [\<lparr>ss_buf = take n data, ss_seq = una + slen, ss_xmit = 0, ss_ctrl = ctrl,
                      ss_reserved = segment_room n (length data) reserve\<rparr>])
              (slen + of_nat n)))"
  by pat_completeness auto
termination
  by (relation "measure (\<lambda>(una, ctrl, reserve, data, sl, slen). length data)")
    (auto simp: MTU_SIZE_def segment_extends_def)

declare queue_loop.simps [simp del]

definition queue :: "bytes \<Rightarrow> urdp_packet_type \<Rightarrow> nat \<Rightarrow> urdp_flow \<Rightarrow> urdp_flow" where
  "queue data ctrl reserve f =
     (let (sl, slen) = queue_loop (m_snd_una f) ctrl reserve data (m_slist f) (m_slen f)
      in f\<lparr>m_slist := sl, m_slen := slen\<rparr>)"

section \<open>Transmission\<close>

text \<open>\<open>__transmit\<close> works on an element of one of the two queues through an iterator; here
  it returns the updated segment, which the caller stores back.\<close>

definition transmit :: "s_segment \<Rightarrow> time32 \<Rightarrow> urdp_flow \<Rightarrow> bool \<times> s_segment \<times> urdp_flow" where
  "transmit seg now f =
     (if sint (ss_xmit seg) \<ge> (if m_state f < ESTABLISHED then 16 else 8)
         \<and> mod_minus now (m_t_lastrecv f) \<ge> 10000
      then (False, seg, f)
      else
        let f1 = packet_as_reliable_and_sendout (ss_seq seg) (ss_ctrl seg) (ss_buf seg) now f;
            f2 = (if m_state f1 < ESTABLISHED \<and> sint (ss_xmit seg) \<le> 1
                  then packet_as_reliable_and_sendout (ss_seq seg) (ss_ctrl seg) (ss_buf seg) now f1
                  else f1);
            f3 = (if ss_xmit seg = 0
                  then f2\<lparr>m_snd_nxt := m_snd_nxt f2 + of_nat (length (ss_buf seg))\<rparr> else f2);
            f4 = (if m_t_rto_base f3 = 0 then f3\<lparr>m_t_rto_base := scape_zero now\<rparr> else f3)
        in (True, seg\<lparr>ss_xmit := ss_xmit seg + 1\<rparr>, f4))"

text \<open>Retransmission of the oldest unacknowledged segment.\<close>

definition transmit_retrans_front :: "time32 \<Rightarrow> urdp_flow \<Rightarrow> bool \<times> urdp_flow" where
  "transmit_retrans_front now f =
     (case m_retrans_slist f of
        [] \<Rightarrow> (True, fault Empty_retrans f)
      | seg # rest \<Rightarrow>
          (let (ok, seg', f') = transmit seg now f
           in (ok, f'\<lparr>m_retrans_slist := seg' # rest\<rparr>)))"

text \<open>The part of one round of \<open>__attempt_send\<close> that reads windows: it decides only whether
  an acknowledgment is sent at once when the queue is empty.\<close>

definition attempt_immediate_ack :: "urdp_flow \<Rightarrow> bool" where
  "attempt_immediate_ack f =
     (let cwnd = (if m_dup_acks f = 1 \<or> m_dup_acks f = 2
                  then m_cwnd f + ucast (m_dup_acks f) * mss_w else m_cwnd f);
          nWindow = min (m_snd_wnd f) cwnd;
          nInFlight = (word_of_int (mod_minus (m_snd_nxt f) (m_snd_una f)) :: u32);
          nUseable = (if nInFlight < nWindow then nWindow - nInFlight else 0);
          nAvailable = min (m_slen f - nInFlight) mss_w;
          nAvailable' = (if nAvailable > nUseable
                         then (if nUseable * 4 < nWindow \<and> nUseable < mss_w then 0 else nUseable)
                         else nAvailable)
      in nAvailable' = 0 \<or> (mod_less (m_snd_una f) (m_snd_nxt f) \<and> nAvailable' < mss_w))"

lemma layer_async_send_to_slist [simp]: "m_slist (layer_async_send_to b e f) = m_slist f"
  by (simp add: layer_async_send_to_def emit_def Let_def)

lemma packet_reliable_slist [simp]:
  "m_slist (packet_as_reliable_and_sendout seq c d now f) = m_slist f"
  by (simp add: packet_as_reliable_and_sendout_def fault_def Let_def)

lemma transmit_slist [simp]: "m_slist (snd (snd (transmit seg now f))) = m_slist f"
  by (simp add: transmit_def Let_def)

function attempt_send_loop :: "time32 \<Rightarrow> send_flags \<Rightarrow> urdp_flow \<Rightarrow> urdp_flow" where
  "attempt_send_loop now sflags f =
     (case m_slist f of
        [] \<Rightarrow>
          (if sflags = sfImmediateAck \<or> (attempt_immediate_ack f \<and> m_t_ack f \<noteq> 0)
           then packet_as_reliable_and_sendout (m_snd_nxt f) CTRL_ACK [] now f
           else if sflags \<noteq> sfNone then f\<lparr>m_t_ack := scape_zero now\<rparr>
           else f)
      | seg # rest \<Rightarrow>
          (let (ok, seg', f1) = transmit seg now f
           in if \<not> ok then f1
              else attempt_send_loop now sfNone
                     (f1\<lparr>m_retrans_slist := m_retrans_slist f1 @ [seg'], m_slist := rest\<rparr>)))"
  by pat_completeness auto
termination
  by (relation "measure (\<lambda>(now, sflags, f). length (m_slist f))") auto

declare attempt_send_loop.simps [simp del]

definition attempt_send :: "send_flags \<Rightarrow> urdp_flow \<Rightarrow> urdp_flow" where
  "attempt_send sflags f =
     (let now = tick_now f;
          f1 = (if mod_minus now (m_t_lastsend f) > m_rto f
                then f\<lparr>m_cwnd := max (2 * mss_w) (m_cwnd f div 2)\<rparr> else f)
      in attempt_send_loop now sflags f1)"

section \<open>The rounds of the send loop\<close>

definition move_front :: "time32 \<Rightarrow> s_segment \<Rightarrow> s_segment list \<Rightarrow> urdp_flow \<Rightarrow> urdp_flow" where
  "move_front now seg rest f =
     (let f1 = snd (snd (transmit seg now f))
      in f1\<lparr>m_retrans_slist := m_retrans_slist f1 @ [fst (snd (transmit seg now f))],
            m_slist := rest\<rparr>)"

lemma move_front_slist [simp]: "m_slist (move_front now seg rest f) = rest"
  by (simp add: move_front_def Let_def)

lemma attempt_send_loop_Nil:
  "m_slist f = [] \<Longrightarrow> attempt_send_loop now sflags f =
     (if sflags = sfImmediateAck \<or> (attempt_immediate_ack f \<and> m_t_ack f \<noteq> 0)
      then packet_as_reliable_and_sendout (m_snd_nxt f) CTRL_ACK [] now f
      else if sflags \<noteq> sfNone then f\<lparr>m_t_ack := scape_zero now\<rparr> else f)"
  by (subst attempt_send_loop.simps) simp

lemma attempt_send_loop_Cons:
  "m_slist f = seg # rest \<Longrightarrow> attempt_send_loop now sflags f =
     (if fst (transmit seg now f) then attempt_send_loop now sfNone (move_front now seg rest f)
      else snd (snd (transmit seg now f)))"
  by (subst attempt_send_loop.simps) (simp add: case_prod_unfold Let_def move_front_def)

lemma attempt_loop_induct:
  assumes "\<And>fl f. m_slist f = [] \<Longrightarrow> P fl f"
    and "\<And>fl f seg rest. m_slist f = seg # rest \<Longrightarrow>
      (fst (transmit seg now f) \<Longrightarrow> P sfNone (move_front now seg rest f)) \<Longrightarrow> P fl f"
  shows "P fl f"
proof (induction "length (m_slist f)" arbitrary: fl f)
  case 0
  then show ?case using assms(1) by simp
next
  case (Suc n)
  then obtain seg rest where "m_slist f = seg # rest" by (cases "m_slist f") auto
  then show ?case
    using assms(2) [of f seg rest fl] Suc.hyps by simp
qed

end
