(* ===== verification/Urdp_Clock.thy ===== *)
theory Urdp_Clock
  imports Urdp_Send
begin

text \<open>\<open>src/rdp/urdp_flow.cpp\<close>: round-trip and back-off arithmetic, the timer, closing,
  the notifications of the user, the receive path and the clock handler. Calls into the user's
  connection are effects; what the user does in them arrives as later steps.\<close>

section \<open>Round-trip time and back-off\<close>

definition updata_rtt :: "int \<Rightarrow> urdp_flow \<Rightarrow> urdp_flow" where
  "updata_rtt rtt f =
     (if rtt \<ge> 0
      then
        let rtt' = max 20 rtt;
            f1 = (if m_srtt f = 0 then f\<lparr>m_srtt := rtt', m_rttvar := rtt' div 2\<rparr>
                  else f\<lparr>m_rttvar := (3 * m_rttvar f + \<bar>rtt' - m_srtt f\<bar>) div 4,
                         m_srtt := (7 * m_srtt f + rtt') div 8\<rparr>)
        in f1\<lparr>m_rto := bound MIN_RTO (m_srtt f1 + max 1 (m_rttvar f1 * 4)) MAX_RTO\<rparr>
      else f)"

definition incress_rto :: "urdp_flow \<Rightarrow> urdp_flow" where
  "incress_rto f =
     (let f1 = (if m_state f < ESTABLISHED
                then let (x, r) = range_random_double 2 3 (f_rng f);
                         rto_limit = \<lfloor>of_int MIN_RTO * x\<rfloor>
                     in f\<lparr>f_rng := r, m_rto := m_rto f + min rto_limit (m_rto f)\<rparr>
                else let rto = m_rto f * 2;
                         max_rto = m_srtt f * 16
                     in f\<lparr>m_rto := (if m_srtt f > 0 \<and> rto > max_rto \<and> rto > MIN_RTO
                                   then max_rto else rto)\<rparr>)
      in f1\<lparr>m_rto := bound MIN_RTO (m_rto f1) MAX_RTO\<rparr>)"

section \<open>The timer\<close>

text \<open>The earliest of the events the flow waits for, relative to \<open>now\<close>.\<close>

definition next_event :: "time32 \<Rightarrow> urdp_flow \<Rightarrow> int" where
  "next_event now f =
     (let t0 = max (m_ping_interval f) DEFAULT_TIMEOUT;
          t1 = (case m_t_close_base f of None \<Rightarrow> t0 | Some b \<Rightarrow> min t0 (mod_minus b now));
          t2 = (if m_t_ack f \<noteq> 0 then min t1 (mod_minus (later (m_t_ack f) ACK_DELAY) now) else t1);
          t3 = (if m_t_rto_base f \<noteq> 0
                then min t2 (mod_minus (later (m_t_rto_base f) (m_rto f)) now) else t2);
          t4 = (if m_snd_wnd f = 0
                then min t3 (mod_minus (later (m_t_lastsend f) (m_rto f)) now) else t3);
          t5 = (if m_state f \<ge> ESTABLISHED \<and> m_slist f = [] \<and> m_retrans_slist f = []
                then min t4 (mod_minus (later (m_t_lasttraffic f) (m_ping_interval f)) now)
                else t4)
      in case m_unreliable_slist f of [] \<Rightarrow> t5
         | seg # _ \<Rightarrow> min t5 (mod_minus (us_timeout seg) now))"

text \<open>\<open>__clock_check\<close>: the time to the next event, at least \<open>MIN_CLOCK_CHECK_TIME\<close>
  after the last run of the clock handler, or \<open>None\<close> when closed.\<close>

definition clock_check :: "time32 \<Rightarrow> urdp_flow \<Rightarrow> int option" where
  "clock_check now f =
     (if m_state f = CLOSED then None
      else
        let elapsed = mod_minus now (m_t_last_on_clock f);
            t = (if elapsed < MIN_CLOCK_CHECK_TIME
                 then max (MIN_CLOCK_CHECK_TIME - elapsed) (next_event now f)
                 else next_event now f)
        in Some (if t < 0 then 0 else t))"

definition timer_async_wait :: "int \<Rightarrow> urdp_flow \<Rightarrow> urdp_flow" where
  "timer_async_wait t f = f\<lparr>m_timer := Timer_waiting (later (tick_now f) t)\<rparr>"

definition timer_expires_from_now :: "urdp_flow \<Rightarrow> int" where
  "timer_expires_from_now f =
     (case m_timer f of Timer_waiting d \<Rightarrow> mod_minus d (tick_now f) | _ \<Rightarrow> 0)"

text \<open>\<open>__schedule_timer\<close>. The first component is set when the source calls
  \<open>__on_clock\<close> right away, which only the clock handler itself can make it do.\<close>

definition schedule_timer :: "time32 \<Rightarrow> bool \<Rightarrow> urdp_flow \<Rightarrow> bool \<times> urdp_flow" where
  "schedule_timer now called_in_on_clock f =
     (if m_state f = CLOSED then (False, f)
      else if m_timer f = Timer_gone then (False, fault Null_timer f)
      else
        let idle = (m_timer f = Timer_idle);
            expire = timer_expires_from_now f
        in if \<not> idle \<and> expire > 0 \<and> expire < MIN_CLOCK_CHECK_TIME then (False, f)
           else case clock_check now f of
               None \<Rightarrow> (False, f)
             | Some t \<Rightarrow>
                 if b_timer_posted f then (False, f)
                 else if t \<le> 0
                 then (if called_in_on_clock then (True, f)
                       else (False, emit Post_on_clock (f\<lparr>b_timer_posted := True\<rparr>)))
                 else if idle \<or> t < expire then (False, timer_async_wait t f)
                 else (False, f))"

definition reschedule :: "time32 \<Rightarrow> urdp_flow \<Rightarrow> urdp_flow" where
  "reschedule now f = snd (schedule_timer now False f)"

section \<open>Closing\<close>

definition cancel_flow :: "urdp_flow \<Rightarrow> urdp_flow" where
  "cancel_flow f = f\<lparr>m_mark := set_cancel (m_mark f)\<rparr>"

definition to_closed_state :: "urdp_flow \<Rightarrow> urdp_flow" where
  "to_closed_state f =
     (let f0 = cancel_flow f
      in if m_state f0 = CLOSED then f0
         else
           let f1 = f0\<lparr>m_state := CLOSED, m_token := None, m_timer := Timer_gone,
                       m_socket := False, m_acceptor := False, m_slist := [],
                       m_retrans_slist := [], m_rlist := [], m_t_rto_base := 0\<rparr>
           in if m_self_holder f1 then (emit Post_release f1)\<lparr>m_self_holder := False\<rparr> else f1)"

text \<open>\<open>__close\<close>.\<close>

definition close_internal :: "bool \<Rightarrow> urdp_flow \<Rightarrow> urdp_flow" where
  "close_internal graceful f =
     (if m_token f = None \<or> m_state f = CLOSED then to_closed_state f
      else if b_close_called f then f
      else
        let f1 = (cancel_flow f)\<lparr>m_socket := False, b_close_called := True,
                   m_shutdown := (if \<not> graceful \<or> m_state f < ESTABLISHED then SD_FORCEFUL
                                  else if m_shutdown f = SD_NONE then SD_GRACEFUL
                                  else m_shutdown f)\<rparr>;
            now = tick_now f1
        in if m_shutdown f1 = SD_FORCEFUL
           then to_closed_state
                  (packet_as_reliable_and_sendout (m_snd_nxt f1) CTRL_RST [] now f1)
           else
             let f2 = f1\<lparr>m_state := CLOSING\<rparr>;
                 f3 = (if m_retrans_slist f2 = [] \<and> m_slist f2 = []
                       then packet_as_reliable_and_sendout (m_snd_nxt f2) CTRL_FIN [] now
                              (f2\<lparr>m_t_close_base := Some (later now WAIT_FIN_ACK_TIMEOUT),
                                  m_state := WATING_FIN_ACK\<rparr>)
                       else f2)
             in reschedule now f3)"

definition close :: "bool \<Rightarrow> urdp_flow \<Rightarrow> urdp_flow" where
  "close graceful f =
     (if flow_canceled f then f
      else close_internal graceful
             (f\<lparr>m_dissconnect_reason := m_dissconnect_reason f OR DISCONN_LOCAL\<rparr>))"

section \<open>Notifications\<close>

definition keep_async_receiving :: "urdp_flow \<Rightarrow> urdp_flow" where
  "keep_async_receiving f =
     (if b_keep_recving f then f
      else emit (Post_async_receive (om_stamp (m_mark f))) (f\<lparr>b_keep_recving := True\<rparr>))"

definition block_async_receiving :: "urdp_flow \<Rightarrow> urdp_flow" where
  "block_async_receiving f = f\<lparr>b_keep_recving := False\<rparr>"

definition allert_connected :: "error_code \<Rightarrow> urdp_flow \<Rightarrow> urdp_flow" where
  "allert_connected ec f0 =
     (let f = f0\<lparr>m_establish_time := tick_now f0, m_t_close_base := None\<rparr>
      in if \<not> m_socket f \<or> flow_canceled f then close_internal True f
         else if ec = no_error
         then emit (On_connected ec) (keep_async_receiving (f\<lparr>m_resolver := False\<rparr>))
         else to_closed_state (emit (On_connected ec) f))"

definition allert_disconnected :: "error_code \<Rightarrow> urdp_flow \<Rightarrow> urdp_flow" where
  "allert_disconnected ec f =
     (if \<not> m_socket f \<or> flow_canceled f then to_closed_state f
      else
        to_closed_state
          (if (m_dissconnect_reason f AND DISCONN_LOCAL) = 0 \<and> m_state f \<noteq> CLOSED
           then (if m_state f \<ge> ESTABLISHED then emit (On_disconnected ec) f
                 else if b_active f then emit (On_connected ec) f else f)
           else f))"

definition allert_writeable :: "urdp_flow \<Rightarrow> urdp_flow" where
  "allert_writeable f =
     (if \<not> m_socket f \<or> flow_canceled f then close_internal True f
      else if m_slen f < of_nat SND_BUF_SIZE
      then emit On_writeable (f\<lparr>m_detect_writable := False\<rparr>)
      else f)"

definition allert_accepted :: "urdp_flow \<Rightarrow> urdp_flow" where
  "allert_accepted f =
     (if flow_canceled f then close_internal True f
      else
        let f1 = f\<lparr>m_establish_time := tick_now f, m_t_close_base := None\<rparr>
        in if m_acceptor f1 then emit Accept_flow (keep_async_receiving f1)
           else close True f1)"

definition allert_received :: "bytes \<Rightarrow> urdp_flow \<Rightarrow> urdp_flow" where
  "allert_received buf f =
     (if \<not> m_socket f \<or> flow_canceled f then close_internal True f
      else emit (On_received buf) f)"

section \<open>Receiving\<close>

text \<open>\<open>__can_let_transport_read\<close>: \<open>None\<close> where the source would dereference the end of
  the segment list or a byte of an empty segment.\<close>

definition can_let_transport_read :: "urdp_flow \<Rightarrow> int option" where
  "can_let_transport_read f =
     (if m_state f \<noteq> ESTABLISHED then Some (-1)
      else case m_unreliable_rlist f of
          pkt # _ \<Rightarrow> Some (int (length pkt))
        | [] \<Rightarrow>
            if m_rlen f < 4 then Some 0
            else case m_rlist f of
                [] \<Rightarrow> None
              | s1 # rest \<Rightarrow>
                  (let second = (case rs_buf s1 of
                                   [] \<Rightarrow> None
                                 | [b] \<Rightarrow> (case rest of
                                            [] \<Rightarrow> None
                                          | s2 # _ \<Rightarrow> (case rs_buf s2 of [] \<Rightarrow> None
                                                       | c # _ \<Rightarrow> Some (b, c)))
                                 | b # c # _ \<Rightarrow> Some (b, c))
                   in case second of
                        None \<Rightarrow> None
                      | Some (b, c) \<Rightarrow>
                          (let max_read = unat b * 256 + unat c + 4
                           in Some (if max_read > unat (m_rlen f) then 0 else int max_read))))"

text \<open>The reading loop of \<open>__recv\<close>: bytes are taken from the first segments; the last one
  touched keeps its tail, with its sequence number moved.\<close>

fun recv_loop :: "nat \<Rightarrow> r_segment list \<Rightarrow> (bytes \<times> r_segment list) option" where
  "recv_loop n [] = (if n = 0 then Some ([], []) else None)"
| "recv_loop n (seg # rest) =
     (if n = 0 then Some ([], seg # rest)
      else
        let len = min n (length (rs_buf seg));
            tail = drop len (rs_buf seg)
        in if tail = []
           then map_option (\<lambda>(bs, r). (take len (rs_buf seg) @ bs, r)) (recv_loop (n - len) rest)
           else Some (take len (rs_buf seg),
                      \<lparr>rs_buf = tail, rs_seq = rs_seq seg + of_nat len\<rparr> # rest))"

definition update_recv_window :: "urdp_flow \<Rightarrow> urdp_flow" where
  "update_recv_window f =
     (if of_nat RECV_BUF_SIZE - m_rlen f - m_rcv_wnd f \<ge> min (of_nat RECV_BUF_SIZE div 2) mss_w
      then
        let was_closed = (m_rcv_wnd f = 0);
            f1 = f\<lparr>m_rcv_wnd := of_nat RECV_BUF_SIZE - m_rlen f\<rparr>
        in if was_closed then attempt_send sfImmediateAck f1 else f1
      else f)"

text \<open>\<open>__recv\<close>: the error, the bytes handed up (message type and payload) and the flow.\<close>

definition recv :: "urdp_flow \<Rightarrow> error_code \<times> bytes \<times> urdp_flow" where
  "recv f =
     (if \<not> m_socket f \<or> m_state f \<noteq> ESTABLISHED then (not_connected, [], f)
      else case can_let_transport_read f of
          None \<Rightarrow> (no_error, [], fault Empty_rlist f)
        | Some n \<Rightarrow>
            if n = 0 then (would_block, [], f\<lparr>m_detect_readable := True\<rparr>)
            else case m_unreliable_rlist f of
                pkt # rest \<Rightarrow> (no_error, pkt, f\<lparr>m_unreliable_rlist := rest\<rparr>)
              | [] \<Rightarrow>
                  case recv_loop (nat n) (m_rlist f) of
                    None \<Rightarrow> (no_error, [], fault Empty_rlist f)
                  | Some (bs, rl) \<Rightarrow>
                      (no_error, drop 2 bs,
                       update_recv_window
                         (f\<lparr>m_rlist := rl, m_rlen := m_rlen f - of_int n\<rparr>)))"

text \<open>\<open>__async_receive\<close> reads until nothing is complete. The fuel is the number of rounds.\<close>

fun async_receive_fuel :: "nat \<Rightarrow> op_stamp_t \<Rightarrow> urdp_flow \<Rightarrow> urdp_flow" where
  "async_receive_fuel 0 mark f = f"
| "async_receive_fuel (Suc k) mark f =
     (if is_canceled_op mark (m_mark f) \<or> m_state f = CLOSED \<or> \<not> b_keep_recving f then f
      else
        let (ec, buf, f1) = recv f
        in if f_fault f1 \<noteq> None then f1
           else if ec = no_error then async_receive_fuel k mark (allert_received buf f1)
           else if ec \<noteq> would_block then allert_disconnected ec f1
           else reschedule (tick_now f1) f1)"

definition receive_rounds :: "urdp_flow \<Rightarrow> nat" where
  "receive_rounds f = length (m_unreliable_rlist f) + unat (m_rlen f) + 1"

definition async_receive :: "op_stamp_t \<Rightarrow> urdp_flow \<Rightarrow> urdp_flow" where
  "async_receive mark f = async_receive_fuel (receive_rounds f) mark f"

definition allert_readable :: "urdp_flow \<Rightarrow> urdp_flow" where
  "allert_readable f =
     (if \<not> m_socket f \<or> flow_canceled f then close_internal True f
      else if m_detect_readable f
      then case can_let_transport_read f of
             None \<Rightarrow> fault Empty_rlist f
           | Some n \<Rightarrow>
               if n \<noteq> 0
               then let f1 = f\<lparr>m_detect_readable := False\<rparr>
                    in if b_keep_recving f1 then async_receive (om_stamp (m_mark f1)) f1 else f1
               else f
      else f)"

end
