(* ===== verification/Urdp_Process.thy ===== *)
theory Urdp_Process
  imports Urdp_Clock Buffer_Io
begin

text \<open>\<open>src/rdp/urdp_flow.cpp\<close>: creation, connecting, sending, the packet handler
  \<open>__process\<close> with its parts in the order of the source, and the clock handler
  \<open>__on_clock\<close>. The user's callbacks are effects.\<close>

section \<open>Creation and connecting\<close>

text \<open>\<open>__init\<close>. What it does not assign (\<open>m_rcv_nxt\<close>, \<open>m_t_recent_now\<close>,
  \<open>m_unreliable_pktid\<close>, \<open>id_for_lost_rate_\<close>, \<open>m_establish_time\<close>) keeps the
  value of the argument, the memory the object was built in.\<close>

definition init_flow :: "urdp_flow \<Rightarrow> urdp_flow" where
  "init_flow f =
     (let now = tick_now f;
          (iss, f1) = draw 0xff 0x7fffffff f;
          (step, f2) = draw 1 64 f1;
          sid = f_session_seed f2 + word_of_int step
      in f2\<lparr>m_mark := next_op_stamp (m_mark f2),
            m_timer := Timer_idle,
            m_t_close_base := Some (later now IDLE_TIMEOUT),
            m_t_last_on_clock := now,
            m_shutdown := SD_NONE,
            m_dissconnect_reason := DISCONN_INIT,
            m_socket := False,
            m_remote_peer_id := INVALID_FLOWID,
            m_ping_interval := DEFAULT_TIMEOUT,
            m_state := INIT,
            m_snd_wnd := of_nat (RECV_BUF_SIZE div 2),
            m_rcv_wnd := of_nat RECV_BUF_SIZE,
            m_snd_una := word_of_int iss,
            m_snd_nxt := word_of_int iss,
            m_slen := 0,
            m_rlen := 0,
            m_detect_readable := True,
            m_detect_writable := False,
            m_t_ack := 0,
            m_t_rto_base := 0,
            m_cwnd := 2 * mss_w,
            m_ssthresh := of_nat RECV_BUF_SIZE,
            m_t_lastrecv := now,
            m_t_lastsend := now,
            m_t_lasttraffic := now,
            m_dup_acks := 0,
            m_recover := 0,
            m_t_recent := 0,
            m_lastack := m_rcv_nxt f2,
            m_rto := MIN_RTO,
            m_srtt := 0,
            m_rttvar := 0,
            f_session_seed := sid,
            m_session_id := sid,
            b_keep_recving := False,
            b_close_called := False,
            b_timer_posted := False,
            b_ignore_all_pkt := False\<rparr>)"

text \<open>The constructor: empty containers, unknown loss rates, meters of two seconds.\<close>

definition construct_flow :: "urdp_flow \<Rightarrow> urdp_flow" where
  "construct_flow raw =
     init_flow (raw\<lparr>m_mark := operation_mark_new, m_unreliable_rlist := [],
       m_unreliable_slist := [], m_unreliable_rkeeper := [], m_rlist := [], m_slist := [],
       m_retrans_slist := [], m_token := None, m_acceptor := False, m_self_holder := False,
       recvd_seqno_mark := [], m_resolver := False,
       remote_to_local_lost_rate := -1, local_to_remote_lost_rate := -1,
       in_speed_meter := speed_meter_new 2000, out_speed_meter := speed_meter_new 2000,
       f_fault := None, f_outs := []\<rparr>)"

text \<open>The shared layer gives the token, with the flow id it registered.\<close>

definition create_for_active_connect :: "u32 \<Rightarrow> urdp_flow \<Rightarrow> urdp_flow" where
  "create_for_active_connect fid raw =
     (construct_flow raw)\<lparr>b_active := True, m_socket := True, m_state := INIT,
       m_self_holder := True, m_token := Some fid\<rparr>"

definition create_for_passive_connect :: "u32 \<Rightarrow> endpoint \<Rightarrow> urdp_flow \<Rightarrow> urdp_flow" where
  "create_for_passive_connect fid remote_edp raw =
     timer_async_wait IDLE_TIMEOUT
       ((construct_flow raw)\<lparr>m_acceptor := True, m_remote_endpoint := remote_edp,
          b_active := False, m_state := LISTEN, m_self_holder := True, m_token := Some fid\<rparr>)"

text \<open>\<open>async_connect\<close> to an endpoint; \<open>time_out\<close> is in milliseconds, \<open>None\<close> the
  positive or negative infinity.\<close>

definition async_connect :: "endpoint \<Rightarrow> bytes \<Rightarrow> int option \<Rightarrow> urdp_flow \<Rightarrow> urdp_flow" where
  "async_connect remote_enp domain_name time_out f =
     (if m_state f > INIT
      then emit (Post_allert_connected
             (if m_state f = ESTABLISHED then already_connected else in_progress)) f
      else
        let now = tick_now f;
            t = (case time_out of None \<Rightarrow> IDLE_TIMEOUT
                 | Some t \<Rightarrow> if t \<le> 0 then IDLE_TIMEOUT else t);
            f1 = (timer_async_wait t f)\<lparr>m_t_close_base := Some (later now t),
                   m_remote_endpoint := remote_enp, b_active := True, m_state := SYN_SENT\<rparr>;
            f2 = attempt_send sfNone (queue domain_name CTRL_CONNECT 0 f1)
        in reschedule now f2)"

text \<open>\<open>async_connect\<close> to a host: \<open>from_string\<close> is the address parser of asio.\<close>

definition async_connect_host ::
  "(string \<Rightarrow> u32 option) \<Rightarrow> string \<Rightarrow> int \<Rightarrow> bytes \<Rightarrow> int option \<Rightarrow> urdp_flow \<Rightarrow> urdp_flow" where
  "async_connect_host from_string remote_host port domain_name time_out f =
     (case from_string remote_host of
        Some addr \<Rightarrow> async_connect (addr, word_of_int port) domain_name time_out f
      | None \<Rightarrow> emit (Resolve remote_host) (f\<lparr>m_resolver := True\<rparr>))"

definition handle_resolve :: "error_code \<Rightarrow> endpoint option \<Rightarrow> bytes \<Rightarrow> int option \<Rightarrow>
    op_stamp_t \<Rightarrow> urdp_flow \<Rightarrow> urdp_flow" where
  "handle_resolve ec itr domain_name time_out mark f =
     (if is_canceled_op mark (m_mark f) then f
      else case itr of
          None \<Rightarrow> allert_connected ec f
        | Some ep \<Rightarrow> if ec \<noteq> no_error then allert_connected ec f
                    else async_connect ep domain_name time_out f)"

section \<open>Sending\<close>

definition semireliable_schedule :: "time32 \<Rightarrow> u_segment \<Rightarrow> urdp_flow \<Rightarrow> u_segment \<times> urdp_flow" where
  "semireliable_schedule now seg f =
     (let lost_rate = local_to_remote_lost_rate f
      in if lost_rate > 1 / 10
         then let (d, f') = draw 10 30 f
              in (seg\<lparr>us_timeout := later now d, us_remainXmit := 3\<rparr>, f')
         else if lost_rate > 1 / 100 \<or> lost_rate < 0
         then let (d, f') = draw 20 50 f
              in (seg\<lparr>us_timeout := later now d, us_remainXmit := 2\<rparr>, f')
         else (seg\<lparr>us_remainXmit := 1\<rparr>, f))"

definition send_unreliable :: "bytes \<Rightarrow> u16 \<Rightarrow> bool \<Rightarrow> urdp_flow \<Rightarrow> urdp_flow" where
  "send_unreliable buf msg_type semi f =
     (let now = tick_now f;
          f1 = f\<lparr>m_unreliable_pktid := m_unreliable_pktid f + 1, f_id_seed := f_id_seed f + 1\<rparr>;
          seg = \<lparr>us_buf = buf, us_id = f_id_seed f, us_timeout = 0,
                 us_pktID = m_unreliable_pktid f1, us_msgType = msg_type, us_remainXmit = 1,
                 us_control = (if semi then CTRL_SEMIRELIABLE_DATA else CTRL_UNRELIABLE_DATA)\<rparr>;
          (seg1, f2) = (if semi then semireliable_schedule now seg f1 else (seg, f1));
          (seg2, f3) = packet_as_unreliable_and_sendout seg1 now f2
      in if us_remainXmit seg2 > 0
         then f3\<lparr>m_unreliable_slist := oset_insert us_less seg2 (m_unreliable_slist f3)\<rparr>
         else f3)"

definition frame_header :: "nat \<Rightarrow> u16 \<Rightarrow> bytes" where
  "frame_header len msg_type =
     rev (bytes_of_word (of_nat len :: u16)) @ rev (bytes_of_word msg_type)"

text \<open>\<open>__send\<close>. The length of a reliable message is cut to 16 bits before it is used.\<close>

definition send :: "bytes \<Rightarrow> u16 \<Rightarrow> tribool \<Rightarrow> urdp_flow \<Rightarrow> int \<times> error_code \<times> urdp_flow" where
  "send buf msg_type reliable f =
     (if \<not> m_socket f \<or> m_state f \<noteq> ESTABLISHED then (-1, not_connected, f)
      else if reliable = T_true
      then
        let buf_len = unat (of_nat (length buf) :: u16);
            f1 = queue (frame_header buf_len msg_type) CTRL_DATA (length buf) f;
            f2 = queue (take buf_len buf) CTRL_DATA 0 f1;
            f3 = attempt_send sfNone f2
        in if m_slen f3 \<ge> of_nat SND_BUF_SIZE
           then (-1, would_block, f3\<lparr>m_detect_writable := True\<rparr>)
           else (int buf_len, no_error, f3)
      else if length buf > 2 * mss \<or> buf = [] then (int (length buf), no_error, f)
      else (int (length buf), no_error, send_unreliable buf msg_type (reliable = T_indeterminate) f))"

text \<open>The last condition, \<open>!(!reliable)\<close>, is a tribool used as a condition: it is false for an
  indeterminate one, so a semireliable send does not schedule the timer.\<close>

definition async_send :: "bytes \<Rightarrow> u16 \<Rightarrow> tribool \<Rightarrow> urdp_flow \<Rightarrow> urdp_flow" where
  "async_send buf msg_type reliable f =
     (let (n, ec, f1) = send buf msg_type reliable f;
          f2 = (if ec \<noteq> no_error
                then (if ec = would_block then f1 else emit (Post_allert_disconnected ec) f1)
                else if reliable = T_true then emit Post_allert_writeable f1 else f1)
      in if reliable = T_true then reschedule (tick_now f2) f2 else f2)"

text \<open>\<open>ping\<close> sends one byte of the stack, taken from the pool bytes here.\<close>

definition ping :: "urdp_flow \<Rightarrow> error_code \<times> urdp_flow" where
  "ping f =
     (if \<not> is_connected f then (not_connected, f)
      else (no_error,
            attempt_send sfNone
              (if m_slist f = [] \<and> m_retrans_slist f = []
               then queue (fresh_buffer 1 f) CTRL_ACK 0 f else f)))"

definition set_ping_interval :: "int \<Rightarrow> urdp_flow \<Rightarrow> urdp_flow" where
  "set_ping_interval t f =
     (let f1 = f\<lparr>m_ping_interval := min t (2 ^ 31 - 1)\<rparr>
      in if m_ping_interval f > t then reschedule (tick_now f1) f1 else f1)"

definition make_punch_packet :: "bool \<Rightarrow> endpoint \<Rightarrow> urdp_flow \<Rightarrow> error_code \<times> bytes \<times> urdp_flow" where
  "make_punch_packet lp64 external_edp f =
     (if is_open f
      then
        let now = tick_now f;
            hdr = put_fields (f_host_big f)
                    ((F_control, control_code CTRL_PUNCH) # (F_peer_id, the (m_token f))
                     # drop 2 (basic_fields CTRL_PUNCH f) @ reliable_fields (m_snd_nxt f) now f)
                    (the (reliable_header_init (f_host_big f) (fresh_buffer reliable_format_size f)))
        in (no_error, io_put_endpoint lp64 (f_host_big f) external_edp hdr,
            f\<lparr>id_for_lost_rate := id_for_lost_rate f + 1\<rparr>)
      else (bad_descriptor, [], f))"

definition on_received_punch_request :: "bytes \<Rightarrow> urdp_flow \<Rightarrow> urdp_flow" where
  "on_received_punch_request buf f =
     (if length buf < reliable_format_size then f
      else
        let (edp, _) = read_v4_endpoint (f_host_big f) (drop reliable_format_size buf);
            pkt = take basic_format_size buf
        in if m_token f \<noteq> None \<and> snd edp \<noteq> 0
           then layer_async_send_to pkt edp (layer_async_send_to pkt edp f)
           else f)"

text \<open>\<open>alive_probability\<close>.\<close>

definition alive_probability :: "urdp_flow \<Rightarrow> rat" where
  "alive_probability f =
     (if \<not> is_connected f then 0
      else
        let now = tick_now f
        in if mod_less now (later (m_establish_time f) 3000) then 1
           else
             let deadline = max 5000 (min 10000 (min (m_ping_interval f * 2) (m_srtt f * 4)));
                 a = mod_minus now (m_t_lastrecv f) - (m_ping_interval f + m_srtt f);
                 p = of_int (deadline - a) / of_int deadline :: rat
             in if a \<le> 0 then 1 else if p \<le> 0 then 0 else p * p)"

section \<open>Loss rates\<close>

definition mark_stale :: "time32 \<Rightarrow> byte option \<Rightarrow> (byte \<times> time32) list \<Rightarrow> bool" where
  "mark_stale now mid qm =
     (let first = fst (hd qm); lst = fst (last qm)
      in length qm \<ge> 126
         \<or> mod_less (later (snd (hd qm)) 3000) now
         \<or> (length qm > 1 \<and> wrappable_minus lst first \<le> 0)
         \<or> (case mid of None \<Rightarrow> False | Some i \<Rightarrow> wrappable_minus i first < 0)
         \<or> (case mid of None \<Rightarrow> False
            | Some i \<Rightarrow> wrappable_greater_equal first i \<and> wrappable_greater_equal i lst))"

fun drop_marks :: "time32 \<Rightarrow> byte option \<Rightarrow> (byte \<times> time32) list \<Rightarrow> (byte \<times> time32) list" where
  "drop_marks now mid [] = []"
| "drop_marks now mid (m # ms) =
     (if mark_stale now mid (m # ms) then drop_marks now mid ms else m # ms)"

definition insert_mark :: "byte option \<Rightarrow> time32 \<Rightarrow> (byte \<times> time32) list \<Rightarrow> (byte \<times> time32) list" where
  "insert_mark mid now qm =
     (case mid of None \<Rightarrow> qm
      | Some i \<Rightarrow> oset_insert (\<lambda>a b. wrappable_less (fst a) (fst b)) (i, now) qm)"

definition marks_lost_rate :: "(byte \<times> time32) list \<Rightarrow> rat \<Rightarrow> rat" where
  "marks_lost_rate qm old =
     (if qm = [] then 0
      else
        let cnt = wrappable_minus (fst (last qm)) (fst (hd qm)) + 1
        in if cnt \<ge> int (length qm)
           then let lost = 1 - of_nat (length qm) / of_int cnt
                in (if old < 0 then lost else old * (125 / 1000) + lost * (875 / 1000))
           else if old < 0 then 0 else old)"

definition unit_clip :: "rat \<Rightarrow> rat" where
  "unit_clip a = (if a > 1 then 1 else if a < 0 then 0 else a)"

definition lost_rate_after_marks :: "bool \<Rightarrow> (byte \<times> time32) list \<Rightarrow> rat \<Rightarrow> rat" where
  "lost_rate_after_marks calc qm old =
     (let r1 = (if calc then marks_lost_rate qm old else old);
          r2 = (if qm = [] then r1 / 2 else r1);
          r3 = (if r2 < 0 then 0 else r2)
      in if r3 > 1 then 1 else r3)"

text \<open>The running average of the process, weighted by the share of the traffic.\<close>

definition blend :: "rat \<Rightarrow> rat \<Rightarrow> rat \<Rightarrow> rat" where
  "blend old_rate rate a =
     (let new_rate = old_rate * (1 - a) + rate * a
      in old_rate * (125 / 1000) + new_rate * (875 / 1000))"

definition calc_remote_to_local_lost_rate ::
  "time32 \<Rightarrow> byte option \<Rightarrow> urdp_flow \<Rightarrow> rat \<times> urdp_flow" where
  "calc_remote_to_local_lost_rate now mid f =
     (if m_state f \<noteq> ESTABLISHED then (1, f)
      else
        let old = remote_to_local_lost_rate f;
            qm1 = drop_marks now mid (recvd_seqno_mark f);
            qm2 = insert_mark mid now qm1;
            calc = (mid \<noteq> None \<or> length qm1 < length (recvd_seqno_mark f));
            rate = lost_rate_after_marks calc qm2 old;
            f1 = f\<lparr>recvd_seqno_mark := qm2, remote_to_local_lost_rate := rate\<rparr>
        in if calc \<or> old \<noteq> rate
           then
             let (s, im) = bytes_per_second (f_clock f1) (in_speed_meter f1);
                 (g, gm) = bytes_per_second (f_clock f1) (ts_r2l_meter (f_stats f1));
                 a = unit_clip (max 200 s / (g + 1));
                 st = (f_stats f1)\<lparr>ts_r2l_meter := gm\<rparr>;
                 st' = set_remote_to_local_lost_rate
                         (blend (get_remote_to_local_lost_rate st) rate a) st
             in (rate, f1\<lparr>in_speed_meter := im, f_stats := st'\<rparr>)
           else (rate, f1))"

definition calculate_local_to_remote_lost_rate ::
  "u32 \<Rightarrow> u32 \<Rightarrow> time32 \<Rightarrow> urdp_flow \<Rightarrow> urdp_flow" where
  "calculate_local_to_remote_lost_rate lostrate_field id_field now f0 =
     (let f = snd (calc_remote_to_local_lost_rate now (Some (ucast id_field)) f0);
          rate = of_int (uint lostrate_field) / 255
      in if local_to_remote_lost_rate f < 0 then f\<lparr>local_to_remote_lost_rate := rate\<rparr>
         else
           let (s, om) = bytes_per_second (f_clock f) (out_speed_meter f);
               (g, gm) = bytes_per_second (f_clock f) (ts_l2r_meter (f_stats f));
               a = unit_clip (max 200 s / (g + 1));
               st = (f_stats f)\<lparr>ts_l2r_meter := gm\<rparr>;
               st' = set_local_to_remote_lost_rate
                       (blend (get_local_to_remote_lost_rate st) rate a) st
           in f\<lparr>local_to_remote_lost_rate := rate, out_speed_meter := om, f_stats := st'\<rparr>)"

end
