(* ===== verification/Urdp_Receive.thy ===== *)
theory Urdp_Receive
  imports Urdp_Process
begin

text \<open>\<open>urdp_flow::__process\<close> in the parts of the source: the checks before anything is
  believed, unreliable packets, the control switch, acknowledgments, data, and the finish. And
  \<open>__on_clock\<close>, with its call of itself through the timer as fuel.\<close>

section \<open>Header of a received packet\<close>

definition hdr :: "urdp_flow \<Rightarrow> bytes \<Rightarrow> urdp_field \<Rightarrow> u32" where
  "hdr f sbuf g = the (hget (f_host_big f) sbuf g)"

section \<open>Unreliable packets\<close>

definition process_unreliable :: "bool \<Rightarrow> bytes \<Rightarrow> urdp_flow \<Rightarrow> bool \<times> urdp_flow" where
  "process_unreliable semi sbuf f =
     (if length sbuf \<ge> unreliable_format_size + 4 \<and> m_socket f \<and> m_state f = ESTABLISHED
      then
        let (pid, pkt) = io_get_int (f_host_big f) (drop unreliable_format_size sbuf);
            (fresh, f1) = (if semi
                           then let (ok, sigs, k) = set_try_keep pid 8000 (f_clock f)
                                                      (m_unreliable_rkeeper f)
                                in (ok, f\<lparr>m_unreliable_rkeeper := k\<rparr>)
                           else (True, f))
        in (True, if fresh
                  then allert_readable (f1\<lparr>m_unreliable_rlist := m_unreliable_rlist f1 @ [pkt]\<rparr>)
                  else f1)
      else (False, f))"

section \<open>Acknowledgments\<close>

definition drop_acked :: "u32 \<Rightarrow> s_segment list \<Rightarrow> s_segment list" where
  "drop_acked una sl = dropWhile (\<lambda>seg. mod_minus una (ss_seq seg) > 0) sl"

text \<open>A new acknowledgment: what happens before the congestion window is looked at.\<close>

definition ack_advance :: "u32 \<Rightarrow> u16 \<Rightarrow> u32 \<Rightarrow> time32 \<Rightarrow> urdp_flow \<Rightarrow> urdp_flow" where
  "ack_advance ackno time_echo window now f =
     (let f1 = (if time_echo \<noteq> 0 then updata_rtt (mod_minus (ucast now) time_echo) f else f);
          n_acked = word_of_int (mod_minus ackno (m_snd_una f1));
          f2 = f1\<lparr>m_snd_wnd := window, m_snd_una := ackno, m_slen := m_slen f1 - n_acked\<rparr>;
          f3 = (if m_snd_una f2 = m_snd_nxt f2 then f2\<lparr>m_t_rto_base := 0\<rparr>
                else if m_t_rto_base f2 = 0 then f2\<lparr>m_t_rto_base := scape_zero now\<rparr>
                else f2);
          f4 = f3\<lparr>m_retrans_slist := drop_acked ackno (m_retrans_slist f3)\<rparr>
      in if m_retrans_slist f4 = [] then f4\<lparr>m_t_rto_base := 0\<rparr> else f4)"

text \<open>Congestion window after a new acknowledgment. The first component is set when the
  handler must stop because the retransmission limit was reached.\<close>

definition ack_congestion :: "u32 \<Rightarrow> time32 \<Rightarrow> urdp_flow \<Rightarrow> bool \<times> urdp_flow" where
  "ack_congestion n_acked now f =
     (if m_dup_acks f \<ge> 3
      then
        if m_snd_una f \<ge> m_recover f
        then
          let n_in_flight = word_of_int (mod_minus (m_snd_nxt f) (m_snd_una f)) :: u32
          in (False, f\<lparr>m_cwnd := min (m_ssthresh f) (n_in_flight + mss_w), m_dup_acks := 0\<rparr>)
        else
          let (ok, f1) = transmit_retrans_front now f
          in if \<not> ok then (True, allert_disconnected timed_out f1)
             else (False, f1\<lparr>m_cwnd := m_cwnd f1 + (mss_w - min n_acked (m_cwnd f1))\<rparr>)
      else
        let f1 = f\<lparr>m_dup_acks := 0\<rparr>
        in (False,
            if m_cwnd f1 < m_ssthresh f1 then f1\<lparr>m_cwnd := m_cwnd f1 + mss_w\<rparr>
            else f1\<lparr>m_cwnd := m_cwnd f1 + of_nat (max 1 (mss * mss div unat (m_cwnd f1)))\<rparr>))"

definition ack_accept :: "urdp_flow \<Rightarrow> bool \<times> urdp_flow" where
  "ack_accept f =
     (if m_state f = SYN_RCVD then (True, f\<lparr>m_state := ESTABLISHED\<rparr>) else (False, f))"

text \<open>A repeated acknowledgment of the left edge.\<close>

definition ack_duplicate :: "u32 \<Rightarrow> nat \<Rightarrow> time32 \<Rightarrow> urdp_flow \<Rightarrow> bool \<times> urdp_flow" where
  "ack_duplicate window len now f0 =
     (let f = f0\<lparr>m_snd_wnd := window\<rparr>
      in if len > 0 then (False, f)
         else if m_snd_una f \<noteq> m_snd_nxt f
         then
           let f1 = f\<lparr>m_dup_acks := m_dup_acks f + 1\<rparr>
           in if m_dup_acks f1 = 3
              then
                let n_in_flight = word_of_int (mod_minus (m_snd_nxt f1) (m_snd_una f1)) :: u32;
                    f2 = f1\<lparr>m_ssthresh := max (n_in_flight * 3 div 4) (3 * mss_w),
                            m_recover := m_snd_nxt f1\<rparr>;
                    (ok, f3) = transmit_retrans_front now f2
                in if \<not> ok then (True, allert_disconnected timed_out f3) else (False, f3)
              else if m_dup_acks f1 > 3 then (False, f1\<lparr>m_cwnd := m_cwnd f1 + mss_w\<rparr>)
              else (False, f1)
         else (False, f\<lparr>m_dup_acks := 0\<rparr>))"

text \<open>The acknowledgment part of the handler: stop, notify-accept, flow.\<close>

definition process_ack ::
  "u32 \<Rightarrow> u16 \<Rightarrow> u32 \<Rightarrow> nat \<Rightarrow> time32 \<Rightarrow> urdp_flow \<Rightarrow> bool \<times> bool \<times> urdp_flow" where
  "process_ack ackno time_echo window len now f =
     (if mod_less (m_snd_una f) ackno \<and> mod_less_equal ackno (m_snd_nxt f)
      then
        let n_acked = word_of_int (mod_minus ackno (m_snd_una f));
            (stop, f1) = ack_congestion n_acked now (ack_advance ackno time_echo window now f)
        in if stop then (True, False, f1)
           else let (acc, f2) = ack_accept f1 in (False, acc, f2)
      else if ackno = m_snd_una f
      then let (stop, f1) = ack_duplicate window len now f in (stop, False, f1)
      else (False, False, f))"

section \<open>Data\<close>

text \<open>Cutting the segment to what is not yet received. The comparison of the sequence numbers
  is the one of the integers, not of the circle.\<close>

definition adjust_segment :: "u32 \<Rightarrow> u32 \<Rightarrow> bytes \<Rightarrow> u32 \<times> bytes" where
  "adjust_segment rcv_nxt seqno data =
     (if seqno < rcv_nxt
      then
        let n_adjust = unat (rcv_nxt - seqno)
        in if n_adjust < length data then (seqno + of_nat n_adjust, drop n_adjust data)
           else (rcv_nxt, [])
      else (seqno, data))"

definition limit_segment :: "urdp_flow \<Rightarrow> u32 \<Rightarrow> bytes \<Rightarrow> bytes" where
  "limit_segment f seqno data =
     (if m_rlist f \<noteq> []
         \<and> mod_minus (seqno + of_nat (length data)) (m_rcv_nxt f) \<ge> int RECV_BUF_SIZE
      then [] else data)"

text \<open>The walk over the segment list that moves \<open>m_rcv_nxt\<close> over what is contiguous:
  new data seen, total added, new next.\<close>

fun absorb :: "u32 \<Rightarrow> u32 \<Rightarrow> bool \<Rightarrow> r_segment list \<Rightarrow> bool \<times> u32 \<times> u32" where
  "absorb rlen nxt new [] = (new, rlen, nxt)"
| "absorb rlen nxt new (seg # rest) =
     (if mod_less_equal (rs_seq seg) nxt
      then
        let seq_end = rs_seq seg + of_nat (length (rs_buf seg))
        in if mod_less nxt seq_end
           then let n = word_of_int (mod_minus seq_end nxt)
                in absorb (rlen + n) (nxt + n) True rest
           else absorb rlen nxt new rest
      else (new, rlen, nxt))"

definition store_segment :: "u32 \<Rightarrow> bytes \<Rightarrow> urdp_flow \<Rightarrow> urdp_flow" where
  "store_segment seqno data f =
     (let seg = \<lparr>rs_buf = data, rs_seq = seqno\<rparr>
      in f\<lparr>m_rlist := oset_insert rs_less seg (m_rlist f),
           m_rcv_wnd := (if oset_mem rs_less seg (m_rlist f) then m_rcv_wnd f
                         else if m_rcv_wnd f < of_nat (length data) then 0
                         else m_rcv_wnd f - of_nat (length data))\<rparr>)"

definition process_data :: "bool \<Rightarrow> u32 \<Rightarrow> bytes \<Rightarrow> urdp_flow \<Rightarrow> bool \<times> urdp_flow" where
  "process_data is_data seqno data f =
     (if data = [] then (False, f)
      else if \<not> is_data \<or> m_shutdown f \<noteq> SD_NONE
      then (False, if seqno = m_rcv_nxt f
                   then f\<lparr>m_rcv_nxt := m_rcv_nxt f + of_nat (length data)\<rparr> else f)
      else
        let f1 = store_segment seqno data f
        in if seqno = m_rcv_nxt f1
           then let (new, rlen, nxt) = absorb (m_rlen f1) (m_rcv_nxt f1) False (m_rlist f1)
                in (new, f1\<lparr>m_rlen := rlen, m_rcv_nxt := nxt\<rparr>)
           else (False, f1))"

text \<open>The payload of a segment: adjusted, limited and stored.\<close>

definition accept_data :: "bool \<Rightarrow> u32 \<Rightarrow> bytes \<Rightarrow> urdp_flow \<Rightarrow> bool \<times> urdp_flow" where
  "accept_data is_data seqno data f =
     (let (seqno', data') = adjust_segment (m_rcv_nxt f) seqno data
      in process_data is_data seqno' (limit_segment f seqno' data') f)"

section \<open>The end of the handler\<close>

definition K_IDEAL_REFILL_SIZE :: nat where
  "K_IDEAL_REFILL_SIZE = (SND_BUF_SIZE + RECV_BUF_SIZE) div 2"

definition process_finish ::
  "u32 \<Rightarrow> send_flags \<Rightarrow> bool \<Rightarrow> bool \<Rightarrow> bool \<Rightarrow> time32 \<Rightarrow> urdp_flow \<Rightarrow> urdp_flow" where
  "process_finish ackno sflags new_data notify_connected notify_accept now f =
     (if m_state f = CLOSING \<and> ackno = m_snd_nxt f
      then reschedule now
             (packet_as_reliable_and_sendout (m_snd_nxt f) CTRL_FIN [] now
                (f\<lparr>m_t_close_base := Some (later now WAIT_FIN_ACK_TIMEOUT),
                   m_state := WATING_FIN_ACK\<rparr>))
      else
        let f1 = attempt_send sflags f;
            notify_readable = (new_data \<and> m_detect_readable f1);
            notify_writable = (m_detect_writable f1 \<and> unat (m_slen f1) < K_IDEAL_REFILL_SIZE);
            f2 = (if notify_connected then allert_connected no_error f1 else f1);
            f3 = (if notify_writable then allert_writeable f2 else f2);
            f4 = (if notify_readable then allert_readable f3 else f3)
        in if notify_accept then allert_accepted f4 else f4)"

text \<open>What follows the switch for the packets that reach it.\<close>

definition process_segment ::
  "bool \<Rightarrow> bool \<Rightarrow> bytes \<Rightarrow> endpoint \<Rightarrow> time32 \<Rightarrow> urdp_flow \<Rightarrow> bool \<times> urdp_flow" where
  "process_segment notify_connected imediate_ack sbuf from now f0 =
     (if m_state f0 \<ge> SYN_SENT \<and> m_remote_endpoint f0 \<noteq> from then (False, f0)
      else
        let seqno = hdr f0 sbuf F_seqno;
            ackno = hdr f0 sbuf F_ackno;
            window = hdr f0 sbuf F_window;
            data = drop reliable_format_size sbuf;
            f1 = f0\<lparr>m_t_lasttraffic := now, m_t_lastrecv := now\<rparr>;
            f2 = (if mod_less_equal seqno (m_lastack f1)
                     \<and> mod_less (m_lastack f1) (seqno + of_nat (length data))
                  then f1\<lparr>m_t_recent_now := ucast now,
                          m_t_recent := ucast (hdr f0 sbuf F_time_sending)\<rparr>
                  else f1);
            (stop, accept, f3) = process_ack ackno (ucast (hdr f0 sbuf F_time_echo)) window
                                   (length data) now f2
        in if stop then (True, f3)
           else
             let sflags = (if seqno \<noteq> m_rcv_nxt f3 \<or> imediate_ack then sfImmediateAck
                           else if data \<noteq> [] then sfDelayedAck else sfNone);
                 (new_data, f4) = accept_data (hdr f0 sbuf F_control = control_code CTRL_DATA)
                                    seqno data f3
             in (True, process_finish ackno sflags new_data notify_connected accept now f4))"

section \<open>The control switch\<close>

definition on_unreachable :: "bytes \<Rightarrow> urdp_flow \<Rightarrow> urdp_flow" where
  "on_unreachable sbuf f =
     (if hdr f sbuf F_session_id = ucast (m_session_id f)
      then if m_state f = SYN_SENT then allert_connected host_unreachable f
           else allert_disconnected connection_reset
                  (f\<lparr>m_dissconnect_reason := m_dissconnect_reason f OR DISCONN_REMOTE\<rparr>)
      else f)"

definition on_connect :: "bytes \<Rightarrow> endpoint \<Rightarrow> time32 \<Rightarrow> urdp_flow \<Rightarrow> urdp_flow" where
  "on_connect sbuf from now f =
     (if m_state f \<noteq> LISTEN then f
      else
        let nxt = hdr f sbuf F_seqno + of_nat (length sbuf - reliable_format_size);
            f1 = f\<lparr>m_state := SYN_RCVD,
                   m_remote_peer_id := hdr f sbuf F_peer_id,
                   m_session_id := ucast (hdr f sbuf F_session_id),
                   m_lastack := nxt, m_rcv_nxt := nxt,
                   m_remote_endpoint := from,
                   m_t_recent := ucast (hdr f sbuf F_time_sending),
                   m_t_recent_now := ucast now,
                   m_t_lasttraffic := now, m_t_lastrecv := now\<rparr>
        in case m_token f1 of
             None \<Rightarrow> fault Null_token f1
           | Some fid \<Rightarrow>
               reschedule now
                 (attempt_send sfImmediateAck
                    (queue (io_put_int (f_host_big f) fid []) CTRL_CONNECT_ACK 0 f1)))"

definition on_punch :: "endpoint \<Rightarrow> time32 \<Rightarrow> urdp_flow \<Rightarrow> urdp_flow" where
  "on_punch from now f =
     (let f1 = f\<lparr>m_remote_endpoint := from, m_t_lasttraffic := now, m_t_lastrecv := now\<rparr>
      in case m_retrans_slist f1 of
           [seg] \<Rightarrow>
             (if ss_ctrl seg = CTRL_CONNECT
              then snd (transmit_retrans_front now
                          (f1\<lparr>m_retrans_slist := [seg\<lparr>ss_xmit := 1\<rparr>]\<rparr>))
              else f1)
         | _ \<Rightarrow> f1)"

definition process_reliable :: "bytes \<Rightarrow> endpoint \<Rightarrow> time32 \<Rightarrow> urdp_flow \<Rightarrow> bool \<times> urdp_flow" where
  "process_reliable sbuf from now f =
     (if length sbuf < reliable_format_size then (False, f)
      else
        let data = drop reliable_format_size sbuf
        in case control_of (hdr f sbuf F_control) of
          Some CTRL_NETWORK_UNREACHABLE \<Rightarrow> (True, on_unreachable sbuf f)
        | Some CTRL_CONNECT \<Rightarrow> (True, on_connect sbuf from now f)
        | Some CTRL_CONNECT_ACK \<Rightarrow>
            if m_state f = SYN_SENT
            then
              if hdr f sbuf F_session_id \<noteq> ucast (m_session_id f) then (False, f)
              else if length data < 4 then (False, f)
              else process_segment True True sbuf from now
                     (f\<lparr>m_remote_peer_id := fst (io_get_int (f_host_big f) data),
                        m_state := ESTABLISHED,
                        m_lastack := hdr f sbuf F_seqno,
                        m_rcv_nxt := hdr f sbuf F_seqno\<rparr>)
            else process_segment False False sbuf from now f
        | Some CTRL_PUNCH \<Rightarrow> (True, on_punch from now f)
        | Some CTRL_RST \<Rightarrow>
            (True, allert_disconnected connection_reset
                     (f\<lparr>m_dissconnect_reason := m_dissconnect_reason f OR DISCONN_REMOTE\<rparr>))
        | Some CTRL_FIN \<Rightarrow>
            (True, allert_disconnected connection_reset
                     (packet_as_reliable_and_sendout (m_snd_nxt f) CTRL_FIN_ACK [] now
                        (f\<lparr>m_dissconnect_reason := m_dissconnect_reason f OR DISCONN_REMOTE\<rparr>)))
        | Some CTRL_FIN_ACK \<Rightarrow> (True, allert_disconnected no_error f)
        | _ \<Rightarrow> process_segment False False sbuf from now f)"

text \<open>The checks at the head of the handler.\<close>

definition process_prologue :: "bytes \<Rightarrow> time32 \<Rightarrow> urdp_flow \<Rightarrow> urdp_flow" where
  "process_prologue sbuf now f =
     calculate_local_to_remote_lost_rate (hdr f sbuf F_lostrate_recving)
       (hdr f sbuf F_id_for_lost_detect) now
       (f\<lparr>m_t_lasttraffic := now, m_t_lastrecv := now, m_snd_wnd := hdr f sbuf F_window,
          in_speed_meter := sm_add (f_clock f) (length sbuf) (in_speed_meter f)\<rparr>)"

definition packet_refused :: "bytes \<Rightarrow> endpoint \<Rightarrow> urdp_flow \<Rightarrow> bool" where
  "packet_refused sbuf from f =
     (length sbuf < unreliable_format_size
      \<or> (m_state f \<ge> SYN_SENT
          \<and> (hdr f sbuf F_session_id \<noteq> ucast (m_session_id f)
              \<or> (m_state f \<ge> ESTABLISHED \<and> m_remote_endpoint f \<noteq> from))))"

definition process :: "bytes \<Rightarrow> endpoint \<Rightarrow> urdp_flow \<Rightarrow> bool \<times> urdp_flow" where
  "process sbuf from f =
     (if m_state f = CLOSED then (True, f)
      else if packet_refused sbuf from f then (False, f)
      else
        let now = tick_now f;
            f1 = process_prologue sbuf now f
        in case control_of (hdr f sbuf F_control) of
             Some CTRL_UNRELIABLE_DATA \<Rightarrow> process_unreliable False sbuf f1
           | Some CTRL_SEMIRELIABLE_DATA \<Rightarrow> process_unreliable True sbuf f1
           | _ \<Rightarrow> process_reliable sbuf from now f1)"

definition called_by_sharedlayer_on_recvd :: "bytes \<Rightarrow> endpoint \<Rightarrow> urdp_flow \<Rightarrow> urdp_flow" where
  "called_by_sharedlayer_on_recvd buf from f =
     (let (ok, f1) = process buf from f
      in if ok \<or> b_ignore_all_pkt f1 then f1
         else (packet_as_reliable_and_sendout (m_snd_nxt f1) CTRL_RST [] (tick_now f1) f1)
                \<lparr>b_ignore_all_pkt := True\<rparr>)"

section \<open>The clock\<close>

text \<open>Unreliable segments that are due are sent again; one that has sends left goes back to
  the set with a later time. Every segment is due at most once per call.\<close>

fun resend_unreliable :: "nat \<Rightarrow> time32 \<Rightarrow> urdp_flow \<Rightarrow> urdp_flow" where
  "resend_unreliable 0 now f = f"
| "resend_unreliable (Suc k) now f =
     (case m_unreliable_slist f of
        [] \<Rightarrow> f
      | seg # rest \<Rightarrow>
          if mod_less_equal (us_timeout seg) now
          then
            let (seg', f1) = packet_as_unreliable_and_sendout seg now f
            in resend_unreliable k now
                 (f1\<lparr>m_unreliable_slist :=
                      (if us_remainXmit seg' \<le> 0 then rest else oset_insert us_less seg' rest)\<rparr>)
          else f)"

definition clock_retransmit :: "time32 \<Rightarrow> urdp_flow \<Rightarrow> bool \<times> bool \<times> urdp_flow" where
  "clock_retransmit now f =
     (if m_t_rto_base f \<noteq> 0 \<and> mod_less_equal (later (m_t_rto_base f) (m_rto f)) now
      then
        if m_retrans_slist f = [] then (False, False, f\<lparr>m_t_rto_base := 0\<rparr>)
        else
          let (ok, f1) = transmit_retrans_front now f
          in if \<not> ok then (True, False, allert_disconnected timed_out f1)
             else
               let n_in_flight = word_of_int (mod_minus (m_snd_nxt f1) (m_snd_una f1)) :: u32;
                   ss = max (n_in_flight * 3 div 4) (2 * mss_w)
               in (False, True,
                   incress_rto (f1\<lparr>m_ssthresh := ss, m_cwnd := max (ss div 2) (2 * mss_w),
                                   m_t_rto_base := scape_zero now\<rparr>))
      else (False, False, f))"

definition clock_ping :: "time32 \<Rightarrow> bool \<Rightarrow> urdp_flow \<Rightarrow> bool \<times> urdp_flow" where
  "clock_ping now sent f =
     (let base = (if b_active f then m_t_lastsend f else later (m_t_lastrecv f) 5000)
      in if m_state f = ESTABLISHED \<and> mod_less_equal (later base (m_ping_interval f)) now
            \<and> m_slist f = [] \<and> m_retrans_slist f = []
         then (True, snd (ping f)) else (sent, f))"

text \<open>Probing a closed window: stop, sent, flow.\<close>

definition clock_probe :: "time32 \<Rightarrow> bool \<Rightarrow> urdp_flow \<Rightarrow> bool \<times> bool \<times> urdp_flow" where
  "clock_probe now sent f =
     (if m_state f = ESTABLISHED \<and> m_snd_wnd f = 0
         \<and> mod_less_equal (later (m_t_lastsend f) (m_rto f)) now
      then
        if mod_minus now (m_t_lastrecv f) \<ge> 15000
        then (True, sent,
              to_closed_state (allert_disconnected timed_out
                (packet_as_reliable_and_sendout (m_snd_nxt f) CTRL_RST [] now f)))
        else if \<not> sent
        then (False, True,
              incress_rto (packet_as_reliable_and_sendout (m_snd_nxt f - 1) CTRL_ACK [] now f))
        else (False, sent, incress_rto f)
      else (False, sent, f))"

definition clock_delayed_ack :: "time32 \<Rightarrow> bool \<Rightarrow> urdp_flow \<Rightarrow> urdp_flow" where
  "clock_delayed_ack now sent f =
     (if \<not> sent \<and> m_t_ack f \<noteq> 0 \<and> mod_less_equal (later (m_t_ack f) ACK_DELAY) now
      then packet_as_reliable_and_sendout (m_snd_nxt f) CTRL_ACK [] now f else f)"

text \<open>One run of \<open>__on_clock\<close> up to its call of \<open>__schedule_timer\<close>: the flag says
  that the source would run it again at once.\<close>

definition on_clock_round :: "urdp_flow \<Rightarrow> bool \<times> urdp_flow" where
  "on_clock_round f0 =
     (let f = f0\<lparr>b_timer_posted := False\<rparr>
      in if m_state f = CLOSED then (False, f)
         else
           let now = tick_now f;
               f1 = f\<lparr>m_t_last_on_clock := now\<rparr>
           in if (case m_t_close_base f1 of None \<Rightarrow> False | Some b \<Rightarrow> mod_less_equal b now)
              then (False, allert_disconnected timed_out f1)
              else if m_state f1 = ESTABLISHED
                \<and> mod_less_equal (later (m_t_lastrecv f1) (m_ping_interval f1 + DEFAULT_TIMEOUT)) now
              then (False, allert_disconnected timed_out f1)
              else
                let (stop1, sent1, f2) = clock_retransmit now f1
                in if stop1 then (False, f2)
                   else
                     let f3 = resend_unreliable (length (m_unreliable_slist f2)) now f2;
                         (sent2, f4) = clock_ping now sent1 f3;
                         (stop2, sent3, f5) = clock_probe now sent2 f4
                     in if stop2 then (False, f5)
                        else schedule_timer now True (clock_delayed_ack now sent3 f5))"

fun on_clock_fuel :: "nat \<Rightarrow> urdp_flow \<Rightarrow> urdp_flow option" where
  "on_clock_fuel 0 f = None"
| "on_clock_fuel (Suc k) f =
     (let (again, f') = on_clock_round f in if again then on_clock_fuel k f' else Some f')"

definition on_clock :: "urdp_flow \<Rightarrow> urdp_flow" where
  "on_clock f = snd (on_clock_round f)"

text \<open>The timer fires.\<close>

definition timer_fired :: "urdp_flow \<Rightarrow> urdp_flow" where
  "timer_fired f = on_clock (f\<lparr>m_timer := Timer_idle\<rparr>)"

end
