(* ===== verification/Urdp_Inv.thy ===== *)
theory Urdp_Inv
  imports Urdp_Receive
begin

text \<open>Invariants of the flow over all its handlers: the retransmission timer stays in its
  bounds, a flow has its token, timer and self reference exactly as long as it is not closed,
  so that none of them is followed as a null pointer, and the connection state only moves
  forward. First what the sending functions leave alone, then each handler, then the step
  relation of the flow and what holds in all its reachable states.\<close>

section \<open>What the sending functions keep\<close>

definition core ::
  "urdp_flow \<Rightarrow> u32 option \<times> tcp_state \<times> flow_timer \<times> bool \<times> bool \<times> bool \<times> int \<times> int \<times> int \<times> time32"
  where "core f = (m_token f, m_state f, m_timer f, m_self_holder f, m_socket f, b_close_called f,
           m_rto f, m_srtt f, m_rttvar f, m_t_last_on_clock f)"

definition no_null :: "urdp_flow \<Rightarrow> bool" where
  "no_null f \<longleftrightarrow> f_fault f \<noteq> Some Null_token \<and> f_fault f \<noteq> Some Null_timer"

definition keeps :: "urdp_flow \<Rightarrow> urdp_flow \<Rightarrow> bool" where
  "keeps f f' \<longleftrightarrow> core f' = core f \<and> (m_token f \<noteq> None \<longrightarrow> no_null f \<longrightarrow> no_null f')"

lemma keeps_refl [simp]: "keeps f f"
  by (simp add: keeps_def)

lemma keeps_trans: "keeps f g \<Longrightarrow> keeps g h \<Longrightarrow> keeps f h"
  by (auto simp: keeps_def core_def)

lemma keeps_fields:
  assumes "keeps f g"
  shows "m_token g = m_token f" "m_state g = m_state f" "m_timer g = m_timer f"
    "m_self_holder g = m_self_holder f" "m_socket g = m_socket f" "m_rto g = m_rto f"
    "m_srtt g = m_srtt f" "m_rttvar g = m_rttvar f" "b_close_called g = b_close_called f"
    "m_t_last_on_clock g = m_t_last_on_clock f"
  using assms by (simp_all add: keeps_def core_def)

lemmas keeps_unfold = keeps_def core_def no_null_def

lemma keeps_layer_send [simp]: "keeps f (layer_async_send_to b e f)"
  by (simp add: layer_async_send_to_def emit_def Let_def keeps_unfold)

lemma keeps_fault: "k \<noteq> Null_token \<Longrightarrow> k \<noteq> Null_timer \<Longrightarrow> keeps f (fault k f)"
  by (simp add: fault_def keeps_unfold)

lemma keeps_packet [simp]: "keeps f (packet_as_reliable_and_sendout seq c d now f)"
proof (cases "m_token f")
  case None
  then show ?thesis
    by (simp add: packet_as_reliable_and_sendout_def fault_def keeps_unfold)
next
  case (Some t)
  then show ?thesis
    by (simp add: packet_as_reliable_and_sendout_def layer_async_send_to_def emit_def Let_def
        keeps_unfold)
qed

lemma keeps_unreliable [simp]: "keeps f (snd (packet_as_unreliable_and_sendout seg now f))"
proof (cases "m_token f")
  case None
  then show ?thesis
    by (simp add: packet_as_unreliable_and_sendout_def fault_def keeps_unfold)
next
  case (Some t)
  then show ?thesis
    by (simp add: packet_as_unreliable_and_sendout_def layer_async_send_to_def emit_def Let_def
        draw_def case_prod_unfold keeps_unfold)
qed

lemma keeps_queue [simp]: "keeps f (queue d c r f)"
  by (simp add: queue_def case_prod_unfold Let_def keeps_unfold)

lemma keeps_upd:
  "keeps f g \<Longrightarrow> core h = core g \<Longrightarrow> f_fault h = f_fault g \<Longrightarrow> keeps f h"
  by (simp add: keeps_unfold)

lemma keeps_transmit [simp]: "keeps f (snd (snd (transmit seg now f)))"
proof -
  define f1 where "f1 = packet_as_reliable_and_sendout (ss_seq seg) (ss_ctrl seg) (ss_buf seg) now f"
  define f2 where "f2 = (if m_state f1 < ESTABLISHED \<and> sint (ss_xmit seg) \<le> 1
    then packet_as_reliable_and_sendout (ss_seq seg) (ss_ctrl seg) (ss_buf seg) now f1 else f1)"
  define f3 where "f3 = (if ss_xmit seg = 0
    then f2\<lparr>m_snd_nxt := m_snd_nxt f2 + of_nat (length (ss_buf seg))\<rparr> else f2)"
  define f4 where "f4 = (if m_t_rto_base f3 = 0 then f3\<lparr>m_t_rto_base := scape_zero now\<rparr> else f3)"
  have "keeps f f1" by (simp add: f1_def)
  then have k2: "keeps f f2" using keeps_trans by (simp add: f2_def)
  then have "keeps f f3" by (simp add: f3_def keeps_unfold)
  then have "keeps f f4" by (simp add: f4_def keeps_unfold)
  moreover have "snd (snd (transmit seg now f)) = f \<or> snd (snd (transmit seg now f)) = f4"
    unfolding transmit_def Let_def f4_def f3_def f2_def f1_def by simp
  ultimately show ?thesis by auto
qed

lemma keeps_retrans_front [simp]: "keeps f (snd (transmit_retrans_front now f))"
proof (cases "m_retrans_slist f")
  case Nil
  then show ?thesis
    by (simp add: transmit_retrans_front_def keeps_fault)
next
  case (Cons seg rest)
  then show ?thesis
    using keeps_transmit [of f seg now]
    by (simp add: transmit_retrans_front_def case_prod_unfold Let_def keeps_unfold)
qed

lemma keeps_move_front [simp]: "keeps f (move_front now seg rest f)"
  using keeps_transmit [of f seg now] by (rule keeps_upd) (simp_all add: move_front_def Let_def core_def)

lemma keeps_attempt_loop [simp]: "keeps f (attempt_send_loop now fl f)"
proof (induction fl f rule: attempt_loop_induct [where now = now])
  case (1 fl f)
  then show ?case
    by (simp add: attempt_send_loop_Nil keeps_upd [OF keeps_refl] core_def)
next
  case (2 fl f seg rest)
  then show ?case
    by (auto simp: attempt_send_loop_Cons intro: keeps_trans [OF keeps_move_front])
qed

lemma keeps_attempt_send [simp]: "keeps f (attempt_send fl f)"
proof -
  define f1 where "f1 = (if mod_minus (tick_now f) (m_t_lastsend f) > m_rto f
    then f\<lparr>m_cwnd := max (2 * mss_w) (m_cwnd f div 2)\<rparr> else f)"
  have "keeps f f1" by (simp add: f1_def keeps_unfold)
  then show ?thesis
    using keeps_trans [OF _ keeps_attempt_loop] unfolding attempt_send_def Let_def f1_def by blast
qed

section \<open>The invariant\<close>

text \<open>Bounds that keep all timer arithmetic far from the 32-bit limits.\<close>

definition rto_ok :: "urdp_flow \<Rightarrow> bool" where
  "rto_ok f \<longleftrightarrow> MIN_RTO \<le> m_rto f \<and> m_rto f \<le> MAX_RTO
     \<and> 0 \<le> m_srtt f \<and> m_srtt f \<le> 32767 \<and> 0 \<le> m_rttvar f \<and> m_rttvar f \<le> 32767"

definition live :: "urdp_flow \<Rightarrow> bool" where
  "live f \<longleftrightarrow> m_state f \<noteq> CLOSED \<and> m_token f \<noteq> None \<and> m_timer f \<noteq> Timer_gone
     \<and> m_self_holder f \<and> (m_state f \<ge> CLOSING \<longrightarrow> b_close_called f) \<and> no_null f \<and> rto_ok f"

definition dead :: "urdp_flow \<Rightarrow> bool" where
  "dead f \<longleftrightarrow> m_state f = CLOSED \<and> m_token f = None \<and> m_timer f = Timer_gone
     \<and> \<not> m_self_holder f \<and> m_slist f = [] \<and> m_retrans_slist f = []
     \<and> m_rlist f = [] \<and> m_t_rto_base f = 0 \<and> no_null f \<and> rto_ok f"

definition flow_ok :: "urdp_flow \<Rightarrow> bool" where
  "flow_ok f \<longleftrightarrow> live f \<or> dead f"

text \<open>What a handler does to a flow that is alive: it stays well formed and its state does
  not go back.\<close>

definition forward :: "urdp_flow \<Rightarrow> urdp_flow \<Rightarrow> bool" where
  "forward f f' \<longleftrightarrow> flow_ok f' \<and> m_state f \<le> m_state f'"

lemmas state_order = less_eq_tcp_state_def less_tcp_state_def

lemma forward_trans: "forward f g \<Longrightarrow> forward g h \<Longrightarrow> forward f h"
  by (auto simp: forward_def intro: order_trans)

lemma state_le_closed [simp]: "s \<le> CLOSED"
  by (cases s) (simp_all add: less_eq_tcp_state_def)

lemma forward_refl: "flow_ok f \<Longrightarrow> forward f f"
  by (simp add: forward_def)

lemma live_ok: "live f \<Longrightarrow> flow_ok f"
  by (simp add: flow_ok_def)

lemma live_core_eq: "core g = core f \<Longrightarrow> f_fault g = f_fault f \<Longrightarrow> live g = live f"
  by (simp add: live_def core_def no_null_def rto_ok_def)

lemma live_keeps: "live f \<Longrightarrow> keeps f g \<Longrightarrow> live g"
  by (auto simp: live_def keeps_unfold rto_ok_def)

lemma forward_keeps: "live f \<Longrightarrow> keeps f g \<Longrightarrow> forward f g"
  using live_keeps live_ok keeps_fields(2) by (auto simp: forward_def)

lemma flow_ok_cases:
  assumes "flow_ok f"
  obtains "live f" | "dead f"
  using assms by (auto simp: flow_ok_def)

lemma dead_state: "dead f \<Longrightarrow> m_state f = CLOSED"
  by (simp add: dead_def)

lemma live_state: "live f \<Longrightarrow> m_state f \<noteq> CLOSED"
  by (simp add: live_def)

section \<open>Timer and closing\<close>

lemma keeps_emit [simp]: "keeps f (emit e f)"
  by (simp add: emit_def keeps_unfold)

lemma live_timer: "live f \<Longrightarrow> live (f\<lparr>m_timer := Timer_waiting t\<rparr>)"
  by (simp add: live_def no_null_def rto_ok_def)

lemma live_schedule:
  "live f \<Longrightarrow> live (snd (schedule_timer now c f)) \<and> m_state (snd (schedule_timer now c f)) = m_state f"
  by (auto simp: schedule_timer_def timer_async_wait_def emit_def Let_def live_def no_null_def
      rto_ok_def split: option.splits)

lemma forward_reschedule: "live f \<Longrightarrow> forward f (reschedule now f)"
  using live_schedule [of f now False] live_ok by (simp add: reschedule_def forward_def)

lemma live_reschedule: "live f \<Longrightarrow> live (reschedule now f)"
  using live_schedule [of f now False] by (simp add: reschedule_def)

lemma to_closed_dead:
  assumes "flow_ok f"
  shows "dead (to_closed_state f)"
  using assms
  by (auto simp: to_closed_state_def cancel_flow_def emit_def Let_def flow_ok_def live_def dead_def
      no_null_def rto_ok_def)

lemma forward_to_closed: "flow_ok f \<Longrightarrow> forward f (to_closed_state f)"
  using to_closed_dead [of f] by (simp add: forward_def flow_ok_def dead_state)

lemma forward_to_closed_keeps:
  "live f \<Longrightarrow> keeps f g \<Longrightarrow> forward f (to_closed_state g)"
  using forward_to_closed [of g] forward_keeps [of f g] forward_trans
  by (auto simp: forward_def)

lemma forward_close_internal:
  assumes "flow_ok f"
  shows "forward f (close_internal graceful f)"
proof (cases "m_token f = None \<or> m_state f = CLOSED")
  case True
  then show ?thesis
    using forward_to_closed [OF assms] by (simp add: close_internal_def)
next
  case False
  then obtain t where open_flow: "m_token f = Some t" "m_state f \<noteq> CLOSED" by auto
  then have live: "live f" using assms dead_state flow_ok_def by auto
  show ?thesis
  proof (cases "b_close_called f")
    case True
    then have "close_internal graceful f = f"
      using open_flow by (simp add: close_internal_def)
    then show ?thesis
      using forward_refl [OF assms] by simp
  next
    case False
    define f1 where "f1 = (cancel_flow f)\<lparr>m_socket := False, b_close_called := True,
      m_shutdown := (if \<not> graceful \<or> m_state f < ESTABLISHED then SD_FORCEFUL
                     else if m_shutdown f = SD_NONE then SD_GRACEFUL else m_shutdown f)\<rparr>"
    have l1: "live f1" and s1: "m_state f1 = m_state f" and c1: "b_close_called f1"
      using live by (simp_all add: f1_def cancel_flow_def live_def no_null_def rto_ok_def)
    show ?thesis
    proof (cases "m_shutdown f1 = SD_FORCEFUL")
      case True
      then have "close_internal graceful f = to_closed_state
          (packet_as_reliable_and_sendout (m_snd_nxt f1) CTRL_RST [] (tick_now f1) f1)"
        using open_flow False by (simp add: close_internal_def Let_def f1_def)
      then show ?thesis
        using forward_to_closed_keeps [OF l1 keeps_packet] s1 by (simp add: forward_def)
    next
      case graceful: False
      define f2 where "f2 = f1\<lparr>m_state := CLOSING\<rparr>"
      define f3 where "f3 = (if m_retrans_slist f2 = [] \<and> m_slist f2 = []
        then packet_as_reliable_and_sendout (m_snd_nxt f2) CTRL_FIN [] (tick_now f1)
               (f2\<lparr>m_t_close_base := Some (later (tick_now f1) WAIT_FIN_ACK_TIMEOUT),
                   m_state := WATING_FIN_ACK\<rparr>)
        else f2)"
      have eq: "close_internal graceful f = reschedule (tick_now f1) f3"
        using open_flow False graceful
        by (simp add: close_internal_def Let_def f1_def f2_def f3_def)
      have l2: "live f2" using l1 c1 by (simp add: f2_def live_def no_null_def rto_ok_def)
      have "live (f2\<lparr>m_t_close_base := t, m_state := WATING_FIN_ACK\<rparr>)" for t
        using l1 c1 by (simp add: f2_def live_def no_null_def rto_ok_def)
      then have l3: "live f3"
        using l2 live_keeps [OF _ keeps_packet] by (simp add: f3_def)
      have s3: "m_state f3 = CLOSING \<or> m_state f3 = WATING_FIN_ACK"
        using keeps_fields(2) [OF keeps_packet] by (simp add: f3_def f2_def)
      have "\<not> CLOSING \<le> m_state f"
        using live False by (auto simp: live_def)
      then have "m_state f \<le> m_state f3"
        using s3 by (auto simp: state_order)
      then show ?thesis
        using forward_reschedule [OF l3, of "tick_now f1"] eq order_trans
        by (auto simp: forward_def)
    qed
  qed
qed

lemma core_irrelevant:
  "flow_ok f \<Longrightarrow> core g = core f \<Longrightarrow> f_fault g = f_fault f \<Longrightarrow>
     m_slist g = m_slist f \<Longrightarrow> m_retrans_slist g = m_retrans_slist f \<Longrightarrow> m_rlist g = m_rlist f \<Longrightarrow>
     m_t_rto_base g = m_t_rto_base f \<Longrightarrow> forward f g"
  by (auto simp: forward_def flow_ok_def live_def dead_def core_def no_null_def rto_ok_def)

lemma forward_close: "flow_ok f \<Longrightarrow> forward f (close graceful f)"
proof -
  assume ok: "flow_ok f"
  define g where "g = f\<lparr>m_dissconnect_reason := m_dissconnect_reason f OR DISCONN_LOCAL\<rparr>"
  have "forward f g"
    by (rule core_irrelevant [OF ok]) (simp_all add: g_def core_def)
  then show ?thesis
    using forward_close_internal [of g graceful] forward_refl [OF ok] forward_trans
    by (auto simp: close_def g_def [symmetric] forward_def)
qed

section \<open>Notifications\<close>

lemma forward_keep_async_receiving: "flow_ok f \<Longrightarrow> forward f (keep_async_receiving f)"
  by (rule core_irrelevant) (simp_all add: keep_async_receiving_def emit_def core_def)

lemma forward_emit: "flow_ok f \<Longrightarrow> forward f (emit e f)"
  by (rule core_irrelevant) (simp_all add: emit_def core_def)

lemma forward_via:
  "forward f g \<Longrightarrow> (flow_ok g \<Longrightarrow> forward g h) \<Longrightarrow> forward f h"
  using forward_trans by (auto simp: forward_def)

lemma forward_allert_connected:
  assumes "flow_ok f"
  shows "forward f (allert_connected ec f)"
proof -
  define g where "g = f\<lparr>m_establish_time := tick_now f, m_t_close_base := None\<rparr>"
  have fg: "forward f g"
    by (rule core_irrelevant [OF assms]) (simp_all add: g_def core_def)
  have gr: "forward g (g\<lparr>m_resolver := False\<rparr>)" if "flow_ok g"
    by (rule core_irrelevant [OF that]) (simp_all add: core_def)
  have "forward g (if \<not> m_socket g \<or> flow_canceled g then close_internal True g
         else if ec = no_error
         then emit (On_connected ec) (keep_async_receiving (g\<lparr>m_resolver := False\<rparr>))
         else to_closed_state (emit (On_connected ec) g))" if "flow_ok g"
    using forward_close_internal [OF that] forward_via [OF forward_emit [OF that] forward_to_closed]
      forward_via [OF forward_via [OF gr [OF that] forward_keep_async_receiving] forward_emit]
    by auto
  then show ?thesis
    using forward_via [OF fg] unfolding allert_connected_def Let_def g_def by blast
qed

lemma forward_allert_disconnected:
  assumes "flow_ok f"
  shows "forward f (allert_disconnected ec f)"
  using forward_to_closed [OF assms] forward_via [OF forward_emit [OF assms] forward_to_closed]
  by (auto simp: allert_disconnected_def)

lemma forward_allert_writeable:
  assumes "flow_ok f"
  shows "forward f (allert_writeable f)"
proof -
  have "forward f (f\<lparr>m_detect_writable := False\<rparr>)"
    by (rule core_irrelevant [OF assms]) (simp_all add: core_def)
  then show ?thesis
    using forward_close_internal [OF assms] forward_refl [OF assms]
      forward_via [OF _ forward_emit]
    by (auto simp: allert_writeable_def)
qed

lemma forward_allert_accepted:
  assumes "flow_ok f"
  shows "forward f (allert_accepted f)"
proof -
  define g where "g = f\<lparr>m_establish_time := tick_now f, m_t_close_base := None\<rparr>"
  have fg: "forward f g"
    by (rule core_irrelevant [OF assms]) (simp_all add: g_def core_def)
  have "forward g (if m_acceptor g then emit Accept_flow (keep_async_receiving g) else close True g)"
    if "flow_ok g"
    using forward_close [OF that] forward_via [OF forward_keep_async_receiving [OF that] forward_emit]
    by auto
  then show ?thesis
    using forward_via [OF fg] forward_close_internal [OF assms]
    unfolding allert_accepted_def Let_def g_def by auto
qed

lemma forward_allert_received:
  assumes "flow_ok f"
  shows "forward f (allert_received buf f)"
  using forward_close_internal [OF assms] forward_emit [OF assms] by (auto simp: allert_received_def)

section \<open>Receiving\<close>

lemma keeps_update_recv_window: "keeps f (update_recv_window f)"
proof -
  define g where "g = f\<lparr>m_rcv_wnd := of_nat RECV_BUF_SIZE - m_rlen f\<rparr>"
  have "keeps f g" by (simp add: g_def keeps_unfold)
  then show ?thesis
    using keeps_trans [OF _ keeps_attempt_send]
    by (auto simp: update_recv_window_def Let_def g_def [symmetric])
qed

lemma recv_keeps: "keeps f (snd (snd (recv f)))"
proof -
  have k: "keeps f (f\<lparr>m_detect_readable := b\<rparr>)" "keeps f (f\<lparr>m_unreliable_rlist := u\<rparr>)"
    "keeps f (f\<lparr>m_rlist := r, m_rlen := n\<rparr>)" for b u r n
    by (simp_all add: keeps_unfold)
  show ?thesis
    using k keeps_trans [OF k(3) keeps_update_recv_window] keeps_fault [of Empty_rlist f]
    by (auto simp: recv_def split: option.splits list.splits)
qed

lemma forward_async_receive_fuel:
  assumes "flow_ok f"
  shows "forward f (async_receive_fuel k mark f)"
  using assms
proof (induction k arbitrary: f)
  case 0
  then show ?case by (simp add: forward_refl)
next
  case (Suc k)
  show ?case
  proof (cases "is_canceled_op mark (m_mark f) \<or> m_state f = CLOSED \<or> \<not> b_keep_recving f")
    case True
    then show ?thesis using Suc.prems by (auto simp: forward_refl)
  next
    case False
    then have l: "live f" using Suc.prems dead_state by (auto simp: flow_ok_def)
    define g where "g = snd (snd (recv f))"
    have fg: "forward f g" and lg: "live g"
      using forward_keeps [OF l recv_keeps] live_keeps [OF l recv_keeps] by (simp_all add: g_def)
    define h where "h = (if f_fault g \<noteq> None then g
      else if fst (recv f) = no_error
      then async_receive_fuel k mark (allert_received (fst (snd (recv f))) g)
      else if fst (recv f) \<noteq> would_block then allert_disconnected (fst (recv f)) g
      else reschedule (tick_now g) g)"
    have eq: "async_receive_fuel (Suc k) mark f = h"
      using False by (simp add: h_def g_def case_prod_unfold Let_def)
    have "forward g (async_receive_fuel k mark (allert_received b g))" for b
      using forward_via [OF forward_allert_received [OF live_ok [OF lg]] Suc.IH] .
    then have "forward g h"
      using forward_refl [OF live_ok [OF lg]] forward_allert_disconnected [OF live_ok [OF lg]]
        forward_reschedule [OF lg] by (simp add: h_def)
    then show ?thesis
      unfolding eq using fg forward_trans by blast
  qed
qed

lemma forward_async_receive: "flow_ok f \<Longrightarrow> forward f (async_receive mark f)"
  by (simp add: async_receive_def forward_async_receive_fuel)

lemma forward_allert_readable:
  assumes "flow_ok f"
  shows "forward f (allert_readable f)"
proof -
  have d: "forward f (f\<lparr>m_detect_readable := False\<rparr>)"
    by (rule core_irrelevant [OF assms]) (simp_all add: core_def)
  have "forward f (fault Empty_rlist f)"
    using assms by (auto simp: forward_def fault_def flow_ok_def live_def dead_def no_null_def rto_ok_def)
  then show ?thesis
    using forward_close_internal [OF assms] forward_refl [OF assms] d
      forward_via [OF d forward_async_receive]
    by (auto simp: allert_readable_def Let_def split: option.splits)
qed

end
