(* ===== verification/Urdp_Steps.thy ===== *)
theory Urdp_Steps
  imports Urdp_Inv
begin

text \<open>The handlers of packets and of the clock keep the invariant, and the step relation of a
  flow with its reachable states.\<close>

section \<open>Round-trip time and back-off stay in bounds\<close>

lemma bound_range: "lo \<le> hi \<Longrightarrow> lo \<le> bound lo m hi \<and> bound lo m hi \<le> hi"
  by (auto simp: bound_def)

lemma rto_ok_updata_rtt:
  assumes "rto_ok f" and "rtt \<le> 32767"
  shows "rto_ok (updata_rtt rtt f)"
proof (cases "rtt \<ge> 0")
  case True
  have b: "MIN_RTO \<le> bound MIN_RTO m MAX_RTO" "bound MIN_RTO m MAX_RTO \<le> MAX_RTO" for m
    using bound_range [of MIN_RTO MAX_RTO m] by (simp_all add: MIN_RTO_def MAX_RTO_def)
  have r: "0 \<le> m_srtt f" "m_srtt f \<le> 32767" "0 \<le> m_rttvar f" "m_rttvar f \<le> 32767"
    using assms(1) by (simp_all add: rto_ok_def)
  define x where "x = max 20 rtt"
  have x: "20 \<le> x" "x \<le> 32767" using assms(2) by (simp_all add: x_def)
  have "0 \<le> (3 * m_rttvar f + \<bar>x - m_srtt f\<bar>) div 4" "(3 * m_rttvar f + \<bar>x - m_srtt f\<bar>) div 4 \<le> 32767"
    "0 \<le> (7 * m_srtt f + x) div 8" "(7 * m_srtt f + x) div 8 \<le> 32767" "0 \<le> x div 2" "x div 2 \<le> 32767"
    using r x by linarith+
  then show ?thesis
    using True b x by (simp add: updata_rtt_def Let_def rto_ok_def x_def [symmetric])
next
  case False
  then show ?thesis using assms(1) by (simp add: updata_rtt_def)
qed

lemma rto_ok_incress_rto:
  assumes "rto_ok f"
  shows "rto_ok (incress_rto f)"
proof -
  have b: "MIN_RTO \<le> bound MIN_RTO m MAX_RTO" "bound MIN_RTO m MAX_RTO \<le> MAX_RTO" for m
    using bound_range [of MIN_RTO MAX_RTO m] by (simp_all add: MIN_RTO_def MAX_RTO_def)
  show ?thesis
    using assms b by (simp add: incress_rto_def Let_def case_prod_unfold rto_ok_def)
qed

definition same_life :: "urdp_flow \<Rightarrow> urdp_flow \<Rightarrow> bool" where
  "same_life f g \<longleftrightarrow> m_token g = m_token f \<and> m_state g = m_state f \<and> m_timer g = m_timer f
     \<and> m_self_holder g = m_self_holder f \<and> b_close_called g = b_close_called f
     \<and> m_t_last_on_clock g = m_t_last_on_clock f \<and> f_fault g = f_fault f \<and> (rto_ok f \<longrightarrow> rto_ok g)"

lemma live_same_life: "live f \<Longrightarrow> same_life f g \<Longrightarrow> live g"
  by (simp add: live_def same_life_def no_null_def)

lemma forward_same_life: "live f \<Longrightarrow> same_life f g \<Longrightarrow> forward f g"
  using live_same_life live_ok by (auto simp: forward_def same_life_def)

lemma same_life_incress_rto: "same_life f (incress_rto f)"
  using rto_ok_incress_rto [of f]
  by (simp add: same_life_def incress_rto_def Let_def case_prod_unfold)

lemma same_life_updata_rtt: "rtt \<le> 32767 \<Longrightarrow> same_life f (updata_rtt rtt f)"
  using rto_ok_updata_rtt [of f rtt] by (simp add: same_life_def updata_rtt_def Let_def)

lemma mod_minus_u16: "mod_minus (a :: u16) b \<le> 32767"
  using sint_lt [of "a - b"] by (simp add: mod_minus_def wrappable_minus_def)

section \<open>User operations\<close>

lemma forward_live_chain:
  "live f \<Longrightarrow> keeps f g \<Longrightarrow> (live g \<Longrightarrow> forward g h) \<Longrightarrow> forward f h"
  using forward_keeps live_keeps forward_trans by blast

lemma init_dead_not_needed: "m_state f \<le> INIT \<longleftrightarrow> m_state f = INIT"
  by (cases "m_state f") (simp_all add: state_order)

lemma live_update:
  assumes "live f"
  shows "live (f\<lparr>m_timer := Timer_waiting d, m_t_close_base := cb, m_remote_endpoint := ep,
    b_active := True, m_state := SYN_SENT\<rparr>)"
  using assms by (simp add: live_def no_null_def rto_ok_def state_order)

lemma forward_async_connect:
  assumes "flow_ok f"
  shows "forward f (async_connect ep dn tmo f)"
proof (cases "m_state f > INIT")
  case True
  then show ?thesis
    using forward_emit [OF assms] by (simp add: async_connect_def)
next
  case False
  then have i: "m_state f = INIT" by (simp add: not_less init_dead_not_needed)
  then have l: "live f" using assms dead_state by (auto simp: flow_ok_def)
  define t where "t = (case tmo of None \<Rightarrow> IDLE_TIMEOUT
    | Some t \<Rightarrow> if t \<le> 0 then IDLE_TIMEOUT else t)"
  define f1 where "f1 = (timer_async_wait t f)\<lparr>m_t_close_base := Some (later (tick_now f) t),
    m_remote_endpoint := ep, b_active := True, m_state := SYN_SENT\<rparr>"
  have l1: "live f1"
    using live_update [OF l] by (simp add: f1_def timer_async_wait_def)
  have k: "keeps f1 (attempt_send sfNone (queue dn CTRL_CONNECT 0 f1))"
    using keeps_trans [OF keeps_queue keeps_attempt_send] .
  have "forward f1 (reschedule (tick_now f) (attempt_send sfNone (queue dn CTRL_CONNECT 0 f1)))"
    using forward_live_chain [OF l1 k forward_reschedule] .
  moreover have "async_connect ep dn tmo f =
      reschedule (tick_now f) (attempt_send sfNone (queue dn CTRL_CONNECT 0 f1))"
    using False unfolding async_connect_def f1_def t_def Let_def by simp
  moreover have "forward f f1"
    using live_ok [OF l1] i by (simp add: forward_def f1_def state_order)
  ultimately show ?thesis
    using forward_trans by simp
qed

lemma forward_async_connect_host:
  assumes "flow_ok f"
  shows "forward f (async_connect_host ps host port dn tmo f)"
proof -
  have "forward f (f\<lparr>m_resolver := True\<rparr>)"
    by (rule core_irrelevant [OF assms]) (simp_all add: core_def)
  then show ?thesis
    using forward_async_connect [OF assms] forward_via [OF _ forward_emit]
    by (auto simp: async_connect_host_def split: option.splits)
qed

lemma forward_handle_resolve:
  assumes "flow_ok f"
  shows "forward f (handle_resolve ec itr dn tmo mark f)"
  using assms forward_refl forward_allert_connected forward_async_connect
  by (auto simp: handle_resolve_def split: option.splits)

lemma keeps_semireliable: "keeps f (snd (semireliable_schedule now seg f))"
  by (simp add: semireliable_schedule_def draw_def case_prod_unfold Let_def keeps_unfold)

lemma keeps_send_unreliable: "keeps f (send_unreliable buf mt semi f)"
proof -
  define f1 where "f1 = f\<lparr>m_unreliable_pktid := m_unreliable_pktid f + 1, f_id_seed := f_id_seed f + 1\<rparr>"
  define seg where "seg = \<lparr>us_buf = buf, us_id = f_id_seed f, us_timeout = 0,
    us_pktID = m_unreliable_pktid f1, us_msgType = mt, us_remainXmit = 1,
    us_control = (if semi then CTRL_SEMIRELIABLE_DATA else CTRL_UNRELIABLE_DATA)\<rparr>"
  define p where "p = (if semi then semireliable_schedule (tick_now f) seg f1 else (seg, f1))"
  define q where "q = packet_as_unreliable_and_sendout (fst p) (tick_now f) (snd p)"
  have "keeps f f1" by (simp add: f1_def keeps_unfold)
  then have kp: "keeps f (snd p)" using keeps_trans keeps_semireliable by (simp add: p_def)
  have kq: "keeps f (snd q)" unfolding q_def by (rule keeps_trans [OF kp keeps_unreliable])
  have "send_unreliable buf mt semi f = (if us_remainXmit (fst q) > 0
      then (snd q)\<lparr>m_unreliable_slist := oset_insert us_less (fst q) (m_unreliable_slist (snd q))\<rparr>
      else snd q)"
    unfolding send_unreliable_def Let_def q_def p_def seg_def f1_def by (simp add: case_prod_unfold)
  then show ?thesis
    using kq keeps_upd [OF kq] by (simp add: core_def)
qed

lemma keeps_send: "keeps f (snd (snd (send buf mt rel f)))"
proof -
  have k: "keeps f (attempt_send sfNone (queue d2 CTRL_DATA 0 (queue d1 CTRL_DATA n f)))" for d1 d2 n
    using keeps_trans [OF keeps_queue keeps_trans [OF keeps_queue keeps_attempt_send]] .
  show ?thesis
    using k keeps_upd [OF k] keeps_send_unreliable by (simp add: send_def Let_def core_def)
qed

lemma forward_async_send:
  assumes "flow_ok f"
  shows "forward f (async_send buf mt rel f)"
proof (cases "live f")
  case True
  define g where "g = snd (snd (send buf mt rel f))"
  have kg: "keeps f g" by (simp add: g_def keeps_send)
  define ec where "ec = fst (snd (send buf mt rel f))"
  define h where "h = (if ec \<noteq> no_error
    then (if ec = would_block then g else emit (Post_allert_disconnected ec) g)
    else if rel = T_true then emit Post_allert_writeable g else g)"
  have kh: "keeps f h" using keeps_trans [OF kg keeps_emit] kg by (simp add: h_def)
  have "async_send buf mt rel f = (if rel = T_true then reschedule (tick_now h) h else h)"
    unfolding async_send_def Let_def case_prod_unfold h_def ec_def g_def by (rule refl)
  then show ?thesis
    using forward_live_chain [OF True kh forward_reschedule] forward_keeps [OF True kh] by simp
next
  case False
  then have d: "m_state f = CLOSED" using assms dead_state by (auto simp: flow_ok_def)
  then have "send buf mt rel f = (-1, not_connected, f)" by (simp add: send_def)
  then show ?thesis
    using d forward_emit [OF assms]
    by (simp add: async_send_def Let_def reschedule_def schedule_timer_def emit_def)
qed

lemma keeps_ping: "keeps f (snd (ping f))"
  using keeps_trans [OF keeps_queue keeps_attempt_send] by (simp add: ping_def)

lemma forward_ping:
  assumes "flow_ok f"
  shows "forward f (snd (ping f))"
proof (cases "live f")
  case True
  then show ?thesis using forward_keeps keeps_ping by blast
next
  case False
  then have "\<not> is_connected f" using assms dead_state by (auto simp: flow_ok_def is_connected_def)
  then show ?thesis using forward_refl [OF assms] by (simp add: ping_def)
qed

lemma forward_set_ping_interval:
  assumes "flow_ok f"
  shows "forward f (set_ping_interval t f)"
proof -
  define g where "g = f\<lparr>m_ping_interval := min t (2 ^ 31 - 1)\<rparr>"
  have fg: "forward f g" by (rule core_irrelevant [OF assms]) (simp_all add: g_def core_def)
  have "forward g (reschedule now g)" if "flow_ok g" for now
    using that
  proof (cases rule: flow_ok_cases)
    case 2
    then show ?thesis
      using that by (simp add: dead_state reschedule_def schedule_timer_def forward_refl)
  qed (rule forward_reschedule)
  then show ?thesis
    using fg forward_via [OF fg] by (auto simp: set_ping_interval_def Let_def g_def)
qed

section \<open>The packet handler\<close>

lemma keeps_calc_r2l: "keeps f (snd (calc_remote_to_local_lost_rate now i f))"
  by (simp add: calc_remote_to_local_lost_rate_def Let_def case_prod_unfold keeps_unfold)

lemma keeps_calculate_l2r: "keeps f (calculate_local_to_remote_lost_rate a b now f)"
proof -
  define g where "g = snd (calc_remote_to_local_lost_rate now (Some (ucast b)) f)"
  have "keeps f g" by (simp add: g_def keeps_calc_r2l)
  then show ?thesis
    unfolding calculate_local_to_remote_lost_rate_def Let_def case_prod_unfold g_def [symmetric]
    by (simp add: keeps_unfold)
qed

lemma keeps_prologue: "keeps f (process_prologue sbuf now f)"
  unfolding process_prologue_def
  by (rule keeps_trans [OF _ keeps_calculate_l2r]) (simp add: keeps_unfold)

lemma forward_process_unreliable:
  assumes "live f"
  shows "forward f (snd (process_unreliable semi sbuf f))"
    and "\<not> fst (process_unreliable semi sbuf f) \<Longrightarrow> snd (process_unreliable semi sbuf f) = f"
proof -
  have l: "live (f\<lparr>m_unreliable_rlist := r\<rparr>)" "live (f\<lparr>m_unreliable_rkeeper := k\<rparr>)"
    "live (f\<lparr>m_unreliable_rkeeper := k, m_unreliable_rlist := r\<rparr>)" for r k
    using assms by (simp_all add: live_def no_null_def rto_ok_def)
  have fw: "forward f (allert_readable (f\<lparr>m_unreliable_rlist := r\<rparr>))"
    "forward f (allert_readable (f\<lparr>m_unreliable_rkeeper := k, m_unreliable_rlist := r\<rparr>))"
    "forward f (f\<lparr>m_unreliable_rkeeper := k\<rparr>)" for r k
    using forward_allert_readable [OF live_ok [OF l(1)]] forward_allert_readable [OF live_ok [OF l(3)]]
      live_ok [OF l(2)] by (simp_all add: forward_def)
  show "forward f (snd (process_unreliable semi sbuf f))"
    using fw forward_refl [OF live_ok [OF assms]]
    by (simp add: process_unreliable_def Let_def case_prod_unfold)
  show "\<not> fst (process_unreliable semi sbuf f) \<Longrightarrow> snd (process_unreliable semi sbuf f) = f"
    by (auto simp: process_unreliable_def Let_def case_prod_unfold split: if_splits)
qed

lemma same_life_ack_advance: "same_life f (ack_advance ackno te w now f)"
proof -
  define f1 where "f1 = (if te \<noteq> 0 then updata_rtt (mod_minus (ucast now) te) f else f)"
  have "same_life f f1"
    using same_life_updata_rtt [OF mod_minus_u16 [of "ucast now" te], of f]
    by (simp add: f1_def same_life_def)
  then show ?thesis
    unfolding ack_advance_def Let_def f1_def [symmetric] by (simp add: same_life_def rto_ok_def)
qed

lemma same_life_trans: "same_life f g \<Longrightarrow> same_life g h \<Longrightarrow> same_life f h"
  by (auto simp: same_life_def)

lemma live_state_upd:
  assumes "live f" and "keeps f g"
  shows "live g" "m_state g = m_state f"
  using assms live_keeps keeps_fields(2) by auto

lemma ack_congestion_stop:
  assumes "live f"
  shows "if fst (ack_congestion n now f) then forward f (snd (ack_congestion n now f))
    else live (snd (ack_congestion n now f)) \<and> m_state (snd (ack_congestion n now f)) = m_state f"
proof -
  define g where "g = snd (transmit_retrans_front now f)"
  have lg: "live g" "m_state g = m_state f"
    using live_state_upd [OF assms keeps_retrans_front] by (simp_all add: g_def)
  have "forward f (allert_disconnected timed_out g)"
    using forward_allert_disconnected [OF live_ok [OF lg(1)], of timed_out] lg(2)
    by (simp add: forward_def)
  moreover have "live (g\<lparr>m_cwnd := x\<rparr>)" "live (f\<lparr>m_cwnd := x, m_dup_acks := y\<rparr>)"
    "live (f\<lparr>m_dup_acks := y, m_cwnd := x\<rparr>)" for x y
    using assms lg(1) by (simp_all add: live_def no_null_def rto_ok_def)
  ultimately show ?thesis
    using lg(2) by (simp add: ack_congestion_def Let_def case_prod_unfold g_def)
qed

lemma ack_duplicate_stop:
  assumes "live f"
  shows "if fst (ack_duplicate w len now f) then forward f (snd (ack_duplicate w len now f))
    else live (snd (ack_duplicate w len now f)) \<and> m_state (snd (ack_duplicate w len now f)) = m_state f"
proof -
  define f2 where "f2 x y z = f\<lparr>m_snd_wnd := w, m_dup_acks := x, m_ssthresh := y, m_recover := z\<rparr>"
    for x y z
  have l2: "live (f2 x y z)" "m_state (f2 x y z) = m_state f" for x y z
    using assms by (simp_all add: f2_def live_def no_null_def rto_ok_def)
  have lg: "live (snd (transmit_retrans_front now (f2 x y z)))"
    "m_state (snd (transmit_retrans_front now (f2 x y z))) = m_state f" for x y z
    using live_state_upd [OF l2(1) keeps_retrans_front] l2(2) by auto
  have "forward f (allert_disconnected timed_out (snd (transmit_retrans_front now (f2 x y z))))"
    for x y z
    using forward_allert_disconnected [OF live_ok [OF lg(1)], where ec = timed_out] lg(2)
    by (simp add: forward_def)
  moreover have "live (f\<lparr>m_snd_wnd := w\<rparr>)" "live (f\<lparr>m_snd_wnd := w, m_dup_acks := y\<rparr>)"
    "live (f\<lparr>m_snd_wnd := w, m_dup_acks := y, m_cwnd := x\<rparr>)" for x y
    using assms by (simp_all add: live_def no_null_def rto_ok_def)
  ultimately show ?thesis
    using lg unfolding f2_def by (simp add: ack_duplicate_def Let_def case_prod_unfold)
qed

lemma forward_ack_accept:
  assumes "live f"
  shows "live (snd (ack_accept f))" "m_state f \<le> m_state (snd (ack_accept f))"
  using assms by (auto simp: ack_accept_def live_def no_null_def rto_ok_def state_order)

lemma process_ack_stop:
  assumes "live f"
  shows "if fst (process_ack a te w len now f) then forward f (snd (snd (process_ack a te w len now f)))
    else live (snd (snd (process_ack a te w len now f)))
      \<and> m_state f \<le> m_state (snd (snd (process_ack a te w len now f)))"
proof -
  define f1 where "f1 = ack_advance a te w now f"
  have l1: "live f1" "m_state f1 = m_state f"
    using live_same_life [OF assms same_life_ack_advance] same_life_ack_advance [of f a te w now]
    by (simp_all add: f1_def same_life_def)
  define g where "g = ack_congestion (word_of_int (mod_minus a (m_snd_una f))) now f1"
  have st: "if fst g then forward f1 (snd g) else live (snd g) \<and> m_state (snd g) = m_state f1"
    unfolding g_def by (rule ack_congestion_stop [OF l1(1)])
  have "process_ack a te w len now f =
     (if mod_less (m_snd_una f) a \<and> mod_less_equal a (m_snd_nxt f)
      then if fst g then (True, False, snd g)
           else (False, fst (ack_accept (snd g)), snd (ack_accept (snd g)))
      else if a = m_snd_una f
      then (fst (ack_duplicate w len now f), False, snd (ack_duplicate w len now f))
      else (False, False, f))"
    unfolding process_ack_def Let_def case_prod_unfold g_def f1_def by simp
  then show ?thesis
    using st l1(2) ack_duplicate_stop [OF assms, of w len now] forward_ack_accept [of "snd g"] assms
    by (auto simp: forward_def split: if_splits)
qed

lemma keeps_process_data: "keeps f (snd (process_data d s bs f))"
  by (simp add: process_data_def store_segment_def Let_def case_prod_unfold keeps_unfold)

lemma forward_process_finish:
  assumes "live f"
  shows "forward f (process_finish ackno fl nd nc na now f)"
proof (cases "m_state f = CLOSING \<and> ackno = m_snd_nxt f")
  case True
  define g where "g = f\<lparr>m_t_close_base := Some (later now WAIT_FIN_ACK_TIMEOUT),
    m_state := WATING_FIN_ACK\<rparr>"
  have lg: "live g"
    using assms True by (simp add: g_def live_def no_null_def rto_ok_def)
  have "forward g (reschedule now (packet_as_reliable_and_sendout (m_snd_nxt f) CTRL_FIN [] now g))"
    using forward_live_chain [OF lg keeps_packet forward_reschedule] .
  moreover have "forward f g"
    using live_ok [OF lg] True by (simp add: forward_def g_def state_order)
  ultimately show ?thesis
    using True forward_trans by (simp add: process_finish_def g_def)
next
  case False
  define f1 where "f1 = attempt_send fl f"
  define f2 where "f2 = (if nc then allert_connected no_error f1 else f1)"
  define f3 where "f3 = (if m_detect_writable f1 \<and> unat (m_slen f1) < K_IDEAL_REFILL_SIZE
    then allert_writeable f2 else f2)"
  define f4 where "f4 = (if nd \<and> m_detect_readable f1 then allert_readable f3 else f3)"
  have "forward f f1" using forward_keeps [OF assms keeps_attempt_send] by (simp add: f1_def)
  then have "forward f f2"
    using forward_via [OF _ forward_allert_connected] by (simp add: f2_def)
  then have "forward f f3"
    using forward_via [OF _ forward_allert_writeable] by (simp add: f3_def)
  then have "forward f f4"
    using forward_via [OF _ forward_allert_readable] by (simp add: f4_def)
  then have "forward f (if na then allert_accepted f4 else f4)"
    using forward_via [OF _ forward_allert_accepted] by simp
  then show ?thesis
    unfolding process_finish_def Let_def f4_def f3_def f2_def f1_def if_not_P [OF False] .
qed

text \<open>A handler that answers \<open>False\<close> has not closed the flow.\<close>

definition handled :: "urdp_flow \<Rightarrow> bool \<times> urdp_flow \<Rightarrow> bool" where
  "handled f r \<longleftrightarrow> forward f (snd r) \<and> (\<not> fst r \<longrightarrow> live (snd r))"

lemma handledI: "forward f g \<Longrightarrow> handled f (True, g)"
  by (simp add: handled_def)

lemma handled_same: "live f \<Longrightarrow> handled f (b, f)"
  by (simp add: handled_def forward_refl live_ok)

lemma handled_via: "forward f g \<Longrightarrow> handled g r \<Longrightarrow> handled f r"
  using forward_trans by (auto simp: handled_def)

lemma handled_process_segment:
  assumes "live f0"
  shows "handled f0 (process_segment nc ia sbuf from now f0)"
proof (cases "m_state f0 \<ge> SYN_SENT \<and> m_remote_endpoint f0 \<noteq> from")
  case True
  then show ?thesis
    using handled_same [OF assms] by (simp add: process_segment_def)
next
  case False
  define data where "data = drop reliable_format_size sbuf"
  define f1 where "f1 = f0\<lparr>m_t_lasttraffic := now, m_t_lastrecv := now\<rparr>"
  define f2 where "f2 = (if mod_less_equal (hdr f0 sbuf F_seqno) (m_lastack f1)
      \<and> mod_less (m_lastack f1) (hdr f0 sbuf F_seqno + of_nat (length data))
    then f1\<lparr>m_t_recent_now := ucast now, m_t_recent := ucast (hdr f0 sbuf F_time_sending)\<rparr>
    else f1)"
  have l2: "live f2" "m_state f2 = m_state f0"
    using assms by (simp_all add: f2_def f1_def live_def no_null_def rto_ok_def)
  define r where "r = process_ack (hdr f0 sbuf F_ackno) (ucast (hdr f0 sbuf F_time_echo))
    (hdr f0 sbuf F_window) (length data) now f2"
  define f3 where "f3 = snd (snd r)"
  have st: "if fst r then forward f2 f3 else live f3 \<and> m_state f2 \<le> m_state f3"
    unfolding r_def f3_def by (rule process_ack_stop [OF l2(1)])
  define pd where "pd = accept_data (hdr f0 sbuf F_control = control_code CTRL_DATA)
    (hdr f0 sbuf F_seqno) data f3"
  define fl where "fl = (if hdr f0 sbuf F_seqno \<noteq> m_rcv_nxt f3 \<or> ia then sfImmediateAck
    else if data \<noteq> [] then sfDelayedAck else sfNone)"
  define fin where "fin = process_finish (hdr f0 sbuf F_ackno) fl (fst pd) nc (fst (snd r)) now (snd pd)"
  have eq: "process_segment nc ia sbuf from now f0 = (if fst r then (True, f3) else (True, fin))"
    unfolding process_segment_def Let_def case_prod_unfold if_not_P [OF False]
      fin_def fl_def pd_def f3_def r_def f2_def f1_def data_def by (rule refl)
  have "forward f0 f2"
    using l2 live_ok by (simp add: forward_def)
  moreover have "forward f2 fin" if "\<not> fst r"
  proof -
    have l3: "live f3" "m_state f2 \<le> m_state f3" using st that by auto
    have k: "keeps f3 (snd pd)" by (simp add: pd_def accept_data_def case_prod_unfold Let_def keeps_process_data)
    have "forward f3 fin"
      unfolding fin_def by (rule forward_live_chain [OF l3(1) k forward_process_finish])
    moreover have "forward f2 f3" using l3 live_ok by (simp add: forward_def)
    ultimately show ?thesis using forward_trans by blast
  qed
  ultimately show ?thesis
    using st forward_trans handledI unfolding eq by auto
qed

lemma forward_reason:
  "flow_ok f \<Longrightarrow> forward f (f\<lparr>m_dissconnect_reason := r\<rparr>)"
  by (rule core_irrelevant) (simp_all add: core_def)

lemma forward_on_unreachable:
  assumes "flow_ok f"
  shows "forward f (on_unreachable sbuf f)"
  using forward_refl [OF assms] forward_allert_connected [OF assms]
    forward_via [OF forward_reason [OF assms] forward_allert_disconnected]
  by (auto simp: on_unreachable_def)

lemma forward_on_connect:
  assumes "live f"
  shows "forward f (on_connect sbuf from now f)"
proof (cases "m_state f = LISTEN")
  case True
  define nxt where "nxt = hdr f sbuf F_seqno + of_nat (length sbuf - reliable_format_size)"
  define f1 where "f1 = f\<lparr>m_state := SYN_RCVD, m_remote_peer_id := hdr f sbuf F_peer_id,
    m_session_id := ucast (hdr f sbuf F_session_id), m_lastack := nxt, m_rcv_nxt := nxt,
    m_remote_endpoint := from, m_t_recent := ucast (hdr f sbuf F_time_sending),
    m_t_recent_now := ucast now, m_t_lasttraffic := now, m_t_lastrecv := now\<rparr>"
  have l1: "live f1" using assms by (simp add: f1_def live_def no_null_def rto_ok_def state_order)
  have ff: "forward f f1" using live_ok [OF l1] True by (simp add: forward_def f1_def state_order)
  have k: "keeps f1 (attempt_send sfImmediateAck (queue d CTRL_CONNECT_ACK 0 f1))" for d
    using keeps_trans [OF keeps_queue keeps_attempt_send] .
  obtain fid where "m_token f1 = Some fid" using l1 by (auto simp: live_def)
  moreover have "on_connect sbuf from now f = (case m_token f1 of None \<Rightarrow> fault Null_token f1
    | Some fid \<Rightarrow> reschedule now (attempt_send sfImmediateAck
        (queue (io_put_int (f_host_big f) fid []) CTRL_CONNECT_ACK 0 f1)))"
    using True unfolding on_connect_def Let_def f1_def nxt_def by simp
  ultimately show ?thesis
    using forward_trans [OF ff forward_live_chain [OF l1 k forward_reschedule]] by simp
next
  case False
  then show ?thesis using forward_refl [OF live_ok [OF assms]] by (simp add: on_connect_def)
qed

lemma forward_on_punch:
  assumes "live f"
  shows "forward f (on_punch from now f)"
proof -
  define f1 where "f1 = f\<lparr>m_remote_endpoint := from, m_t_lasttraffic := now, m_t_lastrecv := now\<rparr>"
  have k1: "keeps f f1" by (simp add: f1_def keeps_unfold)
  have k2: "keeps f (f1\<lparr>m_retrans_slist := l\<rparr>)" for l by (simp add: f1_def keeps_unfold)
  show ?thesis
    using forward_keeps [OF assms k1] forward_keeps [OF assms keeps_trans [OF k2 keeps_retrans_front]]
    unfolding on_punch_def Let_def f1_def [symmetric]
    by (auto split: list.splits)
qed

lemma handled_process_reliable:
  assumes "live f"
  shows "handled f (process_reliable sbuf from now f)"
proof -
  have seg: "handled f (process_segment nc ia sbuf from now f)" for nc ia
    by (rule handled_process_segment [OF assms])
  define g where "g = f\<lparr>m_remote_peer_id := fst (io_get_int (f_host_big f) (drop reliable_format_size sbuf)),
    m_state := ESTABLISHED, m_lastack := hdr f sbuf F_seqno, m_rcv_nxt := hdr f sbuf F_seqno\<rparr>"
  have ack: "handled f (process_segment True True sbuf from now g)" if "m_state f = SYN_SENT"
  proof -
    have lg: "live g" using assms by (simp add: g_def live_def no_null_def rto_ok_def state_order)
    have "forward f g" using live_ok [OF lg] that by (simp add: forward_def g_def state_order)
    then show ?thesis using handled_via handled_process_segment [OF lg] by blast
  qed
  define h where "h = f\<lparr>m_dissconnect_reason := m_dissconnect_reason f OR DISCONN_REMOTE\<rparr>"
  have fh: "forward f h" and lh: "live h"
    using forward_reason [OF live_ok [OF assms]] assms
    by (simp_all add: h_def live_def no_null_def rto_ok_def)
  have rst: "handled f (True, allert_disconnected connection_reset h)"
    by (rule handledI [OF forward_via [OF fh forward_allert_disconnected]])
  have fin: "handled f (True, allert_disconnected connection_reset
      (packet_as_reliable_and_sendout (m_snd_nxt f) CTRL_FIN_ACK [] now h))"
    by (rule handledI [OF forward_trans [OF fh forward_live_chain [OF lh keeps_packet
          forward_allert_disconnected [OF live_ok]]]])
  note others = handledI [OF forward_on_unreachable [OF live_ok [OF assms]]]
    handledI [OF forward_on_connect [OF assms]] handledI [OF forward_on_punch [OF assms]]
    handledI [OF forward_allert_disconnected [OF live_ok [OF assms]]] handled_same [OF assms]
  show ?thesis
    using seg ack rst fin others
    unfolding process_reliable_def Let_def g_def [symmetric] h_def [symmetric]
    by (auto split: option.splits urdp_packet_type.splits)
qed

lemma handled_process:
  assumes "flow_ok f"
  shows "forward f (snd (process sbuf from f))"
    and "\<not> fst (process sbuf from f) \<Longrightarrow> live (snd (process sbuf from f))"
proof -
  have "handled f (process sbuf from f) \<or> m_state f = CLOSED \<and> process sbuf from f = (True, f)"
  proof (cases "m_state f = CLOSED")
    case False
    then have l: "live f" using assms dead_state by (auto simp: flow_ok_def)
    define f1 where "f1 = process_prologue sbuf (tick_now f) f"
    have l1: "live f1" and ff: "forward f f1"
      using live_keeps [OF l keeps_prologue] forward_keeps [OF l keeps_prologue]
      by (simp_all add: f1_def)
    have un: "handled f1 (process_unreliable semi sbuf f1)" for semi
      using forward_process_unreliable [OF l1] l1 by (auto simp: handled_def)
    have re: "handled f1 (process_reliable sbuf from (tick_now f) f1)"
      by (rule handled_process_reliable [OF l1])
    show ?thesis
      using False handled_same [OF l] handled_via [OF ff un] handled_via [OF ff re]
      unfolding process_def Let_def f1_def [symmetric]
      by (auto split: option.splits urdp_packet_type.splits)
  qed (simp add: process_def)
  then show "forward f (snd (process sbuf from f))"
    "\<not> fst (process sbuf from f) \<Longrightarrow> live (snd (process sbuf from f))"
    using forward_refl [OF assms] by (auto simp: handled_def)
qed

lemma forward_called_by_sharedlayer:
  assumes "flow_ok f"
  shows "forward f (called_by_sharedlayer_on_recvd sbuf from f)"
proof -
  define g where "g = snd (process sbuf from f)"
  have fg: "forward f g" using handled_process(1) [OF assms] by (simp add: g_def)
  have "forward f ((packet_as_reliable_and_sendout (m_snd_nxt g) CTRL_RST [] (tick_now g) g)
      \<lparr>b_ignore_all_pkt := True\<rparr>)" if "\<not> fst (process sbuf from f)"
  proof -
    have lg: "live g" using handled_process(2) [OF assms that] by (simp add: g_def)
    have "keeps g ((packet_as_reliable_and_sendout (m_snd_nxt g) CTRL_RST [] (tick_now g) g)
      \<lparr>b_ignore_all_pkt := True\<rparr>)"
      by (rule keeps_upd [OF keeps_packet]) (simp_all add: core_def)
    then show ?thesis using forward_trans [OF fg forward_keeps [OF lg]] by simp
  qed
  then show ?thesis
    using fg by (auto simp: called_by_sharedlayer_on_recvd_def Let_def case_prod_unfold g_def)
qed

section \<open>The clock handler\<close>

definition same_clock :: "urdp_flow \<Rightarrow> urdp_flow \<Rightarrow> bool" where
  "same_clock f g \<longleftrightarrow> live g \<and> m_state g = m_state f \<and> m_t_last_on_clock g = m_t_last_on_clock f"

lemma same_clock_keeps:
  assumes "live f" and "keeps f g"
  shows "same_clock f g"
  using live_keeps [OF assms] keeps_fields(2,10) [OF assms(2)] by (simp add: same_clock_def)

lemma same_clock_life: "live f \<Longrightarrow> same_life f g \<Longrightarrow> same_clock f g"
  using live_same_life by (auto simp: same_clock_def same_life_def)

lemma same_clock_trans: "same_clock f g \<Longrightarrow> same_clock g h \<Longrightarrow> same_clock f h"
  by (simp add: same_clock_def)

lemma same_clock_refl: "live f \<Longrightarrow> same_clock f f"
  by (simp add: same_clock_def)

lemma same_clock_forward: "same_clock f g \<Longrightarrow> forward f g"
  using live_ok by (auto simp: same_clock_def forward_def)

definition clock_part :: "urdp_flow \<Rightarrow> bool \<Rightarrow> urdp_flow \<Rightarrow> bool" where
  "clock_part f stop g \<longleftrightarrow> (if stop then forward f g else same_clock f g)"

lemma clock_part_retransmit:
  assumes "live f"
  shows "clock_part f (fst (clock_retransmit now f)) (snd (snd (clock_retransmit now f)))"
proof -
  define g where "g = snd (transmit_retrans_front now f)"
  have sg: "same_clock f g" by (simp add: g_def same_clock_keeps assms)
  have lg: "live g" using sg by (simp add: same_clock_def)
  have dis: "forward f (allert_disconnected timed_out g)"
    using forward_trans [OF same_clock_forward [OF sg] forward_allert_disconnected [OF live_ok [OF lg]]] .
  define h where "h a b = g\<lparr>m_ssthresh := a, m_cwnd := b, m_t_rto_base := scape_zero now\<rparr>" for a b
  have "same_clock g (h a b)" for a b
    by (rule same_clock_keeps [OF lg]) (simp add: h_def keeps_unfold)
  then have "same_clock f (incress_rto (h a b))" for a b
    using sg same_clock_trans same_clock_life same_life_incress_rto by (meson same_clock_def)
  moreover have "same_clock f (f\<lparr>m_t_rto_base := 0\<rparr>)"
    by (rule same_clock_keeps [OF assms]) (simp add: keeps_unfold)
  ultimately show ?thesis
    using dis same_clock_refl [OF assms] unfolding h_def
    by (simp add: clock_retransmit_def Let_def case_prod_unfold clock_part_def g_def)
qed

lemma keeps_resend: "keeps f (resend_unreliable k now f)"
proof (induction k arbitrary: f)
  case (Suc k)
  have up: "keeps f (g\<lparr>m_unreliable_slist := l\<rparr>)" if "keeps f g" for g l
    by (rule keeps_upd [OF that]) (simp_all add: core_def)
  show ?case
    using Suc keeps_trans [OF up [OF keeps_unreliable] Suc]
    by (auto simp: case_prod_unfold Let_def split: list.splits)
qed simp

lemma keeps_clock_ping: "keeps f (snd (clock_ping now s f))"
  using keeps_ping by (simp add: clock_ping_def Let_def)

lemma clock_part_probe:
  assumes "live f"
  shows "clock_part f (fst (clock_probe now s f)) (snd (snd (clock_probe now s f)))"
proof -
  have a: "same_clock f (incress_rto f)" by (rule same_clock_life [OF assms same_life_incress_rto])
  have p: "same_clock f (packet_as_reliable_and_sendout q c d now f)" for q c d
    by (rule same_clock_keeps [OF assms keeps_packet])
  then have "same_clock f (incress_rto (packet_as_reliable_and_sendout q c d now f))" for q c d
    using same_clock_trans same_clock_life same_life_incress_rto by (meson same_clock_def)
  moreover have "forward f (to_closed_state (allert_disconnected timed_out
      (packet_as_reliable_and_sendout q c d now f)))" for q c d
    by (rule forward_via [OF forward_via [OF same_clock_forward [OF p] forward_allert_disconnected]
          forward_to_closed])
  ultimately show ?thesis
    using a same_clock_refl [OF assms] by (simp add: clock_probe_def clock_part_def)
qed

lemma keeps_clock_delayed_ack: "keeps f (clock_delayed_ack now s f)"
  by (simp add: clock_delayed_ack_def)

lemma clock_check_ge:
  assumes "m_t_last_on_clock f = now" and "clock_check now f = Some t"
  shows "t \<ge> MIN_CLOCK_CHECK_TIME"
proof -
  have "mod_minus now now = 0" by (simp add: mod_minus_def wrappable_minus_def)
  then show ?thesis
    using assms unfolding clock_check_def Let_def
    by (auto simp: MIN_CLOCK_CHECK_TIME_def split: if_splits)
qed

lemma schedule_timer_no_again:
  assumes "m_t_last_on_clock f = now"
  shows "\<not> fst (schedule_timer now c f)"
  using clock_check_ge [OF assms]
  by (auto simp: schedule_timer_def Let_def MIN_CLOCK_CHECK_TIME_def split: option.splits)

lemma on_clock_round_live:
  assumes "live f0"
  shows "forward f0 (snd (on_clock_round f0)) \<and> \<not> fst (on_clock_round f0)"
proof -
  define f where "f = f0\<lparr>b_timer_posted := False\<rparr>"
  define now where "now = tick_now f"
  define f1 where "f1 = f\<lparr>m_t_last_on_clock := now\<rparr>"
  have l1: "live f1" and s1: "m_state f1 = m_state f0" and c1: "m_t_last_on_clock f1 = now"
    using assms by (simp_all add: f1_def f_def live_def no_null_def rto_ok_def)
  have f01: "forward f0 f1" using live_ok [OF l1] s1 by (simp add: forward_def)
  have nc: "m_state f \<noteq> CLOSED" using assms by (simp add: f_def live_def)
  define a where "a = clock_retransmit now f1"
  define f2 where "f2 = snd (snd a)"
  define f3 where "f3 = resend_unreliable (length (m_unreliable_slist f2)) now f2"
  define b where "b = clock_ping now (fst (snd a)) f3"
  define f4 where "f4 = snd b"
  define c where "c = clock_probe now (fst b) f4"
  define f5 where "f5 = snd (snd c)"
  define f6 where "f6 = clock_delayed_ack now (fst (snd c)) f5"
  define tmo1 where "tmo1 = (case m_t_close_base f1 of None \<Rightarrow> False | Some t \<Rightarrow> mod_less_equal t now)"
  define tmo2 where "tmo2 = (m_state f1 = ESTABLISHED
    \<and> mod_less_equal (later (m_t_lastrecv f1) (m_ping_interval f1 + DEFAULT_TIMEOUT)) now)"
  have eq: "on_clock_round f0 =
    (if tmo1 then (False, allert_disconnected timed_out f1)
     else if tmo2 then (False, allert_disconnected timed_out f1)
     else if fst a then (False, f2)
     else if fst c then (False, f5)
     else schedule_timer now True f6)"
    unfolding on_clock_round_def Let_def case_prod_unfold f_def [symmetric] if_not_P [OF nc]
      tmo1_def tmo2_def f6_def f5_def c_def f4_def b_def f3_def f2_def a_def f1_def now_def
    by (rule refl)
  have pa: "clock_part f1 (fst a) f2"
    unfolding a_def f2_def by (rule clock_part_retransmit [OF l1])
  show ?thesis
  proof (cases "tmo1 \<or> tmo2 \<or> fst a")
    case True
    then show ?thesis
      using pa forward_trans [OF f01] forward_allert_disconnected [OF live_ok [OF l1]]
      unfolding eq clock_part_def by auto
  next
    case False
    then have s2: "same_clock f1 f2" using pa by (simp add: clock_part_def)
    then have "same_clock f2 f3"
      using same_clock_keeps [OF _ keeps_resend] by (simp add: f3_def same_clock_def)
    then have s3: "same_clock f1 f3" using s2 same_clock_trans by blast
    then have "same_clock f3 f4"
      using same_clock_keeps [OF _ keeps_clock_ping] by (simp add: f4_def b_def same_clock_def)
    then have s4: "same_clock f1 f4" using s3 same_clock_trans by blast
    then have pc: "clock_part f4 (fst c) f5"
      unfolding c_def f5_def by (intro clock_part_probe) (simp add: same_clock_def)
    show ?thesis
    proof (cases "fst c")
      case True
      then show ?thesis
        using False pc forward_trans [OF f01 forward_trans [OF same_clock_forward [OF s4]]]
        unfolding eq clock_part_def by auto
    next
      case goes_on: False
      then have "same_clock f4 f5" using pc by (simp add: clock_part_def)
      then have s5: "same_clock f1 f5" using s4 same_clock_trans by blast
      then have "same_clock f5 f6"
        using same_clock_keeps [OF _ keeps_clock_delayed_ack] by (simp add: f6_def same_clock_def)
      then have s6: "same_clock f1 f6" using s5 same_clock_trans by blast
      then have l6: "live f6" "m_t_last_on_clock f6 = now" using c1 by (simp_all add: same_clock_def)
      have "forward f6 (snd (schedule_timer now True f6))"
        using live_schedule [OF l6(1), of now True] live_ok by (auto simp: forward_def)
      then show ?thesis
        using False goes_on schedule_timer_no_again [OF l6(2)]
          forward_trans [OF f01 forward_trans [OF same_clock_forward [OF s6]]]
        unfolding eq by auto
    qed
  qed
qed

lemma on_clock_round_ok:
  assumes "flow_ok f"
  shows "forward f (snd (on_clock_round f)) \<and> \<not> fst (on_clock_round f)"
  using assms
proof (cases rule: flow_ok_cases)
  case 2
  have "forward f (f\<lparr>b_timer_posted := False\<rparr>)"
    by (rule core_irrelevant [OF assms]) (simp_all add: core_def)
  then show ?thesis using dead_state [OF 2] by (simp add: on_clock_round_def)
qed (rule on_clock_round_live)

lemma forward_on_clock: "flow_ok f \<Longrightarrow> forward f (on_clock f)"
  using on_clock_round_ok by (simp add: on_clock_def)

lemma forward_timer_fired:
  assumes "flow_ok f" and "m_timer f \<noteq> Timer_gone"
  shows "forward f (timer_fired f)"
proof -
  have l: "live f" using assms by (auto simp: flow_ok_def dead_def)
  then have "live (f\<lparr>m_timer := Timer_idle\<rparr>)" by (simp add: live_def no_null_def rto_ok_def)
  then show ?thesis
    using forward_on_clock [OF live_ok, of "f\<lparr>m_timer := Timer_idle\<rparr>"]
    by (simp add: timer_fired_def forward_def)
qed

section \<open>The steps of a flow\<close>

text \<open>One step is one handler run: a packet from the shared layer, the timer, a posted handler,
  a call of the user, or a change of the environment (time passes, the pool hands out other
  bytes, the generator and the process-wide statistics move, the layer closes, the acceptor
  goes away, the connection object is attached).\<close>

inductive flow_step :: "urdp_flow \<Rightarrow> urdp_flow \<Rightarrow> bool" where
  Recvd: "flow_step f (called_by_sharedlayer_on_recvd buf from f)"
| Timer: "m_timer f = Timer_waiting d \<Longrightarrow> flow_step f (timer_fired f)"
| Posted_clock: "b_timer_posted f \<Longrightarrow> flow_step f (on_clock f)"
| Posted_receive: "flow_step f (async_receive mark f)"
| Posted_connected:
    "\<not> is_canceled_op mark (m_mark f) \<Longrightarrow> flow_step f (allert_connected ec f)"
| Posted_disconnected:
    "\<not> is_canceled_op mark (m_mark f) \<Longrightarrow> flow_step f (allert_disconnected ec f)"
| Posted_writeable:
    "\<not> is_canceled_op mark (m_mark f) \<Longrightarrow> flow_step f (allert_writeable f)"
| Connect: "flow_step f (async_connect ep dn tmo f)"
| Connect_host: "flow_step f (async_connect_host ps host port dn tmo f)"
| Resolved: "flow_step f (handle_resolve ec itr dn tmo mark f)"
| Send: "flow_step f (async_send buf mt rel f)"
| Ping: "flow_step f (snd (ping f))"
| Ping_interval: "flow_step f (set_ping_interval t f)"
| Keep_receiving: "flow_step f (keep_async_receiving f)"
| Block_receiving: "flow_step f (block_async_receiving f)"
| Close: "flow_step f (close graceful f)"
| Punch: "flow_step f (snd (snd (make_punch_packet lp64 ep f)))"
| Punch_request: "flow_step f (on_received_punch_request buf f)"
| Attach: "flow_step f (f\<lparr>m_socket := True\<rparr>)"
| Env: "0 \<le> d \<Longrightarrow> flow_step f (f\<lparr>f_clock := f_clock f + d, f_pool := pool, f_rng := r,
           f_stats := st, f_layer_open := lo, m_acceptor := m_acceptor f \<and> ac, f_outs := []\<rparr>)"

inductive flow_start :: "urdp_flow \<Rightarrow> bool" where
  Active: "flow_start (create_for_active_connect fid raw)"
| Passive: "flow_start (create_for_passive_connect fid ep raw)"

inductive flow_reach :: "urdp_flow \<Rightarrow> bool" where
  Start: "flow_start f \<Longrightarrow> flow_reach f"
| Step: "flow_reach f \<Longrightarrow> flow_step f f' \<Longrightarrow> flow_reach f'"

inductive_cases flow_stepE: "flow_step f f'"
inductive_simps flow_start_iff: "flow_start f"

lemma construct_no_null:
  "f_fault (construct_flow raw) = None" "m_timer (construct_flow raw) = Timer_idle"
  "m_rto (construct_flow raw) = MIN_RTO" "m_srtt (construct_flow raw) = 0"
  "m_rttvar (construct_flow raw) = 0" "m_state (construct_flow raw) = INIT"
  by (simp_all add: construct_flow_def init_flow_def draw_def case_prod_unfold Let_def)

lemma start_live: "flow_start f \<Longrightarrow> live f"
  by (auto simp: flow_start_iff create_for_active_connect_def create_for_passive_connect_def
      timer_async_wait_def live_def no_null_def rto_ok_def construct_no_null MIN_RTO_def MAX_RTO_def
      state_order)

lemma forward_layer_send: "flow_ok f \<Longrightarrow> forward f (layer_async_send_to b e f)"
  by (rule core_irrelevant)
    (simp_all add: layer_async_send_to_def emit_def Let_def core_def)

lemma forward_make_punch: "flow_ok f \<Longrightarrow> forward f (snd (snd (make_punch_packet lp64 ep f)))"
  by (rule core_irrelevant) (simp_all add: make_punch_packet_def Let_def core_def)

lemma forward_punch_request:
  assumes "flow_ok f"
  shows "forward f (on_received_punch_request buf f)"
  using forward_refl [OF assms] forward_via [OF forward_layer_send [OF assms] forward_layer_send]
  by (simp add: on_received_punch_request_def Let_def case_prod_unfold)

lemma forward_env:
  assumes "flow_ok f"
  shows "forward f (f\<lparr>m_socket := True\<rparr>)" "forward f (block_async_receiving f)"
    "forward f (f\<lparr>f_clock := c, f_pool := pool, f_rng := r, f_stats := st, f_layer_open := lo,
       m_acceptor := ac, f_outs := os\<rparr>)"
  using assms
  by (auto simp: forward_def flow_ok_def live_def dead_def no_null_def rto_ok_def
      block_async_receiving_def)

lemma step_forward:
  assumes "flow_ok f" and "flow_step f f'"
  shows "forward f f'"
  using assms(2)
proof (cases rule: flow_step.cases)
  case (Timer d)
  then show ?thesis using forward_timer_fired [OF assms(1)] by simp
qed (use assms(1) forward_called_by_sharedlayer forward_on_clock forward_async_receive
      forward_allert_connected forward_allert_disconnected forward_allert_writeable
      forward_async_connect forward_async_connect_host forward_handle_resolve forward_async_send
      forward_ping forward_set_ping_interval forward_keep_async_receiving forward_close
      forward_make_punch forward_punch_request forward_env in \<open>simp_all\<close>)

lemma reach_ok: "flow_reach f \<Longrightarrow> flow_ok f"
proof (induction rule: flow_reach.induct)
  case (Start f)
  then show ?case using start_live live_ok by blast
next
  case (Step f f')
  then show ?case using step_forward by (auto simp: forward_def)
qed

end
