(* ===== verification/Urdp_Safety.thy ===== *)
theory Urdp_Safety
imports Urdp_Steps
begin

text \<open>The safety properties of the URDP flow: what holds in every state a flow can reach
  under any order of packets, timer runs, posted handlers and user calls.\<close>

section \<open>Properties\<close>

text \<open>C1: In every reachable state of a flow, under any order of packets, timer runs, posted
  handlers and user calls: the flow has its layer token, its timer and the reference to itself
  exactly while it is not closed, the queues of the reliable segments of a closed flow, to send,
  sent and received, are empty (the queues of unreliable packets are not cleared), neither the token nor the
  timer was ever followed as a null pointer, and the retransmission timeout and the round-trip
  estimates are in their bounds, far from the limits of 32-bit arithmetic.\<close>
theorem flow_invariant:
  assumes "flow_reach f"
  shows "(m_state f = CLOSED \<longleftrightarrow> m_token f = None)
    \<and> (m_state f = CLOSED \<longleftrightarrow> m_timer f = Timer_gone)
    \<and> (m_state f = CLOSED \<longleftrightarrow> \<not> m_self_holder f)
    \<and> (m_state f \<noteq> CLOSED \<or> m_slist f = [] \<and> m_retrans_slist f = [] \<and> m_rlist f = [])
    \<and> f_fault f \<noteq> Some Null_token \<and> f_fault f \<noteq> Some Null_timer
    \<and> 250 \<le> m_rto f \<and> m_rto f \<le> 8000
    \<and> 0 \<le> m_srtt f \<and> m_srtt f \<le> 32767 \<and> 0 \<le> m_rttvar f \<and> m_rttvar f \<le> 32767"
proof (cases rule: flow_ok_cases [OF reach_ok [OF assms]])
  case 1
  then show ?thesis
    unfolding live_def no_null_def rto_ok_def MIN_RTO_def MAX_RTO_def by blast
next
  case 2
  then show ?thesis
    unfolding dead_def no_null_def rto_ok_def MIN_RTO_def MAX_RTO_def by blast
qed

definition example_flow :: urdp_flow where
  "example_flow = create_for_active_connect 7 blank_flow"

lemma example_reach: "flow_reach (close True example_flow)"
  unfolding example_flow_def
  by (rule flow_reach.Step [OF flow_reach.Start [OF flow_start.intros(1)] flow_step.Close])

theorem flow_invariant_witness:
  "m_rto (close True example_flow) \<le> 8000 \<and> 250 \<le> m_rto (close True example_flow)"
  using flow_invariant [OF example_reach] by blast

text \<open>The connection state of a reachable flow only moves forward in the order of its
  enumeration, whatever happens; in particular a closed flow stays closed.\<close>
lemma state_only_forward:
  assumes "flow_reach f" and "flow_step f f'"
  shows "m_state f \<le> m_state f' \<and> (m_state f \<noteq> CLOSED \<or> m_state f' = CLOSED)"
proof -
  have "m_state f \<le> m_state f'"
    using step_forward [OF reach_ok [OF assms(1)] assms(2)] by (simp add: forward_def)
  then show ?thesis
    by (auto simp: antisym)
qed

text \<open>C33: One run of the clock handler is enough: scheduling the next timer at its end never
  finds it due at once, because the handler has just recorded its own run and the next event
  is put at least 30 ms later, so the recursion through the timer ends.\<close>
theorem on_clock_returns:
  assumes "flow_reach f"
  shows "on_clock_fuel 1 f = Some (on_clock f)"
  using on_clock_round_ok [OF reach_ok [OF assms]]
  by (simp add: on_clock_def case_prod_unfold Let_def)

theorem on_clock_returns_witness:
  "on_clock_fuel 1 (close True example_flow) = Some (on_clock (close True example_flow))"
  by (rule on_clock_returns [OF example_reach])

lemma min_bound: "a \<le> c \<Longrightarrow> min a b \<le> (c :: int)"
  by simp

lemma if_bound: "a \<le> c \<Longrightarrow> b \<le> c \<Longrightarrow> (if p then a else b) \<le> (c :: int)"
  by simp

lemma option_bound: "a \<le> c \<Longrightarrow> (\<And>x. g x \<le> c) \<Longrightarrow> (case y of None \<Rightarrow> a | Some x \<Rightarrow> g x) \<le> (c :: int)"
  by (simp split: option.split)

lemma list_bound:
  "a \<le> c \<Longrightarrow> (\<And>x xs. g x xs \<le> c) \<Longrightarrow> (case y of [] \<Rightarrow> a | x # xs \<Rightarrow> g x xs) \<le> (c :: int)"
  by (simp split: list.split)

lemma next_event_le: "next_event now f \<le> max (m_ping_interval f) DEFAULT_TIMEOUT"
  unfolding next_event_def Let_def
  by (intro list_bound if_bound min_bound option_bound order_refl)

lemma clock_check_le:
  assumes "clock_check now f = Some t" and "mod_minus now (m_t_last_on_clock f) \<ge> 0"
  shows "t \<le> max (m_ping_interval f) DEFAULT_TIMEOUT"
  using assms next_event_le [of now f]
  by (auto simp: clock_check_def Let_def MIN_CLOCK_CHECK_TIME_def DEFAULT_TIMEOUT_def split: if_splits)

lemma wait_timer: "m_timer (timer_async_wait t f) = Timer_waiting (later (tick_now f) t)"
  by (simp add: timer_async_wait_def)

lemma mod_minus_later: "0 \<le> d \<Longrightarrow> d < 2 ^ 31 \<Longrightarrow> mod_minus (later t d) t = d"
  using sint_small_int [of d, where 'w = 32]
  by (simp add: mod_minus_def wrappable_minus_def later_def)

lemma five_outcomes:
  "(if \<not> i \<and> 0 < e \<and> e < m then f else if b then f else if t \<le> 0 then p
    else if i \<or> t < e then w else f) = g
   \<Longrightarrow> (g = f \<and> \<not> i \<and> e < m) \<or> (g = f \<and> b) \<or> g = p \<or> (g = w \<and> 0 < t) \<or> (g = f \<and> \<not> i \<and> e \<le> t)"
  for e t m :: int
  by (auto split: if_splits)

text \<open>C32: After a flow that is not closed has scheduled its timer, something will wake it: the
  clock handler is posted, or the timer runs and expires within the larger of the ping
  interval and ten seconds, provided the last run of the clock handler is not in the future
  and the timer did not run longer already.\<close>
theorem flow_never_sleeps:
  assumes "flow_reach f" and "m_state f \<noteq> CLOSED"
    and "mod_minus (tick_now f) (m_t_last_on_clock f) \<ge> 0" and "m_ping_interval f < 2 ^ 31"
  shows "b_timer_posted (reschedule (tick_now f) f)
    \<or> (m_timer (reschedule (tick_now f) f) \<noteq> Timer_idle
       \<and> timer_expires_from_now (reschedule (tick_now f) f)
           \<le> max (m_ping_interval f) DEFAULT_TIMEOUT)"
proof -
  have gone: "m_timer f \<noteq> Timer_gone"
    using flow_ok_cases [OF reach_ok [OF assms(1)]] assms(2) by (auto simp: live_def dead_def)
  obtain t where t: "clock_check (tick_now f) f = Some t"
    using assms(2) by (auto simp: clock_check_def Let_def)
  have le: "t \<le> max (m_ping_interval f) DEFAULT_TIMEOUT"
    by (rule clock_check_le [OF t assms(3)])
  have ge: "DEFAULT_TIMEOUT < 2 ^ 31" "MIN_CLOCK_CHECK_TIME \<le> DEFAULT_TIMEOUT"
    by (simp_all add: DEFAULT_TIMEOUT_def MIN_CLOCK_CHECK_TIME_def)
  have small: "t < 2 ^ 31" using le ge assms(4) by auto
  have floor: "MIN_CLOCK_CHECK_TIME \<le> max (m_ping_interval f) DEFAULT_TIMEOUT"
    using ge(2) by simp
  note closed = assms(2)
  have sched: "snd (schedule_timer (tick_now f) False f) =
      (if m_timer f \<noteq> Timer_idle \<and> timer_expires_from_now f > 0
          \<and> timer_expires_from_now f < MIN_CLOCK_CHECK_TIME then f
       else if b_timer_posted f then f
       else if t \<le> 0 then emit Post_on_clock (f\<lparr>b_timer_posted := True\<rparr>)
       else if m_timer f = Timer_idle \<or> t < timer_expires_from_now f then timer_async_wait t f
       else f)"
    using gone closed t by (simp add: schedule_timer_def Let_def)
  let ?g = "reschedule (tick_now f) f"
  from five_outcomes [OF sched [folded reschedule_def, symmetric]]
  consider (soon) "?g = f" "m_timer f \<noteq> Timer_idle" "timer_expires_from_now f < MIN_CLOCK_CHECK_TIME"
    | (posted) "?g = f" "b_timer_posted f"
    | (post) "?g = emit Post_on_clock (f\<lparr>b_timer_posted := True\<rparr>)"
    | (wait) "?g = timer_async_wait t f" "0 < t"
    | (keep) "?g = f" "m_timer f \<noteq> Timer_idle" "timer_expires_from_now f \<le> t"
    by blast
  then show ?thesis
  proof cases
    case soon
    then show ?thesis using less_le_trans [OF soon(3) floor] by (simp only: less_imp_le) simp
  next
    case posted
    then show ?thesis by simp
  next
    case post
    then show ?thesis by (simp add: emit_def)
  next
    case wait
    have "timer_expires_from_now (timer_async_wait t f) = t"
      using mod_minus_later [of t "tick_now f"] wait(2) small
      by (simp add: timer_async_wait_def timer_expires_from_now_def tick_now_def)
    then show ?thesis using wait(1) le wait_timer [of t f] by (simp only:) simp
  next
    case keep
    then show ?thesis using order_trans [OF keep(3) le] by (simp only:) simp
  qed
qed

lemma example_fields:
  "m_state example_flow = INIT" "m_t_last_on_clock example_flow = tick_now example_flow"
  "m_ping_interval example_flow = DEFAULT_TIMEOUT"
  by (simp_all add: example_flow_def create_for_active_connect_def construct_flow_def
      init_flow_def draw_def tick_now_def case_prod_unfold Let_def)

theorem flow_never_sleeps_witness:
  "b_timer_posted (reschedule (tick_now example_flow) example_flow)
    \<or> (m_timer (reschedule (tick_now example_flow) example_flow) \<noteq> Timer_idle
       \<and> timer_expires_from_now (reschedule (tick_now example_flow) example_flow)
           \<le> max (m_ping_interval example_flow) DEFAULT_TIMEOUT)"
proof (rule flow_never_sleeps)
  show "flow_reach example_flow"
    unfolding example_flow_def by (rule flow_reach.Start [OF flow_start.intros(1)])
qed (simp_all add: example_fields DEFAULT_TIMEOUT_def mod_minus_def wrappable_minus_def)

end
