(* ===== verification/Urdp_Stream.thy ===== *)
theory Urdp_Stream
  imports Urdp_Receive
begin

text \<open>The sending side of the URDP flow as a byte stream: the two segment queues hold, in
  order and without gaps, the bytes that were queued and are not acknowledged. Queueing
  appends to the stream, sending moves segments between the queues, an acknowledgment drops
  a prefix.\<close>

section \<open>Offsets from a base\<close>

lemma offset_window: "i < 2 ^ 31 \<Longrightarrow> (b :: u32) + of_nat i \<in> half_window b"
  by (simp add: half_window_def unsigned_of_nat take_bit_nat_eq_self)

lemma offset_less:
  assumes "i < 2 ^ 31" and "j < 2 ^ 31"
  shows "mod_less ((b :: u32) + of_nat i) (b + of_nat j) \<longleftrightarrow> i < j"
  using less_iff_dist_less [OF offset_window [OF assms(1)] offset_window [OF assms(2), of b]] assms
  by (simp add: mod_less_def unsigned_of_nat take_bit_nat_eq_self)

lemma offset_less_equal:
  assumes "i < 2 ^ 31" and "j < 2 ^ 31"
  shows "mod_less_equal ((b :: u32) + of_nat i) (b + of_nat j) \<longleftrightarrow> i \<le> j"
  using offset_less [OF assms(2,1), of b]
  by (simp add: mod_less_def mod_less_equal_def wrappable_less_equal_def linorder_not_less)

section \<open>The stream of a segment list\<close>

definition seg_bytes :: "s_segment list \<Rightarrow> bytes" where
  "seg_bytes sl = concat (map ss_buf sl)"

definition seg_total :: "s_segment list \<Rightarrow> nat" where
  "seg_total sl = length (seg_bytes sl)"

text \<open>The segments are not empty, not longer than an MSS, and numbered without gaps.\<close>

fun chained :: "u32 \<Rightarrow> s_segment list \<Rightarrow> bool" where
  "chained n [] \<longleftrightarrow> True"
| "chained n (s # ss) \<longleftrightarrow> ss_seq s = n \<and> ss_buf s \<noteq> [] \<and> length (ss_buf s) \<le> mss
     \<and> chained (n + of_nat (length (ss_buf s))) ss"

definition send_stream :: "urdp_flow \<Rightarrow> bytes" where
  "send_stream f = seg_bytes (m_retrans_slist f @ m_slist f)"

definition unsent :: "s_segment \<Rightarrow> bool" where
  "unsent s \<longleftrightarrow> ss_xmit s = 0"

definition sent :: "s_segment \<Rightarrow> bool" where
  "sent s \<longleftrightarrow> 0 < sint (ss_xmit s)"

definition send_inv :: "urdp_flow \<Rightarrow> bool" where
  "send_inv f \<longleftrightarrow> chained (m_snd_una f) (m_retrans_slist f @ m_slist f)
     \<and> m_slen f = of_nat (seg_total (m_retrans_slist f @ m_slist f))
     \<and> m_snd_nxt f = m_snd_una f + of_nat (seg_total (m_retrans_slist f))
     \<and> (\<forall>s \<in> set (m_slist f). unsent s) \<and> (\<forall>s \<in> set (m_retrans_slist f). sent s)"

lemma seg_bytes_simps [simp]:
  "seg_bytes [] = []" "seg_bytes (s # sl) = ss_buf s @ seg_bytes sl"
  "seg_bytes (sl @ rl) = seg_bytes sl @ seg_bytes rl"
  by (simp_all add: seg_bytes_def)

lemma seg_total_simps [simp]:
  "seg_total [] = 0" "seg_total (s # sl) = length (ss_buf s) + seg_total sl"
  "seg_total (sl @ rl) = seg_total sl + seg_total rl"
  by (simp_all add: seg_total_def)

lemma chained_append [simp]:
  "chained n (xs @ ys) \<longleftrightarrow> chained n xs \<and> chained (n + of_nat (seg_total xs)) ys"
  by (induction xs arbitrary: n) (auto simp: add.assoc)

lemma send_inv_parts:
  assumes "send_inv f"
  shows "chained (m_snd_una f) (m_retrans_slist f)" "chained (m_snd_nxt f) (m_slist f)"
    and "m_slen f = of_nat (seg_total (m_retrans_slist f)) + of_nat (seg_total (m_slist f))"
    and "m_snd_nxt f = m_snd_una f + of_nat (seg_total (m_retrans_slist f))"
    and "\<And>s. s \<in> set (m_slist f) \<Longrightarrow> unsent s" "\<And>s. s \<in> set (m_retrans_slist f) \<Longrightarrow> sent s"
  using assms by (auto simp: send_inv_def)

section \<open>Queueing\<close>

lemma extend_last_snoc:
  "extend_last bs (sl @ [s]) = sl @ [s\<lparr>ss_buf := ss_buf s @ bs\<rparr>]"
  by (simp add: extend_last_def)

lemma queue_loop_Nil: "queue_loop una c r [] sl slen = (sl, slen)"
  by (subst queue_loop.simps) simp

lemma queue_loop_extend:
  assumes "data \<noteq> []" and "segment_extends c sl" and "n = min (mss - length (ss_buf (last sl))) (length data)"
  shows "queue_loop una c r data sl slen =
    queue_loop una c r (drop n data) (extend_last (take n data) sl) (slen + of_nat n)"
  using assms(1,2) unfolding assms(3) by (subst queue_loop.simps) (simp add: Let_def)

lemma queue_loop_new:
  assumes "data \<noteq> []" and "\<not> segment_extends c sl" and "n = min mss (length data)"
  shows "queue_loop una c r data sl slen =
    queue_loop una c r (drop n data)
      (sl @ [\<lparr>ss_buf = take n data, ss_seq = una + slen, ss_xmit = 0, ss_ctrl = c,
              ss_reserved = segment_room n (length data) r\<rparr>]) (slen + of_nat n)"
  using assms(1,2) unfolding assms(3) by (subst queue_loop.simps) (simp add: Let_def)

definition queue_ok :: "u32 \<Rightarrow> s_segment list \<Rightarrow> s_segment list \<Rightarrow> u32 \<Rightarrow> bool" where
  "queue_ok una rt sl slen \<longleftrightarrow> chained una (rt @ sl) \<and> slen = of_nat (seg_total (rt @ sl))
     \<and> (\<forall>s \<in> set sl. unsent s)"

lemma queue_ok_extend:
  assumes "queue_ok una rt sl slen" and "segment_extends c sl"
    and "n = min (mss - length (ss_buf (last sl))) (length data)"
  shows "queue_ok una rt (extend_last (take n data) sl) (slen + of_nat n)"
    and "seg_bytes (extend_last (take n data) sl) = seg_bytes sl @ take n data"
proof -
  obtain front s where sl: "sl = front @ [s]"
    using assms(2) by (cases sl rule: rev_cases) (auto simp: segment_extends_def)
  have "length (ss_buf s) < mss" and "n \<le> mss - length (ss_buf s)"
    using assms(2,3) by (simp_all add: segment_extends_def sl)
  then have "length (ss_buf s) + n \<le> mss" by linarith
  moreover have "length (take n data) = n" using assms(3) by simp
  ultimately show "queue_ok una rt (extend_last (take n data) sl) (slen + of_nat n)"
    using assms(1) by (simp add: queue_ok_def sl extend_last_snoc unsent_def)
  show "seg_bytes (extend_last (take n data) sl) = seg_bytes sl @ take n data"
    by (simp add: sl extend_last_snoc)
qed

lemma queue_ok_new:
  assumes "queue_ok una rt sl slen" and "data \<noteq> []" and "n = min mss (length data)"
    and "ss_buf seg = take n data" "ss_seq seg = una + slen" "ss_xmit seg = 0"
  shows "queue_ok una rt (sl @ [seg]) (slen + of_nat n)"
    and "seg_bytes (sl @ [seg]) = seg_bytes sl @ take n data"
proof -
  have "length (take n data) = n" "0 < n" "n \<le> mss"
    using assms(2,3) by (auto simp: MTU_SIZE_def)
  then show "queue_ok una rt (sl @ [seg]) (slen + of_nat n)"
    using assms(1,2,4-6) by (auto simp: queue_ok_def unsent_def add.assoc)
  show "seg_bytes (sl @ [seg]) = seg_bytes sl @ take n data"
    using assms(4) by simp
qed

lemma queue_loop_spec:
  assumes "queue_ok una rt sl slen"
  shows "queue_ok una rt (fst (queue_loop una c r data sl slen)) (snd (queue_loop una c r data sl slen))
    \<and> seg_bytes (fst (queue_loop una c r data sl slen)) = seg_bytes sl @ data"
  using assms
proof (induction "length data" arbitrary: data sl slen rule: less_induct)
  case less
  consider "data = []" | "data \<noteq> []" "segment_extends c sl" | "data \<noteq> []" "\<not> segment_extends c sl"
    by blast
  then show ?case
  proof cases
    case 1
    then show ?thesis using less.prems by (simp add: queue_loop_Nil)
  next
    case 2
    define n where "n = min (mss - length (ss_buf (last sl))) (length data)"
    have "length (drop n data) < length data"
      using 2 by (simp add: n_def segment_extends_def)
    from less.hyps [OF this queue_ok_extend(1) [OF less.prems 2(2) n_def]]
    show ?thesis
      by (simp add: queue_loop_extend [OF 2 n_def] queue_ok_extend(2) [OF less.prems 2(2) n_def])
  next
    case 3
    define n where "n = min mss (length data)"
    define seg where "seg = \<lparr>ss_buf = take n data, ss_seq = una + slen, ss_xmit = 0, ss_ctrl = c,
        ss_reserved = segment_room n (length data) r\<rparr>"
    have seg: "ss_buf seg = take n data" "ss_seq seg = una + slen" "ss_xmit seg = 0"
      by (simp_all add: seg_def)
    have "length (drop n data) < length data"
      using 3 by (simp add: n_def MTU_SIZE_def)
    from less.hyps [OF this queue_ok_new(1) [OF less.prems 3(1) n_def seg]]
    show ?thesis
      using queue_ok_new(2) [OF less.prems 3(1) n_def seg]
      by (simp add: queue_loop_new [OF 3 n_def] flip: seg_def)
  qed
qed

lemma queue_fields [simp]:
  "m_retrans_slist (queue data c r f) = m_retrans_slist f"
  "m_snd_una (queue data c r f) = m_snd_una f" "m_snd_nxt (queue data c r f) = m_snd_nxt f"
  "m_token (queue data c r f) = m_token f" "m_state (queue data c r f) = m_state f"
  "m_t_lastrecv (queue data c r f) = m_t_lastrecv f" "m_socket (queue data c r f) = m_socket f"
  by (simp_all add: queue_def case_prod_unfold Let_def)

lemma queue_stream:
  assumes "send_inv f"
  shows "send_inv (queue data c r f)"
    and "send_stream (queue data c r f) = send_stream f @ data"
proof -
  let ?q = "queue_loop (m_snd_una f) c r data (m_slist f) (m_slen f)"
  have f': "queue data c r f = f\<lparr>m_slist := fst ?q, m_slen := snd ?q\<rparr>"
    by (simp add: queue_def case_prod_unfold Let_def)
  have "queue_ok (m_snd_una f) (m_retrans_slist f) (m_slist f) (m_slen f)"
    using assms by (simp add: send_inv_def queue_ok_def)
  note spec = queue_loop_spec [OF this, of c r data]
  show "send_inv (queue data c r f)"
    using assms spec by (simp add: f' send_inv_def queue_ok_def)
  show "send_stream (queue data c r f) = send_stream f @ data"
    using spec by (simp add: f' send_stream_def)
qed

section \<open>Sending\<close>

lemma layer_send_fields [simp]:
  "m_retrans_slist (layer_async_send_to b e f) = m_retrans_slist f"
  "m_snd_una (layer_async_send_to b e f) = m_snd_una f"
  "m_snd_nxt (layer_async_send_to b e f) = m_snd_nxt f"
  "m_slen (layer_async_send_to b e f) = m_slen f"
  "m_token (layer_async_send_to b e f) = m_token f"
  "m_state (layer_async_send_to b e f) = m_state f"
  "m_rcv_nxt (layer_async_send_to b e f) = m_rcv_nxt f"
  "m_rlist (layer_async_send_to b e f) = m_rlist f"
  "m_rlen (layer_async_send_to b e f) = m_rlen f"
  "m_t_lastrecv (layer_async_send_to b e f) = m_t_lastrecv f"
  "m_socket (layer_async_send_to b e f) = m_socket f"
  "m_t_rto_base (layer_async_send_to b e f) = m_t_rto_base f"
  by (simp_all add: layer_async_send_to_def emit_def Let_def)

lemma packet_reliable_fields [simp]:
  "m_retrans_slist (packet_as_reliable_and_sendout q c d now f) = m_retrans_slist f"
  "m_snd_una (packet_as_reliable_and_sendout q c d now f) = m_snd_una f"
  "m_snd_nxt (packet_as_reliable_and_sendout q c d now f) = m_snd_nxt f"
  "m_slen (packet_as_reliable_and_sendout q c d now f) = m_slen f"
  "m_token (packet_as_reliable_and_sendout q c d now f) = m_token f"
  "m_state (packet_as_reliable_and_sendout q c d now f) = m_state f"
  "m_rcv_nxt (packet_as_reliable_and_sendout q c d now f) = m_rcv_nxt f"
  "m_rlist (packet_as_reliable_and_sendout q c d now f) = m_rlist f"
  "m_rlen (packet_as_reliable_and_sendout q c d now f) = m_rlen f"
  "m_t_lastrecv (packet_as_reliable_and_sendout q c d now f) = m_t_lastrecv f"
  "m_socket (packet_as_reliable_and_sendout q c d now f) = m_socket f"
  "m_t_rto_base (packet_as_reliable_and_sendout q c d now f) = m_t_rto_base f"
  by (simp_all add: packet_as_reliable_and_sendout_def fault_def Let_def)

lemma transmit_fields [simp]:
  "m_retrans_slist (snd (snd (transmit seg now f))) = m_retrans_slist f"
  "m_snd_una (snd (snd (transmit seg now f))) = m_snd_una f"
  "m_slen (snd (snd (transmit seg now f))) = m_slen f"
  "m_token (snd (snd (transmit seg now f))) = m_token f"
  "m_state (snd (snd (transmit seg now f))) = m_state f"
  "m_rcv_nxt (snd (snd (transmit seg now f))) = m_rcv_nxt f"
  "m_rlist (snd (snd (transmit seg now f))) = m_rlist f"
  "m_rlen (snd (snd (transmit seg now f))) = m_rlen f"
  "m_t_lastrecv (snd (snd (transmit seg now f))) = m_t_lastrecv f"
  "m_socket (snd (snd (transmit seg now f))) = m_socket f"
  by (simp_all add: transmit_def Let_def)

lemma transmit_unsent:
  assumes "unsent seg"
  shows "fst (transmit seg now f)" "fst (snd (transmit seg now f)) = seg\<lparr>ss_xmit := 1\<rparr>"
    and "m_snd_nxt (snd (snd (transmit seg now f))) = m_snd_nxt f + of_nat (length (ss_buf seg))"
  using assms by (simp_all add: transmit_def unsent_def Let_def)

lemma transmit_sent:
  assumes "sent seg"
  shows "m_snd_nxt (snd (snd (transmit seg now f))) = m_snd_nxt f"
    and "sint (ss_xmit seg) < 127 \<Longrightarrow> sent (fst (snd (transmit seg now f)))"
    and "ss_seq (fst (snd (transmit seg now f))) = ss_seq seg"
    and "ss_buf (fst (snd (transmit seg now f))) = ss_buf seg"
proof -
  have "ss_xmit seg \<noteq> 0" using assms by (auto simp: sent_def)
  then show "m_snd_nxt (snd (snd (transmit seg now f))) = m_snd_nxt f"
    by (simp add: transmit_def Let_def)
  show "ss_seq (fst (snd (transmit seg now f))) = ss_seq seg"
    "ss_buf (fst (snd (transmit seg now f))) = ss_buf seg"
    by (simp_all add: transmit_def Let_def)
  assume "sint (ss_xmit seg) < 127"
  then have "sint (ss_xmit seg + 1) = sint (ss_xmit seg) + 1"
    using assms signed_take_bit_int_eq_self [of 7 "sint (ss_xmit seg) + 1"]
    by (simp add: sint_word_ariths sent_def)
  then show "sent (fst (snd (transmit seg now f)))"
    using assms by (simp add: transmit_def Let_def sent_def)
qed

lemma move_front_fields [simp]:
  "m_snd_una (move_front now seg rest f) = m_snd_una f"
  "m_slen (move_front now seg rest f) = m_slen f"
  "m_token (move_front now seg rest f) = m_token f"
  "m_state (move_front now seg rest f) = m_state f"
  "m_rcv_nxt (move_front now seg rest f) = m_rcv_nxt f"
  "m_rlist (move_front now seg rest f) = m_rlist f"
  "m_rlen (move_front now seg rest f) = m_rlen f"
  "m_socket (move_front now seg rest f) = m_socket f"
  by (simp_all add: move_front_def Let_def)

lemma move_front_unsent:
  assumes "unsent seg"
  shows "m_retrans_slist (move_front now seg rest f) = m_retrans_slist f @ [seg\<lparr>ss_xmit := 1\<rparr>]"
    and "m_snd_nxt (move_front now seg rest f) = m_snd_nxt f + of_nat (length (ss_buf seg))"
  using transmit_unsent [OF assms] by (simp_all add: move_front_def Let_def)

lemma one_sent: "sent (s\<lparr>ss_xmit := 1\<rparr>)"
  by (simp add: sent_def)

lemma move_front_inv:
  assumes "send_inv f" and "m_slist f = seg # rest"
  shows "send_inv (move_front now seg rest f)"
    and "send_stream (move_front now seg rest f) = send_stream f"
proof -
  have u: "unsent seg" using assms by (simp add: send_inv_def)
  show "send_inv (move_front now seg rest f)"
    using assms by (auto simp: send_inv_def move_front_unsent [OF u] one_sent add.assoc)
  show "send_stream (move_front now seg rest f) = send_stream f"
    using assms(2) by (simp add: send_stream_def move_front_unsent [OF u])
qed

text \<open>The loop empties the queue of unsent segments, whatever the windows are.\<close>

lemma attempt_loop_stream:
  assumes "send_inv f"
  shows "m_slist (attempt_send_loop now fl f) = []
    \<and> m_retrans_slist (attempt_send_loop now fl f)
        = m_retrans_slist f @ map (ss_xmit_update (\<lambda>_. 1)) (m_slist f)
    \<and> send_inv (attempt_send_loop now fl f)
    \<and> send_stream (attempt_send_loop now fl f) = send_stream f
    \<and> m_snd_una (attempt_send_loop now fl f) = m_snd_una f
    \<and> m_slen (attempt_send_loop now fl f) = m_slen f"
  using assms
proof (induction fl f rule: attempt_loop_induct [where now = now])
  case (1 fl f)
  then show ?case
    by (auto simp: attempt_send_loop_Nil send_inv_def send_stream_def)
next
  case (2 fl f seg rest)
  have u: "unsent seg" using "2.hyps" "2.prems" by (simp add: send_inv_def)
  note go = transmit_unsent(1) [OF u, of now f]
  show ?case
    using "2.IH" [OF go] move_front_inv [OF "2.prems" "2.hyps", of now] go
    by (simp add: attempt_send_loop_Cons [OF "2.hyps"] move_front_unsent [OF u] "2.hyps")
qed

lemma attempt_send_loop_eq:
  "\<exists>c. attempt_send fl f = attempt_send_loop (tick_now f) fl (f\<lparr>m_cwnd := c\<rparr>)"
proof (cases "mod_minus (tick_now f) (m_t_lastsend f) > m_rto f")
  case False
  then have "attempt_send fl f = attempt_send_loop (tick_now f) fl (f\<lparr>m_cwnd := m_cwnd f\<rparr>)"
    by (simp add: attempt_send_def Let_def)
  then show ?thesis by blast
qed (auto simp: attempt_send_def Let_def)

lemma send_inv_cwnd [simp]:
  "send_inv (f\<lparr>m_cwnd := c\<rparr>) = send_inv f" "send_stream (f\<lparr>m_cwnd := c\<rparr>) = send_stream f"
  by (simp_all add: send_inv_def send_stream_def)

lemma attempt_send_stream:
  assumes "send_inv f"
  shows "m_slist (attempt_send fl f) = []
    \<and> m_retrans_slist (attempt_send fl f) = m_retrans_slist f @ map (ss_xmit_update (\<lambda>_. 1)) (m_slist f)
    \<and> send_inv (attempt_send fl f) \<and> send_stream (attempt_send fl f) = send_stream f
    \<and> m_snd_una (attempt_send fl f) = m_snd_una f \<and> m_slen (attempt_send fl f) = m_slen f"
proof -
  obtain c where c: "attempt_send fl f = attempt_send_loop (tick_now f) fl (f\<lparr>m_cwnd := c\<rparr>)"
    using attempt_send_loop_eq by blast
  show ?thesis
    using attempt_loop_stream [of "f\<lparr>m_cwnd := c\<rparr>" "tick_now f" fl] assms
    unfolding c by simp
qed

lemma packet_outs:
  assumes "m_token f \<noteq> None" and "d \<noteq> []"
  shows "length (f_outs (packet_as_reliable_and_sendout q c d now f)) = Suc (length (f_outs f))"
    and "m_t_ack (packet_as_reliable_and_sendout q c d now f) = 0"
  using assms
  by (auto simp: packet_as_reliable_and_sendout_def layer_async_send_to_def emit_def Let_def
      zero_8_bytes_def reliable_packet_def)

lemma loop_packets:
  assumes "send_inv f" and "m_token f \<noteq> None" and "m_state f = ESTABLISHED" and "m_slist f \<noteq> []"
  shows "length (f_outs (attempt_send_loop now fl f)) = length (f_outs f) + length (m_slist f)"
  using assms
proof (induction fl f rule: attempt_loop_induct [where now = now])
  case (2 fl f seg rest)
  have u: "unsent seg" using "2.hyps" "2.prems"(1) by (simp add: send_inv_def)
  note go = transmit_unsent(1) [OF u, of now f]
  have "ss_buf seg \<noteq> []" using "2.prems"(1) "2.hyps" by (simp add: send_inv_def)
  note one = packet_outs [OF "2.prems"(2) this]
  have outs: "length (f_outs (move_front now seg rest f)) = length (f_outs f) + 1"
    and ack: "m_t_ack (move_front now seg rest f) = 0"
    using "2.prems"(3) u one by (simp_all add: move_front_def transmit_def unsent_def Let_def)
  note inv = move_front_inv(1) [OF "2.prems"(1) "2.hyps", of now]
  show ?case
  proof (cases "rest = []")
    case True
    then have "attempt_send_loop now sfNone (move_front now seg rest f) = move_front now seg rest f"
      using ack by (simp add: attempt_send_loop_Nil)
    then show ?thesis
      using True outs go by (simp add: attempt_send_loop_Cons [OF "2.hyps"] "2.hyps")
  next
    case False
    then show ?thesis
      using "2.IH" [OF go inv] "2.prems" outs go
      by (simp add: attempt_send_loop_Cons [OF "2.hyps"] "2.hyps")
  qed
qed simp

lemma send_appends:
  assumes "send_inv f" and "m_socket f" and "m_state f = ESTABLISHED"
    and "send buf msg_type T_true f = (n, ec, f')"
  shows "(let l = length buf mod 65536
     in send_stream f' = send_stream f @ frame_header l msg_type @ take l buf)
    \<and> send_inv f' \<and> m_slist f' = [] \<and> m_snd_una f' = m_snd_una f"
proof -
  define l where "l = length buf mod 65536"
  have l: "unat (of_nat (length buf) :: u16) = l"
    by (simp add: l_def unsigned_of_nat take_bit_eq_mod)
  define f2 where "f2 = queue (take l buf) CTRL_DATA 0 (queue (frame_header l msg_type) CTRL_DATA (length buf) f)"
  have f2: "send_inv f2" "m_snd_una f2 = m_snd_una f" "send_stream f2 = send_stream f @ frame_header l msg_type @ take l buf"
    using queue_stream assms(1) by (simp_all add: f2_def)
  have "f' = attempt_send sfNone f2 \<or> f' = (attempt_send sfNone f2)\<lparr>m_detect_writable := True\<rparr>"
    using assms(2-4) by (auto simp: send_def l f2_def Let_def split: if_splits)
  then show ?thesis
    using attempt_send_stream [OF f2(1), of sfNone] f2(2,3)
    by (auto simp: send_inv_def send_stream_def l_def Let_def)
qed

section \<open>Acknowledgments\<close>

lemma drop_acked_prefix:
  assumes "chained una (as @ bs)" and "seg_total (as @ bs) < 2 ^ 31"
  shows "drop_acked (una + of_nat (seg_total as)) (as @ bs) = bs"
  using assms
proof (induction as arbitrary: una)
  case Nil
  show ?case
  proof (cases bs)
    case (Cons b bs')
    then show ?thesis
      using Nil by (simp add: drop_acked_def mod_minus_def wrappable_minus_def)
  qed (simp add: drop_acked_def)
next
  case (Cons a as)
  define t where "t = length (ss_buf a) + seg_total as"
  have t: "0 < t" "t < 2 ^ 31"
    using Cons.prems by (auto simp: t_def)
  have "mod_minus (una + of_nat t) (ss_seq a) = int t"
    using t Cons.prems sint_small_int [of "int t", where 'w = 32]
    by (simp add: mod_minus_def wrappable_minus_def)
  then have pos: "0 < mod_minus (una + of_nat t) (ss_seq a)" using t by simp
  have "drop_acked (una + of_nat (length (ss_buf a)) + of_nat (seg_total as)) (as @ bs) = bs"
    using Cons.prems by (intro Cons.IH) auto
  then have "drop_acked (una + of_nat t) (as @ bs) = bs"
    by (simp add: t_def add.assoc)
  then show ?case
    using pos by (simp add: drop_acked_def t_def add.assoc)
qed

lemma updata_rtt_fields [simp]:
  "m_retrans_slist (updata_rtt r f) = m_retrans_slist f" "m_slist (updata_rtt r f) = m_slist f"
  "m_snd_una (updata_rtt r f) = m_snd_una f" "m_snd_nxt (updata_rtt r f) = m_snd_nxt f"
  "m_slen (updata_rtt r f) = m_slen f" "m_t_rto_base (updata_rtt r f) = m_t_rto_base f"
  by (simp_all add: updata_rtt_def Let_def)

lemma ack_advance_fields [simp]:
  "m_retrans_slist (ack_advance ackno te w now f) = drop_acked ackno (m_retrans_slist f)"
  "m_slist (ack_advance ackno te w now f) = m_slist f"
  "m_snd_una (ack_advance ackno te w now f) = ackno"
  "m_snd_nxt (ack_advance ackno te w now f) = m_snd_nxt f"
  "m_slen (ack_advance ackno te w now f) = m_slen f - (ackno - m_snd_una f)"
  by (simp_all add: ack_advance_def Let_def mod_minus_def wrappable_minus_def)

lemma ack_advance_dups [simp]: "m_dup_acks (ack_advance ackno te w now f) = m_dup_acks f"
  by (simp add: ack_advance_def updata_rtt_def Let_def)

lemma ack_not_recovering:
  assumes "m_dup_acks f < 3" and "mod_less (m_snd_una f) ackno" and "mod_less_equal ackno (m_snd_nxt f)"
  shows "fst (process_ack ackno te w len now f) = False"
  using assms by (simp add: process_ack_def ack_congestion_def case_prod_unfold Let_def not_le)

lemma ack_advance_stream:
  assumes "send_inv f" and "m_retrans_slist f = as @ bs" and "seg_total (as @ bs) < 2 ^ 31"
    and "ackno = m_snd_una f + of_nat (seg_total as)"
  shows "send_inv (ack_advance ackno te w now f)"
    and "m_retrans_slist (ack_advance ackno te w now f) = bs"
    and "seg_bytes as @ send_stream (ack_advance ackno te w now f) = send_stream f"
proof -
  have d: "drop_acked ackno (as @ bs) = bs"
    using drop_acked_prefix [of "m_snd_una f" as bs] assms by (simp add: send_inv_def)
  show "send_inv (ack_advance ackno te w now f)"
    using assms d by (auto simp: send_inv_def algebra_simps)
  show "m_retrans_slist (ack_advance ackno te w now f) = bs"
    "seg_bytes as @ send_stream (ack_advance ackno te w now f) = send_stream f"
    using assms(2) d by (simp_all add: send_stream_def)
qed

text \<open>No segment has been sent so often that its eight bit counter is about to overflow.\<close>

definition xmit_ok :: "urdp_flow \<Rightarrow> bool" where
  "xmit_ok f \<longleftrightarrow> (\<forall>s \<in> set (m_retrans_slist f). sint (ss_xmit s) < 127)"

lemma retrans_front_stream:
  assumes "send_inv f" and "xmit_ok f"
  shows "send_inv (snd (transmit_retrans_front now f))"
    and "send_stream (snd (transmit_retrans_front now f)) = send_stream f"
    and "m_snd_una (snd (transmit_retrans_front now f)) = m_snd_una f"
proof (atomize (full), cases "m_retrans_slist f")
  case Nil
  then show "send_inv (snd (transmit_retrans_front now f))
    \<and> send_stream (snd (transmit_retrans_front now f)) = send_stream f
    \<and> m_snd_una (snd (transmit_retrans_front now f)) = m_snd_una f"
    using assms(1) by (simp add: transmit_retrans_front_def fault_def send_inv_def send_stream_def)
next
  case (Cons seg rest)
  have s: "sent seg" "sint (ss_xmit seg) < 127"
    using assms Cons by (auto simp: send_inv_def xmit_ok_def)
  note t = transmit_sent(1,3,4) [OF s(1)] transmit_sent(2) [OF s]
  show "send_inv (snd (transmit_retrans_front now f))
    \<and> send_stream (snd (transmit_retrans_front now f)) = send_stream f
    \<and> m_snd_una (snd (transmit_retrans_front now f)) = m_snd_una f"
    using assms(1) t
    by (simp add: transmit_retrans_front_def Cons case_prod_unfold Let_def send_inv_def
        send_stream_def)
qed

lemma ack_congestion_stream:
  assumes "send_inv f" and "xmit_ok f" and "\<not> fst (ack_congestion n now f)"
  shows "send_inv (snd (ack_congestion n now f))
    \<and> send_stream (snd (ack_congestion n now f)) = send_stream f
    \<and> m_snd_una (snd (ack_congestion n now f)) = m_snd_una f"
proof -
  consider "m_dup_acks f < 3" | "3 \<le> m_dup_acks f" "m_recover f \<le> m_snd_una f"
    | "3 \<le> m_dup_acks f" "\<not> m_recover f \<le> m_snd_una f"
    by fastforce
  then show ?thesis
  proof cases
    case 3
    then show ?thesis
      using assms(3) retrans_front_stream [OF assms(1,2), of now]
      by (auto simp: ack_congestion_def case_prod_unfold Let_def send_inv_def send_stream_def
          split: if_splits)
  qed (use assms in \<open>auto simp: ack_congestion_def Let_def send_inv_def send_stream_def\<close>)
qed

lemma ack_accept_stream [simp]:
  "send_inv (snd (ack_accept f)) = send_inv f" "send_stream (snd (ack_accept f)) = send_stream f"
  "m_snd_una (snd (ack_accept f)) = m_snd_una f"
  by (simp_all add: ack_accept_def send_inv_def send_stream_def)

lemma ack_in_window:
  assumes "send_inv f" and "m_retrans_slist f = as @ bs" and "as \<noteq> []"
    and "seg_total (as @ bs) < 2 ^ 31" and "ackno = m_snd_una f + of_nat (seg_total as)"
  shows "mod_less (m_snd_una f) ackno" and "mod_less_equal ackno (m_snd_nxt f)"
proof -
  have "0 < seg_total as" using assms(1-3) by (cases as) (auto simp: send_inv_def)
  then show "mod_less (m_snd_una f) ackno"
    using offset_less [of 0 "seg_total as" "m_snd_una f"] assms(4,5) by simp
  show "mod_less_equal ackno (m_snd_nxt f)"
    using offset_less_equal [of "seg_total as" "seg_total (as @ bs)" "m_snd_una f"] assms
    by (simp add: send_inv_def)
qed

lemma process_ack_stream:
  assumes "send_inv f" and "xmit_ok f" and "m_retrans_slist f = as @ bs" and "as \<noteq> []"
    and "seg_total (as @ bs) < 2 ^ 31" and "ackno = m_snd_una f + of_nat (seg_total as)"
    and "process_ack ackno te w len now f = (False, acc, f')"
  shows "send_inv f' \<and> m_snd_una f' = ackno \<and> seg_bytes as @ send_stream f' = send_stream f"
proof -
  let ?g = "ack_advance ackno te w now f"
  let ?c = "ack_congestion (ackno - m_snd_una f) now ?g"
  have ok: "xmit_ok ?g"
    using assms(2,3) ack_advance_stream(2) [OF assms(1,3,5,6), of te w now]
    by (simp add: xmit_ok_def)
  note adv = ack_advance_stream(1,3) [OF assms(1,3,5,6), of te w now]
  have "\<not> fst ?c \<and> f' = snd (ack_accept (snd ?c))"
    using assms(7) ack_in_window [OF assms(1,3-6)]
    by (auto simp: process_ack_def case_prod_unfold Let_def mod_minus_def wrappable_minus_def
        split: if_splits)
  then show ?thesis
    using ack_congestion_stream [OF adv(1) ok] adv(2) by simp
qed

section \<open>Properties\<close>

definition linked_flow :: urdp_flow where
  "linked_flow = blank_flow\<lparr>m_state := ESTABLISHED, m_token := Some 1, m_socket := True\<rparr>"

lemma linked_flow_fields [simp]:
  "send_inv linked_flow" "m_token linked_flow = Some 1" "m_state linked_flow = ESTABLISHED"
  "m_socket linked_flow" "send_stream linked_flow = []" "m_slist linked_flow = []"
  "m_snd_wnd linked_flow = 0" "m_retrans_slist linked_flow = []" "m_snd_una linked_flow = 0"
  "m_slen linked_flow = 0" "f_outs linked_flow = []"
  by (simp_all add: linked_flow_def blank_flow_def send_inv_def send_stream_def)

lemma queue_small:
  assumes "bs \<noteq> []" and "length bs \<le> mss" and "m_slist f = []"
  shows "m_slist (queue bs c r f) = [\<lparr>ss_buf = bs, ss_seq = m_snd_una f + m_slen f, ss_xmit = 0,
    ss_ctrl = c, ss_reserved = segment_room (length bs) (length bs) r\<rparr>]"
    and "f_outs (queue bs c r f) = f_outs f" and "m_snd_wnd (queue bs c r f) = m_snd_wnd f"
  using assms queue_loop_new [of bs c "[]" "length bs" "m_snd_una f" r "m_slen f"]
  by (simp_all add: queue_def queue_loop_Nil segment_extends_def case_prod_unfold Let_def)

text \<open>One call of the send loop transmits every queued segment, whatever the peer's window
  and the congestion window are, even when the peer has closed its window: the queue is empty
  afterwards, one packet was given to the layer for each segment, and the right edge of what is
  sent is the end of the stream. The windows computed in the loop only decide about a pure
  acknowledgment.\<close>
lemma send_ignores_windows:
  assumes "send_inv f" and "m_token f \<noteq> None" and "m_state f = ESTABLISHED" and "m_slist f \<noteq> []"
  shows "m_slist (attempt_send fl f) = []
    \<and> length (f_outs (attempt_send fl f)) = length (f_outs f) + length (m_slist f)
    \<and> m_snd_nxt (attempt_send fl f) = m_snd_una f + m_slen f"
proof -
  obtain c where c: "attempt_send fl f = attempt_send_loop (tick_now f) fl (f\<lparr>m_cwnd := c\<rparr>)"
    using attempt_send_loop_eq by blast
  have "length (f_outs (attempt_send fl f)) = length (f_outs f) + length (m_slist f)"
    using loop_packets [of "f\<lparr>m_cwnd := c\<rparr>" "tick_now f" fl] assms unfolding c by simp
  moreover have "m_snd_nxt (attempt_send fl f) = m_snd_una f + m_slen f"
    using attempt_send_stream [OF assms(1), of fl] send_inv_parts(3,4) [of "attempt_send fl f"]
    by simp
  ultimately show ?thesis
    using attempt_send_stream [OF assms(1), of fl] by blast
qed

text \<open>Sending a message over a connected flow appends its frame to the outgoing byte
  stream, the length in 16 bits, the type and the payload, and hands the whole stream over for
  transmission in segments that stay in order, contiguous and within an MSS. A payload longer
  than 65535 bytes is cut to its length modulo 65536.\<close>
lemma reliable_send_appends_frame:
  assumes "send_inv f" and "m_socket f" and "m_state f = ESTABLISHED"
    and "send buf msg_type T_true f = (n, ec, f')"
  shows "(let l = length buf mod 65536
     in send_stream f' = send_stream f @ frame_header l msg_type @ take l buf)
    \<and> send_inv f' \<and> m_slist f' = []"
  using send_appends [OF assms] by blast

text \<open>An acknowledgment that ends at a segment boundary removes exactly the acknowledged
  bytes from the front of the stream and moves the left edge there; what is left is still in
  order, contiguous and counted, also when the handler retransmits during recovery. The other
  outcome is that the retransmission limit is reached and the flow is disconnected.\<close>
lemma ack_drops_acknowledged_prefix:
  assumes "send_inv f" and "xmit_ok f" and "m_retrans_slist f = as @ bs" and "as \<noteq> []"
    and "seg_total (as @ bs) < 2 ^ 31" and "ackno = m_snd_una f + of_nat (seg_total as)"
    and "process_ack ackno te w len now f = (False, acc, f')"
  shows "send_inv f' \<and> m_snd_una f' = ackno \<and> seg_bytes as @ send_stream f' = send_stream f"
  by (rule process_ack_stream [OF assms])

definition waiting_flow :: urdp_flow where
  "waiting_flow = linked_flow\<lparr>m_snd_nxt := 3, m_slen := 3, m_retrans_slist :=
     [\<lparr>ss_buf = [1, 2, 3], ss_seq = 0, ss_xmit = 1, ss_ctrl = CTRL_DATA, ss_reserved = 3\<rparr>]\<rparr>"

lemma waiting_flow_fields [simp]:
  "m_snd_una waiting_flow = 0" "m_snd_nxt waiting_flow = 3" "m_dup_acks waiting_flow = 0"
  "m_slen waiting_flow = 3" "m_slist waiting_flow = []"
  "m_retrans_slist waiting_flow =
     [\<lparr>ss_buf = [1, 2, 3], ss_seq = 0, ss_xmit = 1, ss_ctrl = CTRL_DATA, ss_reserved = 3\<rparr>]"
  by (simp_all add: waiting_flow_def linked_flow_def blank_flow_def)

lemma waiting_flow_inv: "send_inv waiting_flow" "xmit_ok waiting_flow"
  by (simp_all add: send_inv_def xmit_ok_def sent_def MTU_SIZE_def)

end
