(* ===== verification/Urdp_Reassembly.thy ===== *)
theory Urdp_Reassembly
  imports Urdp_Stream
begin

text \<open>The receiving side of the URDP flow as a byte stream. A stream cut in segments is
  delivered segment by segment, in any order and with repetitions; the segment list keeps them
  in stream order and \<open>m_rcv_nxt\<close> stands at the first gap. Then the messages framed in the
  stream come out of \<open>__recv\<close> one by one, however the stream was cut.\<close>

section \<open>A stream in segments\<close>

definition off :: "bytes list \<Rightarrow> nat \<Rightarrow> nat" where
  "off segs i = length (concat (take i segs))"

definition rseg :: "u32 \<Rightarrow> bytes list \<Rightarrow> nat \<Rightarrow> r_segment" where
  "rseg b segs i = \<lparr>rs_buf = segs ! i, rs_seq = b + of_nat (off segs i)\<rparr>"

text \<open>The stream fits in the receive buffer and its sequence numbers do not run over the end
  of 32 bits.\<close>

definition cut_ok :: "u32 \<Rightarrow> bytes list \<Rightarrow> bool" where
  "cut_ok b segs \<longleftrightarrow> [] \<notin> set segs \<and> length (concat segs) < RECV_BUF_SIZE
     \<and> unat b + length (concat segs) < 2 ^ 32"

lemma off_0 [simp]: "off segs 0 = 0"
  by (simp add: off_def)

lemma off_Suc: "i < length segs \<Longrightarrow> off segs (Suc i) = off segs i + length (segs ! i)"
  by (simp add: off_def take_Suc_conv_app_nth)

lemma off_length [simp]: "off segs (length segs) = length (concat segs)"
  by (simp add: off_def)

lemma off_mono: "i \<le> j \<Longrightarrow> off segs i \<le> off segs j"
proof (induction j)
  case (Suc j)
  have "off segs j \<le> off segs (Suc j)"
    using off_Suc [of j segs] by (cases "j < length segs") (auto simp: off_def)
  then show ?case using Suc by (auto simp: le_Suc_eq)
qed simp

lemma off_strict:
  assumes "cut_ok b segs" and "i < j" and "j \<le> length segs"
  shows "off segs i < off segs j"
proof -
  have "segs ! i \<noteq> []" using assms by (metis cut_ok_def nth_mem order_less_le_trans)
  then have "off segs i < off segs (Suc i)"
    using assms by (simp add: off_Suc)
  then show ?thesis using off_mono [of "Suc i" j segs] assms(2) by simp
qed

lemma off_less_iff:
  "cut_ok b segs \<Longrightarrow> i \<le> length segs \<Longrightarrow> j \<le> length segs \<Longrightarrow> off segs i < off segs j \<longleftrightarrow> i < j"
  using off_strict [of b segs i j] off_mono [of j i segs] by (meson leD leI)

lemma off_bound:
  assumes "cut_ok b segs" and "i \<le> length segs"
  shows "off segs i < 2 ^ 31" and "unat b + off segs i < 2 ^ 32" and "off segs i < RECV_BUF_SIZE"
  using assms off_mono [OF assms(2), of segs] by (auto simp: cut_ok_def RECV_BUF_SIZE_def)

lemma seq_less:
  assumes "cut_ok b segs" and "i \<le> length segs" and "j \<le> length segs"
  shows "mod_less (b + of_nat (off segs i)) (b + of_nat (off segs j)) \<longleftrightarrow> i < j"
    and "mod_less_equal (b + of_nat (off segs i)) (b + of_nat (off segs j)) \<longleftrightarrow> i \<le> j"
    and "b + of_nat (off segs i) < b + of_nat (off segs j) \<longleftrightarrow> i < j"
    and "b + of_nat (off segs i) = b + of_nat (off segs j) \<longleftrightarrow> i = j"
proof -
  note b = off_bound [OF assms(1,2)] off_bound [OF assms(1,3)]
  note less = off_less_iff [OF assms] off_less_iff [OF assms(1,3,2)]
  show "mod_less (b + of_nat (off segs i)) (b + of_nat (off segs j)) \<longleftrightarrow> i < j"
    using offset_less b less by simp
  show "mod_less_equal (b + of_nat (off segs i)) (b + of_nat (off segs j)) \<longleftrightarrow> i \<le> j"
    using offset_less_equal b less by (metis linorder_not_less)
  have u: "unat (b + of_nat n) = unat b + n" if "unat b + n < 2 ^ 32" for n
    using that by (simp add: unat_word_ariths unsigned_of_nat take_bit_nat_eq_self)
  show "b + of_nat (off segs i) < b + of_nat (off segs j) \<longleftrightarrow> i < j"
    using b less by (simp add: word_less_nat_alt u)
  show "b + of_nat (off segs i) = b + of_nat (off segs j) \<longleftrightarrow> i = j"
    using b less by (metis add_left_cancel nat_neq_iff u)
qed

lemma rseg_less:
  "cut_ok b segs \<Longrightarrow> i \<le> length segs \<Longrightarrow> j \<le> length segs \<Longrightarrow>
     rs_less (rseg b segs i) (rseg b segs j) \<longleftrightarrow> i < j"
  by (simp add: rs_less_def rseg_def seq_less)

section \<open>The segment list\<close>

interpretation index_order: carrier_order "(<) :: nat \<Rightarrow> nat \<Rightarrow> bool" UNIV
  by unfold_locales auto

lemma index_mem: "oset_mem (<) i xs \<longleftrightarrow> i \<in> set (xs :: nat list)"
  by (force simp: oset_mem_def)

lemma index_insert:
  assumes "sorted_wrt (<) (xs :: nat list)"
  shows "sorted_wrt (<) (oset_insert (<) i xs)" and "set (oset_insert (<) i xs) = insert i (set xs)"
  using index_order.oset_insert_sorted [OF assms] index_order.oset_insert_member [OF assms, of i]
  by (auto simp: index_mem)

lemma rseg_insert:
  assumes "cut_ok b segs" and "i < length segs" and "set xs \<subseteq> {..<length segs}"
  shows "oset_insert rs_less (rseg b segs i) (map (rseg b segs) xs) = map (rseg b segs) (oset_insert (<) i xs)"
  using assms by (induction xs) (auto simp: rseg_less)

text \<open>The first index not in the list, from \<open>k\<close> on.\<close>

fun advance :: "nat \<Rightarrow> nat list \<Rightarrow> nat" where
  "advance k [] = k"
| "advance k (x # xs) = (if x \<le> k then advance (if x = k then Suc k else k) xs else k)"

lemma advance_ge: "k \<le> advance k xs"
  by (induction k xs rule: advance.induct) (auto split: if_splits)

lemma advance_covers: "{k..<advance k xs} \<subseteq> set xs"
proof (induction k xs rule: advance.induct)
  case (2 k x xs)
  show ?case
  proof (cases "x = k")
    case True
    then have "{k..<advance k (x # xs)} \<subseteq> insert k {Suc k..<advance (Suc k) xs}" by auto
    then show ?thesis using 2 True by auto
  next
    case False
    then show ?thesis using 2 by auto
  qed
qed simp

lemma advance_gap: "sorted_wrt (<) xs \<Longrightarrow> advance k xs \<notin> set xs"
proof (induction k xs rule: advance.induct)
  case (2 k x xs)
  then show ?case
    using advance_ge [of "if x = k then Suc k else k" xs] by (auto split: if_splits)
qed simp

definition first_gap :: "nat set \<Rightarrow> nat" where
  "first_gap R = (LEAST k. k \<notin> R)"

lemma first_gapI: "k \<notin> R \<Longrightarrow> {..<k} \<subseteq> R \<Longrightarrow> first_gap R = k"
  unfolding first_gap_def by (intro Least_equality) (auto simp: not_less [symmetric])

lemma first_gap:
  assumes "finite R"
  shows "first_gap R \<notin> R" and "i < first_gap R \<Longrightarrow> i \<in> R"
proof -
  obtain k where "k \<notin> R" using assms infinite_UNIV_nat by (metis ex_new_if_finite)
  then show "first_gap R \<notin> R" unfolding first_gap_def by (rule LeastI)
  show "i \<in> R" if "i < first_gap R" using not_less_Least [of i "\<lambda>k. k \<notin> R"] that
    by (auto simp: first_gap_def)
qed

lemma advance_first_gap:
  assumes "sorted_wrt (<) xs" and "{..<k} \<subseteq> set xs"
  shows "advance k xs = first_gap (set xs)"
proof (rule first_gapI [symmetric])
  show "advance k xs \<notin> set xs" using advance_gap [OF assms(1)] .
  show "{..<advance k xs} \<subseteq> set xs"
    using advance_covers [of k xs] assms(2) by (force simp: not_less [symmetric])
qed

lemma advance_le: "set xs \<subseteq> {..<n} \<Longrightarrow> k \<le> n \<Longrightarrow> advance k xs \<le> n"
  by (induction k xs rule: advance.induct) auto

lemma absorb_step:
  assumes "rs_seq seg = q" and "rs_seq seg + of_nat (length (rs_buf seg)) = e"
  shows "absorb rlen nxt new (seg # rest) =
    (if mod_less_equal q nxt
     then if mod_less nxt e then absorb (rlen + (e - nxt)) e True rest else absorb rlen nxt new rest
     else (new, rlen, nxt))"
  using assms by (simp add: mod_minus_def wrappable_minus_def Let_def)

lemma absorb_rsegs:
  assumes "cut_ok b segs" and "set xs \<subseteq> {..<length segs}" and "k \<le> length segs"
  shows "absorb rlen (b + of_nat (off segs k)) new (map (rseg b segs) xs) =
    (new \<or> k < advance k xs, rlen + (of_nat (off segs (advance k xs)) - of_nat (off segs k)),
     b + of_nat (off segs (advance k xs)))"
  using assms(2,3)
proof (induction xs arbitrary: k rlen new)
  case (Cons x xs)
  have x: "x < length segs" using Cons.prems by simp
  note seqs = seq_less(1) [OF assms(1), of k "Suc x"] seq_less(2) [OF assms(1), of x k]
  have step: "absorb rlen (b + of_nat (off segs k)) new (map (rseg b segs) (x # xs)) =
    (if x \<le> k
     then if k < Suc x
       then absorb (rlen + (b + of_nat (off segs (Suc x)) - (b + of_nat (off segs k))))
              (b + of_nat (off segs (Suc x))) True (map (rseg b segs) xs)
       else absorb rlen (b + of_nat (off segs k)) new (map (rseg b segs) xs)
     else (new, rlen, b + of_nat (off segs k)))"
  proof -
    have "rs_seq (rseg b segs x) = b + of_nat (off segs x)"
      "rs_seq (rseg b segs x) + of_nat (length (rs_buf (rseg b segs x))) = b + of_nat (off segs (Suc x))"
      using x by (simp_all add: rseg_def off_Suc)
    then show ?thesis
      using seqs x Cons.prems(2) by (simp only: list.map absorb_step if_True if_False)
  qed
  consider "k < x" | "x = k" | "x < k" by linarith
  then show ?case
  proof cases
    case 1
    then show ?thesis unfolding step by simp
  next
    case 2
    have "k < advance (Suc k) xs" using advance_ge [of "Suc k" xs] by simp
    then show ?thesis
      unfolding step using 2 x Cons.prems Cons.IH [of "Suc k"] by simp
  next
    case 3
    then show ?thesis
      unfolding step using Cons.prems Cons.IH [of k] by simp
  qed
qed simp

section \<open>Accepting a segment\<close>

text \<open>The indices received so far are a set; the flow holds exactly their segments, in order,
  and stands at the first gap.\<close>

definition holds :: "u32 \<Rightarrow> bytes list \<Rightarrow> nat set \<Rightarrow> urdp_flow \<Rightarrow> bool" where
  "holds b segs R f \<longleftrightarrow> R \<subseteq> {..<length segs}
     \<and> (\<exists>xs. sorted_wrt (<) xs \<and> set xs = R \<and> m_rlist f = map (rseg b segs) xs)
     \<and> m_rcv_nxt f = b + of_nat (off segs (first_gap R))
     \<and> m_rlen f = of_nat (off segs (first_gap R)) \<and> m_shutdown f = SD_NONE"

lemma first_gap_le: "R \<subseteq> {..<n} \<Longrightarrow> first_gap R \<le> n"
  unfolding first_gap_def by (rule Least_le) auto

lemma first_gap_insert_other:
  assumes "finite R" and "i \<noteq> first_gap R"
  shows "first_gap (insert i R) = first_gap R"
  using first_gap [OF assms(1)] assms(2) by (intro first_gapI) auto

lemma first_gap_subset: "finite R \<Longrightarrow> {..<first_gap R} \<subseteq> R"
  using first_gap(2) by auto

lemma store_segment_fields [simp]:
  "m_rlist (store_segment q d f) = oset_insert rs_less \<lparr>rs_buf = d, rs_seq = q\<rparr> (m_rlist f)"
  "m_rcv_nxt (store_segment q d f) = m_rcv_nxt f" "m_rlen (store_segment q d f) = m_rlen f"
  "m_shutdown (store_segment q d f) = m_shutdown f"
  by (simp_all add: store_segment_def Let_def)

lemma unat_offset_diff:
  assumes "i \<le> j" and "j < 2 ^ 32"
  shows "unat ((b :: u32) + of_nat j - (b + of_nat i)) = j - i"
proof -
  have "b + of_nat j - (b + of_nat i) = of_nat (j - i)"
    using assms(1) by (simp add: of_nat_diff)
  then show ?thesis
    using assms(2) by (simp only:) (simp add: unsigned_of_nat take_bit_nat_eq_self)
qed

text \<open>What a segment does depends on where the receiver stands: before the segment \<open>k\<close>.\<close>

lemma accept_old:
  assumes "cut_ok b segs" and "k \<le> length segs" and nxt: "m_rcv_nxt f = b + of_nat (off segs k)" and "i < k"
  shows "accept_data True (b + of_nat (off segs i)) (segs ! i) f = (False, f)"
proof -
  let ?k = k
  have k: "?k \<le> length segs" "i < length segs"
    using assms by simp_all
  have le: "length (segs ! i) \<le> off segs ?k - off segs i"
    using off_mono [of "Suc i" ?k segs] assms(4) off_Suc [OF k(2)] by simp
  have lt: "b + of_nat (off segs i) < b + of_nat (off segs ?k)"
    using seq_less(3) [OF assms(1), of i ?k] k assms(4) by simp
  have "off segs i \<le> off segs ?k" using off_mono [of i ?k segs] assms(4) by simp
  then have d: "unat (b + of_nat (off segs ?k) - (b + of_nat (off segs i))) = off segs ?k - off segs i"
    using off_bound(1) [OF assms(1) k(1)] by (intro unat_offset_diff) auto
  have "adjust_segment (m_rcv_nxt f) (b + of_nat (off segs i)) (segs ! i) = (m_rcv_nxt f, [])"
    unfolding nxt adjust_segment_def d Let_def using lt le by (simp only: if_True not_less if_False split: if_split) simp
  then show ?thesis
    by (simp add: accept_data_def limit_segment_def process_data_def)
qed

lemma accept_ahead:
  assumes "cut_ok b segs" and nxt: "m_rcv_nxt f = b + of_nat (off segs k)" and "k \<le> i" and "i < length segs"
  shows "accept_data True (b + of_nat (off segs i)) (segs ! i) f =
    process_data True (b + of_nat (off segs i)) (segs ! i) f"
proof -
  let ?k = k
  have nlt: "\<not> b + of_nat (off segs i) < b + of_nat (off segs ?k)"
    using seq_less(3) [OF assms(1), of i ?k] assms(3,4) by simp
  have "off segs ?k \<le> off segs (Suc i)" using off_mono [of ?k "Suc i" segs] assms(3) by simp
  moreover have "off segs (Suc i) < RECV_BUF_SIZE" "off segs (Suc i) < 2 ^ 31"
    using off_bound [OF assms(1), of "Suc i"] assms(4) by auto
  ultimately have "mod_minus (b + of_nat (off segs (Suc i))) (b + of_nat (off segs ?k))
      = int (off segs (Suc i) - off segs ?k)"
    using sint_small_int [of "int (off segs (Suc i) - off segs ?k)", where 'w = 32]
    by (simp add: mod_minus_def wrappable_minus_def of_nat_diff)
  then have "mod_minus (b + of_nat (off segs i) + of_nat (length (segs ! i))) (m_rcv_nxt f)
      < int RECV_BUF_SIZE"
    using \<open>off segs (Suc i) < RECV_BUF_SIZE\<close> nxt assms(4)
    by (simp add: off_Suc add.assoc)
  then show ?thesis
    using nlt nxt by (simp add: accept_data_def adjust_segment_def limit_segment_def)
qed

lemma process_data_store:
  assumes "d \<noteq> []" and "m_shutdown f = SD_NONE"
  shows "process_data True q d f =
    (let f1 = store_segment q d f
     in if q = m_rcv_nxt f
        then let (new, rlen, nxt) = absorb (m_rlen f) (m_rcv_nxt f) False (m_rlist f1)
             in (new, f1\<lparr>m_rlen := rlen, m_rcv_nxt := nxt\<rparr>)
        else (False, f1))"
  using assms by (simp add: process_data_def Let_def)

lemma accept_gap:
  assumes "cut_ok b segs" and "holds b segs R f" and "first_gap R < length segs"
  shows "holds b segs (insert (first_gap R) R)
    (snd (process_data True (b + of_nat (off segs (first_gap R))) (segs ! first_gap R) f))"
proof -
  let ?k = "first_gap R"
  obtain xs where xs: "sorted_wrt (<) xs" "set xs = R" "m_rlist f = map (rseg b segs) xs"
    using assms(2) by (auto simp: holds_def)
  define ys where "ys = oset_insert (<) ?k xs"
  have ys: "sorted_wrt (<) ys" "set ys = insert ?k R"
    using index_insert [OF xs(1)] by (simp_all add: ys_def xs(2))
  have R: "R \<subseteq> {..<length segs}" using assms(2) by (simp add: holds_def)
  then have sub: "set ys \<subseteq> {..<length segs}" using ys(2) assms(3) by auto
  have fin: "finite R" using R finite_subset by blast
  have k': "advance ?k ys = first_gap (insert ?k R)"
    using advance_first_gap [OF ys(1), of ?k] first_gap_subset [OF fin] by (auto simp: ys(2))
  have data: "segs ! ?k \<noteq> []" using assms(1,3) by (metis cut_ok_def nth_mem)
  have rl: "oset_insert rs_less \<lparr>rs_buf = segs ! ?k, rs_seq = b + of_nat (off segs ?k)\<rparr> (m_rlist f)
      = map (rseg b segs) ys"
    using rseg_insert [OF assms(1,3), of xs] R by (simp add: xs(2,3) ys_def rseg_def)
  note ab = absorb_rsegs [OF assms(1) sub less_imp_le [OF assms(3)]]
  have nxt: "m_rcv_nxt f = b + of_nat (off segs ?k)" "m_rlen f = of_nat (off segs ?k)"
    "m_shutdown f = SD_NONE"
    using assms(2) by (simp_all add: holds_def)
  have "snd (process_data True (b + of_nat (off segs ?k)) (segs ! ?k) f) =
    (store_segment (b + of_nat (off segs ?k)) (segs ! ?k) f)
      \<lparr>m_rlen := of_nat (off segs (first_gap (insert ?k R))),
       m_rcv_nxt := b + of_nat (off segs (first_gap (insert ?k R)))\<rparr>"
    by (simp add: process_data_store [OF data nxt(3)] nxt rl ab k' Let_def)
  then show ?thesis
    using sub ys by (auto simp: holds_def rl nxt)
qed

lemma accept_later:
  assumes "cut_ok b segs" and "holds b segs R f" and "first_gap R < i" and "i < length segs"
  shows "holds b segs (insert i R) (snd (process_data True (b + of_nat (off segs i)) (segs ! i) f))"
proof -
  obtain xs where xs: "sorted_wrt (<) xs" "set xs = R" "m_rlist f = map (rseg b segs) xs"
    using assms(2) by (auto simp: holds_def)
  have R: "R \<subseteq> {..<length segs}" using assms(2) by (simp add: holds_def)
  then have fin: "finite R" using finite_subset by blast
  have data: "segs ! i \<noteq> []" using assms(1,4) by (metis cut_ok_def nth_mem)
  have rl: "oset_insert rs_less \<lparr>rs_buf = segs ! i, rs_seq = b + of_nat (off segs i)\<rparr> (m_rlist f)
      = map (rseg b segs) (oset_insert (<) i xs)"
    using rseg_insert [OF assms(1,4), of xs] R by (simp add: xs(2,3) rseg_def)
  have "b + of_nat (off segs i) \<noteq> m_rcv_nxt f"
    using seq_less(4) [OF assms(1), of i "first_gap R"] assms by (simp add: holds_def)
  then have "snd (process_data True (b + of_nat (off segs i)) (segs ! i) f)
      = store_segment (b + of_nat (off segs i)) (segs ! i) f"
    using assms(2) data by (simp add: process_data_store holds_def Let_def)
  then show ?thesis
    using assms(2,4) R index_insert [OF xs(1), of i] first_gap_insert_other [OF fin, of i] assms(3)
    by (auto simp: holds_def rl xs(2))
qed

lemma holds_accept:
  assumes "cut_ok b segs" and "holds b segs R f" and "i < length segs"
  shows "holds b segs (insert i R) (snd (accept_data True (b + of_nat (off segs i)) (segs ! i) f))"
proof -
  have "finite R" using assms(2) finite_subset by (auto simp: holds_def)
  have stands: "first_gap R \<le> length segs" "m_rcv_nxt f = b + of_nat (off segs (first_gap R))"
    using assms(2) first_gap_le by (auto simp: holds_def)
  consider "i < first_gap R" | "i = first_gap R" | "first_gap R < i" by linarith
  then show ?thesis
  proof cases
    case 1
    then have "insert i R = R" using first_gap(2) [OF \<open>finite R\<close>] by auto
    then show ?thesis using accept_old [OF assms(1) stands 1] assms(2) by simp
  next
    case 2
    then show ?thesis using accept_ahead [OF assms(1) stands(2)] accept_gap [OF assms(1,2)] assms(3) by simp
  next
    case 3
    then show ?thesis using accept_ahead [OF assms(1) stands(2)] accept_later [OF assms(1,2)] assms(3) by simp
  qed
qed

text \<open>A history of arrivals.\<close>

definition arrive :: "u32 \<Rightarrow> bytes list \<Rightarrow> nat list \<Rightarrow> urdp_flow \<Rightarrow> urdp_flow" where
  "arrive b segs is f = foldl (\<lambda>f i. snd (accept_data True (b + of_nat (off segs i)) (segs ! i) f)) f is"

lemma holds_arrive:
  assumes "cut_ok b segs" and "holds b segs R f" and "set is \<subseteq> {..<length segs}"
  shows "holds b segs (set is \<union> R) (arrive b segs is f)"
  using assms(2,3)
proof (induction "is" arbitrary: R f)
  case (Cons i "is")
  then show ?case
    using Cons.IH [OF holds_accept [OF assms(1) Cons.prems(1)]] by (simp add: arrive_def)
qed (simp add: arrive_def)

lemma holds_empty:
  "m_rlist f = [] \<Longrightarrow> m_rlen f = 0 \<Longrightarrow> m_rcv_nxt f = b \<Longrightarrow> m_shutdown f = SD_NONE \<Longrightarrow> holds b segs {} f"
  by (simp add: holds_def first_gap_def)

text \<open>The bytes that can be read: those before the first gap.\<close>

definition readable :: "urdp_flow \<Rightarrow> bytes" where
  "readable f = take (unat (m_rlen f)) (concat (map rs_buf (m_rlist f)))"

lemma sorted_prefix:
  assumes "sorted_wrt (<) xs" and "{a..<k} \<subseteq> set xs" and "set xs \<subseteq> {a..}"
  shows "\<exists>rest. xs = [a..<k] @ rest"
  using assms
proof (induction xs arbitrary: a)
  case (Cons x xs)
  show ?case
  proof (cases "a < k")
    case True
    then have "a \<in> set (x # xs)" using Cons.prems(2) by auto
    then have x: "x = a" using Cons.prems(1,3) by auto
    have "{Suc a..<k} \<subseteq> set xs"
    proof
      fix y
      assume "y \<in> {Suc a..<k}"
      then have y: "y \<in> {a..<k}" "y \<noteq> a" by auto
      then have "y \<in> set (x # xs)" using Cons.prems(2) by blast
      then show "y \<in> set xs" using x y(2) by simp
    qed
    moreover have "set xs \<subseteq> {Suc a..}" using Cons.prems(1) x by auto
    ultimately obtain rest where "xs = [Suc a..<k] @ rest"
      using Cons.IH [of "Suc a"] Cons.prems(1) by auto
    then show ?thesis using True x by (auto simp: upt_conv_Cons)
  qed simp
qed auto

lemma concat_nth_upt: "k \<le> length segs \<Longrightarrow> concat (map ((!) segs) [0..<k]) = concat (take k segs)"
  by (rule arg_cong [where f = concat], rule nth_equalityI) auto

lemma holds_readable:
  assumes "cut_ok b segs" and "holds b segs R f"
  shows "readable f = concat (take (first_gap R) segs)"
proof -
  obtain xs where xs: "sorted_wrt (<) xs" "set xs = R" "m_rlist f = map (rseg b segs) xs"
    using assms(2) by (auto simp: holds_def)
  have R: "R \<subseteq> {..<length segs}" using assms(2) by (simp add: holds_def)
  then have fin: "finite R" using finite_subset by blast
  note le = first_gap_le [OF R]
  obtain rest where rest: "xs = [0..<first_gap R] @ rest"
    using sorted_prefix [OF xs(1), of 0 "first_gap R"] first_gap_subset [OF fin] xs(2)
    by (auto simp: atLeast0LessThan)
  have bufs: "map rs_buf (map (rseg b segs) ys) = map ((!) segs) ys" for ys
    by (simp add: rseg_def)
  have "unat (m_rlen f) = off segs (first_gap R)"
    using assms(2) off_bound(1) [OF assms(1) le]
    by (simp add: holds_def unsigned_of_nat take_bit_nat_eq_self)
  then show ?thesis
    using le unfolding readable_def xs(3) bufs rest
    by (simp add: concat_nth_upt off_def)
qed

section \<open>Reading messages\<close>

definition full_bufs :: "urdp_flow \<Rightarrow> bool" where
  "full_bufs f \<longleftrightarrow> (\<forall>g \<in> set (m_rlist f). rs_buf g \<noteq> [])
     \<and> unat (m_rlen f) \<le> length (concat (map rs_buf (m_rlist f)))"

lemma holds_full:
  assumes "cut_ok b segs" and "holds b segs R f"
  shows "full_bufs f"
proof -
  obtain xs where xs: "set xs = R" "m_rlist f = map (rseg b segs) xs" and R: "R \<subseteq> {..<length segs}"
    using assms(2) by (auto simp: holds_def)
  have "unat (m_rlen f) = off segs (first_gap R)"
    using assms(2) off_bound(1) [OF assms(1) first_gap_le [OF R]]
    by (simp add: holds_def unsigned_of_nat take_bit_nat_eq_self)
  then have "unat (m_rlen f) = length (readable f)"
    by (simp add: holds_readable [OF assms] off_def)
  then have "unat (m_rlen f) \<le> length (concat (map rs_buf (m_rlist f)))"
    by (simp add: readable_def)
  moreover have "segs ! i \<noteq> []" if "i \<in> R" for i
    using that R assms(1) by (metis cut_ok_def lessThan_iff nth_mem subsetD)
  ultimately show ?thesis
    by (auto simp: full_bufs_def xs rseg_def)
qed

lemma recv_loop_spec:
  assumes "\<forall>g \<in> set rl. rs_buf g \<noteq> []" and "n \<le> length (concat (map rs_buf rl))"
  shows "\<exists>rl'. recv_loop n rl = Some (take n (concat (map rs_buf rl)), rl')
    \<and> concat (map rs_buf rl') = drop n (concat (map rs_buf rl)) \<and> (\<forall>g \<in> set rl'. rs_buf g \<noteq> [])"
  using assms
proof (induction rl arbitrary: n)
  case (Cons g rl)
  consider "n = 0" | "0 < n" "n < length (rs_buf g)" | "length (rs_buf g) \<le> n" "0 < n" by linarith
  then show ?case
  proof cases
    case 3
    then have "n - length (rs_buf g) \<le> length (concat (map rs_buf rl))"
      using Cons.prems by simp
    from Cons.IH [OF _ this] show ?thesis
      using 3 Cons.prems by (auto simp: Let_def)
  qed (use Cons.prems in \<open>auto simp: Let_def\<close>)
qed simp

definition can_recv :: "urdp_flow \<Rightarrow> bool" where
  "can_recv f \<longleftrightarrow> m_socket f \<and> m_state f = ESTABLISHED \<and> m_unreliable_rlist f = [] \<and> full_bufs f"

lemma readable_length: "full_bufs f \<Longrightarrow> length (readable f) = unat (m_rlen f)"
  by (simp add: readable_def full_bufs_def)

lemma concat_eq_Cons:
  "\<forall>b \<in> set bs. b \<noteq> [] \<Longrightarrow> concat bs = x # xs \<Longrightarrow> \<exists>b rest. bs = (x # b) # rest \<and> b @ concat rest = xs"
  by (cases bs; cases "hd bs") auto

text \<open>The length of the next message is read from the first two readable bytes, wherever the
  segments end.\<close>

lemma can_let_transport_read_spec:
  assumes "can_recv f" and "readable f = a # c # ds"
  shows "can_let_transport_read f =
    (let n = unat a * 256 + unat c + 4
     in Some (if length (readable f) < 4 \<or> length (readable f) < n then 0 else int n))"
proof -
  let ?bs = "map rs_buf (m_rlist f)"
  have ne: "\<forall>b \<in> set ?bs. b \<noteq> []" using assms(1) by (auto simp: can_recv_def full_bufs_def)
  obtain tl' where "concat ?bs = a # c # tl'"
    using assms(2) unfolding readable_def by (cases "concat ?bs"; cases "tl (concat ?bs)"; cases "unat (m_rlen f)"; cases "unat (m_rlen f) - 1") auto
  from concat_eq_Cons [OF ne this] obtain b rest where
    bs: "?bs = (a # b) # rest" and split: "b @ concat rest = c # tl'" by auto
  obtain g gs where rl: "m_rlist f = g # gs" "rs_buf g = a # b" "map rs_buf gs = rest"
    using bs by auto
  have len: "length (readable f) = unat (m_rlen f)"
    using readable_length assms(1) by (simp add: can_recv_def)
  have small: "m_rlen f < 4 \<longleftrightarrow> length (readable f) < 4"
    by (simp add: len word_less_nat_alt)
  show ?thesis
  proof (cases b)
    case Nil
    have "\<forall>x \<in> set rest. x \<noteq> []" using ne bs by simp
    from concat_eq_Cons [OF this] obtain b2 rest2 where "rest = (c # b2) # rest2"
      using split Nil by auto
    then obtain g2 gs2 where "gs = g2 # gs2" "rs_buf g2 = c # b2" using rl(3) by auto
    then show ?thesis
      using assms(1) rl Nil small len by (auto simp: can_let_transport_read_def can_recv_def Let_def)
  next
    case (Cons c' b')
    then show ?thesis
      using assms(1) rl split small len by (auto simp: can_let_transport_read_def can_recv_def Let_def)
  qed
qed

lemma unreliable_frame [simp]:
  "m_unreliable_rlist (packet_as_reliable_and_sendout q c d now f) = m_unreliable_rlist f"
  "m_unreliable_rlist (snd (snd (transmit seg now f))) = m_unreliable_rlist f"
  "m_unreliable_rlist (move_front now seg rest f) = m_unreliable_rlist f"
  by (simp_all add: packet_as_reliable_and_sendout_def layer_async_send_to_def emit_def fault_def
      transmit_def move_front_def Let_def)

lemma loop_recv_fields:
  "m_rlist (attempt_send_loop now fl f) = m_rlist f
   \<and> m_rlen (attempt_send_loop now fl f) = m_rlen f
   \<and> m_rcv_nxt (attempt_send_loop now fl f) = m_rcv_nxt f
   \<and> m_unreliable_rlist (attempt_send_loop now fl f) = m_unreliable_rlist f
   \<and> m_socket (attempt_send_loop now fl f) = m_socket f
   \<and> m_state (attempt_send_loop now fl f) = m_state f"
proof (induction fl f rule: attempt_loop_induct [where now = now])
  case (1 fl f)
  then show ?case by (simp add: attempt_send_loop_Nil)
next
  case (2 fl f seg rest)
  then show ?case by (simp add: attempt_send_loop_Cons [OF "2.hyps"])
qed

lemma attempt_send_recv_fields [simp]:
  "m_rlist (attempt_send fl f) = m_rlist f" "m_rlen (attempt_send fl f) = m_rlen f"
  "m_rcv_nxt (attempt_send fl f) = m_rcv_nxt f" "m_socket (attempt_send fl f) = m_socket f"
  "m_unreliable_rlist (attempt_send fl f) = m_unreliable_rlist f"
  "m_state (attempt_send fl f) = m_state f"
  by (simp_all add: attempt_send_def loop_recv_fields Let_def)

lemma update_window_fields [simp]:
  "m_rlist (update_recv_window f) = m_rlist f" "m_rlen (update_recv_window f) = m_rlen f"
  "m_socket (update_recv_window f) = m_socket f" "m_state (update_recv_window f) = m_state f"
  "m_unreliable_rlist (update_recv_window f) = m_unreliable_rlist f"
  by (simp_all add: update_recv_window_def Let_def)

lemma frame_header_bytes:
  "\<exists>a c t u. frame_header n ty = [a, c, t, u] \<and> rev (bytes_of_word ty) = [t, u]
     \<and> unat a * 256 + unat c = n mod 65536"
proof -
  let ?v = "of_nat n :: u16"
  have v: "unat ?v = n mod 65536" by (simp add: unsigned_of_nat take_bit_eq_mod)
  have lo: "unat (ucast ?v :: byte) = unat ?v mod 256"
    by (simp add: unsigned_ucast_eq take_bit_eq_mod)
  have "unat (drop_bit 8 ?v) = unat ?v div 256"
    by (simp add: unat_div drop_bit_eq_div)
  moreover have "unat ?v div 256 < 256" unfolding v by simp
  ultimately have hi: "unat (ucast (drop_bit 8 ?v) :: byte) = unat ?v div 256"
    by (simp add: unsigned_ucast_eq take_bit_eq_mod)
  show ?thesis
    unfolding frame_header_def bytes_of_word16 using v lo hi by (simp add: div_mult_mod_eq)
qed

lemma recv_message:
  assumes "can_recv f" and "readable f = frame_header (length p) ty @ p @ rest" and "length p < 65536"
  shows "\<exists>bs rl'. recv_loop (length p + 4) (m_rlist f) = Some (bs, rl')
    \<and> recv f = (no_error, rev (bytes_of_word ty) @ p,
        update_recv_window (f\<lparr>m_rlist := rl', m_rlen := m_rlen f - of_nat (length p + 4)\<rparr>))"
proof -
  obtain a c t u where fh: "frame_header (length p) ty = [a, c, t, u]" "rev (bytes_of_word ty) = [t, u]"
    and n: "unat a * 256 + unat c = length p"
    using frame_header_bytes [of "length p" ty] assms(3) by auto
  let ?n = "length p + 4" and ?all = "concat (map rs_buf (m_rlist f))"
  have len: "length (readable f) = unat (m_rlen f)"
    using readable_length assms(1) by (simp add: can_recv_def)
  have n_le: "?n \<le> unat (m_rlen f)" using assms(2) by (simp add: fh len [symmetric])
  have can: "can_let_transport_read f = Some (int ?n)"
    using can_let_transport_read_spec [OF assms(1), of a c "t # u # p @ rest"] assms(2)
    by (simp add: fh n Let_def)
  have full: "full_bufs f" using assms(1) by (simp add: can_recv_def)
  then have all: "unat (m_rlen f) \<le> length ?all" by (simp add: full_bufs_def)
  obtain rl' where rl': "recv_loop ?n (m_rlist f) = Some (take ?n ?all, rl')"
    "concat (map rs_buf rl') = drop ?n ?all" "\<forall>g \<in> set rl'. rs_buf g \<noteq> []"
    using recv_loop_spec [of "m_rlist f" ?n] full n_le all by (auto simp: full_bufs_def)
  have "take ?n ?all = take ?n (readable f)"
    using n_le by (simp add: readable_def min_def)
  have split: "readable f = ([a, c, t, u] @ p) @ rest" "length ([a, c, t, u] @ p) = ?n"
    using assms(2) by (simp_all add: fh)
  then have "take ?n (readable f) = [a, c, t, u] @ p" "drop ?n (readable f) = rest"
    by (metis append_eq_conv_conj)+
  note bytes = \<open>take ?n ?all = take ?n (readable f)\<close> [unfolded this(1)] and rest = this(2)
  have conv: "nat (int (length p) + 4) = length p + 4"
    "(word_of_int (int (length p) + 4) :: u32) = of_nat (length p) + 4"
    by (simp_all add: wi_hom_add [symmetric])
  have "recv f = (no_error, [t, u] @ p,
      update_recv_window (f\<lparr>m_rlist := rl', m_rlen := m_rlen f - of_nat ?n\<rparr>))"
    using assms(1) rl'(1) bytes can by (simp add: recv_def can_recv_def conv)
  then show ?thesis using rl'(1) fh(2) by auto
qed

text \<open>The frames of a list of messages, and what the user is given of a message.\<close>

definition frames :: "(u16 \<times> bytes) list \<Rightarrow> bytes" where
  "frames ms = concat (map (\<lambda>(ty, p). frame_header (length p) ty @ p) ms)"

definition handed_up :: "u16 \<times> bytes \<Rightarrow> bytes" where
  "handed_up m = rev (bytes_of_word (fst m)) @ snd m"

text \<open>The segments a sender has put on the wire, as a cut of its stream.\<close>

lemma chained_seq:
  "chained b ss \<Longrightarrow> i < length ss \<Longrightarrow>
     ss_seq (ss ! i) = b + of_nat (off (map ss_buf ss) i) \<and> ss_buf (ss ! i) \<noteq> []"
proof (induction ss arbitrary: b i)
  case (Cons s ss)
  show ?case
  proof (cases i)
    case (Suc j)
    then show ?thesis
      using Cons.IH [of "b + of_nat (length (ss_buf s))" j] Cons.prems by (simp add: off_def add.assoc)
  qed (use Cons.prems in simp)
qed simp

lemma accept_data_frame [simp]:
  "m_socket (snd (accept_data t q d f)) = m_socket f" "m_state (snd (accept_data t q d f)) = m_state f"
  "m_unreliable_rlist (snd (accept_data t q d f)) = m_unreliable_rlist f"
  by (simp_all add: accept_data_def process_data_def store_segment_def case_prod_unfold Let_def)

lemma sent_cut_ok:
  assumes "send_inv s" and "m_slist s = []" and "length (send_stream s) < RECV_BUF_SIZE"
    and "unat (m_snd_una s) + length (send_stream s) < 2 ^ 32"
  shows "cut_ok (m_snd_una s) (map ss_buf (m_retrans_slist s))"
proof -
  have "chained (m_snd_una s) (m_retrans_slist s)" using assms(1) by (simp add: send_inv_def)
  then have "[] \<notin> set (map ss_buf (m_retrans_slist s))"
    by (metis chained_seq in_set_conv_nth length_map nth_map)
  then show ?thesis
    using assms(2-4) by (simp add: cut_ok_def send_stream_def seg_bytes_def)
qed

section \<open>Properties\<close>

text \<open>C31: The segments of a stream, none of them empty, all of them together shorter than the
  receive buffer, and with sequence numbers that do not run over the end of 32 bits (\<open>cut_ok\<close>; without
  the last, a stale duplicate can be taken for new data, \<open>stale_duplicate_after_wrap\<close>), that arrive in any
  order, any number of times, at a receiver that starts empty at the first of them, are reassembled:
  what can be read is exactly the stream up to the first segment that did not arrive, and the
  acknowledgment the receiver sends is the sequence number of that gap.\<close>
theorem reassembly_any_order:
  assumes "cut_ok b segs" and "set is \<subseteq> {..<length segs}"
    and "m_rlist f = []" and "m_rlen f = 0" and "m_rcv_nxt f = b" and "m_shutdown f = SD_NONE"
  shows "readable (arrive b segs is f) = concat (take (first_gap (set is)) segs)
    \<and> m_rcv_nxt (arrive b segs is f) = b + of_nat (length (concat (take (first_gap (set is)) segs)))"
proof -
  have "holds b segs (set is) (arrive b segs is f)"
    using holds_arrive [OF assms(1) holds_empty [OF assms(3-6)] assms(2)] by simp
  then show ?thesis
    using holds_readable [OF assms(1)] by (simp add: holds_def off_def)
qed

theorem reassembly_any_order_witness:
  "readable (arrive 100 [[1, 2], [3], [4, 5]] [2, 0, 2, 1] (linked_flow\<lparr>m_rcv_nxt := 100\<rparr>))
    = [1, 2, 3, 4, 5]"
proof -
  have gap: "first_gap (set [2, 0, 2, 1]) = 3"
    by (rule first_gapI) auto
  have "readable (arrive 100 [[1, 2], [3], [4, 5]] [2, 0, 2, 1] (linked_flow\<lparr>m_rcv_nxt := 100\<rparr>))
    = concat (take (first_gap (set [2, 0, 2, 1])) [[1, 2], [3], [4, 5]])"
    by (rule reassembly_any_order [THEN conjunct1])
      (simp_all add: cut_ok_def RECV_BUF_SIZE_def linked_flow_def blank_flow_def)
  then show ?thesis unfolding gap by simp
qed

end
