(* ===== verification/Urdp_Packets.thy ===== *)
theory Urdp_Packets
  imports Urdp_Reassembly
begin

text \<open>What the URDP flow does wrong at the wrap of its sequence numbers, what travels between two
  flows, and why its loops end.\<close>

section \<open>Numbers compared as plain integers\<close>

text \<open>Where the URDP flow compares sequence numbers as plain integers instead of on the
  circle: the adjustment of an incoming segment and the end of fast recovery. Both go wrong
  when the numbers run over the end of 32 bits.\<close>

section \<open>A stale segment\<close>

lemma accept_stale:
  assumes "m_rlist f = []" and "m_shutdown f = SD_NONE" and "m_rcv_nxt f = nxt"
    and "d \<noteq> []" and "\<not> q < nxt" and "q \<noteq> nxt"
  shows "snd (accept_data True q d f) = store_segment q d f"
  using assms by (simp add: accept_data_def adjust_segment_def limit_segment_def process_data_store Let_def)

lemma accept_next:
  assumes "m_shutdown f = SD_NONE" and "m_rcv_nxt f = q" and "d \<noteq> []"
    and "mod_minus (q + of_nat (length d)) q < int RECV_BUF_SIZE"
    and "absorb (m_rlen f) q False (oset_insert rs_less \<lparr>rs_buf = d, rs_seq = q\<rparr> (m_rlist f)) = (new, rlen, nxt)"
  shows "readable (snd (accept_data True q d f)) =
    take (unat rlen) (concat (map rs_buf (oset_insert rs_less \<lparr>rs_buf = d, rs_seq = q\<rparr> (m_rlist f))))"
  using assms
  by (simp add: accept_data_def adjust_segment_def limit_segment_def process_data_store readable_def Let_def)

lemma accept_old_duplicate:
  assumes "m_rcv_nxt f = nxt" and "q < nxt" and "length d \<le> unat (nxt - q)"
  shows "snd (accept_data True q d f) = f"
  using assms by (simp add: accept_data_def adjust_segment_def limit_segment_def process_data_def Let_def)

lemma insert_after_stale:
  "oset_insert rs_less \<lparr>rs_buf = [1, 2, 3], rs_seq = 1\<rparr> [\<lparr>rs_buf = [0xaa, 0xbb, 0xcc], rs_seq = 0xfffffffe\<rparr>]
    = [\<lparr>rs_buf = [0xaa, 0xbb, 0xcc], rs_seq = 0xfffffffe\<rparr>, \<lparr>rs_buf = [1, 2, 3], rs_seq = 1\<rparr>]"
  by (simp add: rs_less_def mod_less_def wrappable_less_def)

lemma absorb_after_stale:
  "absorb 0 1 False [\<lparr>rs_buf = [0xaa, 0xbb, 0xcc], rs_seq = 0xfffffffe\<rparr>, \<lparr>rs_buf = [1, 2, 3], rs_seq = 1\<rparr>]
    = (True, 3, 4)"
  by (simp add: mod_less_def mod_less_equal_def wrappable_less_def wrappable_less_equal_def
      mod_minus_def wrappable_minus_def Let_def)

lemma absorb_one: "absorb 0 101 False [\<lparr>rs_buf = [1, 2, 3], rs_seq = 101\<rparr>] = (True, 3, 104)"
  by (simp add: mod_less_def mod_less_equal_def wrappable_less_def wrappable_less_equal_def
      mod_minus_def wrappable_minus_def Let_def)

lemma linked_receiver [simp]:
  "m_rlist linked_flow = []" "m_rlen linked_flow = 0" "m_shutdown linked_flow = SD_NONE"
  by (simp_all add: linked_flow_def blank_flow_def)

text \<open>After the sequence numbers have run over the end of 32 bits, a late duplicate of a
  segment that was already received is not recognised as old: it is stored in front of the new
  data and its stale bytes are handed to the reader in place of the new ones. The same history
  away from the wrap is reassembled correctly.\<close>
lemma stale_duplicate_after_wrap:
  "(let r = linked_flow\<lparr>m_rcv_nxt := 1\<rparr>;
        r1 = snd (accept_data True 0xfffffffe [0xaa, 0xbb, 0xcc] r);
        r2 = snd (accept_data True 1 [1, 2, 3] r1)
    in readable r2 = [0xaa, 0xbb, 0xcc])
   \<and> (let r = linked_flow\<lparr>m_rcv_nxt := 101\<rparr>;
        r1 = snd (accept_data True 98 [0xaa, 0xbb, 0xcc] r);
        r2 = snd (accept_data True 101 [1, 2, 3] r1)
    in readable r2 = [1, 2, 3])"
proof -
  let ?r = "linked_flow\<lparr>m_rcv_nxt := 1\<rparr>" and ?t = "linked_flow\<lparr>m_rcv_nxt := 101\<rparr>"
  let ?r1 = "snd (accept_data True 0xfffffffe [0xaa, 0xbb, 0xcc] ?r)"
  have r1: "?r1 = store_segment 0xfffffffe [0xaa, 0xbb, 0xcc] ?r"
    by (rule accept_stale [where nxt = 1]) simp_all
  have small: "mod_minus (q + of_nat (length [1 :: byte, 2, 3])) q < int RECV_BUF_SIZE" for q :: u32
    by (simp add: mod_minus_def wrappable_minus_def RECV_BUF_SIZE_def)
  have "readable (snd (accept_data True 1 [1, 2, 3] ?r1)) = [0xaa, 0xbb, 0xcc]"
  proof (subst accept_next [OF _ _ _ small])
    show "absorb (m_rlen ?r1) 1 False (oset_insert rs_less \<lparr>rs_buf = [1, 2, 3], rs_seq = 1\<rparr> (m_rlist ?r1))
        = (True, 3, 4)"
      using absorb_after_stale
      by (simp add: r1 insert_after_stale del: oset_insert.simps(2) absorb.simps)
  qed (simp_all add: r1 insert_after_stale del: oset_insert.simps(2))
  moreover have "snd (accept_data True 98 [0xaa, 0xbb, 0xcc] ?t) = ?t"
    by (rule accept_old_duplicate [where nxt = 101]) simp_all
  moreover have "readable (snd (accept_data True 101 [1, 2, 3] ?t)) = [1, 2, 3]"
  proof (subst accept_next [OF _ _ _ small])
    show "absorb (m_rlen ?t) 101 False (oset_insert rs_less \<lparr>rs_buf = [1, 2, 3], rs_seq = 101\<rparr> (m_rlist ?t))
        = (True, 3, 104)"
      using absorb_one by (simp del: absorb.simps)
  qed simp_all
  ultimately show ?thesis by (simp only: Let_def)
qed

section \<open>The end of fast recovery\<close>

text \<open>When an acknowledgment of everything in flight ends a fast recovery whose end mark
  lies before the wrap of the sequence numbers, the handler takes the recovery for unfinished
  and retransmits the front of a queue it has just emptied.\<close>
lemma recovery_over_wrap_reads_empty_queue:
  assumes "send_inv f" and "m_retrans_slist f \<noteq> []" and "seg_total (m_retrans_slist f) < 2 ^ 31"
    and "ackno = m_snd_nxt f" and "3 \<le> m_dup_acks f" and "ackno < m_recover f"
    and "f_fault f = None"
  shows "f_fault (snd (snd (process_ack ackno te w len now f))) = Some Empty_retrans"
proof -
  have split: "m_retrans_slist f = m_retrans_slist f @ []" by simp
  have ack: "ackno = m_snd_una f + of_nat (seg_total (m_retrans_slist f))"
    using assms(1,4) by (simp add: send_inv_def)
  have "m_retrans_slist (ack_advance ackno te w now f) = []"
    using ack_advance_stream(2) [OF assms(1) split _ ack] assms(3) by simp
  moreover have "f_fault (ack_advance ackno te w now f) = None"
    using assms(7) by (simp add: ack_advance_def updata_rtt_def Let_def)
  moreover have "m_recover (ack_advance ackno te w now f) = m_recover f"
    by (simp add: ack_advance_def updata_rtt_def Let_def)
  ultimately show ?thesis
    using ack_in_window [OF assms(1) split assms(2) _ ack] assms(3,5,6)
    by (simp add: process_ack_def ack_congestion_def transmit_retrans_front_def fault_def
        ack_accept_def case_prod_unfold Let_def not_le)
qed

definition recovering_flow :: urdp_flow where
  "recovering_flow = linked_flow\<lparr>m_snd_una := 0xfffffffe, m_snd_nxt := 1, m_slen := 3,
     m_dup_acks := 3, m_recover := 0xffffffff, m_retrans_slist :=
       [\<lparr>ss_buf = [1, 2, 3], ss_seq = 0xfffffffe, ss_xmit = 2, ss_ctrl = CTRL_DATA, ss_reserved = 3\<rparr>]\<rparr>"

lemma recovering_flow_fields [simp]:
  "m_snd_una recovering_flow = 0xfffffffe" "m_snd_nxt recovering_flow = 1"
  "m_slen recovering_flow = 3" "m_dup_acks recovering_flow = 3"
  "m_recover recovering_flow = 0xffffffff" "m_slist recovering_flow = []"
  "f_fault recovering_flow = None"
  "m_retrans_slist recovering_flow =
     [\<lparr>ss_buf = [1, 2, 3], ss_seq = 0xfffffffe, ss_xmit = 2, ss_ctrl = CTRL_DATA, ss_reserved = 3\<rparr>]"
  by (simp_all add: recovering_flow_def linked_flow_def blank_flow_def)

section \<open>Packets\<close>

text \<open>What travels between two flows: the packets one flow builds read back at the other,
  whatever their byte orders and pool buffers; the checks of the receiver; the connection
  request seen by a listener.\<close>

section \<open>Headers do not depend on the host\<close>

lemma bytes_of_word_of_bytes32:
  assumes "length bs = 4"
  shows "bytes_of_word (word_of_bytes bs :: u32) = bs"
proof (rule nth_equalityI)
  fix i
  assume "i < length (bytes_of_word (word_of_bytes bs :: u32))"
  then have i: "i < 4" by simp
  show "bytes_of_word (word_of_bytes bs :: u32) ! i = bs ! i"
  proof (rule bit_word_eqI)
    fix n assume "n < LENGTH(8)"
    then show "bit (bytes_of_word (word_of_bytes bs :: u32) ! i) n = bit (bs ! i) n"
      using i assms by (auto simp: bit_nth_bytes_of_word bit_word_of_bytes)
  qed
qed (use assms in simp)

lemma ntoh_memory32:
  assumes "length bs = 4"
  shows "ntoh big (of_memory big bs :: u32) = word_of_bytes (rev bs)"
proof -
  let ?v = "word_of_bytes (rev bs) :: u32"
  have "to_memory big (hton big ?v) = bs"
    using bytes_of_word_of_bytes32 [of "rev bs"] assms by (simp add: network_bytes)
  then have "of_memory big bs = hton big ?v"
    using of_memory_to_memory [of big "hton big ?v"] by simp
  then show ?thesis by (simp add: ntoh_hton)
qed

lemma rd_net32:
  "(rd_net big buf p :: u32 option) =
     (if p + 4 \<le> length buf then Some (word_of_bytes (rev (take 4 (drop p buf)))) else None)"
  using ntoh_memory32 [of "take 4 (drop p buf)" big] by (simp add: rd_net_eq)

lemma hget_word:
  "hget big buf g =
    (if field_end g \<le> length buf
     then Some (extract_field (word_of_bytes (rev (take 4 (drop (unit_byte (placed_of g)) buf))))
                  (p_off_in_type (placed_of g)) (field_bits g))
     else None)"
  by (simp add: hget_def get_field_bits [OF placed_of_ok] get_bit_field_net rd_net32 field_end_def
      placed_of_bits)

lemma hget_host: "hget big buf g = hget big' buf g"
  by (simp add: hget_word)

lemma hget_append: "field_end g \<le> length buf \<Longrightarrow> hget big (buf @ data) g = hget big buf g"
  by (simp add: hget_word field_end_def)

section \<open>Building a header\<close>

lemma put_fields_get:
  assumes "distinct (map fst vs)" and "24 \<le> length buf"
  shows "hget big (put_fields big vs buf) g =
      (case map_of vs g of Some v \<Rightarrow> Some (take_bit (field_bits g) v) | None \<Rightarrow> hget big buf g)
    \<and> length (put_fields big vs buf) = length buf"
  using assms
proof (induction vs arbitrary: buf)
  case (Cons fv vs)
  obtain f v where fv: "fv = (f, v)" by fastforce
  have "field_end f \<le> length buf" using field_end_le [of f] Cons.prems(2) by simp
  then obtain b where b: "hset big buf f v = Some b" using hset_defined by blast
  have len: "length b = length buf" by (rule hset_length [OF b])
  have step: "put_fields big (fv # vs) buf = put_fields big vs b"
    by (simp add: put_fields_def fv b)
  have "map_of vs f = None" using Cons.prems(1) by (auto simp: fv map_of_eq_None_iff)
  then show ?case
    using Cons.IH [of b] Cons.prems len hget_hset [OF b] unfolding step
    by (auto simp: fv split: option.splits)
qed (simp add: put_fields_def)

lemma reliable_header_init_ok:
  assumes "length buf = 24"
  shows "\<exists>b. reliable_header_init big buf = Some b \<and> length b = 24"
proof -
  have ends: "field_end F_time_sending \<le> 24" "field_end F_time_echo \<le> 24" by (rule field_end_le)+
  obtain b1 where b1: "hset big buf F_time_sending 0 = Some b1" "length b1 = 24"
    using hset_defined [of big buf F_time_sending 0] hset_length ends(1) assms by fastforce
  obtain b2 where "hset big b1 F_time_echo 0 = Some b2" "length b2 = 24"
    using hset_defined [of big b1 F_time_echo 0] hset_length ends(2) b1(2) by fastforce
  then show ?thesis using b1 by (simp add: reliable_header_init_def)
qed

definition header_fields :: "u32 \<Rightarrow> urdp_packet_type \<Rightarrow> time32 \<Rightarrow> urdp_flow \<Rightarrow> (urdp_field \<times> u32) list" where
  "header_fields seq c now f = basic_fields c f @ reliable_fields seq now f"

lemma header_fields_distinct: "distinct (map fst (header_fields seq c now f))"
  by (simp add: header_fields_def basic_fields_def reliable_fields_def)

lemma reliable_packet_get:
  assumes "map_of (header_fields seq c now f) g = Some v"
  shows "hget big (reliable_packet seq c data now f) g = Some (take_bit (field_bits g) v)"
    and "length (reliable_packet seq c data now f) = 24 + length data"
    and "drop 24 (reliable_packet seq c data now f) = data"
proof -
  have "length (fresh_buffer 24 f) = 24" by (simp add: fresh_buffer_def)
  from reliable_header_init_ok [OF this] obtain b where
    b: "reliable_header_init (f_host_big f) (fresh_buffer 24 f) = Some b" "length b = 24" by blast
  define h where "h = put_fields (f_host_big f) (header_fields seq c now f) b"
  have pkt: "reliable_packet seq c data now f = h @ data"
    by (simp add: reliable_packet_def b h_def header_fields_def)
  note put = put_fields_get [OF header_fields_distinct, of b "f_host_big f" seq c now f, folded h_def]
  have len: "length h = 24" using put b(2) by simp
  have "field_end g \<le> length h" using field_end_le [of g] len by simp
  then show "hget big (reliable_packet seq c data now f) g = Some (take_bit (field_bits g) v)"
    using put [of g] assms b(2) hget_host [of big h g "f_host_big f"] unfolding pkt
    by (simp add: hget_append)
  show "length (reliable_packet seq c data now f) = 24 + length data"
    "drop 24 (reliable_packet seq c data now f) = data"
    by (simp_all add: pkt len)
qed

lemma code_bits [simp]: "take_bit 8 (control_code c) = control_code c"
  by (cases c) (simp_all add: take_bit_eq_mod)

lemma control_of_code [simp]: "control_of (control_code c) = Some c"
  by (cases c) (simp_all add: control_of_def control_types_def)

lemma u16_bits [simp]: "take_bit 16 (ucast (x :: u16) :: u32) = ucast x"
  by (rule bit_word_eqI) (auto simp: bit_simps dest: bit_imp_le_length)

lemma window_small: "unat (min w (0xffff :: u32)) < 2 ^ 16"
  by (auto simp: min_def word_le_nat_alt)

lemma window_bits [simp]: "take_bit 16 (min w 0xffff) = min w (0xffff :: u32)"
  using window_small [of w] by (simp add: word_unat_eq_iff unsigned_take_bit_eq take_bit_nat_eq_self)

lemma wire_window_min: "wire_window w = min w 0xffff"
  unfolding wire_window_def by (rule word_unat_eq_iff [THEN iffD2]) (simp add: unsigned_ucast_eq)

lemma packet_header:
  assumes "p = reliable_packet seq c data now f"
  shows "hget big p F_control = Some (control_code c)"
    and "hget big p F_peer_id =
      Some (take_bit 24 (if c = CTRL_CONNECT then the (m_token f) else m_remote_peer_id f))"
    and "hget big p F_session_id = Some (ucast (m_session_id f))"
    and "hget big p F_window = Some (min (m_rcv_wnd f) 0xffff)"
    and "hget big p F_time_sending = Some (ucast (ucast (scape_zero now) :: u16))"
    and "hget big p F_seqno = Some seq" and "hget big p F_ackno = Some (m_rcv_nxt f)"
proof -
  have get: "hget big p g = Some (take_bit (field_bits g) v)"
    if "map_of (header_fields seq c now f) g = Some v" for g v
    using reliable_packet_get(1) [OF that] assms by simp
  note fields = header_fields_def basic_fields_def reliable_fields_def
  show "hget big p F_control = Some (control_code c)"
    using get [of F_control "control_code c"] by (simp add: fields)
  show "hget big p F_peer_id =
      Some (take_bit 24 (if c = CTRL_CONNECT then the (m_token f) else m_remote_peer_id f))"
    using get [of F_peer_id] by (simp add: fields)
  show "hget big p F_session_id = Some (ucast (m_session_id f))"
    using get [of F_session_id "ucast (m_session_id f)"] by (simp add: fields)
  show "hget big p F_window = Some (min (m_rcv_wnd f) 0xffff)"
    using get [of F_window "wire_window (m_rcv_wnd f)"] by (simp add: fields wire_window_min)
  show "hget big p F_time_sending = Some (ucast (ucast (scape_zero now) :: u16))"
    using get [of F_time_sending "ucast (ucast (scape_zero now) :: u16)"] by (simp add: fields)
  show "hget big p F_seqno = Some seq" "hget big p F_ackno = Some (m_rcv_nxt f)"
    using get [of F_seqno seq] get [of F_ackno "m_rcv_nxt f"]
    by (simp_all add: fields take_bit_word_eq_self)
qed

text \<open>A packet a flow builds reads back, on a host of either byte order and whatever the pool
  buffer held, with the control code, session, sequence number, acknowledgment, sending time and
  window of the sender, with its flow id (in 24 bits) in a connection request and the peer's
  id otherwise, and with the payload after the 24 byte header.\<close>
lemma reliable_packet_reads_back:
  "let p = reliable_packet seq c data now f
   in hget big p F_control = Some (control_code c)
    \<and> hget big p F_peer_id =
        Some (take_bit 24 (if c = CTRL_CONNECT then the (m_token f) else m_remote_peer_id f))
    \<and> hget big p F_session_id = Some (ucast (m_session_id f))
    \<and> hget big p F_window = Some (min (m_rcv_wnd f) 0xffff)
    \<and> hget big p F_time_sending = Some (ucast (ucast (scape_zero now) :: u16))
    \<and> hget big p F_seqno = Some seq \<and> hget big p F_ackno = Some (m_rcv_nxt f)
    \<and> drop reliable_format_size p = data"
  using packet_header [OF refl, of big seq c data now f]
    reliable_packet_get(3) [of seq c now f F_seqno seq data]
  by (simp add: Let_def header_fields_def basic_fields_def reliable_fields_def)

section \<open>The connection request\<close>

lemma loss_rate_fields [simp]:
  "m_state (calculate_local_to_remote_lost_rate l i now f) = m_state f"
  "m_token (calculate_local_to_remote_lost_rate l i now f) = m_token f"
  "f_host_big (calculate_local_to_remote_lost_rate l i now f) = f_host_big f"
  "m_slist (calculate_local_to_remote_lost_rate l i now f) = m_slist f"
  "m_retrans_slist (calculate_local_to_remote_lost_rate l i now f) = m_retrans_slist f"
  "m_snd_una (calculate_local_to_remote_lost_rate l i now f) = m_snd_una f"
  "m_snd_nxt (calculate_local_to_remote_lost_rate l i now f) = m_snd_nxt f"
  "m_slen (calculate_local_to_remote_lost_rate l i now f) = m_slen f"
  by (simp_all add: calculate_local_to_remote_lost_rate_def calc_remote_to_local_lost_rate_def
      case_prod_unfold Let_def)

lemma prologue_fields [simp]:
  "m_state (process_prologue p now f) = m_state f" "m_token (process_prologue p now f) = m_token f"
  "f_host_big (process_prologue p now f) = f_host_big f"
  "m_slist (process_prologue p now f) = m_slist f"
  "m_retrans_slist (process_prologue p now f) = m_retrans_slist f"
  "m_snd_una (process_prologue p now f) = m_snd_una f"
  "m_snd_nxt (process_prologue p now f) = m_snd_nxt f" "m_slen (process_prologue p now f) = m_slen f"
  by (simp_all add: process_prologue_def)

lemma prologue_send [simp]:
  "send_inv (process_prologue p now f) = send_inv f"
  "send_stream (process_prologue p now f) = send_stream f"
  by (simp_all add: send_inv_def send_stream_def)

lemma peer_frame:
  "m_session_id (packet_as_reliable_and_sendout q c d now f) = m_session_id f"
  "m_remote_peer_id (packet_as_reliable_and_sendout q c d now f) = m_remote_peer_id f"
  "m_remote_endpoint (packet_as_reliable_and_sendout q c d now f) = m_remote_endpoint f"
  by (simp_all add: packet_as_reliable_and_sendout_def layer_async_send_to_def emit_def fault_def Let_def)

lemma peer_frame_move:
  "m_session_id (snd (snd (transmit seg now f))) = m_session_id f"
  "m_remote_peer_id (snd (snd (transmit seg now f))) = m_remote_peer_id f"
  "m_remote_endpoint (snd (snd (transmit seg now f))) = m_remote_endpoint f"
  "m_session_id (move_front now seg rest f) = m_session_id f"
  "m_remote_peer_id (move_front now seg rest f) = m_remote_peer_id f"
  "m_remote_endpoint (move_front now seg rest f) = m_remote_endpoint f"
  by (simp_all add: transmit_def move_front_def peer_frame Let_def)

lemma loop_peer_fields:
  "m_session_id (attempt_send_loop now fl f) = m_session_id f
   \<and> m_remote_peer_id (attempt_send_loop now fl f) = m_remote_peer_id f
   \<and> m_remote_endpoint (attempt_send_loop now fl f) = m_remote_endpoint f"
proof (induction fl f rule: attempt_loop_induct [where now = now])
  case (1 fl f)
  then show ?case by (simp add: attempt_send_loop_Nil peer_frame)
next
  case (2 fl f seg rest)
  then show ?case by (simp add: attempt_send_loop_Cons [OF "2.hyps"] peer_frame_move)
qed

lemma attempt_send_peer [simp]:
  "m_session_id (attempt_send fl f) = m_session_id f"
  "m_remote_peer_id (attempt_send fl f) = m_remote_peer_id f"
  "m_remote_endpoint (attempt_send fl f) = m_remote_endpoint f"
  by (simp_all add: attempt_send_def loop_peer_fields Let_def)

lemma reschedule_fields [simp]:
  "m_state (reschedule now f) = m_state f" "m_session_id (reschedule now f) = m_session_id f"
  "m_remote_peer_id (reschedule now f) = m_remote_peer_id f"
  "m_remote_endpoint (reschedule now f) = m_remote_endpoint f"
  "m_rcv_nxt (reschedule now f) = m_rcv_nxt f"
  "m_slist (reschedule now f) = m_slist f" "m_retrans_slist (reschedule now f) = m_retrans_slist f"
  by (simp_all add: reschedule_def schedule_timer_def timer_async_wait_def emit_def fault_def Let_def
      split: option.splits)

lemma reschedule_send [simp]: "send_stream (reschedule now f) = send_stream f"
  by (simp add: send_stream_def)

lemma queue_peer [simp]:
  "m_session_id (queue d c r f) = m_session_id f" "m_remote_peer_id (queue d c r f) = m_remote_peer_id f"
  "m_remote_endpoint (queue d c r f) = m_remote_endpoint f" "m_rcv_nxt (queue d c r f) = m_rcv_nxt f"
  by (simp_all add: queue_def case_prod_unfold Let_def)

lemma u16_through_u32: "ucast (ucast (x :: u16) :: u32) = x"
  by (rule bit_word_eqI) (simp add: bit_simps)

text \<open>The connection request of one flow, received by a listening flow, makes it answer: the
  two then agree on the session, the listener knows the initiator's flow id and endpoint and
  expects the byte after the domain name, and its own flow id is the first thing in its
  outgoing stream.\<close>
lemma listener_accepts_connect:
  assumes "m_state b = LISTEN" and "m_token b = Some bid" and "send_inv b" and "send_stream b = []"
    and "m_token a = Some aid" and "p = reliable_packet seq CTRL_CONNECT domain now a"
    and "process p from b = (ok, b')"
  shows "ok \<and> m_state b' = SYN_RCVD \<and> m_session_id b' = m_session_id a
    \<and> m_remote_peer_id b' = take_bit 24 aid \<and> m_remote_endpoint b' = from
    \<and> m_rcv_nxt b' = seq + of_nat (length domain) \<and> send_stream b' = rev (bytes_of_word bid)"
proof -
  let ?now = "tick_now b"
  define b1 where "b1 = process_prologue p ?now b"
  note head = packet_header [OF assms(6), of "f_host_big b"]
  have len: "length p = 24 + length domain"
    using reliable_packet_get(2) [of seq CTRL_CONNECT now a F_seqno seq domain] assms(6)
    by (simp add: header_fields_def basic_fields_def reliable_fields_def)
  have h: "hdr f p F_control = control_code CTRL_CONNECT" "hdr f p F_seqno = seq"
    "hdr f p F_peer_id = take_bit 24 aid" "hdr f p F_session_id = ucast (m_session_id a)"
    if "f_host_big f = f_host_big b" for f
    using head assms(5) that by (simp_all add: hdr_def)
  have b1: "f_host_big b1 = f_host_big b" "m_state b1 = LISTEN" "m_token b1 = Some bid"
    "send_inv b1" "send_stream b1 = []"
    using assms(1-4) by (simp_all add: b1_def)
  have "\<not> packet_refused p from b"
    using len assms(1) by (simp add: packet_refused_def less_eq_tcp_state_def)
  then have "process p from b = process_reliable p from ?now b1"
    using assms(1) h(1) [of b] by (simp add: process_def b1_def Let_def del: control_code.simps)
  also have "\<dots> = (True, on_connect p from ?now b1)"
    using len h(1) [OF b1(1)] by (simp add: process_reliable_def Let_def del: control_code.simps)
  finally have ok: "ok" and b': "b' = on_connect p from ?now b1" using assms(7) by simp_all
  define b2 where "b2 = b1\<lparr>m_state := SYN_RCVD, m_remote_peer_id := take_bit 24 aid,
    m_session_id := m_session_id a, m_lastack := seq + of_nat (length domain),
    m_rcv_nxt := seq + of_nat (length domain), m_remote_endpoint := from,
    m_t_recent := ucast (hdr b1 p F_time_sending), m_t_recent_now := ucast ?now,
    m_t_lasttraffic := ?now, m_t_lastrecv := ?now\<rparr>"
  have b2: "send_inv b2" "send_stream b2 = []"
    using b1(4,5) by (simp_all add: b2_def send_inv_def send_stream_def)
  define b3 where "b3 = queue (io_put_int (f_host_big b1) bid []) CTRL_CONNECT_ACK 0 b2"
  have "b' = reschedule ?now (attempt_send sfImmediateAck b3)"
    using b1(2,3) len h [OF b1(1)]
    by (simp add: b' on_connect_def b3_def b2_def u16_through_u32 Let_def)
  moreover have "send_inv b3" "send_stream b3 = rev (bytes_of_word bid)"
    using queue_stream [OF b2(1)] b2(2) by (simp_all add: b3_def io_put_ints)
  ultimately show ?thesis
    using ok attempt_send_stream [of b3 sfImmediateAck] by (simp add: b3_def b2_def)
qed

definition listening_flow :: urdp_flow where
  "listening_flow = blank_flow\<lparr>m_state := LISTEN, m_token := Some 9\<rparr>"

text \<open>A packet that fails the receiver's checks (too short, of another session or from
  another endpoint) changes nothing but that one reset is answered, and only the first such
  packet is answered at all.\<close>
lemma refused_packet_answered_once:
  assumes "m_state f \<noteq> CLOSED" and "packet_refused p from f"
    and "f1 = called_by_sharedlayer_on_recvd p from f" and "packet_refused p2 from2 f1"
  shows "process p from f = (False, f) \<and> called_by_sharedlayer_on_recvd p2 from2 f1 = f1
    \<and> m_state f1 = m_state f \<and> m_rcv_nxt f1 = m_rcv_nxt f \<and> m_rlist f1 = m_rlist f
    \<and> send_stream f1 = send_stream f"
proof -
  have p: "process p from f = (False, f)"
    using assms(1,2) by (simp add: process_def)
  have f1: "b_ignore_all_pkt f1" "m_state f1 = m_state f" "m_rcv_nxt f1 = m_rcv_nxt f"
    "m_rlist f1 = m_rlist f" "send_stream f1 = send_stream f"
    by (auto simp: assms(3) called_by_sharedlayer_on_recvd_def p send_stream_def)
  have "process p2 from2 f1 = (False, f1)"
    using assms(1,4) f1(2) by (simp add: process_def)
  then show ?thesis
    using p f1 by (simp add: called_by_sharedlayer_on_recvd_def)
qed

text \<open>The loops of the URDP flow that are modelled with fuel end: the fuel the model gives them
  is enough, more fuel gives the same result.\<close>

section \<open>The receive loop\<close>

definition unread :: "urdp_flow \<Rightarrow> nat" where
  "unread f = length (m_unreliable_rlist f) + unat (m_rlen f)"

lemma unread_frames [simp]:
  "unread (emit e f) = unread f" "unread (close_internal g f) = unread f"
  "unread (update_recv_window f) = unread f"
proof -
  have closed: "m_rlen (to_closed_state h) = m_rlen h"
    "m_unreliable_rlist (to_closed_state h) = m_unreliable_rlist h" for h
    by (simp_all add: to_closed_state_def cancel_flow_def emit_def Let_def)
  have timer: "m_rlen (reschedule now h) = m_rlen h"
    "m_unreliable_rlist (reschedule now h) = m_unreliable_rlist h" for now h
    by (simp_all add: reschedule_def schedule_timer_def timer_async_wait_def emit_def fault_def
        Let_def split: option.splits)
  show "unread (emit e f) = unread f" "unread (update_recv_window f) = unread f"
    by (simp_all add: unread_def emit_def)
  show "unread (close_internal g f) = unread f"
    by (simp add: unread_def close_internal_def cancel_flow_def closed timer Let_def)
qed

lemma unread_allert_received [simp]: "unread (allert_received buf f) = unread f"
  by (simp add: allert_received_def)

lemma can_read_bounds:
  assumes "can_let_transport_read f = Some n" and "m_unreliable_rlist f = []"
    and "m_state f = ESTABLISHED" and "n \<noteq> 0"
  shows "4 \<le> n" and "nat n \<le> unat (m_rlen f)"
proof -
  define r where "r = unat (m_rlen f)"
  have "\<exists>m. n = int m \<and> 4 \<le> m \<and> m \<le> r"
  proof -
    have "\<exists>m. n = (if m + 4 > r then 0 else int (m + 4))"
      using assms unfolding can_let_transport_read_def Let_def r_def [symmetric]
      by (auto split: if_splits list.splits option.splits)
    then obtain m where "n = (if m + 4 > r then 0 else int (m + 4))" ..
    then show ?thesis
      using assms(4) by (intro exI [of _ "m + 4"]) (simp split: if_splits)
  qed
  then show "4 \<le> n" "nat n \<le> unat (m_rlen f)" by (auto simp: r_def)
qed

text \<open>A round that hands up a message leaves less to read.\<close>

lemma recv_progress:
  assumes "recv f = (no_error, buf, f')" and "f_fault f' = None"
  shows "unread f' < unread f"
proof (cases "m_unreliable_rlist f")
  case (Cons pkt rest)
  then show ?thesis
    using assms by (auto simp: recv_def unread_def fault_def split: if_splits option.splits)
next
  case Nil
  have st: "m_state f = ESTABLISHED" "m_socket f"
    using assms(1) by (auto simp: recv_def split: if_splits)
  obtain n where n: "can_let_transport_read f = Some n"
    using assms st by (cases "can_let_transport_read f") (auto simp: recv_def fault_def split: if_splits)
  have n0: "n \<noteq> 0" using assms(1) st n by (auto simp: recv_def)
  then have b: "4 \<le> n" "nat n \<le> unat (m_rlen f)"
    using can_read_bounds [OF n Nil st(1)] by simp_all
  obtain bs rl where "recv_loop (nat n) (m_rlist f) = Some (bs, rl)"
    using assms st n Nil \<open>n \<noteq> 0\<close>
    by (cases "recv_loop (nat n) (m_rlist f)") (auto simp: recv_def fault_def split: if_splits)
  then have f': "f' = update_recv_window (f\<lparr>m_rlist := rl, m_rlen := m_rlen f - of_int n\<rparr>)"
    using assms(1) st n Nil \<open>n \<noteq> 0\<close> by (simp add: recv_def)
  define k where "k = nat n"
  have k: "n = int k" "4 \<le> k" "k \<le> unat (m_rlen f)" using b by (simp_all add: k_def)
  have "unat (m_rlen f - of_nat k) = unat (m_rlen f) - k"
    using le_unat_uoi [OF k(3)] k(3) unat_sub [of "of_nat k" "m_rlen f"] by (simp add: word_le_nat_alt)
  then have "unread f' = unat (m_rlen f) - k"
    by (simp add: f' unread_def Nil k(1))
  then show ?thesis
    using k by (simp add: unread_def Nil)
qed

lemma receive_fuel_enough:
  "unread f < k \<Longrightarrow> async_receive_fuel k mark f = async_receive_fuel (Suc (unread f)) mark f"
proof (induction "unread f" arbitrary: f k rule: less_induct)
  case less
  obtain k' where k: "k = Suc k'" using less.prems by (cases k) auto
  obtain ec buf f1 where r: "recv f = (ec, buf, f1)" by (cases "recv f")
  show ?case
  proof (cases "is_canceled_op mark (m_mark f) \<or> m_state f = CLOSED \<or> \<not> b_keep_recving f
      \<or> f_fault f1 \<noteq> None \<or> ec \<noteq> no_error")
    case True
    then show ?thesis by (auto simp: k r)
  next
    case False
    let ?g = "allert_received buf f1"
    have lt: "unread ?g < unread f" using recv_progress [of f buf f1] r False by simp
    have "async_receive_fuel k' mark ?g = async_receive_fuel (Suc (unread ?g)) mark ?g"
      using less.hyps [OF lt, of k'] lt less.prems k by simp
    moreover have "async_receive_fuel (unread f) mark ?g = async_receive_fuel (Suc (unread ?g)) mark ?g"
      using less.hyps [OF lt lt] .
    ultimately show ?thesis using False by (simp add: k r)
  qed
qed

section \<open>Resending unreliable packets\<close>

definition due :: "time32 \<Rightarrow> urdp_flow \<Rightarrow> nat" where
  "due now f = length (filter (\<lambda>seg. mod_less_equal (us_timeout seg) now) (m_unreliable_slist f))"

lemma due_oset_insert:
  "\<not> P x \<Longrightarrow> length (filter P (oset_insert lt x ys)) = length (filter P ys)"
  by (induction ys) auto

lemma not_due_later:
  assumes "0 < d" and "d < 2 ^ 31"
  shows "\<not> mod_less_equal (later now d) now"
proof -
  have "uint (word_of_int d :: u32) = d"
    using assms by (simp add: uint_word_of_int)
  then show ?thesis
    using assms wrappable_less_asym [of now "now + word_of_int d"]
    by (simp add: mod_less_equal_def later_def wrappable_less_equal_def wrap_simps)
qed

lemma unreliable_sent:
  assumes "m_token f \<noteq> None"
  shows "\<not> mod_less_equal (us_timeout (fst (packet_as_unreliable_and_sendout seg now f))) now"
    and "m_token (snd (packet_as_unreliable_and_sendout seg now f)) \<noteq> None"
proof -
  have d: "0 < fst (draw 10 30 g) \<and> fst (draw 10 30 g) < 2 ^ 31"
    "m_token (snd (draw 10 30 g)) = m_token g" for g
    using range_random_bounds [of 10 30 "f_rng g"] by (auto simp: draw_def case_prod_unfold Let_def)
  have t: "m_token (layer_async_send_to b e g) = m_token g" for b e g
    by (simp add: layer_async_send_to_def emit_def Let_def)
  show "\<not> mod_less_equal (us_timeout (fst (packet_as_unreliable_and_sendout seg now f))) now"
    using assms not_due_later d(1)
    by (auto simp: packet_as_unreliable_and_sendout_def case_prod_unfold Let_def)
  show "m_token (snd (packet_as_unreliable_and_sendout seg now f)) \<noteq> None"
    using assms by (auto simp: packet_as_unreliable_and_sendout_def case_prod_unfold Let_def d(2) t)
qed

lemma resend_fuel_enough:
  assumes "m_token f \<noteq> None" and "due now f \<le> k"
  shows "resend_unreliable k now f = resend_unreliable (due now f) now f
    \<and> (\<forall>seg rest. m_unreliable_slist (resend_unreliable k now f) = seg # rest
          \<longrightarrow> \<not> mod_less_equal (us_timeout seg) now)"
  using assms
proof (induction "due now f" arbitrary: f k)
  case 0
  then have none: "\<forall>seg \<in> set (m_unreliable_slist f). \<not> mod_less_equal (us_timeout seg) now"
    by (simp add: due_def filter_empty_conv)
  then have stay: "resend_unreliable j now f = f" for j
    by (cases j) (auto split: list.splits)
  show ?case using none by (auto simp: stay)
next
  case (Suc n)
  obtain k' where k: "k = Suc k'" using Suc.hyps(2) Suc.prems(2) by (cases k) auto
  obtain seg rest where l: "m_unreliable_slist f = seg # rest"
    using Suc.hyps(2) by (cases "m_unreliable_slist f") (auto simp: due_def)
  show ?case
  proof (cases "mod_less_equal (us_timeout seg) now")
    case False
    then have "resend_unreliable (Suc j) now f = f" for j
      by (simp add: l)
    then show ?thesis using False by (simp add: k l flip: Suc.hyps(2))
  next
    case True
    obtain seg' f1 where p: "packet_as_unreliable_and_sendout seg now f = (seg', f1)"
      by (cases "packet_as_unreliable_and_sendout seg now f")
    define g where "g = f1\<lparr>m_unreliable_slist :=
      (if us_remainXmit seg' \<le> 0 then rest else oset_insert us_less seg' rest)\<rparr>"
    have round: "resend_unreliable (Suc j) now f = resend_unreliable j now g" for j
      using True by (simp add: l p g_def)
    have "due now g = n"
      using unreliable_sent [OF Suc.prems(1), of seg now] Suc.hyps(2) True
      by (simp add: due_def g_def l p due_oset_insert)
    moreover have "m_token g \<noteq> None"
      using unreliable_sent(2) [OF Suc.prems(1), of seg now] by (simp add: p g_def)
    ultimately show ?thesis
      using Suc.hyps(1) [of g k'] Suc.prems(2) unfolding k Suc.hyps(2) [symmetric] round by simp
  qed
qed

lemma due_le_length: "due now f \<le> length (m_unreliable_slist f)"
  by (simp add: due_def)

section \<open>Properties\<close>

text \<open>The receive loop ends: every message it hands up leaves less to read, so the rounds
  the loop is given are enough, and any greater number of rounds gives the same flow.\<close>
lemma receive_loop_ends:
  assumes "receive_rounds f \<le> k"
  shows "async_receive_fuel k mark f = async_receive mark f"
  using receive_fuel_enough [of f k mark] assms
  by (simp add: async_receive_def receive_rounds_def unread_def)

text \<open>The loop that resends unreliable packets on the clock ends: a packet just sent is due
  only 10 to 30 ms later, so one round for each queued packet is enough, more rounds give the
  same flow, and when the loop stops no packet that is due heads the queue.\<close>
lemma unreliable_resend_ends:
  assumes "m_token f \<noteq> None" and "length (m_unreliable_slist f) \<le> k"
  shows "resend_unreliable k now f = resend_unreliable (length (m_unreliable_slist f)) now f
    \<and> (case m_unreliable_slist (resend_unreliable k now f) of [] \<Rightarrow> True
        | seg # _ \<Rightarrow> \<not> mod_less_equal (us_timeout seg) now)"
proof -
  have "due now f \<le> k" using due_le_length assms(2) le_trans by blast
  then show ?thesis
    using resend_fuel_enough [OF assms(1), of now k]
      resend_fuel_enough [OF assms(1), OF due_le_length [of now f]]
    by (simp split: list.split)
qed

definition datagram_flow :: urdp_flow where
  "datagram_flow = linked_flow\<lparr>m_unreliable_slist :=
     [\<lparr>us_buf = [1], us_id = 1, us_timeout = 4, us_pktID = 1, us_msgType = 7, us_remainXmit = 2,
       us_control = CTRL_UNRELIABLE_DATA\<rparr>]\<rparr>"

end
