(* ===== verification/Urdp_Delivery.thy ===== *)
theory Urdp_Delivery
  imports Urdp_Packets
begin

text \<open>From one flow to another: what \<open>async_send\<close> gives the socket of one flow goes through the
  packet handler of the other, in any order, and reaches its user through \<open>__async_receive\<close>
  message by message. The receiver may have handed up part of the stream when a segment arrives, so
  its segment list begins with what is left of segments half read.\<close>

section \<open>A segment list half read\<close>

fun rchain :: "u32 \<Rightarrow> bytes list \<Rightarrow> r_segment list" where
  "rchain q [] = []"
| "rchain q (a # A) = \<lparr>rs_buf = a, rs_seq = q\<rparr> # rchain (q + of_nat (length a)) A"

lemma rchain_append:
  "rchain q (A @ B) = rchain q A @ rchain (q + of_nat (length (concat A))) B"
  by (induction A arbitrary: q) (simp_all add: add.assoc)

lemma rchain_bufs [simp]: "map rs_buf (rchain q A) = A"
  by (induction A arbitrary: q) simp_all

lemma rchain_member: "g \<in> set (rchain q A) \<Longrightarrow> rs_buf g \<in> set A"
  by (induction A arbitrary: q) auto

lemma rchain_segments:
  "j \<le> k \<Longrightarrow> k \<le> length segs \<Longrightarrow>
     map (rseg b segs) [j..<k] = rchain (b + of_nat (off segs j)) (map ((!) segs) [j..<k])"
proof (induction "k - j" arbitrary: j)
  case (Suc d)
  then have j: "j < k" by simp
  then have "[j..<k] = j # [Suc j..<k]" by (simp add: upt_conv_Cons)
  then show ?case
    using Suc.hyps(1) [of "Suc j"] Suc.hyps(2) Suc.prems j
    by (simp add: rseg_def off_Suc add.assoc)
qed simp

lemma recv_loop_chain:
  assumes "[] \<notin> set A" and "m \<le> length (concat A)"
  shows "\<exists>A'. recv_loop m (rchain q A @ T) = Some (take m (concat A), rchain (q + of_nat m) A' @ T)
    \<and> [] \<notin> set A' \<and> concat A' = drop m (concat A)"
  using assms
proof (induction A arbitrary: m q)
  case Nil
  then show ?case by (cases T) (simp_all add: exI [of _ "[]"])
next
  case (Cons a A)
  consider "m = 0" | "0 < m" "m < length a" | "0 < m" "length a \<le> m" by linarith
  then show ?case
  proof cases
    case 1
    then show ?thesis using Cons.prems by (intro exI [of _ "a # A"]) simp
  next
    case 2
    then show ?thesis
      using Cons.prems by (intro exI [of _ "drop m a # A"]) (simp add: Let_def)
  next
    case 3
    then have "m - length a \<le> length (concat A)" using Cons.prems(2) by simp
    then obtain A' where "recv_loop (m - length a) (rchain (q + of_nat (length a)) A @ T) =
        Some (take (m - length a) (concat A), rchain (q + of_nat (length a) + of_nat (m - length a)) A' @ T)"
      and A': "[] \<notin> set A'" "concat A' = drop (m - length a) (concat A)"
      using Cons.IH [of "m - length a" "q + of_nat (length a)"] Cons.prems(1) by auto
    moreover have "q + of_nat (length a) + of_nat (m - length a) = q + of_nat m"
      using 3(2) by (simp add: of_nat_diff)
    ultimately show ?thesis
      using 3 by (intro exI [of _ A']) (simp add: Let_def)
  qed
qed

text \<open>The receiver has the segments \<open>R\<close>, of which the first \<open>p\<close> bytes are handed up.\<close>

definition holds_from :: "u32 \<Rightarrow> bytes list \<Rightarrow> nat \<Rightarrow> nat set \<Rightarrow> urdp_flow \<Rightarrow> bool" where
  "holds_from b segs p R f \<longleftrightarrow> R \<subseteq> {..<length segs} \<and> p \<le> off segs (first_gap R)
     \<and> (\<exists>A ys. [] \<notin> set A \<and> concat A = drop p (concat (take (first_gap R) segs))
          \<and> sorted_wrt (<) ys \<and> set ys = {i \<in> R. first_gap R < i}
          \<and> m_rlist f = rchain (b + of_nat p) A @ map (rseg b segs) ys)
     \<and> m_rcv_nxt f = b + of_nat (off segs (first_gap R))
     \<and> m_rlen f = of_nat (off segs (first_gap R) - p) \<and> m_shutdown f = SD_NONE"

lemma holds_fromI:
  assumes "R \<subseteq> {..<length segs}" and "k = first_gap R" and "p \<le> off segs k"
    and "[] \<notin> set A" and "concat A = drop p (concat (take k segs))"
    and "sorted_wrt (<) ys" and "set ys = {i \<in> R. k < i}"
    and "m_rlist f = rchain (b + of_nat p) A @ map (rseg b segs) ys"
    and "m_rcv_nxt f = b + of_nat (off segs k)" and "m_rlen f = of_nat (off segs k - p)"
    and "m_shutdown f = SD_NONE"
  shows "holds_from b segs p R f"
  unfolding holds_from_def assms(2) [symmetric] using assms(1,3-11) by blast

lemma holds_fromE:
  assumes "holds_from b segs p R f"
  obtains A ys where "[] \<notin> set A" "concat A = drop p (concat (take (first_gap R) segs))"
    "sorted_wrt (<) ys" "set ys = {i \<in> R. first_gap R < i}"
    "m_rlist f = rchain (b + of_nat p) A @ map (rseg b segs) ys"
  using assms by (auto simp: holds_from_def)

lemma holds_fromD:
  assumes "holds_from b segs p R f"
  shows "R \<subseteq> {..<length segs}" "p \<le> off segs (first_gap R)" "finite R" "first_gap R \<le> length segs"
    "m_rcv_nxt f = b + of_nat (off segs (first_gap R))"
    "m_rlen f = of_nat (off segs (first_gap R) - p)" "m_shutdown f = SD_NONE"
  using assms first_gap_le by (auto simp: holds_from_def intro: finite_subset)

lemma holds_from_start:
  "m_rlist f = [] \<Longrightarrow> m_rlen f = 0 \<Longrightarrow> m_rcv_nxt f = b \<Longrightarrow> m_shutdown f = SD_NONE \<Longrightarrow>
     holds_from b segs 0 {} f"
  by (simp add: holds_from_def first_gap_def exI [of _ "[]"])

lemma holds_from_full:
  assumes "cut_ok b segs" and "holds_from b segs p R f"
  shows "full_bufs f" and "readable f = drop p (concat (take (first_gap R) segs))"
proof -
  let ?k = "first_gap R"
  note d = holds_fromD [OF assms(2)]
  obtain A ys where A: "[] \<notin> set A" "concat A = drop p (concat (take ?k segs))"
    "set ys = {i \<in> R. ?k < i}" and rl: "m_rlist f = rchain (b + of_nat p) A @ map (rseg b segs) ys"
    using assms(2) by (rule holds_fromE)
  have len: "length (concat A) = off segs ?k - p" by (simp add: A(2) off_def)
  have "unat (m_rlen f) = off segs ?k - p"
    using off_bound(1) [OF assms(1) d(4)] by (simp add: d(6) unsigned_of_nat take_bit_nat_eq_self)
  then have n: "unat (m_rlen f) = length (concat A)" by (simp add: len)
  have "segs ! i \<noteq> []" if "i \<in> set ys" for i
    using that A(3) d(1) assms(1) by (metis (no_types, lifting) cut_ok_def lessThan_iff mem_Collect_eq nth_mem subsetD)
  moreover have "rs_buf g \<noteq> []" if "g \<in> set (rchain (b + of_nat p) A)" for g
    using rchain_member [OF that] A(1) by auto
  ultimately have "rs_buf g \<noteq> []" if "g \<in> set (m_rlist f)" for g
    using that unfolding rl by (auto simp: rseg_def)
  then show "full_bufs f" by (simp add: full_bufs_def n rl)
  show "readable f = drop p (concat (take ?k segs))"
    by (simp add: readable_def n rl flip: A(2))
qed

section \<open>A segment arrives\<close>

lemma oset_insert_after:
  "\<forall>y \<in> set xs. lt y x \<Longrightarrow> oset_insert lt x (xs @ ys) = xs @ oset_insert lt x ys"
  by (induction xs) auto

lemma rchain_seq:
  "g \<in> set (rchain (b + of_nat p) A) \<Longrightarrow>
     \<exists>m. rs_seq g = b + of_nat m \<and> m + length (rs_buf g) \<le> p + length (concat A)"
proof (induction A arbitrary: p)
  case (Cons a A)
  show ?case
  proof (cases "g \<in> set (rchain (b + of_nat (p + length a)) A)")
    case True
    then show ?thesis using Cons.IH [OF True] by auto
  next
    case False
    then show ?thesis using Cons.prems by (intro exI [of _ p]) (simp add: add.assoc)
  qed
qed simp

lemma rchain_before:
  assumes "cut_ok b segs" and "[] \<notin> set A" and "p + length (concat A) \<le> off segs i" and "i < length segs"
  shows "\<forall>g \<in> set (rchain (b + of_nat p) A). rs_less g (rseg b segs i)"
proof
  fix g
  assume g: "g \<in> set (rchain (b + of_nat p) A)"
  obtain m where m: "rs_seq g = b + of_nat m" "m + length (rs_buf g) \<le> p + length (concat A)"
    using rchain_seq [OF g] by blast
  have "rs_buf g \<noteq> []" using rchain_member [OF g] assms(2) by auto
  then have "m < off segs i" using m(2) assms(3) by (cases "rs_buf g") auto
  moreover have "off segs i < 2 ^ 31" using off_bound(1) [OF assms(1)] assms(4) by simp
  ultimately show "rs_less g (rseg b segs i)"
    using offset_less [of m "off segs i" b] by (simp add: rs_less_def rseg_def m(1))
qed

lemma absorb_rchain:
  assumes "p + length (concat A) \<le> e" and "e < 2 ^ 31"
  shows "absorb rlen (b + of_nat e) new (rchain (b + of_nat p) A @ T) = absorb rlen (b + of_nat e) new T"
  using assms(1)
proof (induction A arbitrary: p)
  case (Cons a A)
  have "mod_less_equal (b + of_nat p) (b + of_nat e)" "\<not> mod_less (b + of_nat e) (b + of_nat (p + length a))"
    using offset_less_equal [of p e b] offset_less [of e "p + length a" b] Cons.prems assms(2) by simp_all
  then show ?case
    using absorb_step [of "\<lparr>rs_buf = a, rs_seq = b + of_nat p\<rparr>" "b + of_nat p" "b + of_nat (p + length a)"
        rlen "b + of_nat e" new "rchain (b + of_nat (p + length a)) A @ T"] Cons.IH [of "p + length a"] Cons.prems
    by (simp add: add.assoc)
qed simp

lemma insert_before_all: "\<forall>y \<in> set ys. k < y \<Longrightarrow> oset_insert (<) k ys = k # (ys :: nat list)"
  by (cases ys) auto

lemma first_gap_insert_more:
  assumes "finite R"
  shows "Suc (first_gap R) \<le> first_gap (insert (first_gap R) R)"
proof (rule ccontr)
  let ?k = "first_gap R" and ?j = "first_gap (insert (first_gap R) R)"
  assume "\<not> Suc ?k \<le> ?j"
  then have "?j = ?k \<or> ?j < ?k" by linarith
  then have "?j \<in> insert ?k R" using first_gap(2) [OF assms] by auto
  then show False using first_gap(1) [of "insert ?k R"] assms by simp
qed

lemma take_nth_upt:
  assumes "j \<le> k" and "k \<le> length segs"
  shows "take j segs @ map ((!) segs) [j..<k] = take k segs"
  by (rule nth_equalityI) (use assms in \<open>auto simp: nth_append\<close>)

text \<open>When the segment at the gap arrives, the gap moves over what was waiting behind it.\<close>

lemma gap_closes:
  assumes "finite R" and "k = first_gap R" and "k' = first_gap (insert k R)"
    and "sorted_wrt (<) ys" and ys: "set ys = {i \<in> R. k < i}"
  shows "\<exists>zs. k # ys = [k..<k'] @ zs \<and> sorted_wrt (<) zs \<and> set zs = {i \<in> insert k R. k' < i}"
    and "advance k (k # ys) = k'"
proof -
  have below: "{..<k} \<subseteq> R" and below': "{..<k'} \<subseteq> insert k R"
    using first_gap_subset [of R] first_gap_subset [of "insert k R"] assms(1-3) by simp_all
  have sorted: "sorted_wrt (<) (k # ys)" using assms(4) by (simp add: ys)
  have covers: "{k..<k'} \<subseteq> set (k # ys)"
  proof
    fix x
    assume "x \<in> {k..<k'}"
    then have "x \<in> insert k R" and "k \<le> x" using below' by auto
    then show "x \<in> set (k # ys)" unfolding list.set ys by (cases "x = k") simp_all
  qed
  have from_k: "set (k # ys) \<subseteq> {k..}" by (simp add: ys subset_iff)
  obtain zs where zs: "k # ys = [k..<k'] @ zs"
    using sorted_prefix [OF sorted covers from_k] by (elim exE)
  have more: "k < k'" using first_gap_insert_more [OF assms(1)] assms(2,3) by simp
  have "set zs = {i \<in> insert k R. k' < i}"
  proof -
    have eq: "insert k {i \<in> R. k < i} = {k..<k'} \<union> set zs" using arg_cong [OF zs, of set] by (simp add: ys)
    have past: "z \<notin> {k..<k'}" if "z \<in> set zs" for z
      using that sorted unfolding zs by (auto simp: sorted_wrt_append)
    have gap: "k' \<noteq> k" "k' \<notin> R"
      using first_gap(1) [of "insert k R"] assms(1) by (simp_all add: assms(3))
    have "i \<in> set zs \<longleftrightarrow> (i = k \<or> i \<in> R) \<and> k' < i" for i
    proof -
      have mem: "(i = k \<or> i \<in> R \<and> k < i) = (k \<le> i \<and> i < k' \<or> i \<in> set zs)"
        using arg_cong [OF eq, of "\<lambda>S. i \<in> S"] by simp
      consider "i < k" | "k \<le> i" "i < k'" | "i = k'" | "k' < i" by linarith
      then show ?thesis
        using mem past [of i] gap more by cases auto
    qed
    then show ?thesis by auto
  qed
  then show "\<exists>zs. k # ys = [k..<k'] @ zs \<and> sorted_wrt (<) zs \<and> set zs = {i \<in> insert k R. k' < i}"
    using zs sorted by (intro exI [of _ zs]) (simp add: sorted_wrt_append)
  show "advance k (k # ys) = k'"
    unfolding assms(3)
  proof (rule first_gapI [symmetric])
    show "advance k (k # ys) \<notin> insert k R"
      using advance_gap [OF sorted, of k] advance_ge [of "Suc k" ys] by (simp add: ys)
    show "{..<advance k (k # ys)} \<subseteq> insert k R"
          proof
      fix x
      assume x: "x \<in> {..<advance k (k # ys)}"
      then have "x < k \<or> x \<in> set (k # ys)"
        using subsetD [OF advance_covers [of k "k # ys"], of x] by (simp del: advance.simps) linarith
      then show "x \<in> insert k R" using below by (simp add: ys) blast
    qed
  qed
qed

lemma holds_from_gap:
  assumes "cut_ok b segs" and "holds_from b segs p R f" and "first_gap R < length segs"
    and "process_data True (b + of_nat (off segs (first_gap R))) (segs ! first_gap R) f = (new, f')"
  shows "holds_from b segs p (insert (first_gap R) R) f' \<and> new"
proof -
  define k k' where "k = first_gap R" and "k' = first_gap (insert k R)"
  note d = holds_fromD [OF assms(2), folded k_def] and assms = assms [folded k_def]
  obtain A ys where A: "[] \<notin> set A" "concat A = drop p (concat (take k segs))"
    and ys: "sorted_wrt (<) ys" "set ys = {i \<in> R. k < i}"
    and rl: "m_rlist f = rchain (b + of_nat p) A @ map (rseg b segs) ys"
    using assms(2) unfolding k_def by (rule holds_fromE)
  have pA: "p + length (concat A) = off segs k" using d(2) by (simp add: A(2) flip: off_def)
  have R': "insert k R \<subseteq> {..<length segs}" using d(1) assms(3) by simp
  have more: "Suc k \<le> k'" unfolding k_def k'_def by (rule first_gap_insert_more [OF d(3)])
  have le: "k' \<le> length segs" unfolding k'_def by (rule first_gap_le [OF R'])
  have sub: "set (k # ys) \<subseteq> {..<length segs}"
    using ys d(1) assms(3) by auto
  obtain zs where zs: "k # ys = [k..<k'] @ zs" "sorted_wrt (<) zs" "set zs = {i \<in> insert k R. k' < i}"
    using gap_closes(1) [OF d(3) k_def k'_def ys] by blast
  note adv = gap_closes(2) [OF d(3) k_def k'_def ys]
  let ?seg = "\<lparr>rs_buf = segs ! k, rs_seq = b + of_nat (off segs k)\<rparr>"
  have ins: "oset_insert rs_less ?seg (m_rlist f) = rchain (b + of_nat p) A @ map (rseg b segs) (k # ys)"
    using oset_insert_after [of "rchain (b + of_nat p) A" rs_less "rseg b segs k" "map (rseg b segs) ys"]
      rchain_before [OF assms(1) A(1) eq_refl [OF pA] assms(3)]
      rseg_insert [OF assms(1,3), of ys] insert_before_all [of ys k] sub
    by (simp add: rl rseg_def ys(2))
  have data: "segs ! k \<noteq> []" using assms(1,3) by (metis cut_ok_def nth_mem)
  have mono: "off segs k \<le> off segs k'" using off_mono [of k k' segs] more by simp
  have rlen: "of_nat (off segs k - p) + (of_nat (off segs k') - of_nat (off segs k))
      = (of_nat (off segs k' - p) :: u32)"
    using mono d(2) by (simp add: of_nat_diff)
  note small = off_bound(1) [OF assms(1) d(4)]
  have ab: "absorb (of_nat (off segs k - p)) (b + of_nat (off segs k)) False
      (rchain (b + of_nat p) A @ map (rseg b segs) (k # ys)) =
    (True, of_nat (off segs k' - p), b + of_nat (off segs k'))"
    unfolding absorb_rchain [OF eq_refl [OF pA] small] absorb_rsegs [OF assms(1) sub d(4)] adv rlen
    using more by simp
  have f': "new" "f' = (store_segment (b + of_nat (off segs k)) (segs ! k) f)
      \<lparr>m_rlen := of_nat (off segs k' - p), m_rcv_nxt := b + of_nat (off segs k')\<rparr>"
    using assms(4) unfolding process_data_store [OF data d(7)] d(5,6) store_segment_fields ins ab Let_def
    by simp_all
  let ?A = "A @ map ((!) segs) [k..<k']"
  have rl': "m_rlist f' = rchain (b + of_nat p) ?A @ map (rseg b segs) zs"
  proof -
    have stand: "b + of_nat p + of_nat (length (concat A)) = b + of_nat (off segs k)"
      by (simp add: add.assoc flip: of_nat_add pA)
    show ?thesis
      unfolding rchain_append stand
      using more le by (simp add: f'(2) ins zs(1) rchain_segments del: list.map)
  qed
  have "[] \<notin> set ?A"
    using A(1) assms(1) le by (auto simp: cut_ok_def) (metis nth_mem order_less_le_trans)
  moreover have "concat ?A = drop p (concat (take k' segs))"
  proof -
    have "concat (take k' segs) = concat (take k segs) @ concat (map ((!) segs) [k..<k'])"
      using take_nth_upt [of k k' segs] more le by (simp flip: concat_append)
    then show ?thesis using d(2) by (simp add: A(2) off_def)
  qed
  ultimately have "holds_from b segs p (insert k R) f'"
    using d(2) mono d(7) by (intro holds_fromI [OF R' k'_def _ _ _ zs(2,3) rl']) (simp_all add: f'(2))
  then show ?thesis using f'(1) by (simp add: k_def)
qed

lemma holds_from_later:
  assumes "cut_ok b segs" and "holds_from b segs p R f" and "first_gap R < i" and "i < length segs"
    and "process_data True (b + of_nat (off segs i)) (segs ! i) f = (new, f')"
  shows "holds_from b segs p (insert i R) f' \<and> \<not> new"
proof -
  let ?k = "first_gap R"
  note d = holds_fromD [OF assms(2)]
  obtain A ys where A: "[] \<notin> set A" "concat A = drop p (concat (take ?k segs))"
    and ys: "sorted_wrt (<) ys" "set ys = {i \<in> R. ?k < i}"
    and rl: "m_rlist f = rchain (b + of_nat p) A @ map (rseg b segs) ys"
    using assms(2) by (rule holds_fromE)
  have pA: "p + length (concat A) \<le> off segs i"
    using d(2) off_mono [of ?k i segs] assms(3) by (simp add: A(2) flip: off_def)
  have sub: "set ys \<subseteq> {..<length segs}" using ys(2) d(1) by auto
  have data: "segs ! i \<noteq> []" using assms(1,4) by (metis cut_ok_def nth_mem)
  have ahead: "b + of_nat (off segs i) \<noteq> b + of_nat (off segs ?k)"
    using seq_less(4) [OF assms(1), of i ?k] d(4) assms(3,4) by simp
  have ins: "oset_insert rs_less \<lparr>rs_buf = segs ! i, rs_seq = b + of_nat (off segs i)\<rparr> (m_rlist f)
      = rchain (b + of_nat p) A @ map (rseg b segs) (oset_insert (<) i ys)"
    using oset_insert_after [of "rchain (b + of_nat p) A" rs_less "rseg b segs i" "map (rseg b segs) ys"]
      rchain_before [OF assms(1) A(1) pA assms(4)] rseg_insert [OF assms(1,4) sub]
    by (simp add: rl rseg_def)
  have f': "f' = store_segment (b + of_nat (off segs i)) (segs ! i) f" "\<not> new"
    using assms(5) ahead by (auto simp: process_data_store [OF data d(7)] d(5) Let_def)
  have gap: "?k = first_gap (insert i R)"
    using first_gap_insert_other [OF d(3), of i] assms(3) by simp
  have "set (oset_insert (<) i ys) = {j \<in> insert i R. ?k < j}"
    unfolding index_insert(2) [OF ys(1)] ys(2) using assms(3) by blast
  then have "holds_from b segs p (insert i R) f'"
    using d assms(4) A ins by (intro holds_fromI [OF _ gap _ A index_insert(1) [OF ys(1)]]) (simp_all add: f'(1))
  then show ?thesis using f'(2) by simp
qed

text \<open>A segment that is handed to \<open>accept_data\<close>: the segments received are those before and this one,
  and the handler has something new to read exactly when the segment is the one at the gap.\<close>

lemma holds_from_accept:
  assumes "cut_ok b segs" and "holds_from b segs p R f" and "i < length segs"
    and "accept_data True (b + of_nat (off segs i)) (segs ! i) f = (new, f')"
  shows "holds_from b segs p (insert i R) f' \<and> (new \<longleftrightarrow> i = first_gap R)"
proof -
  note d = holds_fromD [OF assms(2)]
  consider "i < first_gap R" | "i = first_gap R" | "first_gap R < i" by linarith
  then show ?thesis
  proof cases
    case 1
    then have "insert i R = R" using first_gap(2) [OF d(3)] by auto
    then show ?thesis using accept_old [OF assms(1) d(4,5) 1] assms(2,4) 1 by simp
  next
    case 2
    then show ?thesis
      using accept_ahead [OF assms(1) d(5), of i] holds_from_gap [OF assms(1,2)] assms(3,4) by simp
  next
    case 3
    then show ?thesis
      using accept_ahead [OF assms(1) d(5), of i] holds_from_later [OF assms(1,2) 3 assms(3), of new f'] assms(3,4) 3 by simp
  qed
qed

section \<open>A message is read\<close>

lemma holds_from_recv:
  assumes "cut_ok b segs" and "holds_from b segs p R f" and "recv_loop m (m_rlist f) = Some (bs, rl)"
    and "p + m \<le> off segs (first_gap R)"
  shows "holds_from b segs (p + m) R (f\<lparr>m_rlist := rl, m_rlen := m_rlen f - of_nat m\<rparr>)"
proof -
  let ?k = "first_gap R"
  note d = holds_fromD [OF assms(2)]
  obtain A ys where A: "[] \<notin> set A" "concat A = drop p (concat (take ?k segs))"
    and ys: "sorted_wrt (<) ys" "set ys = {i \<in> R. ?k < i}"
    and rl: "m_rlist f = rchain (b + of_nat p) A @ map (rseg b segs) ys"
    using assms(2) by (rule holds_fromE)
  have "m \<le> length (concat A)" using assms(4) by (simp add: A(2) flip: off_def)
  from recv_loop_chain [OF A(1) this, of "b + of_nat p" "map (rseg b segs) ys"] obtain A' where
    A': "rl = rchain (b + of_nat p + of_nat m) A' @ map (rseg b segs) ys" "[] \<notin> set A'"
      "concat A' = drop m (concat A)"
    using assms(3) by (auto simp: rl)
  have "concat A' = drop (p + m) (concat (take ?k segs))" by (simp add: A'(3) A(2) add.commute)
  moreover have "of_nat (off segs ?k - p) - of_nat m = (of_nat (off segs ?k - (p + m)) :: u32)"
    using assms(4) by (simp add: of_nat_diff)
  ultimately show ?thesis
    using d A'(1,2) ys assms(4) by (intro holds_fromI [OF d(1) refl assms(4) A'(2) _ ys]) (simp_all add: add.assoc)
qed

section \<open>A receiver with nothing to send\<close>

text \<open>What the user has been given so far.\<close>

definition got :: "urdp_flow \<Rightarrow> bytes list" where
  "got f = concat (map (\<lambda>e. case e of On_received buf \<Rightarrow> [buf] | _ \<Rightarrow> []) (f_outs f))"

text \<open>The flow is established, its owner takes messages (\<open>keep_async_receiving\<close>) and has not
  cancelled it, nothing of its own waits to be sent or acknowledged, it has its timer, its registration
  with the layer and no unreliable packet to read, and no part of it has met a null pointer.\<close>

definition idle :: "urdp_flow \<Rightarrow> bool" where
  "idle f \<longleftrightarrow> m_socket f \<and> m_state f = ESTABLISHED \<and> m_unreliable_rlist f = [] \<and> \<not> flow_canceled f
     \<and> b_keep_recving f \<and> m_slist f = [] \<and> m_snd_una f = m_snd_nxt f \<and> m_token f \<noteq> None
     \<and> f_fault f = None \<and> m_timer f \<noteq> Timer_gone"

definition link where
  "link f = (m_socket f, m_state f, m_unreliable_rlist f, m_mark f, b_keep_recving f, m_slist f,
     m_snd_una f, m_snd_nxt f, m_token f, f_fault f, m_timer f = Timer_gone, m_session_id f,
     m_remote_endpoint f)"

definition inbox where
  "inbox f = (m_rlist f, m_rlen f, m_rcv_nxt f, m_shutdown f, m_detect_readable f, got f)"

lemma idle_link: "link f = link g \<Longrightarrow> idle f = idle g"
  by (simp add: link_def idle_def flow_canceled_def)

lemma holds_from_inbox: "inbox f = inbox g \<Longrightarrow> holds_from b segs p R f = holds_from b segs p R g"
  by (simp add: inbox_def holds_from_def)

lemma inbox_got: "inbox f = inbox g \<Longrightarrow> got f = got g"
  and inbox_detect: "inbox f = inbox g \<Longrightarrow> m_detect_readable f = m_detect_readable g"
  by (simp_all add: inbox_def)

lemma got_emit [simp]:
  "got (emit e f) = got f @ (case e of On_received buf \<Rightarrow> [buf] | _ \<Rightarrow> [])"
  by (simp add: got_def emit_def)

lemma link_emit [simp]: "link (emit e f) = link f"
  by (simp add: link_def emit_def)

lemma packet_idle:
  assumes "m_token f \<noteq> None"
  shows "link (packet_as_reliable_and_sendout q c d now f) = link f"
    and "inbox (packet_as_reliable_and_sendout q c d now f) = inbox f"
  using assms
  by (auto simp: link_def inbox_def packet_as_reliable_and_sendout_def layer_async_send_to_def got_def
      emit_def Let_def)

lemma attempt_send_idle:
  assumes "idle f"
  shows "link (attempt_send fl f) = link f" and "inbox (attempt_send fl f) = inbox f"
proof -
  have cwnd: "link (f\<lparr>m_cwnd := c, m_t_ack := t\<rparr>) = link f" "inbox (f\<lparr>m_cwnd := c, m_t_ack := t\<rparr>) = inbox f"
    "link (f\<lparr>m_cwnd := c\<rparr>) = link f" "inbox (f\<lparr>m_cwnd := c\<rparr>) = inbox f"
    "link (f\<lparr>m_t_ack := t\<rparr>) = link f" "inbox (f\<lparr>m_t_ack := t\<rparr>) = inbox f" for c t
    by (simp_all add: link_def inbox_def got_def)
  show "link (attempt_send fl f) = link f" "inbox (attempt_send fl f) = inbox f"
    using assms packet_idle
    by (simp_all add: attempt_send_def attempt_send_loop_Nil cwnd idle_def Let_def)
qed

lemma reschedule_idle:
  assumes "m_timer f \<noteq> Timer_gone"
  shows "link (reschedule now f) = link f" and "inbox (reschedule now f) = inbox f"
  using assms
  by (auto simp: reschedule_def schedule_timer_def timer_async_wait_def link_def inbox_def got_def
      emit_def Let_def split: option.splits)

lemma window_idle:
  assumes "idle f"
  shows "link (update_recv_window f) = link f" and "inbox (update_recv_window f) = inbox f"
proof -
  have wnd: "link (f\<lparr>m_rcv_wnd := w\<rparr>) = link f" "inbox (f\<lparr>m_rcv_wnd := w\<rparr>) = inbox f"
    "idle (f\<lparr>m_rcv_wnd := w\<rparr>)" for w
    using assms by (simp_all add: link_def inbox_def got_def idle_def flow_canceled_def)
  show "link (update_recv_window f) = link f" "inbox (update_recv_window f) = inbox f"
    by (simp_all add: update_recv_window_def attempt_send_idle wnd Let_def)
qed

lemma writeable_idle:
  assumes "idle f"
  shows "link (allert_writeable f) = link f" and "inbox (allert_writeable f) = inbox f"
  using assms by (auto simp: allert_writeable_def idle_def link_def inbox_def emit_def got_def)

section \<open>The receive loop hands up what is complete\<close>

text \<open>The user has been given the first \<open>q\<close> messages; and none of the others is complete.\<close>

definition reading :: "bytes list \<Rightarrow> u32 \<Rightarrow> bytes list \<Rightarrow> (u16 \<times> bytes) list \<Rightarrow> nat set \<Rightarrow> nat \<Rightarrow> urdp_flow \<Rightarrow> bool" where
  "reading g b segs ms R q f \<longleftrightarrow> idle f \<and> q \<le> length ms
     \<and> holds_from b segs (length (frames (take q ms))) R f \<and> got f = g @ map handed_up (take q ms)"

definition at_rest :: "bytes list \<Rightarrow> u32 \<Rightarrow> bytes list \<Rightarrow> (u16 \<times> bytes) list \<Rightarrow> nat set \<Rightarrow> nat \<Rightarrow> urdp_flow \<Rightarrow> bool" where
  "at_rest g b segs ms R q f \<longleftrightarrow> reading g b segs ms R q f
     \<and> (q < length ms \<longrightarrow> off segs (first_gap R) < length (frames (take (Suc q) ms)))"

definition stream_of :: "u32 \<Rightarrow> bytes list \<Rightarrow> (u16 \<times> bytes) list \<Rightarrow> bool" where
  "stream_of b segs ms \<longleftrightarrow> cut_ok b segs \<and> concat segs = frames ms \<and> (\<forall>m \<in> set ms. length (snd m) < 65536)"

lemma reading_view:
  assumes "link f = link g" and "inbox f = inbox g"
  shows "reading h b segs ms R q f = reading h b segs ms R q g"
  unfolding reading_def idle_link [OF assms(1)] holds_from_inbox [OF assms(2)] inbox_got [OF assms(2)] ..

lemma frames_simps [simp]:
  "frames [] = []" "frames (m # ms) = frame_header (length (snd m)) (fst m) @ snd m @ frames ms"
  "frames (ms @ ns) = frames ms @ frames ns"
  by (simp_all add: frames_def case_prod_unfold)

lemma length_frame_header [simp]: "length (frame_header n ty) = 4"
  by (simp add: frame_header_def)

lemma frames_next:
  "q < length ms \<Longrightarrow> length (frames (take (Suc q) ms)) = length (frames (take q ms)) + length (snd (ms ! q)) + 4"
  by (simp add: take_Suc_conv_app_nth)

lemma reading_readable:
  assumes "stream_of b segs ms" and "reading g b segs ms R q f"
  shows "can_recv f"
    and "readable f = take (off segs (first_gap R) - length (frames (take q ms))) (frames (drop q ms))"
proof -
  let ?k = "first_gap R" and ?p = "length (frames (take q ms))"
  have cut: "cut_ok b segs" and h: "holds_from b segs ?p R f"
    using assms by (simp_all add: stream_of_def reading_def)
  show "can_recv f"
    using assms(2) holds_from_full(1) [OF cut h] by (simp add: can_recv_def reading_def idle_def)
  have "concat (take ?k segs) = take (off segs ?k) (concat (take ?k segs @ drop ?k segs))"
    unfolding concat_append by (simp add: off_def)
  also have "\<dots> = take (off segs ?k) (frames (take q ms @ drop q ms))"
    using assms(1) by (simp add: stream_of_def)
  finally show "readable f = take (off segs ?k - ?p) (frames (drop q ms))"
    unfolding holds_from_full(2) [OF cut h] frames_simps
    using holds_fromD(2) [OF h] by (simp add: drop_take)
qed

lemma next_missing:
  assumes "stream_of b segs ms" and "at_rest g b segs ms R q f"
  shows "can_let_transport_read f = Some 0"
proof -
  have r: "reading g b segs ms R q f" using assms(2) by (simp add: at_rest_def)
  note can = reading_readable(1) [OF assms(1) r] and read = reading_readable(2) [OF assms(1) r]
  have len: "length (readable f) = unat (m_rlen f)" using readable_length can by (simp add: can_recv_def)
  show ?thesis
  proof (cases "length (readable f) < 4")
    case True
    then show ?thesis
      using can len by (simp add: can_let_transport_read_def can_recv_def word_less_nat_alt)
  next
    case False
    then have "drop q ms \<noteq> []" using read by auto
    then have q: "q < length ms" by simp
    obtain ty p where m: "ms ! q = (ty, p)" by fastforce
    obtain a c t u where fh: "frame_header (length p) ty = [a, c, t, u]"
      and n: "unat a * 256 + unat c = length p"
      using frame_header_bytes [of "length p" ty] assms(1) m q nth_mem [OF q] by (auto simp: stream_of_def)
    define l where "l = off segs (first_gap R) - length (frames (take q ms))"
    have "frames (drop q ms) = [a, c, t, u] @ p @ frames (drop (Suc q) ms)"
      using q by (simp add: m fh flip: Cons_nth_drop_Suc)
    then have r4: "readable f = take l (a # c # t # u # p @ frames (drop (Suc q) ms))"
      using read by (simp add: l_def)
    have "4 \<le> l" using r4 False by simp
    then obtain l' where l': "l = Suc (Suc l')" by (intro that [of "l - 2"]) simp
    have head: "readable f = a # c # take l' (t # u # p @ frames (drop (Suc q) ms))"
      unfolding r4 l' by (simp only: take_Suc_Cons)
    have short: "length (readable f) < length p + 4"
      using assms(2) q frames_next [OF q] read unfolding at_rest_def m snd_conv by simp linarith
    show ?thesis
      unfolding can_let_transport_read_spec [OF can head] n Let_def using short by simp
  qed
qed

lemma recv_next:
  assumes "stream_of b segs ms" and "reading g b segs ms R q f" and "q < length ms"
    and "length (frames (take (Suc q) ms)) \<le> off segs (first_gap R)"
  shows "\<exists>f'. recv f = (no_error, handed_up (ms ! q), f') \<and> link f' = link f
    \<and> reading g b segs ms R (Suc q) (emit (On_received (handed_up (ms ! q))) f')"
proof -
  let ?p = "length (frames (take q ms))"
  obtain ty p where m: "ms ! q = (ty, p)" by fastforce
  define n where "n = length p + 4"
  note next_frame = frames_next [OF assms(3), unfolded m snd_conv]
  have cut: "cut_ok b segs" and p: "length p < 65536"
    using assms(1) nth_mem [OF assms(3)] m by (auto simp: stream_of_def)
  have r: "idle f" "holds_from b segs ?p R f" "got f = g @ map handed_up (take q ms)"
    using assms(2) by (simp_all add: reading_def)
  note can = reading_readable [OF assms(1,2)]
  define l where "l = off segs (first_gap R) - ?p - n"
  have l: "off segs (first_gap R) - ?p = n + l" using assms(4) next_frame by (simp add: l_def n_def)
  have "frames (drop q ms) = (frame_header (length p) ty @ p) @ frames (drop (Suc q) ms)"
    using assms(3) by (simp add: m flip: Cons_nth_drop_Suc)
  then have "readable f = frame_header (length p) ty @ p @ take l (frames (drop (Suc q) ms))"
    unfolding can(2) l by (simp add: n_def)
  from recv_message [OF can(1) this p] obtain bs rl where
    rl: "recv_loop n (m_rlist f) = Some (bs, rl)" and
    recv: "recv f = (no_error, handed_up (ms ! q),
        update_recv_window (f\<lparr>m_rlist := rl, m_rlen := m_rlen f - of_nat n\<rparr>))"
    unfolding n_def m handed_up_def by auto
  define f1 where "f1 = f\<lparr>m_rlist := rl, m_rlen := m_rlen f - of_nat n\<rparr>"
  have "holds_from b segs (?p + n) R f1"
    unfolding f1_def using l assms(4) next_frame by (intro holds_from_recv [OF cut r(2) rl]) (simp add: n_def)
  then have h1: "holds_from b segs (length (frames (take (Suc q) ms))) R f1"
    unfolding next_frame by (simp add: n_def add.assoc)
  have f1: "link f1 = link f" "got f1 = got f" by (simp_all add: f1_def link_def got_def)
  have "idle f1" using idle_link [OF f1(1)] r(1) by simp
  note w = window_idle [OF this]
  let ?e = "emit (On_received (handed_up (ms ! q))) (update_recv_window f1)"
  have "idle ?e" using w(1) f1(1) r(1) idle_link [of ?e f] by simp
  moreover have "holds_from b segs (length (frames (take (Suc q) ms))) R ?e"
    using h1 unfolding holds_from_inbox [OF w(2), symmetric] by (simp add: holds_from_def emit_def)
  moreover have "got ?e = g @ map handed_up (take (Suc q) ms)"
    using inbox_got [OF w(2)] f1(2) r(3) assms(3) by (simp add: take_Suc_conv_app_nth)
  ultimately have "reading g b segs ms R (Suc q) ?e" using assms(3) by (simp add: reading_def)
  then show ?thesis using recv w(1) f1(1) unfolding f1_def by auto
qed

lemma receive_loop:
  assumes "stream_of b segs ms" and "reading g b segs ms R q f" and "length ms - q < k"
    and "r = async_receive_fuel k (om_stamp (m_mark f)) f"
  shows "\<exists>q'. at_rest g b segs ms R q' r \<and> m_detect_readable r \<and> link r = link f"
  using assms(2-4)
proof (induction k arbitrary: q f r)
  case (Suc k)
  have idle: "idle f" using Suc.prems(1) by (simp add: reading_def)
  then have on: "\<not> (is_canceled_op (om_stamp (m_mark f)) (m_mark f) \<or> m_state f = CLOSED \<or> \<not> b_keep_recving f)"
    by (simp add: idle_def flow_canceled_def)
  show ?case
  proof (cases "at_rest g b segs ms R q f")
    case True
    define f1 where "f1 = f\<lparr>m_detect_readable := True\<rparr>"
    have f1: "link f1 = link f" "m_timer f1 \<noteq> Timer_gone" "f_fault f1 = None"
      using idle by (simp_all add: f1_def link_def idle_def)
    have "recv f = (would_block, [], f1)"
      using next_missing [OF assms(1) True] idle by (simp add: recv_def idle_def f1_def)
    then have r: "r = reschedule (tick_now f1) f1"
      using on f1(3) by (simp add: Suc.prems(3))
    note view = reschedule_idle [OF f1(2), of "tick_now f1", folded r]
    have "reading g b segs ms R q f1"
      using Suc.prems(1) idle_link [OF f1(1)] by (simp add: reading_def holds_from_def f1_def got_def)
    then have "reading g b segs ms R q r" by (simp add: reading_view [OF view])
    then show ?thesis
      using True view f1(1) inbox_detect [OF view(2)] by (intro exI [of _ q]) (simp add: at_rest_def f1_def)
  next
    case False
    then have q: "q < length ms" "length (frames (take (Suc q) ms)) \<le> off segs (first_gap R)"
      using Suc.prems(1) by (simp_all add: at_rest_def not_less)
    obtain f1 where f1: "recv f = (no_error, handed_up (ms ! q), f1)" "link f1 = link f"
      and next_one: "reading g b segs ms R (Suc q) (emit (On_received (handed_up (ms ! q))) f1)"
      using recv_next [OF assms(1) Suc.prems(1) q] by blast
    let ?e = "emit (On_received (handed_up (ms ! q))) f1"
    have i1: "idle f1" "m_mark f1 = m_mark f" using idle idle_link [OF f1(2)] f1(2) by (simp_all add: link_def)
    then have "allert_received (handed_up (ms ! q)) f1 = ?e" by (simp add: allert_received_def idle_def)
    then have "r = async_receive_fuel k (om_stamp (m_mark ?e)) ?e"
      using on i1 by (simp add: Suc.prems(3) f1(1) idle_def) (simp add: emit_def)
    from Suc.IH [OF next_one _ this] q(1) Suc.prems(2) f1(2) show ?thesis by auto
  qed
qed simp

lemma async_receive_rests:
  assumes "stream_of b segs ms" and "reading g b segs ms R q f"
    and "r = async_receive (om_stamp (m_mark f)) f"
  shows "\<exists>q'. at_rest g b segs ms R q' r \<and> m_detect_readable r \<and> link r = link f"
proof -
  let ?k = "receive_rounds f + Suc (length ms)"
  have "r = async_receive_fuel ?k (om_stamp (m_mark f)) f"
    using receive_loop_ends [of f ?k] assms(3) by simp
  from receive_loop [OF assms(1,2) _ this] show ?thesis by simp
qed

section \<open>A packet goes through the handler\<close>

lemma readable_rests:
  assumes "stream_of b segs ms" and "reading g b segs ms R q f" and "m_detect_readable f"
  shows "\<exists>q'. at_rest g b segs ms R q' (allert_readable f) \<and> m_detect_readable (allert_readable f)
    \<and> link (allert_readable f) = link f"
proof (cases "at_rest g b segs ms R q f")
  case True
  then have "allert_readable f = f"
    using next_missing [OF assms(1) True]
    by (simp add: allert_readable_def at_rest_def reading_def idle_def)
  then show ?thesis using True assms(3) by auto
next
  case False
  have idle: "idle f" using assms(2) by (simp add: reading_def)
  have q: "q < length ms" "length (frames (take (Suc q) ms)) \<le> off segs (first_gap R)"
    using False assms(2) by (simp_all add: at_rest_def not_less)
  obtain f1 where r: "recv f = (no_error, handed_up (ms ! q), f1)"
    using recv_next [OF assms(1,2) q] by blast
  have "handed_up (ms ! q) \<noteq> []" by (simp add: handed_up_def bytes_of_word16)
  then obtain n where n: "can_let_transport_read f = Some n" "n \<noteq> 0"
    using r idle by (auto simp: recv_def idle_def split: option.splits if_splits)
  define f2 where "f2 = f\<lparr>m_detect_readable := False\<rparr>"
  have "link f2 = link f" by (simp add: f2_def link_def)
  then have "reading g b segs ms R q f2"
    using assms(2) idle_link [of f2 f] by (simp add: reading_def holds_from_def f2_def got_def)
  moreover have "allert_readable f = async_receive (om_stamp (m_mark f2)) f2"
    using n idle assms(3) by (simp add: allert_readable_def idle_def f2_def)
  ultimately show ?thesis
    using async_receive_rests [OF assms(1)] \<open>link f2 = link f\<close> by metis
qed

lemma prologue_idle:
  "link (process_prologue p now f) = link f" "inbox (process_prologue p now f) = inbox f"
  by (simp_all add: process_prologue_def calculate_local_to_remote_lost_rate_def
      calc_remote_to_local_lost_rate_def case_prod_unfold Let_def link_def inbox_def got_def)

lemma ack_idle:
  assumes "idle f"
  shows "\<exists>f'. process_ack ackno te w len now f = (False, False, f') \<and> link f' = link f \<and> inbox f' = inbox f"
  using assms
  by (auto simp: process_ack_def idle_def ack_duplicate_def mod_less_def mod_less_equal_def
      wrappable_less_equal_def link_def inbox_def got_def Let_def)

lemma accept_data_link:
  "link (snd (accept_data t q d f)) = link f" "got (snd (accept_data t q d f)) = got f"
  "m_detect_readable (snd (accept_data t q d f)) = m_detect_readable f"
  by (simp_all add: accept_data_def process_data_def store_segment_def case_prod_unfold link_def got_def Let_def)

text \<open>A data packet of the peer, of the flow's session and from its endpoint, passes all checks; its
  acknowledgment finds nothing outstanding, and its payload goes to \<open>accept_data\<close>.\<close>

lemma process_data_packet:
  assumes "idle f" and "p = reliable_packet seq CTRL_DATA data now s" and "m_session_id s = m_session_id f"
  shows "\<exists>ackno fl f3. process p (m_remote_endpoint f) f =
      (True, process_finish ackno fl (fst (accept_data True seq data f3)) False False (tick_now f)
               (snd (accept_data True seq data f3)))
    \<and> link f3 = link f \<and> inbox f3 = inbox f"
proof -
  let ?from = "m_remote_endpoint f" and ?now = "tick_now f"
  define f1 where "f1 = process_prologue p ?now f"
  note f1 = prologue_idle [of p ?now f, folded f1_def]
  have i1: "idle f1" using idle_link [OF f1(1)] assms(1) by simp
  have st: "m_state f1 = ESTABLISHED" "m_state f = ESTABLISHED" "m_remote_endpoint f1 = ?from"
    using i1 assms(1) f1(1) by (simp_all add: idle_def link_def)
  have head: "hdr h p F_control = control_code CTRL_DATA" "hdr h p F_seqno = seq"
    "hdr h p F_session_id = ucast (m_session_id f)" for h
    using packet_header [OF assms(2)] assms(3) by (simp_all add: hdr_def del: control_code.simps)
  have len: "24 \<le> length p" "drop 24 p = data"
    using reliable_packet_get(2,3) [of seq CTRL_DATA now s F_seqno seq data] assms(2)
    by (simp_all add: header_fields_def basic_fields_def reliable_fields_def)
  have "\<not> packet_refused p ?from f" using len(1) head(3) by (simp add: packet_refused_def)
  then have "process p ?from f = process_reliable p ?from ?now f1"
    using st(2) head(1) by (simp add: process_def f1_def Let_def del: control_code.simps)
  also have "\<dots> = process_segment False False p ?from ?now f1"
    using len(1) head(1) by (simp add: process_reliable_def Let_def del: control_code.simps)
  finally have seg: "process p ?from f = process_segment False False p ?from ?now f1" .
  define f2 where "f2 = (let g = f1\<lparr>m_t_lasttraffic := ?now, m_t_lastrecv := ?now\<rparr>
    in if mod_less_equal seq (m_lastack g) \<and> mod_less (m_lastack g) (seq + of_nat (length data))
       then g\<lparr>m_t_recent_now := ucast ?now, m_t_recent := ucast (hdr f1 p F_time_sending)\<rparr> else g)"
  have f2: "link f2 = link f1" "inbox f2 = inbox f1"
    by (simp_all add: f2_def link_def inbox_def got_def Let_def)
  then have "idle f2" using idle_link i1 by blast
  then obtain f3 where ack: "process_ack (hdr f1 p F_ackno) (ucast (hdr f1 p F_time_echo))
      (hdr f1 p F_window) (length data) ?now f2 = (False, False, f3)" "link f3 = link f2" "inbox f3 = inbox f2"
    using ack_idle by blast
  have "\<exists>ackno fl. process p ?from f =
      (True, process_finish ackno fl (fst (accept_data True seq data f3)) False False ?now
               (snd (accept_data True seq data f3)))"
    unfolding seg process_segment_def
    using st len head ack(1) unfolding f2_def
    by (auto simp: case_prod_unfold Let_def simp del: control_code.simps)
  then show ?thesis using ack(2,3) f2 f1 by auto
qed

lemma finish_idle:
  assumes "idle f"
  shows "\<exists>f'. process_finish ackno fl new False False now f = (if new \<and> m_detect_readable f then allert_readable f' else f')
    \<and> link f' = link f \<and> inbox f' = inbox f"
proof -
  note send = attempt_send_idle [OF assms, of fl]
  have idle: "idle (attempt_send fl f)" using idle_link [OF send(1)] assms by simp
  note wr = writeable_idle [OF idle]
  have "m_state f \<noteq> CLOSING" using assms by (simp add: idle_def)
  then show ?thesis
    using send wr inbox_detect [OF send(2)]
    by (cases "m_detect_writable (attempt_send fl f) \<and> unat (m_slen (attempt_send fl f)) < K_IDEAL_REFILL_SIZE")
      (auto simp: process_finish_def Let_def)
qed

text \<open>A segment arrives: the receiver has handed up all that is complete, before and after.\<close>

lemma segment_arrives:
  assumes "stream_of b segs ms" and "at_rest g b segs ms R q f" and "m_detect_readable f"
    and "i < length segs" and "m_session_id s = m_session_id f"
    and "p = reliable_packet (b + of_nat (off segs i)) CTRL_DATA (segs ! i) now s"
    and "r = called_by_sharedlayer_on_recvd p (m_remote_endpoint f) f"
  shows "\<exists>q'. at_rest g b segs ms (insert i R) q' r \<and> m_detect_readable r \<and> link r = link f"
proof -
  have rd: "reading g b segs ms R q f" and idle: "idle f" and cut: "cut_ok b segs"
    using assms(1,2) by (simp_all add: at_rest_def reading_def stream_of_def)
  obtain ackno fl f3 new f4 where p: "process p (m_remote_endpoint f) f =
      (True, process_finish ackno fl new False False (tick_now f) f4)"
    and acc: "accept_data True (b + of_nat (off segs i)) (segs ! i) f3 = (new, f4)"
    and f3: "link f3 = link f" "inbox f3 = inbox f"
    using process_data_packet [OF idle assms(6,5)] by (metis prod.collapse)
  have r: "r = process_finish ackno fl new False False (tick_now f) f4"
    by (simp add: assms(7) called_by_sharedlayer_on_recvd_def p)
  have f4: "link f4 = link f" "got f4 = got f" "m_detect_readable f4"
    using accept_data_link [of True "b + of_nat (off segs i)" "segs ! i" f3] acc f3(1)
      inbox_got [OF f3(2)] inbox_detect [OF f3(2)] assms(3) by simp_all
  have "reading g b segs ms R q f3" using rd reading_view [OF f3] by simp
  then have "holds_from b segs (length (frames (take q ms))) (insert i R) f4 \<and> (new \<longleftrightarrow> i = first_gap R)"
    using holds_from_accept [OF cut _ assms(4) acc, of "length (frames (take q ms))" R]
    by (simp add: reading_def)
  then have rd4: "reading g b segs ms (insert i R) q f4" and new: "new \<longleftrightarrow> i = first_gap R"
    using rd f4(2) idle_link [OF f4(1)] by (simp_all add: reading_def)
  have "idle f4" using idle_link [OF f4(1)] idle by simp
  then obtain f5 where f5: "r = (if new then allert_readable f5 else f5)" "link f5 = link f4" "inbox f5 = inbox f4"
    using finish_idle [of f4 ackno fl new "tick_now f"] f4(3) unfolding r by auto
  have rd5: "reading g b segs ms (insert i R) q f5" using rd4 reading_view [OF f5(2,3)] by simp
  have detect: "m_detect_readable f5" using inbox_detect [OF f5(3)] f4(3) by simp
  show ?thesis
  proof (cases new)
    case True
    then show ?thesis using readable_rests [OF assms(1) rd5 detect] f5 f4(1) by simp
  next
    case False
    then have "first_gap (insert i R) = first_gap R"
      using new rd by (intro first_gap_insert_other) (auto simp: reading_def dest: holds_fromD(3))
    then have "at_rest g b segs ms (insert i R) q f5" using rd5 assms(2) by (simp add: at_rest_def)
    then show ?thesis using False f5 f4(1) detect by auto
  qed
qed

section \<open>What the sender gives its socket\<close>

fun payload :: "effect \<Rightarrow> bytes list" where
  "payload (Socket_send_to d ep) = [d]"
| "payload e = []"

text \<open>The datagrams handed to the socket between two states of a flow.\<close>

definition datagrams :: "urdp_flow \<Rightarrow> urdp_flow \<Rightarrow> bytes list" where
  "datagrams f f' = concat (map payload (drop (length (f_outs f)) (f_outs f')))"

text \<open>A datagram that carries a segment: the packet a flow of the session builds for it at some time,
  in whatever state it then is, so that a retransmission of the segment is one too.\<close>

definition carries :: "u16 \<Rightarrow> s_segment \<Rightarrow> bytes \<Rightarrow> bool" where
  "carries sid g d \<longleftrightarrow> (\<exists>now f. m_session_id f = sid
     \<and> d = zero_8_bytes @ reliable_packet (ss_seq g) (ss_ctrl g) (ss_buf g) now f)"

lemma carries_xmit [simp]: "carries sid (g\<lparr>ss_xmit := x\<rparr>) d = carries sid g d"
  by (simp add: carries_def)

text \<open>New effects of a flow that carry new segments.\<close>

definition puts_out :: "urdp_flow \<Rightarrow> s_segment list \<Rightarrow> urdp_flow \<Rightarrow> bool" where
  "puts_out f gs f' \<longleftrightarrow> (\<exists>es. f_outs f' = f_outs f @ es
     \<and> list_all2 (carries (m_session_id f)) gs (concat (map payload es)))"

lemma puts_out_datagrams: "puts_out f gs f' \<Longrightarrow> list_all2 (carries (m_session_id f)) gs (datagrams f f')"
  by (auto simp: puts_out_def datagrams_def)

lemma puts_out_refl: "f_outs f' = f_outs f \<Longrightarrow> puts_out f [] f'"
  by (simp add: puts_out_def)

lemma puts_out_trans:
  assumes "puts_out f gs f1" and "puts_out f1 hs f2" and "m_session_id f1 = m_session_id f"
  shows "puts_out f (gs @ hs) f2"
  using assms by (fastforce simp: puts_out_def intro: list_all2_appendI)

lemma puts_out_same:
  "f_outs g = f_outs f \<Longrightarrow> m_session_id g = m_session_id f \<Longrightarrow> puts_out g gs f' = puts_out f gs f'"
  by (simp add: puts_out_def)

lemma move_front_puts_out:
  assumes "m_token f \<noteq> None" and "m_state f = ESTABLISHED" and "unsent seg" and "ss_buf seg \<noteq> []"
  shows "puts_out f [seg] (move_front now seg rest f)" and "m_t_ack (move_front now seg rest f) = 0"
proof -
  let ?d = "zero_8_bytes @ reliable_packet (ss_seq seg) (ss_ctrl seg) (ss_buf seg) now f"
  have "f_outs (move_front now seg rest f) = f_outs f @ [Socket_send_to ?d (m_remote_endpoint f)]"
    and ack: "m_t_ack (move_front now seg rest f) = 0"
    using assms packet_outs(2) [OF assms(1,4)]
    by (auto simp: move_front_def transmit_def unsent_def packet_as_reliable_and_sendout_def
        layer_async_send_to_def emit_def Let_def zero_8_bytes_def reliable_packet_def)
  then show "puts_out f [seg] (move_front now seg rest f)"
    by (auto simp: puts_out_def carries_def)
  show "m_t_ack (move_front now seg rest f) = 0" by (rule ack)
qed

lemma loop_puts_out:
  assumes "send_inv f" and "m_token f \<noteq> None" and "m_state f = ESTABLISHED" and "m_slist f \<noteq> []"
  shows "puts_out f (m_slist f) (attempt_send_loop now fl f)"
  using assms
proof (induction fl f rule: attempt_loop_induct [where now = now])
  case (2 fl f seg rest)
  have u: "unsent seg" using "2.hyps" "2.prems"(1) by (simp add: send_inv_def)
  note go = transmit_unsent(1) [OF u, of now f]
  have "ss_buf seg \<noteq> []" using "2.prems"(1) "2.hyps" by (simp add: send_inv_def)
  note one = move_front_puts_out [OF "2.prems"(2,3) u this]
  note inv = move_front_inv(1) [OF "2.prems"(1) "2.hyps", of now]
  show ?case
  proof (cases "rest = []")
    case True
    then have "attempt_send_loop now sfNone (move_front now seg rest f) = move_front now seg rest f"
      using one(2) by (simp add: attempt_send_loop_Nil)
    then show ?thesis
      using True one(1) go by (simp add: attempt_send_loop_Cons [OF "2.hyps"] "2.hyps")
  next
    case False
    have "puts_out (move_front now seg rest f) rest (attempt_send_loop now sfNone (move_front now seg rest f))"
      using "2.IH" [OF go inv] "2.prems" False by simp
    from puts_out_trans [OF one(1) this] show ?thesis
      using go by (simp add: attempt_send_loop_Cons [OF "2.hyps"] "2.hyps" peer_frame_move)
  qed
qed simp

lemma attempt_puts_out:
  assumes "send_inv f" and "m_token f \<noteq> None" and "m_state f = ESTABLISHED" and "m_slist f \<noteq> []"
  shows "puts_out f (m_slist f) (attempt_send fl f)"
proof -
  obtain c where c: "attempt_send fl f = attempt_send_loop (tick_now f) fl (f\<lparr>m_cwnd := c\<rparr>)"
    using attempt_send_loop_eq by blast
  show ?thesis
    using loop_puts_out [of "f\<lparr>m_cwnd := c\<rparr>" "tick_now f" fl] assms puts_out_same [of "f\<lparr>m_cwnd := c\<rparr>" f]
    unfolding c by simp
qed

lemma queue_loop_ctrl:
  "\<forall>g \<in> set sl. ss_ctrl g = c \<Longrightarrow> \<forall>g \<in> set (fst (queue_loop una c r data sl slen)). ss_ctrl g = c"
proof (induction "length data" arbitrary: data sl slen rule: less_induct)
  case less
  consider "data = []" | "data \<noteq> []" "segment_extends c sl" | "data \<noteq> []" "\<not> segment_extends c sl"
    by blast
  then show ?case
  proof cases
    case 1
    then show ?thesis using less.prems by (simp add: queue_loop_Nil)
  next
    case 2
    define n where "n = min (mss - length (ss_buf (last sl))) (length data)"
    have "length (drop n data) < length data"
      using 2 by (simp add: n_def segment_extends_def)
    moreover have "\<forall>g \<in> set (extend_last (take n data) sl). ss_ctrl g = c"
      using less.prems 2(2) by (auto simp: extend_last_def segment_extends_def dest: in_set_butlastD)
    ultimately show ?thesis
      unfolding queue_loop_extend [OF 2 n_def] by (rule less.hyps)
  next
    case 3
    define n where "n = min mss (length data)"
    have "length (drop n data) < length data"
      using 3 by (simp add: n_def MTU_SIZE_def)
    then show ?thesis
      unfolding queue_loop_new [OF 3 n_def] by (rule less.hyps) (use less.prems in auto)
  qed
qed

lemma queue_ctrl:
  "\<forall>g \<in> set (m_slist f). ss_ctrl g = c \<Longrightarrow> \<forall>g \<in> set (m_slist (queue d c r f)). ss_ctrl g = c"
  using queue_loop_ctrl [of "m_slist f" c] by (simp add: queue_def case_prod_unfold Let_def)

lemma queue_outs [simp]: "f_outs (queue d c r f) = f_outs f"
  by (simp add: queue_def case_prod_unfold Let_def)

section \<open>Messages are sent\<close>

definition sender where
  "sender f = (m_slist f, m_retrans_slist f, m_snd_una f, m_snd_nxt f, m_slen f, m_socket f, m_state f,
     m_token f, m_session_id f)"

definition can_send :: "urdp_flow \<Rightarrow> bool" where
  "can_send f \<longleftrightarrow> send_inv f \<and> m_slist f = [] \<and> m_socket f \<and> m_state f = ESTABLISHED \<and> m_token f \<noteq> None"

lemma sender_same:
  assumes "sender f = sender g"
  shows "can_send f = can_send g" "send_stream f = send_stream g" "m_snd_una f = m_snd_una g"
    "m_session_id f = m_session_id g" "m_retrans_slist f = m_retrans_slist g"
  using assms by (simp_all add: sender_def can_send_def send_inv_def send_stream_def)

lemma after_send:
  assumes "sender g = sender f" and "puts_out f [] g"
  shows "sender (reschedule now g) = sender f" and "puts_out f [] (reschedule now g)"
  using assms
  by (auto simp: reschedule_def schedule_timer_def timer_async_wait_def sender_def emit_def fault_def
      puts_out_def Let_def split: option.splits)

lemma loop_token: "m_token (attempt_send_loop now fl f) = m_token f"
proof (induction fl f rule: attempt_loop_induct [where now = now])
  case (2 fl f seg rest)
  then show ?case by (simp add: attempt_send_loop_Cons [OF "2.hyps"])
qed (simp add: attempt_send_loop_Nil)

lemma attempt_send_token [simp]: "m_token (attempt_send fl f) = m_token f"
  by (simp add: attempt_send_def loop_token Let_def)

lemma async_send_sends:
  assumes "can_send f" and "length p < 65536" and "f' = async_send p ty T_true f"
  shows "\<exists>gs. can_send f' \<and> m_retrans_slist f' = m_retrans_slist f @ gs \<and> puts_out f gs f'
    \<and> (\<forall>g \<in> set gs. ss_ctrl g = CTRL_DATA) \<and> send_stream f' = send_stream f @ frames [(ty, p)]
    \<and> m_snd_una f' = m_snd_una f \<and> m_session_id f' = m_session_id f"
proof -
  note f = assms(1) [unfolded can_send_def]
  have l: "unat (of_nat (length p) :: u16) = length p"
    using assms(2) by (simp add: unsigned_of_nat take_bit_nat_eq_self)
  define f1 where "f1 = queue (frame_header (length p) ty) CTRL_DATA (length p) f"
  define f2 where "f2 = queue p CTRL_DATA 0 f1"
  define f3 where "f3 = attempt_send sfNone f2"
  have inv1: "send_inv f1" and inv2: "send_inv f2"
    and stream: "send_stream f2 = send_stream f @ frames [(ty, p)]"
    using queue_stream f by (simp_all add: f1_def f2_def)
  have same: "m_retrans_slist f2 = m_retrans_slist f" "m_snd_una f2 = m_snd_una f" "m_token f2 = m_token f"
    "m_state f2 = m_state f" "m_socket f2 = m_socket f" "m_session_id f2 = m_session_id f" "f_outs f2 = f_outs f"
    by (simp_all add: f1_def f2_def)
  have "length (send_stream f2) = length (send_stream f) + length p + 4" by (simp add: stream)
  then have ne: "m_slist f2 \<noteq> []" using f same(1) by (auto simp: send_stream_def)
  have ctrl: "\<forall>g \<in> set (m_slist f2). ss_ctrl g = CTRL_DATA"
    using f unfolding f2_def f1_def by (intro queue_ctrl) simp
  note sent = attempt_send_stream [OF inv2, of sfNone, folded f3_def]
  have "puts_out f2 (m_slist f2) f3"
    unfolding f3_def using f same by (intro attempt_puts_out [OF inv2 _ _ ne]) simp_all
  then have out: "puts_out f (m_slist f2) f3" using puts_out_same [of f2 f] same by simp
  have f3: "can_send f3" "m_session_id f3 = m_session_id f"
    using f same sent by (simp_all add: can_send_def f3_def)
  obtain g where g: "sender g = sender f3" "puts_out f3 [] g" "f' = reschedule (tick_now g) g"
  proof (cases "m_slen f3 \<ge> of_nat SND_BUF_SIZE")
    case True
    then show ?thesis
      using f by (intro that [of "f3\<lparr>m_detect_writable := True\<rparr>"])
        (simp_all add: sender_def puts_out_def assms(3) async_send_def send_def l f1_def f2_def f3_def Let_def)
  next
    case False
    then show ?thesis
      using f by (intro that [of "emit Post_allert_writeable f3"])
        (simp_all add: sender_def puts_out_def emit_def assms(3) async_send_def send_def l f1_def f2_def f3_def Let_def)
  qed
  note last_step = after_send [OF g(1,2), of "tick_now g", folded g(3)]
  note s = sender_same [OF last_step(1)]
  have "puts_out f (m_slist f2 @ []) f'" using puts_out_trans [OF out last_step(2) f3(2)] .
  then have "can_send f' \<and> m_retrans_slist f' = m_retrans_slist f @ map (ss_xmit_update (\<lambda>_. 1)) (m_slist f2)
    \<and> puts_out f (map (ss_xmit_update (\<lambda>_. 1)) (m_slist f2)) f'"
    using s f3(1) sent same(1) by (auto simp: puts_out_def list_all2_map1)
  then show ?thesis
    using s f3(2) sent same(2) ctrl stream by (intro exI) auto
qed

text \<open>The owner sends messages one after the other.\<close>

fun send_messages :: "(u16 \<times> bytes) list \<Rightarrow> urdp_flow \<Rightarrow> urdp_flow" where
  "send_messages [] f = f"
| "send_messages ((ty, p) # ms) f = send_messages ms (async_send p ty T_true f)"

lemma send_messages_sends:
  assumes "can_send f" and "\<forall>m \<in> set ms. length (snd m) < 65536" and "f' = send_messages ms f"
  shows "\<exists>gs. can_send f' \<and> m_retrans_slist f' = m_retrans_slist f @ gs \<and> puts_out f gs f'
    \<and> (\<forall>g \<in> set gs. ss_ctrl g = CTRL_DATA) \<and> send_stream f' = send_stream f @ frames ms
    \<and> m_snd_una f' = m_snd_una f"
  using assms
proof (induction ms arbitrary: f)
  case Nil
  then show ?case by (simp add: puts_out_refl)
next
  case (Cons m ms)
  obtain ty p where m: "m = (ty, p)" by fastforce
  define f1 where "f1 = async_send p ty T_true f"
  obtain gs where gs: "can_send f1" "m_retrans_slist f1 = m_retrans_slist f @ gs" "puts_out f gs f1"
    "\<forall>g \<in> set gs. ss_ctrl g = CTRL_DATA" "send_stream f1 = send_stream f @ frames [(ty, p)]"
    "m_snd_una f1 = m_snd_una f" "m_session_id f1 = m_session_id f"
    using async_send_sends [OF Cons.prems(1) _ f1_def] Cons.prems(2) m by auto
  obtain hs where hs: "can_send f'" "m_retrans_slist f' = m_retrans_slist f1 @ hs" "puts_out f1 hs f'"
    "\<forall>g \<in> set hs. ss_ctrl g = CTRL_DATA" "send_stream f' = send_stream f1 @ frames ms"
    "m_snd_una f' = m_snd_una f1"
    using Cons.IH [OF gs(1)] Cons.prems(2,3) by (auto simp: m f1_def)
  have "puts_out f (gs @ hs) f'" by (rule puts_out_trans [OF gs(3) hs(3) gs(7)])
  then show ?case using gs hs m by (intro exI [of _ "gs @ hs"]) auto
qed

section \<open>From the sender's socket to the receiver's user\<close>

text \<open>Datagrams come in from the flow's peer, each at a time of its own; the layer has taken off the
  eight bytes it put before the packet.\<close>

definition receive_datagrams :: "endpoint \<Rightarrow> (tick \<times> bytes) list \<Rightarrow> urdp_flow \<Rightarrow> urdp_flow" where
  "receive_datagrams from arrivals f =
     foldl (\<lambda>f (t, d). called_by_sharedlayer_on_recvd (drop 8 d) from (f\<lparr>f_clock := t\<rparr>)) f arrivals"

lemma carries_seq: "carries sid g d \<Longrightarrow> hget False (drop 8 d) F_seqno = Some (ss_seq g)"
  by (auto simp: carries_def zero_8_bytes_def packet_header(6) [OF refl])

lemma carries_unique: "carries sid g d \<Longrightarrow> carries sid h d \<Longrightarrow> ss_seq g = ss_seq h"
  using carries_seq [of sid g d] carries_seq [of sid h d] by simp

lemma clock_view: "link (f\<lparr>f_clock := t\<rparr>) = link f" "inbox (f\<lparr>f_clock := t\<rparr>) = inbox f"
  by (simp_all add: link_def inbox_def got_def)

definition segments_from :: "u32 \<Rightarrow> s_segment list \<Rightarrow> bool" where
  "segments_from b ss \<longleftrightarrow> (\<forall>i < length ss. ss_seq (ss ! i) = b + of_nat (off (map ss_buf ss) i)
     \<and> ss_ctrl (ss ! i) = CTRL_DATA)"

lemma datagrams_arrive:
  assumes "stream_of b (map ss_buf ss) ms" and "segments_from b ss"
    and "at_rest g b (map ss_buf ss) ms R q f" and "m_detect_readable f"
    and "\<forall>(t, d) \<in> set arrivals. \<exists>i < length ss. carries (m_session_id f) (ss ! i) d"
    and "r = receive_datagrams (m_remote_endpoint f) arrivals f"
  shows "\<exists>q'. at_rest g b (map ss_buf ss) ms
    (R \<union> {i. i < length ss \<and> (\<exists>(t, d) \<in> set arrivals. carries (m_session_id f) (ss ! i) d)}) q' r"
  using assms(3-6)
proof (induction arrivals arbitrary: f R q)
  case Nil
  then show ?case by (auto simp: receive_datagrams_def)
next
  case (Cons a arrivals)
  let ?segs = "map ss_buf ss"
  obtain t d where a: "a = (t, d)" by fastforce
  define h where "h = f\<lparr>f_clock := t\<rparr>"
  note view = clock_view [of t f, folded h_def]
  have h: "at_rest g b ?segs ms R q h" "m_detect_readable h" "m_session_id h = m_session_id f"
    "m_remote_endpoint h = m_remote_endpoint f"
    using Cons.prems(1,2) reading_view [OF view] by (simp_all add: at_rest_def h_def)
  obtain i where i: "i < length ss" and car: "carries (m_session_id f) (ss ! i) d"
    using Cons.prems(3) by (auto simp: a)
  obtain now s where s: "m_session_id s = m_session_id f" "drop 8 d = reliable_packet (b + of_nat (off ?segs i)) CTRL_DATA (?segs ! i) now s"
    using car i assms(2) unfolding carries_def segments_from_def zero_8_bytes_def by auto
  define f1 where "f1 = called_by_sharedlayer_on_recvd (drop 8 d) (m_remote_endpoint f) h"
  obtain q1 where f1: "at_rest g b ?segs ms (insert i R) q1 f1" "m_detect_readable f1" "link f1 = link h"
    using segment_arrives [OF assms(1) h(1,2) _ _ s(2), of f1] i s(1) h(3,4) by (auto simp: f1_def)
  then have same: "m_session_id f1 = m_session_id f" "m_remote_endpoint f1 = m_remote_endpoint f"
    using h by (simp_all add: link_def)
  have r: "r = receive_datagrams (m_remote_endpoint f1) arrivals f1"
    using Cons.prems(4) same(2) by (simp add: receive_datagrams_def a f1_def h_def)
  have others: "\<forall>(t, d) \<in> set arrivals. \<exists>i < length ss. carries (m_session_id f1) (ss ! i) d"
    using Cons.prems(3) same(1) by simp
  have only: "j = i" if "j < length ss" "carries (m_session_id f) (ss ! j) d" for j
    using carries_unique [OF car that(2)] seq_less(4) [of b ?segs i j] i that(1) assms(1,2)
    by (simp add: segments_from_def stream_of_def)
  have "R \<union> {i. i < length ss \<and> (\<exists>(t, d) \<in> set (a # arrivals). carries (m_session_id f) (ss ! i) d)}
      = insert i R \<union> {i. i < length ss \<and> (\<exists>(t, d) \<in> set arrivals. carries (m_session_id f1) (ss ! i) d)}"
    (is "?now = ?then")
  proof (rule set_eqI)
    fix j
    show "j \<in> ?now \<longleftrightarrow> j \<in> ?then"
    proof (cases "j = i")
      case True
      then show ?thesis using i car by (simp add: a)
    next
      case False
      then have "\<not> (j < length ss \<and> carries (m_session_id f) (ss ! j) d)" using only by blast
      then show ?thesis using False by (simp add: a same(1)) blast
    qed
  qed
  then show ?case using Cons.IH [OF f1(1,2) others r] by simp
qed

definition waits_for :: "u32 \<Rightarrow> urdp_flow \<Rightarrow> bool" where
  "waits_for b f \<longleftrightarrow> idle f \<and> m_rlist f = [] \<and> m_rlen f = 0 \<and> m_rcv_nxt f = b
     \<and> m_shutdown f = SD_NONE \<and> m_detect_readable f"

lemma waits_at_rest: "waits_for b f \<Longrightarrow> at_rest (got f) b segs ms {} 0 f"
  using holds_from_start [of f b segs] frames_next [of 0 ms]
  by (simp add: waits_for_def at_rest_def reading_def first_gap_def)

lemma all_received:
  assumes "stream_of b segs ms" and "at_rest g b segs ms {..<length segs} q f"
  shows "got f = g @ map handed_up ms"
proof -
  have gap: "first_gap {..<length segs} = length segs" by (rule first_gapI) auto
  have "q = length ms"
  proof (rule ccontr)
    assume "q \<noteq> length ms"
    then have "off segs (length segs) < length (frames (take (Suc q) ms))"
      using assms(2) gap by (simp add: at_rest_def reading_def)
    also have "\<dots> \<le> length (frames (take (Suc q) ms @ drop (Suc q) ms))"
      unfolding frames_simps by simp
    finally show False using assms(1) by (simp add: stream_of_def)
  qed
  then show ?thesis using assms(2) by (simp add: at_rest_def reading_def)
qed

text \<open>A receiver of the session 0 whose owner takes messages.\<close>

definition taking_flow :: urdp_flow where
  "taking_flow = linked_flow\<lparr>b_keep_recving := True, m_detect_readable := True,
     m_mark := \<lparr>om_stamp = 1, om_cancel = 0\<rparr>\<rparr>"

lemma taking_flow_waits: "waits_for 0 taking_flow"
  using offset_less [of 0 1 0]
  by (simp add: waits_for_def idle_def flow_canceled_def canceled_iff mod_less_def taking_flow_def
      linked_flow_def blank_flow_def)

lemma linked_can_send: "can_send linked_flow"
  by (simp add: can_send_def)

lemma list_all2_meets:
  assumes "list_all2 P xs ys"
  shows "\<forall>y \<in> set ys. \<exists>x \<in> set xs. P x y" and "\<forall>x \<in> set xs. \<exists>y \<in> set ys. P x y"
  using assms by (induction rule: list_all2_induct) auto

section \<open>Properties\<close>



end
