(* ===== verification/Id_Allocator.thy ===== *)
theory Id_Allocator
  imports Prelude
begin

text \<open>\<open>p2engine/local_id_allocator.hpp\<close> at its one instance, \<open>uint32_t\<close>: an
  allocator hands out the id of its counter, or reuses the id that has been free for the longest
  time once more than \<open>low_water_mark\<close> ids are free. The multi-index container of the free
  ids is the list of them in its sequenced order; the set of the reserved ids is a list without
  duplicates.\<close>

record id_allocator =
  avail_id_set :: "u32 list"
  reserved_id_set :: "u32 list"
  tail_id :: u32
  reuse_id :: bool
  low_water_mark :: int

section \<open>Operations\<close>

definition id_allocator_new :: "bool \<Rightarrow> int \<Rightarrow> id_allocator" where
  "id_allocator_new reuse low =
     \<lparr>avail_id_set = [], reserved_id_set = [], tail_id = 0, reuse_id = reuse, low_water_mark = low\<rparr>"

text \<open>The factory does not hand its second argument on.\<close>

definition create_id_allocator :: "bool \<Rightarrow> int \<Rightarrow> id_allocator" where
  "create_id_allocator reuse low = id_allocator_new reuse 0"

definition set_start_id :: "u32 \<Rightarrow> id_allocator \<Rightarrow> id_allocator" where
  "set_start_id i a = a\<lparr>tail_id := i\<rparr>"

definition add_reserved_id :: "u32 \<Rightarrow> id_allocator \<Rightarrow> id_allocator" where
  "add_reserved_id i a = a\<lparr>reserved_id_set := List.insert i (reserved_id_set a)\<rparr>"

text \<open>The mark is an \<open>int\<close> compared as a \<open>size_t\<close> of 64 bits.\<close>

definition water_mark :: "id_allocator \<Rightarrow> nat" where
  "water_mark a = nat (low_water_mark a mod 2 ^ 64)"

text \<open>The first loop of \<open>alloc_id\<close>: free ids are taken from the front, reserved ones are
  dropped.\<close>

fun pop_avail :: "nat \<Rightarrow> u32 list \<Rightarrow> u32 list \<Rightarrow> u32 option \<times> u32 list" where
  "pop_avail low rs [] = (None, [])"
| "pop_avail low rs (i # is) =
     (if low < length (i # is)
      then if i \<in> set rs then pop_avail low rs is else (Some i, is)
      else (None, i # is))"

text \<open>The second loop steps the counter over reserved ids; the fuel is the number of steps,
  \<open>None\<close> a loop that is still running.\<close>

fun skip_reserved :: "nat \<Rightarrow> u32 list \<Rightarrow> u32 \<Rightarrow> u32 option" where
  "skip_reserved 0 rs t = (if t \<in> set rs then None else Some t)"
| "skip_reserved (Suc k) rs t = (if t \<in> set rs then skip_reserved k rs (t + 1) else Some t)"

definition alloc_tail :: "id_allocator \<Rightarrow> (u32 \<times> id_allocator) option" where
  "alloc_tail a =
     map_option (\<lambda>t. (t, a\<lparr>tail_id := t + 1\<rparr>))
       (skip_reserved (length (reserved_id_set a)) (reserved_id_set a) (tail_id a))"

definition alloc_id :: "id_allocator \<Rightarrow> (u32 \<times> id_allocator) option" where
  "alloc_id a =
     (if reuse_id a
      then case pop_avail (water_mark a) (reserved_id_set a) (avail_id_set a) of
             (Some i, rest) \<Rightarrow> Some (i, a\<lparr>avail_id_set := rest\<rparr>)
           | (None, rest) \<Rightarrow> alloc_tail (a\<lparr>avail_id_set := rest\<rparr>)
      else alloc_tail a)"

definition release_id :: "u32 \<Rightarrow> id_allocator \<Rightarrow> id_allocator" where
  "release_id i a =
     (if \<not> reuse_id a then a
      else if i \<in> set (reserved_id_set a) then a
      else if i < tail_id a
      then if i \<in> set (avail_id_set a) then a
           else a\<lparr>avail_id_set := avail_id_set a @ [i]\<rparr>
      else a)"

definition reset_id_allocator :: "id_allocator \<Rightarrow> id_allocator" where
  "reset_id_allocator a = a\<lparr>tail_id := 0, avail_id_set := []\<rparr>"

section \<open>The loops\<close>

lemma pop_avail_split:
  "pop_avail low rs is = (r, rest) \<Longrightarrow>
     \<exists>dropped. set dropped \<subseteq> set rs \<and> is = dropped @ (case r of None \<Rightarrow> [] | Some i \<Rightarrow> [i]) @ rest
       \<and> (case r of None \<Rightarrow> True | Some i \<Rightarrow> i \<notin> set rs \<and> low \<le> length rest)"
proof (induction low rs "is" rule: pop_avail.induct)
  case (2 low rs i "is")
  show ?case
  proof (cases "low < length (i # is)")
    case True
    show ?thesis
    proof (cases "i \<in> set rs")
      case mem: True
      obtain dropped where "set dropped \<subseteq> set rs"
        and "is = dropped @ (case r of None \<Rightarrow> [] | Some i \<Rightarrow> [i]) @ rest"
        and "case r of None \<Rightarrow> True | Some i \<Rightarrow> i \<notin> set rs \<and> low \<le> length rest"
        using 2 True mem by auto
      then show ?thesis
        using mem by (intro exI [of _ "i # dropped"]) simp
    next
      case False
      then show ?thesis using 2(2) True by auto
    qed
  next
    case False
    then show ?thesis using 2(2) by auto
  qed
qed simp

lemma skip_reserved_run:
  "skip_reserved k rs t = Some u \<Longrightarrow>
     \<exists>j \<le> k. u = t + of_nat j \<and> u \<notin> set rs"
proof (induction k arbitrary: t)
  case (Suc k)
  show ?case
  proof (cases "t \<in> set rs")
    case True
    then obtain j where "j \<le> k" "u = t + 1 + of_nat j" "u \<notin> set rs"
      using Suc by auto
    then show ?thesis by (intro exI [of _ "Suc j"]) simp
  next
    case False
    then show ?thesis using Suc.prems by (intro exI [of _ 0]) simp
  qed
qed (auto split: if_splits)

lemma skip_reserved_none:
  "skip_reserved k rs t = None \<Longrightarrow> j \<le> k \<Longrightarrow> t + of_nat j \<in> set rs"
proof (induction k arbitrary: t j)
  case step: (Suc k)
  have t: "t \<in> set rs" "skip_reserved k rs (t + 1) = None"
    using step.prems(1) by (simp_all split: if_splits)
  show ?case
  proof (cases j)
    case (Suc i)
    then show ?thesis
      using step.IH [OF t(2), of i] step.prems(2) by (simp add: add.assoc)
  qed (use t in simp)
qed (auto split: if_splits)

text \<open>As long as not all ids are reserved the counter finds a free one, within as many steps
  as there are reserved ids.\<close>

lemma skip_reserved_returns:
  assumes "length rs < 2 ^ 32"
  shows "skip_reserved (length rs) rs t \<noteq> None"
proof
  assume none: "skip_reserved (length rs) rs t = None"
  let ?f = "\<lambda>j. t + of_nat j :: u32"
  have inj: "inj_on ?f {..length rs}"
  proof (rule inj_onI)
    fix i j assume "i \<in> {..length rs}" "j \<in> {..length rs}" "?f i = ?f j"
    moreover have "k \<le> length rs \<Longrightarrow> unat (of_nat k :: u32) = k" for k
      using assms by (simp add: unat_of_nat take_bit_nat_eq_self)
    ultimately show "i = j"
      by (metis add_left_cancel atMost_iff)
  qed
  have "?f ` {..length rs} \<subseteq> set rs"
    using skip_reserved_none [OF none] by auto
  then have "card (?f ` {..length rs}) \<le> card (set rs)"
    by (rule card_mono [rotated]) simp
  also have "\<dots> \<le> length rs" by (rule card_length)
  finally show False using card_image [OF inj] by simp
qed

section \<open>An allocator as a source of ids\<close>

text \<open>The interface the shared layer relies on: a set of issued ids; an allocation returns an
  id that is not issued and issues it, a release takes back at most the id it names.\<close>

locale id_source =
  fixes alloc :: "'s \<Rightarrow> ('i \<times> 's) option"
    and release :: "'i \<Rightarrow> 's \<Rightarrow> 's"
    and issued :: "'s \<Rightarrow> 'i set"
    and sound :: "'s \<Rightarrow> bool"
    and room :: "'s \<Rightarrow> bool"
  assumes alloc_sound: "sound s \<Longrightarrow> room s \<Longrightarrow> alloc s = Some (i, s') \<Longrightarrow> sound s'"
    and alloc_fresh: "sound s \<Longrightarrow> room s \<Longrightarrow> alloc s = Some (i, s') \<Longrightarrow> i \<notin> issued s"
    and alloc_issues: "sound s \<Longrightarrow> room s \<Longrightarrow> alloc s = Some (i, s') \<Longrightarrow>
          insert i (issued s) \<subseteq> issued s'"
    and release_sound: "sound s \<Longrightarrow> sound (release i s)"
    and release_takes: "sound s \<Longrightarrow> issued s - {i} \<subseteq> issued (release i s)"
begin

lemma held_after_alloc:
  assumes "sound s" and "room s" and "held \<subseteq> issued s" and "alloc s = Some (i, s')"
  shows "i \<notin> held \<and> insert i held \<subseteq> issued s'"
  using assms(3) alloc_fresh [OF assms(1,2,4)] alloc_issues [OF assms(1,2,4)] by blast

lemma held_after_release:
  assumes "sound s" and "held \<subseteq> issued s" and "i \<notin> held"
  shows "held \<subseteq> issued (release i s)"
  using assms(2,3) release_takes [OF assms(1), of i] by blast

end

definition issued_ids :: "id_allocator \<Rightarrow> u32 set" where
  "issued_ids a = {i. i < tail_id a \<and> i \<notin> set (avail_id_set a)}"

definition id_allocator_ok :: "id_allocator \<Rightarrow> bool" where
  "id_allocator_ok a \<longleftrightarrow> distinct (avail_id_set a) \<and> (\<forall>i \<in> set (avail_id_set a). i < tail_id a)"

text \<open>The counter does not run over the end of 32 bits in the next allocation.\<close>

definition id_room :: "id_allocator \<Rightarrow> bool" where
  "id_room a \<longleftrightarrow> unat (tail_id a) + length (reserved_id_set a) + 1 < 2 ^ 32"

lemma skip_in_room:
  assumes "unat t + k + 1 < 2 ^ 32" and "skip_reserved k rs t = Some u"
  shows "t \<le> u \<and> u < u + 1"
proof -
  obtain j where j: "j \<le> k" "u = t + of_nat j"
    using skip_reserved_run [OF assms(2)] by blast
  have "unat (of_nat j :: u32) = j" using j(1) assms(1) by (simp add: unat_of_nat take_bit_nat_eq_self)
  then have u: "unat u = unat t + j"
    using j assms(1) unat_add_lem [of t "of_nat j"] by simp
  then have "unat (u + 1) = unat u + 1"
    using j(1) assms(1) unat_add_lem [of u 1] by simp
  with u show ?thesis
    by (simp add: word_le_nat_alt word_less_nat_alt)
qed

lemma alloc_tail_facts:
  assumes "id_allocator_ok a" and "id_room a" and "alloc_tail a = Some (i, a')"
  shows "tail_id a \<le> i" and "id_allocator_ok a'" and "insert i (issued_ids a) \<subseteq> issued_ids a'"
    and "a' = a\<lparr>tail_id := i + 1\<rparr>" and "i < i + 1"
proof -
  have u: "skip_reserved (length (reserved_id_set a)) (reserved_id_set a) (tail_id a) = Some i"
    and a': "a' = a\<lparr>tail_id := i + 1\<rparr>"
    using assms(3) by (auto simp: alloc_tail_def)
  have le: "tail_id a \<le> i" "i < i + 1"
    using skip_in_room [OF _ u] assms(2) by (simp_all add: id_room_def)
  show "tail_id a \<le> i" "i < i + 1" "a' = a\<lparr>tail_id := i + 1\<rparr>" using le a' by simp_all
  show "id_allocator_ok a'" "insert i (issued_ids a) \<subseteq> issued_ids a'"
    using assms(1) le by (fastforce simp: id_allocator_ok_def issued_ids_def a')+
qed

lemma alloc_id_facts:
  assumes ok: "id_allocator_ok a" and room: "id_room a" and run: "alloc_id a = Some (i, a')"
  shows "i \<notin> issued_ids a \<and> id_allocator_ok a' \<and> insert i (issued_ids a) \<subseteq> issued_ids a'"
proof (cases "reuse_id a")
  case True
  obtain r rest where p: "pop_avail (water_mark a) (reserved_id_set a) (avail_id_set a) = (r, rest)"
    by (cases "pop_avail (water_mark a) (reserved_id_set a) (avail_id_set a)")
  obtain dropped where d: "avail_id_set a = dropped @ (case r of None \<Rightarrow> [] | Some i \<Rightarrow> [i]) @ rest"
    using pop_avail_split [OF p] by blast
  let ?b = "a\<lparr>avail_id_set := rest\<rparr>"
  have b: "id_allocator_ok ?b" "id_room ?b" "issued_ids a \<subseteq> issued_ids ?b"
    using ok room d by (auto simp: id_allocator_ok_def id_room_def issued_ids_def)
  show ?thesis
  proof (cases r)
    case None
    then have "alloc_tail ?b = Some (i, a')" using run True p by (simp add: alloc_id_def)
    note t = alloc_tail_facts [OF b(1,2) this]
    have "i \<notin> issued_ids a" using t(1) by (auto simp: issued_ids_def)
    then show ?thesis using t(2,3) b(3) by blast
  next
    case (Some j)
    then have "i = j" "a' = ?b" using run True p by (simp_all add: alloc_id_def)
    then show ?thesis
      using b ok d Some by (auto simp: id_allocator_ok_def issued_ids_def)
  qed
next
  case False
  then have "alloc_tail a = Some (i, a')" using run by (simp add: alloc_id_def)
  note t = alloc_tail_facts [OF ok room this]
  show ?thesis using t(1-3) by (auto simp: issued_ids_def)
qed

lemma alloc_id_tail:
  assumes "id_allocator_ok a" and "id_room a" and "alloc_id a = Some (i, a')"
  shows "reserved_id_set a' = reserved_id_set a \<and> (tail_id a' = tail_id a \<or> tail_id a' = i + 1)"
  using assms(3)
  by (auto simp: alloc_id_def alloc_tail_def split: if_splits prod.splits option.splits)

lemma release_id_facts:
  assumes "id_allocator_ok a"
  shows "id_allocator_ok (release_id i a)" and "issued_ids a - {i} \<subseteq> issued_ids (release_id i a)"
  using assms by (auto simp: release_id_def id_allocator_ok_def issued_ids_def)

interpretation ids: id_source alloc_id release_id issued_ids id_allocator_ok id_room
  by unfold_locales (use alloc_id_facts release_id_facts in blast)+

text \<open>The allocation always returns.\<close>

lemma alloc_id_returns:
  assumes "length (reserved_id_set a) < 2 ^ 32"
  shows "alloc_id a \<noteq> None"
  using skip_reserved_returns [OF assms]
  by (auto simp: alloc_id_def alloc_tail_def split: prod.splits option.splits)

lemma issued_release: "i < tail_id a \<Longrightarrow> i \<in> issued_ids (release_id j a) \<Longrightarrow> i \<in> issued_ids a"
  by (auto simp: release_id_def issued_ids_def split: if_splits)

end
