(* ===== verification/Udp_Layer.thy ===== *)
theory Udp_Layer
  imports Id_Allocator Keeper Speed_Meter Urdp_Header
begin

text \<open>\<open>rdp/basic_shared_udp_layer\<close>: one UDP socket shared by many flows and acceptors.
  Flows and acceptors register and get an id or a domain; a datagram is routed to the flow its
  header names, a connect request to the acceptor of its domain, and what nobody waits for is
  answered with a refusal. The ids of released flows rest for 64 seconds before they are used
  again.

  A flow or an acceptor is known by its address, a natural number; the handler a flow registers
  is the one bound to the flow at that address. The socket is what the layer does with it:
  datagrams handed to it are appended to \<open>ul_outs\<close>. \<open>lingerSends_\<close> of the source is
  never filled and left out, as are the two mutexes.\<close>

section \<open>State\<close>

datatype layer_state = L_INIT | L_STARTED | L_STOPED

datatype layer_error = L_success | L_already_open | L_no_descriptors

record flow_element =
  fe_handler :: "nat option"
  fe_flow :: "nat option"

record acceptor_element =
  ae_handler :: nat
  ae_acceptor :: nat

record request_uuid =
  rq_endpoint :: "u32 \<times> u16"
  rq_peer :: u32
  rq_session :: u32
  rq_flow :: u32

text \<open>Two requests are the same when session, peer and endpoint agree.\<close>

definition request_key :: "request_uuid \<Rightarrow> u32 \<times> u32 \<times> (u32 \<times> u16)" where
  "request_key r = (rq_session r, rq_peer r, rq_endpoint r)"

record udp_layer =
  ul_open :: bool
  ul_state :: layer_state
  ul_recv_handler :: bool
  sender_endpoint :: "u32 \<times> u16"
  request_uuid_keeper :: "request_uuid keeper"
  ul_ids :: id_allocator
  released_id_catch :: "int list"
  released_id_keeper :: "int keeper"
  unreachable_endpoint_keeper :: "(u32 \<times> u16) keeper"
  ul_acceptors :: "(bytes \<times> acceptor_element) list"
  ul_flows :: "flow_element list"
  flows_cnt :: int
  ul_clock :: tick
  ul_in_meter :: speed_meter
  ul_out_meter :: speed_meter
  ul_pool :: bytes
  ul_big :: bool
  ul_outs :: "(bytes \<times> (u32 \<times> u16)) list"

definition flow_element_new :: flow_element where
  "flow_element_new = \<lparr>fe_handler = None, fe_flow = None\<rparr>"

definition flow_element_reset :: "flow_element \<Rightarrow> flow_element" where
  "flow_element_reset e = e\<lparr>fe_flow := None, fe_handler := None\<rparr>"

text \<open>A layer whose socket could be opened and bound.\<close>

definition udp_layer_new :: "bool \<Rightarrow> tick \<Rightarrow> bytes \<Rightarrow> udp_layer" where
  "udp_layer_new big now pool = \<lparr>
     ul_open = True, ul_state = L_INIT, ul_recv_handler = False, sender_endpoint = (0, 0),
     request_uuid_keeper = [], ul_ids = id_allocator_new True 64, released_id_catch = [],
     released_id_keeper = [], unreachable_endpoint_keeper = [], ul_acceptors = [], ul_flows = [],
     flows_cnt = 0, ul_clock = now, ul_in_meter = speed_meter_new 3000,
     ul_out_meter = speed_meter_new 3000, ul_pool = pool, ul_big = big, ul_outs = []\<rparr>"

definition layer_start :: "udp_layer \<Rightarrow> udp_layer" where
  "layer_start l = (if ul_state l \<noteq> L_INIT then l else l\<lparr>ul_state := L_STARTED\<rparr>)"

definition layer_cancel :: "udp_layer \<Rightarrow> udp_layer" where
  "layer_cancel l = l\<lparr>ul_open := False, ul_state := L_STOPED\<rparr>"

section \<open>Flow ids\<close>

text \<open>The loop that gives rested ids back, shared by registration and release: it stops at the
  first id that is still kept.\<close>

fun drain_released :: "tick \<Rightarrow> int list \<Rightarrow> int keeper \<Rightarrow> id_allocator \<Rightarrow>
    int list \<times> int keeper \<times> id_allocator" where
  "drain_released now [] k a = ([], k, a)"
| "drain_released now (i # is) k a =
     (let (kept, _, k') = set_is_keeped i now k
      in if kept then (i # is, k', a)
         else drain_released now is k' (release_id (word_of_int i) a))"

definition layer_drain :: "udp_layer \<Rightarrow> udp_layer" where
  "layer_drain l =
     (let (c, k, a) = drain_released (ul_clock l) (released_id_catch l) (released_id_keeper l) (ul_ids l)
      in l\<lparr>released_id_catch := c, released_id_keeper := k, ul_ids := a\<rparr>)"

text \<open>\<open>None\<close> where the source would write outside the vector of flows.\<close>

definition release_flow_id :: "int \<Rightarrow> udp_layer \<Rightarrow> udp_layer option" where
  "release_flow_id i l =
     (if i < 0 \<or> int (length (ul_flows l)) \<le> i then None
      else
        let l1 = l\<lparr>flows_cnt := flows_cnt l - 1,
                   ul_flows := (ul_flows l)[nat i := flow_element_reset (ul_flows l ! nat i)],
                   released_id_catch := released_id_catch l @ [i]\<rparr>;
            (_, _, k) = set_try_keep i 64000 (ul_clock l1) (released_id_keeper l1)
        in Some (layer_drain (l1\<lparr>released_id_keeper := k\<rparr>)))"

definition grow_flows :: "u32 \<Rightarrow> flow_element list \<Rightarrow> flow_element list" where
  "grow_flows i fs =
     (if length fs \<le> unat i then fs @ replicate (unat i + 1 - length fs) flow_element_new else fs)"

text \<open>\<open>register_flow\<close>: the id, the error and the layer.\<close>

definition register_flow :: "nat \<Rightarrow> udp_layer \<Rightarrow> (u32 \<times> layer_error \<times> udp_layer) option" where
  "register_flow p l =
     (let l1 = layer_drain l
      in case alloc_id (ul_ids l1) of
           None \<Rightarrow> None
         | Some (i, a) \<Rightarrow>
             let l2 = l1\<lparr>ul_ids := a\<rparr>
             in if INVALID_FLOWID \<le> i
                then map_option (\<lambda>l3. (INVALID_FLOWID, L_no_descriptors, l3))
                       (release_flow_id (sint i) l2)
                else
                  let fs = grow_flows i (ul_flows l2)
                  in Some (i, L_success,
                       l2\<lparr>ul_flows := fs[unat i := \<lparr>fe_handler = Some p, fe_flow = Some p\<rparr>],
                          flows_cnt := flows_cnt l2 + 1\<rparr>))"

definition drop_recv_handler :: "udp_layer \<Rightarrow> udp_layer" where
  "drop_recv_handler l =
     (if flows_cnt l = 0 \<and> ul_acceptors l = [] then l\<lparr>ul_recv_handler := False\<rparr> else l)"

definition unregister_flow :: "u32 \<Rightarrow> udp_layer \<Rightarrow> udp_layer option" where
  "unregister_flow i l =
     map_option drop_recv_handler
       (if i \<noteq> INVALID_FLOWID \<and> unat i < length (ul_flows l)
        then release_flow_id (sint i) l else Some l)"

section \<open>Acceptors\<close>

definition register_acceptor :: "nat \<Rightarrow> bytes \<Rightarrow> udp_layer \<Rightarrow> layer_error \<times> udp_layer" where
  "register_acceptor acc name l =
     (if map_of (ul_acceptors l) name = None
      then (L_success,
            l\<lparr>ul_acceptors := (name, \<lparr>ae_handler = acc, ae_acceptor = acc\<rparr>) # ul_acceptors l\<rparr>)
      else (L_already_open, l))"

fun erase_acceptor :: "nat \<Rightarrow> (bytes \<times> acceptor_element) list \<Rightarrow> (bytes \<times> acceptor_element) list" where
  "erase_acceptor acc [] = []"
| "erase_acceptor acc (e # es) =
     (if ae_acceptor (snd e) = acc then es else e # erase_acceptor acc es)"

definition unregister_acceptor :: "nat \<Rightarrow> udp_layer \<Rightarrow> udp_layer" where
  "unregister_acceptor acc l =
     drop_recv_handler (l\<lparr>ul_acceptors := erase_acceptor acc (ul_acceptors l)\<rparr>)"

section \<open>Sending\<close>

definition async_send_to :: "bytes \<Rightarrow> u32 \<times> u16 \<Rightarrow> udp_layer \<Rightarrow> nat \<times> udp_layer" where
  "async_send_to buf ep l =
     (if buf = [] then (0, l)
      else (length buf,
            l\<lparr>ul_outs := ul_outs l @ [(replicate 8 0 @ buf, ep)],
              ul_out_meter := sm_add (ul_clock l) (length buf + 8) (ul_out_meter l)\<rparr>))"

definition send_refuse :: "bytes \<Rightarrow> udp_layer \<Rightarrow> udp_layer option" where
  "send_refuse buf l =
     map_option (\<lambda>r. snd (async_send_to r (sender_endpoint l) l))
       (make_refuse (ul_big l) (ul_pool l @ replicate basic_format_size 0) buf)"

section \<open>Routing\<close>

definition request_try_keep ::
  "request_uuid \<Rightarrow> tick \<Rightarrow> tick \<Rightarrow> request_uuid keeper \<Rightarrow> bool \<times> request_uuid list \<times> request_uuid keeper"
where
  "request_try_keep d t now s =
     (let (sigs, s1) = set_clear_timeout now s
      in if find_key request_key (request_key d) s1 \<noteq> None then (False, sigs, s1)
         else (True, sigs, out_insert \<lparr>e_data = d, e_out = now + t, e_keep = now\<rparr> s1))"

definition request_find ::
  "request_uuid \<Rightarrow> tick \<Rightarrow> request_uuid keeper \<Rightarrow> request_uuid option \<times> request_uuid keeper" where
  "request_find d now s =
     (let (sigs, s1) = set_clear_timeout now s
      in (map_option e_data (find_key request_key (request_key d) s1), s1))"

text \<open>What becomes of a datagram: it is handed to the handler of the flow at an address, or it
  goes no further.\<close>

datatype routed = To_flow nat bytes "u32 \<times> u16" | Not_routed

text \<open>The last part of the handler: delivery to the flow of an id, or a refusal.\<close>

definition deliver_to :: "u32 \<Rightarrow> bytes \<Rightarrow> udp_layer \<Rightarrow> (routed \<times> udp_layer) option" where
  "deliver_to dst buf l =
     (if dst \<noteq> INVALID_FLOWID \<and> unat dst < length (ul_flows l)
         \<and> fe_flow (ul_flows l ! unat dst) \<noteq> None \<and> fe_handler (ul_flows l ! unat dst) \<noteq> None
      then Some (To_flow (the (fe_handler (ul_flows l ! unat dst))) buf (sender_endpoint l), l)
      else Option.bind (is_refuse (ul_big l) buf) (\<lambda>refuse.
        if refuse then Some (Not_routed, l)
        else map_option (\<lambda>l'. (Not_routed, l')) (send_refuse buf l)))"

text \<open>A connect request for the acceptor of a domain. The acceptor's handler creates a flow,
  which registers itself with this layer; it is an argument, from the acceptor, the sender and
  the layer to the id of the new flow.\<close>

definition route_request ::
  "(nat \<Rightarrow> u32 \<times> u16 \<Rightarrow> udp_layer \<Rightarrow> (u32 \<times> udp_layer) option) \<Rightarrow> acceptor_element \<Rightarrow> bytes \<Rightarrow>
   udp_layer \<Rightarrow> (u32 \<times> udp_layer) option"
where
  "route_request on_request elm buf l =
     Option.bind (get_src_peer_id (ul_big l) buf) (\<lambda>peer.
     Option.bind (get_session (ul_big l) buf) (\<lambda>session.
       let id = \<lparr>rq_endpoint = sender_endpoint l, rq_peer = peer, rq_session = session, rq_flow = 0\<rparr>;
           (found, s1) = request_find id (ul_clock l) (request_uuid_keeper l);
           l1 = l\<lparr>request_uuid_keeper := s1\<rparr>
       in case found of
            Some r \<Rightarrow> Some (rq_flow r, l1)
          | None \<Rightarrow>
              Option.bind (on_request (ae_handler elm) (rq_endpoint id) l1) (\<lambda>(i, l2).
                let (_, _, s2) = request_try_keep (id\<lparr>rq_flow := i\<rparr>) 60000 (ul_clock l2)
                                   (request_uuid_keeper l2)
                in Some (i, l2\<lparr>request_uuid_keeper := s2\<rparr>))))"

definition do_handle_received_urdp_msg ::
  "(nat \<Rightarrow> u32 \<times> u16 \<Rightarrow> udp_layer \<Rightarrow> (u32 \<times> udp_layer) option) \<Rightarrow> bytes \<Rightarrow> udp_layer \<Rightarrow>
   (routed \<times> udp_layer) option"
where
  "do_handle_received_urdp_msg on_request buf l =
     Option.bind (is_conn_request (ul_big l) buf) (\<lambda>conn.
       if conn then
         Option.bind (get_demain_name (ul_big l) buf buf) (\<lambda>name.
           case map_of (ul_acceptors l) name of
             None \<Rightarrow>
               let (first, _, k) = set_try_keep (sender_endpoint l) 2000 (ul_clock l)
                                     (unreachable_endpoint_keeper l);
                   l1 = l\<lparr>unreachable_endpoint_keeper := k\<rparr>
               in if first then map_option (\<lambda>l2. (Not_routed, l2)) (send_refuse buf l1)
                  else Some (Not_routed, l1)
           | Some elm \<Rightarrow>
               Option.bind (route_request on_request elm buf l) (\<lambda>(dst, l1). deliver_to dst buf l1))
       else Option.bind (get_dst_peer_id (ul_big l) buf) (\<lambda>dst. deliver_to dst buf l))"

definition do_handle_received ::
  "(nat \<Rightarrow> u32 \<times> u16 \<Rightarrow> udp_layer \<Rightarrow> (u32 \<times> udp_layer) option) \<Rightarrow> bytes \<Rightarrow> udp_layer \<Rightarrow>
   (routed \<times> udp_layer) option"
where
  "do_handle_received on_request buf l =
     (if length buf < basic_format_size + 8 then Some (Not_routed, l)
      else do_handle_received_urdp_msg on_request (drop 8 buf) l)"

text \<open>\<open>handle_receive\<close> for a datagram that was received without an error.\<close>

definition handle_receive ::
  "(nat \<Rightarrow> u32 \<times> u16 \<Rightarrow> udp_layer \<Rightarrow> (u32 \<times> udp_layer) option) \<Rightarrow> bytes \<Rightarrow> u32 \<times> u16 \<Rightarrow>
   udp_layer \<Rightarrow> (routed \<times> udp_layer) option"
where
  "handle_receive on_request buf from l =
     (if ul_state l \<noteq> L_STARTED then Some (Not_routed, l)
      else
        let l1 = l\<lparr>sender_endpoint := from,
                   ul_in_meter := sm_add (ul_clock l) (length buf) (ul_in_meter l)\<rparr>
        in do_handle_received on_request buf l1)"

end
