(* ===== verification/Udp_Layer_Inv.thy ===== *)
theory Udp_Layer_Inv
  imports Udp_Layer
begin

text \<open>The shared UDP layer as a routing table: the vector of flows is a partial map from ids to
  flows, an id in use or at rest is never handed out again, and the count of the flows is the
  size of the table. The invariant is proved over all operations of the layer.\<close>

section \<open>The deadlines a keeper still holds\<close>

definition set_keeper_ok :: "'k keeper \<Rightarrow> bool" where
  "set_keeper_ok k = keeper_inv id k"

definition kept :: "tick \<Rightarrow> 'k keeper \<Rightarrow> 'k \<Rightarrow> tick option" where
  "kept now k i = keeper_abs id (snd (set_clear_timeout now k)) i"

lemma clear_timeout_filter:
  assumes "keeper_inv key k"
  shows "snd (set_clear_timeout now k) = filter (\<lambda>e. \<not> set_expired (e_out e) now) k"
  using expire_loop_filter [of k set_expired now] assms
  by (simp add: set_clear_timeout_def keeper_inv_def set_expired_def)

lemma clear_timeout_inv: "set_keeper_ok k \<Longrightarrow> set_keeper_ok (snd (set_clear_timeout now k))"
  unfolding set_keeper_ok_def by (subst clear_timeout_filter) (auto intro: keeper_inv_filter)

lemma kept_eq:
  assumes "set_keeper_ok k"
  shows "kept now k i = (case keeper_abs id k i of None \<Rightarrow> None
    | Some d \<Rightarrow> if d \<le> now then None else Some d)"
  using keeper_abs_filter [OF assms [unfolded set_keeper_ok_def], of "\<lambda>out. \<not> set_expired out now" i]
  by (simp add: kept_def clear_timeout_filter [OF assms [unfolded set_keeper_ok_def]] set_expired_def split: option.splits if_splits)

lemma kept_clear [simp]:
  assumes "set_keeper_ok k"
  shows "kept now (snd (set_clear_timeout now k)) i = kept now k i"
proof -
  have "keeper_abs id (snd (set_clear_timeout now k)) i = kept now k i"
    by (simp add: kept_def)
  then show ?thesis
    using kept_eq [OF assms, of now i] kept_eq [OF clear_timeout_inv [OF assms], of now now i]
    by (simp split: option.splits if_splits)
qed

lemma kept_later:
  assumes "set_keeper_ok k" and "now \<le> later"
  shows "kept later k i = (case kept now k i of None \<Rightarrow> None
    | Some d \<Rightarrow> if d \<le> later then None else Some d)"
  using assms(2) by (simp add: kept_eq [OF assms(1)] split: option.splits)

lemma is_keeped_kept:
  "set_is_keeped i now k = (kept now k i \<noteq> None, fst (set_clear_timeout now k), snd (set_clear_timeout now k))"
  by (simp add: set_is_keeped_def kept_def keeper_abs_def case_prod_unfold Let_def)

lemma try_keep_kept:
  assumes "set_keeper_ok k" and "kept now k i = None" and "0 < t"
  shows "set_keeper_ok (snd (snd (set_try_keep i t now k)))"
    and "kept now (snd (snd (set_try_keep i t now k))) = (kept now k)(i \<mapsto> now + t)"
proof -
  let ?k = "snd (snd (set_try_keep i t now k))"
  show inv: "set_keeper_ok ?k"
    using assms(1) by (simp add: set_keeper_ok_def kset.inv_attempt)
  have "fst (set_try_keep i t now k)"
    using assms(2) kset.attempt_iff [OF assms(1) [unfolded set_keeper_ok_def], of i t now]
    by (simp add: kept_eq [OF assms(1)] set_expired_def split: option.splits if_splits)
  then have abs: "keeper_abs id ?k j = (if j = i then Some (now + t) else kept now k j)" for j
    using kset.abs_attempt [OF assms(1) [unfolded set_keeper_ok_def], of i t now j]
    by (simp add: set_expired_def kept_eq [OF assms(1), of now j] split: option.split)
  show "kept now ?k = (kept now k)(i \<mapsto> now + t)"
  proof (rule ext)
    fix j
    show "kept now ?k j = ((kept now k)(i \<mapsto> now + t)) j"
      using kept_eq [OF inv, of now j] abs [of j] kept_eq [OF assms(1), of now j] assms(3)
      by (cases "keeper_abs id k j") auto
  qed
qed

section \<open>Giving rested ids back\<close>

lemma release_id_fields [simp]:
  "tail_id (release_id i a) = tail_id a" "reserved_id_set (release_id i a) = reserved_id_set a"
  "reuse_id (release_id i a) = reuse_id a" "low_water_mark (release_id i a) = low_water_mark a"
  by (simp_all add: release_id_def)

lemma drain_facts:
  assumes "drain_released now c k a = (c', k', a')" and "set_keeper_ok k" and "id_allocator_ok a"
  shows "\<exists>ds. c = ds @ c' \<and> (\<forall>i \<in> set ds. kept now k i = None)
    \<and> set_keeper_ok k' \<and> kept now k' = kept now k \<and> id_allocator_ok a'
    \<and> tail_id a' = tail_id a \<and> reserved_id_set a' = reserved_id_set a \<and> reuse_id a' = reuse_id a
    \<and> issued_ids a - word_of_int ` set ds \<subseteq> issued_ids a'"
  using assms
proof (induction now c k a rule: drain_released.induct)
  case (1 now k a)
  then show ?case by simp
next
  case (2 now i "is" k a)
  let ?k = "snd (set_clear_timeout now k)"
  have k: "set_keeper_ok ?k" "kept now ?k = kept now k"
    by (rule clear_timeout_inv [OF 2(3)], rule ext, rule kept_clear [OF 2(3)])
  show ?case
  proof (cases "kept now k i")
    case None
    have run: "drain_released now is ?k (release_id (word_of_int i) a) = (c', k', a')"
      using 2(2) None by (simp add: is_keeped_kept case_prod_unfold)
    obtain ds where ds: "is = ds @ c'" "\<forall>i \<in> set ds. kept now k i = None" "set_keeper_ok k'"
      "kept now k' = kept now k" "id_allocator_ok a'" "tail_id a' = tail_id a"
      "reserved_id_set a' = reserved_id_set a" "reuse_id a' = reuse_id a"
      "issued_ids (release_id (word_of_int i) a) - word_of_int ` set ds \<subseteq> issued_ids a'"
      using 2(1) [OF is_keeped_kept [symmetric] refl refl _ run k(1) release_id_facts(1) [OF 2(4)]] None
      unfolding k(2) release_id_fields by blast
    have "issued_ids a - word_of_int ` set (i # ds) \<subseteq> issued_ids a'"
      using ds(9) release_id_facts(2) [OF 2(4), of "word_of_int i"] by auto
    then show ?thesis
      using ds None by (intro exI [of _ "i # ds"]) simp
  next
    case (Some d)
    then have "c' = i # is" "k' = ?k" "a' = a" using 2(2) by (simp_all add: is_keeped_kept case_prod_unfold)
    then show ?thesis using k 2(4) by simp
  qed
qed

section \<open>The routing table\<close>

definition owner :: "udp_layer \<Rightarrow> u32 \<Rightarrow> nat option" where
  "owner l i = (if unat i < length (ul_flows l) then fe_flow (ul_flows l ! unat i) else None)"

definition resting :: "udp_layer \<Rightarrow> u32 set" where
  "resting l = word_of_int ` set (released_id_catch l)"

text \<open>The invariant: the ids of the table and the resting ids are different ids that are issued;
  a resting id stays in the queue as long as the keeper holds it; every element of the vector has
  a handler exactly when it has a flow, and that flow's; the count is the size of the table.\<close>

definition layer_ok :: "udp_layer \<Rightarrow> bool" where
  "layer_ok l \<longleftrightarrow>
     id_allocator_ok (ul_ids l) \<and> reserved_id_set (ul_ids l) = [] \<and> tail_id (ul_ids l) \<le> INVALID_FLOWID
     \<and> set_keeper_ok (released_id_keeper l)
     \<and> dom (owner l) \<inter> resting l = {} \<and> dom (owner l) \<union> resting l \<subseteq> issued_ids (ul_ids l)
     \<and> (\<forall>i \<in> set (released_id_catch l). 0 \<le> i \<and> i < 2 ^ 24) \<and> distinct (released_id_catch l)
     \<and> (\<forall>i. kept (ul_clock l) (released_id_keeper l) i \<noteq> None \<longrightarrow> i \<in> set (released_id_catch l))
     \<and> (\<forall>e \<in> set (ul_flows l). fe_handler e = fe_flow e)
     \<and> flows_cnt l = int (card (dom (owner l)))
     \<and> length (ul_flows l) < 2 ^ 24"

lemma layer_okD:
  assumes "layer_ok l"
  shows "id_allocator_ok (ul_ids l)" "reserved_id_set (ul_ids l) = []"
    "tail_id (ul_ids l) \<le> INVALID_FLOWID" "set_keeper_ok (released_id_keeper l)"
    "dom (owner l) \<inter> resting l = {}" "dom (owner l) \<subseteq> issued_ids (ul_ids l)"
    "resting l \<subseteq> issued_ids (ul_ids l)"
    "i \<in> set (released_id_catch l) \<Longrightarrow> 0 \<le> i \<and> i < 2 ^ 24" "distinct (released_id_catch l)"
    "kept (ul_clock l) (released_id_keeper l) i \<noteq> None \<Longrightarrow> i \<in> set (released_id_catch l)"
    "e \<in> set (ul_flows l) \<Longrightarrow> fe_handler e = fe_flow e"
    "flows_cnt l = int (card (dom (owner l)))" "length (ul_flows l) < 2 ^ 24"
  using assms by (simp_all add: layer_ok_def)

text \<open>The id of an index of the vector, as the \<open>int\<close> the queue of resting ids holds.\<close>

lemma small_word_int:
  assumes "0 \<le> i" and "i < 2 ^ 24" and "0 \<le> j" and "j < 2 ^ 24"
  shows "(word_of_int i :: u32) = word_of_int j \<longleftrightarrow> i = j"
proof -
  have u: "x < 2 ^ 24 \<Longrightarrow> 0 \<le> x \<Longrightarrow> uint (word_of_int x :: u32) = x" for x
    by (simp add: uint_word_of_int)
  show ?thesis using u [of i] u [of j] assms by metis
qed

lemma rest_drop:
  assumes "c = ds @ c'" and "distinct c" and "\<forall>i \<in> set c. 0 \<le> i \<and> i < (2 :: int) ^ 24"
  shows "(word_of_int :: int \<Rightarrow> u32) ` set c' \<inter> word_of_int ` set ds = {}"
proof -
  have "word_of_int i \<noteq> (word_of_int j :: u32)" if "i \<in> set c'" "j \<in> set ds" for i j
    using assms that small_word_int [of i j] by auto
  then show ?thesis by (fastforce simp: image_def)
qed

lemma Int_Un_emptyD: "A \<inter> (B \<union> C) = {} \<Longrightarrow> A \<inter> B = {}"
  by auto

lemma subset_Diff_eq: "A \<union> C \<subseteq> S - B \<longleftrightarrow> A \<subseteq> S \<and> C \<subseteq> S \<and> A \<inter> B = {} \<and> C \<inter> B = {}"
  by auto

lemma layer_drain_ok:
  assumes "layer_ok l"
  shows "layer_ok (layer_drain l)" and "owner (layer_drain l) = owner l"
    and "ul_flows (layer_drain l) = ul_flows l" and "ul_clock (layer_drain l) = ul_clock l"
    and "flows_cnt (layer_drain l) = flows_cnt l"
    and "kept (ul_clock l) (released_id_keeper (layer_drain l)) = kept (ul_clock l) (released_id_keeper l)"
    and "reuse_id (ul_ids (layer_drain l)) = reuse_id (ul_ids l)"
    and "ul_acceptors (layer_drain l) = ul_acceptors l" and "ul_open (layer_drain l) = ul_open l"
proof -
  note D = layer_okD [OF assms]
  obtain c k a where r: "drain_released (ul_clock l) (released_id_catch l) (released_id_keeper l) (ul_ids l)
      = (c, k, a)"
    by (cases "drain_released (ul_clock l) (released_id_catch l) (released_id_keeper l) (ul_ids l)")
  have d: "layer_drain l = l\<lparr>released_id_catch := c, released_id_keeper := k, ul_ids := a\<rparr>"
    by (simp add: layer_drain_def r)
  obtain ds where ds: "released_id_catch l = ds @ c"
    "\<forall>i \<in> set ds. kept (ul_clock l) (released_id_keeper l) i = None" "set_keeper_ok k"
    "kept (ul_clock l) k = kept (ul_clock l) (released_id_keeper l)" "id_allocator_ok a"
    "tail_id a = tail_id (ul_ids l)" "reserved_id_set a = reserved_id_set (ul_ids l)"
    "reuse_id a = reuse_id (ul_ids l)" "issued_ids (ul_ids l) - word_of_int ` set ds \<subseteq> issued_ids a"
    using drain_facts [OF r D(4,1)] by blast
  have own: "owner (layer_drain l) = owner l" by (simp add: d owner_def fun_eq_iff)
  have rest: "resting l = word_of_int ` set ds \<union> word_of_int ` set c"
    by (simp add: resting_def ds(1) image_Un)
  let ?D = "word_of_int ` set ds :: u32 set" and ?C = "word_of_int ` set c :: u32 set"
  have "\<forall>i \<in> set (released_id_catch l). 0 \<le> i \<and> i < 2 ^ 24" using D(8) by simp
  then have apart: "?C \<inter> ?D = {}" by (rule rest_drop [OF ds(1) D(9)])
  have own_D: "dom (owner l) \<inter> ?D = {}" using D(5) unfolding rest by (rule Int_Un_emptyD)
  have "dom (owner l) \<union> ?C \<subseteq> issued_ids (ul_ids l) - ?D"
    using D(6,7) apart own_D unfolding rest subset_Diff_eq by simp
  then have iss: "dom (owner l) \<union> ?C \<subseteq> issued_ids a"
    using ds(9) by (rule subset_trans)
  show "layer_ok (layer_drain l)"
    unfolding layer_ok_def own resting_def
  proof (intro conjI ballI allI impI)
    fix i assume "kept (ul_clock (layer_drain l)) (released_id_keeper (layer_drain l)) i \<noteq> None"
    then have i: "kept (ul_clock l) (released_id_keeper l) i \<noteq> None" using ds(4) by (simp add: d)
    then have "i \<notin> set ds" using ds(2) by auto
    then show "i \<in> set (released_id_catch (layer_drain l))" using D(10) [OF i] ds(1) by (simp add: d)
  next
    show "dom (owner l) \<inter> word_of_int ` set (released_id_catch (layer_drain l)) = {}"
      using D(5) rest by (auto simp: d)
    show "dom (owner l) \<union> word_of_int ` set (released_id_catch (layer_drain l))
        \<subseteq> issued_ids (ul_ids (layer_drain l))"
      using iss by (simp add: d)
  next
    fix i assume "i \<in> set (released_id_catch (layer_drain l))"
    then have "i \<in> set (released_id_catch l)" by (simp add: d ds(1))
    then show "0 \<le> i" "i < 2 ^ 24" using D(8) [of i] by simp_all
  next
    fix e assume "e \<in> set (ul_flows (layer_drain l))"
    then show "fe_handler e = fe_flow e" using D(11) [of e] by (simp add: d)
  qed (use D(2,3,9,12,13) ds(1,3,5,6,7) in \<open>simp_all add: d\<close>)
  show "owner (layer_drain l) = owner l" by (rule own)
  show "kept (ul_clock l) (released_id_keeper (layer_drain l)) = kept (ul_clock l) (released_id_keeper l)"
    using ds(4) by (simp add: d)
  show "ul_flows (layer_drain l) = ul_flows l" "ul_clock (layer_drain l) = ul_clock l"
    "flows_cnt (layer_drain l) = flows_cnt l" "reuse_id (ul_ids (layer_drain l)) = reuse_id (ul_ids l)"
    "ul_acceptors (layer_drain l) = ul_acceptors l" "ul_open (layer_drain l) = ul_open l"
    using ds by (simp_all add: d)
qed

section \<open>Release\<close>

lemma uint_int_of_small:
  "(uint (i :: u32) < 2 ^ 24) = (unat i < 2 ^ 24)" "word_of_int (uint i) = i" "nat (uint i) = unat i"
proof -
  have "uint i = int (unat i)" by simp
  then show "(uint i < 2 ^ 24) = (unat i < 2 ^ 24)"
    using of_nat_less_iff [of "unat i" "2 ^ 24", where 'a = int] by simp
qed simp_all

lemma id_sint_small:
  assumes "unat (i :: u32) < 2 ^ 24"
  shows "sint i = uint i"
proof -
  have "uint i < 2 ^ 24" using assms by (simp only: uint_int_of_small)
  moreover have "- 2147483648 \<le> uint i" using uint_ge_0 [of i] by linarith
  ultimately show ?thesis
    using signed_take_bit_int_eq_self [of 31 "uint i"] by (simp add: sint_uint)
qed

lemma owner_some:
  assumes "layer_ok l" and "owner l i = Some p"
  shows "unat i < length (ul_flows l)" and "unat i < 2 ^ 24" and "i \<notin> resting l"
    and "uint i \<notin> set (released_id_catch l)"
    and "kept (ul_clock l) (released_id_keeper l) (uint i) = None"
    and "fe_handler (ul_flows l ! unat i) = Some p"
proof -
  note D = layer_okD [OF assms(1)]
  show len: "unat i < length (ul_flows l)" using assms(2) by (simp add: owner_def split: if_splits)
  then show "unat i < 2 ^ 24" using D(13) by simp
  show rest: "i \<notin> resting l" using D(5) assms(2) by (auto simp: dom_def)
  have "uint i \<in> set (released_id_catch l) \<Longrightarrow> i \<in> resting l"
    unfolding resting_def using imageI [of "uint i" _ word_of_int] by force
  then show c: "uint i \<notin> set (released_id_catch l)" using rest by blast
  show "kept (ul_clock l) (released_id_keeper l) (uint i) = None" using D(10) c by blast
  have "fe_handler (ul_flows l ! unat i) = fe_flow (ul_flows l ! unat i)"
    using D(11) nth_mem [OF len] by blast
  then show "fe_handler (ul_flows l ! unat i) = Some p"
    using assms(2) len by (simp add: owner_def)
qed

lemma finite_owner: "finite (dom (owner l))"
proof (rule finite_surj)
  show "dom (owner l) \<subseteq> word_of_nat ` {..<length (ul_flows l)}"
  proof
    fix i assume "i \<in> dom (owner l)"
    then have "unat i < length (ul_flows l)" by (auto simp: owner_def split: if_splits)
    then show "i \<in> word_of_nat ` {..<length (ul_flows l)}"
      by (intro image_eqI [of _ _ "unat i"]) simp_all
  qed
qed simp

definition rest_flow :: "u32 \<Rightarrow> udp_layer \<Rightarrow> udp_layer" where
  "rest_flow i l = l\<lparr>flows_cnt := flows_cnt l - 1,
     ul_flows := (ul_flows l)[unat i := flow_element_reset (ul_flows l ! unat i)],
     released_id_catch := released_id_catch l @ [uint i],
     released_id_keeper := snd (snd (set_try_keep (uint i) 64000 (ul_clock l) (released_id_keeper l)))\<rparr>"

lemma release_rest:
  assumes "unat i < length (ul_flows l)"
  shows "release_flow_id (uint i) l = Some (layer_drain (rest_flow i l))"
proof -
  have u: "uint i = int (unat i)" by simp
  have "\<not> uint i < 0" "\<not> int (length (ul_flows l)) \<le> uint i"
    using assms u by linarith+
  then show ?thesis
    by (simp add: release_flow_id_def rest_flow_def uint_int_of_small Let_def case_prod_unfold)
qed

lemma owner_rest_flow:
  assumes "unat i < length (ul_flows l)"
  shows "owner (rest_flow i l) = (owner l)(i := None)"
proof
  fix x
  show "owner (rest_flow i l) x = ((owner l)(i := None)) x"
  proof (cases "x = i")
    case False
    then have "unat x \<noteq> unat i" using word_unat_eq_iff [of x i] by auto
    then show ?thesis using False by (simp add: owner_def rest_flow_def)
  qed (use assms in \<open>simp add: owner_def rest_flow_def flow_element_reset_def\<close>)
qed

lemma rest_flow_ok:
  assumes ok: "layer_ok l" and own: "owner l i = Some p"
  shows "layer_ok (rest_flow i l)"
    and "kept (ul_clock l) (released_id_keeper (rest_flow i l)) =
      (kept (ul_clock l) (released_id_keeper l))(uint i \<mapsto> ul_clock l + 64000)"
proof -
  note D = layer_okD [OF ok]
  note o = owner_some [OF ok own]
  note t = try_keep_kept [OF D(4) o(5), of 64000]
  have dom: "dom (owner (rest_flow i l)) = dom (owner l) - {i}"
    by (simp add: owner_rest_flow [OF o(1)])
  have rest: "resting (rest_flow i l) = insert i (resting l)"
    by (simp add: resting_def rest_flow_def uint_int_of_small)
  show k: "kept (ul_clock l) (released_id_keeper (rest_flow i l)) =
      (kept (ul_clock l) (released_id_keeper l))(uint i \<mapsto> ul_clock l + 64000)"
    using t(2) by (simp add: rest_flow_def)
  have fin: "finite (dom (owner l))" by (rule finite_owner)
  show "layer_ok (rest_flow i l)"
    unfolding layer_ok_def dom rest
  proof (intro conjI ballI allI impI)
    show "(dom (owner l) - {i}) \<inter> insert i (resting l) = {}" using D(5) by auto
    show "dom (owner l) - {i} \<union> insert i (resting l) \<subseteq> issued_ids (ul_ids (rest_flow i l))"
      using D(6,7) own by (auto simp: rest_flow_def)
    show "flows_cnt (rest_flow i l) = int (card (dom (owner l) - {i}))"
      using D(12) own card_Suc_Diff1 [OF fin, of i] by (simp add: rest_flow_def domI)
  next
    fix j assume "kept (ul_clock (rest_flow i l)) (released_id_keeper (rest_flow i l)) j \<noteq> None"
    then have "j = uint i \<or> kept (ul_clock l) (released_id_keeper l) j \<noteq> None"
      using k by (simp add: rest_flow_def split: if_splits)
    then show "j \<in> set (released_id_catch (rest_flow i l))"
      using D(10) by (auto simp: rest_flow_def)
  next
    fix j assume "j \<in> set (released_id_catch (rest_flow i l))"
    then have "j = uint i \<or> j \<in> set (released_id_catch l)" by (auto simp: rest_flow_def)
    then show "0 \<le> j" "j < 2 ^ 24" using D(8) [of j] o(2) uint_int_of_small(1) [of i] by auto
  next
    fix e assume "e \<in> set (ul_flows (rest_flow i l))"
    then have "e = flow_element_reset (ul_flows l ! unat i) \<or> e \<in> set (ul_flows l)"
      using set_update_subset_insert by (fastforce simp: rest_flow_def)
    then show "fe_handler e = fe_flow e" using D(11) by (auto simp: flow_element_reset_def)
  qed (use D(1,2,3,9,13) o(4) t(1) in \<open>simp_all add: rest_flow_def\<close>)
qed

lemma release_ok:
  assumes ok: "layer_ok l" and own: "owner l i = Some p"
  obtains l' where "release_flow_id (uint i) l = Some l'" and "layer_ok l'"
    and "owner l' = (owner l)(i := None)" and "ul_clock l' = ul_clock l"
    and "kept (ul_clock l) (released_id_keeper l') =
      (kept (ul_clock l) (released_id_keeper l))(uint i \<mapsto> ul_clock l + 64000)"
    and "ul_acceptors l' = ul_acceptors l" and "ul_open l' = ul_open l"
proof -
  note o = owner_some [OF ok own]
  note r = rest_flow_ok [OF ok own]
  note d = layer_drain_ok [OF r(1)]
  have clk: "ul_clock (rest_flow i l) = ul_clock l" "ul_acceptors (rest_flow i l) = ul_acceptors l"
    "ul_open (rest_flow i l) = ul_open l"
    by (simp_all add: rest_flow_def)
  show ?thesis
    by (rule that [OF release_rest [OF o(1)] d(1)])
      (use d r(2) clk owner_rest_flow [OF o(1)] in \<open>simp_all\<close>)
qed

section \<open>Registration\<close>

lemma length_grow: "unat i < length (grow_flows i fs)" "length fs \<le> length (grow_flows i fs)"
  by (auto simp: grow_flows_def)

lemma nth_grow:
  "k < length (grow_flows i fs) \<Longrightarrow> grow_flows i fs ! k = (if k < length fs then fs ! k else flow_element_new)"
  by (auto simp: grow_flows_def nth_append)

lemma set_grow: "set (grow_flows i fs) \<subseteq> insert flow_element_new (set fs)"
  by (auto simp: grow_flows_def)

lemma length_grow_le: "unat i < n \<Longrightarrow> length fs \<le> n \<Longrightarrow> length (grow_flows i fs) \<le> n"
  by (auto simp: grow_flows_def)

definition put_flow :: "u32 \<Rightarrow> nat \<Rightarrow> id_allocator \<Rightarrow> udp_layer \<Rightarrow> udp_layer" where
  "put_flow i p a l = l\<lparr>ul_ids := a,
     ul_flows := (grow_flows i (ul_flows l))[unat i := \<lparr>fe_handler = Some p, fe_flow = Some p\<rparr>],
     flows_cnt := flows_cnt l + 1\<rparr>"

lemma owner_put_flow: "owner (put_flow i p a l) = (owner l)(i \<mapsto> p)"
proof
  fix x
  show "owner (put_flow i p a l) x = ((owner l)(i \<mapsto> p)) x"
  proof (cases "x = i")
    case False
    then have "unat x \<noteq> unat i" using word_unat_eq_iff [of x i] by auto
    then show ?thesis
      using False length_grow(2) [of "ul_flows l" i] nth_grow [of "unat x" i "ul_flows l"]
      by (auto simp: owner_def put_flow_def flow_element_new_def)
  qed (use length_grow(1) in \<open>simp add: owner_def put_flow_def\<close>)
qed

lemma register_run:
  assumes ok: "layer_ok l" and run: "register_flow p l = Some (i, e, l')"
  obtains a where "e = L_success" and "alloc_id (ul_ids (layer_drain l)) = Some (i, a)"
    and "\<not> INVALID_FLOWID \<le> i" and "l' = put_flow i p a (layer_drain l)"
proof -
  let ?l = "layer_drain l"
  obtain j a where al: "alloc_id (ul_ids ?l) = Some (j, a)"
    using run by (cases "alloc_id (ul_ids ?l)") (auto simp: register_flow_def)
  have len: "length (ul_flows ?l) < 2 ^ 24"
    using layer_okD(13) [OF layer_drain_ok(1) [OF ok]] .
  have "\<not> INVALID_FLOWID \<le> j"
  proof
    assume big: "INVALID_FLOWID \<le> j"
    have "sint j < 0 \<or> int (length (ul_flows ?l)) \<le> sint j"
    proof (cases "sint j < 0")
      case False
      then have "take_bit 32 (sint j) = sint j"
        using sint_lt [of j] by (simp add: take_bit_int_eq_self)
      then have "uint j = sint j" using uint_sint [of j] by simp
      moreover have "uint j = int (unat j)" by simp
      moreover have "length (ul_flows ?l) \<le> unat j"
        using big len by (simp add: INVALID_FLOWID_def word_le_nat_alt)
      ultimately show ?thesis by linarith
    qed simp
    then have "release_flow_id (sint j) (?l\<lparr>ul_ids := a\<rparr>) = None"
      by (simp add: release_flow_id_def)
    then show False using run al big by (simp add: register_flow_def)
  qed
  then show ?thesis
    using that [of a] run al by (auto simp: register_flow_def put_flow_def Let_def)
qed

lemma register_ok:
  assumes ok: "layer_ok l" and run: "register_flow p l = Some (i, e, l')"
  shows "e = L_success" and "layer_ok l'" and "owner l i = None" and "i \<notin> resting (layer_drain l)"
    and "owner l' = (owner l)(i \<mapsto> p)" and "ul_clock l' = ul_clock l"
    and "kept (ul_clock l) (released_id_keeper l') = kept (ul_clock l) (released_id_keeper l)"
    and "i \<noteq> INVALID_FLOWID" and "ul_acceptors l' = ul_acceptors l" and "ul_open l' = ul_open l"
proof -
  let ?l = "layer_drain l"
  note d = layer_drain_ok [OF ok]
  note D = layer_okD [OF d(1)]
  obtain a where a: "e = L_success" "alloc_id (ul_ids ?l) = Some (i, a)"
    "\<not> INVALID_FLOWID \<le> i" "l' = put_flow i p a ?l"
    using register_run [OF ok run] .
  have room: "id_room (ul_ids ?l)"
    using D(2,3) by (simp add: id_room_def INVALID_FLOWID_def word_le_nat_alt)
  note h = ids.held_after_alloc [OF D(1) room _ a(2)] ids.alloc_sound [OF D(1) room a(2)]
  have fresh: "i \<notin> dom (owner ?l) \<union> resting ?l" "insert i (dom (owner ?l) \<union> resting ?l) \<subseteq> issued_ids a"
    using h(1) [of "dom (owner ?l) \<union> resting ?l"] D(6,7) by simp_all
  have tail: "tail_id a \<le> INVALID_FLOWID" "reserved_id_set a = []"
    using alloc_id_tail [OF D(1) room a(2)] a(3) D(2,3) inc_le [of i INVALID_FLOWID] by auto
  show "e = L_success" "i \<noteq> INVALID_FLOWID" using a by auto
  show "owner l i = None" "i \<notin> resting ?l" using fresh(1) d(2) by auto
  show own: "owner l' = (owner l)(i \<mapsto> p)" by (simp add: a(4) owner_put_flow d(2))
  show "ul_clock l' = ul_clock l"
    "kept (ul_clock l) (released_id_keeper l') = kept (ul_clock l) (released_id_keeper l)"
    "ul_acceptors l' = ul_acceptors l" "ul_open l' = ul_open l"
    using d by (simp_all add: a(4) put_flow_def)
  have rest: "resting (put_flow i p a ?l) = resting ?l" by (simp add: resting_def put_flow_def)
  show "layer_ok l'"
    unfolding a(4) layer_ok_def rest owner_put_flow
  proof (intro conjI ballI allI impI)
    show "dom ((owner ?l)(i \<mapsto> p)) \<inter> resting ?l = {}" using D(5) fresh(1) by auto
    show "dom ((owner ?l)(i \<mapsto> p)) \<union> resting ?l \<subseteq> issued_ids (ul_ids (put_flow i p a ?l))"
      using fresh(2) by (simp add: put_flow_def)
    show "flows_cnt (put_flow i p a ?l) = int (card (dom ((owner ?l)(i \<mapsto> p))))"
      using D(12) fresh(1) finite_owner [of ?l] by (simp add: put_flow_def)
    have "unat i < 2 ^ 24 - 1"
      using a(3) by (simp add: INVALID_FLOWID_def word_le_nat_alt not_le)
    then show "length (ul_flows (put_flow i p a ?l)) < 2 ^ 24"
      using length_grow_le [of i "2 ^ 24 - 1" "ul_flows ?l"] D(13)
      by (simp add: put_flow_def)
  next
    fix j assume "kept (ul_clock (put_flow i p a ?l)) (released_id_keeper (put_flow i p a ?l)) j \<noteq> None"
    then show "j \<in> set (released_id_catch (put_flow i p a ?l))"
      using D(10) [of j] by (simp add: put_flow_def)
  next
    fix j assume "j \<in> set (released_id_catch (put_flow i p a ?l))"
    then show "0 \<le> j" "j < 2 ^ 24" using D(8) [of j] by (simp_all add: put_flow_def)
  next
    fix f assume "f \<in> set (ul_flows (put_flow i p a ?l))"
    then have "f = \<lparr>fe_handler = Some p, fe_flow = Some p\<rparr> \<or> f = flow_element_new \<or> f \<in> set (ul_flows ?l)"
      using set_update_subset_insert set_grow unfolding put_flow_def by fastforce
    then show "fe_handler f = fe_flow f" using D(11) by (auto simp: flow_element_new_def)
  qed (use h(2) tail D(4,9) in \<open>simp_all add: put_flow_def\<close>)
qed

section \<open>Steps of the layer\<close>

text \<open>What the acceptor's handler does to the layer: the new flow (here at address \<open>p\<close>)
  registers itself, and its id is answered (\<open>basic_urdp_acceptor::on_passive_request\<close>); a flow
  of a closed socket answers the invalid id.\<close>

definition passive_request :: "nat \<Rightarrow> nat \<Rightarrow> u32 \<times> u16 \<Rightarrow> udp_layer \<Rightarrow> (u32 \<times> udp_layer) option" where
  "passive_request p acc ep l =
     map_option (\<lambda>(i, e, l'). (if ul_open l' then i else INVALID_FLOWID, l')) (register_flow p l)"

text \<open>A step is one call of the layer, or the passing of time. A flow registers under a new
  address and unregisters the id its token names.\<close>

inductive layer_step :: "udp_layer \<Rightarrow> udp_layer \<Rightarrow> bool" where
  Register: "p \<notin> ran (owner l) \<Longrightarrow> register_flow p l = Some (i, e, l') \<Longrightarrow> layer_step l l'"
| Unregister: "owner l i = Some p \<Longrightarrow> unregister_flow i l = Some l' \<Longrightarrow> layer_step l l'"
| Register_acceptor: "layer_step l (snd (register_acceptor acc name l))"
| Unregister_acceptor: "layer_step l (unregister_acceptor acc l)"
| Receive: "p \<notin> ran (owner l) \<Longrightarrow> handle_receive (passive_request p) buf from l = Some (r, l') \<Longrightarrow>
    layer_step l l'"
| Send: "layer_step l (snd (async_send_to buf ep l))"
| Start: "layer_step l (layer_start l)"
| Cancel: "layer_step l (layer_cancel l)"
| Time: "0 \<le> d \<Longrightarrow> layer_step l (l\<lparr>ul_clock := ul_clock l + d, ul_pool := pool, ul_outs := [],
    ul_recv_handler := h\<rparr>)"

text \<open>Operations that leave the registry alone.\<close>

definition registry :: "udp_layer \<Rightarrow>
    id_allocator \<times> int list \<times> int keeper \<times> flow_element list \<times> int" where
  "registry l = (ul_ids l, released_id_catch l, released_id_keeper l, ul_flows l, flows_cnt l)"

lemma registry_same:
  assumes "registry l' = registry l"
  shows "owner l' = owner l" and "resting l' = resting l"
    and "ul_clock l' = ul_clock l \<Longrightarrow> layer_ok l' = layer_ok l"
    and "released_id_keeper l' = released_id_keeper l"
proof -
  have f: "ul_ids l' = ul_ids l" "released_id_catch l' = released_id_catch l"
    "released_id_keeper l' = released_id_keeper l" "ul_flows l' = ul_flows l" "flows_cnt l' = flows_cnt l"
    using assms by (simp_all add: registry_def)
  show o: "owner l' = owner l" "resting l' = resting l" "released_id_keeper l' = released_id_keeper l"
    using f by (simp_all add: owner_def resting_def fun_eq_iff)
  show "layer_ok l' = layer_ok l" if "ul_clock l' = ul_clock l"
    unfolding layer_ok_def o f that by (rule refl)
qed

lemma quiet_ops [simp]:
  "registry (snd (async_send_to b ep l)) = registry l"
  "ul_clock (snd (async_send_to b ep l)) = ul_clock l"
  "registry (drop_recv_handler l) = registry l" "ul_clock (drop_recv_handler l) = ul_clock l"
  "registry (snd (register_acceptor acc name l)) = registry l"
  "ul_clock (snd (register_acceptor acc name l)) = ul_clock l"
  "registry (layer_start l) = registry l" "ul_clock (layer_start l) = ul_clock l"
  "registry (layer_cancel l) = registry l" "ul_clock (layer_cancel l) = ul_clock l"
  by (simp_all add: registry_def async_send_to_def drop_recv_handler_def register_acceptor_def
      layer_start_def layer_cancel_def)

lemma quiet_unregister_acceptor [simp]:
  "registry (unregister_acceptor acc l) = registry l" "ul_clock (unregister_acceptor acc l) = ul_clock l"
  by (simp_all add: unregister_acceptor_def) (simp add: registry_def)

lemma quiet_refuse:
  "send_refuse b l = Some l' \<Longrightarrow> registry l' = registry l \<and> ul_clock l' = ul_clock l"
  by (auto simp: send_refuse_def)

lemma quiet_deliver:
  "deliver_to dst b l = Some (r, l') \<Longrightarrow> registry l' = registry l \<and> ul_clock l' = ul_clock l"
  by (auto simp: deliver_to_def bind_eq_Some_conv quiet_refuse split: if_splits)

text \<open>The registry moves in three ways only.\<close>

definition moves :: "udp_layer \<Rightarrow> udp_layer \<Rightarrow> bool" where
  "moves l l' \<longleftrightarrow>
     ul_clock l' = ul_clock l \<and> registry l' = registry l
     \<or> (\<exists>l0 l1 p i e. registry l0 = registry l \<and> ul_clock l0 = ul_clock l \<and> p \<notin> ran (owner l)
          \<and> register_flow p l0 = Some (i, e, l1) \<and> registry l' = registry l1 \<and> ul_clock l' = ul_clock l1)
     \<or> (\<exists>l0 l1 p i. registry l0 = registry l \<and> ul_clock l0 = ul_clock l \<and> owner l i = Some p
          \<and> release_flow_id (sint i) l0 = Some l1 \<and> registry l' = registry l1 \<and> ul_clock l' = ul_clock l1)
     \<or> (\<exists>d \<ge> 0. registry l' = registry l \<and> ul_clock l' = ul_clock l + d)"

lemma moves_quiet: "registry l' = registry l \<Longrightarrow> ul_clock l' = ul_clock l \<Longrightarrow> moves l l'"
  by (simp add: moves_def)

lemma moves_route:
  assumes "route_request (passive_request p) elm b l = Some (dst, l')" and "p \<notin> ran (owner l)"
  shows "moves l l'"
proof -
  obtain peer session where h: "get_src_peer_id (ul_big l) b = Some peer"
    "get_session (ul_big l) b = Some session"
    using assms(1) by (auto simp: route_request_def bind_eq_Some_conv)
  define q where "q = \<lparr>rq_endpoint = sender_endpoint l, rq_peer = peer, rq_session = session, rq_flow = 0\<rparr>"
  obtain found s1 where f: "request_find q (ul_clock l) (request_uuid_keeper l) = (found, s1)"
    by (cases "request_find q (ul_clock l) (request_uuid_keeper l)")
  let ?l = "l\<lparr>request_uuid_keeper := s1\<rparr>"
  have same: "registry ?l = registry l" "ul_clock ?l = ul_clock l" by (simp_all add: registry_def)
  show ?thesis
  proof (cases found)
    case None
    then obtain i l2 where r: "passive_request p (ae_handler elm) (rq_endpoint q) ?l = Some (i, l2)"
      and l': "l' = l2\<lparr>request_uuid_keeper := snd (snd (request_try_keep (q\<lparr>rq_flow := i\<rparr>) 60000
        (ul_clock l2) (request_uuid_keeper l2)))\<rparr>"
      using assms(1) h f by (auto simp: route_request_def q_def case_prod_unfold bind_eq_Some_conv Let_def)
    obtain j e where "register_flow p ?l = Some (j, e, l2)"
      using r by (auto simp: passive_request_def)
    moreover have "registry l' = registry l2" "ul_clock l' = ul_clock l2"
      by (simp_all add: l' registry_def)
    ultimately show ?thesis
      using same assms(2) unfolding moves_def by blast
  next
    case (Some r)
    then have "l' = ?l" using assms(1) h f by (simp add: route_request_def q_def)
    then show ?thesis using same by (simp add: moves_quiet)
  qed
qed

lemma moves_after: "moves l l1 \<Longrightarrow> registry l' = registry l1 \<Longrightarrow> ul_clock l' = ul_clock l1 \<Longrightarrow> moves l l'"
  by (simp add: moves_def)

lemma moves_before: "moves l1 l' \<Longrightarrow> registry l1 = registry l \<Longrightarrow> ul_clock l1 = ul_clock l \<Longrightarrow> moves l l'"
  using registry_same(1) [of l1 l] by (simp add: moves_def)

lemma moves_msg:
  assumes run: "do_handle_received_urdp_msg (passive_request p) b l = Some (r, l')" and p: "p \<notin> ran (owner l)"
  shows "moves l l'"
proof -
  obtain conn where c: "is_conn_request (ul_big l) b = Some conn"
    using run by (auto simp: do_handle_received_urdp_msg_def bind_eq_Some_conv)
  show ?thesis
  proof (cases conn)
    case False
    then obtain dst where "deliver_to dst b l = Some (r, l')"
      using run c by (auto simp: do_handle_received_urdp_msg_def bind_eq_Some_conv)
    then show ?thesis using quiet_deliver moves_quiet by blast
  next
    case True
    then obtain name where n: "get_demain_name (ul_big l) b b = Some name"
      using run c by (auto simp: do_handle_received_urdp_msg_def bind_eq_Some_conv)
    show ?thesis
    proof (cases "map_of (ul_acceptors l) name")
      case None
      define l2 where "l2 = l\<lparr>unreachable_endpoint_keeper :=
        snd (snd (set_try_keep (sender_endpoint l) 2000 (ul_clock l) (unreachable_endpoint_keeper l)))\<rparr>"
      have l2: "registry l2 = registry l" "ul_clock l2 = ul_clock l" by (simp_all add: l2_def registry_def)
      have "l' = l2 \<or> send_refuse b l2 = Some l'"
        using run c True n None
        by (auto simp: do_handle_received_urdp_msg_def l2_def case_prod_unfold Let_def split: if_splits)
      then show ?thesis using l2 quiet_refuse [of b l2 l'] moves_quiet by metis
    next
      case (Some elm)
      then obtain dst l2 where r: "route_request (passive_request p) elm b l = Some (dst, l2)"
        and d: "deliver_to dst b l2 = Some (r, l')"
        using run c True n by (auto simp: do_handle_received_urdp_msg_def bind_eq_Some_conv)
      show ?thesis
        using moves_after [OF moves_route [OF r p]] quiet_deliver [OF d] by blast
    qed
  qed
qed

lemma moves_receive:
  assumes "handle_receive (passive_request p) b from l = Some (r, l')" and "p \<notin> ran (owner l)"
  shows "moves l l'"
proof -
  define l1 where "l1 = l\<lparr>sender_endpoint := from,
                   ul_in_meter := sm_add (ul_clock l) (length b) (ul_in_meter l)\<rparr>"
  have l1: "registry l1 = registry l" "ul_clock l1 = ul_clock l" by (simp_all add: l1_def registry_def)
  have p: "p \<notin> ran (owner l1)" using assms(2) registry_same(1) [OF l1(1)] by simp
  have "l' = l \<or> l' = l1 \<or>
      do_handle_received_urdp_msg (passive_request p) (drop 8 b) l1 = Some (r, l')"
    using assms(1) by (auto simp: handle_receive_def do_handle_received_def l1_def Let_def split: if_splits)
  then show ?thesis
    using moves_before [OF moves_msg [OF _ p]] l1 moves_quiet by blast
qed

lemma step_moves:
  assumes "layer_step l l'"
  shows "moves l l'"
  using assms
proof (cases rule: layer_step.cases)
  case (Register p i e)
  then show ?thesis unfolding moves_def by blast
next
  case (Unregister i p)
  then obtain l1 where l1: "l' = drop_recv_handler l1" "l1 = l \<or> release_flow_id (sint i) l = Some l1"
    by (auto simp: unregister_flow_def split: if_splits)
  have "registry l' = registry l1" "ul_clock l' = ul_clock l1" by (simp_all add: l1(1))
  then show ?thesis
    using Unregister(1) l1(2) unfolding moves_def by blast
next
  case (Receive p buf ep r)
  then show ?thesis using moves_receive by blast
next
  case (Time d pool h)
  then show ?thesis by (auto simp: moves_def registry_def)
qed (simp_all add: moves_quiet)

section \<open>The invariant holds in every step\<close>

lemma moves_cases:
  assumes ok: "layer_ok l" and m: "moves l l'"
  obtains (Quiet) d where "0 \<le> d" "owner l' = owner l" "ul_clock l' = ul_clock l + d" "layer_ok l'"
      "released_id_keeper l' = released_id_keeper l"
  | (Put) i p where "owner l i = None" "kept (ul_clock l) (released_id_keeper l) (uint i) = None"
      "owner l' = (owner l)(i \<mapsto> p)" "ul_clock l' = ul_clock l" "layer_ok l'"
      "kept (ul_clock l) (released_id_keeper l') = kept (ul_clock l) (released_id_keeper l)"
  | (Rest) i p where "owner l i = Some p" "owner l' = (owner l)(i := None)" "ul_clock l' = ul_clock l"
      "layer_ok l'"
      "kept (ul_clock l) (released_id_keeper l') =
        (kept (ul_clock l) (released_id_keeper l))(uint i \<mapsto> ul_clock l + 64000)"
proof -
  consider (Q) "ul_clock l' = ul_clock l" "registry l' = registry l"
    | (P) l0 l1 p i e where "registry l0 = registry l" "ul_clock l0 = ul_clock l"
        "register_flow p l0 = Some (i, e, l1)" "registry l' = registry l1" "ul_clock l' = ul_clock l1"
    | (R) l0 l1 p i where "registry l0 = registry l" "ul_clock l0 = ul_clock l" "owner l i = Some p"
        "release_flow_id (sint i) l0 = Some l1" "registry l' = registry l1" "ul_clock l' = ul_clock l1"
    | (T) d where "0 \<le> d" "registry l' = registry l" "ul_clock l' = ul_clock l + d"
    using m unfolding moves_def by blast
  then show thesis
  proof cases
    case Q
    show ?thesis
      by (rule Quiet [of 0]) (use Q registry_same [OF Q(2)] ok in simp_all)
  next
    case P
    note s0 = registry_same [OF P(1)] and s1 = registry_same [OF P(4)]
    have ok0: "layer_ok l0" using s0(3) [OF P(2)] ok by simp
    note r = register_ok [OF ok0 P(3)]
    have "kept (ul_clock l) (released_id_keeper l) (uint i) = None"
    proof (rule ccontr)
      note d = layer_drain_ok [OF ok0]
      assume "kept (ul_clock l) (released_id_keeper l) (uint i) \<noteq> None"
      then have "kept (ul_clock (layer_drain l0)) (released_id_keeper (layer_drain l0)) (uint i) \<noteq> None"
        using d(4,6) P(2) s0(4) by simp
      then have "uint i \<in> set (released_id_catch (layer_drain l0))" by (rule layer_okD(10) [OF d(1)])
      then have "i \<in> resting (layer_drain l0)"
        unfolding resting_def using imageI [of "uint i" _ word_of_int] by force
      then show False using r(4) by simp
    qed
    then show ?thesis
      by (rule Put [of i p, rotated]) (use r s0 s1 P in simp_all)
  next
    case R
    note s0 = registry_same [OF R(1)] and s1 = registry_same [OF R(5)]
    have ok0: "layer_ok l0" and own0: "owner l0 i = Some p" using s0(1,3) R(2,3) ok by simp_all
    have "sint i = uint i" using owner_some(2) [OF ok0 own0] by (rule id_sint_small)
    then obtain l2 where l2: "release_flow_id (sint i) l0 = Some l2" "layer_ok l2"
      "owner l2 = (owner l0)(i := None)" "ul_clock l2 = ul_clock l0"
      "kept (ul_clock l0) (released_id_keeper l2) =
        (kept (ul_clock l0) (released_id_keeper l0))(uint i \<mapsto> ul_clock l0 + 64000)"
      using release_ok [OF ok0 own0] by metis
    then have "l2 = l1" using R(4) by simp
    show ?thesis
      by (rule Rest [of i p]) (use l2 \<open>l2 = l1\<close> R s0 s1 in simp_all)
  next
    case T
    note s1 = registry_same [OF T(2)]
    have "layer_ok l'"
      unfolding layer_ok_def s1(1,2)
    proof (intro conjI ballI allI impI)
      note D = layer_okD [OF ok]
      have f: "ul_ids l' = ul_ids l" "released_id_catch l' = released_id_catch l"
        "released_id_keeper l' = released_id_keeper l" "ul_flows l' = ul_flows l" "flows_cnt l' = flows_cnt l"
        using T(2) by (simp_all add: registry_def)
      fix j assume "kept (ul_clock l') (released_id_keeper l') j \<noteq> None"
      then have "kept (ul_clock l) (released_id_keeper l) j \<noteq> None"
        using kept_later [OF D(4), of "ul_clock l" "ul_clock l'" j] T(1,3) f(3)
        by (auto split: option.splits)
      then show "j \<in> set (released_id_catch l')" using D(10) f(2) by simp
    qed (use ok T(2) in \<open>simp_all add: layer_ok_def registry_def\<close>)
    then show ?thesis by (intro Quiet [of d]) (use T s1 in simp_all)
  qed
qed

lemma moves_ok: "layer_ok l \<Longrightarrow> moves l l' \<Longrightarrow> layer_ok l'"
  by (erule moves_cases) simp_all

lemma step_ok: "layer_ok l \<Longrightarrow> layer_step l l' \<Longrightarrow> layer_ok l'"
  using moves_ok step_moves by blast

lemma new_ok: "layer_ok (udp_layer_new big now pool)"
proof -
  have "owner (udp_layer_new big now pool) = Map.empty"
    by (simp add: owner_def udp_layer_new_def fun_eq_iff)
  then show ?thesis
    unfolding layer_ok_def
    by (simp add: udp_layer_new_def resting_def id_allocator_ok_def id_allocator_new_def
        set_keeper_ok_def keeper_inv_def kept_def set_clear_timeout_def keeper_abs_def find_key_def)
qed

abbreviation layer_run :: "udp_layer \<Rightarrow> udp_layer \<Rightarrow> bool" where
  "layer_run \<equiv> layer_step\<^sup>*\<^sup>*"

lemma run_ok: "layer_run l l' \<Longrightarrow> layer_ok l \<Longrightarrow> layer_ok l'"
  by (induction rule: rtranclp_induct) (auto intro: step_ok)

lemma run_clock: "layer_run l l' \<Longrightarrow> layer_ok l \<Longrightarrow> ul_clock l \<le> ul_clock l'"
proof (induction rule: rtranclp_induct)
  case (step l1 l2)
  have "ul_clock l1 \<le> ul_clock l2"
    by (rule moves_cases [OF run_ok [OF step(1,4)] step_moves [OF step(2)]]) simp_all
  then show ?case using step by simp
qed simp

section \<open>Rest\<close>

text \<open>An id is held for a flow until a time: the flow owns it, or it rests until then.\<close>

definition held_until :: "u32 \<Rightarrow> nat \<Rightarrow> tick \<Rightarrow> udp_layer \<Rightarrow> bool" where
  "held_until i p t l \<longleftrightarrow> owner l i = Some p \<or>
     owner l i = None \<and> (\<exists>d \<ge> t. kept (ul_clock l) (released_id_keeper l) (uint i) = Some d)"

lemma held_step:
  assumes ok: "layer_ok l" and step: "layer_step l l'" and held: "held_until i p t l"
    and now: "ul_clock l' < t" and early: "t \<le> ul_clock l + 64000"
  shows "held_until i p t l'"
  using ok step_moves [OF step]
proof (cases rule: moves_cases)
  case (Quiet d)
  show ?thesis
    using held kept_later [OF layer_okD(4) [OF ok], of "ul_clock l" "ul_clock l'" "uint i"] Quiet now
    unfolding held_until_def by auto
next
  case (Put j q)
  then have "held_until i p t l' \<or> j = i" using held by (auto simp: held_until_def)
  then show ?thesis using held Put by (auto simp: held_until_def)
next
  case (Rest j q)
  have "j = i \<or> uint j \<noteq> uint i" using word_uint_eq_iff by auto
  then show ?thesis
    using held Rest early by (auto simp: held_until_def)
qed

lemma held_run:
  assumes "layer_run l l'" and "layer_ok l" and "owner l i = Some p" and "ul_clock l' < ul_clock l + 64000"
  shows "held_until i p (ul_clock l + 64000) l'"
  using assms
proof (induction rule: rtranclp_induct)
  case base
  then show ?case by (simp add: held_until_def)
next
  case (step l1 l2)
  have ok1: "layer_ok l1" using run_ok step(1,4) by blast
  have "ul_clock l1 \<le> ul_clock l2" "ul_clock l \<le> ul_clock l1"
    using run_clock [OF r_into_rtranclp [of layer_step, OF step(2)] ok1] run_clock [OF step(1,4)] by simp_all
  then show ?case
    using held_step [OF ok1 step(2)] step by simp
qed

end
