(* ===== verification/Udp_Requests.thy ===== *)
theory Udp_Requests
  imports Udp_Layer_Inv
begin

text \<open>Connect requests at the shared UDP layer: the record that remembers which flow answered a
  request outlives no id it names, so a repeated request never reaches another flow. With the
  properties of the layer as a whole.\<close>

section \<open>The keeper of the requests\<close>

interpretation krequest: timed_keeper request_try_keep "keeper_abs request_key"
  "keeper_inv request_key" request_key set_expired
  by (rule timed_keeper_impl) (auto simp: set_expired_def request_try_keep_def set_clear_timeout_def)

definition persists :: "tick \<Rightarrow> request_uuid keeper \<Rightarrow> request_uuid keeper \<Rightarrow> bool" where
  "persists now k k' \<longleftrightarrow> keeper_inv request_key k' \<and> (\<forall>e \<in> set k. now < e_out e \<longrightarrow> e \<in> set k')"

lemma clear_persists:
  assumes "keeper_inv request_key k"
  shows "persists now k (snd (set_clear_timeout now k))"
  using assms
  by (auto simp: persists_def clear_timeout_filter keeper_inv_filter set_expired_def)

lemma try_keep_persists:
  assumes inv: "keeper_inv request_key k"
  shows "persists now k (snd (snd (request_try_keep d t now k)))"
proof -
  have "set (snd (set_clear_timeout now k)) \<subseteq> set (snd (snd (request_try_keep d t now k)))"
    by (auto simp: request_try_keep_def case_prod_unfold Let_def)
  then show ?thesis
    using clear_persists [OF inv, of now] krequest.inv_attempt [OF inv]
    by (auto simp: persists_def)
qed

lemma persists_refl: "keeper_inv request_key k \<Longrightarrow> persists now k k"
  by (simp add: persists_def)

lemma persists_trans: "persists now k k1 \<Longrightarrow> persists now k1 k2 \<Longrightarrow> persists now k k2"
  by (simp add: persists_def)

lemma persists_later: "persists now k k1 \<Longrightarrow> now \<le> later \<Longrightarrow> persists later k k1"
  by (auto simp: persists_def)

lemma request_find_eq:
  "request_find d now k = (map_option e_data (find_key request_key (request_key d)
     (snd (set_clear_timeout now k))), snd (set_clear_timeout now k))"
  by (simp add: request_find_def case_prod_unfold Let_def)

text \<open>The memory of the layer: the requests, the byte order and the sender.\<close>

definition memory :: "udp_layer \<Rightarrow> request_uuid keeper \<times> bool \<times> (u32 \<times> u16)" where
  "memory l = (request_uuid_keeper l, ul_big l, sender_endpoint l)"

lemma memory_quiet [simp]:
  "memory (snd (async_send_to b ep l)) = memory l" "memory (drop_recv_handler l) = memory l"
  "memory (snd (register_acceptor acc name l)) = memory l" "memory (layer_start l) = memory l"
  "memory (layer_cancel l) = memory l" "memory (layer_drain l) = memory l"
  "memory (unregister_acceptor acc l) = memory l"
  by (simp_all add: memory_def async_send_to_def drop_recv_handler_def register_acceptor_def
      layer_start_def layer_cancel_def layer_drain_def unregister_acceptor_def case_prod_unfold Let_def)

lemma memory_release: "release_flow_id i l = Some l' \<Longrightarrow> memory l' = memory l"
  by (auto simp: release_flow_id_def case_prod_unfold Let_def split: if_splits) (simp add: memory_def)

lemma memory_register: "register_flow p l = Some (i, e, l') \<Longrightarrow> memory l' = memory l"
  using memory_quiet(6) [of l]
  by (auto simp: register_flow_def Let_def memory_def dest!: memory_release
      split: option.splits if_splits)

lemma memory_refuse: "send_refuse b l = Some l' \<Longrightarrow> memory l' = memory l"
  by (auto simp: send_refuse_def)

lemma memory_deliver: "deliver_to dst b l = Some (r, l') \<Longrightarrow> memory l' = memory l"
  by (auto simp: deliver_to_def bind_eq_Some_conv memory_refuse split: if_splits)

text \<open>A request the layer sees: the key of the record and where it leads.\<close>

definition request_of :: "bytes \<Rightarrow> udp_layer \<Rightarrow> request_uuid option" where
  "request_of b l =
     Option.bind (get_src_peer_id (ul_big l) b) (\<lambda>peer.
     Option.bind (get_session (ul_big l) b) (\<lambda>session.
       Some \<lparr>rq_endpoint = sender_endpoint l, rq_peer = peer, rq_session = session, rq_flow = 0\<rparr>))"

lemma route_request_some:
  assumes "request_of b l = Some q"
  shows "route_request on_request elm b l =
    (let (found, s1) = request_find q (ul_clock l) (request_uuid_keeper l);
         l1 = l\<lparr>request_uuid_keeper := s1\<rparr>
     in case found of
          Some r \<Rightarrow> Some (rq_flow r, l1)
        | None \<Rightarrow>
            Option.bind (on_request (ae_handler elm) (sender_endpoint l) l1) (\<lambda>(i, l2).
              let (_, _, s2) = request_try_keep (q\<lparr>rq_flow := i\<rparr>) 60000 (ul_clock l2)
                                 (request_uuid_keeper l2)
              in Some (i, l2\<lparr>request_uuid_keeper := s2\<rparr>)))"
proof -
  obtain peer session where h: "get_src_peer_id (ul_big l) b = Some peer"
    "get_session (ul_big l) b = Some session"
    "q = \<lparr>rq_endpoint = sender_endpoint l, rq_peer = peer, rq_session = session, rq_flow = 0\<rparr>"
    using assms by (auto simp: request_of_def bind_eq_Some_conv)
  show ?thesis
    by (cases "fst (request_find q (ul_clock l) (request_uuid_keeper l))")
      (simp_all add: route_request_def h Let_def case_prod_unfold)
qed

lemma route_request_request:
  "route_request on_request elm b l = Some x \<Longrightarrow> \<exists>q. request_of b l = Some q"
  by (auto simp: route_request_def request_of_def bind_eq_Some_conv)

text \<open>A request that is remembered leads where it led.\<close>

lemma route_known:
  assumes "request_of b l = Some q"
    and "fst (request_find q (ul_clock l) (request_uuid_keeper l)) = Some r"
  shows "route_request on_request elm b l =
    Some (rq_flow r, l\<lparr>request_uuid_keeper := snd (set_clear_timeout (ul_clock l) (request_uuid_keeper l))\<rparr>)"
  using assms by (auto simp: route_request_some request_find_eq Let_def)

text \<open>A new request registers a flow and is remembered.\<close>

lemma route_new:
  assumes "request_of b l = Some q"
    and "fst (request_find q (ul_clock l) (request_uuid_keeper l)) = None"
    and "route_request (passive_request p) elm b l = Some (dst, l')"
  obtains i e l1 l0 where
    "l0 = l\<lparr>request_uuid_keeper := snd (set_clear_timeout (ul_clock l) (request_uuid_keeper l))\<rparr>"
    "register_flow p l0 = Some (i, e, l1)" "dst = (if ul_open l1 then i else INVALID_FLOWID)"
    "l' = l1\<lparr>request_uuid_keeper := snd (snd (request_try_keep (q\<lparr>rq_flow := dst\<rparr>) 60000
       (ul_clock l1) (snd (set_clear_timeout (ul_clock l) (request_uuid_keeper l)))))\<rparr>"
proof -
  let ?l0 = "l\<lparr>request_uuid_keeper := snd (set_clear_timeout (ul_clock l) (request_uuid_keeper l))\<rparr>"
  obtain dst' l1 where r: "passive_request p (ae_handler elm) (sender_endpoint l) ?l0 = Some (dst', l1)"
    and l': "dst' = dst" "l' = l1\<lparr>request_uuid_keeper := snd (snd (request_try_keep (q\<lparr>rq_flow := dst'\<rparr>)
      60000 (ul_clock l1) (request_uuid_keeper l1)))\<rparr>"
    using assms by (auto simp: route_request_some request_find_eq case_prod_unfold bind_eq_Some_conv Let_def)
  obtain i e where i: "register_flow p ?l0 = Some (i, e, l1)" "dst = (if ul_open l1 then i else INVALID_FLOWID)"
    using r l'(1) by (auto simp: passive_request_def)
  have "request_uuid_keeper l1 = request_uuid_keeper ?l0"
    using memory_register [OF i(1)] by (simp add: memory_def)
  then show ?thesis using that [OF refl i] l' by simp
qed

definition requests_ok :: "udp_layer \<Rightarrow> bool" where
  "requests_ok l = keeper_inv request_key (request_uuid_keeper l)"

definition persist :: "udp_layer \<Rightarrow> udp_layer \<Rightarrow> bool" where
  "persist l l' \<longleftrightarrow> ul_clock l \<le> ul_clock l' \<and> ul_big l' = ul_big l
     \<and> persists (ul_clock l') (request_uuid_keeper l) (request_uuid_keeper l')"

lemma persist_route:
  assumes ok: "layer_ok l" "requests_ok l" and run: "route_request (passive_request p) elm b l = Some (dst, l')"
  shows "persist l l' \<and> ul_clock l' = ul_clock l \<and> sender_endpoint l' = sender_endpoint l"
proof -
  have inv: "keeper_inv request_key (request_uuid_keeper l)" using ok(2) by (simp add: requests_ok_def)
  let ?k = "snd (set_clear_timeout (ul_clock l) (request_uuid_keeper l))"
  have clr: "persists (ul_clock l) (request_uuid_keeper l) ?k" by (rule clear_persists [OF inv])
  obtain q where q: "request_of b l = Some q" using route_request_request [OF run] ..
  show ?thesis
  proof (cases "fst (request_find q (ul_clock l) (request_uuid_keeper l))")
    case (Some r)
    then show ?thesis using route_known [OF q Some] run clr by (auto simp: persist_def)
  next
    case None
    obtain i e l1 l0 where l0: "l0 = l\<lparr>request_uuid_keeper := ?k\<rparr>"
      and r: "register_flow p l0 = Some (i, e, l1)"
      and l': "l' = l1\<lparr>request_uuid_keeper := snd (snd (request_try_keep (q\<lparr>rq_flow := dst\<rparr>) 60000
         (ul_clock l1) ?k))\<rparr>"
      using route_new [OF q None run] by metis
    have "registry l0 = registry l" "ul_clock l0 = ul_clock l" by (simp_all add: l0 registry_def)
    then have "layer_ok l0" using registry_same(3) ok(1) by blast
    then have c: "ul_clock l1 = ul_clock l" using register_ok(6) [OF _ r] by (simp add: l0)
    have "persists (ul_clock l) ?k (request_uuid_keeper l')"
      using try_keep_persists [of ?k "ul_clock l"] clr c by (simp add: l' persists_def)
    then show ?thesis
      using persists_trans [OF clr] c memory_register [OF r] by (auto simp: l' persist_def memory_def l0)
  qed
qed

lemma persist_refl: "requests_ok l \<Longrightarrow> persist l l"
  by (simp add: persist_def requests_ok_def persists_refl)

lemma persist_memory:
  assumes "requests_ok l" and "request_uuid_keeper l' = request_uuid_keeper l" and "ul_big l' = ul_big l"
    and "ul_clock l \<le> ul_clock l'"
  shows "persist l l'"
  using assms by (simp add: persist_def requests_ok_def persists_refl)

lemma persist_trans: "persist l l1 \<Longrightarrow> persist l1 l2 \<Longrightarrow> persist l l2"
  using persists_later [of "ul_clock l1" "request_uuid_keeper l" "request_uuid_keeper l1" "ul_clock l2"]
  by (auto simp: persist_def intro: persists_trans)

lemma persist_requests: "persist l l' \<Longrightarrow> requests_ok l'"
  by (simp add: persist_def persists_def requests_ok_def)

lemma memory_eqD:
  "memory l' = memory l \<Longrightarrow> request_uuid_keeper l' = request_uuid_keeper l \<and> ul_big l' = ul_big l
     \<and> sender_endpoint l' = sender_endpoint l"
  by (simp add: memory_def)

lemma persist_quiet:
  "requests_ok l \<Longrightarrow> memory l' = memory l \<Longrightarrow> ul_clock l' = ul_clock l \<Longrightarrow> persist l l'"
  by (rule persist_memory) (simp_all add: memory_def)

lemma persist_msg:
  assumes ok: "layer_ok l" "requests_ok l"
    and run: "do_handle_received_urdp_msg (passive_request p) b l = Some (r, l')"
  shows "persist l l'"
proof -
  obtain conn where c: "is_conn_request (ul_big l) b = Some conn"
    using run by (auto simp: do_handle_received_urdp_msg_def bind_eq_Some_conv)
  show ?thesis
  proof (cases conn)
    case False
    then obtain dst where d: "deliver_to dst b l = Some (r, l')"
      using run c by (auto simp: do_handle_received_urdp_msg_def bind_eq_Some_conv)
    then show ?thesis
      using persist_memory [OF ok(2)] memory_eqD [OF memory_deliver [OF d]] quiet_deliver [OF d] by simp
  next
    case True
    then obtain name where n: "get_demain_name (ul_big l) b b = Some name"
      using run c by (auto simp: do_handle_received_urdp_msg_def bind_eq_Some_conv)
    show ?thesis
    proof (cases "map_of (ul_acceptors l) name")
      case None
      define l2 where "l2 = l\<lparr>unreachable_endpoint_keeper :=
        snd (snd (set_try_keep (sender_endpoint l) 2000 (ul_clock l) (unreachable_endpoint_keeper l)))\<rparr>"
      have "l' = l2 \<or> send_refuse b l2 = Some l'"
        using run c True n None
        by (auto simp: do_handle_received_urdp_msg_def l2_def case_prod_unfold Let_def split: if_splits)
      then have "memory l' = memory l2 \<and> ul_clock l' = ul_clock l2"
        using quiet_refuse memory_refuse by blast
      moreover have "memory l2 = memory l" "ul_clock l2 = ul_clock l" by (simp_all add: l2_def memory_def)
      ultimately show ?thesis using persist_memory [OF ok(2)] memory_eqD [of l' l] by simp
    next
      case (Some elm)
      then obtain dst l2 where m: "route_request (passive_request p) elm b l = Some (dst, l2)"
        and d: "deliver_to dst b l2 = Some (r, l')"
        using run c True n by (auto simp: do_handle_received_urdp_msg_def bind_eq_Some_conv)
      have p: "persist l l2" using persist_route [OF ok m] by simp
      have "persist l2 l'"
        using persist_memory [OF persist_requests [OF p]] memory_eqD [OF memory_deliver [OF d]]
          quiet_deliver [OF d] by simp
      then show ?thesis using persist_trans [OF p] by simp
    qed
  qed
qed

lemma persist_receive:
  assumes ok: "layer_ok l" "requests_ok l" and run: "handle_receive (passive_request p) b ep l = Some (r, l')"
  shows "persist l l'"
proof -
  define l1 where "l1 = l\<lparr>sender_endpoint := ep,
                   ul_in_meter := sm_add (ul_clock l) (length b) (ul_in_meter l)\<rparr>"
  have "registry l1 = registry l" "ul_clock l1 = ul_clock l" "requests_ok l1"
    using ok(2) by (simp_all add: l1_def registry_def requests_ok_def)
  then have ok1: "layer_ok l1" "requests_ok l1" "persist l l1"
    using registry_same(3) [of l1 l] ok persist_memory [OF ok(2), of l1] by (simp_all add: l1_def)
  have "l' = l \<or> l' = l1 \<or> do_handle_received_urdp_msg (passive_request p) (drop 8 b) l1 = Some (r, l')"
    using run by (auto simp: handle_receive_def do_handle_received_def l1_def Let_def split: if_splits)
  then show ?thesis
    using persist_refl [OF ok(2)] ok1 persist_trans [OF ok1(3) persist_msg [OF ok1(1,2)]] by blast
qed

lemma persist_step:
  assumes ok: "layer_ok l" "requests_ok l" and step: "layer_step l l'"
  shows "persist l l'"
  using step
proof (cases rule: layer_step.cases)
  case (Register p i e)
  then show ?thesis
    using persist_memory [OF ok(2)] memory_eqD [OF memory_register] register_ok(6) [OF ok(1)] by simp
next
  case (Unregister i p)
  then obtain l1 where l1: "l' = drop_recv_handler l1" "l1 = l \<or> release_flow_id (sint i) l = Some l1"
    by (auto simp: unregister_flow_def split: if_splits)
  obtain l2 where l2: "release_flow_id (uint i) l = Some l2" "ul_clock l2 = ul_clock l"
    using release_ok [OF ok(1) Unregister(1)] .
  have "sint i = uint i" by (rule id_sint_small [OF owner_some(2) [OF ok(1) Unregister(1)]])
  then have "ul_clock l' = ul_clock l" using l1 l2 by auto
  moreover have "memory l' = memory l" using l1 memory_release by auto
  ultimately show ?thesis using persist_memory [OF ok(2)] memory_eqD [of l' l] by simp
next
  case (Receive p buf ep r)
  then show ?thesis using persist_receive [OF ok] by blast
next
  case (Time d pool h)
  then show ?thesis using persist_memory [OF ok(2)] by simp
qed (simp_all add: persist_quiet [OF ok(2)])

lemma persist_run:
  assumes "layer_run l l'" and "layer_ok l" and "requests_ok l"
  shows "persist l l'"
  using assms
proof (induction rule: rtranclp_induct)
  case base
  then show ?case by (simp add: persist_refl)
next
  case (step l1 l2)
  then have "persist l l1" by simp
  then show ?case
    using persist_trans persist_step [OF run_ok [OF step(1,4)] persist_requests step(2)] by blast
qed

lemma new_requests: "requests_ok (udp_layer_new big now pool)"
  by (simp add: requests_ok_def udp_layer_new_def keeper_inv_def)

lemma deliver_owner:
  assumes ok: "layer_ok l" and run: "deliver_to dst b l = Some (r, l')"
  shows "r = (case owner l dst of Some p \<Rightarrow> To_flow p b (sender_endpoint l) | None \<Rightarrow> Not_routed)"
    and "owner l' = owner l"
proof -
  have "unat INVALID_FLOWID = 2 ^ 24 - 1" by (simp add: INVALID_FLOWID_def)
  then have inv: "dst = INVALID_FLOWID \<Longrightarrow> \<not> unat dst < length (ul_flows l)"
    using layer_okD(13) [OF ok] by simp
  show "r = (case owner l dst of Some p \<Rightarrow> To_flow p b (sender_endpoint l) | None \<Rightarrow> Not_routed)"
  proof (cases "owner l dst")
    case None
    then have "\<not> (unat dst < length (ul_flows l) \<and> fe_flow (ul_flows l ! unat dst) \<noteq> None)"
      by (auto simp: owner_def split: if_splits)
    then show ?thesis using run None
      by (auto simp: deliver_to_def bind_eq_Some_conv split: if_splits)
  next
    case (Some p)
    have "unat dst < length (ul_flows l)" "fe_flow (ul_flows l ! unat dst) = Some p"
      using Some by (auto simp: owner_def split: if_splits)
    moreover from this(1) have "dst \<noteq> INVALID_FLOWID" using inv by blast
    ultimately show ?thesis
      using run Some owner_some(6) [OF ok Some] by (auto simp: deliver_to_def)
  qed
  show "owner l' = owner l" using registry_same(1) quiet_deliver [OF run] by blast
qed

lemma connect_msg:
  assumes conn: "is_conn_request (ul_big l) b = Some True"
    and run: "do_handle_received_urdp_msg on_request b l = Some (r, l')"
  shows "(r = Not_routed \<and> registry l' = registry l) \<or>
    (\<exists>elm dst l1. route_request on_request elm b l = Some (dst, l1) \<and> deliver_to dst b l1 = Some (r, l'))"
proof -
  obtain name where n: "get_demain_name (ul_big l) b b = Some name"
    using assms by (auto simp: do_handle_received_urdp_msg_def bind_eq_Some_conv)
  show ?thesis
  proof (cases "map_of (ul_acceptors l) name")
    case None
    define l2 where "l2 = l\<lparr>unreachable_endpoint_keeper :=
      snd (snd (set_try_keep (sender_endpoint l) 2000 (ul_clock l) (unreachable_endpoint_keeper l)))\<rparr>"
    have l2: "registry l2 = registry l" by (simp add: l2_def registry_def)
    have "r = Not_routed \<and> (l' = l2 \<or> send_refuse b l2 = Some l')"
      using conn run n None
      by (auto simp: do_handle_received_urdp_msg_def l2_def case_prod_unfold Let_def split: if_splits)
    then show ?thesis using l2 quiet_refuse [of b l2 l'] by auto
  next
    case (Some elm)
    then have "Option.bind (route_request on_request elm b l) (\<lambda>(dst, l1). deliver_to dst b l1) = Some (r, l')"
      using conn run n by (simp add: do_handle_received_urdp_msg_def)
    then show ?thesis by (auto simp: bind_eq_Some_conv)
  qed
qed

text \<open>The record a new connect request leaves.\<close>

lemma first_request:
  assumes ok: "layer_ok l" "requests_ok l" and p: "p \<notin> ran (owner l)"
    and conn: "is_conn_request (ul_big l) b = Some True"
    and run: "do_handle_received_urdp_msg (passive_request p) b l = Some (To_flow p b ep, l1)"
  obtains q i e where "request_of b l = Some q" "owner l1 i = Some p" "ul_clock l1 = ul_clock l"
    "e \<in> set (request_uuid_keeper l1)" "e_out e = ul_clock l + 60000"
    "request_key (e_data e) = request_key q" "rq_flow (e_data e) = i"
proof -
  obtain elm dst l2 where m: "route_request (passive_request p) elm b l = Some (dst, l2)"
    and d: "deliver_to dst b l2 = Some (To_flow p b ep, l1)"
    using connect_msg [OF conn run] by blast
  have pr: "persist l l2" "ul_clock l2 = ul_clock l" using persist_route [OF ok m] by simp_all
  have ok2: "layer_ok l2"
    using moves_ok [OF ok(1) moves_route [OF m p]] .
  have own: "owner l2 dst = Some p"
    using deliver_owner(1) [OF ok2 d] by (auto split: option.splits)
  have l1: "owner l1 = owner l2" "ul_clock l1 = ul_clock l2" "request_uuid_keeper l1 = request_uuid_keeper l2"
    using deliver_owner(2) [OF ok2 d] quiet_deliver [OF d] memory_eqD [OF memory_deliver [OF d]] by simp_all
  obtain q where q: "request_of b l = Some q" using route_request_request [OF m] ..
  let ?k = "snd (set_clear_timeout (ul_clock l) (request_uuid_keeper l))"
  have None: "fst (request_find q (ul_clock l) (request_uuid_keeper l)) = None"
  proof (rule ccontr)
    assume "\<not> ?thesis"
    then obtain r where "fst (request_find q (ul_clock l) (request_uuid_keeper l)) = Some r" by auto
    then have "registry l2 = registry l" using route_known [OF q] m by (auto simp: registry_def)
    then have "owner l2 = owner l" by (rule registry_same(1))
    then show False using own p by (auto simp: ran_def)
  qed
  obtain i e l3 l0 where l0: "l0 = l\<lparr>request_uuid_keeper := ?k\<rparr>"
    and r: "register_flow p l0 = Some (i, e, l3)"
    and l2: "l2 = l3\<lparr>request_uuid_keeper := snd (snd (request_try_keep (q\<lparr>rq_flow := dst\<rparr>) 60000
       (ul_clock l3) ?k))\<rparr>"
    using route_new [OF q None m] by metis
  have c: "ul_clock l3 = ul_clock l" using pr(2) l2 by simp
  have inv: "keeper_inv request_key (request_uuid_keeper l)" using ok(2) by (simp add: requests_ok_def)
  have "snd (set_clear_timeout (ul_clock l) ?k) = ?k"
  proof -
    have invk: "keeper_inv request_key ?k" using clear_persists [OF inv] by (simp add: persists_def)
    show ?thesis
      unfolding clear_timeout_filter [OF invk] unfolding clear_timeout_filter [OF inv] by simp
  qed
  moreover have "find_key request_key (request_key q) ?k = None"
    using None by (simp add: request_find_eq)
  ultimately have "\<lparr>e_data = q\<lparr>rq_flow := dst\<rparr>, e_out = ul_clock l + 60000, e_keep = ul_clock l\<rparr>
      \<in> set (request_uuid_keeper l2)"
    by (simp add: l2 c request_try_keep_def request_key_def case_prod_unfold Let_def)
  then show ?thesis
    using that [OF q, of dst] own l1 pr(2) by (simp add: request_key_def)
qed

lemma duplicate_routed:
  assumes ok: "layer_ok l" "requests_ok l" and p: "p \<notin> ran (owner l)"
    and conn: "is_conn_request (ul_big l) b = Some True"
    and first: "do_handle_received_urdp_msg (passive_request p) b l = Some (To_flow p b ep, l1)"
    and run: "layer_run l1 l2" and soon: "ul_clock l2 < ul_clock l + 60000"
    and sender: "sender_endpoint l2 = sender_endpoint l"
    and again: "do_handle_received_urdp_msg (passive_request p2) b l2 = Some (r, l3)"
  shows "(r = To_flow p b (sender_endpoint l) \<or> r = Not_routed) \<and> owner l3 = owner l2"
proof -
  obtain q i e where q: "request_of b l = Some q" "owner l1 i = Some p" "ul_clock l1 = ul_clock l"
    "e \<in> set (request_uuid_keeper l1)" "e_out e = ul_clock l + 60000"
    "request_key (e_data e) = request_key q" "rq_flow (e_data e) = i"
    using first_request [OF ok p conn first] .
  have ok1: "layer_ok l1" by (rule moves_ok [OF ok(1) moves_msg [OF first p]])
  have p01: "persist l l1" by (rule persist_msg [OF ok first])
  have p12: "persist l1 l2" by (rule persist_run [OF run ok1 persist_requests [OF p01]])
  have ok2: "layer_ok l2" "requests_ok l2" using run_ok [OF run ok1] persist_requests [OF p12] by simp_all
  have e2: "e \<in> set (request_uuid_keeper l2)"
    using p12 q(4,5) soon by (auto simp: persist_def persists_def)
  have inv2: "keeper_inv request_key (request_uuid_keeper l2)" using ok2(2) by (simp add: requests_ok_def)
  let ?k = "snd (set_clear_timeout (ul_clock l2) (request_uuid_keeper l2))"
  have "e \<in> set ?k" using clear_persists [OF inv2, of "ul_clock l2"] e2 q(5) soon by (simp add: persists_def)
  moreover have "distinct (map (\<lambda>e. request_key (e_data e)) ?k)"
    using clear_persists [OF inv2, of "ul_clock l2"] by (simp add: persists_def keeper_inv_def)
  ultimately have "find_key request_key (request_key q) ?k = Some e"
    using find_key_some_iff [of request_key ?k "request_key q" e] q(6) by simp
  then have found: "fst (request_find q (ul_clock l2) (request_uuid_keeper l2)) = Some (e_data e)"
    by (simp add: request_find_eq)
  have big: "ul_big l2 = ul_big l" using p01 p12 by (simp add: persist_def)
  have q2: "request_of b l2 = Some q" using q(1) by (simp add: request_of_def big sender)
  have conn2: "is_conn_request (ul_big l2) b = Some True" using conn big by simp
  show ?thesis
    using connect_msg [OF conn2 again]
  proof (elim disjE exE conjE)
    assume "r = Not_routed" "registry l3 = registry l2"
    then show ?thesis using registry_same(1) by blast
  next
    fix elm dst l4
    assume m: "route_request (passive_request p2) elm b l2 = Some (dst, l4)"
      and d4: "deliver_to dst b l4 = Some (r, l3)"
    let ?l4 = "l2\<lparr>request_uuid_keeper := ?k\<rparr>"
    have d: "deliver_to i b ?l4 = Some (r, l3)"
      using m d4 route_known [OF q2 found] q(7) by simp
    have same: "registry ?l4 = registry l2" by (simp add: registry_def)
    have ok4: "layer_ok ?l4" using registry_same(3) [OF same] ok2(1) by simp
    note own = deliver_owner [OF ok4 d]
    have o4: "owner ?l4 = owner l2" by (rule registry_same(1) [OF same])
    have "held_until i p (ul_clock l1 + 64000) l2"
      by (rule held_run [OF run ok1 q(2)]) (use soon q(3) in simp)
    then have "owner l2 i = Some p \<or> owner l2 i = None" by (auto simp: held_until_def)
    then show ?thesis using own sender unfolding o4 by auto
  qed
qed

section \<open>Properties\<close>

lemma deliver_owned:
  assumes ok: "layer_ok l" and o: "owner l dst = Some p"
  shows "deliver_to dst b l = Some (To_flow p b (sender_endpoint l), l)"
proof -
  note s = owner_some [OF ok o]
  have "unat dst < 2 ^ 24 - 1" using s(1) layer_okD(13) [OF ok] by simp
  then have "dst \<noteq> INVALID_FLOWID" by (auto simp: INVALID_FLOWID_def)
  then show ?thesis
    using s(1,6) o by (simp add: deliver_to_def owner_def)
qed

text \<open>The ids run out when the allocator has come to \<open>INVALID_FLOWID\<close>: it has given out every
  smaller one, and so few have come back that it keeps them.\<close>

lemma register_runs_out:
  assumes "layer_ok l" and "register_flow p l = None"
  shows "\<exists>a. alloc_id (ul_ids (layer_drain l)) = Some (INVALID_FLOWID, a)
    \<and> tail_id (ul_ids (layer_drain l)) = INVALID_FLOWID"
proof -
  let ?a = "ul_ids (layer_drain l)"
  note D = layer_okD [OF layer_drain_ok(1) [OF assms(1)]]
  obtain i a where al: "alloc_id ?a = Some (i, a)"
    using alloc_id_returns [of ?a] D(2) by fastforce
  have big: "INVALID_FLOWID \<le> i"
    using assms(2) al by (auto simp: register_flow_def Let_def split: if_splits)
  have low: "j < INVALID_FLOWID" if "j \<in> set (avail_id_set ?a)" for j
    using that D(1,3) by (auto simp: id_allocator_ok_def)
  have "i \<in> set (avail_id_set ?a) \<or> i = tail_id ?a"
    using al D(2) by (cases "avail_id_set ?a")
      (auto simp: alloc_id_def alloc_tail_def split: if_splits)
  then have "i = tail_id ?a" using low big by force
  then show ?thesis using al big D(3) by auto
qed

text \<open>C4: The shared layer implements a table from ids to flows. In every reachable state a
  registration that returns gives an id that is not in the table and enters the flow under it, and
  it returns unless the ids are used up: unless the allocator has come to the invalid id
  \<open>2 ^ 24 - 1\<close>, having given out every smaller one (the code then writes outside of its vector of
  flows, which the model does not go into). The release
  of an id of the table always succeeds and removes exactly that id, a datagram is handed to the
  flow its id has in the table, and one that is to no id of the table to none, and the count of flows is the size of the
  table.\<close>
theorem layer_refines_routing_table:
  assumes "layer_run (udp_layer_new big now pool) l"
  shows "(\<forall>p i e l'. register_flow p l = Some (i, e, l') \<longrightarrow>
            e = L_success \<and> owner l i = None \<and> owner l' = (owner l)(i \<mapsto> p))
    \<and> (\<forall>p. register_flow p l = None \<longrightarrow>
            (\<exists>a. alloc_id (ul_ids (layer_drain l)) = Some (INVALID_FLOWID, a))
            \<and> tail_id (ul_ids (layer_drain l)) = INVALID_FLOWID)
    \<and> (\<forall>p i. owner l i = Some p \<longrightarrow>
            (\<exists>l'. unregister_flow i l = Some l' \<and> owner l' = (owner l)(i := None)))
    \<and> (\<forall>dst b p. owner l dst = Some p \<longrightarrow>
            deliver_to dst b l = Some (To_flow p b (sender_endpoint l), l))
    \<and> (\<forall>dst b r l'. deliver_to dst b l = Some (r, l') \<longrightarrow>
            r = (case owner l dst of Some p \<Rightarrow> To_flow p b (sender_endpoint l) | None \<Rightarrow> Not_routed)
            \<and> owner l' = owner l)
    \<and> flows_cnt l = int (card (dom (owner l)))"
proof -
  have ok: "layer_ok l" by (rule run_ok [OF assms new_ok])
  have "\<exists>l'. unregister_flow i l = Some l' \<and> owner l' = (owner l)(i := None)" if o: "owner l i = Some p" for i p
  proof -
    note s = owner_some [OF ok o]
    obtain l1 where l1: "release_flow_id (uint i) l = Some l1" "owner l1 = (owner l)(i := None)"
      using release_ok [OF ok o] .
    have "unat i < 2 ^ 24 - 1" using s(1) layer_okD(13) [OF ok] by simp
    then have "i \<noteq> INVALID_FLOWID" by (auto simp: INVALID_FLOWID_def)
    then have "unregister_flow i l = Some (drop_recv_handler l1)"
      using s(1) l1(1) id_sint_small [OF s(2)] by (simp add: unregister_flow_def)
    moreover have "owner (drop_recv_handler l1) = owner l1" by (rule registry_same(1)) simp
    ultimately show ?thesis using l1(2) by simp
  qed
  moreover have "e = L_success \<and> owner l i = None \<and> owner l' = (owner l)(i \<mapsto> p)"
    if "register_flow p l = Some (i, e, l')" for p i e l'
    using register_ok(1,3,5) [OF ok that] by simp
  moreover have "r = (case owner l dst of Some p \<Rightarrow> To_flow p b (sender_endpoint l) | None \<Rightarrow> Not_routed)
      \<and> owner l' = owner l" if "deliver_to dst b l = Some (r, l')" for dst b r l'
    using deliver_owner [OF ok that] by simp
  moreover have "deliver_to dst b l = Some (To_flow p b (sender_endpoint l), l)"
    if "owner l dst = Some p" for dst b p
    by (rule deliver_owned [OF ok that])
  ultimately show ?thesis using layer_okD(12) [OF ok] register_runs_out [OF ok] by simp
qed

definition example_layer :: udp_layer where
  "example_layer = (udp_layer_new True 0 [])\<lparr>ul_ids := (id_allocator_new True 64)\<lparr>tail_id := 1\<rparr>,
     ul_flows := [\<lparr>fe_handler = Some 7, fe_flow = Some 7\<rparr>], flows_cnt := 1\<rparr>"

lemma example_register:
  "register_flow 7 (udp_layer_new True 0 []) = Some (0, L_success, example_layer)"
  by (simp add: register_flow_def layer_drain_def udp_layer_new_def alloc_id_def alloc_tail_def
      id_allocator_new_def INVALID_FLOWID_def grow_flows_def example_layer_def)

lemma example_run: "layer_run (udp_layer_new True 0 []) example_layer"
  by (rule r_into_rtranclp, rule layer_step.Register [OF _ example_register])
    (simp add: owner_def udp_layer_new_def ran_def)

theorem layer_refines_routing_table_witness:
  "\<exists>l. unregister_flow 0 example_layer = Some l \<and> owner l 0 = None"
proof -
  have "owner example_layer 0 = Some 7" by (simp add: owner_def example_layer_def)
  then show ?thesis
    using layer_refines_routing_table [OF example_run] by (metis fun_upd_same)
qed

text \<open>C3: An id rests before it is used again: once a flow has been registered under an id,
  whatever happens in the next 64 seconds (other flows come and go, datagrams arrive, time
  passes), no other flow is ever found under that id.\<close>
theorem flow_id_rests_64_seconds:
  assumes "layer_run (udp_layer_new big now pool) l" and "owner l i = Some p"
    and "layer_run l l'" and "ul_clock l' < ul_clock l + 64000"
  shows "owner l' i = Some p \<or> owner l' i = None"
  using held_run [OF assms(3) run_ok [OF assms(1) new_ok] assms(2,4)] by (auto simp: held_until_def)

theorem flow_id_rests_64_seconds_witness:
  "owner (example_layer\<lparr>ul_clock := 5\<rparr>) 0 = Some 7 \<or> owner (example_layer\<lparr>ul_clock := 5\<rparr>) 0 = None"
proof -
  have o: "owner example_layer 0 = Some 7" by (simp add: owner_def example_layer_def)
  have "example_layer\<lparr>ul_clock := 5\<rparr> = example_layer\<lparr>ul_clock := ul_clock example_layer + 5,
      ul_pool := [], ul_outs := [], ul_recv_handler := False\<rparr>"
    by (simp add: example_layer_def udp_layer_new_def)
  then have "layer_run example_layer (example_layer\<lparr>ul_clock := 5\<rparr>)"
    using r_into_rtranclp [of layer_step, OF layer_step.Time [where d = 5 and l = example_layer and pool = "[]" and h = False]] by simp
  then show ?thesis
    by (rule flow_id_rests_64_seconds [OF example_run o]) (simp add: example_layer_def udp_layer_new_def)
qed

text \<open>A repeated connect request does not create a second flow: after a request that was
  answered by a new flow, the same packet from the same sender, at any time in the next 60
  seconds and whatever happened in between, is handed to that flow or goes nowhere, and no flow is
  registered for it.\<close>
lemma duplicate_connect_same_flow:
  assumes "layer_run (udp_layer_new big now pool) l" and "p \<notin> ran (owner l)"
    and "is_conn_request (ul_big l) b = Some True"
    and "do_handle_received_urdp_msg (passive_request p) b l = Some (To_flow p b ep, l1)"
    and "layer_run l1 l2" and "ul_clock l2 < ul_clock l + 60000" and "sender_endpoint l2 = sender_endpoint l"
    and "do_handle_received_urdp_msg (passive_request p2) b l2 = Some (r, l3)"
  shows "(r = To_flow p b (sender_endpoint l) \<or> r = Not_routed) \<and> owner l3 = owner l2"
proof -
  have "requests_ok l"
    using persist_requests [OF persist_run [OF assms(1) new_ok new_requests]] .
  then show ?thesis
    by (rule duplicate_routed [OF run_ok [OF assms(1) new_ok] _ assms(2-8)])
qed

text \<open>A connect request for the domain \<open>A\<close> from peer 9 in session 3.\<close>

definition example_request :: bytes where
  "example_request = [2, 0, 0, 9, 0, 0, 0, 3, 0, 0, 0, 0] @ replicate 12 0 @ [65]"

definition accepting_layer :: udp_layer where
  "accepting_layer = snd (register_acceptor 50 [65] (udp_layer_new True 0 []))"

lemma example_first:
  "map_option fst (do_handle_received_urdp_msg (passive_request 7) example_request accepting_layer)
     = Some (To_flow 7 example_request (0, 0))"
  by code_simp

definition answered_layer :: udp_layer where
  "answered_layer =
     snd (the (do_handle_received_urdp_msg (passive_request 7) example_request accepting_layer))"

lemma example_again:
  "(sender_endpoint answered_layer, ul_clock answered_layer, ul_clock accepting_layer,
    sender_endpoint accepting_layer, is_conn_request (ul_big accepting_layer) example_request) =
   ((0, 0), 0, 0, (0, 0), Some True)"
  "map_option fst (do_handle_received_urdp_msg (passive_request 8) example_request answered_layer) \<noteq> None"
  by code_simp+

end
