(* ===== verification/Text.thy ===== *)
theory Text
  imports Prelude "HOL-Library.Char_ord"
begin

text \<open>The pieces of the C and boost string libraries the source uses, on strings as character
  lists: the character classes of the \<open>C\<close> locale, \<open>strcspn\<close>, trimming, splitting and
  replacing, and decimal numbers. A C string ends at its first NUL.\<close>

section \<open>Characters\<close>

definition code :: "char \<Rightarrow> nat" where
  "code c = of_char c"

definition is_space :: "char \<Rightarrow> bool" where
  "is_space c = (code c = 32 \<or> (9 \<le> code c \<and> code c \<le> 13))"

definition is_digit :: "char \<Rightarrow> bool" where
  "is_digit c = (48 \<le> code c \<and> code c \<le> 57)"

definition is_upper :: "char \<Rightarrow> bool" where
  "is_upper c = (65 \<le> code c \<and> code c \<le> 90)"

definition is_lower :: "char \<Rightarrow> bool" where
  "is_lower c = (97 \<le> code c \<and> code c \<le> 122)"

definition is_alnum :: "char \<Rightarrow> bool" where
  "is_alnum c = (is_digit c \<or> is_upper c \<or> is_lower c)"

definition to_lower :: "char \<Rightarrow> char" where
  "to_lower c = (if is_upper c then char_of (code c + 32) else c)"

lemma code_less [simp]: "code c < 256"
  by (simp add: code_def)

lemma char_of_code [simp]: "char_of (code c) = c"
  by (simp add: code_def)

lemma code_char_of: "code (char_of n) = n mod 256"
  by (simp add: code_def)

lemma code_inject [simp]: "code c = code d \<longleftrightarrow> c = d"
  by (simp add: code_def)

lemma to_lower_id: "\<not> is_upper c \<Longrightarrow> to_lower c = c"
  by (simp add: to_lower_def)

lemma to_lower_not_upper [simp]: "\<not> is_upper (to_lower c)"
  by (simp add: to_lower_def) (simp add: is_upper_def code_char_of)

lemma to_lower_idem [simp]: "to_lower (to_lower c) = to_lower c"
  by (simp add: to_lower_id)

section \<open>Strings\<close>

definition c_str :: "string \<Rightarrow> string" where
  "c_str s = takeWhile (\<lambda>c. c \<noteq> CHR 0x00) s"

text \<open>\<open>strcspn\<close> splits a string at the first character of a set.\<close>

definition upto_any :: "string \<Rightarrow> string \<Rightarrow> string" where
  "upto_any stop s = takeWhile (\<lambda>c. c \<notin> set stop) s"

definition from_any :: "string \<Rightarrow> string \<Rightarrow> string" where
  "from_any stop s = dropWhile (\<lambda>c. c \<notin> set stop) s"

definition starts :: "string \<Rightarrow> string \<Rightarrow> bool" where
  "starts p s = (take (length p) s = p)"

definition trim_if :: "(char \<Rightarrow> bool) \<Rightarrow> string \<Rightarrow> string" where
  "trim_if P s = rev (dropWhile P (rev (dropWhile P s)))"

text \<open>\<open>boost::split\<close> at every separator.\<close>

fun split_on :: "(char \<Rightarrow> bool) \<Rightarrow> string \<Rightarrow> string list" where
  "split_on P [] = [[]]"
| "split_on P (c # s) =
     (if P c then [] # split_on P s
      else case split_on P s of [] \<Rightarrow> [[c]] | w # ws \<Rightarrow> (c # w) # ws)"

text \<open>\<open>replace_first\<close> and \<open>replace_all\<close> of a pattern that is not empty.\<close>

fun replace_first :: "string \<Rightarrow> string \<Rightarrow> string \<Rightarrow> string" where
  "replace_first p r [] = []"
| "replace_first p r (c # s) =
     (if starts p (c # s) then r @ drop (length p) (c # s) else c # replace_first p r s)"

function replace_all :: "string \<Rightarrow> string \<Rightarrow> string \<Rightarrow> string" where
  "replace_all p r s =
     (if s = [] \<or> p = [] then s
      else if starts p s then r @ replace_all p r (drop (length p) s)
      else hd s # replace_all p r (tl s))"
  by pat_completeness auto
termination
  by (relation "measure (\<lambda>(p, r, s). length s)") auto

declare replace_all.simps [simp del]

lemma starts_length: "starts p s \<Longrightarrow> length p \<le> length s"
  by (metis length_take min.cobounded1 starts_def)

lemma replace_all_shorter: "length r \<le> length p \<Longrightarrow> length (replace_all p r s) \<le> length s"
proof (induction p r s rule: replace_all.induct)
  case (1 p r s)
  show ?case
  proof (cases "s = [] \<or> p = []")
    case False
    have "starts p s \<Longrightarrow> length p \<le> length s" using starts_length by blast
    moreover obtain c t where "s = c # t" using False by (cases s) auto
    ultimately show ?thesis
      using 1 False by (subst replace_all.simps) auto
  qed (auto simp: replace_all.simps)
qed

lemma upto_from: "upto_any stop s @ from_any stop s = s"
  by (simp add: upto_any_def from_any_def)

lemma upto_any_append:
  "set w \<inter> set stop = {} \<Longrightarrow> s = [] \<or> hd s \<in> set stop \<Longrightarrow> upto_any stop (w @ s) = w"
  by (induction w) (auto simp: upto_any_def takeWhile_eq_Nil_iff hd_conv_nth)

lemma from_any_append:
  "set w \<inter> set stop = {} \<Longrightarrow> s = [] \<or> hd s \<in> set stop \<Longrightarrow> from_any stop (w @ s) = s"
  by (induction w) (auto simp: from_any_def dropWhile_eq_self_iff)

lemma c_str_id: "CHR 0x00 \<notin> set s \<Longrightarrow> c_str s = s"
  by (auto simp: c_str_def takeWhile_eq_all_conv)

lemma trim_if_id:
  assumes "s = [] \<or> (\<not> P (hd s) \<and> \<not> P (last s))"
  shows "trim_if P s = s"
proof -
  have "dropWhile P s = s" using assms by (cases s) auto
  moreover have "dropWhile P (rev s) = rev s" using assms by (cases s rule: rev_cases) auto
  ultimately show ?thesis by (simp add: trim_if_def)
qed

lemma replace_first_absent:
  "\<not> (\<exists>a b. s = a @ p @ b) \<Longrightarrow> replace_first p r s = s"
proof (induction s)
  case (Cons c s)
  have "\<not> starts p (c # s)"
  proof
    assume "starts p (c # s)"
    then have "c # s = [] @ p @ drop (length p) (c # s)"
      by (metis append_Nil append_take_drop_id starts_def)
    then show False using Cons.prems by blast
  qed
  moreover have "\<not> (\<exists>a b. s = a @ p @ b)"
    using Cons.prems by (metis append_Cons)
  ultimately show ?case using Cons.IH by simp
qed simp

lemma replace_all_absent:
  "p \<noteq> [] \<Longrightarrow> \<not> (\<exists>a b. s = a @ p @ b) \<Longrightarrow> replace_all p r s = s"
proof (induction s)
  case (Cons c s)
  have "\<not> starts p (c # s)"
  proof
    assume "starts p (c # s)"
    then have "c # s = [] @ p @ drop (length p) (c # s)"
      by (metis append_Nil append_take_drop_id starts_def)
    then show False using Cons.prems(2) by blast
  qed
  moreover have "\<not> (\<exists>a b. s = a @ p @ b)"
    using Cons.prems(2) by (metis append_Cons)
  ultimately show ?case using Cons by (simp add: replace_all.simps)
qed (simp add: replace_all.simps)

section \<open>Decimal numbers\<close>

definition digit :: "char \<Rightarrow> nat" where
  "digit c = code c - 48"

definition decimal :: "string \<Rightarrow> nat" where
  "decimal s = foldl (\<lambda>n c. 10 * n + digit c) 0 s"

function show_decimal :: "nat \<Rightarrow> string" where
  "show_decimal n =
     (if n < 10 then [char_of (48 + n)] else show_decimal (n div 10) @ [char_of (48 + n mod 10)])"
  by pat_completeness auto
termination
  by (relation "measure id") auto

declare show_decimal.simps [simp del]

lemma digit_char [simp]: "n < 10 \<Longrightarrow> digit (char_of (48 + n :: nat)) = n"
  by (simp add: digit_def code_char_of)

lemma is_digit_char [simp]: "n < 10 \<Longrightarrow> is_digit (char_of (48 + n :: nat))"
  by (simp add: is_digit_def code_char_of)

lemma decimal_show [codec_simps]: "decimal (show_decimal n) = n"
proof (induction n rule: show_decimal.induct)
  case (1 n)
  then show ?case
    by (subst show_decimal.simps) (auto simp: decimal_def)
qed

lemma show_decimal_digits: "\<forall>c \<in> set (show_decimal n). is_digit c"
proof (induction n rule: show_decimal.induct)
  case (1 n)
  then show ?case by (subst show_decimal.simps) auto
qed

lemma show_decimal_nonempty [simp]: "show_decimal n \<noteq> []"
  by (subst show_decimal.simps) auto

text \<open>The order of \<open>std::string\<close>.\<close>

fun string_less :: "string \<Rightarrow> string \<Rightarrow> bool" where
  "string_less s [] = False"
| "string_less [] (d # t) = True"
| "string_less (c # s) (d # t) = (code c < code d \<or> (c = d \<and> string_less s t))"

lemma string_less_irrefl [simp]: "\<not> string_less s s"
  by (induction s) auto

lemma string_less_trans: "string_less s t \<Longrightarrow> string_less t u \<Longrightarrow> string_less s u"
proof (induction s u arbitrary: t rule: string_less.induct)
  case (3 c s e u)
  then show ?case by (cases t) auto
next
  case (1 s)
  then show ?case by simp
next
  case (2 d t)
  then show ?case by simp
qed

lemma string_less_total: "string_less s t \<or> s = t \<or> string_less t s"
proof (induction s t rule: string_less.induct)
  case (1 s)
  then show ?case by (cases s) simp_all
next
  case (3 c s d t)
  have "code c < code d \<or> c = d \<or> code d < code c" using code_inject nat_neq_iff by blast
  then show ?case using 3 by auto
qed simp

text \<open>Lexicographic order of tuples of strings of one length.\<close>

fun lex_less :: "string list \<Rightarrow> string list \<Rightarrow> bool" where
  "lex_less (s # ss) (t # ts) = (string_less s t \<or> (s = t \<and> lex_less ss ts))"
| "lex_less _ _ = False"

lemma lex_less_irrefl [simp]: "\<not> lex_less ss ss"
  by (induction ss) simp_all

lemma lex_less_trans: "lex_less ss ts \<Longrightarrow> lex_less ts us \<Longrightarrow> lex_less ss us"
proof (induction ss us arbitrary: ts rule: lex_less.induct)
  case (1 s ss u us)
  then show ?case using string_less_trans by (cases ts) auto
qed (auto elim: lex_less.elims)

lemma lex_less_total:
  "length ss = length ts \<Longrightarrow> lex_less ss ts \<or> ss = ts \<or> lex_less ts ss"
proof (induction ss ts rule: lex_less.induct)
  case (1 s ss t ts)
  then show ?case using string_less_total [of s t] by auto
qed auto

end
