(* ===== verification/Http_Header.thy ===== *)
theory Http_Header
  imports Text
begin

text \<open>\<open>p2engine/http/header.hpp\<close> and \<open>header.cpp\<close>: the fields of an HTTP message, a map whose
  keys are compared without regard to case, their serialisation and the state machine that
  parses them. The class of headers is a record that requests and responses extend.\<close>

section \<open>Fields\<close>

text \<open>\<open>std::map\<close> ordered by \<open>strcasecmp\<close>: the list of its pairs in the order of the keys.
  The keys are compared up to the first NUL, in lower case.\<close>

type_synonym fields = "(string \<times> string) list"

definition folded :: "string \<Rightarrow> string" where
  "folded s = map to_lower (c_str s)"

definition stricmp_less :: "string \<Rightarrow> string \<Rightarrow> bool" where
  "stricmp_less s t = string_less (folded s) (folded t)"

fun fields_find :: "string \<Rightarrow> fields \<Rightarrow> string option" where
  "fields_find k [] = None"
| "fields_find k (f # fs) =
     (if stricmp_less (fst f) k then fields_find k fs
      else if stricmp_less k (fst f) then None else Some (snd f))"

text \<open>\<open>insert\<close> keeps an element that is there, \<open>operator[]\<close> replaces its value.\<close>

fun fields_insert :: "string \<Rightarrow> string \<Rightarrow> fields \<Rightarrow> fields" where
  "fields_insert k v [] = [(k, v)]"
| "fields_insert k v (f # fs) =
     (if stricmp_less (fst f) k then f # fields_insert k v fs
      else if stricmp_less k (fst f) then (k, v) # f # fs else f # fs)"

fun fields_assign :: "string \<Rightarrow> string \<Rightarrow> fields \<Rightarrow> fields" where
  "fields_assign k v [] = [(k, v)]"
| "fields_assign k v (f # fs) =
     (if stricmp_less (fst f) k then f # fields_assign k v fs
      else if stricmp_less k (fst f) then (k, v) # f # fs else (fst f, v) # fs)"

fun fields_erase :: "string \<Rightarrow> fields \<Rightarrow> fields" where
  "fields_erase k [] = []"
| "fields_erase k (f # fs) =
     (if stricmp_less (fst f) k then f # fields_erase k fs
      else if stricmp_less k (fst f) then f # fs else fs)"

section \<open>State\<close>

datatype parse_state = FIRSTLINE_1 | FIRSTLINE_2 | FIRSTLINE_3 | PARSER_KEY | PARSER_VALUE

record header =
  h_map :: fields
  h_version :: string
  h_state :: parse_state
  h_key :: string
  h_value :: string
  h_crlf :: int

definition header_new :: "string \<Rightarrow> header" where
  "header_new v = \<lparr>h_map = [], h_version = v, h_state = FIRSTLINE_1, h_key = [], h_value = [], h_crlf = 0\<rparr>"

definition header_clear :: "'a header_scheme \<Rightarrow> 'a header_scheme" where
  "header_clear h =
     h\<lparr>h_map := [], h_version := [], h_key := [], h_value := [], h_crlf := 0, h_state := FIRSTLINE_1\<rparr>"

definition get_or :: "string \<Rightarrow> string \<Rightarrow> 'a header_scheme \<Rightarrow> string" where
  "get_or k d h = (case fields_find k (h_map h) of None \<Rightarrow> d | Some v \<Rightarrow> v)"

definition get_field_value :: "string \<Rightarrow> 'a header_scheme \<Rightarrow> string" where
  "get_field_value k h = get_or k [] h"

definition set_field_value :: "string \<Rightarrow> string \<Rightarrow> 'a header_scheme \<Rightarrow> 'a header_scheme" where
  "set_field_value k v h = h\<lparr>h_map := fields_assign k v (h_map h)\<rparr>"

definition erase_field :: "string \<Rightarrow> 'a header_scheme \<Rightarrow> 'a header_scheme" where
  "erase_field k h = h\<lparr>h_map := fields_erase k (h_map h)\<rparr>"

definition has_field :: "string \<Rightarrow> 'a header_scheme \<Rightarrow> bool" where
  "has_field k h = (fields_find k (h_map h) \<noteq> None)"

section \<open>Serialising\<close>

definition CR :: char where "CR = CHR 0x0D"

definition LF :: char where "LF = CHR 0x0A"

definition serialize_field :: "string \<times> string \<Rightarrow> string" where
  "serialize_field f = fst f @ '': '' @ snd f @ [CR, LF]"

definition header_serialize :: "'a header_scheme \<Rightarrow> string" where
  "header_serialize h = concat (map serialize_field (h_map h))"

section \<open>Parsing\<close>

definition MAX_NAME_LENGTH :: nat where "MAX_NAME_LENGTH = 64"

definition is_blank :: "char \<Rightarrow> bool" where
  "is_blank c = (c = CHR '' '' \<or> c = CHR 0x09)"

definition is_crlf :: "char \<Rightarrow> bool" where
  "is_crlf c = (c = CR \<or> c = LF)"

text \<open>What one character does: the loop goes on, returns before or after it, or returns \<open>-1\<close>.\<close>

datatype verdict = Go_on | Stop_before | Stop_after | Reject

definition key_char :: "char \<Rightarrow> 'a header_scheme \<Rightarrow> verdict \<times> 'a header_scheme" where
  "key_char c h =
     (if is_blank c then (if h_key h = [] then Go_on else Reject, h)
      else if is_crlf c
      then let h1 = h\<lparr>h_crlf := h_crlf h + 1\<rparr>
           in if h_crlf h1 = 4 then (Stop_after, h1) else (Go_on, h1\<lparr>h_key := []\<rparr>)
      else if c \<noteq> CHR '':'' \<and> length (h_key h) < MAX_NAME_LENGTH
      then if h_crlf h = 3 then (Stop_before, h)
           else (Go_on, h\<lparr>h_crlf := 0, h_key := h_key h @ [c]\<rparr>)
      else if c = CHR '':''
      then if h_crlf h = 3 then (Reject, h)
           else (Go_on, h\<lparr>h_crlf := 0, h_state := PARSER_VALUE\<rparr>)
      else (Reject, h\<lparr>h_crlf := 0\<rparr>))"

definition value_char :: "char \<Rightarrow> 'a header_scheme \<Rightarrow> verdict \<times> 'a header_scheme" where
  "value_char c h =
     (if is_blank c then (Go_on, if h_value h = [] then h else h\<lparr>h_value := h_value h @ [c]\<rparr>)
      else if \<not> is_crlf c \<and> length (h_key h) < MAX_NAME_LENGTH
      then if h_crlf h = 3 then (Stop_before, h)
           else (Go_on, h\<lparr>h_crlf := 0, h_value := h_value h @ [c]\<rparr>)
      else if is_crlf c
      then let h1 = h\<lparr>h_crlf := h_crlf h + 1, h_state := PARSER_KEY\<rparr>
           in (Go_on, if h_key h1 \<noteq> [] \<and> h_value h1 \<noteq> []
                      then h1\<lparr>h_map := fields_insert (h_key h1) (h_value h1) (h_map h1),
                              h_key := [], h_value := []\<rparr>
                      else h1)
      else (Reject, h))"

definition header_char :: "char \<Rightarrow> 'a header_scheme \<Rightarrow> verdict \<times> 'a header_scheme" where
  "header_char c h =
     (case h_state h of PARSER_KEY \<Rightarrow> key_char c h | PARSER_VALUE \<Rightarrow> value_char c h
      | _ \<Rightarrow> (Reject, h))"

text \<open>The loop; its first argument is the number of characters before the current one.\<close>

fun header_parse :: "nat \<Rightarrow> string \<Rightarrow> 'a header_scheme \<Rightarrow> int \<times> 'a header_scheme" where
  "header_parse n [] h = (0, h)"
| "header_parse n (c # s) h =
     (case header_char c h of
        (Go_on, h1) \<Rightarrow> header_parse (n + 1) s h1
      | (Stop_before, h1) \<Rightarrow> (int n, h1)
      | (Stop_after, h1) \<Rightarrow> (int n + 1, h1)
      | (Reject, h1) \<Rightarrow> (- 1, h1))"

text \<open>Parsing from a stream: at most 1023 characters are taken, up to the fourth line break in a
  row. The parser is the one of the class of the object.\<close>

fun take_message :: "nat \<Rightarrow> nat \<Rightarrow> string \<Rightarrow> string" where
  "take_message 0 n s = []"
| "take_message (Suc room) n [] = []"
| "take_message (Suc room) n (c # s) =
     c # (if is_crlf c then (if n + 1 = 4 then [] else take_message room (n + 1) s)
          else take_message room 0 s)"

definition parse_stream :: "(string \<Rightarrow> 'h \<Rightarrow> int \<times> 'h) \<Rightarrow> string \<Rightarrow> 'h \<Rightarrow> int \<times> 'h \<times> string" where
  "parse_stream parse s h =
     (let w = take_message 1023 0 s; (n, h1) = parse w h in (n, h1, drop (length w) s))"

text \<open>Parsing from a buffer; the last component is what stays in the buffer.\<close>

definition parse_io :: "(string \<Rightarrow> 'h \<Rightarrow> int \<times> 'h) \<Rightarrow> string \<Rightarrow> 'h \<Rightarrow> int \<times> 'h \<times> string" where
  "parse_io parse s h =
     (let (n, h1) = parse s h in (n, h1, if n = 0 then drop (nat n) s else drop (length s) s))"

section \<open>Particular fields\<close>

definition show_int :: "int \<Rightarrow> string" where
  "show_int i = (if i < 0 then ''-'' @ show_decimal (nat (- i)) else show_decimal (nat i))"

definition set_content_length :: "int \<Rightarrow> 'a header_scheme \<Rightarrow> 'a header_scheme" where
  "set_content_length n h =
     (if n > 0 then set_field_value ''Content-Length'' (show_int n) h
      else erase_field ''Content-Length'' h)"

text \<open>\<open>None\<close> where the number does not fit 64 bits, which the C library leaves undefined.\<close>

definition leading_decimal :: "string \<Rightarrow> int option" where
  "leading_decimal s =
     (let n = decimal (takeWhile is_digit s) in if n < 2 ^ 63 then Some (int n) else None)"

definition get_content_length :: "'a header_scheme \<Rightarrow> int option" where
  "get_content_length h =
     (case fields_find ''Content-Length'' (h_map h) of
        None \<Rightarrow> Some (- 1)
      | Some v \<Rightarrow> (case c_str v of
            [] \<Rightarrow> Some (- 1)
          | c # s \<Rightarrow> if \<not> is_digit c then Some (- 1) else leading_decimal (c # s)))"

definition set_transfer_encoding :: "string \<Rightarrow> 'a header_scheme \<Rightarrow> 'a header_scheme" where
  "set_transfer_encoding e h =
     (if e = ''identity'' then erase_field ''Transfer-Encoding'' h
      else set_field_value ''Transfer-Encoding'' e h)"

definition get_transfer_encoding :: "'a header_scheme \<Rightarrow> string" where
  "get_transfer_encoding h = get_or ''Transfer-Encoding'' ''identity'' h"

definition set_chunked :: "bool \<Rightarrow> 'a header_scheme \<Rightarrow> 'a header_scheme" where
  "set_chunked flag h =
     (if flag then set_field_value ''Transfer-Encoding'' ''chunked'' h
      else erase_field ''Transfer-Encoding'' h)"

definition is_chunked :: "'a header_scheme \<Rightarrow> bool" where
  "is_chunked h = (get_transfer_encoding h = ''chunked'')"

definition set_content_type :: "string \<Rightarrow> 'a header_scheme \<Rightarrow> 'a header_scheme" where
  "set_content_type t h =
     (if t = [] then erase_field ''Content-Type'' h else set_field_value ''Content-Type'' t h)"

definition get_content_type :: "'a header_scheme \<Rightarrow> string" where
  "get_content_type h = get_or ''Content-Type'' [] h"

definition CONNECTION_KEEP_ALIVE :: string where "CONNECTION_KEEP_ALIVE = ''''"

definition CONNECTION_CLOSE :: string where "CONNECTION_CLOSE = ''Close''"

definition set_keep_alive :: "bool \<Rightarrow> int \<Rightarrow> int \<Rightarrow> 'a header_scheme \<Rightarrow> 'a header_scheme" where
  "set_keep_alive keep timeout max_request h =
     (if keep
      then set_field_value CONNECTION_KEEP_ALIVE
             (''timeout='' @ show_int timeout @ '',max='' @ show_int max_request)
             (set_field_value ''Connection'' CONNECTION_KEEP_ALIVE h)
      else erase_field CONNECTION_KEEP_ALIVE (set_field_value ''Connection'' CONNECTION_CLOSE h))"

definition get_keep_alive :: "'a header_scheme \<Rightarrow> bool" where
  "get_keep_alive h =
     (let k = get_field_value ''Connection'' h
      in if k = [] then h_version h = ''HTTP/1.1'' else folded k = folded CONNECTION_KEEP_ALIVE)"

end
