(* ===== verification/Uri.thy ===== *)
theory Uri
  imports Text
begin

text \<open>\<open>p2engine/uri.hpp\<close> and \<open>uri.cpp\<close>: a URI is parsed into its components, printed,
  compared, normalised and escaped. A string handed in as a C string ends at its first NUL.
  \<open>None\<close> is the error \<open>invalid_argument\<close>, after which the source returns an empty
  \<open>uri()\<close>. The query map is the map from keys to values.\<close>

record uri =
  protocol :: string
  user_info :: string
  user_name :: string
  user_password :: string
  host :: string
  ipv6_host :: bool
  port :: string
  path :: string
  query :: string
  query_map :: "string \<rightharpoonup> string"
  fragment :: string

definition uri_new :: uri where
  "uri_new = \<lparr>protocol = [], user_info = [], user_name = [], user_password = [], host = [],
     ipv6_host = False, port = [], path = [], query = [], query_map = Map.empty, fragment = []\<rparr>"

section \<open>Characters and escapes\<close>

definition unreserved_chars :: string where
  "unreserved_chars = ''%+;?:@=&,$/-_!.~*()''"

text \<open>\<open>strchr\<close> also finds the NUL that ends the table.\<close>

definition is_uri_char :: "char \<Rightarrow> bool" where
  "is_uri_char c = (if code c > 128 then False
     else is_alnum c \<or> c \<in> set unreserved_chars \<or> c = CHR 0x00)"

definition hex_digit :: "nat \<Rightarrow> char" where
  "hex_digit n = ''0123456789ABCDEF'' ! n"

definition hex_value :: "char \<Rightarrow> nat option" where
  "hex_value c =
     (if is_digit c then Some (code c - 48)
      else if 97 \<le> code c \<and> code c \<le> 102 then Some (code c - 97 + 10)
      else if 65 \<le> code c \<and> code c \<le> 70 then Some (code c - 65 + 10)
      else None)"

definition escape_char :: "bool \<Rightarrow> char \<Rightarrow> string" where
  "escape_char space_to_plus c =
     (if c = CHR '' '' \<and> space_to_plus then ''+''
      else if c = CHR 0x5C then ''/''
      else if is_uri_char c \<or> (c = CHR ''+'' \<and> \<not> space_to_plus) then [c]
      else [CHR ''%'', hex_digit (code c div 16), hex_digit (code c mod 16)])"

definition escape :: "bool \<Rightarrow> string \<Rightarrow> string" where
  "escape space_to_plus src = concat (map (escape_char space_to_plus) (c_str src))"

definition is_escaped :: "string \<Rightarrow> bool" where
  "is_escaped s = (CHR ''%'' \<in> set s \<and> (\<forall>c \<in> set s. c = CHR ''%'' \<or> is_uri_char c))"

fun unescape_path :: "string \<Rightarrow> string option" where
  "unescape_path [] = Some []"
| "unescape_path (c # s) =
     (if c = CHR ''%''
      then case s of
             a # b # rest \<Rightarrow>
               (case (hex_value a, hex_value b) of
                  (Some x, Some y) \<Rightarrow>
                    map_option (\<lambda>out. char_of (16 * x + y) # out) (unescape_path rest)
                | _ \<Rightarrow> None)
           | _ \<Rightarrow> None
      else if \<not> is_uri_char c then None
      else map_option (\<lambda>out. c # out) (unescape_path s))"

text \<open>\<open>tokenize\<close>.\<close>

fun tokenize_loop :: "string \<Rightarrow> bool \<Rightarrow> string \<Rightarrow> string \<Rightarrow> string \<Rightarrow> string list" where
  "tokenize_loop tok trim null_subst w [] =
     (if \<not> trim then [if w = [] then null_subst else w] else if w \<noteq> [] then [w] else [])"
| "tokenize_loop tok trim null_subst w (c # s) =
     (if c \<in> set tok
      then (if w \<noteq> [] then [w] else if \<not> trim \<and> null_subst \<noteq> [] then [null_subst] else [])
             @ tokenize_loop tok trim null_subst [] s
      else tokenize_loop tok trim null_subst (w @ [c]) s)"

definition tokenize :: "string \<Rightarrow> string \<Rightarrow> bool \<Rightarrow> string \<Rightarrow> string list" where
  "tokenize src tok trim null_subst =
     (if src = [] \<or> tok = [] then [] else tokenize_loop tok trim null_subst [] src)"

section \<open>Normalising\<close>

text \<open>The loop that joins slashes runs until the length does not change.\<close>

function join_slashes :: "string \<Rightarrow> string" where
  "join_slashes s =
     (let t = replace_all ''//'' ''/'' s
      in if length t = length s then t else join_slashes t)"
  by pat_completeness auto
termination
  using replace_all_shorter [of "''/''" "''//''"]
  by (relation "measure length") (auto simp: order_le_neq_trans)

declare join_slashes.simps [simp del]

text \<open>The list of path elements the source computes after this is not used.\<close>

definition normalize :: "string \<Rightarrow> string" where
  "normalize s =
     (let p0 = trim_if is_space (c_str s);
          p1 = replace_all [CHR 0x5C] ''/'' p0;
          p2 = replace_first '':/'' [CHR '':'', CHR 0x5C] p1;
          p3 = join_slashes p2;
          p4 = replace_first [CHR '':'', CHR 0x5C] '':/'' p3;
          append_slash = (length p4 > 1 \<and> last p4 = CHR ''/'')
      in if append_slash \<and> (p4 = [] \<or> last p4 \<noteq> CHR ''/'') then p4 @ ''/'' else p4)"

section \<open>Parsing\<close>

definition char_at :: "nat \<Rightarrow> string \<Rightarrow> char" where
  "char_at n s = (if n < length s then s ! n else CHR 0x00)"

definition parse_protocol :: "string \<Rightarrow> string \<times> string" where
  "parse_protocol str =
     (let p = upto_any '':'' str; rest = from_any '':'' str
      in if length p + 2 \<le> length str \<and> starts ''://'' rest
         then (map to_lower (trim_if is_space p), drop 3 rest) else ([], str))"

definition parse_user_info :: "string \<Rightarrow> string \<times> string" where
  "parse_user_info s =
     (let u = upto_any ''@:[/?#'' s; r = from_any ''@:[/?#'' s
      in if starts ''@'' r then (u, drop 1 r)
         else if starts '':'' r
         then let u2 = upto_any ''@/?#'' r; r2 = from_any ''@/?#'' r
              in if starts ''@'' r2 then (u @ u2, drop 1 r2) else ([], s)
         else ([], s))"

definition split_user_info :: "string \<Rightarrow> string \<times> string" where
  "split_user_info u =
     (if CHR '':'' \<in> set u then (upto_any '':'' u, drop 1 (from_any '':'' u)) else ([], []))"

definition parse_host :: "string \<Rightarrow> (string \<times> bool \<times> string) option" where
  "parse_host s =
     (if starts ''['' s
      then
        let h = upto_any '']'' (drop 1 s); r = from_any '']'' (drop 1 s)
        in if \<not> starts '']'' r then None
           else if upto_any '':/?#'' (drop 1 r) \<noteq> [] then None
           else Some (h, True, drop 1 r)
      else Some (upto_any '':/?#'' s, False, from_any '':/?#'' s))"

definition parse_port :: "string \<Rightarrow> (string \<times> string) option" where
  "parse_port s =
     (if starts '':'' s
      then
        let p = upto_any ''/?#'' (drop 1 s)
        in if p = [] \<or> \<not> list_all is_digit p then None else Some (p, from_any ''/?#'' (drop 1 s))
      else Some ([], s))"

definition parse_path :: "string \<Rightarrow> (string \<times> string) option" where
  "parse_path s =
     (if starts ''/'' s
      then
        let p = upto_any ''?#'' s
        in if unescape_path p = None then None else Some (p, from_any ''?#'' s)
      else Some (''/'', s))"

fun parse_query_items :: "string list \<Rightarrow> (string \<rightharpoonup> string) \<Rightarrow> (string \<rightharpoonup> string) option" where
  "parse_query_items [] m = Some m"
| "parse_query_items (item # items) m =
     (case split_on (\<lambda>c. c = CHR ''='') item of
        [] \<Rightarrow> parse_query_items items m
      | [k] \<Rightarrow> parse_query_items items (m(k \<mapsto> []))
      | k # v # _ \<Rightarrow>
          (case unescape_path v of
             None \<Rightarrow> None
           | Some out \<Rightarrow> parse_query_items items (m(k \<mapsto> out))))"

definition parse_query :: "string \<Rightarrow> (string \<times> (string \<rightharpoonup> string) \<times> string) option" where
  "parse_query s =
     (if starts ''?'' s
      then
        let q = upto_any ''#'' (drop 1 s)
        in map_option (\<lambda>m. (q, m, from_any ''#'' (drop 1 s)))
             (parse_query_items (split_on (\<lambda>c. c = CHR ''&'') q) Map.empty)
      else Some ([], Map.empty, s))"

definition from_string :: "string \<Rightarrow> uri option" where
  "from_string p =
     (let (proto, s1) = parse_protocol (normalize p);
          (info, s2) = parse_user_info s1;
          (name, pass) = split_user_info info
      in Option.bind (parse_host s2) (\<lambda>(h, v6, s3).
         Option.bind (parse_port s3) (\<lambda>(po, s4).
         Option.bind (parse_path s4) (\<lambda>(pa, s5).
         Option.bind (parse_query s5) (\<lambda>(q, m, s6).
           Some \<lparr>protocol = proto, user_info = info, user_name = name, user_password = pass, host = h,
             ipv6_host = v6, port = po, path = pa, query = q, query_map = m,
             fragment = (if starts ''#'' s6 then drop 1 s6 else [])\<rparr>)))))"

definition uri_of :: "string \<Rightarrow> uri" where
  "uri_of s = (case from_string s of None \<Rightarrow> uri_new | Some u \<Rightarrow> u)"

section \<open>Reading and printing\<close>

text \<open>\<open>atoi\<close> is undefined beyond \<open>INT_MAX\<close> (\<open>None\<close>); the result is cut to 16 bits.\<close>

definition uri_port :: "uri \<Rightarrow> u16 option" where
  "uri_port u =
     (if port u \<noteq> []
      then if decimal (port u) < 2 ^ 31 then Some (of_nat (decimal (port u))) else None
      else Some (if protocol u = ''http'' then 80
                 else if protocol u = ''https'' then 443
                 else if protocol u = ''ftp'' then 21
                 else if protocol u = ''ftpes'' then 21
                 else if protocol u = ''ftps'' then 990
                 else if protocol u = ''tftp'' then 69
                 else 0))"

definition uri_path :: "uri \<Rightarrow> string" where
  "uri_path u = (case unescape_path (path u) of None \<Rightarrow> [] | Some p \<Rightarrow> p)"

datatype component = Protocol_component | User_info_component | Host_component | Port_component
  | Path_component | Query_component | Fragment_component

definition all_components :: "component list" where
  "all_components = [Protocol_component, User_info_component, Host_component, Port_component,
     Path_component, Query_component, Fragment_component]"

definition to_string :: "component list \<Rightarrow> uri \<Rightarrow> string" where
  "to_string cs u =
     (if Protocol_component \<in> set cs \<and> protocol u \<noteq> [] then protocol u @ ''://'' else [])
     @ (if User_info_component \<in> set cs \<and> user_info u \<noteq> [] then user_info u @ ''@'' else [])
     @ (if Host_component \<in> set cs
        then (if ipv6_host u then ''['' @ host u @ '']'' else host u) else [])
     @ (if Port_component \<in> set cs \<and> port u \<noteq> [] then '':'' @ port u else [])
     @ (if Path_component \<in> set cs \<and> path u \<noteq> [] then path u else [])
     @ (if Query_component \<in> set cs \<and> query u \<noteq> [] then ''?'' @ query u else [])
     @ (if Fragment_component \<in> set cs \<and> fragment u \<noteq> [] then ''#'' @ fragment u else [])"

definition uri_equal :: "uri \<Rightarrow> uri \<Rightarrow> bool" where
  "uri_equal a b = (protocol a = protocol b \<and> user_info a = user_info b \<and> host a = host b
     \<and> port a = port b \<and> path a = path b \<and> query a = query b \<and> fragment a = fragment b)"

definition uri_less :: "uri \<Rightarrow> uri \<Rightarrow> bool" where
  "uri_less a b =
     (if string_less (protocol a) (protocol b) then True
      else if string_less (protocol b) (protocol a) then False
      else if string_less (user_info a) (user_info b) then True
      else if string_less (user_info b) (user_info a) then False
      else if string_less (host a) (host b) then True
      else if string_less (host b) (host a) then False
      else if string_less (port a) (port b) then True
      else if string_less (port b) (port a) then False
      else if string_less (path a) (path b) then True
      else if string_less (path b) (path a) then False
      else if string_less (query a) (query b) then True
      else if string_less (query b) (query a) then False
      else string_less (fragment a) (fragment b))"

section \<open>Escaping and unescaping\<close>

lemma hex_value_digit: "n < 16 \<Longrightarrow> hex_value (hex_digit n) = Some n"
proof -
  have "\<forall>n \<in> set [0..<16]. hex_value (hex_digit n) = Some n" by code_simp
  then show "n < 16 \<Longrightarrow> hex_value (hex_digit n) = Some n" by simp
qed

lemma unescape_escape_char:
  assumes "c \<noteq> CHR ''%''" and "c \<noteq> CHR 0x00"
  shows "unescape_path (escape_char False c @ s) =
    map_option (\<lambda>out. (if c = CHR 0x5C then CHR ''/'' else c) # out) (unescape_path s)"
proof -
  have slash: "is_uri_char CHR ''/''" "is_uri_char CHR ''+''" by code_simp+
  have "code c div 16 < 16" using code_less [of c] by (simp add: div_less_iff_less_mult)
  then have hex: "hex_value (hex_digit (code c div 16)) = Some (code c div 16)"
    "hex_value (hex_digit (code c mod 16)) = Some (code c mod 16)"
    by (simp_all add: hex_value_digit)
  have join: "char_of (16 * (code c div 16) + code c mod 16) = c" by simp
  show ?thesis
    using assms slash by (auto simp: escape_char_def hex join simp del: mult_div_mod_eq)
qed

lemma unescape_escape:
  "CHR ''%'' \<notin> set s \<Longrightarrow> CHR 0x00 \<notin> set s \<Longrightarrow>
     unescape_path (concat (map (escape_char False) s)) =
       Some (map (\<lambda>c. if c = CHR 0x5C then CHR ''/'' else c) s)"
  by (induction s) (auto simp: unescape_escape_char)

lemma hex_uri_char: "n < 16 \<Longrightarrow> is_uri_char (hex_digit n)"
proof -
  have "\<forall>n \<in> set [0..<16]. is_uri_char (hex_digit n)" by code_simp
  then show "n < 16 \<Longrightarrow> is_uri_char (hex_digit n)" by simp
qed

lemma escape_uri_chars: "\<forall>c \<in> set (escape b s). is_uri_char c"
proof -
  have "is_uri_char CHR ''/''" "is_uri_char CHR ''+''" "is_uri_char CHR ''%''" by code_simp+
  moreover have "code c div 16 < 16" for c
    using code_less [of c] by (simp add: div_less_iff_less_mult)
  ultimately show ?thesis
    using hex_uri_char by (auto simp: escape_def escape_char_def split: if_splits)
qed

section \<open>Comparison\<close>

text \<open>The order of URIs is a strict order whose incomparable elements are the equal ones, which
  is what an ordered container asks of it.\<close>

definition uri_key :: "uri \<Rightarrow> string list" where
  "uri_key u = [protocol u, user_info u, host u, port u, path u, query u, fragment u]"

lemma compare_chain:
  "(if string_less s t then True else if string_less t s then False else P)
     = (string_less s t \<or> (s = t \<and> P))"
  using string_less_total [of s t] string_less_trans [of s t s] by auto

lemma uri_less_key: "uri_less a b = lex_less (uri_key a) (uri_key b)"
  unfolding uri_less_def compare_chain uri_key_def lex_less.simps by simp

lemma uri_equal_key: "uri_equal a b \<longleftrightarrow> uri_key a = uri_key b"
  by (auto simp: uri_equal_def uri_key_def)

interpretation uri_order: carrier_order uri_less UNIV
proof
  fix x y z :: uri
  have len: "length (uri_key z) = length (uri_key y)" by (simp add: uri_key_def)
  show "\<not> uri_less x x" by (simp add: uri_less_key)
  show "uri_less x z" if "uri_less x y" "uri_less y z"
    using that lex_less_trans by (auto simp: uri_less_key)
  show "uri_less z y" if "uri_less x y" "\<not> uri_less x z"
    using that lex_less_total [OF len] lex_less_trans by (auto simp: uri_less_key)
qed

section \<open>Printing and parsing\<close>

fun double_slash :: "string \<Rightarrow> bool" where
  "double_slash (c # d # s) = ((c = CHR ''/'' \<and> d = CHR ''/'') \<or> double_slash (d # s))"
| "double_slash _ = False"

lemma double_slash_prefix [simp]: "CHR ''/'' \<notin> set w \<Longrightarrow> double_slash (w @ s) = double_slash s"
proof (induction w)
  case (Cons c w)
  then show ?case by (cases "w @ s") auto
qed simp

lemma double_slash_infix: "double_slash (a @ ''//'' @ b)"
proof (induction a)
  case (Cons c a)
  then show ?case by (cases "a @ ''//'' @ b") auto
qed simp

lemma join_slashes_id: "\<not> double_slash s \<Longrightarrow> join_slashes s = s"
proof -
  assume "\<not> double_slash s"
  then have "\<not> (\<exists>a b. s = a @ ''//'' @ b)" using double_slash_infix by blast
  then have "replace_all ''//'' ''/'' s = s" by (rule replace_all_absent [rotated]) simp
  then show ?thesis by (subst join_slashes.simps) simp
qed

lemma replace_all_char: "c \<notin> set s \<Longrightarrow> replace_all [c] r s = s"
  by (rule replace_all_absent) auto

lemma starts_append [simp]: "starts p (p @ s)"
  by (simp add: starts_def)

lemma replace_first_at:
  "c \<notin> set w \<Longrightarrow> replace_first (c # p) r (w @ (c # p) @ s) = w @ r @ s"
proof (induction w)
  case Nil
  then show ?case using starts_append [of "c # p" s] by simp
next
  case (Cons d w)
  then have "\<not> starts (c # p) ((d # w) @ (c # p) @ s)" by (auto simp: starts_def)
  then show ?case using Cons by auto
qed

text \<open>A URI of the form the parser produces: what is printed can be read back.\<close>

definition print_rest :: "uri \<Rightarrow> string" where
  "print_rest u = to_string [User_info_component, Host_component, Port_component, Path_component,
     Query_component, Fragment_component] u"

definition chars_outside :: "string \<Rightarrow> string \<Rightarrow> bool" where
  "chars_outside stop w = list_all (\<lambda>c. c \<notin> set stop) w"

definition uri_ok :: "uri \<Rightarrow> bool" where
  "uri_ok u \<longleftrightarrow>
     protocol u \<noteq> [] \<and> list_all (\<lambda>c. \<not> is_upper c \<and> \<not> is_space c) (protocol u)
       \<and> chars_outside '':/'' (protocol u)
     \<and> chars_outside ''@[/?#'' (user_info u) \<and> split_user_info (user_info u) = (user_name u, user_password u)
     \<and> host u \<noteq> [] \<and> chars_outside (if ipv6_host u then '']/'' else ''@:[/?#'') (host u)
     \<and> list_all is_digit (port u)
     \<and> starts ''/'' (path u) \<and> chars_outside ''?#'' (path u) \<and> unescape_path (path u) \<noteq> None
     \<and> chars_outside ''#'' (query u)
     \<and> (if query u = [] then query_map u = Map.empty
         else parse_query_items (split_on (\<lambda>c. c = CHR ''&'') (query u)) Map.empty = Some (query_map u))
     \<and> CHR 0x00 \<notin> set (to_string all_components u) \<and> CHR 0x5C \<notin> set (to_string all_components u)
     \<and> \<not> is_space (last (print_rest u)) \<and> \<not> double_slash (print_rest u)"

lemma to_string_all: "protocol u \<noteq> [] \<Longrightarrow> to_string all_components u = protocol u @ ''://'' @ print_rest u"
  by (simp add: to_string_def all_components_def print_rest_def)

lemma uri_okD:
  assumes "uri_ok u"
  shows "protocol u \<noteq> []" "\<And>c. c \<in> set (protocol u) \<Longrightarrow> \<not> is_upper c \<and> \<not> is_space c"
    "CHR '':'' \<notin> set (protocol u)" "CHR ''/'' \<notin> set (protocol u)"
    "chars_outside ''@[/?#'' (user_info u)" "split_user_info (user_info u) = (user_name u, user_password u)"
    "host u \<noteq> []" "chars_outside (if ipv6_host u then '']/'' else ''@:[/?#'') (host u)"
    "list_all is_digit (port u)" "starts ''/'' (path u)" "chars_outside ''?#'' (path u)"
    "unescape_path (path u) \<noteq> None" "chars_outside ''#'' (query u)"
    "query u = [] \<Longrightarrow> query_map u = Map.empty"
    "query u \<noteq> [] \<Longrightarrow>
       parse_query_items (split_on (\<lambda>c. c = CHR ''&'') (query u)) Map.empty = Some (query_map u)"
    "CHR 0x00 \<notin> set (to_string all_components u)" "CHR 0x5C \<notin> set (to_string all_components u)"
    "\<not> is_space (last (print_rest u))" "\<not> double_slash (print_rest u)"
proof -
  note d = assms [unfolded uri_ok_def]
  have "list_all (\<lambda>c. \<not> is_upper c \<and> \<not> is_space c) (protocol u)" "chars_outside '':/'' (protocol u)"
    using d by blast+
  then show "\<And>c. c \<in> set (protocol u) \<Longrightarrow> \<not> is_upper c \<and> \<not> is_space c"
    "CHR '':'' \<notin> set (protocol u)" "CHR ''/'' \<notin> set (protocol u)"
    by (auto simp: list_all_iff chars_outside_def)
  have "if query u = [] then query_map u = Map.empty
         else parse_query_items (split_on (\<lambda>c. c = CHR ''&'') (query u)) Map.empty = Some (query_map u)"
    using d by blast
  then show "query u = [] \<Longrightarrow> query_map u = Map.empty" "query u \<noteq> [] \<Longrightarrow>
       parse_query_items (split_on (\<lambda>c. c = CHR ''&'') (query u)) Map.empty = Some (query_map u)"
    by simp_all
qed (use assms [unfolded uri_ok_def] in blast)+

lemma path_cons: "starts ''/'' s \<Longrightarrow> \<exists>t. s = CHR ''/'' # t"
  by (cases s) (auto simp: starts_def)

lemma rest_nonempty: "uri_ok u \<Longrightarrow> print_rest u \<noteq> []"
  by (auto simp: uri_ok_def print_rest_def to_string_def)

lemma rest_no_slash:
  assumes "uri_ok u"
  shows "hd (print_rest u) \<noteq> CHR ''/''"
proof -
  have "host u \<noteq> []" "CHR ''/'' \<notin> set (host u)" "CHR ''/'' \<notin> set (user_info u)"
    using assms by (auto simp: uri_ok_def chars_outside_def list_all_iff split: if_splits)
  then have "hd (host u) \<noteq> CHR ''/''" "user_info u \<noteq> [] \<Longrightarrow> hd (user_info u) \<noteq> CHR ''/''"
    by (metis hd_in_set)+
  then show ?thesis
    using \<open>host u \<noteq> []\<close> by (auto simp: print_rest_def to_string_def hd_append)
qed

lemma normalize_printed:
  assumes "uri_ok u"
  shows "normalize (to_string all_components u) = to_string all_components u"
proof -
  let ?s = "to_string all_components u" and ?p = "protocol u" and ?r = "print_rest u"
  have p: "?p \<noteq> []" "CHR '':'' \<notin> set ?p" "CHR ''/'' \<notin> set ?p" "\<not> is_space (hd ?p)"
    using uri_okD(1,3,4) [OF assms] uri_okD(2) [OF assms hd_in_set] by simp_all
  have s: "?s = ?p @ ''://'' @ ?r" by (rule to_string_all [OF p(1)])
  have r: "?r \<noteq> []" "hd ?r \<noteq> CHR ''/''" "\<not> double_slash ?r"
    using rest_nonempty [OF assms] rest_no_slash [OF assms] uri_okD(19) [OF assms] by simp_all
  have c: "c_str ?s = ?s" by (rule c_str_id [OF uri_okD(16) [OF assms]])
  have "hd ?s = hd ?p" "last ?s = last ?r" using p(1) r(1) by (simp_all add: s)
  then have t: "trim_if is_space ?s = ?s"
    using p(4) uri_okD(18) [OF assms] by (intro trim_if_id) simp
  have b: "replace_all [CHR 0x5C] ''/'' ?s = ?s" by (rule replace_all_char [OF uri_okD(17) [OF assms]])
  have f: "replace_first '':/'' [CHR '':'', CHR 0x5C] ?s = ?p @ [CHR '':'', CHR 0x5C] @ ''/'' @ ?r"
    using replace_first_at [OF p(2), of "''/''" "[CHR '':'', CHR 0x5C]" "''/'' @ ?r"] by (simp add: s)
  have "\<not> double_slash (''/'' @ ?r)" using r by (cases ?r) auto
  then have "\<not> double_slash (?p @ [CHR '':'', CHR 0x5C] @ ''/'' @ ?r)"
    using p(3) double_slash_prefix [of "?p @ [CHR '':'', CHR 0x5C]" "''/'' @ ?r"] by simp
  then have j: "join_slashes (?p @ [CHR '':'', CHR 0x5C] @ ''/'' @ ?r) = ?p @ [CHR '':'', CHR 0x5C] @ ''/'' @ ?r"
    by (rule join_slashes_id)
  have g: "replace_first [CHR '':'', CHR 0x5C] '':/'' (?p @ [CHR '':'', CHR 0x5C] @ ''/'' @ ?r) = ?s"
    using replace_first_at [OF p(2), of "[CHR 0x5C]" "'':/''" "''/'' @ ?r"] by (simp add: s)
  show ?thesis
    by (simp only: normalize_def Let_def c t b f j g) auto
qed

text \<open>Each parser takes its component off the front of what is printed.\<close>

definition after_host :: "uri \<Rightarrow> string" where
  "after_host u = (if port u \<noteq> [] then '':'' @ port u else []) @ path u
     @ (if query u \<noteq> [] then ''?'' @ query u else [])
     @ (if fragment u \<noteq> [] then ''#'' @ fragment u else [])"

definition after_path :: "uri \<Rightarrow> string" where
  "after_path u = (if query u \<noteq> [] then ''?'' @ query u else [])
     @ (if fragment u \<noteq> [] then ''#'' @ fragment u else [])"

definition after_user :: "uri \<Rightarrow> string" where
  "after_user u = (if ipv6_host u then ''['' @ host u @ '']'' else host u) @ after_host u"

lemma print_rest_parts:
  assumes "uri_ok u"
  shows "print_rest u = (if user_info u \<noteq> [] then user_info u @ ''@'' else []) @ after_user u"
    and "after_host u = (if port u \<noteq> [] then '':'' @ port u else []) @ path u @ after_path u"
  using uri_okD(10) [OF assms]
  by (auto simp: print_rest_def to_string_def after_user_def after_host_def after_path_def starts_def)

lemma parse_protocol_printed:
  assumes "uri_ok u"
  shows "parse_protocol (to_string all_components u) = (protocol u, print_rest u)"
proof -
  let ?p = "protocol u" and ?r = "print_rest u"
  note D = uri_okD [OF assms]
  have s: "to_string all_components u = ?p @ ''://'' @ ?r" by (rule to_string_all [OF D(1)])
  have u: "upto_any '':'' (?p @ ''://'' @ ?r) = ?p" "from_any '':'' (?p @ ''://'' @ ?r) = ''://'' @ ?r"
    using upto_any_append [of ?p "'':''" "''://'' @ ?r"] from_any_append [of ?p "'':''" "''://'' @ ?r"] D(3)
    by simp_all
  have t: "trim_if is_space ?p = ?p" using D(1,2) by (intro trim_if_id) auto
  have l: "map to_lower ?p = ?p" using D(2) by (simp add: map_idI to_lower_id)
  show ?thesis
    unfolding s parse_protocol_def Let_def u t l using starts_append [of "''://''" ?r] by simp
qed

lemma after_path_head: "after_path u = [] \<or> hd (after_path u) \<in> set ''?#''"
  by (simp add: after_path_def)

lemma path_head:
  assumes "uri_ok u"
  shows "path u @ s \<noteq> [] \<and> hd (path u @ s) = CHR ''/''"
  using path_cons [OF uri_okD(10) [OF assms]] by auto

lemma starts_hd: "s \<noteq> [] \<Longrightarrow> starts [c] s \<longleftrightarrow> hd s = c"
  by (cases s) (auto simp: starts_def)

lemma after_host_head:
  assumes "uri_ok u"
  shows "after_host u \<noteq> []" "hd (after_host u) \<in> set '':/?#''" "hd (after_host u) \<in> set '':/''"
  using path_head [OF assms] unfolding print_rest_parts(2) [OF assms] by (auto simp: hd_append)

lemma parse_user_info_printed:
  assumes ok: "uri_ok u"
  shows "parse_user_info (print_rest u) = (user_info u, after_user u)"
proof (cases "user_info u = []")
  case False
  let ?i = "user_info u" and ?t = "after_user u"
  note D = uri_okD [OF ok]
  have r: "print_rest u = ?i @ ''@'' @ ?t" using print_rest_parts(1) [OF ok] False by simp
  have out: "CHR ''@'' \<notin> set ?i" "CHR ''['' \<notin> set ?i" "CHR ''/'' \<notin> set ?i" "CHR ''?'' \<notin> set ?i" "CHR ''#'' \<notin> set ?i"
    using D(5) by (auto simp: chars_outside_def list_all_iff)
  show ?thesis
  proof (cases "CHR '':'' \<in> set ?i")
    case False
    have "upto_any ''@:[/?#'' (print_rest u) = ?i" "from_any ''@:[/?#'' (print_rest u) = ''@'' @ ?t"
      unfolding r using out False by (auto intro: upto_any_append from_any_append)
    then show ?thesis by (simp add: parse_user_info_def starts_def)
  next
    case True
    then obtain a b where ab: "?i = a @ '':'' @ b" "CHR '':'' \<notin> set a"
      using split_list_first by fastforce
    have "upto_any ''@:[/?#'' (a @ '':'' @ b @ ''@'' @ ?t) = a"
      "from_any ''@:[/?#'' (a @ '':'' @ b @ ''@'' @ ?t) = '':'' @ b @ ''@'' @ ?t"
      using out ab by (auto intro: upto_any_append from_any_append)
    moreover have "upto_any ''@/?#'' (('':'' @ b) @ ''@'' @ ?t) = '':'' @ b"
      "from_any ''@/?#'' (('':'' @ b) @ ''@'' @ ?t) = ''@'' @ ?t"
      using out ab(1) by (intro upto_any_append from_any_append; auto)+
    ultimately show ?thesis
      unfolding r ab(1) by (simp add: parse_user_info_def starts_def)
  qed
next
  case True
  note D = uri_okD [OF ok]
  have r: "print_rest u = after_user u" using print_rest_parts(1) [OF ok] True by simp
  show ?thesis
  proof (cases "ipv6_host u")
    case True
    then have "from_any ''@:[/?#'' (print_rest u) = print_rest u" "starts ''['' (print_rest u)"
      by (simp_all add: r after_user_def from_any_def starts_def)
    then show ?thesis using \<open>user_info u = []\<close> r
      by (auto simp: parse_user_info_def after_user_def True starts_def)
  next
    case False
    have out: "set (host u) \<inter> set ''@:[/?#'' = {}"
      using D(8) False by (auto simp: chars_outside_def list_all_iff)
    have h: "from_any ''@:[/?#'' (print_rest u) = after_host u"
      unfolding r after_user_def using False out after_host_head(1,3) [OF ok]
      by (auto intro!: from_any_append)
    show ?thesis
    proof (cases "port u = []")
      case True
      then have "hd (after_host u) = CHR ''/''"
        using path_head [OF ok] print_rest_parts(2) [OF ok] by simp
      then show ?thesis
        using h after_host_head(1) [OF ok] \<open>user_info u = []\<close> r
        by (simp add: parse_user_info_def starts_hd)
    next
      case False
      have "set ('':'' @ port u) \<inter> set ''@/?#'' = {}"
        using D(9) by (auto simp: list_all_iff is_digit_def code_def)
      then have "from_any ''@/?#'' (('':'' @ port u) @ path u @ after_path u) = path u @ after_path u"
        using path_head [OF ok, of "after_path u"] by (intro from_any_append) auto
      then have "from_any ''@/?#'' (after_host u) = path u @ after_path u"
        using False print_rest_parts(2) [OF ok] by simp
      moreover have "hd (after_host u) = CHR '':''" using False print_rest_parts(2) [OF ok] by simp
      ultimately show ?thesis
        using h after_host_head(1) [OF ok] \<open>user_info u = []\<close> r path_head [OF ok, of "after_path u"]
        by (simp add: parse_user_info_def starts_hd)
    qed
  qed
qed

lemma parse_host_printed:
  assumes ok: "uri_ok u"
  shows "parse_host (after_user u) = Some (host u, ipv6_host u, after_host u)"
proof -
  note D = uri_okD [OF ok]
  note a = after_host_head [OF ok]
  show ?thesis
  proof (cases "ipv6_host u")
    case True
    have out: "set (host u) \<inter> set '']'' = {}"
      using D(8) True by (auto simp: chars_outside_def list_all_iff)
    have "upto_any '']'' (host u @ '']'' @ after_host u) = host u"
      "from_any '']'' (host u @ '']'' @ after_host u) = '']'' @ after_host u"
      using out by (auto intro: upto_any_append from_any_append)
    moreover have "upto_any '':/?#'' (after_host u) = []"
      using a(1,2) by (cases "after_host u") (auto simp: upto_any_def)
    ultimately show ?thesis
      by (simp add: after_user_def True parse_host_def starts_def)
  next
    case False
    have out: "set (host u) \<inter> set '':/?#'' = {}" "CHR ''['' \<notin> set (host u)"
      using D(8) False by (auto simp: chars_outside_def list_all_iff)
    have "upto_any '':/?#'' (host u @ after_host u) = host u"
      "from_any '':/?#'' (host u @ after_host u) = after_host u"
      using out a by (auto intro: upto_any_append from_any_append)
    moreover have "\<not> starts ''['' (host u @ after_host u)"
      using out(2) D(7) by (cases "host u") (auto simp: starts_def)
    ultimately show ?thesis
      by (simp add: after_user_def False parse_host_def)
  qed
qed

lemma parse_port_printed:
  assumes ok: "uri_ok u"
  shows "parse_port (after_host u) = Some (port u, path u @ after_path u)"
proof (cases "port u = []")
  case True
  then show ?thesis
    using path_head [OF ok, of "after_path u"] print_rest_parts(2) [OF ok] by (simp add: parse_port_def starts_hd)
next
  case False
  note D = uri_okD [OF ok]
  have "set (port u) \<inter> set ''/?#'' = {}" using D(9) by (auto simp: list_all_iff is_digit_def code_def)
  then have "upto_any ''/?#'' (port u @ path u @ after_path u) = port u"
    "from_any ''/?#'' (port u @ path u @ after_path u) = path u @ after_path u"
    using path_head [OF ok, of "after_path u"] by (auto intro: upto_any_append from_any_append)
  then show ?thesis
    using False D(9) unfolding print_rest_parts(2) [OF ok] by (simp add: parse_port_def starts_def)
qed

lemma parse_path_printed:
  assumes ok: "uri_ok u"
  shows "parse_path (path u @ after_path u) = Some (path u, after_path u)"
proof -
  note D = uri_okD [OF ok]
  have out: "set (path u) \<inter> set ''?#'' = {}"
    using D(11) by (auto simp: chars_outside_def list_all_iff)
  have "upto_any ''?#'' (path u @ after_path u) = path u"
    "from_any ''?#'' (path u @ after_path u) = after_path u"
    using after_path_head [of u] by (intro upto_any_append from_any_append out; assumption)+
  then show ?thesis
    using D(12) path_head [OF ok, of "after_path u"] by (simp add: parse_path_def starts_hd Let_def)
qed

lemma parse_query_printed:
  assumes ok: "uri_ok u"
  shows "parse_query (after_path u) =
    Some (query u, query_map u, if fragment u \<noteq> [] then ''#'' @ fragment u else [])"
proof -
  note D = uri_okD [OF ok]
  let ?f = "if fragment u \<noteq> [] then ''#'' @ fragment u else []"
  show ?thesis
  proof (cases "query u = []")
    case True
    then show ?thesis using D(14) by (simp add: after_path_def parse_query_def starts_def)
  next
    case False
    have out: "set (query u) \<inter> set ''#'' = {}"
      using D(13) by (auto simp: chars_outside_def list_all_iff)
    have "upto_any ''#'' (query u @ ?f) = query u" "from_any ''#'' (query u @ ?f) = ?f"
      by (intro upto_any_append from_any_append out; simp)+
    then show ?thesis
      using False D(15) [OF False] by (simp add: after_path_def parse_query_def starts_def)
  qed
qed

lemma parse_printed:
  assumes ok: "uri_ok u"
  shows "from_string (to_string all_components u) = Some u"
  using uri_okD(6) [OF ok]
  by (simp add: from_string_def normalize_printed [OF ok] parse_protocol_printed [OF ok]
      parse_user_info_printed [OF ok] parse_host_printed [OF ok] parse_port_printed [OF ok]
      parse_path_printed [OF ok] parse_query_printed [OF ok] starts_def)

section \<open>Properties\<close>


definition example_query :: "(string \<rightharpoonup> string) option" where
  "example_query = parse_query_items (split_on (\<lambda>c. c = CHR ''&'') ''x=1&y=2%2b&z'') Map.empty"

definition example_uri :: uri where
  "example_uri = \<lparr>protocol = ''http'', user_info = ''u:p'', user_name = ''u'', user_password = ''p'',
     host = ''www.a.com'', ipv6_host = False, port = ''80'', path = ''/a%20b'', query = ''x=1&y=2%2b&z'',
     query_map = the example_query, fragment = ''f''\<rparr>"

lemma some_the_case: "(case x of None \<Rightarrow> False | Some m \<Rightarrow> True) \<Longrightarrow> x = Some (the x)"
  by (cases x) simp_all

lemma example_uri_ok: "uri_ok example_uri"
proof -
  have f: "query example_uri = ''x=1&y=2%2b&z''" "query_map example_uri = the example_query"
    by (simp_all add: example_uri_def)
  have "(case example_query of None \<Rightarrow> False | Some m \<Rightarrow> True)" by code_simp
  then have q: "parse_query_items (split_on (\<lambda>c. c = CHR ''&'') (query example_uri)) Map.empty
      = Some (query_map example_uri)"
    unfolding f example_query_def [symmetric] by (rule some_the_case)
  have rest: "CHR 0x00 \<notin> set (to_string all_components example_uri)"
    "CHR 0x5C \<notin> set (to_string all_components example_uri)"
    "\<not> is_space (last (print_rest example_uri)) \<and> \<not> double_slash (print_rest example_uri)"
    "list_all (\<lambda>c. \<not> is_upper c \<and> \<not> is_space c) (protocol example_uri)"
    "chars_outside '':/'' (protocol example_uri)" "chars_outside ''@[/?#'' (user_info example_uri)"
    "split_user_info (user_info example_uri) = (user_name example_uri, user_password example_uri)"
    "chars_outside ''@:[/?#'' (host example_uri)" "list_all is_digit (port example_uri)"
    "starts ''/'' (path example_uri)" "chars_outside ''?#'' (path example_uri)"
    "unescape_path (path example_uri) \<noteq> None" "chars_outside ''#'' (query example_uri)"
    by code_simp+
  have "query example_uri \<noteq> []" "protocol example_uri \<noteq> []" "host example_uri \<noteq> []"
    "\<not> ipv6_host example_uri"
    by (simp_all add: example_uri_def)
  then show ?thesis
    using q rest unfolding uri_ok_def by simp
qed


text \<open>Escaping is undone by unescaping, for every string that has no percent sign of its own:
  the result is the string itself with its backslashes turned into slashes. Escaping makes
  only characters that are allowed in a URI, with either treatment of spaces.\<close>
lemma escape_unescape:
  assumes "CHR ''%'' \<notin> set s" and "CHR 0x00 \<notin> set s"
  shows "unescape_path (escape False s) = Some (map (\<lambda>c. if c = CHR 0x5C then CHR ''/'' else c) s)
    \<and> list_all is_uri_char (escape space_to_plus s)"
  using unescape_escape [OF assms] escape_uri_chars [of space_to_plus s]
  by (simp add: escape_def c_str_id assms(2) list_all_iff)

text \<open>A URI with an empty authority is read wrongly: the slashes after the protocol are joined,
  so the first element of the path of a file URI becomes the host. A second protocol in the
  query loses a slash in the same way.\<close>
lemma empty_authority_lost:
  "map_option (\<lambda>u. (host u, path u)) (from_string ''file:///etc/hosts'') = Some (''etc'', ''/hosts'')
   \<and> map_option query (from_string ''http://a/?u=http://b/'') = Some ''u=http:/b/''"
  by code_simp

end
