(* ===== verification/Http_Messages.thy ===== *)
theory Http_Messages
  imports Http_Header Uri
begin

text \<open>\<open>p2engine/http/request\<close> and \<open>response\<close>: the first lines of messages, their parsers,
  and the fields that carry hosts, credentials and ranges.\<close>

section \<open>Numbers in fields\<close>

text \<open>A number as the C library scans it: white space, a sign, digits.\<close>

definition scan_number :: "string \<Rightarrow> (int \<times> string) option" where
  "scan_number s =
     (let t = dropWhile is_space s;
          neg = starts ''-'' t;
          u = (if neg \<or> starts ''+'' t then drop 1 t else t);
          d = takeWhile is_digit u
      in if d = [] then None
         else Some (if neg then - int (decimal d) else int (decimal d), dropWhile is_digit u))"

definition in_int64 :: "int \<Rightarrow> bool" where
  "in_int64 i = (- (2 ^ 63) \<le> i \<and> i < 2 ^ 63)"

text \<open>\<open>sscanf\<close> with \<open>"%*[^0-9]%lld-%lld"\<close>, both numbers \<open>-1\<close> before. \<open>None\<close> where a number
  does not fit, which the C library leaves undefined.\<close>

definition scan_pair :: "string \<Rightarrow> (int \<times> int) option" where
  "scan_pair s =
     (let c = c_str s; r = dropWhile (\<lambda>x. \<not> is_digit x) c
      in if length r = length c then Some (- 1, - 1)
         else case scan_number r of
           None \<Rightarrow> Some (- 1, - 1)
         | Some (a, t) \<Rightarrow>
             if \<not> in_int64 a then None
             else if \<not> starts ''-'' t then Some (a, - 1)
             else (case scan_number (drop 1 t) of
                     None \<Rightarrow> Some (a, - 1)
                   | Some (b, _) \<Rightarrow> if in_int64 b then Some (a, b) else None))"

text \<open>\<open>atoi\<close>; \<open>None\<close> beyond the range of \<open>int\<close>.\<close>

definition c_atoi :: "string \<Rightarrow> int option" where
  "c_atoi s =
     (case scan_number (c_str s) of
        None \<Rightarrow> Some 0
      | Some (i, _) \<Rightarrow> if - (2 ^ 31) \<le> i \<and> i < 2 ^ 31 then Some i else None)"

section \<open>Requests\<close>

record request = header +
  r_method :: string
  r_uri :: string

definition MAX_METHOD_LENGTH :: nat where "MAX_METHOD_LENGTH = 32"

definition MAX_VERSION_LENGTH :: nat where "MAX_VERSION_LENGTH = 8"

definition request_new :: "string \<Rightarrow> request" where
  "request_new v = header.extend (header_new v) \<lparr>r_method = ''GET'', r_uri = ''/''\<rparr>"

definition request_clear :: "request \<Rightarrow> request" where
  "request_clear r = header_clear (r\<lparr>r_method := [], r_uri := []\<rparr>)"

definition set_host :: "string \<Rightarrow> request \<Rightarrow> request" where
  "set_host h r = set_field_value ''Host'' h r"

definition get_host :: "request \<Rightarrow> string" where
  "get_host r = get_field_value ''Host'' r"

definition set_host_port :: "string \<Rightarrow> u16 \<Rightarrow> request \<Rightarrow> request" where
  "set_host_port h p r = (if p \<noteq> 80 then set_host (h @ show_decimal (unat p)) r else set_host h r)"

text \<open>The position of the colon is compared with \<open>npos\<close> before it is assigned, so it is 1.
  \<open>None\<close> where the number is read beyond the end of the string.\<close>

definition get_port :: "request \<Rightarrow> u16 option" where
  "get_port r =
     (let h = get_host r
      in if CHR '':'' \<in> set h
         then let pos = 1
              in if pos + 1 > length h then None
                 else map_option of_int (c_atoi (drop (pos + 1) h))
         else Some 80)"

definition set_url :: "string \<Rightarrow> request \<Rightarrow> request option" where
  "set_url s r =
     (case from_string s of
        None \<Rightarrow> Some (r\<lparr>r_uri := s\<rparr>)
      | Some u \<Rightarrow>
          let r1 = r\<lparr>r_uri := to_string [Path_component, Query_component, Fragment_component] u\<rparr>
          in if host u = [] then Some r1
             else map_option (\<lambda>p. set_host_port (host u) p r1) (uri_port u))"

definition request_of_url :: "string \<Rightarrow> string \<Rightarrow> string \<Rightarrow> request option" where
  "request_of_url m u v =
     set_url u (header.extend (header_new v) \<lparr>r_method = m, r_uri = []\<rparr>)"

definition has_credentials :: "request \<Rightarrow> bool" where
  "has_credentials r = has_field ''Authorization'' r"

definition get_credentials :: "request \<Rightarrow> string \<times> string" where
  "get_credentials r =
     (let auth = get_field_value ''Authorization'' r;
          s1 = dropWhile is_space auth;
          s2 = dropWhile (\<lambda>c. \<not> is_space c) s1
      in (takeWhile (\<lambda>c. \<not> is_space c) s1, dropWhile is_space s2))"

definition set_credentials :: "string \<Rightarrow> string \<Rightarrow> request \<Rightarrow> request" where
  "set_credentials scheme info r = set_field_value ''Authorization'' (scheme @ '' '' @ info) r"

definition set_range :: "int \<Rightarrow> int \<Rightarrow> request \<Rightarrow> request" where
  "set_range a b r =
     (if a \<ge> 0
      then set_field_value ''Range''
             (if b \<ge> a then ''bytes='' @ show_int a @ ''-'' @ show_int b
              else ''bytes='' @ show_int a @ ''-'') r
      else erase_field ''Range'' r)"

definition get_range :: "request \<Rightarrow> (int \<times> int) option" where
  "get_range r = scan_pair (get_field_value ''Range'' r)"

text \<open>What \<open>serialize\<close> writes, and the assertion before it: a request without a host is not
  printed.\<close>

definition request_text :: "request \<Rightarrow> string" where
  "request_text r =
     r_method r @ '' '' @ r_uri r @ '' '' @ h_version r @ [CR, LF] @ header_serialize r @ [CR, LF]"

definition request_serialize :: "request \<Rightarrow> string option" where
  "request_serialize r = (if get_host r = [] then None else Some (request_text r))"

text \<open>The branch of both parsers that hands the rest to the parser of the fields.\<close>

definition parse_fields :: "nat \<Rightarrow> string \<Rightarrow> 'a header_scheme \<Rightarrow> int \<times> 'a header_scheme" where
  "parse_fields n s h =
     (let (k, h1) = header_parse 0 s h in if k \<le> 0 then (k, h1) else (int n + k, h1))"

text \<open>At a line break the source steps back, so that the parser of the fields sees it.\<close>

fun request_parse :: "nat \<Rightarrow> string \<Rightarrow> request \<Rightarrow> int \<times> request" where
  "request_parse n [] r = (0, r)"
| "request_parse n (c # s) r =
     (case h_state r of
        FIRSTLINE_1 \<Rightarrow>
          if is_blank c
          then if r_method r = [] then request_parse (n + 1) s r
               else if length (r_method r) > MAX_METHOD_LENGTH then (- 1, r)
               else request_parse (n + 1) s (r\<lparr>h_state := FIRSTLINE_2\<rparr>)
          else if \<not> is_upper c then (- 1, r)
          else request_parse (n + 1) s (r\<lparr>r_method := r_method r @ [c]\<rparr>)
      | FIRSTLINE_2 \<Rightarrow>
          if is_blank c
          then request_parse (n + 1) s (if r_uri r = [] then r else r\<lparr>h_state := FIRSTLINE_3\<rparr>)
          else request_parse (n + 1) s (r\<lparr>r_uri := r_uri r @ [c]\<rparr>)
      | FIRSTLINE_3 \<Rightarrow>
          if r_uri r = [] then (- 1, r)
          else if is_blank c
          then request_parse (n + 1) s (if h_version r = [] then r else r\<lparr>h_state := PARSER_KEY\<rparr>)
          else if is_crlf c then parse_fields n (c # s) (r\<lparr>h_state := PARSER_KEY\<rparr>)
          else let r1 = r\<lparr>h_version := h_version r @ [c]\<rparr>
               in if length (h_version r1) > MAX_VERSION_LENGTH then (- 1, r1)
                  else request_parse (n + 1) s r1
      | _ \<Rightarrow> parse_fields n (c # s) r)"

section \<open>Responses\<close>

text \<open>The status is read into an \<open>int\<close>; it is kept at its width.\<close>

record response = header +
  s_status_for_parser :: u32
  s_status :: u32
  s_reason :: string

definition MAX_VALUE_LENGTH :: nat where "MAX_VALUE_LENGTH = 4096"

definition response_new :: response where
  "response_new = header.extend (header_new ''HTTP/1.1'')
     \<lparr>s_status_for_parser = 0, s_status = 0, s_reason = []\<rparr>"

definition response_clear :: "response \<Rightarrow> response" where
  "response_clear r =
     header_clear (r\<lparr>s_status_for_parser := 0, s_status := 0, h_version := [], s_reason := []\<rparr>)"

definition reason_table :: "(int \<times> string) list" where
  "reason_table =
     [(100, ''Continue''), (101, ''Switching Protocols''), (200, ''OK''), (201, ''Created''),
      (202, ''Accepted''), (203, ''Non-Authoritative Information''), (204, ''No Content''),
      (205, ''Reset Content''), (206, ''Partial Content''), (300, ''Multiple Choices''),
      (301, ''Moved Permanently''), (302, ''Found''), (303, ''See Other''), (304, ''Not Modified''),
      (305, ''Use Proxy''), (307, ''Temporary Redirect''), (400, ''Bad Request''),
      (402, ''Payment Required''), (403, ''Forbidden''), (404, ''Not Found''),
      (405, ''Method Not Allowed''), (406, ''Not Acceptable''),
      (407, ''Proxy Authentication Required''), (408, ''Request Time-out''), (409, ''Conflict''),
      (410, ''Gone''), (411, ''Length Required''), (412, ''Precondition Failed''),
      (413, ''Request Entity Too Large''), (414, ''Request-URI Too Large''),
      (415, ''Unsupported Media Type''), (416, ''Requested Range Not Satisfiable''),
      (417, ''Expectation Failed''), (500, ''Internal Server Error''), (501, ''Not Implemented''),
      (502, ''Bad Gateway''), (503, ''Service Unavailable''), (504, ''Gateway Time-out''),
      (505, ''HTTP Version not supported'')]"

definition reason_for_status :: "u32 \<Rightarrow> string" where
  "reason_for_status s = (case map_of reason_table (sint s) of None \<Rightarrow> [] | Some r \<Rightarrow> r)"

definition response_serialize :: "response \<Rightarrow> string" where
  "response_serialize r =
     h_version r @ '' '' @ show_int (sint (s_status r)) @ '' '' @ reason_for_status (s_status r)
       @ [CR, LF] @ header_serialize r @ [CR, LF]"

fun response_parse :: "nat \<Rightarrow> string \<Rightarrow> response \<Rightarrow> int \<times> response" where
  "response_parse n [] r = (0, r)"
| "response_parse n (c # s) r =
     (case h_state r of
        FIRSTLINE_1 \<Rightarrow>
          if is_blank c
          then if h_version r = [] then response_parse (n + 1) s r
               else if length (h_version r) \<noteq> MAX_VERSION_LENGTH then (- 1, r)
               else response_parse (n + 1) s (r\<lparr>s_status_for_parser := 0, h_state := FIRSTLINE_2\<rparr>)
          else if is_crlf c then (- 1, r)
          else let r1 = r\<lparr>h_version := h_version r @ [c]\<rparr>
               in if length (h_version r1) > MAX_VERSION_LENGTH then (- 1, r1)
                  else response_parse (n + 1) s r1
      | FIRSTLINE_2 \<Rightarrow>
          if is_blank c
          then response_parse (n + 1) s
                 (if s_status_for_parser r = 0 then r
                  else r\<lparr>h_state := FIRSTLINE_3, s_status := s_status_for_parser r\<rparr>)
          else if is_crlf c
          then parse_fields n (c # s) (r\<lparr>s_status := s_status_for_parser r, h_state := PARSER_KEY\<rparr>)
          else if \<not> is_digit c then (- 1, r)
          else response_parse (n + 1) s
                 (r\<lparr>s_status_for_parser := s_status_for_parser r * 10 + of_nat (digit c)\<rparr>)
      | FIRSTLINE_3 \<Rightarrow>
          if is_blank c
          then response_parse (n + 1) s
                 (if s_reason r = [] then r else r\<lparr>s_reason := s_reason r @ [c]\<rparr>)
          else if is_crlf c then parse_fields n (c # s) (r\<lparr>h_state := PARSER_KEY\<rparr>)
          else let r1 = r\<lparr>s_reason := s_reason r @ [c]\<rparr>
               in if length (s_reason r1) > MAX_VALUE_LENGTH then (- 1, r1)
                  else response_parse (n + 1) s r1
      | _ \<Rightarrow> parse_fields n (c # s) r)"

definition set_content_range :: "int \<Rightarrow> int \<Rightarrow> int \<Rightarrow> response \<Rightarrow> response" where
  "set_content_range a b whole r =
     set_field_value ''Content-Range''
       (''bytes '' @ show_int a @ ''-'' @ show_int b @ ''/'' @ show_int whole) r"

definition get_content_range :: "response \<Rightarrow> (int \<times> int) option" where
  "get_content_range r = scan_pair (get_field_value ''Content-Range'' r)"

definition contains :: "string \<Rightarrow> string \<Rightarrow> bool" where
  "contains p s = list_ex (\<lambda>i. starts p (drop i s)) [0..<Suc (length s)]"

definition range_supported :: "response \<Rightarrow> bool" where
  "range_supported r =
     (h_version r = ''HTTP/1.1'' \<and> has_field ''Content-Length'' r
      \<and> (has_field ''Etag'' r \<or> has_field ''Last-Modified'' r)
      \<and> contains ''bytes'' (get_field_value ''Accept-Ranges'' r))"

end
