(* ===== verification/Http_Fields.thy ===== *)
theory Http_Fields
  imports Http_Header
begin

text \<open>The fields of a message as a map from lower-case names: the contract of the container,
  what the operations of a header do to it, and the state machine run over the lines that
  serialising makes.\<close>

section \<open>The container\<close>

lemma stricmp_trans: "stricmp_less a b \<Longrightarrow> stricmp_less b c \<Longrightarrow> stricmp_less a c"
  unfolding stricmp_less_def by (rule string_less_trans)

lemma stricmp_irrefl [simp]: "\<not> stricmp_less a a"
  by (simp add: stricmp_less_def)

lemma stricmp_equal: "\<not> stricmp_less a b \<Longrightarrow> \<not> stricmp_less b a \<Longrightarrow> folded a = folded b"
  using string_less_total unfolding stricmp_less_def by blast

lemma name_cases:
  obtains (less) "stricmp_less a b" "folded b \<noteq> folded a"
    | (greater) "stricmp_less b a" "\<not> stricmp_less a b" "folded b \<noteq> folded a"
    | (equal) "folded a = folded b" "\<not> stricmp_less a b" "\<not> stricmp_less b a"
proof -
  have "folded b \<noteq> folded a" if "stricmp_less a b \<or> stricmp_less b a"
    using that by (auto simp: stricmp_less_def)
  then show thesis using that stricmp_equal [of a b] by blast
qed

definition fields_ok :: "fields \<Rightarrow> bool" where
  "fields_ok fs = sorted_wrt (\<lambda>f g. stricmp_less (fst f) (fst g)) fs"

definition fields_view :: "fields \<Rightarrow> string \<rightharpoonup> string" where
  "fields_view fs = map_of (map (\<lambda>f. (folded (fst f), snd f)) fs)"

lemma fields_ok_Cons [simp]:
  "fields_ok (f # fs) \<longleftrightarrow> (\<forall>g \<in> set fs. stricmp_less (fst f) (fst g)) \<and> fields_ok fs"
  by (simp add: fields_ok_def)

lemma fields_ok_Nil [simp]: "fields_ok []"
  by (simp add: fields_ok_def)

lemma fields_view_Nil [simp]: "fields_view [] = Map.empty"
  by (simp add: fields_view_def)

lemma fields_view_Cons [simp]:
  "fields_view (f # fs) = (fields_view fs)(folded (fst f) \<mapsto> snd f)"
  by (simp add: fields_view_def)

lemma view_below:
  assumes "\<forall>g \<in> set fs. stricmp_less k (fst g)"
  shows "fields_view fs (folded k) = None"
proof -
  have "folded k \<notin> folded ` fst ` set fs"
    using assms by (auto simp: stricmp_less_def)
  then show ?thesis by (simp add: fields_view_def map_of_eq_None_iff image_image)
qed

lemma set_insert: "set (fields_insert k v fs) \<subseteq> insert (k, v) (set fs)"
  by (induction fs) auto

lemma set_assign: "g \<in> set (fields_assign k v fs) \<Longrightarrow> fst g = k \<or> (\<exists>f \<in> set fs. fst f = fst g)"
  by (induction fs) (auto split: if_splits)

lemma set_erase: "set (fields_erase k fs) \<subseteq> set fs"
  by (induction fs) auto

lemma below_all: "stricmp_less k (fst f) \<Longrightarrow> \<forall>g \<in> set fs. stricmp_less (fst f) (fst g) \<Longrightarrow>
    \<forall>g \<in> set fs. stricmp_less k (fst g)"
  using stricmp_trans by blast

lemma find_view: "fields_ok fs \<Longrightarrow> fields_find k fs = fields_view fs (folded k)"
proof (induction fs)
  case (Cons f fs)
  show ?case
  proof (cases rule: name_cases [where a = "fst f" and b = k])
    case greater
    then show ?thesis using Cons.prems view_below [OF below_all, of k f fs] by simp
  qed (use Cons in simp_all)
qed simp

lemma assign_ok: "fields_ok fs \<Longrightarrow> fields_ok (fields_assign k v fs)"
proof (induction fs)
  case (Cons f fs)
  show ?case
  proof (cases rule: name_cases [where a = "fst f" and b = k])
    case less
    then have "\<forall>g \<in> set (fields_assign k v fs). stricmp_less (fst f) (fst g)"
      using Cons.prems set_assign by fastforce
    then show ?thesis using Cons less by simp
  next
    case greater
    then show ?thesis using Cons.prems below_all [OF greater(1), of fs] by simp
  qed (use Cons in simp)
qed simp

lemma assign_view:
  "fields_ok fs \<Longrightarrow> fields_view (fields_assign k v fs) = (fields_view fs)(folded k \<mapsto> v)"
proof (induction fs)
  case (Cons f fs)
  show ?case
    by (cases rule: name_cases [where a = "fst f" and b = k]) (use Cons in \<open>simp_all add: fun_eq_iff\<close>)
qed simp

lemma erase_ok: "fields_ok fs \<Longrightarrow> fields_ok (fields_erase k fs)"
proof (induction fs)
  case (Cons f fs)
  then show ?case using set_erase [of k fs] by auto
qed simp

lemma erase_view:
  "fields_ok fs \<Longrightarrow> fields_view (fields_erase k fs) = (fields_view fs)(folded k := None)"
proof (induction fs)
  case (Cons f fs)
  show ?case
  proof (cases rule: name_cases [where a = "fst f" and b = k])
    case greater
    then show ?thesis
      using Cons.prems view_below [OF below_all, of k f fs] by (simp add: fun_eq_iff)
  next
    case equal
    have "fields_view fs (folded (fst f)) = None" using Cons.prems by (intro view_below) simp
    then show ?thesis using equal by (simp add: fun_eq_iff)
  qed (use Cons in \<open>simp add: fun_eq_iff\<close>)
qed simp

lemma insert_ok: "fields_ok fs \<Longrightarrow> fields_ok (fields_insert k v fs)"
proof (induction fs)
  case (Cons f fs)
  show ?case
  proof (cases rule: name_cases [where a = "fst f" and b = k])
    case less
    then have "\<forall>g \<in> set (fields_insert k v fs). stricmp_less (fst f) (fst g)"
      using Cons.prems set_insert [of k v fs] by auto
    then show ?thesis using Cons less by simp
  next
    case greater
    then show ?thesis using Cons.prems below_all [OF greater(1), of fs] by simp
  qed (use Cons in simp)
qed simp

lemma insert_last:
  assumes "\<forall>f \<in> set fs. stricmp_less (fst f) k"
  shows "fields_insert k v fs = fs @ [(k, v)]"
  using assms by (induction fs) auto

text \<open>The contract: a map from names to values that does not tell cases apart.\<close>

locale name_map =
  fixes find :: "string \<Rightarrow> 'm \<Rightarrow> string option"
    and assign :: "string \<Rightarrow> string \<Rightarrow> 'm \<Rightarrow> 'm"
    and erase :: "string \<Rightarrow> 'm \<Rightarrow> 'm"
    and sound :: "'m \<Rightarrow> bool"
    and view :: "'m \<Rightarrow> string \<rightharpoonup> string"
  assumes find: "sound m \<Longrightarrow> find k m = view m (folded k)"
    and assign: "sound m \<Longrightarrow> view (assign k v m) = (view m)(folded k \<mapsto> v)"
    and assign_sound: "sound m \<Longrightarrow> sound (assign k v m)"
    and erase: "sound m \<Longrightarrow> view (erase k m) = (view m)(folded k := None)"
    and erase_sound: "sound m \<Longrightarrow> sound (erase k m)"
begin

lemma find_assign:
  "sound m \<Longrightarrow> find k (assign j v m) = (if folded k = folded j then Some v else find k m)"
  by (simp add: find assign assign_sound)

lemma find_erase:
  "sound m \<Longrightarrow> find k (erase j m) = (if folded k = folded j then None else find k m)"
  by (simp add: find erase erase_sound)

end

interpretation names: name_map fields_find fields_assign fields_erase fields_ok fields_view
  by unfold_locales (simp_all add: find_view assign_view assign_ok erase_view erase_ok)

section \<open>The state machine over printed lines\<close>

definition name_char :: "char \<Rightarrow> bool" where
  "name_char c = (\<not> is_blank c \<and> \<not> is_crlf c \<and> c \<noteq> CHR '':'')"

definition field_ok :: "string \<times> string \<Rightarrow> bool" where
  "field_ok f = (fst f \<noteq> [] \<and> length (fst f) < MAX_NAME_LENGTH \<and> list_all name_char (fst f)
     \<and> snd f \<noteq> [] \<and> \<not> is_blank (hd (snd f)) \<and> list_all (\<lambda>c. \<not> is_crlf c) (snd f))"

lemma blank_not_break: "is_crlf c \<Longrightarrow> \<not> is_blank c"
  by (auto simp: is_crlf_def is_blank_def CR_def LF_def)

lemma break_chars [simp]: "is_crlf CR" "is_crlf LF" "\<not> is_blank CR" "\<not> is_blank LF"
    "CR \<noteq> CHR '':''" "LF \<noteq> CHR '':''" "\<not> is_crlf (CHR '':'')" "\<not> is_blank (CHR '':'')"
    "is_blank (CHR '' '')"
  by (simp_all add: is_crlf_def is_blank_def CR_def LF_def)

lemma scan_key:
  assumes "list_all name_char k" and "h_state h = PARSER_KEY" and "h_crlf h \<noteq> 3"
    and "length (h_key h @ k) \<le> MAX_NAME_LENGTH" and "k \<noteq> []"
  shows "header_parse n (k @ s) h
    = header_parse (n + length k) s (h\<lparr>h_crlf := 0, h_key := h_key h @ k\<rparr>)"
  using assms
proof (induction k arbitrary: n h)
  case (Cons c k)
  let ?h = "h\<lparr>h_crlf := 0, h_key := h_key h @ [c]\<rparr>"
  have "header_char c h = (Go_on, ?h)"
    using Cons.prems by (simp add: header_char_def key_char_def name_char_def)
  then show ?case
    using Cons.IH [of ?h "n + 1"] Cons.prems by (cases "k = []") simp_all
qed simp

lemma value_step:
  assumes "\<not> is_crlf c" and "h_state h = PARSER_VALUE" and "h_crlf h = 0"
    and "length (h_key h) < MAX_NAME_LENGTH" and "h_value h = [] \<longrightarrow> \<not> is_blank c"
  shows "header_char c h = (Go_on, h\<lparr>h_value := h_value h @ [c]\<rparr>)"
  using assms by (simp add: header_char_def value_char_def)

lemma scan_value:
  assumes "list_all (\<lambda>c. \<not> is_crlf c) v" and "h_state h = PARSER_VALUE" and "h_crlf h = 0"
    and "length (h_key h) < MAX_NAME_LENGTH" and "h_value h = [] \<and> v \<noteq> [] \<longrightarrow> \<not> is_blank (hd v)"
  shows "header_parse n (v @ s) h = header_parse (n + length v) s (h\<lparr>h_value := h_value h @ v\<rparr>)"
  using assms
proof (induction v arbitrary: n h)
  case (Cons c v)
  let ?h = "h\<lparr>h_value := h_value h @ [c]\<rparr>"
  have "header_char c h = (Go_on, ?h)" using Cons.prems by (intro value_step) simp_all
  then show ?case using Cons.IH [of ?h "n + 1"] Cons.prems by simp
qed simp

lemma scan_line:
  assumes f: "field_ok f" and h: "h_state h = PARSER_KEY" "h_crlf h \<noteq> 3" "h_key h = []" "h_value h = []"
  shows "header_parse n (serialize_field f @ s) h = header_parse (n + length (serialize_field f)) s
    (h\<lparr>h_map := fields_insert (fst f) (snd f) (h_map h), h_crlf := 2\<rparr>)"
proof -
  obtain k v where kv: "f = (k, v)" by (cases f)
  note ok = f [unfolded field_ok_def kv, simplified]
  define h1 where "h1 = h\<lparr>h_crlf := 0, h_key := k\<rparr>"
  define h2 where "h2 = h1\<lparr>h_state := PARSER_VALUE\<rparr>"
  define h3 where "h3 = h2\<lparr>h_value := v\<rparr>"
  define h4 where "h4 = h\<lparr>h_map := fields_insert k v (h_map h), h_crlf := 1\<rparr>"
  have "header_parse n (k @ '': '' @ v @ [CR, LF] @ s) h = header_parse (n + length k) ('': '' @ v @ [CR, LF] @ s) h1"
    using scan_key [of k h n "'': '' @ v @ [CR, LF] @ s"] ok h by (simp add: h1_def)
  also have "\<dots> = header_parse (n + length k + 2) (v @ [CR, LF] @ s) h2"
    using h by (cases h) (simp add: header_char_def key_char_def value_char_def h1_def h2_def)
  also have "\<dots> = header_parse (n + length k + 2 + length v) ([CR, LF] @ s) h3"
    using scan_value [of v h2 "n + length k + 2" "[CR, LF] @ s"] ok h by (simp add: h1_def h2_def h3_def)
  also have "header_char CR h3 = (Go_on, h4)"
    using ok h by (cases h) (simp add: header_char_def value_char_def h1_def h2_def h3_def h4_def)
  then have "header_parse (n + length k + 2 + length v) ([CR, LF] @ s) h3
      = header_parse (n + length k + 2 + length v + 1) ([LF] @ s) h4"
    by simp
  also have "\<dots> = header_parse (n + length k + 2 + length v + 2) s (h4\<lparr>h_crlf := 2\<rparr>)"
    using h by (cases h) (simp add: header_char_def key_char_def h4_def)
  finally show ?thesis by (simp add: kv serialize_field_def h4_def add.assoc)
qed

lemma scan_lines:
  assumes "list_all field_ok fs" and "h_state h = PARSER_KEY" "h_crlf h = 2" "h_key h = []" "h_value h = []"
  shows "header_parse n (concat (map serialize_field fs) @ s) h
    = header_parse (n + length (concat (map serialize_field fs))) s
        (h\<lparr>h_map := foldl (\<lambda>m f. fields_insert (fst f) (snd f) m) (h_map h) fs\<rparr>)"
  using assms
proof (induction fs arbitrary: n h)
  case (Cons f fs)
  let ?h = "h\<lparr>h_map := fields_insert (fst f) (snd f) (h_map h), h_crlf := 2\<rparr>"
  have "header_parse n (concat (map serialize_field (f # fs)) @ s) h
      = header_parse (n + length (serialize_field f)) (concat (map serialize_field fs) @ s) ?h"
    using scan_line [of f h n "concat (map serialize_field fs) @ s"] Cons.prems by simp
  also have "?h = h\<lparr>h_map := fields_insert (fst f) (snd f) (h_map h)\<rparr>" using Cons.prems by simp
  finally show ?case
    using Cons.IH [of "h\<lparr>h_map := fields_insert (fst f) (snd f) (h_map h)\<rparr>"] Cons.prems
    by (simp add: add.assoc)
qed simp

lemma insert_sorted:
  "fields_ok (gs @ fs) \<Longrightarrow> foldl (\<lambda>m f. fields_insert (fst f) (snd f) m) gs fs = gs @ fs"
proof (induction fs arbitrary: gs)
  case (Cons f fs)
  have "fields_insert (fst f) (snd f) gs = gs @ [f]"
    using Cons.prems insert_last [of gs "fst f" "snd f"] by (auto simp: fields_ok_def sorted_wrt_append)
  then show ?case using Cons.IH [of "gs @ [f]"] Cons.prems by simp
qed simp

text \<open>The part after the first line: its line break, the fields and the empty line.\<close>

lemma fields_read_back:
  assumes fs: "fields_ok fs" "list_all field_ok fs"
    and h: "h_state h = PARSER_KEY" "h_crlf h = 0" "h_key h = []" "h_value h = []" "h_map h = []"
  shows "header_parse n ([CR, LF] @ concat (map serialize_field fs) @ [CR, LF] @ rest) h
    = (int (n + 4 + length (concat (map serialize_field fs))), h\<lparr>h_map := fs, h_crlf := 4\<rparr>)"
proof -
  let ?w = "concat (map serialize_field fs)"
  define h1 where "h1 = h\<lparr>h_crlf := 2\<rparr>"
  have h1: "h_state h1 = PARSER_KEY" "h_crlf h1 = 2" "h_key h1 = []" "h_value h1 = []" "h_map h1 = []"
    using h by (simp_all add: h1_def)
  define h2 where "h2 = h1\<lparr>h_map := fs\<rparr>"
  have h2: "h_state h2 = PARSER_KEY" "h_crlf h2 = 2" "h_key h2 = []" "h_value h2 = []"
    using h1 by (simp_all add: h2_def)
  have "header_parse n ([CR, LF] @ ?w @ [CR, LF] @ rest) h = header_parse (n + 2) (?w @ [CR, LF] @ rest) h1"
    using h by (cases h) (simp add: header_char_def key_char_def h1_def)
  also have "\<dots> = header_parse (n + 2 + length ?w) ([CR, LF] @ rest) h2"
    using scan_lines [OF fs(2) h1(1-4), of "n + 2" "[CR, LF] @ rest"] insert_sorted [of "[]" fs] fs(1) h1(5)
    by (simp add: h2_def)
  also have "\<dots> = (int (n + 4 + length ?w), h2\<lparr>h_crlf := 4\<rparr>)"
    using h2 by (cases h2) (simp add: header_char_def key_char_def)
  finally show ?thesis by (simp add: h2_def h1_def)
qed

end
