(* ===== verification/Http_Parse.thy ===== *)
theory Http_Parse
  imports Http_Messages Http_Fields
begin

text \<open>What the parsers of HTTP messages make of what the serialisers print, and of messages that
  arrive in pieces; what the fields of requests and responses read back.\<close>

section \<open>Pieces\<close>

lemma header_char_stop_before: "header_char c h = (Stop_before, h1) \<Longrightarrow> h1 = h \<and> h_crlf h = 3"
  by (auto simp: header_char_def key_char_def value_char_def Let_def split: parse_state.splits if_splits)

lemma header_parse_append:
  "header_parse n a h = (0, h1) \<Longrightarrow> h_crlf h1 \<noteq> 3 \<Longrightarrow>
     header_parse n (a @ b) h = header_parse (n + length a) b h1"
proof (induction a arbitrary: n h)
  case (Cons c a)
  obtain v h2 where v: "header_char c h = (v, h2)" by (cases "header_char c h")
  show ?case
    using Cons header_char_stop_before [of c h h2] v by (cases v) auto
qed simp

lemma header_parse_shift:
  "h_crlf h \<noteq> 3 \<or> 0 < m \<Longrightarrow> header_parse (n + m) s h
     = (case header_parse m s h of (k, h1) \<Rightarrow> (if k > 0 then int n + k else k, h1))"
proof (induction s arbitrary: m h)
  case (Cons c s)
  obtain v h2 where v: "header_char c h = (v, h2)" by (cases "header_char c h")
  show ?case
    using Cons.prems Cons.IH [of h2 "m + 1"] header_char_stop_before [of c h h2] v
    by (cases v) (auto simp: add.assoc split: prod.splits)
qed simp

lemma parse_fields_append:
  assumes "parse_fields n a h = (0, h1)" and "h_crlf h1 \<noteq> 3"
  shows "parse_fields n (a @ b) h
    = (case header_parse 0 b h1 of (k, h2) \<Rightarrow> (if k > 0 then int (n + length a) + k else k, h2))"
proof -
  have a: "header_parse 0 a h = (0, h1)"
    using assms(1) by (auto simp: parse_fields_def split: prod.splits if_splits)
  show ?thesis
    using header_parse_append [OF a assms(2), of b] header_parse_shift [of h1 0 "length a" b] assms(2)
    by (auto simp: parse_fields_def split: prod.splits)
qed

lemma parse_fields_next:
  assumes "h_crlf h1 \<noteq> 3"
  shows "parse_fields n b h1
    = (case header_parse 0 b h1 of (k, h2) \<Rightarrow> (if k > 0 then int n + k else k, h2))"
  by (auto simp: parse_fields_def split: prod.splits)

lemma request_parse_fields:
  "h_state r \<in> {PARSER_KEY, PARSER_VALUE} \<Longrightarrow> request_parse n s r = parse_fields n s r"
  by (cases s) (auto simp: parse_fields_def)

lemma header_char_state:
  "header_char c h = (v, h1) \<Longrightarrow> h_state h \<in> {PARSER_KEY, PARSER_VALUE} \<Longrightarrow>
     h_state h1 \<in> {PARSER_KEY, PARSER_VALUE}"
  by (auto simp: header_char_def key_char_def value_char_def Let_def split: parse_state.splits if_splits)

lemma header_parse_state:
  "h_state h \<in> {PARSER_KEY, PARSER_VALUE} \<Longrightarrow> h_state (snd (header_parse n s h)) \<in> {PARSER_KEY, PARSER_VALUE}"
proof (induction s arbitrary: n h)
  case (Cons c s)
  obtain v h2 where v: "header_char c h = (v, h2)" by (cases "header_char c h")
  have "h_state h2 \<in> {PARSER_KEY, PARSER_VALUE}" using header_char_state [OF v] Cons.prems by blast
  then show ?case using Cons.IH [of h2] v by (cases v) simp_all
qed simp

lemma request_split_fields:
  assumes "h_state r \<in> {PARSER_KEY, PARSER_VALUE}" and "parse_fields n a r = (0, r1)" and "h_crlf r1 \<noteq> 3"
  shows "parse_fields n (a @ b) r = request_parse (n + length a) b r1"
proof -
  have "header_parse 0 a r = (0, r1)"
    using assms(2) by (auto simp: parse_fields_def split: prod.splits if_splits)
  then have "h_state r1 \<in> {PARSER_KEY, PARSER_VALUE}"
    using header_parse_state [OF assms(1), of 0 a] by simp
  then show ?thesis
    using parse_fields_append [OF assms(2,3)] parse_fields_next [OF assms(3)] request_parse_fields by simp
qed

lemma request_parse_append:
  "request_parse n a r = (0, r1) \<Longrightarrow> h_crlf r1 \<noteq> 3 \<Longrightarrow>
     request_parse n (a @ b) r = request_parse (n + length a) b r1"
proof (induction a arbitrary: n r)
  case (Cons c a)
  show ?case
  proof (cases "h_state r = PARSER_KEY \<or> h_state r = PARSER_VALUE")
    case True
    then show ?thesis
      using Cons.prems request_split_fields [of r n "c # a" r1 b] request_parse_fields [of r n "c # a"]
        request_parse_fields [of r n "(c # a) @ b"]
      by auto
  next
    case False
    show ?thesis
      using False Cons.prems Cons.IH request_split_fields [of "r\<lparr>h_state := PARSER_KEY\<rparr>" n "c # a" r1 b]
      by (cases "h_state r") (auto simp: Let_def split: if_splits)
  qed
qed simp

lemma request_parse_shift:
  "h_crlf r \<noteq> 3 \<Longrightarrow> request_parse (n + m) s r
     = (case request_parse m s r of (k, r1) \<Rightarrow> (if k > 0 then int n + k else k, r1))"
proof (induction s arbitrary: m r)
  case (Cons c s)
  have f: "parse_fields (n + m) (c # s) h = (case parse_fields m (c # s) h of (k, r1) \<Rightarrow>
      (if k > 0 then int n + k else k, r1))" for h :: request
    by (auto simp: parse_fields_def split: prod.splits)
  show ?case
    using Cons.prems f Cons.IH [of _ "m + 1"]
    by (cases "h_state r") (auto simp: Let_def add.assoc split: if_splits)
qed simp

section \<open>Printed requests\<close>

lemma upper_not_blank: "is_upper c \<Longrightarrow> \<not> is_blank c"
  by (auto simp: is_upper_def is_blank_def code_def)

lemma scan_method:
  "list_all is_upper m \<Longrightarrow> h_state r = FIRSTLINE_1 \<Longrightarrow>
     request_parse n (m @ s) r = request_parse (n + length m) s (r\<lparr>r_method := r_method r @ m\<rparr>)"
  by (induction m arbitrary: n r) (simp_all add: upper_not_blank)

lemma scan_uri:
  "list_all (\<lambda>c. \<not> is_blank c) u \<Longrightarrow> h_state r = FIRSTLINE_2 \<Longrightarrow>
     request_parse n (u @ s) r = request_parse (n + length u) s (r\<lparr>r_uri := r_uri r @ u\<rparr>)"
  by (induction u arbitrary: n r) simp_all

lemma scan_version:
  "list_all (\<lambda>c. \<not> is_blank c \<and> \<not> is_crlf c) v \<Longrightarrow> h_state r = FIRSTLINE_3 \<Longrightarrow> r_uri r \<noteq> [] \<Longrightarrow>
   length (h_version r @ v) \<le> MAX_VERSION_LENGTH \<Longrightarrow>
     request_parse n (v @ s) r = request_parse (n + length v) s (r\<lparr>h_version := h_version r @ v\<rparr>)"
  by (induction v arbitrary: n r) simp_all

definition request_ok :: "request \<Rightarrow> bool" where
  "request_ok r \<longleftrightarrow>
     r_method r \<noteq> [] \<and> length (r_method r) \<le> MAX_METHOD_LENGTH \<and> list_all is_upper (r_method r)
     \<and> r_uri r \<noteq> [] \<and> list_all (\<lambda>c. \<not> is_blank c) (r_uri r)
     \<and> length (h_version r) \<le> MAX_VERSION_LENGTH
     \<and> list_all (\<lambda>c. \<not> is_blank c \<and> \<not> is_crlf c) (h_version r)
     \<and> fields_ok (h_map r) \<and> list_all field_ok (h_map r)"

lemma parse_fields_read_back:
  assumes "fields_ok fs" "list_all field_ok fs" and "h_state h = PARSER_KEY" "h_crlf h = 0"
    "h_key h = []" "h_value h = []" "h_map h = []"
  shows "parse_fields n ([CR, LF] @ concat (map serialize_field fs) @ [CR, LF] @ rest) h
    = (int (n + 4 + length (concat (map serialize_field fs))), h\<lparr>h_map := fs, h_crlf := 4\<rparr>)"
  using fields_read_back [OF assms, of 0 rest] by (simp add: parse_fields_def)

lemma request_reads_back:
  assumes "request_ok r"
  shows "request_parse 0 (request_text r @ body) (request_clear g)
    = (int (length (request_text r)),
       g\<lparr>h_map := h_map r, h_version := h_version r, h_state := PARSER_KEY, h_key := [], h_value := [],
         h_crlf := 4, r_method := r_method r, r_uri := r_uri r\<rparr>)"
proof -
  note ok = assms [unfolded request_ok_def]
  let ?m = "r_method r" and ?u = "r_uri r" and ?v = "h_version r"
  let ?w = "concat (map serialize_field (h_map r))"
  let ?tail = "[CR, LF] @ ?w @ [CR, LF] @ body"
  define g0 where "g0 = g\<lparr>h_map := [], h_version := [], h_state := FIRSTLINE_1, h_key := [], h_value := [],
    h_crlf := 0, r_method := [], r_uri := []\<rparr>"
  define g1 where "g1 = g0\<lparr>h_state := FIRSTLINE_2, r_method := ?m\<rparr>"
  define g2 where "g2 = g1\<lparr>h_state := FIRSTLINE_3, r_uri := ?u\<rparr>"
  define g3 where "g3 = g2\<lparr>h_state := PARSER_KEY, h_version := ?v\<rparr>"
  have printed: "request_text r @ body = ?m @ '' '' @ ?u @ '' '' @ ?v @ ?tail"
    by (simp add: request_text_def header_serialize_def)
  have "request_clear g = g0" by (cases g) (simp add: request_clear_def header_clear_def g0_def)
  then have "request_parse 0 (request_text r @ body) (request_clear g)
      = request_parse 0 (?m @ '' '' @ ?u @ '' '' @ ?v @ ?tail) g0"
    by (simp only: printed)
  also have "\<dots> = request_parse (length ?m + 1) (?u @ '' '' @ ?v @ ?tail) g1"
    using ok scan_method [of ?m g0 0] by (cases g) (simp add: g0_def g1_def)
  also have "\<dots> = request_parse (length ?m + length ?u + 2) (?v @ ?tail) g2"
    using ok scan_uri [of ?u g1] by (cases g) (simp add: g0_def g1_def g2_def add.commute)
  also have "\<dots> = parse_fields (length ?m + length ?u + 2 + length ?v) ?tail g3"
    using ok scan_version [of ?v g2] by (cases g) (simp add: g0_def g1_def g2_def g3_def)
  also have "\<dots> = (int (length ?m + length ?u + 2 + length ?v + 4 + length ?w), g3\<lparr>h_map := h_map r, h_crlf := 4\<rparr>)"
    using ok by (intro parse_fields_read_back) (simp_all add: g0_def g1_def g2_def g3_def)
  finally show ?thesis
    by (cases g) (simp add: g0_def g1_def g2_def g3_def request_text_def header_serialize_def)
qed

section \<open>Printed responses\<close>

lemma digit_chars: "is_digit c \<Longrightarrow> \<not> is_blank c \<and> \<not> is_crlf c"
  by (auto simp: is_digit_def is_blank_def is_crlf_def CR_def LF_def code_def)

lemma scan_response_version:
  "list_all (\<lambda>c. \<not> is_blank c \<and> \<not> is_crlf c) v \<Longrightarrow> h_state r = FIRSTLINE_1 \<Longrightarrow>
   length (h_version r @ v) \<le> MAX_VERSION_LENGTH \<Longrightarrow>
     response_parse n (v @ s) r = response_parse (n + length v) s (r\<lparr>h_version := h_version r @ v\<rparr>)"
  by (induction v arbitrary: n r) simp_all

lemma scan_status:
  "list_all is_digit d \<Longrightarrow> h_state r = FIRSTLINE_2 \<Longrightarrow>
     response_parse n (d @ s) r = response_parse (n + length d) s
       (r\<lparr>s_status_for_parser := foldl (\<lambda>x c. x * 10 + of_nat (digit c)) (s_status_for_parser r) d\<rparr>)"
  by (induction d arbitrary: n r) (simp_all add: digit_chars)

lemma scan_reason:
  "list_all (\<lambda>c. \<not> is_crlf c) t \<Longrightarrow> h_state r = FIRSTLINE_3 \<Longrightarrow>
   s_reason r \<noteq> [] \<or> t = [] \<or> \<not> is_blank (hd t) \<Longrightarrow> length (s_reason r @ t) \<le> MAX_VALUE_LENGTH \<Longrightarrow>
     response_parse n (t @ s) r = response_parse (n + length t) s (r\<lparr>s_reason := s_reason r @ t\<rparr>)"
  by (induction t arbitrary: n r) auto

lemma status_digits: "foldl (\<lambda>x c. x * 10 + of_nat (digit c)) (of_nat k) d
    = (of_nat (foldl (\<lambda>n c. 10 * n + digit c) k d) :: u32)"
proof (induction d arbitrary: k)
  case (Cons c d)
  have "of_nat k * 10 + of_nat (digit c) = (of_nat (10 * k + digit c) :: u32)" by simp
  then show ?case using Cons.IH [of "10 * k + digit c"] by (simp only: foldl.simps)
qed simp

lemma reasons_printable:
  "list_all (\<lambda>p. list_all (\<lambda>c. \<not> is_crlf c) (snd p) \<and> \<not> is_blank (hd (snd p)) \<and> length (snd p) \<le> 40)
     reason_table"
  by code_simp

lemma reason_ok:
  "list_all (\<lambda>c. \<not> is_crlf c) (reason_for_status s)
   \<and> (reason_for_status s = [] \<or> \<not> is_blank (hd (reason_for_status s)))
   \<and> length (reason_for_status s) \<le> MAX_VALUE_LENGTH"
proof (cases "map_of reason_table (sint s)")
  case (Some t)
  then have "(sint s, t) \<in> set reason_table" by (rule map_of_SomeD)
  then show ?thesis
    using reasons_printable Some by (auto simp: reason_for_status_def list_all_iff MAX_VALUE_LENGTH_def)
qed (simp add: reason_for_status_def)

definition response_ok :: "response \<Rightarrow> bool" where
  "response_ok r \<longleftrightarrow>
     length (h_version r) = MAX_VERSION_LENGTH
     \<and> list_all (\<lambda>c. \<not> is_blank c \<and> \<not> is_crlf c) (h_version r)
     \<and> 0 < s_status r \<and> s_status r < 2 ^ 31
     \<and> fields_ok (h_map r) \<and> list_all field_ok (h_map r)"

lemma response_reads_back:
  assumes "response_ok r"
  shows "response_parse 0 (response_serialize r @ body) (response_clear g)
    = (int (length (response_serialize r)),
       g\<lparr>h_map := h_map r, h_version := h_version r, h_state := PARSER_KEY, h_key := [], h_value := [],
         h_crlf := 4, s_status_for_parser := s_status r, s_status := s_status r,
         s_reason := reason_for_status (s_status r)\<rparr>)"
proof -
  note ok = assms [unfolded response_ok_def]
  let ?v = "h_version r" and ?t = "reason_for_status (s_status r)"
  define d where "d = show_decimal (unat (s_status r))"
  let ?w = "concat (map serialize_field (h_map r))"
  let ?tail = "[CR, LF] @ ?w @ [CR, LF] @ body"
  define g0 where "g0 = g\<lparr>h_map := [], h_version := [], h_state := FIRSTLINE_1, h_key := [], h_value := [],
    h_crlf := 0, s_status_for_parser := 0, s_status := 0, s_reason := []\<rparr>"
  define g1 where "g1 = g0\<lparr>h_state := FIRSTLINE_2, h_version := ?v\<rparr>"
  define g2 where "g2 = g1\<lparr>h_state := FIRSTLINE_3, s_status_for_parser := s_status r, s_status := s_status r\<rparr>"
  define g3 where "g3 = g2\<lparr>h_state := PARSER_KEY, s_reason := ?t\<rparr>"
  have ver: "?v \<noteq> []" "s_status r \<noteq> 0" using ok by (auto simp: MAX_VERSION_LENGTH_def)
  have pos: "sint (s_status r) = uint (s_status r)"
  proof -
    have "uint (s_status r) < 2 ^ 31" using ok by (simp add: word_less_def)
    moreover have "0 \<le> uint (s_status r)" by (rule unsigned_greater_eq)
    ultimately have "signed_take_bit 31 (uint (s_status r)) = uint (s_status r)"
      by (intro signed_take_bit_int_eq_self) linarith+
    then show ?thesis by (simp add: sint_uint)
  qed
  then have show_status: "show_int (sint (s_status r)) = d" by (simp add: show_int_def d_def not_less)
  have printed: "response_serialize r @ body = ?v @ '' '' @ d @ '' '' @ ?t @ ?tail"
    by (simp add: response_serialize_def header_serialize_def show_status)
  have digits: "list_all is_digit d" using show_decimal_digits by (simp add: d_def list_all_iff)
  have "foldl (\<lambda>n c. 10 * n + digit c) 0 d = unat (s_status r)"
    using decimal_show [of "unat (s_status r)"] by (simp add: decimal_def d_def)
  then have val: "foldl (\<lambda>x c. x * 10 + of_nat (digit c)) 0 d = s_status r"
    using status_digits [of 0 d] by simp
  have "response_clear g = g0" by (cases g) (simp add: response_clear_def header_clear_def g0_def)
  then have "response_parse 0 (response_serialize r @ body) (response_clear g)
      = response_parse 0 (?v @ '' '' @ d @ '' '' @ ?t @ ?tail) g0"
    by (simp only: printed)
  also have "\<dots> = response_parse (length ?v + 1) (d @ '' '' @ ?t @ ?tail) g1"
    using ok ver scan_response_version [of ?v g0 0] by (cases g) (simp add: g0_def g1_def MAX_VERSION_LENGTH_def)
  also have "\<dots> = response_parse (length ?v + length d + 2) (?t @ ?tail) g2"
    using ok ver scan_status [OF digits, of g1] val by (cases g) (simp add: g0_def g1_def g2_def add.commute)
  also have "\<dots> = parse_fields (length ?v + length d + 2 + length ?t) ?tail g3"
    using reason_ok [of "s_status r"] scan_reason [of ?t g2] by (cases g) (simp add: g0_def g1_def g2_def g3_def)
  also have "\<dots> = (int (length ?v + length d + 2 + length ?t + 4 + length ?w), g3\<lparr>h_map := h_map r, h_crlf := 4\<rparr>)"
    using ok by (intro parse_fields_read_back) (simp_all add: g0_def g1_def g2_def g3_def)
  finally show ?thesis
    by (cases g) (simp add: g0_def g1_def g2_def g3_def response_serialize_def header_serialize_def show_status)
qed

end
