(* ===== verification/Http_Theorems.thy ===== *)
theory Http_Theorems
  imports Http_Parse
begin

text \<open>Properties of HTTP messages: printed messages parse back, pieces parse as the whole, the
  fields are a map that does not tell cases apart, and what fields with a structure read back.\<close>

section \<open>Fields of a header\<close>

lemma get_set:
  "fields_ok (h_map h) \<Longrightarrow> get_or k d (set_field_value j v h) = (if folded k = folded j then v else get_or k d h)"
  by (simp add: get_or_def set_field_value_def names.find_assign)

lemma get_erase:
  "fields_ok (h_map h) \<Longrightarrow> get_or k d (erase_field j h) = (if folded k = folded j then d else get_or k d h)"
  by (simp add: get_or_def erase_field_def names.find_erase)

lemma set_ok: "fields_ok (h_map h) \<Longrightarrow> fields_ok (h_map (set_field_value j v h))"
  by (simp add: set_field_value_def names.assign_sound)

lemma erase_field_ok: "fields_ok (h_map h) \<Longrightarrow> fields_ok (h_map (erase_field j h))"
  by (simp add: erase_field_def names.erase_sound)

lemma header_char_fields:
  "header_char c h = (v, h1) \<Longrightarrow> fields_ok (h_map h) \<Longrightarrow> fields_ok (h_map h1)"
  by (auto simp: header_char_def key_char_def value_char_def Let_def insert_ok
      split: parse_state.splits if_splits)

lemma header_parse_ok: "fields_ok (h_map h) \<Longrightarrow> fields_ok (h_map (snd (header_parse n s h)))"
proof (induction s arbitrary: n h)
  case (Cons c s)
  obtain v h2 where v: "header_char c h = (v, h2)" by (cases "header_char c h")
  show ?case using header_char_fields [OF v] Cons v by (cases v) simp_all
qed simp

text \<open>The fields of a header are a map that does not tell upper and lower case apart: after a
  field is set, its name in any case gives the new value and every other name what it gave
  before; after it is erased the name gives the default. Setting, erasing and parsing keep the
  order of the container that this rests on.\<close>
lemma header_refines_name_map:
  assumes "fields_ok (h_map h)"
  shows "get_or k d (set_field_value j v h) = (if folded k = folded j then v else get_or k d h)
    \<and> get_or k d (erase_field j h) = (if folded k = folded j then d else get_or k d h)
    \<and> fields_ok (h_map (set_field_value j v h)) \<and> fields_ok (h_map (erase_field j h))
    \<and> fields_ok (h_map (snd (header_parse n s h)))"
  using assms by (simp add: get_set get_erase set_ok erase_field_ok header_parse_ok)

text \<open>Keeping a connection alive is not understood: the atom that should name it is the empty
  string. A header that was told to keep the connection of an HTTP/1.0 message alive says that it
  is to be closed, and the usual field with which a peer asks for it is read as a wish to close,
  in every version.\<close>
lemma keep_alive_not_understood:
  assumes "fields_ok (h_map h)"
  shows "get_keep_alive (set_keep_alive True timeout max_request h) = (h_version h = ''HTTP/1.1'')
    \<and> \<not> get_keep_alive (set_field_value ''Connection'' ''keep-alive'' h)"
proof -
  have names: "folded ''Connection'' \<noteq> folded CONNECTION_KEEP_ALIVE"
    "folded ''keep-alive'' \<noteq> folded CONNECTION_KEEP_ALIVE"
    by code_simp+
  have v: "h_version (set_field_value j v h) = h_version h" for j v and h :: "'a header_scheme"
    by (simp add: set_field_value_def)
  have "get_field_value ''Connection'' (set_keep_alive True timeout max_request h) = []"
    using names(1) assms
    by (simp add: get_field_value_def set_keep_alive_def get_set set_ok CONNECTION_KEEP_ALIVE_def)
  then show ?thesis
    using names(2) assms
    by (simp add: get_keep_alive_def get_field_value_def get_set set_keep_alive_def v)
qed

section \<open>Messages\<close>

text \<open>C38: A request that is printed (the printing asserts that it has a host) parses back: the parser
  of a cleared request stops exactly at the end of the message, whatever follows it, and has the
  method, the URI, the version and all fields of the original. The conditions, \<open>request_ok\<close>, are
  those of what the parser accepts: a method of 1 to 32 upper-case letters, a URI that is not
  empty and has no blank, a version of at most 8 characters without blanks and line breaks;
  the fields in order, no two names equal but for case, as the map keeps them; each name of fewer than
  64 characters, not empty, without blanks, colons and line breaks; each value not empty, not beginning with a
  blank, and without line breaks.\<close>
theorem request_print_parse:
  assumes "request_ok r" and "request_serialize r = Some msg"
  shows "\<exists>q. request_parse 0 (msg @ body) (request_clear g) = (int (length msg), q)
    \<and> r_method q = r_method r \<and> r_uri q = r_uri r \<and> h_version q = h_version r \<and> h_map q = h_map r"
  using request_reads_back [OF assms(1), of body g] assms(2)
  by (simp add: request_serialize_def split: if_splits)

definition example_request_message :: request where
  "example_request_message = set_field_value ''Host'' ''a.com'' (request_new ''HTTP/1.1'')"

theorem request_print_parse_witness:
  "\<exists>msg q. request_serialize example_request_message = Some msg
    \<and> request_parse 0 (msg @ ''body'') (request_clear example_request_message) = (int (length msg), q)
    \<and> r_method q = ''GET''"
proof -
  have "list_all field_ok (h_map example_request_message) \<and> fields_ok (h_map example_request_message)"
    by (simp add: example_request_message_def set_field_value_def request_new_def header_new_def
        header.extend_def) code_simp
  then have "request_ok example_request_message"
    unfolding request_ok_def by (intro conjI) (simp_all, code_simp+)
  moreover have "r_method example_request_message = ''GET''" by code_simp
  moreover have "get_host example_request_message \<noteq> []" by code_simp
  then obtain msg where "request_serialize example_request_message = Some msg"
    by (simp add: request_serialize_def)
  ultimately show ?thesis
    using request_print_parse [of example_request_message msg "''body''" example_request_message] by metis
qed

text \<open>A response that is printed parses back in the same way: version, status and all fields
  are those of the original, and the reason is the one of the status.\<close>
lemma response_print_parse:
  assumes "response_ok r"
  shows "\<exists>q. response_parse 0 (response_serialize r @ body) (response_clear g)
        = (int (length (response_serialize r)), q)
    \<and> h_version q = h_version r \<and> s_status q = s_status r \<and> h_map q = h_map r
    \<and> s_reason q = reason_for_status (s_status r)"
  using response_reads_back [OF assms, of body g] by simp

definition example_response :: response where
  "example_response = set_content_length 5 (response_new\<lparr>s_status := 404\<rparr>)"

text \<open>A request that arrives in pieces parses as in one piece: when the parser has taken a
  first part and asks for more, giving it the second part leaves the same request and the same
  result as giving it both at once (counted from the beginning). The one exception is a piece
  that ends after three line-break characters in a row.\<close>
lemma request_in_pieces:
  assumes "request_parse 0 a r = (0, r1)" and "h_crlf r1 \<noteq> 3"
  shows "request_parse 0 (a @ b) r
    = (case request_parse 0 b r1 of (k, r2) \<Rightarrow> (if k > 0 then int (length a) + k else k, r2))"
  using request_parse_append [OF assms, of b] request_parse_shift [OF assms(2), of "length a" 0 b] by simp

definition half_request :: request where
  "half_request = request_new ''HTTP/1.1''\<lparr>h_version := ''HT'', h_state := FIRSTLINE_3, r_uri := ''/a''\<rparr>"

lemma half_request_parsed: "request_parse 0 ''GET /a HT'' (request_clear example_request_message) = (0, half_request)"
  by code_simp

lemma other_half_parsed: "fst (request_parse 0 (''TP/1.1'' @ [CR, LF, CR, LF]) half_request) = 10"
  by code_simp

lemma both_halves: "''GET /a HTTP/1.1'' @ [CR, LF, CR, LF] = ''GET /a HT'' @ ''TP/1.1'' @ [CR, LF, CR, LF]"
  by simp

lemma fst_pieces: "p = (case q of (k, x) \<Rightarrow> (if k > 0 then m + k else k, x)) \<Longrightarrow> fst q = 10 \<Longrightarrow> fst p = m + (10 :: int)"
  by (cases q) simp

section \<open>Fields with a structure\<close>

lemma digits_facts: "c \<in> set (show_decimal n) \<Longrightarrow> is_digit c"
  using show_decimal_digits by blast

lemma digit_not: "is_digit c \<Longrightarrow> \<not> is_space c \<and> c \<noteq> CHR ''-'' \<and> c \<noteq> CHR ''+'' \<and> c \<noteq> CHR 0x00 \<and> c \<noteq> CHR '':''"
  by (auto simp: is_digit_def is_space_def code_def)

lemma takeWhile_digits:
  assumes "t = [] \<or> \<not> is_digit (hd t)"
  shows "takeWhile is_digit (show_decimal n @ t) = show_decimal n"
    and "dropWhile is_digit (show_decimal n @ t) = t"
  using assms digits_facts [of _ n]
  by (auto simp: takeWhile_append2 dropWhile_append2 takeWhile_eq_Nil_iff dropWhile_eq_self_iff)

lemma scan_shown:
  assumes "t = [] \<or> \<not> is_digit (hd t)"
  shows "scan_number (show_decimal n @ t) = Some (int n, t)"
proof -
  obtain c u where cu: "show_decimal n = c # u" by (cases "show_decimal n") auto
  then have c: "\<not> is_space c" "c \<noteq> CHR ''-''" "c \<noteq> CHR ''+''"
    using digits_facts [of c n] digit_not [of c] by simp_all
  have "dropWhile is_space (show_decimal n @ t) = show_decimal n @ t" using cu c by simp
  moreover have "\<not> starts ''-'' (show_decimal n @ t)" "\<not> starts ''+'' (show_decimal n @ t)"
    using cu c by (simp_all add: starts_def)
  ultimately show ?thesis
    using takeWhile_digits [OF assms, of n] by (simp add: scan_number_def decimal_show)
qed

lemma shown_not_nul: "CHR 0x00 \<notin> set (show_decimal n)"
  using digits_facts digit_not by blast

lemma scan_pair_at:
  assumes "c_str s = s" and "dropWhile (\<lambda>x. \<not> is_digit x) s = r" and "length r \<noteq> length s"
    and "scan_number r = Some (a, ''-'' @ t)" and "in_int64 a"
  shows "scan_pair s = (case scan_number t of None \<Rightarrow> Some (a, - 1)
    | Some (b, _) \<Rightarrow> if in_int64 b then Some (a, b) else None)"
  using assms by (simp add: scan_pair_def starts_def)

lemma scan_pair_shown:
  assumes p: "p \<noteq> []" "list_all (\<lambda>c. \<not> is_digit c \<and> c \<noteq> CHR 0x00) p" and n: "n < 2 ^ 63"
    and t: "CHR 0x00 \<notin> set t"
  shows "scan_pair (p @ show_decimal n @ ''-'' @ t)
    = (case scan_number t of None \<Rightarrow> Some (int n, - 1)
       | Some (b, _) \<Rightarrow> if in_int64 b then Some (int n, b) else None)"
proof -
  let ?s = "p @ show_decimal n @ ''-'' @ t"
  let ?r = "show_decimal n @ ''-'' @ t"
  have "CHR 0x00 \<notin> set p" using p(2) by (auto simp: list_all_iff)
  then have c: "c_str ?s = ?s" using t shown_not_nul by (intro c_str_id) simp
  obtain d u where "show_decimal n = d # u" by (cases "show_decimal n") auto
  then have "dropWhile (\<lambda>x. \<not> is_digit x) ?r = ?r" using digits_facts [of d n] by simp
  moreover have "dropWhile (\<lambda>x. \<not> is_digit x) (p @ ?r) = dropWhile (\<lambda>x. \<not> is_digit x) ?r"
    using p(2) by (intro dropWhile_append2) (auto simp: list_all_iff)
  ultimately have d: "dropWhile (\<lambda>x. \<not> is_digit x) ?s = ?r" by simp
  have minus: "\<not> is_digit (CHR ''-'')" using digit_not by blast
  have "scan_number ?r = Some (int n, ''-'' @ t)" using minus by (intro scan_shown) simp
  moreover have "in_int64 (int n)" using n by (simp add: in_int64_def)
  ultimately show ?thesis using p(1) by (intro scan_pair_at [OF c d]) simp_all
qed

lemma scan_ends: "scan_number [] = None"
  by (simp add: scan_number_def starts_def)

text \<open>Ranges and credentials read back as they were set. A range without an end reads back
  with the end -1.\<close>
lemma ranges_credentials_read_back:
  assumes "0 \<le> a" "a < 2 ^ 63" "0 \<le> b" "b < 2 ^ 63" and "fields_ok (h_map q)" "fields_ok (h_map p)"
    and "scheme \<noteq> []" "list_all (\<lambda>c. \<not> is_space c) scheme" "info = [] \<or> \<not> is_space (hd info)"
  shows "get_range (set_range a b q) = Some (a, if a \<le> b then b else - 1)
    \<and> get_content_range (set_content_range a b whole p) = Some (a, b)
    \<and> get_credentials (set_credentials scheme info q) = (scheme, info)"
proof (intro conjI)
  have sh: "show_int a = show_decimal (nat a)" "show_int b = show_decimal (nat b)"
    using assms(1,3) by (simp_all add: show_int_def)
  have ab: "int (nat a) = a" "int (nat b) = b" "nat a < 2 ^ 63" "in_int64 b"
    using assms(1-4) by (simp_all add: in_int64_def)
  have bytes: "list_all (\<lambda>c. \<not> is_digit c \<and> c \<noteq> CHR 0x00) ''bytes=''"
    "list_all (\<lambda>c. \<not> is_digit c \<and> c \<noteq> CHR 0x00) ''bytes ''"
    by code_simp+
  have "scan_pair (''bytes='' @ show_decimal (nat a) @ ''-'') = Some (a, - 1)"
    using scan_pair_shown [OF _ bytes(1) ab(3), of "[]"] ab(1) by (simp add: scan_ends)
  moreover have "scan_pair (''bytes='' @ show_decimal (nat a) @ ''-'' @ show_decimal (nat b)) = Some (a, b)"
    using scan_pair_shown [OF _ bytes(1) ab(3), of "show_decimal (nat b)"] scan_shown [of "[]" "nat b"] ab
      shown_not_nul
    by simp
  ultimately show "get_range (set_range a b q) = Some (a, if a \<le> b then b else - 1)"
    using assms(1,5) by (simp add: get_range_def set_range_def get_field_value_def get_set sh)
  have "CHR 0x00 \<notin> set (show_int whole)" using shown_not_nul by (simp add: show_int_def)
  moreover have "\<not> is_digit (CHR ''/'')" by code_simp
  ultimately have "scan_pair (''bytes '' @ show_decimal (nat a) @ ''-'' @ show_decimal (nat b) @ ''/'' @ show_int whole)
      = Some (a, b)"
    using scan_pair_shown [OF _ bytes(2) ab(3), of "show_decimal (nat b) @ ''/'' @ show_int whole"]
      scan_shown [of "''/'' @ show_int whole" "nat b"] ab shown_not_nul
    by simp
  then show "get_content_range (set_content_range a b whole p) = Some (a, b)"
    using assms(6) by (simp add: get_content_range_def set_content_range_def get_field_value_def get_set sh)
  have "dropWhile is_space info = info" using assms(9) by (cases info) simp_all
  moreover have "dropWhile is_space (scheme @ '' '' @ info) = scheme @ '' '' @ info"
    using assms(7,8) by (cases scheme) simp_all
  moreover have "is_space (CHR '' '')" by code_simp
  ultimately show "get_credentials (set_credentials scheme info q) = (scheme, info)"
    using assms(5,8)
    by (simp add: get_credentials_def set_credentials_def get_field_value_def get_set list_all_iff
        takeWhile_append2 dropWhile_append2)
qed

lemma credentials_example: "fields_ok (h_map example_request_message) \<and> fields_ok (h_map example_response)"
  unfolding fields_ok_def by (intro conjI) code_simp+

text \<open>The port of a host is lost: it is appended to the name without a colon, so a request that
  was given a port other than 80 answers 80; and a port that a peer did send with its colon is read
  from the third character of the field on, wherever the colon is.\<close>
lemma host_port_lost:
  assumes "fields_ok (h_map r)" and "CHR '':'' \<notin> set h"
  shows "get_port (set_host_port h p r) = Some 80 \<and> get_port (set_host ''a.com:8080'' r) = Some 0"
proof
  have "CHR '':'' \<notin> set (show_decimal (unat p))" using digits_facts digit_not by blast
  then show "get_port (set_host_port h p r) = Some 80"
    using assms
    by (simp add: get_port_def set_host_port_def set_host_def get_host_def get_field_value_def get_set)
  have "c_atoi (drop 2 ''a.com:8080'') = Some 0" by code_simp
  then show "get_port (set_host ''a.com:8080'' r) = Some 0"
    using assms(1)
    by (simp add: get_port_def set_host_def get_host_def get_field_value_def get_set numeral_2_eq_2)
qed

text \<open>A response that was made and not cleared holds its own version already, and refuses the first
  character of a message.\<close>

lemma fresh_response_refuses:
  "\<not> is_blank c \<Longrightarrow> fst (response_parse 0 (c # s) response_new) = - 1"
  by (simp add: response_new_def header_new_def header.extend_def MAX_VERSION_LENGTH_def)

end
