(* ===== verification/Trdp_Flow.thy ===== *)
theory Trdp_Flow
  imports Urdp_Process
begin

text \<open>\<open>p2engine/rdp/trdp_flow\<close>: the same service as a URDP flow, over one TCP connection.
  Packets are framed by a two-byte length, an id for the loss estimate and a type; an active flow
  asks for a domain, a passive one answers; one write is in flight and the rest is queued.

  Asynchronous operations of the socket, posted handlers and calls of the owner are effects
  appended to \<open>tf_outs\<close>. A coroutine is one definition for each point it is resumed at, with what
  the operation returned as arguments. The owner's callbacks run inside the handlers and may call
  the flow: \<open>user\<close> is what they do to it.\<close>

section \<open>State\<close>

datatype trdp_state = T_INIT | T_OPENED | T_CONNECTING | T_CONNECTED | T_CLOSED

fun trdp_rank :: "trdp_state \<Rightarrow> nat" where
  "trdp_rank T_INIT = 0"
| "trdp_rank T_OPENED = 1"
| "trdp_rank T_CONNECTING = 2"
| "trdp_rank T_CONNECTED = 3"
| "trdp_rank T_CLOSED = 4"

datatype t_recv_state = RECVING | RECVED

datatype t_error = T_success | T_in_progress | T_not_connected | T_timed_out | T_connection_refused
  | T_connection_aborted | T_fault | T_already_open | T_io nat

definition CONN_PKT :: byte where "CONN_PKT = 0x61"
definition ACCEPT_PKT :: byte where "ACCEPT_PKT = 0x62"
definition PING_PKT :: byte where "PING_PKT = 0x63"
definition PONG_PKT :: byte where "PONG_PKT = 0x64"
definition DATA_PKT :: byte where "DATA_PKT = 0x65"

definition MAX_TIME :: tick where "MAX_TIME = 2 ^ 63 - 1"

record send_emlment =
  se_buf :: bytes
  se_outTime :: tick
  se_msgType :: u16
  se_alertWritable :: bool

datatype t_operation =
    Read_domain_length
  | Read_domain nat
  | Read_length
  | Read_packet nat
  | Resolve_host string
  | Connect_to "u32 \<times> u16" "u32 list"
  | Write_request bytes
  | Read_reply
  | Write_packet bytes bool

datatype t_notice = N_connected t_error | N_disconnected t_error | N_received bytes | N_writeable
  | N_accepted

datatype t_effect =
    Async t_operation op_stamp_t
  | Post_to_close t_error op_stamp_t
  | Post_connected t_error op_stamp_t
  | Notify t_notice
  | Shutdown_socket
  | Close_socket

text \<open>The connection timer: what it is bound to, and when it runs out.\<close>

datatype timer_action = Do_close | Do_to_close t_error op_stamp_t

record conn_timer =
  ct_action :: "timer_action option"
  ct_deadline :: "tick option"

record trdp_flow =
  tf_mark :: operation_mark
  tf_state :: trdp_state
  tf_recv_state :: t_recv_state
  tf_connection :: bool
  tf_open :: bool
  tf_passive :: bool
  tf_recv_blocked :: bool
  tf_recv_buf :: bytes
  tf_conn_timer :: "conn_timer option"
  tf_ping_timer :: "(tick \<times> tick) option option"
  tf_ping_interval :: tick
  tf_srtt :: int
  tf_rttvar :: int
  tf_rto :: int
  tf_send_bufs :: "send_emlment list"
  tf_sending :: bool
  tf_qued_sending_size :: int
  tf_flowid :: u32
  tf_domain :: bytes
  tf_remote_host :: string
  tf_remote_edp :: "u32 \<times> u16"
  tf_recvd_marks :: "(byte \<times> tick) list"
  tf_send_marks :: "(byte \<times> tick) list"
  tf_r2l_lost_rate :: rat
  tf_l2r_lost_rate :: rat
  tf_id_for_lost_rate :: byte
  tf_in_meter :: speed_meter
  tf_out_meter :: speed_meter
  tf_stats :: trafic_statistics
  tf_clock :: tick
  tf_rng :: rng
  tf_big :: bool
  tf_null :: bool
  tf_outs :: "t_effect list"

definition t_emit :: "t_effect \<Rightarrow> trdp_flow \<Rightarrow> trdp_flow" where
  "t_emit e f = f\<lparr>tf_outs := tf_outs f @ [e]\<rparr>"

definition t_stamp :: "trdp_flow \<Rightarrow> op_stamp_t" where
  "t_stamp f = om_stamp (tf_mark f)"

definition t_stopped :: "op_stamp_t \<Rightarrow> trdp_flow \<Rightarrow> bool" where
  "t_stopped stamp f = (is_canceled_op stamp (tf_mark f) \<or> tf_state f = T_CLOSED)"

text \<open>The operations on the connection timer; using it after it was reset is a null pointer.\<close>

definition conn_timer_cancel :: "trdp_flow \<Rightarrow> trdp_flow" where
  "conn_timer_cancel f =
     (case tf_conn_timer f of
        None \<Rightarrow> f\<lparr>tf_null := True\<rparr>
      | Some t \<Rightarrow> f\<lparr>tf_conn_timer := Some (t\<lparr>ct_deadline := None\<rparr>)\<rparr>)"

definition conn_timer_clear :: "trdp_flow \<Rightarrow> trdp_flow" where
  "conn_timer_clear f =
     (case tf_conn_timer f of
        None \<Rightarrow> f\<lparr>tf_null := True\<rparr>
      | Some t \<Rightarrow> f\<lparr>tf_conn_timer := Some (t\<lparr>ct_action := None\<rparr>)\<rparr>)"

definition conn_timer_start :: "timer_action \<Rightarrow> tick \<Rightarrow> trdp_flow \<Rightarrow> trdp_flow" where
  "conn_timer_start a ms f =
     (case tf_conn_timer f of
        None \<Rightarrow> f\<lparr>tf_null := True\<rparr>
      | Some t \<Rightarrow> f\<lparr>tf_conn_timer := Some \<lparr>ct_action = Some a, ct_deadline = Some (tf_clock f + ms)\<rparr>\<rparr>)"

text \<open>\<open>__init\<close>.\<close>

definition trdp_init :: "trdp_flow \<Rightarrow> trdp_flow" where
  "trdp_init f =
     (let (i, r) = range_random 0 (uint INVALID_FLOWID) (tf_rng f)
      in f\<lparr>tf_mark := next_op_stamp (set_cancel (tf_mark f)), tf_srtt := 0, tf_flowid := word_of_int i,
           tf_rng := r, tf_connection := False, tf_sending := False, tf_qued_sending_size := 0,
           tf_send_bufs := [], tf_recv_state := RECVED,
           tf_state := (if tf_passive f then T_OPENED else T_INIT), tf_ping_interval := 15000,
           tf_conn_timer := (case tf_conn_timer f of
               None \<Rightarrow> Some \<lparr>ct_action = None, ct_deadline = None\<rparr>
             | Some t \<Rightarrow> Some (t\<lparr>ct_deadline := None\<rparr>)),
           tf_ping_timer := Some None\<rparr>)"

text \<open>The constructor. What it does not assign keeps the value of the argument. The socket of a
  passive flow is the one the layer accepts into it.\<close>

definition trdp_construct :: "bool \<Rightarrow> trdp_flow \<Rightarrow> trdp_flow" where
  "trdp_construct passive mem =
     trdp_init (mem\<lparr>tf_mark := operation_mark_new, tf_passive := passive, tf_recv_blocked := True,
       tf_sending := False, tf_r2l_lost_rate := -1, tf_l2r_lost_rate := -1, tf_id_for_lost_rate := 0,
       tf_in_meter := speed_meter_new 2000, tf_out_meter := speed_meter_new 2000,
       tf_conn_timer := None, tf_ping_timer := None, tf_open := passive, tf_recv_buf := [],
       tf_send_bufs := [], tf_recvd_marks := [], tf_send_marks := [], tf_null := False, tf_outs := []\<rparr>)"

section \<open>Loss rates\<close>

definition t_marks_full :: "(byte \<times> tick) list \<Rightarrow> bool" where
  "t_marks_full qm = (length qm \<ge> 126)"

definition t_marks_old :: "tick \<Rightarrow> (byte \<times> tick) list \<Rightarrow> bool" where
  "t_marks_old now qm = (snd (hd qm) + 3000 < now)"

definition t_marks_folded :: "(byte \<times> tick) list \<Rightarrow> bool" where
  "t_marks_folded qm = (length qm > 1 \<and> wrappable_minus (fst (last qm)) (fst (hd qm)) \<le> 0)"

definition t_marks_around :: "byte option \<Rightarrow> (byte \<times> tick) list \<Rightarrow> bool" where
  "t_marks_around mid qm =
     (case mid of None \<Rightarrow> False
      | Some i \<Rightarrow> wrappable_greater_equal (fst (hd qm)) i \<and> wrappable_greater_equal i (fst (last qm)))"

definition t_marks_behind :: "byte option \<Rightarrow> (byte \<times> tick) list \<Rightarrow> bool" where
  "t_marks_behind mid qm = (case mid of None \<Rightarrow> False | Some i \<Rightarrow> wrappable_minus i (fst (hd qm)) < 0)"

fun t_drop_marks :: "((byte \<times> tick) list \<Rightarrow> bool) \<Rightarrow> (byte \<times> tick) list \<Rightarrow> (byte \<times> tick) list" where
  "t_drop_marks stale [] = []"
| "t_drop_marks stale (m # ms) = (if stale (m # ms) then t_drop_marks stale ms else m # ms)"

definition t_insert_mark :: "byte option \<Rightarrow> tick \<Rightarrow> (byte \<times> tick) list \<Rightarrow> (byte \<times> tick) list" where
  "t_insert_mark mid now qm =
     (case mid of None \<Rightarrow> qm
      | Some i \<Rightarrow> oset_insert (\<lambda>a b. wrappable_less (fst a) (fst b)) (i, now) qm)"

text \<open>The estimate from \<open>n\<close> marks in a span of \<open>cnt\<close>.\<close>

definition t_smooth :: "int \<Rightarrow> nat \<Rightarrow> rat \<Rightarrow> rat" where
  "t_smooth cnt n old =
     (if cnt \<ge> int n
      then let lost = 1 - of_nat n / of_int cnt
           in (if old < 0 then lost else old * (125 / 1000) + lost * (875 / 1000))
      else if old < 0 then 0 else old)"

definition t_clip :: "rat \<Rightarrow> rat" where
  "t_clip r = (let r1 = (if r < 0 then 0 else r) in if r1 > 1 then 1 else r1)"

definition t_remote_to_local_lost_rate :: "byte option \<Rightarrow> trdp_flow \<Rightarrow> rat \<times> trdp_flow" where
  "t_remote_to_local_lost_rate mid f =
     (if tf_state f \<noteq> T_CONNECTED then (1, f)
      else
        let now = tf_clock f;
            old = tf_r2l_lost_rate f;
            qm1 = t_drop_marks (\<lambda>qm. t_marks_full qm \<or> t_marks_old now qm \<or> t_marks_folded qm
                    \<or> t_marks_behind mid qm \<or> t_marks_around mid qm) (tf_recvd_marks f);
            qm2 = t_insert_mark mid now qm1;
            calc = (mid \<noteq> None \<or> length qm1 < length (tf_recvd_marks f));
            r1 = (if \<not> calc then old
                  else if qm2 = [] then 0
                  else t_smooth (wrappable_minus (fst (last qm2)) (fst (hd qm2)) + 1) (length qm2) old);
            rate = t_clip r1;
            f1 = f\<lparr>tf_recvd_marks := qm2, tf_r2l_lost_rate := rate\<rparr>
        in if calc \<or> old \<noteq> rate
           then
             let (s, im) = bytes_per_second now (tf_in_meter f1);
                 (g, gm) = bytes_per_second now (ts_r2l_meter (tf_stats f1));
                 a = unit_clip (max 200 s / (g + 1));
                 st = (tf_stats f1)\<lparr>ts_r2l_meter := gm\<rparr>
             in (rate, f1\<lparr>tf_in_meter := im,
                   tf_stats := set_remote_to_local_lost_rate
                     (blend (get_remote_to_local_lost_rate st) rate a) st\<rparr>)
           else (rate, f1))"

definition t_local_to_remote_lost_rate :: "byte option \<Rightarrow> trdp_flow \<Rightarrow> rat \<times> trdp_flow" where
  "t_local_to_remote_lost_rate mid f =
     (if tf_state f \<noteq> T_CONNECTED then (1, f)
      else
        let now = tf_clock f;
            self = tf_id_for_lost_rate f;
            qm1 = t_drop_marks (\<lambda>qm. t_marks_full qm \<or> t_marks_folded qm \<or> t_marks_behind mid qm
                    \<or> (mid = None \<and> wrappable_minus self (fst (hd qm)) < 0)
                    \<or> t_marks_old now qm \<or> t_marks_around mid qm) (tf_send_marks f);
            qm2 = t_insert_mark mid now qm1;
            upto = (if mid = None then self else fst (last qm2));
            r1 = (if qm2 = [] then 0
                  else t_smooth (wrappable_minus upto (fst (hd qm2)) + 1) (length qm2) (tf_l2r_lost_rate f));
            rate = t_clip r1;
            f1 = f\<lparr>tf_send_marks := qm2, tf_l2r_lost_rate := rate\<rparr>;
            (s, om) = bytes_per_second now (tf_out_meter f1);
            (g, gm) = bytes_per_second now (ts_l2r_meter (tf_stats f1));
            a = (let q = max 200 s / (g + 1) in if q > 1 then 1 else q);
            st = (tf_stats f1)\<lparr>ts_l2r_meter := gm\<rparr>
        in (rate, f1\<lparr>tf_out_meter := om,
              tf_stats := set_local_to_remote_lost_rate
                (blend (get_local_to_remote_lost_rate st) rate a) st\<rparr>))"

section \<open>Opening, closing, notifying\<close>

text \<open>A call of the owner, if there is one.\<close>

definition t_notify :: "(t_notice \<Rightarrow> trdp_flow \<Rightarrow> trdp_flow) \<Rightarrow> t_notice \<Rightarrow> trdp_flow \<Rightarrow> trdp_flow" where
  "t_notify user n f = (if tf_connection f then user n (t_emit (Notify n) f) else f)"

definition trdp_close :: "bool \<Rightarrow> trdp_flow \<Rightarrow> trdp_flow" where
  "trdp_close graceful f =
     (let f1 = f\<lparr>tf_mark := set_cancel (tf_mark f), tf_send_bufs := [], tf_conn_timer := None,
                 tf_ping_timer := None\<rparr>
      in if tf_state f1 = T_CLOSED then f1
         else
           let f2 = (if tf_open f1
                     then (t_emit Close_socket (if graceful then t_emit Shutdown_socket f1 else f1))
                            \<lparr>tf_open := False\<rparr>
                     else f1)
           in f2\<lparr>tf_state := T_CLOSED, tf_connection := False\<rparr>)"

text \<open>\<open>__open\<close>. What the socket answers to opening and binding is an argument.\<close>

definition trdp_open :: "t_error \<Rightarrow> trdp_flow \<Rightarrow> t_error \<times> trdp_flow" where
  "trdp_open answer f =
     (let f1 = trdp_init f
      in if tf_state f1 \<noteq> T_INIT then (T_already_open, f1)
         else if answer \<noteq> T_success
         then (answer, (t_emit Close_socket (f1\<lparr>tf_passive := False\<rparr>))\<lparr>tf_open := False\<rparr>)
         else (T_success, f1\<lparr>tf_passive := False, tf_open := True, tf_state := T_OPENED\<rparr>))"

definition trdp_to_close_state ::
  "(t_notice \<Rightarrow> trdp_flow \<Rightarrow> trdp_flow) \<Rightarrow> t_error \<Rightarrow> op_stamp_t \<Rightarrow> trdp_flow \<Rightarrow> trdp_flow" where
  "trdp_to_close_state user ec stamp f =
     (if t_stopped stamp f then f
      else
        trdp_close True
          (if tf_passive f
           then if tf_state f = T_CONNECTED then t_notify user (N_disconnected ec) f else f
           else if trdp_rank (tf_state f) < trdp_rank T_CONNECTED
           then t_notify user (N_connected ec) f
           else t_notify user (N_disconnected ec) f))"

definition trdp_allert_connected ::
  "(t_notice \<Rightarrow> trdp_flow \<Rightarrow> trdp_flow) \<Rightarrow> t_error \<Rightarrow> op_stamp_t \<Rightarrow> trdp_flow \<Rightarrow> trdp_flow" where
  "trdp_allert_connected user ec stamp f =
     (if t_stopped stamp f then f else t_notify user (N_connected ec) f)"

text \<open>\<open>create_for_active_connect\<close>: the owner is set after the socket is opened.\<close>

definition trdp_create_active :: "t_error \<Rightarrow> trdp_flow \<Rightarrow> t_error \<times> trdp_flow" where
  "trdp_create_active answer mem =
     (let (ec, f) = trdp_open answer (trdp_construct False mem) in (ec, f\<lparr>tf_connection := True\<rparr>))"

definition trdp_create_passive :: "trdp_flow \<Rightarrow> trdp_flow" where
  "trdp_create_passive mem = trdp_construct True mem"

definition trdp_set_socket :: "trdp_flow \<Rightarrow> trdp_flow" where
  "trdp_set_socket f = f\<lparr>tf_connection := True\<rparr>"

definition trdp_block_receiving :: "trdp_flow \<Rightarrow> trdp_flow" where
  "trdp_block_receiving f = f\<lparr>tf_recv_blocked := True\<rparr>"

section \<open>Sending\<close>

text \<open>The bytes of a packet: the length as 16 bits in network order, the id, the type, and the
  type of the message if there is one.\<close>

definition packet_head :: "bool \<Rightarrow> nat \<Rightarrow> byte \<Rightarrow> byte \<Rightarrow> u16 option \<Rightarrow> bytes" where
  "packet_head big n i type msgType =
     (let h = io_put_int big (of_nat (2 + n + (if msgType \<noteq> None then 2 else 0)) :: u16) [] @ [i, type]
      in case msgType of None \<Rightarrow> h | Some t \<Rightarrow> io_put_int big t h)"

definition trdp_send :: "bytes \<Rightarrow> byte \<Rightarrow> bool \<Rightarrow> u16 option \<Rightarrow> bool \<Rightarrow> trdp_flow \<Rightarrow> trdp_flow" where
  "trdp_send buf type alert msgType fromQue f =
     (if tf_state f \<noteq> T_CONNECTED then t_emit (Post_to_close T_not_connected (t_stamp f)) f
      else if (tf_send_bufs f \<noteq> [] \<and> \<not> fromQue) \<or> tf_sending f
      then
        if tf_send_bufs f \<noteq> [] \<and> se_outTime (hd (tf_send_bufs f)) \<noteq> MAX_TIME
           \<and> se_outTime (hd (tf_send_bufs f)) + 10000 < tf_clock f
        then t_emit (Post_to_close T_connection_aborted (t_stamp f)) f
        else f\<lparr>tf_send_bufs := tf_send_bufs f @
               [\<lparr>se_buf = buf, se_outTime = (if alert then MAX_TIME else tf_clock f + 250),
                 se_msgType = (case msgType of None \<Rightarrow> INVALID_MSGTYPE | Some t \<Rightarrow> t),
                 se_alertWritable = alert\<rparr>]\<rparr>
      else
        let i = tf_id_for_lost_rate f + 1;
            head = packet_head (tf_big f) (length buf) i type msgType;
            f1 = f\<lparr>tf_id_for_lost_rate := i,
                   tf_out_meter := sm_add (tf_clock f) (length head + length buf) (tf_out_meter f),
                   tf_stats := (tf_stats f)\<lparr>ts_l2r_meter :=
                     sm_add (tf_clock f) (length head + length buf) (ts_l2r_meter (tf_stats f))\<rparr>\<rparr>;
            f2 = snd (t_local_to_remote_lost_rate (Some i) f1)
        in (t_emit (Async (Write_packet (head @ buf) alert) (t_stamp f2)) f2)\<lparr>tf_sending := True\<rparr>)"

definition trdp_send_reliable :: "bytes \<Rightarrow> u16 \<Rightarrow> trdp_flow \<Rightarrow> trdp_flow" where
  "trdp_send_reliable buf t f = trdp_send buf DATA_PKT True (Some t) False f"

definition trdp_send_semireliable :: "bytes \<Rightarrow> u16 \<Rightarrow> trdp_flow \<Rightarrow> trdp_flow" where
  "trdp_send_semireliable buf t f = trdp_send buf DATA_PKT False (Some t) False f"

definition trdp_send_unreliable :: "bytes \<Rightarrow> u16 \<Rightarrow> trdp_flow \<Rightarrow> trdp_flow" where
  "trdp_send_unreliable buf t f =
     (if tf_qued_sending_size f > 8 * 1024 then f else trdp_send buf DATA_PKT False (Some t) False f)"

definition trdp_ping :: "trdp_flow \<Rightarrow> t_error \<times> trdp_flow" where
  "trdp_ping f =
     (if tf_state f \<noteq> T_CONNECTED then (T_not_connected, f)
      else (T_success,
            if tf_open f
            then trdp_send (io_put_int (tf_big f) (word_of_int (tf_clock f) :: u64) []) PING_PKT False None False f
            else f))"

definition trdp_set_ping_interval :: "tick \<Rightarrow> trdp_flow \<Rightarrow> trdp_flow" where
  "trdp_set_ping_interval t f =
     (if t \<noteq> tf_ping_interval f
      then f\<lparr>tf_ping_interval := t,
             tf_ping_timer := (if tf_ping_timer f = None then None else Some (Some (tf_clock f, t)))\<rparr>
      else f)"

text \<open>The loop of \<open>__handle_sent_packet\<close> over the queue: packets that waited too long are
  counted as lost.\<close>

fun flush_queue :: "tick \<Rightarrow> send_emlment list \<Rightarrow> trdp_flow \<Rightarrow> trdp_flow" where
  "flush_queue now [] f = f"
| "flush_queue now (e # es) f =
     (if tf_sending f then f
      else
        let f1 = f\<lparr>tf_send_bufs := es\<rparr>
        in if se_outTime e \<ge> now
           then flush_queue now es
                  (trdp_send (se_buf e) DATA_PKT (se_alertWritable e)
                     (if se_msgType e = INVALID_MSGTYPE then None else Some (se_msgType e)) True f1)
           else flush_queue now es
                  (snd (t_local_to_remote_lost_rate None
                     (f1\<lparr>tf_id_for_lost_rate := tf_id_for_lost_rate f1 + 1\<rparr>))))"

definition trdp_handle_sent_packet ::
  "(t_notice \<Rightarrow> trdp_flow \<Rightarrow> trdp_flow) \<Rightarrow> t_error \<Rightarrow> bool \<Rightarrow> op_stamp_t \<Rightarrow> trdp_flow \<Rightarrow> trdp_flow" where
  "trdp_handle_sent_packet user ec alert stamp f0 =
     (let f = f0\<lparr>tf_sending := False\<rparr>
      in if t_stopped stamp f then f
         else if ec \<noteq> T_success then t_notify user (N_disconnected ec) f
         else
           let f1 = (if alert then t_notify user N_writeable f else f)
           in if t_stopped stamp f1 then f1
              else flush_queue (tf_clock f1) (tf_send_bufs f1) f1)"

end
