(* ===== verification/Trdp_Coro.thy ===== *)
theory Trdp_Coro
  imports Trdp_Flow
begin

text \<open>The coroutines of \<open>trdp_flow\<close>: receiving packets, connecting and asking for a domain,
  waiting for the domain a peer asks for.\<close>

section \<open>Round-trip time\<close>

definition trdp_update_rtt :: "int \<Rightarrow> trdp_flow \<Rightarrow> trdp_flow" where
  "trdp_update_rtt echoTime f =
     (let rtt = sint (word_of_int (tf_clock f - echoTime) :: u32)
      in if rtt > 0 \<and> rtt < 10000
         then
           let f1 = (if tf_srtt f = 0 then f\<lparr>tf_srtt := rtt, tf_rttvar := rtt sdiv 2\<rparr>
                     else
                       let s = (7 * tf_srtt f + rtt) sdiv 8
                       in f\<lparr>tf_srtt := s,
                            tf_rttvar := (3 * tf_rttvar f + (\<bar>rtt - s\<bar> - tf_rttvar f)) sdiv 4\<rparr>)
           in f1\<lparr>tf_rto := min 100 (max 6000 (tf_srtt f1 + 4 * tf_rttvar f1))\<rparr>
         else f)"

section \<open>Receiving\<close>

text \<open>\<open>__process_data\<close> of the packet in \<open>recv_buf_\<close>: whether the loop goes on.\<close>

definition trdp_process_data ::
  "(t_notice \<Rightarrow> trdp_flow \<Rightarrow> trdp_flow) \<Rightarrow> op_stamp_t \<Rightarrow> trdp_flow \<Rightarrow> bool \<times> trdp_flow" where
  "trdp_process_data user stamp f =
     (if t_stopped stamp f then (False, f)
      else if length (tf_recv_buf f) < 2 then (False, trdp_to_close_state user T_fault stamp f)
      else
        let i = tf_recv_buf f ! 0;
            type = tf_recv_buf f ! 1;
            rest = drop 2 (tf_recv_buf f);
            f1 = f\<lparr>tf_recv_buf := rest,
                   tf_in_meter := sm_add (tf_clock f) (length rest + 2) (tf_in_meter f),
                   tf_stats := (tf_stats f)\<lparr>ts_r2l_meter :=
                     sm_add (tf_clock f) (length rest + 2) (ts_r2l_meter (tf_stats f))\<rparr>\<rparr>;
            f2 = snd (t_remote_to_local_lost_rate (Some i) f1)
        in if type = PING_PKT
           then if length rest \<noteq> 8 then (False, trdp_to_close_state user T_fault stamp f2)
                else (True, trdp_send rest PONG_PKT False None False f2)
           else if type = PONG_PKT
           then if length rest \<noteq> 8 then (False, trdp_to_close_state user T_fault stamp f2)
                else let (t, r) = io_get_int (tf_big f2) rest :: u64 \<times> bytes
                     in (True, trdp_update_rtt (sint t) (f2\<lparr>tf_recv_buf := r\<rparr>))
           else if type = DATA_PKT
           then if rest = [] then (True, f2)
                else if tf_connection f2 then (True, t_notify user (N_received rest) f2)
                else (False, f2)
           else (False, f2))"

text \<open>\<open>do_keep_receiving\<close>: the top of its loop, and the two points it is resumed at.\<close>

definition receive_next :: "op_stamp_t \<Rightarrow> trdp_flow \<Rightarrow> trdp_flow" where
  "receive_next stamp f = t_emit (Async Read_length stamp) (f\<lparr>tf_recv_state := RECVING\<rparr>)"

definition do_keep_receiving :: "op_stamp_t \<Rightarrow> trdp_flow \<Rightarrow> trdp_flow" where
  "do_keep_receiving stamp f = (if t_stopped stamp f then f else receive_next stamp f)"

definition length_received ::
  "(t_notice \<Rightarrow> trdp_flow \<Rightarrow> trdp_flow) \<Rightarrow> t_error \<Rightarrow> bytes \<Rightarrow> op_stamp_t \<Rightarrow> trdp_flow \<Rightarrow> trdp_flow" where
  "length_received user ec hdr stamp f =
     (if t_stopped stamp f then f
      else if ec \<noteq> T_success then trdp_to_close_state user ec stamp f
      else
        let n = unat (fst (io_get_int (tf_big f) hdr) :: u16)
        in if n = 0
           then let f1 = f\<lparr>tf_recv_state := RECVED\<rparr>
                in if tf_recv_blocked f1 then f1 else receive_next stamp f1
           else t_emit (Async (Read_packet n) stamp) f)"

definition packet_received ::
  "(t_notice \<Rightarrow> trdp_flow \<Rightarrow> trdp_flow) \<Rightarrow> t_error \<Rightarrow> bytes \<Rightarrow> op_stamp_t \<Rightarrow> trdp_flow \<Rightarrow> trdp_flow" where
  "packet_received user ec pkt stamp f =
     (if t_stopped stamp f then f
      else
        let f1 = f\<lparr>tf_recv_buf := pkt, tf_recv_state := RECVED\<rparr>
        in if ec \<noteq> T_success then trdp_to_close_state user ec stamp f1
           else if tf_recv_blocked f1 then f1
           else
             let (go, f2) = trdp_process_data user stamp f1
             in if \<not> go then f2
                else if tf_recv_blocked f2 then f2 else receive_next stamp f2)"

definition trdp_keep_async_receiving :: "trdp_flow \<Rightarrow> trdp_flow" where
  "trdp_keep_async_receiving f =
     (if tf_recv_blocked f \<and> tf_recv_state f \<noteq> RECVING
      then do_keep_receiving (t_stamp f) (f\<lparr>tf_recv_blocked := False\<rparr>) else f)"

section \<open>Connecting\<close>

text \<open>\<open>__domain_request_coro\<close>: the request, its completion, the answer.\<close>

definition domain_request :: "op_stamp_t \<Rightarrow> trdp_flow \<Rightarrow> trdp_flow" where
  "domain_request stamp f =
     (if t_stopped stamp f then f
      else t_emit (Async (Write_request (tf_domain f)) stamp)
             (conn_timer_start (Do_to_close T_timed_out stamp) 6000 f))"

definition request_written ::
  "(t_notice \<Rightarrow> trdp_flow \<Rightarrow> trdp_flow) \<Rightarrow> t_error \<Rightarrow> op_stamp_t \<Rightarrow> trdp_flow \<Rightarrow> trdp_flow" where
  "request_written user ec stamp f =
     (if t_stopped stamp f then f
      else if ec \<noteq> T_success then trdp_to_close_state user ec stamp f
      else t_emit (Async Read_reply stamp) f)"

definition reply_received ::
  "(t_notice \<Rightarrow> trdp_flow \<Rightarrow> trdp_flow) \<Rightarrow> t_error \<Rightarrow> bytes \<Rightarrow> op_stamp_t \<Rightarrow> trdp_flow \<Rightarrow> trdp_flow" where
  "reply_received user ec reply stamp f =
     (if t_stopped stamp f then f
      else if ec \<noteq> T_success then trdp_to_close_state user ec stamp f
      else if length reply \<noteq> 4 \<or> reply ! 3 \<noteq> ACCEPT_PKT
      then trdp_to_close_state user T_connection_refused stamp f
      else
        let f1 = conn_timer_cancel (conn_timer_clear (f\<lparr>tf_state := T_CONNECTED\<rparr>))
        in if tf_connection f1
           then t_notify user (N_connected T_success) (trdp_keep_async_receiving f1) else f1)"

text \<open>\<open>__async_resolve_connect_coro\<close>. An attempt that fails is followed by one with the next
  address, on a new socket.\<close>

definition resolve_connect :: "string option \<Rightarrow> op_stamp_t \<Rightarrow> trdp_flow \<Rightarrow> trdp_flow" where
  "resolve_connect qy stamp f =
     (if t_stopped stamp f then f
      else
        let f1 = conn_timer_start (Do_to_close T_timed_out stamp) 10000 f
        in case qy of
             Some host \<Rightarrow> t_emit (Async (Resolve_host host) stamp) f1
           | None \<Rightarrow> t_emit (Async (Connect_to (tf_remote_edp f1) []) stamp) f1)"

definition host_resolved ::
  "(t_notice \<Rightarrow> trdp_flow \<Rightarrow> trdp_flow) \<Rightarrow> t_error \<Rightarrow> u32 list \<Rightarrow> op_stamp_t \<Rightarrow> trdp_flow \<Rightarrow> trdp_flow" where
  "host_resolved user ec addrs stamp f =
     (if t_stopped stamp f then f
      else if ec \<noteq> T_success \<or> addrs = [] then trdp_to_close_state user ec stamp f
      else
        let f1 = f\<lparr>tf_remote_edp := (hd addrs, snd (tf_remote_edp f))\<rparr>
        in t_emit (Async (Connect_to (tf_remote_edp f1) (tl addrs)) stamp) f1)"

definition connect_done ::
  "(t_notice \<Rightarrow> trdp_flow \<Rightarrow> trdp_flow) \<Rightarrow> t_error \<Rightarrow> t_error \<Rightarrow> u32 list \<Rightarrow> op_stamp_t \<Rightarrow> trdp_flow \<Rightarrow>
   trdp_flow" where
  "connect_done user answer ec addrs stamp f =
     (if t_stopped stamp f then f
      else if ec \<noteq> T_success \<and> addrs \<noteq> []
      then
        let (err, f1) = trdp_open answer ((t_emit Close_socket f)\<lparr>tf_open := False\<rparr>)
        in if err \<noteq> T_success then trdp_to_close_state user err stamp f1
           else
             let f2 = conn_timer_start (Do_to_close T_timed_out stamp) 6000 f1;
                 f3 = f2\<lparr>tf_remote_edp := (hd addrs, snd (tf_remote_edp f2))\<rparr>
             in t_emit (Async (Connect_to (tf_remote_edp f3) (tl addrs)) stamp) f3
      else if ec \<noteq> T_success then trdp_to_close_state user ec stamp f
      else domain_request stamp (conn_timer_clear (conn_timer_cancel f)))"

definition domain_request_bytes :: "bool \<Rightarrow> byte \<Rightarrow> bytes \<Rightarrow> bytes" where
  "domain_request_bytes big i name =
     io_put_int big (of_nat (2 + length name) :: u16) [] @ [i, CONN_PKT] @ name"

definition trdp_connect :: "t_error \<Rightarrow> u32 \<times> u16 \<Rightarrow> bytes \<Rightarrow> trdp_flow \<Rightarrow> trdp_flow" where
  "trdp_connect answer edp name f0 =
     (let (ec, f1) = (if tf_state f0 = T_INIT \<or> tf_state f0 = T_CLOSED then trdp_open answer f0
                      else (if tf_state f0 \<noteq> T_OPENED then T_in_progress else T_success, f0));
          f2 = f1\<lparr>tf_mark := next_op_stamp (tf_mark f1)\<rparr>
      in if ec \<noteq> T_success then t_emit (Post_connected ec (t_stamp f2)) f2
         else
           let f3 = f2\<lparr>tf_state := T_CONNECTING,
                       tf_domain := domain_request_bytes (tf_big f2) (tf_id_for_lost_rate f2) name\<rparr>
           in if snd edp \<noteq> 0 then resolve_connect None (t_stamp f3) (f3\<lparr>tf_remote_edp := edp\<rparr>)
              else resolve_connect (Some (tf_remote_host f3)) (t_stamp f3) f3)"

text \<open>\<open>connect\<close> with a host: an IPv4 address in text is an argument, \<open>None\<close> a name.\<close>

definition trdp_connect_host ::
  "t_error \<Rightarrow> u32 option \<Rightarrow> string \<Rightarrow> u16 \<Rightarrow> bytes \<Rightarrow> trdp_flow \<Rightarrow> trdp_flow" where
  "trdp_connect_host answer addr host p name f =
     (case addr of
        Some a \<Rightarrow> trdp_connect answer (a, p) name (f\<lparr>tf_remote_edp := (a, p)\<rparr>)
      | None \<Rightarrow> trdp_connect answer (0, 0) name
                  (f\<lparr>tf_remote_host := host, tf_remote_edp := (fst (tf_remote_edp f), p)\<rparr>))"

section \<open>Accepting\<close>

definition trdp_accept :: "t_error \<Rightarrow> trdp_flow \<Rightarrow> trdp_flow" where
  "trdp_accept ec f =
     (let f1 = conn_timer_cancel f
      in if tf_state f1 = T_CLOSED then f1
         else if ec \<noteq> T_success then trdp_close True f1
         else
           let buf = io_put_int (tf_big f1) (2 :: u16) [] @ [tf_id_for_lost_rate f1, ACCEPT_PKT]
           in t_emit (Async (Write_packet buf False) (om_cancel (tf_mark f1)))
                (f1\<lparr>tf_state := T_CONNECTED\<rparr>))"

definition waiting_domain :: "trdp_flow \<Rightarrow> trdp_flow" where
  "waiting_domain f =
     (let f1 = conn_timer_start Do_close 5000 f
      in if is_canceled_op (t_stamp f1) (tf_mark f1) then f1
         else t_emit (Async Read_domain_length (t_stamp f1)) f1)"

definition domain_length_received :: "t_error \<Rightarrow> bytes \<Rightarrow> op_stamp_t \<Rightarrow> trdp_flow \<Rightarrow> trdp_flow" where
  "domain_length_received ec hdr stamp f =
     (if is_canceled_op stamp (tf_mark f) then f
      else if ec \<noteq> T_success \<or> length hdr \<noteq> 2 then trdp_close True f
      else
        let n = unat (fst (io_get_int (tf_big f) hdr) :: u16)
        in if n < 2 then trdp_close True f
           else t_emit (Async (Read_domain n) (t_stamp f)) (f\<lparr>tf_recv_buf := replicate n 0\<rparr>))"

text \<open>The acceptors are those of the shared layer, known by the names of their domains; \<open>None\<close>
  is a layer that is gone.\<close>

definition domain_received ::
  "(t_notice \<Rightarrow> trdp_flow \<Rightarrow> trdp_flow) \<Rightarrow> bytes list option \<Rightarrow> t_error \<Rightarrow> bytes \<Rightarrow> op_stamp_t \<Rightarrow>
   trdp_flow \<Rightarrow> trdp_flow" where
  "domain_received user acceptors ec pkt stamp f =
     (if is_canceled_op stamp (tf_mark f) then f
      else if ec \<noteq> T_success \<or> length pkt \<noteq> length (tf_recv_buf f) then trdp_close True f
      else
        let i = pkt ! 0;
            type = pkt ! 1;
            rest = drop 2 pkt;
            f1 = f\<lparr>tf_recv_buf := rest,
                   tf_in_meter := sm_add (tf_clock f) (length rest + 2) (tf_in_meter f),
                   tf_stats := (tf_stats f)\<lparr>ts_r2l_meter :=
                     sm_add (tf_clock f) (length rest + 2) (ts_r2l_meter (tf_stats f))\<rparr>\<rparr>;
            f2 = snd (t_remote_to_local_lost_rate (Some i) f1)
        in if type \<noteq> CONN_PKT then trdp_close True f2
           else case acceptors of
                  None \<Rightarrow> f2
                | Some names \<Rightarrow>
                    if rest \<in> set names
                    then user N_accepted (t_emit (Notify N_accepted) (trdp_accept T_success f2))
                    else trdp_accept T_connection_refused f2)"

text \<open>The timers.\<close>

definition conn_timer_fired :: "(t_notice \<Rightarrow> trdp_flow \<Rightarrow> trdp_flow) \<Rightarrow> trdp_flow \<Rightarrow> trdp_flow" where
  "conn_timer_fired user f =
     (case tf_conn_timer f of
        None \<Rightarrow> f
      | Some t \<Rightarrow>
          if ct_deadline t = None then f
          else
            let f1 = f\<lparr>tf_conn_timer := Some (t\<lparr>ct_deadline := None\<rparr>)\<rparr>
            in case ct_action t of
                 None \<Rightarrow> f1
               | Some Do_close \<Rightarrow> trdp_close True f1
               | Some (Do_to_close ec stamp) \<Rightarrow> trdp_to_close_state user ec stamp f1)"

definition ping_timer_fired :: "trdp_flow \<Rightarrow> trdp_flow" where
  "ping_timer_fired f =
     (case tf_ping_timer f of
        Some (Some (d, t)) \<Rightarrow> snd (trdp_ping (f\<lparr>tf_ping_timer := Some (Some (tf_clock f + t, t))\<rparr>))
      | _ \<Rightarrow> f)"

end
