(* ===== verification/Trdp_Stream.thy ===== *)
theory Trdp_Stream
  imports Trdp_Coro
begin

text \<open>A TRDP flow as a stream of messages: what the writing side puts on the connection, in any
  order of sends and completed writes, is read by the other side as the messages in the order
  they were sent.\<close>

section \<open>Frames\<close>

type_synonym t_message = "u16 \<times> bytes"

definition message_ok :: "t_message \<Rightarrow> bool" where
  "message_ok m = (fst m \<noteq> INVALID_MSGTYPE \<and> length (snd m) \<le> 65531)"

text \<open>What the owner of the receiving side is handed: the type in network order and the text.\<close>

definition handed :: "t_message \<Rightarrow> bytes" where
  "handed m = rev (bytes_of_word (fst m)) @ snd m"

definition frame :: "byte \<Rightarrow> t_message \<Rightarrow> bytes" where
  "frame i m = rev (bytes_of_word (of_nat (4 + length (snd m)) :: u16)) @ [i, DATA_PKT] @ handed m"

lemma packet_head_frame:
  "packet_head big (length p) i DATA_PKT (Some t) @ p = frame i (t, p)"
  by (simp add: packet_head_def frame_def handed_def codec_simps Let_def)

lemma length_bytes16 [simp]: "length (bytes_of_word (w :: u16)) = 2"
  by (simp add: bytes_of_word16)

lemma frame_parts:
  assumes "length (snd m) \<le> 65531"
  shows "unat (of_nat (4 + length (snd m)) :: u16) = 4 + length (snd m)"
  using assms by (simp add: unsigned_of_nat take_bit_nat_eq_self del: of_nat_add)

section \<open>The receiving side\<close>

text \<open>The packets the flow handed to its owner.\<close>

fun received_of :: "t_effect \<Rightarrow> bytes list" where
  "received_of (Notify (N_received b)) = [b]"
| "received_of _ = []"

definition received :: "trdp_flow \<Rightarrow> bytes list" where
  "received f = concat (map received_of (tf_outs f))"

definition rx :: "trdp_flow \<Rightarrow> operation_mark \<times> trdp_state \<times> bool \<times> bool" where
  "rx f = (tf_mark f, tf_state f, tf_connection f, tf_recv_blocked f)"

text \<open>An owner that does not close the flow and does not block receiving when it is called; it may
  send, ping and read.\<close>

definition quiet_user :: "(t_notice \<Rightarrow> trdp_flow \<Rightarrow> trdp_flow) \<Rightarrow> bool" where
  "quiet_user user = (\<forall>n f. rx (user n f) = rx f \<and> received (user n f) = received f)"

text \<open>The connection serves the reads of the flow from a stream of bytes.\<close>

function serve ::
  "(t_notice \<Rightarrow> trdp_flow \<Rightarrow> trdp_flow) \<Rightarrow> op_stamp_t \<Rightarrow> bytes \<Rightarrow> trdp_flow \<Rightarrow> trdp_flow" where
  "serve user stamp s f =
     (if length s < 2 then f
      else
        let n = unat (fst (io_get_int (tf_big f) (take 2 s)) :: u16);
            f1 = length_received user T_success (take 2 s) stamp f
        in if length s < 2 + n then f1
           else if n = 0 then serve user stamp (drop 2 s) f1
           else serve user stamp (drop (2 + n) s)
                  (packet_received user T_success (take n (drop 2 s)) stamp f1))"
  by pat_completeness auto
termination
  by (relation "measure (\<lambda>(_, _, s, _). length s)") auto

declare serve.simps [simp del]

lemma received_emit [simp]: "received (t_emit e f) = received f @ received_of e"
  by (simp add: received_def t_emit_def)

lemma rx_emit [simp]: "rx (t_emit e f) = rx f"
  by (simp add: rx_def t_emit_def)

lemma lost_rate_rx [simp]:
  "rx (snd (t_remote_to_local_lost_rate m f)) = rx f"
  "received (snd (t_remote_to_local_lost_rate m f)) = received f"
  "tf_big (snd (t_remote_to_local_lost_rate m f)) = tf_big f"
  by (simp_all add: t_remote_to_local_lost_rate_def rx_def received_def Let_def case_prod_unfold)

lemma rx_update [simp]:
  "rx (f\<lparr>tf_recv_buf := b\<rparr>) = rx f" "rx (f\<lparr>tf_recv_state := r\<rparr>) = rx f"
  "rx (f\<lparr>tf_in_meter := m\<rparr>) = rx f" "rx (f\<lparr>tf_stats := st\<rparr>) = rx f"
  "received (f\<lparr>tf_recv_buf := b\<rparr>) = received f" "received (f\<lparr>tf_recv_state := r\<rparr>) = received f"
  "received (f\<lparr>tf_in_meter := m\<rparr>) = received f" "received (f\<lparr>tf_stats := st\<rparr>) = received f"
  by (simp_all add: rx_def received_def)

definition receiving :: "op_stamp_t \<Rightarrow> trdp_flow \<Rightarrow> bool" where
  "receiving stamp f = (\<not> is_canceled_op stamp (tf_mark f) \<and> tf_state f = T_CONNECTED
     \<and> tf_connection f \<and> \<not> tf_recv_blocked f)"

lemma receiving_rx: "rx f = rx g \<Longrightarrow> receiving stamp f = receiving stamp g"
  by (simp add: receiving_def rx_def)

lemma data_packet:
  assumes user: "quiet_user user" and f: "receiving stamp f" and m: "handed m \<noteq> []"
    and pkt: "pkt = [i, DATA_PKT] @ handed m"
  shows "rx (packet_received user T_success pkt stamp f) = rx f"
    and "received (packet_received user T_success pkt stamp f) = received f @ [handed m]"
proof -
  define f1 where "f1 = f\<lparr>tf_recv_buf := pkt, tf_recv_state := RECVED\<rparr>"
  have f1: "rx f1 = rx f" "received f1 = received f" "tf_recv_buf f1 = pkt" by (simp_all add: f1_def)
  obtain f2 where f2: "trdp_process_data user stamp f1 = (True, t_notify user (N_received (handed m)) f2)"
    and same: "rx f2 = rx f" "received f2 = received f"
  proof -
    let ?g = "f1\<lparr>tf_recv_buf := handed m,
      tf_in_meter := sm_add (tf_clock f1) (length (handed m) + 2) (tf_in_meter f1),
      tf_stats := (tf_stats f1)\<lparr>ts_r2l_meter :=
        sm_add (tf_clock f1) (length (handed m) + 2) (ts_r2l_meter (tf_stats f1))\<rparr>\<rparr>"
    let ?f2 = "snd (t_remote_to_local_lost_rate (Some i) ?g)"
    have rx2: "rx ?f2 = rx f" "received ?f2 = received f" by (simp_all add: f1)
    then have c: "tf_connection ?f2" using f by (simp add: rx_def receiving_def)
    have "\<not> t_stopped stamp f1" using f f1(1) by (simp add: t_stopped_def rx_def receiving_def)
    then have "trdp_process_data user stamp f1 = (True, t_notify user (N_received (handed m)) ?f2)"
      using c m by (simp add: trdp_process_data_def f1(3) pkt Let_def DATA_PKT_def PING_PKT_def PONG_PKT_def)
    then show thesis using that rx2 by blast
  qed
  let ?f3 = "t_notify user (N_received (handed m)) f2"
  have "tf_connection f2" using same(1) f by (simp add: rx_def receiving_def)
  then have f3: "rx ?f3 = rx f" "received ?f3 = received f @ [handed m]"
    using user same by (simp_all add: t_notify_def quiet_user_def)
  have "\<not> tf_recv_blocked f1" "\<not> tf_recv_blocked ?f3" "\<not> t_stopped stamp f"
    using f f1(1) f3(1) by (simp_all add: t_stopped_def rx_def receiving_def)
  then have "packet_received user T_success pkt stamp f = receive_next stamp ?f3"
    using f2 by (simp add: packet_received_def f1_def)
  then show "rx (packet_received user T_success pkt stamp f) = rx f"
    "received (packet_received user T_success pkt stamp f) = received f @ [handed m]"
    using f3 by (simp_all add: receive_next_def)
qed

lemma serve_frame:
  assumes user: "quiet_user user" and f: "receiving stamp f" and m: "length (snd m) \<le> 65531"
  obtains g where "serve user stamp (frame i m @ s) f = serve user stamp s g"
    and "rx g = rx f" and "received g = received f @ [handed m]"
proof -
  let ?h = "rev (bytes_of_word (of_nat (4 + length (snd m)) :: u16))"
  let ?pkt = "[i, DATA_PKT] @ handed m"
  have w: "frame i m @ s = ?h @ ?pkt @ s" by (simp add: frame_def)
  have len: "length ?pkt = 4 + length (snd m)" by (simp add: handed_def)
  have n: "unat (fst (io_get_int (tf_big f) ?h) :: u16) = length ?pkt"
    using frame_parts [OF m] io16.get_enc [of "tf_big f" "of_nat (4 + length (snd m))" "[]"] len
    by (simp del: of_nat_add)
  define f1 where "f1 = t_emit (Async (Read_packet (length ?pkt)) stamp) f"
  have "\<not> t_stopped stamp f" using f by (simp add: t_stopped_def receiving_def)
  then have l: "length_received user T_success ?h stamp f = f1"
    using n len by (simp add: length_received_def f1_def Let_def del: of_nat_add)
  have f1: "rx f1 = rx f" "received f1 = received f" by (simp_all add: f1_def)
  have "serve user stamp (frame i m @ s) f
      = serve user stamp s (packet_received user T_success ?pkt stamp f1)"
    unfolding w by (subst serve.simps) (use n l len in \<open>simp add: Let_def del: of_nat_add\<close>)
  moreover have "receiving stamp f1" using f receiving_rx [OF f1(1)] by simp
  moreover have "handed m \<noteq> []" by (simp add: handed_def bytes_of_word16)
  ultimately show thesis
    using that data_packet [OF user, of stamp f1 m ?pkt i] f1 by simp
qed

lemma serve_frames:
  assumes "quiet_user user" and "receiving stamp f"
    and "list_all2 (\<lambda>m w. \<exists>i. w = frame i m) ms ws" and "list_all message_ok ms"
  shows "received (serve user stamp (concat ws) f) = received f @ map handed ms"
  using assms(3,4,2)
proof (induction arbitrary: f rule: list_all2_induct)
  case Nil
  then show ?case by (simp add: serve.simps)
next
  case (Cons m ms w ws)
  then obtain i where w: "w = frame i m" by blast
  obtain g where g: "serve user stamp (frame i m @ concat ws) f = serve user stamp (concat ws) g"
    "rx g = rx f" "received g = received f @ [handed m]"
    using serve_frame [OF assms(1), of stamp f m i "concat ws"] Cons.prems by (auto simp: message_ok_def)
  then show ?case using Cons.IH [of g] Cons.prems w receiving_rx [OF g(2)] by simp
qed

section \<open>The sending side\<close>

fun written_of :: "t_effect \<Rightarrow> bytes list" where
  "written_of (Async (Write_packet b a) s) = [b]"
| "written_of _ = []"

definition written :: "trdp_flow \<Rightarrow> bytes list" where
  "written f = concat (map written_of (tf_outs f))"

text \<open>What happens at the sending side: the owner sends a message, the write in flight completes
  (its owner may send more messages when it is told), time passes.\<close>

datatype tx_event = Send_message t_message | Write_done "t_message list" | Time_is tick

definition send_message :: "t_message \<Rightarrow> trdp_flow \<Rightarrow> trdp_flow" where
  "send_message m f = trdp_send_reliable (snd m) (fst m) f"

definition writes_more :: "t_message list \<Rightarrow> t_notice \<Rightarrow> trdp_flow \<Rightarrow> trdp_flow" where
  "writes_more ms n f = fold send_message ms f"

definition tx_step :: "op_stamp_t \<Rightarrow> tx_event \<Rightarrow> trdp_flow \<Rightarrow> trdp_flow" where
  "tx_step stamp ev f =
     (case ev of
        Send_message m \<Rightarrow> send_message m f
      | Write_done ms \<Rightarrow>
          if tf_sending f then trdp_handle_sent_packet (writes_more ms) T_success True stamp f
          else fold send_message ms f
      | Time_is t \<Rightarrow> f\<lparr>tf_clock := t\<rparr>)"

fun messages_of :: "tx_event \<Rightarrow> t_message list" where
  "messages_of (Send_message m) = [m]"
| "messages_of (Write_done ms) = ms"
| "messages_of (Time_is t) = []"

fun event_ok :: "tx_event \<Rightarrow> bool" where
  "event_ok (Time_is t) = (t \<le> MAX_TIME)"
| "event_ok ev = list_all message_ok (messages_of ev)"

definition queued_message :: "send_emlment \<Rightarrow> t_message" where
  "queued_message e = (se_msgType e, se_buf e)"

definition reliable_element :: "send_emlment \<Rightarrow> bool" where
  "reliable_element e = (se_outTime e = MAX_TIME \<and> se_alertWritable e \<and> message_ok (queued_message e))"

text \<open>The state of a sender after the messages \<open>ms\<close>: the first are on the wire, in order, and the
  rest is the queue. \<open>busy\<close> says that a write is in flight when anything is queued.\<close>

definition sending_ok :: "op_stamp_t \<Rightarrow> trdp_flow \<Rightarrow> bool" where
  "sending_ok stamp f = (\<not> is_canceled_op stamp (tf_mark f) \<and> tf_state f = T_CONNECTED
     \<and> tf_connection f \<and> tf_clock f \<le> MAX_TIME \<and> list_all reliable_element (tf_send_bufs f))"

definition tx_ok :: "op_stamp_t \<Rightarrow> bytes list \<Rightarrow> t_message list \<Rightarrow> trdp_flow \<Rightarrow> bool" where
  "tx_ok stamp old ms f = (sending_ok stamp f
     \<and> (\<exists>don ws. written f = old @ ws \<and> list_all2 (\<lambda>m w. \<exists>i. w = frame i m) don ws
          \<and> ms = don @ map queued_message (tf_send_bufs f)))"

lemma written_emit [simp]: "written (t_emit e f) = written f @ written_of e"
  by (simp add: written_def t_emit_def)

lemma l2r_fields [simp]:
  "tf_mark (snd (t_local_to_remote_lost_rate m f)) = tf_mark f"
  "tf_state (snd (t_local_to_remote_lost_rate m f)) = tf_state f"
  "tf_connection (snd (t_local_to_remote_lost_rate m f)) = tf_connection f"
  "tf_clock (snd (t_local_to_remote_lost_rate m f)) = tf_clock f"
  "tf_send_bufs (snd (t_local_to_remote_lost_rate m f)) = tf_send_bufs f"
  "tf_sending (snd (t_local_to_remote_lost_rate m f)) = tf_sending f"
  "tf_outs (snd (t_local_to_remote_lost_rate m f)) = tf_outs f"
  by (simp_all add: t_local_to_remote_lost_rate_def Let_def case_prod_unfold)

text \<open>A message goes out at once when nothing is in flight and nothing is before it.\<close>

lemma send_now:
  fixes m :: t_message and alert :: bool
  assumes f: "tf_state f = T_CONNECTED" "\<not> tf_sending f" "tf_send_bufs f = [] \<or> q"
  defines "g \<equiv> trdp_send (snd m) DATA_PKT alert (Some (fst m)) q f"
  shows "\<exists>i. written g = written f @ [frame i m]"
    and "tf_mark g = tf_mark f" "tf_state g = tf_state f" "tf_connection g = tf_connection f"
    "tf_clock g = tf_clock f" "tf_send_bufs g = tf_send_bufs f" "tf_sending g"
proof -
  let ?i = "tf_id_for_lost_rate f + 1"
  have cond: "(tf_state f \<noteq> T_CONNECTED) = False"
    "((tf_send_bufs f \<noteq> [] \<and> \<not> q) \<or> tf_sending f) = False"
    using f by auto
  have g: "g = (let head = packet_head (tf_big f) (length (snd m)) ?i DATA_PKT (Some (fst m));
      f1 = f\<lparr>tf_id_for_lost_rate := ?i,
             tf_out_meter := sm_add (tf_clock f) (length head + length (snd m)) (tf_out_meter f),
             tf_stats := (tf_stats f)\<lparr>ts_l2r_meter :=
               sm_add (tf_clock f) (length head + length (snd m)) (ts_l2r_meter (tf_stats f))\<rparr>\<rparr>;
      f2 = snd (t_local_to_remote_lost_rate (Some ?i) f1)
    in (t_emit (Async (Write_packet (head @ snd m) alert) (t_stamp f2)) f2)\<lparr>tf_sending := True\<rparr>)"
    unfolding g_def trdp_send_def cond if_False Let_def by (rule refl)
  have w: "written (h\<lparr>tf_sending := True\<rparr>) = written h" for h by (simp add: written_def)
  show "\<exists>i. written g = written f @ [frame i m]"
    using packet_head_frame [of "tf_big f" "snd m" ?i "fst m"]
    by (auto simp: g Let_def w) (auto simp: written_def)
  show "tf_mark g = tf_mark f" "tf_state g = tf_state f" "tf_connection g = tf_connection f"
    "tf_clock g = tf_clock f" "tf_send_bufs g = tf_send_bufs f" "tf_sending g"
    by (simp_all add: g Let_def t_emit_def)
qed

lemma send_later:
  assumes f: "sending_ok stamp f" and busy: "tf_sending f \<or> tf_send_bufs f \<noteq> []" and m: "message_ok m"
  defines "g \<equiv> send_message m f"
  shows "written g = written f \<and> tf_mark g = tf_mark f \<and> tf_state g = tf_state f
    \<and> tf_connection g = tf_connection f \<and> tf_clock g = tf_clock f \<and> tf_sending g = tf_sending f
    \<and> tf_send_bufs g \<noteq> [] \<and> map queued_message (tf_send_bufs g) = map queued_message (tf_send_bufs f) @ [m]
    \<and> list_all reliable_element (tf_send_bufs g)"
proof -
  have st: "tf_state f = T_CONNECTED" and old: "list_all reliable_element (tf_send_bufs f)"
    using f by (simp_all add: sending_ok_def)
  have "tf_send_bufs f = [] \<or> se_outTime (hd (tf_send_bufs f)) = MAX_TIME"
    using old by (cases "tf_send_bufs f") (simp_all add: reliable_element_def)
  then have g: "g = f\<lparr>tf_send_bufs := tf_send_bufs f @
      [\<lparr>se_buf = snd m, se_outTime = MAX_TIME, se_msgType = fst m, se_alertWritable = True\<rparr>]\<rparr>"
    using st busy unfolding g_def by (auto simp: send_message_def trdp_send_reliable_def trdp_send_def)
  show ?thesis
    using old m by (simp add: g written_def queued_message_def reliable_element_def)
qed

lemma send_tx_ok:
  assumes f: "tx_ok stamp old ms f" and m: "message_ok m"
  shows "tx_ok stamp old (ms @ [m]) (send_message m f)"
    and "tf_sending f \<or> tf_send_bufs f = [] \<Longrightarrow> tf_sending (send_message m f)"
    and "\<not> tf_sending f \<Longrightarrow> tf_send_bufs f \<noteq> [] \<Longrightarrow>
      \<not> tf_sending (send_message m f) \<and> tf_send_bufs (send_message m f) \<noteq> []"
proof -
  have ok: "sending_ok stamp f" using f by (simp add: tx_ok_def)
  obtain don ws where d: "written f = old @ ws" "list_all2 (\<lambda>m w. \<exists>i. w = frame i m) don ws"
    "ms = don @ map queued_message (tf_send_bufs f)"
    using f by (auto simp: tx_ok_def)
  have *: "tx_ok stamp old (ms @ [m]) (send_message m f)
    \<and> (tf_sending (send_message m f) \<longleftrightarrow> tf_sending f \<or> tf_send_bufs f = [])
    \<and> (tf_send_bufs f \<noteq> [] \<longrightarrow> tf_send_bufs (send_message m f) \<noteq> [])"
  proof (cases "tf_sending f \<or> tf_send_bufs f \<noteq> []")
    case True
    note s = send_later [OF ok True m]
    have "ms @ [m] = don @ map queued_message (tf_send_bufs (send_message m f))" using s d(3) by simp
    then show ?thesis
      using s ok d True unfolding tx_ok_def sending_ok_def by auto
  next
    case False
    have st: "tf_state f = T_CONNECTED" using ok by (simp add: sending_ok_def)
    note s = send_now [of f False m True, folded trdp_send_reliable_def send_message_def]
    obtain i where i: "written (send_message m f) = written f @ [frame i m]" using s(1) st False by auto
    have "list_all2 (\<lambda>m w. \<exists>i. w = frame i m) (don @ [m]) (ws @ [frame i m])"
      using d(2) by (intro list_all2_appendI) auto
    then have "\<exists>don ws. written (send_message m f) = old @ ws \<and> list_all2 (\<lambda>m w. \<exists>i. w = frame i m) don ws
        \<and> ms @ [m] = don @ map queued_message (tf_send_bufs (send_message m f))"
      using i d False s(6) st by (intro exI [of _ "don @ [m]"] exI [of _ "ws @ [frame i m]"]) simp
    then show ?thesis
      using s st False ok unfolding tx_ok_def sending_ok_def by simp
  qed
  then show "tx_ok stamp old (ms @ [m]) (send_message m f)"
    "tf_sending f \<or> tf_send_bufs f = [] \<Longrightarrow> tf_sending (send_message m f)"
    "\<not> tf_sending f \<Longrightarrow> tf_send_bufs f \<noteq> [] \<Longrightarrow>
      \<not> tf_sending (send_message m f) \<and> tf_send_bufs (send_message m f) \<noteq> []"
    by blast+
qed

text \<open>A queue that is not empty waits for a write in flight.\<close>

definition tx_busy :: "trdp_flow \<Rightarrow> bool" where
  "tx_busy f = (tf_send_bufs f \<noteq> [] \<longrightarrow> tf_sending f)"

lemma fold_send_ok:
  "tx_ok stamp old ms f \<Longrightarrow> list_all message_ok new \<Longrightarrow> tx_ok stamp old (ms @ new) (fold send_message new f)"
proof (induction new arbitrary: ms f)
  case (Cons m new)
  then show ?case using send_tx_ok(1) [of stamp old ms f m] Cons.IH [of "ms @ [m]" "send_message m f"] by simp
qed simp

lemma fold_send_busy:
  "tx_ok stamp old ms f \<Longrightarrow> list_all message_ok new \<Longrightarrow> tx_busy f \<Longrightarrow> tx_busy (fold send_message new f)"
proof (induction new arbitrary: ms f)
  case (Cons m new)
  have "tx_busy (send_message m f)"
    using send_tx_ok(2) [of stamp old ms f m] Cons.prems by (auto simp: tx_busy_def)
  then show ?case
    using send_tx_ok(1) [of stamp old ms f m] Cons by simp
qed simp

lemma tx_ok_sending: "tx_ok stamp old ms (f\<lparr>tf_sending := b\<rparr>) = tx_ok stamp old ms f"
  by (simp add: tx_ok_def sending_ok_def written_def)

lemma tx_ok_notify: "tx_ok stamp old ms (t_emit (Notify n) f) = tx_ok stamp old ms f"
  by (simp add: tx_ok_def sending_ok_def) (simp add: t_emit_def)

lemma flush_ok:
  assumes f: "tx_ok stamp old ms f"
  shows "tx_ok stamp old ms (flush_queue (tf_clock f) (tf_send_bufs f) f)"
    and "tx_busy (flush_queue (tf_clock f) (tf_send_bufs f) f)"
proof -
  let ?g = "flush_queue (tf_clock f) (tf_send_bufs f) f"
  have "tx_ok stamp old ms ?g \<and> tx_busy ?g"
  proof (cases "tf_sending f \<or> tf_send_bufs f = []")
    case True
    then have "?g = f" by (cases "tf_send_bufs f") auto
    then show ?thesis using f True by (auto simp: tx_busy_def)
  next
    case False
    then obtain e es where es: "tf_send_bufs f = e # es" by (cases "tf_send_bufs f") auto
    have ok: "sending_ok stamp f" using f by (simp add: tx_ok_def)
    then have e: "se_outTime e = MAX_TIME" "se_alertWritable e" "se_msgType e \<noteq> INVALID_MSGTYPE"
      "list_all reliable_element es" "tf_clock f \<le> MAX_TIME" "tf_state f = T_CONNECTED"
      by (simp_all add: sending_ok_def es reliable_element_def message_ok_def queued_message_def)
    let ?f = "f\<lparr>tf_send_bufs := es\<rparr>"
    define g where "g = trdp_send (snd (queued_message e)) DATA_PKT True (Some (fst (queued_message e))) True ?f"
    have pre: "tf_state ?f = T_CONNECTED" "\<not> tf_sending ?f" "tf_send_bufs ?f = [] \<or> True"
      using False e(6) by simp_all
    note s = send_now [OF pre, of "queued_message e" True, folded g_def]
    have "flush_queue now es g = g" for now using s(7) by (cases es) simp_all
    then have g: "?g = g"
      using False e by (simp add: es g_def queued_message_def)
    obtain don ws where d: "written f = old @ ws" "list_all2 (\<lambda>m w. \<exists>i. w = frame i m) don ws"
      "ms = don @ map queued_message (tf_send_bufs f)"
      using f by (auto simp: tx_ok_def)
    obtain i where i: "written g = written f @ [frame i (queued_message e)]"
      using s(1) by (auto simp: written_def)
    have l: "list_all2 (\<lambda>m w. \<exists>i. w = frame i m) (don @ [queued_message e]) (ws @ [frame i (queued_message e)])"
      using d(2) by (intro list_all2_appendI) auto
    have "\<exists>don ws. written g = old @ ws \<and> list_all2 (\<lambda>m w. \<exists>i. w = frame i m) don ws
        \<and> ms = don @ map queued_message (tf_send_bufs g)"
      using i d l s(6) es
      by (intro exI [of _ "don @ [queued_message e]"] exI [of _ "ws @ [frame i (queued_message e)]"]) simp
    then show ?thesis
      using s ok e(4) by (simp add: g tx_ok_def sending_ok_def tx_busy_def)
  qed
  then show "tx_ok stamp old ms ?g" "tx_busy ?g" by blast+
qed

lemma tx_step_ok:
  assumes f: "tx_ok stamp old ms f" "tx_busy f" and ev: "event_ok ev"
  shows "tx_ok stamp old (ms @ messages_of ev) (tx_step stamp ev f)" and "tx_busy (tx_step stamp ev f)"
proof -
  have "tx_ok stamp old (ms @ messages_of ev) (tx_step stamp ev f) \<and> tx_busy (tx_step stamp ev f)"
  proof (cases ev)
    case (Send_message m)
    then show ?thesis
      using fold_send_ok [OF f(1), of "[m]"] fold_send_busy [OF f(1) _ f(2), of "[m]"] ev
      by (simp add: tx_step_def)
  next
    case (Time_is t)
    then show ?thesis
      using f ev by (simp add: tx_step_def tx_ok_def sending_ok_def tx_busy_def written_def)
  next
    case (Write_done new)
    then have new: "list_all message_ok new" using ev by simp
    show ?thesis
    proof (cases "tf_sending f")
      case False
      then show ?thesis
        using Write_done fold_send_ok [OF f(1) new] fold_send_busy [OF f(1) new f(2)] by (simp add: tx_step_def)
    next
      case True
      let ?f1 = "t_emit (Notify N_writeable) (f\<lparr>tf_sending := False\<rparr>)"
      let ?f2 = "fold send_message new ?f1"
      have f1: "tx_ok stamp old ms ?f1" using f(1) by (simp add: tx_ok_notify tx_ok_sending)
      then have f2: "tx_ok stamp old (ms @ new) ?f2" using new by (rule fold_send_ok)
      have go: "\<not> t_stopped stamp (f\<lparr>tf_sending := False\<rparr>)" "tf_connection f" "\<not> t_stopped stamp ?f2"
        using f(1) f2 by (simp_all add: tx_ok_def sending_ok_def t_stopped_def)
      have "tx_step stamp ev f = flush_queue (tf_clock ?f2) (tf_send_bufs ?f2) ?f2"
        using True go Write_done
        by (simp add: tx_step_def trdp_handle_sent_packet_def t_notify_def writes_more_def Let_def)
      then show ?thesis using flush_ok [OF f2] Write_done by simp
    qed
  qed
  then show "tx_ok stamp old (ms @ messages_of ev) (tx_step stamp ev f)" "tx_busy (tx_step stamp ev f)"
    by blast+
qed

lemma tx_run_ok:
  "tx_ok stamp old ms f \<Longrightarrow> tx_busy f \<Longrightarrow> list_all event_ok evs \<Longrightarrow>
     tx_ok stamp old (ms @ concat (map messages_of evs)) (fold (tx_step stamp) evs f)"
proof (induction evs arbitrary: ms f)
  case (Cons ev evs)
  then show ?case
    using tx_step_ok [of stamp old ms f ev] Cons.IH [of "ms @ messages_of ev" "tx_step stamp ev f"] by simp
qed simp

section \<open>Both sides\<close>

text \<open>A flow that can send, with nothing queued, and what it has written before.\<close>

definition can_send :: "op_stamp_t \<Rightarrow> trdp_flow \<Rightarrow> bool" where
  "can_send stamp f = (\<not> is_canceled_op stamp (tf_mark f) \<and> tf_state f = T_CONNECTED
     \<and> tf_connection f \<and> tf_clock f \<le> MAX_TIME \<and> tf_send_bufs f = [])"

end
