(* ===== verification/Trdp_Theorems.thy ===== *)
theory Trdp_Theorems
  imports Trdp_Stream
begin

text \<open>Properties of the TRDP flow: messages arrive in order; and where the source departs from what
  it means to do, when receiving is blocked, when a ping has to wait, after accepting, and when
  the first address of a host does not answer.\<close>

section \<open>A flow for the examples\<close>

definition example_trdp :: trdp_flow where
  "example_trdp = \<lparr>tf_mark = \<lparr>om_stamp = 1, om_cancel = 0\<rparr>, tf_state = T_CONNECTED,
     tf_recv_state = RECVED, tf_connection = True, tf_open = True, tf_passive = False,
     tf_recv_blocked = False, tf_recv_buf = [],
     tf_conn_timer = Some \<lparr>ct_action = None, ct_deadline = None\<rparr>, tf_ping_timer = Some None,
     tf_ping_interval = 15000, tf_srtt = 0, tf_rttvar = 0, tf_rto = 0, tf_send_bufs = [],
     tf_sending = False, tf_qued_sending_size = 0, tf_flowid = 0, tf_domain = [],
     tf_remote_host = [], tf_remote_edp = (0, 0), tf_recvd_marks = [], tf_send_marks = [],
     tf_r2l_lost_rate = -1, tf_l2r_lost_rate = -1, tf_id_for_lost_rate = 0,
     tf_in_meter = speed_meter_new 2000, tf_out_meter = speed_meter_new 2000,
     tf_stats = \<lparr>ts_l2r_lost = 0, ts_r2l_lost = 0, ts_l2r_meter = speed_meter_new 3000,
       ts_r2l_meter = speed_meter_new 3000\<rparr>,
     tf_clock = 0, tf_rng = rng_seed 1, tf_big = False, tf_null = False, tf_outs = []\<rparr>"

lemma stamp_pending [simp]: "\<not> is_canceled_op 1 \<lparr>om_stamp = 1, om_cancel = 0\<rparr>"
  by code_simp

lemma example_trdp_fields:
  "can_send 1 example_trdp" "receiving 1 (example_trdp\<lparr>tf_big := True\<rparr>)" "quiet_user (\<lambda>n f. f)"
  by (simp_all add: can_send_def receiving_def example_trdp_def MAX_TIME_def quiet_user_def)

lemma example_messages:
  "list_all event_ok [Send_message (1, [7]), Send_message (2, [8, 9]), Write_done [(3, [])], Write_done []]"
  by (simp add: message_ok_def INVALID_MSGTYPE_def)

text \<open>Messages of a TRDP flow arrive complete, once and in order: whatever a connected flow
  does next (sends, completed writes during which the owner sends more, time that passes), the
  other side, serving its reads from the bytes that were written, hands its owner exactly the
  messages that were sent, without those that are still queued. The two hosts may have different
  byte orders. Messages have at most 65531 bytes and a type other than the invalid one.\<close>
lemma trdp_messages_arrive:
  assumes "can_send stamp f" and "list_all event_ok evs"
    and "quiet_user user" and "receiving stamp' g"
  defines "f' \<equiv> fold (tx_step stamp) evs f"
  shows "\<exists>sent ws. concat (map messages_of evs) = sent @ map queued_message (tf_send_bufs f')
    \<and> written f' = written f @ ws
    \<and> received (serve user stamp' (concat ws) g) = received g @ map handed sent"
proof -
  have "tx_ok stamp (written f) [] f"
    using assms(1) by (auto simp: tx_ok_def sending_ok_def can_send_def)
  moreover have "tx_busy f" using assms(1) by (simp add: tx_busy_def can_send_def)
  ultimately have "tx_ok stamp (written f) (concat (map messages_of evs)) f'"
    unfolding f'_def using tx_run_ok [of stamp "written f" "[]" f evs] assms(2) by simp
  then obtain don ws where d: "written f' = written f @ ws" "list_all2 (\<lambda>m w. \<exists>i. w = frame i m) don ws"
    "concat (map messages_of evs) = don @ map queued_message (tf_send_bufs f')"
    by (auto simp: tx_ok_def)
  have "list_all event_ok evs \<Longrightarrow> list_all message_ok (concat (map messages_of evs))" for evs
  proof (induction evs)
    case (Cons ev evs)
    then show ?case by (cases ev) simp_all
  qed simp
  then have "list_all message_ok don" using assms(2) d(3) by (metis list_all_append)
  then show ?thesis using d serve_frames [OF assms(3,4) d(2)] by blast
qed

section \<open>Receiving is blocked while a packet is read\<close>

text \<open>A packet that arrives while receiving is blocked is lost: it is kept in the buffer, but when
  receiving goes on the flow asks for the length of the next packet, and its owner is never handed
  the one that was read.\<close>
lemma blocked_packet_lost:
  fixes user :: "t_notice \<Rightarrow> trdp_flow \<Rightarrow> trdp_flow" and pkt :: bytes
  assumes "\<not> t_stopped (t_stamp f) f" and "tf_recv_blocked f"
  defines "g \<equiv> trdp_keep_async_receiving (packet_received user T_success pkt (t_stamp f) f)"
  shows "received g = received f \<and> tf_outs g = tf_outs f @ [Async Read_length (t_stamp f)]
    \<and> \<not> tf_recv_blocked g \<and> tf_recv_state g = RECVING"
proof -
  have "packet_received user T_success pkt (t_stamp f) f = f\<lparr>tf_recv_buf := pkt, tf_recv_state := RECVED\<rparr>"
    using assms(1,2) by (simp add: packet_received_def)
  then have "g = receive_next (t_stamp f) (f\<lparr>tf_recv_buf := pkt, tf_recv_state := RECVED, tf_recv_blocked := False\<rparr>)"
    using assms(1,2)
    by (simp add: g_def trdp_keep_async_receiving_def do_keep_receiving_def t_stopped_def t_stamp_def)
  then show ?thesis by (simp add: receive_next_def received_def t_emit_def)
qed

section \<open>A ping waits in the queue\<close>

definition untyped_frame :: "byte \<Rightarrow> bytes \<Rightarrow> bytes" where
  "untyped_frame i b = rev (bytes_of_word (of_nat (2 + length b) :: u16)) @ [i, DATA_PKT] @ b"

text \<open>A ping that has to wait for a write in flight goes out as a packet of data: the queue does
  not keep the type, and the other side hands the eight bytes of the clock to its owner.\<close>
lemma queued_ping_becomes_data:
  fixes user :: "t_notice \<Rightarrow> trdp_flow \<Rightarrow> trdp_flow"
  assumes f: "\<not> t_stopped stamp f" "tf_state f = T_CONNECTED" "tf_open f" "tf_sending f" "tf_send_bufs f = []"
  defines "g \<equiv> trdp_handle_sent_packet user T_success False stamp (snd (trdp_ping f))"
  shows "fst (trdp_ping f) = T_success
    \<and> (\<exists>i. written g = written f
         @ [untyped_frame i (rev (bytes_of_word (word_of_int (tf_clock f) :: u64)))])"
proof -
  let ?b = "rev (bytes_of_word (word_of_int (tf_clock f) :: u64))"
  let ?e = "\<lparr>se_buf = ?b, se_outTime = tf_clock f + 250, se_msgType = INVALID_MSGTYPE, se_alertWritable = False\<rparr>"
  have p: "trdp_ping f = (T_success, f\<lparr>tf_send_bufs := [?e]\<rparr>)"
    using f by (simp add: trdp_ping_def trdp_send_def codec_simps)
  let ?f1 = "f\<lparr>tf_sending := False, tf_send_bufs := []\<rparr>"
  let ?i = "tf_id_for_lost_rate f + 1"
  have "\<not> t_stopped stamp (f\<lparr>tf_send_bufs := [?e], tf_sending := False\<rparr>)"
    using f(1) by (simp add: t_stopped_def)
  then have g: "g = trdp_send ?b DATA_PKT False None True ?f1"
    by (simp add: g_def p trdp_handle_sent_packet_def Let_def)
  have h: "packet_head (tf_big f) (length ?b) ?i DATA_PKT None @ ?b = untyped_frame ?i ?b"
    by (simp add: packet_head_def untyped_frame_def codec_simps Let_def)
  have w: "written (x\<lparr>tf_sending := True\<rparr>) = written x" for x by (simp add: written_def)
  have "written g = written f @ [untyped_frame ?i ?b]"
    unfolding g trdp_send_def using f(2) h
    by (simp add: Let_def w del: append_assoc) (simp add: written_def)
  then show ?thesis using p by auto
qed

section \<open>The answer of the passive side\<close>

text \<open>After accepting, two writes can be in flight at once. The answer is written without marking
  the flow as sending, and its completion clears the mark of the write that was started after it;
  the next message then starts while the one before is still being written.\<close>
lemma accept_lets_writes_overlap:
  fixes user :: "t_notice \<Rightarrow> trdp_flow \<Rightarrow> trdp_flow" and ma mb :: t_message
  assumes f: "tf_state f \<noteq> T_CLOSED" "tf_conn_timer f \<noteq> None" "\<not> tf_sending f" "tf_send_bufs f = []"
  defines "g1 \<equiv> send_message ma (trdp_accept T_success f)"
  defines "g2 \<equiv> trdp_handle_sent_packet user T_success False (om_cancel (tf_mark f)) g1"
  defines "g3 \<equiv> send_message mb g2"
  shows "tf_sending g1 \<and> \<not> tf_sending g2
    \<and> (\<exists>answer i j. written g3 = written f @ [answer, frame i ma, frame j mb])"
proof -
  let ?a = "trdp_accept T_success f"
  obtain answer where a: "written ?a = written f @ [answer]" "tf_state ?a = T_CONNECTED" "\<not> tf_sending ?a"
    "tf_send_bufs ?a = []" "tf_mark ?a = tf_mark f"
  proof -
    obtain t where t: "tf_conn_timer f = Some t" using f(2) by auto
    have "\<exists>b. written ?a = written f @ [b]"
      using f(1) t by (auto simp: trdp_accept_def conn_timer_cancel_def Let_def) (simp_all add: written_def)
    moreover have "tf_state ?a = T_CONNECTED" "\<not> tf_sending ?a" "tf_send_bufs ?a = []" "tf_mark ?a = tf_mark f"
      using f t by (simp_all add: trdp_accept_def conn_timer_cancel_def Let_def t_emit_def)
    ultimately show thesis using that by blast
  qed
  note s1 = send_now [of ?a False ma True, folded trdp_send_reliable_def send_message_def, folded g1_def]
  obtain i where i: "written g1 = written ?a @ [frame i ma]" using s1(1) a by auto
  have "tf_mark g1 = tf_mark f" using s1(2) a by simp
  then have "t_stopped (om_cancel (tf_mark f)) (g1\<lparr>tf_sending := False\<rparr>)"
    by (simp add: t_stopped_def is_canceled_op_def wrappable_less_equal_def)
  then have g2: "g2 = g1\<lparr>tf_sending := False\<rparr>" by (simp add: g2_def trdp_handle_sent_packet_def)
  have w2: "written g2 = written g1" "tf_state g2 = T_CONNECTED" "\<not> tf_sending g2" "tf_send_bufs g2 = []"
    using s1(3,6) a by (simp_all add: g2 written_def)
  note s2 = send_now [of g2 False mb True, folded trdp_send_reliable_def send_message_def, folded g3_def]
  obtain j where "written g3 = written g2 @ [frame j mb]" using s2(1) w2 by auto
  then show ?thesis using s1(7) a i w2 by auto
qed

definition waiting_trdp :: trdp_flow where
  "waiting_trdp = example_trdp\<lparr>tf_state := T_OPENED, tf_passive := True\<rparr>"

section \<open>The next address of a host\<close>

text \<open>When the first address of a host does not answer, the attempt with the next one ends
  nowhere: opening the new socket cancels the operations of the attempt and forgets the owner, so
  neither the outcome of the second connect nor the timer of the attempt has any effect, and the
  owner is never told.\<close>
lemma second_address_never_reported:
  fixes user :: "t_notice \<Rightarrow> trdp_flow \<Rightarrow> trdp_flow"
  assumes f: "\<not> t_stopped (t_stamp f) f" "\<not> tf_passive f" and ec: "ec \<noteq> T_success" "addrs \<noteq> []"
  defines "g \<equiv> connect_done user T_success ec addrs (t_stamp f) f"
  shows "connect_done user answer ec' addrs' (t_stamp f) g = g
    \<and> tf_outs (conn_timer_fired user g) = tf_outs g
    \<and> tf_state g = T_OPENED \<and> \<not> tf_connection g
    \<and> tf_outs g = tf_outs f @ [Close_socket, Async (Connect_to (hd addrs, snd (tf_remote_edp f)) (tl addrs)) (t_stamp f)]"
proof -
  let ?c = "(t_emit Close_socket f)\<lparr>tf_open := False\<rparr>"
  define o1 where "o1 = snd (trdp_open T_success ?c)"
  obtain t where t: "tf_conn_timer (trdp_init ?c) = Some t"
    by (cases "tf_conn_timer f") (simp_all add: trdp_init_def case_prod_unfold t_emit_def Let_def)
  have st: "tf_state (trdp_init ?c) = T_INIT" "tf_connection (trdp_init ?c) = False"
    "tf_mark (trdp_init ?c) = next_op_stamp (set_cancel (tf_mark f))"
    "tf_outs (trdp_init ?c) = tf_outs f @ [Close_socket]" "tf_remote_edp (trdp_init ?c) = tf_remote_edp f"
    using f(2) by (simp_all add: trdp_init_def case_prod_unfold t_emit_def Let_def)
  have open1: "trdp_open T_success ?c = (T_success, o1)"
    and o1: "tf_state o1 = T_OPENED" "tf_connection o1 = False" "tf_conn_timer o1 = Some t"
      "tf_mark o1 = next_op_stamp (set_cancel (tf_mark f))" "tf_outs o1 = tf_outs f @ [Close_socket]"
      "tf_remote_edp o1 = tf_remote_edp f"
    using st t by (simp_all add: o1_def trdp_open_def)
  have g: "g = t_emit (Async (Connect_to (hd addrs, snd (tf_remote_edp f)) (tl addrs)) (t_stamp f))
      ((conn_timer_start (Do_to_close T_timed_out (t_stamp f)) 6000 o1)\<lparr>tf_remote_edp := (hd addrs, snd (tf_remote_edp f))\<rparr>)"
    using f(1) ec open1 o1(3,6) by (simp add: g_def connect_done_def Let_def conn_timer_start_def)
  have gf: "tf_mark g = next_op_stamp (set_cancel (tf_mark f))" "tf_state g = T_OPENED" "\<not> tf_connection g"
    "tf_outs g = tf_outs f @ [Close_socket, Async (Connect_to (hd addrs, snd (tf_remote_edp f)) (tl addrs)) (t_stamp f)]"
    "\<exists>d. tf_conn_timer g = Some \<lparr>ct_action = Some (Do_to_close T_timed_out (t_stamp f)), ct_deadline = Some d\<rparr>"
    using o1 by (simp_all add: g t_emit_def conn_timer_start_def)
  have canceled: "is_canceled_op (t_stamp f) (tf_mark g)"
    by (simp add: gf(1) t_stamp_def is_canceled_op_def next_op_stamp_def set_cancel_def wrappable_less_equal_def)
  have "connect_done user answer ec' addrs' (t_stamp f) g = g"
    using canceled by (simp add: connect_done_def t_stopped_def)
  moreover have "tf_outs (conn_timer_fired user g) = tf_outs g"
    using canceled gf(5)
    by (auto simp: conn_timer_fired_def trdp_to_close_state_def t_stopped_def Let_def)
  ultimately show ?thesis using gf by blast
qed

definition connecting_trdp :: trdp_flow where
  "connecting_trdp = example_trdp\<lparr>tf_state := T_CONNECTING, tf_remote_edp := (1, 80)\<rparr>"

text \<open>The bounds of the retransmission timeout are applied in the wrong direction: every estimate
  gives 100.\<close>

lemma trdp_rto_constant:
  assumes "0 < sint (word_of_int (tf_clock f - t) :: u32)" "sint (word_of_int (tf_clock f - t) :: u32) < 10000"
  shows "tf_rto (trdp_update_rtt t f) = 100"
  using assms by (simp add: trdp_update_rtt_def Let_def)

text \<open>The length of a long message is cut to 16 bits.\<close>

lemma long_message_cut: "take 2 (packet_head big 65532 i DATA_PKT (Some t)) = [0, 0]"
proof -
  have "bytes_of_word (65536 :: u16) = [0, 0]" by code_simp
  then show ?thesis by (simp add: packet_head_def codec_simps Let_def)
qed

end
