(* ===== verification/Http_Connection.thy ===== *)
theory Http_Connection
  imports Http_Parse Op_Mark
begin

text \<open>\<open>p2engine/http/http_connection_impl\<close>: one HTTP connection over a TCP socket, active or
  accepted, and the calls of \<open>http_connection\<close> that reach it. Operations of the socket, posted
  handlers and calls of the owner are effects appended to \<open>hc_outs\<close>; a completed operation is a
  handler of its own. The owner's callbacks run inside the handlers: \<open>user\<close> is what they do to the
  connection.\<close>

section \<open>State\<close>

datatype hc_phase = HC_INIT | HC_OPENED | HC_CONNECTING | HC_CONNECTED | HC_CLOSING | HC_CLOSED

fun hc_rank :: "hc_phase \<Rightarrow> nat" where
  "hc_rank HC_INIT = 0"
| "hc_rank HC_OPENED = 1"
| "hc_rank HC_CONNECTING = 2"
| "hc_rank HC_CONNECTED = 3"
| "hc_rank HC_CLOSING = 4"
| "hc_rank HC_CLOSED = 5"

datatype hc_receiving = HC_RECVING | HC_RECVED

datatype hc_error = HE_ok | HE_timed_out | HE_in_progress | HE_not_socket | HE_host_not_found
  | HE_already_open | HE_message_size | HE_io nat

datatype hc_notice = HN_connected hc_error | HN_disconnected hc_error | HN_sendout
  | HN_request request | HN_response response | HN_packet string

datatype hc_effect =
    Read_some op_stamp_t
  | Write_all string op_stamp_t
  | Resolve_name "string \<times> u16" op_stamp_t
  | Connect_socket "u32 \<times> u16" "u32 list" op_stamp_t
  | Post_alert hc_error op_stamp_t
  | Post_received op_stamp_t
  | Tell hc_notice
  | Close_async

text \<open>A timer: what it is bound to, and when it runs out if it has been started.\<close>

datatype hc_action = To_close hc_error op_stamp_t | Retry op_stamp_t | Restart op_stamp_t

record hc_timer =
  ht_action :: "hc_action option"
  ht_deadline :: "tick option"

record http_conn =
  hc_mark :: operation_mark
  hc_state :: hc_phase
  hc_recv_state :: hc_receiving
  hc_connection :: bool
  hc_open :: bool
  hc_passive :: bool
  hc_gzip :: bool
  hc_blocked :: bool
  hc_header_recvd :: bool
  hc_sending :: bool
  hc_send_bufs :: "string list"
  hc_send_len :: int
  hc_recv_buf :: string
  hc_conn_timer :: "hc_timer option"
  hc_retry_timer :: "hc_timer option"
  hc_resolve_timer :: "hc_timer option"
  hc_life_timer :: "hc_timer option"
  hc_remote_host :: string
  hc_query :: "(string \<times> u16) option"
  hc_remote_edp :: "u32 \<times> u16"
  hc_local_edp :: "u32 \<times> u16"
  hc_clock :: tick
  hc_outs :: "hc_effect list"

type_synonym hc_user = "hc_notice \<Rightarrow> http_conn \<Rightarrow> http_conn"

definition hc_emit :: "hc_effect \<Rightarrow> http_conn \<Rightarrow> http_conn" where
  "hc_emit e c = c\<lparr>hc_outs := hc_outs c @ [e]\<rparr>"

definition hc_stamp :: "http_conn \<Rightarrow> op_stamp_t" where
  "hc_stamp c = om_stamp (hc_mark c)"

definition hc_canceled :: "op_stamp_t \<Rightarrow> http_conn \<Rightarrow> bool" where
  "hc_canceled stamp c = is_canceled_op stamp (hc_mark c)"

text \<open>A call of the owner.\<close>
definition hc_tell :: "hc_user \<Rightarrow> hc_notice \<Rightarrow> http_conn \<Rightarrow> http_conn" where
  "hc_tell user n c = user n (hc_emit (Tell n) c)"

definition ht_cancel :: "hc_timer option \<Rightarrow> hc_timer option" where
  "ht_cancel t = map_option (ht_deadline_update (\<lambda>_. None)) t"

definition ht_start :: "hc_action \<Rightarrow> tick \<Rightarrow> hc_timer option" where
  "ht_start a d = Some \<lparr>ht_action = Some a, ht_deadline = Some d\<rparr>"

section \<open>Opening\<close>

definition hc_init :: "http_conn \<Rightarrow> http_conn" where
  "hc_init c =
     c\<lparr>hc_sending := False, hc_blocked := True, hc_header_recvd := False, hc_recv_state := HC_RECVED,
       hc_state := (if hc_passive c then HC_CONNECTED else HC_INIT), hc_recv_buf := [],
       hc_send_bufs := [],
       hc_conn_timer := (case hc_conn_timer c of
           None \<Rightarrow> Some \<lparr>ht_action = None, ht_deadline = None\<rparr>
         | t \<Rightarrow> ht_cancel t),
       hc_send_len := 0\<rparr>"

text \<open>The constructor; what it does not assign keeps the value of the argument. The socket of a
  passive connection is the one the acceptor accepts into it.\<close>
definition hc_construct :: "bool \<Rightarrow> http_conn \<Rightarrow> http_conn" where
  "hc_construct passive mem =
     hc_init (mem\<lparr>hc_mark := operation_mark_new, hc_connection := True, hc_passive := passive,
       hc_open := passive, hc_gzip := False, hc_recv_buf := [], hc_send_bufs := [], hc_conn_timer := None,
       hc_retry_timer := None, hc_resolve_timer := None, hc_life_timer := None, hc_remote_host := [],
       hc_query := None, hc_remote_edp := (0, 0), hc_local_edp := (0, 0), hc_outs := []\<rparr>)"

text \<open>\<open>__open\<close>. What the socket answers to opening and to binding are arguments.\<close>
definition hc_open_socket ::
  "hc_error \<Rightarrow> hc_error \<Rightarrow> u32 \<times> u16 \<Rightarrow> http_conn \<Rightarrow> hc_error \<times> http_conn" where
  "hc_open_socket opened bound local c =
     (let c1 = hc_init c in
      if hc_state c1 \<noteq> HC_INIT then (HE_already_open, c1)
      else
        let c2 = c1\<lparr>hc_passive := False, hc_local_edp := local\<rparr> in
        if opened \<noteq> HE_ok then (opened, c2)
        else
          let c3 = c2\<lparr>hc_open := True\<rparr>; ec = (if snd local \<noteq> 0 then bound else HE_ok) in
          if ec \<noteq> HE_ok then (ec, (hc_emit Close_async c3)\<lparr>hc_open := False\<rparr>)
          else (HE_ok, c3\<lparr>hc_state := HC_OPENED\<rparr>))"

text \<open>\<open>open\<close>. \<open>None\<close> is an infinite life time.\<close>
definition hc_open_with ::
  "hc_error \<Rightarrow> hc_error \<Rightarrow> u32 \<times> u16 \<Rightarrow> tick option \<Rightarrow> http_conn \<Rightarrow> hc_error \<times> http_conn" where
  "hc_open_with opened bound local life_time c =
     (let c1 = c\<lparr>hc_mark := next_op_stamp (set_cancel (hc_mark c))\<rparr>;
          c2 = (if life_time \<noteq> None
                then c1\<lparr>hc_life_timer := Some \<lparr>ht_action = Some (To_close HE_timed_out (hc_stamp c1)),
                                             ht_deadline = None\<rparr>\<rparr>
                else c1)
      in hc_open_socket opened bound local c2)"

section \<open>Closing\<close>

definition hc_close :: "bool \<Rightarrow> http_conn \<Rightarrow> http_conn" where
  "hc_close graceful c =
     (if hc_state c = HC_CLOSED then c
      else
        let c1 = c\<lparr>hc_mark := set_cancel (hc_mark c), hc_life_timer := None, hc_retry_timer := None,
                   hc_connection := False\<rparr>
        in if graceful \<and> hc_send_bufs c1 \<noteq> [] then c1\<lparr>hc_state := HC_CLOSING\<rparr>
           else (hc_emit Close_async c1)\<lparr>hc_open := False, hc_state := HC_CLOSED\<rparr>)"

text \<open>\<open>__to_close_state\<close>: the owner is told after the connection has let it go.\<close>
definition hc_to_close_state :: "hc_user \<Rightarrow> hc_error \<Rightarrow> op_stamp_t \<Rightarrow> http_conn \<Rightarrow> http_conn" where
  "hc_to_close_state user ec stamp c =
     (if hc_state c \<noteq> HC_CLOSING \<and> (hc_canceled stamp c \<or> hc_state c = HC_CLOSED) then c
      else
        let c1 = hc_close True c in
        if \<not> hc_connection c then c1
        else if hc_passive c
        then if hc_state c = HC_CONNECTED then hc_tell user (HN_disconnected ec) c1 else c1
        else if hc_rank (hc_state c) < hc_rank HC_CONNECTED
        then hc_tell user (HN_connected ec) c1
        else hc_tell user (HN_disconnected ec) c1)"

definition hc_allert_connected :: "hc_user \<Rightarrow> hc_error \<Rightarrow> op_stamp_t \<Rightarrow> http_conn \<Rightarrow> http_conn" where
  "hc_allert_connected user ec stamp c =
     (if hc_canceled stamp c \<or> hc_state c = HC_CLOSED then c
      else if hc_connection c then hc_tell user (HN_connected ec) c else c)"

section \<open>Receiving\<close>

definition hc_do_keep_receiving :: "op_stamp_t \<Rightarrow> http_conn \<Rightarrow> http_conn" where
  "hc_do_keep_receiving stamp c =
     (if hc_canceled stamp c \<or> hc_state c \<noteq> HC_CONNECTED then c
      else hc_emit (Read_some stamp) (c\<lparr>hc_recv_state := HC_RECVING\<rparr>))"

definition hc_keep_async_receiving :: "http_conn \<Rightarrow> http_conn" where
  "hc_keep_async_receiving c =
     (if hc_blocked c \<and> hc_recv_state c \<noteq> HC_RECVING
      then
        let c1 = c\<lparr>hc_blocked := False\<rparr> in
        if hc_header_recvd c1 \<and> hc_recv_buf c1 \<noteq> [] then hc_emit (Post_received (hc_stamp c1)) c1
        else hc_do_keep_receiving (hc_stamp c1) c1
      else c)"

definition hc_block_async_receiving :: "http_conn \<Rightarrow> http_conn" where
  "hc_block_async_receiving c = c\<lparr>hc_blocked := True\<rparr>"

definition hc_dispatch_packet :: "hc_user \<Rightarrow> string \<Rightarrow> http_conn \<Rightarrow> http_conn" where
  "hc_dispatch_packet user data c = (if hc_connection c then hc_tell user (HN_packet data) c else c)"

text \<open>The end of \<open>__async_recv_handler\<close>.\<close>
definition hc_read_on :: "op_stamp_t \<Rightarrow> http_conn \<Rightarrow> http_conn" where
  "hc_read_on stamp c = hc_emit (Read_some stamp) (c\<lparr>hc_recv_state := HC_RECVING\<rparr>)"

text \<open>Parsing the whole buffer into a cleared message of the right kind: the result, the notice
  that hands it to the owner, and whether its content is compressed.\<close>
definition hc_parse_header :: "bool \<Rightarrow> string \<Rightarrow> int \<times> hc_notice \<times> bool" where
  "hc_parse_header passive s =
     (let zipped = (\<lambda>e. e = ''gzip'' \<or> e = ''x-gzip'') in
      if passive
      then case request_parse 0 s (request_clear (request_new ''HTTP/1.1'')) of
             (k, q) \<Rightarrow> (k, HN_request q, zipped (get_or ''Content-Encoding'' [] q))
      else case response_parse 0 s (response_clear response_new) of
             (k, q) \<Rightarrow> (k, HN_response q, zipped (get_or ''Content-Encoding'' [] q)))"

text \<open>\<open>__async_recv_handler\<close>; what was read is in the buffer.\<close>
definition hc_recv_handler :: "hc_user \<Rightarrow> hc_error \<Rightarrow> op_stamp_t \<Rightarrow> http_conn \<Rightarrow> http_conn" where
  "hc_recv_handler user ec stamp c =
     (if hc_canceled stamp c \<or> hc_state c = HC_CLOSED \<or> \<not> hc_connection c then c
      else if ec \<noteq> HE_ok then hc_to_close_state user ec stamp (c\<lparr>hc_send_bufs := []\<rparr>)
      else
        let c1 = c\<lparr>hc_recv_state := HC_RECVED\<rparr> in
        if hc_blocked c1 then c1
        else if \<not> hc_header_recvd c1
        then
          case hc_parse_header (hc_passive c1) (hc_recv_buf c1) of (k, notice, zipped) \<Rightarrow>
            if k > 0
            then
              let rest = drop (nat k) (hc_recv_buf c1);
                  c2 = hc_tell user notice (c1\<lparr>hc_header_recvd := True, hc_recv_buf := [], hc_gzip := zipped\<rparr>)
              in if rest \<noteq> [] \<and> \<not> (hc_canceled stamp c2 \<or> hc_state c2 = HC_CLOSED)
                 then if hc_blocked c2 then c2\<lparr>hc_recv_buf := hc_recv_buf c2 @ rest\<rparr>
                      else hc_read_on stamp (hc_dispatch_packet user rest c2)
                 else hc_read_on stamp c2
            else if k = 0 then hc_read_on stamp (c1\<lparr>hc_recv_state := HC_RECVING\<rparr>)
            else hc_to_close_state user HE_message_size stamp (c1\<lparr>hc_recv_buf := []\<rparr>)
        else hc_read_on stamp (hc_dispatch_packet user (hc_recv_buf c1) (c1\<lparr>hc_recv_buf := []\<rparr>)))"

text \<open>A completed read: the socket puts what it has into the buffer.\<close>
definition hc_read_done :: "hc_user \<Rightarrow> hc_error \<Rightarrow> string \<Rightarrow> op_stamp_t \<Rightarrow> http_conn \<Rightarrow> http_conn" where
  "hc_read_done user ec data stamp c =
     hc_recv_handler user ec stamp (c\<lparr>hc_recv_buf := hc_recv_buf c @ data\<rparr>)"

section \<open>Sending\<close>

definition hc_async_send :: "string \<Rightarrow> http_conn \<Rightarrow> http_conn" where
  "hc_async_send buf c =
     (if hc_state c \<noteq> HC_CONNECTED then c
      else
        let c1 = c\<lparr>hc_send_len := hc_send_len c + int (length buf)\<rparr> in
        if hc_sending c1 then c1\<lparr>hc_send_bufs := hc_send_bufs c1 @ [buf]\<rparr>
        else hc_emit (Write_all buf (hc_stamp c1)) (c1\<lparr>hc_sending := True\<rparr>))"

definition hc_send_handler ::
  "hc_user \<Rightarrow> hc_error \<Rightarrow> nat \<Rightarrow> op_stamp_t \<Rightarrow> http_conn \<Rightarrow> http_conn" where
  "hc_send_handler user ec len stamp c =
     (if hc_state c \<noteq> HC_CLOSING \<and> (hc_canceled stamp c \<or> hc_state c = HC_CLOSED) then c
      else
        let c1 = c\<lparr>hc_sending := False\<rparr> in
        if ec = HE_ok
        then
          let c2 = c1\<lparr>hc_send_len := hc_send_len c1 - int len\<rparr> in
          case hc_send_bufs c2 of
            b # bs \<Rightarrow> hc_emit (Write_all b stamp) (c2\<lparr>hc_send_bufs := bs, hc_sending := True\<rparr>)
          | [] \<Rightarrow>
              if hc_state c2 = HC_CLOSING then hc_to_close_state user ec stamp c2
              else if \<not> hc_canceled stamp c2 \<and> hc_connection c2 then hc_tell user HN_sendout c2
              else c2
        else hc_to_close_state user ec stamp (c1\<lparr>hc_send_bufs := [], hc_send_len := 0\<rparr>))"

section \<open>Connecting\<close>

text \<open>\<open>__async_resolve_connect_coro\<close> from its beginning, and the retry.\<close>
definition hc_resolve_connect :: "op_stamp_t \<Rightarrow> http_conn \<Rightarrow> http_conn" where
  "hc_resolve_connect stamp c =
     (if hc_canceled stamp c \<or> hc_state c = HC_CLOSED \<or> \<not> hc_connection c then c
      else
        let c1 = c\<lparr>hc_state := HC_CONNECTING\<rparr> in
        case hc_query c1 of
          Some q \<Rightarrow> hc_emit (Resolve_name q stamp)
                      (c1\<lparr>hc_resolve_timer := ht_start (Retry stamp) (hc_clock c1 + 3000)\<rparr>)
        | None \<Rightarrow> hc_emit (Connect_socket (hc_remote_edp c1) [] stamp) c1)"

definition hc_retry :: "op_stamp_t \<Rightarrow> http_conn \<Rightarrow> http_conn" where
  "hc_retry stamp c =
     (if hc_canceled stamp c then c
      else c\<lparr>hc_resolve_timer := None,
             hc_retry_timer := ht_start (Restart stamp) (hc_clock c + 100)\<rparr>)"

definition or_80 :: "u16 \<Rightarrow> u16" where
  "or_80 p = (if p = 0 then 80 else p)"

definition hc_resolved :: "hc_error \<Rightarrow> u32 list \<Rightarrow> op_stamp_t \<Rightarrow> http_conn \<Rightarrow> http_conn" where
  "hc_resolved err itr stamp c =
     (if hc_canceled stamp c \<or> hc_state c = HC_CLOSED \<or> \<not> hc_connection c then c
      else
        let c1 = c\<lparr>hc_resolve_timer := None\<rparr> in
        if err \<noteq> HE_ok \<or> itr = [] then hc_retry stamp c1
        else
          let c2 = c1\<lparr>hc_remote_edp := (hd itr, or_80 (snd (hc_remote_edp c1)))\<rparr>
          in hc_emit (Connect_socket (hc_remote_edp c2) (tl itr) stamp) c2)"

text \<open>The point after a connect: the next address on a new socket, a retry, or the end.\<close>
definition hc_connect_done ::
  "hc_user \<Rightarrow> hc_error \<Rightarrow> hc_error \<Rightarrow> hc_error \<Rightarrow> u32 list \<Rightarrow> op_stamp_t \<Rightarrow> http_conn \<Rightarrow> http_conn" where
  "hc_connect_done user opened bound err itr stamp c =
     (if hc_canceled stamp c \<or> hc_state c = HC_CLOSED \<or> \<not> hc_connection c then c
      else if err \<noteq> HE_ok \<and> itr \<noteq> []
      then
        let (ec, c1) = hc_open_socket opened bound (hc_local_edp c) (c\<lparr>hc_open := False\<rparr>) in
        if ec \<noteq> HE_ok then hc_retry stamp c1
        else
          let c2 = c1\<lparr>hc_remote_edp := (hd itr, snd (hc_remote_edp c1))\<rparr>
          in hc_emit (Connect_socket (hc_remote_edp c2) (tl itr) stamp) c2
      else if err \<noteq> HE_ok then hc_retry stamp c
      else
        let c1 = c\<lparr>hc_conn_timer := ht_cancel (hc_conn_timer c),
                   hc_retry_timer := ht_cancel (hc_retry_timer c),
                   hc_resolve_timer := None, hc_query := None, hc_state := HC_CONNECTED\<rparr>;
            c2 = hc_keep_async_receiving c1
        in if hc_connection c2 then hc_tell user (HN_connected err) c2 else c2)"

text \<open>\<open>async_connect\<close> with an endpoint; a time-out of \<open>None\<close> is infinite. Whatever went wrong
  is reported, and the attempt goes on.\<close>
definition hc_async_connect ::
  "hc_error \<Rightarrow> hc_error \<Rightarrow> u32 \<times> u16 \<Rightarrow> tick option \<Rightarrow> http_conn \<Rightarrow> http_conn" where
  "hc_async_connect opened bound edp time_out c =
     (let c1 = c\<lparr>hc_mark := next_op_stamp (set_cancel (hc_mark c))\<rparr>;
          (ec1, c2) = (if hc_state c1 = HC_INIT then hc_open_socket opened bound (0, 0) c1
                       else (if hc_state c1 \<noteq> HC_OPENED then HE_in_progress else HE_ok, c1));
          ec = (if \<not> hc_connection c2 then HE_not_socket else ec1);
          stamp = hc_stamp c2;
          c3 = (if ec \<noteq> HE_ok then hc_emit (Post_alert ec stamp) c2 else c2);
          c4 = (case time_out of
                  None \<Rightarrow> c3
                | Some t \<Rightarrow> c3\<lparr>hc_conn_timer := ht_start (To_close HE_timed_out stamp) (hc_clock c3 + t)\<rparr>);
          c5 = c4\<lparr>hc_query := None, hc_state := HC_CONNECTING\<rparr>
      in if fst edp \<noteq> 0 \<and> snd edp \<noteq> 0 then hc_resolve_connect stamp (c5\<lparr>hc_remote_edp := edp\<rparr>)
         else if hc_remote_host c5 \<noteq> []
         then
           let c6 = c5\<lparr>hc_remote_edp := (fst (hc_remote_edp c5), or_80 (snd (hc_remote_edp c5)))\<rparr>
           in hc_resolve_connect stamp (c6\<lparr>hc_query := Some (hc_remote_host c6, snd (hc_remote_edp c6))\<rparr>)
         else hc_emit (Post_alert HE_host_not_found stamp) c5)"

text \<open>\<open>async_connect\<close> with a host: an address in text is an argument, \<open>None\<close> a name.\<close>
definition hc_connect_host ::
  "hc_error \<Rightarrow> hc_error \<Rightarrow> u32 option \<Rightarrow> string \<Rightarrow> u16 \<Rightarrow> tick option \<Rightarrow> http_conn \<Rightarrow> http_conn" where
  "hc_connect_host opened bound addr name p time_out c =
     (case addr of
        Some a \<Rightarrow> hc_async_connect opened bound (a, p) time_out
                    (c\<lparr>hc_remote_host := [], hc_remote_edp := (a, p)\<rparr>)
      | None \<Rightarrow> hc_async_connect opened bound (0, 0) time_out
                  (c\<lparr>hc_remote_host := name, hc_remote_edp := (0, p)\<rparr>))"

section \<open>Timers\<close>

definition hc_act :: "hc_user \<Rightarrow> hc_action option \<Rightarrow> http_conn \<Rightarrow> http_conn" where
  "hc_act user a c =
     (case a of
        None \<Rightarrow> c
      | Some (To_close ec stamp) \<Rightarrow> hc_to_close_state user ec stamp c
      | Some (Retry stamp) \<Rightarrow> hc_retry stamp c
      | Some (Restart stamp) \<Rightarrow> hc_resolve_connect stamp c)"

end
