(* ===== verification/Http_Conn_Stream.thy ===== *)
theory Http_Conn_Stream
  imports Http_Connection
begin

text \<open>What an HTTP connection hands to its owner: the message in whatever pieces it arrives, and the
  content behind it.\<close>

section \<open>The parsers have decided\<close>

text \<open>A result other than zero does not change when more arrives, and counts characters that are
  there.\<close>

lemma header_parse_decided:
  "header_parse n a h = (k, h1) \<Longrightarrow> k \<noteq> 0 \<Longrightarrow>
     header_parse n (a @ b) h = (k, h1) \<and> k \<le> int (n + length a)"
proof (induction a arbitrary: n h)
  case (Cons c a)
  obtain v h2 where v: "header_char c h = (v, h2)" by (cases "header_char c h")
  show ?case using Cons.prems Cons.IH [of "n + 1" h2] v by (cases v) auto
qed simp

lemma parse_fields_decided:
  assumes "parse_fields n a h = (k, h1)" and "k \<noteq> 0"
  shows "parse_fields n (a @ b) h = (k, h1) \<and> k \<le> int (n + length a)"
proof -
  obtain j h2 where j: "header_parse 0 a h = (j, h2)" by (cases "header_parse 0 a h")
  then have "j \<noteq> 0" using assms by (auto simp: parse_fields_def split: if_splits)
  from header_parse_decided [OF j this, of b] show ?thesis
    using assms j by (auto simp: parse_fields_def split: if_splits)
qed

lemma request_parse_decided:
  "request_parse n a r = (k, r1) \<Longrightarrow> k \<noteq> 0 \<Longrightarrow>
     request_parse n (a @ b) r = (k, r1) \<and> k \<le> int (n + length a)"
proof (induction a arbitrary: n r)
  case (Cons c a)
  note f = parse_fields_decided [of n "c # a" _ k r1 b]
  show ?case
    using Cons.prems Cons.IH [of "n + 1"] f
    by (cases "h_state r") (auto simp: Let_def split: if_splits)
qed simp

lemma response_parse_decided:
  "response_parse n a r = (k, r1) \<Longrightarrow> k \<noteq> 0 \<Longrightarrow>
     response_parse n (a @ b) r = (k, r1) \<and> k \<le> int (n + length a)"
proof (induction a arbitrary: n r)
  case (Cons c a)
  note f = parse_fields_decided [of n "c # a" _ k r1 b]
  show ?case
    using Cons.prems Cons.IH [of "n + 1"] f
    by (cases "h_state r") (auto simp: Let_def split: if_splits)
qed simp

text \<open>The parser a connection uses on its buffer, as what the rest of the development needs of
  it: on a part of the head it asks for more, on all of it and whatever follows it stops at the end
  of the head and gives the notice.\<close>

definition head_parses :: "bool \<Rightarrow> string \<Rightarrow> hc_notice \<Rightarrow> bool \<Rightarrow> bool" where
  "head_parses passive msg n zipped \<longleftrightarrow> msg \<noteq> []
     \<and> (\<forall>body. hc_parse_header passive (msg @ body) = (int (length msg), n, zipped))
     \<and> (\<forall>a c. a @ c = msg \<and> c \<noteq> [] \<longrightarrow> fst (hc_parse_header passive a) = 0)"

lemma head_of_parser:
  assumes decided: "\<And>a k x b. p a = (k, x) \<Longrightarrow> k \<noteq> 0 \<Longrightarrow> p (a @ b) = (k, x) \<and> k \<le> int (length a)"
    and whole: "\<And>body. p (msg @ body) = (int (length msg), q)" and "msg \<noteq> []"
    and parser: "\<And>s. hc_parse_header passive s = (case p s of (k, x) \<Rightarrow> (k, note x, zp x))"
  shows "head_parses passive msg (note q) (zp q)"
proof -
  have zero: "fst (p a) = 0" if "a @ c = msg" "c \<noteq> []" for a c
  proof (rule ccontr)
    assume "fst (p a) \<noteq> 0"
    then have d: "p (a @ c) = p a \<and> fst (p a) \<le> int (length a)"
      using decided [of a "fst (p a)" "snd (p a)" c] by simp
    have "length msg = length a + length c" using arg_cong [OF that(1), of length] by simp
    then have "fst (p (a @ c)) = int (length a + length c)" using whole [of "[]"] that(1) by simp
    then show False using d that(2) by simp
  qed
  have "fst (hc_parse_header passive a) = 0" if "a @ c = msg" "c \<noteq> []" for a c
    using zero [OF that] by (cases "p a") (simp add: parser)
  moreover have "hc_parse_header passive (msg @ body) = (int (length msg), note q, zp q)" for body
    by (simp add: parser whole)
  ultimately show ?thesis
    unfolding head_parses_def using assms(3) by blast
qed

lemma request_head:
  assumes "request_ok r"
  shows "\<exists>q zipped. head_parses True (request_text r) (HN_request q) zipped
    \<and> r_method q = r_method r \<and> r_uri q = r_uri r \<and> h_version q = h_version r \<and> h_map q = h_map r"
proof -
  define msg where "msg = request_text r"
  let ?p = "\<lambda>s. request_parse 0 s (request_clear (request_new ''HTTP/1.1''))"
  let ?z = "\<lambda>q. get_or ''Content-Encoding'' [] q = ''gzip'' \<or> get_or ''Content-Encoding'' [] q = ''x-gzip''"
  obtain q where q: "\<And>body. ?p (msg @ body) = (int (length msg), q)"
    "r_method q = r_method r" "r_uri q = r_uri r" "h_version q = h_version r" "h_map q = h_map r"
    using request_reads_back [OF assms, of _ "request_new ''HTTP/1.1''"] by (auto simp: msg_def)
  have "head_parses True msg (HN_request q) (?z q)"
  proof (rule head_of_parser [of ?p])
    show "msg \<noteq> []" by (simp add: msg_def request_text_def)
    fix a k x b assume "?p a = (k, x)" and "k \<noteq> (0 :: int)"
    then show "?p (a @ b) = (k, x) \<and> k \<le> int (length a)"
      using request_parse_decided [of 0 a _ k x b] by simp
  qed (use q(1) in \<open>simp_all add: hc_parse_header_def\<close>)
  then show ?thesis using q(2-) unfolding msg_def by blast
qed

lemma response_head:
  assumes "response_ok r"
  shows "\<exists>q zipped. head_parses False (response_serialize r) (HN_response q) zipped
    \<and> h_version q = h_version r \<and> s_status q = s_status r \<and> h_map q = h_map r"
proof -
  define msg where "msg = response_serialize r"
  let ?p = "\<lambda>s. response_parse 0 s (response_clear response_new)"
  let ?z = "\<lambda>q. get_or ''Content-Encoding'' [] q = ''gzip'' \<or> get_or ''Content-Encoding'' [] q = ''x-gzip''"
  obtain q where q: "\<And>body. ?p (msg @ body) = (int (length msg), q)"
    "h_version q = h_version r" "s_status q = s_status r" "h_map q = h_map r"
    using response_reads_back [OF assms, of _ response_new] by (auto simp: msg_def)
  have "head_parses False msg (HN_response q) (?z q)"
  proof (rule head_of_parser [of ?p])
    show "msg \<noteq> []" by (simp add: msg_def response_serialize_def)
    fix a k x b assume "?p a = (k, x)" and "k \<noteq> (0 :: int)"
    then show "?p (a @ b) = (k, x) \<and> k \<le> int (length a)"
      using response_parse_decided [of 0 a _ k x b] by simp
  qed (use q(1) in \<open>simp_all add: hc_parse_header_def\<close>)
  then show ?thesis using q(2-) unfolding msg_def by blast
qed


section \<open>A connection that listens\<close>

fun tell_of :: "hc_effect \<Rightarrow> hc_notice list" where
  "tell_of (Tell n) = [n]"
| "tell_of _ = []"

text \<open>What the owner has been told.\<close>
definition told :: "http_conn \<Rightarrow> hc_notice list" where
  "told c = concat (map tell_of (hc_outs c))"

text \<open>What a handler that receives depends on.\<close>
definition hc_rx :: "http_conn \<Rightarrow> operation_mark \<times> hc_phase \<times> bool \<times> bool \<times> bool" where
  "hc_rx c = (hc_mark c, hc_state c, hc_connection c, hc_blocked c, hc_passive c)"

definition hc_in :: "http_conn \<Rightarrow> bool \<times> string" where
  "hc_in c = (hc_header_recvd c, hc_recv_buf c)"

text \<open>An owner that neither closes nor blocks the connection when it is called; it may send.\<close>
definition hc_quiet :: "hc_user \<Rightarrow> bool" where
  "hc_quiet user = (\<forall>n c. hc_rx (user n c) = hc_rx c \<and> hc_in (user n c) = hc_in c \<and> told (user n c) = told c)"

definition hc_listening :: "op_stamp_t \<Rightarrow> http_conn \<Rightarrow> bool" where
  "hc_listening stamp c = (\<not> hc_canceled stamp c \<and> hc_state c = HC_CONNECTED \<and> hc_connection c
     \<and> \<not> hc_blocked c)"

text \<open>The socket completes one read after the other.\<close>
fun hc_feed :: "hc_user \<Rightarrow> op_stamp_t \<Rightarrow> string list \<Rightarrow> http_conn \<Rightarrow> http_conn" where
  "hc_feed user stamp [] c = c"
| "hc_feed user stamp (d # ds) c = hc_feed user stamp ds (hc_read_done user HE_ok d stamp c)"

lemma told_emit [simp]: "told (hc_emit e c) = told c @ tell_of e"
  by (simp add: told_def hc_emit_def)

lemma told_update [simp]:
  "told (c\<lparr>hc_recv_state := x1\<rparr>) = told c" "told (c\<lparr>hc_recv_buf := x2\<rparr>) = told c"
  "told (c\<lparr>hc_header_recvd := x3\<rparr>) = told c" "told (c\<lparr>hc_gzip := x4\<rparr>) = told c"
  "told (c\<lparr>hc_blocked := x5\<rparr>) = told c"
  by (simp_all add: told_def)

lemma hc_rx_update [simp]:
  "hc_rx (c\<lparr>hc_recv_state := x1\<rparr>) = hc_rx c" "hc_rx (c\<lparr>hc_recv_buf := x2\<rparr>) = hc_rx c"
  "hc_rx (c\<lparr>hc_header_recvd := x3\<rparr>) = hc_rx c" "hc_rx (c\<lparr>hc_gzip := x4\<rparr>) = hc_rx c"
  "hc_rx (hc_emit e c) = hc_rx c"
  "hc_in (hc_emit e c) = hc_in c" "hc_in (c\<lparr>hc_recv_state := x1\<rparr>) = hc_in c"
  "hc_in (c\<lparr>hc_recv_buf := x2\<rparr>) = (fst (hc_in c), x2)"
  "hc_in (c\<lparr>hc_header_recvd := x3\<rparr>) = (x3, snd (hc_in c))" "hc_in (c\<lparr>hc_gzip := x4\<rparr>) = hc_in c"
  by (simp_all add: hc_rx_def hc_in_def hc_emit_def)

lemma hc_listening_rx: "hc_rx c = hc_rx d \<Longrightarrow> hc_listening stamp c = hc_listening stamp d"
  by (simp add: hc_rx_def hc_listening_def hc_canceled_def)

lemma quiet_tell:
  assumes "hc_quiet user"
  shows "hc_rx (hc_tell user n c) = hc_rx c" and "hc_in (hc_tell user n c) = hc_in c"
    and "told (hc_tell user n c) = told c @ [n]"
  using assms by (simp_all add: hc_quiet_def hc_tell_def)

lemma read_on_same [simp]:
  "hc_rx (hc_read_on stamp c) = hc_rx c" "hc_in (hc_read_on stamp c) = hc_in c"
  "told (hc_read_on stamp c) = told c"
  by (simp_all add: hc_read_on_def)

lemma packet_told:
  assumes "hc_quiet user" and "hc_connection c"
  shows "hc_rx (hc_dispatch_packet user s c) = hc_rx c" and "hc_in (hc_dispatch_packet user s c) = hc_in c"
    and "told (hc_dispatch_packet user s c) = told c @ [HN_packet s]"
  using assms by (simp_all add: hc_dispatch_packet_def quiet_tell)

lemma read_part:
  assumes l: "hc_listening stamp c" and i: "hc_in c = (False, a)"
    and p: "fst (hc_parse_header (hc_passive c) (a @ d)) = 0"
  shows "hc_rx (hc_read_done user HE_ok d stamp c) = hc_rx c"
    and "hc_in (hc_read_done user HE_ok d stamp c) = (False, a @ d)"
    and "told (hc_read_done user HE_ok d stamp c) = told c"
proof -
  obtain n z where z: "hc_parse_header (hc_passive c) (a @ d) = (0, n, z)"
    using p by (cases "hc_parse_header (hc_passive c) (a @ d)") auto
  have "hc_read_done user HE_ok d stamp c
    = hc_read_on stamp (c\<lparr>hc_recv_buf := a @ d, hc_recv_state := HC_RECVING\<rparr>)"
    using l i z
    by (simp add: hc_read_done_def hc_recv_handler_def hc_listening_def hc_in_def hc_canceled_def)
  then show "hc_rx (hc_read_done user HE_ok d stamp c) = hc_rx c"
    "hc_in (hc_read_done user HE_ok d stamp c) = (False, a @ d)"
    "told (hc_read_done user HE_ok d stamp c) = told c"
    using i by simp_all
qed

lemma read_head:
  assumes user: "hc_quiet user" and l: "hc_listening stamp c" and i: "hc_in c = (False, a)"
    and p: "head_parses (hc_passive c) msg n z" and m: "a @ d = msg @ rest"
  shows "hc_rx (hc_read_done user HE_ok d stamp c) = hc_rx c"
    and "hc_in (hc_read_done user HE_ok d stamp c) = (True, [])"
    and "told (hc_read_done user HE_ok d stamp c)
      = told c @ n # (if rest = [] then [] else [HN_packet rest])"
proof -
  define c2 where "c2 = hc_tell user n (c\<lparr>hc_recv_state := HC_RECVED, hc_header_recvd := True, hc_recv_buf := [], hc_gzip := z\<rparr>)"
  have z: "hc_parse_header (hc_passive c) (a @ d) = (int (length msg), n, z)" and "msg \<noteq> []"
    using p m by (simp_all add: head_parses_def)
  have c2: "hc_rx c2 = hc_rx c" "hc_in c2 = (True, [])" "told c2 = told c @ [n]"
    unfolding c2_def by (simp_all add: quiet_tell [OF user])
  have l2: "hc_listening stamp c2" using hc_listening_rx [OF c2(1)] l by simp
  have "hc_read_done user HE_ok d stamp c = hc_recv_handler user HE_ok stamp (c\<lparr>hc_recv_buf := a @ d\<rparr>)"
    using i by (simp add: hc_read_done_def hc_in_def)
  also have "\<dots> = (if rest \<noteq> [] then hc_read_on stamp (hc_dispatch_packet user rest c2) else hc_read_on stamp c2)"
    using l l2 i z \<open>msg \<noteq> []\<close> m
    by (simp add: hc_recv_handler_def hc_listening_def hc_in_def hc_canceled_def Let_def c2_def [symmetric])
  finally show "hc_rx (hc_read_done user HE_ok d stamp c) = hc_rx c"
    "hc_in (hc_read_done user HE_ok d stamp c) = (True, [])"
    "told (hc_read_done user HE_ok d stamp c) = told c @ n # (if rest = [] then [] else [HN_packet rest])"
    using c2 l2 packet_told [OF user] by (simp_all add: hc_listening_def)
qed

lemma read_content:
  assumes user: "hc_quiet user" and l: "hc_listening stamp c" and i: "hc_in c = (True, [])"
  shows "hc_rx (hc_read_done user HE_ok d stamp c) = hc_rx c"
    and "hc_in (hc_read_done user HE_ok d stamp c) = (True, [])"
    and "told (hc_read_done user HE_ok d stamp c) = told c @ [HN_packet d]"
proof -
  let ?c1 = "c\<lparr>hc_recv_buf := d, hc_recv_state := HC_RECVED\<rparr>"
  have "hc_read_done user HE_ok d stamp c
    = hc_read_on stamp (hc_dispatch_packet user d (?c1\<lparr>hc_recv_buf := []\<rparr>))"
    using l i by (simp add: hc_read_done_def hc_recv_handler_def hc_listening_def hc_in_def hc_canceled_def)
  moreover have "hc_connection (?c1\<lparr>hc_recv_buf := []\<rparr>)" using l by (simp add: hc_listening_def)
  ultimately show "hc_rx (hc_read_done user HE_ok d stamp c) = hc_rx c"
    "hc_in (hc_read_done user HE_ok d stamp c) = (True, [])"
    "told (hc_read_done user HE_ok d stamp c) = told c @ [HN_packet d]"
    using i packet_told [OF user] by simp_all
qed

lemma feed_content:
  assumes "hc_quiet user" and "hc_listening stamp c" and "hc_in c = (True, [])"
  shows "told (hc_feed user stamp ds c) = told c @ map HN_packet ds"
  using assms(2,3)
proof (induction ds arbitrary: c)
  case (Cons d ds)
  note r = read_content [OF assms(1) Cons.prems, of d]
  show ?case
    using Cons.IH [OF _ r(2)] r(3) hc_listening_rx [OF r(1)] Cons.prems(1) by simp
qed simp

lemma feed_message:
  assumes "hc_quiet user" and "hc_listening stamp c" and "hc_in c = (False, a)"
    and "head_parses (hc_passive c) msg n z" and "a @ concat ds = msg @ body" and "length a < length msg"
  shows "\<exists>ps. told (hc_feed user stamp ds c) = told c @ n # map HN_packet ps \<and> concat ps = body"
  using assms(2-6)
proof (induction ds arbitrary: c a)
  case Nil
  then have "length a = length msg + length body" by (metis append_Nil2 concat.simps(1) length_append)
  then show ?case using Nil.prems(5) by simp
next
  case (Cons d ds)
  let ?c = "hc_read_done user HE_ok d stamp c"
  have cat: "(a @ d) @ concat ds = msg @ body" using Cons.prems(4) by simp
  show ?case
  proof (cases "length (a @ d) < length msg")
    case True
    have "\<exists>b. (a @ d) @ b = msg \<and> b \<noteq> []"
    proof -
      have "take (length (a @ d)) (msg @ body) = a @ d" unfolding cat [symmetric] by simp
      then have "(a @ d) @ drop (length (a @ d)) msg = msg"
        using True by (metis append_take_drop_id less_imp_le take_append diff_is_0_eq take_0 append_Nil2)
      then show ?thesis using True by (metis drop_eq_Nil not_le)
    qed
    then have p: "fst (hc_parse_header (hc_passive c) (a @ d)) = 0"
      using Cons.prems(3) by (auto simp: head_parses_def)
    note r = read_part [OF Cons.prems(1,2) p, of user]
    have ps: "hc_passive ?c = hc_passive c" using r(1) by (simp add: hc_rx_def)
    show ?thesis
      using Cons.IH [OF _ r(2) _ cat True] r(3) hc_listening_rx [OF r(1)] Cons.prems(1,3) ps by simp
  next
    case False
    have ad: "a @ d = msg @ drop (length msg) (a @ d)"
    proof -
      have "take (length msg) ((a @ d) @ concat ds) = msg" unfolding cat by simp
      then have "take (length msg) (a @ d) = msg" using False by simp
      then show ?thesis by (metis append_take_drop_id)
    qed
    define rest where "rest = drop (length msg) (a @ d)"
    have m: "a @ d = msg @ rest" using ad by (simp add: rest_def)
    then have body: "body = rest @ concat ds" using cat by simp
    note r = read_head [OF assms(1) Cons.prems(1,2,3) m]
    have "told (hc_feed user stamp (d # ds) c)
      = told c @ n # (if rest = [] then [] else [HN_packet rest]) @ map HN_packet ds"
      using feed_content [OF assms(1) _ r(2), of stamp ds] hc_listening_rx [OF r(1)] Cons.prems(1) r(3)
      by simp
    then show ?thesis
      by (intro exI [of _ "(if rest = [] then [] else [rest]) @ ds"]) (simp add: body)
  qed
qed

end
