(* ===== verification/Http_Conn_Theorems.thy ===== *)
theory Http_Conn_Theorems
  imports Http_Conn_Stream
begin

text \<open>Properties of HTTP connections.\<close>

section \<open>Delivery\<close>

text \<open>C10: A request reaches the owner of an accepted connection once and whole, in whatever pieces it
  arrives: when the connection is established, not blocked and has read nothing of a message yet, and
  the owner, while it is told, neither blocks receiving nor closes nor otherwise changes what the
  connection reads by, and the bytes of a request as the code prints it (one that
  \<open>request_ok\<close> allows, with a host or without) and the content behind it come in any division into reads, then the owner is told of the request, with the
  method, the URI, the version and the fields it was printed from, and then of packets that together
  are the content. If receiving is blocked, a request that has arrived waits for the next read
  (\<open>blocked_request_waits\<close>).\<close>
theorem request_reaches_owner:
  assumes "request_ok r" and "hc_quiet user" and "hc_listening stamp c" and "hc_passive c"
    and "\<not> hc_header_recvd c" and "hc_recv_buf c = []"
    and "concat reads = request_text r @ body"
  shows "\<exists>q packets. told (hc_feed user stamp reads c) = told c @ HN_request q # map HN_packet packets
    \<and> concat packets = body
    \<and> r_method q = r_method r \<and> r_uri q = r_uri r \<and> h_version q = h_version r \<and> h_map q = h_map r"
proof -
  obtain q z where q: "head_parses True (request_text r) (HN_request q) z"
    "r_method q = r_method r \<and> r_uri q = r_uri r \<and> h_version q = h_version r \<and> h_map q = h_map r"
    using request_head [OF assms(1)] by blast
  have "hc_in c = (False, [])" using assms(5,6) by (simp add: hc_in_def)
  moreover have "length [] < length (request_text r)" using q(1) by (simp add: head_parses_def)
  ultimately show ?thesis
    using feed_message [OF assms(2,3), of "[]" "request_text r" "HN_request q" z reads body] assms(4,7) q
    by auto
qed


section \<open>Calls of the owner\<close>

text \<open>What the owner of an established connection may call, at any time and inside a callback.\<close>
inductive hc_call :: "http_conn \<Rightarrow> http_conn \<Rightarrow> bool" where
  call_send: "hc_call c (hc_async_send b c)"
| call_keep: "hc_call c (hc_keep_async_receiving c)"
| call_block: "hc_call c (hc_block_async_receiving c)"
| call_close: "hc_call c (hc_close g c)"

definition hc_calls :: "hc_user \<Rightarrow> bool" where
  "hc_calls user \<longleftrightarrow> (\<forall>n c. hc_call\<^sup>*\<^sup>* c (user n c))"

text \<open>The writes handed to the socket, in order.\<close>

fun write_of :: "hc_effect \<Rightarrow> (string \<times> op_stamp_t) list" where
  "write_of (Write_all d s) = [(d, s)]"
| "write_of _ = []"

definition issued :: "http_conn \<Rightarrow> (string \<times> op_stamp_t) list" where
  "issued c = concat (map write_of (hc_outs c))"

text \<open>A connection as the acceptor makes it: a passive one, opened. Opening reports that it is open
  already, which the acceptor does not look at.\<close>
definition hc_accepted :: "http_conn \<Rightarrow> http_conn" where
  "hc_accepted mem = snd (hc_open_with HE_ok HE_ok (0, 0) None (hc_construct True mem))"

text \<open>The states of an accepted connection: \<open>n\<close> of its writes have completed. Reads and timers
  complete with any outcome at any time, writes in their order.\<close>
inductive hc_run :: "hc_user \<Rightarrow> http_conn \<Rightarrow> nat \<Rightarrow> bool" for user where
  run_accepted: "hc_run user (hc_accepted mem) 0"
| run_call: "hc_run user c n \<Longrightarrow> hc_call c d \<Longrightarrow> hc_run user d n"
| run_written: "hc_run user c n \<Longrightarrow> n < length (issued c) \<Longrightarrow>
    hc_run user (hc_send_handler user HE_ok (length (fst (issued c ! n))) (snd (issued c ! n)) c) (Suc n)"
| run_failed: "hc_run user c n \<Longrightarrow> n < length (issued c) \<Longrightarrow> ec \<noteq> HE_ok \<Longrightarrow>
    hc_run user (hc_send_handler user ec k (snd (issued c ! n)) c) (Suc n)"
| run_read: "hc_run user c n \<Longrightarrow> hc_run user (hc_read_done user ec data stamp c) n"
| run_posted: "hc_run user c n \<Longrightarrow> hc_run user (hc_recv_handler user HE_ok stamp c) n"
| run_timer: "hc_run user c n \<Longrightarrow> hc_run user (hc_to_close_state user ec stamp c) n"

section \<open>The invariant of an accepted connection\<close>

definition bytes_in :: "string list \<Rightarrow> int" where
  "bytes_in bs = sum_list (map (\<lambda>b. int (length b)) bs)"

text \<open>One write at most is in flight, exactly one when the connection says so; nothing waits unless
  one is; the length that is reported counts what is in flight and what waits.\<close>
definition hc_sends_ok :: "http_conn \<Rightarrow> nat \<Rightarrow> bool" where
  "hc_sends_ok c n \<longleftrightarrow>
     length (drop n (issued c)) = (if hc_sending c then 1 else 0)
     \<and> (\<not> hc_sending c \<longrightarrow> hc_send_bufs c = [])
     \<and> hc_send_len c = bytes_in (map fst (drop n (issued c))) + bytes_in (hc_send_bufs c)"

definition hc_ok :: "nat \<Rightarrow> http_conn \<Rightarrow> bool" where
  "hc_ok n c \<longleftrightarrow> hc_passive c \<and> n \<le> length (issued c) \<and> (\<forall>w \<in> set (issued c). snd w = 1)
     \<and> (hc_state c = HC_CONNECTED \<and> hc_connection c \<and> hc_mark c = \<lparr>om_stamp = 1, om_cancel = 0\<rparr>
          \<and> hc_sends_ok c n
        \<or> hc_state c = HC_CLOSING \<and> \<not> hc_connection c \<and> hc_sending c \<and> hc_sends_ok c n
        \<or> hc_state c = HC_CLOSED \<and> \<not> hc_connection c \<and> length (issued c) \<le> Suc n)"

lemma issued_emit [simp]: "issued (hc_emit e c) = issued c @ write_of e"
  by (simp add: issued_def hc_emit_def)

lemma fresh_stamp: "hc_mark c = \<lparr>om_stamp = 1, om_cancel = 0\<rparr> \<Longrightarrow> hc_stamp c = 1 \<and> \<not> hc_canceled 1 c"
  by (simp add: hc_stamp_def hc_canceled_def is_canceled_op_def) code_simp

lemma ok_same:
  assumes "hc_ok n c" and "issued d = issued c" and "hc_passive d = hc_passive c" and "hc_state d = hc_state c"
    and "hc_connection d = hc_connection c" and "hc_mark d = hc_mark c" and "hc_sending d = hc_sending c"
    and "hc_send_bufs d = hc_send_bufs c" and "hc_send_len d = hc_send_len c"
  shows "hc_ok n d"
  using assms by (simp add: hc_ok_def hc_sends_ok_def)

lemma ok_send: "hc_ok n c \<Longrightarrow> hc_ok n (hc_async_send b c)"
  using fresh_stamp [of c]
  by (auto simp: hc_async_send_def hc_ok_def hc_sends_ok_def Let_def bytes_in_def issued_def hc_emit_def
      hc_stamp_def)

lemma ok_close: "hc_ok n c \<Longrightarrow> hc_ok n (hc_close g c)"
  by (auto simp: hc_close_def hc_ok_def hc_sends_ok_def Let_def issued_def hc_emit_def split: if_splits)

lemma ok_keep: "hc_ok n c \<Longrightarrow> hc_ok n (hc_keep_async_receiving c)"
  by (rule ok_same, assumption)
    (simp_all add: hc_keep_async_receiving_def hc_do_keep_receiving_def hc_emit_def issued_def Let_def)

lemma ok_block: "hc_ok n c \<Longrightarrow> hc_ok n (hc_block_async_receiving c)"
  by (rule ok_same, assumption) (simp_all add: hc_block_async_receiving_def issued_def)

lemma ok_call: "hc_call c d \<Longrightarrow> hc_ok n c \<Longrightarrow> hc_ok n d"
  by (induction rule: hc_call.induct) (simp_all add: ok_send ok_keep ok_block ok_close)

lemma ok_calls: "hc_call\<^sup>*\<^sup>* c d \<Longrightarrow> hc_ok n c \<Longrightarrow> hc_ok n d"
  by (induction rule: rtranclp_induct) (auto intro: ok_call)

lemma ok_tell:
  assumes "hc_calls user" and "hc_ok n c"
  shows "hc_ok n (hc_tell user m c)"
proof -
  have "hc_ok n (hc_emit (Tell m) c)"
    by (rule ok_same [OF assms(2)]) (simp_all add: hc_emit_def issued_def)
  moreover have "hc_call\<^sup>*\<^sup>* (hc_emit (Tell m) c) (hc_tell user m c)"
    using assms(1) by (simp add: hc_calls_def hc_tell_def)
  ultimately show ?thesis by (rule ok_calls [rotated])
qed

lemma ok_to_close:
  assumes "hc_calls user" and "hc_ok n c"
  shows "hc_ok n (hc_to_close_state user ec stamp c)"
  using ok_close [OF assms(2)] assms by (simp add: hc_to_close_state_def Let_def ok_tell)


lemma ok_recv_handler:
  assumes user: "hc_calls user" and ok: "hc_ok n c"
  shows "hc_ok n (hc_recv_handler user ec stamp c)"
proof -
  have upd: "hc_ok n d \<Longrightarrow> hc_ok n (d\<lparr>hc_recv_state := x1\<rparr>)" "hc_ok n d \<Longrightarrow> hc_ok n (d\<lparr>hc_recv_buf := x2\<rparr>)"
    "hc_ok n d \<Longrightarrow> hc_ok n (d\<lparr>hc_header_recvd := x3\<rparr>)" "hc_ok n d \<Longrightarrow> hc_ok n (d\<lparr>hc_gzip := x4\<rparr>)"
    for d x1 x2 x3 x4
    by (erule ok_same, simp_all add: issued_def)+
  have read: "hc_ok n d \<Longrightarrow> hc_ok n (hc_read_on stamp d)" for d
    unfolding hc_read_on_def by (erule ok_same) (simp_all add: issued_def hc_emit_def)
  have pkt: "hc_ok n d \<Longrightarrow> hc_ok n (hc_dispatch_packet user s d)" for s d
    by (simp add: hc_dispatch_packet_def ok_tell [OF user])
  show ?thesis
  proof (cases "hc_canceled stamp c \<or> hc_state c = HC_CLOSED \<or> \<not> hc_connection c")
    case True
    then show ?thesis using ok by (auto simp: hc_recv_handler_def)
  next
    case False
    then have st: "hc_state c = HC_CONNECTED" and p: "hc_passive c" using ok by (auto simp: hc_ok_def)
    show ?thesis
    proof (cases "ec = HE_ok")
      case True
      obtain k m z where h: "hc_parse_header (hc_passive c) (hc_recv_buf c) = (k, m, z)"
        by (cases "hc_parse_header (hc_passive c) (hc_recv_buf c)")
      show ?thesis
        using False True ok h p
        by (simp add: hc_recv_handler_def Let_def upd read pkt ok_tell [OF user] ok_to_close [OF user])
    next
      case f: False
      have "hc_ok n (hc_to_close_state user ec stamp (c\<lparr>hc_send_bufs := []\<rparr>))"
      proof -
        let ?d = "hc_close True (c\<lparr>hc_send_bufs := []\<rparr>)"
        have "hc_ok n ?d" using ok st
          by (auto simp: hc_close_def hc_ok_def hc_sends_ok_def issued_def hc_emit_def Let_def split: if_splits)
        moreover have "hc_to_close_state user ec stamp (c\<lparr>hc_send_bufs := []\<rparr>) = hc_tell user (HN_disconnected ec) ?d"
          using False st p by (simp add: hc_to_close_state_def hc_canceled_def Let_def)
        ultimately show ?thesis by (simp add: ok_tell [OF user])
      qed
      then show ?thesis using f False by (simp add: hc_recv_handler_def)
    qed
  qed
qed

lemma drop_next: "n < length xs \<Longrightarrow> drop n xs = xs ! n # drop (Suc n) xs"
  by (simp add: Cons_nth_drop_Suc)

lemma ok_written:
  assumes user: "hc_calls user" and ok: "hc_ok n c" and n: "n < length (issued c)"
    and w: "issued c ! n = (d, s)" and len: "ec = HE_ok \<Longrightarrow> len = length d"
  shows "hc_ok (Suc n) (hc_send_handler user ec len s c)"
proof -
  have s: "s = 1" using ok n w nth_mem [OF n] by (auto simp: hc_ok_def)
  show ?thesis
  proof (cases "hc_state c = HC_CLOSED")
    case True
    then show ?thesis using ok n by (simp add: hc_send_handler_def hc_ok_def)
  next
    case False
    have so: "hc_sends_ok c n" and snd: "hc_sending c" and one: "drop (Suc n) (issued c) = []"
      and st: "hc_state c = HC_CONNECTED \<and> hc_connection c \<and> hc_mark c = \<lparr>om_stamp = 1, om_cancel = 0\<rparr>
        \<or> hc_state c = HC_CLOSING \<and> \<not> hc_connection c" and p: "hc_passive c"
      using ok False n drop_next [OF n] by (auto simp: hc_ok_def hc_sends_ok_def split: if_splits)
    have len1: "length (issued c) = Suc n" using one n by simp
    have go: "\<not> (hc_state c \<noteq> HC_CLOSING \<and> (hc_canceled s c \<or> hc_state c = HC_CLOSED))"
      using st fresh_stamp [of c] s by auto
    have all1: "\<forall>w \<in> set (issued c). snd w = 1" using ok by (simp add: hc_ok_def)
    have sum: "hc_send_len c = int (length d) + bytes_in (hc_send_bufs c)"
      using so drop_next [OF n] one w by (simp add: hc_sends_ok_def bytes_in_def)
    show ?thesis
    proof (cases "ec = HE_ok")
      case True
      show ?thesis
      proof (cases "hc_send_bufs c")
        case Nil
        let ?c2 = "c\<lparr>hc_sending := False, hc_send_len := hc_send_len c - int len\<rparr>"
        show ?thesis
        proof (cases "hc_state c = HC_CLOSING")
          case cl: True
          have "hc_send_handler user ec len s c = hc_close True ?c2"
            using go cl Nil True st by (simp add: hc_send_handler_def hc_to_close_state_def Let_def)
          then show ?thesis using p all1 len1 cl Nil
            by (simp add: hc_close_def hc_ok_def issued_def hc_emit_def Let_def)
        next
          case con: False
          have "hc_ok (Suc n) ?c2"
            using con st p all1 len1 Nil sum len True
            by (simp add: hc_ok_def hc_sends_ok_def issued_def bytes_in_def)
          then show ?thesis using con go Nil True
            by (simp add: hc_send_handler_def Let_def ok_tell [OF user])
        qed
      next
        case (Cons b bs)
        then show ?thesis using go st p all1 len1 sum len True s
          by (auto simp: hc_send_handler_def hc_ok_def hc_sends_ok_def issued_def hc_emit_def Let_def bytes_in_def)
      qed
    next
      case False
      let ?c2 = "c\<lparr>hc_sending := False, hc_send_bufs := [], hc_send_len := 0\<rparr>"
      have "hc_ok (Suc n) (hc_close True ?c2)"
        using st p all1 len1 by (auto simp: hc_close_def hc_ok_def issued_def hc_emit_def Let_def)
      moreover have "hc_canceled s ?c2 = hc_canceled s c" by (simp add: hc_canceled_def)
      ultimately show ?thesis using go False st
        by (elim disjE) (simp_all add: hc_send_handler_def hc_to_close_state_def Let_def ok_tell [OF user])
    qed
  qed
qed

lemma ok_accepted: "hc_ok 0 (hc_accepted mem)"
  by (simp add: hc_accepted_def hc_open_with_def hc_open_socket_def hc_construct_def hc_init_def hc_ok_def
      hc_sends_ok_def issued_def bytes_in_def operation_mark_new_def next_op_stamp_def set_cancel_def Let_def)


lemma ok_run: "hc_run user c n \<Longrightarrow> hc_calls user \<Longrightarrow> hc_ok n c"
proof (induction rule: hc_run.induct)
  case (run_accepted mem)
  show ?case by (rule ok_accepted)
next
  case (run_call c n d)
  then show ?case using ok_call by blast
next
  case (run_written c n)
  show ?case
    by (rule ok_written [where d = "fst (issued c ! n)"]) (use run_written in simp_all)
next
  case (run_failed c n ec k)
  show ?case
    by (rule ok_written [where d = "fst (issued c ! n)"]) (use run_failed in simp_all)
next
  case (run_read c n ec data stamp)
  then have "hc_ok n c" by blast
  then have "hc_ok n (c\<lparr>hc_recv_buf := hc_recv_buf c @ data\<rparr>)"
    by (rule ok_same) (simp_all add: issued_def)
  then show ?case using run_read.prems by (simp add: hc_read_done_def ok_recv_handler)
next
  case (run_posted c n stamp)
  then show ?case by (intro ok_recv_handler) simp_all
next
  case (run_timer c n ec stamp)
  then show ?case by (intro ok_to_close) simp_all
qed

text \<open>C11: The sending side of an accepted connection is sound in every reachable state, however its
  owner sends, keeps on or blocks receiving and closes, inside callbacks too (it does not connect it
  again, and does not open it), and in whatever order reads, writes and timers complete: at most
  one write is in flight; until the connection is closed the flag says whether there is one, buffers
  wait only behind it, and the reported length is that of the bytes in flight and waiting; a
  connection that is closing has a write in flight, so it does not wait for nothing; and its owner is
  known exactly while it is connected.\<close>
theorem http_sends_invariant:
  assumes "hc_calls user" and "hc_run user c n"
  shows "length (issued c) \<le> Suc n
    \<and> (hc_state c = HC_CLOSING \<longrightarrow> hc_sending c)
    \<and> (hc_state c \<noteq> HC_CLOSED \<longrightarrow> (hc_sending c \<longleftrightarrow> length (issued c) = Suc n)
        \<and> (hc_send_bufs c \<noteq> [] \<longrightarrow> hc_sending c)
        \<and> hc_send_len c = bytes_in (map fst (drop n (issued c))) + bytes_in (hc_send_bufs c))
    \<and> (hc_connection c \<longleftrightarrow> hc_state c = HC_CONNECTED)"
proof -
  have ok: "hc_ok n c" using ok_run assms by blast
  then have n: "n \<le> length (issued c)" by (simp add: hc_ok_def)
  show ?thesis using ok n by (auto simp: hc_ok_def hc_sends_ok_def split: if_splits)
qed

definition blank_conn :: http_conn where
  "blank_conn = \<lparr>hc_mark = operation_mark_new, hc_state = HC_INIT, hc_recv_state = HC_RECVED,
     hc_connection = False, hc_open = False, hc_passive = False, hc_gzip = False, hc_blocked = True,
     hc_header_recvd = False, hc_sending = False, hc_send_bufs = [], hc_send_len = 0, hc_recv_buf = [],
     hc_conn_timer = None, hc_retry_timer = None, hc_resolve_timer = None, hc_life_timer = None,
     hc_remote_host = [], hc_query = None, hc_remote_edp = (0, 0), hc_local_edp = (0, 0), hc_clock = 0,
     hc_outs = []\<rparr>"

definition silent :: hc_user where
  "silent n c = c"

lemma silent_user: "hc_calls silent" "hc_quiet silent"
  by (simp_all add: hc_calls_def hc_quiet_def silent_def)

theorem http_sends_invariant_witness:
  "hc_send_len (hc_async_send ''de'' (hc_async_send ''abc'' (hc_accepted blank_conn)))
    = bytes_in [''abc''] + bytes_in [''de'']"
proof -
  let ?c = "hc_async_send ''de'' (hc_async_send ''abc'' (hc_accepted blank_conn))"
  have "hc_run silent ?c 0"
    by (rule run_call [OF run_call [OF run_accepted call_send] call_send])
  from http_sends_invariant [OF silent_user(1) this]
  have "hc_state ?c \<noteq> HC_CLOSED \<longrightarrow> hc_send_len ?c
    = bytes_in (map fst (drop 0 (issued ?c))) + bytes_in (hc_send_bufs ?c)" by blast
  moreover have "hc_state ?c = HC_CONNECTED" "issued ?c = [(''abc'', 1)]" "hc_send_bufs ?c = [''de'']"
    by code_simp+
  ultimately show ?thesis by simp
qed

section \<open>Closing\<close>

text \<open>The socket completes the write in flight and those that follow it.\<close>
fun hc_flush :: "hc_user \<Rightarrow> op_stamp_t \<Rightarrow> nat list \<Rightarrow> http_conn \<Rightarrow> http_conn" where
  "hc_flush user stamp [] c = c"
| "hc_flush user stamp (n # ns) c = hc_flush user stamp ns (hc_send_handler user HE_ok n stamp c)"

lemma flush_closing:
  assumes "hc_state c = HC_CLOSING" and "\<not> hc_connection c" and "length ns = length (hc_send_bufs c)"
  shows "hc_outs (hc_flush user stamp (ns @ [n]) c)
      = hc_outs c @ map (\<lambda>b. Write_all b stamp) (hc_send_bufs c) @ [Close_async]
    \<and> hc_state (hc_flush user stamp (ns @ [n]) c) = HC_CLOSED"
  using assms
proof (induction ns arbitrary: c)
  case Nil
  then show ?case
    by (simp add: hc_send_handler_def hc_to_close_state_def hc_close_def hc_emit_def Let_def)
next
  case (Cons m ns)
  then obtain b bs where b: "hc_send_bufs c = b # bs" by (cases "hc_send_bufs c") auto
  let ?c = "hc_emit (Write_all b stamp) (c\<lparr>hc_sending := False, hc_send_len := hc_send_len c - int m,
    hc_send_bufs := bs, hc_sending := True\<rparr>)"
  have c: "hc_send_handler user HE_ok m stamp c = ?c"
    using Cons.prems b by (simp add: hc_send_handler_def Let_def)
  have "hc_state ?c = HC_CLOSING" "\<not> hc_connection ?c" "length ns = length (hc_send_bufs ?c)"
    using Cons.prems b by (simp_all add: hc_emit_def)
  from Cons.IH [OF this] show ?case using c b by (simp add: hc_emit_def)
qed

text \<open>C35: Closing a connection gracefully while buffers wait for the write in flight writes every one
  of them, in order, and only then closes the socket; nothing else is done and the owner is not told
  anything any more. But what is in flight is not waited for when nothing waits behind it: then the
  socket is closed at once, however much of the last buffer has been written.\<close>
theorem graceful_close_flushes:
  assumes "hc_state c = HC_CONNECTED"
  shows "if hc_send_bufs c = []
    then hc_outs (hc_close True c) = hc_outs c @ [Close_async] \<and> hc_state (hc_close True c) = HC_CLOSED
    else length ns = length (hc_send_bufs c) \<longrightarrow>
      hc_outs (hc_flush user stamp (ns @ [n]) (hc_close True c))
        = hc_outs c @ map (\<lambda>b. Write_all b stamp) (hc_send_bufs c) @ [Close_async]
      \<and> hc_state (hc_flush user stamp (ns @ [n]) (hc_close True c)) = HC_CLOSED"
proof (cases "hc_send_bufs c = []")
  case True
  then show ?thesis using assms by (simp add: hc_close_def hc_emit_def Let_def)
next
  case False
  let ?c = "hc_close True c"
  have c: "hc_state ?c = HC_CLOSING" "\<not> hc_connection ?c" "hc_send_bufs ?c = hc_send_bufs c" "hc_outs ?c = hc_outs c"
    using False assms by (simp_all add: hc_close_def Let_def)
  show ?thesis using flush_closing [OF c(1,2), of ns user stamp n] c(3,4) False by simp
qed

definition two_sent :: http_conn where
  "two_sent = hc_async_send ''de'' (hc_async_send ''abc'' (hc_accepted blank_conn))"

theorem graceful_close_flushes_witness:
  "hc_outs (hc_flush silent 1 [3, 2] (hc_close True two_sent))
    = [Write_all ''abc'' 1, Write_all ''de'' 1, Close_async]"
proof -
  have "hc_state two_sent = HC_CONNECTED" "hc_send_bufs two_sent = [''de'']"
    "hc_outs two_sent = [Write_all ''abc'' 1]"
    by code_simp+
  then show ?thesis using graceful_close_flushes [of two_sent "[3]" silent 1 2] by simp
qed

theorem request_reaches_owner_witness:
  "\<exists>q packets. told (hc_feed silent 1 [''GET /a H'', ''TTP/1.1'' @ [CR, LF], [CR, LF] @ ''bo'', ''dy'']
      (hc_keep_async_receiving (hc_accepted blank_conn)))
    = HN_request q # map HN_packet packets \<and> concat packets = ''body'' \<and> r_uri q = ''/a''"
proof -
  let ?r = "request_new ''HTTP/1.1''\<lparr>r_uri := ''/a''\<rparr>"
  let ?c = "hc_keep_async_receiving (hc_accepted blank_conn)"
  let ?reads = "[''GET /a H'', ''TTP/1.1'' @ [CR, LF], [CR, LF] @ ''bo'', ''dy'']"
  have "request_ok ?r" unfolding request_ok_def by (intro conjI) code_simp+
  moreover have "hc_listening 1 ?c" unfolding hc_listening_def by (intro conjI) code_simp+
  moreover have "hc_passive ?c" "\<not> hc_header_recvd ?c" "hc_recv_buf ?c = []" by code_simp+
  moreover have "concat ?reads = request_text ?r @ ''body''" by code_simp
  ultimately have "\<exists>q packets. told (hc_feed silent 1 ?reads ?c) = told ?c @ HN_request q # map HN_packet packets
    \<and> concat packets = ''body'' \<and> r_method q = r_method ?r \<and> r_uri q = r_uri ?r
    \<and> h_version q = h_version ?r \<and> h_map q = h_map ?r"
    using silent_user(2) by (intro request_reaches_owner)
  moreover have "told ?c = []" by code_simp
  ultimately show ?thesis by auto
qed

end
