(* ===== verification/Http_Conn_Timers.thy ===== *)
theory Http_Conn_Timers
  imports Http_Conn_Theorems
begin

text \<open>Where an HTTP connection departs from what it means: timeouts that do not run, and a request
  that waits for more to arrive.\<close>

section \<open>The life time\<close>

text \<open>All calls of an owner, and all states of a connection: any handler may run at any time, with any
  outcome.\<close>

inductive hc_any_call :: "http_conn \<Rightarrow> http_conn \<Rightarrow> bool" where
  any_call: "hc_call c d \<Longrightarrow> hc_any_call c d"
| any_open: "hc_any_call c (snd (hc_open_with opened bound local life_time c))"
| any_connect: "hc_any_call c (hc_async_connect opened bound edp time_out c)"
| any_connect_host: "hc_any_call c (hc_connect_host opened bound addr name p time_out c)"

inductive hc_reach :: "hc_user \<Rightarrow> http_conn \<Rightarrow> bool" for user where
  reach_construct: "hc_reach user (hc_construct passive mem)"
| reach_call: "hc_reach user c \<Longrightarrow> hc_any_call c d \<Longrightarrow> hc_reach user d"
| reach_read: "hc_reach user c \<Longrightarrow> hc_reach user (hc_read_done user ec data stamp c)"
| reach_written: "hc_reach user c \<Longrightarrow> hc_reach user (hc_send_handler user ec len stamp c)"
| reach_alert: "hc_reach user c \<Longrightarrow> hc_reach user (hc_allert_connected user ec stamp c)"
| reach_resolved: "hc_reach user c \<Longrightarrow> hc_reach user (hc_resolved err itr stamp c)"
| reach_connected: "hc_reach user c \<Longrightarrow> hc_reach user (hc_connect_done user opened bound err itr stamp c)"
| reach_timer: "hc_reach user c \<Longrightarrow> hc_reach user (hc_act user a c)"
| reach_time: "hc_reach user c \<Longrightarrow> hc_clock c \<le> now \<Longrightarrow> hc_reach user (c\<lparr>hc_clock := now\<rparr>)"

definition life_idle :: "http_conn \<Rightarrow> bool" where
  "life_idle c = (case hc_life_timer c of None \<Rightarrow> True | Some t \<Rightarrow> ht_deadline t = None)"

lemma life_same: "hc_life_timer d = hc_life_timer c \<Longrightarrow> life_idle c \<Longrightarrow> life_idle d"
  by (simp add: life_idle_def)

lemma life_open_socket: "hc_life_timer (snd (hc_open_socket opened bound local c)) = hc_life_timer c"
  by (simp add: hc_open_socket_def hc_init_def hc_emit_def Let_def)

lemma life_retry: "hc_life_timer (hc_retry stamp c) = hc_life_timer c"
  by (simp add: hc_retry_def)

lemma life_resolve_connect: "hc_life_timer (hc_resolve_connect stamp c) = hc_life_timer c"
  by (simp add: hc_resolve_connect_def hc_emit_def Let_def split: option.split)

lemma life_async_connect:
  "hc_life_timer (hc_async_connect opened bound edp time_out c) = hc_life_timer c"
proof -
  obtain ec d where d: "(if hc_state c = HC_INIT
      then hc_open_socket opened bound (0, 0) (c\<lparr>hc_mark := next_op_stamp (set_cancel (hc_mark c))\<rparr>)
      else (if hc_state c \<noteq> HC_OPENED then HE_in_progress else HE_ok,
            c\<lparr>hc_mark := next_op_stamp (set_cancel (hc_mark c))\<rparr>)) = (ec, d)"
    by (meson surj_pair)
  then have "hc_life_timer d = hc_life_timer c"
    using life_open_socket [of opened bound "(0, 0)" "c\<lparr>hc_mark := next_op_stamp (set_cancel (hc_mark c))\<rparr>"]
    by (auto split: if_splits)
  then show ?thesis
    using d by (auto simp: hc_async_connect_def Let_def life_resolve_connect hc_emit_def split: option.split)
qed

lemma life_keep: "hc_life_timer (hc_keep_async_receiving c) = hc_life_timer c"
  by (simp add: hc_keep_async_receiving_def hc_do_keep_receiving_def hc_emit_def Let_def)

lemma life_close: "life_idle c \<Longrightarrow> life_idle (hc_close g c)"
  by (simp add: life_idle_def hc_close_def hc_emit_def Let_def)

lemma life_call: "hc_call c d \<Longrightarrow> life_idle c \<Longrightarrow> life_idle d"
proof (induction rule: hc_call.induct)
  case (call_send c b)
  then show ?case by (simp add: life_idle_def hc_async_send_def hc_emit_def Let_def)
next
  case (call_keep c)
  then show ?case using life_same [OF life_keep] by blast
next
  case (call_block c)
  then show ?case by (simp add: life_idle_def hc_block_async_receiving_def)
next
  case (call_close c g)
  then show ?case by (rule life_close)
qed

lemma life_any_call: "hc_any_call c d \<Longrightarrow> life_idle c \<Longrightarrow> life_idle d"
proof (induction rule: hc_any_call.induct)
  case (any_call c d)
  then show ?case by (rule life_call)
next
  case (any_open c opened bound local life_time)
  then show ?case
    by (simp add: life_idle_def hc_open_with_def Let_def life_open_socket split: option.splits)
next
  case (any_connect c opened bound edp time_out)
  then show ?case using life_same [OF life_async_connect] by blast
next
  case (any_connect_host c opened bound addr name p time_out)
  then show ?case
    by (simp add: life_idle_def hc_connect_host_def life_async_connect split: option.splits)
qed

definition hc_any_calls :: "hc_user \<Rightarrow> bool" where
  "hc_any_calls user \<longleftrightarrow> (\<forall>n c. hc_any_call\<^sup>*\<^sup>* c (user n c))"

lemma life_any_calls: "hc_any_call\<^sup>*\<^sup>* c d \<Longrightarrow> life_idle c \<Longrightarrow> life_idle d"
  by (induction rule: rtranclp_induct) (auto intro: life_any_call)

lemma life_emit: "life_idle (hc_emit e c) = life_idle c"
  by (simp add: life_idle_def hc_emit_def)

lemma life_tell: "hc_any_calls user \<Longrightarrow> life_idle c \<Longrightarrow> life_idle (hc_tell user n c)"
  using life_any_calls [of "hc_emit (Tell n) c" "user n (hc_emit (Tell n) c)"]
  by (simp add: hc_any_calls_def hc_tell_def life_emit)

lemma life_to_close:
  "hc_any_calls user \<Longrightarrow> life_idle c \<Longrightarrow> life_idle (hc_to_close_state user ec stamp c)"
  by (simp add: hc_to_close_state_def Let_def life_close life_tell)

lemma life_update [simp]:
  "life_idle (c\<lparr>hc_send_bufs := x1\<rparr>) = life_idle c" "life_idle (c\<lparr>hc_recv_state := x2\<rparr>) = life_idle c"
  "life_idle (c\<lparr>hc_recv_buf := x3\<rparr>) = life_idle c" "life_idle (c\<lparr>hc_header_recvd := x4\<rparr>) = life_idle c"
  "life_idle (c\<lparr>hc_gzip := x5\<rparr>) = life_idle c" "life_idle (c\<lparr>hc_sending := x6\<rparr>) = life_idle c"
  "life_idle (c\<lparr>hc_send_len := x7\<rparr>) = life_idle c" "life_idle (c\<lparr>hc_clock := x8\<rparr>) = life_idle c"
  "life_idle (c\<lparr>hc_conn_timer := y1\<rparr>) = life_idle c" "life_idle (c\<lparr>hc_retry_timer := y2\<rparr>) = life_idle c"
  "life_idle (c\<lparr>hc_resolve_timer := y3\<rparr>) = life_idle c" "life_idle (c\<lparr>hc_query := y4\<rparr>) = life_idle c"
  "life_idle (c\<lparr>hc_state := y5\<rparr>) = life_idle c" "life_idle (c\<lparr>hc_remote_edp := y6\<rparr>) = life_idle c"
  "life_idle (c\<lparr>hc_open := y7\<rparr>) = life_idle c"
  by (simp_all add: life_idle_def)

lemma life_recv_handler:
  assumes "hc_any_calls user" and "life_idle c"
  shows "life_idle (hc_recv_handler user ec stamp c)"
proof -
  have read: "life_idle d \<Longrightarrow> life_idle (hc_read_on stamp d)" for d
    by (simp add: hc_read_on_def life_emit)
  have pkt: "life_idle d \<Longrightarrow> life_idle (hc_dispatch_packet user s d)" for s d
    by (simp add: hc_dispatch_packet_def life_tell assms(1))
  obtain k m z where h: "hc_parse_header (hc_passive c) (hc_recv_buf c) = (k, m, z)"
    by (cases "hc_parse_header (hc_passive c) (hc_recv_buf c)")
  then show ?thesis
    by (simp add: hc_recv_handler_def Let_def read pkt life_tell life_to_close assms)
qed

lemma life_send_handler:
  "hc_any_calls user \<Longrightarrow> life_idle c \<Longrightarrow> life_idle (hc_send_handler user ec len stamp c)"
  by (simp add: hc_send_handler_def Let_def life_to_close life_tell life_emit split: list.split)

lemma life_connect_done:
  assumes "hc_any_calls user" and "life_idle c"
  shows "life_idle (hc_connect_done user opened bound err itr stamp c)"
proof -
  obtain ec d where d: "hc_open_socket opened bound (hc_local_edp c) (c\<lparr>hc_open := False\<rparr>) = (ec, d)"
    by (meson surj_pair)
  have "life_idle d" using life_open_socket [of opened bound "hc_local_edp c" "c\<lparr>hc_open := False\<rparr>"] d assms(2)
    by (simp add: life_idle_def)
  then show ?thesis
    using assms d life_same [OF life_retry] life_same [OF life_keep]
    by (simp add: hc_connect_done_def Let_def life_emit life_tell)
qed

lemma life_reach: "hc_reach user c \<Longrightarrow> hc_any_calls user \<Longrightarrow> life_idle c"
proof (induction rule: hc_reach.induct)
  case (reach_construct _ mem)
  then show ?case by (simp add: life_idle_def hc_construct_def hc_init_def)
next
  case (reach_call c d)
  then show ?case using life_any_call by blast
next
  case (reach_resolved c err itr stamp)
  then show ?case by (simp add: hc_resolved_def Let_def life_emit life_same [OF life_retry])
next
  case (reach_timer c a)
  then show ?case
    by (simp add: hc_act_def life_to_close life_same [OF life_retry] life_same [OF life_resolve_connect]
        split: option.split hc_action.split)
qed (simp_all add: hc_read_done_def life_recv_handler life_send_handler life_connect_done
    hc_allert_connected_def life_tell)


text \<open>The life time of a connection has no effect: opening with one makes a timer that is bound to
  closing the connection, but nothing ever starts it. In every reachable state, whatever the owner
  calls and in whatever order handlers run, the timer has no time at which it runs out.\<close>
lemma life_time_ignored:
  assumes "hc_any_calls user" and "hc_reach user c"
  shows "(case hc_life_timer c of None \<Rightarrow> True | Some t \<Rightarrow> ht_deadline t = None)
    \<and> hc_life_timer (snd (hc_open_with opened bound local (Some t) c)) \<noteq> None"
proof -
  have "life_idle c" using life_reach assms by blast
  then show ?thesis by (simp add: life_idle_def hc_open_with_def Let_def life_open_socket split: option.splits)
qed

section \<open>The connection timeout\<close>

text \<open>The timeout of a connect is lost when the first address of a host does not answer: opening a
  socket for the next one cancels the timer, which is not started again. The attempt goes on without
  it, and since a failure of the last address starts over, it has no end.\<close>
lemma connect_timeout_lost:
  assumes "\<not> hc_canceled stamp c" and "hc_state c \<noteq> HC_CLOSED" and "hc_connection c" and "\<not> hc_passive c"
    and "err \<noteq> HE_ok"
  shows "(case hc_conn_timer (hc_connect_done user HE_ok HE_ok err (a # rest) stamp c) of
      None \<Rightarrow> True | Some t \<Rightarrow> ht_deadline t = None)
    \<and> Connect_socket (a, snd (hc_remote_edp c)) rest stamp
        \<in> set (hc_outs (hc_connect_done user HE_ok HE_ok err (a # rest) stamp c))
    \<and> hc_retry_timer (hc_connect_done user HE_ok HE_ok err [] stamp c)
        = ht_start (Restart stamp) (hc_clock c + 100)"
  using assms
  by (simp add: hc_connect_done_def hc_open_socket_def hc_init_def hc_emit_def hc_retry_def ht_cancel_def
      hc_canceled_def Let_def split: option.split)

definition connecting_conn :: http_conn where
  "connecting_conn = hc_async_connect HE_ok HE_ok (5, 80) (Some 60000) (hc_construct False blank_conn)"

section \<open>A late answer of the resolver\<close>

text \<open>An answer of the resolver that comes after the connection is established unmakes it. When
  resolving takes longer than three seconds it is started again, and the second answer is taken for
  a reason to connect once more; the socket refuses, because it is connected, and the retry puts the
  connection back to connecting, where whatever is sent is dropped.\<close>
lemma late_answer_unmakes_connection:
  fixes user :: hc_user and a :: u32
  assumes "hc_state c = HC_CONNECTED" and "hc_connection c" and "\<not> hc_canceled stamp c" and "err \<noteq> HE_ok"
  defines "d \<equiv> hc_connect_done user HE_ok HE_ok err [] stamp (hc_resolved HE_ok [a] stamp c)"
  shows "hc_retry_timer d = ht_start (Restart stamp) (hc_clock c + 100)
    \<and> hc_state (hc_act user (Some (Restart stamp)) d) = HC_CONNECTING
    \<and> hc_async_send b (hc_act user (Some (Restart stamp)) d) = hc_act user (Some (Restart stamp)) d"
proof -
  have d: "hc_retry_timer d = ht_start (Restart stamp) (hc_clock c + 100)" "hc_connection d"
    "hc_state d = HC_CONNECTED" "\<not> hc_canceled stamp d"
    using assms(1-4)
    by (simp_all add: d_def hc_connect_done_def hc_resolved_def hc_retry_def hc_emit_def hc_canceled_def Let_def)
  have "hc_state (hc_act user (Some (Restart stamp)) d) = HC_CONNECTING"
    using d by (simp add: hc_act_def hc_resolve_connect_def hc_emit_def Let_def split: option.split)
  then show ?thesis using d(1) by (simp add: hc_async_send_def)
qed

text \<open>A connection whose host is resolved twice: the timer retries, the first answer connects.\<close>
definition resolved_twice :: http_conn where
  "resolved_twice =
     hc_connect_done silent HE_ok HE_ok HE_ok [] 1
       (hc_resolved HE_ok [7] 1
         (hc_act silent (Some (Restart 1))
           (hc_act silent (Some (Retry 1))
             (hc_connect_host HE_ok HE_ok None ''a.com'' 80 None (hc_construct False blank_conn)))))"

section \<open>A request that arrives while receiving is blocked\<close>

text \<open>A request that arrives whole while receiving is blocked is not looked at when receiving goes
  on: only what follows a header that has been read is taken from the buffer, otherwise the socket is
  asked for more. The request is in the buffer, and stays there until the peer, who waits for the
  answer, sends something else.\<close>
lemma blocked_request_waits:
  fixes user :: hc_user
  assumes "request_ok r" and "hc_state c = HC_CONNECTED" and "hc_connection c" and "\<not> hc_canceled stamp c"
    and "hc_passive c" and "\<not> hc_header_recvd c" and "hc_recv_buf c = []" and "hc_stamp c = stamp"
  defines "d \<equiv> hc_keep_async_receiving
      (hc_read_done user HE_ok (request_text r) stamp (hc_block_async_receiving c))"
  shows "told d = told c \<and> hc_outs d = hc_outs c @ [Read_some stamp]
    \<and> hc_recv_buf d = request_text r \<and> 0 < fst (hc_parse_header True (hc_recv_buf d))"
proof -
  obtain q z where q: "head_parses True (request_text r) (HN_request q) z"
    using request_head [OF assms(1)] by blast
  then have "hc_parse_header True (request_text r @ []) = (int (length (request_text r)), HN_request q, z)"
    and "request_text r \<noteq> []"
    unfolding head_parses_def by blast+
  then have pos: "0 < fst (hc_parse_header True (request_text r))" by simp
  have "d = hc_emit (Read_some stamp) (c\<lparr>hc_recv_buf := request_text r, hc_blocked := False,
      hc_recv_state := HC_RECVING\<rparr>)"
    using assms(2-8)
    by (simp add: d_def hc_read_done_def hc_recv_handler_def hc_block_async_receiving_def
        hc_keep_async_receiving_def hc_do_keep_receiving_def hc_canceled_def hc_stamp_def)
  then show ?thesis using pos by (simp add: hc_emit_def told_def)
qed

end
