(* ===== verification/Http_Acceptor.thy ===== *)
theory Http_Acceptor
  imports Http_Conn_Theorems
begin

text \<open>\<open>p2engine/http/http_acceptor.hpp\<close>: the acceptor of HTTP connections. One accept is in flight at
  a time, into a passive connection made for it; while accepting is blocked the connection that
  arrives is kept. Effects are appended to \<open>ha_outs\<close>, \<open>user\<close> is what the owner does to the acceptor
  when it is handed a connection, \<open>mem\<close> the memory a new connection is made in.\<close>

section \<open>State and operations\<close>

datatype ha_effect =
    Accept_into http_conn op_stamp_t
  | Post_accepted hc_error http_conn op_stamp_t
  | Tell_accepted http_conn hc_error
  | Cancel_accept
  | Close_acceptor

record http_acceptor =
  ha_mark :: operation_mark
  ha_accepting :: bool
  ha_blocked :: bool
  ha_open :: bool
  ha_stored :: "(http_conn \<times> hc_error) option"
  ha_local :: "u32 \<times> u16"
  ha_outs :: "ha_effect list"

type_synonym ha_user = "http_acceptor \<Rightarrow> http_acceptor"

definition ha_emit :: "ha_effect \<Rightarrow> http_acceptor \<Rightarrow> http_acceptor" where
  "ha_emit e a = a\<lparr>ha_outs := ha_outs a @ [e]\<rparr>"

definition ha_stamp :: "http_acceptor \<Rightarrow> op_stamp_t" where
  "ha_stamp a = om_stamp (ha_mark a)"

definition ha_new :: http_acceptor where
  "ha_new = \<lparr>ha_mark = operation_mark_new, ha_accepting = False, ha_blocked = True, ha_open = False,
     ha_stored = None, ha_local = (0, 0), ha_outs = []\<rparr>"

text \<open>\<open>keep_async_accepting\<close>.\<close>
definition ha_keep_async_accepting :: "http_conn \<Rightarrow> http_acceptor \<Rightarrow> http_acceptor" where
  "ha_keep_async_accepting mem a =
     (case ha_stored a of
        Some (conn, ec) \<Rightarrow> ha_emit (Post_accepted ec conn (ha_stamp a)) (a\<lparr>ha_stored := None\<rparr>)
      | None \<Rightarrow>
          if ha_blocked a \<and> \<not> ha_accepting a
          then ha_emit (Accept_into (hc_accepted mem) (ha_stamp a))
                 (a\<lparr>ha_accepting := True, ha_blocked := False\<rparr>)
          else a)"

definition ha_block_async_accepting :: "http_acceptor \<Rightarrow> http_acceptor" where
  "ha_block_async_accepting a = a\<lparr>ha_blocked := True\<rparr>"

text \<open>What the socket answers to opening, binding and listening are arguments. \<open>op_cancel\<close>, which
  \<open>open\<close> calls first, only reads the mark.\<close>
definition ha_open_at :: "hc_error \<Rightarrow> u32 \<times> u16 \<Rightarrow> http_acceptor \<Rightarrow> hc_error \<times> http_acceptor" where
  "ha_open_at opened local a =
     (opened, a\<lparr>ha_mark := next_op_stamp (ha_mark a), ha_open := (ha_open a \<or> opened = HE_ok),
                ha_local := local\<rparr>)"

definition ha_listen :: "hc_error \<Rightarrow> hc_error \<Rightarrow> http_conn \<Rightarrow> http_acceptor \<Rightarrow> hc_error \<times> http_acceptor" where
  "ha_listen bound listening mem a =
     (let a1 = a\<lparr>ha_mark := next_op_stamp (ha_mark a)\<rparr>;
          ec = (if bound = HE_ok then listening else bound)
      in if ec = HE_ok then (ec, ha_keep_async_accepting mem a1)
         else (ec, if ha_open a1 then (ha_emit Close_acceptor a1)\<lparr>ha_open := False\<rparr> else a1))"

definition ha_listen_at ::
  "hc_error \<Rightarrow> hc_error \<Rightarrow> hc_error \<Rightarrow> u32 \<times> u16 \<Rightarrow> http_conn \<Rightarrow> http_acceptor \<Rightarrow> hc_error \<times> http_acceptor" where
  "ha_listen_at opened bound listening local mem a =
     (let a1 = snd (ha_open_at opened local a);
          ec = (if opened \<noteq> HE_ok then opened else if bound \<noteq> HE_ok then bound else listening)
      in if ec = HE_ok then (ec, ha_keep_async_accepting mem a1)
         else (ec, (ha_emit Close_acceptor a1)\<lparr>ha_open := False\<rparr>))"

definition ha_accept_handler ::
  "ha_user \<Rightarrow> http_conn \<Rightarrow> hc_error \<Rightarrow> http_conn \<Rightarrow> op_stamp_t \<Rightarrow> http_acceptor \<Rightarrow> http_acceptor" where
  "ha_accept_handler user mem ec conn stamp a =
     (if is_canceled_op stamp (ha_mark a) then a
      else
        let a1 = a\<lparr>ha_accepting := False\<rparr> in
        if ha_blocked a1 then a1\<lparr>ha_stored := Some (conn, ec)\<rparr>
        else
          let conn1 = (if ec \<noteq> HE_ok then hc_close True conn else hc_keep_async_receiving conn);
              a2 = user (ha_emit (Tell_accepted conn1 ec) a1)
          in if ha_open a2 \<and> \<not> ha_blocked a2
             then ha_emit (Accept_into (hc_accepted mem) stamp) (a2\<lparr>ha_accepting := True\<rparr>)
             else a2)"

definition ha_close :: "http_acceptor \<Rightarrow> http_acceptor" where
  "ha_close a =
     (ha_emit Close_acceptor (ha_emit Cancel_accept (a\<lparr>ha_mark := set_cancel (ha_mark a)\<rparr>)))
       \<lparr>ha_open := False\<rparr>"

section \<open>A connection that is kept\<close>

text \<open>One round: accepting is to go on, and what was posted for that runs.\<close>
definition ha_round :: "ha_user \<Rightarrow> http_conn \<Rightarrow> http_acceptor \<Rightarrow> http_acceptor" where
  "ha_round user mem a =
     (case ha_stored a of
        Some (conn, ec) \<Rightarrow> ha_accept_handler user mem ec conn (ha_stamp a) (ha_keep_async_accepting mem a)
      | None \<Rightarrow> ha_keep_async_accepting mem a)"

lemma round_kept:
  assumes "ha_stored a = Some (conn, ec)" and "ha_blocked a" and "\<not> is_canceled_op (ha_stamp a) (ha_mark a)"
  shows "ha_round user mem a
    = a\<lparr>ha_accepting := False, ha_outs := ha_outs a @ [Post_accepted ec conn (ha_stamp a)]\<rparr>"
  using assms
  by (simp add: ha_round_def ha_keep_async_accepting_def ha_accept_handler_def ha_emit_def ha_stamp_def)

text \<open>A connection that arrives while accepting is blocked is never handed to the owner by going
  on: the handler that is posted for it finds accepting blocked still, and keeps the connection
  again. However often the owner asks to go on, nothing is accepted, nothing is handed up, and the
  acceptor stays as it is.\<close>
lemma kept_connection_stays:
  assumes "ha_stored a = Some (conn, ec)" and "ha_blocked a" and "\<not> is_canceled_op (ha_stamp a) (ha_mark a)"
  shows "ha_stored ((ha_round user mem ^^ n) a) = Some (conn, ec)
    \<and> ha_outs ((ha_round user mem ^^ n) a) = ha_outs a @ replicate n (Post_accepted ec conn (ha_stamp a))
    \<and> ha_blocked ((ha_round user mem ^^ n) a)"
proof -
  have "ha_stored ((ha_round user mem ^^ n) a) = Some (conn, ec)
    \<and> ha_outs ((ha_round user mem ^^ n) a) = ha_outs a @ replicate n (Post_accepted ec conn (ha_stamp a))
    \<and> ha_blocked ((ha_round user mem ^^ n) a) \<and> ha_mark ((ha_round user mem ^^ n) a) = ha_mark a"
  proof (induction n)
    case (Suc n)
    let ?b = "(ha_round user mem ^^ n) a"
    have "ha_round user mem ?b = ?b\<lparr>ha_accepting := False,
        ha_outs := ha_outs ?b @ [Post_accepted ec conn (ha_stamp ?b)]\<rparr>"
      using Suc assms(3) by (intro round_kept) (simp_all add: ha_stamp_def)
    then show ?case using Suc by (simp add: ha_stamp_def replicate_append_same)
  qed (use assms in simp_all)
  then show ?thesis by blast
qed

definition kept_acceptor :: http_acceptor where
  "kept_acceptor =
     ha_accept_handler id blank_conn HE_ok (hc_accepted blank_conn) 1
       (ha_block_async_accepting (snd (ha_listen_at HE_ok HE_ok HE_ok (0, 80) blank_conn ha_new)))"

end

