(* ===== verification/Bitset.thy ===== *)
theory Bitset
  imports Byte_Order
begin

text \<open>\<open>p2engine/compressed_bitset.hpp\<close>: a set of bits, packed as a row of units of equal width. The
  first bit of a unit is the value of a run, the others are how many more bits of the same value
  follow. Three bytes precede the units: the size of the set in network order and the width of a
  unit. A pointer is an offset into a list of bytes, and an access outside the list is \<open>None\<close>. The
  build is the one without assertions.\<close>

section \<open>Single bits of a buffer\<close>

definition set_bit_at :: "bytes \<Rightarrow> nat \<Rightarrow> nat \<Rightarrow> byte \<Rightarrow> bytes option" where
  "set_bit_at buf data bitIdx bitVal =
     (let p = data + drop_bit 3 bitIdx; m = push_bit (bitIdx mod 8) 1 in
      if p < length buf
      then Some (buf[p := (if bitVal = 0 then buf ! p AND NOT m else buf ! p OR m)])
      else None)"

fun set_bits_at :: "bytes \<Rightarrow> nat \<Rightarrow> nat \<Rightarrow> nat \<Rightarrow> u32 \<Rightarrow> bytes option" where
  "set_bits_at buf data i 0 val = Some buf"
| "set_bits_at buf data i (Suc bitCnt) val =
     (case set_bit_at buf data i (ucast (val AND 1)) of
        None \<Rightarrow> None
      | Some buf' \<Rightarrow> set_bits_at buf' data (Suc i) bitCnt (drop_bit 1 val))"

definition get_bit_at :: "bytes \<Rightarrow> nat \<Rightarrow> nat \<Rightarrow> byte option" where
  "get_bit_at buf data bitIdx =
     (let p = data + bitIdx div 8 in
      if p < length buf then Some (drop_bit (bitIdx mod 8) (buf ! p) AND 1) else None)"

text \<open>The loop of \<open>_get_bits\<close> from the bit \<open>i\<close> of the result on, with \<open>n\<close> bits left. A shift by 32
  or more is undefined.\<close>
fun get_bits_from :: "bytes \<Rightarrow> nat \<Rightarrow> nat \<Rightarrow> nat \<Rightarrow> nat \<Rightarrow> u32 \<Rightarrow> u32 option" where
  "get_bits_from buf data bitIdx i 0 res = Some res"
| "get_bits_from buf data bitIdx i (Suc n) res =
     (case get_bit_at buf data (bitIdx + i) of
        None \<Rightarrow> None
      | Some b \<Rightarrow> if 32 \<le> i then None
                  else get_bits_from buf data bitIdx (Suc i) n (res OR push_bit i (ucast b)))"

definition get_bits_at :: "bytes \<Rightarrow> nat \<Rightarrow> nat \<Rightarrow> nat \<Rightarrow> u32 option" where
  "get_bits_at buf data bitIdx bitCnt = get_bits_from buf data bitIdx 0 bitCnt 0"

section \<open>Packing with one width\<close>

text \<open>What an attempt ends with: the packed bytes, \<open>false\<close> because they are as many as the
  limit, or an access outside the buffer.\<close>
datatype packing = Packed bytes | Too_long | Outside

text \<open>The bits that follow the first one of a run: \<open>x\<close> is the unit, \<open>j\<close> the bits counted so far. The
  last argument is the bitset from the position \<open>i\<close> on.\<close>
fun count_run :: "bool \<Rightarrow> u32 \<Rightarrow> u32 \<Rightarrow> u32 \<Rightarrow> bool list \<Rightarrow> u32 \<times> bool list" where
  "count_run velue maxLen x j [] = (x, [])"
| "count_run velue maxLen x j (b # bs) =
     (if j < maxLen \<and> b = velue then count_run velue maxLen (x + 1) (j + 1) bs else (x, b # bs))"

lemma count_run_shorter: "length (snd (count_run v m x j bs)) \<le> length bs"
  by (induction v m x j bs rule: count_run.induct) auto

function grow_to :: "nat \<Rightarrow> nat \<Rightarrow> bytes \<Rightarrow> bytes option" where
  "grow_to need stop buf =
     (if (length buf - 3) * 8 < need
      then let buf' = buf @ [0] in if stop \<le> length buf' then None else grow_to need stop buf'
      else Some buf)"
  by pat_completeness auto
termination by (relation "measure (\<lambda>(need, stop, buf). stop - length buf)") auto

declare grow_to.simps [simp del]

function pack_loop :: "nat \<Rightarrow> nat \<Rightarrow> bytes \<Rightarrow> nat \<Rightarrow> bool list \<Rightarrow> packing" where
  "pack_loop bits stop buf k [] = Packed buf"
| "pack_loop bits stop buf k (velue # bs) =
     (let maxLen = drop_bit (32 - bits + 1) 0xffffffff;
          (x, rest) = count_run velue maxLen (if velue then push_bit (bits - 1) 1 else 0) 0 bs in
      case grow_to (k + bits) stop buf of
        None \<Rightarrow> Too_long
      | Some buf1 \<Rightarrow>
          (case set_bits_at buf1 3 k bits x of
             None \<Rightarrow> Outside
           | Some buf2 \<Rightarrow> pack_loop bits stop buf2 (k + bits) rest))"
  by pat_completeness auto
termination
  by (relation "measure (\<lambda>(bits, stop, buf, k, bs). length bs)")
    (auto simp: less_Suc_eq_le, metis count_run_shorter snd_conv)

definition commpless_to_buf :: "bool \<Rightarrow> bool list \<Rightarrow> nat \<Rightarrow> nat \<Rightarrow> packing" where
  "commpless_to_buf big bitset bits stop =
     (case pack_loop bits stop [0, 0, 0] 0 bitset of
        Packed buf \<Rightarrow>
          (case write_int_hton big (of_nat (length bitset) :: u16) buf 0 True of
             None \<Rightarrow> Outside
           | Some (buf', _) \<Rightarrow> Packed (buf'[2 := of_nat bits]))
      | r \<Rightarrow> r)"

section \<open>Choosing the width\<close>

text \<open>The loop over the widths. The state is what the function returns and writes: whether an
  attempt succeeded, the buffer and the width.\<close>
fun try_widths :: "bool \<Rightarrow> bool list \<Rightarrow> nat \<Rightarrow> nat list \<Rightarrow> bool \<times> bytes \<times> nat \<Rightarrow>
    (bool \<times> bytes \<times> nat) option" where
  "try_widths big bitset bytes [] s = Some s"
| "try_widths big bitset bytes (i # is) (comped, compressedBuf, bits) =
     (case commpless_to_buf big bitset i bytes of
        Outside \<Rightarrow> None
      | Too_long \<Rightarrow> try_widths big bitset bytes is (comped, compressedBuf, bits)
      | Packed tmp \<Rightarrow>
          if comped \<and> length compressedBuf < length tmp then Some (comped, compressedBuf, bits)
          else if \<not> comped \<or> length tmp < length compressedBuf
          then try_widths big bitset bytes is (True, tmp, i)
          else try_widths big bitset bytes is (comped, compressedBuf, bits))"

text \<open>\<open>None\<close> is an access outside of a buffer, or the failure of the assertion on the size.\<close>

definition compress_to_buf :: "bool \<Rightarrow> bool list \<Rightarrow> bytes \<Rightarrow> (bool \<times> bytes \<times> nat) option" where
  "compress_to_buf big bitset compressedBuf =
     (if length bitset < 0xffff
      then try_widths big bitset ((length bitset + 7) div 8) [8, 7, 6, 5, 4, 3, 2]
             (False, compressedBuf, 1)
      else None)"

section \<open>Unpacking\<close>

text \<open>The loop that fills the bitset; \<open>n\<close> is how many bits are still to be set.\<close>
function unpack_loop :: "bytes \<Rightarrow> nat \<Rightarrow> nat \<Rightarrow> nat \<Rightarrow> bool list option" where
  "unpack_loop buf bits 0 j = Some []"
| "unpack_loop buf bits (Suc n) j =
     (case get_bits_at buf 3 j bits of
        None \<Rightarrow> None
      | Some num \<Rightarrow>
          let v = num AND push_bit (bits - 1) 1; run = min n (unat (num AND NOT v)) in
          map_option (\<lambda>bs. (v \<noteq> 0) # replicate run (v \<noteq> 0) @ bs)
            (unpack_loop buf bits (n - run) (j + bits)))"
  by pat_completeness auto
termination by (relation "measure (\<lambda>(buf, bits, n, j). n)") auto

definition decompress :: "bool \<Rightarrow> bytes \<Rightarrow> bool list option" where
  "decompress big buf =
     (if length buf < 3 then Some []
      else case read_int_ntoh big buf 0 True of
        None \<Rightarrow> None
      | Some (sz, p) \<Rightarrow>
          let bitsetSize = unat (sz :: u16); bits = unat (buf ! p) in
          if bits = 0 then None
          else if length buf < (bitsetSize div bits + 7) div 8 + 3 then Some []
          else unpack_loop buf bits bitsetSize 0)"

section \<open>Theorems\<close>

text \<open>The theorems about the packed bitset.\<close>

section \<open>Bits of the units\<close>

text \<open>The bit of the units at a position.\<close>
definition ubit :: "bytes \<Rightarrow> nat \<Rightarrow> bool" where
  "ubit buf i = bit (buf ! (3 + i div 8)) (i mod 8)"

definition has_bits :: "bytes \<Rightarrow> nat \<Rightarrow> bool" where
  "has_bits buf n \<longleftrightarrow> n \<le> (length buf - 3) * 8"

lemma has_bits_index: "has_bits buf n \<Longrightarrow> i < n \<Longrightarrow> 3 + i div 8 < length buf"
  unfolding has_bits_def by linarith

lemma set_bit_at_units:
  assumes "has_bits buf n" and "i < n"
  shows "\<exists>buf'. set_bit_at buf 3 i v = Some buf' \<and> length buf' = length buf
    \<and> (\<forall>t < n. ubit buf' t = (if t = i then v \<noteq> 0 else ubit buf t)) \<and> take 3 buf' = take 3 buf"
proof -
  let ?p = "3 + i div 8"
  let ?b = "if v = 0 then buf ! ?p AND NOT (push_bit (i mod 8) 1) else buf ! ?p OR push_bit (i mod 8) 1"
  have p: "?p < length buf" using has_bits_index [OF assms] .
  have "bit ?b (t mod 8) = (if t mod 8 = i mod 8 then v \<noteq> 0 else bit (buf ! ?p) (t mod 8))" for t
    by (auto simp: bit_simps)
  moreover have "t = i" if "t div 8 = i div 8" and "t mod 8 = i mod 8" for t
    using that by (metis div_mult_mod_eq)
  ultimately have "ubit (buf[?p := ?b]) t = (if t = i then v \<noteq> 0 else ubit buf t)" if "t < n" for t
    using p by (auto simp: ubit_def nth_list_update)
  moreover have "set_bit_at buf 3 i v = Some (buf[?p := ?b])"
    using p by (simp only: set_bit_at_def Let_def drop_bit_eq_div) simp
  moreover have "take 3 (buf[?p := ?b]) = take 3 buf" by simp
  ultimately show ?thesis by (metis length_list_update)
qed

lemma low_bit_nonzero: "(ucast (val AND 1 :: u32) :: byte) \<noteq> 0 \<longleftrightarrow> bit val 0"
  by (cases "bit val 0") (auto simp: and_one_eq bit_0 odd_iff_mod_2_eq_one)

lemma set_bits_at_units:
  assumes "has_bits buf n" and "i + cnt \<le> n"
  shows "\<exists>buf'. set_bits_at buf 3 i cnt val = Some buf' \<and> length buf' = length buf
    \<and> (\<forall>t < n. ubit buf' t = (if i \<le> t \<and> t < i + cnt then bit val (t - i) else ubit buf t))
    \<and> take 3 buf' = take 3 buf"
  using assms
proof (induction cnt arbitrary: buf i val)
  case (Suc cnt)
  obtain b1 where b1: "set_bit_at buf 3 i (ucast (val AND 1)) = Some b1" "length b1 = length buf"
    "\<forall>t < n. ubit b1 t = (if t = i then bit val 0 else ubit buf t)" "take 3 b1 = take 3 buf"
    using set_bit_at_units [OF Suc.prems(1), of i "ucast (val AND 1)"] Suc.prems(2)
    by (auto simp: low_bit_nonzero)
  have "has_bits b1 n" using Suc.prems(1) b1(2) by (simp add: has_bits_def)
  from Suc.IH [OF this, of "Suc i" "drop_bit 1 val"] Suc.prems(2)
  obtain b2 where b2: "set_bits_at b1 3 (Suc i) cnt (drop_bit 1 val) = Some b2"
    "length b2 = length b1" "take 3 b2 = take 3 b1"
    "\<forall>t < n. ubit b2 t = (if Suc i \<le> t \<and> t < Suc i + cnt then bit (drop_bit 1 val) (t - Suc i)
       else ubit b1 t)" by auto
  have "ubit b2 t = (if i \<le> t \<and> t < i + Suc cnt then bit val (t - i) else ubit buf t)"
    if "t < n" for t
  proof (cases "Suc i \<le> t")
    case True
    then have "Suc (t - Suc i) = t - i" by simp
    then show ?thesis using that True b1(3) b2(4) by (auto simp: bit_drop_bit_eq)
  qed (use that b1(3) b2(4) in auto)
  then show ?case using b1 b2 by simp
qed auto

lemma get_bit_at_units:
  assumes "has_bits buf n" and "i < n"
  shows "get_bit_at buf 3 i = Some (of_bool (ubit buf i))"
proof -
  have "drop_bit (i mod 8) b AND 1 = (of_bool (bit b (i mod 8)) :: byte)" for b
    by (rule bit_eqI) (auto simp: bit_simps)
  then show ?thesis
    using has_bits_index [OF assms] by (simp add: get_bit_at_def Let_def ubit_def)
qed

lemma get_bits_from_units:
  assumes "has_bits buf m" and "j + i + n \<le> m" and "i + n \<le> 32"
    and "\<forall>t. bit res t \<longrightarrow> t < i"
  shows "\<exists>r. get_bits_from buf 3 j i n res = Some r \<and>
    (\<forall>t. bit r t \<longleftrightarrow> (if t < i then bit res t else t < i + n \<and> ubit buf (j + t)))"
  using assms
proof (induction n arbitrary: i res)
  case (Suc n)
  let ?r = "res OR push_bit i (ucast (of_bool (ubit buf (j + i)) :: byte))"
  have r: "bit ?r t \<longleftrightarrow> (if t < i then bit res t else t = i \<and> ubit buf (j + i))" for t
    using Suc.prems(3,4) by (auto simp: bit_simps not_less bit_1_iff)
  then have "\<exists>r. get_bits_from buf 3 j (Suc i) n ?r = Some r \<and>
    (\<forall>t. bit r t \<longleftrightarrow> (if t < Suc i then bit ?r t else t < Suc i + n \<and> ubit buf (j + t)))"
    using Suc.prems by (intro Suc.IH) (auto split: if_splits)
  then obtain r' where r': "get_bits_from buf 3 j (Suc i) n ?r = Some r'"
    "\<forall>t. bit r' t \<longleftrightarrow> (if t < Suc i then bit ?r t else t < Suc i + n \<and> ubit buf (j + t))" by blast
  have "get_bit_at buf 3 (j + i) = Some (of_bool (ubit buf (j + i)))"
    using get_bit_at_units [OF Suc.prems(1)] Suc.prems(2) by simp
  then have "get_bits_from buf 3 j i (Suc n) res = Some r'"
    using r'(1) Suc.prems(3) by simp
  then show ?case using r'(2) r by (auto simp: less_Suc_eq)
qed auto

lemma get_bits_at_units:
  assumes "has_bits buf m" and "j + n \<le> m" and "n \<le> 32"
    and "\<forall>t < n. ubit buf (j + t) = bit (x :: u32) t" and "unat x < 2 ^ n"
  shows "get_bits_at buf 3 j n = Some x"
proof -
  obtain r where r: "get_bits_from buf 3 j 0 n 0 = Some r"
    "\<forall>t. bit r t \<longleftrightarrow> t < n \<and> ubit buf (j + t)"
    using get_bits_from_units [of buf m j 0 n 0] assms(1-3) by auto
  have "\<not> bit x t" if "n \<le> t" for t
  proof -
    have "unat x < 2 ^ t" using assms(5) that by (meson less_le_trans one_le_numeral power_increasing)
    then have "\<not> bit (unat x) t" by (simp add: bit_iff_odd)
    then show ?thesis by (simp add: bit_unsigned_iff)
  qed
  then have "r = x" using r(2) assms(4) by (intro bit_word_eqI) (metis not_le)
  then show ?thesis using r(1) by (simp add: get_bits_at_def)
qed


section \<open>Runs\<close>

lemma count_run_spec:
  assumes "count_run v m x j bs = (y, rest)"
  shows "\<exists>n. bs = replicate n v @ rest \<and> y = x + of_nat n \<and> unat j + n \<le> max (unat j) (unat m)
    \<and> (rest = [] \<or> hd rest \<noteq> v \<or> unat m \<le> unat j + n)"
  using assms
proof (induction v m x j bs rule: count_run.induct)
  case (2 v m x j b bs)
  show ?case
  proof (cases "j < m \<and> b = v")
    case True
    have "unat m < 2 ^ LENGTH(32)" by (rule unsigned_less)
    then have j: "unat (j + 1) = unat j + 1"
      using True unat_add_lem [of j 1] by (simp add: word_less_nat_alt)
    obtain n where n: "bs = replicate n v @ rest" "y = x + 1 + of_nat n"
      "unat (j + 1) + n \<le> max (unat (j + 1)) (unat m)"
      "rest = [] \<or> hd rest \<noteq> v \<or> unat m \<le> unat (j + 1) + n"
      using 2 True by auto
    have "unat j < unat m" using True by (simp add: word_less_nat_alt)
    then show ?thesis using n True j
      by (intro exI [of _ "Suc n"]) (auto simp: algebra_simps)
  next
    case False
    then show ?thesis using 2(2)
      by (intro exI [of _ 0]) (auto simp: word_less_nat_alt)
  qed
qed simp


lemma grow_to_spec:
  assumes "grow_to need stop buf = Some buf'"
  shows "\<exists>n. buf' = buf @ replicate n 0 \<and> need \<le> (length buf' - 3) * 8
    \<and> (0 < n \<longrightarrow> length buf' < stop \<and> (length buf' - 4) * 8 < need)"
  using assms
proof (induction need stop buf rule: grow_to.induct)
  case (1 need stop buf)
  show ?case
  proof (cases "(length buf - 3) * 8 < need")
    case True
    then have st: "\<not> stop \<le> length (buf @ [0])" and rec: "grow_to need stop (buf @ [0]) = Some buf'"
      using 1(2) by (simp_all add: grow_to.simps [of need stop buf] Let_def split: if_splits)
    obtain n where n: "buf' = (buf @ [0]) @ replicate n 0" "need \<le> (length buf' - 3) * 8"
      "0 < n \<longrightarrow> length buf' < stop \<and> (length buf' - 4) * 8 < need"
      using 1(1) [OF True refl st rec] by blast
    then show ?thesis using True st
      by (intro exI [of _ "Suc n"]) (cases n; auto)
  next
    case False
    then show ?thesis using 1(2)
      by (intro exI [of _ 0]) (simp add: grow_to.simps [of need stop buf])
  qed
qed

lemma ubit_append: "has_bits buf n \<Longrightarrow> t < n \<Longrightarrow> ubit (buf @ xs) t = ubit buf t"
  using has_bits_index [of buf n t] by (simp add: ubit_def nth_append)

text \<open>The unit of a run: its value and the number of further bits, read back.\<close>
lemma unit_reads_back:
  fixes n :: nat
  assumes "2 \<le> bits" and "bits \<le> 8" and "n < 2 ^ (bits - 1)"
    and x: "x = (if v then push_bit (bits - 1) 1 else 0) + (of_nat n :: u32)"
  shows "unat x < 2 ^ bits \<and> (x AND push_bit (bits - 1) 1 \<noteq> 0) = v
    \<and> unat (x AND NOT (x AND push_bit (bits - 1) 1)) = n"
proof -
  let ?p = "push_bit (bits - 1) (1 :: u32)"
  have "n < 2 ^ 7" by (rule less_le_trans [OF assms(3)]) (use assms(2) power_increasing [of "bits - 1" 7 "2 :: nat"] in simp)
  then have un: "unat (of_nat n :: u32) = n" by (simp add: unsigned_of_nat take_bit_nat_eq_self)
  have nb: "\<not> bit (of_nat n :: u32) t" if "bits - 1 \<le> t" for t
  proof -
    have "n < 2 ^ t" using assms(3) that by (meson less_le_trans one_le_numeral power_increasing)
    then have "\<not> bit (unat (of_nat n :: u32)) t" by (simp add: bit_iff_odd un)
    then show ?thesis by (simp add: bit_unsigned_iff)
  qed
  have nb2: "t < bits - 1" if "bit n t" and "t < 32" for t
    using nb [of t] that by (cases "bits - 1 \<le> t") (auto simp: bit_simps)
  have dis: "?p AND of_nat n = 0" using nb by (intro bit_word_eqI) (auto simp: bit_simps)
  then have or: "x = (if v then ?p else 0) OR of_nat n"
    using x by (simp add: disjunctive_add_eq_or)
  have a: "x AND ?p = (if v then ?p else 0)" unfolding or
    using nb by (intro bit_word_eqI) (auto simp: bit_simps)
  have b: "x AND NOT (x AND ?p) = of_nat n" unfolding a unfolding or
    using nb by (intro bit_word_eqI) (auto simp: bit_simps)
  have "?p \<noteq> 0" using assms(2) by (auto simp: bit_eq_iff bit_simps intro!: exI [of _ "bits - 1"])
  moreover have "unat x < 2 ^ bits"
  proof -
    have hi: "\<not> bit n t" if "t < 32" and "bits \<le> t" for t
      using nb2 [of t] that assms(1) by auto
    have "take_bit bits x = x" unfolding or
    proof (rule bit_word_eqI)
      fix t assume "t < LENGTH(32)"
      then show "bit (take_bit bits ((if v then ?p else 0) OR of_nat n)) t
        = bit ((if v then ?p else 0) OR of_nat n) t"
        using hi [of t] assms(1) by (cases "t < bits") (auto simp: bit_simps)
    qed
    then show ?thesis by (metis unsigned_take_bit_eq take_bit_nat_less_exp)
  qed
  ultimately show ?thesis using a b un by simp
qed


lemma max_run:
  assumes "2 \<le> bits" and "bits \<le> 8"
  shows "unat (drop_bit (32 - bits + 1) 0xffffffff :: u32) = 2 ^ (bits - 1) - 1"
proof -
  have "bits \<in> {2, 3, 4, 5, 6, 7, 8}" using assms by auto
  then show ?thesis by (auto simp: drop_bit_eq_div unat_div)
qed

lemma pack_too_long:
  "grow_to (k + bits) stop buf = None \<Longrightarrow> pack_loop bits stop buf k (v # bs) = Too_long"
  by (simp split: prod.split)

text \<open>One unit of the packing loop: the run it takes, and the buffer it leaves.\<close>
lemma pack_loop_step:
  assumes g: "grow_to (k + bits) stop buf = Some buf1" and "2 \<le> bits" and "bits \<le> 8"
    and "has_bits buf k" and "3 \<le> length buf"
  shows "\<exists>n rest x buf2. v # bs = replicate (Suc n) v @ rest \<and> n < 2 ^ (bits - 1)
    \<and> (rest = [] \<or> hd rest \<noteq> v \<or> n = 2 ^ (bits - 1) - 1)
    \<and> x = (if v then push_bit (bits - 1) 1 else 0) + (of_nat n :: u32)
    \<and> length buf2 = length buf1 \<and> 3 \<le> length buf2 \<and> take 3 buf2 = take 3 buf \<and> has_bits buf2 (k + bits)
    \<and> (\<forall>t < k. ubit buf2 t = ubit buf t) \<and> (\<forall>t < bits. ubit buf2 (k + t) = bit x t)
    \<and> pack_loop bits stop buf k (v # bs) = pack_loop bits stop buf2 (k + bits) rest
    \<and> length rest \<le> length bs"
proof -
  let ?m = "drop_bit (32 - bits + 1) 0xffffffff :: u32"
  let ?b = "if v then push_bit (bits - 1) 1 else 0 :: u32"
  obtain x rest where cr: "count_run v ?m ?b 0 bs = (x, rest)" by (cases "count_run v ?m ?b 0 bs")
  obtain z where z: "buf1 = buf @ replicate z 0" "k + bits \<le> (length buf1 - 3) * 8"
    using grow_to_spec [OF g] by blast
  have h1: "has_bits buf1 (k + bits)" using z(2) by (simp add: has_bits_def)
  obtain buf2 where b2: "set_bits_at buf1 3 k bits x = Some buf2" "length buf2 = length buf1"
    "\<forall>t < k + bits. ubit buf2 t = (if k \<le> t \<and> t < k + bits then bit x (t - k) else ubit buf1 t)"
    "take 3 buf2 = take 3 buf1"
    using set_bits_at_units [OF h1, of k bits x] by auto
  have rest: "pack_loop bits stop buf k (v # bs) = pack_loop bits stop buf2 (k + bits) rest"
    using cr g b2(1) by simp
  obtain n where n: "bs = replicate n v @ rest" "x = ?b + of_nat n"
    "n \<le> unat ?m" "rest = [] \<or> hd rest \<noteq> v \<or> unat ?m \<le> n"
    using count_run_spec [OF cr] by auto
  have "n \<le> 2 ^ (bits - 1) - 1" and "rest = [] \<or> hd rest \<noteq> v \<or> 2 ^ (bits - 1) - 1 \<le> n"
    using n(3,4) unfolding max_run [OF assms(2,3)] by auto
  moreover have "(0 :: nat) < 2 ^ (bits - 1)" by simp
  ultimately have lim: "n < 2 ^ (bits - 1)" "rest = [] \<or> hd rest \<noteq> v \<or> n = 2 ^ (bits - 1) - 1"
    by (linarith, linarith)
  have old: "\<forall>t < k. ubit buf2 t = ubit buf t"
    using b2(3) ubit_append [OF assms(4)] z(1) by auto
  have new: "\<forall>t < bits. ubit buf2 (k + t) = bit x t" using b2(3) by auto
  have h2: "has_bits buf2 (k + bits)" using h1 b2(2) by (simp add: has_bits_def)
  show ?thesis
    by (rule exI [of _ n], rule exI [of _ rest], rule exI [of _ x], rule exI [of _ buf2])
      (use n(1,2) lim b2(1,2,4) z(1) assms(5) h2 old new rest in auto)
qed

lemma pack_unpack:
  assumes "pack_loop bits stop buf k bs = Packed buf'" and "2 \<le> bits" and "bits \<le> 8"
    and "has_bits buf k" and "3 \<le> length buf"
  shows "has_bits buf' k \<and> (\<forall>t < k. ubit buf' t = ubit buf t) \<and> take 3 buf' = take 3 buf
    \<and> 3 \<le> length buf' \<and> unpack_loop buf' bits (length bs) k = Some bs"
  using assms
proof (induction "length bs" arbitrary: bs buf k rule: less_induct)
  case less
  show ?case
  proof (cases bs)
    case Nil
    then show ?thesis using less.prems by simp
  next
    case (Cons v cs)
    obtain buf1 where g: "grow_to (k + bits) stop buf = Some buf1"
      using less.prems(1) pack_too_long [of k bits stop buf v cs] Cons
      by (cases "grow_to (k + bits) stop buf") auto
    obtain n rest x buf2 where st: "v # cs = replicate (Suc n) v @ rest" "n < 2 ^ (bits - 1)"
      "x = (if v then push_bit (bits - 1) 1 else 0) + (of_nat n :: u32)"
      "3 \<le> length buf2" "take 3 buf2 = take 3 buf" "has_bits buf2 (k + bits)"
      "\<forall>t < k. ubit buf2 t = ubit buf t" "\<forall>t < bits. ubit buf2 (k + t) = bit x t"
      "pack_loop bits stop buf k (v # cs) = pack_loop bits stop buf2 (k + bits) rest"
      "length rest \<le> length cs"
      using pack_loop_step [OF g less.prems(2-5), of v cs] by blast
    have pk: "pack_loop bits stop buf2 (k + bits) rest = Packed buf'"
      using less.prems(1) Cons st(9) by simp
    have "length rest < length bs" using Cons st(10) by simp
    from less.hyps [OF this pk less.prems(2,3) st(6,4)]
    have ih: "has_bits buf' (k + bits)" "\<forall>t < k + bits. ubit buf' t = ubit buf2 t"
      "take 3 buf' = take 3 buf2" "3 \<le> length buf'"
      "unpack_loop buf' bits (length rest) (k + bits) = Some rest" by blast+
    note un = unit_reads_back [OF less.prems(2,3) st(2,3)]
    have get: "get_bits_at buf' 3 k bits = Some x"
      using less.prems(3) st(8) ih(2) un by (intro get_bits_at_units [OF ih(1)]) auto
    have cs: "cs = replicate n v @ rest" using st(1) by simp
    have "unpack_loop buf' bits (length bs) k = Some bs"
      using get un ih(5) by (simp add: Cons cs Let_def)
    moreover have "has_bits buf' k" using ih(1) by (simp add: has_bits_def)
    ultimately show ?thesis using ih st(5,7) by simp
  qed
qed


text \<open>The packing loop never leaves the buffer, and a buffer that grew stays below the limit.\<close>
lemma pack_bounds:
  assumes "2 \<le> bits" and "bits \<le> 8" and "has_bits buf k" and "3 \<le> length buf"
  shows "pack_loop bits stop buf k bs \<noteq> Outside
    \<and> (\<forall>buf'. pack_loop bits stop buf k bs = Packed buf' \<longrightarrow> length buf \<le> length buf'
        \<and> (length buf < length buf' \<longrightarrow> length buf' < stop)
        \<and> (bs \<noteq> [] \<longrightarrow> k + bits \<le> (length buf' - 3) * 8))"
  using assms
proof (induction "length bs" arbitrary: bs buf k rule: less_induct)
  case less
  show ?case
  proof (cases bs)
    case (Cons v cs)
    show ?thesis
    proof (cases "grow_to (k + bits) stop buf")
      case None
      then show ?thesis using pack_too_long [OF None] Cons by simp
    next
      case (Some buf1)
      obtain n rest x buf2 where st: "v # cs = replicate (Suc n) v @ rest"
        "length buf2 = length buf1" "3 \<le> length buf2" "has_bits buf2 (k + bits)"
        "pack_loop bits stop buf k (v # cs) = pack_loop bits stop buf2 (k + bits) rest"
        "length rest \<le> length cs"
        using pack_loop_step [OF Some less.prems, of v cs] by blast
      have "length rest < length bs" using Cons st(6) by simp
      from less.hyps [OF this less.prems(1,2) st(4,3)]
      have ih: "pack_loop bits stop buf2 (k + bits) rest \<noteq> Outside"
        "pack_loop bits stop buf2 (k + bits) rest = Packed buf' \<Longrightarrow> length buf2 \<le> length buf'
          \<and> (length buf2 < length buf' \<longrightarrow> length buf' < stop)" for buf' by blast+
      have "length buf \<le> length buf1 \<and> (length buf < length buf1 \<longrightarrow> length buf1 < stop)"
        using grow_to_spec [OF Some] by auto
      then show ?thesis unfolding Cons st(5)
        using ih st(2,4) by (fastforce simp: has_bits_def)
    qed
  qed simp
qed

section \<open>One width\<close>

lemma unpack_cong:
  assumes "length buf' = length buf" and "drop 3 buf' = drop 3 buf"
  shows "unpack_loop buf' bits n j = unpack_loop buf bits n j"
proof -
  have "buf' ! (3 + i) = buf ! (3 + i)" if "3 + i < length buf" for i
    using assms that by (metis nth_drop add_leD1 less_imp_le)
  then have "get_bit_at buf' 3 i = get_bit_at buf 3 i" for i
    using assms(1) by (simp add: get_bit_at_def Let_def)
  then have "get_bits_from buf' 3 j i m r = get_bits_from buf 3 j i m r" for j i m r
    by (induction buf "3 :: nat" j i m r rule: get_bits_from.induct)
      (simp_all split: option.splits)
  then have "get_bits_at buf' 3 j bits = get_bits_at buf 3 j bits" for j
    by (simp add: get_bits_at_def)
  then show ?thesis
    by (induction buf bits n j rule: unpack_loop.induct) (simp_all split: option.splits)
qed

text \<open>The header that an attempt writes, and what reading it back gives.\<close>
lemma commpless_header:
  assumes "commpless_to_buf big bs bits stop = Packed cb" and "2 \<le> bits" and "bits \<le> 8"
    and "length bs < 65536"
  shows "\<exists>buf. pack_loop bits stop [0, 0, 0] 0 bs = Packed buf \<and> length cb = length buf
    \<and> 3 \<le> length buf \<and> drop 3 cb = drop 3 buf \<and> cb ! 2 = of_nat bits
    \<and> read_int_ntoh big' cb 0 True = Some (of_nat (length bs) :: u16, 2)"
proof -
  obtain buf where p: "pack_loop bits stop [0, 0, 0] 0 bs = Packed buf"
    using assms(1) by (auto simp: commpless_to_buf_def split: packing.splits)
  have len: "3 \<le> length buf"
    using pack_unpack [OF p assms(2,3)] by (simp add: has_bits_def)
  let ?h = "rev (bytes_of_word (of_nat (length bs) :: u16))"
  let ?b = "?h @ drop 2 buf"
  have hl: "length ?h = 2" by simp
  have cb: "cb = ?b[2 := of_nat bits]"
    using assms(1) p len
    by (simp add: commpless_to_buf_def write_int_hton_def write_int_def write_value_def mem_copy_def
        network_bytes numeral_2_eq_2 split: option.splits)
  have "2 < length buf" and "Suc 2 = 3" using len by auto
  then have d: "drop 2 buf = buf ! 2 # drop 3 buf" by (metis Cons_nth_drop_Suc)
  have cb2: "cb = ?h @ of_nat bits # drop 3 buf"
    unfolding cb list_update_append hl d by simp
  have "of_memory big' ?h = hton big' (of_nat (length bs) :: u16)"
    using of_memory_to_memory [of big' "hton big' (of_nat (length bs) :: u16)"]
    by (simp only: network_bytes) simp
  then have "read_int_ntoh big' cb 0 True = Some (of_nat (length bs) :: u16, 2)"
    using ntoh_hton(2) by (simp add: read_int_ntoh_def read_int_def read_value_def cb2)
  then show ?thesis using p len by (auto simp: cb2 nth_append)
qed

lemma one_width_back:
  assumes "commpless_to_buf big bs bits stop = Packed cb" and "2 \<le> bits" and "bits \<le> 8"
    and "length bs < 65536"
  shows "decompress big' cb
    = Some (if length cb < (length bs div bits + 7) div 8 + 3 then [] else bs)"
proof -
  obtain buf where h: "pack_loop bits stop [0, 0, 0] 0 bs = Packed buf" "length cb = length buf"
    "3 \<le> length buf" "drop 3 cb = drop 3 buf" "cb ! 2 = of_nat bits"
    "read_int_ntoh big' cb 0 True = Some (of_nat (length bs) :: u16, 2)"
    using commpless_header [OF assms, of big'] by blast
  have "unpack_loop buf bits (length bs) 0 = Some bs"
    using pack_unpack [OF h(1) assms(2,3)] by (simp add: has_bits_def)
  then have "unpack_loop cb bits (length bs) 0 = Some bs"
    using unpack_cong [OF h(2,4)] by simp
  moreover have "unat (of_nat (length bs) :: u16) = length bs"
    using assms(4) by (simp add: unsigned_of_nat take_bit_nat_eq_self)
  moreover have "unat (of_nat bits :: byte) = bits"
    using assms(3) by (simp add: unsigned_of_nat take_bit_nat_eq_self)
  ultimately show ?thesis
    using h(2,3,5,6) assms(2) by (simp add: decompress_def Let_def)
qed


lemma one_width_bounds:
  assumes "2 \<le> bits" and "bits \<le> 8" and "length bs < 65536"
  shows "commpless_to_buf big bs bits stop \<noteq> Outside"
    and "commpless_to_buf big bs bits stop = Packed cb \<Longrightarrow> 3 \<le> length cb"
    and "commpless_to_buf big bs bits stop = Packed cb \<Longrightarrow> bs \<noteq> [] \<Longrightarrow>
      4 \<le> length cb \<and> length cb < stop"
proof -
  have hb: "has_bits [0, 0, 0] 0" by (simp add: has_bits_def)
  note pb = pack_bounds [OF assms(1,2) hb, of stop bs]
  have ln: "3 \<le> length buf'" if "pack_loop bits stop [0, 0, 0] 0 bs = Packed buf'" for buf'
    using pb that by auto
  then show "commpless_to_buf big bs bits stop \<noteq> Outside"
    using pb by (auto simp: commpless_to_buf_def write_int_hton_def write_int_def write_value_def
        mem_copy_def split: packing.splits option.splits dest: ln)
  fix cb assume "commpless_to_buf big bs bits stop = Packed cb"
  from commpless_header [OF this assms]
  obtain buf where "pack_loop bits stop [0, 0, 0] 0 bs = Packed buf" "length cb = length buf"
    "3 \<le> length buf" by blast
  then show "3 \<le> length cb" and "bs \<noteq> [] \<Longrightarrow> 4 \<le> length cb \<and> length cb < stop"
    using pb assms(1) by auto
qed

section \<open>The choice of the width\<close>

text \<open>Whatever is kept in the search was an attempt with one of the widths, and no attempt kept
  later is longer than an earlier one.\<close>
lemma try_widths_spec:
  assumes "length bs < 65536" and "set is \<subseteq> {2..8}"
    and "c \<Longrightarrow> 2 \<le> b \<and> b \<le> 8 \<and> commpless_to_buf big bs b stop = Packed buf"
  shows "\<exists>c' buf' b'. try_widths big bs stop is (c, buf, b) = Some (c', buf', b')
    \<and> (c' \<longrightarrow> 2 \<le> b' \<and> b' \<le> 8 \<and> commpless_to_buf big bs b' stop = Packed buf')
    \<and> (c \<longrightarrow> c' \<and> length buf' \<le> length buf) \<and> (\<not> c' \<longrightarrow> buf' = buf \<and> b' = b)"
  using assms(2,3)
proof (induction "is" arbitrary: c buf b)
  case (Cons i "is")
  have i: "2 \<le> i" "i \<le> 8" and "is": "set is \<subseteq> {2..8}" using Cons.prems(1) by auto
  show ?case
  proof (cases "commpless_to_buf big bs i stop")
    case (Packed tmp)
    consider "c" "length buf < length tmp" | "\<not> c \<or> length tmp < length buf"
      | "c" "length tmp = length buf" by linarith
    then show ?thesis
    proof cases
      case 1
      then show ?thesis using Packed Cons.prems(2)
        by (intro exI [of _ True] exI [of _ buf] exI [of _ b]) simp
    next
      case 2
      then have "try_widths big bs stop (i # is) (c, buf, b) = try_widths big bs stop is (True, tmp, i)"
        using Packed by auto
      then show ?thesis using Cons.IH [OF "is", of True i tmp] Packed i 2 by fastforce
    next
      case 3
      then have "try_widths big bs stop (i # is) (c, buf, b) = try_widths big bs stop is (c, buf, b)"
        using Packed by auto
      then show ?thesis using Cons.IH [OF "is", of c b buf] Cons.prems(2) by (simp only:)
    qed
  next
    case Too_long
    then show ?thesis using Cons.IH [OF "is" Cons.prems(2)] by simp
  next
    case Outside
    then show ?thesis using one_width_bounds(1) [OF i assms(1)] by blast
  qed
qed auto

lemma widths_in_range: "set [8, 7, 6, 5, 4, 3, 2] \<subseteq> {2..8 :: nat}"
  by simp

lemma compress_spec:
  assumes "length bs < 65535"
  shows "\<exists>c cb bits. compress_to_buf big bs buf = Some (c, cb, bits)
    \<and> (c \<longrightarrow> 2 \<le> bits \<and> bits \<le> 8
        \<and> commpless_to_buf big bs bits ((length bs + 7) div 8) = Packed cb)
    \<and> (\<not> c \<longrightarrow> cb = buf \<and> bits = 1)"
proof -
  have l: "length bs < 65536" using assms by simp
  have c: "compress_to_buf big bs buf =
      try_widths big bs ((length bs + 7) div 8) [8, 7, 6, 5, 4, 3, 2] (False, buf, 1)"
    using assms by (simp add: compress_to_buf_def)
  show ?thesis
    using try_widths_spec [OF l widths_in_range, of False 1 big "(length bs + 7) div 8" buf]
    by (simp only: c) blast
qed


section \<open>Bitsets of one run\<close>

lemma rest_of_one_run:
  assumes "replicate n v = replicate m v @ rest" and "m \<le> k" and "rest = [] \<or> hd rest \<noteq> v \<or> m = k"
  shows "rest = replicate (n - k) v"
proof -
  have "set rest \<subseteq> {v}" and "length rest = n - m"
    using arg_cong [OF assms(1), of set] arg_cong [OF assms(1), of length] by (auto split: if_splits)
  then have r: "rest = replicate (n - m) v"
    by (metis replicate_eqI singletonD subsetD)
  show ?thesis
  proof (cases "rest = []")
    case True
    then show ?thesis using r assms(2) by simp
  next
    case False
    then have "hd rest = v" using r by (cases "n - m") auto
    then show ?thesis using r assms(3) False by simp
  qed
qed

lemma two_eight: "2 \<le> (8 :: nat)" "8 \<le> (8 :: nat)"
  by simp_all

lemma pack_one_run:
  assumes "length buf = 3 + q" and "3 + q + (n + 127) div 128 < stop"
  shows "\<exists>buf'. pack_loop 8 stop buf (8 * q) (replicate n v) = Packed buf'
    \<and> length buf' = 3 + q + (n + 127) div 128"
  using assms
proof (induction n arbitrary: buf q rule: less_induct)
  case (less n)
  show ?case
  proof (cases n)
    case 0
    then show ?thesis using less.prems by simp
  next
    case (Suc m)
    have st: "Suc (3 + q) < stop" using less.prems(2) Suc by simp
    have g: "grow_to (8 * q + 8) stop buf = Some (buf @ [0])"
      using less.prems(1) st by (simp add: grow_to.simps [of _ _ buf] grow_to.simps [of _ _ "buf @ [0]"])
    have hb: "has_bits buf (8 * q)" using less.prems(1) by (simp add: has_bits_def)
    have l3: "3 \<le> length buf" using less.prems(1) by simp
    obtain n' rest buf2 where u: "v # replicate m v = replicate (Suc n') v @ rest" "n' < 2 ^ (8 - 1)"
      "rest = [] \<or> hd rest \<noteq> v \<or> n' = 2 ^ (8 - 1) - 1" "length buf2 = length (buf @ [0])"
      "pack_loop 8 stop buf (8 * q) (v # replicate m v) = pack_loop 8 stop buf2 (8 * q + 8) rest"
      using pack_loop_step [OF g two_eight hb l3, of v "replicate m v"] by blast
    have b2: "length buf2 = 3 + Suc q" using u(4) less.prems(1) by simp
    have "rest = replicate (m - 127) v"
      using u(1-3) by (intro rest_of_one_run [of m v n']) auto
    then have eq: "pack_loop 8 stop buf (8 * q) (replicate n v)
      = pack_loop 8 stop buf2 (8 * Suc q) (replicate (m - 127) v)"
      using u(5) by (simp add: Suc add.commute)
    have dv: "(n + 127) div 128 = Suc ((m - 127 + 127) div 128)" using Suc by (cases "m < 127") auto
    have lim: "3 + Suc q + (m - 127 + 127) div 128 < stop"
      using less.prems(2) unfolding dv by simp
    have "\<exists>buf'. pack_loop 8 stop buf2 (8 * Suc q) (replicate (m - 127) v) = Packed buf'
      \<and> length buf' = 3 + Suc q + (m - 127 + 127) div 128"
      using lim Suc b2 by (intro less.IH) simp_all
    then show ?thesis unfolding eq dv by (simp add: add.assoc)
  qed
qed

lemma commpless_one_run:
  assumes "n < 65536" and "3 + (n + 127) div 128 < stop"
  shows "\<exists>cb. commpless_to_buf big (replicate n v) 8 stop = Packed cb
    \<and> length cb = 3 + (n + 127) div 128"
proof -
  obtain buf where p: "pack_loop 8 stop [0, 0, 0] 0 (replicate n v) = Packed buf"
    "length buf = 3 + (n + 127) div 128"
    using pack_one_run [of "[0, 0, 0]" 0 n stop v] assms(2) by auto
  have "commpless_to_buf big (replicate n v) 8 stop \<noteq> Too_long"
    using p by (simp add: commpless_to_buf_def split: option.splits)
  moreover have "commpless_to_buf big (replicate n v) 8 stop \<noteq> Outside"
    by (rule one_width_bounds) (use assms in auto)
  ultimately obtain cb where cb: "commpless_to_buf big (replicate n v) 8 stop = Packed cb"
    by (cases "commpless_to_buf big (replicate n v) 8 stop") auto
  have "length (replicate n v) < 65536" using assms(1) by simp
  from commpless_header [OF cb two_eight this] show ?thesis using cb p by auto
qed

section \<open>Properties\<close>

text \<open>C37: What packing a bitset gives unpacks to the same bitset, on hosts of either byte order, for every
  set of less than 65535 bits (the packing asserts that; a longer set has no result), unless the bytes are fewer than a bound that the unpacking demands of
  them, the size divided by eight times the width of a unit; then the result is the empty set.\<close>
theorem bitset_unpacks:
  assumes "compress_to_buf big bitset buf = Some (True, packed, bits)"
  shows "decompress big' packed
    = Some (if length packed < (length bitset div bits + 7) div 8 + 3 then [] else bitset)"
proof -
  have l: "length bitset < 65535"
    using assms by (simp add: compress_to_buf_def split: if_splits)
  obtain c cb b where "compress_to_buf big bitset buf = Some (c, cb, b)"
    and "c \<longrightarrow> 2 \<le> b \<and> b \<le> 8 \<and> commpless_to_buf big bitset b ((length bitset + 7) div 8) = Packed cb"
    using compress_spec [OF l, of big buf] by blast
  then have w: "commpless_to_buf big bitset bits ((length bitset + 7) div 8) = Packed packed"
    "2 \<le> bits" "bits \<le> 8"
    using assms by simp_all
  show ?thesis using one_width_back [OF w] l by simp
qed

definition striped :: "bool list" where
  "striped = replicate 40 True @ replicate 30 False @ [True, True]"

theorem bitset_unpacks_witness:
  "\<exists>packed bits. compress_to_buf False striped [] = Some (True, packed, bits)
    \<and> decompress True packed = Some striped"
proof -
  have "try_widths False striped 9 [8, 7, 6, 5, 4, 3, 2] (False, [], 1)
    = Some (True, [0, 72, 8, 167, 29, 129], 8)"
    by code_simp
  moreover have l: "length striped = 72" by (simp add: striped_def)
  ultimately have c: "compress_to_buf False striped [] = Some (True, [0, 72, 8, 167, 29, 129], 8)"
    by (simp add: compress_to_buf_def)
  with bitset_unpacks [OF c, of True] l have "decompress True [0, 72, 8, 167, 29, 129] = Some striped"
    by simp
  with c show ?thesis by blast
qed

text \<open>Packing never leaves its buffer and gives something only where it is worth it: it ends with
  either a width of two to eight bits and a packed form of at least the three bytes of the header that
  is shorter than the plain bits, or with the buffer it was given and the width one.\<close>
lemma packed_bounds:
  assumes "length bitset < 65535"
  shows "\<exists>done packed bits. compress_to_buf big bitset buf = Some (done, packed, bits)
    \<and> (if done then 2 \<le> bits \<and> bits \<le> 8 \<and> 3 \<le> length packed
         \<and> (bitset \<noteq> [] \<longrightarrow> length packed < (length bitset + 7) div 8)
       else packed = buf \<and> bits = 1)"
proof -
  obtain c cb b where c: "compress_to_buf big bitset buf = Some (c, cb, b)"
    "c \<longrightarrow> 2 \<le> b \<and> b \<le> 8 \<and> commpless_to_buf big bitset b ((length bitset + 7) div 8) = Packed cb"
    "\<not> c \<longrightarrow> cb = buf \<and> b = 1" using compress_spec [OF assms] by blast
  then show ?thesis
    using one_width_bounds(2,3) [of b bitset big "(length bitset + 7) div 8" cb] assms by auto
qed

text \<open>A set that packs very well is lost. A set of 136 bits or more that are all equal is packed, but
  its packed form is shorter than what the unpacking demands, and unpacks to the empty set.\<close>
lemma one_run_lost:
  assumes "136 \<le> n" and "n < 65535"
  shows "\<exists>packed bits. compress_to_buf big (replicate n v) buf = Some (True, packed, bits)
    \<and> decompress big' packed = Some []"
proof -
  let ?stop = "(n + 7) div 8"
  have st: "3 + (n + 127) div 128 < ?stop" using assms(1) by linarith
  obtain cb where cb: "commpless_to_buf big (replicate n v) 8 ?stop = Packed cb"
    "length cb = 3 + (n + 127) div 128"
    using commpless_one_run [OF _ st] assms(2) by auto
  have ln: "length (replicate n v) < 65536" using assms(2) by simp
  have "set [7, 6, 5, 4, 3, 2] \<subseteq> {2..8 :: nat}" by simp
  from try_widths_spec [OF ln this, of True 8 big ?stop cb] cb(1)
  obtain packed bits where t: "try_widths big (replicate n v) ?stop [7, 6, 5, 4, 3, 2] (True, cb, 8)
      = Some (True, packed, bits)" "2 \<le> bits" "bits \<le> 8" "length packed \<le> length cb"
      "commpless_to_buf big (replicate n v) bits ?stop = Packed packed" by auto
  have c: "compress_to_buf big (replicate n v) buf = Some (True, packed, bits)"
    using cb(1) t(1) assms(2) by (simp add: compress_to_buf_def)
  have "n div 8 \<le> n div bits" using t(2,3) by (intro div_le_mono2) auto
  then have "(n div 8 + 7) div 8 \<le> (n div bits + 7) div 8" by (intro div_le_mono) simp
  moreover have "(n + 127) div 128 < (n div 8 + 7) div 8"
  proof -
    define e x y where "e = n div 8" and "x = (n + 127) div 128" and "y = (e + 7) div 8"
    have n: "n < 8 * e + 8" and x: "128 * x \<le> n + 127" and ey: "e + 7 < 8 * y + 8"
      using dividend_less_div_times [of 8 n] dividend_less_div_times [of 8 "e + 7"]
        div_times_less_eq_dividend [of "n + 127" 128]
      by (simp_all add: e_def x_def y_def)
    have "x < y"
    proof (rule ccontr)
      assume "\<not> x < y"
      then have "x \<le> 2" and "y \<le> x" using n x ey by linarith+
      then show False using n ey assms(1) by linarith
    qed
    then show ?thesis unfolding e_def x_def y_def .
  qed
  moreover have "length packed \<le> 3 + (n + 127) div 128" using t(4) cb(2) by simp
  ultimately have "length packed < (n div bits + 7) div 8 + 3" by linarith
  then have "length packed < (length (replicate n v) div bits + 7) div 8 + 3" by simp
  with one_width_back [OF t(5,2,3) ln, of big'] c show ?thesis by auto
qed

end
