(* ===== verification/Mime_Lookup.thy ===== *)
theory Mime_Lookup
  imports Mime_Types
begin

text \<open>The tables are sorted as the binary search needs them, so the lookups are those of the maps the
  tables stand for.\<close>

section \<open>Binary search\<close>

lemma lower_bound_dropWhile:
  assumes "\<And>i j. i < j \<Longrightarrow> j < length xs \<Longrightarrow> below (xs ! j) \<Longrightarrow> below (xs ! i)"
    and "len \<le> length xs" and "\<And>i. len \<le> i \<Longrightarrow> i < length xs \<Longrightarrow> \<not> below (xs ! i)"
  shows "lower_bound below xs len = dropWhile below xs"
  using assms
proof (induction below xs len rule: lower_bound.induct)
  case (1 below xs len)
  show ?case
  proof (cases "len = 0")
    case True
    then have "\<not> below (xs ! 0)" if "xs \<noteq> []" using 1(5) that by simp
    then have "dropWhile below xs = xs" by (cases xs) auto
    then show ?thesis using True by (simp add: lower_bound.simps)
  next
    case False
    define half where "half = len div 2"
    have half: "half < len" using False by (simp add: half_def)
    show ?thesis
    proof (cases "below (xs ! half)")
      case True
      have below: "below (xs ! i)" if "i \<le> half" for i
        using 1(3) [of i half] True that half 1(4) by (cases "i = half") auto
      have "lower_bound below (drop (Suc half) xs) (len - half - 1) = dropWhile below (drop (Suc half) xs)"
      proof (rule 1(1) [OF False half_def True])
        fix i j assume "i < j" "j < length (drop (Suc half) xs)" "below (drop (Suc half) xs ! j)"
        then show "below (drop (Suc half) xs ! i)" using 1(3) [of "Suc half + i" "Suc half + j"] by simp
      next
        fix i assume "len - half - 1 \<le> i" "i < length (drop (Suc half) xs)"
        then show "\<not> below (drop (Suc half) xs ! i)" using 1(5) [of "Suc half + i"] half by simp
      qed (use 1(4) half in simp)
      moreover have "\<forall>x \<in> set (take (Suc half) xs). below x"
        using below by (auto simp: in_set_conv_nth)
      then have "dropWhile below xs = dropWhile below (drop (Suc half) xs)"
        by (metis append_take_drop_id dropWhile_append2)
      ultimately show ?thesis
        using False True by (simp add: lower_bound.simps [of below xs len] Let_def half_def)
    next
      case f: False
      have "lower_bound below xs half = dropWhile below xs"
      proof (rule 1(2) [OF False half_def f])
        fix i assume "half \<le> i" "i < length xs"
        then show "\<not> below (xs ! i)" using 1(3) [of half i] f by (cases "i = half") auto
      qed (use 1(3,4) half in auto)
      then show ?thesis using False f by (simp add: lower_bound.simps [of below xs len] Let_def half_def)
    qed
  qed
qed

lemma find_dropWhile:
  "fields_find k t = (case dropWhile (\<lambda>e. stricmp_less (fst e) k) t of
     [] \<Rightarrow> None | tp # _ \<Rightarrow> if folded (fst tp) = folded k then Some (snd tp) else None)"
proof (induction t)
  case (Cons e t)
  show ?case by (rule name_cases [of "fst e" k]) (use Cons in simp_all)
qed simp

lemma table_find_eq:
  assumes "fields_ok t"
  shows "table_find t k = fields_view t (folded k)"
proof -
  let ?below = "\<lambda>e. stricmp_less (fst e) k"
  have "lower_bound ?below t (length t) = dropWhile ?below t"
  proof (rule lower_bound_dropWhile)
    fix i j assume "i < j" "j < length t" "?below (t ! j)"
    moreover have "stricmp_less (fst (t ! i)) (fst (t ! j))"
      using assms calculation(1,2) by (simp add: fields_ok_def sorted_wrt_iff_nth_less)
    ultimately show "?below (t ! i)" using stricmp_trans by blast
  qed simp_all
  then have "table_find t k = fields_find k t"
    by (simp add: table_find_def find_dropWhile)
  then show ?thesis using assms by (simp add: find_view)
qed

section \<open>The tables are sorted\<close>

text \<open>The names in the tables are in lower case already, so the check compares them bit by bit.\<close>

fun bits_below :: "bool list \<Rightarrow> bool list \<Rightarrow> bool" where
  "bits_below (a # as) (b # bs) = (if a then b \<and> bits_below as bs else b \<or> bits_below as bs)"
| "bits_below _ _ = False"

definition char_below :: "char \<Rightarrow> char \<Rightarrow> bool" where
  "char_below c d = bits_below
     [digit7 c, digit6 c, digit5 c, digit4 c, digit3 c, digit2 c, digit1 c, digit0 c]
     [digit7 d, digit6 d, digit5 d, digit4 d, digit3 d, digit2 d, digit1 d, digit0 d]"

fun plain_less :: "string \<Rightarrow> string \<Rightarrow> bool" where
  "plain_less s [] = False"
| "plain_less [] (d # t) = True"
| "plain_less (c # s) (d # t) = (if c = d then plain_less s t else char_below c d)"

definition plain_name :: "string \<Rightarrow> bool" where
  "plain_name s = list_all (\<lambda>c. digit5 c \<or> c = CHR ''_'') s"

fun sorted_names :: "(string \<times> string) list \<Rightarrow> bool" where
  "sorted_names (f # g # fs) = (plain_less (fst f) (fst g) \<and> sorted_names (g # fs))"
| "sorted_names _ = True"

fun bits_value :: "bool list \<Rightarrow> nat" where
  "bits_value [] = 0"
| "bits_value (b # bs) = of_bool b * 2 ^ length bs + bits_value bs"

lemma bits_value_less: "bits_value bs < 2 ^ length bs"
  by (induction bs) auto

lemma bits_below_value:
  "bits_below as bs \<Longrightarrow> length as = length bs \<Longrightarrow> bits_value as < bits_value bs"
proof (induction as bs rule: bits_below.induct)
  case (1 a as b bs)
  then show ?case using bits_value_less [of as] by (auto split: if_splits)
qed auto

lemma letter_bits:
  "code c = bits_value [digit7 c, digit6 c, digit5 c, digit4 c, digit3 c, digit2 c, digit1 c, digit0 c]"
  by (cases c) (simp add: code_def of_char_def)

lemma char_below_code: "char_below c d \<Longrightarrow> code c < code d"
  unfolding char_below_def letter_bits by (rule bits_below_value) simp_all

lemma plain_string_less: "plain_less s t \<Longrightarrow> string_less s t"
  by (induction s t rule: plain_less.induct) (auto simp: char_below_code split: if_splits)

lemma plain_char: "digit5 c \<or> c = CHR ''_'' \<Longrightarrow> to_lower c = c \<and> c \<noteq> CHR 0x00"
proof (elim disjE)
  assume d: "digit5 c"
  then have "\<not> is_upper c"
    by (cases "digit7 c"; cases "digit6 c") (auto simp: is_upper_def letter_bits of_bool_def split: if_splits)
  then show ?thesis using d by (auto simp: to_lower_id)
qed (simp add: to_lower_def is_upper_def code_def)

lemma plain_folded: "plain_name s \<Longrightarrow> folded s = s"
proof -
  assume "plain_name s"
  then have p: "\<forall>c \<in> set s. to_lower c = c \<and> c \<noteq> CHR 0x00"
    using plain_char by (auto simp: plain_name_def list_all_iff)
  then have "c_str s = s" by (simp add: c_str_def)
  then show "folded s = s" using p by (simp add: folded_def map_idI)
qed

definition plain_table :: "(string \<times> string) list \<Rightarrow> bool" where
  "plain_table t = (list_all (\<lambda>f. plain_name (fst f)) t \<and> sorted_names t)"

lemma sorted_names_append:
  "sorted_names (fs @ gs) = (sorted_names fs \<and> sorted_names gs
     \<and> (fs \<noteq> [] \<and> gs \<noteq> [] \<longrightarrow> plain_less (fst (last fs)) (fst (hd gs))))"
proof (induction fs)
  case (Cons f fs)
  then show ?case by (cases fs; cases gs) auto
qed simp

lemma plain_table_append:
  "plain_table fs \<Longrightarrow> plain_table gs \<Longrightarrow> plain_less (fst (last fs)) (fst (hd gs)) \<Longrightarrow> plain_table (fs @ gs)"
  by (simp add: plain_table_def sorted_names_append)

lemma plain_table_ok: "plain_table t \<Longrightarrow> fields_ok t"
proof -
  assume p: "plain_table t"
  then have "sorted_names t" by (simp add: plain_table_def)
  then have "successively (\<lambda>f g. string_less (fst f) (fst g)) t"
    by (induction t rule: sorted_names.induct) (auto simp: plain_string_less)
  moreover have trans: "transp (\<lambda>f g :: string \<times> string. string_less (fst f) (fst g))"
    by (rule transpI) (rule string_less_trans)
  ultimately have "sorted_wrt (\<lambda>f g. string_less (fst f) (fst g)) t"
    using successively_conv_sorted_wrt [OF trans] by blast
  then show "fields_ok t"
    unfolding fields_ok_def
  proof (rule sorted_wrt_mono_rel [rotated])
    fix f g assume "f \<in> set t" "g \<in> set t" "string_less (fst f) (fst g)"
    then show "stricmp_less (fst f) (fst g)"
      using p by (simp add: plain_table_def list_all_iff stricmp_less_def plain_folded)
  qed
qed

lemma plain_types:
  "plain_table mime_type_table_1" "plain_table mime_type_table_2"
  "plain_table mime_type_table_3" "plain_table mime_type_table_4"
  by code_simp+

lemma plain_exts: "plain_table mime_ext_table_1" "plain_table mime_ext_table_2" "plain_table mime_ext_table_3"
  by code_simp+


text \<open>Looking up an extension or a MIME type by halving the table is looking it up in the map the
  table stands for, without regard to case: the tables are sorted as the search needs them, so every
  entry is found, and nothing else is.\<close>
lemma mime_lookup_is_map:
  "ext_to_mime e = fields_view mime_type_table (folded e)
    \<and> mime_to_ext m = fields_view mime_ext_table (folded m)"
proof -
  have "plain_table mime_type_table" unfolding mime_type_table_def
    by (intro plain_table_append plain_types) code_simp+
  moreover have "plain_table mime_ext_table" unfolding mime_ext_table_def
    by (intro plain_table_append plain_exts) code_simp+
  ultimately show ?thesis by (simp add: ext_to_mime_def mime_to_ext_def table_find_eq plain_table_ok)
qed

end
