(* ===== verification/Timer.thy ===== *)
theory Timer
  imports Op_Mark
begin

text \<open>\<open>p2engine/timer.hpp\<close>: a timer that fires once or periodically, over a deadline timer of
  \<open>asio\<close>. Of the deadline timer the model has what its documentation says: the waits on it, which end
  with success when the deadline passes and are aborted when a new deadline is set or the timer is
  cancelled; a wait that has ended is in \<open>tm_ready\<close> until its handler runs, and cannot be called back
  any more. \<open>user\<close> is what the slots of the signal do to the timer.\<close>

section \<open>State\<close>

record tm_wait =
  tw_keep :: bool
  tw_stamp :: op_stamp_t

text \<open>\<open>status_\<close> is kept as its two bits.\<close>
record timer =
  tm_mark :: operation_mark
  tm_expires :: tick
  tm_waits :: "tm_wait list"
  tm_ready :: "(bool \<times> tm_wait) list"
  tm_period :: tick
  tm_repeat :: u64
  tm_repeated :: u64
  tm_waiting :: bool
  tm_keeping :: bool
  tm_wait_cnt :: int
  tm_clock :: tick
  tm_fired :: "tick list"

definition size_max :: u64 where "size_max = - 1"

definition timer_new :: "tick \<Rightarrow> timer" where
  "timer_new now = \<lparr>tm_mark = next_op_stamp operation_mark_new, tm_expires = now, tm_waits = [],
     tm_ready = [], tm_period = 0, tm_repeat = 0, tm_repeated = 0, tm_waiting = False,
     tm_keeping = False, tm_wait_cnt = 0, tm_clock = now, tm_fired = []\<rparr>"

definition tm_is_idle :: "timer \<Rightarrow> bool" where
  "tm_is_idle t = (\<not> tm_waiting t \<and> \<not> tm_keeping t)"

definition tm_times_left :: "timer \<Rightarrow> u64" where
  "tm_times_left t = (if tm_repeat t = size_max then size_max else tm_repeat t - tm_repeated t)"

section \<open>The deadline timer\<close>

text \<open>Setting a deadline and cancelling abort the waits; the flag of a wait that is ready tells
  whether it ended with success.\<close>
definition tm_abort :: "timer \<Rightarrow> timer" where
  "tm_abort t = t\<lparr>tm_ready := tm_ready t @ map (Pair False) (tm_waits t), tm_waits := []\<rparr>"

definition tm_expires_at :: "tick \<Rightarrow> timer \<Rightarrow> timer" where
  "tm_expires_at d t = (tm_abort t)\<lparr>tm_expires := d\<rparr>"

definition tm_add_wait :: "bool \<Rightarrow> timer \<Rightarrow> timer" where
  "tm_add_wait keep t =
     t\<lparr>tm_waits := tm_waits t @ [\<lparr>tw_keep = keep, tw_stamp = om_stamp (tm_mark t)\<rparr>]\<rparr>"

text \<open>Time goes on to \<open>now\<close>; when the deadline has passed the waits end.\<close>
definition tm_pass :: "tick \<Rightarrow> timer \<Rightarrow> timer" where
  "tm_pass now t =
     (let t1 = t\<lparr>tm_clock := now\<rparr> in
      if tm_expires t1 \<le> now
      then t1\<lparr>tm_ready := tm_ready t1 @ map (Pair True) (tm_waits t1), tm_waits := []\<rparr>
      else t1)"

section \<open>Operations\<close>

definition tm_cancel :: "timer \<Rightarrow> timer" where
  "tm_cancel t =
     (let t1 = tm_abort t in
      t1\<lparr>tm_repeat := 0, tm_waiting := False, tm_keeping := False,
         tm_mark := next_op_stamp (set_cancel (tm_mark t1))\<rparr>)"

definition tm_wait_at :: "tick \<Rightarrow> timer \<Rightarrow> timer" where
  "tm_wait_at d t =
     tm_add_wait False
       ((tm_expires_at d t)\<lparr>tm_waiting := True, tm_wait_cnt := tm_wait_cnt t + 1\<rparr>)"

definition tm_async_wait :: "tick \<Rightarrow> timer \<Rightarrow> timer" where
  "tm_async_wait d t = tm_wait_at (tm_clock t + d) t"

definition tm_keep_waiting :: "tick \<Rightarrow> tick \<Rightarrow> u64 \<Rightarrow> timer \<Rightarrow> timer" where
  "tm_keep_waiting d period n t =
     tm_add_wait True
       ((tm_expires_at (tm_clock t + d) t)\<lparr>tm_period := period, tm_repeat := n, tm_repeated := 0,
          tm_keeping := True\<rparr>)"

definition tm_wait_next :: "timer \<Rightarrow> timer" where
  "tm_wait_next t =
     (if (tm_waiting t \<or> tm_keeping t) \<and> (tm_repeated t = size_max \<or> tm_repeated t < tm_repeat t)
      then tm_add_wait True (tm_expires_at (tm_clock t + tm_period t) t)
      else t\<lparr>tm_keeping := False\<rparr>)"

definition tm_fire :: "(timer \<Rightarrow> timer) \<Rightarrow> timer \<Rightarrow> timer" where
  "tm_fire user t = user (t\<lparr>tm_fired := tm_fired t @ [tm_clock t]\<rparr>)"

definition tm_handle_timeout :: "(timer \<Rightarrow> timer) \<Rightarrow> bool \<Rightarrow> tm_wait \<Rightarrow> timer \<Rightarrow> timer" where
  "tm_handle_timeout user ok w t =
     (let t1 = (if tw_keep w then t
                else let t0 = t\<lparr>tm_wait_cnt := tm_wait_cnt t - 1\<rparr> in
                     if tm_wait_cnt t0 = 0 then t0\<lparr>tm_waiting := False\<rparr> else t0)
      in if ok \<and> \<not> is_canceled_op (tw_stamp w) (tm_mark t1)
         then tm_fire user
                (if tw_keep w then tm_wait_next (t1\<lparr>tm_repeated := tm_repeated t1 + 1\<rparr>) else t1)
         else t1)"

text \<open>The handler of the first wait that is ready runs.\<close>
definition tm_run :: "(timer \<Rightarrow> timer) \<Rightarrow> timer \<Rightarrow> timer" where
  "tm_run user t =
     (case tm_ready t of
        [] \<Rightarrow> t
      | (ok, w) # rest \<Rightarrow> tm_handle_timeout user ok w (t\<lparr>tm_ready := rest\<rparr>))"

section \<open>Periodic firing\<close>

text \<open>Time passes to the deadline, and the handler runs on time.\<close>
definition tm_round :: "timer \<Rightarrow> timer" where
  "tm_round t = tm_run id (tm_pass (tm_expires t) t)"

lemma keep_round:
  assumes "tm_waits t = [\<lparr>tw_keep = True, tw_stamp = om_stamp (tm_mark t)\<rparr>]" and "tm_ready t = []"
    and "\<not> is_canceled_op (om_stamp (tm_mark t)) (tm_mark t)" and "tm_keeping t"
  shows "tm_round t = (let t1 = t\<lparr>tm_clock := tm_expires t, tm_repeated := tm_repeated t + 1,
      tm_fired := tm_fired t @ [tm_expires t]\<rparr> in
    if tm_repeated t + 1 = size_max \<or> tm_repeated t + 1 < tm_repeat t
    then t1\<lparr>tm_expires := tm_expires t + tm_period t\<rparr> else t1\<lparr>tm_waits := [], tm_keeping := False\<rparr>)"
  using assms
  by (cases t) (simp add: tm_round_def tm_pass_def tm_run_def tm_handle_timeout_def tm_wait_next_def
      tm_fire_def tm_add_wait_def tm_expires_at_def tm_abort_def Let_def)


text \<open>A periodic timer in the middle of its run: \<open>j\<close> firings are done.\<close>
definition tm_in_run :: "nat \<Rightarrow> timer \<Rightarrow> bool" where
  "tm_in_run j t \<longleftrightarrow> tm_waits t = [\<lparr>tw_keep = True, tw_stamp = om_stamp (tm_mark t)\<rparr>] \<and> tm_ready t = []
     \<and> \<not> is_canceled_op (om_stamp (tm_mark t)) (tm_mark t) \<and> tm_keeping t \<and> tm_repeated t = of_nat j"

lemma next_count:
  assumes "Suc j < 2 ^ 64 - 1"
  shows "(of_nat j + 1 = size_max \<longleftrightarrow> False) \<and> ((of_nat j + 1 :: u64) < n \<longleftrightarrow> Suc j < unat n)"
proof -
  have s: "unat (of_nat (Suc j) :: u64) = Suc j"
    using assms by (simp add: unsigned_of_nat take_bit_nat_eq_self del: of_nat_Suc)
  have "unat size_max = 2 ^ 64 - 1" by (simp add: size_max_def unsigned_minus_1_eq_mask mask_eq_exp_minus_1)
  then have "(of_nat (Suc j) :: u64) \<noteq> size_max" using s assms by (metis less_irrefl)
  moreover have "((of_nat (Suc j) :: u64) < n) = (Suc j < unat n)" by (simp only: word_less_nat_alt s)
  ultimately show ?thesis by (simp add: add.commute)
qed

lemma rounds_to_end:
  assumes "tm_in_run j t" and "unat (tm_repeat t) < 2 ^ 64 - 1" and "j + Suc m = max 1 (unat (tm_repeat t))"
  shows "tm_fired ((tm_round ^^ Suc m) t)
      = tm_fired t @ map (\<lambda>i. tm_expires t + int i * tm_period t) [0..<Suc m]
    \<and> tm_waits ((tm_round ^^ Suc m) t) = [] \<and> tm_ready ((tm_round ^^ Suc m) t) = []
    \<and> \<not> tm_keeping ((tm_round ^^ Suc m) t)"
  using assms
proof (induction m arbitrary: j t)
  case 0
  then have le: "Suc j < 2 ^ 64 - 1 \<and> \<not> Suc j < unat (tm_repeat t)" by (auto simp: max_def split: if_splits)
  have r: "tm_round t = (t\<lparr>tm_clock := tm_expires t, tm_repeated := tm_repeated t + 1,
      tm_fired := tm_fired t @ [tm_expires t]\<rparr>)\<lparr>tm_waits := [], tm_keeping := False\<rparr>"
    using keep_round [of t] 0(1) next_count [of j "tm_repeat t"] le by (simp add: tm_in_run_def Let_def)
  show ?case using 0(1) unfolding funpow.simps o_apply id_apply r by (simp add: tm_in_run_def)
next
  case (Suc m)
  define t1 where "t1 = (t\<lparr>tm_clock := tm_expires t, tm_repeated := tm_repeated t + 1,
      tm_fired := tm_fired t @ [tm_expires t]\<rparr>)\<lparr>tm_expires := tm_expires t + tm_period t\<rparr>"
  have le: "Suc j < 2 ^ 64 - 1 \<and> Suc j < unat (tm_repeat t)"
    using Suc.prems(2,3) by (auto simp: max_def split: if_splits)
  have r: "tm_round t = t1"
    using keep_round [of t] Suc.prems(1) next_count [of j "tm_repeat t"] le
    by (simp add: tm_in_run_def t1_def Let_def)
  have run: "tm_in_run (Suc j) t1"
    using Suc.prems(1) by (simp add: tm_in_run_def t1_def add.commute)
  have "tm_repeat t1 = tm_repeat t" by (simp add: t1_def)
  then have ih: "tm_fired ((tm_round ^^ Suc m) t1)
      = tm_fired t1 @ map (\<lambda>i. tm_expires t1 + int i * tm_period t1) [0..<Suc m]
    \<and> tm_waits ((tm_round ^^ Suc m) t1) = [] \<and> tm_ready ((tm_round ^^ Suc m) t1) = []
    \<and> \<not> tm_keeping ((tm_round ^^ Suc m) t1)"
    using Suc.prems(2,3) by (intro Suc.IH [OF run]) simp_all
  have "map (\<lambda>i. tm_expires t + int i * tm_period t) [0..<Suc (Suc m)]
    = tm_expires t # map (\<lambda>i. tm_expires t1 + int i * tm_period t1) [0..<Suc m]"
    by (simp add: map_upt_Suc t1_def algebra_simps del: upt_Suc)
  moreover have "(tm_round ^^ Suc (Suc m)) t = (tm_round ^^ Suc m) t1"
    by (simp only: funpow_Suc_right [of "Suc m"] o_apply r)
  ultimately show ?case using ih by (simp add: t1_def del: upt_Suc funpow.simps)
qed

text \<open>A periodic timer fires as often as it was asked to, at the right times, and then rests: started
  with a first delay, a period and a count, it fires first after the delay and then every period
  until it has fired that often (once if the count is zero), when its handlers run on time and nobody
  disturbs it; after that no wait is left and the timer is not waiting periodically any more.\<close>
lemma periodic_timer_fires:
  assumes "tm_waits t = []" and "tm_ready t = []" and "\<not> is_canceled_op (om_stamp (tm_mark t)) (tm_mark t)"
    and "unat n < 2 ^ 64 - 1" and "k = max 1 (unat n)"
  shows "tm_fired ((tm_round ^^ k) (tm_keep_waiting d p n t))
      = tm_fired t @ map (\<lambda>i. tm_clock t + d + int i * p) [0..<k]
    \<and> tm_waits ((tm_round ^^ k) (tm_keep_waiting d p n t)) = []
    \<and> tm_ready ((tm_round ^^ k) (tm_keep_waiting d p n t)) = []
    \<and> \<not> tm_keeping ((tm_round ^^ k) (tm_keep_waiting d p n t))"
proof -
  let ?t = "tm_keep_waiting d p n t"
  have run: "tm_in_run 0 ?t"
    using assms(1-3) by (simp add: tm_in_run_def tm_keep_waiting_def tm_add_wait_def tm_expires_at_def tm_abort_def)
  have f: "tm_repeat ?t = n" "tm_fired ?t = tm_fired t" "tm_expires ?t = tm_clock t + d" "tm_period ?t = p"
    by (simp_all add: tm_keep_waiting_def tm_add_wait_def tm_expires_at_def tm_abort_def)
  have "k \<noteq> 0" using assms(5) by simp
  then obtain m where m: "k = Suc m" using not0_implies_Suc by blast
  show ?thesis
    using rounds_to_end [OF run, of m] assms(4,5) f unfolding m by (simp del: upt_Suc funpow.simps)
qed

section \<open>Cancelling\<close>

text \<open>The stamps of the waits are not ahead of the timer's; they are compared on the circle.\<close>
definition tm_stamps_ok :: "timer \<Rightarrow> bool" where
  "tm_stamps_ok t \<longleftrightarrow>
     (\<forall>w \<in> set (tm_waits t) \<union> snd ` set (tm_ready t). wrappable_less_equal (tw_stamp w) (om_stamp (tm_mark t)))"

text \<open>A step of a timer that nobody calls: a handler runs, or time passes.\<close>
definition tm_step :: "(timer \<Rightarrow> timer) \<Rightarrow> tick option \<Rightarrow> timer \<Rightarrow> timer" where
  "tm_step user s t = (case s of None \<Rightarrow> tm_run user t | Some now \<Rightarrow> tm_pass now t)"

lemma silent_steps:
  assumes "tm_waits t = []" and "\<forall>e \<in> set (tm_ready t). is_canceled_op (tw_stamp (snd e)) (tm_mark t)"
  shows "tm_fired (fold (tm_step user) ss t) = tm_fired t"
  using assms
proof (induction ss arbitrary: t)
  case (Cons s ss)
  show ?case
  proof (cases s)
    case (Some now)
    then show ?thesis using Cons by (simp add: tm_step_def tm_pass_def Let_def)
  next
    case None
    show ?thesis
    proof (cases "tm_ready t")
      case Nil
      then show ?thesis using None Cons by (simp add: tm_step_def tm_run_def)
    next
      case (Cons e rest)
      obtain ok w where e: "e = (ok, w)" by (cases e)
      have "is_canceled_op (tw_stamp w) (tm_mark t)" using Cons.prems(2) Cons e by simp
      then show ?thesis
        using None Cons e Cons.prems Cons.IH by (simp add: tm_step_def tm_run_def tm_handle_timeout_def Let_def)
    qed
  qed
qed simp

text \<open>A cancelled timer is silent: after it has been cancelled, and until it is started again, it does
  not fire, whatever time passes and whatever handlers run, also those of waits that had already
  ended with success when it was cancelled and that the deadline timer can no longer call back.\<close>
lemma cancelled_timer_silent:
  assumes "tm_stamps_ok t"
  shows "tm_fired (fold (tm_step user) steps (tm_cancel t)) = tm_fired t"
proof -
  have "tm_fired (fold (tm_step user) steps (tm_cancel t)) = tm_fired (tm_cancel t)"
    using assms
    by (intro silent_steps)
      (auto simp: tm_cancel_def tm_abort_def tm_stamps_ok_def is_canceled_op_def next_op_stamp_def set_cancel_def Let_def)
  then show ?thesis by (simp add: tm_cancel_def tm_abort_def Let_def)
qed

section \<open>Counting waits\<close>

text \<open>What the slots and the owner call, and the states of a timer.\<close>

inductive tm_call :: "timer \<Rightarrow> timer \<Rightarrow> bool" where
  tm_call_cancel: "tm_call t (tm_cancel t)"
| tm_call_at: "tm_call t (tm_wait_at d t)"
| tm_call_wait: "tm_call t (tm_async_wait d t)"
| tm_call_keep: "tm_call t (tm_keep_waiting d p n t)"

inductive tm_reach :: "(timer \<Rightarrow> timer) \<Rightarrow> timer \<Rightarrow> bool" for user where
  tm_reach_new: "tm_reach user (timer_new now)"
| tm_reach_call: "tm_reach user t \<Longrightarrow> tm_call t u \<Longrightarrow> tm_reach user u"
| tm_reach_pass: "tm_reach user t \<Longrightarrow> tm_reach user (tm_pass now t)"
| tm_reach_run: "tm_reach user t \<Longrightarrow> tm_reach user (tm_run user t)"

text \<open>The one-shot waits whose handlers have not run.\<close>
definition tm_single :: "timer \<Rightarrow> nat" where
  "tm_single t = length (filter (\<lambda>w. \<not> tw_keep w) (map snd (tm_ready t) @ tm_waits t))"

definition tm_count_ok :: "timer \<Rightarrow> bool" where
  "tm_count_ok t \<longleftrightarrow> tm_wait_cnt t = int (tm_single t) \<and> (tm_waiting t \<longrightarrow> 0 < tm_single t)"

lemma single_abort [simp]: "tm_single (tm_abort t) = tm_single t"
  by (simp add: tm_single_def tm_abort_def filter_map comp_def)

lemma single_add: "tm_single (tm_add_wait keep t) = tm_single t + (if keep then 0 else 1)"
  by (simp add: tm_single_def tm_add_wait_def)

lemma count_call: "tm_call t u \<Longrightarrow> tm_count_ok t \<Longrightarrow> tm_count_ok u"
proof (induction rule: tm_call.induct)
  case (tm_call_cancel t)
  have "tm_single (tm_cancel t) = tm_single (tm_abort t)"
    by (simp add: tm_cancel_def tm_single_def Let_def)
  then show ?case using tm_call_cancel by (simp add: tm_count_ok_def) (simp add: tm_cancel_def tm_abort_def Let_def)
next
  case (tm_call_at t d)
  have "tm_single (tm_wait_at d t) = tm_single (tm_abort t) + 1"
    unfolding tm_wait_at_def single_add by (simp add: tm_single_def tm_expires_at_def)
  then show ?case using tm_call_at
    by (simp add: tm_count_ok_def) (simp add: tm_wait_at_def tm_add_wait_def tm_expires_at_def tm_abort_def)
next
  case (tm_call_wait t d)
  have "tm_single (tm_async_wait d t) = tm_single (tm_abort t) + 1"
    unfolding tm_async_wait_def tm_wait_at_def single_add by (simp add: tm_single_def tm_expires_at_def)
  then show ?case using tm_call_wait
    by (simp add: tm_count_ok_def)
      (simp add: tm_async_wait_def tm_wait_at_def tm_add_wait_def tm_expires_at_def tm_abort_def)
next
  case (tm_call_keep t d p n)
  have "tm_single (tm_keep_waiting d p n t) = tm_single (tm_abort t)"
    unfolding tm_keep_waiting_def single_add by (simp add: tm_single_def tm_expires_at_def)
  then show ?case using tm_call_keep
    by (simp add: tm_count_ok_def) (simp add: tm_keep_waiting_def tm_add_wait_def tm_expires_at_def tm_abort_def)
qed

lemma count_calls: "tm_call\<^sup>*\<^sup>* t u \<Longrightarrow> tm_count_ok t \<Longrightarrow> tm_count_ok u"
  by (induction rule: rtranclp_induct) (auto intro: count_call)

lemma count_next: "tm_count_ok t \<Longrightarrow> tm_count_ok (tm_wait_next t)"
proof -
  assume ok: "tm_count_ok t"
  have "tm_single (tm_add_wait True (tm_expires_at d t)) = tm_single (tm_abort t)" for d
    unfolding single_add by (simp add: tm_single_def tm_expires_at_def)
  then have "tm_single (tm_add_wait True (tm_expires_at d t)) = tm_single t" for d by simp
  then have "tm_count_ok (tm_add_wait True (tm_expires_at d t))" for d
    using ok by (simp add: tm_count_ok_def) (simp add: tm_add_wait_def tm_expires_at_def tm_abort_def)
  moreover have "tm_count_ok (t\<lparr>tm_keeping := False\<rparr>)" using ok by (simp add: tm_count_ok_def tm_single_def)
  ultimately show ?thesis by (simp add: tm_wait_next_def)
qed

lemma count_run:
  assumes "\<And>t. tm_call\<^sup>*\<^sup>* t (user t)" and "tm_count_ok t"
  shows "tm_count_ok (tm_run user t)"
proof (cases "tm_ready t")
  case Nil
  then show ?thesis using assms(2) by (simp add: tm_run_def)
next
  case (Cons e rest)
  obtain ok w where e: "e = (ok, w)" by (cases e)
  define t1 where "t1 = (let t2 = t\<lparr>tm_ready := rest\<rparr> in if tw_keep w then t2
    else let t0 = t2\<lparr>tm_wait_cnt := tm_wait_cnt t2 - 1\<rparr> in
         if tm_wait_cnt t0 = 0 then t0\<lparr>tm_waiting := False\<rparr> else t0)"
  have t1: "tm_count_ok t1"
    using assms(2) Cons e by (auto simp: t1_def tm_count_ok_def tm_single_def Let_def filter_map comp_def split: if_splits)
  have rep: "tm_count_ok (u\<lparr>tm_repeated := x\<rparr>)" if "tm_count_ok u" for u x
    using that by (simp add: tm_count_ok_def tm_single_def)
  have fire: "tm_count_ok (tm_fire user u)" if "tm_count_ok u" for u
    using count_calls [OF assms(1)] that by (simp add: tm_fire_def tm_count_ok_def tm_single_def)
  have "tm_run user t = (if ok \<and> \<not> is_canceled_op (tw_stamp w) (tm_mark t1)
      then tm_fire user (if tw_keep w then tm_wait_next (t1\<lparr>tm_repeated := tm_repeated t1 + 1\<rparr>) else t1) else t1)"
    using Cons e by (simp add: tm_run_def tm_handle_timeout_def t1_def Let_def)
  then show ?thesis using t1 fire count_next [OF rep [OF t1]] by simp
qed

text \<open>A timer that says it is waiting has something to wait for: in every reachable state, whatever the
  owner and the slots call and in whatever order time passes and handlers run, the counter is the
  number of one-shot waits whose handlers have not run yet, it is not negative, and the flag of
  waiting is set only while there is one.\<close>
lemma timer_counts_waits:
  assumes "\<And>t. tm_call\<^sup>*\<^sup>* t (user t)" and "tm_reach user t"
  shows "tm_wait_cnt t = int (tm_single t) \<and> (tm_waiting t \<longrightarrow> 0 < tm_single t)"
proof -
  have "tm_count_ok t"
    using assms(2)
  proof (induction rule: tm_reach.induct)
    case (tm_reach_new now)
    then show ?case by (simp add: tm_count_ok_def tm_single_def timer_new_def)
  next
    case (tm_reach_call t u)
    then show ?case using count_call by blast
  next
    case (tm_reach_pass t now)
    then show ?case by (auto simp: tm_count_ok_def tm_single_def tm_pass_def Let_def filter_map comp_def)
  next
    case (tm_reach_run t)
    then show ?case using count_run [OF assms(1)] by blast
  qed
  then show ?thesis by (simp add: tm_count_ok_def)
qed

text \<open>The flag of a periodic wait is not as exact: a one-shot wait aborts the periodic one, whose
  handler does not look at its flag. When both handlers have run nothing is waited for, and the
  timer is not idle.\<close>
lemma keep_flag_stays:
  "let t = tm_run id (tm_run id (tm_pass 120 (tm_async_wait 5 (tm_keep_waiting 10 10 3 (timer_new 100)))))
   in tm_waits t = [] \<and> tm_ready t = [] \<and> \<not> tm_is_idle t"
  by code_simp

end
