(* ===== verification/Tcp_Layer.thy ===== *)
theory Tcp_Layer
  imports Trdp_Coro Keeper
begin

text \<open>\<open>rdp/basic_shared_tcp_layer\<close>: listening sockets shared by the acceptors of a process. A layer
  accepts connections on one endpoint and hands each to the acceptor whose domain the peer asks for;
  the pool finds the layer of an endpoint, so that acceptors on the same endpoint share it.

  Layers, flows and acceptors are known by their addresses, natural numbers. \<open>tn_layers\<close> and
  \<open>tn_flows\<close> are all that were ever made, a layer that has been destroyed is \<open>None\<close>; the pool is the
  static map of the source, in the order of its endpoints. What the operating system answers is an
  argument. A result of \<open>None\<close> marks the use of a layer that is not there. The hash table of the
  acceptors is a list in the order of insertion; the source depends on its order only if one acceptor
  is registered twice. The two static speed meters are never fed and left out.\<close>

section \<open>State\<close>

type_synonym edp = "u32 \<times> u16"

datatype tl_state = TL_INIT | TL_STARTED | TL_STOPED

datatype tl_error = TL_success | TL_already_open | TL_address_in_use | TL_io nat

datatype tl_effect = Tl_listen | Tl_accept nat | Tl_cancel | Tl_close

record tcp_layer =
  tl_status :: tl_state
  tl_open :: bool
  tl_local_endpoint :: edp
  tl_acceptors :: "(bytes \<times> nat) list"
  tl_flow_keeper :: "nat keeper"
  tl_real_time :: bool
  tl_outs :: "tl_effect list"

record acceptor_token =
  at_shared_layer :: nat
  at_domain :: bytes
  at_acceptor :: nat

record tcp_net =
  tn_pool :: "(edp \<times> nat) list"
  tn_layers :: "tcp_layer option list"
  tn_flows :: "trdp_flow list"
  tn_clock :: tick
  tn_rng :: rng

definition edp_less :: "edp \<Rightarrow> edp \<Rightarrow> bool" where
  "edp_less a b = (fst a < fst b \<or> (fst a = fst b \<and> snd a < snd b))"

definition tn_layer :: "nat \<Rightarrow> tcp_net \<Rightarrow> tcp_layer option" where
  "tn_layer i w = (if i < length (tn_layers w) then tn_layers w ! i else None)"

definition tn_change :: "nat \<Rightarrow> (tcp_layer \<Rightarrow> tcp_layer) \<Rightarrow> tcp_net \<Rightarrow> tcp_net" where
  "tn_change i g w = w\<lparr>tn_layers := (tn_layers w)[i := map_option g (tn_layer i w)]\<rparr>"

definition tn_flow_change :: "nat \<Rightarrow> (trdp_flow \<Rightarrow> trdp_flow) \<Rightarrow> tcp_net \<Rightarrow> tcp_net" where
  "tn_flow_change f g w = w\<lparr>tn_flows := (tn_flows w)[f := g (tn_flows w ! f)]\<rparr>"

definition tl_emit :: "tl_effect \<Rightarrow> tcp_layer \<Rightarrow> tcp_layer" where
  "tl_emit e l = l\<lparr>tl_outs := tl_outs l @ [e]\<rparr>"

section \<open>A layer\<close>

text \<open>The constructor. The answers: of opening the socket, whether setting its linger option
  throws, of binding, and of asking for the local endpoint.\<close>

record os_answer =
  os_open :: tl_error
  os_throws :: bool
  os_bind :: tl_error
  os_local :: tl_error
  os_edp :: edp

definition tl_blank :: "bool \<Rightarrow> tcp_layer" where
  "tl_blank rtu = \<lparr>tl_status = TL_INIT, tl_open = False, tl_local_endpoint = (0, 0), tl_acceptors = [],
     tl_flow_keeper = [], tl_real_time = rtu, tl_outs = []\<rparr>"

definition tn_add :: "tcp_layer \<Rightarrow> tcp_net \<Rightarrow> nat \<times> tcp_net" where
  "tn_add l w = (length (tn_layers w), w\<lparr>tn_layers := tn_layers w @ [Some l]\<rparr>)"

definition pool_insert :: "edp \<Rightarrow> nat \<Rightarrow> tcp_net \<Rightarrow> tcp_net" where
  "pool_insert e i w = w\<lparr>tn_pool := oset_insert (\<lambda>a b. edp_less (fst a) (fst b)) (e, i) (tn_pool w)\<rparr>"

definition tl_construct :: "os_answer \<Rightarrow> bool \<Rightarrow> tcp_net \<Rightarrow> tl_error \<times> nat option \<times> tcp_net" where
  "tl_construct ans rtu w =
     (if os_open ans \<noteq> TL_success
      then let (i, w1) = tn_add (tl_blank rtu) w in (os_open ans, Some i, w1)
      else if os_throws ans then (TL_success, None, w)
      else if os_bind ans \<noteq> TL_success
      then let (i, w1) = tn_add (tl_blank rtu) w in (os_bind ans, Some i, w1)
      else if os_local ans \<noteq> TL_success
      then let (i, w1) = tn_add (tl_blank rtu) w in (os_local ans, Some i, w1)
      else
        let (i, w1) = tn_add ((tl_blank rtu)\<lparr>tl_open := True, tl_local_endpoint := os_edp ans\<rparr>) w
        in (TL_success, Some i, pool_insert (os_edp ans) i w1))"

text \<open>The destructor.\<close>
definition tl_destroy :: "nat \<Rightarrow> tcp_net \<Rightarrow> tcp_net" where
  "tl_destroy i w =
     (case tn_layer i w of
        None \<Rightarrow> w
      | Some l \<Rightarrow>
          w\<lparr>tn_pool := filter (\<lambda>e. fst e \<noteq> tl_local_endpoint l) (tn_pool w),
            tn_layers := (tn_layers w)[i := None]\<rparr>)"

text \<open>\<open>async_accept\<close>: a passive flow is made and accepted into; \<open>mem\<close> is the memory it is made in.\<close>
definition tl_async_accept :: "trdp_flow \<Rightarrow> nat \<Rightarrow> tcp_net \<Rightarrow> tcp_net" where
  "tl_async_accept mem i w =
     (case tn_layer i w of
        None \<Rightarrow> w
      | Some l \<Rightarrow>
          if tl_status l \<noteq> TL_STARTED then w
          else
            tn_change i (tl_emit (Tl_accept (length (tn_flows w))))
              (w\<lparr>tn_flows := tn_flows w @ [trdp_create_passive mem]\<rparr>))"

text \<open>\<open>start\<close>. An error of listening is logged and otherwise ignored.\<close>
definition tl_start :: "trdp_flow \<Rightarrow> nat \<Rightarrow> tcp_net \<Rightarrow> tcp_net" where
  "tl_start mem i w =
     (case tn_layer i w of
        None \<Rightarrow> w
      | Some l \<Rightarrow>
          if tl_status l \<noteq> TL_INIT then w
          else tl_async_accept mem i (tn_change i (\<lambda>l. tl_emit Tl_listen (l\<lparr>tl_status := TL_STARTED\<rparr>)) w))"

definition tl_cancel_without_protector :: "tcp_layer \<Rightarrow> tcp_layer" where
  "tl_cancel_without_protector l = (tl_emit Tl_cancel l)\<lparr>tl_status := TL_STOPED\<rparr>"

text \<open>\<open>handle_accept\<close>: the next accept is started, and the flow waits for the domain its peer asks
  for; it is kept for five seconds.\<close>
definition tl_handle_accept :: "trdp_flow \<Rightarrow> tl_error \<Rightarrow> nat \<Rightarrow> nat \<Rightarrow> tcp_net \<Rightarrow> tcp_net" where
  "tl_handle_accept mem ec f i w =
     (case tn_layer i w of
        None \<Rightarrow> w
      | Some l \<Rightarrow>
          if tl_status l \<noteq> TL_STARTED then w
          else if ec = TL_success then
            let w1 = tl_async_accept mem i w;
                w2 = tn_change i
                       (\<lambda>l. l\<lparr>tl_flow_keeper :=
                          snd (snd (set_try_keep f 5000 (tn_clock w) (tl_flow_keeper l)))\<rparr>) w1
            in tn_flow_change f waiting_domain w2
          else tn_change i (\<lambda>l. (tl_emit Tl_close (tl_emit Tl_cancel l))\<lparr>tl_open := False\<rparr>) w)"

section \<open>Acceptors\<close>

definition tl_find_acceptor :: "bytes \<Rightarrow> tcp_layer \<Rightarrow> nat option" where
  "tl_find_acceptor name l = map_of (tl_acceptors l) name"

definition tl_register_acceptor :: "nat \<Rightarrow> bytes \<Rightarrow> tcp_layer \<Rightarrow> tl_error \<times> tcp_layer" where
  "tl_register_acceptor acc name l =
     (if map_of (tl_acceptors l) name \<noteq> None then (TL_already_open, l)
      else (TL_success, l\<lparr>tl_acceptors := tl_acceptors l @ [(name, acc)]\<rparr>))"

fun erase_first :: "('a \<Rightarrow> bool) \<Rightarrow> 'a list \<Rightarrow> 'a list" where
  "erase_first p [] = []"
| "erase_first p (x # xs) = (if p x then xs else x # erase_first p xs)"

definition tl_unregister_acceptor :: "nat \<Rightarrow> tcp_layer \<Rightarrow> tcp_layer" where
  "tl_unregister_acceptor acc l = l\<lparr>tl_acceptors := erase_first (\<lambda>e. snd e = acc) (tl_acceptors l)\<rparr>"

section \<open>The pool\<close>

definition tl_is_shared_endpoint :: "edp \<Rightarrow> tcp_net \<Rightarrow> bool" where
  "tl_is_shared_endpoint e w = (e \<in> fst ` set (tn_pool w))"

text \<open>The search of \<open>create\<close> when the port or the address is left open: the first layer that matches,
  \<open>None\<close> where it would look at a layer that is gone.\<close>
fun tl_search :: "edp \<Rightarrow> bool \<Rightarrow> tcp_net \<Rightarrow> (edp \<times> nat) list \<Rightarrow> nat option option" where
  "tl_search e rtu w [] = Some None"
| "tl_search e rtu w ((_, i) # rest) =
     (case tn_layer i w of
        None \<Rightarrow> None
      | Some l \<Rightarrow>
          if ((snd e = 0 \<and> fst e = fst (tl_local_endpoint l)) \<or> (fst e = 0 \<and> snd e = snd (tl_local_endpoint l)))
             \<and> rtu = tl_real_time l
          then Some (Some i) else tl_search e rtu w rest)"

definition tl_is_open :: "nat \<Rightarrow> tcp_net \<Rightarrow> bool" where
  "tl_is_open i w = (case tn_layer i w of Some l \<Rightarrow> tl_open l | None \<Rightarrow> False)"

text \<open>The attempts to make a layer. \<open>net_obj\<close> is the one the last attempt left: the next one takes its
  place, and it is destroyed. \<open>os\<close> answers for each endpoint that is tried.\<close>
fun tl_attempts :: "(nat \<Rightarrow> edp \<Rightarrow> os_answer) \<Rightarrow> trdp_flow \<Rightarrow> bool \<Rightarrow> edp \<Rightarrow> nat \<Rightarrow> tl_error \<Rightarrow> nat option \<Rightarrow>
    tcp_net \<Rightarrow> tl_error \<times> nat option \<times> tcp_net" where
  "tl_attempts os mem rtu e 0 ec net_obj w = (ec, net_obj, w)"
| "tl_attempts os mem rtu e (Suc n) ec net_obj w =
     (let (p, g) = (if snd e = 0 then range_random 1024 10000 (tn_rng w) else (uint (snd e), tn_rng w));
          (ec1, new, w1) = tl_construct (os n (fst e, word_of_int p)) rtu (w\<lparr>tn_rng := g\<rparr>)
      in case new of
           None \<Rightarrow> tl_attempts os mem rtu e n ec1 net_obj w1
         | Some i \<Rightarrow>
             let w2 = (case net_obj of None \<Rightarrow> w1 | Some j \<Rightarrow> tl_destroy j w1)
             in if ec1 = TL_success \<and> tl_is_open i w2
                then (ec1, Some i, tl_start mem i w2)
                else tl_attempts os mem rtu e n ec1 (Some i) w2)"

declare tl_attempts.simps [simp del]

definition tl_create :: "(nat \<Rightarrow> edp \<Rightarrow> os_answer) \<Rightarrow> trdp_flow \<Rightarrow> edp \<Rightarrow> bool \<Rightarrow> tl_error \<Rightarrow> tcp_net \<Rightarrow>
    (tl_error \<times> nat option \<times> tcp_net) option" where
  "tl_create os mem e rtu ec w =
     (if snd e = 0 \<or> fst e = 0
      then case tl_search e rtu w (tn_pool w) of
             None \<Rightarrow> None
           | Some (Some i) \<Rightarrow> Some (ec, Some i, w)
           | Some None \<Rightarrow> Some (tl_attempts os mem rtu e (if snd e = 0 then 16 else 1) TL_success None w)
      else case map_of (tn_pool w) e of
             Some i \<Rightarrow>
               (case tn_layer i w of
                  None \<Rightarrow> None
                | Some l \<Rightarrow> if tl_real_time l = rtu then Some (ec, Some i, w)
                            else Some (TL_address_in_use, None, w))
           | None \<Rightarrow> Some (tl_attempts os mem rtu e 1 TL_success None w))"

text \<open>A layer that nobody refers to when \<open>create_acceptor_token\<close> gives up is destroyed: it never
  started, so no accept holds it.\<close>
definition tl_drop :: "nat \<Rightarrow> tcp_net \<Rightarrow> tcp_net" where
  "tl_drop i w =
     (case tn_layer i w of
        Some l \<Rightarrow> if tl_status l = TL_INIT then tl_destroy i w else w
      | None \<Rightarrow> w)"

definition tl_create_acceptor_token :: "(nat \<Rightarrow> edp \<Rightarrow> os_answer) \<Rightarrow> trdp_flow \<Rightarrow> edp \<Rightarrow> nat \<Rightarrow> bytes \<Rightarrow> bool \<Rightarrow>
    tl_error \<Rightarrow> tcp_net \<Rightarrow> (tl_error \<times> acceptor_token option \<times> tcp_net) option" where
  "tl_create_acceptor_token os mem e acc name rtu ec w =
     (case tl_create os mem e rtu ec w of
        None \<Rightarrow> None
      | Some (ec1, obj, w1) \<Rightarrow>
          if ec1 \<noteq> TL_success
          then Some (ec1, None, case obj of None \<Rightarrow> w1 | Some i \<Rightarrow> tl_drop i w1)
          else
            case obj of
              None \<Rightarrow> None
            | Some i \<Rightarrow>
                (case tn_layer i w1 of
                   None \<Rightarrow> None
                 | Some l \<Rightarrow>
                     let (ec2, l2) = tl_register_acceptor acc name l
                     in Some (ec2, Some \<lparr>at_shared_layer = i, at_domain = name, at_acceptor = acc\<rparr>,
                              tn_change i (\<lambda>_. l2) w1)))"

text \<open>The destructor of a token.\<close>
definition tl_token_gone :: "acceptor_token \<Rightarrow> tcp_net \<Rightarrow> tcp_net" where
  "tl_token_gone t w = tn_change (at_shared_layer t) (tl_unregister_acceptor (at_acceptor t)) w"

section \<open>Domains\<close>

text \<open>The packet with the domain arrives at a flow that waits for it, and the acceptor of the domain
  is found: the flow with its new state, and the acceptor whose \<open>accept_flow\<close> is called.\<close>
definition tl_domain_received :: "t_error \<Rightarrow> bytes \<Rightarrow> op_stamp_t \<Rightarrow> nat \<Rightarrow> nat \<Rightarrow> tcp_net \<Rightarrow> nat option \<times> tcp_net" where
  "tl_domain_received ec pkt stamp f i w =
     (let old = tn_flows w ! f;
          new = domain_received (\<lambda>_ x. x) (map_option (\<lambda>l. map fst (tl_acceptors l)) (tn_layer i w)) ec pkt stamp old;
          acc = (if Notify N_accepted \<in> set (drop (length (tf_outs old)) (tf_outs new))
                 then Option.bind (tn_layer i w) (tl_find_acceptor (drop 2 pkt)) else None)
      in (acc, tn_flow_change f (\<lambda>_. new) w))"

end
