(* ===== verification/Tcp_Layer_Inv.thy ===== *)
theory Tcp_Layer_Inv
  imports Tcp_Layer
begin

text \<open>The pool of listening layers over all operations in any order, and the way of a connection from
  the request of its peer to the acceptor of the domain.\<close>

section \<open>Looking at the net\<close>

lemma layer_change [simp]:
  "tn_layer j (tn_change i g w) = (if j = i then map_option g (tn_layer i w) else tn_layer j w)"
  by (auto simp: tn_layer_def tn_change_def)

lemma change_simps [simp]:
  "tn_pool (tn_change i g w) = tn_pool w" "tn_flows (tn_change i g w) = tn_flows w"
  "tn_clock (tn_change i g w) = tn_clock w" "tn_rng (tn_change i g w) = tn_rng w"
  by (simp_all add: tn_change_def)

lemma flow_change_simps [simp]:
  "tn_pool (tn_flow_change f g w) = tn_pool w" "tn_layer i (tn_flow_change f g w) = tn_layer i w"
  by (simp_all add: tn_flow_change_def tn_layer_def)

lemma update_simps [simp]:
  "tn_layer i (w\<lparr>tn_flows := x\<rparr>) = tn_layer i w" "tn_layer i (w\<lparr>tn_rng := g\<rparr>) = tn_layer i w"
  "tn_layer i (w\<lparr>tn_clock := t\<rparr>) = tn_layer i w" "tn_layer i (w\<lparr>tn_pool := p\<rparr>) = tn_layer i w"
  by (simp_all add: tn_layer_def)

lemma add_layer [simp]:
  "tn_layer i (snd (tn_add l w)) = (if i = length (tn_layers w) then Some l else tn_layer i w)"
  "tn_pool (snd (tn_add l w)) = tn_pool w" "fst (tn_add l w) = length (tn_layers w)"
  by (auto simp: tn_add_def tn_layer_def nth_append)

lemma emit_simps [simp]:
  "tl_local_endpoint (tl_emit e l) = tl_local_endpoint l" "tl_acceptors (tl_emit e l) = tl_acceptors l"
  "tl_status (tl_emit e l) = tl_status l" "tl_open (tl_emit e l) = tl_open l"
  "tl_real_time (tl_emit e l) = tl_real_time l"
  by (simp_all add: tl_emit_def)

section \<open>The invariant\<close>

interpretation pool_order: carrier_order "\<lambda>a b :: edp \<times> nat. edp_less (fst a) (fst b)" UNIV
  by unfold_locales (auto simp: edp_less_def)

text \<open>Every endpoint of the pool has one entry, and it is a layer that lives and has that endpoint;
  every domain of a layer has one acceptor.\<close>
definition tn_ok :: "tcp_net \<Rightarrow> bool" where
  "tn_ok w \<longleftrightarrow>
     sorted_wrt (\<lambda>a b. edp_less (fst a) (fst b)) (tn_pool w)
   \<and> (\<forall>(e, i) \<in> set (tn_pool w). \<exists>l. tn_layer i w = Some l \<and> tl_local_endpoint l = e)
   \<and> (\<forall>i l. tn_layer i w = Some l \<longrightarrow> distinct (map fst (tl_acceptors l)))"

lemma pool_entry:
  "tn_ok w \<Longrightarrow> (e, i) \<in> set (tn_pool w) \<Longrightarrow> \<exists>l. tn_layer i w = Some l \<and> tl_local_endpoint l = e"
  by (auto simp: tn_ok_def)

lemma tn_ok_same:
  assumes "tn_ok w" and "tn_pool w' = tn_pool w" and "\<And>i. tn_layer i w' = tn_layer i w"
  shows "tn_ok w'"
  using assms by (simp add: tn_ok_def)

lemma tn_ok_change:
  assumes "tn_ok w"
    and "\<And>l. tn_layer i w = Some l \<Longrightarrow> tl_local_endpoint (g l) = tl_local_endpoint l"
    and "\<And>l. tn_layer i w = Some l \<Longrightarrow> distinct (map fst (tl_acceptors l)) \<Longrightarrow> distinct (map fst (tl_acceptors (g l)))"
  shows "tn_ok (tn_change i g w)"
  using assms by (fastforce simp: tn_ok_def)

lemma ok_add:
  assumes "tn_ok w" and "tl_acceptors l = []"
  shows "tn_ok (snd (tn_add l w))"
proof -
  have "tn_layer (length (tn_layers w)) w = None" by (simp add: tn_layer_def)
  then show ?thesis using assms by (fastforce simp: tn_ok_def)
qed

lemma ok_pool_insert:
  assumes "tn_ok w" and "tn_layer i w = Some l" and "tl_local_endpoint l = e"
  shows "tn_ok (pool_insert e i w)"
proof -
  have s: "sorted_wrt (\<lambda>a b. edp_less (fst a) (fst b)) (tn_pool (pool_insert e i w))"
    unfolding pool_insert_def using assms(1) pool_order.oset_insert_sorted [of "tn_pool w" "(e, i)"]
    by (simp add: tn_ok_def)
  have "set (tn_pool (pool_insert e i w)) \<subseteq> insert (e, i) (set (tn_pool w))"
    unfolding pool_insert_def using set_oset_insert_subset by simp
  moreover have "tn_layer j (pool_insert e i w) = tn_layer j w" for j by (simp add: pool_insert_def)
  ultimately show ?thesis
    using s assms unfolding tn_ok_def by (fastforce dest: subsetD)
qed

lemma ok_construct:
  assumes "tn_ok w" and "tl_construct ans rtu w = (ec, new, w')"
  shows "tn_ok w'"
proof -
  have add: "tn_ok (snd (tn_add (tl_blank rtu) w))" by (rule ok_add [OF assms(1)]) (simp add: tl_blank_def)
  let ?l = "(tl_blank rtu)\<lparr>tl_open := True, tl_local_endpoint := os_edp ans\<rparr>"
  have "tn_ok (snd (tn_add ?l w))" by (rule ok_add [OF assms(1)]) (simp add: tl_blank_def)
  then have "tn_ok (pool_insert (os_edp ans) (fst (tn_add ?l w)) (snd (tn_add ?l w)))"
    by (rule ok_pool_insert [where l = ?l]) simp_all
  then show ?thesis
    using assms add by (auto simp: tl_construct_def case_prod_unfold Let_def split: if_splits)
qed

lemma ok_destroy:
  assumes "tn_ok w"
  shows "tn_ok (tl_destroy i w)"
proof (cases "tn_layer i w")
  case None
  then show ?thesis using assms by (simp add: tl_destroy_def)
next
  case (Some l)
  have lay: "tn_layer j (tl_destroy i w) = (if j = i then None else tn_layer j w)" for j
    using Some by (auto simp: tl_destroy_def tn_layer_def)
  have pool: "tn_pool (tl_destroy i w) = filter (\<lambda>e. fst e \<noteq> tl_local_endpoint l) (tn_pool w)"
    using Some by (simp add: tl_destroy_def)
  have "\<exists>k. tn_layer j (tl_destroy i w) = Some k \<and> tl_local_endpoint k = e"
    if "(e, j) \<in> set (tn_pool (tl_destroy i w))" for e j
  proof -
    have "(e, j) \<in> set (tn_pool w)" "e \<noteq> tl_local_endpoint l" using that pool by auto
    then show ?thesis using pool_entry [OF assms] Some lay by fastforce
  qed
  moreover have "sorted_wrt (\<lambda>a b. edp_less (fst a) (fst b)) (tn_pool (tl_destroy i w))"
    using assms pool by (simp add: tn_ok_def sorted_wrt_filter)
  moreover have "distinct (map fst (tl_acceptors k))" if "tn_layer j (tl_destroy i w) = Some k" for j k
    using assms that lay by (auto simp: tn_ok_def split: if_splits)
  ultimately show ?thesis unfolding tn_ok_def by blast
qed

lemma ok_async_accept: "tn_ok w \<Longrightarrow> tn_ok (tl_async_accept mem i w)"
  by (auto simp: tl_async_accept_def split: option.split intro!: tn_ok_change elim: tn_ok_same)

lemma ok_start: "tn_ok w \<Longrightarrow> tn_ok (tl_start mem i w)"
  by (auto simp: tl_start_def split: option.split intro!: ok_async_accept tn_ok_change)

lemma ok_attempts:
  "tn_ok w \<Longrightarrow> tl_attempts os mem rtu e n ec obj w = (ec', obj', w') \<Longrightarrow> tn_ok w'"
proof (induction n arbitrary: ec obj w)
  case (Suc n)
  let ?pg = "if snd e = 0 then range_random 1024 10000 (tn_rng w) else (uint (snd e), tn_rng w)"
  obtain p g where pg: "?pg = (p, g)" by (cases ?pg)
  obtain ec1 new w1 where c: "tl_construct (os n (fst e, word_of_int p)) rtu (w\<lparr>tn_rng := g\<rparr>) = (ec1, new, w1)"
    using prod_cases3 by blast
  have "tn_ok (w\<lparr>tn_rng := g\<rparr>)" by (rule tn_ok_same [OF Suc(2)]) simp_all
  then have w1: "tn_ok w1" using ok_construct c by blast
  let ?w2 = "case obj of None \<Rightarrow> w1 | Some j \<Rightarrow> tl_destroy j w1"
  have w2: "tn_ok ?w2" using w1 by (auto intro: ok_destroy split: option.split)
  show ?case
    using Suc(3) Suc(1) w1 w2 ok_start [OF w2]
    unfolding tl_attempts.simps pg Let_def prod.case c
    by (auto simp: Let_def split: option.splits if_splits)
qed (simp add: tl_attempts.simps)

lemma ok_create: "tn_ok w \<Longrightarrow> tl_create os mem e rtu ec w = Some (ec', obj, w') \<Longrightarrow> tn_ok w'"
  by (auto simp: tl_create_def split: if_splits option.splits elim: ok_attempts)

lemma search_defined:
  "\<forall>(e, i) \<in> set pool. tn_layer i w \<noteq> None \<Longrightarrow> tl_search e rtu w pool \<noteq> None"
  by (induction pool) auto

lemma create_defined: "tn_ok w \<Longrightarrow> tl_create os mem e rtu ec w \<noteq> None"
proof -
  assume ok: "tn_ok w"
  have live: "tn_layer i w \<noteq> None" if "(d, i) \<in> set (tn_pool w)" for d i
    using pool_entry [OF ok that] by auto
  obtain r where "tl_search e rtu w (tn_pool w) = Some r"
    using search_defined [of "tn_pool w" w e rtu] live by blast
  moreover have "\<exists>l. tn_layer i w = Some l" if "map_of (tn_pool w) e = Some i" for i
    using live map_of_SomeD [OF that] by blast
  ultimately show ?thesis
    by (cases "map_of (tn_pool w) e")
      (auto simp: tl_create_def split: option.split simp del: not_None_eq split_paired_Ex)
qed

lemma ok_drop: "tn_ok w \<Longrightarrow> tn_ok (tl_drop i w)"
  by (auto simp: tl_drop_def intro: ok_destroy split: option.split)

lemma ok_register:
  "distinct (map fst (tl_acceptors l)) \<Longrightarrow> distinct (map fst (tl_acceptors (snd (tl_register_acceptor acc name l))))"
  by (auto simp: tl_register_acceptor_def map_of_eq_None_iff)

lemma register_simps [simp]:
  "tl_local_endpoint (snd (tl_register_acceptor acc name l)) = tl_local_endpoint l"
  by (simp add: tl_register_acceptor_def)

lemma ok_create_token:
  assumes "tn_ok w" and "tl_create_acceptor_token os mem e acc name rtu ec w = Some (ec', t, w')"
  shows "tn_ok w'"
proof -
  obtain ec1 obj w1 where c: "tl_create os mem e rtu ec w = Some (ec1, obj, w1)"
    using create_defined [OF assms(1), of os mem e rtu ec]
    by (cases "tl_create os mem e rtu ec w") auto
  have w1: "tn_ok w1" by (rule ok_create [OF assms(1) c])
  show ?thesis
  proof (cases "ec1 = TL_success")
    case False
    then show ?thesis using assms(2) c w1 ok_drop by (auto simp: tl_create_acceptor_token_def split: option.splits)
  next
    case True
    then obtain i l where il: "obj = Some i" "tn_layer i w1 = Some l"
      using assms(2) c by (auto simp: tl_create_acceptor_token_def split: option.splits)
    have "tn_ok (tn_change i (\<lambda>_. snd (tl_register_acceptor acc name l)) w1)"
      using w1 il ok_register by (intro tn_ok_change) auto
    then show ?thesis
      using assms(2) c True il by (simp add: tl_create_acceptor_token_def case_prod_unfold Let_def)
  qed
qed

lemma set_erase_first: "set (erase_first p xs) \<subseteq> set xs"
  by (induction xs) auto

lemma distinct_erase_first: "distinct (map f xs) \<Longrightarrow> distinct (map f (erase_first p xs))"
  using set_erase_first by (induction xs) fastforce+

lemma ok_token_gone: "tn_ok w \<Longrightarrow> tn_ok (tl_token_gone t w)"
  unfolding tl_token_gone_def
  by (intro tn_ok_change) (simp_all add: tl_unregister_acceptor_def distinct_erase_first)

lemma ok_handle_accept: "tn_ok w \<Longrightarrow> tn_ok (tl_handle_accept mem ec f i w)"
proof -
  assume ok: "tn_ok w"
  have flow: "tn_ok (tn_flow_change f g x)" if "tn_ok x" for g x by (rule tn_ok_same [OF that]) simp_all
  have keep: "tn_ok (tn_change i (\<lambda>l. l\<lparr>tl_flow_keeper := h l\<rparr>) x)" if "tn_ok x" for h x
    using that by (intro tn_ok_change) simp_all
  have close: "tn_ok (tn_change i (\<lambda>l. (tl_emit Tl_close (tl_emit Tl_cancel l))\<lparr>tl_open := False\<rparr>) w)"
    using ok by (intro tn_ok_change) simp_all
  show ?thesis
    using ok close flow [OF keep [OF ok_async_accept [OF ok]]]
    by (simp add: tl_handle_accept_def Let_def split: option.split)
qed

section \<open>All operations\<close>

text \<open>The operations of the layers and of the world, in any order: nothing is asked of the answers of
  the operating system, and a layer can be destroyed at any time.\<close>
inductive tn_step :: "tcp_net \<Rightarrow> tcp_net \<Rightarrow> bool" where
  step_listen: "tl_create_acceptor_token os mem e acc name rtu ec w = Some (ec', t, w') \<Longrightarrow> tn_step w w'"
| step_create: "tl_create os mem e rtu ec w = Some (ec', obj, w') \<Longrightarrow> tn_step w w'"
| step_token: "tn_step w (tl_token_gone t w)"
| step_accept: "tn_step w (tl_handle_accept mem ec f i w)"
| step_domain: "tn_step w (snd (tl_domain_received tec pkt stamp f i w))"
| step_flow: "tn_step w (tn_flow_change f g w)"
| step_cancel: "tn_step w (tn_change i tl_cancel_without_protector w)"
| step_destroy: "tn_step w (tl_destroy i w)"
| step_time: "tn_step w (w\<lparr>tn_clock := now\<rparr>)"

definition tn_start :: "tick \<Rightarrow> rng \<Rightarrow> tcp_net" where
  "tn_start now g = \<lparr>tn_pool = [], tn_layers = [], tn_flows = [], tn_clock = now, tn_rng = g\<rparr>"

lemma tn_ok_step: "tn_step w w' \<Longrightarrow> tn_ok w \<Longrightarrow> tn_ok w'"
proof (induction rule: tn_step.induct)
  case (step_cancel w i)
  then show ?case
    by (intro tn_ok_change) (simp_all add: tl_cancel_without_protector_def)
next
  case (step_domain w tec pkt stamp f i)
  then show ?case
    by (simp add: tl_domain_received_def Let_def) (erule tn_ok_same, simp_all)
next
  case (step_flow w f g)
  then show ?case by (rule tn_ok_same) simp_all
next
  case (step_time w now)
  then show ?case by (rule tn_ok_same) simp_all
qed (auto intro: ok_create_token ok_create ok_token_gone ok_handle_accept ok_destroy)

lemma reachable_ok: "tn_step\<^sup>*\<^sup>* (tn_start now g) w \<Longrightarrow> tn_ok w"
proof (induction rule: rtranclp_induct)
  case base
  show ?case by (simp add: tn_ok_def tn_start_def tn_layer_def)
next
  case (step y z)
  then show ?case using tn_ok_step by blast
qed

lemma ok_distinct: "tn_ok w \<Longrightarrow> distinct (map fst (tn_pool w))"
proof -
  have "sorted_wrt (\<lambda>a b. edp_less (fst a) (fst b)) pool \<Longrightarrow> distinct (map fst pool)" for pool :: "(edp \<times> nat) list"
    by (induction pool) (auto simp: edp_less_def)
  then show "tn_ok w \<Longrightarrow> distinct (map fst (tn_pool w))" by (simp add: tn_ok_def)
qed

end
