(* ===== verification/Tcp_Accept.thy ===== *)
theory Tcp_Accept
  imports Tcp_Layer_Inv Trdp_Theorems
begin

text \<open>The way of a TCP connection through the layer: the socket is accepted, the peer asks for a
  domain, the acceptor of the domain gets the flow. And two ways the layer goes wrong.\<close>

section \<open>From the request to the acceptor\<close>

text \<open>The request of the peer arrives at a flow: its length, and then the rest.\<close>
definition tl_conversation :: "bytes \<Rightarrow> nat \<Rightarrow> nat \<Rightarrow> tcp_net \<Rightarrow> nat option \<times> tcp_net" where
  "tl_conversation req f i w =
     (let w1 = tn_flow_change f (\<lambda>x. domain_length_received T_success (take 2 req) (t_stamp x) x) w
      in tl_domain_received T_success (drop 2 req) (t_stamp (tn_flows w1 ! f)) f i w1)"

lemma fresh_fields:
  "tf_state (trdp_create_passive m) = T_OPENED" "tf_mark (trdp_create_passive m) = \<lparr>om_stamp = 1, om_cancel = 0\<rparr>"
  "tf_conn_timer (trdp_create_passive m) = Some \<lparr>ct_action = None, ct_deadline = None\<rparr>"
  "tf_outs (trdp_create_passive m) = []" "tf_open (trdp_create_passive m)"
  by (simp_all add: trdp_create_passive_def trdp_construct_def trdp_init_def operation_mark_new_def
      set_cancel_def next_op_stamp_def case_prod_unfold Let_def)

text \<open>A flow that waits for its domain.\<close>
definition waits_domain :: "trdp_flow \<Rightarrow> bool" where
  "waits_domain f \<longleftrightarrow> tf_state f = T_OPENED \<and> tf_mark f = \<lparr>om_stamp = 1, om_cancel = 0\<rparr>
     \<and> tf_conn_timer f \<noteq> None \<and> Notify N_accepted \<notin> set (tf_outs f)"

lemma fresh_waits: "waits_domain (waiting_domain (trdp_create_passive m))"
  by (simp add: waits_domain_def waiting_domain_def conn_timer_start_def t_emit_def t_stamp_def fresh_fields Let_def)

lemma length_arrives:
  fixes name :: bytes
  assumes "waits_domain f" and "length name + 2 < 2 ^ 16"
  shows "domain_length_received T_success (take 2 (domain_request_bytes big cid name)) (t_stamp f) f
    = t_emit (Async (Read_domain (length name + 2)) 1) (f\<lparr>tf_recv_buf := replicate (length name + 2) 0\<rparr>)"
proof -
  have hdr: "take 2 (domain_request_bytes big cid name) = rev (bytes_of_word (of_nat (2 + length name) :: u16))"
    by (simp add: domain_request_bytes_def codec_simps)
  have l: "length (rev (bytes_of_word (of_nat (2 + length name) :: u16))) = 2" by simp
  have v: "fst (io_get_int (tf_big f) (rev (bytes_of_word (of_nat (2 + length name) :: u16)))) = (of_nat (2 + length name) :: u16)"
    using io_get_ints(1) [of "tf_big f" "of_nat (2 + length name)" "[]"] by (metis append_Nil2 fst_conv)
  have u: "unat (of_nat k :: u16) = k" if "k < 2 ^ 16" for k
    using that by (simp add: unsigned_of_nat take_bit_nat_eq_self)
  have n: "unat (of_nat (2 + length name) :: u16) = 2 + length name"
    by (rule u) (use assms(2) in simp)
  show ?thesis
    using assms(1) unfolding domain_length_received_def hdr v n
    by (simp add: waits_domain_def t_stamp_def add.commute n v l del: of_nat_add)
qed

lemma domain_arrives:
  fixes name :: bytes
  assumes "waits_domain f" and "length name + 2 = length (tf_recv_buf f)"
    and "g = domain_received (\<lambda>_ x. x) (Some names) T_success (drop 2 (domain_request_bytes big cid name)) 1 f"
  shows "tf_state g = (if name \<in> set names then T_CONNECTED else T_CLOSED)"
    and "Notify N_accepted \<in> set (drop (length (tf_outs f)) (tf_outs g)) \<longleftrightarrow> name \<in> set names"
    and "name \<in> set names \<Longrightarrow>
      \<exists>k stamp. Async (Write_packet [0, 2, k, ACCEPT_PKT] False) stamp \<in> set (tf_outs g)"
proof -
  have pkt: "drop 2 (domain_request_bytes big cid name) = cid # CONN_PKT # name"
    by (simp add: domain_request_bytes_def codec_simps)
  have two: "rev (bytes_of_word (2 :: u16)) = [0, 2]" by code_simp
  have st: "t_remote_to_local_lost_rate m h = (1, h)" if "tf_state h \<noteq> T_CONNECTED" for m h
    using that by (simp add: t_remote_to_local_lost_rate_def)
  obtain t where t: "tf_conn_timer f = Some t" using assms(1) by (auto simp: waits_domain_def)
  have s: "tf_state f = T_OPENED" "tf_mark f = \<lparr>om_stamp = 1, om_cancel = 0\<rparr>"
    using assms(1) by (simp_all add: waits_domain_def)
  show "tf_state g = (if name \<in> set names then T_CONNECTED else T_CLOSED)"
    "Notify N_accepted \<in> set (drop (length (tf_outs f)) (tf_outs g)) \<longleftrightarrow> name \<in> set names"
    "name \<in> set names \<Longrightarrow> \<exists>k stamp. Async (Write_packet [0, 2, k, ACCEPT_PKT] False) stamp \<in> set (tf_outs g)"
    unfolding assms(3) pkt using assms(2)
    by (auto simp: domain_received_def st s t Let_def trdp_accept_def conn_timer_cancel_def t_emit_def trdp_close_def
        codec_simps two)
qed

text \<open>The answer is the one the peer waits for.\<close>
lemma answer_connects:
  assumes "\<not> t_stopped s c"
  shows "tf_state (reply_received (\<lambda>_ x. x) T_success [0, 2, k, ACCEPT_PKT] s c) = T_CONNECTED"
proof -
  have k: "tf_state (trdp_keep_async_receiving f) = tf_state f" for f
    by (simp add: trdp_keep_async_receiving_def do_keep_receiving_def receive_next_def t_emit_def Let_def)
  show ?thesis
    using assms
    by (simp add: reply_received_def k t_notify_def t_emit_def conn_timer_cancel_def conn_timer_clear_def Let_def
        split: option.split)
qed

text \<open>C12: A connection over TCP reaches the acceptor of the domain it asks for: when a listening layer has
  accepted a socket into a new flow and the peer's request arrives, the acceptor that gets the flow is
  the one registered for that domain, whatever the byte orders of the two hosts; the flow is
  connected, and its answer makes the flow of the peer connected too. When nobody is registered for
  the domain the flow is closed. The layer goes on accepting, and its acceptors stay as they are.\<close>
theorem tcp_connect_reaches_acceptor:
  assumes "tn_layer i w = Some l" and "tl_status l = TL_STARTED"
    and "f < length (tn_flows w)" and "tn_flows w ! f = trdp_create_passive m"
    and "length name + 2 < 2 ^ 16"
    and "tl_conversation (domain_request_bytes big cid name) f i (tl_handle_accept mem TL_success f i w) = (acc, w')"
  shows "acc = tl_find_acceptor name l
    \<and> tf_state (tn_flows w' ! f) = (if acc = None then T_CLOSED else T_CONNECTED)
    \<and> (acc \<noteq> None \<longrightarrow> (\<exists>answer stamp. Async (Write_packet answer False) stamp \<in> set (tf_outs (tn_flows w' ! f))
        \<and> (\<forall>s c. \<not> t_stopped s c \<longrightarrow> tf_state (reply_received (\<lambda>_ x. x) T_success answer s c) = T_CONNECTED)))
    \<and> map_option tl_outs (tn_layer i w') = Some (tl_outs l @ [Tl_accept (length (tn_flows w))])
    \<and> map_option tl_acceptors (tn_layer i w') = Some (tl_acceptors l)"
proof -
  define w1 where "w1 = tl_handle_accept mem TL_success f i w"
  define x where "x = waiting_domain (trdp_create_passive m)"
  have x: "waits_domain x" unfolding x_def by (rule fresh_waits)
  have flows: "tn_flows w1 = (tn_flows w @ [trdp_create_passive mem])[f := x]"
    using assms(1-4)
    by (simp add: w1_def x_def tl_handle_accept_def tl_async_accept_def tn_flow_change_def nth_append Let_def)
  then have wf: "tn_flows w1 ! f = x" "f < length (tn_flows w1)" using assms(3) by simp_all
  obtain l1 where l1: "tn_layer i w1 = Some l1" "tl_acceptors l1 = tl_acceptors l"
      "tl_outs l1 = tl_outs l @ [Tl_accept (length (tn_flows w))]"
    using assms(1,2)
    by (simp add: w1_def tl_handle_accept_def tl_async_accept_def tl_emit_def Let_def)
  define y where "y = t_emit (Async (Read_domain (length name + 2)) 1) (x\<lparr>tf_recv_buf := replicate (length name + 2) 0\<rparr>)"
  have y: "waits_domain y" "length name + 2 = length (tf_recv_buf y)" "t_stamp y = 1"
    using x by (simp_all add: y_def waits_domain_def t_emit_def t_stamp_def)
  define w2 where "w2 = tn_flow_change f (\<lambda>x. domain_length_received T_success
      (take 2 (domain_request_bytes big cid name)) (t_stamp x) x) w1"
  have w2: "tn_flows w2 ! f = y" "f < length (tn_flows w2)" "tn_layer i w2 = Some l1"
    using wf length_arrives [OF x assms(5), of big cid] l1(1)
    by (simp_all add: w2_def y_def) (simp_all add: tn_flow_change_def)
  define z where "z = domain_received (\<lambda>_ x. x) (Some (map fst (tl_acceptors l1))) T_success
      (drop 2 (domain_request_bytes big cid name)) 1 y"
  note z = domain_arrives [OF y(1,2) z_def]
  have name: "drop 2 (drop 2 (domain_request_bytes big cid name)) = name"
    by (simp add: domain_request_bytes_def codec_simps)
  have res: "acc = (if name \<in> set (map fst (tl_acceptors l1)) then tl_find_acceptor name l1 else None)"
    "w' = tn_flow_change f (\<lambda>_. z) w2"
    using assms(6) w2 y(3) z(2)
    unfolding tl_conversation_def w1_def [symmetric] w2_def [symmetric] tl_domain_received_def Let_def name
    by (cases "name \<in> fst ` set (tl_acceptors l1)"; simp add: z_def [symmetric] del: drop_drop)+
  have acc: "acc = tl_find_acceptor name l" "acc = None \<longleftrightarrow> name \<notin> set (map fst (tl_acceptors l1))"
    using res(1) l1(2) map_of_eq_None_iff [of "tl_acceptors l" name]
    by (cases "map_of (tl_acceptors l) name"; simp add: tl_find_acceptor_def split: if_splits)+
  have z': "tn_flows w' ! f = z" "tn_layer i w' = Some l1"
    using res(2) w2(2,3) by simp_all (simp add: tn_flow_change_def)
  show ?thesis
    using acc z z' l1 answer_connects by (metis option.map(2))
qed

text \<open>A system that lets every socket be opened, and an acceptor that listens.\<close>
definition os_good :: "nat \<Rightarrow> edp \<Rightarrow> os_answer" where
  "os_good n e = \<lparr>os_open = TL_success, os_throws = False, os_bind = TL_success, os_local = TL_success, os_edp = e\<rparr>"

definition listen_on :: "edp \<Rightarrow> nat \<Rightarrow> bytes \<Rightarrow> tcp_net \<Rightarrow> tcp_net" where
  "listen_on e acc name w =
     (case tl_create_acceptor_token os_good example_trdp e acc name True TL_success w of
        None \<Rightarrow> w | Some (_, _, w') \<Rightarrow> w')"

definition listening_net :: tcp_net where
  "listening_net = listen_on (1, 80) 3 [7] (tn_start 0 (rng_seed 1))"

lemma listening_layer: "tn_layer 0 listening_net
  = Some \<lparr>tl_status = TL_STARTED, tl_open = True, tl_local_endpoint = (1, 80), tl_acceptors = [([7], 3)],
      tl_flow_keeper = [], tl_real_time = True, tl_outs = [Tl_listen, Tl_accept 0]\<rparr>"
  and listening_flows: "tn_flows listening_net = [trdp_create_passive example_trdp]"
  and listening_pool: "tn_pool listening_net = [((1, 80), 0)]"
  by (simp_all add: listening_net_def listen_on_def tl_create_acceptor_token_def tl_create_def tl_attempts.simps
      tl_construct_def os_good_def tn_start_def tl_blank_def tn_add_def pool_insert_def tn_layer_def tn_change_def
      tl_start_def tl_async_accept_def tl_emit_def tl_register_acceptor_def tl_is_open_def Let_def)

lemma listen_steps: "tn_step\<^sup>*\<^sup>* w (listen_on e acc name w)"
  by (auto simp: listen_on_def intro: step_listen split: option.split)

lemma listening_steps: "tn_step\<^sup>*\<^sup>* (tn_start 0 (rng_seed 1)) listening_net"
  unfolding listening_net_def by (rule listen_steps)

theorem tcp_connect_reaches_acceptor_witness:
  "fst (tl_conversation (domain_request_bytes False 9 [7]) 0 0 (tl_handle_accept example_trdp TL_success 0 0 listening_net))
   = Some 3"
proof -
  let ?r = "tl_conversation (domain_request_bytes False 9 [7]) 0 0 (tl_handle_accept example_trdp TL_success 0 0 listening_net)"
  have "fst ?r = tl_find_acceptor [7] (the (tn_layer 0 listening_net))"
    using tcp_connect_reaches_acceptor [OF listening_layer, of 0 example_trdp "[7]" False 9 example_trdp "fst ?r" "snd ?r"]
    by (simp add: listening_flows listening_layer)
  then show ?thesis by (simp add: listening_layer tl_find_acceptor_def)
qed

section \<open>The pool\<close>

text \<open>C13: The pool of listening layers never dangles: in every state that the operations can reach, in
  whatever order acceptors listen and go, connections arrive, accepting fails and layers are
  destroyed, and whatever the operating system answers, each endpoint of the pool has one entry, the
  entry is a layer that still exists and has that endpoint as its local one (whether its socket is
  still open is not said: \<open>dead_layer_is_shared\<close>), each domain of a layer has one
  acceptor, and looking for a layer never touches one that is gone.\<close>
theorem tcp_pool_never_dangles:
  assumes "tn_step\<^sup>*\<^sup>* (tn_start now g) w"
  shows "distinct (map fst (tn_pool w))
    \<and> (\<forall>(e, i) \<in> set (tn_pool w). \<exists>l. tn_layer i w = Some l \<and> tl_local_endpoint l = e)
    \<and> (\<forall>i l. tn_layer i w = Some l \<longrightarrow> distinct (map fst (tl_acceptors l)))
    \<and> tl_create os mem e rtu ec w \<noteq> None"
  using reachable_ok [OF assms] ok_distinct create_defined by (simp add: tn_ok_def)

theorem tcp_pool_never_dangles_witness:
  "tl_create os_good example_trdp (1, 0) True TL_success (tl_destroy 0 (listen_on (1, 81) 4 [8] listening_net)) \<noteq> None"
proof -
  have "tn_step\<^sup>*\<^sup>* listening_net (listen_on (1, 81) 4 [8] listening_net)" by (rule listen_steps)
  then have "tn_step\<^sup>*\<^sup>* (tn_start 0 (rng_seed 1)) (tl_destroy 0 (listen_on (1, 81) 4 [8] listening_net))"
    using listening_steps by (meson rtranclp.rtrancl_into_rtrancl rtranclp_trans step_destroy)
  from tcp_pool_never_dangles [OF this, of os_good example_trdp "(1, 0)" True TL_success] show ?thesis by blast
qed

section \<open>A layer whose accept failed\<close>

text \<open>A layer that can no longer accept is still handed out: after an error of accepting the socket of
  the layer is closed, but the layer stays in the pool, and the next acceptor that listens at its
  endpoint is registered with it and told that all is well; no new socket is opened, whatever the
  operating system would answer, and no accept is started.\<close>
lemma dead_layer_is_shared:
  assumes "tn_step\<^sup>*\<^sup>* (tn_start now g) w" and "(e, i) \<in> set (tn_pool w)"
    and "tn_layer i w = Some l" and "tl_status l = TL_STARTED" and "fst e \<noteq> 0" and "snd e \<noteq> 0"
    and "map_of (tl_acceptors l) name = None" and "ec \<noteq> TL_success"
    and "w1 = tl_handle_accept mem ec f i w"
  shows "\<exists>w2. tl_create_acceptor_token os mem' e acc name (tl_real_time l) TL_success w1
        = Some (TL_success, Some \<lparr>at_shared_layer = i, at_domain = name, at_acceptor = acc\<rparr>, w2)
    \<and> map_option tl_open (tn_layer i w2) = Some False
    \<and> map_option (tl_find_acceptor name) (tn_layer i w2) = Some (Some acc)
    \<and> length (tn_layers w2) = length (tn_layers w) \<and> tn_flows w2 = tn_flows w
    \<and> map_option tl_outs (tn_layer i w2) = Some (tl_outs l @ [Tl_cancel, Tl_close])"
proof -
  have "distinct (map fst (tn_pool w))"
    using reachable_ok [OF assms(1)] ok_distinct by blast
  then have "map_of (tn_pool w1) e = Some i"
    using assms(2-4,8) by (simp add: assms(9) tl_handle_accept_def)
  moreover have l1: "tn_layer i w1 = Some ((tl_emit Tl_close (tl_emit Tl_cancel l))\<lparr>tl_open := False\<rparr>)"
    "tn_flows w1 = tn_flows w" "length (tn_layers w1) = length (tn_layers w)"
    using assms(3,4,8) by (simp_all add: assms(9) tl_handle_accept_def) (simp add: tn_change_def)
  ultimately show ?thesis
    using assms(5-7)
    by (simp add: tl_create_acceptor_token_def tl_create_def tl_register_acceptor_def tl_find_acceptor_def)
      (simp add: tn_change_def tl_emit_def map_add_def)
qed

text \<open>Setting the linger option can throw. When that happens nothing tells the caller: with a fixed port
  the layer is null and is used all the same, and with an open port the closed layer of the attempt
  before is handed out as a success.\<close>

lemma last_attempt_throws:
  assumes "\<And>d. os_open (os 0 d) = TL_success \<and> os_throws (os 0 d)"
  shows "\<exists>g. tl_attempts os mem rtu e 1 ec obj w = (TL_success, obj, w\<lparr>tn_rng := g\<rparr>)"
proof (cases "snd e = 0")
  case True
  then show ?thesis using assms by (auto simp: tl_attempts.simps tl_construct_def case_prod_unfold Let_def)
next
  case False
  then have "tl_attempts os mem rtu e 1 ec obj w = (TL_success, obj, w\<lparr>tn_rng := tn_rng w\<rparr>)"
    using assms by (simp add: tl_attempts.simps tl_construct_def Let_def)
  then show ?thesis by blast
qed

lemma throwing_constructor_is_null:
  assumes "\<And>d. os_open (os 0 d) = TL_success \<and> os_throws (os 0 d)"
    and "fst e \<noteq> 0" and "snd e \<noteq> 0" and "map_of (tn_pool w) e = None"
  shows "tl_create_acceptor_token os mem e acc name rtu ec w = None"
  using last_attempt_throws [of os mem rtu e TL_success None w, OF assms(1)] assms(2-4)
  by (auto simp: tl_create_acceptor_token_def tl_create_def)

end
