(* ===== verification/Rdp_Acceptors.thy ===== *)
theory Rdp_Acceptors
  imports Tcp_Layer "HOL-Library.Sublist" "HOL-Library.Multiset"
begin

text \<open>\<open>rdp/trdp_acceptor.hpp\<close> and \<open>rdp/urdp_acceptor.hpp\<close>: the acceptors user code holds. The shared
  layer gives an acceptor the flows that asked for its domain; they are kept in a queue and handed
  to the owner as connections while accepting is not blocked.

  A flow is known by its address; what a flow or a layer says of itself (\<open>is_open\<close>,
  \<open>is_connected\<close>) is an argument. \<open>user\<close> is what the owner does to the acceptor when it is told of a
  connection. What the acceptor does to others is an effect; a connection that is let go closes its
  flow, as its destructor does. A handler that is posted or dispatched is a step of its own: nothing
  follows the dispatch in the code.\<close>

section \<open>The TRDP acceptor\<close>

datatype acc_state = AC_CLOSED | AC_LISTENING

datatype acc_error = AE_ok | AE_bad_descriptor | AE_already_started | AE_not_socket | AE_layer tl_error

datatype acc_effect =
    Hand_up nat
  | Hand_error acc_error
  | Keep_receiving nat
  | Close_flow nat
  | Let_go nat
  | Post_accept
  | Reset_token acceptor_token

record trdp_acceptor =
  ta_keep :: bool
  ta_state :: acc_state
  ta_token :: "acceptor_token option"
  ta_domain :: bytes
  ta_pending :: "nat list"
  ta_slot :: bool
  ta_outs :: "acc_effect list"

definition ta_emit :: "acc_effect list \<Rightarrow> trdp_acceptor \<Rightarrow> trdp_acceptor" where
  "ta_emit es a = a\<lparr>ta_outs := ta_outs a @ es\<rparr>"

definition ta_new :: trdp_acceptor where
  "ta_new = \<lparr>ta_keep = True, ta_state = AC_CLOSED, ta_token = None, ta_domain = bytes_of_string INVALID_DOMAIN,
     ta_pending = [], ta_slot = False, ta_outs = []\<rparr>"

text \<open>\<open>answer\<close> is what \<open>create_acceptor_token\<close> returns.\<close>
definition ta_listen :: "bytes \<Rightarrow> tl_error \<times> acceptor_token option \<Rightarrow> trdp_acceptor \<Rightarrow> acc_error \<times> trdp_acceptor" where
  "ta_listen name answer a =
     (if ta_state a = AC_LISTENING then (AE_already_started, a)
      else if fst answer \<noteq> TL_success
      then (AE_layer (fst answer),
            (ta_emit (case snd answer of None \<Rightarrow> [] | Some t \<Rightarrow> [Reset_token t]) a)
              \<lparr>ta_token := None, ta_domain := bytes_of_string INVALID_DOMAIN\<rparr>)
      else (AE_ok, a\<lparr>ta_token := snd answer, ta_domain := name, ta_state := AC_LISTENING\<rparr>))"

definition ta_keep_async_accepting :: "trdp_acceptor \<Rightarrow> trdp_acceptor" where
  "ta_keep_async_accepting a = (ta_emit [Post_accept] a)\<lparr>ta_keep := True\<rparr>"

definition ta_block_async_accepting :: "trdp_acceptor \<Rightarrow> trdp_acceptor" where
  "ta_block_async_accepting a = a\<lparr>ta_keep := False\<rparr>"

text \<open>The connections of all pending flows are made and closed.\<close>
definition ta_close_pending :: "trdp_acceptor \<Rightarrow> trdp_acceptor" where
  "ta_close_pending a = (ta_emit (map Close_flow (ta_pending a)) a)\<lparr>ta_pending := []\<rparr>"

definition ta_close :: "trdp_acceptor \<Rightarrow> acc_error \<times> trdp_acceptor" where
  "ta_close a =
     (if ta_state a = AC_LISTENING
      then let a1 = (case ta_token a of
                       None \<Rightarrow> a
                     | Some t \<Rightarrow> (ta_emit [Reset_token t] a)\<lparr>ta_token := None, ta_domain := bytes_of_string INVALID_DOMAIN\<rparr>)
           in (AE_ok, (ta_close_pending a1)\<lparr>ta_state := AC_CLOSED\<rparr>)
      else (AE_not_socket, a))"

text \<open>\<open>__on_accepted\<close> with an error.\<close>
definition ta_on_error :: "(trdp_acceptor \<Rightarrow> trdp_acceptor) \<Rightarrow> acc_error \<Rightarrow> trdp_acceptor \<Rightarrow> trdp_acceptor" where
  "ta_on_error user ec a =
     (if \<not> ta_keep a \<or> ta_state a = AC_CLOSED then a
      else user (ta_emit [Hand_error ec] (ta_close_pending a)))"

text \<open>\<open>do_async_accept\<close> and the rest of \<open>__on_accepted\<close>, which call each other once for every pending
  flow. The fuel is one more than there are flows.\<close>
fun ta_accept_loop :: "(trdp_acceptor \<Rightarrow> trdp_acceptor) \<Rightarrow> (nat \<Rightarrow> bool) \<Rightarrow> bool \<Rightarrow> nat \<Rightarrow> trdp_acceptor \<Rightarrow> trdp_acceptor" where
  "ta_accept_loop user opened layer_open 0 a = a"
| "ta_accept_loop user opened layer_open (Suc n) a =
     (if ta_state a = AC_CLOSED \<or> \<not> ta_keep a \<or> \<not> ta_slot a then a
      else if ta_token a = None \<or> \<not> layer_open then ta_on_error user AE_bad_descriptor a
      else
        case ta_pending a of
          [] \<Rightarrow> a
        | f # rest \<Rightarrow>
            let a1 = a\<lparr>ta_pending := rest\<rparr>;
                a2 = (if opened f then user (ta_emit [Keep_receiving f, Hand_up f] a1) else ta_emit [Close_flow f] a1)
            in if ta_pending a2 \<noteq> [] then ta_accept_loop user opened layer_open n a2 else a2)"

definition ta_do_async_accept :: "(trdp_acceptor \<Rightarrow> trdp_acceptor) \<Rightarrow> (nat \<Rightarrow> bool) \<Rightarrow> bool \<Rightarrow> trdp_acceptor \<Rightarrow> trdp_acceptor" where
  "ta_do_async_accept user opened layer_open a = ta_accept_loop user opened layer_open (Suc (length (ta_pending a))) a"

definition ta_accept_flow :: "(trdp_acceptor \<Rightarrow> trdp_acceptor) \<Rightarrow> (nat \<Rightarrow> bool) \<Rightarrow> bool \<Rightarrow> nat \<Rightarrow> trdp_acceptor \<Rightarrow> trdp_acceptor" where
  "ta_accept_flow user opened layer_open f a =
     (let a1 = a\<lparr>ta_pending := ta_pending a @ [f]\<rparr> in
      if length (ta_pending a1) < 8 then ta_do_async_accept user opened layer_open a1
      else (ta_emit [Close_flow (hd (ta_pending a1))] a1)\<lparr>ta_pending := tl (ta_pending a1)\<rparr>)"

section \<open>The URDP acceptor\<close>

record urdp_acceptor =
  ua_keep :: bool
  ua_state :: acc_state
  ua_token :: bool
  ua_domain :: bytes
  ua_pending :: "nat list"
  ua_slot :: bool
  ua_posted :: "acc_error list"
  ua_outs :: "acc_effect list"

definition ua_emit :: "acc_effect list \<Rightarrow> urdp_acceptor \<Rightarrow> urdp_acceptor" where
  "ua_emit es a = a\<lparr>ua_outs := ua_outs a @ es\<rparr>"

definition ua_new :: urdp_acceptor where
  "ua_new = \<lparr>ua_keep = False, ua_state = AC_CLOSED, ua_token = False, ua_domain = bytes_of_string DEFAULT_DOMAIN,
     ua_pending = [], ua_slot = False, ua_posted = [], ua_outs = []\<rparr>"

definition ua_listen :: "bytes \<Rightarrow> tl_error \<Rightarrow> urdp_acceptor \<Rightarrow> acc_error \<times> urdp_acceptor" where
  "ua_listen name answer a =
     (if ua_state a = AC_LISTENING then (AE_already_started, a)
      else if answer \<noteq> TL_success
      then (AE_layer answer, a\<lparr>ua_token := False, ua_domain := bytes_of_string INVALID_DOMAIN\<rparr>)
      else (AE_ok, a\<lparr>ua_token := True, ua_domain := name, ua_state := AC_LISTENING\<rparr>))"

definition ua_do_async_accept :: "urdp_acceptor \<Rightarrow> urdp_acceptor" where
  "ua_do_async_accept a =
     (if \<not> ua_slot a \<or> \<not> ua_keep a then a
      else if \<not> ua_token a then a\<lparr>ua_posted := ua_posted a @ [AE_bad_descriptor]\<rparr>
      else if ua_pending a \<noteq> [] then a\<lparr>ua_posted := ua_posted a @ [AE_ok]\<rparr>
      else a)"

definition ua_keep_async_accepting :: "urdp_acceptor \<Rightarrow> urdp_acceptor" where
  "ua_keep_async_accepting a = ua_do_async_accept (a\<lparr>ua_keep := True\<rparr>)"

definition ua_block_async_accepting :: "urdp_acceptor \<Rightarrow> urdp_acceptor" where
  "ua_block_async_accepting a = a\<lparr>ua_keep := False\<rparr>"

definition ua_close :: "urdp_acceptor \<Rightarrow> acc_error \<times> urdp_acceptor" where
  "ua_close a =
     (if ua_state a = AC_LISTENING
      then let a1 = (if ua_token a then a\<lparr>ua_token := False, ua_domain := bytes_of_string INVALID_DOMAIN\<rparr> else a)
           in (AE_ok, a1\<lparr>ua_state := AC_CLOSED\<rparr>)
      else (AE_not_socket, a))"

text \<open>The loop of \<open>__on_accepted\<close>: \<open>flow\<close> is the one that has been popped. When the loop ends the
  flow is let go.\<close>
fun ua_accept_loop :: "(urdp_acceptor \<Rightarrow> urdp_acceptor) \<Rightarrow> (nat \<Rightarrow> bool) \<Rightarrow> nat \<Rightarrow> urdp_acceptor \<Rightarrow> urdp_acceptor" where
  "ua_accept_loop user joined 0 a = a"
| "ua_accept_loop user joined (Suc n) a =
     (case ua_pending a of
        [] \<Rightarrow> a
      | flow # rest \<Rightarrow>
          let a1 = a\<lparr>ua_pending := rest\<rparr> in
          if ua_keep a1 \<and> ua_state a1 = AC_LISTENING \<and> ua_slot a1
          then ua_accept_loop user joined n
                 (if joined flow then user (ua_emit [Hand_up flow] a1) else ua_emit [Let_go flow] a1)
          else ua_emit [Let_go flow] a1)"

definition ua_on_accepted :: "(urdp_acceptor \<Rightarrow> urdp_acceptor) \<Rightarrow> (nat \<Rightarrow> bool) \<Rightarrow> acc_error \<Rightarrow> urdp_acceptor \<Rightarrow> urdp_acceptor" where
  "ua_on_accepted user joined ec a =
     (if \<not> ua_keep a then a
      else if ec \<noteq> AE_ok then user (ua_emit [Hand_error ec] a)
      else ua_do_async_accept (ua_accept_loop user joined (Suc (length (ua_pending a))) a))"

definition ua_accept_flow :: "(urdp_acceptor \<Rightarrow> urdp_acceptor) \<Rightarrow> (nat \<Rightarrow> bool) \<Rightarrow> nat \<Rightarrow> urdp_acceptor \<Rightarrow> urdp_acceptor" where
  "ua_accept_flow user joined f a =
     ua_on_accepted user joined AE_ok
       (if length (ua_pending a) < 128 then a\<lparr>ua_pending := ua_pending a @ [f]\<rparr> else ua_emit [Close_flow f] a)"

text \<open>A handler that was dispatched runs.\<close>
definition ua_run :: "(urdp_acceptor \<Rightarrow> urdp_acceptor) \<Rightarrow> (nat \<Rightarrow> bool) \<Rightarrow> urdp_acceptor \<Rightarrow> urdp_acceptor" where
  "ua_run user joined a =
     (case ua_posted a of [] \<Rightarrow> a | ec # rest \<Rightarrow> ua_on_accepted user joined ec (a\<lparr>ua_posted := rest\<rparr>))"

end
