(* ===== verification/Rdp_Accept_Flows.thy ===== *)
theory Rdp_Accept_Flows
  imports Rdp_Acceptors
begin

text \<open>What becomes of the flows an acceptor is given: of every flow there is one account, and the owner
  sees them in the order of their arrival. The interface \<open>flow_queue\<close> states what each step owes; both
  acceptors provide it, whatever the owner does when it is told of a connection. And a way the URDP
  acceptor loses flows.\<close>

section \<open>Accounts\<close>

record flow_account =
  fa_pending :: "nat list"
  fa_handed :: "nat list"
  fa_gone :: "nat list"

text \<open>From one account to a later one, with \<open>new\<close> arriving: nothing appears or vanishes, and what is
  handed up goes in order, before what is still pending.\<close>
definition goes_on :: "nat list \<Rightarrow> flow_account \<Rightarrow> flow_account \<Rightarrow> bool" where
  "goes_on new s t \<longleftrightarrow>
     (\<exists>h g. fa_handed t = fa_handed s @ h \<and> fa_gone t = fa_gone s @ g
        \<and> mset (fa_pending t) + mset h + mset g = mset (fa_pending s @ new)
        \<and> subseq (h @ fa_pending t) (fa_pending s @ new))"

lemma goes_on_same [simp]: "goes_on [] s s"
  by (simp add: goes_on_def)

lemma goes_on_trans:
  assumes "goes_on n1 s t" and "goes_on n2 t u"
  shows "goes_on (n1 @ n2) s u"
proof -
  obtain h1 g1 where 1: "fa_handed t = fa_handed s @ h1" "fa_gone t = fa_gone s @ g1"
      "mset (fa_pending t) + mset h1 + mset g1 = mset (fa_pending s @ n1)" "subseq (h1 @ fa_pending t) (fa_pending s @ n1)"
    using assms(1) by (auto simp: goes_on_def)
  obtain h2 g2 where 2: "fa_handed u = fa_handed t @ h2" "fa_gone u = fa_gone t @ g2"
      "mset (fa_pending u) + mset h2 + mset g2 = mset (fa_pending t @ n2)" "subseq (h2 @ fa_pending u) (fa_pending t @ n2)"
    using assms(2) by (auto simp: goes_on_def)
  have "subseq (h1 @ h2 @ fa_pending u) (h1 @ fa_pending t @ n2)"
    using list_emb_append_mono [OF subseq_order.order_refl [of h1] 2(4)] by simp
  moreover have "subseq ((h1 @ fa_pending t) @ n2) ((fa_pending s @ n1) @ n2)"
    using 1(4) by (simp only: subseq_append)
  ultimately have "subseq ((h1 @ h2) @ fa_pending u) (fa_pending s @ n1 @ n2)"
    using subseq_order.order_trans by (metis append.assoc)
  moreover have "mset (fa_pending u) + mset (h1 @ h2) + mset (g1 @ g2) = mset (fa_pending s @ n1 @ n2)"
    using 1(3) 2(3) by (simp add: ac_simps)
  ultimately show ?thesis
    unfolding goes_on_def using 1(1,2) 2(1,2) by (intro exI [of _ "h1 @ h2"] exI [of _ "g1 @ g2"]) simp
qed

lemma goes_on_shorter: "goes_on [] s t \<Longrightarrow> length (fa_pending t) \<le> length (fa_pending s)"
  by (auto simp: goes_on_def dest!: list_emb_length)

locale flow_queue =
  fixes view :: "'s \<Rightarrow> flow_account"
    and step :: "'e \<Rightarrow> 's \<Rightarrow> 's"
    and new :: "'e \<Rightarrow> nat list"
    and limit :: nat
  assumes account: "goes_on (new e) (view s) (view (step e s))"
    and bounded: "length (fa_pending (view s)) \<le> limit \<Longrightarrow> length (fa_pending (view (step e s))) \<le> limit"
begin

lemma run_account: "goes_on (concat (map new es)) (view s) (view (fold step es s))"
proof (induction es arbitrary: s)
  case (Cons e es)
  then show ?case using goes_on_trans [OF account] by simp
qed simp

lemma run_bounded:
  "length (fa_pending (view s)) \<le> limit \<Longrightarrow> length (fa_pending (view (fold step es s))) \<le> limit"
  by (induction es arbitrary: s) (simp_all add: bounded)

text \<open>From a start at which there is no flow.\<close>
lemma all_accounted:
  assumes "view s = \<lparr>fa_pending = [], fa_handed = [], fa_gone = []\<rparr>"
    and "t = view (fold step es s)"
  shows "mset (fa_pending t) + mset (fa_handed t) + mset (fa_gone t) = mset (concat (map new es))
    \<and> subseq (fa_handed t @ fa_pending t) (concat (map new es)) \<and> length (fa_pending t) \<le> limit"
  using run_account [of es s] run_bounded [of s es] assms(1) by (auto simp: goes_on_def assms(2))

end

definition handed_flows :: "acc_effect list \<Rightarrow> nat list" where
  "handed_flows es = concat (map (\<lambda>e. case e of Hand_up f \<Rightarrow> [f] | _ \<Rightarrow> []) es)"

definition gone_flows :: "acc_effect list \<Rightarrow> nat list" where
  "gone_flows es = concat (map (\<lambda>e. case e of Close_flow f \<Rightarrow> [f] | Let_go f \<Rightarrow> [f] | _ \<Rightarrow> []) es)"

lemma flows_of_outs [simp]:
  "handed_flows [] = []" "gone_flows [] = []"
  "handed_flows (e # es) = (case e of Hand_up f \<Rightarrow> [f] | _ \<Rightarrow> []) @ handed_flows es"
  "gone_flows (e # es) = (case e of Close_flow f \<Rightarrow> [f] | Let_go f \<Rightarrow> [f] | _ \<Rightarrow> []) @ gone_flows es"
  "handed_flows (es @ es') = handed_flows es @ handed_flows es'"
  "gone_flows (es @ es') = gone_flows es @ gone_flows es'"
  "handed_flows (map Close_flow fs) = []" "gone_flows (map Close_flow fs) = fs"
  by (simp_all add: handed_flows_def gone_flows_def comp_def)

section \<open>The owner and the events\<close>

text \<open>What the owner calls, and what happens to an acceptor. The owner may look at the acceptor before
  it decides what to do in a callback.\<close>
datatype owner_op =
    Own_keep
  | Own_block
  | Own_close
  | Own_listen bytes "tl_error \<times> acceptor_token option"
  | Own_slot bool

datatype 's acc_event =
    Flow_arrives "'s \<Rightarrow> owner_op list" "nat \<Rightarrow> bool" bool nat
  | Handler_runs "'s \<Rightarrow> owner_op list" "nat \<Rightarrow> bool" bool
  | Owner_calls owner_op

fun arrivals :: "'s acc_event \<Rightarrow> nat list" where
  "arrivals (Flow_arrives script p b f) = [f]"
| "arrivals _ = []"

section \<open>The TRDP acceptor\<close>

fun ta_owner :: "owner_op \<Rightarrow> trdp_acceptor \<Rightarrow> trdp_acceptor" where
  "ta_owner Own_keep a = ta_keep_async_accepting a"
| "ta_owner Own_block a = ta_block_async_accepting a"
| "ta_owner Own_close a = snd (ta_close a)"
| "ta_owner (Own_listen name answer) a = snd (ta_listen name answer a)"
| "ta_owner (Own_slot b) a = a\<lparr>ta_slot := b\<rparr>"

definition ta_user :: "(trdp_acceptor \<Rightarrow> owner_op list) \<Rightarrow> trdp_acceptor \<Rightarrow> trdp_acceptor" where
  "ta_user script a = fold ta_owner (script a) a"

fun ta_step :: "trdp_acceptor acc_event \<Rightarrow> trdp_acceptor \<Rightarrow> trdp_acceptor" where
  "ta_step (Flow_arrives script opened layer_open f) a = ta_accept_flow (ta_user script) opened layer_open f a"
| "ta_step (Handler_runs script opened layer_open) a = ta_do_async_accept (ta_user script) opened layer_open a"
| "ta_step (Owner_calls c) a = ta_owner c a"

definition ta_view :: "trdp_acceptor \<Rightarrow> flow_account" where
  "ta_view a = \<lparr>fa_pending = ta_pending a, fa_handed = handed_flows (ta_outs a), fa_gone = gone_flows (ta_outs a)\<rparr>"

lemma ta_view_emit: "handed_flows es = [] \<Longrightarrow> gone_flows es = [] \<Longrightarrow> ta_view (ta_emit es a) = ta_view a"
  by (simp add: ta_view_def ta_emit_def)

lemma ta_view_updates [simp]:
  "ta_view (a\<lparr>ta_keep := b\<rparr>) = ta_view a" "ta_view (a\<lparr>ta_state := s\<rparr>) = ta_view a"
  "ta_view (a\<lparr>ta_token := t\<rparr>) = ta_view a" "ta_view (a\<lparr>ta_domain := d\<rparr>) = ta_view a"
  "ta_view (a\<lparr>ta_slot := b\<rparr>) = ta_view a"
  by (simp_all add: ta_view_def)

lemma ta_close_pending_account: "goes_on [] (ta_view a) (ta_view (ta_close_pending a))"
  by (simp add: goes_on_def ta_view_def ta_close_pending_def ta_emit_def)

lemma ta_owner_account: "goes_on [] (ta_view a) (ta_view (ta_owner c a))"
proof (cases c)
  case Own_close
  then show ?thesis
    using ta_close_pending_account [of a]
      ta_close_pending_account [of "(ta_emit [Reset_token (the (ta_token a))] a)\<lparr>ta_token := None,
        ta_domain := bytes_of_string INVALID_DOMAIN\<rparr>"]
    by (auto simp: ta_close_def Let_def ta_view_emit split: option.split)
qed (auto simp: ta_keep_async_accepting_def ta_block_async_accepting_def ta_listen_def ta_view_emit split: option.split)

lemma ta_user_account: "goes_on [] (ta_view a) (ta_view (ta_user script a))"
proof -
  have "goes_on [] (ta_view a) (ta_view (fold ta_owner cs a))" for cs
  proof (induction cs arbitrary: a)
    case (Cons c cs)
    then show ?case using goes_on_trans [OF ta_owner_account, of "[]"] by fastforce
  qed simp
  then show ?thesis by (simp add: ta_user_def)
qed

lemma ta_on_error_account: "goes_on [] (ta_view a) (ta_view (ta_on_error (ta_user script) ec a))"
proof -
  have "goes_on [] (ta_view (ta_close_pending a)) (ta_view (ta_user script (ta_emit [Hand_error ec] (ta_close_pending a))))"
    using ta_user_account [of "ta_emit [Hand_error ec] (ta_close_pending a)" script] by (simp add: ta_view_emit)
  from goes_on_trans [OF ta_close_pending_account this] show ?thesis by (simp add: ta_on_error_def)
qed

lemma ta_pop_account:
  assumes "ta_pending a = f # rest"
  shows "goes_on [] (ta_view a) (ta_view (ta_emit [Keep_receiving f, Hand_up f] (a\<lparr>ta_pending := rest\<rparr>)))"
    and "goes_on [] (ta_view a) (ta_view (ta_emit [Close_flow f] (a\<lparr>ta_pending := rest\<rparr>)))"
  using assms list_emb_Cons [of "(=)" rest rest f] by (simp_all add: goes_on_def ta_view_def ta_emit_def)

lemma ta_loop_account: "goes_on [] (ta_view a) (ta_view (ta_accept_loop (ta_user script) opened layer_open n a))"
proof (induction n arbitrary: a)
  case (Suc n)
  show ?case
  proof (cases "ta_pending a")
    case Nil
    then show ?thesis using ta_on_error_account by simp
  next
    case (Cons f rest)
    let ?a1 = "a\<lparr>ta_pending := rest\<rparr>"
    define a2 where "a2 = (if opened f then ta_user script (ta_emit [Keep_receiving f, Hand_up f] ?a1)
      else ta_emit [Close_flow f] ?a1)"
    have a2: "goes_on [] (ta_view a) (ta_view a2)"
      using ta_pop_account [OF Cons] goes_on_trans [OF ta_pop_account(1) [OF Cons] ta_user_account] by (simp add: a2_def)
    have "ta_accept_loop (ta_user script) opened layer_open (Suc n) a
      = (if ta_state a = AC_CLOSED \<or> \<not> ta_keep a \<or> \<not> ta_slot a then a
         else if ta_token a = None \<or> \<not> layer_open then ta_on_error (ta_user script) AE_bad_descriptor a
         else if ta_pending a2 \<noteq> [] then ta_accept_loop (ta_user script) opened layer_open n a2 else a2)"
      unfolding a2_def using Cons by (simp add: Let_def)
    then show ?thesis
      using a2 goes_on_trans [OF a2 Suc] ta_on_error_account by (auto simp del: ta_accept_loop.simps)
  qed
qed simp

lemma ta_user_shorter: "length (ta_pending (ta_user script a)) \<le> length (ta_pending a)"
  using goes_on_shorter [OF ta_user_account [of a script]] by (simp add: ta_view_def)

text \<open>The fuel is enough: when the loop ends and the acceptor could go on, nobody is waiting.\<close>
lemma ta_loop_ends:
  assumes "length (ta_pending a) < n" and "a' = ta_accept_loop (ta_user script) opened True n a"
    and "ta_state a' = AC_LISTENING" and "ta_keep a'" and "ta_slot a'" and "ta_token a' \<noteq> None"
  shows "ta_pending a' = []"
  using assms
proof (induction n arbitrary: a)
  case (Suc n)
  have err: "ta_pending (ta_user script (ta_emit es (ta_close_pending b))) = []" for es b
    using ta_user_shorter [of script "ta_emit es (ta_close_pending b)"] by (simp add: ta_close_pending_def ta_emit_def)
  show ?case
  proof (cases "ta_state a = AC_CLOSED \<or> \<not> ta_keep a \<or> \<not> ta_slot a \<or> ta_token a = None \<or> ta_pending a = []")
    case True
    then show ?thesis using Suc.prems err by (cases "ta_pending a") (auto simp: ta_on_error_def split: if_splits)
  next
    case False
    then obtain f rest where p: "ta_pending a = f # rest" by (cases "ta_pending a") auto
    define a2 where "a2 = (if opened f then ta_user script (ta_emit [Keep_receiving f, Hand_up f] (a\<lparr>ta_pending := rest\<rparr>))
      else ta_emit [Close_flow f] (a\<lparr>ta_pending := rest\<rparr>))"
    have "length (ta_pending a2) < n"
      using ta_user_shorter [of script "ta_emit [Keep_receiving f, Hand_up f] (a\<lparr>ta_pending := rest\<rparr>)"] Suc.prems(1) p
      by (auto simp: a2_def ta_emit_def)
    moreover have "a' = (if ta_pending a2 \<noteq> [] then ta_accept_loop (ta_user script) opened True n a2 else a2)"
      unfolding a2_def using Suc.prems(2) False p by (auto simp: Let_def)
    ultimately show ?thesis using Suc.IH [of a2] Suc.prems(3-6) by (auto split: if_splits)
  qed
qed simp

declare ta_accept_loop.simps [simp del]

lemma ta_step_account: "goes_on (arrivals e) (ta_view a) (ta_view (ta_step e a))"
proof (cases e)
  case (Flow_arrives script opened layer_open f)
  let ?a1 = "a\<lparr>ta_pending := ta_pending a @ [f]\<rparr>"
  have push: "goes_on [f] (ta_view a) (ta_view ?a1)" by (simp add: goes_on_def ta_view_def)
  have "goes_on [] (ta_view ?a1) (ta_view (ta_accept_flow (ta_user script) opened layer_open f a))"
  proof (cases "ta_pending ?a1")
    case (Cons x xs)
    then show ?thesis
      using ta_loop_account ta_pop_account(2) [OF Cons]
      by (simp add: ta_accept_flow_def ta_do_async_accept_def Let_def)
        (simp add: ta_view_def ta_emit_def)
  qed simp
  then show ?thesis using goes_on_trans [OF push] Flow_arrives by fastforce
qed (simp_all add: ta_do_async_accept_def ta_loop_account ta_owner_account)

lemma ta_step_bounded:
  assumes "length (fa_pending (ta_view a)) \<le> 7"
  shows "length (fa_pending (ta_view (ta_step e a))) \<le> 7"
proof (cases e)
  case (Flow_arrives script opened layer_open f)
  let ?a1 = "a\<lparr>ta_pending := ta_pending a @ [f]\<rparr>"
  have "length (fa_pending (ta_view (ta_do_async_accept (ta_user script) opened layer_open ?a1))) \<le> length (fa_pending (ta_view ?a1))"
    unfolding ta_do_async_accept_def by (rule goes_on_shorter [OF ta_loop_account])
  then show ?thesis
    using assms Flow_arrives by (simp add: ta_accept_flow_def Let_def) (simp add: ta_view_def ta_emit_def)
next
  case (Handler_runs script opened layer_open)
  then show ?thesis using assms goes_on_shorter [of "ta_view a"] ta_step_account [of e a] by fastforce
next
  case (Owner_calls c)
  then show ?thesis using assms goes_on_shorter [of "ta_view a"] ta_step_account [of e a] by fastforce
qed

interpretation trdp_queue: flow_queue ta_view ta_step arrivals 7
  by unfold_locales (rule ta_step_account, rule ta_step_bounded)

text \<open>C14: A TRDP acceptor accounts for every flow: whatever happens in whatever order (flows arrive, handlers
  run, the owner listens, blocks, goes on or closes, on its own or when it is told of a connection),
  each flow that arrived is pending, has been handed to the owner, or has been closed, exactly one of
  these; the owner gets them in the order of their arrival, and never more than seven wait.\<close>
theorem trdp_flows_accounted:
  "let a = fold ta_step events ta_new in
     mset (ta_pending a) + mset (handed_flows (ta_outs a)) + mset (gone_flows (ta_outs a))
       = mset (concat (map arrivals events))
   \<and> subseq (handed_flows (ta_outs a) @ ta_pending a) (concat (map arrivals events))
   \<and> length (ta_pending a) \<le> 7"
proof -
  have "ta_view ta_new = \<lparr>fa_pending = [], fa_handed = [], fa_gone = []\<rparr>"
    by (simp add: ta_view_def ta_new_def)
  from trdp_queue.all_accounted [OF this refl, of events] show ?thesis
    by (simp add: ta_view_def Let_def)
qed

section \<open>The URDP acceptor\<close>

fun ua_owner :: "owner_op \<Rightarrow> urdp_acceptor \<Rightarrow> urdp_acceptor" where
  "ua_owner Own_keep a = ua_keep_async_accepting a"
| "ua_owner Own_block a = ua_block_async_accepting a"
| "ua_owner Own_close a = snd (ua_close a)"
| "ua_owner (Own_listen name answer) a = snd (ua_listen name (fst answer) a)"
| "ua_owner (Own_slot b) a = a\<lparr>ua_slot := b\<rparr>"

definition ua_user :: "(urdp_acceptor \<Rightarrow> owner_op list) \<Rightarrow> urdp_acceptor \<Rightarrow> urdp_acceptor" where
  "ua_user script a = fold ua_owner (script a) a"

fun ua_step :: "urdp_acceptor acc_event \<Rightarrow> urdp_acceptor \<Rightarrow> urdp_acceptor" where
  "ua_step (Flow_arrives script joined _ f) a = ua_accept_flow (ua_user script) joined f a"
| "ua_step (Handler_runs script joined _) a = ua_run (ua_user script) joined a"
| "ua_step (Owner_calls c) a = ua_owner c a"

definition ua_view :: "urdp_acceptor \<Rightarrow> flow_account" where
  "ua_view a = \<lparr>fa_pending = ua_pending a, fa_handed = handed_flows (ua_outs a), fa_gone = gone_flows (ua_outs a)\<rparr>"

lemma ua_view_updates [simp]:
  "ua_view (a\<lparr>ua_keep := b\<rparr>) = ua_view a" "ua_view (a\<lparr>ua_state := s\<rparr>) = ua_view a"
  "ua_view (a\<lparr>ua_token := t\<rparr>) = ua_view a" "ua_view (a\<lparr>ua_domain := d\<rparr>) = ua_view a"
  "ua_view (a\<lparr>ua_slot := b\<rparr>) = ua_view a" "ua_view (a\<lparr>ua_posted := p\<rparr>) = ua_view a"
  by (simp_all add: ua_view_def)

lemma ua_view_error [simp]: "ua_view (ua_emit [Hand_error ec] a) = ua_view a"
  by (simp add: ua_view_def ua_emit_def)

lemma ua_view_do_async [simp]: "ua_view (ua_do_async_accept a) = ua_view a"
  by (simp add: ua_do_async_accept_def)

lemma ua_view_owner [simp]: "ua_view (ua_owner c a) = ua_view a"
  by (cases c) (simp_all add: ua_keep_async_accepting_def ua_block_async_accepting_def ua_close_def ua_listen_def)

lemma ua_view_user [simp]: "ua_view (ua_user script a) = ua_view a"
proof -
  have "ua_view (fold ua_owner cs a) = ua_view a" for cs by (induction cs arbitrary: a) simp_all
  then show ?thesis by (simp add: ua_user_def)
qed

lemma ua_pop_account:
  assumes "ua_pending a = f # rest"
  shows "goes_on [] (ua_view a) (ua_view (ua_emit [Hand_up f] (a\<lparr>ua_pending := rest\<rparr>)))"
    and "goes_on [] (ua_view a) (ua_view (ua_emit [Let_go f] (a\<lparr>ua_pending := rest\<rparr>)))"
  using assms list_emb_Cons [of "(=)" rest rest f] by (simp_all add: goes_on_def ua_view_def ua_emit_def)

lemma ua_loop_account: "goes_on [] (ua_view a) (ua_view (ua_accept_loop (ua_user script) joined n a))"
proof (induction n arbitrary: a)
  case (Suc n)
  show ?case
  proof (cases "ua_pending a")
    case (Cons f rest)
    let ?a1 = "a\<lparr>ua_pending := rest\<rparr>"
    define a2 where "a2 = (if joined f then ua_user script (ua_emit [Hand_up f] ?a1) else ua_emit [Let_go f] ?a1)"
    have a2: "goes_on [] (ua_view a) (ua_view a2)"
      using ua_pop_account [OF Cons] by (simp add: a2_def)
    have "ua_accept_loop (ua_user script) joined (Suc n) a
      = (if ua_keep a \<and> ua_state a = AC_LISTENING \<and> ua_slot a
         then ua_accept_loop (ua_user script) joined n a2 else ua_emit [Let_go f] ?a1)"
      unfolding a2_def using Cons by (simp add: Let_def)
    then show ?thesis
      using ua_pop_account(2) [OF Cons] goes_on_trans [OF a2 Suc] by (auto simp del: ua_accept_loop.simps)
  qed simp
qed simp

lemma ua_loop_ends:
  assumes "length (ua_pending a) < n" and "a' = ua_accept_loop (ua_user script) joined n a"
    and "ua_state a' = AC_LISTENING" and "ua_keep a'" and "ua_slot a'"
  shows "ua_pending a' = []"
  using assms
proof (induction n arbitrary: a)
  case (Suc n)
  show ?case
  proof (cases "ua_pending a")
    case Nil
    then show ?thesis using Suc.prems by simp
  next
    case (Cons f rest)
    define a2 where "a2 = (if joined f then ua_user script (ua_emit [Hand_up f] (a\<lparr>ua_pending := rest\<rparr>))
      else ua_emit [Let_go f] (a\<lparr>ua_pending := rest\<rparr>))"
    have "ua_pending (ua_user script b) = ua_pending b" for b
      using ua_view_user [of script b] by (simp add: ua_view_def)
    then have "length (ua_pending a2) < n" using Suc.prems(1) Cons by (simp add: a2_def ua_emit_def)
    moreover have "a' = (if ua_keep a \<and> ua_state a = AC_LISTENING \<and> ua_slot a
        then ua_accept_loop (ua_user script) joined n a2 else ua_emit [Let_go f] (a\<lparr>ua_pending := rest\<rparr>))"
      unfolding a2_def using Suc.prems(2) Cons by (simp add: Let_def)
    ultimately show ?thesis using Suc.IH [of a2] Suc.prems(3-5) by (auto simp: ua_emit_def split: if_splits)
  qed
qed simp

lemma ua_on_accepted_account: "goes_on [] (ua_view a) (ua_view (ua_on_accepted (ua_user script) joined ec a))"
  using ua_loop_account by (simp add: ua_on_accepted_def del: ua_accept_loop.simps)

lemma ua_step_account: "goes_on (arrivals e) (ua_view a) (ua_view (ua_step e a))"
proof (cases e)
  case (Flow_arrives script joined b f)
  let ?a1 = "if length (ua_pending a) < 128 then a\<lparr>ua_pending := ua_pending a @ [f]\<rparr> else ua_emit [Close_flow f] a"
  have push: "goes_on [f] (ua_view a) (ua_view ?a1)"
    using list_emb_append2 [of "(=)" "ua_pending a" "ua_pending a" "[f]"]
    by (auto simp: goes_on_def ua_view_def ua_emit_def)
  show ?thesis
    using goes_on_trans [OF push ua_on_accepted_account] Flow_arrives by (simp add: ua_accept_flow_def)
next
  case (Handler_runs script joined b)
  then show ?thesis
    using ua_on_accepted_account [of "a\<lparr>ua_posted := tl (ua_posted a)\<rparr>"]
    by (cases "ua_posted a") (simp_all add: ua_run_def)
qed simp

lemma ua_step_bounded:
  assumes "length (fa_pending (ua_view a)) \<le> 128"
  shows "length (fa_pending (ua_view (ua_step e a))) \<le> 128"
proof (cases e)
  case (Flow_arrives script joined b f)
  let ?a1 = "if length (ua_pending a) < 128 then a\<lparr>ua_pending := ua_pending a @ [f]\<rparr> else ua_emit [Close_flow f] a"
  have "length (fa_pending (ua_view ?a1)) \<le> 128" using assms by (simp add: ua_view_def ua_emit_def)
  then show ?thesis
    using goes_on_shorter [OF ua_on_accepted_account [where a = ?a1 and script = script and joined = joined
        and ec = AE_ok]] Flow_arrives
    by (simp add: ua_accept_flow_def del: if_split)
next
  case (Handler_runs script joined b)
  then show ?thesis using assms goes_on_shorter [of "ua_view a"] ua_step_account [of e a] by fastforce
next
  case (Owner_calls c)
  then show ?thesis using assms by simp
qed

interpretation urdp_queue: flow_queue ua_view ua_step arrivals 128
  by unfold_locales (rule ua_step_account, rule ua_step_bounded)

text \<open>A URDP acceptor accounts for every flow in the same way: each flow that arrived is pending, has
  been handed to the owner, or has been closed or let go; the owner gets them in the order of their
  arrival, and never more than 128 wait.\<close>
lemma urdp_flows_accounted:
  "let a = fold ua_step events ua_new in
     mset (ua_pending a) + mset (handed_flows (ua_outs a)) + mset (gone_flows (ua_outs a))
       = mset (concat (map arrivals events))
   \<and> subseq (handed_flows (ua_outs a) @ ua_pending a) (concat (map arrivals events))
   \<and> length (ua_pending a) \<le> 128"
proof -
  have "ua_view ua_new = \<lparr>fa_pending = [], fa_handed = [], fa_gone = []\<rparr>"
    by (simp add: ua_view_def ua_new_def)
  from urdp_queue.all_accounted [OF this refl, of events] show ?thesis
    by (simp add: ua_view_def Let_def)
qed

section \<open>Flows that are lost\<close>

text \<open>The owner goes on, and blocks again as soon as it has been told of a connection.\<close>
definition ua_round :: "urdp_acceptor \<Rightarrow> urdp_acceptor" where
  "ua_round a = ua_run ua_block_async_accepting (\<lambda>_. True) (ua_keep_async_accepting a)"

lemma round_loses:
  assumes "ua_state a = AC_LISTENING" and "ua_token a" and "ua_slot a" and "ua_posted a = []"
    and "ua_pending a = f # g # rest"
  shows "ua_round a = a\<lparr>ua_keep := False, ua_pending := rest, ua_outs := ua_outs a @ [Hand_up f, Let_go g]\<rparr>"
  using assms
  by (simp add: ua_round_def ua_run_def ua_keep_async_accepting_def ua_do_async_accept_def ua_on_accepted_def
      ua_emit_def ua_block_async_accepting_def)

text \<open>C39: A URDP acceptor loses flows when its owner takes them one at a time: when the owner blocks
  accepting while it is told of a connection, the next flow has already been taken from the queue and
  is let go. An owner that goes on and blocks in turn gets every other connection, and never hears of
  the rest, although all of them are connected.\<close>
theorem urdp_acceptor_loses_every_other:
  assumes "ua_state a = AC_LISTENING" and "ua_token a" and "ua_slot a" and "ua_posted a = []"
    and "length (ua_pending a) = 2 * n"
  shows "handed_flows (ua_outs ((ua_round ^^ n) a))
      = handed_flows (ua_outs a) @ map (\<lambda>i. ua_pending a ! (2 * i)) [0..<n]
    \<and> gone_flows (ua_outs ((ua_round ^^ n) a))
      = gone_flows (ua_outs a) @ map (\<lambda>i. ua_pending a ! (2 * i + 1)) [0..<n]
    \<and> ua_pending ((ua_round ^^ n) a) = []"
  using assms
proof (induction n arbitrary: a)
  case (Suc n)
  obtain f g rest where p: "ua_pending a = f # g # rest" "length rest = 2 * n"
    using Suc.prems(5) by (auto simp: length_Suc_conv)
  define b where "b = a\<lparr>ua_keep := False, ua_pending := rest, ua_outs := ua_outs a @ [Hand_up f, Let_go g]\<rparr>"
  have r: "ua_round a = b" unfolding b_def by (rule round_loses [OF Suc.prems(1-4) p(1)])
  have b: "ua_state b = AC_LISTENING" "ua_token b" "ua_slot b" "ua_posted b = []" "ua_pending b = rest"
      "handed_flows (ua_outs b) = handed_flows (ua_outs a) @ [f]" "gone_flows (ua_outs b) = gone_flows (ua_outs a) @ [g]"
    using Suc.prems(1-4) by (simp_all add: b_def)
  have m: "map (\<lambda>i. ua_pending a ! (2 * i + c)) [0..<Suc n]
      = ua_pending a ! c # map (\<lambda>i. rest ! (2 * i + c)) [0..<n]" for c
    using p(1) by (simp add: map_upt_Suc del: upt_Suc)
  show ?case
    unfolding funpow_Suc_right o_apply r
    using Suc.IH [of b] b p m [of 0] m [of 1] by (simp del: upt_Suc)
qed simp

theorem urdp_acceptor_loses_every_other_witness:
  "handed_flows (ua_outs ((ua_round ^^ 2)
     (fold ua_step [Owner_calls (Own_listen [7] (TL_success, None)), Owner_calls (Own_slot True),
        Flow_arrives (\<lambda>_. []) (\<lambda>_. True) True 1, Flow_arrives (\<lambda>_. []) (\<lambda>_. True) True 2,
        Flow_arrives (\<lambda>_. []) (\<lambda>_. True) True 3, Flow_arrives (\<lambda>_. []) (\<lambda>_. True) True 4] ua_new))) = [1, 3]"
proof -
  let ?a = "fold ua_step [Owner_calls (Own_listen [7] (TL_success, None)), Owner_calls (Own_slot True),
        Flow_arrives (\<lambda>_. []) (\<lambda>_. True) True 1, Flow_arrives (\<lambda>_. []) (\<lambda>_. True) True 2,
        Flow_arrives (\<lambda>_. []) (\<lambda>_. True) True 3, Flow_arrives (\<lambda>_. []) (\<lambda>_. True) True 4] ua_new"
  have a: "?a = \<lparr>ua_keep = False, ua_state = AC_LISTENING, ua_token = True, ua_domain = [7],
      ua_pending = [1, 2, 3, 4], ua_slot = True, ua_posted = [], ua_outs = []\<rparr>"
    by (simp add: ua_new_def ua_listen_def ua_accept_flow_def ua_on_accepted_def)
  show ?thesis
    unfolding a using urdp_acceptor_loses_every_other [of "\<lparr>ua_keep = False, ua_state = AC_LISTENING, ua_token = True,
      ua_domain = [7], ua_pending = [1, 2, 3, 4], ua_slot = True, ua_posted = [], ua_outs = []\<rparr>" 2]
    by (simp add: upt_rec)
qed

end
