(* ===== verification/Operation_Queue.thy ===== *)
theory Operation_Queue
  imports Prelude "HOL-Library.AList" "HOL-Library.Monad_Syntax" "HOL-Library.Multiset"
begin

text \<open>\<open>p2engine/operation_queue.hpp\<close>: operations that wait for a descriptor, kept in linked lists. The
  nodes of the lists are in a store from addresses to nodes; an operation on the queue reads and
  writes \<open>next_\<close> pointers as the code does. A result of \<open>None\<close> is the use of a null or dangling
  pointer, or a loop that does not end. The hash table is a list in the order of iteration.

  An operation the user queues is known by the address of its node. \<open>perf\<close> says what performing it
  does: whether it is done, and the result and the number of bytes it leaves. Upcalls and
  destructions are appended to \<open>oq_calls\<close>; they do not call the queue.\<close>

section \<open>State\<close>

type_synonym perf = "nat \<Rightarrow> nat \<Rightarrow> bool \<times> nat \<times> nat"

definition operation_aborted :: nat where "operation_aborted = 125"
definition fd_set_failure :: nat where "fd_set_failure = 3"

record op_base =
  ob_descriptor :: nat
  ob_result :: nat
  ob_bytes :: nat
  ob_next :: "nat option"

datatype op_call = Upcall nat nat nat | Destroyed nat

record op_queue =
  oq_heap :: "nat \<Rightarrow> op_base option"
  oq_fresh :: nat
  oq_operations :: "(nat \<times> nat option) list"
  oq_cancelled :: "nat option"
  oq_complete :: "nat option"
  oq_calls :: "op_call list"

definition operation_queue :: op_queue where
  "operation_queue = \<lparr>oq_heap = (\<lambda>_. None), oq_fresh = 0, oq_operations = [], oq_cancelled = None,
     oq_complete = None, oq_calls = []\<rparr>"

definition oq_set_next :: "nat \<Rightarrow> nat option \<Rightarrow> op_queue \<Rightarrow> op_queue option" where
  "oq_set_next x p q =
     do { n \<leftarrow> oq_heap q x; Some (q\<lparr>oq_heap := (oq_heap q)(x \<mapsto> n\<lparr>ob_next := p\<rparr>)\<rparr>) }"

definition oq_free :: "nat \<Rightarrow> op_queue \<Rightarrow> op_queue" where
  "oq_free x q = q\<lparr>oq_heap := (oq_heap q)(x := None)\<rparr>"

text \<open>\<open>op_base::perform\<close>.\<close>
definition oq_run :: "perf \<Rightarrow> nat \<Rightarrow> nat \<Rightarrow> op_queue \<Rightarrow> (bool \<times> op_queue) option" where
  "oq_run perf res x q =
     do { n \<leftarrow> oq_heap q x;
          let (don, r, b) = perf x res;
          Some (don, q\<lparr>oq_heap := (oq_heap q)(x \<mapsto> n\<lparr>ob_result := r, ob_bytes := b\<rparr>)\<rparr>) }"

section \<open>Queueing and cancelling\<close>

text \<open>The end of a list.\<close>
partial_function (option) oq_last :: "(nat \<Rightarrow> op_base option) \<Rightarrow> nat \<Rightarrow> nat option" where
  "oq_last h x =
     (case h x of
        None \<Rightarrow> None
      | Some n \<Rightarrow> (case ob_next n of None \<Rightarrow> Some x | Some y \<Rightarrow> oq_last h y))"

definition enqueue_operation :: "nat \<Rightarrow> op_queue \<Rightarrow> (bool \<times> op_queue) option" where
  "enqueue_operation d q =
     (let x = oq_fresh q;
          q1 = q\<lparr>oq_heap := (oq_heap q)(x \<mapsto> \<lparr>ob_descriptor = d, ob_result = 0, ob_bytes = 0, ob_next = None\<rparr>),
                 oq_fresh := x + 1\<rparr>
      in case map_of (oq_operations q1) d of
           None \<Rightarrow> Some (True, q1\<lparr>oq_operations := oq_operations q1 @ [(d, Some x)]\<rparr>)
         | Some None \<Rightarrow> None
         | Some (Some first) \<Rightarrow>
             do { last_op \<leftarrow> oq_last (oq_heap q1) first;
                  q2 \<leftarrow> oq_set_next last_op (Some x) q1;
                  Some (False, q2) })"

definition cancel_operations :: "nat \<Rightarrow> op_queue \<Rightarrow> (bool \<times> op_queue) option" where
  "cancel_operations d q =
     (case map_of (oq_operations q) d of
        None \<Rightarrow> Some (False, q)
      | Some None \<Rightarrow> None
      | Some (Some first) \<Rightarrow>
          do { last_op \<leftarrow> oq_last (oq_heap q) first;
               q1 \<leftarrow> oq_set_next last_op (oq_cancelled q) q;
               Some (True, q1\<lparr>oq_cancelled := Some first, oq_operations := AList.delete d (oq_operations q1)\<rparr>) })"

definition has_operation :: "nat \<Rightarrow> op_queue \<Rightarrow> bool" where
  "has_operation d q = (map_of (oq_operations q) d \<noteq> None)"

definition oq_empty :: "op_queue \<Rightarrow> bool" where
  "oq_empty q = (oq_operations q = [])"

section \<open>Performing\<close>

text \<open>The first operation of a descriptor is moved to the completed ones and performed; when it is not
  done it is put back. The same lines stand in three functions of the source.\<close>
definition oq_perform_front :: "perf \<Rightarrow> nat \<Rightarrow> nat \<Rightarrow> op_queue \<Rightarrow> (bool \<times> op_queue) option" where
  "oq_perform_front perf res d q =
     (case map_of (oq_operations q) d of
        Some (Some x) \<Rightarrow>
          do { n \<leftarrow> oq_heap q x;
               let q1 = q\<lparr>oq_operations := AList.update d (ob_next n) (oq_operations q)\<rparr>;
               q2 \<leftarrow> oq_set_next x (oq_complete q1) q1;
               (don, q3) \<leftarrow> oq_run perf res x (q2\<lparr>oq_complete := Some x\<rparr>);
               if don then Some (True, q3)
               else
                 do { m \<leftarrow> oq_heap q3 x;
                      q4 \<leftarrow> oq_set_next x (ob_next n) (q3\<lparr>oq_complete := ob_next m\<rparr>);
                      Some (False, q4\<lparr>oq_operations := AList.update d (Some x) (oq_operations q4)\<rparr>) } }
      | _ \<Rightarrow> None)"

definition oq_no_more :: "nat \<Rightarrow> op_queue \<Rightarrow> bool" where
  "oq_no_more d q = (map_of (oq_operations q) d = Some None)"

definition oq_erase :: "nat \<Rightarrow> op_queue \<Rightarrow> op_queue" where
  "oq_erase d q = q\<lparr>oq_operations := AList.delete d (oq_operations q)\<rparr>"

definition perform_operation :: "perf \<Rightarrow> nat \<Rightarrow> nat \<Rightarrow> op_queue \<Rightarrow> (bool \<times> op_queue) option" where
  "perform_operation perf res d q =
     (if has_operation d q
      then do { (don, q1) \<leftarrow> oq_perform_front perf res d q;
                Some (if don \<and> oq_no_more d q1 then (False, oq_erase d q1) else (True, q1)) }
      else Some (False, q))"

partial_function (option) perform_all_loop :: "perf \<Rightarrow> nat \<Rightarrow> nat \<Rightarrow> op_queue \<Rightarrow> op_queue option" where
  "perform_all_loop perf res d q =
     (if oq_no_more d q then Some (oq_erase d q)
      else
        Option.bind (oq_perform_front perf res d q)
          (\<lambda>r. if fst r then perform_all_loop perf res d (snd r) else Some (snd r)))"

definition perform_all_operations :: "perf \<Rightarrow> nat \<Rightarrow> nat \<Rightarrow> op_queue \<Rightarrow> op_queue option" where
  "perform_all_operations perf res d q =
     (if has_operation d q then perform_all_loop perf res d q else Some q)"

text \<open>The loops over the table take the next entry before they can erase the one they are at;
  \<open>set_ok\<close> says whether a descriptor could be put into the set.\<close>
fun get_descriptors_at :: "perf \<Rightarrow> (nat \<Rightarrow> bool) \<Rightarrow> nat list \<Rightarrow> op_queue \<Rightarrow> op_queue option" where
  "get_descriptors_at perf set_ok [] q = Some q"
| "get_descriptors_at perf set_ok (d # ds) q =
     do { q1 \<leftarrow> (if set_ok d then Some q else perform_all_operations perf fd_set_failure d q);
          get_descriptors_at perf set_ok ds q1 }"

definition get_descriptors :: "perf \<Rightarrow> (nat \<Rightarrow> bool) \<Rightarrow> op_queue \<Rightarrow> op_queue option" where
  "get_descriptors perf set_ok q = get_descriptors_at perf set_ok (map fst (oq_operations q)) q"

fun perform_descriptors_at :: "perf \<Rightarrow> nat \<Rightarrow> (nat \<Rightarrow> bool) \<Rightarrow> nat list \<Rightarrow> op_queue \<Rightarrow> op_queue option" where
  "perform_descriptors_at perf res is_set [] q = Some q"
| "perform_descriptors_at perf res is_set (d # ds) q =
     (if is_set d
      then do { (don, q1) \<leftarrow> oq_perform_front perf res d q;
                perform_descriptors_at perf res is_set ds
                  (if don \<and> oq_no_more d q1 then oq_erase d q1 else q1) }
      else perform_descriptors_at perf res is_set ds q)"

definition perform_operations_for_descriptors :: "perf \<Rightarrow> nat \<Rightarrow> (nat \<Rightarrow> bool) \<Rightarrow> op_queue \<Rightarrow> op_queue option" where
  "perform_operations_for_descriptors perf res is_set q =
     perform_descriptors_at perf res is_set (map fst (oq_operations q)) q"

partial_function (option) perform_cancellations :: "perf \<Rightarrow> op_queue \<Rightarrow> op_queue option" where
  "perform_cancellations perf q =
     (case oq_cancelled q of
        None \<Rightarrow> Some q
      | Some x \<Rightarrow>
          Option.bind (oq_heap q x) (\<lambda>n.
          Option.bind (oq_set_next x (oq_complete q) (q\<lparr>oq_cancelled := ob_next n\<rparr>)) (\<lambda>q1.
          Option.bind (oq_run perf operation_aborted x (q1\<lparr>oq_complete := Some x\<rparr>)) (\<lambda>r.
          perform_cancellations perf (snd r)))))"

section \<open>Completing and destroying\<close>

text \<open>\<open>complete\<close> frees the node before the upcall.\<close>
partial_function (option) complete_operations :: "op_queue \<Rightarrow> op_queue option" where
  "complete_operations q =
     (case oq_complete q of
        None \<Rightarrow> Some q
      | Some x \<Rightarrow>
          Option.bind (oq_heap q x) (\<lambda>n.
          complete_operations
            ((oq_free x q)\<lparr>oq_calls := oq_calls q @ [Upcall x (ob_result n) (ob_bytes n)],
               oq_complete := ob_next n\<rparr>)))"

partial_function (option) oq_destroy_list :: "nat option \<Rightarrow> op_queue \<Rightarrow> op_queue option" where
  "oq_destroy_list p q =
     (case p of
        None \<Rightarrow> Some q
      | Some x \<Rightarrow>
          Option.bind (oq_heap q x) (\<lambda>n.
          oq_destroy_list (ob_next n) ((oq_free x q)\<lparr>oq_calls := oq_calls q @ [Destroyed x]\<rparr>)))"

fun oq_destroy_entries :: "(nat \<times> nat option) list \<Rightarrow> op_queue \<Rightarrow> op_queue option" where
  "oq_destroy_entries [] q = Some q"
| "oq_destroy_entries ((d, p) # es) q =
     do { q1 \<leftarrow> oq_destroy_list p (q\<lparr>oq_operations := es\<rparr>); oq_destroy_entries es q1 }"

definition destroy_operations :: "op_queue \<Rightarrow> op_queue option" where
  "destroy_operations q =
     do { q1 \<leftarrow> oq_destroy_list (oq_cancelled q) q;
          q2 \<leftarrow> oq_destroy_list (oq_complete q1) (q1\<lparr>oq_cancelled := None\<rparr>);
          oq_destroy_entries (oq_operations q2) (q2\<lparr>oq_complete := None\<rparr>) }"

section \<open>What the lists stand for\<close>

text \<open>What the linked lists of the operation queue stand for: \<open>queue_spec\<close> has the operations as lists,
  and every function of the queue does to its lists what the specification says, without a null or
  dangling pointer and without a loop that does not end.\<close>

section \<open>Linked lists\<close>

definition first :: "nat list \<Rightarrow> nat option" where
  "first xs = (case xs of [] \<Rightarrow> None | x # _ \<Rightarrow> Some x)"

lemma first_simps [simp]: "first [] = None" "first (x # xs) = Some x" "first xs = None \<longleftrightarrow> xs = []"
  by (simp_all add: first_def split: list.split)

fun linked :: "(nat \<Rightarrow> op_base option) \<Rightarrow> nat list \<Rightarrow> bool" where
  "linked h [] = True"
| "linked h (x # xs) = (map_option ob_next (h x) = Some (first xs) \<and> linked h xs)"

lemma linked_cong:
  "(\<And>x. x \<in> set xs \<Longrightarrow> map_option ob_next (h' x) = map_option ob_next (h x)) \<Longrightarrow> linked h' xs = linked h xs"
  by (induction xs) auto

lemma linked_other [simp]: "x \<notin> set xs \<Longrightarrow> linked (h(x := n)) xs = linked h xs"
  by (rule linked_cong) auto

lemma linked_append:
  "linked h (xs @ ys) \<Longrightarrow> linked h ys"
  by (induction xs) auto

lemma last_of_list:
  assumes "linked h (x # xs)"
  shows "oq_last h x = Some (last (x # xs))"
  using assms
proof (induction xs arbitrary: x)
  case Nil
  then show ?case by (subst oq_last.simps) auto
next
  case (Cons y xs)
  then show ?case by (subst oq_last.simps) auto
qed

lemma linked_join:
  assumes "linked h xs" and "linked h ys" and "xs \<noteq> []" and "distinct xs" and "last xs \<notin> set ys" and "h (last xs) = Some n"
  shows "linked (h(last xs \<mapsto> n\<lparr>ob_next := first ys\<rparr>)) (xs @ ys)"
  using assms
proof (induction xs)
  case (Cons x xs)
  show ?case
  proof (cases xs)
    case Nil
    have "x \<notin> set ys" "linked h ys" "h x = Some n" using Cons.prems Nil by simp_all
    then have "linked (h(x \<mapsto> n\<lparr>ob_next := first ys\<rparr>)) (x # ys)" by (simp only: linked.simps linked_other) simp
    then show ?thesis using Nil by (simp only: append_Cons append_Nil last.simps simp_thms if_True)
  next
    case (Cons y zs)
    then have "last xs \<noteq> x" using Cons.prems(4) by (metis distinct.simps(2) last_in_set list.discI)
    then show ?thesis using Cons.IH Cons.prems Cons by simp
  qed
qed simp

section \<open>The specification\<close>

record queue_spec =
  qs_waiting :: "(nat \<times> nat list) list"
  qs_cancelled :: "nat list"
  qs_complete :: "nat list"
  qs_data :: "nat \<Rightarrow> nat \<times> nat"
  qs_fresh :: nat
  qs_calls :: "op_call list"

definition qs_new :: queue_spec where
  "qs_new = \<lparr>qs_waiting = [], qs_cancelled = [], qs_complete = [], qs_data = (\<lambda>_. (0, 0)), qs_fresh = 0, qs_calls = []\<rparr>"

text \<open>An operation is queued behind those of its descriptor.\<close>
definition qs_enqueue :: "nat \<Rightarrow> queue_spec \<Rightarrow> bool \<times> queue_spec" where
  "qs_enqueue d s =
     (let s1 = s\<lparr>qs_data := (qs_data s)(qs_fresh s := (0, 0)), qs_fresh := qs_fresh s + 1\<rparr> in
      case map_of (qs_waiting s) d of
        None \<Rightarrow> (True, s1\<lparr>qs_waiting := qs_waiting s @ [(d, [qs_fresh s])]\<rparr>)
      | Some xs \<Rightarrow> (False, s1\<lparr>qs_waiting := AList.update d (xs @ [qs_fresh s]) (qs_waiting s)\<rparr>))"

definition qs_cancel :: "nat \<Rightarrow> queue_spec \<Rightarrow> bool \<times> queue_spec" where
  "qs_cancel d s =
     (case map_of (qs_waiting s) d of
        None \<Rightarrow> (False, s)
      | Some xs \<Rightarrow> (True, s\<lparr>qs_waiting := AList.delete d (qs_waiting s), qs_cancelled := xs @ qs_cancelled s\<rparr>))"

text \<open>Operations of a descriptor are performed from the front until one is not done, at most \<open>n\<close> of
  them; those that are done go to the completed ones.\<close>
fun qs_perform_list :: "perf \<Rightarrow> nat \<Rightarrow> nat \<Rightarrow> nat \<Rightarrow> nat list \<Rightarrow> queue_spec \<Rightarrow> queue_spec" where
  "qs_perform_list perf res d n [] s = s\<lparr>qs_waiting := AList.delete d (qs_waiting s)\<rparr>"
| "qs_perform_list perf res d 0 (x # xs) s = s\<lparr>qs_waiting := AList.update d (x # xs) (qs_waiting s)\<rparr>"
| "qs_perform_list perf res d (Suc n) (x # xs) s =
     (let s1 = s\<lparr>qs_data := (qs_data s)(x := snd (perf x res))\<rparr> in
      if fst (perf x res) then qs_perform_list perf res d n xs (s1\<lparr>qs_complete := x # qs_complete s\<rparr>)
      else s1\<lparr>qs_waiting := AList.update d (x # xs) (qs_waiting s)\<rparr>)"

definition qs_perform :: "perf \<Rightarrow> nat \<Rightarrow> nat \<Rightarrow> queue_spec \<Rightarrow> bool \<times> queue_spec" where
  "qs_perform perf res d s =
     (case map_of (qs_waiting s) d of
        None \<Rightarrow> (False, s)
      | Some xs \<Rightarrow> let s1 = qs_perform_list perf res d 1 xs s in (map_of (qs_waiting s1) d \<noteq> None, s1))"

definition qs_perform_all :: "perf \<Rightarrow> nat \<Rightarrow> nat \<Rightarrow> queue_spec \<Rightarrow> queue_spec" where
  "qs_perform_all perf res d s =
     (case map_of (qs_waiting s) d of
        None \<Rightarrow> s
      | Some xs \<Rightarrow> qs_perform_list perf res d (length xs) xs s)"

definition qs_get_descriptors :: "perf \<Rightarrow> (nat \<Rightarrow> bool) \<Rightarrow> queue_spec \<Rightarrow> queue_spec" where
  "qs_get_descriptors perf set_ok s =
     fold (\<lambda>d s. if set_ok d then s else qs_perform_all perf fd_set_failure d s) (map fst (qs_waiting s)) s"

definition qs_for_descriptors :: "perf \<Rightarrow> nat \<Rightarrow> (nat \<Rightarrow> bool) \<Rightarrow> queue_spec \<Rightarrow> queue_spec" where
  "qs_for_descriptors perf res is_set s =
     fold (\<lambda>d s. if is_set d then snd (qs_perform perf res d s) else s) (map fst (qs_waiting s)) s"

text \<open>The cancelled operations are performed with the error of a cancel.\<close>
definition qs_cancellations :: "perf \<Rightarrow> queue_spec \<Rightarrow> queue_spec" where
  "qs_cancellations perf s =
     s\<lparr>qs_complete := rev (qs_cancelled s) @ qs_complete s, qs_cancelled := [],
       qs_data := (\<lambda>x. if x \<in> set (qs_cancelled s) then snd (perf x operation_aborted) else qs_data s x)\<rparr>"

definition qs_complete_all :: "queue_spec \<Rightarrow> queue_spec" where
  "qs_complete_all s =
     s\<lparr>qs_calls := qs_calls s @ map (\<lambda>x. Upcall x (fst (qs_data s x)) (snd (qs_data s x))) (qs_complete s),
       qs_complete := []\<rparr>"

definition waiting_ops :: "queue_spec \<Rightarrow> nat list" where
  "waiting_ops s = concat (map snd (qs_waiting s))"

definition qs_destroy :: "queue_spec \<Rightarrow> queue_spec" where
  "qs_destroy s =
     s\<lparr>qs_calls := qs_calls s @ map Destroyed (qs_cancelled s @ qs_complete s @ waiting_ops s),
       qs_waiting := [], qs_cancelled := [], qs_complete := []\<rparr>"

section \<open>Representation\<close>

text \<open>A store that holds some lists and nothing else.\<close>
definition store_ok :: "(nat \<Rightarrow> op_base option) \<Rightarrow> nat list list \<Rightarrow> (nat \<Rightarrow> nat \<times> nat) \<Rightarrow> nat \<Rightarrow> bool" where
  "store_ok h xss data fresh \<longleftrightarrow>
     (\<forall>xs \<in> set xss. linked h xs) \<and> distinct (concat xss)
   \<and> (\<forall>x. h x \<noteq> None \<longleftrightarrow> x \<in> set (concat xss))
   \<and> (\<forall>x n. h x = Some n \<longrightarrow> data x = (ob_result n, ob_bytes n) \<and> x < fresh)"

lemma store_perm:
  assumes "store_ok h xss data fresh" and "mset xss = mset yss"
  shows "store_ok h yss data fresh"
proof -
  have "mset (concat xss) = mset (concat yss)"
    using assms(2) by (metis mset_concat mset_map sum_mset_sum_list)
  then have "distinct (concat xss) = distinct (concat yss)" "set (concat xss) = set (concat yss)"
    by (rule mset_eq_imp_distinct_iff, rule mset_eq_setD)
  moreover have "set xss = set yss" using assms(2) by (rule mset_eq_setD)
  ultimately show ?thesis using assms(1) unfolding store_ok_def by simp
qed

lemma store_nil [simp]: "store_ok h ([] # xss) data fresh = store_ok h xss data fresh"
  by (simp add: store_ok_def)

lemma store_node:
  assumes "store_ok h xss data fresh" and "xs \<in> set xss" and "x \<in> set xs"
  obtains n where "h x = Some n" and "data x = (ob_result n, ob_bytes n)"
  using assms unfolding store_ok_def by (metis UN_I not_None_eq set_concat)

lemma store_alloc:
  assumes "store_ok h xss data fresh" and "ob_next n = None"
  shows "store_ok (h(fresh \<mapsto> n)) ([fresh] # xss) (data(fresh := (ob_result n, ob_bytes n))) (fresh + 1)"
proof -
  have f: "fresh \<notin> set (concat xss)" using assms(1) unfolding store_ok_def by (metis less_irrefl option.exhaust)
  then have "linked (h(fresh \<mapsto> n)) xs = linked h xs" if "xs \<in> set xss" for xs
    using that by (intro linked_other) auto
  then show ?thesis
    using assms f unfolding store_ok_def by (auto simp: less_Suc_eq)
qed

lemma store_join:
  assumes "store_ok h (xs # ys # zss) data fresh" and "xs \<noteq> []" and "h (last xs) = Some n"
  shows "store_ok (h(last xs \<mapsto> n\<lparr>ob_next := first ys\<rparr>)) ((xs @ ys) # zss) data fresh"
proof -
  have d: "distinct (xs @ ys @ concat zss)" using assms(1) by (simp add: store_ok_def)
  have x: "last xs \<in> set xs" using assms(2) by simp
  have other: "last xs \<notin> set ys" "\<And>zs. zs \<in> set zss \<Longrightarrow> last xs \<notin> set zs"
    using d x by (auto simp only: distinct_append set_append set_concat)
  have l: "linked h xs" "linked h ys" "\<And>zs. zs \<in> set zss \<Longrightarrow> linked h zs"
    using assms(1) by (simp_all add: store_ok_def)
  have "linked (h(last xs \<mapsto> n\<lparr>ob_next := first ys\<rparr>)) (xs @ ys)"
    by (rule linked_join [OF l(1,2) assms(2)]) (use d other assms(3) in simp_all)
  moreover have "linked (h(last xs \<mapsto> n\<lparr>ob_next := first ys\<rparr>)) zs" if "zs \<in> set zss" for zs
    using other(2) [OF that] l(3) [OF that] by simp
  ultimately show ?thesis using assms(1,3) x unfolding store_ok_def by simp
qed

lemma store_move:
  assumes "store_ok h ((x # xs) # ys # zss) data fresh" and "h x = Some n"
  shows "store_ok (h(x \<mapsto> n\<lparr>ob_next := first ys\<rparr>)) (xs # (x # ys) # zss) data fresh"
proof -
  have d: "x \<notin> set xs" "x \<notin> set ys" "\<And>zs. zs \<in> set zss \<Longrightarrow> x \<notin> set zs"
    using assms(1) by (auto simp: store_ok_def)
  show ?thesis using assms d unfolding store_ok_def by (auto split: if_splits)
qed

lemma store_data:
  assumes "store_ok h xss data fresh" and "h x = Some n"
  shows "store_ok (h(x \<mapsto> n\<lparr>ob_result := r, ob_bytes := b\<rparr>)) xss (data(x := (r, b))) fresh"
proof -
  have "linked (h(x \<mapsto> n\<lparr>ob_result := r, ob_bytes := b\<rparr>)) xs = linked h xs" for xs
    using assms(2) by (intro linked_cong) simp
  then show ?thesis using assms unfolding store_ok_def by auto
qed

lemma store_free:
  assumes "store_ok h ((x # xs) # zss) data fresh"
  shows "store_ok (h(x := None)) (xs # zss) data fresh"
proof -
  have d: "x \<notin> set xs" "\<And>zs. zs \<in> set zss \<Longrightarrow> x \<notin> set zs"
    using assms by (auto simp: store_ok_def)
  show ?thesis using assms d unfolding store_ok_def by (auto split: if_splits)
qed

definition lists_of :: "queue_spec \<Rightarrow> nat list list" where
  "lists_of s = map snd (qs_waiting s) @ [qs_cancelled s, qs_complete s]"

definition represents :: "op_queue \<Rightarrow> queue_spec \<Rightarrow> bool" where
  "represents q s \<longleftrightarrow>
     oq_operations q = map (\<lambda>(d, xs). (d, first xs)) (qs_waiting s)
   \<and> oq_cancelled q = first (qs_cancelled s) \<and> oq_complete q = first (qs_complete s)
   \<and> distinct (map fst (qs_waiting s))
   \<and> store_ok (oq_heap q) (lists_of s) (qs_data s) (qs_fresh s)
   \<and> oq_fresh q = qs_fresh s \<and> oq_calls q = qs_calls s"

text \<open>Between operations no list of a descriptor is empty.\<close>
definition no_empty :: "queue_spec \<Rightarrow> bool" where
  "no_empty s \<longleftrightarrow> (\<forall>d. map_of (qs_waiting s) d \<noteq> Some [])"

lemma represents_new: "represents operation_queue qs_new"
  by (simp add: represents_def operation_queue_def qs_new_def lists_of_def store_ok_def)

lemma entry_split:
  fixes w :: "(nat \<times> nat list) list"
  assumes "map_of w d = Some xs" and "distinct (map fst w)"
  obtains w1 w2 where "w = w1 @ (d, xs) # w2" and "d \<notin> fst ` set w1" and "d \<notin> fst ` set w2"
    and "\<And>ys. AList.update d ys w = w1 @ (d, ys) # w2" and "AList.delete d w = w1 @ w2"
proof -
  obtain w1 w2 where w: "w = w1 @ (d, xs) # w2" using assms(1) by (meson map_of_SomeD split_list)
  then have d: "d \<notin> fst ` set w1" "d \<notin> fst ` set w2" using assms(2) by auto
  have u: "AList.update d ys (w1 @ (d, xs) # w2) = w1 @ (d, ys) # w2" if "d \<notin> fst ` set w1" for ys and w1 w2 :: "(nat \<times> nat list) list"
    using that by (induction w1) auto
  have keep: "filter (\<lambda>(k', uu). d \<noteq> k') v = v" if "d \<notin> fst ` set v" for v :: "(nat \<times> nat list) list"
    using that by (intro filter_True) force
  show thesis
    by (rule that [OF w d]) (simp_all add: w u d keep [OF d(1)] keep [OF d(2)] AList.delete_eq)
qed

lemma operations_of:
  "map_of (map (\<lambda>(d, xs). (d, first xs)) w) d = map_option first (map_of w d)"
  by (simp add: map_of_map)

end
