(* ===== verification/Operation_Refine.thy ===== *)
theory Operation_Refine
  imports Operation_Queue
begin

text \<open>The functions of the operation queue against their specifications, one by one; then for all
  sequences of operations.\<close>

section \<open>Entries\<close>

lemma representsI:
  assumes "oq_operations q = map (\<lambda>(d, xs). (d, first xs)) (qs_waiting s)"
    and "oq_cancelled q = first (qs_cancelled s)" and "oq_complete q = first (qs_complete s)"
    and "distinct (map fst (qs_waiting s))" and "store_ok (oq_heap q) (lists_of s) (qs_data s) (qs_fresh s)"
    and "oq_fresh q = qs_fresh s" and "oq_calls q = qs_calls s"
  shows "represents q s"
  using assms by (simp add: represents_def)

lemma represents_dest:
  assumes "represents q s"
  shows "oq_operations q = map (\<lambda>(d, xs). (d, first xs)) (qs_waiting s)"
    and "oq_cancelled q = first (qs_cancelled s)" and "oq_complete q = first (qs_complete s)"
    and "distinct (map fst (qs_waiting s))" and "store_ok (oq_heap q) (lists_of s) (qs_data s) (qs_fresh s)"
    and "oq_fresh q = qs_fresh s" and "oq_calls q = qs_calls s"
  using assms by (simp_all add: represents_def)

lemma update_first:
  "AList.update d (first xs) (map (\<lambda>(d, xs). (d, first xs)) w) = map (\<lambda>(d, xs). (d, first xs)) (AList.update d xs w)"
  by (induction w) auto

lemma delete_first:
  "AList.delete d (map (\<lambda>(d, xs). (d, first xs)) w) = map (\<lambda>(d, xs). (d, first xs)) (AList.delete d w)"
  by (induction w) (auto simp: AList.delete_eq)

lemma update_same:
  "map_of w d = Some xs \<Longrightarrow> distinct (map fst w) \<Longrightarrow> AList.update d xs w = (w :: (nat \<times> nat list) list)"
  by (erule (1) entry_split) simp

lemma lookup_first:
  "represents q s \<Longrightarrow> map_of (oq_operations q) d = map_option first (map_of (qs_waiting s) d)"
  by (simp add: represents_def operations_of)

text \<open>The lists of a state whose descriptor \<open>d\<close> has \<open>xs\<close>, and those of one where it has \<open>ys\<close>.\<close>
lemma lists_split:
  assumes "map_of (qs_waiting s) d = Some xs" and "distinct (map fst (qs_waiting s))"
  obtains zss where "mset (lists_of s) = mset (xs # qs_cancelled s # qs_complete s # zss)"
    and "\<And>ys. mset (map snd (AList.update d ys (qs_waiting s))) = mset (ys # zss)"
    and "mset (map snd (AList.delete d (qs_waiting s))) = mset zss"
proof -
  obtain w1 w2 where w: "qs_waiting s = w1 @ (d, xs) # w2" "\<And>ys. AList.update d ys (qs_waiting s) = w1 @ (d, ys) # w2"
      "AList.delete d (qs_waiting s) = w1 @ w2"
    using entry_split [OF assms] by metis
  show thesis by (rule that [of "map snd (w1 @ w2)"]) (simp_all add: w(2,3), simp add: lists_of_def w(1))
qed

section \<open>Queueing and cancelling\<close>

lemma enqueue_represents:
  assumes "represents q s" and "map_of (qs_waiting s) d \<noteq> Some []"
  shows "\<exists>q'. enqueue_operation d q = Some (fst (qs_enqueue d s), q') \<and> represents q' (snd (qs_enqueue d s))"
proof -
  note r = represents_dest [OF assms(1)]
  define n where "n = \<lparr>ob_descriptor = d, ob_result = 0, ob_bytes = 0, ob_next = None\<rparr>"
  let ?x = "qs_fresh s"
  let ?h = "(oq_heap q)(?x \<mapsto> n)"
  have alloc: "store_ok ?h ([?x] # lists_of s) ((qs_data s)(?x := (0, 0))) (?x + 1)"
    using store_alloc [OF r(5), of n] by (simp add: n_def)
  show ?thesis
  proof (cases "map_of (qs_waiting s) d")
    case None
    have e: "enqueue_operation d q = Some (True, q\<lparr>oq_heap := ?h, oq_fresh := ?x + 1, oq_operations := oq_operations q @ [(d, Some ?x)]\<rparr>)"
      using None by (simp add: enqueue_operation_def r(6) lookup_first [OF assms(1)] n_def Let_def)
    have "store_ok ?h (map snd (qs_waiting s @ [(d, [?x])]) @ [qs_cancelled s, qs_complete s]) ((qs_data s)(?x := (0, 0))) (?x + 1)"
      by (rule store_perm [OF alloc]) (simp add: lists_of_def)
    moreover have "d \<notin> fst ` set (qs_waiting s)" using None by (simp add: map_of_eq_None_iff)
    ultimately show ?thesis
      using e r None by (simp add: qs_enqueue_def represents_def lists_of_def Let_def)
  next
    case (Some xs)
    then obtain a as where xs: "xs = a # as" using assms(2) by (cases xs) auto
    obtain zss where z: "mset (lists_of s) = mset (xs # qs_cancelled s # qs_complete s # zss)"
      "\<And>ys. mset (map snd (AList.update d ys (qs_waiting s))) = mset (ys # zss)"
      using lists_split [OF Some r(4)] by metis
    have st: "store_ok ?h (xs # [?x] # qs_cancelled s # qs_complete s # zss) ((qs_data s)(?x := (0, 0))) (?x + 1)"
      by (rule store_perm [OF alloc]) (simp add: z(1))
    then obtain m where m: "?h (last xs) = Some m" using xs by (elim store_node [of _ _ _ _ xs "last xs"]) simp_all
    have "linked ?h xs" using st unfolding store_ok_def by (meson list.set_intros(1))
    then have l: "oq_last ?h a = Some (last xs)" unfolding xs by (rule last_of_list)
    have e: "enqueue_operation d q = Some (False, q\<lparr>oq_heap := ?h(last xs \<mapsto> m\<lparr>ob_next := Some ?x\<rparr>), oq_fresh := ?x + 1\<rparr>)"
      using Some l m by (simp add: enqueue_operation_def r(6) lookup_first [OF assms(1)] n_def [symmetric] xs oq_set_next_def Let_def)
    have "store_ok (?h(last xs \<mapsto> m\<lparr>ob_next := Some ?x\<rparr>))
        (map snd (AList.update d (xs @ [?x]) (qs_waiting s)) @ [qs_cancelled s, qs_complete s]) ((qs_data s)(?x := (0, 0))) (?x + 1)"
      by (rule store_perm [OF store_join [OF st _ m, simplified first_simps]]) (simp_all add: xs z(2) del: mset_map)
    moreover have "map (\<lambda>(d, xs). (d, first xs)) (AList.update d (xs @ [?x]) (qs_waiting s)) = oq_operations q"
      using update_first [of d "xs @ [?x]" "qs_waiting s", symmetric] update_first [of d xs "qs_waiting s"]
        update_same [OF Some r(4)] r(1) xs by simp
    ultimately show ?thesis
      using e r Some by (simp add: qs_enqueue_def represents_def lists_of_def distinct_update Let_def)
  qed
qed

lemma cancel_represents:
  assumes "represents q s" and "map_of (qs_waiting s) d \<noteq> Some []"
  shows "\<exists>q'. cancel_operations d q = Some (fst (qs_cancel d s), q') \<and> represents q' (snd (qs_cancel d s))"
proof (cases "map_of (qs_waiting s) d")
  case None
  then show ?thesis using assms(1) by (simp add: cancel_operations_def qs_cancel_def lookup_first)
next
  case (Some xs)
  note r = represents_dest [OF assms(1)]
  obtain a as where xs: "xs = a # as" using assms(2) Some by (cases xs) auto
  obtain zss where z: "mset (lists_of s) = mset (xs # qs_cancelled s # qs_complete s # zss)"
    "mset (map snd (AList.delete d (qs_waiting s))) = mset zss"
    using lists_split [OF Some r(4)] by metis
  note st = store_perm [OF r(5) z(1)]
  then obtain m where m: "oq_heap q (last xs) = Some m" using xs by (elim store_node [of _ _ _ _ xs "last xs"]) simp_all
  have l: "oq_last (oq_heap q) a = Some (last xs)" using st unfolding xs by (intro last_of_list) (simp add: store_ok_def)
  have e: "cancel_operations d q = Some (True, q\<lparr>oq_heap := (oq_heap q)(last xs \<mapsto> m\<lparr>ob_next := first (qs_cancelled s)\<rparr>),
      oq_operations := AList.delete d (oq_operations q), oq_cancelled := Some a\<rparr>)"
    using Some l m r(2) by (simp add: cancel_operations_def lookup_first [OF assms(1)] xs oq_set_next_def)
  have "store_ok ((oq_heap q)(last xs \<mapsto> m\<lparr>ob_next := first (qs_cancelled s)\<rparr>))
      (map snd (AList.delete d (qs_waiting s)) @ [xs @ qs_cancelled s, qs_complete s]) (qs_data s) (qs_fresh s)"
    by (rule store_perm [OF store_join [OF st _ m]]) (simp_all add: xs z(2) del: mset_map)
  then show ?thesis
    using e r Some xs by (simp add: qs_cancel_def represents_def lists_of_def distinct_delete delete_first)
qed

section \<open>Performing\<close>

text \<open>The front of a list, as the specification sees it.\<close>
definition qs_front :: "perf \<Rightarrow> nat \<Rightarrow> nat \<Rightarrow> nat \<Rightarrow> nat list \<Rightarrow> queue_spec \<Rightarrow> queue_spec" where
  "qs_front perf res d x xs s =
     (let s1 = s\<lparr>qs_data := (qs_data s)(x := snd (perf x res))\<rparr> in
      if fst (perf x res)
      then s1\<lparr>qs_waiting := AList.update d xs (qs_waiting s), qs_complete := x # qs_complete s\<rparr>
      else s1)"

lemma front_represents:
  assumes "represents q s" and "map_of (qs_waiting s) d = Some (x # xs)"
  shows "\<exists>q'. oq_perform_front perf res d q = Some (fst (perf x res), q') \<and> represents q' (qs_front perf res d x xs s)"
proof -
  note r = represents_dest [OF assms(1)]
  obtain don rs b where p: "perf x res = (don, rs, b)" by (rule prod_cases3)
  obtain zss where z: "mset (lists_of s) = mset ((x # xs) # qs_cancelled s # qs_complete s # zss)"
    "\<And>ys. mset (map snd (AList.update d ys (qs_waiting s))) = mset (ys # zss)"
    using lists_split [OF assms(2) r(4)] by metis
  have st: "store_ok (oq_heap q) ((x # xs) # qs_complete s # qs_cancelled s # zss) (qs_data s) (qs_fresh s)"
    by (rule store_perm [OF r(5)]) (simp add: z(1))
  then obtain n where n: "oq_heap q x = Some n" by (elim store_node [of _ _ _ _ "x # xs" x]) simp_all
  have nx: "ob_next n = first xs" using st n by (simp add: store_ok_def)
  let ?n1 = "n\<lparr>ob_next := first (qs_complete s)\<rparr>"
  let ?n2 = "?n1\<lparr>ob_result := rs, ob_bytes := b\<rparr>"
  let ?data = "(qs_data s)(x := (rs, b))"
  have st1: "store_ok ((oq_heap q)(x \<mapsto> ?n2)) (xs # (x # qs_complete s) # qs_cancelled s # zss) ?data (qs_fresh s)"
    using store_data [OF store_move [OF st n], where x = x and n = ?n1 and r = rs and b = b] by simp
  show ?thesis
  proof (cases don)
    case True
    have e: "oq_perform_front perf res d q = Some (True, q\<lparr>oq_heap := (oq_heap q)(x \<mapsto> ?n2),
        oq_operations := AList.update d (first xs) (oq_operations q), oq_complete := Some x\<rparr>)"
      using True n nx r(3) p assms(2)
      by (simp add: oq_perform_front_def lookup_first [OF assms(1)] oq_set_next_def oq_run_def)
    have "store_ok ((oq_heap q)(x \<mapsto> ?n2))
        (map snd (AList.update d xs (qs_waiting s)) @ [qs_cancelled s, x # qs_complete s]) ?data (qs_fresh s)"
      by (rule store_perm [OF st1]) (simp add: z(2) del: mset_map)
    then show ?thesis
      using e r True p
      by (simp add: qs_front_def represents_def lists_of_def distinct_update update_first Let_def)
  next
    case False
    let ?n3 = "?n2\<lparr>ob_next := first xs\<rparr>"
    have "store_ok ((oq_heap q)(x \<mapsto> ?n2)) ((x # qs_complete s) # xs # qs_cancelled s # zss) ?data (qs_fresh s)"
      by (rule store_perm [OF st1]) simp
    from store_move [OF this, of ?n2]
    have st2: "store_ok ((oq_heap q)(x \<mapsto> ?n3)) (qs_complete s # (x # xs) # qs_cancelled s # zss) ?data (qs_fresh s)"
      by simp
    have "AList.update d (Some x) (AList.update d (first xs) (oq_operations q)) = oq_operations q"
      using update_first [of d "x # xs" "qs_waiting s"] update_same [OF assms(2) r(4)] r(1)
      by (simp add: AList.update_last)
    then have e: "oq_perform_front perf res d q = Some (False, q\<lparr>oq_heap := (oq_heap q)(x \<mapsto> ?n3)\<rparr>)"
      using False n nx r(3) p assms(2)
      by (simp add: oq_perform_front_def lookup_first [OF assms(1)] oq_set_next_def oq_run_def)
    have "store_ok ((oq_heap q)(x \<mapsto> ?n3)) (lists_of s) ?data (qs_fresh s)"
      by (rule store_perm [OF st2]) (simp add: z(1))
    then show ?thesis
      using e r False p by (simp add: qs_front_def represents_def lists_of_def Let_def)
  qed
qed

lemma perform_list_waiting:
  "qs_perform_list perf res d n xs (s\<lparr>qs_waiting := AList.update d ys (qs_waiting s)\<rparr>) = qs_perform_list perf res d n xs s"
proof (induction perf res d n xs s rule: qs_perform_list.induct)
  case (3 perf res d n x xs s)
  let ?t = "s\<lparr>qs_data := (qs_data s)(x := snd (perf x res)), qs_complete := x # qs_complete s\<rparr>"
  have t: "s\<lparr>qs_waiting := AList.update d ys (qs_waiting s), qs_data := (qs_data s)(x := snd (perf x res)),
      qs_complete := x # qs_complete s\<rparr> = ?t\<lparr>qs_waiting := AList.update d ys (qs_waiting s)\<rparr>"
    by simp
  show ?case
  proof (cases "fst (perf x res)")
    case True
    from 3 [OF refl True] show ?thesis using True by (simp add: t Let_def)
  next
    case False
    then show ?thesis by (simp add: Let_def update_last)
  qed
qed (simp_all add: update_last delete_update_same)

lemma front_then_rest:
  assumes "fst (perf x res)"
  shows "qs_perform_list perf res d n xs (qs_front perf res d x xs s) = qs_perform_list perf res d (Suc n) (x # xs) s"
proof -
  let ?t = "s\<lparr>qs_data := (qs_data s)(x := snd (perf x res)), qs_complete := x # qs_complete s\<rparr>"
  have "qs_front perf res d x xs s = ?t\<lparr>qs_waiting := AList.update d xs (qs_waiting ?t)\<rparr>"
    using assms by (simp add: qs_front_def Let_def)
  then show ?thesis using assms perform_list_waiting [where s = ?t and ys = xs] by (simp add: Let_def)
qed

lemma erase_represents:
  assumes "represents q s" and "map_of (qs_waiting s) d = Some []"
  shows "oq_no_more d q" and "represents (oq_erase d q) (s\<lparr>qs_waiting := AList.delete d (qs_waiting s)\<rparr>)"
proof -
  note r = represents_dest [OF assms(1)]
  show "oq_no_more d q" using assms(2) by (simp add: oq_no_more_def lookup_first [OF assms(1)])
  obtain zss where z: "mset (lists_of s) = mset ([] # qs_cancelled s # qs_complete s # zss)"
    "mset (map snd (AList.delete d (qs_waiting s))) = mset zss"
    using lists_split [OF assms(2) r(4)] by metis
  have "store_ok (oq_heap q) ([] # map snd (AList.delete d (qs_waiting s)) @ [qs_cancelled s, qs_complete s]) (qs_data s) (qs_fresh s)"
    by (rule store_perm [OF r(5)]) (simp add: z del: mset_map)
  then show "represents (oq_erase d q) (s\<lparr>qs_waiting := AList.delete d (qs_waiting s)\<rparr>)"
    using r by (simp add: oq_erase_def represents_def lists_of_def distinct_delete delete_first)
qed

lemma not_no_more:
  "represents q s \<Longrightarrow> map_of (qs_waiting s) d = Some (x # xs) \<Longrightarrow> \<not> oq_no_more d q"
  by (simp add: oq_no_more_def lookup_first)

lemma front_waiting:
  assumes "map_of (qs_waiting s) d = Some (x # xs)"
  shows "map_of (qs_waiting (qs_front perf res d x xs s)) d = Some (if fst (perf x res) then xs else x # xs)"
  using assms by (simp add: qs_front_def update_conv' Let_def)

lemma perform_all_loop_represents:
  assumes "represents q s" and "map_of (qs_waiting s) d = Some xs"
  shows "\<exists>q'. perform_all_loop perf res d q = Some q' \<and> represents q' (qs_perform_list perf res d (length xs) xs s)"
  using assms
proof (induction xs arbitrary: q s)
  case Nil
  then show ?case using erase_represents [OF Nil] by (subst perform_all_loop.simps) simp
next
  case (Cons x xs)
  obtain q1 where q1: "oq_perform_front perf res d q = Some (fst (perf x res), q1)" "represents q1 (qs_front perf res d x xs s)"
    using front_represents [OF Cons.prems] by blast
  show ?case
  proof (cases "fst (perf x res)")
    case True
    then have "map_of (qs_waiting (qs_front perf res d x xs s)) d = Some xs" using front_waiting [OF Cons.prems(2)] by simp
    from Cons.IH [OF q1(2) this] show ?thesis
      using q1(1) True not_no_more [OF Cons.prems] front_then_rest [of perf x res d "length xs" xs s, OF True]
      by (subst perform_all_loop.simps) simp
  next
    case False
    then have "qs_perform_list perf res d (length (x # xs)) (x # xs) s = qs_front perf res d x xs s"
      using update_same [OF Cons.prems(2) represents_dest(4) [OF Cons.prems(1)]] by (simp add: qs_front_def Let_def)
    then show ?thesis
      using q1 False not_no_more [OF Cons.prems] by (subst perform_all_loop.simps) simp
  qed
qed

lemma perform_list_others:
  "d' \<noteq> d \<Longrightarrow> map_of (qs_waiting (qs_perform_list perf res d n xs s)) d' = map_of (qs_waiting s) d'"
  by (induction perf res d n xs s rule: qs_perform_list.induct) (simp_all add: update_conv' delete_conv' Let_def)

lemma perform_list_not_empty: "map_of (qs_waiting (qs_perform_list perf res d n xs s)) d \<noteq> Some []"
  by (induction perf res d n xs s rule: qs_perform_list.induct) (simp_all add: update_conv' delete_conv' Let_def)

lemma perform_list_no_empty: "no_empty s \<Longrightarrow> no_empty (qs_perform_list perf res d n xs s)"
  unfolding no_empty_def using perform_list_others perform_list_not_empty by metis

lemma perform_one:
  assumes "map_of (qs_waiting s) d = Some (x # xs)" and "distinct (map fst (qs_waiting s))"
  shows "qs_perform_list perf res d 1 (x # xs) s
    = (let t = qs_front perf res d x xs s in
       if fst (perf x res) \<and> xs = [] then t\<lparr>qs_waiting := AList.delete d (qs_waiting t)\<rparr> else t)"
proof -
  let ?t = "s\<lparr>qs_data := (qs_data s)(x := snd (perf x res))\<rparr>"
  have "?t\<lparr>qs_waiting := w, qs_complete := c\<rparr> = ?t\<lparr>qs_complete := c, qs_waiting := w\<rparr>" for w c by simp
  then show ?thesis
    using update_same [OF assms]
    by (cases xs) (simp_all add: qs_front_def delete_update_same Let_def)
qed

text \<open>One operation of a descriptor, as both functions that perform one do it.\<close>
lemma perform_one_represents:
  assumes "represents q s" and "map_of (qs_waiting s) d = Some (x # xs)"
  obtains q1 where "oq_perform_front perf res d q = Some (fst (perf x res), q1)"
    and "represents (if fst (perf x res) \<and> oq_no_more d q1 then oq_erase d q1 else q1) (qs_perform_list perf res d 1 (x # xs) s)"
    and "fst (perf x res) \<and> oq_no_more d q1 \<longleftrightarrow> map_of (qs_waiting (qs_perform_list perf res d 1 (x # xs) s)) d = None"
proof -
  obtain q1 where q1: "oq_perform_front perf res d q = Some (fst (perf x res), q1)" "represents q1 (qs_front perf res d x xs s)"
    using front_represents [OF assms] by blast
  note one = perform_one [OF assms(2) represents_dest(4) [OF assms(1)], of perf res]
  note w = front_waiting [OF assms(2), of perf res]
  have more: "oq_no_more d q1 \<longleftrightarrow> fst (perf x res) \<and> xs = []"
    using w by (simp add: oq_no_more_def lookup_first [OF q1(2)])
  show thesis
  proof (rule that [OF q1(1)])
    show "represents (if fst (perf x res) \<and> oq_no_more d q1 then oq_erase d q1 else q1) (qs_perform_list perf res d 1 (x # xs) s)"
    proof (cases "fst (perf x res) \<and> xs = []")
      case True
      then show ?thesis using erase_represents(2) [OF q1(2)] w more unfolding one Let_def by simp
    next
      case False
      then have "\<not> (fst (perf x res) \<and> oq_no_more d q1)" using more by blast
      then show ?thesis using q1(2) unfolding one Let_def by (simp only: False if_False)
    qed
    show "fst (perf x res) \<and> oq_no_more d q1 \<longleftrightarrow> map_of (qs_waiting (qs_perform_list perf res d 1 (x # xs) s)) d = None"
      unfolding one Let_def using w more by (simp add: delete_conv')
  qed
qed

lemma perform_represents:
  assumes "represents q s" and "no_empty s"
  shows "\<exists>q'. perform_operation perf res d q = Some (fst (qs_perform perf res d s), q')
    \<and> represents q' (snd (qs_perform perf res d s))"
proof (cases "map_of (qs_waiting s) d")
  case None
  then show ?thesis using assms(1) by (simp add: perform_operation_def has_operation_def qs_perform_def lookup_first)
next
  case (Some ys)
  then obtain x xs where m: "map_of (qs_waiting s) d = Some (x # xs)"
    using assms(2) by (cases ys) (auto simp: no_empty_def)
  obtain q1 where q1: "oq_perform_front perf res d q = Some (fst (perf x res), q1)"
    "represents (if fst (perf x res) \<and> oq_no_more d q1 then oq_erase d q1 else q1) (qs_perform_list perf res d 1 (x # xs) s)"
    "fst (perf x res) \<and> oq_no_more d q1 \<longleftrightarrow> map_of (qs_waiting (qs_perform_list perf res d 1 (x # xs) s)) d = None"
    using perform_one_represents [OF assms(1) m] by metis
  then show ?thesis
    using m by (auto simp: perform_operation_def has_operation_def qs_perform_def lookup_first [OF assms(1)] Let_def
        simp del: qs_perform_list.simps)
qed

lemma perform_all_represents:
  assumes "represents q s"
  shows "\<exists>q'. perform_all_operations perf res d q = Some q' \<and> represents q' (qs_perform_all perf res d s)"
  using perform_all_loop_represents [OF assms] assms
  by (cases "map_of (qs_waiting s) d") (simp_all add: perform_all_operations_def has_operation_def qs_perform_all_def lookup_first)

lemma perform_all_no_empty: "no_empty s \<Longrightarrow> no_empty (qs_perform_all perf res d s)"
  by (auto simp: qs_perform_all_def perform_list_no_empty split: option.split)

lemma get_descriptors_represents:
  assumes "represents q s"
  shows "\<exists>q'. get_descriptors perf set_ok q = Some q' \<and> represents q' (qs_get_descriptors perf set_ok s)"
proof -
  have "\<exists>q'. get_descriptors_at perf set_ok ds q = Some q'
      \<and> represents q' (fold (\<lambda>d s. if set_ok d then s else qs_perform_all perf fd_set_failure d s) ds s)"
    if "represents q s" for ds q s
    using that
  proof (induction ds arbitrary: q s)
    case (Cons d ds)
    obtain q1 where "perform_all_operations perf fd_set_failure d q = Some q1" "represents q1 (qs_perform_all perf fd_set_failure d s)"
      using perform_all_represents [OF Cons.prems] by blast
    then show ?case using Cons by simp
  qed simp
  moreover have "map fst (oq_operations q) = map fst (qs_waiting s)"
    using represents_dest(1) [OF assms] by (simp add: case_prod_unfold comp_def)
  ultimately show ?thesis using assms by (simp add: get_descriptors_def qs_get_descriptors_def)
qed

lemma for_descriptors_represents:
  assumes "represents q s" and "no_empty s"
  shows "\<exists>q'. perform_operations_for_descriptors perf res is_set q = Some q'
    \<and> represents q' (qs_for_descriptors perf res is_set s)"
proof -
  have "\<exists>q'. perform_descriptors_at perf res is_set ds q = Some q'
      \<and> represents q' (fold (\<lambda>d s. if is_set d then snd (qs_perform perf res d s) else s) ds s)"
    if "represents q s" "no_empty s" "distinct ds" "\<forall>d \<in> set ds. map_of (qs_waiting s) d \<noteq> None" for ds q s
    using that
  proof (induction ds arbitrary: q s)
    case (Cons d ds)
    obtain ys where ys: "map_of (qs_waiting s) d = Some ys" using Cons.prems(4) by auto
    then obtain x xs where m: "map_of (qs_waiting s) d = Some (x # xs)"
      using Cons.prems(2) by (cases ys) (auto simp: no_empty_def)
    let ?t = "qs_perform_list perf res d 1 (x # xs) s"
    obtain q1 where q1: "oq_perform_front perf res d q = Some (fst (perf x res), q1)"
      "represents (if fst (perf x res) \<and> oq_no_more d q1 then oq_erase d q1 else q1) ?t"
      using perform_one_represents [OF Cons.prems(1) m] by metis
    have t: "snd (qs_perform perf res d s) = ?t" using m by (simp add: qs_perform_def Let_def del: qs_perform_list.simps)
    have ds: "\<forall>d' \<in> set ds. map_of (qs_waiting ?t) d' \<noteq> None"
      using Cons.prems(3,4) perform_list_others [of _ d perf res 1 "x # xs" s] by (metis distinct.simps(2) list.set_intros(2))
    have "\<exists>q'. perform_descriptors_at perf res is_set ds (if fst (perf x res) \<and> oq_no_more d q1 then oq_erase d q1 else q1) = Some q'
      \<and> represents q' (fold (\<lambda>d s. if is_set d then snd (qs_perform perf res d s) else s) ds ?t)"
      by (rule Cons.IH [OF q1(2) perform_list_no_empty [OF Cons.prems(2)] _ ds]) (use Cons.prems(3) in simp)
    moreover have "\<exists>q'. perform_descriptors_at perf res is_set ds q = Some q'
      \<and> represents q' (fold (\<lambda>d s. if is_set d then snd (qs_perform perf res d s) else s) ds s)"
      using Cons by simp
    ultimately show ?case using q1(1) t by (simp del: qs_perform_list.simps)
  qed simp
  moreover have "map fst (oq_operations q) = map fst (qs_waiting s)"
    using represents_dest(1) [OF assms(1)] by (simp add: case_prod_unfold comp_def)
  moreover have "\<forall>d \<in> set (map fst (qs_waiting s)). map_of (qs_waiting s) d \<noteq> None"
    by (auto simp: map_of_eq_None_iff)
  ultimately show ?thesis
    using assms represents_dest(4) [OF assms(1)] by (simp add: perform_operations_for_descriptors_def qs_for_descriptors_def)
qed

section \<open>Cancellations, completing, destroying\<close>

lemma cancellations_represents:
  assumes "represents q s"
  shows "\<exists>q'. perform_cancellations perf q = Some q' \<and> represents q' (qs_cancellations perf s)"
proof -
  have "\<exists>q'. perform_cancellations perf q = Some q' \<and> represents q' (qs_cancellations perf s)"
    if "represents q s" "qs_cancelled s = cs" for cs q s
    using that
  proof (induction cs arbitrary: q s)
    case Nil
    note r = represents_dest [OF Nil(1)]
    have "qs_cancellations perf s = s" using Nil(2) by (simp add: qs_cancellations_def)
    then show ?case using Nil r(2) by (subst perform_cancellations.simps) simp
  next
    case (Cons x cs)
    note r = represents_dest [OF Cons.prems(1)]
    obtain don rs b where p: "perf x operation_aborted = (don, rs, b)" by (rule prod_cases3)
    have st: "store_ok (oq_heap q) ((x # cs) # qs_complete s # map snd (qs_waiting s)) (qs_data s) (qs_fresh s)"
      by (rule store_perm [OF r(5)]) (simp add: lists_of_def Cons.prems(2))
    then obtain n where n: "oq_heap q x = Some n" by (elim store_node [of _ _ _ _ "x # cs" x]) simp_all
    have nx: "ob_next n = first cs" "x \<notin> set cs" using st n by (simp_all add: store_ok_def)
    let ?n1 = "n\<lparr>ob_next := first (qs_complete s)\<rparr>"
    let ?n2 = "?n1\<lparr>ob_result := rs, ob_bytes := b\<rparr>"
    let ?q1 = "q\<lparr>oq_cancelled := first cs, oq_complete := Some x, oq_heap := (oq_heap q)(x \<mapsto> ?n2)\<rparr>"
    let ?s1 = "s\<lparr>qs_cancelled := cs, qs_complete := x # qs_complete s, qs_data := (qs_data s)(x := (rs, b))\<rparr>"
    have "store_ok ((oq_heap q)(x \<mapsto> ?n2)) (cs # (x # qs_complete s) # map snd (qs_waiting s)) ((qs_data s)(x := (rs, b))) (qs_fresh s)"
      using store_data [OF store_move [OF st n], where x = x and n = ?n1 and r = rs and b = b] by simp
    then have "store_ok ((oq_heap q)(x \<mapsto> ?n2)) (lists_of ?s1) ((qs_data s)(x := (rs, b))) (qs_fresh s)"
      by (rule store_perm) (simp add: lists_of_def)
    then have q1: "represents ?q1 ?s1" using r by (simp add: represents_def)
    have "qs_cancellations perf ?s1 = qs_cancellations perf s"
      using nx(2) p Cons.prems(2) by (auto simp: qs_cancellations_def fun_eq_iff)
    moreover have "perform_cancellations perf q = perform_cancellations perf ?q1"
      using n nx p r(2,3) Cons.prems(2) by (subst perform_cancellations.simps) (simp add: oq_set_next_def oq_run_def)
    ultimately show ?case using Cons.IH [OF q1] by simp
  qed
  then show ?thesis using assms by blast
qed

lemma complete_represents:
  assumes "represents q s"
  shows "\<exists>q'. complete_operations q = Some q' \<and> represents q' (qs_complete_all s)"
proof -
  have "\<exists>q'. complete_operations q = Some q' \<and> represents q' (qs_complete_all s)"
    if "represents q s" "qs_complete s = cs" for cs q s
    using that
  proof (induction cs arbitrary: q s)
    case Nil
    note r = represents_dest [OF Nil(1)]
    have "qs_complete_all s = s" using Nil(2) by (simp add: qs_complete_all_def)
    then show ?case using Nil r(3) by (subst complete_operations.simps) simp
  next
    case (Cons x cs)
    note r = represents_dest [OF Cons.prems(1)]
    have st: "store_ok (oq_heap q) ((x # cs) # qs_cancelled s # map snd (qs_waiting s)) (qs_data s) (qs_fresh s)"
      by (rule store_perm [OF r(5)]) (simp add: lists_of_def Cons.prems(2))
    then obtain n where n: "oq_heap q x = Some n" "qs_data s x = (ob_result n, ob_bytes n)"
      by (elim store_node [of _ _ _ _ "x # cs" x]) simp_all
    have nx: "ob_next n = first cs" using st n by (simp add: store_ok_def)
    let ?q1 = "(oq_free x q)\<lparr>oq_calls := oq_calls q @ [Upcall x (ob_result n) (ob_bytes n)], oq_complete := first cs\<rparr>"
    let ?s1 = "s\<lparr>qs_complete := cs, qs_calls := qs_calls s @ [Upcall x (ob_result n) (ob_bytes n)]\<rparr>"
    have "store_ok ((oq_heap q)(x := None)) (lists_of ?s1) (qs_data s) (qs_fresh s)"
      by (rule store_perm [OF store_free [OF st]]) (simp add: lists_of_def)
    then have q1: "represents ?q1 ?s1" using r by (simp add: represents_def oq_free_def)
    have "qs_complete_all ?s1 = qs_complete_all s"
      using n(2) Cons.prems(2) by (simp add: qs_complete_all_def)
    moreover have "complete_operations q = complete_operations ?q1"
      using n nx r(3) Cons.prems(2) by (subst complete_operations.simps) simp
    ultimately show ?case using Cons.IH [OF q1] by simp
  qed
  then show ?thesis using assms by blast
qed

lemma destroy_list_represents:
  assumes "store_ok (oq_heap q) (xs # zss) data fresh"
  shows "\<exists>h. oq_destroy_list (first xs) q = Some (q\<lparr>oq_heap := h, oq_calls := oq_calls q @ map Destroyed xs\<rparr>)
    \<and> store_ok h zss data fresh"
  using assms
proof (induction xs arbitrary: q)
  case Nil
  then show ?case by (subst oq_destroy_list.simps) (auto intro: exI [of _ "oq_heap q"])
next
  case (Cons x xs)
  obtain n where n: "oq_heap q x = Some n" using Cons.prems by (elim store_node [of _ _ _ _ "x # xs" x]) simp_all
  have nx: "ob_next n = first xs" using Cons.prems n by (simp add: store_ok_def)
  let ?q1 = "(oq_free x q)\<lparr>oq_calls := oq_calls q @ [Destroyed x]\<rparr>"
  have "store_ok (oq_heap ?q1) (xs # zss) data fresh" using store_free [OF Cons.prems] by (simp add: oq_free_def)
  from Cons.IH [OF this] obtain h where "oq_destroy_list (first xs) ?q1
      = Some (?q1\<lparr>oq_heap := h, oq_calls := oq_calls ?q1 @ map Destroyed xs\<rparr>)" "store_ok h zss data fresh"
    by blast
  moreover have "oq_destroy_list (first (x # xs)) q = oq_destroy_list (first xs) ?q1"
    using n nx by (subst oq_destroy_list.simps) simp
  ultimately show ?case by (auto simp: oq_free_def)
qed

lemma destroy_entries_represents:
  assumes "store_ok (oq_heap q) (map snd w) data fresh" and "oq_operations q = map (\<lambda>(d, xs). (d, first xs)) w"
  shows "\<exists>h. oq_destroy_entries (map (\<lambda>(d, xs). (d, first xs)) w) q
      = Some (q\<lparr>oq_heap := h, oq_operations := [], oq_calls := oq_calls q @ map Destroyed (concat (map snd w))\<rparr>)
    \<and> store_ok h [] data fresh"
  using assms
proof (induction w arbitrary: q)
  case Nil
  then show ?case by (auto intro: exI [of _ "oq_heap q"])
next
  case (Cons e w)
  obtain d xs where e: "e = (d, xs)" by (cases e)
  let ?q1 = "q\<lparr>oq_operations := map (\<lambda>(d, xs). (d, first xs)) w\<rparr>"
  have "store_ok (oq_heap ?q1) (xs # map snd w) data fresh" using Cons.prems(1) e by simp
  then obtain h where h: "oq_destroy_list (first xs) ?q1 = Some (?q1\<lparr>oq_heap := h, oq_calls := oq_calls q @ map Destroyed xs\<rparr>)"
    "store_ok h (map snd w) data fresh"
    using destroy_list_represents [of ?q1 xs "map snd w" data fresh] by auto
  let ?q2 = "?q1\<lparr>oq_heap := h, oq_calls := oq_calls q @ map Destroyed xs\<rparr>"
  have "\<exists>h. oq_destroy_entries (map (\<lambda>(d, xs). (d, first xs)) w) ?q2
      = Some (?q2\<lparr>oq_heap := h, oq_operations := [], oq_calls := oq_calls ?q2 @ map Destroyed (concat (map snd w))\<rparr>)
    \<and> store_ok h [] data fresh"
    by (rule Cons.IH) (use h(2) in simp_all)
  then show ?case using h(1) e by auto
qed

lemma destroy_represents:
  assumes "represents q s"
  shows "\<exists>q'. destroy_operations q = Some q' \<and> represents q' (qs_destroy s)"
proof -
  note r = represents_dest [OF assms]
  have "store_ok (oq_heap q) (qs_cancelled s # qs_complete s # map snd (qs_waiting s)) (qs_data s) (qs_fresh s)"
    by (rule store_perm [OF r(5)]) (simp add: lists_of_def)
  from destroy_list_represents [OF this] obtain h1 where 1: "oq_destroy_list (first (qs_cancelled s)) q
      = Some (q\<lparr>oq_heap := h1, oq_calls := oq_calls q @ map Destroyed (qs_cancelled s)\<rparr>)"
    "store_ok h1 (qs_complete s # map snd (qs_waiting s)) (qs_data s) (qs_fresh s)" by blast
  let ?q1 = "q\<lparr>oq_heap := h1, oq_calls := oq_calls q @ map Destroyed (qs_cancelled s), oq_cancelled := None\<rparr>"
  have "store_ok (oq_heap ?q1) (qs_complete s # map snd (qs_waiting s)) (qs_data s) (qs_fresh s)" using 1(2) by simp
  from destroy_list_represents [OF this] obtain h2 where 2: "oq_destroy_list (first (qs_complete s)) ?q1
      = Some (?q1\<lparr>oq_heap := h2, oq_calls := oq_calls ?q1 @ map Destroyed (qs_complete s)\<rparr>)"
    "store_ok h2 (map snd (qs_waiting s)) (qs_data s) (qs_fresh s)" by blast
  let ?q2 = "?q1\<lparr>oq_heap := h2, oq_calls := oq_calls ?q1 @ map Destroyed (qs_complete s), oq_complete := None\<rparr>"
  have "store_ok (oq_heap ?q2) (map snd (qs_waiting s)) (qs_data s) (qs_fresh s)" using 2(2) by simp
  from destroy_entries_represents [OF this] r(1) obtain h3 where 3:
    "oq_destroy_entries (map (\<lambda>(d, xs). (d, first xs)) (qs_waiting s)) ?q2
      = Some (?q2\<lparr>oq_heap := h3, oq_operations := [], oq_calls := oq_calls ?q2 @ map Destroyed (concat (map snd (qs_waiting s)))\<rparr>)"
    "store_ok h3 [] (qs_data s) (qs_fresh s)" by auto
  have "destroy_operations q
      = Some (?q2\<lparr>oq_heap := h3, oq_operations := [], oq_calls := oq_calls ?q2 @ map Destroyed (concat (map snd (qs_waiting s)))\<rparr>)"
    using 1(1) 2(1) 3(1) r(1,2,3) by (simp add: destroy_operations_def)
  then show ?thesis
    using 3(2) r by (simp add: represents_def qs_destroy_def lists_of_def waiting_ops_def)
qed

end
