(* ===== verification/Operation_Theorems.thy ===== *)
theory Operation_Theorems
  imports Operation_Refine
begin

text \<open>The operation queue over all sequences of operations: it does what its specification says, and
  every operation is accounted for.\<close>

section \<open>All operations\<close>

datatype queue_op =
    Enqueue nat
  | Cancel nat
  | Perform perf nat nat
  | Perform_all perf nat nat
  | Get_descriptors perf "nat \<Rightarrow> bool"
  | For_descriptors perf nat "nat \<Rightarrow> bool"
  | Cancellations perf
  | Complete
  | Destroy

fun oq_step :: "queue_op \<Rightarrow> op_queue \<Rightarrow> op_queue option" where
  "oq_step (Enqueue d) q = map_option snd (enqueue_operation d q)"
| "oq_step (Cancel d) q = map_option snd (cancel_operations d q)"
| "oq_step (Perform perf res d) q = map_option snd (perform_operation perf res d q)"
| "oq_step (Perform_all perf res d) q = perform_all_operations perf res d q"
| "oq_step (Get_descriptors perf ok) q = get_descriptors perf ok q"
| "oq_step (For_descriptors perf res is_set) q = perform_operations_for_descriptors perf res is_set q"
| "oq_step (Cancellations perf) q = perform_cancellations perf q"
| "oq_step Complete q = complete_operations q"
| "oq_step Destroy q = destroy_operations q"

fun oq_steps :: "queue_op list \<Rightarrow> op_queue \<Rightarrow> op_queue option" where
  "oq_steps [] q = Some q"
| "oq_steps (c # cs) q = Option.bind (oq_step c q) (oq_steps cs)"

fun qs_step :: "queue_op \<Rightarrow> queue_spec \<Rightarrow> queue_spec" where
  "qs_step (Enqueue d) s = snd (qs_enqueue d s)"
| "qs_step (Cancel d) s = snd (qs_cancel d s)"
| "qs_step (Perform perf res d) s = snd (qs_perform perf res d s)"
| "qs_step (Perform_all perf res d) s = qs_perform_all perf res d s"
| "qs_step (Get_descriptors perf ok) s = qs_get_descriptors perf ok s"
| "qs_step (For_descriptors perf res is_set) s = qs_for_descriptors perf res is_set s"
| "qs_step (Cancellations perf) s = qs_cancellations perf s"
| "qs_step Complete s = qs_complete_all s"
| "qs_step Destroy s = qs_destroy s"

lemma step_represents:
  assumes "represents q s" and "no_empty s"
  shows "\<exists>q'. oq_step c q = Some q' \<and> represents q' (qs_step c s)"
proof (cases c)
  case (Enqueue d)
  then show ?thesis using enqueue_represents [OF assms(1), of d] assms(2) by (auto simp: no_empty_def)
next
  case (Cancel d)
  then show ?thesis using cancel_represents [OF assms(1), of d] assms(2) by (auto simp: no_empty_def)
next
  case (Perform perf res d)
  then show ?thesis using perform_represents [OF assms, of perf res d] by auto
qed (use assms perform_all_represents get_descriptors_represents for_descriptors_represents cancellations_represents
    complete_represents destroy_represents in simp_all)

lemma fold_no_empty:
  "(\<And>d s. no_empty s \<Longrightarrow> no_empty (g d s)) \<Longrightarrow> no_empty s \<Longrightarrow> no_empty (fold g ds s)"
  by (induction ds arbitrary: s) simp_all

lemma qs_perform_no_empty: "no_empty s \<Longrightarrow> no_empty (snd (qs_perform perf res d s))"
  by (auto simp: qs_perform_def perform_list_no_empty Let_def simp del: qs_perform_list.simps split: option.split)

lemma step_no_empty: "no_empty s \<Longrightarrow> no_empty (qs_step c s)"
proof (induction c s rule: qs_step.induct)
  case (1 d s)
  then show ?case
    by (auto simp: qs_enqueue_def no_empty_def update_conv' map_add_def Let_def split: option.splits if_splits)
next
  case (2 d s)
  then show ?case by (auto simp: qs_cancel_def no_empty_def delete_conv' split: option.splits if_splits)
next
  case (5 perf ok s)
  then show ?case unfolding qs_step.simps qs_get_descriptors_def by (intro fold_no_empty) (simp_all add: perform_all_no_empty)
next
  case (6 perf res is_set s)
  then show ?case unfolding qs_step.simps qs_for_descriptors_def by (intro fold_no_empty) (simp_all add: qs_perform_no_empty)
qed (simp_all add: qs_perform_no_empty perform_all_no_empty, simp_all add: no_empty_def qs_cancellations_def qs_complete_all_def qs_destroy_def)

lemma op_queue_refines_run: "\<exists>q. oq_steps cs operation_queue = Some q \<and> represents q (fold qs_step cs qs_new)"
proof -
  have "\<exists>q'. oq_steps cs q = Some q' \<and> represents q' (fold qs_step cs s)"
    if "represents q s" "no_empty s" for q s
    using that
  proof (induction cs arbitrary: q s)
    case (Cons c cs)
    then show ?case using step_represents [OF Cons.prems, of c] step_no_empty [OF Cons.prems(2), of c] by auto
  qed simp
  moreover have "no_empty qs_new" by (simp add: no_empty_def qs_new_def)
  ultimately show ?thesis using represents_new by blast
qed

text \<open>C15: The operation queue, a structure of pointers, does to its lists of operations what the
  specification says: whatever is queued, cancelled, performed, completed or destroyed in whatever
  order, no null or dangling pointer is used, every loop over a list ends, and the nodes that are
  left are linked exactly into the lists of the specification, each into one of them.\<close>
theorem op_queue_refines:
  "\<exists>q. oq_steps cs operation_queue = Some q \<and> represents q (fold qs_step cs qs_new)"
  by (rule op_queue_refines_run)

section \<open>Every operation is accounted for\<close>

fun op_of :: "op_call \<Rightarrow> nat" where
  "op_of (Upcall x r b) = x"
| "op_of (Destroyed x) = x"

definition queue_ops :: "queue_spec \<Rightarrow> nat multiset" where
  "queue_ops s = mset (waiting_ops s) + mset (qs_cancelled s) + mset (qs_complete s) + mset (map op_of (qs_calls s))"

text \<open>Each operation that was ever queued is in one place, and those of a descriptor wait in the order
  in which they were queued.\<close>
definition counted :: "queue_spec \<Rightarrow> bool" where
  "counted s \<longleftrightarrow> queue_ops s = mset [0..<qs_fresh s] \<and> distinct (map fst (qs_waiting s))
     \<and> (\<forall>xs \<in> snd ` set (qs_waiting s). sorted xs)"

lemma waiting_parts:
  assumes "map_of (qs_waiting s) d = Some xs" and "distinct (map fst (qs_waiting s))"
  obtains Z where "mset (waiting_ops s) = mset xs + Z"
    and "\<And>ys. mset (concat (map snd (AList.update d ys (qs_waiting s)))) = mset ys + Z"
    and "mset (concat (map snd (AList.delete d (qs_waiting s)))) = Z"
proof -
  obtain w1 w2 where w: "qs_waiting s = w1 @ (d, xs) # w2" "\<And>ys. AList.update d ys (qs_waiting s) = w1 @ (d, ys) # w2"
      "AList.delete d (qs_waiting s) = w1 @ w2"
    using entry_split [OF assms] by metis
  show thesis
    by (rule that [of "mset (concat (map snd (w1 @ w2)))"])
      (simp_all add: w(2,3) ac_simps, simp add: waiting_ops_def w(1) ac_simps)
qed

lemma update_lists: "snd ` set (AList.update d ys w) \<subseteq> insert ys (snd ` set w)"
  by (induction w) auto

lemma ball_subset: "A \<subseteq> B \<Longrightarrow> \<forall>x \<in> B. P x \<Longrightarrow> \<forall>x \<in> A. P x"
  by blast

lemma delete_lists: "snd ` set (AList.delete d w) \<subseteq> snd ` set w"
  by (auto simp: AList.delete_eq)

lemma perform_list_counts:
  assumes "map_of (qs_waiting s) d = Some zs" and "distinct (map fst (qs_waiting s))"
  shows "queue_ops (qs_perform_list perf res d n xs s) + mset zs = queue_ops s + mset xs"
  using assms
proof (induction perf res d n xs s rule: qs_perform_list.induct)
  case (1 perf res d n s)
  obtain Z where "mset (waiting_ops s) = mset zs + Z" "mset (concat (map snd (AList.delete d (qs_waiting s)))) = Z"
    using waiting_parts [OF 1] by metis
  then show ?case by (simp add: queue_ops_def waiting_ops_def ac_simps)
next
  case (2 perf res d x xs s)
  obtain Z where "mset (waiting_ops s) = mset zs + Z"
    "\<And>ys. mset (concat (map snd (AList.update d ys (qs_waiting s)))) = mset ys + Z"
    using waiting_parts [OF 2] by metis
  then show ?case by (simp add: queue_ops_def waiting_ops_def ac_simps)
next
  case (3 perf res d n x xs s)
  obtain Z where "mset (waiting_ops s) = mset zs + Z"
    "\<And>ys. mset (concat (map snd (AList.update d ys (qs_waiting s)))) = mset ys + Z"
    using waiting_parts [OF 3(2,3)] by metis
  then show ?case using 3 by (simp add: queue_ops_def waiting_ops_def Let_def ac_simps)
qed

lemma perform_list_fresh: "qs_fresh (qs_perform_list perf res d n xs s) = qs_fresh s"
  by (induction perf res d n xs s rule: qs_perform_list.induct) (simp_all add: Let_def)

lemma perform_list_distinct:
  "distinct (map fst (qs_waiting s)) \<Longrightarrow> distinct (map fst (qs_waiting (qs_perform_list perf res d n xs s)))"
  by (induction perf res d n xs s rule: qs_perform_list.induct) (simp_all add: Let_def distinct_update distinct_delete)

lemma perform_list_sorted:
  "sorted xs \<Longrightarrow> \<forall>ys \<in> snd ` set (qs_waiting s). sorted ys \<Longrightarrow>
     \<forall>ys \<in> snd ` set (qs_waiting (qs_perform_list perf res d n xs s)). sorted ys"
proof (induction perf res d n xs s rule: qs_perform_list.induct)
  case (1 perf res d n s)
  from ball_subset [OF delete_lists 1(2)] show ?case by simp
next
  case (2 perf res d x xs s)
  have "\<forall>ys \<in> insert (x # xs) (snd ` set (qs_waiting s)). sorted ys" using 2 by blast
  from ball_subset [OF update_lists this] show ?case by simp
next
  case (3 perf res d n x xs s)
  have up: "\<forall>ys \<in> snd ` set (AList.update d (x # xs) (qs_waiting s)). sorted ys"
    by (rule ball_subset [OF update_lists]) (use 3(2,3) in blast)
  show ?case
  proof (cases "fst (perf x res)")
    case True
    then show ?thesis using 3(1) [OF refl True] 3(2,3) by (simp add: Let_def)
  next
    case False
    then show ?thesis using up by (simp add: Let_def)
  qed
qed

lemma perform_list_counted:
  assumes "counted s" and "map_of (qs_waiting s) d = Some xs"
  shows "counted (qs_perform_list perf res d n xs s)"
proof -
  let ?t = "qs_perform_list perf res d n xs s"
  have c: "queue_ops s = mset [0..<qs_fresh s]" "distinct (map fst (qs_waiting s))" "\<forall>ys \<in> snd ` set (qs_waiting s). sorted ys"
    using assms(1) unfolding counted_def by blast+
  have "sorted xs" using c(3) map_of_SomeD [OF assms(2)] by force
  then have "\<forall>ys \<in> snd ` set (qs_waiting ?t). sorted ys" by (rule perform_list_sorted [OF _ c(3)])
  moreover have "queue_ops ?t = queue_ops s"
    using perform_list_counts [OF assms(2) c(2), of perf res n xs] by (simp only: add_right_cancel)
  moreover have "distinct (map fst (qs_waiting ?t))" by (rule perform_list_distinct [OF c(2)])
  ultimately show ?thesis using c(1) perform_list_fresh [of perf res d n xs s] by (simp only: counted_def simp_thms)
qed

lemma fold_counted:
  "(\<And>d s. counted s \<Longrightarrow> counted (g d s)) \<Longrightarrow> counted s \<Longrightarrow> counted (fold g ds s)"
  by (induction ds arbitrary: s) simp_all

lemma qs_perform_counted: "counted s \<Longrightarrow> counted (snd (qs_perform perf res d s))"
  by (auto simp: qs_perform_def perform_list_counted Let_def simp del: qs_perform_list.simps split: option.split)

lemma qs_perform_all_counted: "counted s \<Longrightarrow> counted (qs_perform_all perf res d s)"
  by (auto simp: qs_perform_all_def perform_list_counted split: option.split)

lemma waiting_known:
  assumes "counted s" and "xs \<in> snd ` set (qs_waiting s)" and "x \<in> set xs"
  shows "x < qs_fresh s"
proof -
  have "x \<in># mset (waiting_ops s)" using assms(2,3) by (auto simp: waiting_ops_def)
  then have "x \<in># queue_ops s" by (simp add: queue_ops_def)
  then show ?thesis using assms(1) by (simp add: counted_def)
qed

lemma enqueue_counted:
  assumes "counted s"
  shows "counted (snd (qs_enqueue d s))"
proof (cases "map_of (qs_waiting s) d")
  case None
  then have "d \<notin> fst ` set (qs_waiting s)" by (simp add: map_of_eq_None_iff)
  then show ?thesis
    using assms None by (auto simp: qs_enqueue_def counted_def queue_ops_def waiting_ops_def Let_def)
next
  case (Some xs)
  have c: "distinct (map fst (qs_waiting s))" "\<forall>ys \<in> snd ` set (qs_waiting s). sorted ys"
    using assms unfolding counted_def by blast+
  have xs: "xs \<in> snd ` set (qs_waiting s)" using map_of_SomeD [OF Some] by force
  have "\<forall>x \<in> set xs. x \<le> qs_fresh s" using waiting_known [OF assms xs] by force
  moreover have "sorted xs" using c(2) xs by blast
  ultimately have "sorted (xs @ [qs_fresh s])" by (simp add: sorted_append)
  then have "\<forall>ys \<in> insert (xs @ [qs_fresh s]) (snd ` set (qs_waiting s)). sorted ys" using c(2) by blast
  from ball_subset [OF update_lists this] have
    s: "\<forall>ys \<in> snd ` set (AList.update d (xs @ [qs_fresh s]) (qs_waiting s)). sorted ys" .
  obtain Z where Z: "mset (waiting_ops s) = mset xs + Z"
    "\<And>ys. mset (concat (map snd (AList.update d ys (qs_waiting s)))) = mset ys + Z"
    using waiting_parts [OF Some c(1)] by metis
  have "queue_ops (snd (qs_enqueue d s)) = add_mset (qs_fresh s) (queue_ops s)"
    using Some Z by (simp add: qs_enqueue_def queue_ops_def Let_def waiting_ops_def ac_simps)
  then show ?thesis
    using assms s c(1) Some by (simp add: counted_def del: mset_upt) (simp add: qs_enqueue_def distinct_update Let_def del: mset_upt)
qed

lemma cancel_counted:
  assumes "counted s"
  shows "counted (snd (qs_cancel d s))"
proof (cases "map_of (qs_waiting s) d")
  case None
  then show ?thesis using assms by (simp add: qs_cancel_def)
next
  case (Some xs)
  have c: "distinct (map fst (qs_waiting s))" "\<forall>ys \<in> snd ` set (qs_waiting s). sorted ys"
    using assms unfolding counted_def by blast+
  obtain Z where Z: "mset (waiting_ops s) = mset xs + Z" "mset (concat (map snd (AList.delete d (qs_waiting s)))) = Z"
    using waiting_parts [OF Some c(1)] by metis
  have "queue_ops (snd (qs_cancel d s)) = queue_ops s"
    using Some Z by (simp add: qs_cancel_def queue_ops_def waiting_ops_def ac_simps)
  then show ?thesis
    using assms ball_subset [OF delete_lists c(2), of d] c(1) Some
    by (simp add: counted_def) (simp add: qs_cancel_def distinct_delete)
qed

lemma step_counted: "counted s \<Longrightarrow> counted (qs_step c s)"
proof (induction c s rule: qs_step.induct)
  case (5 perf ok s)
  then show ?case unfolding qs_step.simps qs_get_descriptors_def by (intro fold_counted) (simp_all add: qs_perform_all_counted)
next
  case (6 perf res is_set s)
  then show ?case unfolding qs_step.simps qs_for_descriptors_def by (intro fold_counted) (simp_all add: qs_perform_counted)
next
  case (7 perf s)
  then show ?case by (simp add: counted_def qs_cancellations_def queue_ops_def waiting_ops_def ac_simps)
next
  case (8 s)
  then show ?case by (simp add: counted_def qs_complete_all_def queue_ops_def waiting_ops_def comp_def ac_simps)
next
  case (9 s)
  then show ?case by (simp add: counted_def qs_destroy_def queue_ops_def waiting_ops_def comp_def ac_simps)
qed (simp_all add: enqueue_counted cancel_counted qs_perform_counted qs_perform_all_counted)

text \<open>C30: Every operation of the queue is called back or destroyed exactly once or still there: the
  operations whose upcall was made or that were destroyed are, each once, the ones that were queued
  and whose node has been freed; no node is freed twice or lost, and destroying the queue frees all
  that are left.\<close>
theorem op_queue_conserves:
  "\<exists>q. oq_steps cs operation_queue = Some q
    \<and> distinct (map op_of (oq_calls q))
    \<and> set (map op_of (oq_calls q)) = {x. x < oq_fresh q \<and> oq_heap q x = None}
    \<and> {x. oq_heap q x \<noteq> None} \<subseteq> {x. x < oq_fresh q}
    \<and> map_option oq_heap (destroy_operations q) = Some (\<lambda>_. None)"
proof -
  let ?s = "fold qs_step cs qs_new"
  obtain q where q: "oq_steps cs operation_queue = Some q" "represents q ?s" using op_queue_refines_run by blast
  note r = represents_dest [OF q(2)]
  have c: "counted ?s"
    by (induction cs rule: rev_induct) (simp_all add: step_counted, simp add: counted_def qs_new_def queue_ops_def waiting_ops_def)
  let ?live = "concat (lists_of ?s)" and ?called = "map op_of (oq_calls q)"
  have "mset (?live @ ?called) = mset [0..<oq_fresh q]"
    using c r(6,7) by (simp add: counted_def queue_ops_def lists_of_def waiting_ops_def ac_simps)
  then have d: "distinct (?live @ ?called)" "set (?live @ ?called) = {0..<oq_fresh q}"
    by (metis mset_eq_imp_distinct_iff distinct_upt) (metis mset_eq_setD set_upt \<open>mset (?live @ ?called) = mset [0..<oq_fresh q]\<close>)
  have h: "oq_heap q x \<noteq> None \<longleftrightarrow> x \<in> set ?live" for x using r(5) by (simp add: store_ok_def)
  obtain q' where q': "destroy_operations q = Some q'" "represents q' (qs_destroy ?s)"
    using destroy_represents [OF q(2)] by blast
  have "oq_heap q' x = None" for x
    using represents_dest(5) [OF q'(2)] by (simp add: store_ok_def lists_of_def qs_destroy_def)
  then have "map_option oq_heap (destroy_operations q) = Some (\<lambda>_. None)" using q'(1) by (simp add: fun_eq_iff)
  moreover have "set ?called = {x. x < oq_fresh q \<and> oq_heap q x = None}"
  proof -
    have "x \<in> set ?called \<longleftrightarrow> x < oq_fresh q \<and> x \<notin> set ?live" for x
    proof -
      have "set ?live \<inter> set ?called = {}" using d(1) by (simp only: distinct_append simp_thms)
      moreover have "x < oq_fresh q \<longleftrightarrow> x \<in> set ?live \<union> set ?called" using d(2) by (simp only: set_append atLeastLessThan_iff) simp
      ultimately show ?thesis by blast
    qed
    then show ?thesis using h by blast
  qed
  moreover have "{x. oq_heap q x \<noteq> None} \<subseteq> {x. x < oq_fresh q}" using d(2) h by auto
  ultimately show ?thesis using q(1) d(1) by auto
qed

end
