(* ===== verification/Safe_Buffer.thy ===== *)
theory Safe_Buffer
  imports Buffer_Io
begin

text \<open>\<open>p2engine/safe_buffer.hpp\<close>, \<open>src/safe_buffer.cpp\<close> and the writing side of
  \<open>safe_buffer_io.hpp\<close>: a buffer is a window (\<open>gptr\<close> to \<open>pptr\<close>) of a block of memory that it may
  share with other buffers. The blocks are in a store, known by number; a pointer into a block is an
  offset. A block keeps its length; what is in a new block is the argument \<open>bs_junk\<close> of the store.
  Blocks are not given back: reference counts are left out.

  A result of \<open>None\<close> is what the assertions of the source exclude: a pointer outside of its block, a
  window that ends before it begins, the use of a null block. A length that is the default of a
  parameter, the greatest number, is \<open>None\<close>.\<close>

section \<open>State\<close>

record block_store =
  bs_blocks :: "bytes list"
  bs_junk :: "nat \<Rightarrow> nat \<Rightarrow> byte"

record sbuf =
  sb_raw :: "nat option"
  sb_g :: nat
  sb_p :: nat

definition BUFFER_DELTA :: nat where "BUFFER_DELTA = 128"

definition raw_buffer_create :: "nat \<Rightarrow> block_store \<Rightarrow> nat \<times> block_store" where
  "raw_buffer_create len st =
     (let i = length (bs_blocks st)
      in (i, st\<lparr>bs_blocks := bs_blocks st @ [map (bs_junk st i) [0..<len]]\<rparr>))"

definition sb_null :: sbuf where
  "sb_null = \<lparr>sb_raw = None, sb_g = 0, sb_p = 0\<rparr>"

definition raw_len :: "nat \<Rightarrow> block_store \<Rightarrow> nat" where
  "raw_len i st = length (bs_blocks st ! i)"

section \<open>Construction and copies\<close>

definition sb_new :: "nat \<Rightarrow> block_store \<Rightarrow> sbuf \<times> block_store" where
  "sb_new len st =
     (let (i, st1) = raw_buffer_create (max len BUFFER_DELTA) st
      in (\<lparr>sb_raw = Some i, sb_g = 0, sb_p = len\<rparr>, st1))"

text \<open>Bytes are copied into a block.\<close>
definition sb_poke :: "nat \<Rightarrow> nat \<Rightarrow> bytes \<Rightarrow> block_store \<Rightarrow> block_store option" where
  "sb_poke i pos data st =
     (if i < length (bs_blocks st)
      then map_option (\<lambda>b. st\<lparr>bs_blocks := (bs_blocks st)[i := b]\<rparr>) (mem_copy (bs_blocks st ! i) pos data)
      else None)"

definition sb_of_data :: "bytes \<Rightarrow> block_store \<Rightarrow> (sbuf \<times> block_store) option" where
  "sb_of_data data st =
     (let (i, st1) = raw_buffer_create (max (length data) BUFFER_DELTA) st
      in map_option (Pair \<lparr>sb_raw = Some i, sb_g = 0, sb_p = length data\<rparr>) (sb_poke i 0 data st1))"

definition sb_length :: "sbuf \<Rightarrow> nat" where
  "sb_length b = (if sb_raw b = None then 0 else sb_p b - sb_g b)"

definition sb_capacity :: "sbuf \<Rightarrow> block_store \<Rightarrow> nat" where
  "sb_capacity b st = (case sb_raw b of None \<Rightarrow> 0 | Some i \<Rightarrow> raw_len i st - sb_g b)"

text \<open>\<open>reset(buf, trucated_len)\<close>, the copy constructor and the assignment: the block is shared.\<close>
definition sb_copy :: "sbuf \<Rightarrow> nat option \<Rightarrow> sbuf" where
  "sb_copy b trunc =
     \<lparr>sb_raw = sb_raw b, sb_g = sb_g b,
      sb_p = sb_g b + (case trunc of None \<Rightarrow> sb_length b | Some n \<Rightarrow> min (sb_length b) n)\<rparr>"

definition sb_clear :: "sbuf \<Rightarrow> sbuf" where
  "sb_clear b = b\<lparr>sb_g := 0, sb_p := 0\<rparr>"

definition sb_reserve :: "nat \<Rightarrow> sbuf \<Rightarrow> block_store \<Rightarrow> sbuf \<times> block_store" where
  "sb_reserve len b st =
     (if len = 0 \<or> len \<le> sb_capacity b st then (b, st)
      else let (i, st1) = raw_buffer_create len st in (\<lparr>sb_raw = Some i, sb_g = 0, sb_p = 0\<rparr>, st1))"

definition sb_bytes :: "sbuf \<Rightarrow> block_store \<Rightarrow> bytes" where
  "sb_bytes b st =
     (case sb_raw b of None \<Rightarrow> [] | Some i \<Rightarrow> take (sb_p b - sb_g b) (drop (sb_g b) (bs_blocks st ! i)))"

definition sb_realloc :: "nat \<Rightarrow> sbuf \<Rightarrow> block_store \<Rightarrow> (sbuf \<times> block_store) option" where
  "sb_realloc len b st =
     (if len = 0 then Some (sb_null, st)
      else
        let (b1, st1) = sb_reserve len b st in
        if sb_raw b = sb_raw b1 then Some (b1, st1)
        else if sb_length b > 0
        then let n = min (sb_length b) len in
             (case sb_raw b1 of
                None \<Rightarrow> None
              | Some i \<Rightarrow> map_option (Pair (b1\<lparr>sb_p := sb_g b1 + n\<rparr>)) (sb_poke i (sb_g b1) (take n (sb_bytes b st)) st1))
        else Some (b1, st1))"

definition sb_resize :: "nat \<Rightarrow> sbuf \<Rightarrow> block_store \<Rightarrow> (sbuf \<times> block_store) option" where
  "sb_resize len b st =
     map_option (\<lambda>(b1, st1). (b1\<lparr>sb_p := sb_g b1 + len\<rparr>, st1)) (sb_realloc len b st)"

text \<open>The setter of \<open>gptr\<close> asserts that the pointer is before the end of the block.\<close>
definition sb_recreate :: "nat \<Rightarrow> block_store \<Rightarrow> (sbuf \<times> block_store) option" where
  "sb_recreate len st =
     (if len = 0 then None
      else let (i, st1) = raw_buffer_create len st in Some (\<lparr>sb_raw = Some i, sb_g = 0, sb_p = len\<rparr>, st1))"

definition sb_clone :: "sbuf \<Rightarrow> block_store \<Rightarrow> (sbuf \<times> block_store) option" where
  "sb_clone b st =
     (if sb_raw b = None then Some (sb_null, st)
      else
        let (b1, st1) = sb_new (sb_length b) st in
        case sb_raw b1 of
          None \<Rightarrow> None
        | Some i \<Rightarrow> map_option (Pair b1) (sb_poke i (sb_g b1) (sb_bytes b st) st1))"

text \<open>\<open>buffer_ref\<close>: a window of the same block. The get pointer is moved without a check; the
  setter of \<open>pptr\<close> asserts that the end is in the block, and the assertion at the end, whose test
  of the bounds is behind \<open>raw_buffer_ ||\<close>, only asserts that the window ends behind its begin. So
  a window may begin before its block: \<open>Ref_before\<close> tells how far, and where it ends.\<close>

datatype buf_ref =
    Ref_window sbuf
  | Ref_before nat nat nat
  | Ref_refused

definition sb_buffer_ref :: "int \<Rightarrow> nat option \<Rightarrow> sbuf \<Rightarrow> block_store \<Rightarrow> buf_ref" where
  "sb_buffer_ref off len b st =
     (let n = (case len of None \<Rightarrow> int (sb_length b) - off | Some n \<Rightarrow> int n);
          g = int (sb_g b) + off
      in case sb_raw b of
           None \<Rightarrow> if off = 0 \<and> n = 0 then Ref_window sb_null else Ref_refused
         | Some i \<Rightarrow>
             if sb_length b = 0 \<and> (off \<noteq> 0 \<or> n \<noteq> 0) then Ref_refused
             else if n < 0 \<or> g + n < 0 \<or> int (raw_len i st) < g + n then Ref_refused
             else if g < 0 then Ref_before i (nat (- g)) (nat (g + n))
             else Ref_window \<lparr>sb_raw = Some i, sb_g = nat g, sb_p = nat (g + n)\<rparr>)"

section \<open>Bytes of a buffer\<close>

definition sb_get :: "bool \<Rightarrow> nat \<Rightarrow> sbuf \<Rightarrow> block_store \<Rightarrow> 'w::len word option" where
  "sb_get big off b st =
     (case sb_raw b of
        None \<Rightarrow> None
      | Some i \<Rightarrow>
          if sb_g b + off + LENGTH('w) div 8 \<le> sb_p b
          then map_option fst (read_value big (bs_blocks st ! i) (sb_g b + off) False) else None)"

definition sb_set :: "bool \<Rightarrow> 'w::len word \<Rightarrow> nat \<Rightarrow> sbuf \<Rightarrow> block_store \<Rightarrow> block_store option" where
  "sb_set big v off b st =
     (case sb_raw b of
        None \<Rightarrow> None
      | Some i \<Rightarrow>
          if sb_g b + off + LENGTH('w) div 8 \<le> sb_p b
          then sb_poke i (sb_g b + off) (to_memory big v) st else None)"

definition sb_get_data :: "nat \<Rightarrow> nat \<Rightarrow> sbuf \<Rightarrow> block_store \<Rightarrow> bytes option" where
  "sb_get_data len off b st =
     (if sb_raw b = None \<or> sb_length b < off then None
      else Some (take (min len (sb_length b - off)) (drop off (sb_bytes b st))))"

definition sb_set_data :: "bytes \<Rightarrow> nat \<Rightarrow> sbuf \<Rightarrow> block_store \<Rightarrow> block_store option" where
  "sb_set_data data off b st =
     (case sb_raw b of
        None \<Rightarrow> None
      | Some i \<Rightarrow> if off + length data \<le> sb_length b then sb_poke i (sb_g b + off) data st else None)"

definition sb_memset :: "byte \<Rightarrow> nat option \<Rightarrow> nat \<Rightarrow> sbuf \<Rightarrow> block_store \<Rightarrow> (nat \<times> block_store) option" where
  "sb_memset v len off b st =
     (if sb_length b < off then None
      else let n = (case len of None \<Rightarrow> sb_length b - off | Some n \<Rightarrow> n)
           in map_option (Pair n) (sb_set_data (replicate n v) off b st))"

definition sb_consume :: "nat \<Rightarrow> sbuf \<Rightarrow> sbuf option" where
  "sb_consume n b = (if n \<le> sb_length b then Some (b\<lparr>sb_g := sb_g b + n\<rparr>) else None)"

definition sb_commit :: "nat \<Rightarrow> sbuf \<Rightarrow> block_store \<Rightarrow> sbuf option" where
  "sb_commit n b st = (if n + sb_length b \<le> sb_capacity b st then Some (b\<lparr>sb_p := sb_p b + n\<rparr>) else None)"

section \<open>The stream\<close>

text \<open>\<open>safe_buffer_io\<close> over a buffer: the bytes go to \<open>pptr\<close>, wherever that is.\<close>

definition sbi_put :: "bytes \<Rightarrow> sbuf \<Rightarrow> block_store \<Rightarrow> (sbuf \<times> block_store) option" where
  "sbi_put data b st =
     (case sb_raw b of
        None \<Rightarrow> None
      | Some i \<Rightarrow>
          Option.bind (sb_poke i (sb_p b) data st) (\<lambda>st1.
          map_option (\<lambda>b1. (b1, st1)) (sb_commit (length data) b st1)))"

definition sbi_write :: "bytes \<Rightarrow> sbuf \<Rightarrow> block_store \<Rightarrow> (nat \<times> sbuf \<times> block_store) option" where
  "sbi_write data b st =
     (if data = [] then Some (0, b, st)
      else map_option (Pair (length data))
             (Option.bind (sb_realloc (sb_length b + length data) b st) (\<lambda>(b1, st1). sbi_put data b1 st1)))"

definition sbi_read :: "nat \<Rightarrow> sbuf \<Rightarrow> block_store \<Rightarrow> (bytes \<times> sbuf) option" where
  "sbi_read len b st =
     (let n = min len (sb_length b)
      in if n = 0 then Some ([], b) else map_option (Pair (take n (sb_bytes b st))) (sb_consume n b))"

definition sbi_prepare :: "nat \<Rightarrow> sbuf \<Rightarrow> block_store \<Rightarrow> (sbuf \<times> block_store) option" where
  "sbi_prepare n b st =
     (if sb_capacity b st < n + sb_length b
      then sb_realloc (sb_length b + (if n < 256 \<and> sb_length b + 256 < 1500 then 256 else n)) b st
      else Some (b, st))"

definition sbi_put_int :: "bool \<Rightarrow> 'w::len word \<Rightarrow> sbuf \<Rightarrow> block_store \<Rightarrow> (sbuf \<times> block_store) option" where
  "sbi_put_int big v b st =
     Option.bind (sbi_prepare (LENGTH('w) div 8) b st) (\<lambda>(b1, st1). sbi_put (to_memory big (hton big v)) b1 st1)"

text \<open>\<open>_read\<close> asserts that the bytes are there.\<close>
definition sbi_get_int :: "bool \<Rightarrow> sbuf \<Rightarrow> block_store \<Rightarrow> ('w::len word \<times> sbuf) option" where
  "sbi_get_int big b st =
     (if sb_length b < LENGTH('w) div 8 then None
      else
        case read_int_ntoh big (sb_bytes b st) 0 True of
          None \<Rightarrow> None
        | Some (v, _) \<Rightarrow> map_option (Pair v) (sb_consume (LENGTH('w) div 8) b))"

text \<open>\<open>operator+=\<close> and the reading into another buffer.\<close>
definition sbi_append :: "sbuf \<Rightarrow> sbuf \<Rightarrow> block_store \<Rightarrow> (sbuf \<times> block_store) option" where
  "sbi_append other b st =
     Option.bind (sb_realloc (sb_length b + sb_length other) b st)
       (\<lambda>(b1, st1). if sb_length other = 0 then Some (b1, st1) else sbi_put (sb_bytes other st1) b1 st1)"

end
