(* ===== verification/Safe_Buffer_Theorems.thy ===== *)
theory Safe_Buffer_Theorems
  imports Safe_Buffer
begin

text \<open>Buffers over shared blocks. Every operation keeps all buffers inside their blocks; the
  stream operations do on the bytes of a buffer what \<open>Buffer_Io\<close> says; who else sees a write.\<close>

section \<open>Well-formed buffers and growing stores\<close>

definition sb_ok :: "block_store \<Rightarrow> sbuf \<Rightarrow> bool" where
  "sb_ok st b =
     (case sb_raw b of
        None \<Rightarrow> sb_g b = 0 \<and> sb_p b = 0
      | Some i \<Rightarrow> i < length (bs_blocks st) \<and> sb_g b \<le> sb_p b \<and> sb_p b \<le> raw_len i st)"

definition store_grows :: "block_store \<Rightarrow> block_store \<Rightarrow> bool" where
  "store_grows st st' \<longleftrightarrow>
     length (bs_blocks st) \<le> length (bs_blocks st') \<and>
     (\<forall>i < length (bs_blocks st). raw_len i st' = raw_len i st)"

lemma store_grows_refl [simp, intro]: "store_grows st st"
  by (simp add: store_grows_def)

lemma store_grows_trans [trans]: "store_grows st st1 \<Longrightarrow> store_grows st1 st2 \<Longrightarrow> store_grows st st2"
  by (auto simp: store_grows_def)

lemma ok_grows: "store_grows st st' \<Longrightarrow> sb_ok st b \<Longrightarrow> sb_ok st' b"
  by (auto simp: store_grows_def sb_ok_def split: option.splits)

lemma ok_null [simp]: "sb_ok st sb_null"
  by (simp add: sb_ok_def sb_null_def)

lemma length_bytes [simp]: "sb_ok st b \<Longrightarrow> length (sb_bytes b st) = sb_length b"
  by (auto simp: sb_ok_def sb_bytes_def sb_length_def raw_len_def split: option.splits)

lemma length_le_capacity: "sb_ok st b \<Longrightarrow> sb_length b \<le> sb_capacity b st"
  by (auto simp: sb_ok_def sb_length_def sb_capacity_def split: option.splits)

section \<open>Blocks\<close>

lemma create_eq:
  "raw_buffer_create len st =
     (length (bs_blocks st),
      st\<lparr>bs_blocks := bs_blocks st @ [map (bs_junk st (length (bs_blocks st))) [0..<len]]\<rparr>)"
  by (simp add: raw_buffer_create_def Let_def)

lemma create_grows: "raw_buffer_create len st = (i, st') \<Longrightarrow> store_grows st st'"
  by (auto simp: create_eq store_grows_def raw_len_def nth_append)

lemma create_bytes: "raw_buffer_create len st = (i, st') \<Longrightarrow> sb_ok st c \<Longrightarrow> sb_bytes c st' = sb_bytes c st"
  by (auto simp: create_eq sb_ok_def sb_bytes_def nth_append split: option.splits)

lemma poke_some:
  assumes "i < length (bs_blocks st)" "pos + length data \<le> raw_len i st"
  shows "sb_poke i pos data st =
     Some (st\<lparr>bs_blocks := (bs_blocks st)
       [i := take pos (bs_blocks st ! i) @ data @ drop (pos + length data) (bs_blocks st ! i)]\<rparr>)"
  using assms by (simp add: sb_poke_def mem_copy_def raw_len_def)

lemma poke_range:
  "sb_poke i pos data st = Some st' \<Longrightarrow> i < length (bs_blocks st) \<and> pos + length data \<le> raw_len i st"
  by (auto simp: sb_poke_def mem_copy_def raw_len_def split: if_splits)

lemma poke_block:
  assumes "sb_poke i pos data st = Some st'"
  shows "bs_blocks st' ! j =
     (if j = i then take pos (bs_blocks st ! i) @ data @ drop (pos + length data) (bs_blocks st ! i)
      else bs_blocks st ! j)"
    and "length (bs_blocks st') = length (bs_blocks st)" and "raw_len j st' = raw_len j st"
  using assms poke_range [OF assms] by (auto simp: poke_some raw_len_def nth_list_update)

lemma poke_grows: "sb_poke i pos data st = Some st' \<Longrightarrow> store_grows st st'"
  by (simp add: store_grows_def poke_block)

lemma poke_frame:
  assumes "sb_poke i pos data st = Some st'" and "sb_ok st c"
    and "sb_raw c \<noteq> Some i \<or> sb_p c \<le> pos \<or> pos + length data \<le> sb_g c"
  shows "sb_bytes c st' = sb_bytes c st"
proof (cases "sb_raw c = Some i")
  case False
  then show ?thesis
    by (auto simp: sb_bytes_def poke_block(1) [OF assms(1)] split: option.splits)
next
  case True
  note r = poke_range [OF assms(1)]
  have "sb_g c \<le> sb_p c" "sb_p c \<le> raw_len i st"
    using assms(2) True by (auto simp: sb_ok_def)
  then show ?thesis
    using assms(3) True r
    by (auto simp: sb_bytes_def poke_block(1) [OF assms(1)] raw_len_def drop_take min_absorb1)
qed

section \<open>Reallocation\<close>

lemma realloc_fresh:
  assumes ok: "sb_ok st b" and len: "sb_capacity b st < len"
  shows "\<exists>b' st'. sb_realloc len b st = Some (b', st') \<and> sb_raw b' = Some (length (bs_blocks st)) \<and>
     sb_g b' = 0 \<and> sb_p b' = sb_length b \<and> raw_len (length (bs_blocks st)) st' = len \<and>
     length (bs_blocks st') = Suc (length (bs_blocks st)) \<and>
     take (sb_length b) (bs_blocks st' ! length (bs_blocks st)) = sb_bytes b st \<and>
     (\<forall>i < length (bs_blocks st). bs_blocks st' ! i = bs_blocks st ! i)"
proof -
  have l: "sb_length b \<le> len"
    using length_le_capacity [OF ok] len by simp
  obtain i st1 where c: "raw_buffer_create len st = (i, st1)" by fastforce
  then have i: "i = length (bs_blocks st)" and st1: "length (bs_blocks st1) = Suc i" "raw_len i st1 = len"
    and old: "\<forall>j < i. bs_blocks st1 ! j = bs_blocks st ! j"
    by (auto simp: create_eq raw_len_def nth_append)
  have ne: "sb_raw b \<noteq> Some i"
    using ok i by (auto simp: sb_ok_def)
  have res: "sb_reserve len b st = (\<lparr>sb_raw = Some i, sb_g = 0, sb_p = 0\<rparr>, st1)"
    using len c by (simp add: sb_reserve_def)
  show ?thesis
  proof (cases "sb_length b > 0")
    case False
    then show ?thesis
      using res ne len l i st1 old length_bytes [OF ok] by (simp add: sb_realloc_def)
  next
    case True
    let ?d = "take (sb_length b) (sb_bytes b st)"
    have d: "?d = sb_bytes b st" "length (sb_bytes b st) = sb_length b"
      using length_bytes [OF ok] by simp_all
    have "i < length (bs_blocks st1)" "0 + length (sb_bytes b st) \<le> raw_len i st1"
      using st1 d l by simp_all
    from poke_some [OF this] obtain st2 where p: "sb_poke i 0 (sb_bytes b st) st1 = Some st2"
      by blast
    show ?thesis
      using res ne len l i st1 old d p True
      by (auto simp: sb_realloc_def min_absorb1 poke_block [OF p])
  qed
qed

lemma realloc_same:
  assumes "0 < len" and "len \<le> sb_capacity b st"
  shows "sb_realloc len b st = Some (b, st)"
  using assms by (simp add: sb_realloc_def sb_reserve_def)

text \<open>What every reallocation keeps: whatever the length asked for, if it is not zero, no byte is lost.\<close>

lemma realloc_spec:
  assumes ok: "sb_ok st b"
  obtains b' st' where "sb_realloc len b st = Some (b', st')" and "sb_ok st' b'" and "store_grows st st'"
    and "0 < len \<Longrightarrow> sb_bytes b' st' = sb_bytes b st" and "0 < len \<Longrightarrow> sb_length b' = sb_length b"
    and "len \<le> sb_capacity b' st'" and "0 < len \<Longrightarrow> sb_raw b' \<noteq> None"
    and "\<And>c. sb_ok st c \<Longrightarrow> sb_bytes c st' = sb_bytes c st"
    and "b' = b \<or> (\<forall>c. sb_ok st c \<longrightarrow> sb_raw c \<noteq> sb_raw b') \<or> b' = sb_null"
proof -
  consider (z) "len = 0" | (s) "0 < len" "len \<le> sb_capacity b st" | (f) "0 < len" "sb_capacity b st < len"
    by linarith
  then show ?thesis
  proof cases
    case z
    then show ?thesis
      using that [of sb_null st] by (simp add: sb_realloc_def)
  next
    case s
    then have "sb_raw b \<noteq> None"
      by (auto simp: sb_capacity_def split: option.splits)
    then show ?thesis
      using that [of b st] realloc_same [OF s] s ok by simp
  next
    case f
    obtain b' st' where r: "sb_realloc len b st = Some (b', st')" "sb_raw b' = Some (length (bs_blocks st))"
      "sb_g b' = 0" "sb_p b' = sb_length b" "raw_len (length (bs_blocks st)) st' = len"
      "length (bs_blocks st') = Suc (length (bs_blocks st))"
      "take (sb_length b) (bs_blocks st' ! length (bs_blocks st)) = sb_bytes b st"
      and old: "\<forall>i < length (bs_blocks st). bs_blocks st' ! i = bs_blocks st ! i"
      using realloc_fresh [OF ok f(2)] by metis
    have "sb_length b \<le> len"
      using length_le_capacity [OF ok] f by simp
    moreover have "store_grows st st'"
      using r old by (simp add: store_grows_def raw_len_def)
    moreover have "sb_bytes c st' = sb_bytes c st" if "sb_ok st c" for c
      using that old by (auto simp: sb_ok_def sb_bytes_def split: option.splits)
    moreover have "sb_raw c \<noteq> sb_raw b'" if "sb_ok st c" for c
      using that r by (auto simp: sb_ok_def)
    ultimately show ?thesis
      using that [of b' st'] r by (auto simp: sb_ok_def sb_bytes_def sb_length_def sb_capacity_def)
  qed
qed

section \<open>Appending\<close>

text \<open>What it is to append: the bytes come behind those of the buffer, and whoever does not look
  behind the end of the buffer in the same block sees no change.\<close>

definition sb_appended :: "bytes \<Rightarrow> sbuf \<Rightarrow> block_store \<Rightarrow> sbuf \<Rightarrow> block_store \<Rightarrow> bool" where
  "sb_appended data b st b' st' \<longleftrightarrow>
     sb_ok st' b' \<and> store_grows st st' \<and> sb_bytes b' st' = sb_bytes b st @ data \<and>
     (\<forall>c. sb_ok st c \<and> (sb_raw c \<noteq> sb_raw b \<or> sb_p c \<le> sb_p b) \<longrightarrow> sb_bytes c st' = sb_bytes c st)"

lemma put_appends:
  assumes ok: "sb_ok st b" and raw: "sb_raw b \<noteq> None" and room: "length data + sb_length b \<le> sb_capacity b st"
  obtains st' where "sbi_put data b st = Some (b\<lparr>sb_p := sb_p b + length data\<rparr>, st')"
    and "sb_appended data b st (b\<lparr>sb_p := sb_p b + length data\<rparr>) st'"
    and "\<And>i. sb_raw b = Some i \<Longrightarrow> sb_poke i (sb_p b) data st = Some st'"
proof -
  obtain i where i: "sb_raw b = Some i" using raw by blast
  have r: "i < length (bs_blocks st)" "sb_g b \<le> sb_p b" "sb_p b + length data \<le> raw_len i st"
    using ok room i by (auto simp: sb_ok_def sb_length_def sb_capacity_def)
  obtain st' where p: "sb_poke i (sb_p b) data st = Some st'"
    using poke_some [OF r(1,3)] by blast
  note blk = poke_block [OF p]
  have "sbi_put data b st = Some (b\<lparr>sb_p := sb_p b + length data\<rparr>, st')"
    using i p room r by (simp add: sbi_put_def sb_commit_def sb_capacity_def blk)
  moreover have "sb_bytes (b\<lparr>sb_p := sb_p b + length data\<rparr>) st' = sb_bytes b st @ data"
    using i r by (simp add: sb_bytes_def blk(1) raw_len_def drop_take min_absorb1 Suc_diff_le)
  moreover have "sb_ok st' (b\<lparr>sb_p := sb_p b + length data\<rparr>)"
    using i r by (simp add: sb_ok_def blk)
  moreover have "sb_bytes c st' = sb_bytes c st" if "sb_ok st c" "sb_raw c \<noteq> sb_raw b \<or> sb_p c \<le> sb_p b" for c
    using poke_frame [OF p that(1)] that(2) i by auto
  ultimately show ?thesis
    using that p i poke_grows [OF p] by (auto simp: sb_appended_def)
qed

lemma realloc_put_appends:
  assumes ok: "sb_ok st b" and len: "sb_length b + length data \<le> len" "0 < len"
  obtains b' st' where "Option.bind (sb_realloc len b st) (\<lambda>(b1, st1). sbi_put data b1 st1) = Some (b', st')"
    and "sb_appended data b st b' st'"
proof -
  obtain b1 st1 where re: "sb_realloc len b st = Some (b1, st1)"
    and r: "sb_ok st1 b1" "store_grows st st1" "sb_bytes b1 st1 = sb_bytes b st" "sb_length b1 = sb_length b"
      "len \<le> sb_capacity b1 st1" "sb_raw b1 \<noteq> None"
    and keep: "\<And>c. sb_ok st c \<Longrightarrow> sb_bytes c st1 = sb_bytes c st"
    and who: "b1 = b \<or> (\<forall>c. sb_ok st c \<longrightarrow> sb_raw c \<noteq> sb_raw b1) \<or> b1 = sb_null"
    by (rule realloc_spec [OF ok, of len]) (use len(2) in blast)
  have "length data + sb_length b1 \<le> sb_capacity b1 st1"
    using r len by simp
  from put_appends [OF r(1,6) this]
  obtain st2 where p: "sbi_put data b1 st1 = Some (b1\<lparr>sb_p := sb_p b1 + length data\<rparr>, st2)"
    and a: "sb_appended data b1 st1 (b1\<lparr>sb_p := sb_p b1 + length data\<rparr>) st2" by blast
  have "sb_bytes c st2 = sb_bytes c st" if c: "sb_ok st c" "sb_raw c \<noteq> sb_raw b \<or> sb_p c \<le> sb_p b" for c
    using a who c keep [OF c(1)] ok_grows [OF r(2) c(1)] r(6) unfolding sb_appended_def
    by (metis option.distinct(1) sb_null_def sbuf.select_convs(1))
  then have "sb_appended data b st (b1\<lparr>sb_p := sb_p b1 + length data\<rparr>) st2"
    using a r(2,3) store_grows_trans by (auto simp: sb_appended_def)
  then show ?thesis
    using that re p by simp
qed

lemma write_appends:
  assumes ok: "sb_ok st b"
  obtains b' st' where "sbi_write data b st = Some (length data, b', st')" and "sb_appended data b st b' st'"
proof (cases "data = []")
  case True
  then show ?thesis
    using that [of b st] ok by (simp add: sbi_write_def sb_appended_def)
next
  case False
  obtain b' st' where "Option.bind (sb_realloc (sb_length b + length data) b st) (\<lambda>(b1, st1). sbi_put data b1 st1)
      = Some (b', st')" "sb_appended data b st b' st'"
    by (rule realloc_put_appends [OF ok, of data "sb_length b + length data"]) (use False in auto)
  then show ?thesis
    using that False by (simp add: sbi_write_def)
qed

lemma put_int_appends:
  fixes v :: "'w::len word"
  assumes ok: "sb_ok st b" and w: "8 \<le> LENGTH('w)"
  obtains b' st' where "sbi_put_int big v b st = Some (b', st')"
    and "sb_appended (to_memory big (hton big v)) b st b' st'"
proof -
  let ?n = "LENGTH('w) div 8" and ?d = "to_memory big (hton big v)"
  have n: "0 < ?n" using w by (simp add: div_greater_zero_iff)
  show ?thesis
  proof (cases "sb_capacity b st < ?n + sb_length b")
    case True
    let ?len = "sb_length b + (if ?n < 256 \<and> sb_length b + 256 < 1500 then 256 else ?n)"
    have "Option.bind (sb_realloc ?len b st) (\<lambda>(b1, st1). sbi_put ?d b1 st1) = sbi_put_int big v b st"
      using True by (simp add: sbi_put_int_def sbi_prepare_def)
    moreover have "sb_length b + length ?d \<le> ?len" "0 < ?len"
      using n by auto
    ultimately show ?thesis
      using realloc_put_appends [OF ok, of ?d ?len] that by metis
  next
    case False
    then have "sb_raw b \<noteq> None"
      using n by (cases "sb_raw b") (simp_all add: sb_capacity_def)
    then show ?thesis
      using put_appends [OF ok, of ?d] that False by (fastforce simp: sbi_put_int_def sbi_prepare_def)
  qed
qed

lemma append_appends:
  assumes ok: "sb_ok st b" and oth: "sb_ok st other"
  obtains b' st' where "sbi_append other b st = Some (b', st')" and "sb_ok st' b'" and "store_grows st st'"
    and "sb_bytes b' st' = sb_bytes b st @ sb_bytes other st"
proof -
  let ?len = "sb_length b + sb_length other"
  have l: "length (sb_bytes b st) = sb_length b" "length (sb_bytes other st) = sb_length other"
    using ok oth by simp_all
  show ?thesis
  proof (cases "?len = 0")
    case True
    then show ?thesis
      using that [of sb_null st] l by (simp add: sbi_append_def sb_realloc_def) (simp add: sb_bytes_def sb_null_def)
  next
    case False
    then have pos: "0 < ?len" by simp
    obtain b1 st1 where re: "sb_realloc ?len b st = Some (b1, st1)"
      and r: "sb_ok st1 b1" "store_grows st st1" "sb_bytes b1 st1 = sb_bytes b st" "sb_length b1 = sb_length b"
        "?len \<le> sb_capacity b1 st1" "sb_raw b1 \<noteq> None"
      and keep: "\<And>c. sb_ok st c \<Longrightarrow> sb_bytes c st1 = sb_bytes c st"
      by (rule realloc_spec [OF ok, of ?len]) (use pos in blast)
    show ?thesis
    proof (cases "sb_length other = 0")
      case True
      then show ?thesis
        using that re r l by (simp add: sbi_append_def)
    next
      case False
      have "length (sb_bytes other st) + sb_length b1 \<le> sb_capacity b1 st1"
        using r l by simp
      from put_appends [OF r(1,6) this]
      obtain b2 st2 where "sbi_put (sb_bytes other st) b1 st1 = Some (b2, st2)"
        and "sb_appended (sb_bytes other st) b1 st1 b2 st2" by blast
      then show ?thesis
        using that re r keep [OF oth] False store_grows_trans [OF r(2)]
        by (simp add: sbi_append_def sb_appended_def)
    qed
  qed
qed

section \<open>Reading\<close>

lemma consume_ok:
  assumes "sb_ok st b" and "n \<le> sb_length b"
  shows "sb_consume n b = Some (b\<lparr>sb_g := sb_g b + n\<rparr>)" and "sb_ok st (b\<lparr>sb_g := sb_g b + n\<rparr>)"
    and "sb_bytes (b\<lparr>sb_g := sb_g b + n\<rparr>) st = drop n (sb_bytes b st)"
  using assms by (auto simp: sb_consume_def sb_ok_def sb_bytes_def sb_length_def drop_take ac_simps split: option.splits)

lemma put_int_any:
  fixes v :: "'w::len word"
  shows "io_put_int big v buf = buf @ to_memory big (hton big v)"
  by (simp add: io_put_int_def write_int_hton_def write_int_def write_value_def mem_copy_def)

lemma read_consumes:
  assumes "sb_ok st b"
  obtains b' where "sbi_read n b st = Some (fst (io_read n (sb_bytes b st)), b')"
    and "sb_ok st b'" and "sb_bytes b' st = snd (io_read n (sb_bytes b st))"
proof -
  let ?n = "min n (sb_length b)"
  have "?n \<le> sb_length b" by simp
  note c = consume_ok [OF assms this]
  show ?thesis
  proof (cases "?n = 0")
    case True
    then show ?thesis
      using that [of b] assms by (simp add: sbi_read_def io_read_def Let_def)
  next
    case False
    have "sbi_read n b st = Some (fst (io_read n (sb_bytes b st)), b\<lparr>sb_g := sb_g b + ?n\<rparr>)"
      using False c(1) assms by (simp add: sbi_read_def io_read_def Let_def)
    then show ?thesis
      by (rule that) (use c(2,3) assms in \<open>simp_all add: io_read_def Let_def\<close>)
  qed
qed

lemma get_int_short: "sb_length b < LENGTH('w) div 8 \<Longrightarrow>
    sbi_get_int big b st = (None :: ('w::len word \<times> sbuf) option)"
  by (simp add: sbi_get_int_def)

lemma get_int_consumes:
  assumes "sb_ok st b" and len: "LENGTH('w) div 8 \<le> sb_length b"
  obtains b' where "sbi_get_int big b st = Some (fst (io_get_int big (sb_bytes b st)) :: 'w::len word, b')"
    and "sb_ok st b'" and "sb_bytes b' st = snd (io_get_int big (sb_bytes b st) :: 'w word \<times> bytes)"
proof -
  from consume_ok [OF assms] len show ?thesis
    using that assms
    by (simp add: sbi_get_int_def io_get_int_def read_int_ntoh_def read_int_def read_value_def Let_def)
qed

section \<open>Any sequence of operations\<close>

text \<open>A program over a list of buffers: an operation names the buffers it works on by their place;
  what it makes comes to the end of the list. A program ends where an assertion fails, and where it
  takes a reference that begins before its block.\<close>

datatype sb_act =
    Act_new nat
  | Act_of_data bytes
  | Act_recreate nat nat
  | Act_copy nat "nat option"
  | Act_clone nat
  | Act_ref nat int "nat option"
  | Act_clear nat
  | Act_reserve nat nat
  | Act_realloc nat nat
  | Act_resize nat nat
  | Act_set_data nat bytes nat
  | Act_memset nat byte "nat option" nat
  | Act_write nat bytes
  | Act_put_u32 nat bool u32
  | Act_read nat nat
  | Act_get_u32 nat bool
  | Act_append nat nat

definition sb_made :: "sbuf list \<Rightarrow> (sbuf \<times> block_store) option \<Rightarrow> (sbuf list \<times> block_store) option" where
  "sb_made bs r = map_option (\<lambda>(b, st). (bs @ [b], st)) r"

definition sb_became :: "nat \<Rightarrow> sbuf list \<Rightarrow> (sbuf \<times> block_store) option \<Rightarrow> (sbuf list \<times> block_store) option" where
  "sb_became k bs r = (if k < length bs then map_option (\<lambda>(b, st). (bs[k := b], st)) r else None)"

definition sb_wrote :: "nat \<Rightarrow> sbuf list \<Rightarrow> block_store option \<Rightarrow> (sbuf list \<times> block_store) option" where
  "sb_wrote k bs r = (if k < length bs then map_option (Pair bs) r else None)"

fun sb_exec :: "sb_act \<Rightarrow> sbuf list \<times> block_store \<Rightarrow> (sbuf list \<times> block_store) option" where
  "sb_exec (Act_new n) (bs, st) = sb_made bs (Some (sb_new n st))"
| "sb_exec (Act_of_data d) (bs, st) = sb_made bs (sb_of_data d st)"
| "sb_exec (Act_recreate k n) (bs, st) = sb_became k bs (sb_recreate n st)"
| "sb_exec (Act_copy k t) (bs, st) =
     (if k < length bs then sb_made bs (Some (sb_copy (bs ! k) t, st)) else None)"
| "sb_exec (Act_clone k) (bs, st) = (if k < length bs then sb_made bs (sb_clone (bs ! k) st) else None)"
| "sb_exec (Act_ref k off n) (bs, st) =
     (if k < length bs
      then case sb_buffer_ref off n (bs ! k) st of
             Ref_window b \<Rightarrow> sb_made bs (Some (b, st)) | _ \<Rightarrow> None
      else None)"
| "sb_exec (Act_clear k) (bs, st) = sb_became k bs (Some (sb_clear (bs ! k), st))"
| "sb_exec (Act_reserve k n) (bs, st) = sb_became k bs (Some (sb_reserve n (bs ! k) st))"
| "sb_exec (Act_realloc k n) (bs, st) = sb_became k bs (sb_realloc n (bs ! k) st)"
| "sb_exec (Act_resize k n) (bs, st) = sb_became k bs (sb_resize n (bs ! k) st)"
| "sb_exec (Act_set_data k d off) (bs, st) = sb_wrote k bs (sb_set_data d off (bs ! k) st)"
| "sb_exec (Act_memset k v n off) (bs, st) = sb_wrote k bs (map_option snd (sb_memset v n off (bs ! k) st))"
| "sb_exec (Act_write k d) (bs, st) = sb_became k bs (map_option snd (sbi_write d (bs ! k) st))"
| "sb_exec (Act_put_u32 k big v) (bs, st) = sb_became k bs (sbi_put_int big v (bs ! k) st)"
| "sb_exec (Act_read k n) (bs, st) =
     sb_became k bs (map_option (\<lambda>(d, b). (b, st)) (sbi_read n (bs ! k) st))"
| "sb_exec (Act_get_u32 k big) (bs, st) =
     sb_became k bs (map_option (\<lambda>(v :: u32, b). (b, st)) (sbi_get_int big (bs ! k) st))"
| "sb_exec (Act_append k j) (bs, st) =
     (if j < length bs then sb_became k bs (sbi_append (bs ! j) (bs ! k) st) else None)"

fun sb_exec_all :: "sb_act list \<Rightarrow> sbuf list \<times> block_store \<Rightarrow> (sbuf list \<times> block_store) option" where
  "sb_exec_all [] s = Some s"
| "sb_exec_all (a # as) s = Option.bind (sb_exec a s) (sb_exec_all as)"

text \<open>The results an operation may have: a well-formed buffer and a store that has only grown.\<close>

definition sb_sound :: "block_store \<Rightarrow> (sbuf \<times> block_store) option \<Rightarrow> bool" where
  "sb_sound st r \<longleftrightarrow> (\<forall>b st'. r = Some (b, st') \<longrightarrow> sb_ok st' b \<and> store_grows st st')"

lemma made_ok:
  "list_all (sb_ok st) bs \<Longrightarrow> sb_sound st r \<Longrightarrow> sb_made bs r = Some (bs', st') \<Longrightarrow> list_all (sb_ok st') bs'"
  using ok_grows by (fastforce simp: sb_made_def sb_sound_def list_all_iff)

lemma became_ok:
  "list_all (sb_ok st) bs \<Longrightarrow> sb_sound st r \<Longrightarrow> sb_became k bs r = Some (bs', st') \<Longrightarrow> list_all (sb_ok st') bs'"
  using ok_grows set_update_subset_insert [of bs k]
  by (fastforce simp: sb_became_def sb_sound_def list_all_iff split: if_splits)

lemma sound_new [simp]: "sb_sound st (Some (sb_new n st))"
  by (auto simp: sb_sound_def sb_new_def create_eq sb_ok_def raw_len_def store_grows_def nth_append Let_def)

lemma sound_recreate [simp]: "sb_sound st (sb_recreate n st)"
  by (auto simp: sb_sound_def sb_recreate_def create_eq sb_ok_def raw_len_def store_grows_def nth_append)

lemma sound_poke:
  assumes "sb_sound st (Some (b, st1))"
  shows "sb_sound st (map_option (Pair b) (sb_poke i p d st1))"
proof (cases "sb_poke i p d st1")
  case (Some st2)
  from poke_grows [OF this] show ?thesis
    using assms Some ok_grows store_grows_trans by (simp add: sb_sound_def) blast
qed (simp add: sb_sound_def)

lemma sound_of_data [simp]: "sb_sound st (sb_of_data d st)"
proof -
  have "sb_of_data d st = map_option (Pair (fst (sb_new (length d) st)))
      (sb_poke (length (bs_blocks st)) 0 d (snd (sb_new (length d) st)))"
    by (simp add: sb_of_data_def sb_new_def create_eq Let_def)
  then show ?thesis
    using sound_poke [of st "fst (sb_new (length d) st)" "snd (sb_new (length d) st)"] by simp
qed

lemma sound_clone [simp]: "sb_sound st (sb_clone b st)"
proof (cases "sb_raw b")
  case None
  then show ?thesis by (simp add: sb_clone_def sb_sound_def)
next
  case (Some i)
  obtain b1 st1 where n: "sb_new (sb_length b) st = (b1, st1)" by fastforce
  then have "sb_sound st (Some (b1, st1))"
    using sound_new [of st "sb_length b"] by simp
  from sound_poke [OF this] show ?thesis
    using Some n by (cases "sb_raw b1") (simp_all add: sb_clone_def sb_sound_def)
qed

lemma sound_copy [simp]: "sb_ok st b \<Longrightarrow> sb_sound st (Some (sb_copy b t, st))"
  by (auto simp: sb_sound_def sb_copy_def sb_ok_def sb_length_def split: option.splits)

lemma ref_window_ok: "sb_ok st b \<Longrightarrow> sb_buffer_ref off n b st = Ref_window c \<Longrightarrow> sb_ok st c"
  by (auto simp: sb_buffer_ref_def sb_ok_def raw_len_def sb_null_def Let_def
      split: option.splits if_splits)

lemma ref_before_offset: "sb_buffer_ref off n b st = Ref_before i d p \<Longrightarrow> off < - int (sb_g b)"
  by (auto simp: sb_buffer_ref_def Let_def split: option.splits if_splits)

lemma sound_ref [simp]:
  "sb_ok st b \<Longrightarrow> sb_buffer_ref off n b st = Ref_window c \<Longrightarrow> sb_sound st (Some (c, st))"
  using ref_window_ok by (simp add: sb_sound_def)

text \<open>A reference that begins before its block passes the assertion of \<open>buffer_ref\<close>.\<close>
lemma ref_before_block:
  "let (b, st) = sb_new 4 \<lparr>bs_blocks = [], bs_junk = \<lambda>i j. 0\<rparr> in
     sb_buffer_ref (- 2) (Some 4) b st = Ref_before 0 2 2"
  by (simp add: sb_new_def create_eq sb_buffer_ref_def sb_length_def raw_len_def BUFFER_DELTA_def)

lemma sound_clear [simp]: "sb_ok st b \<Longrightarrow> sb_sound st (Some (sb_clear b, st))"
  by (auto simp: sb_sound_def sb_clear_def sb_ok_def split: option.splits)

lemma sound_reserve [simp]: "sb_ok st b \<Longrightarrow> sb_sound st (Some (sb_reserve n b st))"
  by (auto simp: sb_sound_def sb_reserve_def create_eq sb_ok_def raw_len_def store_grows_def nth_append
      split: if_splits)

lemma sound_realloc [simp]: "sb_ok st b \<Longrightarrow> sb_sound st (sb_realloc n b st)"
  using realloc_spec [of st b n] by (fastforce simp: sb_sound_def)

lemma sound_resize [simp]:
  assumes "sb_ok st b" shows "sb_sound st (sb_resize n b st)"
proof -
  obtain b' st' where r: "sb_realloc n b st = Some (b', st')" "sb_ok st' b'" "store_grows st st'"
    "n \<le> sb_capacity b' st'"
    by (rule realloc_spec [OF assms, of n]) blast
  then show ?thesis
    by (auto simp: sb_sound_def sb_resize_def sb_ok_def sb_capacity_def raw_len_def split: option.splits)
qed

lemma sound_stream [simp]:
  assumes "sb_ok st b"
  shows "sb_sound st (map_option snd (sbi_write d b st))" "sb_sound st (sbi_put_int big (v :: u32) b st)"
    "sb_sound st (map_option (\<lambda>(d, b). (b, st)) (sbi_read n b st))"
    "sb_sound st (map_option (\<lambda>(v :: u32, b). (b, st)) (sbi_get_int big b st))"
    "sb_ok st other \<Longrightarrow> sb_sound st (sbi_append other b st)"
proof -
  show "sb_sound st (map_option snd (sbi_write d b st))"
    using write_appends [OF assms, of d] by (fastforce simp: sb_sound_def sb_appended_def)
  show "sb_sound st (sbi_put_int big v b st)"
    using put_int_appends [OF assms, of big v] by (fastforce simp: sb_sound_def sb_appended_def)
  show "sb_sound st (map_option (\<lambda>(d, b). (b, st)) (sbi_read n b st))"
    using read_consumes [OF assms, of n] by (fastforce simp: sb_sound_def)
  show "sb_sound st (map_option (\<lambda>(v :: u32, b). (b, st)) (sbi_get_int big b st))"
  proof (cases "LENGTH(32) div 8 \<le> sb_length b")
    case True
    obtain b' where "sbi_get_int big b st = Some (fst (io_get_int big (sb_bytes b st)) :: u32, b')" "sb_ok st b'"
      by (rule get_int_consumes [OF assms True])
    then show ?thesis by (simp add: sb_sound_def)
  next
    case False
    then have "sbi_get_int big b st = (None :: (u32 \<times> sbuf) option)"
      by (intro get_int_short) simp
    then show ?thesis by (simp add: sb_sound_def)
  qed
  show "sb_sound st (sbi_append other b st)" if "sb_ok st other"
    using append_appends [OF assms that] by (fastforce simp: sb_sound_def)
qed

lemma wrote_ok:
  assumes "list_all (sb_ok st) bs" and "\<And>st'. r = Some st' \<Longrightarrow> store_grows st st'"
    and "sb_wrote k bs r = Some (bs', st')"
  shows "list_all (sb_ok st') bs'"
  using assms ok_grows by (fastforce simp: sb_wrote_def list_all_iff split: if_splits)

lemma set_data_grows: "sb_set_data d off b st = Some st' \<Longrightarrow> store_grows st st'"
  using poke_grows by (fastforce simp: sb_set_data_def split: option.splits if_splits)

lemma exec_ok:
  assumes "list_all (sb_ok st) bs" and "sb_exec a (bs, st) = Some (bs', st')"
  shows "list_all (sb_ok st') bs'"
proof -
  have k: "sb_ok st (bs ! k)" if "k < length bs" for k
    using assms(1) that by (simp add: list_all_length)
  have m: "list_all (sb_ok st') bs'" if "sb_made bs r = Some (bs', st')" "sb_sound st r" for r
    using made_ok [OF assms(1)] that by blast
  have b: "list_all (sb_ok st') bs'"
    if "sb_became k bs r = Some (bs', st')" "k < length bs \<Longrightarrow> sb_sound st r" for k r
    using became_ok [OF assms(1)] that by (metis option.distinct(1) sb_became_def)
  show ?thesis
  proof (cases a)
    case (Act_set_data k d off)
    with assms(2) have "sb_wrote k bs (sb_set_data d off (bs ! k) st) = Some (bs', st')" by simp
    from wrote_ok [OF assms(1) set_data_grows this] show ?thesis .
  next
    case (Act_memset k v n off)
    with assms(2) have w: "sb_wrote k bs (map_option snd (sb_memset v n off (bs ! k) st)) = Some (bs', st')"
      by simp
    have "store_grows st st2" if "map_option snd (sb_memset v n off (bs ! k) st) = Some st2" for st2
      using that set_data_grows by (auto simp: sb_memset_def Let_def split: if_splits)
    from wrote_ok [OF assms(1) this w] show ?thesis .
  next
    case (Act_ref k off n)
    with assms(2) k show ?thesis
      by (auto split: if_splits buf_ref.splits intro: m [OF _ sound_ref [OF k]])
  qed (insert assms(2), (clarsimp split: if_splits, (erule m | erule b), simp add: k)+)
qed

section \<open>Copies\<close>

lemma copy_same: "sb_ok st b \<Longrightarrow> sb_copy b None = b"
  by (cases b) (auto simp: sb_copy_def sb_length_def sb_ok_def split: option.splits)

text \<open>A clone has a block of its own.\<close>

lemma clone_private:
  assumes ok: "sb_ok st b"
  obtains c st1 where "sb_clone b st = Some (c, st1)" and "sb_ok st1 c" and "store_grows st st1"
    and "sb_bytes c st1 = sb_bytes b st" and "sb_bytes b st1 = sb_bytes b st"
    and "sb_raw b = None \<or> sb_raw c \<noteq> sb_raw b"
proof (cases "sb_raw b")
  case None
  then show ?thesis
    using that [of sb_null st] by (simp add: sb_clone_def sb_bytes_def sb_null_def sb_ok_def)
next
  case (Some j)
  let ?i = "length (bs_blocks st)" and ?n = "sb_length b" and ?d = "sb_bytes b st"
  obtain st0 where c: "raw_buffer_create (max ?n BUFFER_DELTA) st = (?i, st0)"
    by (simp add: create_eq)
  have st0: "?i < length (bs_blocks st0)" "raw_len ?i st0 = max ?n BUFFER_DELTA"
    using c by (auto simp: create_eq raw_len_def nth_append)
  have d: "length ?d = ?n" using ok by simp
  then have "0 + length ?d \<le> raw_len ?i st0" using st0 by simp
  from poke_some [OF st0(1) this] obtain st1 where p: "sb_poke ?i 0 ?d st0 = Some st1" by blast
  let ?c = "\<lparr>sb_raw = Some ?i, sb_g = 0, sb_p = ?n\<rparr>"
  have "sb_clone b st = Some (?c, st1)"
    using Some c p by (simp add: sb_clone_def sb_new_def)
  moreover have "sb_raw ?c \<noteq> sb_raw b"
    using ok Some by (auto simp: sb_ok_def)
  moreover have "sb_bytes b st1 = sb_bytes b st"
    using poke_frame [OF p ok_grows [OF create_grows [OF c] ok]] create_bytes [OF c ok] ok Some
    by (auto simp: sb_ok_def)
  ultimately show ?thesis
    using that d st0 store_grows_trans [OF create_grows [OF c] poke_grows [OF p]]
    by (simp add: sb_ok_def sb_bytes_def poke_block [OF p])
qed

lemma resize_prefix:
  assumes ok: "sb_ok st b" and n: "0 < n" "n \<le> sb_length b"
  obtains b' st' where "sb_resize n b st = Some (b', st')" and "sb_length b' = n"
    and "sb_bytes b' st' = take n (sb_bytes b st)"
proof -
  have "n \<le> sb_capacity b st"
    using n length_le_capacity [OF ok] by simp
  from realloc_same [OF n(1) this] show ?thesis
    using that n ok by (auto simp: sb_resize_def sb_length_def sb_bytes_def min_absorb1 split: option.splits if_splits)
qed

section \<open>Properties\<close>

text \<open>C17: Whatever buffers a program creates, copies, cuts, moves and writes, up to an assertion
  that fails and as long as it takes no reference that begins before its block, every one of them
  points into a block that exists, its get pointer not behind its put pointer and its put pointer not
  behind the end of the block; so its length is at most its capacity and its bytes are there. A
  reference is again such a window, or refused by an assertion; only one with an offset that goes
  back behind the start of the block is neither: the assertion of \<open>buffer_ref\<close> lets it through
  (\<open>ref_before_block\<close>).\<close>
lemma buffers_stay_inside:
  assumes "sb_exec_all acts ([], \<lparr>bs_blocks = [], bs_junk = junk\<rparr>) = Some (bs, st)" and "k < length bs"
  shows "sb_ok st (bs ! k) \<and> sb_length (bs ! k) \<le> sb_capacity (bs ! k) st \<and>
     length (sb_bytes (bs ! k) st) = sb_length (bs ! k) \<and>
     (case sb_buffer_ref off n (bs ! k) st of
        Ref_window c \<Rightarrow> sb_ok st c
      | Ref_before i d p \<Rightarrow> off < - int (sb_g (bs ! k))
      | Ref_refused \<Rightarrow> True)"
proof -
  have "list_all (sb_ok st2) bs2"
    if "list_all (sb_ok st1) bs1" "sb_exec_all as (bs1, st1) = Some (bs2, st2)" for as bs1 st1 bs2 st2
    using that
  proof (induction as arbitrary: bs1 st1)
    case (Cons a as)
    then show ?case
      using exec_ok by (fastforce simp: bind_eq_Some_conv)
  qed simp
  from this [OF _ assms(1)] assms(2) show ?thesis
    using length_le_capacity ref_window_ok ref_before_offset
    by (auto simp: list_all_length split: buf_ref.splits)
qed

lemma buffers_stay_inside_witness:
  "\<exists>bs st. sb_exec_all [Act_of_data [1, 2, 3], Act_copy 0 None, Act_write 0 [4], Act_read 1 2, Act_ref 0 1 (Some 2)]
     ([], \<lparr>bs_blocks = [], bs_junk = \<lambda>i j. 0\<rparr>) = Some (bs, st) \<and> 2 < length bs \<and> sb_ok st (bs ! 2)"
proof -
  obtain bs st where r: "sb_exec_all [Act_of_data [1, 2, 3], Act_copy 0 None, Act_write 0 [4], Act_read 1 2, Act_ref 0 1 (Some 2)]
     ([], \<lparr>bs_blocks = [], bs_junk = \<lambda>i j. 0\<rparr>) = Some (bs, st)" and l: "2 < length bs"
    by (simp add: sb_of_data_def create_eq BUFFER_DELTA_def poke_some raw_len_def sb_made_def sb_became_def
        sb_copy_def sb_length_def sbi_write_def sb_realloc_def sb_reserve_def sb_capacity_def sbi_put_def
        sb_commit_def sbi_read_def sb_consume_def sb_buffer_ref_def Let_def)
  from r l buffers_stay_inside [OF r l] show ?thesis by blast
qed



lemma write_over:
  assumes ok: "sb_ok st b" and room: "sb_raw b \<noteq> None" "length x + sb_length b \<le> sb_capacity b st"
    and len: "length y = length x"
  obtains b1 st1 b2 st2 where "sbi_write x b st = Some (length x, b1, st1)"
    and "sbi_write y (sb_copy b None) st1 = Some (length x, b2, st2)" and "sb_bytes b1 st2 = sb_bytes b st @ y"
proof (cases "x = []")
  case True
  then show ?thesis
    using that [of b st b st] len copy_same [OF ok] by (simp add: sbi_write_def)
next
  case False
  have put: "sbi_write z b s = map_option (Pair (length x)) (sbi_put z b s)"
    if "length z = length x" "sb_capacity b s = sb_capacity b st" for z s
    using that False room realloc_same [of "sb_length b + length x" b s] by (auto simp: sbi_write_def)
  obtain st1 where p: "sbi_put x b st = Some (b\<lparr>sb_p := sb_p b + length x\<rparr>, st1)"
    and a: "sb_appended x b st (b\<lparr>sb_p := sb_p b + length x\<rparr>) st1"
    by (rule put_appends [OF ok room]) blast
  have grow: "store_grows st st1" and keep: "sb_bytes b st1 = sb_bytes b st"
    using a ok by (auto simp: sb_appended_def)
  have ok1: "sb_ok st1 b" using ok_grows [OF grow ok] .
  have cap: "sb_capacity b st1 = sb_capacity b st"
    using grow ok by (auto simp: sb_capacity_def store_grows_def sb_ok_def split: option.splits)
  have "length y + sb_length b \<le> sb_capacity b st1" using room len cap by simp
  from put_appends [OF ok1 room(1) this]
  obtain st2 where q: "sbi_put y b st1 = Some (b\<lparr>sb_p := sb_p b + length y\<rparr>, st2)"
    and b2: "sb_appended y b st1 (b\<lparr>sb_p := sb_p b + length y\<rparr>) st2" by blast
  show ?thesis
    using that put [of x st] put [of y st1] p q b2 cap keep copy_same [OF ok] len
    by (auto simp: sb_appended_def)
qed

text \<open>C29: Who sees a write. Writing to a well-formed buffer, whether there is room behind it or it
  has to be reallocated, changes the bytes of no well-formed buffer that is in another block or that
  ends at or before the put pointer, and the buffer written to has the bytes behind its own. But a
  copy shares what is behind the end: if the block has room for it, appending as many bytes to a copy
  of the buffer as it was puts them over those that were appended first.\<close>
lemma who_sees_a_write:
  assumes ok: "sb_ok st b"
  shows "\<exists>b1 st1. sbi_write x b st = Some (length x, b1, st1) \<and>
     sb_bytes b1 st1 = sb_bytes b st @ x \<and>
     (\<forall>c. sb_ok st c \<and> (sb_raw c \<noteq> sb_raw b \<or> sb_p c \<le> sb_p b) \<longrightarrow>
        sb_ok st1 c \<and> sb_bytes c st1 = sb_bytes c st) \<and>
     (sb_raw b \<noteq> None \<and> length x + sb_length b \<le> sb_capacity b st \<and> length y = length x \<longrightarrow>
        (\<exists>b2 st2. sbi_write y (sb_copy b None) st1 = Some (length x, b2, st2) \<and>
           sb_bytes b1 st2 = sb_bytes b st @ y))"
proof -
  obtain b1 st1 where w: "sbi_write x b st = Some (length x, b1, st1)" and a: "sb_appended x b st b1 st1"
    by (rule write_appends [OF ok])
  have "\<exists>b2 st2. sbi_write y (sb_copy b None) st1 = Some (length x, b2, st2) \<and>
      sb_bytes b1 st2 = sb_bytes b st @ y"
    if room: "sb_raw b \<noteq> None" "length x + sb_length b \<le> sb_capacity b st" and "length y = length x"
    by (rule write_over [OF ok room that(3)]) (use w in auto)
  then show ?thesis
    using w a ok_grows unfolding sb_appended_def by blast
qed

lemma who_sees_a_write_witness:
  "\<exists>b1 st1 b2 st2. let (b, st) = sb_new 0 \<lparr>bs_blocks = [], bs_junk = \<lambda>i j. 0\<rparr> in
     sbi_write [1, 2] b st = Some (2, b1, st1) \<and> sb_bytes b1 st1 = [1, 2] \<and>
     sbi_write [3, 4] (sb_copy b None) st1 = Some (2, b2, st2) \<and> sb_bytes b1 st2 = [3, 4]"
proof -
  let ?st = "\<lparr>bs_blocks = [], bs_junk = \<lambda>i j. 0\<rparr> :: block_store"
  let ?b = "fst (sb_new 0 ?st)" and ?s = "snd (sb_new 0 ?st)"
  have ok: "sb_ok ?s ?b"
    using sound_new [of ?st 0] by (simp add: sb_sound_def)
  have "sb_raw ?b \<noteq> None" "length [1, 2 :: byte] + sb_length ?b \<le> sb_capacity ?b ?s" "sb_bytes ?b ?s = []"
    by (simp_all add: sb_new_def create_eq sb_length_def sb_capacity_def raw_len_def BUFFER_DELTA_def sb_bytes_def)
  then show ?thesis
    using who_sees_a_write [OF ok, of "[1, 2]" "[3, 4]"]
    by (simp add: case_prod_beta numeral_2_eq_2) blast
qed

end
