(* ===== verification/Fssignal.thy ===== *)
theory Fssignal
  imports Prelude
begin

text \<open>\<open>p2engine/fssignal.hpp\<close> and \<open>src/fssignal.cpp\<close>: signals, the connections of their slots,
  and the objects (trackables) whose destruction disconnects slots. A slot may do anything with the
  signals while it is called, so an emission is not one function: \<open>fs_emit\<close> runs up to the first
  call of a slot, \<open>fs_return\<close> goes on when that slot returns, \<open>fs_throw\<close> unwinds when it throws, and in
  between the other operations may run, emissions of the same signal among them. The stack of
  emissions in progress is \<open>fs_frames\<close>. The model is the variant of slots without a result.

  Signals, their implementations (\<open>signal_base_impl\<close>), connections and trackables have numbers. The
  node of \<open>m_connections\<close> that was made for a connection has its number; the flag of a node says
  whether its pointer is still there. A result of \<open>None\<close> is what may not happen: erasing a node that is
  not in the list, taking from an empty list, going on from a node that is gone, a dead trackable, or a
  failed assertion. \<open>fs_log\<close> records which connection was called by which emission.\<close>

section \<open>State\<close>

record fs_conn =
  fc_signal :: "nat option"
  fc_func :: "nat option"
  fc_trackables :: "nat list"

record fs_impl =
  fi_nodes :: "(nat \<times> bool) list"
  fi_emitting :: nat
  fi_need :: bool

record fs_frame =
  ff_impl :: nat
  ff_node :: nat
  ff_front :: bool
  ff_no :: nat

record fs_state =
  fs_conns :: "nat \<Rightarrow> fs_conn"
  fs_n_conns :: nat
  fs_impls :: "nat \<Rightarrow> fs_impl"
  fs_n_impls :: nat
  fs_tracks :: "nat \<Rightarrow> nat list option"
  fs_elems :: "nat option list"
  fs_frames :: "fs_frame list"
  fs_emissions :: nat
  fs_log :: "(nat \<times> nat) list"

definition fs_init :: "nat \<Rightarrow> fs_state" where
  "fs_init n =
     \<lparr>fs_conns = (\<lambda>_. \<lparr>fc_signal = None, fc_func = None, fc_trackables = []\<rparr>), fs_n_conns = 0,
      fs_impls = (\<lambda>_. \<lparr>fi_nodes = [], fi_emitting = 0, fi_need = False\<rparr>), fs_n_impls = 0,
      fs_tracks = (\<lambda>_. Some []), fs_elems = replicate n None, fs_frames = [], fs_emissions = 0, fs_log = []\<rparr>"

definition fs_conn_change :: "nat \<Rightarrow> (fs_conn \<Rightarrow> fs_conn) \<Rightarrow> fs_state \<Rightarrow> fs_state" where
  "fs_conn_change c f s = s\<lparr>fs_conns := (fs_conns s)(c := f (fs_conns s c))\<rparr>"

definition fs_impl_change :: "nat \<Rightarrow> (fs_impl \<Rightarrow> fs_impl) \<Rightarrow> fs_state \<Rightarrow> fs_state" where
  "fs_impl_change i f s = s\<lparr>fs_impls := (fs_impls s)(i := f (fs_impls s i))\<rparr>"

section \<open>Connections\<close>

definition fs_connected :: "fs_state \<Rightarrow> nat \<Rightarrow> bool" where
  "fs_connected s c = (fc_signal (fs_conns s c) \<noteq> None)"

text \<open>A node with its pointer there, of a slot that is connected.\<close>
definition fs_live :: "fs_state \<Rightarrow> nat \<times> bool \<Rightarrow> bool" where
  "fs_live s n = (snd n \<and> fs_connected s (fst n))"

definition is_emiting :: "fs_impl \<Rightarrow> bool" where
  "is_emiting i = (fi_emitting i > 0)"

text \<open>\<open>signal_base_impl::disconnect_without_callback_connection\<close>.\<close>
definition forget_node :: "nat \<Rightarrow> nat \<Rightarrow> fs_state \<Rightarrow> fs_state option" where
  "forget_node i c s =
     (let m = fs_impls s i in
      if c \<notin> fst ` set (fi_nodes m) then None
      else if is_emiting m
      then Some (fs_impl_change i
             (\<lambda>m. m\<lparr>fi_nodes := map (\<lambda>n. if fst n = c then (c, False) else n) (fi_nodes m), fi_need := True\<rparr>) s)
      else Some (fs_impl_change i (\<lambda>m. m\<lparr>fi_nodes := filter (\<lambda>n. fst n \<noteq> c) (fi_nodes m)\<rparr>) s))"

text \<open>\<open>trackable::disconnect_without_callback_connection\<close>, for each trackable of a slot.\<close>
definition untrack :: "nat \<Rightarrow> nat \<Rightarrow> fs_state \<Rightarrow> fs_state" where
  "untrack c t s = s\<lparr>fs_tracks := (fs_tracks s)(t := map_option (filter (\<lambda>d. d \<noteq> c)) (fs_tracks s t))\<rparr>"

definition fs_disconnect :: "nat \<Rightarrow> fs_state \<Rightarrow> fs_state option" where
  "fs_disconnect c s =
     (case fc_signal (fs_conns s c) of
        None \<Rightarrow> Some s
      | Some i \<Rightarrow>
          let s1 = fs_conn_change c (\<lambda>k. k\<lparr>fc_signal := None, fc_func := None\<rparr>) s;
              s2 = fold (untrack c) (fc_trackables (fs_conns s c)) s1;
              s3 = fs_conn_change c (\<lambda>k. k\<lparr>fc_trackables := []\<rparr>) s2
          in forget_node i c s3)"

text \<open>\<open>connection_base::track\<close> and \<open>trackable::track\<close>: a trackable is registered once.\<close>
definition fs_track :: "nat \<Rightarrow> nat \<Rightarrow> fs_state \<Rightarrow> fs_state option" where
  "fs_track c t s =
     (case fs_tracks s t of
        None \<Rightarrow> None
      | Some cs \<Rightarrow>
          if t \<in> set (fc_trackables (fs_conns s c)) then Some s
          else Some ((fs_conn_change c (\<lambda>k. k\<lparr>fc_trackables := fc_trackables k @ [t]\<rparr>) s)
                 \<lparr>fs_tracks := (fs_tracks s)(t := Some (cs @ [c]))\<rparr>))"

fun fs_track_all :: "nat \<Rightarrow> nat list \<Rightarrow> fs_state \<Rightarrow> fs_state option" where
  "fs_track_all c [] s = Some s"
| "fs_track_all c (t # ts) s = Option.bind (fs_track c t s) (fs_track_all c ts)"

text \<open>The destructor of a trackable.\<close>
fun untrack_loop :: "nat \<Rightarrow> nat \<Rightarrow> fs_state \<Rightarrow> fs_state option" where
  "untrack_loop 0 t s = Some s"
| "untrack_loop (Suc n) t s =
     (case fs_tracks s t of
        Some (c # cs) \<Rightarrow> Option.bind (fs_disconnect c s) (untrack_loop n t)
      | _ \<Rightarrow> Some s)"

definition fs_trackable_destroy :: "nat \<Rightarrow> fs_state \<Rightarrow> fs_state option" where
  "fs_trackable_destroy t s =
     (case fs_tracks s t of
        None \<Rightarrow> None
      | Some cs \<Rightarrow> map_option (\<lambda>s1. s1\<lparr>fs_tracks := (fs_tracks s1)(t := None)\<rparr>) (untrack_loop (length cs) t s))"

section \<open>Signals\<close>

definition fs_size :: "nat \<Rightarrow> fs_state \<Rightarrow> nat" where
  "fs_size i s = length (filter (fs_live s) (fi_nodes (fs_impls s i)))"

definition fs_empty :: "nat \<Rightarrow> fs_state \<Rightarrow> bool" where
  "fs_empty i s = (\<not> list_ex (fs_live s) (fi_nodes (fs_impls s i)))"

text \<open>\<open>creat_signal_base_impl\<close>.\<close>
definition fs_creat :: "nat \<Rightarrow> fs_state \<Rightarrow> (nat \<times> fs_state) option" where
  "fs_creat g s =
     (if g < length (fs_elems s)
      then case fs_elems s ! g of
             Some i \<Rightarrow> Some (i, s)
           | None \<Rightarrow>
               let i = fs_n_impls s
               in Some (i, (fs_impl_change i (\<lambda>_. \<lparr>fi_nodes = [], fi_emitting = 0, fi_need = False\<rparr>) s)
                    \<lparr>fs_n_impls := i + 1, fs_elems := (fs_elems s)[g := Some i]\<rparr>)
      else None)"

definition fs_bind :: "nat \<Rightarrow> nat \<Rightarrow> nat list \<Rightarrow> fs_state \<Rightarrow> (nat \<times> fs_state) option" where
  "fs_bind g fp ts s =
     Option.bind (fs_creat g s) (\<lambda>(i, s1).
       let c = fs_n_conns s1;
           s2 = (fs_conn_change c (\<lambda>_. \<lparr>fc_signal = Some i, fc_func = Some fp, fc_trackables = []\<rparr>) s1)
                  \<lparr>fs_n_conns := c + 1\<rparr>;
           s3 = fs_impl_change i (\<lambda>m. m\<lparr>fi_nodes := fi_nodes m @ [(c, True)]\<rparr>) s2
       in map_option (Pair c) (fs_track_all c ts s3))"

text \<open>The first loop of \<open>disconnect_all_slots\<close> takes a node away each time round.\<close>
fun fs_clear_loop :: "nat \<Rightarrow> nat \<Rightarrow> fs_state \<Rightarrow> fs_state option" where
  "fs_clear_loop 0 i s = Some s"
| "fs_clear_loop (Suc n) i s =
     (case fi_nodes (fs_impls s i) of
        [] \<Rightarrow> Some s
      | m # ms \<Rightarrow>
          if \<not> fs_live s m then fs_clear_loop n i (fs_impl_change i (\<lambda>k. k\<lparr>fi_nodes := ms\<rparr>) s)
          else Option.bind (fs_disconnect (fst m) s) (fs_clear_loop n i))"

fun fs_disconnect_each :: "(nat \<times> bool) list \<Rightarrow> fs_state \<Rightarrow> fs_state option" where
  "fs_disconnect_each [] s = Some s"
| "fs_disconnect_each (m # ms) s =
     Option.bind (if fs_live s m then fs_disconnect (fst m) s else Some s) (fs_disconnect_each ms)"

definition fs_disconnect_all :: "nat \<Rightarrow> fs_state \<Rightarrow> fs_state option" where
  "fs_disconnect_all i s =
     (let ns = fi_nodes (fs_impls s i) in
      if ns = [] then Some s
      else if \<not> is_emiting (fs_impls s i)
      then fs_clear_loop (length ns) i (fs_impl_change i (\<lambda>m. m\<lparr>fi_need := False\<rparr>) s)
      else fs_disconnect_each ns (fs_impl_change i (\<lambda>m. m\<lparr>fi_need := True\<rparr>) s))"

text \<open>\<open>pop_front_slot\<close> and \<open>pop_back_slot\<close>. Outside of an emission \<open>disconnect\<close> erases the node, and
  then the loop takes one more from the same end.\<close>

definition drop_end :: "bool \<Rightarrow> nat \<Rightarrow> fs_state \<Rightarrow> fs_state option" where
  "drop_end back i s =
     (let ns = fi_nodes (fs_impls s i) in
      if ns = [] then None
      else Some (fs_impl_change i (\<lambda>m. m\<lparr>fi_nodes := (if back then butlast ns else tl ns)\<rparr>) s))"

fun pop_loop :: "nat \<Rightarrow> bool \<Rightarrow> nat \<Rightarrow> fs_state \<Rightarrow> fs_state option" where
  "pop_loop 0 back i s = Some s"
| "pop_loop (Suc n) back i s =
     (let ns = fi_nodes (fs_impls s i) in
      if ns = [] then Some s
      else let m = (if back then last ns else hd ns) in
           if fs_live s m then Option.bind (fs_disconnect (fst m) s) (drop_end back i)
           else Option.bind (drop_end back i s) (pop_loop n back i))"

definition fs_pop_slot :: "bool \<Rightarrow> nat \<Rightarrow> fs_state \<Rightarrow> fs_state option" where
  "fs_pop_slot back i s =
     (let ns = fi_nodes (fs_impls s i) in
      if ns = [] then Some s
      else if is_emiting (fs_impls s i)
      then case find (fs_live s) (if back then rev ns else ns) of
             None \<Rightarrow> Some s
           | Some m \<Rightarrow> map_option (fs_impl_change i (\<lambda>k. k\<lparr>fi_need := True\<rparr>)) (fs_disconnect (fst m) s)
      else pop_loop (length ns) back i s)"

definition clear_pending_erase :: "nat \<Rightarrow> fs_state \<Rightarrow> fs_state option" where
  "clear_pending_erase i s =
     (let m = fs_impls s i in
      if fi_nodes m = [] then if fi_need m then None else Some s
      else if \<not> fi_need m then if fs_size i s = length (fi_nodes m) then Some s else None
      else Some (fs_impl_change i (\<lambda>k. k\<lparr>fi_nodes := filter (fs_live s) (fi_nodes k), fi_need := False\<rparr>) s))"

section \<open>Emission\<close>

text \<open>A reference to an implementation goes away: the last one destroys it.\<close>
definition fs_release :: "nat \<Rightarrow> fs_state \<Rightarrow> fs_state option" where
  "fs_release i s =
     (if Some i \<in> set (fs_elems s) \<or> list_ex (\<lambda>f. ff_impl f = i) (fs_frames s) then Some s
      else fs_disconnect_all i s)"

text \<open>The end of \<open>_emit\<close>: the frame has been taken from the stack.\<close>
definition fs_finish :: "nat \<Rightarrow> fs_state \<Rightarrow> fs_state option" where
  "fs_finish i s =
     (if fi_emitting (fs_impls s i) = 0 then None
      else let s1 = fs_impl_change i (\<lambda>m. m\<lparr>fi_emitting := fi_emitting m - 1\<rparr>) s
           in Option.bind (if is_emiting (fs_impls s1 i) then Some s1 else clear_pending_erase i s1) (fs_release i))"

text \<open>The loop, from a node on: the next slot that is connected is called.\<close>
definition fs_scan :: "nat \<Rightarrow> bool \<Rightarrow> nat \<Rightarrow> (nat \<times> bool) list \<Rightarrow> fs_state \<Rightarrow> fs_state option" where
  "fs_scan i front no ns s =
     (case find (fs_live s) ns of
        None \<Rightarrow> fs_finish i s
      | Some m \<Rightarrow>
          if fc_func (fs_conns s (fst m)) = None then None
          else Some (s\<lparr>fs_frames := \<lparr>ff_impl = i, ff_node = fst m, ff_front = front, ff_no = no\<rparr> # fs_frames s,
                 fs_log := fs_log s @ [(no, fst m)]\<rparr>))"

definition fs_emit :: "bool \<Rightarrow> nat \<Rightarrow> fs_state \<Rightarrow> fs_state option" where
  "fs_emit front g s =
     (if length (fs_elems s) \<le> g then None
      else case fs_elems s ! g of
        None \<Rightarrow> Some s
      | Some i \<Rightarrow>
          if fi_emitting (fs_impls s i) < 10
          then let s1 = (fs_impl_change i (\<lambda>m. m\<lparr>fi_emitting := fi_emitting m + 1\<rparr>) s)
                          \<lparr>fs_emissions := fs_emissions s + 1\<rparr>
               in fs_scan i front (fs_emissions s) (fi_nodes (fs_impls s1 i)) s1
          else None)"

text \<open>The slot of the innermost emission returns.\<close>
definition fs_return :: "fs_state \<Rightarrow> fs_state option" where
  "fs_return s =
     (case fs_frames s of
        [] \<Rightarrow> None
      | f # fs \<Rightarrow>
          let s1 = s\<lparr>fs_frames := fs\<rparr>; i = ff_impl f; ns = fi_nodes (fs_impls s i) in
          if ff_front f then fs_finish i s1
          else if ff_node f \<notin> fst ` set ns then None
          else fs_scan i False (ff_no f) (tl (dropWhile (\<lambda>n. fst n \<noteq> ff_node f) ns)) s1)"

text \<open>It throws: nothing after the call is run, only the protector is released.\<close>
definition fs_throw :: "fs_state \<Rightarrow> fs_state option" where
  "fs_throw s =
     (case fs_frames s of
        [] \<Rightarrow> None
      | f # fs \<Rightarrow> fs_release (ff_impl f) (s\<lparr>fs_frames := fs\<rparr>))"

section \<open>Signal objects\<close>

definition fs_new :: "fs_state \<Rightarrow> nat \<times> fs_state" where
  "fs_new s = (length (fs_elems s), s\<lparr>fs_elems := fs_elems s @ [None]\<rparr>)"

definition signal_empty :: "nat \<Rightarrow> fs_state \<Rightarrow> bool" where
  "signal_empty g s = (case fs_elems s ! g of None \<Rightarrow> True | Some i \<Rightarrow> fs_empty i s)"

definition fs_destroy :: "nat \<Rightarrow> fs_state \<Rightarrow> fs_state option" where
  "fs_destroy g s =
     (if length (fs_elems s) \<le> g then None
      else case fs_elems s ! g of
             None \<Rightarrow> Some s
           | Some i \<Rightarrow> fs_release i (s\<lparr>fs_elems := (fs_elems s)[g := None]\<rparr>))"

definition fs_swap :: "nat \<Rightarrow> nat \<Rightarrow> fs_state \<Rightarrow> fs_state option" where
  "fs_swap g h s =
     (if g < length (fs_elems s) \<and> h < length (fs_elems s)
      then Some (s\<lparr>fs_elems := (fs_elems s)[g := fs_elems s ! h, h := fs_elems s ! g]\<rparr>) else None)"

definition fs_clear :: "nat \<Rightarrow> fs_state \<Rightarrow> fs_state option" where
  "fs_clear g s =
     (if length (fs_elems s) \<le> g then None
      else case fs_elems s ! g of None \<Rightarrow> Some s | Some i \<Rightarrow> fs_disconnect_all i s)"

definition fs_pop :: "bool \<Rightarrow> nat \<Rightarrow> fs_state \<Rightarrow> fs_state option" where
  "fs_pop back g s =
     (if length (fs_elems s) \<le> g then None
      else case fs_elems s ! g of None \<Rightarrow> None | Some i \<Rightarrow> fs_pop_slot back i s)"

end
