(* ===== verification/Dispatcher.thy ===== *)
theory Dispatcher
  imports Fssignal Buffer_Io
begin

text \<open>\<open>p2engine/basic_dispatcher.hpp\<close>, \<open>http/basic_http_dispatcher.hpp\<close> and its source: the signals of a
  connection, and how a packet finds the one it is for. Signals are those of \<open>Fssignal\<close>, and the state
  of all of them goes along. A dispatch runs up to the first call of a slot; what it emits, with the
  bytes, is part of its result, and so is what it returns when the emission is over. The map of handlers
  is a list of pairs, in the order of the container. The error code is \<open>True\<close> when it says that there
  is an error. Logging is left out, and so are the assertions that only say that nobody listens.\<close>

section \<open>Connections with message types\<close>

record 't conn_dispatcher =
  cd_map :: "('t \<times> nat) list"
  cd_invalid :: nat
  cd_unknown :: nat
  cd_connected :: nat
  cd_disconnected :: nat
  cd_writable :: nat

type_synonym emission = "(nat \<times> bytes) option"

definition emit_to :: "nat \<Rightarrow> bytes \<Rightarrow> 'a \<Rightarrow> fs_state \<Rightarrow> ('a \<times> emission \<times> fs_state) option" where
  "emit_to g buf r s = map_option (\<lambda>s1. (r, Some (g, buf), s1)) (fs_emit False g s)"

text \<open>\<open>operator[]\<close> of the map: a signal is made for a type that has none.\<close>
definition map_signal :: "'t \<Rightarrow> ('t \<times> nat) list \<Rightarrow> fs_state \<Rightarrow> nat \<times> ('t \<times> nat) list \<times> fs_state" where
  "map_signal t m s =
     (case map_of m t of
        Some g \<Rightarrow> (g, m, s)
      | None \<Rightarrow> let (g, s1) = fs_new s in (g, m @ [(t, g)], s1))"

definition received_signal :: "'t \<Rightarrow> 't conn_dispatcher \<Rightarrow> fs_state \<Rightarrow> nat \<times> 't conn_dispatcher \<times> fs_state" where
  "received_signal t d s = (let (g, m, s1) = map_signal t (cd_map d) s in (g, d\<lparr>cd_map := m\<rparr>, s1))"

definition global_message_signal :: "'t \<Rightarrow> ('t \<times> nat) list \<Rightarrow> fs_state \<Rightarrow> nat \<times> ('t \<times> nat) list \<times> fs_state" where
  "global_message_signal t gl s = map_signal t gl s"

definition invalid_message :: "'w::len word" where
  "invalid_message = NOT 0"

text \<open>The type is taken from the front of the packet itself, whose const is cast away.\<close>
definition message_type_of :: "bool \<Rightarrow> bytes \<Rightarrow> 'w::len word \<times> bytes" where
  "message_type_of big buf =
     (if LENGTH('w) div 8 \<le> length buf then io_get_int big buf else (invalid_message, buf))"

definition cd_dispatch_packet ::
    "bytes \<Rightarrow> 't \<Rightarrow> 't conn_dispatcher \<Rightarrow> ('t \<times> nat) list \<Rightarrow> fs_state \<Rightarrow> (bool \<times> emission \<times> fs_state) option" where
  "cd_dispatch_packet buf t d gl s =
     (case map_of (cd_map d) t of
        Some g \<Rightarrow> emit_to g buf True s
      | None \<Rightarrow>
          (case map_of gl t of
             Some g \<Rightarrow> emit_to g buf True s
           | None \<Rightarrow>
               if \<not> signal_empty (cd_unknown d) s then emit_to (cd_unknown d) buf False s
               else Some (False, None, s)))"

text \<open>What \<open>extract_and_dispatch_message\<close> does when the emission it began is over: it returns, or it goes
  on to \<open>dispatch_packet\<close>, with the type and the bytes.\<close>
datatype ('t) dispatch_next = Dispatch_done bool | Dispatch_then 't bytes

definition extract_and_dispatch ::
    "bool \<Rightarrow> bytes \<Rightarrow> ('w::len word) conn_dispatcher \<Rightarrow> ('w word \<times> nat) list \<Rightarrow> fs_state
     \<Rightarrow> ('w word dispatch_next \<times> emission \<times> fs_state) option" where
  "extract_and_dispatch big buf d gl s =
     (let (t, rest) = message_type_of big buf in
      if t = invalid_message
      then if signal_empty (cd_invalid d) s then Some (Dispatch_done False, None, s)
           else emit_to (cd_invalid d) rest (Dispatch_then t rest) s
      else map_option (\<lambda>(r, e, s1). (Dispatch_done r, e, s1)) (cd_dispatch_packet rest t d gl s))"

text \<open>Taking the map apart: the slots of each signal are disconnected, and the signal is destroyed.\<close>
fun clear_map :: "('t \<times> nat) list \<Rightarrow> fs_state \<Rightarrow> fs_state option" where
  "clear_map [] s = Some s"
| "clear_map (e # m) s = Option.bind (fs_clear (snd e) s) (\<lambda>s1. Option.bind (fs_destroy (snd e) s1) (clear_map m))"

fun clear_signals :: "nat list \<Rightarrow> fs_state \<Rightarrow> fs_state option" where
  "clear_signals [] s = Some s"
| "clear_signals (g # gs) s = Option.bind (fs_clear g s) (clear_signals gs)"

definition cd_disconnect_all :: "'t conn_dispatcher \<Rightarrow> fs_state \<Rightarrow> ('t conn_dispatcher \<times> fs_state) option" where
  "cd_disconnect_all d s =
     Option.bind (clear_map (cd_map d) s)
       (\<lambda>s1. map_option (Pair (d\<lparr>cd_map := []\<rparr>)) (clear_signals [cd_connected d, cd_disconnected d, cd_writable d] s1))"

text \<open>A signal is moved to a local one, and everything is disconnected before it is emitted. The local
  signal is destroyed after its emission; nobody else knows it and the emission holds its slots, so it
  makes no difference that it is destroyed here as soon as its emission has begun.\<close>
definition take_signal :: "nat \<Rightarrow> fs_state \<Rightarrow> (nat \<times> fs_state) option" where
  "take_signal g s = (let (l, s1) = fs_new s in map_option (Pair l) (fs_swap l g s1))"

definition emit_taken :: "nat \<Rightarrow> fs_state \<Rightarrow> fs_state option" where
  "emit_taken l s = Option.bind (fs_emit False l s) (fs_destroy l)"

definition cd_dispatch_error :: "nat \<Rightarrow> 't conn_dispatcher \<Rightarrow> fs_state \<Rightarrow> ('t conn_dispatcher \<times> fs_state) option" where
  "cd_dispatch_error g d s =
     Option.bind (take_signal g s) (\<lambda>(l, s1).
     Option.bind (cd_disconnect_all d s1) (\<lambda>(d1, s2).
     map_option (Pair d1) (emit_taken l s2)))"

definition cd_dispatch_disconnected ::
    "bool \<Rightarrow> 't conn_dispatcher \<Rightarrow> fs_state \<Rightarrow> ('t conn_dispatcher \<times> fs_state) option" where
  "cd_dispatch_disconnected ec d s =
     (if ec then cd_dispatch_error (cd_disconnected d) d s
      else map_option (Pair d) (fs_emit False (cd_disconnected d) s))"

definition cd_dispatch_connected ::
    "bool \<Rightarrow> 't conn_dispatcher \<Rightarrow> fs_state \<Rightarrow> ('t conn_dispatcher \<times> fs_state) option" where
  "cd_dispatch_connected ec d s =
     (if ec then cd_dispatch_error (cd_connected d) d s
      else map_option (Pair d) (fs_emit False (cd_connected d) s))"

definition cd_dispatch_sendout :: "'t conn_dispatcher \<Rightarrow> fs_state \<Rightarrow> fs_state option" where
  "cd_dispatch_sendout d s = fs_emit False (cd_writable d) s"

section \<open>Messages without a connection\<close>

text \<open>\<open>basic_message_dispatcher\<close>, which has the signals for messages only.\<close>

record 't msg_dispatcher =
  md_map :: "('t \<times> nat) list"
  md_invalid :: nat
  md_unknown :: nat

definition md_message_signal :: "'t \<Rightarrow> 't msg_dispatcher \<Rightarrow> fs_state \<Rightarrow> nat \<times> 't msg_dispatcher \<times> fs_state" where
  "md_message_signal t d s = (let (g, m, s1) = map_signal t (md_map d) s in (g, d\<lparr>md_map := m\<rparr>, s1))"

definition md_dispatch_packet ::
    "bytes \<Rightarrow> 't \<Rightarrow> 't msg_dispatcher \<Rightarrow> ('t \<times> nat) list \<Rightarrow> fs_state \<Rightarrow> (bool \<times> emission \<times> fs_state) option" where
  "md_dispatch_packet buf t d gl s =
     (case map_of (md_map d) t of
        Some g \<Rightarrow> emit_to g buf True s
      | None \<Rightarrow>
          (case map_of gl t of
             Some g \<Rightarrow> emit_to g buf True s
           | None \<Rightarrow>
               if \<not> signal_empty (md_unknown d) s then emit_to (md_unknown d) buf False s
               else Some (False, None, s)))"

definition md_extract_and_dispatch ::
    "bool \<Rightarrow> bytes \<Rightarrow> ('w::len word) msg_dispatcher \<Rightarrow> ('w word \<times> nat) list \<Rightarrow> fs_state
     \<Rightarrow> ('w word dispatch_next \<times> emission \<times> fs_state) option" where
  "md_extract_and_dispatch big buf d gl s =
     (let (t, rest) = message_type_of big buf in
      if t = invalid_message
      then if signal_empty (md_invalid d) s then Some (Dispatch_done False, None, s)
           else emit_to (md_invalid d) rest (Dispatch_then t rest) s
      else map_option (\<lambda>(r, e, s1). (Dispatch_done r, e, s1)) (md_dispatch_packet rest t d gl s))"

definition md_disconnect_all :: "'t msg_dispatcher \<Rightarrow> fs_state \<Rightarrow> ('t msg_dispatcher \<times> fs_state) option" where
  "md_disconnect_all d s = map_option (Pair (d\<lparr>md_map := []\<rparr>)) (clear_map (md_map d) s)"

section \<open>Connections without message types, and HTTP\<close>

record void_dispatcher =
  vd_handler :: nat
  vd_connected :: nat
  vd_disconnected :: nat
  vd_writable :: nat

text \<open>The signal of the connection if anybody listens to it, or else the global one.\<close>
definition dispatch_either :: "nat \<Rightarrow> nat \<Rightarrow> bytes \<Rightarrow> fs_state \<Rightarrow> (bool \<times> emission \<times> fs_state) option" where
  "dispatch_either g gl buf s =
     (if \<not> signal_empty g s then emit_to g buf True s
      else if \<not> signal_empty gl s then emit_to gl buf True s
      else Some (False, None, s))"

definition vd_dispatch_packet ::
    "bytes \<Rightarrow> void_dispatcher \<Rightarrow> nat \<Rightarrow> fs_state \<Rightarrow> (bool \<times> emission \<times> fs_state) option" where
  "vd_dispatch_packet buf d gl s = dispatch_either (vd_handler d) gl buf s"

definition vd_disconnect_all :: "void_dispatcher \<Rightarrow> fs_state \<Rightarrow> fs_state option" where
  "vd_disconnect_all d s = clear_signals [vd_handler d, vd_connected d, vd_disconnected d, vd_writable d] s"

definition vd_dispatch_disconnected :: "bool \<Rightarrow> void_dispatcher \<Rightarrow> fs_state \<Rightarrow> fs_state option" where
  "vd_dispatch_disconnected ec d s =
     (if ec
      then Option.bind (take_signal (vd_disconnected d) s) (\<lambda>(l, s1).
           Option.bind (vd_disconnect_all d s1) (emit_taken l))
      else fs_emit False (vd_disconnected d) s)"

definition vd_dispatch_connected :: "bool \<Rightarrow> void_dispatcher \<Rightarrow> fs_state \<Rightarrow> fs_state option" where
  "vd_dispatch_connected ec d s =
     (if ec
      then Option.bind (take_signal (vd_connected d) s) (\<lambda>(l, s1).
           Option.bind (vd_disconnect_all d s1) (emit_taken l))
      else fs_emit False (vd_connected d) s)"

record http_dispatcher = void_dispatcher +
  hd_request :: nat
  hd_response :: nat

text \<open>The requests and responses themselves are not part of the model.\<close>
definition dispatch_request :: "http_dispatcher \<Rightarrow> nat \<Rightarrow> fs_state \<Rightarrow> (bool \<times> emission \<times> fs_state) option" where
  "dispatch_request d gl s = dispatch_either (hd_request d) gl [] s"

definition dispatch_response :: "http_dispatcher \<Rightarrow> nat \<Rightarrow> fs_state \<Rightarrow> (bool \<times> emission \<times> fs_state) option" where
  "dispatch_response d gl s = dispatch_either (hd_response d) gl [] s"

text \<open>\<open>disconnect_all_slots\<close> of an HTTP connection. The one of the base class is not virtual, so this is not
  what \<open>dispatch_connected\<close> and \<open>dispatch_disconnected\<close> call.\<close>
definition hd_disconnect_all :: "http_dispatcher \<Rightarrow> fs_state \<Rightarrow> fs_state option" where
  "hd_disconnect_all d s =
     Option.bind (vd_disconnect_all (void_dispatcher.truncate d) s) (clear_signals [hd_request d, hd_response d])"

definition hd_dispatch_disconnected :: "bool \<Rightarrow> http_dispatcher \<Rightarrow> fs_state \<Rightarrow> fs_state option" where
  "hd_dispatch_disconnected ec d s = vd_dispatch_disconnected ec (void_dispatcher.truncate d) s"

section \<open>Acceptors\<close>

definition dispatch_accepted :: "nat \<Rightarrow> fs_state \<Rightarrow> fs_state option" where
  "dispatch_accepted g s = fs_emit False g s"

end
