(* ===== verification/Rdp_Connections.thy ===== *)
theory Rdp_Connections
  imports Urdp_Process Trdp_Coro Dispatcher
begin

text \<open>\<open>p2engine/rdp/urdp_connection.hpp\<close> and \<open>trdp_connection.hpp\<close>: a connection is a flow and a
  dispatcher. Its operations are those of the flow if there is one, and the flow calls it back. The
  signals are part of the state. A result of \<open>None\<close> is the use of a flow that is not there, a failed
  assertion, or what a signal may not do. What the shared layer and the sockets answer, and the memory
  flows are made in, are arguments. Proxy settings are not looked at by the code.\<close>

section \<open>URDP connections\<close>

record urdp_conn =
  uc_flow :: "urdp_flow option"
  uc_mark :: operation_mark
  uc_opened :: bool
  uc_passive :: bool
  uc_cached :: endpoint
  uc_disp :: "u16 conn_dispatcher"
  uc_sigs :: fs_state

definition uc_init :: "bool \<Rightarrow> urdp_conn \<Rightarrow> urdp_conn" where
  "uc_init passive c =
     c\<lparr>uc_mark := next_op_stamp (uc_mark c), uc_opened := passive, uc_passive := passive\<rparr>"

definition uc_create :: "bool \<Rightarrow> u16 conn_dispatcher \<Rightarrow> fs_state \<Rightarrow> urdp_conn" where
  "uc_create passive d s =
     uc_init passive \<lparr>uc_flow = None, uc_mark = operation_mark_new, uc_opened = False, uc_passive = passive,
       uc_cached = (0, 0), uc_disp = d, uc_sigs = s\<rparr>"

text \<open>\<open>remote_endpoint\<close> of the flow, with the error code it leaves.\<close>
definition flow_remote_endpoint :: "error_code \<Rightarrow> urdp_flow \<Rightarrow> endpoint \<times> error_code" where
  "flow_remote_endpoint ec f = (if is_open f then (m_remote_endpoint f, ec) else ((0, 0), not_socket))"

definition uc_set_flow :: "urdp_flow \<Rightarrow> urdp_conn \<Rightarrow> urdp_conn option" where
  "uc_set_flow f c =
     (if uc_flow c = None \<and> uc_passive c
      then Some (c\<lparr>uc_cached := fst (flow_remote_endpoint no_error f), uc_flow := Some f\<rparr>) else None)"

text \<open>\<open>made\<close> is the flow that \<open>create_for_active_connect\<close> returns, with or without a token, and
  \<open>answer\<close> its error code.\<close>
definition uc_fresh_mark :: "urdp_conn \<Rightarrow> urdp_conn" where
  "uc_fresh_mark c = c\<lparr>uc_mark := next_op_stamp (set_cancel (uc_mark c))\<rparr>"

definition uc_open :: "urdp_flow \<Rightarrow> 'e \<Rightarrow> urdp_conn \<Rightarrow> 'e option \<times> urdp_conn" where
  "uc_open made answer c =
     (let c1 = uc_fresh_mark c
      in if uc_flow c1 \<noteq> None then (None, c1) else (Some answer, c1\<lparr>uc_flow := Some made\<rparr>))"

definition uc_async_connect_host ::
    "urdp_flow \<Rightarrow> (string \<Rightarrow> u32 option) \<Rightarrow> string \<Rightarrow> int \<Rightarrow> bytes \<Rightarrow> int option \<Rightarrow> urdp_conn \<Rightarrow> urdp_conn" where
  "uc_async_connect_host made from_string host p name tmo c =
     (let c1 = uc_fresh_mark c;
          c2 = (if uc_flow c1 = None then snd (uc_open made () c1) else c1)
      in c2\<lparr>uc_flow := map_option (async_connect_host from_string host p name tmo) (uc_flow c2)\<rparr>)"

definition uc_async_connect :: "urdp_flow \<Rightarrow> endpoint \<Rightarrow> bytes \<Rightarrow> int option \<Rightarrow> urdp_conn \<Rightarrow> urdp_conn" where
  "uc_async_connect made peer name tmo c =
     (let c1 = uc_fresh_mark c;
          c2 = (if uc_flow c1 = None then snd (uc_open made () c1) else c1)
      in c2\<lparr>uc_flow := map_option (async_connect peer name tmo) (uc_flow c2)\<rparr>)"

definition uc_with_flow :: "(urdp_flow \<Rightarrow> urdp_flow) \<Rightarrow> urdp_conn \<Rightarrow> urdp_conn" where
  "uc_with_flow op c = c\<lparr>uc_flow := map_option op (uc_flow c)\<rparr>"

definition uc_async_send_reliable :: "bytes \<Rightarrow> u16 \<Rightarrow> urdp_conn \<Rightarrow> urdp_conn" where
  "uc_async_send_reliable buf t c = uc_with_flow (async_send buf t T_true) c"

definition uc_async_send_unreliable :: "bytes \<Rightarrow> u16 \<Rightarrow> urdp_conn \<Rightarrow> urdp_conn" where
  "uc_async_send_unreliable buf t c = uc_with_flow (async_send buf t T_false) c"

definition uc_async_send_semireliable :: "bytes \<Rightarrow> u16 \<Rightarrow> urdp_conn \<Rightarrow> urdp_conn" where
  "uc_async_send_semireliable buf t c = uc_with_flow (async_send buf t T_indeterminate) c"

definition uc_keep_async_receiving :: "urdp_conn \<Rightarrow> urdp_conn" where
  "uc_keep_async_receiving c = uc_with_flow keep_async_receiving c"

definition uc_block_async_receiving :: "urdp_conn \<Rightarrow> urdp_conn" where
  "uc_block_async_receiving c = uc_with_flow block_async_receiving c"

definition uc_set_ping_interval :: "int \<Rightarrow> urdp_conn \<Rightarrow> urdp_conn" where
  "uc_set_ping_interval t c = uc_with_flow (set_ping_interval t) c"

definition uc_is_open :: "urdp_conn \<Rightarrow> bool" where
  "uc_is_open c = (case uc_flow c of None \<Rightarrow> False | Some f \<Rightarrow> is_open f)"

definition uc_is_connected :: "urdp_conn \<Rightarrow> bool" where
  "uc_is_connected c = (case uc_flow c of None \<Rightarrow> False | Some f \<Rightarrow> is_connected f)"

definition uc_remote_endpoint :: "urdp_conn \<Rightarrow> error_code \<times> endpoint" where
  "uc_remote_endpoint c =
     (case uc_flow c of
        None \<Rightarrow> (not_socket, uc_cached c)
      | Some f \<Rightarrow> let (ep, ec) = flow_remote_endpoint no_error f in (ec, ep))"

definition uc_ping :: "urdp_conn \<Rightarrow> error_code \<times> urdp_conn" where
  "uc_ping c =
     (case uc_flow c of
        None \<Rightarrow> (not_connected, c)
      | Some f \<Rightarrow> let (ec, f1) = ping f in (ec, c\<lparr>uc_flow := Some f1\<rparr>))"

text \<open>\<open>make_punch_packet\<close>: without a flow one is made, and closed.\<close>
definition uc_make_punch_packet ::
    "bool \<Rightarrow> urdp_flow \<Rightarrow> endpoint \<Rightarrow> urdp_conn \<Rightarrow> (error_code \<times> bytes) \<times> urdp_flow option \<times> urdp_conn" where
  "uc_make_punch_packet lp64 made external c =
     (case uc_flow c of
        None \<Rightarrow> let (ec, b, f) = make_punch_packet lp64 external made in ((ec, b), Some (close False f), c)
      | Some f \<Rightarrow> let (ec, b, f1) = make_punch_packet lp64 external f in ((ec, b), None, c\<lparr>uc_flow := Some f1\<rparr>))"

definition uc_on_received_punch_request ::
    "urdp_flow \<Rightarrow> bytes \<Rightarrow> urdp_conn \<Rightarrow> urdp_flow option \<times> urdp_conn" where
  "uc_on_received_punch_request made buf c =
     (case uc_flow c of
        None \<Rightarrow> (Some (close False (on_received_punch_request buf made)), c)
      | Some f \<Rightarrow> (None, c\<lparr>uc_flow := Some (on_received_punch_request buf f)\<rparr>))"

text \<open>\<open>__close\<close>: the flow is given away and closed, and goes on alone.\<close>
definition uc_close :: "bool \<Rightarrow> urdp_conn \<Rightarrow> (urdp_flow option \<times> urdp_conn) option" where
  "uc_close graceful c =
     (let c1 = c\<lparr>uc_mark := set_cancel (uc_mark c)\<rparr> in
      if uc_flow c1 = None \<and> uc_opened c1 then None
      else map_option (\<lambda>(d, s). (map_option (close graceful) (uc_flow c1),
             c1\<lparr>uc_flow := None, uc_opened := False, uc_disp := d, uc_sigs := s\<rparr>))
             (cd_disconnect_all (uc_disp c1) (uc_sigs c1)))"

text \<open>The calls of the flow. A call that is cancelled is not passed on.\<close>

definition uc_canceled :: "urdp_conn \<Rightarrow> bool" where
  "uc_canceled c = is_canceled_op (om_stamp (uc_mark c)) (uc_mark c)"

definition uc_on_connected :: "error_code \<Rightarrow> urdp_conn \<Rightarrow> urdp_conn option" where
  "uc_on_connected ec c =
     (case uc_flow c of
        None \<Rightarrow> None
      | Some f \<Rightarrow>
          let (ep, e) = flow_remote_endpoint ec f;
              c1 = c\<lparr>uc_cached := ep\<rparr>;
              c2 = (if e = no_error then c1\<lparr>uc_opened := True\<rparr> else c1\<lparr>uc_flow := None, uc_opened := False\<rparr>)
          in if uc_canceled c2 then Some c2
             else map_option (\<lambda>(d, s). c2\<lparr>uc_disp := d, uc_sigs := s\<rparr>)
                    (cd_dispatch_connected (ec \<noteq> no_error) (uc_disp c2) (uc_sigs c2)))"

definition uc_on_disconnected :: "error_code \<Rightarrow> urdp_conn \<Rightarrow> urdp_conn option" where
  "uc_on_disconnected ec c =
     (let c1 = c\<lparr>uc_opened := False, uc_flow := None\<rparr>;
          cancel = (\<lambda>c. c\<lparr>uc_mark := set_cancel (uc_mark c)\<rparr>)
      in if uc_canceled c1 then Some (cancel c1)
         else map_option (\<lambda>(d, s). cancel (c1\<lparr>uc_disp := d, uc_sigs := s\<rparr>))
                (cd_dispatch_disconnected (ec \<noteq> no_error) (uc_disp c1) (uc_sigs c1)))"

definition uc_on_received ::
    "bool \<Rightarrow> bytes \<Rightarrow> (u16 \<times> nat) list \<Rightarrow> urdp_conn \<Rightarrow> (u16 dispatch_next \<times> emission \<times> urdp_conn) option" where
  "uc_on_received big buf gl c =
     map_option (\<lambda>(r, e, s). (r, e, c\<lparr>uc_sigs := s\<rparr>)) (extract_and_dispatch big buf (uc_disp c) gl (uc_sigs c))"

definition uc_on_writeable :: "urdp_conn \<Rightarrow> urdp_conn option" where
  "uc_on_writeable c =
     (if uc_opened c then map_option (\<lambda>s. c\<lparr>uc_sigs := s\<rparr>) (cd_dispatch_sendout (uc_disp c) (uc_sigs c))
      else Some c)"

section \<open>TRDP connections\<close>

record trdp_conn =
  tc_flow :: "trdp_flow option"
  tc_passive :: bool
  tc_cached :: "u32 \<times> u16"
  tc_disp :: "u16 conn_dispatcher"
  tc_sigs :: fs_state

definition tc_create :: "bool \<Rightarrow> u16 conn_dispatcher \<Rightarrow> fs_state \<Rightarrow> trdp_conn" where
  "tc_create passive d s =
     \<lparr>tc_flow = None, tc_passive = passive, tc_cached = (0, 0), tc_disp = d, tc_sigs = s\<rparr>"

text \<open>What the socket of a flow says its remote endpoint is, an argument, \<open>None\<close> with an error.\<close>
definition tc_set_flow :: "(u32 \<times> u16) option \<Rightarrow> trdp_flow \<Rightarrow> trdp_conn \<Rightarrow> trdp_conn option" where
  "tc_set_flow remote f c =
     (if tc_flow c = None \<and> tc_passive c
      then Some (c\<lparr>tc_flow := Some f, tc_cached := (case remote of None \<Rightarrow> (0, 0) | Some ep \<Rightarrow> ep)\<rparr>) else None)"

text \<open>The result is the error of the socket, \<open>None\<close> that the connection is open already.\<close>
definition tc_open :: "t_error \<Rightarrow> trdp_flow \<Rightarrow> trdp_conn \<Rightarrow> t_error option \<times> trdp_conn" where
  "tc_open answer mem c =
     (case tc_flow c of
        None \<Rightarrow> let (ec, f) = trdp_create_active answer mem in (Some ec, c\<lparr>tc_flow := Some f\<rparr>)
      | Some f \<Rightarrow> (None, c))"

text \<open>Connecting does not look at its time-out.\<close>
definition tc_async_connect_host ::
    "t_error \<Rightarrow> trdp_flow \<Rightarrow> (string \<Rightarrow> u32 option) \<Rightarrow> string \<Rightarrow> u16 \<Rightarrow> bytes \<Rightarrow> int option \<Rightarrow> trdp_conn \<Rightarrow> trdp_conn" where
  "tc_async_connect_host answer mem from_string host p name tmo c =
     (let c1 = (if tc_flow c = None then snd (tc_open answer mem c) else c)
      in c1\<lparr>tc_flow := map_option (trdp_connect_host answer (from_string host) host p name) (tc_flow c1),
            tc_cached := (case from_string host of None \<Rightarrow> 0 | Some a \<Rightarrow> a, p)\<rparr>)"

definition tc_async_connect ::
    "t_error \<Rightarrow> trdp_flow \<Rightarrow> u32 \<times> u16 \<Rightarrow> bytes \<Rightarrow> int option \<Rightarrow> trdp_conn \<Rightarrow> trdp_conn" where
  "tc_async_connect answer mem peer name tmo c =
     (let c1 = (if tc_flow c = None then snd (tc_open answer mem c) else c)
      in c1\<lparr>tc_cached := peer, tc_flow := map_option (trdp_connect answer peer name) (tc_flow c1)\<rparr>)"

definition tc_with_flow :: "(trdp_flow \<Rightarrow> trdp_flow) \<Rightarrow> trdp_conn \<Rightarrow> trdp_conn" where
  "tc_with_flow op c = c\<lparr>tc_flow := map_option op (tc_flow c)\<rparr>"

definition tc_async_send_reliable :: "bytes \<Rightarrow> u16 \<Rightarrow> trdp_conn \<Rightarrow> trdp_conn" where
  "tc_async_send_reliable buf t c = tc_with_flow (trdp_send_reliable buf t) c"

definition tc_async_send_unreliable :: "bytes \<Rightarrow> u16 \<Rightarrow> trdp_conn \<Rightarrow> trdp_conn" where
  "tc_async_send_unreliable buf t c = tc_with_flow (trdp_send_unreliable buf t) c"

definition tc_async_send_semireliable :: "bytes \<Rightarrow> u16 \<Rightarrow> trdp_conn \<Rightarrow> trdp_conn" where
  "tc_async_send_semireliable buf t c = tc_with_flow (trdp_send_semireliable buf t) c"

definition tc_keep_async_receiving :: "trdp_conn \<Rightarrow> trdp_conn" where
  "tc_keep_async_receiving c = tc_with_flow trdp_keep_async_receiving c"

definition tc_block_async_receiving :: "trdp_conn \<Rightarrow> trdp_conn" where
  "tc_block_async_receiving c = tc_with_flow trdp_block_receiving c"

definition tc_set_ping_interval :: "tick \<Rightarrow> trdp_conn \<Rightarrow> trdp_conn" where
  "tc_set_ping_interval t c = tc_with_flow (trdp_set_ping_interval t) c"

definition tc_ping :: "trdp_conn \<Rightarrow> t_error \<times> trdp_conn" where
  "tc_ping c =
     (case tc_flow c of
        None \<Rightarrow> (T_not_connected, c)
      | Some f \<Rightarrow> let (ec, f1) = trdp_ping f in (ec, c\<lparr>tc_flow := Some f1\<rparr>))"

definition tc_is_open :: "trdp_conn \<Rightarrow> bool" where
  "tc_is_open c = (case tc_flow c of None \<Rightarrow> False | Some f \<Rightarrow> tf_open f)"

definition tc_is_connected :: "trdp_conn \<Rightarrow> bool" where
  "tc_is_connected c = (case tc_flow c of None \<Rightarrow> False | Some f \<Rightarrow> tf_state f = T_CONNECTED)"

definition tc_domain :: "trdp_conn \<Rightarrow> bytes + string" where
  "tc_domain c = (case tc_flow c of None \<Rightarrow> Inr INVALID_DOMAIN | Some f \<Rightarrow> Inl (tf_domain f))"

definition tc_close :: "bool \<Rightarrow> trdp_conn \<Rightarrow> (trdp_flow option \<times> trdp_conn) option" where
  "tc_close graceful c =
     map_option (\<lambda>(d, s). (map_option (trdp_close graceful) (tc_flow c),
         c\<lparr>tc_flow := None, tc_disp := d, tc_sigs := s\<rparr>))
       (cd_disconnect_all (tc_disp c) (tc_sigs c))"

text \<open>The calls of the flow.\<close>

definition tc_on_connected :: "t_error \<Rightarrow> (u32 \<times> u16) option \<Rightarrow> trdp_conn \<Rightarrow> trdp_conn option" where
  "tc_on_connected ec remote c =
     (let c1 = (if tc_flow c \<noteq> None \<and> ec = T_success
                then c\<lparr>tc_cached := (case remote of None \<Rightarrow> (0, 0) | Some ep \<Rightarrow> ep)\<rparr> else c)
      in map_option (\<lambda>(d, s). c1\<lparr>tc_disp := d, tc_sigs := s\<rparr>)
           (cd_dispatch_connected (ec \<noteq> T_success) (tc_disp c1) (tc_sigs c1)))"

definition tc_on_disconnected :: "t_error \<Rightarrow> trdp_conn \<Rightarrow> trdp_conn option" where
  "tc_on_disconnected ec c =
     map_option (\<lambda>(d, s). c\<lparr>tc_disp := d, tc_sigs := s\<rparr>)
       (cd_dispatch_disconnected (ec \<noteq> T_success) (tc_disp c) (tc_sigs c))"

text \<open>\<open>on_received\<close>: the type is read from the packet, and its signal is emitted, made if it is not there.\<close>
definition tc_on_received :: "bool \<Rightarrow> bytes \<Rightarrow> trdp_conn \<Rightarrow> (emission \<times> trdp_conn) option" where
  "tc_on_received big buf c =
     (let (t, rest) = io_get_int big buf;
          (g, d, s) = received_signal t (tc_disp c) (tc_sigs c)
      in map_option (\<lambda>s1. (Some (g, rest), c\<lparr>tc_disp := d, tc_sigs := s1\<rparr>)) (fs_emit False g s))"

definition tc_on_writeable :: "trdp_conn \<Rightarrow> trdp_conn option" where
  "tc_on_writeable c = map_option (\<lambda>s. c\<lparr>tc_sigs := s\<rparr>) (cd_dispatch_sendout (tc_disp c) (tc_sigs c))"

end
