(* ===== verification/Fssignal_Inv.thy ===== *)
theory Fssignal_Inv
  imports Fssignal
begin

text \<open>The invariant of signals, connections and trackables, and its preservation by every operation
  other than \<open>pop_front_slot\<close> and \<open>pop_back_slot\<close>, whatever slots do while they are called.\<close>

section \<open>The invariant\<close>

definition fs_referenced :: "fs_state \<Rightarrow> nat \<Rightarrow> bool" where
  "fs_referenced s i \<longleftrightarrow> Some i \<in> set (fs_elems s) \<or> (\<exists>f \<in> set (fs_frames s). ff_impl f = i)"

definition frames_on :: "fs_state \<Rightarrow> nat \<Rightarrow> nat" where
  "frames_on s i = length (filter (\<lambda>f. ff_impl f = i) (fs_frames s))"

definition fs_impl_ok :: "fs_state \<Rightarrow> nat \<Rightarrow> bool" where
  "fs_impl_ok s i \<longleftrightarrow>
     (let m = fs_impls s i in
      distinct (map fst (fi_nodes m)) \<and>
      (\<forall>n \<in> set (fi_nodes m). fst n < fs_n_conns s \<and> (snd n \<longleftrightarrow> fc_signal (fs_conns s (fst n)) = Some i)) \<and>
      frames_on s i \<le> fi_emitting m \<and>
      (\<forall>f \<in> set (fs_frames s). ff_impl f = i \<longrightarrow> ff_node f \<in> fst ` set (fi_nodes m)) \<and>
      (\<not> fi_need m \<longrightarrow> (\<forall>n \<in> set (fi_nodes m). snd n)) \<and>
      (fi_need m \<longrightarrow> fi_emitting m > 0 \<and> fi_nodes m \<noteq> []))"

definition fs_conn_ok :: "nat set \<Rightarrow> fs_state \<Rightarrow> nat \<Rightarrow> bool" where
  "fs_conn_ok P s c \<longleftrightarrow>
     (let k = fs_conns s c in
      (\<forall>i. fc_signal k = Some i \<longrightarrow>
         fc_func k \<noteq> None \<and> i < fs_n_impls s \<and> c < fs_n_conns s \<and> (c, True) \<in> set (fi_nodes (fs_impls s i)) \<and>
         (i \<in> P \<or> fs_referenced s i)) \<and>
      (fc_signal k = None \<longrightarrow> fc_trackables k = []) \<and>
      (\<forall>t \<in> set (fc_trackables k). \<exists>cs. fs_tracks s t = Some cs \<and> c \<in> set cs))"

definition fs_tracks_ok :: "fs_state \<Rightarrow> bool" where
  "fs_tracks_ok s \<longleftrightarrow>
     (\<forall>t cs. fs_tracks s t = Some cs \<longrightarrow> distinct cs \<and> (\<forall>c \<in> set cs. t \<in> set (fc_trackables (fs_conns s c))))"

definition fs_ids_ok :: "fs_state \<Rightarrow> bool" where
  "fs_ids_ok s \<longleftrightarrow> (\<forall>i. fs_referenced s i \<longrightarrow> i < fs_n_impls s)"

text \<open>\<open>P\<close>: the implementations that a running operation keeps alive.\<close>
definition fs_ok :: "nat set \<Rightarrow> fs_state \<Rightarrow> bool" where
  "fs_ok P s \<longleftrightarrow> (\<forall>i. fs_impl_ok s i) \<and> (\<forall>c. fs_conn_ok P s c) \<and> fs_tracks_ok s \<and> fs_ids_ok s"

lemma fs_okD:
  assumes "fs_ok P s"
  shows "fs_impl_ok s i" and "fs_conn_ok P s c" and "fs_tracks_ok s" and "fs_ids_ok s"
  using assms by (simp_all add: fs_ok_def)

lemma ok_init: "fs_ok {} (fs_init n)"
  by (auto simp: fs_ok_def fs_init_def fs_impl_ok_def fs_conn_ok_def fs_tracks_ok_def fs_ids_ok_def
      fs_referenced_def frames_on_def)

lemma fs_change_simps [simp]:
  "fs_conns (fs_conn_change c f s) = (fs_conns s)(c := f (fs_conns s c))"
  "fs_impls (fs_conn_change c f s) = fs_impls s" "fs_n_conns (fs_conn_change c f s) = fs_n_conns s"
  "fs_n_impls (fs_conn_change c f s) = fs_n_impls s" "fs_tracks (fs_conn_change c f s) = fs_tracks s"
  "fs_elems (fs_conn_change c f s) = fs_elems s" "fs_frames (fs_conn_change c f s) = fs_frames s"
  "fs_emissions (fs_conn_change c f s) = fs_emissions s" "fs_log (fs_conn_change c f s) = fs_log s"
  "fs_impls (fs_impl_change i g s) = (fs_impls s)(i := g (fs_impls s i))"
  "fs_conns (fs_impl_change i g s) = fs_conns s" "fs_n_conns (fs_impl_change i g s) = fs_n_conns s"
  "fs_n_impls (fs_impl_change i g s) = fs_n_impls s" "fs_tracks (fs_impl_change i g s) = fs_tracks s"
  "fs_elems (fs_impl_change i g s) = fs_elems s" "fs_frames (fs_impl_change i g s) = fs_frames s"
  "fs_emissions (fs_impl_change i g s) = fs_emissions s" "fs_log (fs_impl_change i g s) = fs_log s"
  by (simp_all add: fs_conn_change_def fs_impl_change_def)

lemma untrack_all [simp]:
  "fs_conns (fold (untrack c) ts s) = fs_conns s" "fs_impls (fold (untrack c) ts s) = fs_impls s"
  "fs_n_conns (fold (untrack c) ts s) = fs_n_conns s" "fs_n_impls (fold (untrack c) ts s) = fs_n_impls s"
  "fs_elems (fold (untrack c) ts s) = fs_elems s" "fs_frames (fold (untrack c) ts s) = fs_frames s"
  "fs_emissions (fold (untrack c) ts s) = fs_emissions s" "fs_log (fold (untrack c) ts s) = fs_log s"
  "fs_tracks (fold (untrack c) ts s) t =
     (if t \<in> set ts then map_option (filter (\<lambda>d. d \<noteq> c)) (fs_tracks s t) else fs_tracks s t)"
proof -
  have idem: "map_option (filter (\<lambda>d. d \<noteq> c)) (map_option (filter (\<lambda>d. d \<noteq> c)) x) =
      map_option (filter (\<lambda>d. d \<noteq> c)) x" for x :: "nat list option"
    by (cases x) simp_all
  show "fs_tracks (fold (untrack c) ts s) t =
     (if t \<in> set ts then map_option (filter (\<lambda>d. d \<noteq> c)) (fs_tracks s t) else fs_tracks s t)"
    by (induction ts arbitrary: s) (auto simp: untrack_def idem)
qed ((induction ts arbitrary: s; simp add: untrack_def)+)

section \<open>Disconnecting\<close>

text \<open>What an operation leaves alone that only disconnects.\<close>
definition fs_fewer :: "fs_state \<Rightarrow> fs_state \<Rightarrow> bool" where
  "fs_fewer s s' \<longleftrightarrow>
     fs_frames s' = fs_frames s \<and> fs_elems s' = fs_elems s \<and> fs_n_conns s' = fs_n_conns s \<and>
     fs_n_impls s' = fs_n_impls s \<and> fs_emissions s' = fs_emissions s \<and> fs_log s' = fs_log s \<and>
     (\<forall>i. fi_emitting (fs_impls s' i) = fi_emitting (fs_impls s i)) \<and>
     (\<forall>i. fi_emitting (fs_impls s i) > 0 \<longrightarrow> map fst (fi_nodes (fs_impls s' i)) = map fst (fi_nodes (fs_impls s i))) \<and>
     (\<forall>d. fc_signal (fs_conns s' d) = None \<or> fs_conns s' d = fs_conns s d) \<and>
     (\<forall>t. fs_tracks s t = None \<longrightarrow> fs_tracks s' t = None)"

lemma fewer_refl [simp, intro]: "fs_fewer s s"
  by (simp add: fs_fewer_def)

lemma fewer_trans: "fs_fewer s s1 \<Longrightarrow> fs_fewer s1 s2 \<Longrightarrow> fs_fewer s s2"
  unfolding fs_fewer_def by (intro conjI allI impI) (metis+)

lemma fewer_connected: "fs_fewer s s' \<Longrightarrow> fs_connected s' c \<Longrightarrow> fs_connected s c"
  by (metis fs_connected_def fs_fewer_def)

definition fs_without :: "nat \<Rightarrow> fs_state \<Rightarrow> fs_state" where
  "fs_without c s =
     fs_conn_change c (\<lambda>k. k\<lparr>fc_trackables := []\<rparr>)
       (fold (untrack c) (fc_trackables (fs_conns s c))
         (fs_conn_change c (\<lambda>k. k\<lparr>fc_signal := None, fc_func := None\<rparr>) s))"

lemma without_simps [simp]:
  "fs_conns (fs_without c s) = (fs_conns s)(c := \<lparr>fc_signal = None, fc_func = None, fc_trackables = []\<rparr>)"
  "fs_impls (fs_without c s) = fs_impls s" "fs_n_conns (fs_without c s) = fs_n_conns s"
  "fs_n_impls (fs_without c s) = fs_n_impls s" "fs_elems (fs_without c s) = fs_elems s"
  "fs_frames (fs_without c s) = fs_frames s" "fs_emissions (fs_without c s) = fs_emissions s"
  "fs_log (fs_without c s) = fs_log s"
  "fs_tracks (fs_without c s) t =
     (if t \<in> set (fc_trackables (fs_conns s c)) then map_option (filter (\<lambda>d. d \<noteq> c)) (fs_tracks s t)
      else fs_tracks s t)"
  by (simp_all add: fs_without_def fun_eq_iff)

lemma disconnect_eq:
  "fs_disconnect c s =
     (case fc_signal (fs_conns s c) of None \<Rightarrow> Some s | Some i \<Rightarrow> forget_node i c (fs_without c s))"
  by (simp add: fs_disconnect_def fs_without_def Let_def split: option.splits)

lemma referenced_same:
  "fs_elems s' = fs_elems s \<Longrightarrow> fs_frames s' = fs_frames s \<Longrightarrow> fs_referenced s' i = fs_referenced s i"
  by (simp add: fs_referenced_def)

lemma disconnect_ok:
  assumes ok: "fs_ok P s"
  obtains s' where "fs_disconnect c s = Some s'" and "fs_ok P s'" and "fs_fewer s s'"
    and "\<not> fs_connected s' c" and "\<And>d. d \<noteq> c \<Longrightarrow> fs_conns s' d = fs_conns s d"
    and "\<And>i. fc_signal (fs_conns s c) \<noteq> Some i \<Longrightarrow> fs_impls s' i = fs_impls s i"
    and "\<And>i. fc_signal (fs_conns s c) = Some i \<Longrightarrow> fi_emitting (fs_impls s i) = 0 \<Longrightarrow>
           fi_nodes (fs_impls s' i) = filter (\<lambda>n. fst n \<noteq> c) (fi_nodes (fs_impls s i))"
    and "\<And>t cs. fs_tracks s t = Some cs \<Longrightarrow> fs_connected s c \<Longrightarrow> fs_tracks s' t = Some (filter (\<lambda>d. d \<noteq> c) cs)"
proof (cases "fc_signal (fs_conns s c)")
  case None
  then show ?thesis
    using that [of s] ok by (simp add: disconnect_eq fs_connected_def)
next
  case (Some i)
  note I = fs_okD(1) [OF ok] and C = fs_okD(2) [OF ok] and T = fs_okD(3) [OF ok]
  have mem: "(c, True) \<in> set (fi_nodes (fs_impls s i))"
    using C [of c] Some by (simp add: fs_conn_ok_def Let_def)
  then have inl: "c \<in> fst ` set (fi_nodes (fs_impls s i))" by force
  let ?s1 = "fs_without c s"
  let ?e = "is_emiting (fs_impls s i)"
  let ?g = "\<lambda>m. if ?e then m\<lparr>fi_nodes := map (\<lambda>n. if fst n = c then (c, False) else n) (fi_nodes m), fi_need := True\<rparr>
      else m\<lparr>fi_nodes := filter (\<lambda>n. fst n \<noteq> c) (fi_nodes m)\<rparr>"
  let ?s' = "fs_impl_change i ?g ?s1"
  have run: "fs_disconnect c s = Some ?s'"
    using Some inl by (simp add: disconnect_eq forget_node_def Let_def)
  have names: "map fst (map (\<lambda>n. if fst n = c then (c, False) else n) ns) = map fst ns" for ns :: "(nat \<times> bool) list"
    by (induction ns) auto
  have "fs_impl_ok ?s' j" for j
  proof (cases "j = i")
    case False
    then show ?thesis
      using I [of j] Some by (auto simp: fs_impl_ok_def frames_on_def Let_def)
  next
    case True
    show ?thesis
    proof (cases ?e)
      case e: True
      have "fst ` set (map (\<lambda>n. if fst n = c then (c, False) else n) (fi_nodes (fs_impls s i))) =
          fst ` set (fi_nodes (fs_impls s i))"
        using names [of "fi_nodes (fs_impls s i)"] by (metis list.set_map)
      then show ?thesis
        using I [of i] True e mem unfolding fs_impl_ok_def Let_def
        by (auto simp: frames_on_def names is_emiting_def simp del: map_map)
    next
      case e: False
      then show ?thesis
        using I [of i] True unfolding fs_impl_ok_def Let_def
        by (auto simp: frames_on_def is_emiting_def distinct_map_filter filter_empty_conv
            dest: filter_False)
    qed
  qed
  moreover have "fs_conn_ok P ?s' d" for d
    using C [of d] Some inl
    by (auto simp: fs_conn_ok_def Let_def fs_referenced_def image_iff split: if_splits)
  moreover have "fs_tracks_ok ?s'"
    using T by (auto simp: fs_tracks_ok_def split: if_splits)
  moreover have "fs_ids_ok ?s'"
    using fs_okD(4) [OF ok] by (simp add: fs_ids_ok_def fs_referenced_def)
  ultimately have "fs_ok P ?s'"
    by (simp add: fs_ok_def)
  moreover have "fs_fewer s ?s'"
    by (auto simp: fs_fewer_def names is_emiting_def simp del: map_map)
  moreover have "fs_tracks ?s' t = Some (filter (\<lambda>d. d \<noteq> c) cs)" if "fs_tracks s t = Some cs" for t cs
  proof (cases "t \<in> set (fc_trackables (fs_conns s c))")
    case False
    then have "c \<notin> set cs"
      using T that by (auto simp: fs_tracks_ok_def)
    then have "filter (\<lambda>d. d \<noteq> c) cs = cs"
      by (auto simp: filter_id_conv)
    then show ?thesis
      using that False by simp
  qed (use that in simp)
  ultimately show ?thesis
    using that [OF run] Some by (simp add: fs_connected_def is_emiting_def)
qed

lemma disconnect_each_ok:
  assumes "fs_ok P s"
  obtains s' where "fs_disconnect_each ns s = Some s'" and "fs_ok P s'" and "fs_fewer s s'"
    and "\<And>n. n \<in> set ns \<Longrightarrow> snd n \<Longrightarrow> \<not> fs_connected s' (fst n)"
  using assms
proof (induction ns arbitrary: s thesis)
  case Nil
  then show ?case by simp
next
  case (Cons n ns)
  obtain s1 where 1: "(if fs_live s n then fs_disconnect (fst n) s else Some s) = Some s1" "fs_ok P s1" "fs_fewer s s1"
    "snd n \<Longrightarrow> \<not> fs_connected s1 (fst n)"
  proof (cases "fs_live s n")
    case True
    then show ?thesis
      using that disconnect_ok [OF Cons.prems(2), of "fst n"] by metis
  next
    case False
    then show ?thesis
      using that [of s] Cons.prems(2) by (auto simp: fs_live_def)
  qed
  obtain s2 where 2: "fs_disconnect_each ns s1 = Some s2" "fs_ok P s2" "fs_fewer s1 s2"
    "\<And>n. n \<in> set ns \<Longrightarrow> snd n \<Longrightarrow> \<not> fs_connected s2 (fst n)"
    using Cons.IH 1(2) by metis
  show ?case
  proof (rule Cons.prems(1) [of s2])
    show "fs_disconnect_each (n # ns) s = Some s2"
      using 1(1) 2(1) by simp
    show "fs_fewer s s2"
      using fewer_trans 1(3) 2(3) by blast
    show "\<not> fs_connected s2 (fst m)" if "m \<in> set (n # ns)" "snd m" for m
      using that 1(4) 2(4) fewer_connected [OF 2(3)] by (metis set_ConsD)
  qed (rule 2(2))
qed

lemma nodes_of_connected:
  assumes "fs_ok P s" and "fc_signal (fs_conns s c) = Some i"
  shows "(c, True) \<in> set (fi_nodes (fs_impls s i))"
  using fs_okD(2) [OF assms(1), of c] assms(2) by (simp add: fs_conn_ok_def Let_def)

lemma not_emitting_live:
  assumes ok: "fs_ok P s" and "fi_emitting (fs_impls s i) = 0" and n: "n \<in> set (fi_nodes (fs_impls s i))"
  shows "snd n" and "fc_signal (fs_conns s (fst n)) = Some i" and "fs_live s n"
  using fs_okD(1) [OF ok, of i] assms(2) n by (auto simp: fs_impl_ok_def Let_def fs_live_def fs_connected_def)

lemma clear_loop_ok:
  assumes "fs_ok P s" and "fi_emitting (fs_impls s i) = 0" and "length (fi_nodes (fs_impls s i)) \<le> n"
  obtains s' where "fs_clear_loop n i s = Some s'" and "fs_ok P s'" and "fs_fewer s s'"
    and "fi_nodes (fs_impls s' i) = []"
  using assms
proof (induction n arbitrary: s thesis)
  case 0
  then show ?case by simp
next
  case (Suc n)
  show ?case
  proof (cases "fi_nodes (fs_impls s i)")
    case Nil
    then show ?thesis
      using Suc.prems(1) [of s] Suc.prems(2) by simp
  next
    case (Cons m ms)
    then have m: "fc_signal (fs_conns s (fst m)) = Some i" "fs_live s m"
      using not_emitting_live [OF Suc.prems(2,3), of m] by auto
    obtain s1 where 1: "fs_disconnect (fst m) s = Some s1" "fs_ok P s1" "fs_fewer s s1"
      "fi_nodes (fs_impls s1 i) = filter (\<lambda>n. fst n \<noteq> fst m) (fi_nodes (fs_impls s i))"
      using disconnect_ok [OF Suc.prems(2), of "fst m"] m(1) Suc.prems(3) by metis
    have "distinct (map fst (m # ms))"
      using fs_okD(1) [OF Suc.prems(2), of i] Cons by (simp add: fs_impl_ok_def Let_def)
    then have "\<forall>n \<in> set ms. fst n \<noteq> fst m"
      by (metis distinct.simps(2) image_eqI list.set_map list.simps(9))
    then have "fi_nodes (fs_impls s1 i) = ms"
      using 1(4) Cons by (simp add: filter_id_conv)
    moreover have "fi_emitting (fs_impls s1 i) = 0"
      using 1(3) Suc.prems(3) by (simp add: fs_fewer_def)
    ultimately obtain s2 where 2: "fs_clear_loop n i s1 = Some s2" "fs_ok P s2" "fs_fewer s1 s2"
      "fi_nodes (fs_impls s2 i) = []"
      using Suc.IH [of s1] 1(2) Suc.prems(4) Cons by (metis Suc_le_mono length_Cons)
    show ?thesis
      using Suc.prems(1) [of s2] 1 2 m(2) Cons fewer_trans by simp
  qed
qed

lemma need_ok:
  assumes "fs_ok P s" and "v \<longrightarrow> fi_nodes (fs_impls s i) \<noteq> [] \<and> fi_emitting (fs_impls s i) > 0"
    and "\<not> v \<longrightarrow> fi_emitting (fs_impls s i) = 0"
  shows "fs_ok P (fs_impl_change i (\<lambda>m. m\<lparr>fi_need := v\<rparr>) s)"
    and "fs_fewer s (fs_impl_change i (\<lambda>m. m\<lparr>fi_need := v\<rparr>) s)"
proof -
  let ?s = "fs_impl_change i (\<lambda>m. m\<lparr>fi_need := v\<rparr>) s"
  have "fs_impl_ok ?s j" for j
    using fs_okD(1) [OF assms(1), of j] assms(2,3) by (auto simp: fs_impl_ok_def frames_on_def Let_def)
  moreover have "fs_conn_ok P ?s c" for c
    using fs_okD(2) [OF assms(1), of c] by (auto simp: fs_conn_ok_def fs_referenced_def Let_def)
  ultimately show "fs_ok P ?s"
    using fs_okD(3,4) [OF assms(1)] by (simp add: fs_ok_def fs_tracks_ok_def fs_ids_ok_def fs_referenced_def)
qed (auto simp: fs_fewer_def)

lemma disconnect_all_ok:
  assumes ok: "fs_ok P s"
  obtains s' where "fs_disconnect_all i s = Some s'" and "fs_ok P s'" and "fs_fewer s s'"
    and "\<And>c. fc_signal (fs_conns s' c) \<noteq> Some i"
proof -
  let ?ns = "fi_nodes (fs_impls s i)"
  consider (z) "?ns = []" | (q) "?ns \<noteq> []" "fi_emitting (fs_impls s i) = 0" | (e) "?ns \<noteq> []" "0 < fi_emitting (fs_impls s i)"
    by blast
  then show ?thesis
  proof cases
    case z
    then show ?thesis
      using that [of s] ok nodes_of_connected [OF ok] by (fastforce simp: fs_disconnect_all_def)
  next
    case q
    let ?s = "fs_impl_change i (\<lambda>m. m\<lparr>fi_need := False\<rparr>) s"
    have s: "fs_ok P ?s" "fs_fewer s ?s"
      using need_ok [OF ok, of False i] q by simp_all
    obtain s' where "fs_clear_loop (length ?ns) i ?s = Some s'" "fs_ok P s'" "fs_fewer ?s s'"
      and e: "fi_nodes (fs_impls s' i) = []"
      by (rule clear_loop_ok [OF s(1), of i "length ?ns"]) (use q(2) in auto)
    then show ?thesis
      using that [of s'] q fewer_trans [OF s(2)] nodes_of_connected [of P s'] e
      by (fastforce simp: fs_disconnect_all_def is_emiting_def)
  next
    case e
    let ?s = "fs_impl_change i (\<lambda>m. m\<lparr>fi_need := True\<rparr>) s"
    have s: "fs_ok P ?s" "fs_fewer s ?s"
      using need_ok [OF ok, of True i] e by simp_all
    obtain s' where r: "fs_disconnect_each ?ns ?s = Some s'" "fs_ok P s'" "fs_fewer ?s s'"
      and d: "\<And>n. n \<in> set ?ns \<Longrightarrow> snd n \<Longrightarrow> \<not> fs_connected s' (fst n)"
      by (rule disconnect_each_ok [OF s(1), of ?ns]) blast
    have "fc_signal (fs_conns s' c) \<noteq> Some i" for c
    proof
      assume c: "fc_signal (fs_conns s' c) = Some i"
      moreover have "fc_signal (fs_conns s' c) = None \<or> fs_conns s' c = fs_conns s c"
        using r(3) by (simp add: fs_fewer_def)
      ultimately have "fc_signal (fs_conns s c) = Some i"
        by auto
      from nodes_of_connected [OF ok this] d c show False
        by (force simp: fs_connected_def)
    qed
    then show ?thesis
      using that [of s'] r e fewer_trans [OF s(2)] by (simp add: fs_disconnect_all_def is_emiting_def)
  qed
qed

section \<open>Trackables\<close>

lemma untrack_loop_ok:
  assumes "fs_ok P s" and "fs_tracks s t = Some cs" and "length cs \<le> n"
  obtains s' where "untrack_loop n t s = Some s'" and "fs_ok P s'" and "fs_fewer s s'"
    and "fs_tracks s' t = Some []" and "\<And>c. c \<in> set cs \<Longrightarrow> \<not> fs_connected s' c"
  using assms
proof (induction n arbitrary: s cs thesis)
  case 0
  then show ?case by simp
next
  case (Suc n)
  show ?case
  proof (cases cs)
    case Nil
    then show ?thesis
      using Suc.prems by simp
  next
    case (Cons c ds)
    have "distinct cs \<and> (\<forall>c \<in> set cs. t \<in> set (fc_trackables (fs_conns s c)))"
      using fs_okD(3) [OF Suc.prems(2)] Suc.prems(3) by (simp add: fs_tracks_ok_def)
    then have T: "distinct cs" "t \<in> set (fc_trackables (fs_conns s c))"
      using Cons by auto
    then have con: "fs_connected s c"
      using fs_okD(2) [OF Suc.prems(2), of c] by (auto simp: fs_conn_ok_def fs_connected_def Let_def)
    obtain s1 where 1: "fs_disconnect c s = Some s1" "fs_ok P s1" "fs_fewer s s1" "\<not> fs_connected s1 c"
      "fs_tracks s1 t = Some (filter (\<lambda>d. d \<noteq> c) cs)"
      using disconnect_ok [OF Suc.prems(2), of c] Suc.prems(3) con by metis
    have "filter (\<lambda>d. d \<noteq> c) cs = ds"
      using T(1) Cons by (auto simp: filter_id_conv)
    then obtain s2 where 2: "untrack_loop n t s1 = Some s2" "fs_ok P s2" "fs_fewer s1 s2"
      "fs_tracks s2 t = Some []" "\<And>c. c \<in> set ds \<Longrightarrow> \<not> fs_connected s2 c"
      using Suc.IH [of s1 ds] 1(2,5) Suc.prems(4) Cons by (metis Suc_le_mono length_Cons)
    show ?thesis
    proof (rule Suc.prems(1) [of s2])
      show "untrack_loop (Suc n) t s = Some s2"
        using 1(1) 2(1) Suc.prems(3) Cons by simp
      show "fs_fewer s s2"
        using fewer_trans 1(3) 2(3) by blast
      show "\<not> fs_connected s2 d" if "d \<in> set cs" for d
        using that 1(4) 2(5) fewer_connected [OF 2(3)] Cons by (metis set_ConsD)
    qed (rule 2(2) 2(4))+
  qed
qed

lemma trackable_destroy_ok:
  assumes ok: "fs_ok P s" and t: "fs_tracks s t \<noteq> None"
  obtains s' where "fs_trackable_destroy t s = Some s'" and "fs_ok P s'" and "fs_fewer s s'"
    and "\<And>c. t \<in> set (fc_trackables (fs_conns s c)) \<Longrightarrow> \<not> fs_connected s' c" and "fs_tracks s' t = None"
proof -
  obtain cs where cs: "fs_tracks s t = Some cs" using t by blast
  obtain s1 where 1: "untrack_loop (length cs) t s = Some s1" "fs_ok P s1" "fs_fewer s s1"
    "fs_tracks s1 t = Some []" "\<And>c. c \<in> set cs \<Longrightarrow> \<not> fs_connected s1 c"
    using untrack_loop_ok [OF ok cs, of "length cs"] by blast
  let ?s = "s1\<lparr>fs_tracks := (fs_tracks s1)(t := None)\<rparr>"
  have "fs_impl_ok ?s i" for i
    using fs_okD(1) [OF 1(2), of i] by (auto simp: fs_impl_ok_def frames_on_def Let_def)
  moreover have "fs_conn_ok P ?s c" for c
  proof -
    have "t \<notin> set (fc_trackables (fs_conns s1 c))"
      using fs_okD(2) [OF 1(2), of c] 1(4) by (auto simp: fs_conn_ok_def Let_def)
    then show ?thesis
      using fs_okD(2) [OF 1(2), of c] by (auto simp: fs_conn_ok_def fs_referenced_def Let_def)
  qed
  ultimately have "fs_ok P ?s"
    using fs_okD(3,4) [OF 1(2)] by (simp add: fs_ok_def fs_tracks_ok_def fs_ids_ok_def fs_referenced_def)
  moreover have "fs_fewer s ?s"
    using 1(3) by (simp add: fs_fewer_def)
  moreover have "c \<in> set cs" if "t \<in> set (fc_trackables (fs_conns s c))" for c
    using fs_okD(2) [OF ok, of c] that cs by (auto simp: fs_conn_ok_def Let_def)
  ultimately show ?thesis
    using that [of ?s] cs 1(1,5) by (simp add: fs_trackable_destroy_def fs_connected_def)
qed

section \<open>Binding\<close>

text \<open>What an operation leaves alone that does not call, and may bind as well.\<close>
definition fs_quiet :: "fs_state \<Rightarrow> fs_state \<Rightarrow> bool" where
  "fs_quiet s s' \<longleftrightarrow>
     fs_frames s' = fs_frames s \<and> fs_emissions s' = fs_emissions s \<and> fs_log s' = fs_log s \<and>
     (\<forall>i < fs_n_impls s. fi_emitting (fs_impls s i) > 0 \<longrightarrow>
        (\<exists>xs. map fst (fi_nodes (fs_impls s' i)) = map fst (fi_nodes (fs_impls s i)) @ xs)) \<and>
     fs_n_conns s \<le> fs_n_conns s' \<and>
     (\<forall>d i. d < fs_n_conns s \<longrightarrow> fc_signal (fs_conns s' d) = Some i \<longrightarrow> fc_signal (fs_conns s d) = Some i)"

lemma fewer_quiet: "fs_fewer s s' \<Longrightarrow> fs_quiet s s'"
  unfolding fs_fewer_def fs_quiet_def
  by (intro conjI allI impI) (auto, metis option.distinct(1))

lemma track_ok:
  assumes ok: "fs_ok P s" and t: "fs_tracks s t \<noteq> None" and c: "fs_connected s c"
  obtains s' where "fs_track c t s = Some s'" and "fs_ok P s'" and "fs_impls s' = fs_impls s"
    and "fs_quiet s s'" and "fs_n_conns s' = fs_n_conns s" and "\<And>d. fc_signal (fs_conns s' d) = fc_signal (fs_conns s d)"
    and "\<And>u. (fs_tracks s' u = None) = (fs_tracks s u = None)" and "fs_elems s' = fs_elems s"
    and "set (fc_trackables (fs_conns s' c)) = insert t (set (fc_trackables (fs_conns s c)))"
proof -
  obtain cs where cs: "fs_tracks s t = Some cs" using t by blast
  show ?thesis
  proof (cases "t \<in> set (fc_trackables (fs_conns s c))")
    case True
    then show ?thesis
      using that [of s] ok cs by (simp add: fs_track_def fs_quiet_def insert_absorb)
  next
    case False
    let ?s = "(fs_conn_change c (\<lambda>k. k\<lparr>fc_trackables := fc_trackables k @ [t]\<rparr>) s)
                 \<lparr>fs_tracks := (fs_tracks s)(t := Some (cs @ [c]))\<rparr>"
    have new: "c \<notin> set cs"
      using fs_okD(3) [OF ok] cs False by (auto simp: fs_tracks_ok_def)
    have "fs_impl_ok ?s i" for i
      using fs_okD(1) [OF ok, of i] by (auto simp: fs_impl_ok_def frames_on_def Let_def)
    moreover have "fs_conn_ok P ?s d" for d
      using fs_okD(2) [OF ok, of d] c cs by (auto simp: fs_conn_ok_def fs_referenced_def fs_connected_def Let_def)
    moreover have "fs_tracks_ok ?s"
      using fs_okD(3) [OF ok] new cs by (auto simp: fs_tracks_ok_def)
    ultimately have "fs_ok P ?s"
      using fs_okD(4) [OF ok] by (simp add: fs_ok_def fs_ids_ok_def fs_referenced_def)
    then show ?thesis
      using that [of ?s] cs False by (auto simp: fs_track_def fs_quiet_def)
  qed
qed

lemma track_all_ok:
  assumes "fs_ok P s" and "\<forall>t \<in> set ts. fs_tracks s t \<noteq> None" and "fs_connected s c"
  obtains s' where "fs_track_all c ts s = Some s'" and "fs_ok P s'" and "fs_quiet s s'" and "fs_impls s' = fs_impls s"
    and "fs_n_conns s' = fs_n_conns s" and "\<And>d. fc_signal (fs_conns s' d) = fc_signal (fs_conns s d)"
    and "fs_elems s' = fs_elems s"
    and "set (fc_trackables (fs_conns s' c)) = set ts \<union> set (fc_trackables (fs_conns s c))"
  using assms
proof (induction ts arbitrary: s thesis)
  case Nil
  show ?case
    by (rule Nil(1) [of s]) (use Nil(2) in \<open>simp_all add: fs_quiet_def\<close>)
next
  case (Cons t ts)
  have t: "fs_tracks s t \<noteq> None" using Cons.prems(3) by simp
  show ?case
  proof (rule track_ok [OF Cons.prems(2) t Cons.prems(4)])
    fix s1
    assume 1: "fs_track c t s = Some s1" "fs_ok P s1" "fs_impls s1 = fs_impls s" "fs_quiet s s1"
      "fs_n_conns s1 = fs_n_conns s" "\<And>d. fc_signal (fs_conns s1 d) = fc_signal (fs_conns s d)"
      "\<And>u. (fs_tracks s1 u = None) = (fs_tracks s u = None)" "fs_elems s1 = fs_elems s"
      "set (fc_trackables (fs_conns s1 c)) = insert t (set (fc_trackables (fs_conns s c)))"
    have a: "\<forall>t \<in> set ts. fs_tracks s1 t \<noteq> None"
      using 1(7) Cons.prems(3) by simp
    have b: "fs_connected s1 c"
      using 1(6) Cons.prems(4) by (simp add: fs_connected_def)
    show ?case
    proof (rule Cons.IH [OF _ 1(2) a b])
      fix s2
      assume 2: "fs_track_all c ts s1 = Some s2" "fs_ok P s2" "fs_quiet s1 s2" "fs_impls s2 = fs_impls s1"
        "fs_n_conns s2 = fs_n_conns s1" "\<And>d. fc_signal (fs_conns s2 d) = fc_signal (fs_conns s1 d)"
        "fs_elems s2 = fs_elems s1"
        "set (fc_trackables (fs_conns s2 c)) = set ts \<union> set (fc_trackables (fs_conns s1 c))"
      have "fs_quiet s s2"
        using 1(3-6) 2(3-6) by (simp add: fs_quiet_def)
      then show ?case
        using Cons.prems(1) [of s2] 1(1,3,5,6,8,9) 2 by simp
    qed
  qed
qed

lemma conn_implD:
  assumes "fs_ok P s" and "fc_signal (fs_conns s c) = Some i"
  shows "i < fs_n_impls s" and "c < fs_n_conns s" and "i \<in> P \<or> fs_referenced s i" and "fc_func (fs_conns s c) \<noteq> None"
  using fs_okD(2) [OF assms(1), of c] assms(2) by (auto simp: fs_conn_ok_def Let_def)

lemma creat_ok:
  assumes ok: "fs_ok P s" and g: "g < length (fs_elems s)"
  obtains i s' where "fs_creat g s = Some (i, s')" and "fs_ok P s'" and "fs_quiet s s'" and "i < fs_n_impls s'"
    and "fs_elems s' = (fs_elems s)[g := Some i]" and "fs_conns s' = fs_conns s" and "fs_n_conns s' = fs_n_conns s"
    and "fs_tracks s' = fs_tracks s"
proof (cases "fs_elems s ! g")
  case (Some i)
  then have "Some i \<in> set (fs_elems s)"
    using g by (metis nth_mem)
  then have "i < fs_n_impls s"
    using fs_okD(4) [OF ok] by (simp add: fs_ids_ok_def fs_referenced_def)
  then show ?thesis
    using that [of i s] ok Some g list_update_id [of "fs_elems s" g] by (simp add: fs_creat_def fs_quiet_def)
next
  case None
  let ?i = "fs_n_impls s"
  let ?s = "(fs_impl_change ?i (\<lambda>_. \<lparr>fi_nodes = [], fi_emitting = 0, fi_need = False\<rparr>) s)
      \<lparr>fs_n_impls := ?i + 1, fs_elems := (fs_elems s)[g := Some ?i]\<rparr>"
  have new: "\<not> fs_referenced s ?i"
    using fs_okD(4) [OF ok] by (auto simp: fs_ids_ok_def)
  have nof: "\<forall>f \<in> set (fs_frames s). ff_impl f \<noteq> ?i"
    using new by (auto simp: fs_referenced_def)
  have elems: "set ((fs_elems s)[g := Some ?i]) \<subseteq> insert (Some ?i) (set (fs_elems s))"
    by (rule set_update_subset_insert)
  have keep: "x \<in> set ((fs_elems s)[g := Some ?i])" if "x \<in> set (fs_elems s)" "x \<noteq> None" for x
    using that None g by (metis in_set_conv_nth length_list_update nth_list_update_neq)
  have "fs_impl_ok ?s j" for j
    using fs_okD(1) [OF ok, of j] nof by (auto simp: fs_impl_ok_def frames_on_def Let_def)
  moreover have "fs_conn_ok P ?s c" for c
    using fs_okD(2) [OF ok, of c] conn_implD(1) [OF ok, of c] keep
    by (auto simp: fs_conn_ok_def fs_referenced_def Let_def less_Suc_eq)
  moreover have "fs_ids_ok ?s"
    using fs_okD(4) [OF ok] elems by (fastforce simp: fs_ids_ok_def fs_referenced_def less_Suc_eq)
  ultimately have "fs_ok P ?s"
    using fs_okD(3) [OF ok] by (simp add: fs_ok_def fs_tracks_ok_def)
  moreover have "fs_quiet s ?s"
    by (simp add: fs_quiet_def)
  ultimately show ?thesis
    using that [of ?i ?s] g None by (simp add: fs_creat_def Let_def)
qed

lemma add_conn_ok:
  assumes ok: "fs_ok P s" and i: "i < fs_n_impls s" "i \<in> P \<or> fs_referenced s i"
    and s': "s' = fs_impl_change i (\<lambda>m. m\<lparr>fi_nodes := fi_nodes m @ [(fs_n_conns s, True)]\<rparr>)
      ((fs_conn_change (fs_n_conns s) (\<lambda>_. \<lparr>fc_signal = Some i, fc_func = Some fp, fc_trackables = []\<rparr>) s)
         \<lparr>fs_n_conns := fs_n_conns s + 1\<rparr>)"
  shows "fs_ok P s'" and "fs_quiet s s'"
proof -
  let ?c = "fs_n_conns s"
  have fresh: "fc_signal (fs_conns s ?c) = None"
    using conn_implD(2) [OF ok, of ?c] by (cases "fc_signal (fs_conns s ?c)") auto
  then have "fc_trackables (fs_conns s ?c) = []"
    using fs_okD(2) [OF ok, of ?c] by (simp add: fs_conn_ok_def Let_def)
  then have notr: "?c \<notin> set cs" if "fs_tracks s t = Some cs" for t cs
    using fs_okD(3) [OF ok] that by (fastforce simp: fs_tracks_ok_def)
  have old: "fst n < ?c" if "n \<in> set (fi_nodes (fs_impls s j))" for n j
    using fs_okD(1) [OF ok, of j] that by (auto simp: fs_impl_ok_def Let_def)
  have "?c \<notin> fst ` set (fi_nodes (fs_impls s i))"
    using old [of _ i] by fastforce
  then have "fs_impl_ok s' j" for j
    using fs_okD(1) [OF ok, of j] old [of _ j]
    by (fastforce simp: s' fs_impl_ok_def frames_on_def Let_def)
  moreover have "fs_conn_ok P s' d" for d
    using fs_okD(2) [OF ok, of d] i by (auto simp: s' fs_conn_ok_def fs_referenced_def Let_def)
  moreover have "fs_tracks_ok s'"
    using fs_okD(3) [OF ok] notr by (auto simp: s' fs_tracks_ok_def)
  ultimately show "fs_ok P s'"
    using fs_okD(4) [OF ok] by (simp add: s' fs_ok_def fs_ids_ok_def fs_referenced_def)
  show "fs_quiet s s'"
    using fresh by (auto simp: s' fs_quiet_def)
qed

lemma quiet_trans:
  assumes "fs_quiet s s1" and "fs_quiet s1 s2" and "fs_n_impls s \<le> fs_n_impls s1"
    and "\<And>i. i < fs_n_impls s \<Longrightarrow> fi_emitting (fs_impls s1 i) = fi_emitting (fs_impls s i)"
  shows "fs_quiet s s2"
proof -
  have "\<exists>xs. map fst (fi_nodes (fs_impls s2 i)) = map fst (fi_nodes (fs_impls s i)) @ xs"
    if "i < fs_n_impls s" "fi_emitting (fs_impls s i) > 0" for i
    using assms that unfolding fs_quiet_def by (metis append.assoc order_less_le_trans)
  moreover have "fc_signal (fs_conns s d) = Some i"
    if "d < fs_n_conns s" "fc_signal (fs_conns s2 d) = Some i" for d i
    using assms(1,2) that unfolding fs_quiet_def by (meson order_less_le_trans)
  ultimately show ?thesis
    using assms(1,2) by (simp add: fs_quiet_def)
qed

lemma bind_ok:
  assumes ok: "fs_ok P s" and g: "g < length (fs_elems s)" and ts: "\<forall>t \<in> set ts. fs_tracks s t \<noteq> None"
  obtains s' where "fs_bind g fp ts s = Some (fs_n_conns s, s')" and "fs_ok P s'" and "fs_quiet s s'"
    and "fs_connected s' (fs_n_conns s)" and "set (fc_trackables (fs_conns s' (fs_n_conns s))) = set ts"
proof -
  obtain i s1 where 1: "fs_creat g s = Some (i, s1)" "fs_ok P s1" "fs_quiet s s1" "i < fs_n_impls s1"
    "fs_elems s1 = (fs_elems s)[g := Some i]" "fs_conns s1 = fs_conns s" "fs_n_conns s1 = fs_n_conns s"
    "fs_tracks s1 = fs_tracks s"
    by (rule creat_ok [OF ok g]) blast
  have em: "fs_n_impls s \<le> fs_n_impls s1 \<and> (\<forall>j < fs_n_impls s. fi_emitting (fs_impls s1 j) = fi_emitting (fs_impls s j))"
    using 1(1) g by (auto simp: fs_creat_def Let_def split: option.splits)
  have ref: "i \<in> P \<or> fs_referenced s1 i"
    using 1(5) g by (simp add: fs_referenced_def set_update_memI)
  define s2 where "s2 = fs_impl_change i (\<lambda>m. m\<lparr>fi_nodes := fi_nodes m @ [(fs_n_conns s1, True)]\<rparr>)
      ((fs_conn_change (fs_n_conns s1) (\<lambda>_. \<lparr>fc_signal = Some i, fc_func = Some fp, fc_trackables = []\<rparr>) s1)
         \<lparr>fs_n_conns := fs_n_conns s1 + 1\<rparr>)"
  have 2: "fs_ok P s2" "fs_quiet s1 s2"
    using add_conn_ok [OF 1(2,4) ref s2_def] by auto
  have t2: "\<forall>t \<in> set ts. fs_tracks s2 t \<noteq> None"
    using ts 1(8) by (simp add: s2_def)
  have c2: "fs_connected s2 (fs_n_conns s)"
    using 1(7) by (simp add: s2_def fs_connected_def)
  obtain s3 where 3: "fs_track_all (fs_n_conns s) ts s2 = Some s3" "fs_ok P s3" "fs_quiet s2 s3"
    "fs_impls s3 = fs_impls s2" "fs_n_conns s3 = fs_n_conns s2"
    "\<And>d. fc_signal (fs_conns s3 d) = fc_signal (fs_conns s2 d)" "fs_elems s3 = fs_elems s2"
    "set (fc_trackables (fs_conns s3 (fs_n_conns s))) = set ts \<union> set (fc_trackables (fs_conns s2 (fs_n_conns s)))"
    by (rule track_all_ok [OF 2(1) t2 c2]) blast
  have "fs_quiet s s2"
    using quiet_trans [OF 1(3) 2(2)] em by blast
  moreover have "fs_n_impls s \<le> fs_n_impls s2" "\<And>j. j < fs_n_impls s \<Longrightarrow> fi_emitting (fs_impls s2 j) = fi_emitting (fs_impls s j)"
    using em by (auto simp: s2_def)
  ultimately have q: "fs_quiet s s3"
    using quiet_trans 3(3) by blast
  have "fs_bind g fp ts s = Some (fs_n_conns s, s3)"
    using 1(1,7) 3(1) by (simp add: fs_bind_def s2_def Let_def)
  then show ?thesis
    using that 3(2,6,8) q c2 1(7) by (simp add: fs_connected_def s2_def)
qed

end
