(* ===== verification/Fssignal_Emit.thy ===== *)
theory Fssignal_Emit
  imports Fssignal_Inv
begin

text \<open>Emissions: they keep the invariant, and each visits the slots in the order of the list. Every
  sequence of operations, as a relation on states.\<close>

section \<open>The order of an emission\<close>

definition up_to :: "'a \<Rightarrow> 'a list \<Rightarrow> 'a list" where
  "up_to x xs = takeWhile (\<lambda>y. y \<noteq> x) xs @ [x]"

lemma up_to_append: "x \<in> set xs \<Longrightarrow> up_to x (xs @ ys) = up_to x xs"
  by (auto simp: up_to_def)

lemma up_to_split: "x \<notin> set ys \<Longrightarrow> up_to x (ys @ x # zs) = ys @ [x]"
  by (induction ys) (auto simp: up_to_def)

definition node_names :: "fs_state \<Rightarrow> nat \<Rightarrow> nat list" where
  "node_names s i = map fst (fi_nodes (fs_impls s i))"

text \<open>What has been called by the emission \<open>no\<close> of the signal \<open>i\<close> when it has gone through \<open>done\<close>.\<close>
definition fs_visited :: "fs_state \<Rightarrow> nat \<Rightarrow> nat \<Rightarrow> nat list \<Rightarrow> bool" where
  "fs_visited s i no seen \<longleftrightarrow>
     (\<forall>c \<in> set seen. fc_signal (fs_conns s c) = Some i \<longrightarrow> (no, c) \<in> set (fs_log s)) \<and>
     (\<forall>c. (no, c) \<in> set (fs_log s) \<longrightarrow> c \<in> set seen)"

definition fs_frame_ok :: "fs_state \<Rightarrow> fs_frame \<Rightarrow> bool" where
  "fs_frame_ok s f \<longleftrightarrow>
     ff_no f < fs_emissions s \<and> fs_visited s (ff_impl f) (ff_no f) (up_to (ff_node f) (node_names s (ff_impl f)))"

definition fs_visits_ok :: "fs_state \<Rightarrow> bool" where
  "fs_visits_ok s \<longleftrightarrow>
     (\<forall>f \<in> set (fs_frames s). fs_frame_ok s f) \<and> distinct (map ff_no (fs_frames s)) \<and>
     (\<forall>e \<in> set (fs_log s). fst e < fs_emissions s) \<and> distinct (fs_log s)"

lemma frame_facts:
  assumes "fs_ok P s" and "f \<in> set (fs_frames s)"
  shows "ff_impl f < fs_n_impls s" and "ff_node f \<in> set (node_names s (ff_impl f))"
    and "0 < fi_emitting (fs_impls s (ff_impl f))" and "0 < frames_on s (ff_impl f)"
proof -
  show "ff_impl f < fs_n_impls s"
    using fs_okD(4) [OF assms(1)] assms(2) by (auto simp: fs_ids_ok_def fs_referenced_def)
  show "ff_node f \<in> set (node_names s (ff_impl f))"
    using fs_okD(1) [OF assms(1), of "ff_impl f"] assms(2) by (simp add: fs_impl_ok_def node_names_def Let_def)
  show "0 < frames_on s (ff_impl f)"
    using assms(2) by (auto simp: frames_on_def filter_empty_conv)
  then show "0 < fi_emitting (fs_impls s (ff_impl f))"
    using fs_okD(1) [OF assms(1), of "ff_impl f"] by (simp add: fs_impl_ok_def Let_def)
qed

lemma up_to_names:
  assumes "fs_ok P s" and "f \<in> set (fs_frames s)" and "c \<in> set (up_to (ff_node f) (node_names s (ff_impl f)))"
  shows "c < fs_n_conns s"
proof -
  have "c \<in> set (node_names s (ff_impl f))"
    using assms(3) frame_facts(2) [OF assms(1,2)] by (auto simp: up_to_def dest: set_takeWhileD)
  then show ?thesis
    using fs_okD(1) [OF assms(1), of "ff_impl f"] by (auto simp: fs_impl_ok_def node_names_def Let_def)
qed

lemma quiet_visits:
  assumes ok: "fs_ok P s" and q: "fs_quiet s s'" and v: "fs_visits_ok s"
  shows "fs_visits_ok s'"
proof -
  have "fs_frame_ok s' f" if f: "f \<in> set (fs_frames s)" for f
  proof -
    note F = frame_facts [OF ok f]
    obtain xs where "node_names s' (ff_impl f) = node_names s (ff_impl f) @ xs"
      using q F(1,3) by (auto simp: fs_quiet_def node_names_def)
    then have u: "up_to (ff_node f) (node_names s' (ff_impl f)) = up_to (ff_node f) (node_names s (ff_impl f))"
      using up_to_append [OF F(2)] by simp
    have "fc_signal (fs_conns s c) = Some (ff_impl f)"
      if "c \<in> set (up_to (ff_node f) (node_names s (ff_impl f)))" "fc_signal (fs_conns s' c) = Some (ff_impl f)" for c
      using q up_to_names [OF ok f that(1)] that(2) by (simp add: fs_quiet_def)
    moreover have "fs_frame_ok s f"
      using v f by (simp add: fs_visits_ok_def)
    ultimately show ?thesis
      using q u by (simp add: fs_frame_ok_def fs_visited_def fs_quiet_def)
  qed
  then show ?thesis
    using q v by (simp add: fs_visits_ok_def fs_quiet_def)
qed

section \<open>Releasing and finishing\<close>

lemma unpin:
  assumes "fs_ok {i} s" and "fs_referenced s i \<or> (\<forall>c. fc_signal (fs_conns s c) \<noteq> Some i)"
  shows "fs_ok {} s"
proof -
  have "fs_conn_ok {} s c" for c
    using fs_okD(2) [OF assms(1), of c] assms(2) by (auto simp: fs_conn_ok_def Let_def)
  then show ?thesis
    using assms(1) by (simp add: fs_ok_def)
qed

lemma fs_release_ok:
  assumes ok: "fs_ok {i} s"
  obtains s' where "fs_release i s = Some s'" and "fs_ok {} s'" and "fs_fewer s s'"
proof (cases "fs_referenced s i")
  case True
  then show ?thesis
    using that [of s] unpin [OF ok] by (auto simp: fs_release_def fs_referenced_def list_ex_iff)
next
  case False
  obtain s' where "fs_disconnect_all i s = Some s'" "fs_ok {i} s'" "fs_fewer s s'"
    "\<And>c. fc_signal (fs_conns s' c) \<noteq> Some i"
    by (rule disconnect_all_ok [OF ok, of i]) blast
  then show ?thesis
    using that [of s'] unpin [of i s'] False by (auto simp: fs_release_def fs_referenced_def list_ex_iff)
qed

lemma pending_ok:
  assumes ok: "\<forall>j. j \<noteq> i \<longrightarrow> fs_impl_ok s j" "\<forall>c. fs_conn_ok P s c" "fs_tracks_ok s" "fs_ids_ok s"
    and m: "fs_impls s i = m" "distinct (map fst (fi_nodes m))" "fi_emitting m = 0" "frames_on s i = 0"
      "\<forall>n \<in> set (fi_nodes m). fst n < fs_n_conns s \<and> (snd n \<longleftrightarrow> fc_signal (fs_conns s (fst n)) = Some i)"
      "\<not> fi_need m \<longrightarrow> (\<forall>n \<in> set (fi_nodes m). snd n)" "fi_need m \<longrightarrow> fi_nodes m \<noteq> []"
  obtains s' where "clear_pending_erase i s = Some s'" and "fs_ok P s'" and "fs_conns s' = fs_conns s"
    and "fs_frames s' = fs_frames s" and "fs_elems s' = fs_elems s" and "fs_log s' = fs_log s"
    and "fs_emissions s' = fs_emissions s" and "fs_n_conns s' = fs_n_conns s" and "fs_n_impls s' = fs_n_impls s"
    and "\<And>j. j \<noteq> i \<Longrightarrow> fs_impls s' j = fs_impls s j" and "fs_tracks s' = fs_tracks s"
proof (cases "fi_need m")
  case False
  have live: "filter (fs_live s) (fi_nodes m) = fi_nodes m"
    using m(5,6) False by (auto simp: filter_id_conv fs_live_def fs_connected_def)
  have noframe: "\<forall>f \<in> set (fs_frames s). ff_impl f \<noteq> i"
    using m(4) by (auto simp: frames_on_def filter_empty_conv)
  have "fs_impl_ok s i"
    using m False noframe by (auto simp: fs_impl_ok_def Let_def)
  then have "fs_ok P s"
    using ok by (auto simp: fs_ok_def)
  then show ?thesis
    using that [of s] False m(1) live by (auto simp: clear_pending_erase_def fs_size_def Let_def)
next
  case True
  let ?g = "\<lambda>k. k\<lparr>fi_nodes := filter (fs_live s) (fi_nodes k), fi_need := False\<rparr>"
  let ?s = "fs_impl_change i ?g s"
  have noframe: "\<forall>f \<in> set (fs_frames s). ff_impl f \<noteq> i"
    using m(4) by (auto simp: frames_on_def filter_empty_conv)
  have "fs_impl_ok ?s j" for j
    using ok(1) m noframe
    by (cases "j = i") (auto simp: fs_impl_ok_def frames_on_def Let_def distinct_map_filter fs_live_def)
  moreover have "fs_conn_ok P ?s c" for c
    using ok(2) m(1) by (auto simp: fs_conn_ok_def fs_referenced_def fs_live_def fs_connected_def Let_def)
  ultimately have "fs_ok P ?s"
    using ok(3,4) by (simp add: fs_ok_def fs_tracks_ok_def fs_ids_ok_def fs_referenced_def)
  then show ?thesis
    using that [of ?s] True m(1,7) by (simp add: clear_pending_erase_def Let_def)
qed

lemma finish_ok:
  assumes ok: "fs_ok {i} s" and e: "frames_on s i < fi_emitting (fs_impls s i)" and v: "fs_visits_ok s"
  obtains s' where "fs_finish i s = Some s'" and "fs_ok {} s'" and "fs_visits_ok s'"
    and "fs_frames s' = fs_frames s" and "fs_log s' = fs_log s" and "fs_emissions s' = fs_emissions s"
    and "fs_n_conns s' = fs_n_conns s" and "fs_elems s' = fs_elems s"
    and "\<And>d. fs_connected s' d \<Longrightarrow> fs_connected s d"
proof -
  let ?m = "fs_impls s i"
  define s1 where "s1 = fs_impl_change i (\<lambda>m. m\<lparr>fi_emitting := fi_emitting m - 1\<rparr>) s"
  have I: "\<forall>j. j \<noteq> i \<longrightarrow> fs_impl_ok s1 j"
    using fs_okD(1) [OF ok] by (auto simp: s1_def fs_impl_ok_def frames_on_def Let_def)
  have C: "\<forall>c. fs_conn_ok {i} s1 c"
    using fs_okD(2) [OF ok] by (fastforce simp: s1_def fs_conn_ok_def fs_referenced_def Let_def)
  have T: "fs_tracks_ok s1" "fs_ids_ok s1"
    using fs_okD(3,4) [OF ok] by (simp_all add: s1_def fs_tracks_ok_def fs_ids_ok_def fs_referenced_def)
  have M: "distinct (map fst (fi_nodes ?m))"
    "\<forall>n \<in> set (fi_nodes ?m). fst n < fs_n_conns s1 \<and> (snd n \<longleftrightarrow> fc_signal (fs_conns s1 (fst n)) = Some i)"
    "\<not> fi_need ?m \<longrightarrow> (\<forall>n \<in> set (fi_nodes ?m). snd n)" "fi_need ?m \<longrightarrow> fi_nodes ?m \<noteq> []"
    "\<forall>f \<in> set (fs_frames s1). ff_impl f = i \<longrightarrow> ff_node f \<in> fst ` set (fi_nodes ?m)"
    using fs_okD(1) [OF ok, of i] by (auto simp: s1_def fs_impl_ok_def Let_def)
  obtain s2 where 2: "(if is_emiting (fs_impls s1 i) then Some s1 else clear_pending_erase i s1) = Some s2"
    "fs_ok {i} s2" "fs_conns s2 = fs_conns s1" "fs_frames s2 = fs_frames s1" "fs_elems s2 = fs_elems s1"
    "fs_log s2 = fs_log s1" "fs_emissions s2 = fs_emissions s1" "fs_n_conns s2 = fs_n_conns s1"
    "0 < fi_emitting ?m - 1 \<Longrightarrow> fs_impls s2 i = fs_impls s1 i" "\<And>j. j \<noteq> i \<Longrightarrow> fs_impls s2 j = fs_impls s1 j"
  proof (cases "fi_emitting ?m - 1 = 0")
    case False
    then have "fs_impl_ok s1 i"
      using M e by (auto simp: s1_def fs_impl_ok_def frames_on_def Let_def)
    then have "fs_ok {i} s1"
      using I C T by (auto simp: fs_ok_def)
    then show ?thesis
      using that [of s1] False by (simp add: s1_def is_emiting_def)
  next
    case True
    have z: "fi_emitting (fs_impls s1 i) = 0" "frames_on s1 i = 0"
    proof -
      have "frames_on s1 i = frames_on s i"
        by (simp add: s1_def frames_on_def)
      then show "frames_on s1 i = 0"
        using True e by linarith
    qed (use True in \<open>simp add: s1_def\<close>)
    have n: "fi_nodes (fs_impls s1 i) = fi_nodes ?m" "fi_need (fs_impls s1 i) = fi_need ?m"
      by (simp_all add: s1_def)
    obtain s2 where "clear_pending_erase i s1 = Some s2" "fs_ok {i} s2" "fs_conns s2 = fs_conns s1"
      "fs_frames s2 = fs_frames s1" "fs_elems s2 = fs_elems s1" "fs_log s2 = fs_log s1"
      "fs_emissions s2 = fs_emissions s1" "fs_n_conns s2 = fs_n_conns s1" "\<And>j. j \<noteq> i \<Longrightarrow> fs_impls s2 j = fs_impls s1 j"
      by (rule pending_ok [OF I C T refl _ z _ _ _]) (use M n in auto)
    then show ?thesis
      using that [of s2] z True by (simp add: is_emiting_def)
  qed
  obtain s3 where 3: "fs_release i s2 = Some s3" "fs_ok {} s3" "fs_fewer s2 s3"
    by (rule fs_release_ok [OF 2(2)]) blast
  have "fs_finish i s = Option.bind (if is_emiting (fs_impls s1 i) then Some s1 else clear_pending_erase i s1) (fs_release i)"
    using e unfolding fs_finish_def Let_def s1_def by simp
  then have fin: "fs_finish i s = Some s3"
    unfolding 2(1) using 3(1) by simp
  have v2: "fs_visits_ok s2"
  proof -
    have names: "node_names s2 j = node_names s j" if "0 < frames_on s j" for j
      using that e 2(9,10) by (cases "j = i") (auto simp: node_names_def s1_def)
    have same: "fs_conns s2 = fs_conns s" "fs_log s2 = fs_log s" "fs_emissions s2 = fs_emissions s"
      "fs_frames s2 = fs_frames s"
      using 2 by (simp_all add: s1_def)
    have "fs_frame_ok s2 f" if f: "f \<in> set (fs_frames s)" for f
      using v f names [OF frame_facts(4) [OF ok f]] same
      by (simp add: fs_visits_ok_def fs_frame_ok_def fs_visited_def)
    then show ?thesis
      using v same by (simp add: fs_visits_ok_def)
  qed
  have same: "fs_frames s3 = fs_frames s" "fs_log s3 = fs_log s" "fs_emissions s3 = fs_emissions s"
    "fs_n_conns s3 = fs_n_conns s" "fs_elems s3 = fs_elems s"
    using 2(4-8) 3(3) by (simp_all add: fs_fewer_def s1_def)
  have "fs_connected s d" if "fs_connected s3 d" for d
    using fewer_connected [OF 3(3) that] 2(3) by (simp add: fs_connected_def s1_def)
  then show ?thesis
    using that [OF fin 3(2) quiet_visits [OF 2(2) fewer_quiet [OF 3(3)] v2]] same by blast
qed

section \<open>Calling\<close>

lemma names_append: "fi_nodes (fs_impls s i) = xs @ ys \<Longrightarrow> node_names s i = map fst xs @ map fst ys"
  by (simp add: node_names_def)

lemma scan_ok:
  assumes ok: "fs_ok {i} s" and e: "frames_on s i < fi_emitting (fs_impls s i)" and v: "fs_visits_ok s"
    and ns: "fi_nodes (fs_impls s i) = seen @ rest" and vis: "fs_visited s i no (map fst seen)"
    and no: "no < fs_emissions s" "no \<notin> ff_no ` set (fs_frames s)" and i: "i < fs_n_impls s"
  obtains s' where "fs_scan i front no rest s = Some s'" and "fs_ok {} s'" and "fs_visits_ok s'"
    and "fs_n_conns s' = fs_n_conns s" and "fs_elems s' = fs_elems s" and "fs_emissions s' = fs_emissions s"
    and "\<And>d. fs_connected s' d \<Longrightarrow> fs_connected s d"
    and "(\<exists>c. fs_connected s c \<and> fs_frames s' = \<lparr>ff_impl = i, ff_node = c, ff_front = front, ff_no = no\<rparr> # fs_frames s
            \<and> fs_log s' = fs_log s @ [(no, c)]) \<or>
         (fs_frames s' = fs_frames s \<and> fs_log s' = fs_log s \<and>
            (\<forall>c. fc_signal (fs_conns s c) = Some i \<longrightarrow> (no, c) \<in> set (fs_log s)))"
proof -
  have flag: "snd n \<longleftrightarrow> fc_signal (fs_conns s (fst n)) = Some i" if "n \<in> set (seen @ rest)" for n
    using fs_okD(1) [OF ok, of i] that ns by (auto simp: fs_impl_ok_def Let_def)
  have dist: "distinct (map fst (seen @ rest))"
    using fs_okD(1) [OF ok, of i] ns by (simp add: fs_impl_ok_def Let_def)
  show ?thesis
  proof (cases "find (fs_live s) rest")
    case None
    have all: "(no, c) \<in> set (fs_log s)" if c: "fc_signal (fs_conns s c) = Some i" for c
    proof -
      have "(c, True) \<in> set seen \<union> set rest"
        using nodes_of_connected [OF ok c] ns by simp
      moreover have "(c, True) \<notin> set rest"
        using None c by (auto simp: find_None_iff fs_live_def fs_connected_def)
      ultimately have "c \<in> set (map fst seen)" by force
      with vis c show ?thesis
        unfolding fs_visited_def by blast
    qed
    obtain s' where "fs_finish i s = Some s'" "fs_ok {} s'" "fs_visits_ok s'" "fs_frames s' = fs_frames s"
      "fs_log s' = fs_log s" "fs_emissions s' = fs_emissions s" "fs_n_conns s' = fs_n_conns s"
      "fs_elems s' = fs_elems s" "\<And>d. fs_connected s' d \<Longrightarrow> fs_connected s d"
      by (rule finish_ok [OF ok e v]) blast
    then show ?thesis
      using that [of s'] None all by (simp add: fs_scan_def)
  next
    case (Some m)
    then obtain pre post where m: "rest = pre @ m # post" "fs_live s m" "\<forall>n \<in> set pre. \<not> fs_live s n"
      by (auto simp: find_Some_iff in_set_conv_nth) (metis id_take_nth_drop in_set_conv_nth length_take min.absorb4 nth_take)
    have sig: "fc_signal (fs_conns s (fst m)) = Some i"
      using flag [of m] m by (simp add: fs_live_def)
    let ?f = "\<lparr>ff_impl = i, ff_node = fst m, ff_front = front, ff_no = no\<rparr>"
    let ?s = "s\<lparr>fs_frames := ?f # fs_frames s, fs_log := fs_log s @ [(no, fst m)]\<rparr>"
    have run: "fs_scan i front no rest s = Some ?s"
      using Some conn_implD(4) [OF ok sig] by (simp add: fs_scan_def)
    have inl: "fst m \<in> fst ` set (fi_nodes (fs_impls s i))"
      using ns m(1) by simp
    have "fs_impl_ok ?s j" for j
      using fs_okD(1) [OF ok, of j] e inl by (auto simp: fs_impl_ok_def frames_on_def Let_def)
    moreover have "fs_conn_ok {} ?s c" for c
      using fs_okD(2) [OF ok, of c] by (auto simp: fs_conn_ok_def fs_referenced_def Let_def)
    moreover have "fs_ids_ok ?s"
      using fs_okD(4) [OF ok] i by (auto simp: fs_ids_ok_def fs_referenced_def)
    ultimately have ok': "fs_ok {} ?s"
      using fs_okD(3) [OF ok] by (simp add: fs_ok_def fs_tracks_ok_def)
    have up: "up_to (fst m) (node_names s i) = map fst seen @ map fst pre @ [fst m]"
      using names_append [OF ns] dist m(1) up_to_split [of "fst m" "map fst seen @ map fst pre" "map fst post"]
      by auto
    have notlogged: "(no, fst m) \<notin> set (fs_log s)"
      using vis dist m(1) by (auto simp: fs_visited_def)
    have pre: "fc_signal (fs_conns s c) \<noteq> Some i" if "c \<in> set (map fst pre)" for c
      using that m(1,3) flag by (fastforce simp: fs_live_def fs_connected_def)
    have "fs_frame_ok ?s ?f"
      using no(1) vis pre sig by (auto simp: fs_frame_ok_def fs_visited_def node_names_def up [unfolded node_names_def])
    moreover have "fs_frame_ok ?s f" if "f \<in> set (fs_frames s)" for f
    proof -
      have "fs_frame_ok s f" "ff_no f \<noteq> no"
        using v that no(2) by (auto simp: fs_visits_ok_def)
      then show ?thesis
        by (auto simp: fs_frame_ok_def fs_visited_def node_names_def)
    qed
    ultimately have "fs_visits_ok ?s"
      using v no notlogged by (auto simp: fs_visits_ok_def)
    then show ?thesis
      using that [OF run ok'] m(2) by (simp add: fs_connected_def fs_live_def)
  qed
qed

end
