(* ===== verification/Fssignal_Theorems.thy ===== *)
theory Fssignal_Theorems
  imports Fssignal_Emit
begin

text \<open>All operations in any order, slots that use the signals they are called by included: nothing
  that may not happen happens, an emission reaches every slot once, and no slot is called for an
  object that is gone.\<close>

section \<open>The other operations\<close>

lemma popped_ok:
  assumes ok: "fs_ok {} s" and v: "fs_visits_ok s" and f: "fs_frames s = f # fs"
  shows "fs_ok {ff_impl f} (s\<lparr>fs_frames := fs\<rparr>)" and "fs_visits_ok (s\<lparr>fs_frames := fs\<rparr>)"
    and "frames_on (s\<lparr>fs_frames := fs\<rparr>) (ff_impl f) < fi_emitting (fs_impls s (ff_impl f))"
proof -
  let ?s = "s\<lparr>fs_frames := fs\<rparr>"
  have le: "frames_on ?s j + (if ff_impl f = j then 1 else 0) \<le> fi_emitting (fs_impls s j)" for j
    using fs_okD(1) [OF ok, of j] f by (auto simp: fs_impl_ok_def frames_on_def Let_def)
  from this [of "ff_impl f"] show "frames_on ?s (ff_impl f) < fi_emitting (fs_impls s (ff_impl f))"
    by simp
  have "fs_impl_ok ?s j" for j
    using fs_okD(1) [OF ok, of j] le [of j] f by (auto simp: fs_impl_ok_def frames_on_def Let_def)
  moreover have "fs_conn_ok {ff_impl f} ?s c" for c
    using fs_okD(2) [OF ok, of c] f by (auto simp: fs_conn_ok_def fs_referenced_def Let_def)
  moreover have "fs_ids_ok ?s"
    using fs_okD(4) [OF ok] f by (auto simp: fs_ids_ok_def fs_referenced_def)
  ultimately show "fs_ok {ff_impl f} ?s"
    using fs_okD(3) [OF ok] by (simp add: fs_ok_def fs_tracks_ok_def)
  show "fs_visits_ok ?s"
    using v f by (simp add: fs_visits_ok_def fs_frame_ok_def fs_visited_def node_names_def)
qed

lemma nth_elems_ok:
  assumes "fs_ok P s" and "g < length (fs_elems s)" and "fs_elems s ! g = Some i"
  shows "i < fs_n_impls s" and "fs_referenced s i"
proof -
  have "Some i \<in> set (fs_elems s)"
    using assms(2,3) by (metis nth_mem)
  then show "fs_referenced s i"
    by (simp add: fs_referenced_def)
  then show "i < fs_n_impls s"
    using fs_okD(4) [OF assms(1)] by (simp add: fs_ids_ok_def)
qed

text \<open>What the calls of the outside leave of the slots: no slot is connected again.\<close>
definition fs_after :: "fs_state \<Rightarrow> fs_state \<Rightarrow> bool" where
  "fs_after s s' \<longleftrightarrow>
     fs_n_conns s \<le> fs_n_conns s' \<and>
     (\<forall>d < fs_n_conns s. fs_connected s' d \<longrightarrow> fs_connected s d) \<and>
     (\<exists>new. fs_log s' = fs_log s @ new \<and> (\<forall>e \<in> set new. fs_connected s (snd e)))"

lemma quiet_after: "fs_quiet s s' \<Longrightarrow> fs_after s s'"
  unfolding fs_after_def fs_quiet_def fs_connected_def by (metis append_Nil2 empty_iff list.set(1) not_None_eq)

lemma fewer_after: "fs_fewer s s' \<Longrightarrow> fs_after s s'"
  using fewer_quiet quiet_after by blast

lemma return_ok:
  assumes ok: "fs_ok {} s" and v: "fs_visits_ok s" and f: "fs_frames s = f # fs"
  obtains s' where "fs_return s = Some s'" and "fs_ok {} s'" and "fs_visits_ok s'" and "fs_after s s'"
    and "\<not> ff_front f \<Longrightarrow> fs_frames s' = fs \<Longrightarrow>
           (\<forall>c. fc_signal (fs_conns s c) = Some (ff_impl f) \<longrightarrow> (ff_no f, c) \<in> set (fs_log s))"
    and "length (fs_elems s') = length (fs_elems s)"
proof -
  let ?s = "s\<lparr>fs_frames := fs\<rparr>" and ?i = "ff_impl f" and ?ns = "fi_nodes (fs_impls s (ff_impl f))"
  note P = popped_ok [OF assms]
  have fin: "f \<in> set (fs_frames s)" using f by simp
  have e: "frames_on ?s ?i < fi_emitting (fs_impls ?s ?i)" using P(3) by simp
  show ?thesis
  proof (cases "ff_front f")
    case True
    obtain s' where "fs_finish ?i ?s = Some s'" "fs_ok {} s'" "fs_visits_ok s'" "fs_frames s' = fs"
      "fs_log s' = fs_log s" "fs_n_conns s' = fs_n_conns s" "fs_elems s' = fs_elems s"
      "\<And>d. fs_connected s' d \<Longrightarrow> fs_connected s d"
      using finish_ok [OF P(1) e P(2)] by (auto simp: fs_connected_def)
    then show ?thesis
      using that [of s'] True f by (simp add: fs_return_def fs_after_def)
  next
    case False
    have node: "ff_node f \<in> fst ` set ?ns"
      using frame_facts(2) [OF ok fin] by (simp add: node_names_def)
    define seen where "seen = takeWhile (\<lambda>n. fst n \<noteq> ff_node f) ?ns"
    define rest where "rest = dropWhile (\<lambda>n. fst n \<noteq> ff_node f) ?ns"
    have split: "?ns = seen @ rest" by (simp add: seen_def rest_def)
    have "rest \<noteq> []"
    proof
      assume "rest = []"
      then have "\<forall>n \<in> set ?ns. fst n \<noteq> ff_node f"
        by (simp add: rest_def)
      with node show False by auto
    qed
    then obtain m post where m: "rest = m # post" by (cases rest) auto
    then have mf: "fst m = ff_node f"
      using hd_dropWhile [of "\<lambda>n. fst n \<noteq> ff_node f" ?ns] by (simp add: rest_def)
    have "ff_node f \<notin> set (map fst seen)"
      by (auto simp: seen_def dest: set_takeWhileD)
    then have up: "up_to (ff_node f) (node_names s ?i) = map fst (seen @ [m])"
      using split m mf up_to_split [of "ff_node f" "map fst seen" "map fst post"] by (simp add: node_names_def)
    have "fs_frame_ok s f"
      using v fin by (simp add: fs_visits_ok_def)
    then have vis: "fs_visited ?s ?i (ff_no f) (map fst (seen @ [m]))" and no: "ff_no f < fs_emissions ?s"
      unfolding fs_frame_ok_def up by (simp_all add: fs_visited_def)
    have nin: "ff_no f \<notin> ff_no ` set (fs_frames ?s)"
      using v f by (simp add: fs_visits_ok_def)
    have ns: "fi_nodes (fs_impls ?s ?i) = (seen @ [m]) @ post"
      using split m by simp
    have i: "?i < fs_n_impls ?s"
      using frame_facts(1) [OF ok fin] by simp
    have run: "fs_return s = fs_scan ?i False (ff_no f) post ?s"
      using f False node m by (simp add: fs_return_def Let_def rest_def)
    show ?thesis
    proof (rule scan_ok [OF P(1) e P(2) ns vis no nin i, of False])
      fix s'
      assume 1: "fs_scan ?i False (ff_no f) post ?s = Some s'" "fs_ok {} s'" "fs_visits_ok s'"
        "fs_n_conns s' = fs_n_conns ?s" "fs_elems s' = fs_elems ?s" "\<And>d. fs_connected s' d \<Longrightarrow> fs_connected ?s d"
        "(\<exists>c. fs_connected ?s c \<and> fs_frames s' = \<lparr>ff_impl = ?i, ff_node = c, ff_front = False, ff_no = ff_no f\<rparr> # fs_frames ?s
            \<and> fs_log s' = fs_log ?s @ [(ff_no f, c)]) \<or>
         (fs_frames s' = fs_frames ?s \<and> fs_log s' = fs_log ?s \<and>
            (\<forall>c. fc_signal (fs_conns ?s c) = Some ?i \<longrightarrow> (ff_no f, c) \<in> set (fs_log ?s)))"
      have "fs_after s s'"
        using 1(4,6,7) by (auto simp: fs_after_def fs_connected_def)
      then show ?thesis
        using that [of s'] run 1(1,2,3,5,7) by auto
    qed
  qed
qed

lemma emit_ok:
  assumes ok: "fs_ok {} s" and v: "fs_visits_ok s" and g: "g < length (fs_elems s)"
    and n: "\<And>i. fs_elems s ! g = Some i \<Longrightarrow> fi_emitting (fs_impls s i) < 10"
  obtains s' where "fs_emit front g s = Some s'" and "fs_ok {} s'" and "fs_visits_ok s'" and "fs_after s s'"
    and "length (fs_elems s') = length (fs_elems s)"
proof (cases "fs_elems s ! g")
  case None
  then show ?thesis
    using that [of s] ok v g by (simp add: fs_emit_def fs_after_def)
next
  case (Some i)
  define s1 where "s1 = (fs_impl_change i (\<lambda>m. m\<lparr>fi_emitting := fi_emitting m + 1\<rparr>) s)
                          \<lparr>fs_emissions := fs_emissions s + 1\<rparr>"
  have "fs_impl_ok s1 j" for j
    using fs_okD(1) [OF ok, of j] by (auto simp: s1_def fs_impl_ok_def frames_on_def Let_def)
  moreover have "fs_conn_ok {i} s1 c" for c
    using fs_okD(2) [OF ok, of c] by (fastforce simp: s1_def fs_conn_ok_def fs_referenced_def Let_def)
  ultimately have ok1: "fs_ok {i} s1"
    using fs_okD(3,4) [OF ok] by (simp add: s1_def fs_ok_def fs_tracks_ok_def fs_ids_ok_def fs_referenced_def)
  have e: "frames_on s1 i < fi_emitting (fs_impls s1 i)"
    using fs_okD(1) [OF ok, of i] by (simp add: s1_def fs_impl_ok_def frames_on_def Let_def)
  have names: "node_names s1 j = node_names s j" for j
    by (simp add: s1_def node_names_def)
  have fr: "fs_frame_ok s1 f" if "f \<in> set (fs_frames s)" for f
  proof -
    have "fs_frame_ok s f"
      using v that by (simp add: fs_visits_ok_def)
    then show ?thesis
      unfolding fs_frame_ok_def fs_visited_def names by (simp add: s1_def)
  qed
  have v1: "fs_visits_ok s1"
    using v fr by (auto simp: s1_def fs_visits_ok_def less_Suc_eq)
  have vis: "fs_visited s1 i (fs_emissions s) (map fst [])"
    using v by (auto simp: s1_def fs_visits_ok_def fs_visited_def)
  have no: "fs_emissions s < fs_emissions s1" "fs_emissions s \<notin> ff_no ` set (fs_frames s1)"
    using v by (auto simp: s1_def fs_visits_ok_def fs_frame_ok_def)
  have i: "i < fs_n_impls s1"
    using nth_elems_ok(1) [OF ok g Some] by (simp add: s1_def)
  have ns: "fi_nodes (fs_impls s1 i) = [] @ fi_nodes (fs_impls s1 i)" by simp
  have run: "fs_emit front g s = fs_scan i front (fs_emissions s) (fi_nodes (fs_impls s1 i)) s1"
    using Some g n [OF Some] by (simp add: fs_emit_def s1_def Let_def)
  show ?thesis
  proof (rule scan_ok [OF ok1 e v1 ns vis no i, of front])
    fix s'
    assume 1: "fs_scan i front (fs_emissions s) (fi_nodes (fs_impls s1 i)) s1 = Some s'" "fs_ok {} s'" "fs_visits_ok s'"
      "fs_n_conns s' = fs_n_conns s1" "fs_elems s' = fs_elems s1" "\<And>d. fs_connected s' d \<Longrightarrow> fs_connected s1 d"
      "(\<exists>c. fs_connected s1 c \<and> fs_frames s' = \<lparr>ff_impl = i, ff_node = c, ff_front = front, ff_no = fs_emissions s\<rparr> # fs_frames s1
          \<and> fs_log s' = fs_log s1 @ [(fs_emissions s, c)]) \<or>
       (fs_frames s' = fs_frames s1 \<and> fs_log s' = fs_log s1 \<and>
          (\<forall>c. fc_signal (fs_conns s1 c) = Some i \<longrightarrow> (fs_emissions s, c) \<in> set (fs_log s1)))"
    have "fs_after s s'"
      using 1(4,6,7) by (auto simp: s1_def fs_after_def fs_connected_def)
    then show ?thesis
      using that [of s'] run 1(1,2,3,5) by (simp add: s1_def)
  qed
qed

lemma throw_ok:
  assumes ok: "fs_ok {} s" and v: "fs_visits_ok s" and f: "fs_frames s = f # fs"
  obtains s' where "fs_throw s = Some s'" and "fs_ok {} s'" and "fs_visits_ok s'" and "fs_after s s'"
    and "length (fs_elems s') = length (fs_elems s)"
proof -
  note P = popped_ok [OF assms]
  obtain s' where r: "fs_release (ff_impl f) (s\<lparr>fs_frames := fs\<rparr>) = Some s'" "fs_ok {} s'"
    "fs_fewer (s\<lparr>fs_frames := fs\<rparr>) s'"
    by (rule fs_release_ok [OF P(1)]) blast
  have "fs_after s s'"
    using fewer_after [OF r(3)] by (simp add: fs_after_def fs_connected_def)
  moreover have "fs_elems s' = fs_elems s"
    using r(3) by (simp add: fs_fewer_def)
  ultimately show ?thesis
    using that [of s'] f r(1,2) quiet_visits [OF P(1) fewer_quiet [OF r(3)] P(2)] by (simp add: fs_throw_def)
qed

lemma elems_only_ok:
  assumes ok: "fs_ok {} s" and e: "\<And>i. Some i \<in> set es \<Longrightarrow> Some i \<in> set (fs_elems s)"
    and k: "\<And>i. Some i \<in> set (fs_elems s) \<Longrightarrow> Some i \<in> set es \<or> i \<in> P"
  shows "fs_ok P (s\<lparr>fs_elems := es\<rparr>)" and "fs_quiet s (s\<lparr>fs_elems := es\<rparr>)"
proof -
  let ?s = "s\<lparr>fs_elems := es\<rparr>"
  have "fs_impl_ok ?s j" for j
    using fs_okD(1) [OF ok, of j] by (auto simp: fs_impl_ok_def frames_on_def Let_def)
  moreover have "fs_conn_ok P ?s c" for c
    using fs_okD(2) [OF ok, of c] k by (auto simp: fs_conn_ok_def fs_referenced_def Let_def)
  moreover have "fs_ids_ok ?s"
    using fs_okD(4) [OF ok] e by (auto simp: fs_ids_ok_def fs_referenced_def)
  ultimately show "fs_ok P ?s"
    using fs_okD(3) [OF ok] by (simp add: fs_ok_def fs_tracks_ok_def)
qed (simp add: fs_quiet_def)

lemma destroy_ok:
  assumes ok: "fs_ok {} s" and v: "fs_visits_ok s" and g: "g < length (fs_elems s)"
  obtains s' where "fs_destroy g s = Some s'" and "fs_ok {} s'" and "fs_visits_ok s'" and "fs_after s s'"
    and "length (fs_elems s') = length (fs_elems s)" and "fs_fewer (s\<lparr>fs_elems := (fs_elems s)[g := None]\<rparr>) s'"
proof (cases "fs_elems s ! g")
  case None
  then show ?thesis
    using that [of s] ok v g list_update_id [of "fs_elems s" g] by (simp add: fs_destroy_def fs_after_def)
next
  case (Some i)
  let ?es = "(fs_elems s)[g := None]"
  have sub: "Some j \<in> set (fs_elems s)" if "Some j \<in> set ?es" for j
    using that set_update_subset_insert [of "fs_elems s" g None] by auto
  have keep: "Some j \<in> set ?es \<or> j \<in> {i}" if "Some j \<in> set (fs_elems s)" for j
    using that Some g by (metis in_set_conv_nth insertI1 length_list_update nth_list_update_neq option.inject)
  note E = elems_only_ok [OF ok sub keep]
  obtain s' where r: "fs_release i (s\<lparr>fs_elems := ?es\<rparr>) = Some s'" "fs_ok {} s'" "fs_fewer (s\<lparr>fs_elems := ?es\<rparr>) s'"
    by (rule fs_release_ok [OF E(1)]) blast
  have "fs_after s s'"
    using fewer_after [OF r(3)] by (simp add: fs_after_def fs_connected_def)
  moreover have "fs_visits_ok s'"
    using quiet_visits [OF E(1) fewer_quiet [OF r(3)]] quiet_visits [OF ok E(2) v] by blast
  moreover have "length (fs_elems s') = length (fs_elems s)"
    using r(3) by (simp add: fs_fewer_def)
  ultimately show ?thesis
    using that [of s'] Some g r by (simp add: fs_destroy_def)
qed

lemma swap_ok:
  assumes ok: "fs_ok {} s" and g: "g < length (fs_elems s)" "h < length (fs_elems s)"
  obtains s' where "fs_swap g h s = Some s'" and "fs_ok {} s'" and "fs_quiet s s'"
    and "length (fs_elems s') = length (fs_elems s)"
proof -
  let ?es = "(fs_elems s)[g := fs_elems s ! h, h := fs_elems s ! g]"
  have "set ?es = set (fs_elems s)"
    using g by (rule set_swap)
  then show ?thesis
    using that elems_only_ok [OF ok, of ?es "{}"] g by (simp add: fs_swap_def)
qed

section \<open>Any sequence of operations\<close>

datatype fs_act =
    Fs_bind nat nat "nat list"
  | Fs_disconnect nat
  | Fs_untrack nat
  | Fs_clear nat
  | Fs_emit bool nat
  | Fs_return
  | Fs_throw
  | Fs_destroy nat
  | Fs_swap nat nat
  | Fs_new

fun fs_perform :: "fs_act \<Rightarrow> fs_state \<Rightarrow> fs_state option" where
  "fs_perform (Fs_bind g fp ts) s = map_option snd (fs_bind g fp ts s)"
| "fs_perform (Fs_disconnect c) s = fs_disconnect c s"
| "fs_perform (Fs_untrack t) s = fs_trackable_destroy t s"
| "fs_perform (Fs_clear g) s = fs_clear g s"
| "fs_perform (Fs_emit front g) s = fs_emit front g s"
| "fs_perform Fs_return s = fs_return s"
| "fs_perform Fs_throw s = fs_throw s"
| "fs_perform (Fs_destroy g) s = fs_destroy g s"
| "fs_perform (Fs_swap g h) s = fs_swap g h s"
| "fs_perform Fs_new s = Some (snd (fs_new s))"

text \<open>What a program may do: signals that exist, objects that are alive, and a slot returns or throws
  that has been called. Emissions of one signal are nested at most ten deep.\<close>
fun fs_may :: "fs_act \<Rightarrow> fs_state \<Rightarrow> bool" where
  "fs_may (Fs_bind g fp ts) s = (g < length (fs_elems s) \<and> list_all (\<lambda>t. fs_tracks s t \<noteq> None) ts)"
| "fs_may (Fs_disconnect c) s = True"
| "fs_may (Fs_untrack t) s = (fs_tracks s t \<noteq> None)"
| "fs_may (Fs_clear g) s = (g < length (fs_elems s))"
| "fs_may (Fs_emit front g) s =
     (g < length (fs_elems s) \<and>
      (case fs_elems s ! g of None \<Rightarrow> True | Some i \<Rightarrow> fi_emitting (fs_impls s i) < 10))"
| "fs_may Fs_return s = (fs_frames s \<noteq> [])"
| "fs_may Fs_throw s = (fs_frames s \<noteq> [])"
| "fs_may (Fs_destroy g) s = (g < length (fs_elems s))"
| "fs_may (Fs_swap g h) s = (g < length (fs_elems s) \<and> h < length (fs_elems s))"
| "fs_may Fs_new s = True"

inductive fs_reach :: "nat \<Rightarrow> fs_state \<Rightarrow> bool" for n where
  start: "fs_reach n (fs_init n)"
| act: "fs_reach n s \<Longrightarrow> fs_may a s \<Longrightarrow> fs_perform a s = Some s' \<Longrightarrow> fs_reach n s'"

lemma act_ok:
  assumes ok: "fs_ok {} s" and v: "fs_visits_ok s" and m: "fs_may a s"
  obtains s' where "fs_perform a s = Some s'" and "fs_ok {} s'" and "fs_visits_ok s'" and "fs_after s s'"
proof -
  have q: thesis if "fs_perform a s = Some s'" "fs_ok {} s'" "fs_quiet s s'" for s'
    using \<open>\<And>s'. fs_perform a s = Some s' \<Longrightarrow> fs_ok {} s' \<Longrightarrow> fs_visits_ok s' \<Longrightarrow> fs_after s s' \<Longrightarrow> thesis\<close>
      that quiet_visits [OF ok that(3) v] quiet_after by blast
  show ?thesis
  proof (cases a)
    case (Fs_bind g fp ts)
    then have b: "g < length (fs_elems s)" "\<forall>t \<in> set ts. fs_tracks s t \<noteq> None"
      using m by (simp_all add: list_all_iff)
    obtain s1 where "fs_bind g fp ts s = Some (fs_n_conns s, s1)" "fs_ok {} s1" "fs_quiet s s1"
      by (rule bind_ok [OF ok b, of fp]) blast
    then show ?thesis
      using q [of s1] Fs_bind by simp
  next
    case (Fs_disconnect c)
    obtain s1 where "fs_disconnect c s = Some s1" "fs_ok {} s1" "fs_fewer s s1"
      by (rule disconnect_ok [OF ok, of c]) blast
    then show ?thesis
      using q [of s1] Fs_disconnect fewer_quiet by simp
  next
    case (Fs_untrack t)
    then have t: "fs_tracks s t \<noteq> None" using m by simp
    obtain s1 where "fs_trackable_destroy t s = Some s1" "fs_ok {} s1" "fs_fewer s s1"
      by (rule trackable_destroy_ok [OF ok t]) blast
    then show ?thesis
      using q [of s1] Fs_untrack fewer_quiet by simp
  next
    case (Fs_clear g)
    show ?thesis
    proof (cases "fs_elems s ! g")
      case None
      then show ?thesis
        using m Fs_clear ok q [of s] by (simp add: fs_clear_def fs_quiet_def)
    next
      case (Some i)
      obtain s1 where "fs_disconnect_all i s = Some s1" "fs_ok {} s1" "fs_fewer s s1"
        by (rule disconnect_all_ok [OF ok, of i]) blast
      then show ?thesis
        using m Fs_clear Some q [of s1] fewer_quiet by (simp add: fs_clear_def)
    qed
  next
    case (Fs_emit front g)
    then have g: "g < length (fs_elems s)" "\<And>i. fs_elems s ! g = Some i \<Longrightarrow> fi_emitting (fs_impls s i) < 10"
      using m by auto
    obtain s1 where "fs_emit front g s = Some s1" "fs_ok {} s1" "fs_visits_ok s1" "fs_after s s1"
      by (rule emit_ok [OF ok v g, of front]) blast+
    then show ?thesis
      using that [of s1] Fs_emit by simp
  next
    case Fs_return
    then obtain f fs where f: "fs_frames s = f # fs"
      using m by (cases "fs_frames s") auto
    obtain s1 where "fs_return s = Some s1" "fs_ok {} s1" "fs_visits_ok s1" "fs_after s s1"
      by (rule return_ok [OF ok v f]) blast
    then show ?thesis
      using that [of s1] Fs_return by simp
  next
    case Fs_throw
    then obtain f fs where f: "fs_frames s = f # fs"
      using m by (cases "fs_frames s") auto
    obtain s1 where "fs_throw s = Some s1" "fs_ok {} s1" "fs_visits_ok s1" "fs_after s s1"
      by (rule throw_ok [OF ok v f]) blast
    then show ?thesis
      using that [of s1] Fs_throw by simp
  next
    case (Fs_destroy g)
    then have g: "g < length (fs_elems s)" using m by simp
    obtain s1 where "fs_destroy g s = Some s1" "fs_ok {} s1" "fs_visits_ok s1" "fs_after s s1"
      by (rule destroy_ok [OF ok v g]) blast
    then show ?thesis
      using that [of s1] Fs_destroy by simp
  next
    case (Fs_swap g h)
    then have g: "g < length (fs_elems s)" "h < length (fs_elems s)" using m by simp_all
    obtain s1 where "fs_swap g h s = Some s1" "fs_ok {} s1" "fs_quiet s s1"
      by (rule swap_ok [OF ok g]) blast
    then show ?thesis
      using q [of s1] Fs_swap by simp
  next
    case Fs_new
    then show ?thesis
      using q [of "snd (fs_new s)"] elems_only_ok [OF ok, of "fs_elems s @ [None]" "{}"] by (simp add: fs_new_def)
  qed
qed

lemma fs_reach_ok:
  assumes "fs_reach n s"
  shows "fs_ok {} s \<and> fs_visits_ok s"
  using assms
proof induction
  case start
  show ?case
    using ok_init by (simp add: fs_visits_ok_def fs_init_def)
next
  case (act s a s')
  then show ?case
    by (metis act_ok option.inject)
qed

fun fs_runs :: "fs_act list \<Rightarrow> fs_state \<Rightarrow> fs_state option" where
  "fs_runs [] s = Some s"
| "fs_runs (a # as) s = (if fs_may a s then Option.bind (fs_perform a s) (fs_runs as) else None)"

lemma runs_reach: "fs_runs as s = Some s' \<Longrightarrow> fs_reach n s \<Longrightarrow> fs_reach n s'"
  by (induction as arbitrary: s) (auto simp: bind_eq_Some_conv split: if_splits intro: fs_reach.act)

text \<open>A slot that is not connected stays so, and is not called.\<close>
lemma runs_silent:
  assumes "fs_runs as s = Some s'" and "fs_reach n s" and "\<not> fs_connected s c" and "c < fs_n_conns s"
  shows "\<not> fs_connected s' c \<and> (\<exists>new. fs_log s' = fs_log s @ new \<and> c \<notin> snd ` set new)"
  using assms
proof (induction as arbitrary: s)
  case Nil
  then show ?case by simp
next
  case (Cons a as)
  then obtain s1 where 1: "fs_may a s" "fs_perform a s = Some s1" "fs_runs as s1 = Some s'"
    by (auto simp: bind_eq_Some_conv split: if_splits)
  have "fs_ok {} s" "fs_visits_ok s"
    using fs_reach_ok [OF Cons.prems(2)] by auto
  then have af: "fs_after s s1"
    using act_ok [OF _ _ 1(1)] 1(2) by (metis option.inject)
  then have "\<not> fs_connected s1 c" "c < fs_n_conns s1"
    using Cons.prems(3,4) by (auto simp: fs_after_def)
  then have "\<not> fs_connected s' c \<and> (\<exists>new. fs_log s' = fs_log s1 @ new \<and> c \<notin> snd ` set new)"
    using Cons.IH [OF 1(3)] fs_reach.act [OF Cons.prems(2) 1(1,2)] by blast
  moreover obtain new where "fs_log s1 = fs_log s @ new" "c \<notin> snd ` set new"
    using af Cons.prems(3) unfolding fs_after_def by (metis imageE)
  ultimately show ?case
    by (auto simp: image_Un)
qed

text \<open>An exception leaves the implementation in the state of emitting: the count is the same, and
  there is one emission less that will ever count it down.\<close>
lemma throw_keeps_count:
  assumes "fs_reach n s" and f: "fs_frames s = f # fs" and "fs_throw s = Some s'"
  shows "fi_emitting (fs_impls s' (ff_impl f)) = fi_emitting (fs_impls s (ff_impl f))"
    and "frames_on s' (ff_impl f) + 1 = frames_on s (ff_impl f)"
proof -
  have "fs_ok {ff_impl f} (s\<lparr>fs_frames := fs\<rparr>)"
    using popped_ok(1) fs_reach_ok [OF assms(1)] f by blast
  then obtain s1 where r: "fs_release (ff_impl f) (s\<lparr>fs_frames := fs\<rparr>) = Some s1" "fs_fewer (s\<lparr>fs_frames := fs\<rparr>) s1"
    by (rule fs_release_ok) blast
  then have "s' = s1"
    using assms(3) f by (simp add: fs_throw_def)
  then show "fi_emitting (fs_impls s' (ff_impl f)) = fi_emitting (fs_impls s (ff_impl f))"
    and "frames_on s' (ff_impl f) + 1 = frames_on s (ff_impl f)"
    using r(2) f by (simp_all add: fs_fewer_def frames_on_def)
qed

lemma count_distinct: "distinct xs \<Longrightarrow> count_list xs e = (if e \<in> set xs then 1 else 0)"
  by (induction xs) (auto simp: count_list_0_iff)

section \<open>Properties\<close>

text \<open>C7: Whatever has happened, and whichever slots are being called at the moment, these operations on
  signals have a result: making, destroying, swapping and clearing signals, binding, disconnecting one
  slot, destroying a trackable, emitting in either direction a signal with fewer than ten emissions
  under way (the emission asserts that), and the return of a slot, or its throwing. No node is erased twice, no emission goes on from a node
  that is gone, no slot without a function is called, no assertion fails. \<open>pop_front_slot\<close> and
  \<open>pop_back_slot\<close> are not among them, and are not in the histories either: they break the list of
  slots (\<open>pop_front_takes_two\<close>).\<close>
lemma signals_always_defined:
  assumes "fs_reach n s" and "fs_may a s"
  shows "\<exists>s'. fs_perform a s = Some s' \<and> fs_reach n s'"
  using act_ok [of s a] fs_reach_ok [OF assms(1)] assms fs_reach.act by metis

lemma signals_always_defined_witness:
  "\<exists>s s'. fs_runs [Fs_bind 0 7 [], Fs_bind 0 8 [], Fs_emit False 0] (fs_init 1) = Some s \<and>
     fs_perform (Fs_disconnect 0) s = Some s'"
proof -
  have "fs_runs [Fs_bind 0 7 [], Fs_bind 0 8 [], Fs_emit False 0] (fs_init 1) \<noteq> None"
    by code_simp
  then obtain s where s: "fs_runs [Fs_bind 0 7 [], Fs_bind 0 8 [], Fs_emit False 0] (fs_init 1) = Some s"
    by blast
  have "fs_may (Fs_disconnect 0) s" by simp
  with signals_always_defined [OF runs_reach [OF s fs_reach.start [of 1]] this] s show ?thesis
    by blast
qed

text \<open>C6: An emission reaches every slot once. When the emission \<open>ff_no f\<close> has gone through the slots, after
  whatever those slots have done to the signal, every slot that is then connected has been called by it
  exactly once; and none, connected or not, has been called twice.\<close>
lemma emission_calls_each_once:
  assumes "fs_reach n s" and "fs_frames s = f # fs" and "\<not> ff_front f"
    and "fs_return s = Some s'" and "fs_frames s' = fs"
  shows "(\<forall>c. fc_signal (fs_conns s c) = Some (ff_impl f) \<longrightarrow> count_list (fs_log s) (ff_no f, c) = 1) \<and>
     (\<forall>e. count_list (fs_log s) e \<le> 1)"
proof -
  have ok: "fs_ok {} s" "fs_visits_ok s"
    using fs_reach_ok [OF assms(1)] by auto
  obtain s1 where "fs_return s = Some s1" "fs_frames s1 = fs \<Longrightarrow>
      (\<forall>c. fc_signal (fs_conns s c) = Some (ff_impl f) \<longrightarrow> (ff_no f, c) \<in> set (fs_log s))"
    by (rule return_ok [OF ok assms(2)]) (use assms(3) in blast)
  then have "\<forall>c. fc_signal (fs_conns s c) = Some (ff_impl f) \<longrightarrow> (ff_no f, c) \<in> set (fs_log s)"
    using assms(4,5) by simp
  moreover have "count_list (fs_log s) e = (if e \<in> set (fs_log s) then 1 else 0)" for e
    using ok(2) by (simp add: fs_visits_ok_def count_distinct)
  ultimately show ?thesis
    by simp
qed

lemma emission_calls_each_once_witness:
  "\<exists>s. fs_runs [Fs_bind 0 7 [], Fs_bind 0 8 [], Fs_emit False 0, Fs_bind 0 9 [], Fs_disconnect 0, Fs_return, Fs_return]
     (fs_init 1) = Some s \<and> fc_signal (fs_conns s 2) = Some 0 \<and> count_list (fs_log s) (0, 2) = 1"
proof -
  let ?as = "[Fs_bind 0 7 [], Fs_bind 0 8 [], Fs_emit False 0, Fs_bind 0 9 [], Fs_disconnect 0, Fs_return, Fs_return]"
  have "case fs_runs ?as (fs_init 1) of
      None \<Rightarrow> False
    | Some s \<Rightarrow> fs_frames s = [\<lparr>ff_impl = 0, ff_node = 2, ff_front = False, ff_no = 0\<rparr>] \<and>
        fc_signal (fs_conns s 2) = Some 0 \<and> (case fs_return s of None \<Rightarrow> False | Some s' \<Rightarrow> fs_frames s' = [])"
    by code_simp
  then obtain s s' where s: "fs_runs ?as (fs_init 1) = Some s"
    and f: "fs_frames s = [\<lparr>ff_impl = 0, ff_node = 2, ff_front = False, ff_no = 0\<rparr>]"
    and c: "fc_signal (fs_conns s 2) = Some 0" and r: "fs_return s = Some s'" "fs_frames s' = []"
    by (auto split: option.splits)
  have "\<not> ff_front \<lparr>ff_impl = 0, ff_node = 2, ff_front = False, ff_no = 0\<rparr>" by simp
  from emission_calls_each_once [OF runs_reach [OF s fs_reach.start] f this r] s c show ?thesis
    by auto
qed

text \<open>C8: When an object that slots are bound to is destroyed, those slots are disconnected, and none of
  them is called again, neither by the emissions in progress nor by later ones, whatever follows.\<close>
lemma dead_objects_not_called:
  assumes "fs_reach n s" and "fs_tracks s t \<noteq> None" and "t \<in> set (fc_trackables (fs_conns s c))"
    and "fs_trackable_destroy t s = Some s1" and "fs_runs as s1 = Some s2"
  shows "\<not> fs_connected s2 c \<and> (\<exists>new. fs_log s2 = fs_log s1 @ new \<and> c \<notin> snd ` set new)"
proof -
  have ok: "fs_ok {} s" using fs_reach_ok [OF assms(1)] by simp
  obtain s' where "fs_trackable_destroy t s = Some s'" "fs_fewer s s'" "\<not> fs_connected s' c"
    by (rule trackable_destroy_ok [OF ok assms(2)]) (use assms(3) in blast)
  then have 1: "fs_fewer s s1" "\<not> fs_connected s1 c"
    using assms(4) by auto
  have "fs_perform (Fs_untrack t) s = Some s1" "fs_may (Fs_untrack t) s"
    using assms(2,4) by simp_all
  then have "fs_reach n s1"
    using assms(1) fs_reach.act by blast
  moreover have "fc_signal (fs_conns s c) \<noteq> None"
    using fs_okD(2) [OF ok, of c] assms(3) by (auto simp: fs_conn_ok_def Let_def)
  then have "c < fs_n_conns s1"
    using conn_implD(2) [OF ok] 1(1) by (auto simp: fs_fewer_def)
  ultimately show ?thesis
    using runs_silent [OF assms(5)] 1(2) by blast
qed

lemma dead_objects_not_called_witness:
  "\<exists>s s1 s2. fs_runs [Fs_bind 0 7 [], Fs_bind 0 8 [4], Fs_emit False 0] (fs_init 1) = Some s \<and>
     fs_trackable_destroy 4 s = Some s1 \<and> fs_runs [Fs_return, Fs_emit False 0] s1 = Some s2 \<and> \<not> fs_connected s2 1"
proof -
  let ?as = "[Fs_bind 0 7 [], Fs_bind 0 8 [4], Fs_emit False 0]" and ?bs = "[Fs_return, Fs_emit False 0]"
  have "case fs_runs ?as (fs_init 1) of
      None \<Rightarrow> False
    | Some s \<Rightarrow> fs_tracks s 4 = Some [1] \<and> fc_trackables (fs_conns s 1) = [4] \<and>
        (case fs_trackable_destroy 4 s of None \<Rightarrow> False | Some s1 \<Rightarrow> \<not> Option.is_none (fs_runs ?bs s1))"
    by code_simp
  then obtain s s1 s2 where s: "fs_runs ?as (fs_init 1) = Some s" and t: "fs_tracks s 4 \<noteq> None"
    and c: "4 \<in> set (fc_trackables (fs_conns s 1))" and d: "fs_trackable_destroy 4 s = Some s1"
    and r: "fs_runs ?bs s1 = Some s2"
    by (auto split: option.splits simp: Option.is_none_def)
  from dead_objects_not_called [OF runs_reach [OF s fs_reach.start] t c d r] s d r show ?thesis
    by blast
qed

text \<open>\<open>pop_front_slot\<close> outside of an emission takes two slots away. The second one is still connected,
  but it is not in the list any more, so it is not called, and disconnecting it erases a node that is
  not there. With a single slot it takes from an empty list.\<close>
lemma pop_front_takes_two:
  assumes "fs_reach n s" and g: "g < length (fs_elems s)" "fs_elems s ! g = Some i"
    and e: "fi_emitting (fs_impls s i) = 0" and ns: "fi_nodes (fs_impls s i) = m # ms"
  shows "case ms of
      [] \<Rightarrow> fs_pop False g s = None
    | k # ks \<Rightarrow> \<exists>s'. fs_pop False g s = Some s' \<and> fi_nodes (fs_impls s' i) = ks \<and>
        fs_connected s' (fst k) \<and> fs_disconnect (fst k) s' = None"
proof -
  have ok: "fs_ok {} s" using fs_reach_ok [OF assms(1)] by simp
  have m: "fc_signal (fs_conns s (fst m)) = Some i" "fs_live s m"
    using not_emitting_live [OF ok e] ns by auto
  have dist: "distinct (map fst (m # ms))"
    using fs_okD(1) [OF ok, of i] ns by (simp add: fs_impl_ok_def Let_def)
  obtain s1 where d: "fs_disconnect (fst m) s = Some s1" "fs_fewer s s1"
    "fi_nodes (fs_impls s1 i) = filter (\<lambda>n. fst n \<noteq> fst m) (m # ms)"
    "\<And>c. c \<noteq> fst m \<Longrightarrow> fs_conns s1 c = fs_conns s c"
    using disconnect_ok [OF ok, of "fst m"] m(1) e ns by metis
  have "\<forall>n \<in> set ms. fst n \<noteq> fst m"
    using dist by (metis distinct.simps(2) image_eqI list.set_map list.simps(9))
  then have nodes: "fi_nodes (fs_impls s1 i) = ms"
    using d(3) by (simp add: filter_id_conv)
  have pop: "fs_pop False g s = drop_end False i s1"
    using g e ns m(2) d(1) by (simp add: fs_pop_def fs_pop_slot_def is_emiting_def)
  show ?thesis
  proof (cases ms)
    case Nil
    then show ?thesis
      using pop nodes by (simp add: drop_end_def)
  next
    case (Cons k ks)
    let ?s = "fs_impl_change i (\<lambda>m. m\<lparr>fi_nodes := ks\<rparr>) s1"
    have k: "fc_signal (fs_conns s (fst k)) = Some i"
      using not_emitting_live(2) [OF ok e] ns Cons by simp
    then have sig: "fc_signal (fs_conns ?s (fst k)) = Some i"
      using d(4) [of "fst k"] dist Cons by (auto simp: fs_impl_change_def)
    have "fst k \<notin> fst ` set ks"
      using dist Cons by simp
    then have "fs_disconnect (fst k) ?s = None"
      using sig by (simp add: disconnect_eq forget_node_def)
    moreover have "fs_pop False g s = Some ?s"
      using pop nodes Cons by (simp add: drop_end_def)
    ultimately show ?thesis
      using sig Cons by (auto simp: fs_connected_def)
  qed
qed

end
