(* ===== verification/Dispatcher_Theorems.thy ===== *)
theory Dispatcher_Theorems
  imports Dispatcher Fssignal_Theorems
begin

text \<open>What an error of a connection leaves connected, and what a signal hides that nobody is bound to.\<close>

section \<open>Clearing\<close>

text \<open>Steps that call nobody: the invariant stays, the depth of the emissions stays, and signals only
  lose their slots.\<close>
definition fs_calm :: "fs_state \<Rightarrow> fs_state \<Rightarrow> bool" where
  "fs_calm s s' \<longleftrightarrow>
     fs_ok {} s' \<and> fs_visits_ok s' \<and> length (fs_elems s') = length (fs_elems s) \<and> fs_log s' = fs_log s \<and>
     fs_n_conns s' = fs_n_conns s \<and>
     (\<forall>g < length (fs_elems s). fs_elems s' ! g = fs_elems s ! g \<or> fs_elems s' ! g = None) \<and>
     (\<forall>i. fi_emitting (fs_impls s' i) = fi_emitting (fs_impls s i)) \<and>
     (\<forall>c. fc_signal (fs_conns s' c) = None \<or> fc_signal (fs_conns s' c) = fc_signal (fs_conns s c))"

lemma calm_refl: "fs_ok {} s \<Longrightarrow> fs_visits_ok s \<Longrightarrow> fs_calm s s"
  by (simp add: fs_calm_def)

lemma calm_trans:
  assumes "fs_calm s s1" and "fs_calm s1 s2"
  shows "fs_calm s s2"
  using assms unfolding fs_calm_def by (intro conjI allI impI) metis+

lemma calm_silent: "fs_calm s s' \<Longrightarrow> fc_signal (fs_conns s c) = None \<Longrightarrow> fc_signal (fs_conns s' c) = None"
  unfolding fs_calm_def by metis

lemma fewer_calm:
  assumes "fs_ok P s" and "fs_visits_ok s" and "fs_fewer s s'" and "fs_ok {} s'"
  shows "fs_calm s s'"
  using assms(3,4) quiet_visits [OF assms(1) fewer_quiet [OF assms(3)] assms(2)]
  unfolding fs_calm_def fs_fewer_def by metis

lemma clear_calm:
  assumes ok: "fs_ok {} s" and v: "fs_visits_ok s" and g: "g < length (fs_elems s)"
  obtains s' where "fs_clear g s = Some s'" and "fs_calm s s'" and "fs_elems s' = fs_elems s"
    and "\<And>c i. fs_elems s ! g = Some i \<Longrightarrow> fc_signal (fs_conns s' c) \<noteq> Some i"
proof (cases "fs_elems s ! g")
  case None
  then show ?thesis
    using that [of s] calm_refl [OF ok v] g by (simp add: fs_clear_def)
next
  case (Some i)
  obtain s' where "fs_disconnect_all i s = Some s'" "fs_ok {} s'" "fs_fewer s s'" "\<And>c. fc_signal (fs_conns s' c) \<noteq> Some i"
    by (rule disconnect_all_ok [OF ok, of i]) blast
  then show ?thesis
    using that [of s'] Some g fewer_calm [OF ok v] by (simp add: fs_clear_def fs_fewer_def)
qed

lemma destroy_calm:
  assumes ok: "fs_ok {} s" and v: "fs_visits_ok s" and g: "g < length (fs_elems s)"
  obtains s' where "fs_destroy g s = Some s'" and "fs_calm s s'" and "fs_elems s' = (fs_elems s)[g := None]"
proof -
  obtain s' where "fs_destroy g s = Some s'" "fs_ok {} s'" "fs_visits_ok s'"
    "fs_fewer (s\<lparr>fs_elems := (fs_elems s)[g := None]\<rparr>) s'"
    by (rule destroy_ok [OF ok v g]) blast
  then show ?thesis
    using that [of s'] g by (auto simp: fs_calm_def fs_fewer_def nth_list_update) metis
qed

text \<open>The slots bound to one of the signals are disconnected.\<close>

definition bound_to :: "nat set \<Rightarrow> fs_state \<Rightarrow> nat \<Rightarrow> bool" where
  "bound_to G s c \<longleftrightarrow> (\<exists>g \<in> G. g < length (fs_elems s) \<and> fs_elems s ! g \<noteq> None \<and> fs_elems s ! g = fc_signal (fs_conns s c))"

lemma clear_signals_calm:
  assumes "fs_ok {} s" and "fs_visits_ok s" and "\<forall>g \<in> set gs. g < length (fs_elems s)"
  obtains s' where "clear_signals gs s = Some s'" and "fs_calm s s'" and "fs_elems s' = fs_elems s"
    and "\<And>c. bound_to (set gs) s c \<Longrightarrow> fc_signal (fs_conns s' c) = None"
  using assms
proof (induction gs arbitrary: s thesis)
  case Nil
  show ?case
    by (rule Nil(1) [of s]) (use calm_refl [OF Nil(2,3)] in \<open>simp_all add: bound_to_def\<close>)
next
  case (Cons g gs)
  obtain s1 where 1: "fs_clear g s = Some s1" "fs_calm s s1" "fs_elems s1 = fs_elems s"
    "\<And>c i. fs_elems s ! g = Some i \<Longrightarrow> fc_signal (fs_conns s1 c) \<noteq> Some i"
    by (rule clear_calm [OF Cons.prems(2,3), of g]) (use Cons.prems(4) in auto)
  obtain s2 where 2: "clear_signals gs s1 = Some s2" "fs_calm s1 s2" "fs_elems s2 = fs_elems s1"
    "\<And>c. bound_to (set gs) s1 c \<Longrightarrow> fc_signal (fs_conns s2 c) = None"
    by (rule Cons.IH [of s1]) (use 1(2,3) Cons.prems(4) in \<open>auto simp: fs_calm_def\<close>)
  have "fc_signal (fs_conns s2 c) = None" if b: "bound_to (set (g # gs)) s c" for c
  proof (cases "fc_signal (fs_conns s1 c) = None")
    case True
    then show ?thesis using calm_silent [OF 2(2)] by blast
  next
    case False
    then have "fc_signal (fs_conns s1 c) = fc_signal (fs_conns s c)"
      using 1(2) unfolding fs_calm_def by metis
    then have "bound_to (set gs) s1 c"
      using b 1(3,4) False by (auto simp: bound_to_def)
    then show ?thesis using 2(4) by blast
  qed
  then show ?case
    using Cons.prems(1) [of s2] 1 2 calm_trans by simp
qed

lemma clear_map_calm:
  assumes "fs_ok {} s" and "fs_visits_ok s" and "\<forall>e \<in> set m. snd e < length (fs_elems s)"
  obtains s' where "clear_map m s = Some s'" and "fs_calm s s'"
    and "\<And>c. bound_to (snd ` set m) s c \<Longrightarrow> fc_signal (fs_conns s' c) = None"
    and "\<And>g. g \<notin> snd ` set m \<Longrightarrow> fs_elems s' ! g = fs_elems s ! g"
  using assms
proof (induction m arbitrary: s thesis)
  case Nil
  show ?case
    by (rule Nil(1) [of s]) (use calm_refl [OF Nil(2,3)] in \<open>simp_all add: bound_to_def\<close>)
next
  case (Cons e m)
  let ?g = "snd e"
  obtain s1 where 1: "fs_clear ?g s = Some s1" "fs_calm s s1" "fs_elems s1 = fs_elems s"
    "\<And>c i. fs_elems s ! ?g = Some i \<Longrightarrow> fc_signal (fs_conns s1 c) \<noteq> Some i"
    by (rule clear_calm [OF Cons.prems(2,3), of ?g]) (use Cons.prems(4) in auto)
  have ok1: "fs_ok {} s1" "fs_visits_ok s1" "?g < length (fs_elems s1)"
    using 1(2,3) Cons.prems(4) by (auto simp: fs_calm_def)
  obtain s2 where 2: "fs_destroy ?g s1 = Some s2" "fs_calm s1 s2" "fs_elems s2 = (fs_elems s1)[?g := None]"
    by (rule destroy_calm [OF ok1]) blast
  obtain s3 where 3: "clear_map m s2 = Some s3" "fs_calm s2 s3"
    "\<And>c. bound_to (snd ` set m) s2 c \<Longrightarrow> fc_signal (fs_conns s3 c) = None"
    "\<And>g. g \<notin> snd ` set m \<Longrightarrow> fs_elems s3 ! g = fs_elems s2 ! g"
    by (rule Cons.IH [of s2]) (use 2(2,3) 1(3) Cons.prems(4) in \<open>auto simp: fs_calm_def\<close>)
  have c12: "fs_calm s s2" using calm_trans 1(2) 2(2) by blast
  have "fc_signal (fs_conns s3 c) = None" if b: "bound_to (snd ` set (e # m)) s c" for c
  proof (cases "fc_signal (fs_conns s2 c) = None")
    case True
    then show ?thesis using calm_silent [OF 3(2)] by blast
  next
    case False
    then have "fc_signal (fs_conns s2 c) = fc_signal (fs_conns s c)" "fc_signal (fs_conns s1 c) = fc_signal (fs_conns s c)"
      using c12 1(2) calm_silent [OF 2(2)] unfolding fs_calm_def by metis+
    note same = this
    obtain g where g: "g \<in> snd ` set (e # m)" "g < length (fs_elems s)" "fs_elems s ! g \<noteq> None"
      "fs_elems s ! g = fc_signal (fs_conns s c)"
      using b unfolding bound_to_def by blast
    have "g \<noteq> ?g"
    proof
      assume "g = ?g"
      then obtain i where "fs_elems s ! ?g = Some i" "fc_signal (fs_conns s1 c) = Some i"
        using g(3,4) same(2) by auto
      then show False using 1(4) by blast
    qed
    then have "g \<in> snd ` set m" "fs_elems s2 ! g = fs_elems s ! g" "g < length (fs_elems s2)"
      using g 1(3) 2(3) by auto
    then have "bound_to (snd ` set m) s2 c"
      using g(3,4) same(1) unfolding bound_to_def by metis
    then show ?thesis using 3(3) by blast
  qed
  then show ?case
    using Cons.prems(1) [of s3] 1 2 3 calm_trans [OF c12 3(2)] by simp
qed

section \<open>Errors of a connection\<close>

definition cd_signals :: "'t conn_dispatcher \<Rightarrow> nat set" where
  "cd_signals d = snd ` set (cd_map d) \<union> {cd_connected d, cd_disconnected d, cd_writable d}"

lemma disconnect_all_calm:
  assumes "fs_ok {} s" and "fs_visits_ok s" and "\<forall>g \<in> cd_signals d. g < length (fs_elems s)"
  obtains s' where "cd_disconnect_all d s = Some (d\<lparr>cd_map := []\<rparr>, s')" and "fs_calm s s'"
    and "\<And>c. bound_to (cd_signals d) s c \<Longrightarrow> fc_signal (fs_conns s' c) = None"
    and "\<And>g. g \<notin> snd ` set (cd_map d) \<Longrightarrow> fs_elems s' ! g = fs_elems s ! g"
proof -
  let ?gs = "[cd_connected d, cd_disconnected d, cd_writable d]"
  obtain s1 where 1: "clear_map (cd_map d) s = Some s1" "fs_calm s s1"
    "\<And>c. bound_to (snd ` set (cd_map d)) s c \<Longrightarrow> fc_signal (fs_conns s1 c) = None"
    "\<And>g. g \<notin> snd ` set (cd_map d) \<Longrightarrow> fs_elems s1 ! g = fs_elems s ! g"
    by (rule clear_map_calm [OF assms(1,2), of "cd_map d"]) (use assms(3) in \<open>auto simp: cd_signals_def\<close>)
  obtain s2 where 2: "clear_signals ?gs s1 = Some s2" "fs_calm s1 s2" "fs_elems s2 = fs_elems s1"
    "\<And>c. bound_to (set ?gs) s1 c \<Longrightarrow> fc_signal (fs_conns s2 c) = None"
    by (rule clear_signals_calm [of s1 ?gs]) (use 1(2) assms(3) in \<open>auto simp: fs_calm_def cd_signals_def\<close>)
  have "fc_signal (fs_conns s2 c) = None" if b: "bound_to (cd_signals d) s c" for c
  proof (cases "fc_signal (fs_conns s1 c) = None \<or> bound_to (snd ` set (cd_map d)) s c")
    case True
    then show ?thesis using 1(3) calm_silent [OF 2(2)] by blast
  next
    case False
    obtain g where h: "g \<in> cd_signals d" "g < length (fs_elems s)"
      "fs_elems s ! g \<noteq> None" "fs_elems s ! g = fc_signal (fs_conns s c)"
      using b unfolding bound_to_def by blast
    then have "g \<notin> snd ` set (cd_map d)"
      using False unfolding bound_to_def by blast
    with h have g: "g \<in> set ?gs" "g \<notin> snd ` set (cd_map d)" "g < length (fs_elems s)"
      "fs_elems s ! g \<noteq> None" "fs_elems s ! g = fc_signal (fs_conns s c)"
      by (auto simp: cd_signals_def)
    have "fc_signal (fs_conns s1 c) = fc_signal (fs_conns s c)" "length (fs_elems s1) = length (fs_elems s)"
      using 1(2) False unfolding fs_calm_def by metis+
    then have "bound_to (set ?gs) s1 c"
      using g 1(4) [OF g(2)] unfolding bound_to_def by metis
    then show ?thesis using 2(4) by blast
  qed
  then show ?thesis
    using that [of s2] 1 2 calm_trans by (simp add: cd_disconnect_all_def)
qed

lemma take_signal_ok:
  assumes ok: "fs_ok {} s" and v: "fs_visits_ok s" and g: "g < length (fs_elems s)"
  obtains s' where "take_signal g s = Some (length (fs_elems s), s')" and "fs_ok {} s'" and "fs_visits_ok s'"
    and "fs_elems s' = (fs_elems s)[g := None] @ [fs_elems s ! g]" and "fs_conns s' = fs_conns s"
    and "fs_impls s' = fs_impls s" and "fs_n_conns s' = fs_n_conns s" and "fs_log s' = fs_log s"
proof -
  let ?l = "length (fs_elems s)"
  let ?s' = "s\<lparr>fs_elems := (fs_elems s)[g := None] @ [fs_elems s ! g]\<rparr>"
  have run: "take_signal g s = Some (?l, ?s')"
    using g by (simp add: take_signal_def fs_new_def fs_swap_def nth_append list_update_append)
  have sub: "Some j \<in> set (fs_elems s)" if "Some j \<in> set ((fs_elems s)[g := None] @ [fs_elems s ! g])" for j
    using that set_update_subset_insert [of "fs_elems s" g None] g by (auto dest: nth_mem)
  have keep: "Some j \<in> set ((fs_elems s)[g := None] @ [fs_elems s ! g]) \<or> j \<in> {}" if j: "Some j \<in> set (fs_elems s)" for j
  proof -
    obtain k where "k < ?l" "fs_elems s ! k = Some j"
      using j by (auto simp: in_set_conv_nth)
    then show ?thesis
      by (cases "k = g") (auto simp: in_set_conv_nth nth_list_update intro!: exI [of _ k])
  qed
  show ?thesis
    using that [OF run] elems_only_ok [OF ok sub keep] quiet_visits [OF ok _ v] by simp
qed

lemma error_dispatch:
  assumes "fs_reach n s" and ids: "\<forall>h \<in> cd_signals d. h < length (fs_elems s)" and g: "g \<in> cd_signals d"
    and depth: "\<And>i. fs_elems s ! g = Some i \<Longrightarrow> fi_emitting (fs_impls s i) < 10"
  obtains s' where "cd_dispatch_error g d s = Some (d\<lparr>cd_map := []\<rparr>, s')"
    and "\<And>c. bound_to (cd_signals d - {g}) s c \<Longrightarrow> c < fs_n_conns s \<Longrightarrow> \<not> fs_connected s' c"
proof -
  let ?l = "length (fs_elems s)"
  have ok: "fs_ok {} s" "fs_visits_ok s" using fs_reach_ok [OF assms(1)] by auto
  have gl: "g < ?l" using g ids by blast
  obtain s1 where 1: "take_signal g s = Some (?l, s1)" "fs_ok {} s1" "fs_visits_ok s1"
    "fs_elems s1 = (fs_elems s)[g := None] @ [fs_elems s ! g]" "fs_conns s1 = fs_conns s" "fs_impls s1 = fs_impls s"
    "fs_n_conns s1 = fs_n_conns s"
    by (rule take_signal_ok [OF ok gl]) blast
  have "\<forall>h \<in> cd_signals d. h < length (fs_elems s1)"
    using ids 1(4) by (auto simp: less_Suc_eq)
  from disconnect_all_calm [OF 1(2,3) this]
  obtain s2 where 2: "cd_disconnect_all d s1 = Some (d\<lparr>cd_map := []\<rparr>, s2)" "fs_calm s1 s2"
    "\<And>c. bound_to (cd_signals d) s1 c \<Longrightarrow> fc_signal (fs_conns s2 c) = None"
    "\<And>h. h \<notin> snd ` set (cd_map d) \<Longrightarrow> fs_elems s2 ! h = fs_elems s1 ! h" by blast
  have l2: "?l < length (fs_elems s2)"
    using 2(2) 1(4) by (simp add: fs_calm_def)
  have ok2: "fs_ok {} s2" "fs_visits_ok s2"
    using 2(2) by (simp_all add: fs_calm_def)
  have "?l \<notin> snd ` set (cd_map d)"
    using ids by (auto simp: cd_signals_def)
  then have "fs_elems s2 ! ?l = fs_elems s ! g"
    using 2(4) 1(4) by (simp add: nth_append)
  then have d2: "fi_emitting (fs_impls s2 i) < 10" if "fs_elems s2 ! ?l = Some i" for i
    using depth [of i] that 2(2) 1(6) by (simp add: fs_calm_def)
  obtain s3 where 3: "fs_emit False ?l s2 = Some s3" "fs_ok {} s3" "fs_visits_ok s3" "fs_after s2 s3"
    "length (fs_elems s3) = length (fs_elems s2)"
    by (rule emit_ok [OF ok2 l2 d2, of False]) blast+
  obtain s4 where 4: "fs_destroy ?l s3 = Some s4" "fs_after s3 s4"
    by (rule destroy_ok [OF 3(2,3), of ?l]) (use l2 3(5) in auto)
  have "\<not> fs_connected s4 c" if b: "bound_to (cd_signals d - {g}) s c" and c: "c < fs_n_conns s" for c
  proof -
    obtain h where h: "h \<in> cd_signals d" "h \<noteq> g" "h < length (fs_elems s)" "fs_elems s ! h \<noteq> None"
      "fs_elems s ! h = fc_signal (fs_conns s c)"
      using b unfolding bound_to_def by blast
    then have "fs_elems s1 ! h = fs_elems s ! h" "h < length (fs_elems s1)"
      using 1(4) by (simp_all add: nth_append)
    then have "bound_to (cd_signals d) s1 c"
      using h 1(5) unfolding bound_to_def by metis
    then have "\<not> fs_connected s2 c"
      using 2(3) by (simp add: fs_connected_def)
    moreover have "c < fs_n_conns s2" "c < fs_n_conns s3"
      using c 1(7) 2(2) 3(4) by (simp_all add: fs_calm_def fs_after_def)
    ultimately show ?thesis
      using 3(4) 4(2) by (auto simp: fs_after_def)
  qed
  then show ?thesis
    using that [of s4] 1(1) 2(1) 3(1) 4(1) by (simp add: cd_dispatch_error_def emit_taken_def)
qed

section \<open>HTTP connections\<close>

text \<open>The slots of an HTTP connection that listen for requests are still connected when it has reported
  that it is disconnected: a run with a slot of the signal 3 and one of the signal 5, the signal of
  requests, in which the signal 2 reports an error.\<close>

definition http_signals :: http_dispatcher where
  "http_signals = \<lparr>vd_handler = 0, vd_connected = 1, vd_disconnected = 2, vd_writable = 3, hd_request = 4, hd_response = 5\<rparr>"

lemma request_slots_survive:
  "case fs_runs [Fs_bind 0 7 [], Fs_bind 4 8 []] (fs_init 7) of
     None \<Rightarrow> False
   | Some s \<Rightarrow>
       (case hd_dispatch_disconnected True http_signals s of
          None \<Rightarrow> False
        | Some s1 \<Rightarrow>
            \<not> fs_connected s1 0 \<and> fs_connected s1 1 \<and>
            (case dispatch_request http_signals 6 s1 of
               None \<Rightarrow> False
             | Some (r, e, s2) \<Rightarrow> r \<and> fs_log s2 = [(0, 1)]))"
  by code_simp

section \<open>Hidden handlers\<close>

text \<open>To ask for the signal of a message type makes an entry, and the entry hides the global handlers: a
  packet of that type is reported as delivered, and no slot is called.\<close>

lemma asking_hides_global:
  assumes "map_of (cd_map d) t = None" and "received_signal t d s = (g, d1, s1)"
  shows "cd_dispatch_packet buf t d1 gl s1 = Some (True, Some (g, buf), s1)"
proof -
  have d1: "d1 = d\<lparr>cd_map := cd_map d @ [(t, g)]\<rparr>" "g = length (fs_elems s)"
    "s1 = s\<lparr>fs_elems := fs_elems s @ [None]\<rparr>"
    using assms by (auto simp: received_signal_def map_signal_def fs_new_def Let_def)
  have "map_of (cd_map d @ [(t, g)]) t = Some g"
    using assms(1) by (simp add: map_add_def)
  then show ?thesis
    using d1 by (simp add: cd_dispatch_packet_def emit_to_def fs_emit_def nth_append)
qed

section \<open>Properties\<close>

text \<open>C36: When a connection reports an error, of connecting or of having been disconnected, and fewer than
  ten emissions of the signal that reports are under way (the emission asserts that), the report does
  not fail, the handlers by message type are gone after it, and every slot that was bound to another
  one of \<open>cd_signals\<close>, the signals for connected, disconnected and writable and those of the message
  types, is disconnected. The signals for invalid and for unknown messages are not among these: the
  code never clears them; and an HTTP connection also keeps the slots of its own requests and
  packets.\<close>
lemma failed_connection_lets_go:
  assumes "fs_reach n s" and "\<forall>h \<in> cd_signals d. h < length (fs_elems s)"
    and "\<And>i. fs_elems s ! cd_connected d = Some i \<Longrightarrow> fi_emitting (fs_impls s i) < 10"
    and "\<And>i. fs_elems s ! cd_disconnected d = Some i \<Longrightarrow> fi_emitting (fs_impls s i) < 10"
  shows "(\<exists>s'. cd_dispatch_connected True d s = Some (d\<lparr>cd_map := []\<rparr>, s') \<and>
      (\<forall>c < fs_n_conns s. bound_to (cd_signals d - {cd_connected d}) s c \<longrightarrow> \<not> fs_connected s' c)) \<and>
    (\<exists>s'. cd_dispatch_disconnected True d s = Some (d\<lparr>cd_map := []\<rparr>, s') \<and>
      (\<forall>c < fs_n_conns s. bound_to (cd_signals d - {cd_disconnected d}) s c \<longrightarrow> \<not> fs_connected s' c))"
proof
  have "cd_connected d \<in> cd_signals d" "cd_disconnected d \<in> cd_signals d"
    by (simp_all add: cd_signals_def)
  note g = this
  show "\<exists>s'. cd_dispatch_connected True d s = Some (d\<lparr>cd_map := []\<rparr>, s') \<and>
      (\<forall>c < fs_n_conns s. bound_to (cd_signals d - {cd_connected d}) s c \<longrightarrow> \<not> fs_connected s' c)"
    by (rule error_dispatch [OF assms(1,2) g(1) assms(3)]) (auto simp: cd_dispatch_connected_def)
  show "\<exists>s'. cd_dispatch_disconnected True d s = Some (d\<lparr>cd_map := []\<rparr>, s') \<and>
      (\<forall>c < fs_n_conns s. bound_to (cd_signals d - {cd_disconnected d}) s c \<longrightarrow> \<not> fs_connected s' c)"
    by (rule error_dispatch [OF assms(1,2) g(2) assms(4)]) (auto simp: cd_dispatch_disconnected_def)
qed

lemma failed_connection_lets_go_witness:
  "\<exists>s s'. fs_runs [Fs_bind 2 7 [], Fs_bind 3 8 []] (fs_init 6) = Some s \<and>
     cd_dispatch_connected True \<lparr>cd_map = [(1 :: u16, 2)], cd_invalid = 0, cd_unknown = 1, cd_connected = 3,
       cd_disconnected = 4, cd_writable = 5\<rparr> s = Some (\<lparr>cd_map = [], cd_invalid = 0, cd_unknown = 1,
       cd_connected = 3, cd_disconnected = 4, cd_writable = 5\<rparr>, s') \<and> \<not> fs_connected s' 0"
proof -
  let ?d = "\<lparr>cd_map = [(1 :: u16, 2)], cd_invalid = 0, cd_unknown = 1, cd_connected = 3,
       cd_disconnected = 4, cd_writable = 5\<rparr>"
  let ?as = "[Fs_bind 2 7 [], Fs_bind 3 8 []]"
  have "case fs_runs ?as (fs_init 6) of
      None \<Rightarrow> False
    | Some s \<Rightarrow> fs_elems s = [None, None, Some 0, Some 1, None, None] \<and> fi_emitting (fs_impls s 1) = 0 \<and>
        fs_n_conns s = 2 \<and> fc_signal (fs_conns s 0) = Some 0"
    by code_simp
  then obtain s where s: "fs_runs ?as (fs_init 6) = Some s"
    and e: "fs_elems s = [None, None, Some 0, Some 1, None, None]" "fi_emitting (fs_impls s 1) = 0"
      "fs_n_conns s = 2" "fc_signal (fs_conns s 0) = Some 0"
    by (auto split: option.splits)
  have "\<forall>h \<in> cd_signals ?d. h < length (fs_elems s)"
    "\<And>i. fs_elems s ! cd_connected ?d = Some i \<Longrightarrow> fi_emitting (fs_impls s i) < 10"
    "\<And>i. fs_elems s ! cd_disconnected ?d = Some i \<Longrightarrow> fi_emitting (fs_impls s i) < 10"
    using e by (auto simp: cd_signals_def)
  from failed_connection_lets_go [OF runs_reach [OF s fs_reach.start] this]
  obtain s' where "cd_dispatch_connected True ?d s = Some (?d\<lparr>cd_map := []\<rparr>, s')"
    "\<forall>c < fs_n_conns s. bound_to (cd_signals ?d - {cd_connected ?d}) s c \<longrightarrow> \<not> fs_connected s' c" by blast
  moreover have "bound_to (cd_signals ?d - {cd_connected ?d}) s 0"
    using e by (auto simp: bound_to_def cd_signals_def)
  ultimately show ?thesis
    using s e by auto
qed

end
