(* ===== verification/Rdp_Conn_Theorems.thy ===== *)
theory Rdp_Conn_Theorems
  imports Rdp_Connections Trdp_Theorems Dispatcher_Theorems
begin

text \<open>Connections with their flow and their dispatcher together: messages come out by type on the other
  side, and what a connection does when it is closed.\<close>

section \<open>Messages by type\<close>

text \<open>What a connection does with a packet of its flow that carries the message \<open>m\<close>: the signal of the
  type is emitted, with the text.\<close>
definition tc_dispatches :: "bool \<Rightarrow> t_message \<Rightarrow> bytes \<Rightarrow> bool" where
  "tc_dispatches big m b \<longleftrightarrow>
     (\<forall>c g. map_of (cd_map (tc_disp c)) (fst m) = Some g \<longrightarrow>
        tc_on_received big b c =
          map_option (\<lambda>s. (Some (g, snd m), c\<lparr>tc_sigs := s\<rparr>)) (fs_emit False g (tc_sigs c)))"

lemma handed_dispatches: "tc_dispatches big m (handed m)"
proof -
  have "io_get_int big (handed m) = m"
    by (simp add: handed_def io_get_ints)
  then show ?thesis
    by (cases m) (auto simp: tc_dispatches_def tc_on_received_def received_signal_def map_signal_def Let_def)
qed

text \<open>A message of a type that nobody has asked for is dropped without a trace, and from then on the type
  has an entry.\<close>
lemma unknown_type_swallowed:
  assumes "map_of (cd_map (tc_disp c)) t = None" and "io_get_int big b = (t, rest)"
  obtains g c' where "tc_on_received big b c = Some (Some (g, rest), c')"
    and "fs_log (tc_sigs c') = fs_log (tc_sigs c)" and "map_of (cd_map (tc_disp c')) t = Some g"
proof -
  have "map_of (cd_map (tc_disp c) @ [(t, g)]) t = Some g" for g
    using assms(1) by (simp add: map_add_def)
  then show ?thesis
    using that assms
    by (simp add: tc_on_received_def received_signal_def map_signal_def fs_new_def fs_emit_def nth_append Let_def)
qed

section \<open>Closing\<close>

text \<open>A URDP connection that is closed has given its flow away, closed; it has no slots, and it passes no
  call of a flow on.\<close>
lemma closed_connection_silent:
  assumes "fs_reach n (uc_sigs c)" and "\<forall>h \<in> cd_signals (uc_disp c). h < length (fs_elems (uc_sigs c))"
    and "uc_flow c = Some f"
  obtains c' where "uc_close graceful c = Some (Some (close graceful f), c')" and "uc_flow c' = None"
    and "\<And>s. bound_to (cd_signals (uc_disp c)) (uc_sigs c) s \<Longrightarrow> \<not> fs_connected (uc_sigs c') s"
    and "uc_on_disconnected ec c' = Some c'" and "uc_on_writeable c' = Some c'"
proof -
  have ok: "fs_ok {} (uc_sigs c)" "fs_visits_ok (uc_sigs c)"
    using fs_reach_ok [OF assms(1)] by auto
  obtain s' where s: "cd_disconnect_all (uc_disp c) (uc_sigs c) = Some ((uc_disp c)\<lparr>cd_map := []\<rparr>, s')"
    "\<And>k. bound_to (cd_signals (uc_disp c)) (uc_sigs c) k \<Longrightarrow> fc_signal (fs_conns s' k) = None"
    by (rule disconnect_all_calm [OF ok assms(2)]) blast
  have can: "is_canceled_op (om_stamp m) (set_cancel m)" for m
    by (simp add: is_canceled_op_def set_cancel_def wrappable_less_equal_def)
  show ?thesis
  proof (rule that)
    show "uc_close graceful c = Some (Some (close graceful f),
        c\<lparr>uc_mark := set_cancel (uc_mark c), uc_flow := None, uc_opened := False,
          uc_disp := (uc_disp c)\<lparr>cd_map := []\<rparr>, uc_sigs := s'\<rparr>)"
      using s(1) assms(3) by (simp add: uc_close_def Let_def)
  qed (use s(2) can [of "uc_mark c"] in \<open>simp_all add: uc_on_disconnected_def uc_on_writeable_def uc_canceled_def
      fs_connected_def set_cancel_def Let_def\<close>)
qed

section \<open>Properties\<close>

text \<open>C9: Messages sent reliably over a TRDP connection arrive complete, once and in order, and by type:
  whatever a connected flow does next (reliable sends, completed writes during which the owner sends
  more, time that passes), the flow of the other side, serving its reads from the bytes that were
  written, hands its connection packets, one for each message sent that is not still queued, and of
  each the connection emits the signal of the type of the message, if it has one, with its text. The
  two hosts may have different byte orders. Messages have at most 65531 bytes and a type other than
  the invalid one; nothing was queued at the start; the receiver is connected, and its owner neither
  blocks receiving nor closes nor touches what the flow reads by while it is told. A packet that comes
  while receiving is blocked is lost (\<open>blocked_packet_lost\<close>), a ping that was queued comes as data
  (\<open>queued_ping_becomes_data\<close>), and unreliable and semireliable messages may be dropped.\<close>
theorem typed_messages_arrive:
  assumes "can_send stamp f" and "list_all event_ok evs"
    and "quiet_user user" and "receiving stamp' g"
  shows "\<exists>sent ws bs. concat (map messages_of evs) = sent @ map queued_message (tf_send_bufs (fold (tx_step stamp) evs f))
    \<and> written (fold (tx_step stamp) evs f) = written f @ ws
    \<and> received (serve user stamp' (concat ws) g) = received g @ bs
    \<and> list_all2 (tc_dispatches big) sent bs"
proof -
  obtain sent ws where "concat (map messages_of evs) = sent @ map queued_message (tf_send_bufs (fold (tx_step stamp) evs f))"
    "written (fold (tx_step stamp) evs f) = written f @ ws"
    "received (serve user stamp' (concat ws) g) = received g @ map handed sent"
    using trdp_messages_arrive [OF assms] by blast
  moreover have "list_all2 (tc_dispatches big) sent (map handed sent)"
    by (simp add: list_all2_conv_all_nth handed_dispatches)
  ultimately show ?thesis by blast
qed

theorem typed_messages_arrive_witness:
  "\<exists>sent ws bs.
     concat (map messages_of [Send_message (1, [7]), Send_message (2, [8, 9]), Write_done [(3, [])], Write_done []])
       = sent @ map queued_message (tf_send_bufs (fold (tx_step 1)
           [Send_message (1, [7]), Send_message (2, [8, 9]), Write_done [(3, [])], Write_done []] example_trdp))
     \<and> received (serve (\<lambda>n f. f) 1 (concat ws) (example_trdp\<lparr>tf_big := True\<rparr>))
       = received (example_trdp\<lparr>tf_big := True\<rparr>) @ bs
     \<and> list_all2 (tc_dispatches True) sent bs"
  using typed_messages_arrive [OF example_trdp_fields(1) example_messages example_trdp_fields(3,2)] by blast

end
