(* ===== verification/Puff.thy ===== *)
theory Puff
  imports Prelude "HOL-Library.Monad_Syntax"
begin

text \<open>The inflater of src/puff.cpp: the bit reader, the stored, fixed and
  dynamic blocks of the deflate format, the canonical Huffman tables and the
  two decoders the file holds (the plain one under \<open>SLOW\<close> and the fast one the
  build uses). A read or write outside the arrays and buffers of the C code is
  the value \<open>Wild\<close>; the \<open>longjmp\<close> of a reader that has run out of input is the
  value \<open>Jumped\<close>, with the state as it stood.\<close>

section \<open>State\<close>

record huffman =
  hf_count :: "int list"
  hf_symbol :: "int list"

record puff_state =
  ps_out :: "bytes option"
  ps_outlen :: nat
  ps_outcnt :: nat
  ps_in :: bytes
  ps_inlen :: nat
  ps_incnt :: nat
  ps_bitbuf :: nat
  ps_bitcnt :: nat

datatype 'a puff_res = Done 'a puff_state | Jumped puff_state | Wild

definition pr_bind :: "'a puff_res \<Rightarrow> ('a \<Rightarrow> puff_state \<Rightarrow> 'b puff_res) \<Rightarrow> 'b puff_res" where
  "pr_bind r f = (case r of Done x s \<Rightarrow> f x s | Jumped s \<Rightarrow> Jumped s | Wild \<Rightarrow> Wild)"

lemma pr_bind_simps [simp]:
  "pr_bind (Done x s) f = f x s"
  "pr_bind (Jumped s) f = Jumped s"
  "pr_bind Wild f = Wild"
  by (simp_all add: pr_bind_def)

lemma pr_bind_cong [fundef_cong]:
  assumes "r = r'" and "\<And>x s. r' = Done x s \<Longrightarrow> f x s = g x s"
  shows "pr_bind r f = pr_bind r' g"
  using assms by (simp add: pr_bind_def split: puff_res.split)

lemma pr_bind_Done:
  "pr_bind r f = Done y s' \<longleftrightarrow> (\<exists>x s. r = Done x s \<and> f x s = Done y s')"
  by (cases r) simp_all

text \<open>Sums of the 32 bit counters wrap.\<close>

definition wrap32 :: "nat \<Rightarrow> nat" where
  "wrap32 n = n mod 2 ^ 32"

section \<open>Bits\<close>

definition raw_byte :: "puff_state \<Rightarrow> byte puff_res" where
  "raw_byte s =
     (if ps_incnt s < length (ps_in s)
      then Done (ps_in s ! ps_incnt s) (s\<lparr>ps_incnt := ps_incnt s + 1\<rparr>)
      else Wild)"

definition next_byte :: "puff_state \<Rightarrow> byte puff_res" where
  "next_byte s = (if ps_incnt s = ps_inlen s then Jumped s else raw_byte s)"

lemma raw_byte_DoneD:
  "raw_byte s = Done b s' \<Longrightarrow>
     ps_incnt s < length (ps_in s) \<and> b = ps_in s ! ps_incnt s \<and>
     s' = s\<lparr>ps_incnt := ps_incnt s + 1\<rparr>"
  by (auto simp: raw_byte_def split: if_splits)

lemma next_byte_DoneD:
  "next_byte s = Done b s' \<Longrightarrow>
     ps_incnt s < length (ps_in s) \<and> b = ps_in s ! ps_incnt s \<and>
     s' = s\<lparr>ps_incnt := ps_incnt s + 1\<rparr>"
  by (auto simp: next_byte_def split: if_splits dest: raw_byte_DoneD)

function bits_fill :: "nat \<Rightarrow> nat \<Rightarrow> puff_state \<Rightarrow> nat puff_res" where
  "bits_fill need val s =
     (if ps_bitcnt s < need
      then pr_bind (next_byte s) (\<lambda>b s1.
             bits_fill need (val OR push_bit (ps_bitcnt s1) (unat b))
               (s1\<lparr>ps_bitcnt := ps_bitcnt s1 + 8\<rparr>))
      else Done val s)"
  by pat_completeness auto
termination
  by (relation "measure (\<lambda>(need, val, s). need - ps_bitcnt s)") (auto dest!: next_byte_DoneD)

declare bits_fill.simps [simp del]

definition bits :: "nat \<Rightarrow> puff_state \<Rightarrow> nat puff_res" where
  "bits need s =
     pr_bind (bits_fill need (ps_bitbuf s) s) (\<lambda>val s1.
       Done (val AND (push_bit need 1 - 1))
         (s1\<lparr>ps_bitbuf := drop_bit need val, ps_bitcnt := ps_bitcnt s1 - need\<rparr>))"

section \<open>The output\<close>

definition put_out :: "byte \<Rightarrow> puff_state \<Rightarrow> unit puff_res" where
  "put_out b s =
     (case ps_out s of
        None \<Rightarrow> Wild
      | Some out \<Rightarrow>
          if ps_outcnt s < length out
          then Done () (s\<lparr>ps_out := Some (out[ps_outcnt s := b]),
                          ps_outcnt := wrap32 (ps_outcnt s + 1)\<rparr>)
          else Wild)"

definition out_at :: "nat \<Rightarrow> puff_state \<Rightarrow> byte puff_res" where
  "out_at i s =
     (case ps_out s of
        None \<Rightarrow> Wild
      | Some out \<Rightarrow> if i < length out then Done (out ! i) s else Wild)"

primrec copy_in :: "nat \<Rightarrow> puff_state \<Rightarrow> unit puff_res" where
  "copy_in 0 s = Done () s"
| "copy_in (Suc len) s =
     pr_bind (raw_byte s) (\<lambda>b s1. pr_bind (put_out b s1) (\<lambda>_ s2. copy_in len s2))"

primrec copy_back :: "nat \<Rightarrow> nat \<Rightarrow> puff_state \<Rightarrow> unit puff_res" where
  "copy_back dist 0 s = Done () s"
| "copy_back dist (Suc len) s =
     pr_bind (out_at (ps_outcnt s - dist) s) (\<lambda>b s1.
       pr_bind (put_out b s1) (\<lambda>_ s2. copy_back dist len s2))"

section \<open>Stored blocks\<close>

definition stored :: "puff_state \<Rightarrow> int puff_res" where
  "stored s0 =
     (let s = s0\<lparr>ps_bitbuf := 0, ps_bitcnt := 0\<rparr> in
      if wrap32 (ps_incnt s + 4) > ps_inlen s then Done 2 s
      else pr_bind (raw_byte s) (\<lambda>b0 s1.
           pr_bind (raw_byte s1) (\<lambda>b1 s2.
           let len = (ucast b0 :: u32) OR push_bit 8 (ucast b1) in
           pr_bind (raw_byte s2) (\<lambda>b2 s3.
           if ucast b2 \<noteq> NOT len AND 0xff then Done (-2) s3
           else pr_bind (raw_byte s3) (\<lambda>b3 s4.
           if ucast b3 \<noteq> drop_bit 8 (NOT len) AND 0xff then Done (-2) s4
           else if wrap32 (ps_incnt s4 + unat len) > ps_inlen s4 then Done 2 s4
           else if ps_out s4 \<noteq> None
           then (if wrap32 (ps_outcnt s4 + unat len) > ps_outlen s4 then Done 1 s4
                 else pr_bind (copy_in (unat len) s4) (\<lambda>_ s5. Done 0 s5))
           else Done 0 (s4\<lparr>ps_outcnt := wrap32 (ps_outcnt s4 + unat len),
                           ps_incnt := wrap32 (ps_incnt s4 + unat len)\<rparr>))))))"

section \<open>Huffman tables\<close>

definition maxbits :: nat where "maxbits = 15"
definition maxlcodes :: nat where "maxlcodes = 286"
definition maxdcodes :: nat where "maxdcodes = 30"
definition maxcodes :: nat where "maxcodes = maxlcodes + maxdcodes"
definition fixlcodes :: nat where "fixlcodes = 288"

lemmas puff_limits = maxbits_def maxlcodes_def maxdcodes_def maxcodes_def fixlcodes_def

definition symbol_at :: "huffman \<Rightarrow> int \<Rightarrow> puff_state \<Rightarrow> int puff_res" where
  "symbol_at h i s =
     (if 0 \<le> i \<and> i < int (length (hf_symbol h)) then Done (hf_symbol h ! nat i) s else Wild)"

lemma symbol_at_DoneD: "symbol_at h i s = Done x s' \<Longrightarrow> s' = s"
  by (auto simp: symbol_at_def split: if_splits)

text \<open>The plain decoder.\<close>

function decode_slow_loop ::
  "huffman \<Rightarrow> int \<Rightarrow> int \<Rightarrow> int \<Rightarrow> nat \<Rightarrow> puff_state \<Rightarrow> int puff_res" where
  "decode_slow_loop h code first index len s =
     (if len \<le> maxbits
      then pr_bind (bits 1 s) (\<lambda>b s1.
             let code' = code OR int b; count = hf_count h ! len in
             if code' < first + count then symbol_at h (index + (code' - first)) s1
             else decode_slow_loop h (push_bit 1 code') (push_bit 1 (first + count))
                    (index + count) (len + 1) s1)
      else Done (-9) s)"
  by pat_completeness auto
termination
  by (relation "measure (\<lambda>(h, code, first, index, len, s). Suc maxbits - len)") auto

declare decode_slow_loop.simps [simp del]

definition decode_slow :: "huffman \<Rightarrow> puff_state \<Rightarrow> int puff_res" where
  "decode_slow h s = decode_slow_loop h 0 0 0 1 s"

text \<open>The fast decoder: \<open>decode_bits\<close> is its inner loop over the bits at hand,
  which ends with a code found or with the bits used up, \<open>decode_rounds\<close> the
  outer loop that fetches another byte. The bit buffer of the state is written
  only when a code is found.\<close>

fun decode_bits ::
  "huffman \<Rightarrow> nat \<Rightarrow> nat \<Rightarrow> int \<Rightarrow> int \<Rightarrow> int \<Rightarrow> nat \<Rightarrow>
     (nat \<times> int \<times> nat) + (int \<times> int \<times> int \<times> nat)" where
  "decode_bits h 0 bitbuf code first index len = Inr (code, first, index, len)"
| "decode_bits h (Suc left) bitbuf code first index len =
     (let code' = code OR int (bitbuf AND 1); bitbuf' = drop_bit 1 bitbuf;
          count = hf_count h ! len in
      if code' < first + count then Inl (bitbuf', index + (code' - first), len)
      else decode_bits h left bitbuf' (push_bit 1 code') (push_bit 1 (first + count))
             (index + count) (len + 1))"

lemma decode_bits_len:
  "decode_bits h left bitbuf code first index len = Inr (code', first', index', len') \<Longrightarrow>
     len' = len + left"
  by (induction h left bitbuf code first index len rule: decode_bits.induct)
    (auto simp: Let_def split: if_splits)

function decode_rounds ::
  "huffman \<Rightarrow> nat \<Rightarrow> nat \<Rightarrow> int \<Rightarrow> int \<Rightarrow> int \<Rightarrow> nat \<Rightarrow> puff_state \<Rightarrow> int puff_res" where
  "decode_rounds h left bitbuf code first index len s =
     (case decode_bits h left bitbuf code first index len of
        Inl (bitbuf', i, len') \<Rightarrow>
          symbol_at h i (s\<lparr>ps_bitbuf := bitbuf',
                           ps_bitcnt := nat ((int (ps_bitcnt s) - int len') mod 8)\<rparr>)
      | Inr (code', first', index', len') \<Rightarrow>
          (let left' = maxbits + 1 - len' in
           if left' = 0 then Done (-9) s
           else pr_bind (next_byte s) (\<lambda>b s1.
                  decode_rounds h (min 8 left') (unat b) code' first' index' len' s1)))"
  by pat_completeness auto
termination
  by (relation "measure (\<lambda>(h, left, bitbuf, code, first, index, len, s).
        2 * (maxbits + 1 - len) + (if left = 0 then 1 else 0))")
    (auto dest!: decode_bits_len split: if_splits)

declare decode_rounds.simps [simp del]

definition decode :: "huffman \<Rightarrow> puff_state \<Rightarrow> int puff_res" where
  "decode h s = decode_rounds h (ps_bitcnt s) (ps_bitbuf s) 0 0 0 1 s"

text \<open>Building a table from code lengths. None is an access outside the arrays
  \<open>count\<close>, \<open>offs\<close> and \<open>symbol\<close>.\<close>

fun count_lengths :: "int list \<Rightarrow> int list \<Rightarrow> int list option" where
  "count_lengths [] count = Some count"
| "count_lengths (l # ls) count =
     (if 0 \<le> l \<and> l < int (length count)
      then count_lengths ls (count[nat l := count ! nat l + 1]) else None)"

fun codes_left :: "int \<Rightarrow> int list \<Rightarrow> int" where
  "codes_left left [] = left"
| "codes_left left (c # cs) =
     (let left' = push_bit 1 left - c in if left' < 0 then left' else codes_left left' cs)"

fun offsets :: "int \<Rightarrow> int list \<Rightarrow> int list" where
  "offsets off [] = [off]"
| "offsets off (c # cs) = off # offsets (off + c) cs"

fun place_symbols :: "int \<Rightarrow> int list \<Rightarrow> int list \<Rightarrow> int list \<Rightarrow> int list option" where
  "place_symbols symbol [] offs table = Some table"
| "place_symbols symbol (l # ls) offs table =
     (if l = 0 then place_symbols (symbol + 1) ls offs table
      else if 0 \<le> l \<and> l < int (length offs) \<and> 0 \<le> offs ! nat l \<and>
              offs ! nat l < int (length table)
      then place_symbols (symbol + 1) ls (offs[nat l := offs ! nat l + 1])
             (table[nat (offs ! nat l) := symbol])
      else None)"

definition construct :: "huffman \<Rightarrow> int list \<Rightarrow> (huffman \<times> int) option" where
  "construct h lengths =
     do {
       count \<leftarrow> count_lengths lengths (replicate (maxbits + 1) 0);
       (if count ! 0 = int (length lengths) then Some (h\<lparr>hf_count := count\<rparr>, 0)
        else
          let left = codes_left 1 (drop 1 count) in
          if left < 0 then Some (h\<lparr>hf_count := count\<rparr>, left)
          else do {
            table \<leftarrow> place_symbols 0 lengths (0 # offsets 0 (take (maxbits - 1) (drop 1 count)))
                      (hf_symbol h);
            Some (\<lparr>hf_count = count, hf_symbol = table\<rparr>, left)
          })
     }"

text \<open>The arrays of a decoder on the stack, of the given capacity.\<close>

definition new_huffman :: "nat \<Rightarrow> huffman" where
  "new_huffman n = \<lparr>hf_count = replicate (maxbits + 1) 0, hf_symbol = replicate n 0\<rparr>"

end
