(* ===== verification/Puff_Blocks.thy ===== *)
theory Puff_Blocks
  imports Puff
begin

text \<open>The blocks of src/puff.cpp that use Huffman tables, and \<open>puff\<close> itself. The
  loops over symbols and code lengths end because every decoded symbol takes
  at least one bit, or advances the index; the loop over blocks may run
  forever on counters that wrap, and is \<open>partial_function (option)\<close>.\<close>

section \<open>Every decoded symbol takes a bit\<close>

definition bits_left :: "puff_state \<Rightarrow> nat" where
  "bits_left s = 8 * (length (ps_in s) - ps_incnt s) + ps_bitcnt s"

lemma bits_left_out [simp]:
  "bits_left (s\<lparr>ps_out := x\<rparr>) = bits_left s"
  "bits_left (s\<lparr>ps_outcnt := n\<rparr>) = bits_left s"
  by (simp_all add: bits_left_def)

lemma next_byte_left:
  assumes "next_byte s = Done b s'"
  shows "8 + bits_left s' = bits_left s + 0" and "ps_bitcnt s' = ps_bitcnt s"
  using next_byte_DoneD [OF assms] by (auto simp: bits_left_def)

lemma bits_fill_left:
  "bits_fill need val s = Done v s' \<Longrightarrow> bits_left s' = bits_left s \<and> need \<le> ps_bitcnt s'"
proof (induction need val s rule: bits_fill.induct)
  case (1 need val s)
  show ?case
  proof (cases "ps_bitcnt s < need")
    case True
    with "1.prems" obtain b s1 where n: "next_byte s = Done b s1"
      and r: "bits_fill need (val OR push_bit (ps_bitcnt s1) (unat b))
                (s1\<lparr>ps_bitcnt := ps_bitcnt s1 + 8\<rparr>) = Done v s'"
      by (auto simp: bits_fill.simps [of need val s] pr_bind_Done)
    have "bits_left (s1\<lparr>ps_bitcnt := ps_bitcnt s1 + 8\<rparr>) = bits_left s"
      using next_byte_left [OF n] by (simp add: bits_left_def)
    with "1.IH" [OF True n r] show ?thesis by simp
  next
    case False
    with "1.prems" show ?thesis by (simp add: bits_fill.simps [of need val s])
  qed
qed

lemma bits_left_bits:
  assumes "bits need s = Done v s'"
  shows "bits_left s' + need = bits_left s"
proof -
  obtain w s1 where f: "bits_fill need (ps_bitbuf s) s = Done w s1"
    and s': "s' = s1\<lparr>ps_bitbuf := drop_bit need w, ps_bitcnt := ps_bitcnt s1 - need\<rparr>"
    using assms by (auto simp: bits_def pr_bind_Done)
  with bits_fill_left [OF f] show ?thesis by (simp add: bits_left_def)
qed

lemma decode_bits_found:
  "decode_bits h left bitbuf code first index len = Inl (bitbuf', i, len') \<Longrightarrow>
     len \<le> len' \<and> len' < len + left"
  by (induction h left bitbuf code first index len rule: decode_bits.induct)
    (fastforce simp: Let_def split: if_splits)+

text \<open>The fast decoder has \<open>left\<close> unread bits in hand and has fetched \<open>k\<close> bytes
  since it was entered; the code it finds ends inside them.\<close>

lemma mod_8_le:
  assumes "n \<le> b + 8 * k"
  shows "nat ((int b - int n) mod 8) \<le> b + 8 * k - n"
proof -
  have "(int b - int n) mod 8 = int (b + 8 * k - n) mod 8"
  proof -
    have "int (b + 8 * k - n) = (int b - int n) + int k * 8"
      using assms by (simp add: of_nat_diff)
    then show ?thesis by (simp only: mod_mult_self1)
  qed
  also have "\<dots> \<le> int (b + 8 * k - n)"
    by (simp add: zmod_le_nonneg_dividend)
  finally show ?thesis by simp
qed

lemma decode_rounds_left:
  assumes "decode_rounds h left bitbuf code first index len s = Done x s'" and "0 \<le> x"
    and "1 \<le> len" and "len + left \<le> ps_bitcnt s + 8 * k + 1"
  shows "bits_left s' + 1 \<le> bits_left s + 8 * k"
  using assms
proof (induction h left bitbuf code first index len s arbitrary: k rule: decode_rounds.induct)
  case (1 h left bitbuf code first index len s)
  note un = decode_rounds.simps [of h left bitbuf code first index len s]
  show ?case
  proof (cases "decode_bits h left bitbuf code first index len")
    case (Inl a)
    then obtain bb i len' where a: "decode_bits h left bitbuf code first index len
        = Inl (bb, i, len')"
      by (cases a) auto
    have s': "s' = s\<lparr>ps_bitbuf := bb, ps_bitcnt := nat ((int (ps_bitcnt s) - int len') mod 8)\<rparr>"
      using "1.prems"(1) un a by (auto dest: symbol_at_DoneD)
    have "1 \<le> len'" and "len' \<le> ps_bitcnt s + 8 * k"
      using decode_bits_found [OF a] "1.prems"(3,4) by auto
    then show ?thesis
      using mod_8_le [of len' "ps_bitcnt s" k] by (simp add: s' bits_left_def)
  next
    case (Inr a)
    then obtain c f i len' where a: "decode_bits h left bitbuf code first index len
        = Inr (c, f, i, len')"
      by (cases a) auto
    have len': "len' = len + left"
      by (rule decode_bits_len [OF a])
    show ?thesis
    proof (cases "maxbits + 1 - len' = 0")
      case True
      with "1.prems"(1,2) un a show ?thesis by simp
    next
      case False
      with "1.prems"(1) un a obtain b s1 where n: "next_byte s = Done b s1"
        and r: "decode_rounds h (min 8 (maxbits + 1 - len')) (unat b) c f i len' s1 = Done x s'"
        by (auto simp: pr_bind_Done Let_def)
      have "bits_left s' + 1 \<le> bits_left s1 + 8 * (k + 1)"
        by (rule "1.IH" [OF a refl refl refl refl False n r "1.prems"(2)])
          (use "1.prems"(3,4) len' next_byte_left [OF n] in auto)
      then show ?thesis
        using next_byte_left [OF n] by simp
    qed
  qed
qed

lemma decode_left:
  assumes "decode h s = Done x s'" and "0 \<le> x"
  shows "bits_left s' < bits_left s"
  using decode_rounds_left [OF assms [unfolded decode_def], of 0] by simp

section \<open>Literals and matches\<close>

definition lens :: "nat list" where
  "lens = [3, 4, 5, 6, 7, 8, 9, 10, 11, 13, 15, 17, 19, 23, 27, 31,
           35, 43, 51, 59, 67, 83, 99, 115, 131, 163, 195, 227, 258]"

definition lext :: "nat list" where
  "lext = [0, 0, 0, 0, 0, 0, 0, 0, 1, 1, 1, 1, 2, 2, 2, 2,
           3, 3, 3, 3, 4, 4, 4, 4, 5, 5, 5, 5, 0]"

definition dists :: "nat list" where
  "dists = [1, 2, 3, 4, 5, 7, 9, 13, 17, 25, 33, 49, 65, 97, 129, 193,
            257, 385, 513, 769, 1025, 1537, 2049, 3073, 4097, 6145,
            8193, 12289, 16385, 24577]"

definition dext :: "nat list" where
  "dext = [0, 0, 0, 0, 1, 1, 2, 2, 3, 3, 4, 4, 5, 5, 6, 6,
           7, 7, 8, 8, 9, 9, 10, 10, 11, 11, 12, 12, 13, 13]"

text \<open>The body of the loop of \<open>codes\<close>: \<open>Some e\<close> returns \<open>e\<close>, None goes round
  again.\<close>

definition write_literal :: "int \<Rightarrow> puff_state \<Rightarrow> int option puff_res" where
  "write_literal symbol s =
     (if ps_out s \<noteq> None
      then (if ps_outcnt s = ps_outlen s then Done (Some 1) s
            else pr_bind (put_out (word_of_int symbol) s) (\<lambda>_ s1. Done None s1))
      else Done None (s\<lparr>ps_outcnt := wrap32 (ps_outcnt s + 1)\<rparr>))"

definition copy_match :: "nat \<Rightarrow> nat \<Rightarrow> puff_state \<Rightarrow> int option puff_res" where
  "copy_match dist len s =
     (if dist > ps_outcnt s then Done (Some (-10)) s
      else if ps_out s \<noteq> None
      then (if wrap32 (ps_outcnt s + len) > ps_outlen s then Done (Some 1) s
            else pr_bind (copy_back dist len s) (\<lambda>_ s1. Done None s1))
      else Done None (s\<lparr>ps_outcnt := wrap32 (ps_outcnt s + len)\<rparr>))"

definition read_match :: "huffman \<Rightarrow> int \<Rightarrow> puff_state \<Rightarrow> int option puff_res" where
  "read_match distcode symbol0 s =
     (let symbol = symbol0 - 257 in
      if symbol \<ge> 29 then Done (Some (-9)) s
      else pr_bind (bits (lext ! nat symbol) s) (\<lambda>extra s1.
           let len = lens ! nat symbol + extra in
           pr_bind (decode distcode s1) (\<lambda>dsym s2.
           if dsym < 0 then Done (Some dsym) s2
           else if dsym \<ge> 30 then Wild
           else pr_bind (bits (dext ! nat dsym) s2) (\<lambda>dextra s3.
                copy_match (dists ! nat dsym + dextra) len s3))))"

definition codes_body :: "huffman \<Rightarrow> huffman \<Rightarrow> puff_state \<Rightarrow> int option puff_res" where
  "codes_body lencode distcode s =
     pr_bind (decode lencode s) (\<lambda>symbol s1.
       if symbol < 0 then Done (Some symbol) s1
       else if symbol < 256 then write_literal symbol s1
       else if symbol > 256 then read_match distcode symbol s1
       else Done (Some 0) s1)"

lemma raw_byte_out [simp]: "bits_left (s\<lparr>ps_out := x, ps_outcnt := n\<rparr>) = bits_left s"
  by (simp add: bits_left_def)

lemma put_out_left: "put_out b s = Done u s' \<Longrightarrow> bits_left s' = bits_left s"
  by (auto simp: put_out_def bits_left_def split: option.splits if_splits)

lemma out_at_DoneD: "out_at i s = Done b s' \<Longrightarrow> s' = s"
  by (auto simp: out_at_def split: option.splits if_splits)

lemma copy_back_left: "copy_back dist len s = Done u s' \<Longrightarrow> bits_left s' = bits_left s"
  by (induction len arbitrary: s)
    (auto simp: pr_bind_Done dest!: out_at_DoneD put_out_left)

lemma write_literal_left:
  "write_literal symbol s = Done r s' \<Longrightarrow> bits_left s' = bits_left s"
  by (auto simp: write_literal_def pr_bind_Done split: if_splits dest: put_out_left)

lemma copy_match_left: "copy_match dist len s = Done r s' \<Longrightarrow> bits_left s' = bits_left s"
  by (auto simp: copy_match_def pr_bind_Done split: if_splits dest: copy_back_left)

lemma read_match_left:
  assumes "read_match distcode symbol s = Done None s'"
  shows "bits_left s' \<le> bits_left s"
  using assms
  by (fastforce simp: read_match_def pr_bind_Done Let_def split: if_splits
      dest!: bits_left_bits decode_left copy_match_left)

lemma codes_body_left:
  assumes "codes_body lencode distcode s = Done None s'"
  shows "bits_left s' < bits_left s"
  using assms
  by (fastforce simp: codes_body_def pr_bind_Done split: if_splits
      dest!: decode_left write_literal_left read_match_left)

function codes :: "huffman \<Rightarrow> huffman \<Rightarrow> puff_state \<Rightarrow> int puff_res" where
  "codes lencode distcode s =
     pr_bind (codes_body lencode distcode s) (\<lambda>r s1.
       case r of Some err \<Rightarrow> Done err s1 | None \<Rightarrow> codes lencode distcode s1)"
  by pat_completeness auto
termination
  by (relation "measure (\<lambda>(lencode, distcode, s). bits_left s)")
    (auto dest: codes_body_left)

declare codes.simps [simp del]

section \<open>Fixed blocks\<close>

definition fixed_lengths :: "int list" where
  "fixed_lengths = replicate 144 8 @ replicate 112 9 @ replicate 24 7 @ replicate 8 8"

definition table_of :: "nat \<Rightarrow> int list \<Rightarrow> huffman" where
  "table_of n lengths =
     (case construct (new_huffman n) lengths of Some (h, _) \<Rightarrow> h | None \<Rightarrow> new_huffman n)"

definition fixed_lencode :: huffman where
  "fixed_lencode = table_of fixlcodes fixed_lengths"

definition fixed_distcode :: huffman where
  "fixed_distcode = table_of maxdcodes (replicate maxdcodes 5)"

definition fixed :: "puff_state \<Rightarrow> int puff_res" where
  "fixed s = codes fixed_lencode fixed_distcode s"

section \<open>Dynamic blocks\<close>

text \<open>The arrays on the stack start with unspecified contents in C; every cell that
  is read has been written before, so the model starts them with zeros.\<close>

definition order :: "nat list" where
  "order = [16, 17, 18, 0, 8, 7, 9, 6, 10, 5, 11, 4, 12, 3, 13, 2, 14, 1, 15]"

fun read_code_lengths :: "nat list \<Rightarrow> int list \<Rightarrow> puff_state \<Rightarrow> int list puff_res" where
  "read_code_lengths [] lengths s = Done lengths s"
| "read_code_lengths (i # is) lengths s =
     pr_bind (bits 3 s) (\<lambda>l s1. read_code_lengths is (lengths[i := int l]) s1)"

fun clear_lengths :: "nat list \<Rightarrow> int list \<Rightarrow> int list" where
  "clear_lengths [] lengths = lengths"
| "clear_lengths (i # is) lengths = clear_lengths is (lengths[i := 0])"

fun repeat_length :: "nat \<Rightarrow> nat \<Rightarrow> int \<Rightarrow> int list \<Rightarrow> int list" where
  "repeat_length 0 index len lengths = lengths"
| "repeat_length (Suc n) index len lengths =
     repeat_length n (index + 1) len (lengths[index := len])"

text \<open>One turn of the loop that reads code lengths: an error to return, or the next
  index and the lengths.\<close>

definition fill_lengths ::
  "nat \<Rightarrow> nat \<Rightarrow> int list \<Rightarrow> int \<Rightarrow> nat \<Rightarrow> puff_state \<Rightarrow> (int + nat \<times> int list) puff_res" where
  "fill_lengths lim index lengths len n s =
     (if index + n > lim then Done (Inl (-6)) s
      else Done (Inr (index + n, repeat_length n index len lengths)) s)"

definition read_length ::
  "huffman \<Rightarrow> nat \<Rightarrow> nat \<Rightarrow> int list \<Rightarrow> puff_state \<Rightarrow> (int + nat \<times> int list) puff_res" where
  "read_length h lim index lengths s =
     pr_bind (decode h s) (\<lambda>symbol s1.
       if symbol < 16 then Done (Inr (index + 1, lengths[index := symbol])) s1
       else if symbol = 16
       then (if index = 0 then Done (Inl (-5)) s1
             else pr_bind (bits 2 s1) (\<lambda>n s2.
                    fill_lengths lim index lengths (lengths ! (index - 1)) (3 + n) s2))
       else if symbol = 17
       then pr_bind (bits 3 s1) (\<lambda>n s2. fill_lengths lim index lengths 0 (3 + n) s2)
       else pr_bind (bits 7 s1) (\<lambda>n s2. fill_lengths lim index lengths 0 (11 + n) s2))"

lemma read_length_advances:
  "read_length h lim index lengths s = Done (Inr (index', lengths')) s' \<Longrightarrow> index < index'"
  by (auto simp: read_length_def fill_lengths_def pr_bind_Done split: if_splits)

function read_lengths ::
  "huffman \<Rightarrow> nat \<Rightarrow> nat \<Rightarrow> int list \<Rightarrow> puff_state \<Rightarrow> (int + int list) puff_res" where
  "read_lengths h lim index lengths s =
     (if index < lim
      then pr_bind (read_length h lim index lengths s) (\<lambda>r s1.
             case r of
               Inl err \<Rightarrow> Done (Inl err) s1
             | Inr p \<Rightarrow> read_lengths h lim (fst p) (snd p) s1)
      else Done (Inr lengths) s)"
  by pat_completeness auto
termination
  by (relation "measure (\<lambda>(h, lim, index, lengths, s). lim - index)")
    (auto dest!: read_length_advances)

declare read_lengths.simps [simp del]

definition read_tables ::
  "huffman \<Rightarrow> nat \<Rightarrow> nat \<Rightarrow> int list \<Rightarrow> puff_state \<Rightarrow> int puff_res" where
  "read_tables lencode nlen ndist lengths s =
     (case construct lencode (take nlen lengths) of
        None \<Rightarrow> Wild
      | Some (lencode', err) \<Rightarrow>
          if err < 0 \<or> (err > 0 \<and> int nlen - hf_count lencode' ! 0 \<noteq> 1) then Done (-7) s
          else case construct (new_huffman maxdcodes) (take ndist (drop nlen lengths)) of
                 None \<Rightarrow> Wild
               | Some (distcode, err) \<Rightarrow>
                   if err < 0 \<or> (err > 0 \<and> int ndist - hf_count distcode ! 0 \<noteq> 1)
                   then Done (-8) s
                   else codes lencode' distcode s)"

definition dynamic :: "puff_state \<Rightarrow> int puff_res" where
  "dynamic s0 =
     pr_bind (bits 5 s0) (\<lambda>n1 s1.
     pr_bind (bits 5 s1) (\<lambda>n2 s2.
     pr_bind (bits 4 s2) (\<lambda>n3 s3.
     let nlen = n1 + 257; ndist = n2 + 1; ncode = n3 + 4 in
     if nlen > maxlcodes \<or> ndist > maxdcodes then Done (-3) s3
     else pr_bind (read_code_lengths (take ncode order) (replicate maxcodes 0) s3) (\<lambda>ls s4.
       let lengths = clear_lengths (drop ncode order) ls in
       case construct (new_huffman maxlcodes) (take 19 lengths) of
         None \<Rightarrow> Wild
       | Some (lencode, err) \<Rightarrow>
           if err \<noteq> 0 then Done (-4) s4
           else pr_bind (read_lengths lencode (nlen + ndist) 0 lengths s4) (\<lambda>r s5.
             case r of
               Inl e \<Rightarrow> Done e s5
             | Inr lengths' \<Rightarrow> read_tables lencode nlen ndist lengths' s5)))))"

section \<open>The whole input\<close>

definition one_block :: "nat \<Rightarrow> puff_state \<Rightarrow> int puff_res" where
  "one_block type s =
     (if type = 0 then stored s else if type = 1 then fixed s
      else if type = 2 then dynamic s else Done (-1) s)"

partial_function (option) puff_loop :: "puff_state \<Rightarrow> int puff_res option" where
  "puff_loop s =
     (case bits 1 s of
        Jumped s1 \<Rightarrow> Some (Jumped s1)
      | Wild \<Rightarrow> Some Wild
      | Done final s1 \<Rightarrow>
          (case pr_bind (bits 2 s1) one_block of
             Jumped s2 \<Rightarrow> Some (Jumped s2)
           | Wild \<Rightarrow> Some Wild
           | Done err s2 \<Rightarrow>
               if err \<noteq> 0 \<or> final \<noteq> 0 then Some (Done err s2) else puff_loop s2))"

text \<open>What \<open>puff\<close> leaves behind: its return value, the destination, and the two
  lengths it was given by reference. None is \<open>Wild\<close>.\<close>

record puff_end =
  pe_err :: int
  pe_dest :: "bytes option"
  pe_destlen :: nat
  pe_sourcelen :: nat

definition puff_start :: "bytes option \<Rightarrow> nat \<Rightarrow> bytes \<Rightarrow> nat \<Rightarrow> puff_state" where
  "puff_start dest destlen source sourcelen =
     \<lparr>ps_out = dest, ps_outlen = destlen, ps_outcnt = 0, ps_in = source,
      ps_inlen = sourcelen, ps_incnt = 0, ps_bitbuf = 0, ps_bitcnt = 0\<rparr>"

definition puff_result :: "nat \<Rightarrow> nat \<Rightarrow> int puff_res \<Rightarrow> puff_end option" where
  "puff_result destlen sourcelen r =
     (let finish = \<lambda>err s.
        \<lparr>pe_err = err, pe_dest = ps_out s,
         pe_destlen = (if err \<le> 0 then ps_outcnt s else destlen),
         pe_sourcelen = (if err \<le> 0 then ps_incnt s else sourcelen)\<rparr> in
      case r of Done err s \<Rightarrow> Some (finish err s) | Jumped s \<Rightarrow> Some (finish 2 s) | Wild \<Rightarrow> None)"

text \<open>\<open>Some r\<close>: the loop over the blocks ends.\<close>

definition puff :: "bytes option \<Rightarrow> nat \<Rightarrow> bytes \<Rightarrow> nat \<Rightarrow> puff_end option option" where
  "puff dest destlen source sourcelen =
     map_option (puff_result destlen sourcelen)
       (puff_loop (puff_start dest destlen source sourcelen))"

end
