(* ===== verification/Puff_Stream.thy ===== *)
theory Puff_Stream
  imports Puff_Blocks
begin

text \<open>The input of the inflater as a list of bits, least significant bit of each
  byte first. The state of a reader that has taken \<open>p\<close> bits is \<open>seek p\<close>; the bit
  reader and both decoders are brought back to the list, which shows that the
  fast decoder does what the plain one does.\<close>

section \<open>Lists of bits\<close>

abbreviation from_bits :: "bool list \<Rightarrow> nat" where
  "from_bits \<equiv> horner_sum of_bool 2"

definition byte_bits :: "byte \<Rightarrow> bool list" where
  "byte_bits b = map (bit b) [0..<8]"

definition bytes_bits :: "bytes \<Rightarrow> bool list" where
  "bytes_bits bs = concat (map byte_bits bs)"

lemma length_byte_bits [simp]: "length (byte_bits b) = 8"
  by (simp add: byte_bits_def)

lemma bytes_bits_simps [simp]:
  "bytes_bits [] = []" "bytes_bits (b # bs) = byte_bits b @ bytes_bits bs"
  "bytes_bits (bs @ cs) = bytes_bits bs @ bytes_bits cs"
  by (simp_all add: bytes_bits_def)

lemma length_bytes_bits [simp]: "length (bytes_bits bs) = 8 * length bs"
  by (induction bs) simp_all

lemma drop_bytes_bits: "drop (8 * n) (bytes_bits bs) = bytes_bits (drop n bs)"
proof (induction bs arbitrary: n)
  case (Cons b bs)
  then show ?case by (cases n) simp_all
qed simp

lemma byte_at_bits:
  assumes "n < length bs"
  shows "take 8 (drop (8 * n) (bytes_bits bs)) = byte_bits (bs ! n)"
  using assms by (simp add: drop_bytes_bits Cons_nth_drop_Suc [symmetric])

lemma from_byte_bits [simp]: "from_bits (byte_bits b) = unat b"
proof -
  have "byte_bits b = map (bit (unat b)) [0..<8]"
    by (simp add: byte_bits_def bit_unsigned_iff)
  then have "from_bits (byte_bits b) = take_bit 8 (unat b)"
    by (simp only: horner_sum_bit_eq_take_bit)
  also have "\<dots> = unat b"
  proof (rule take_bit_nat_eq_self)
    have "unat b < 2 ^ LENGTH(8)" by (rule unsigned_less)
    then show "unat b < 2 ^ 8" by simp
  qed
  finally show ?thesis .
qed

lemma from_bits_append:
  "from_bits (xs @ ys) = from_bits xs OR push_bit (length xs) (from_bits ys)"
  by (rule bit_eqI)
    (auto simp: bit_or_iff bit_push_bit_iff bit_horner_sum_bit_iff nth_append)

lemma from_bits_mask: "from_bits xs AND (push_bit n 1 - 1) = from_bits (take n xs)"
proof -
  have "push_bit n 1 - 1 = (mask n :: nat)"
    by (simp add: mask_eq_exp_minus_1 push_bit_eq_mult)
  then show ?thesis
    by (auto intro!: bit_eqI simp: bit_and_iff bit_mask_iff bit_horner_sum_bit_iff)
qed

lemma from_bits_drop: "drop_bit n (from_bits xs) = from_bits (drop n xs)"
  by (rule bit_eqI) (auto simp: bit_drop_bit_eq bit_horner_sum_bit_iff add.commute)

lemma from_bits_Cons:
  "from_bits (x # xs) AND 1 = of_bool x" "drop_bit 1 (from_bits (x # xs)) = from_bits xs"
  using from_bits_mask [of "x # xs" 1] from_bits_drop [of 1 "x # xs"] by simp_all

section \<open>Positions\<close>

definition src_bits :: "puff_state \<Rightarrow> bool list" where
  "src_bits s = bytes_bits (take (ps_inlen s) (ps_in s))"

definition seek :: "nat \<Rightarrow> puff_state \<Rightarrow> puff_state" where
  "seek p s =
     (let k = (p + 7) div 8 in
      s\<lparr>ps_incnt := k, ps_bitcnt := 8 * k - p,
        ps_bitbuf := from_bits (take (8 * k - p) (drop p (src_bits s)))\<rparr>)"

definition input_ok :: "puff_state \<Rightarrow> bool" where
  "input_ok s \<longleftrightarrow> ps_inlen s \<le> length (ps_in s)"

definition position :: "puff_state \<Rightarrow> nat" where
  "position s = 8 * ps_incnt s - ps_bitcnt s"

text \<open>The states the readers leave: a position in the input, and the bit buffer it
  implies.\<close>

definition aligned :: "puff_state \<Rightarrow> bool" where
  "aligned s \<longleftrightarrow> input_ok s \<and> ps_incnt s \<le> ps_inlen s \<and> s = seek (position s) s"

lemma src_bits_length: "input_ok s \<Longrightarrow> length (src_bits s) = 8 * ps_inlen s"
  by (simp add: src_bits_def input_ok_def)

lemma seek_simps [simp]:
  "ps_in (seek p s) = ps_in s" "ps_inlen (seek p s) = ps_inlen s"
  "ps_out (seek p s) = ps_out s" "ps_outlen (seek p s) = ps_outlen s"
  "ps_outcnt (seek p s) = ps_outcnt s"
  "src_bits (seek p s) = src_bits s" "input_ok (seek p s) = input_ok s"
  "seek p (seek q s) = seek p s" "position (seek p s) = p"
  by (simp_all add: seek_def Let_def src_bits_def input_ok_def position_def)

lemma src_bits_upd [simp]:
  "src_bits (s\<lparr>ps_incnt := a\<rparr>) = src_bits s" "src_bits (s\<lparr>ps_bitcnt := b\<rparr>) = src_bits s"
  "src_bits (s\<lparr>ps_bitbuf := c\<rparr>) = src_bits s"
  by (simp_all add: src_bits_def)

lemma src_byte:
  assumes "input_ok s" and "k < ps_inlen s"
  shows "take 8 (drop (8 * k) (src_bits s)) = byte_bits (ps_in s ! k)"
  using assms byte_at_bits [of k "take (ps_inlen s) (ps_in s)"]
  by (simp add: src_bits_def input_ok_def)

lemma next_byte_at:
  assumes "input_ok s" and "ps_incnt s \<le> ps_inlen s"
  shows "next_byte s =
    (if ps_incnt s = ps_inlen s then Jumped s
     else Done (ps_in s ! ps_incnt s) (s\<lparr>ps_incnt := ps_incnt s + 1\<rparr>))"
  using assms by (auto simp: next_byte_def raw_byte_def input_ok_def)

section \<open>The bit reader\<close>

text \<open>The loop of \<open>bits\<close> with \<open>k\<close> bytes fetched.\<close>

definition filled :: "nat \<Rightarrow> nat \<Rightarrow> puff_state \<Rightarrow> puff_state" where
  "filled p k s = s\<lparr>ps_incnt := k, ps_bitcnt := 8 * k - p\<rparr>"

abbreviation fetched :: "nat \<Rightarrow> nat \<Rightarrow> puff_state \<Rightarrow> nat" where
  "fetched p k s \<equiv> from_bits (take (8 * k - p) (drop p (src_bits s)))"

lemma fetched_Suc:
  assumes "input_ok s" and "k < ps_inlen s" and "p \<le> 8 * k"
  shows "fetched p (Suc k) s = fetched p k s OR push_bit (8 * k - p) (unat (ps_in s ! k))"
proof -
  have "take (8 * Suc k - p) (drop p (src_bits s)) =
      take (8 * k - p) (drop p (src_bits s)) @ take 8 (drop (8 * k) (src_bits s))"
    using assms(3) take_add [of "8 * k - p" 8 "drop p (src_bits s)"] by (simp add: add.commute)
  moreover have "length (take (8 * k - p) (drop p (src_bits s))) = 8 * k - p"
    using assms src_bits_length [OF assms(1)] by simp
  ultimately show ?thesis
    using src_byte [OF assms(1,2)] by (simp add: from_bits_append)
qed

lemma bits_fill_at:
  assumes "input_ok s" and "p \<le> 8 * k" and "k \<le> ps_inlen s"
  shows "bits_fill need (fetched p k s) (filled p k s) =
    (if p + need \<le> 8 * ps_inlen s
     then let m = max k ((p + need + 7) div 8) in Done (fetched p m s) (filled p m s)
     else Jumped (filled p (ps_inlen s) s))"
  using assms(2,3)
proof (induction "ps_inlen s - k" arbitrary: k)
  case 0
  then have k: "k = ps_inlen s" by simp
  have "bits_fill need (fetched p k s) (filled p k s) =
      (if 8 * k - p < need then Jumped (filled p k s) else Done (fetched p k s) (filled p k s))"
    using assms(1) k by (subst bits_fill.simps) (simp add: next_byte_at filled_def input_ok_def)
  moreover have "(p + need + 7) div 8 \<le> k" if "p + need \<le> 8 * k"
    using that by linarith
  ultimately show ?case
    using k 0 by (auto simp: Let_def max_def)
next
  case (Suc x)
  then have less: "k < ps_inlen s" by simp
  have ok: "input_ok (filled p k s)"
    using assms(1) by (simp add: filled_def input_ok_def)
  have step: "next_byte (filled p k s) = Done (ps_in s ! k) ((filled p k s)\<lparr>ps_incnt := k + 1\<rparr>)"
    using next_byte_at [OF ok] less by (simp add: filled_def)
  have fill: "(filled p k s)\<lparr>ps_incnt := k + 1, ps_bitcnt := 8 * k - p + 8\<rparr> = filled p (Suc k) s"
    using Suc.prems(1) by (simp add: filled_def)
  show ?case
  proof (cases "8 * k - p < need")
    case True
    have "bits_fill need (fetched p k s) (filled p k s) =
        bits_fill need (fetched p (Suc k) s) (filled p (Suc k) s)"
      using True fill fetched_Suc [OF assms(1) less Suc.prems(1)]
      by (subst bits_fill.simps) (simp add: step, simp add: filled_def)
    also have "\<dots> = (if p + need \<le> 8 * ps_inlen s
        then let m = max (Suc k) ((p + need + 7) div 8) in Done (fetched p m s) (filled p m s)
        else Jumped (filled p (ps_inlen s) s))"
      by (rule Suc.hyps(1)) (use Suc.hyps(2) Suc.prems less in auto)
    also have "max (Suc k) ((p + need + 7) div 8) = max k ((p + need + 7) div 8)"
      using True Suc.prems(1) by simp
    finally show ?thesis .
  next
    case False
    then have "bits_fill need (fetched p k s) (filled p k s) = Done (fetched p k s) (filled p k s)"
      by (subst bits_fill.simps) (simp add: filled_def)
    moreover have "(p + need + 7) div 8 \<le> k" and "p + need \<le> 8 * ps_inlen s"
      using False Suc.prems less by auto
    ultimately show ?thesis
      by (simp add: max_def Let_def)
  qed
qed

lemma bits_at:
  assumes "input_ok s" and "p + need \<le> 8 * ps_inlen s"
  shows "bits need (seek p s) =
    Done (from_bits (take need (drop p (src_bits s)))) (seek (p + need) s)"
proof -
  let ?k = "(p + 7) div 8" and ?m = "(p + need + 7) div 8"
  have k: "p \<le> 8 * ?k" and m: "p + need \<le> 8 * ?m"
    by linarith+
  have le: "?k \<le> ps_inlen s" and kk: "?k \<le> ?m"
    using assms(2) by (auto intro!: div_le_mono less_mult_imp_div_less
        simp: less_Suc_eq_le [symmetric])
  define t where "t = s\<lparr>ps_bitbuf := fetched p ?k s\<rparr>"
  have t: "seek p s = filled p ?k t" "fetched p j t = fetched p j s" "input_ok t"
    "ps_inlen t = ps_inlen s" "ps_bitbuf (filled p ?k t) = fetched p ?k s" for j
    using assms(1) by (simp_all add: seek_def filled_def t_def Let_def src_bits_def input_ok_def)
  have "bits_fill need (ps_bitbuf (seek p s)) (seek p s) = Done (fetched p ?m s) (filled p ?m t)"
    using bits_fill_at [OF t(3) k, of need] le assms(2) kk
    by (simp add: t Let_def max_def)
  moreover have "fetched p ?m s AND (push_bit need 1 - 1) = from_bits (take need (drop p (src_bits s)))"
    using m by (simp add: from_bits_mask [simplified] min_def)
  moreover have "drop_bit need (fetched p ?m s) = fetched (p + need) ?m s"
    by (simp only: from_bits_drop drop_take drop_drop diff_diff_left add.commute)
  moreover have "(filled p ?m t)\<lparr>ps_bitbuf := fetched (p + need) ?m s,
      ps_bitcnt := ps_bitcnt (filled p ?m t) - need\<rparr> = seek (p + need) s"
    by (simp add: filled_def t_def seek_def Let_def)
  ultimately show ?thesis
    by (simp only: bits_def pr_bind_simps)
qed

lemma bits_out_of_input:
  assumes "input_ok s" and "p \<le> 8 * ps_inlen s" and "8 * ps_inlen s < p + need"
  shows "\<exists>t. bits need (seek p s) = Jumped t"
proof -
  let ?k = "(p + 7) div 8"
  have k: "p \<le> 8 * ?k" and le: "?k \<le> ps_inlen s"
    using assms(2) by linarith+
  define t where "t = s\<lparr>ps_bitbuf := fetched p ?k s\<rparr>"
  have t: "seek p s = filled p ?k t" "fetched p j t = fetched p j s" "input_ok t"
    "ps_inlen t = ps_inlen s" "ps_bitbuf (filled p ?k t) = fetched p ?k s" for j
    using assms(1) by (simp_all add: seek_def filled_def t_def Let_def src_bits_def input_ok_def)
  show ?thesis
    using bits_fill_at [OF t(3) k, of need] le assms(3)
    by (simp add: bits_def t)
qed

section \<open>The decoders on a list of bits\<close>

datatype scan_res = Found int nat | More int int int nat

fun scan :: "huffman \<Rightarrow> bool list \<Rightarrow> int \<Rightarrow> int \<Rightarrow> int \<Rightarrow> nat \<Rightarrow> scan_res" where
  "scan h [] code first index len = More code first index len"
| "scan h (b # bs) code first index len =
     (if len > maxbits then More code first index len
      else let code' = code OR of_bool b; count = hf_count h ! len in
           if code' < first + count then Found (index + (code' - first)) len
           else scan h bs (push_bit 1 code') (push_bit 1 (first + count)) (index + count)
                  (len + 1))"

lemma scan_append:
  "scan h (xs @ ys) code first index len =
    (case scan h xs code first index len of
       Found i n \<Rightarrow> Found i n
     | More code' first' index' len' \<Rightarrow> scan h ys code' first' index' len')"
proof (induction h xs code first index len rule: scan.induct)
  case (2 h b bs code first index len)
  then show ?case by (cases ys) (auto simp: Let_def)
qed simp

lemma scan_done: "maxbits < len \<Longrightarrow> scan h bs code first index len = More code first index len"
  by (cases bs) simp_all

lemma scan_Found: "scan h bs code first index len = Found i n \<Longrightarrow> len \<le> n \<and> n < len + length bs \<and> n \<le> maxbits"
  by (induction h bs code first index len rule: scan.induct)
    (fastforce simp: Let_def split: if_splits)+

lemma scan_More:
  "scan h bs code first index len = More code' first' index' len' \<Longrightarrow> len \<le> maxbits + 1 \<Longrightarrow>
     len' = min (len + length bs) (maxbits + 1)"
  by (induction h bs code first index len rule: scan.induct)
    (auto simp: Let_def split: if_splits)

definition scan_end :: "(int \<Rightarrow> nat \<Rightarrow> 'a) \<Rightarrow> 'a \<Rightarrow> 'a \<Rightarrow> scan_res \<Rightarrow> 'a" where
  "scan_end found bad short r =
     (case r of Found i n \<Rightarrow> found i n | More _ _ _ len \<Rightarrow> if len > maxbits then bad else short)"

lemma drop_bit_at:
  assumes "input_ok s" and "p < 8 * ps_inlen s"
  shows "drop p (src_bits s) = src_bits s ! p # drop (p + 1) (src_bits s)"
  using assms by (simp add: Cons_nth_drop_Suc src_bits_length)

lemma bit_at:
  assumes "input_ok s" and "p < 8 * ps_inlen s"
  shows "bits 1 (seek p s) = Done (of_bool (src_bits s ! p)) (seek (p + 1) s)"
  using bits_at [OF assms(1), of p 1] assms drop_bit_at [OF assms] by simp

text \<open>The plain decoder, \<open>len - 1\<close> bits after it was entered at \<open>p\<close>.\<close>

lemma decode_slow_loop_at:
  assumes "input_ok s" and "1 \<le> len" and "p + len \<le> 8 * ps_inlen s + 1" and "len \<le> maxbits + 1"
  shows "\<exists>t. decode_slow_loop h code first index len (seek (p + len - 1) s) =
    scan_end (\<lambda>i n. symbol_at h i (seek (p + n) s)) (Done (-9) (seek (p + maxbits) s)) (Jumped t)
      (scan h (drop (p + len - 1) (src_bits s)) code first index len)"
  using assms(2-4)
proof (induction "maxbits + 1 - len" arbitrary: code first index len)
  case 0
  then have "len = maxbits + 1" by simp
  then show ?case
    by (subst decode_slow_loop.simps) (simp add: scan_end_def scan_done)
next
  case (Suc x)
  then have le: "len \<le> maxbits" by simp
  show ?case
  proof (cases "p + len - 1 < 8 * ps_inlen s")
    case False
    then have p: "p + len - 1 = 8 * ps_inlen s"
      using Suc.prems by simp
    then obtain t where "bits 1 (seek (p + len - 1) s) = Jumped t"
      using bits_out_of_input [OF assms(1), of "p + len - 1" 1] by auto
    then show ?thesis
      using p le src_bits_length [OF assms(1)]
      by (subst decode_slow_loop.simps) (auto simp: scan_end_def)
  next
    case True
    let ?b = "src_bits s ! (p + len - 1)" and ?c = "hf_count h ! len"
    have d: "drop (p + len - 1) (src_bits s) = ?b # drop (p + Suc len - 1) (src_bits s)"
      using drop_bit_at [OF assms(1) True] Suc.prems(1) by simp
    have r: "bits 1 (seek (p + len - 1) s) = Done (of_bool ?b) (seek (p + Suc len - 1) s)"
      using bit_at [OF assms(1) True] Suc.prems(1) by simp
    have "\<exists>t. decode_slow_loop h (push_bit 1 (code OR of_bool ?b))
        (push_bit 1 (first + ?c)) (index + ?c) (Suc len) (seek (p + Suc len - 1) s) =
      scan_end (\<lambda>i n. symbol_at h i (seek (p + n) s)) (Done (-9) (seek (p + maxbits) s)) (Jumped t)
        (scan h (drop (p + Suc len - 1) (src_bits s)) (push_bit 1 (code OR of_bool ?b))
          (push_bit 1 (first + ?c)) (index + ?c) (Suc len))"
      by (rule Suc.hyps(1)) (use Suc.hyps(2) Suc.prems True le in auto)
    then obtain t where t: "decode_slow_loop h (push_bit 1 (code OR of_bool ?b))
        (push_bit 1 (first + ?c)) (index + ?c) (Suc len) (seek (p + Suc len - 1) s) =
      scan_end (\<lambda>i n. symbol_at h i (seek (p + n) s)) (Done (-9) (seek (p + maxbits) s)) (Jumped t)
        (scan h (drop (p + Suc len - 1) (src_bits s)) (push_bit 1 (code OR of_bool ?b))
          (push_bit 1 (first + ?c)) (index + ?c) (Suc len))"
      by (rule exE)
    show ?thesis
    proof (cases "code OR of_bool ?b < first + ?c")
      case f: True
      then show ?thesis
        using le Suc.prems by (subst decode_slow_loop.simps, unfold d r)
          (simp add: scan_end_def Let_def)
    next
      case f: False
      then show ?thesis
        using le t by (intro exI [of _ t], subst decode_slow_loop.simps, unfold d r)
          (simp add: Let_def)
    qed
  qed
qed

text \<open>The fast decoder.\<close>

lemma decode_bits_scan:
  assumes "left \<le> length xs" and "len + left \<le> maxbits + 1"
  shows "decode_bits h left (from_bits xs) code first index len =
    (case scan h (take left xs) code first index len of
       Found i n \<Rightarrow> Inl (from_bits (drop (n + 1 - len) xs), i, n)
     | More code' first' index' len' \<Rightarrow> Inr (code', first', index', len'))"
  using assms
proof (induction left arbitrary: xs code first index len)
  case (Suc left)
  then obtain x ys where xs: "xs = x # ys" by (cases xs) auto
  let ?c = "hf_count h ! len" and ?code = "code OR of_bool x"
  have d: "decode_bits h (Suc left) (from_bits xs) code first index len =
      (if ?code < first + ?c then Inl (from_bits ys, index + (?code - first), len)
       else decode_bits h left (from_bits ys) (push_bit 1 ?code) (push_bit 1 (first + ?c))
              (index + ?c) (len + 1))"
    by (simp only: xs decode_bits.simps Let_def from_bits_Cons of_nat_of_bool)
  show ?case
  proof (cases "?code < first + ?c")
    case True
    then show ?thesis
      using Suc.prems by (simp only: d) (simp add: xs Let_def del: horner_sum_simps)
  next
    case False
    have "decode_bits h left (from_bits ys) (push_bit 1 ?code) (push_bit 1 (first + ?c))
        (index + ?c) (len + 1) =
      (case scan h (take left ys) (push_bit 1 ?code) (push_bit 1 (first + ?c)) (index + ?c) (len + 1) of
         Found i n \<Rightarrow> Inl (from_bits (drop (n + 1 - (len + 1)) ys), i, n)
       | More code' first' index' len' \<Rightarrow> Inr (code', first', index', len'))"
      using Suc.prems by (intro Suc.IH) (simp_all add: xs)
    moreover have "scan h (take (Suc left) xs) code first index len =
        scan h (take left ys) (push_bit 1 ?code) (push_bit 1 (first + ?c)) (index + ?c) (len + 1)"
      using False Suc.prems by (simp add: xs Let_def)
    moreover have "drop (n + 1 - (len + 1)) ys = drop (n + 1 - len) xs"
      if "scan h (take left ys) (push_bit 1 ?code) (push_bit 1 (first + ?c)) (index + ?c) (len + 1)
            = Found i n" for i n
      using scan_Found [OF that] by (simp add: xs Suc_diff_le)
    ultimately show ?thesis
      unfolding d if_not_P [OF False] by (simp only: split: scan_res.split) simp
  qed
qed simp

text \<open>A code that ends inside the bytes fetched leaves the state of its position.\<close>

lemma found_seek:
  assumes "8 * k \<le> p + len + 7" and "p + n \<le> 8 * k" and "1 \<le> len" and "len \<le> n"
  shows "(seek p s)\<lparr>ps_incnt := k,
      ps_bitbuf := from_bits (drop (n + 1 - len) (take (8 * k - (p + len - 1)) (drop (p + len - 1) (src_bits s)))),
      ps_bitcnt := nat ((int (ps_bitcnt (seek p s)) - int n) mod 8)\<rparr> = seek (p + n) s"
proof -
  let ?k0 = "(p + 7) div 8"
  have k: "(p + n + 7) div 8 = k"
    using assms by linarith
  have "(int (8 * ?k0 - p) - int n) mod 8 = int (8 * k - (p + n)) mod 8"
  proof -
    have "int (8 * ?k0 - p) - int n = int (8 * k - (p + n)) + 8 * (int ?k0 - int k)"
      using assms(2) by (simp add: of_nat_diff)
    then show ?thesis by (simp only: mod_mult_self2)
  qed
  also have "\<dots> = int (8 * k - (p + n))"
    using assms by simp
  finally have c: "nat ((int (8 * ?k0 - p) - int n) mod 8) = 8 * k - (p + n)" by simp
  have b: "drop (n + 1 - len) (take (8 * k - (p + len - 1)) (drop (p + len - 1) (src_bits s))) =
      take (8 * k - (p + n)) (drop (p + n) (src_bits s))"
    using assms(3,4) by (simp add: drop_take add.commute)
  show ?thesis
    using c b by (simp add: seek_def Let_def k)
qed

text \<open>The rounds of the fast decoder, with \<open>k\<close> bytes fetched and \<open>len - 1\<close> bits
  looked at.\<close>

lemma decode_rounds_at:
  assumes ok: "input_ok s" and len: "1 \<le> len" "len \<le> maxbits"
    and k: "k \<le> ps_inlen s" "8 * k \<le> p + len + 7" "p + len \<le> 8 * k + 1"
  shows "\<exists>t. decode_rounds h (min (8 * k - (p + len - 1)) (maxbits + 1 - len))
      (from_bits (take (8 * k - (p + len - 1)) (drop (p + len - 1) (src_bits s))))
      code first index len ((seek p s)\<lparr>ps_incnt := k\<rparr>) =
    scan_end (\<lambda>i n. symbol_at h i (seek (p + n) s))
      (Done (-9) ((seek p s)\<lparr>ps_incnt := (p + maxbits + 7) div 8\<rparr>)) (Jumped t)
      (scan h (drop (p + len - 1) (src_bits s)) code first index len)"
  using len k
proof (induction "ps_inlen s - k" arbitrary: k code first index len rule: less_induct)
  case less
  let ?q = "p + len - 1"
  let ?n = "8 * k - ?q"
  let ?xs = "take ?n (drop ?q (src_bits s))" and ?ys = "drop (8 * k) (src_bits s)"
  let ?left = "min ?n (maxbits + 1 - len)"
  let ?s = "(seek p s)\<lparr>ps_incnt := k\<rparr>"
  have q: "?q \<le> 8 * k"
    using less.prems by simp
  have lxs: "length ?xs = ?n"
    using less.prems src_bits_length [OF ok] by simp
  have lt: "length (take ?left ?xs) = ?left"
    by (subst length_take, subst lxs) simp
  have split: "drop ?q (src_bits s) = take ?left ?xs @ drop ?left ?xs @ ?ys"
    using q append_take_drop_id [of ?n "drop ?q (src_bits s)"]
    by (metis (no_types, lifting) append_assoc append_take_drop_id drop_drop le_add_diff_inverse2)
  have whole: "scan h (drop ?q (src_bits s)) code first index len =
      scan h (take ?left ?xs @ drop ?left ?xs @ ?ys) code first index len"
    by (rule arg_cong [OF split])
  have bits: "decode_bits h ?left (from_bits ?xs) code first index len =
    (case scan h (take ?left ?xs) code first index len of
       Found i n \<Rightarrow> Inl (from_bits (drop (n + 1 - len) ?xs), i, n)
     | More code' first' index' len' \<Rightarrow> Inr (code', first', index', len'))"
    by (rule decode_bits_scan) (use lxs less.prems in auto)
  show ?case
  proof (cases "scan h (take ?left ?xs) code first index len")
    case (Found i n)
    have n: "len \<le> n" "n < len + ?n"
      using scan_Found [OF Found] unfolding lt by auto
    have "p + n \<le> 8 * k"
      using n less.prems by linarith
    from found_seek [OF less.prems(4) this less.prems(1) n(1)]
    have "decode_rounds h ?left (from_bits ?xs) code first index len ?s =
        symbol_at h i (seek (p + n) s)"
      by (subst decode_rounds.simps, unfold bits Found) simp
    moreover have "scan h (drop ?q (src_bits s)) code first index len = Found i n"
      by (rule trans [OF whole]) (simp only: scan_append Found scan_res.case)
    ultimately show ?thesis by (simp add: scan_end_def)
  next
    case (More code' first' index' len')
    have len': "len' = len + ?left"
      using scan_More [OF More] less.prems lxs by auto
    have sc: "scan h (drop ?q (src_bits s)) code first index len =
        scan h (drop ?left ?xs @ ?ys) code' first' index' len'"
      by (rule trans [OF whole]) (simp only: scan_append More scan_res.case)
    show ?thesis
    proof (cases "len' = maxbits + 1")
      case True
      have "(p + maxbits + 7) div 8 = k"
        using True len' less.prems by auto
      then have "decode_rounds h ?left (from_bits ?xs) code first index len ?s =
          Done (-9) ((seek p s)\<lparr>ps_incnt := (p + maxbits + 7) div 8\<rparr>)"
        using True by (subst decode_rounds.simps, unfold bits More) simp
      then show ?thesis
        unfolding sc using True by (simp add: scan_end_def scan_done)
    next
      case False
      then have left: "?left = ?n" and l16: "len' \<le> maxbits"
        using len' less.prems by auto
      have k8: "p + len' - 1 = 8 * k"
        using len' left less.prems by auto
      have sc': "scan h (drop ?q (src_bits s)) code first index len =
          scan h (drop (p + len' - 1) (src_bits s)) code' first' index' len'"
        using lxs by (simp only: sc left k8) simp
      have rounds: "decode_rounds h ?left (from_bits ?xs) code first index len ?s =
          pr_bind (next_byte ?s) (\<lambda>b s1. decode_rounds h (min 8 (maxbits + 1 - len')) (unat b)
            code' first' index' len' s1)"
        using False l16 by (subst decode_rounds.simps, unfold bits More) (simp add: Let_def)
      have nb: "next_byte ?s = (if k = ps_inlen s then Jumped ?s
          else Done (ps_in s ! k) ((seek p s)\<lparr>ps_incnt := Suc k\<rparr>))"
        using next_byte_at [of ?s] ok less.prems(3) by (simp add: input_ok_def)
      show ?thesis
      proof (cases "k = ps_inlen s")
        case True
        then have "drop (8 * k) (src_bits s) = []"
          using src_bits_length [OF ok] by simp
        then have "scan h (drop ?q (src_bits s)) code first index len = More code' first' index' len'"
          unfolding sc' k8 by simp
        moreover have "decode_rounds h ?left (from_bits ?xs) code first index len ?s = Jumped ?s"
          unfolding rounds nb if_P [OF True] by simp
        ultimately show ?thesis
          using l16 by (simp only: scan_end_def scan_res.case) simp
      next
        case kn: False
        then have kl: "k < ps_inlen s"
          using less.prems by simp
        have e: "8 * Suc k - (p + len' - 1) = 8"
          using k8 by simp
        have x: "from_bits (take (8 * Suc k - (p + len' - 1)) (drop (p + len' - 1) (src_bits s))) =
            unat (ps_in s ! k)"
          unfolding e unfolding k8 src_byte [OF ok kl] by (rule from_byte_bits)
        have "\<exists>t. decode_rounds h (min (8 * Suc k - (p + len' - 1)) (maxbits + 1 - len'))
            (from_bits (take (8 * Suc k - (p + len' - 1)) (drop (p + len' - 1) (src_bits s))))
            code' first' index' len' ((seek p s)\<lparr>ps_incnt := Suc k\<rparr>) =
          scan_end (\<lambda>i n. symbol_at h i (seek (p + n) s))
            (Done (-9) ((seek p s)\<lparr>ps_incnt := (p + maxbits + 7) div 8\<rparr>)) (Jumped t)
            (scan h (drop (p + len' - 1) (src_bits s)) code' first' index' len')"
          by (rule less.hyps) (use kl k8 l16 len' less.prems in auto)
        then show ?thesis
          unfolding rounds nb if_not_P [OF kn] pr_bind_simps sc' x unfolding e .
      qed
    qed
  qed
qed

lemma decode_at:
  assumes "input_ok s" and "p \<le> 8 * ps_inlen s"
  shows "\<exists>t. decode h (seek p s) =
    scan_end (\<lambda>i n. symbol_at h i (seek (p + n) s))
      (Done (-9) ((seek p s)\<lparr>ps_incnt := (p + maxbits + 7) div 8\<rparr>)) (Jumped t)
      (scan h (drop p (src_bits s)) 0 0 0 1)"
proof -
  let ?k = "(p + 7) div 8"
  have k: "?k \<le> ps_inlen s" "8 * ?k \<le> p + 1 + 7" "p + 1 \<le> 8 * ?k + 1" "8 * ?k - p < maxbits"
    using assms(2) unfolding maxbits_def by linarith+
  have "(seek p s)\<lparr>ps_incnt := ?k\<rparr> = seek p s"
    by (simp add: seek_def Let_def)
  moreover have "ps_bitcnt (seek p s) = min (8 * ?k - p) maxbits"
    "ps_bitbuf (seek p s) = from_bits (take (8 * ?k - p) (drop p (src_bits s)))"
    using k(4) by (simp_all add: seek_def Let_def)
  ultimately show ?thesis
    using decode_rounds_at [OF assms(1), of 1 ?k p h 0 0 0] k
    by (simp add: decode_def maxbits_def)
qed

lemma decode_slow_at:
  assumes "input_ok s" and "p \<le> 8 * ps_inlen s"
  shows "\<exists>t. decode_slow h (seek p s) =
    scan_end (\<lambda>i n. symbol_at h i (seek (p + n) s)) (Done (-9) (seek (p + maxbits) s)) (Jumped t)
      (scan h (drop p (src_bits s)) 0 0 0 1)"
  using decode_slow_loop_at [OF assms(1), of 1 p h 0 0 0] assms(2)
  by (simp add: decode_slow_def maxbits_def)

text \<open>What the two decoders agree on. The state after a code that is not in the table
  differs: the fast decoder leaves the bit buffer as it was.\<close>

definition same_decoding :: "int puff_res \<Rightarrow> int puff_res \<Rightarrow> bool" where
  "same_decoding fast slow =
     (case (fast, slow) of
        (Done x s, Done y t) \<Rightarrow> x = y \<and> ps_incnt s = ps_incnt t \<and> (s = t \<or> x = -9)
      | (Jumped s, Jumped t) \<Rightarrow> True
      | (Wild, Wild) \<Rightarrow> True
      | _ \<Rightarrow> False)"

text \<open>C27: The fast decoder of Huffman codes does what the plain one does, on every
  table and from every position in the input: the same symbol or error, the same
  bytes fetched, the same state after a symbol, and both run out of input or read
  outside the symbol table together.\<close>
theorem fast_decoder_is_plain:
  assumes "aligned s"
  shows "same_decoding (decode h s) (decode_slow h s)"
proof -
  let ?p = "position s"
  have ok: "input_ok s" and s: "s = seek ?p s"
    using assms by (auto simp: aligned_def)
  have p: "?p \<le> 8 * ps_inlen s"
    using assms diff_le_self le_trans mult_le_mono2 unfolding aligned_def position_def by blast
  obtain t where f: "decode h s = scan_end (\<lambda>i n. symbol_at h i (seek (?p + n) s))
      (Done (-9) ((seek ?p s)\<lparr>ps_incnt := (?p + maxbits + 7) div 8\<rparr>)) (Jumped t)
      (scan h (drop ?p (src_bits s)) 0 0 0 1)"
    using decode_at [OF ok p, of h] s by auto
  obtain u where g: "decode_slow h s = scan_end (\<lambda>i n. symbol_at h i (seek (?p + n) s))
      (Done (-9) (seek (?p + maxbits) s)) (Jumped u) (scan h (drop ?p (src_bits s)) 0 0 0 1)"
    using decode_slow_at [OF ok p, of h] s by auto
  show ?thesis
  proof (cases "scan h (drop ?p (src_bits s)) 0 0 0 1")
    case (Found i n)
    then show ?thesis
      unfolding f g by (simp add: scan_end_def same_decoding_def symbol_at_def)
  next
    case (More c a i n)
    then show ?thesis
      unfolding f g by (simp add: scan_end_def same_decoding_def) (simp add: seek_def Let_def)
  qed
qed

text \<open>A table of two symbols, met in the middle of a byte.\<close>

theorem fast_decoder_is_plain_witness:
  "same_decoding
     (decode (table_of 3 [2, 0, 1]) (seek 3 (puff_start None 0 [0xb5] 1)))
     (decode_slow (table_of 3 [2, 0, 1]) (seek 3 (puff_start None 0 [0xb5] 1)))"
  by (rule fast_decoder_is_plain)
    (simp add: aligned_def input_ok_def puff_start_def seek_def position_def Let_def src_bits_def)

end
