(* ===== verification/Puff_Codes.thy ===== *)
theory Puff_Codes
  imports Puff_Stream
begin

text \<open>The tables \<open>construct\<close> builds against the canonical Huffman codes of RFC
  1951: the counting sort that fills them, and the decoding of every code of the
  set.\<close>

section \<open>Canonical codes\<close>

text \<open>RFC 1951, 3.2.2: the codes of one length are consecutive numbers, in the order
  of the symbols, and start at twice the end of those of the length before.\<close>

definition lengths_of :: "int list \<Rightarrow> nat \<Rightarrow> nat" where
  "lengths_of lengths l = count_list lengths (int l)"

fun first_code :: "int list \<Rightarrow> nat \<Rightarrow> nat" where
  "first_code lengths 0 = 0"
| "first_code lengths (Suc l) =
     2 * (first_code lengths l + (if l = 0 then 0 else lengths_of lengths l))"

definition code_value :: "int list \<Rightarrow> nat \<Rightarrow> nat" where
  "code_value lengths x =
     (let l = nat (lengths ! x) in
      first_code lengths l + lengths_of (take x lengths) l)"

definition code_bits :: "nat \<Rightarrow> nat \<Rightarrow> bool list" where
  "code_bits v l = map (\<lambda>j. bit v (l - 1 - j)) [0..<l]"

definition canonical_code :: "int list \<Rightarrow> nat \<Rightarrow> bool list" where
  "canonical_code lengths x = code_bits (code_value lengths x) (nat (lengths ! x))"

definition lengths_ok :: "int list \<Rightarrow> bool" where
  "lengths_ok lengths \<longleftrightarrow> (\<forall>l \<in> set lengths. 0 \<le> l \<and> l \<le> int maxbits)"

lemma first_code_grows:
  assumes "1 \<le> j" and "j < l"
  shows "2 ^ (l - j) * (first_code lengths j + lengths_of lengths j) \<le> first_code lengths l"
  using assms(2)
proof (induction l)
  case (Suc l)
  show ?case
  proof (cases "j = l")
    case True
    then show ?thesis using assms(1) by simp
  next
    case False
    then have "2 ^ (l - j) * (first_code lengths j + lengths_of lengths j) \<le> first_code lengths l"
      using Suc by simp
    then show ?thesis
      using False Suc.prems by (simp add: Suc_diff_le)
  qed
qed simp

section \<open>Counts and codes left\<close>

lemma count_lengths_spec:
  assumes "\<forall>l \<in> set ls. 0 \<le> l \<and> l < int (length count)"
  shows "\<exists>count'. count_lengths ls count = Some count' \<and> length count' = length count \<and>
    (\<forall>j < length count. count' ! j = count ! j + int (lengths_of ls j))"
  using assms
proof (induction ls count rule: count_lengths.induct)
  case (2 l ls count)
  let ?c = "count[nat l := count ! nat l + 1]"
  obtain count' where "count_lengths ls ?c = Some count'" "length count' = length count"
    "\<forall>j < length count. count' ! j = ?c ! j + int (lengths_of ls j)"
    using 2 by auto
  then show ?case
    using "2.prems" by (auto simp: lengths_of_def nth_list_update)
qed (simp add: lengths_of_def)

text \<open>The table of counts \<open>construct\<close> works with.\<close>

definition count_table :: "int list \<Rightarrow> int list" where
  "count_table lengths = map (\<lambda>j. int (lengths_of lengths j)) [0..<maxbits + 1]"

lemma count_table_nth: "j \<le> maxbits \<Longrightarrow> count_table lengths ! j = int (lengths_of lengths j)"
  by (simp add: count_table_def del: upt_Suc)

lemma length_count_table [simp]: "length (count_table lengths) = maxbits + 1"
  by (simp add: count_table_def)

lemma count_lengths_table:
  assumes "lengths_ok lengths"
  shows "count_lengths lengths (replicate (maxbits + 1) 0) = Some (count_table lengths)"
proof -
  have "\<forall>l \<in> set lengths. 0 \<le> l \<and> l < int (length (replicate (maxbits + 1) (0 :: int)))"
    using assms by (fastforce simp: lengths_ok_def)
  from count_lengths_spec [OF this]
  obtain count where c: "count_lengths lengths (replicate (maxbits + 1) 0) = Some count"
    "length count = maxbits + 1" "\<forall>j < maxbits + 1. count ! j = int (lengths_of lengths j)"
    by (auto simp del: replicate.simps)
  then have "count = count_table lengths"
    by (intro nth_equalityI) (auto simp: count_table_nth)
  with c(1) show ?thesis by simp
qed

lemma codes_left_spec:
  assumes "0 \<le> codes_left left cs" and "left = 2 ^ j - (int (first_code lengths j) + of_bool (j \<noteq> 0) * int (lengths_of lengths j))"
    and "\<forall>i < length cs. cs ! i = int (lengths_of lengths (Suc j + i))"
    and "i < length cs"
  shows "first_code lengths (Suc j + i) + lengths_of lengths (Suc j + i) \<le> 2 ^ (Suc j + i)"
  using assms
proof (induction left cs arbitrary: i j rule: codes_left.induct)
  case (2 left c cs)
  let ?left = "push_bit 1 left - c"
  have c: "c = int (lengths_of lengths (Suc j))"
    using "2.prems"(3) by force
  have l: "?left = 2 ^ Suc j - (int (first_code lengths (Suc j)) + int (lengths_of lengths (Suc j)))"
    using "2.prems"(2) by (cases j) (simp_all add: c push_bit_eq_mult)
  have pos: "0 \<le> ?left"
    using "2.prems"(1) by (auto simp: Let_def split: if_splits)
  show ?case
  proof (cases i)
    case 0
    have "int (first_code lengths (Suc j) + lengths_of lengths (Suc j)) \<le> int (2 ^ Suc j)"
      using l pos unfolding of_nat_add of_nat_power of_nat_numeral by linarith
    then show ?thesis unfolding 0 of_nat_le_iff by simp
  next
    case (Suc i')
    have "0 \<le> codes_left ?left cs"
      using "2.prems"(1) pos by (simp add: Let_def)
    moreover have "\<forall>i < length cs. cs ! i = int (lengths_of lengths (Suc (Suc j) + i))"
      using "2.prems"(3) by force
    ultimately have "first_code lengths (Suc (Suc j) + i') + lengths_of lengths (Suc (Suc j) + i')
        \<le> 2 ^ (Suc (Suc j) + i')"
      using "2.IH" [of _ "Suc j" i'] pos l "2.prems"(4) Suc by simp
    then show ?thesis
      using Suc by simp
  qed
qed simp

lemma codes_fit:
  assumes "0 \<le> codes_left 1 (drop 1 (count_table lengths))" and "1 \<le> l" and "l \<le> maxbits"
  shows "first_code lengths l + lengths_of lengths l \<le> 2 ^ l"
proof -
  have "\<forall>i < length (drop 1 (count_table lengths)).
      drop 1 (count_table lengths) ! i = int (lengths_of lengths (Suc 0 + i))"
    by (simp add: count_table_nth)
  then show ?thesis
    using codes_left_spec [OF assms(1), of 0 lengths "l - 1"] assms(2,3) by simp
qed

section \<open>The symbol table\<close>

text \<open>Where the symbols of a length start, and the cell of one symbol.\<close>

definition start_of :: "int list \<Rightarrow> nat \<Rightarrow> nat" where
  "start_of lengths l = (\<Sum>i = 1..<l. lengths_of lengths i)"

definition cell_of :: "int list \<Rightarrow> nat \<Rightarrow> nat" where
  "cell_of lengths x =
     (let l = nat (lengths ! x) in start_of lengths l + lengths_of (take x lengths) l)"

lemma start_of_Suc:
  "1 \<le> l \<Longrightarrow> start_of lengths (Suc l) = start_of lengths l + lengths_of lengths l"
  by (simp add: start_of_def)

lemma start_of_mono: "l \<le> m \<Longrightarrow> start_of lengths l \<le> start_of lengths m"
  unfolding start_of_def by (intro sum_mono2) auto

lemma rank_below:
  assumes "x < length lengths"
  shows "lengths_of (take x lengths) (nat (lengths ! x)) < lengths_of lengths (nat (lengths ! x)) \<or>
    lengths ! x < 0"
proof (cases "lengths ! x < 0")
  case False
  have "count_list lengths (lengths ! x) =
      count_list (take x lengths @ lengths ! x # drop (Suc x) lengths) (lengths ! x)"
    using assms by (simp add: id_take_nth_drop [symmetric])
  then show ?thesis
    using False by (simp add: lengths_of_def)
qed simp

lemma count_list_total: "(\<Sum>i = 1..<m. count_list xs (int i)) \<le> length xs"
proof (induction xs)
  case (Cons x xs)
  have "(\<Sum>i = 1..<m. count_list (x # xs) (int i)) =
      (\<Sum>i = 1..<m. count_list xs (int i)) + (\<Sum>i = 1..<m. of_bool (x = int i))"
    by (subst sum.distrib [symmetric]) (rule sum.cong, auto)
  also have "(\<Sum>i = 1..<m. of_bool (x = int i)) \<le> (1 :: nat)"
  proof (cases "0 \<le> x")
    case True
    then have "(\<Sum>i = 1..<m. of_bool (x = int i)) = (\<Sum>i = 1..<m. if i = nat x then 1 else 0 :: nat)"
      by (intro sum.cong) auto
    then show ?thesis by simp
  next
    case False
    then have "(\<Sum>i = 1..<m. of_bool (x = int i)) = (\<Sum>i = 1..<m. 0 :: nat)"
      by (intro sum.cong) auto
    then show ?thesis by simp
  qed
  finally show ?case using Cons by simp
qed simp

lemma cell_bounds:
  assumes "lengths_ok lengths" and "x < length lengths" and "lengths ! x \<noteq> 0"
  shows "1 \<le> nat (lengths ! x)" and "nat (lengths ! x) \<le> maxbits"
    and "start_of lengths (nat (lengths ! x)) \<le> cell_of lengths x"
    and "cell_of lengths x < start_of lengths (Suc (nat (lengths ! x)))"
    and "cell_of lengths x < length lengths"
proof -
  have "lengths ! x \<in> set lengths"
    using assms(2) by simp
  then have l: "0 \<le> lengths ! x" "lengths ! x \<le> int maxbits"
    using assms(1) by (auto simp: lengths_ok_def)
  then show b: "1 \<le> nat (lengths ! x)" "nat (lengths ! x) \<le> maxbits"
    using assms(3) by auto
  show "start_of lengths (nat (lengths ! x)) \<le> cell_of lengths x"
    by (simp add: cell_of_def Let_def)
  show c: "cell_of lengths x < start_of lengths (Suc (nat (lengths ! x)))"
    using rank_below [OF assms(2)] l start_of_Suc [OF b(1)] by (simp add: cell_of_def Let_def)
  have "start_of lengths (Suc (nat (lengths ! x))) \<le> length lengths"
    unfolding start_of_def lengths_of_def by (rule count_list_total)
  with c show "cell_of lengths x < length lengths" by simp
qed

lemma cells_differ:
  assumes "lengths_ok lengths" and "x < y" and "y < length lengths"
    and "lengths ! x \<noteq> 0" and "lengths ! y \<noteq> 0"
  shows "cell_of lengths x \<noteq> cell_of lengths y"
proof -
  have xl: "x < length lengths" using assms by simp
  note cx = cell_bounds [OF assms(1) xl assms(4)] and cy = cell_bounds [OF assms(1,3,5)]
  consider "nat (lengths ! x) < nat (lengths ! y)" | "nat (lengths ! y) < nat (lengths ! x)"
    | "nat (lengths ! x) = nat (lengths ! y)" by linarith
  then show ?thesis
  proof cases
    case 1
    then show ?thesis
      using start_of_mono [OF Suc_leI [OF 1], of lengths] cx(4) cy(3) by linarith
  next
    case 2
    then show ?thesis
      using start_of_mono [OF Suc_leI [OF 2], of lengths] cx(3) cy(4) by linarith
  next
    case 3
    have "take (Suc x) lengths = take x lengths @ [lengths ! x]"
      using xl by (simp add: take_Suc_conv_app_nth)
    then have "take y lengths = take x lengths @ lengths ! x # drop (Suc x) (take y lengths)"
      using assms(2) append_take_drop_id [of "Suc x" "take y lengths"] by simp
    then have "count_list (take y lengths) (lengths ! x) =
        count_list (take x lengths @ lengths ! x # drop (Suc x) (take y lengths)) (lengths ! x)"
      by (rule arg_cong)
    moreover have "lengths ! x = lengths ! y"
      using 3 cx(1) cy(1) by linarith
    ultimately show ?thesis
      using cx(1) by (simp add: cell_of_def lengths_of_def)
  qed
qed

lemma offsets_nth:
  "j \<le> length cs \<Longrightarrow> offsets off cs ! j = off + sum_list (take j cs)"
proof (induction off cs arbitrary: j rule: offsets.induct)
  case (2 off c cs)
  then show ?case by (cases j) simp_all
qed simp

lemma length_offsets [simp]: "length (offsets off cs) = Suc (length cs)"
  by (induction off cs rule: offsets.induct) simp_all

definition offset_table :: "int list \<Rightarrow> int list" where
  "offset_table lengths = 0 # offsets 0 (take (maxbits - 1) (drop 1 (count_table lengths)))"

lemma length_offset_table [simp]: "length (offset_table lengths) = maxbits + 1"
  by (simp add: offset_table_def maxbits_def)

lemma offset_table_nth:
  assumes "1 \<le> l" and "l \<le> maxbits"
  shows "offset_table lengths ! l = int (start_of lengths l)"
proof -
  have "take (l - 1) (take (maxbits - 1) (drop 1 (count_table lengths))) =
      map (\<lambda>j. int (lengths_of lengths j)) [1..<l]"
    using assms by (intro nth_equalityI) (auto simp: count_table_nth maxbits_def)
  then have "offsets 0 (take (maxbits - 1) (drop 1 (count_table lengths))) ! (l - 1) =
      sum_list (map (\<lambda>j. int (lengths_of lengths j)) [1..<l])"
    using assms by (subst offsets_nth) (simp_all add: maxbits_def)
  also have "\<dots> = int (start_of lengths l)"
    by (simp add: start_of_def interv_sum_list_conv_sum_set_nat)
  finally show ?thesis
    using assms(1) by (simp add: offset_table_def nth_Cons')
qed

text \<open>The loop that places symbols, with the symbols before \<open>length pre\<close> placed.\<close>

lemma place_symbols_spec:
  assumes ok: "lengths_ok (pre @ ls)" and cap: "length (pre @ ls) \<le> length table"
    and offs: "length offs = maxbits + 1"
      "\<forall>l. 1 \<le> l \<and> l \<le> maxbits \<longrightarrow>
         offs ! l = int (start_of (pre @ ls) l + lengths_of pre l)"
    and placed: "\<forall>i < length pre. (pre @ ls) ! i \<noteq> 0 \<longrightarrow>
         table ! cell_of (pre @ ls) i = int i"
  shows "\<exists>table'. place_symbols (int (length pre)) ls offs table = Some table' \<and>
    length table' = length table \<and>
    (\<forall>i < length (pre @ ls). (pre @ ls) ! i \<noteq> 0 \<longrightarrow> table' ! cell_of (pre @ ls) i = int i)"
  using assms
proof (induction ls arbitrary: pre offs table)
  case (Cons l ls)
  let ?all = "pre @ l # ls" and ?x = "length pre"
  have all: "?all = (pre @ [l]) @ ls" by simp
  have rank: "lengths_of (pre @ [l]) j = lengths_of pre j + of_bool (l = int j)" for j
    by (simp add: lengths_of_def)
  show ?case
  proof (cases "l = 0")
    case True
    have "\<exists>table'. place_symbols (int (length (pre @ [l]))) ls offs table = Some table' \<and>
        length table' = length table \<and>
        (\<forall>i < length ((pre @ [l]) @ ls). ((pre @ [l]) @ ls) ! i \<noteq> 0 \<longrightarrow>
          table' ! cell_of ((pre @ [l]) @ ls) i = int i)"
    proof (rule Cons.IH)
      show "\<forall>j. 1 \<le> j \<and> j \<le> maxbits \<longrightarrow>
          offs ! j = int (start_of ((pre @ [l]) @ ls) j + lengths_of (pre @ [l]) j)"
        using Cons.prems(4) unfolding rank by (simp add: True)
      show "\<forall>i < length (pre @ [l]). ((pre @ [l]) @ ls) ! i \<noteq> 0 \<longrightarrow>
          table ! cell_of ((pre @ [l]) @ ls) i = int i"
        using Cons.prems(5) True by (auto simp: less_Suc_eq)
    qed (use Cons.prems in auto)
    then show ?thesis
      using True by (simp add: add.commute)
  next
    case False
    have x: "?x < length ?all" "?all ! ?x = l" by simp_all
    let ?l = "nat l" and ?cell = "cell_of ?all ?x"
    have b: "1 \<le> ?l" "?l \<le> maxbits" "?cell < length ?all"
      using cell_bounds [OF Cons.prems(1) x(1)] False x(2) by simp_all
    have cell: "offs ! ?l = int ?cell"
      using Cons.prems(4) b by (simp add: cell_of_def Let_def)
    let ?offs = "offs[?l := offs ! ?l + 1]" and ?table = "table[?cell := int ?x]"
    have step: "place_symbols (int ?x) (l # ls) offs table =
        place_symbols (int (length (pre @ [l]))) ls ?offs ?table"
    proof -
      have "0 \<le> l" and "l < int (length offs)"
        using b(1,2) Cons.prems(3) by linarith+
      then show ?thesis
        using False b(3) cell Cons.prems(2) by (simp add: add.commute)
    qed
    have "\<exists>table'. place_symbols (int (length (pre @ [l]))) ls ?offs ?table = Some table' \<and>
        length table' = length ?table \<and>
        (\<forall>i < length ((pre @ [l]) @ ls). ((pre @ [l]) @ ls) ! i \<noteq> 0 \<longrightarrow>
          table' ! cell_of ((pre @ [l]) @ ls) i = int i)"
    proof (rule Cons.IH)
      show "\<forall>j. 1 \<le> j \<and> j \<le> maxbits \<longrightarrow>
          ?offs ! j = int (start_of ((pre @ [l]) @ ls) j + lengths_of (pre @ [l]) j)"
        using Cons.prems(3,4) b by (auto simp: rank nth_list_update)
      show "\<forall>i < length (pre @ [l]). ((pre @ [l]) @ ls) ! i \<noteq> 0 \<longrightarrow>
          ?table ! cell_of ((pre @ [l]) @ ls) i = int i"
      proof (intro allI impI)
        fix i assume i: "i < length (pre @ [l])" "((pre @ [l]) @ ls) ! i \<noteq> 0"
        show "?table ! cell_of ((pre @ [l]) @ ls) i = int i"
        proof (cases "i = ?x")
          case True
          then show ?thesis using b(3) Cons.prems(2) by simp
        next
          case False
          then have "i < ?x" using i by simp
          moreover have "cell_of ?all i \<noteq> ?cell"
            using cells_differ [OF Cons.prems(1) \<open>i < ?x\<close> x(1)] i(2) \<open>l \<noteq> 0\<close> by simp
          ultimately show ?thesis
            using Cons.prems(5) i(2) by simp
        qed
      qed
    qed (use Cons.prems in auto)
    then show ?thesis
      unfolding step by simp
  qed
qed simp

section \<open>What construct builds\<close>

lemma construct_spec:
  assumes "lengths_ok lengths" and "length lengths \<le> length (hf_symbol h)"
    and "construct h lengths = Some (h', left)" and "0 \<le> left"
    and "x < length lengths" and "lengths ! x \<noteq> 0"
  shows "hf_count h' = count_table lengths" and "hf_symbol h' ! cell_of lengths x = int x"
    and "length (hf_symbol h') = length (hf_symbol h)"
    and "\<And>l. 1 \<le> l \<Longrightarrow> l \<le> maxbits \<Longrightarrow> first_code lengths l + lengths_of lengths l \<le> 2 ^ l"
proof -
  have "count_table lengths ! 0 \<noteq> int (length lengths)"
  proof
    assume "count_table lengths ! 0 = int (length lengths)"
    then have "count_list lengths 0 = length lengths"
      by (simp add: count_table_nth lengths_of_def)
    then have "length (filter ((=) 0) lengths) = length lengths"
      by (simp only: count_list_eq_length_filter)
    then show False
      using length_filter_less [OF nth_mem [OF assms(5)], of "(=) 0"] assms(6) by simp
  qed
  with assms(3) count_lengths_table [OF assms(1)] assms(4)
  have fit: "0 \<le> codes_left 1 (drop 1 (count_table lengths))"
    and pl: "place_symbols 0 lengths (offset_table lengths) (hf_symbol h) = Some (hf_symbol h')"
    and cnt: "hf_count h' = count_table lengths"
    by (auto simp: construct_def Let_def offset_table_def split: if_splits bind_splits)
  have "\<exists>table'. place_symbols (int (length ([] :: int list))) lengths (offset_table lengths) (hf_symbol h) = Some table' \<and>
      length table' = length (hf_symbol h) \<and>
      (\<forall>i < length ([] @ lengths). ([] @ lengths) ! i \<noteq> 0 \<longrightarrow>
         table' ! cell_of ([] @ lengths) i = int i)"
    by (rule place_symbols_spec [of "[]"])
      (use assms(1,2) in \<open>auto simp: offset_table_nth lengths_of_def\<close>)
  with pl assms(5,6) show "hf_symbol h' ! cell_of lengths x = int x"
    and "length (hf_symbol h') = length (hf_symbol h)"
    by auto
  show "hf_count h' = count_table lengths" by (rule cnt)
  show "\<And>l. 1 \<le> l \<Longrightarrow> l \<le> maxbits \<Longrightarrow> first_code lengths l + lengths_of lengths l \<le> 2 ^ l"
    by (rule codes_fit [OF fit])
qed

section \<open>Decoding a canonical code\<close>

lemma length_code_bits [simp]: "length (code_bits v l) = l"
  by (simp add: code_bits_def)

lemma code_bits_drop:
  assumes "1 \<le> j" and "j \<le> l"
  shows "drop (j - 1) (code_bits v l) = bit v (l - j) # drop j (code_bits v l)"
proof -
  have "drop (j - 1) (code_bits v l) = code_bits v l ! (j - 1) # drop (Suc (j - 1)) (code_bits v l)"
    by (rule Cons_nth_drop_Suc [symmetric]) (use assms in simp)
  then show ?thesis
    using assms by (simp add: code_bits_def)
qed

lemma even_or_bit: "int (2 * n) OR of_bool b = int (2 * n) + of_bool b"
  by (cases b) (simp_all add: or_one_eq)

lemma code_prefix:
  fixes v :: nat
  assumes "j \<le> l"
  shows "2 * (v div 2 ^ (l - j + 1)) + of_bool (bit v (l - j)) = v div 2 ^ (l - j)"
proof -
  have "v div 2 ^ (l - j + 1) = v div 2 ^ (l - j) div 2"
    by (simp only: power_add power_one_right div_mult2_eq)
  moreover have "bit v (l - j) = odd (v div 2 ^ (l - j))"
    by (simp add: bit_iff_odd)
  ultimately show ?thesis
    by (cases "odd (v div 2 ^ (l - j))") (simp_all add: odd_two_times_div_two_succ)
qed

lemma scan_code:
  assumes "hf_count h = count_table lengths"
    and "first_code lengths l \<le> v" and "v < first_code lengths l + lengths_of lengths l"
    and "l \<le> maxbits" and "1 \<le> j" and "j \<le> l"
  shows "scan h (drop (j - 1) (code_bits v l) @ rest) (int (2 * (v div 2 ^ (l - j + 1))))
      (int (first_code lengths j)) (int (start_of lengths j)) j =
    Found (int (start_of lengths l + (v - first_code lengths l))) l"
  using assms(5,6)
proof (induction "l - j" arbitrary: j)
  case 0
  then have j: "j = l" by simp
  have code: "int (2 * (v div 2 ^ (l - j + 1))) OR of_bool (bit v (l - j)) = int v"
    using code_prefix [of j l v] j unfolding even_or_bit by (metis add_0 diff_self_eq_0 div_by_1
        of_nat_add of_nat_of_bool order_refl power_0)
  have cnt: "hf_count h ! j = int (lengths_of lengths j)"
    using assms(1,4) j by (simp add: count_table_nth)
  show ?case
    unfolding code_bits_drop [OF 0(2,3)] append_Cons scan.simps Let_def code cnt
    using assms(2-4) j by simp
next
  case (Suc n)
  then have jl: "j < l" by simp
  have code: "int (2 * (v div 2 ^ (l - j + 1))) OR of_bool (bit v (l - j)) = int (v div 2 ^ (l - j))"
    using code_prefix [of j l v] jl unfolding even_or_bit
    by (metis less_imp_le of_nat_add of_nat_of_bool)
  have cnt: "hf_count h ! j = int (lengths_of lengths j)"
    using assms(1,4) jl by (simp add: count_table_nth)
  have past: "first_code lengths j + lengths_of lengths j \<le> v div 2 ^ (l - j)"
    using first_code_grows [OF Suc.prems(1) jl, of lengths] assms(2)
    by (simp add: less_eq_div_iff_mult_less_eq mult.commute)
  have next_first: "push_bit 1 (int (first_code lengths j) + int (lengths_of lengths j)) =
      int (first_code lengths (j + 1))"
    using Suc.prems(1) by simp
  have next_code: "push_bit 1 (int (v div 2 ^ (l - j))) = int (2 * (v div 2 ^ (l - (j + 1) + 1)))"
  proof -
    have "l - (j + 1) + 1 = l - j"
      using jl by simp
    then show ?thesis
      by (simp only: push_bit_eq_mult) simp
  qed
  have next_start: "int (start_of lengths j) + int (lengths_of lengths j) = int (start_of lengths (j + 1))"
    using start_of_Suc [OF Suc.prems(1)] by simp
  have "scan h (drop (j + 1 - 1) (code_bits v l) @ rest) (int (2 * (v div 2 ^ (l - (j + 1) + 1))))
      (int (first_code lengths (j + 1))) (int (start_of lengths (j + 1))) (j + 1) =
    Found (int (start_of lengths l + (v - first_code lengths l))) l"
    by (rule Suc.hyps(1)) (use Suc.hyps(2) jl in auto)
  then show ?case
    unfolding code_bits_drop [OF Suc.prems] append_Cons scan.simps Let_def code cnt
      next_first next_code next_start
    using past jl assms(4) by simp
qed

text \<open>A symbol of the table: its place in the code lengths, with a code.\<close>

definition coded :: "int list \<Rightarrow> nat \<Rightarrow> bool" where
  "coded lengths x \<longleftrightarrow> x < length lengths \<and> lengths ! x \<noteq> 0"

text \<open>A table built from lengths that are not over-subscribed.\<close>

definition table_for :: "int list \<Rightarrow> huffman \<Rightarrow> bool" where
  "table_for lengths h \<longleftrightarrow> lengths_ok lengths \<and>
     (\<exists>h0 left. length lengths \<le> length (hf_symbol h0) \<and>
        construct h0 lengths = Some (h, left) \<and> 0 \<le> left)"

lemma scan_canonical:
  assumes "table_for lengths h" and "coded lengths x"
  shows "scan h (canonical_code lengths x @ rest) 0 0 0 1 =
    Found (int (cell_of lengths x)) (nat (lengths ! x))"
    and "hf_symbol h ! cell_of lengths x = int x"
    and "cell_of lengths x < length (hf_symbol h)"
    and "length (canonical_code lengths x) = nat (lengths ! x)"
    and "1 \<le> nat (lengths ! x)"
proof -
  let ?l = "nat (lengths ! x)"
  obtain h0 left where ok: "lengths_ok lengths" and cap: "length lengths \<le> length (hf_symbol h0)"
    and con: "construct h0 lengths = Some (h, left)" "0 \<le> left"
    using assms(1) by (auto simp: table_for_def)
  have x: "x < length lengths" "lengths ! x \<noteq> 0"
    using assms(2) by (auto simp: coded_def)
  note spec = construct_spec [OF ok cap con x] and b = cell_bounds [OF ok x]
  show "1 \<le> ?l" by (rule b(1))
  let ?v = "code_value lengths x"
  have v: "first_code lengths ?l \<le> ?v" "?v < first_code lengths ?l + lengths_of lengths ?l"
    using rank_below [OF x(1)] b(1) by (auto simp: code_value_def Let_def)
  have "?v < 2 ^ ?l"
    using v(2) spec(4) [OF b(1,2)] by simp
  then have zero: "?v div 2 ^ (?l - 1 + 1) = 0"
    using b(1) by simp
  have cell: "start_of lengths ?l + (?v - first_code lengths ?l) = cell_of lengths x"
    by (simp add: code_value_def cell_of_def Let_def)
  show "scan h (canonical_code lengths x @ rest) 0 0 0 1 = Found (int (cell_of lengths x)) ?l"
    using scan_code [OF spec(1) v b(2) order_refl b(1), of rest]
    unfolding zero cell canonical_code_def by (simp add: start_of_def)
  show "hf_symbol h ! cell_of lengths x = int x" by (rule spec(2))
  show "cell_of lengths x < length (hf_symbol h)"
    using b(5) cap spec(3) by simp
  show "length (canonical_code lengths x) = ?l"
    by (simp add: canonical_code_def)
qed

section \<open>Tables that exist\<close>

lemma construct_exists:
  assumes "lengths_ok lengths" and "length lengths \<le> length (hf_symbol h0)"
    and "coded lengths x" and "0 \<le> codes_left 1 (drop 1 (count_table lengths))"
  shows "\<exists>h. construct h0 lengths = Some (h, codes_left 1 (drop 1 (count_table lengths)))"
proof -
  have "count_list lengths 0 < length lengths"
    using length_filter_less [OF nth_mem, of x lengths "(=) 0"] assms(3)
    by (simp add: count_list_eq_length_filter coded_def)
  then have c0: "count_table lengths ! 0 \<noteq> int (length lengths)"
    by (simp add: count_table_nth lengths_of_def)
  have "\<exists>table'. place_symbols (int (length ([] :: int list))) lengths (offset_table lengths)
        (hf_symbol h0) = Some table' \<and> length table' = length (hf_symbol h0) \<and>
      (\<forall>i < length ([] @ lengths). ([] @ lengths) ! i \<noteq> 0 \<longrightarrow>
         table' ! cell_of ([] @ lengths) i = int i)"
    by (rule place_symbols_spec [of "[]"])
      (use assms(1,2) in \<open>auto simp: offset_table_nth lengths_of_def\<close>)
  then obtain table where "place_symbols 0 lengths (offset_table lengths) (hf_symbol h0) = Some table"
    by auto
  then show ?thesis
    using c0 assms(4) count_lengths_table [OF assms(1)]
    by (auto simp: construct_def Let_def offset_table_def)
qed

lemma table_of_ok:
  assumes "lengths_ok lengths" and "length lengths \<le> n"
    and "coded lengths x" and "0 \<le> codes_left 1 (drop 1 (count_table lengths))"
  shows "table_for lengths (table_of n lengths)"
proof -
  obtain h where "construct (new_huffman n) lengths =
      Some (h, codes_left 1 (drop 1 (count_table lengths)))"
    using construct_exists [OF assms(1) _ assms(3,4), of "new_huffman n"] assms(2)
    by (auto simp: new_huffman_def)
  moreover have "length lengths \<le> length (hf_symbol (new_huffman n))"
    using assms(2) by (simp add: new_huffman_def)
  ultimately show ?thesis
    using assms(1,4) unfolding table_for_def table_of_def by auto
qed

lemma count_list_replicate: "count_list (replicate n x) y = (if x = y then n else 0)"
  by (induction n) auto

lemma fixed_lengths_count:
  "lengths_of fixed_lengths j =
     (if j = 7 then 24 else if j = 8 then 152 else if j = 9 then 112 else 0)"
  by (simp add: lengths_of_def fixed_lengths_def count_list_replicate)

lemma fixed_tables:
  "table_for fixed_lengths fixed_lencode"
  "table_for (replicate maxdcodes 5) fixed_distcode"
proof -
  have "codes_left 1 (drop 1 (count_table fixed_lengths)) = 0"
    by (simp add: count_table_def maxbits_def fixed_lengths_count upt_rec)
  moreover have "lengths_ok fixed_lengths" "coded fixed_lengths 0"
    by (simp_all add: lengths_ok_def fixed_lengths_def coded_def maxbits_def nth_append)
  ultimately show "table_for fixed_lengths fixed_lencode"
    unfolding fixed_lencode_def
    by (intro table_of_ok) (simp_all add: fixed_lengths_def fixlcodes_def)
  have "codes_left 1 (drop 1 (count_table (replicate maxdcodes 5))) = 2048"
    by (simp add: count_table_def lengths_of_def maxbits_def count_list_replicate maxdcodes_def upt_rec)
  moreover have "lengths_ok (replicate maxdcodes 5)" "coded (replicate maxdcodes 5) 0"
    by (simp_all add: lengths_ok_def coded_def maxbits_def maxdcodes_def)
  ultimately show "table_for (replicate maxdcodes 5) fixed_distcode"
    unfolding fixed_distcode_def by (intro table_of_ok) simp_all
qed

end
