(* ===== verification/Puff_Deflate.thy ===== *)
theory Puff_Deflate
  imports Puff_Codes
begin

text \<open>The deflate format as an encoder writes it (RFC 1951): tokens, blocks, and the
  bytes they stand for; and that the routines of src/puff.cpp read them back.\<close>

section \<open>One code\<close>

lemma decode_canonical:
  assumes "table_for lengths h" and "coded lengths x" and "input_ok s"
    and "drop p (src_bits s) = canonical_code lengths x @ rest"
  shows "decode h (seek p s) = Done (int x) (seek (p + length (canonical_code lengths x)) s)"
proof -
  note c = scan_canonical [OF assms(1,2)]
  have "length (canonical_code lengths x @ rest) = 8 * ps_inlen s - p"
    using src_bits_length [OF assms(3)] by (simp add: assms(4) [symmetric])
  then have "p \<le> 8 * ps_inlen s"
    using c(4,5) by simp
  from decode_at [OF assms(3) this, of h] show ?thesis
    using c by (auto simp: assms(4) scan_end_def symbol_at_def)
qed

text \<open>C19: Every table that \<open>construct\<close> accepts decodes every code of its canonical
  Huffman code, as RFC 1951 assigns them, to the symbol the code was given to, takes
  exactly the bits of the code, and leaves the input at the next bit.\<close>
theorem canonical_code_decodes:
  assumes "lengths_ok lengths" and "length lengths \<le> length (hf_symbol h0)"
    and "construct h0 lengths = Some (h, left)" and "0 \<le> left"
    and "x < length lengths" and "lengths ! x \<noteq> 0"
    and "input_ok s" and "drop p (src_bits s) = canonical_code lengths x @ rest"
  shows "decode h (seek p s) = Done (int x) (seek (p + nat (lengths ! x)) s) \<and>
    drop (p + nat (lengths ! x)) (src_bits s) = rest"
proof -
  have t: "table_for lengths h"
    unfolding table_for_def using assms(1-4) by blast
  have c: "coded lengths x"
    using assms(5,6) by (simp add: coded_def)
  note len = scan_canonical(4) [OF t c]
  have "drop (p + nat (lengths ! x)) (src_bits s) = rest"
    using assms(8) len by (metis add.commute append_eq_conv_conj drop_drop)
  then show ?thesis
    using decode_canonical [OF t c assms(7,8)] unfolding len by simp
qed

text \<open>Three symbols of lengths 2, 1 and 2 have the codes 10, 0 and 11.\<close>

theorem canonical_code_decodes_witness:
  "decode (table_of 3 [2, 1, 2]) (seek 3 (puff_start None 0 [0x38] 1)) =
     Done (int 2) (seek (3 + nat ([2, 1, 2] ! 2)) (puff_start None 0 [0x38] 1)) \<and>
   drop (3 + nat ([2, 1, 2] ! 2)) (src_bits (puff_start None 0 [0x38] 1)) = [True, False, False]"
  by (rule canonical_code_decodes [of "[2, 1, 2]" "new_huffman 3" _ 0]) code_simp+

section \<open>Numbers and literals\<close>

definition num_bits :: "nat \<Rightarrow> nat \<Rightarrow> bool list" where
  "num_bits v n = map (bit v) [0..<n]"

lemma length_num_bits [simp]: "length (num_bits v n) = n"
  by (simp add: num_bits_def)

lemma bits_num:
  assumes "input_ok s" and "drop p (src_bits s) = num_bits v n @ rest"
    and "v < 2 ^ n" and "p \<le> 8 * ps_inlen s"
  shows "bits n (seek p s) = Done v (seek (p + n) s)"
proof -
  have "length (num_bits v n @ rest) = 8 * ps_inlen s - p"
    using src_bits_length [OF assms(1)] by (simp add: assms(2) [symmetric])
  then have "p + n \<le> 8 * ps_inlen s"
    using assms(4) by simp
  moreover have "from_bits (num_bits v n) = v"
    using assms(3) by (simp add: num_bits_def horner_sum_bit_eq_take_bit take_bit_nat_eq_self)
  ultimately show ?thesis
    using bits_at [OF assms(1), of p n] by (simp add: assms(2))
qed

text \<open>A state with the bytes \<open>out\<close> written into the destination \<open>buf\<close>.\<close>

definition written :: "bytes \<Rightarrow> bytes \<Rightarrow> puff_state \<Rightarrow> puff_state" where
  "written buf out s =
     s\<lparr>ps_out := Some (out @ drop (length out) buf), ps_outcnt := length out\<rparr>"

definition output_ok :: "bytes \<Rightarrow> puff_state \<Rightarrow> bool" where
  "output_ok buf s \<longleftrightarrow> ps_outlen s \<le> length buf \<and> ps_outlen s + 2 ^ 16 \<le> 2 ^ 32"

lemma written_simps [simp]:
  "ps_in (written buf out s) = ps_in s" "ps_inlen (written buf out s) = ps_inlen s"
  "ps_outlen (written buf out s) = ps_outlen s" "ps_outcnt (written buf out s) = length out"
  "ps_out (written buf out s) = Some (out @ drop (length out) buf)"
  "src_bits (written buf out s) = src_bits s" "input_ok (written buf out s) = input_ok s"
  "ps_incnt (written buf out s) = ps_incnt s"
  "written buf out (written buf out' s) = written buf out s"
  by (simp_all add: written_def src_bits_def input_ok_def)

lemma written_seek: "written buf out (seek p s) = seek p (written buf out s)"
  by (simp add: written_def seek_def Let_def src_bits_def)

lemma put_out_written:
  assumes "length out < ps_outlen s" and "output_ok buf s"
  shows "put_out b (written buf out s) = Done () (written buf (out @ [b]) s)"
proof -
  have l: "length out < length buf" and w: "wrap32 (length out + 1) = length out + 1"
    using assms by (auto simp: output_ok_def wrap32_def)
  then have "(out @ drop (length out) buf)[length out := b] = (out @ [b]) @ drop (length out + 1) buf"
    by (simp add: Cons_nth_drop_Suc [symmetric] list_update_append)
  then show ?thesis
    using l w by (simp add: put_out_def) (simp add: written_def)
qed

text \<open>A match copies byte by byte, so it may run into what it has written itself.\<close>

primrec lz_copy :: "nat \<Rightarrow> nat \<Rightarrow> bytes \<Rightarrow> bytes" where
  "lz_copy dist 0 out = out"
| "lz_copy dist (Suc n) out = lz_copy dist n (out @ [out ! (length out - dist)])"

lemma length_lz_copy [simp]: "length (lz_copy dist n out) = length out + n"
  by (induction n arbitrary: out) simp_all

lemma copy_back_written:
  assumes "1 \<le> dist" and "dist \<le> length out" and "length out + n \<le> ps_outlen s" and "output_ok buf s"
  shows "copy_back dist n (written buf out s) = Done () (written buf (lz_copy dist n out) s)"
  using assms(2,3)
proof (induction n arbitrary: out)
  case (Suc n)
  have "out_at (length out - dist) (written buf out s) =
      Done (out ! (length out - dist)) (written buf out s)"
    using Suc.prems assms(1) by (auto simp: out_at_def nth_append)
  then show ?case
    using Suc put_out_written [of out s buf "out ! (length out - dist)"] assms(4) by simp
qed simp

section \<open>Tokens\<close>

text \<open>A token as it stands in the file: a literal, or a match by its length code, the
  extra bits of the length, its distance code, and the extra bits of the distance.\<close>

datatype token = Lit byte | Copy nat nat nat nat

fun token_bits :: "int list \<Rightarrow> int list \<Rightarrow> token \<Rightarrow> bool list" where
  "token_bits ll dl (Lit b) = canonical_code ll (unat b)"
| "token_bits ll dl (Copy i e j d) =
     canonical_code ll (257 + i) @ num_bits e (lext ! i) @
     canonical_code dl j @ num_bits d (dext ! j)"

fun expand :: "token \<Rightarrow> bytes \<Rightarrow> bytes" where
  "expand (Lit b) out = out @ [b]"
| "expand (Copy i e j d) out = lz_copy (dists ! j + d) (lens ! i + e) out"

text \<open>What an encoder may write after \<open>out\<close>, into a destination of \<open>limit\<close> bytes.\<close>

fun token_ok :: "int list \<Rightarrow> int list \<Rightarrow> nat \<Rightarrow> bytes \<Rightarrow> token \<Rightarrow> bool" where
  "token_ok ll dl limit out (Lit b) \<longleftrightarrow> coded ll (unat b) \<and> length out < limit"
| "token_ok ll dl limit out (Copy i e j d) \<longleftrightarrow>
     coded ll (257 + i) \<and> i < 29 \<and> e < 2 ^ (lext ! i) \<and>
     coded dl j \<and> j < 30 \<and> d < 2 ^ (dext ! j) \<and>
     dists ! j + d \<le> length out \<and> length out + (lens ! i + e) \<le> limit"

fun tokens_ok :: "int list \<Rightarrow> int list \<Rightarrow> nat \<Rightarrow> bytes \<Rightarrow> token list \<Rightarrow> bool" where
  "tokens_ok ll dl limit out [] \<longleftrightarrow> True"
| "tokens_ok ll dl limit out (t # ts) \<longleftrightarrow>
     token_ok ll dl limit out t \<and> tokens_ok ll dl limit (expand t out) ts"

definition tokens_bits :: "int list \<Rightarrow> int list \<Rightarrow> token list \<Rightarrow> bool list" where
  "tokens_bits ll dl ts = concat (map (token_bits ll dl) ts) @ canonical_code ll 256"

lemma src_position:
  assumes "input_ok s" and "drop p (src_bits s) = xs @ rest" and "p \<le> 8 * ps_inlen s"
  shows "drop (p + length xs) (src_bits s) = rest" and "p + length xs \<le> 8 * ps_inlen s"
proof -
  show "drop (p + length xs) (src_bits s) = rest"
    using assms(2) by (metis add.commute append_eq_conv_conj drop_drop)
  have "length (xs @ rest) = 8 * ps_inlen s - p"
    using src_bits_length [OF assms(1)] by (simp add: assms(2) [symmetric])
  then show "p + length xs \<le> 8 * ps_inlen s"
    using assms(3) by simp
qed

lemma lens_bounds: "i < 29 \<Longrightarrow> e < 2 ^ (lext ! i) \<Longrightarrow> lens ! i + e < 2 ^ 16"
proof -
  assume i: "i < 29" and e: "e < 2 ^ (lext ! i)"
  have "list_all2 (\<lambda>l x. l + 2 ^ x < 2 ^ 16) lens lext"
    by (simp add: lens_def lext_def)
  then have "lens ! i + 2 ^ (lext ! i) < 2 ^ 16"
    by (rule list_all2_nthD) (use i in \<open>simp add: lens_def\<close>)
  with e show ?thesis by simp
qed

lemma dists_pos: "j < 30 \<Longrightarrow> 1 \<le> dists ! j"
proof -
  assume j: "j < 30"
  have "list_all (\<lambda>n. 1 \<le> n) dists" and "length dists = 30"
    by (simp_all add: dists_def)
  then show ?thesis
    using j unfolding list_all_length by simp
qed

lemma copy_match_written:
  assumes "1 \<le> dist" and "dist \<le> length out" and "length out + n \<le> ps_outlen s"
    and "output_ok buf s" and "n < 2 ^ 16"
  shows "copy_match dist n (written buf out s) = Done None (written buf (lz_copy dist n out) s)"
proof -
  have "wrap32 (length out + n) = length out + n"
    using assms(3-5) by (auto simp: wrap32_def output_ok_def)
  then show ?thesis
    using assms copy_back_written [OF assms(1-4)] by (simp add: copy_match_def)
qed

lemma codes_body_token:
  assumes tl: "table_for ll lc" and td: "table_for dl dc" and ok: "input_ok s"
    and out: "output_ok buf s" and t: "token_ok ll dl (ps_outlen s) out t"
    and src: "drop p (src_bits s) = token_bits ll dl t @ rest" and p: "p \<le> 8 * ps_inlen s"
  shows "codes_body lc dc (seek p (written buf out s)) =
    Done None (seek (p + length (token_bits ll dl t)) (written buf (expand t out) s))"
proof (cases t)
  case (Lit b)
  have c: "coded ll (unat b)" and room: "length out < ps_outlen s"
    using t Lit by simp_all
  have "uint b < 2 ^ LENGTH(8)"
    by (rule unsigned_less)
  then have "uint b < 256"
    by simp
  moreover have "decode lc (seek p (written buf out s)) =
      Done (int (unat b)) (seek (p + length (canonical_code ll (unat b))) (written buf out s))"
    by (rule decode_canonical [OF tl c]) (use ok src Lit in simp_all)
  ultimately show ?thesis
    using Lit room out put_out_written [of out _ buf b]
    by (simp add: codes_body_def write_literal_def) (simp add: written_seek [symmetric] output_ok_def)
next
  case (Copy i e j d)
  let ?s = "written buf out s"
  let ?c = "canonical_code ll (257 + i)" and ?d = "canonical_code dl j"
  let ?p1 = "p + length ?c"
  let ?p2 = "?p1 + lext ! i"
  let ?p3 = "?p2 + length ?d"
  have tok: "coded ll (257 + i)" "i < 29" "e < 2 ^ (lext ! i)" "coded dl j" "j < 30"
    "d < 2 ^ (dext ! j)" "dists ! j + d \<le> length out"
    "length out + (lens ! i + e) \<le> ps_outlen s"
    using t Copy by simp_all
  have ok': "input_ok ?s" using ok by simp
  have s0: "drop p (src_bits s) =
      ?c @ num_bits e (lext ! i) @ ?d @ num_bits d (dext ! j) @ rest"
    using src Copy by simp
  note s1 = src_position [OF ok s0 p]
  note s2 = src_position [OF ok s1, unfolded length_num_bits]
  note s3 = src_position [OF ok s2]
  have r1: "decode lc (seek p ?s) = Done (int (257 + i)) (seek ?p1 ?s)"
    by (rule decode_canonical [OF tl tok(1) ok']) (use s0 in simp)
  have r2: "bits (lext ! i) (seek ?p1 ?s) = Done e (seek ?p2 ?s)"
    by (rule bits_num [OF ok' _ tok(3)]) (use s1 in simp_all)
  have r3: "decode dc (seek ?p2 ?s) = Done (int j) (seek ?p3 ?s)"
    by (rule decode_canonical [OF td tok(4) ok']) (use s2 in simp)
  have r4: "bits (dext ! j) (seek ?p3 ?s) = Done d (seek (?p3 + dext ! j) ?s)"
    by (rule bits_num [OF ok' _ tok(6)]) (use s3 in simp_all)
  have r5: "copy_match (dists ! j + d) (lens ! i + e) (seek (?p3 + dext ! j) ?s) =
      Done None (seek (?p3 + dext ! j) (written buf (expand t out) s))"
    unfolding written_seek [symmetric]
    using copy_match_written [of "dists ! j + d" out "lens ! i + e" "seek (?p3 + dext ! j) s" buf]
      tok out dists_pos [OF tok(5)] lens_bounds [OF tok(2,3)] Copy
    by (simp add: output_ok_def)
  have "int (257 + i) - 257 = int i" by simp
  then show ?thesis
    using tok(2,5) Copy r5
    by (simp add: codes_body_def r1 read_match_def Let_def r2 r3 r4) (simp add: add.assoc)
qed

lemma codes_tokens:
  assumes "table_for ll lc" and "table_for dl dc" and "input_ok s" and "output_ok buf s"
    and "tokens_ok ll dl (ps_outlen s) out ts" and "coded ll 256"
    and "drop p (src_bits s) = tokens_bits ll dl ts @ rest" and "p \<le> 8 * ps_inlen s"
  shows "codes lc dc (seek p (written buf out s)) =
    Done 0 (seek (p + length (tokens_bits ll dl ts)) (written buf (fold expand ts out) s))"
  using assms(5,7,8)
proof (induction ts arbitrary: out p)
  case Nil
  have "decode lc (seek p (written buf out s)) =
      Done (int 256) (seek (p + length (canonical_code ll 256)) (written buf out s))"
    by (rule decode_canonical [OF assms(1,6)]) (use assms(3) Nil in \<open>simp_all add: tokens_bits_def\<close>)
  then show ?case
    by (subst codes.simps) (simp add: codes_body_def tokens_bits_def)
next
  case (Cons t ts)
  have src: "drop p (src_bits s) = token_bits ll dl t @ tokens_bits ll dl ts @ rest"
    using Cons.prems(2) by (simp add: tokens_bits_def)
  note pos = src_position [OF assms(3) src Cons.prems(3)]
  have "codes_body lc dc (seek p (written buf out s)) =
      Done None (seek (p + length (token_bits ll dl t)) (written buf (expand t out) s))"
    by (rule codes_body_token [OF assms(1-4) _ src Cons.prems(3)]) (use Cons.prems in simp)
  then have "codes lc dc (seek p (written buf out s)) =
      codes lc dc (seek (p + length (token_bits ll dl t)) (written buf (expand t out) s))"
    by (subst codes.simps) simp
  also have "\<dots> = Done 0 (seek (p + length (token_bits ll dl t) + length (tokens_bits ll dl ts))
      (written buf (fold expand ts (expand t out)) s))"
    by (rule Cons.IH) (use Cons.prems pos in simp_all)
  finally show ?case
    by (simp add: tokens_bits_def add.assoc)
qed

text \<open>Stored and fixed blocks of the deflate format, as \<open>stored\<close> and \<open>fixed\<close> of
  src/puff.cpp read them.\<close>

section \<open>Bytes in a list of bits\<close>

lemma byte_bits_inject: "byte_bits a = byte_bits b \<longleftrightarrow> a = b"
  by (metis from_byte_bits word_unat_eq_iff)

lemma bytes_bits_prefix:
  assumes "bytes_bits xs = bytes_bits ys @ rest"
  shows "take (length ys) xs = ys"
  using assms
proof (induction ys arbitrary: xs)
  case (Cons y ys)
  then obtain x xs' where xs: "xs = x # xs'"
    by (cases xs) (auto dest: arg_cong [of _ _ length])
  have "byte_bits x @ bytes_bits xs' = byte_bits y @ bytes_bits ys @ rest"
    using Cons.prems xs by simp
  then have "byte_bits x = byte_bits y" "bytes_bits xs' = bytes_bits ys @ rest"
    by (simp_all add: append_eq_append_conv)
  then show ?case
    using Cons.IH xs by (simp add: byte_bits_inject)
qed simp

lemma src_bytes:
  assumes "input_ok s" and "drop (8 * k) (src_bits s) = bytes_bits ys @ rest" and "k \<le> ps_inlen s"
  shows "take (length ys) (drop k (ps_in s)) = ys" and "k + length ys \<le> ps_inlen s"
    and "drop (8 * (k + length ys)) (src_bits s) = rest"
proof -
  have "bytes_bits (drop k (take (ps_inlen s) (ps_in s))) = bytes_bits ys @ rest"
    using assms(2) by (simp add: src_bits_def drop_bytes_bits)
  from bytes_bits_prefix [OF this]
  have t: "take (length ys) (drop k (take (ps_inlen s) (ps_in s))) = ys" .
  note pos = src_position [OF assms(1,2), unfolded length_bytes_bits]
  show le: "k + length ys \<le> ps_inlen s"
    using pos(2) assms(3) by simp
  then have "min (length ys) (ps_inlen s - k) = length ys"
    by simp
  then show "take (length ys) (drop k (ps_in s)) = ys"
    using t unfolding drop_take take_take by simp
  show "drop (8 * (k + length ys)) (src_bits s) = rest"
    using pos(1) assms(3) by (simp add: distrib_left)
qed

section \<open>Stored blocks\<close>

text \<open>The length of a stored block and its complement, low byte first.\<close>

definition stored_head :: "nat \<Rightarrow> bytes" where
  "stored_head n =
     [word_of_nat n, word_of_nat (n div 256), NOT (word_of_nat n), NOT (word_of_nat (n div 256))]"

lemma stored_len:
  assumes "n < 2 ^ 16"
  shows "(ucast (word_of_nat n :: byte) :: u32) OR push_bit 8 (ucast (word_of_nat (n div 256) :: byte)) =
    word_of_nat n"
proof (rule bit_word_eqI)
  fix i :: nat assume i: "i < LENGTH(32)"
  have hi: "i < 16" if "bit n i"
  proof (rule ccontr)
    assume "\<not> i < 16"
    then have "n < 2 ^ i"
      using assms by (meson less_le_trans one_le_numeral power_increasing not_less)
    with that show False by (simp add: bit_iff_odd)
  qed
  have d: "n div 256 = drop_bit 8 n"
    by (simp add: drop_bit_eq_div)
  show "bit ((ucast (word_of_nat n :: byte) :: u32) OR push_bit 8 (ucast (word_of_nat (n div 256) :: byte))) i =
      bit (word_of_nat n :: u32) i"
    using i hi
    by (auto simp: d bit_or_iff bit_push_bit_iff bit_ucast_iff bit_of_nat_iff bit_drop_bit_eq)
qed

lemma stored_complement:
  assumes "n < 2 ^ 16"
  shows "(ucast (NOT (word_of_nat n :: byte)) :: u32) = NOT (word_of_nat n) AND 0xff"
    and "(ucast (NOT (word_of_nat (n div 256) :: byte)) :: u32) =
      drop_bit 8 (NOT (word_of_nat n)) AND 0xff"
proof -
  have m: "(0xff :: u32) = mask 8"
    by (simp add: mask_eq_exp_minus_1)
  have d: "n div 256 = drop_bit 8 n"
    by (simp add: drop_bit_eq_div)
  show "(ucast (NOT (word_of_nat n :: byte)) :: u32) = NOT (word_of_nat n) AND 0xff"
    unfolding m by (rule bit_word_eqI)
      (auto simp: bit_and_iff bit_mask_iff bit_not_iff bit_ucast_iff bit_of_nat_iff)
  show "(ucast (NOT (word_of_nat (n div 256) :: byte)) :: u32) =
      drop_bit 8 (NOT (word_of_nat n)) AND 0xff"
    unfolding m d by (rule bit_word_eqI)
      (auto simp: bit_and_iff bit_mask_iff bit_not_iff bit_ucast_iff bit_of_nat_iff bit_drop_bit_eq)
qed

lemma copy_in_written:
  assumes "take (length data) (drop (ps_incnt s) (ps_in s)) = data"
    and "length out + length data \<le> ps_outlen s" and "output_ok buf s"
  shows "copy_in (length data) (written buf out s) =
    Done () (written buf (out @ data) (s\<lparr>ps_incnt := ps_incnt s + length data\<rparr>))"
  using assms
proof (induction data arbitrary: out s)
  case Nil
  then show ?case by (simp add: written_def)
next
  case (Cons b data)
  have l: "ps_incnt s < length (ps_in s)"
    using Cons.prems(1) by (metis drop_eq_Nil list.distinct(1) not_less take_Nil)
  have bs: "ps_in s ! ps_incnt s = b"
    "take (length data) (drop (Suc (ps_incnt s)) (ps_in s)) = data"
    using Cons.prems(1) Cons_nth_drop_Suc [OF l, symmetric] by simp_all
  let ?s = "s\<lparr>ps_incnt := Suc (ps_incnt s)\<rparr>"
  have r: "raw_byte (written buf out s) = Done b (written buf out ?s)"
    using l bs by (simp add: raw_byte_def) (simp add: written_def)
  have w: "put_out b (written buf out ?s) = Done () (written buf (out @ [b]) ?s)"
    by (rule put_out_written) (use Cons.prems in \<open>simp_all add: output_ok_def\<close>)
  have "copy_in (length data) (written buf (out @ [b]) ?s) =
      Done () (written buf ((out @ [b]) @ data) (?s\<lparr>ps_incnt := ps_incnt ?s + length data\<rparr>))"
    by (rule Cons.IH) (use Cons.prems bs in \<open>simp_all add: output_ok_def\<close>)
  then show ?case
    by (simp add: r w)
qed

text \<open>Inputs whose counters do not wrap.\<close>

definition input_small :: "puff_state \<Rightarrow> bool" where
  "input_small s \<longleftrightarrow> input_ok s \<and> ps_inlen s + 2 ^ 17 \<le> 2 ^ 32"

lemma raw_byte_at:
  assumes "n < length (ps_in s)"
  shows "raw_byte (s\<lparr>ps_incnt := n\<rparr>) = Done (ps_in s ! n) (s\<lparr>ps_incnt := Suc n\<rparr>)"
  using assms by (simp add: raw_byte_def)

lemma seek_byte: "seek (8 * k) s = s\<lparr>ps_incnt := k, ps_bitcnt := 0, ps_bitbuf := 0\<rparr>"
proof -
  have "(8 * k + 7) div 8 = k" by simp
  then show ?thesis by (simp add: seek_def Let_def)
qed

lemma stored_block:
  assumes small: "input_small s" and out: "output_ok buf s" and p: "p \<le> 8 * ps_inlen s"
    and n: "length data < 2 ^ 16" and room: "length out + length data \<le> ps_outlen s"
    and k: "k = (p + 7) div 8"
    and src: "drop (8 * k) (src_bits s) = bytes_bits (stored_head (length data) @ data) @ rest"
  shows "stored (seek p (written buf out s)) =
    Done 0 (seek (8 * (k + 4 + length data)) (written buf (out @ data) s))"
proof -
  let ?n = "length data"
  have ok: "input_ok s" using small by (simp add: input_small_def)
  have kin: "k \<le> ps_inlen s" using p k by linarith
  have h4: "length (stored_head ?n) = 4" by (simp add: stored_head_def)
  note sb = src_bytes [OF ok src kin]
  have in_le: "k + 4 + ?n \<le> length (ps_in s)"
    using sb(2) ok h4 by (simp add: input_ok_def)
  have drops: "drop k (ps_in s) = stored_head ?n @ data @ drop (k + 4 + ?n) (ps_in s)"
    using sb(1) h4 append_take_drop_id [of "4 + ?n" "drop k (ps_in s)"]
    by (simp add: add.commute add.left_commute)
  have bytes: "ps_in s ! (k + j) = stored_head ?n ! j" if "j < 4" for j
  proof -
    have "ps_in s ! (k + j) = drop k (ps_in s) ! j"
      using in_le by simp
    then show ?thesis
      using that h4 by (simp add: drops nth_append)
  qed
  have b: "ps_in s ! k = word_of_nat ?n" "ps_in s ! Suc k = word_of_nat (?n div 256)"
    "ps_in s ! Suc (Suc k) = NOT (word_of_nat ?n)"
    "ps_in s ! Suc (Suc (Suc k)) = NOT (word_of_nat (?n div 256))"
    using bytes [of 0] bytes [of "Suc 0"] bytes [of "Suc (Suc 0)"] bytes [of "Suc (Suc (Suc 0))"]
    by (simp_all add: stored_head_def)
  define t where "t = (written buf out s)\<lparr>ps_bitcnt := 0, ps_bitbuf := 0\<rparr>"
  have t: "ps_in t = ps_in s" "ps_inlen t = ps_inlen s" "ps_outlen t = ps_outlen s"
    "ps_outcnt t = length out" "ps_out t \<noteq> None"
    by (simp_all add: t_def)
  have start: "(seek p (written buf out s))\<lparr>ps_bitbuf := 0, ps_bitcnt := 0\<rparr> = t\<lparr>ps_incnt := k\<rparr>"
    by (simp add: t_def seek_def Let_def k)
  have e4: "Suc (Suc (Suc (Suc k))) = k + 4" by simp
  have r: "raw_byte (t\<lparr>ps_incnt := k\<rparr>) = Done (ps_in s ! k) (t\<lparr>ps_incnt := Suc k\<rparr>)"
    "raw_byte (t\<lparr>ps_incnt := Suc k\<rparr>) = Done (ps_in s ! Suc k) (t\<lparr>ps_incnt := Suc (Suc k)\<rparr>)"
    "raw_byte (t\<lparr>ps_incnt := Suc (Suc k)\<rparr>) =
       Done (ps_in s ! Suc (Suc k)) (t\<lparr>ps_incnt := Suc (Suc (Suc k))\<rparr>)"
    "raw_byte (t\<lparr>ps_incnt := Suc (Suc (Suc k))\<rparr>) =
       Done (ps_in s ! Suc (Suc (Suc k))) (t\<lparr>ps_incnt := k + 4\<rparr>)"
    using raw_byte_at [of k t] raw_byte_at [of "Suc k" t] raw_byte_at [of "Suc (Suc k)" t]
      raw_byte_at [of "Suc (Suc (Suc k))" t] in_le
    unfolding t e4 by simp_all
  have w: "wrap32 (k + 4) = k + 4" "wrap32 (k + 4 + ?n) = k + 4 + ?n"
    "wrap32 (length out + ?n) = length out + ?n"
    using kin small n out room by (auto simp: wrap32_def input_small_def output_ok_def)
  have un: "unat (word_of_nat ?n :: u32) = ?n"
    using n by (simp add: unsigned_of_nat take_bit_nat_eq_self)
  let ?u = "s\<lparr>ps_bitcnt := 0, ps_bitbuf := 0, ps_incnt := k + 4\<rparr>"
  have data: "take ?n (drop (k + 4) (ps_in s)) = data"
  proof -
    have "drop (k + 4) (ps_in s) = drop 4 (drop k (ps_in s))" by (simp add: add.commute)
    then show ?thesis using h4 by (simp add: drops)
  qed
  have "copy_in ?n (written buf out ?u) =
      Done () (written buf (out @ data) (?u\<lparr>ps_incnt := ps_incnt ?u + ?n\<rparr>))"
    by (rule copy_in_written) (use data room out in \<open>simp_all add: output_ok_def\<close>)
  moreover have "written buf out ?u = t\<lparr>ps_incnt := k + 4\<rparr>"
    by (simp add: t_def written_def)
  moreover have "written buf (out @ data) (?u\<lparr>ps_incnt := ps_incnt ?u + ?n\<rparr>) =
      seek (8 * (k + 4 + ?n)) (written buf (out @ data) s)"
    unfolding seek_byte by (simp add: written_def)
  ultimately have cp: "copy_in ?n (t\<lparr>ps_incnt := k + 4\<rparr>) =
      Done () (seek (8 * (k + 4 + ?n)) (written buf (out @ data) s))"
    by simp
  have fits: "\<not> ps_inlen s < k + 4" "\<not> ps_inlen s < k + 4 + ?n" "\<not> ps_outlen s < length out + ?n"
    using sb(2) h4 room by simp_all
  show ?thesis
    unfolding stored_def Let_def start
    using w fits t stored_complement [OF n, folded stored_len [OF n]]
    by (simp add: r b un [folded stored_len [OF n]] cp)
qed

section \<open>The tables of a dynamic block\<close>

text \<open>The description of the Huffman tables at the head of a dynamic block, as an
  encoder writes it, and \<open>dynamic\<close> of src/puff.cpp reading it.\<close>

section \<open>Sets of codes that are accepted\<close>

text \<open>No codes at all, a complete set, or an incomplete set of one code.\<close>

definition code_set_ok :: "int list \<Rightarrow> bool" where
  "code_set_ok ls \<longleftrightarrow> lengths_ok ls \<and>
     (count_list ls 0 = length ls \<or>
      (let left = codes_left 1 (drop 1 (count_table ls)) in
       left = 0 \<or> left > 0 \<and> length ls = count_list ls 0 + 1))"

lemma some_coded:
  assumes "count_list ls 0 \<noteq> length ls"
  obtains x where "coded ls x"
proof (cases "\<exists>x. coded ls x")
  case False
  then have "\<forall>l \<in> set ls. 0 = l"
    by (auto simp: coded_def in_set_conv_nth)
  then have "filter ((=) 0) ls = ls" by (simp add: filter_id_conv)
  with assms have False by (simp add: count_list_eq_length_filter)
  then show ?thesis ..
qed (use that in blast)

lemma construct_accepts:
  assumes "code_set_ok ls" and "length ls \<le> length (hf_symbol h0)"
  shows "\<exists>h left. construct h0 ls = Some (h, left) \<and> 0 \<le> left \<and>
    (left = 0 \<or> int (length ls) - hf_count h ! 0 = 1)"
proof (cases "count_list ls 0 = length ls")
  case True
  then have "count_table ls ! 0 = int (length ls)"
    by (simp add: count_table_nth lengths_of_def)
  then show ?thesis
    using assms(1) count_lengths_table [of ls]
    by (simp add: construct_def code_set_ok_def)
next
  case False
  have ok: "lengths_ok ls" and left: "0 \<le> codes_left 1 (drop 1 (count_table ls))"
    "codes_left 1 (drop 1 (count_table ls)) = 0 \<or> length ls = count_list ls 0 + 1"
    using assms(1) False by (auto simp: code_set_ok_def Let_def)
  obtain x where x: "coded ls x"
    by (rule some_coded [OF False])
  obtain h where h: "construct h0 ls = Some (h, codes_left 1 (drop 1 (count_table ls)))"
    using construct_exists [OF ok assms(2) x left(1)] by blast
  have "hf_count h = count_table ls"
    using construct_spec(1) [OF ok assms(2) h left(1)] x unfolding coded_def by blast
  then have "hf_count h ! 0 = int (count_list ls 0)"
    by (simp add: count_table_nth lengths_of_def)
  with h left show ?thesis by auto
qed

section \<open>Code lengths of the code lengths\<close>

lemma read_code_lengths_at:
  assumes "input_ok s" and "p \<le> 8 * ps_inlen s"
    and "drop p (src_bits s) = concat (map (\<lambda>i. num_bits (nat (cl ! i)) 3) is) @ rest"
    and "\<forall>i \<in> set is. 0 \<le> cl ! i \<and> cl ! i < 8"
  shows "\<exists>arr'. read_code_lengths is arr (seek p s) = Done arr' (seek (p + 3 * length is) s) \<and>
    length arr' = length arr \<and>
    (\<forall>j < length arr. arr' ! j = (if j \<in> set is then cl ! j else arr ! j))"
  using assms(2-4)
proof (induction "is" arbitrary: arr p)
  case (Cons i "is")
  have src: "drop p (src_bits s) = num_bits (nat (cl ! i)) 3 @
      concat (map (\<lambda>i. num_bits (nat (cl ! i)) 3) is) @ rest"
    using Cons.prems(2) by simp
  note pos = src_position [OF assms(1) src Cons.prems(1), unfolded length_num_bits]
  have r: "bits 3 (seek p s) = Done (nat (cl ! i)) (seek (p + 3) s)"
    by (rule bits_num [OF assms(1) src _ Cons.prems(1)]) (use Cons.prems(3) in auto)
  have "\<exists>arr'. read_code_lengths is (arr[i := cl ! i]) (seek (p + 3) s) =
        Done arr' (seek (p + 3 + 3 * length is) s) \<and> length arr' = length (arr[i := cl ! i]) \<and>
      (\<forall>j < length (arr[i := cl ! i]).
         arr' ! j = (if j \<in> set is then cl ! j else arr[i := cl ! i] ! j))"
    by (rule Cons.IH) (use pos Cons.prems(3) in auto)
  then show ?case
    using Cons.prems(3) by (auto simp: r nth_list_update add.assoc)
qed simp

lemma clear_lengths_nth:
  "length (clear_lengths is arr) = length arr"
  "j < length arr \<Longrightarrow> clear_lengths is arr ! j = (if j \<in> set is then 0 else arr ! j)"
  by (induction "is" arr rule: clear_lengths.induct) (auto simp: nth_list_update)

lemma set_order: "set order = {0..<19}"
proof -
  have "set order = set [0..<19]"
    by code_simp
  then show ?thesis by simp
qed

section \<open>Code lengths\<close>

text \<open>An instruction of the list of code lengths: a length, or how often to repeat
  the last length or zero.\<close>

datatype instr = Length nat | Again nat | Zeros nat | More_Zeros nat

fun instr_bits :: "int list \<Rightarrow> instr \<Rightarrow> bool list" where
  "instr_bits cl (Length l) = canonical_code cl l"
| "instr_bits cl (Again n) = canonical_code cl 16 @ num_bits (n - 3) 2"
| "instr_bits cl (Zeros n) = canonical_code cl 17 @ num_bits (n - 3) 3"
| "instr_bits cl (More_Zeros n) = canonical_code cl 18 @ num_bits (n - 11) 7"

fun run_instr :: "instr \<Rightarrow> int list \<Rightarrow> int list" where
  "run_instr (Length l) ls = ls @ [int l]"
| "run_instr (Again n) ls = ls @ replicate n (last ls)"
| "run_instr (Zeros n) ls = ls @ replicate n 0"
| "run_instr (More_Zeros n) ls = ls @ replicate n 0"

fun instr_ok :: "int list \<Rightarrow> nat \<Rightarrow> int list \<Rightarrow> instr \<Rightarrow> bool" where
  "instr_ok cl lim ls (Length l) \<longleftrightarrow> coded cl l \<and> l < 16 \<and> length ls < lim"
| "instr_ok cl lim ls (Again n) \<longleftrightarrow>
     coded cl 16 \<and> ls \<noteq> [] \<and> 3 \<le> n \<and> n \<le> 6 \<and> length ls + n \<le> lim"
| "instr_ok cl lim ls (Zeros n) \<longleftrightarrow> coded cl 17 \<and> 3 \<le> n \<and> n \<le> 10 \<and> length ls + n \<le> lim"
| "instr_ok cl lim ls (More_Zeros n) \<longleftrightarrow>
     coded cl 18 \<and> 11 \<le> n \<and> n \<le> 138 \<and> length ls + n \<le> lim"

fun instrs_ok :: "int list \<Rightarrow> nat \<Rightarrow> int list \<Rightarrow> instr list \<Rightarrow> bool" where
  "instrs_ok cl lim ls [] \<longleftrightarrow> length ls = lim"
| "instrs_ok cl lim ls (i # is) \<longleftrightarrow> instr_ok cl lim ls i \<and> instrs_ok cl lim (run_instr i ls) is"

lemma length_repeat_length [simp]: "length (repeat_length n index len arr) = length arr"
  by (induction n arbitrary: index arr) simp_all

lemma repeat_length_take:
  "index + n \<le> length arr \<Longrightarrow>
     take (index + n) (repeat_length n index len arr) = take index arr @ replicate n len"
proof (induction n arbitrary: index arr)
  case (Suc n)
  have "take (Suc index + n) (repeat_length n (Suc index) len (arr[index := len])) =
      take (Suc index) (arr[index := len]) @ replicate n len"
    using Suc.prems by (intro Suc.IH) simp
  then show ?case
    using Suc.prems by (simp add: take_Suc_conv_app_nth)
qed simp

lemma read_length_at:
  assumes tab: "table_for cl h" and ok: "input_ok s" and p: "p \<le> 8 * ps_inlen s"
    and i: "instr_ok cl lim ls i" and arr: "take (length ls) arr = ls" "lim \<le> length arr"
    and src: "drop p (src_bits s) = instr_bits cl i @ rest"
  shows "\<exists>arr'. read_length h lim (length ls) arr (seek p s) =
      Done (Inr (length (run_instr i ls), arr')) (seek (p + length (instr_bits cl i)) s) \<and>
    take (length (run_instr i ls)) arr' = run_instr i ls \<and> length arr' = length arr"
proof (cases i)
  case (Length l)
  have "decode h (seek p s) = Done (int l) (seek (p + length (canonical_code cl l)) s)"
    by (rule decode_canonical [OF tab _ ok]) (use i src Length in simp_all)
  then show ?thesis
    using i arr Length by (simp add: read_length_def take_Suc_conv_app_nth)
next
  case (Again n)
  let ?q = "p + length (canonical_code cl 16)"
  have src': "drop p (src_bits s) = canonical_code cl 16 @ num_bits (n - 3) 2 @ rest"
    using src Again by simp
  note pos = src_position [OF ok src' p]
  have d: "decode h (seek p s) = Done (int 16) (seek ?q s)"
    by (rule decode_canonical [OF tab _ ok src']) (use i Again in simp)
  have r: "bits 2 (seek ?q s) = Done (n - 3) (seek (?q + 2) s)"
    by (rule bits_num [OF ok pos(1) _ pos(2)]) (use i Again in auto)
  have l: "arr ! (length ls - 1) = last ls"
    using i Again arr by (metis Suc_pred' bot_nat_0.not_eq_extremum diff_Suc_1 instr_ok.simps(2)
        last_conv_nth length_0_conv lessI nth_take One_nat_def)
  show ?thesis
    using i arr Again d r l repeat_length_take [of "length ls" n arr "last ls"]
    by (simp add: read_length_def fill_lengths_def add.assoc)
next
  case (Zeros n)
  let ?q = "p + length (canonical_code cl 17)"
  have src': "drop p (src_bits s) = canonical_code cl 17 @ num_bits (n - 3) 3 @ rest"
    using src Zeros by simp
  note pos = src_position [OF ok src' p]
  have d: "decode h (seek p s) = Done (int 17) (seek ?q s)"
    by (rule decode_canonical [OF tab _ ok src']) (use i Zeros in simp)
  have r: "bits 3 (seek ?q s) = Done (n - 3) (seek (?q + 3) s)"
    by (rule bits_num [OF ok pos(1) _ pos(2)]) (use i Zeros in auto)
  show ?thesis
    using i arr Zeros d r repeat_length_take [of "length ls" n arr 0]
    by (simp add: read_length_def fill_lengths_def add.assoc)
next
  case (More_Zeros n)
  let ?q = "p + length (canonical_code cl 18)"
  have src': "drop p (src_bits s) = canonical_code cl 18 @ num_bits (n - 11) 7 @ rest"
    using src More_Zeros by simp
  note pos = src_position [OF ok src' p]
  have d: "decode h (seek p s) = Done (int 18) (seek ?q s)"
    by (rule decode_canonical [OF tab _ ok src']) (use i More_Zeros in simp)
  have r: "bits 7 (seek ?q s) = Done (n - 11) (seek (?q + 7) s)"
    by (rule bits_num [OF ok pos(1) _ pos(2)]) (use i More_Zeros in auto)
  show ?thesis
    using i arr More_Zeros d r repeat_length_take [of "length ls" n arr 0]
    by (simp add: read_length_def fill_lengths_def add.assoc)
qed

lemma instr_advances: "instr_ok cl lim ls i \<Longrightarrow> length ls < lim"
  by (cases i) auto

lemma read_lengths_at:
  assumes tab: "table_for cl h" and ok: "input_ok s"
    and "p \<le> 8 * ps_inlen s" and "instrs_ok cl lim ls is"
    and "take (length ls) arr = ls" and "lim \<le> length arr"
    and "drop p (src_bits s) = concat (map (instr_bits cl) is) @ rest"
  shows "\<exists>arr'. read_lengths h lim (length ls) arr (seek p s) =
      Done (Inr arr') (seek (p + length (concat (map (instr_bits cl) is))) s) \<and>
    take lim arr' = fold run_instr is ls"
  using assms(3-7)
proof (induction "is" arbitrary: ls arr p)
  case Nil
  then show ?case by (subst read_lengths.simps) simp
next
  case (Cons i "is")
  have src: "drop p (src_bits s) = instr_bits cl i @ concat (map (instr_bits cl) is) @ rest"
    using Cons.prems(5) by simp
  note pos = src_position [OF ok src Cons.prems(1)]
  obtain arr1 where step: "read_length h lim (length ls) arr (seek p s) =
      Done (Inr (length (run_instr i ls), arr1)) (seek (p + length (instr_bits cl i)) s)"
    and arr1: "take (length (run_instr i ls)) arr1 = run_instr i ls" "length arr1 = length arr"
    using read_length_at [OF tab ok Cons.prems(1) _ Cons.prems(3,4) src] Cons.prems(2) by auto
  have "\<exists>arr'. read_lengths h lim (length (run_instr i ls)) arr1 (seek (p + length (instr_bits cl i)) s) =
        Done (Inr arr') (seek (p + length (instr_bits cl i) + length (concat (map (instr_bits cl) is))) s) \<and>
      take lim arr' = fold run_instr is (run_instr i ls)"
    by (rule Cons.IH) (use Cons.prems arr1 pos in auto)
  then show ?case
    using instr_advances Cons.prems(2)
    by (subst read_lengths.simps) (fastforce simp: step add.assoc)
qed

end
