(* ===== verification/Puff_Roundtrip.thy ===== *)
theory Puff_Roundtrip
  imports Puff_Deflate
begin

text \<open>Whole deflate streams: any sequence of stored, fixed and dynamic blocks an
  encoder may write is read back by \<open>puff\<close>.\<close>

section \<open>The head of a dynamic block\<close>

record dyn_header =
  dh_code :: "int list"
  dh_ncode :: nat
  dh_nlen :: nat
  dh_ndist :: nat
  dh_instrs :: "instr list"

definition dh_lengths :: "dyn_header \<Rightarrow> int list" where
  "dh_lengths d = fold run_instr (dh_instrs d) []"

definition dh_lit :: "dyn_header \<Rightarrow> int list" where
  "dh_lit d = take (dh_nlen d) (dh_lengths d)"

definition dh_dist :: "dyn_header \<Rightarrow> int list" where
  "dh_dist d = drop (dh_nlen d) (dh_lengths d)"

definition code_set_bits :: "dyn_header \<Rightarrow> bool list" where
  "code_set_bits d =
     concat (map (\<lambda>i. num_bits (nat (dh_code d ! i)) 3) (take (dh_ncode d) order))"

definition dyn_bits :: "dyn_header \<Rightarrow> bool list" where
  "dyn_bits d =
     num_bits (dh_nlen d - 257) 5 @ num_bits (dh_ndist d - 1) 5 @ num_bits (dh_ncode d - 4) 4 @
     code_set_bits d @ concat (map (instr_bits (dh_code d)) (dh_instrs d))"

definition header_ok :: "dyn_header \<Rightarrow> bool" where
  "header_ok d \<longleftrightarrow>
     length (dh_code d) = 19 \<and> (\<forall>l \<in> set (dh_code d). 0 \<le> l \<and> l < 8) \<and>
     4 \<le> dh_ncode d \<and> dh_ncode d \<le> 19 \<and>
     (\<forall>i \<in> set (drop (dh_ncode d) order). dh_code d ! i = 0) \<and>
     count_list (dh_code d) 0 < 19 \<and> codes_left 1 (drop 1 (count_table (dh_code d))) = 0 \<and>
     257 \<le> dh_nlen d \<and> dh_nlen d \<le> 286 \<and> 1 \<le> dh_ndist d \<and> dh_ndist d \<le> 30 \<and>
     instrs_ok (dh_code d) (dh_nlen d + dh_ndist d) [] (dh_instrs d) \<and>
     code_set_ok (dh_lit d) \<and> code_set_ok (dh_dist d)"

lemma length_code_set_bits: "dh_ncode d \<le> 19 \<Longrightarrow> length (code_set_bits d) = 3 * dh_ncode d"
proof -
  assume "dh_ncode d \<le> 19"
  then have "length (take (dh_ncode d) order) = dh_ncode d"
    by (simp add: order_def)
  moreover have "length (concat (map (\<lambda>i. num_bits (f i) 3) is)) = 3 * length is"
    for f :: "nat \<Rightarrow> nat" and "is"
    by (induction "is") simp_all
  ultimately show ?thesis
    by (simp add: code_set_bits_def)
qed

lemma read_code_set:
  assumes "header_ok d" and "input_ok s" and "p \<le> 8 * ps_inlen s"
    and "drop p (src_bits s) = code_set_bits d @ rest"
  shows "\<exists>ls. read_code_lengths (take (dh_ncode d) order) (replicate maxcodes 0) (seek p s) =
      Done ls (seek (p + length (code_set_bits d)) s) \<and>
    take 19 (clear_lengths (drop (dh_ncode d) order) ls) = dh_code d \<and>
    length (clear_lengths (drop (dh_ncode d) order) ls) = maxcodes"
proof -
  let ?n = "dh_ncode d" and ?cl = "dh_code d"
  have split: "set (take ?n order) \<union> set (drop ?n order) = {0..<19}"
    by (metis append_take_drop_id set_append set_order)
  have "\<forall>i \<in> set (take ?n order). 0 \<le> ?cl ! i \<and> ?cl ! i < 8"
  proof
    fix i assume "i \<in> set (take ?n order)"
    then have "i < length ?cl"
      using split assms(1) by (auto simp: header_ok_def)
    then show "0 \<le> ?cl ! i \<and> ?cl ! i < 8"
      using assms(1) nth_mem [of i ?cl] unfolding header_ok_def by blast
  qed
  from read_code_lengths_at [OF assms(2,3) assms(4) [unfolded code_set_bits_def] this,
      of "replicate maxcodes 0", unfolded length_replicate]
  obtain ls where all: "read_code_lengths (take ?n order) (replicate maxcodes 0) (seek p s) =
      Done ls (seek (p + 3 * length (take ?n order)) s) \<and> length ls = maxcodes \<and>
      (\<forall>j < maxcodes. ls ! j = (if j \<in> set (take ?n order) then ?cl ! j else replicate maxcodes 0 ! j))"
    by (rule exE)
  note r = all [THEN conjunct1] and ls = all [THEN conjunct2, THEN conjunct1]
    all [THEN conjunct2, THEN conjunct2]
  have n: "length (take ?n order) = ?n"
    using assms(1) by (simp add: order_def header_ok_def)
  have max: "19 \<le> maxcodes" by (simp add: puff_limits)
  have len: "length ?cl = 19" and n19: "?n \<le> 19"
    and zero: "\<forall>i \<in> set (drop ?n order). ?cl ! i = 0"
    using assms(1) by (simp_all add: header_ok_def)
  have "take 19 (clear_lengths (drop ?n order) ls) = ?cl"
  proof (rule nth_equalityI)
    show "length (take 19 (clear_lengths (drop ?n order) ls)) = length ?cl"
      using max ls(1) len by (simp add: clear_lengths_nth)
    fix j assume "j < length (take 19 (clear_lengths (drop ?n order) ls))"
    then have j: "j < 19" "j < maxcodes" "j < length ls"
      using max unfolding length_take clear_lengths_nth(1) ls(1) by simp_all
    moreover have "j \<in> set (take ?n order) \<or> j \<in> set (drop ?n order)"
      unfolding Un_iff [symmetric] split using j(1) by simp
    moreover have "ls ! j = ?cl ! j" if "j \<in> set (take ?n order)"
      using ls(2) j(2) that by presburger
    ultimately have "clear_lengths (drop ?n order) ls ! j = ?cl ! j"
      unfolding clear_lengths_nth(2) [OF j(3)] using zero by (cases "j \<in> set (drop ?n order)") simp_all
    then show "take 19 (clear_lengths (drop ?n order) ls) ! j = ?cl ! j"
      unfolding nth_take [OF j(1)] .
  qed
  moreover have "length (clear_lengths (drop ?n order) ls) = maxcodes"
    using ls(1) by (simp only: clear_lengths_nth(1))
  ultimately show ?thesis
    using r unfolding length_code_set_bits [OF n19] n by blast
qed

lemma table_for_accepted:
  assumes "code_set_ok ls" and "length ls \<le> length (hf_symbol h0)"
  shows "\<exists>h left. construct h0 ls = Some (h, left) \<and> 0 \<le> left \<and>
    (left = 0 \<or> int (length ls) - hf_count h ! 0 = 1) \<and> table_for ls h"
  using construct_accepts [OF assms] assms unfolding table_for_def code_set_ok_def by blast

lemma header_table:
  assumes "header_ok d"
  shows "\<exists>h. construct (new_huffman maxlcodes) (dh_code d) = Some (h, 0) \<and>
    table_for (dh_code d) h \<and> length (hf_symbol h) = maxlcodes"
proof -
  let ?cl = "dh_code d" and ?h0 = "new_huffman maxlcodes"
  have ok: "lengths_ok ?cl" and len: "length ?cl = 19"
    and left: "codes_left 1 (drop 1 (count_table ?cl)) = 0"
    using assms by (auto simp: header_ok_def lengths_ok_def maxbits_def)
  have cap: "length ?cl \<le> length (hf_symbol ?h0)"
    using len by (simp add: new_huffman_def puff_limits)
  have "count_list ?cl 0 \<noteq> length ?cl"
    using assms len by (simp add: header_ok_def)
  then obtain x where x: "coded ?cl x"
    by (rule some_coded)
  obtain h where h: "construct ?h0 ?cl = Some (h, 0)"
    using construct_exists [OF ok cap x] left by auto
  moreover have "length (hf_symbol h) = maxlcodes"
  proof -
    have "x < length ?cl" and "?cl ! x \<noteq> 0"
      using x by (simp_all add: coded_def)
    from construct_spec(3) [OF ok cap h order_refl this] show ?thesis
      by (simp add: new_huffman_def)
  qed
  ultimately show ?thesis
    using ok cap unfolding table_for_def by blast
qed

lemma length_instrs: "instrs_ok cl lim ls is \<Longrightarrow> length (fold run_instr is ls) = lim"
  by (induction cl lim ls "is" rule: instrs_ok.induct) simp_all

lemma dynamic_block:
  assumes hd: "header_ok d" and ok: "input_ok s" and out: "output_ok buf s"
    and p: "p \<le> 8 * ps_inlen s" and toks: "tokens_ok (dh_lit d) (dh_dist d) (ps_outlen s) out ts"
    and eob: "coded (dh_lit d) 256"
    and src: "drop p (src_bits s) = dyn_bits d @ tokens_bits (dh_lit d) (dh_dist d) ts @ rest"
  shows "dynamic (seek p (written buf out s)) =
    Done 0 (seek (p + length (dyn_bits d @ tokens_bits (dh_lit d) (dh_dist d) ts))
      (written buf (fold expand ts out) s))"
proof -
  let ?s = "written buf out s" and ?cl = "dh_code d"
  let ?lim = "dh_nlen d + dh_ndist d" and ?ib = "concat (map (instr_bits ?cl) (dh_instrs d))"
  let ?rest = "tokens_bits (dh_lit d) (dh_dist d) ts @ rest"
  have b: "257 \<le> dh_nlen d" "dh_nlen d \<le> 286" "1 \<le> dh_ndist d" "dh_ndist d \<le> 30"
    "4 \<le> dh_ncode d" "dh_ncode d \<le> 19"
    using hd by (simp_all add: header_ok_def)
  have ok': "input_ok ?s" and p': "p \<le> 8 * ps_inlen ?s"
    using ok p by simp_all
  have s0: "drop p (src_bits ?s) = num_bits (dh_nlen d - 257) 5 @ num_bits (dh_ndist d - 1) 5 @
      num_bits (dh_ncode d - 4) 4 @ code_set_bits d @ ?ib @ ?rest"
    using src by (simp add: dyn_bits_def)
  note s1 = src_position [OF ok' s0 p', unfolded length_num_bits]
  note s2 = src_position [OF ok' s1, unfolded length_num_bits]
  note s3 = src_position [OF ok' s2, unfolded length_num_bits]
  note s4 = src_position [OF ok' s3]
  note s5 = src_position [OF ok' s4]
  have r1: "bits 5 (seek p ?s) = Done (dh_nlen d - 257) (seek (p + 5) ?s)"
    by (rule bits_num [OF ok' s0 _ p']) (use b in auto)
  have r2: "bits 5 (seek (p + 5) ?s) = Done (dh_ndist d - 1) (seek (p + 5 + 5) ?s)"
    by (rule bits_num [OF ok' s1(1) _ s1(2)]) (use b in auto)
  have r3: "bits 4 (seek (p + 5 + 5) ?s) = Done (dh_ncode d - 4) (seek (p + 5 + 5 + 4) ?s)"
    by (rule bits_num [OF ok' s2(1) _ s2(2)]) (use b in auto)
  obtain ls where r4: "read_code_lengths (take (dh_ncode d) order) (replicate maxcodes 0)
        (seek (p + 5 + 5 + 4) ?s) = Done ls (seek (p + 5 + 5 + 4 + length (code_set_bits d)) ?s)"
    and ls: "take 19 (clear_lengths (drop (dh_ncode d) order) ls) = ?cl"
      "length (clear_lengths (drop (dh_ncode d) order) ls) = maxcodes"
    using read_code_set [OF hd ok' s3(2,1)] by blast
  let ?arr = "clear_lengths (drop (dh_ncode d) order) ls"
  let ?q = "p + 5 + 5 + 4 + length (code_set_bits d)"
  obtain h where con: "construct (new_huffman maxlcodes) ?cl = Some (h, 0)"
    and tab: "table_for ?cl h" and hcap: "length (hf_symbol h) = maxlcodes"
    using header_table [OF hd] by blast
  have ins: "instrs_ok ?cl ?lim [] (dh_instrs d)"
    using hd by (simp add: header_ok_def)
  have "?lim \<le> length ?arr"
    using ls(2) b by (simp add: puff_limits)
  then obtain arr' where r5: "read_lengths h ?lim 0 ?arr (seek ?q ?s) =
        Done (Inr arr') (seek (?q + length ?ib) ?s)"
    and arr': "take ?lim arr' = dh_lengths d"
    using read_lengths_at [OF tab ok' s4(2) ins _ _ s4(1), of ?arr] by (auto simp: dh_lengths_def)
  have lit: "take (dh_nlen d) arr' = dh_lit d"
    unfolding dh_lit_def arr' [symmetric] by (simp add: min_def)
  have dist: "take (dh_ndist d) (drop (dh_nlen d) arr') = dh_dist d"
    unfolding dh_dist_def arr' [symmetric] by (simp add: drop_take)
  have lens: "length (dh_lit d) = dh_nlen d" "length (dh_dist d) = dh_ndist d"
    using length_instrs [OF ins] by (simp_all add: dh_lit_def dh_dist_def dh_lengths_def)
  obtain lc l1 where c1: "construct h (dh_lit d) = Some (lc, l1)" "0 \<le> l1"
    "l1 = 0 \<or> int (dh_nlen d) - hf_count lc ! 0 = 1" and t1: "table_for (dh_lit d) lc"
    using table_for_accepted [of "dh_lit d" h] hd hcap b lens by (auto simp: header_ok_def puff_limits)
  obtain dc l2 where c2: "construct (new_huffman maxdcodes) (dh_dist d) = Some (dc, l2)" "0 \<le> l2"
    "l2 = 0 \<or> int (dh_ndist d) - hf_count dc ! 0 = 1" and t2: "table_for (dh_dist d) dc"
    using table_for_accepted [of "dh_dist d" "new_huffman maxdcodes"] hd b lens
    by (auto simp: header_ok_def puff_limits new_huffman_def)
  have "read_tables h (dh_nlen d) (dh_ndist d) arr' (seek (?q + length ?ib) ?s) =
      codes lc dc (seek (?q + length ?ib) ?s)"
    using c1 c2 by (auto simp: read_tables_def lit dist)
  also have "\<dots> = Done 0 (seek (?q + length ?ib + length (tokens_bits (dh_lit d) (dh_dist d) ts))
      (written buf (fold expand ts out) s))"
    by (rule codes_tokens [OF t1 t2 ok out toks eob]) (use s5 in simp_all)
  finally have r6: "read_tables h (dh_nlen d) (dh_ndist d) arr' (seek (?q + length ?ib) ?s) = \<dots>" .
  have len: "?q + length ?ib = p + length (dyn_bits d)"
    by (simp add: dyn_bits_def)
  have e: "dh_nlen d - 257 + 257 = dh_nlen d" "dh_ndist d - 1 + 1 = dh_ndist d"
    "dh_ncode d - 4 + 4 = dh_ncode d" "\<not> dh_nlen d > maxlcodes" "\<not> dh_ndist d > maxdcodes"
    using b by (simp_all add: puff_limits)
  show ?thesis
    unfolding dynamic_def r1 pr_bind_simps r2 r3 Let_def e r4 ls(1) con
    using r5 r6 e(4,5) by (simp add: dyn_bits_def add.assoc)
qed

section \<open>Blocks\<close>

datatype block = Stored_Block bytes | Fixed_Block "token list" | Dynamic_Block dyn_header "token list"

abbreviation fixed_dist :: "int list" where
  "fixed_dist \<equiv> replicate maxdcodes 5"

text \<open>The bits of a block after its first three; a stored block starts on a byte.\<close>

fun body_bits :: "nat \<Rightarrow> block \<Rightarrow> bool list" where
  "body_bits p (Stored_Block data) =
     replicate (8 * ((p + 7) div 8) - p) False @ bytes_bits (stored_head (length data) @ data)"
| "body_bits p (Fixed_Block ts) = tokens_bits fixed_lengths fixed_dist ts"
| "body_bits p (Dynamic_Block d ts) = dyn_bits d @ tokens_bits (dh_lit d) (dh_dist d) ts"

fun type_bits :: "block \<Rightarrow> bool list" where
  "type_bits (Stored_Block data) = [False, False]"
| "type_bits (Fixed_Block ts) = [True, False]"
| "type_bits (Dynamic_Block d ts) = [False, True]"

definition block_bits :: "nat \<Rightarrow> bool \<Rightarrow> block \<Rightarrow> bool list" where
  "block_bits p final b = final # type_bits b @ body_bits (p + 3) b"

fun block_out :: "block \<Rightarrow> bytes \<Rightarrow> bytes" where
  "block_out (Stored_Block data) out = out @ data"
| "block_out (Fixed_Block ts) out = fold expand ts out"
| "block_out (Dynamic_Block d ts) out = fold expand ts out"

fun block_ok :: "nat \<Rightarrow> bytes \<Rightarrow> block \<Rightarrow> bool" where
  "block_ok limit out (Stored_Block data) \<longleftrightarrow>
     length data < 2 ^ 16 \<and> length out + length data \<le> limit"
| "block_ok limit out (Fixed_Block ts) \<longleftrightarrow> tokens_ok fixed_lengths fixed_dist limit out ts"
| "block_ok limit out (Dynamic_Block d ts) \<longleftrightarrow>
     header_ok d \<and> coded (dh_lit d) 256 \<and> tokens_ok (dh_lit d) (dh_dist d) limit out ts"

fun deflate :: "nat \<Rightarrow> block list \<Rightarrow> bool list" where
  "deflate p [] = []"
| "deflate p (b # bs) =
     (let bits = block_bits p (bs = []) b in bits @ deflate (p + length bits) bs)"

fun blocks_ok :: "nat \<Rightarrow> bytes \<Rightarrow> block list \<Rightarrow> bool" where
  "blocks_ok limit out [] \<longleftrightarrow> True"
| "blocks_ok limit out (b # bs) \<longleftrightarrow> block_ok limit out b \<and> blocks_ok limit (block_out b out) bs"

fun type_of :: "block \<Rightarrow> nat" where
  "type_of (Stored_Block data) = 0"
| "type_of (Fixed_Block ts) = 1"
| "type_of (Dynamic_Block d ts) = 2"

lemma num_bits_2: "num_bits v 2 = [odd v, odd (v div 2)]"
  by (simp add: num_bits_def numeral_2_eq_2 bit_iff_odd)

lemma type_bits_num: "type_bits b = num_bits (type_of b) 2" "type_of b < 2 ^ 2"
  by (cases b; simp add: num_bits_2)+

lemma one_block_at:
  assumes small: "input_small s" and out: "output_ok buf s" and p: "p \<le> 8 * ps_inlen s"
    and b: "block_ok (ps_outlen s) out b"
    and src: "drop p (src_bits s) = body_bits p b @ rest"
  shows "one_block (type_of b) (seek p (written buf out s)) =
    Done 0 (seek (p + length (body_bits p b)) (written buf (block_out b out) s))"
proof -
  have ok: "input_ok s" using small by (simp add: input_small_def)
  show ?thesis
  proof (cases b)
    case (Stored_Block data)
    let ?k = "(p + 7) div 8"
    have src': "drop p (src_bits s) = replicate (8 * ?k - p) False @
        bytes_bits (stored_head (length data) @ data) @ rest"
      using src Stored_Block by simp
    have le: "p \<le> 8 * ?k" by linarith
    then have "drop (8 * ?k) (src_bits s) = bytes_bits (stored_head (length data) @ data) @ rest"
      using src_position(1) [OF ok src' p] by simp
    then have "stored (seek p (written buf out s)) =
        Done 0 (seek (8 * (?k + 4 + length data)) (written buf (out @ data) s))"
      using b Stored_Block by (intro stored_block [OF small out p]) auto
    moreover have "8 * (?k + 4 + length data) = p + length (body_bits p b)"
      using le Stored_Block by (simp add: stored_head_def)
    ultimately have "stored (seek p (written buf out s)) =
        Done 0 (seek (p + length (body_bits p b)) (written buf (out @ data) s))"
      by (simp only:)
    then show ?thesis
      unfolding one_block_def Stored_Block by simp
  next
    case (Fixed_Block ts)
    have "coded fixed_lengths 256"
      by (simp add: coded_def fixed_lengths_def nth_append)
    then have "fixed (seek p (written buf out s)) =
        Done 0 (seek (p + length (body_bits p b)) (written buf (block_out b out) s))"
      unfolding fixed_def
      using codes_tokens [OF fixed_tables ok out _ _ _ p, of out ts rest] b src Fixed_Block by simp
    then show ?thesis
      using Fixed_Block by (simp add: one_block_def)
  next
    case (Dynamic_Block d ts)
    have "dynamic (seek p (written buf out s)) =
        Done 0 (seek (p + length (body_bits p b)) (written buf (block_out b out) s))"
      using dynamic_block [OF _ ok out p, of d out ts rest] b src Dynamic_Block by simp
    then show ?thesis
      using Dynamic_Block by (simp add: one_block_def)
  qed
qed

lemma puff_loop_blocks:
  assumes small: "input_small s" and out: "output_ok buf s" and "bs \<noteq> []"
    and "blocks_ok (ps_outlen s) out bs" and "p \<le> 8 * ps_inlen s"
    and "drop p (src_bits s) = deflate p bs @ rest"
  shows "puff_loop (seek p (written buf out s)) =
    Some (Done 0 (seek (p + length (deflate p bs)) (written buf (fold block_out bs out) s)))"
  using assms(3-6)
proof (induction bs arbitrary: out p)
  case (Cons b bs)
  let ?fin = "bs = []" and ?s = "written buf out s"
  let ?bits = "block_bits p ?fin b"
  have ok: "input_ok s" and ok': "input_ok ?s" and p': "p \<le> 8 * ps_inlen ?s"
    using small Cons.prems(3) by (simp_all add: input_small_def)
  have one: "[?fin] = num_bits (of_bool ?fin) 1"
    by (simp add: num_bits_def bit_iff_odd)
  have s0: "drop p (src_bits ?s) = num_bits (of_bool ?fin) 1 @
      num_bits (type_of b) 2 @ body_bits (p + 1 + 2) b @ deflate (p + length ?bits) bs @ rest"
    using Cons.prems(4) unfolding one [symmetric] type_bits_num(1) [symmetric]
    by (simp add: Let_def block_bits_def numeral_3_eq_3)
  note s1 = src_position [OF ok' s0 p', unfolded length_num_bits]
  note s2 = src_position [OF ok' s1, unfolded length_num_bits]
  have r1: "bits 1 (seek p ?s) = Done (of_bool ?fin) (seek (p + 1) ?s)"
    by (rule bits_num [OF ok' s0 _ p']) simp
  have r2: "bits 2 (seek (p + 1) ?s) = Done (type_of b) (seek (p + 1 + 2) ?s)"
    by (rule bits_num [OF ok' s1(1) type_bits_num(2) s1(2)])
  have r3: "one_block (type_of b) (seek (p + 1 + 2) ?s) =
      Done 0 (seek (p + 1 + 2 + length (body_bits (p + 1 + 2) b)) (written buf (block_out b out) s))"
    by (rule one_block_at [OF small out]) (use s2 Cons.prems in simp_all)
  have len: "p + 1 + 2 + length (body_bits (p + 1 + 2) b) = p + length ?bits"
    by (simp add: block_bits_def type_bits_num(1) numeral_3_eq_3)
  note s3 = src_position [OF ok' s2, unfolded len]
  have step: "puff_loop (seek p ?s) =
      (if ?fin then Some (Done 0 (seek (p + length ?bits) (written buf (block_out b out) s)))
       else puff_loop (seek (p + length ?bits) (written buf (block_out b out) s)))"
    by (subst puff_loop.simps) (simp only: r1 r2 r3 len puff_res.case pr_bind_simps, simp)
  show ?case
  proof (cases ?fin)
    case True
    then show ?thesis by (simp add: step Let_def)
  next
    case False
    have "puff_loop (seek (p + length ?bits) (written buf (block_out b out) s)) =
        Some (Done 0 (seek (p + length ?bits + length (deflate (p + length ?bits) bs))
          (written buf (fold block_out bs (block_out b out)) s)))"
      by (rule Cons.IH) (use False Cons.prems s3 in simp_all)
    then show ?thesis
      using False by (simp add: step Let_def add.assoc)
  qed
qed simp

lemma puff_run:
  assumes "blocks \<noteq> []" and "blocks_ok destlen [] blocks"
    and "bytes_bits source = deflate 0 blocks @ rest"
    and "destlen \<le> length dest" and "destlen + 2 ^ 16 \<le> 2 ^ 32"
    and "length source + 2 ^ 17 \<le> 2 ^ 32"
  shows "puff_loop (puff_start (Some dest) destlen source (length source)) =
    Some (Done 0 (seek (length (deflate 0 blocks))
      (written dest (fold block_out blocks []) (puff_start (Some dest) destlen source (length source)))))"
proof -
  let ?s = "puff_start (Some dest) destlen source (length source)"
  have start: "seek 0 (written dest [] ?s) = ?s"
    by (simp add: seek_def written_def puff_start_def Let_def)
  have "puff_loop (seek 0 (written dest [] ?s)) =
      Some (Done 0 (seek (0 + length (deflate 0 blocks)) (written dest (fold block_out blocks []) ?s)))"
    by (rule puff_loop_blocks [where rest = rest])
      (use assms in \<open>simp_all add: input_small_def input_ok_def output_ok_def puff_start_def src_bits_def\<close>)
  then show ?thesis by (simp add: start)
qed

text \<open>C18: \<open>puff\<close> inflates every stream that a deflate encoder may write: any sequence
  of stored, fixed and dynamic blocks, with any tables the format allows, any
  literals and matches whose distances stay inside what was written, and any bytes
  after the stream. It returns 0, the destination starts with exactly the bytes the
  blocks stand for and is unchanged behind them, and the lengths it reports are the
  bytes written and the bytes of the stream. The destination must have room, and the
  buffers be shorter than 4 GiB by 128 KiB.\<close>
theorem puff_inflates:
  assumes "blocks \<noteq> []" and "blocks_ok destlen [] blocks"
    and "bytes_bits source = deflate 0 blocks @ rest"
    and "destlen \<le> length dest" and "destlen + 2 ^ 16 \<le> 2 ^ 32"
    and "length source + 2 ^ 17 \<le> 2 ^ 32"
  shows "puff (Some dest) destlen source (length source) =
    Some (Some (let out = fold block_out blocks [] in
      \<lparr>pe_err = 0, pe_dest = Some (out @ drop (length out) dest), pe_destlen = length out,
       pe_sourcelen = (length (deflate 0 blocks) + 7) div 8\<rparr>))"
  by (simp add: puff_def puff_run [OF assms] puff_result_def Let_def)
    (simp add: seek_def written_def Let_def)

lemma byte_bits_list:
  "byte_bits b = [bit b 0, bit b 1, bit b 2, bit b 3, bit b 4, bit b 5, bit b 6, bit b 7]"
  by (simp add: byte_bits_def upt_rec eval_nat_numeral)

text \<open>A stored byte, a literal, and a match that repeats it three times.\<close>

definition sample_blocks :: "block list" where
  "sample_blocks = [Stored_Block [7], Fixed_Block [Lit 65, Copy 0 0 0 0]]"

definition sample_source :: bytes where
  "sample_source = [0, 1, 0, 0xfe, 0xff, 7, 0x73, 4, 2, 0]"

theorem puff_inflates_witness:
  "puff (Some (replicate 8 0)) 8 sample_source (length sample_source) =
    Some (Some \<lparr>pe_err = 0, pe_dest = Some [7, 65, 65, 65, 65, 0, 0, 0], pe_destlen = 5,
      pe_sourcelen = 10\<rparr>)"
proof -
  have codes: "canonical_code fixed_lengths 65 =
      [False, True, True, True, False, False, False, True]"
    "canonical_code fixed_lengths 257 = [False, False, False, False, False, False, True]"
    "canonical_code fixed_lengths 256 = [False, False, False, False, False, False, False]"
    "canonical_code (replicate 30 5) 0 = [False, False, False, False, False]"
    by code_simp+
  have head: "bytes_bits (stored_head (length [7 :: byte]) @ [7]) =
      [True, False, False, False, False, False, False, False, False, False, False, False, False,
      False, False, False, False, True, True, True, True, True, True, True, True, True, True,
      True, True, True, True, True, True, True, True, False, False, False, False, False]"
    by code_simp
  have pad: "replicate 5 False = [False, False, False, False, False]"
    by code_simp
  have deflated: "deflate 0 sample_blocks =
      [False, False, False, False, False, False, False, False, True, False, False, False, False,
      False, False, False, False, False, False, False, False, False, False, False, False, True,
      True, True, True, True, True, True, True, True, True, True, True, True, True, True, True,
      True, True, False, False, False, False, False, True, True, False, False, True, True, True,
      False, False, False, True, False, False, False, False, False, False, True, False, False,
      False, False, False, False, False, False, False, False, False, False]"
    by (simp add: sample_blocks_def Let_def block_bits_def tokens_bits_def maxdcodes_def
        num_bits_def lext_def dext_def codes head [simplified] pad)
  have "sample_blocks \<noteq> []" by (simp add: sample_blocks_def)
  moreover have "blocks_ok 8 [] sample_blocks"
    by (simp add: sample_blocks_def coded_def fixed_lengths_def nth_append maxdcodes_def
        lens_def lext_def dists_def dext_def)
  moreover have "bytes_bits sample_source = deflate 0 sample_blocks @ [False, False]"
    unfolding deflated by (simp add: sample_source_def byte_bits_list)
  moreover have "fold block_out sample_blocks [] = [7, 65, 65, 65, 65]"
    by (simp add: sample_blocks_def dists_def lens_def numeral_3_eq_3)
  moreover have "length (deflate 0 sample_blocks) = 78"
    by (simp add: deflated)
  moreover have "length sample_source = 10" by code_simp
  ultimately show ?thesis
    using puff_inflates [of sample_blocks 8 sample_source "[False, False]" "replicate 8 0"]
    by (simp add: Let_def numeral_3_eq_3)
qed

end
