(* ===== verification/Puff_Bounds.thy ===== *)
theory Puff_Bounds
  imports Puff_Roundtrip
begin

text \<open>What the readers of src/puff.cpp leave on any input: the value and the state of a
  normal return, and the state of a jump out of a reader; they leave the output alone.\<close>

section \<open>Outcomes\<close>

definition outcome :: "'a puff_res \<Rightarrow> ('a \<Rightarrow> puff_state \<Rightarrow> bool) \<Rightarrow> (puff_state \<Rightarrow> bool) \<Rightarrow> bool" where
  "outcome r Q J = (case r of Done x s \<Rightarrow> Q x s | Jumped s \<Rightarrow> J s | Wild \<Rightarrow> False)"

lemma outcome_simps [simp]:
  "outcome (Done x s) Q J = Q x s" "outcome (Jumped s) Q J = J s" "outcome Wild Q J = False"
  by (simp_all add: outcome_def)

lemma outcome_bind:
  assumes "outcome r Q' J" and "\<And>x s. Q' x s \<Longrightarrow> outcome (f x s) Q J"
  shows "outcome (pr_bind r f) Q J"
  using assms by (cases r) simp_all

lemma outcome_mono:
  assumes "outcome r Q J" and "\<And>x s. Q x s \<Longrightarrow> Q' x s" and "\<And>s. J s \<Longrightarrow> J' s"
  shows "outcome r Q' J'"
  using assms by (cases r) simp_all

text \<open>The readers leave the output alone.\<close>

definition same_out :: "puff_state \<Rightarrow> puff_state \<Rightarrow> bool" where
  "same_out s t \<longleftrightarrow> ps_out t = ps_out s \<and> ps_outlen t = ps_outlen s \<and> ps_outcnt t = ps_outcnt s \<and>
     ps_in t = ps_in s \<and> ps_inlen t = ps_inlen s"

lemma same_out_refl [simp]: "same_out s s"
  by (simp add: same_out_def)

lemma same_out_trans: "same_out s t \<Longrightarrow> same_out t u \<Longrightarrow> same_out s u"
  by (simp add: same_out_def)

lemma same_out_upd [simp]:
  "same_out s (t\<lparr>ps_incnt := a\<rparr>) = same_out s t" "same_out s (t\<lparr>ps_bitcnt := b\<rparr>) = same_out s t"
  "same_out s (t\<lparr>ps_bitbuf := c\<rparr>) = same_out s t" "same_out s (seek p t) = same_out s t"
  by (simp_all add: same_out_def)

lemma bits_fill_Jumped: "bits_fill need val s = Jumped t \<Longrightarrow> same_out s t"
proof (induction need val s rule: bits_fill.induct)
  case (1 need val s)
  show ?case
  proof (cases "ps_bitcnt s < need")
    case True
    show ?thesis
    proof (cases "next_byte s")
      case (Done b s1)
      then have s1: "same_out s (s1\<lparr>ps_bitcnt := ps_bitcnt s1 + 8\<rparr>)"
        by (auto dest!: next_byte_DoneD)
      have "bits_fill need (val OR push_bit (ps_bitcnt s1) (unat b))
          (s1\<lparr>ps_bitcnt := ps_bitcnt s1 + 8\<rparr>) = Jumped t"
        using "1.prems" True Done by (simp add: bits_fill.simps [of need val s])
      from "1.IH" [OF True Done this] s1 show ?thesis by (rule same_out_trans [rotated])
    next
      case (Jumped u)
      then show ?thesis
        using "1.prems" True
        by (auto simp: bits_fill.simps [of need val s] next_byte_def raw_byte_def split: if_splits)
    next
      case Wild
      then show ?thesis
        using "1.prems" True by (simp add: bits_fill.simps [of need val s])
    qed
  next
    case False
    then show ?thesis using "1.prems" by (simp add: bits_fill.simps [of need val s])
  qed
qed

lemma decode_rounds_Jumped:
  "decode_rounds h left bitbuf code first index len s = Jumped t \<Longrightarrow> same_out s t"
proof (induction h left bitbuf code first index len s rule: decode_rounds.induct)
  case (1 h left bitbuf code first index len s)
  note un = decode_rounds.simps [of h left bitbuf code first index len s]
  show ?case
  proof (cases "decode_bits h left bitbuf code first index len")
    case (Inl a)
    then show ?thesis
      using "1.prems" by (cases a) (auto simp: un symbol_at_def split: if_splits)
  next
    case (Inr a)
    then obtain c f i len' where a: "decode_bits h left bitbuf code first index len
        = Inr (c, f, i, len')"
      by (cases a) auto
    show ?thesis
    proof (cases "maxbits + 1 - len' = 0")
      case True
      with "1.prems" a show ?thesis by (simp add: un)
    next
      case False
      show ?thesis
      proof (cases "next_byte s")
        case (Done b s1)
        then have "same_out s1 t"
          using "1.prems" False a by (intro "1.IH" [OF a refl refl refl refl False Done])
            (simp add: un)
        moreover have "same_out s s1"
          using Done by (auto dest!: next_byte_DoneD)
        ultimately show ?thesis by (rule same_out_trans [rotated])
      next
        case (Jumped u)
        then show ?thesis
          using "1.prems" False a
          by (auto simp: un next_byte_def raw_byte_def split: if_splits)
      next
        case Wild
        then show ?thesis using "1.prems" False a by (simp add: un)
      qed
    qed
  qed
qed

lemma aligned_seek:
  assumes "aligned s"
  shows "s = seek (position s) s" and "position s \<le> 8 * ps_inlen s" and "input_ok s"
proof -
  show "s = seek (position s) s" "input_ok s"
    using assms by (simp_all add: aligned_def)
  have "position s \<le> 8 * ps_incnt s"
    by (simp add: position_def)
  also have "\<dots> \<le> 8 * ps_inlen s"
    using assms by (simp add: aligned_def)
  finally show "position s \<le> 8 * ps_inlen s" .
qed

lemma seek_aligned: "input_ok s \<Longrightarrow> p \<le> 8 * ps_inlen s \<Longrightarrow> aligned (seek p s)"
proof -
  assume s: "input_ok s" "p \<le> 8 * ps_inlen s"
  then have "(p + 7) div 8 \<le> ps_inlen s" by linarith
  then show ?thesis
    using s by (simp add: aligned_def) (simp add: seek_def Let_def)
qed

lemma bits_outcome:
  assumes "aligned s"
  shows "outcome (bits n s) (\<lambda>v t. v < 2 ^ n \<and> aligned t \<and> same_out s t) (same_out s)"
proof -
  note a = aligned_seek [OF assms]
  show ?thesis
  proof (cases "position s + n \<le> 8 * ps_inlen s")
    case True
    have "bits n s = Done (from_bits (take n (drop (position s) (src_bits s)))) (seek (position s + n) s)"
      using bits_at [OF a(3) True] a(1) by simp
    moreover have "from_bits (take n (drop (position s) (src_bits s))) < 2 ^ n"
      by (rule less_le_trans [OF horner_sum_of_bool_2_less]) (simp add: power_increasing)
    ultimately show ?thesis
      using seek_aligned [OF a(3) True] by simp
  next
    case False
    then obtain t where t: "bits n s = Jumped t"
      using bits_out_of_input [OF a(3,2), of n] a(1) by auto
    then have "bits_fill n (ps_bitbuf s) s = Jumped t"
      by (cases "bits_fill n (ps_bitbuf s) s") (simp_all add: bits_def)
    then show ?thesis
      using t by (simp add: bits_fill_Jumped)
  qed
qed

text \<open>Tables whose decoding stays inside their arrays, and complete ones, which decode
  every input.\<close>

section \<open>Sound tables\<close>

definition sound_table :: "int \<Rightarrow> huffman \<Rightarrow> bool" where
  "sound_table n h \<longleftrightarrow> length (hf_count h) = maxbits + 1 \<and> (\<forall>c \<in> set (hf_count h). 0 \<le> c) \<and>
     sum_list (drop 1 (hf_count h)) \<le> int (length (hf_symbol h)) \<and>
     (\<forall>v \<in> set (hf_symbol h). 0 \<le> v \<and> v < n)"

lemma sum_list_take_int:
  assumes "\<forall>c \<in> set cs. 0 \<le> (c :: int)"
  shows "sum_list (take k cs) \<le> sum_list cs" and "0 \<le> sum_list (take k cs)"
proof -
  have "sum_list cs = sum_list (take k cs) + sum_list (drop k cs)"
    by (metis append_take_drop_id sum_list_append)
  moreover have "0 \<le> sum_list (drop k cs)"
    using assms by (intro sum_list_nonneg) (meson in_set_dropD)
  ultimately show "sum_list (take k cs) \<le> sum_list cs" by simp
  show "0 \<le> sum_list (take k cs)"
    using assms by (intro sum_list_nonneg) (meson in_set_takeD)
qed

lemma scan_index:
  assumes "length (hf_count h) = maxbits + 1" and "\<forall>c \<in> set (hf_count h). 0 \<le> c"
    and "0 \<le> first" and "first \<le> code" and "1 \<le> len"
    and "index = sum_list (take (len - 1) (drop 1 (hf_count h)))"
    and "scan h bs code first index len = Found i n"
  shows "0 \<le> i \<and> i < sum_list (drop 1 (hf_count h))"
  using assms
proof (induction h bs code first index len rule: scan.induct)
  case (2 h b bs code first index len)
  let ?code = "code OR of_bool b" and ?c = "hf_count h ! len"
  have len: "len \<le> maxbits"
    using "2.prems"(7) by (simp split: if_splits)
  have code: "first \<le> ?code"
    using "2.prems"(3,4) or_greater_eq [of "of_bool b" code] by simp
  have c: "0 \<le> ?c"
  proof -
    have "?c \<in> set (hf_count h)"
      by (rule nth_mem) (use "2.prems"(1) len in simp)
    then show ?thesis using "2.prems"(2) by blast
  qed
  have upto: "sum_list (take len (drop 1 (hf_count h))) = index + ?c"
  proof -
    have "take len (drop 1 (hf_count h)) =
        take (len - 1) (drop 1 (hf_count h)) @ [drop 1 (hf_count h) ! (len - 1)]"
      using "2.prems"(5) len "2.prems"(1) take_Suc_conv_app_nth [of "len - 1" "drop 1 (hf_count h)"] by simp
    then show ?thesis
      using "2.prems"(5,6) len "2.prems"(1) by simp
  qed
  have nonneg: "\<forall>c \<in> set (drop 1 (hf_count h)). 0 \<le> c"
    using "2.prems"(2) by (meson in_set_dropD)
  show ?case
  proof (cases "?code < first + ?c")
    case True
    then have "i = index + (?code - first)"
      using "2.prems"(7) len by (simp add: Let_def)
    then show ?thesis
      using True code upto sum_list_take_int [OF nonneg, of len]
        sum_list_take_int(2) [OF nonneg, of "len - 1"] "2.prems"(6) by linarith
  next
    case False
    have "scan h bs (push_bit 1 ?code) (push_bit 1 (first + ?c)) (index + ?c) (len + 1) = Found i n"
      using "2.prems"(7) False len by (simp add: Let_def)
    then show ?thesis
      using "2.prems" False c len upto
      by (intro "2.IH" [OF _ refl refl]) (auto simp: push_bit_eq_mult)
  qed
qed simp

lemma decode_outcome:
  assumes "sound_table n h" and "aligned s"
  shows "outcome (decode h s)
    (\<lambda>x t. same_out s t \<and> (x = -9 \<or> 0 \<le> x \<and> x < n \<and> aligned t \<and> position s \<le> position t)) (same_out s)"
proof -
  note a = aligned_seek [OF assms(2)]
  let ?p = "position s"
  obtain t where d: "decode h s = scan_end (\<lambda>i n. symbol_at h i (seek (?p + n) s))
      (Done (-9) ((seek ?p s)\<lparr>ps_incnt := (?p + maxbits + 7) div 8\<rparr>)) (Jumped t)
      (scan h (drop ?p (src_bits s)) 0 0 0 1)"
    using decode_at [OF a(3,2), of h] a(1) by auto
  show ?thesis
  proof (cases "scan h (drop ?p (src_bits s)) 0 0 0 1")
    case (Found i m)
    have i: "0 \<le> i \<and> i < int (length (hf_symbol h))"
      using scan_index [OF _ _ _ _ _ _ Found] assms(1) by (force simp: sound_table_def)
    then have v: "0 \<le> hf_symbol h ! nat i \<and> hf_symbol h ! nat i < n"
      using assms(1) nth_mem [of "nat i" "hf_symbol h"] by (auto simp: sound_table_def)
    have "?p + m \<le> 8 * ps_inlen s"
      using scan_Found [OF Found] src_bits_length [OF a(3)] a(2) by auto
    then have "aligned (seek (?p + m) s)"
      by (rule seek_aligned [OF a(3)])
    then show ?thesis
      using i v unfolding d Found by (simp add: scan_end_def symbol_at_def)
  next
    case (More c f i m)
    moreover have "same_out s t" if "decode h s = Jumped t"
      using that unfolding decode_def by (rule decode_rounds_Jumped)
    ultimately show ?thesis
      unfolding d More by (simp add: scan_end_def)
  qed
qed

section \<open>Tables construct builds are sound\<close>

lemma sum_list_update_int:
  "i < length xs \<Longrightarrow> sum_list (xs[i := x]) = sum_list xs + x - (xs ! i :: int)"
proof (induction xs arbitrary: i)
  case (Cons y xs)
  then show ?case by (cases i) simp_all
qed simp

lemma count_lengths_sum:
  "count_lengths ls count = Some count' \<Longrightarrow> sum_list count' = sum_list count + int (length ls)"
proof (induction ls count rule: count_lengths.induct)
  case (2 l ls count)
  then have l: "0 \<le> l" "nat l < length count"
    by (auto split: if_splits)
  have "sum_list (count[nat l := count ! nat l + 1]) = sum_list count + 1"
    using sum_list_update_int [OF l(2)] by simp
  then show ?case
    using 2 by (simp split: if_splits)
qed simp

lemma place_symbols_set:
  "place_symbols x ls offs table = Some table' \<Longrightarrow>
     set table' \<subseteq> set table \<union> {x..<x + int (length ls)} \<and> length table' = length table"
proof (induction x ls offs table rule: place_symbols.induct)
  case (2 x l ls offs table)
  show ?case
  proof (cases "l = 0")
    case True
    then show ?thesis using 2 by fastforce
  next
    case False
    let ?table = "table[nat (offs ! nat l) := x]"
    have "set table' \<subseteq> set ?table \<union> {x + 1..<x + 1 + int (length ls)} \<and> length table' = length ?table"
      using 2 False by (simp split: if_splits)
    then show ?thesis
      using set_update_subset_insert [of table "nat (offs ! nat l)" x] by fastforce
  qed
qed simp

lemma construct_sound:
  assumes "construct h ls = Some (h', left)" and "lengths_ok ls"
    and "sound_table n h" and "length ls \<le> length (hf_symbol h)" and "int (length ls) \<le> n"
  shows "sound_table n h'" and "length (hf_symbol h') = length (hf_symbol h)"
proof -
  have cl: "count_lengths ls (replicate (maxbits + 1) 0) = Some (count_table ls)"
    by (rule count_lengths_table [OF assms(2)])
  have h': "hf_count h' = count_table ls"
    "set (hf_symbol h') \<subseteq> set (hf_symbol h) \<union> {0..<int (length ls)}"
    "length (hf_symbol h') = length (hf_symbol h)"
    using assms(1) place_symbols_set cl
    by (fastforce simp: construct_def Let_def split: if_splits bind_splits)+
  have pos: "\<forall>c \<in> set (count_table ls). 0 \<le> c"
    by (auto simp: count_table_def)
  have "sum_list (replicate (maxbits + 1) 0) = (0 :: int)"
    by (simp add: sum_list_replicate)
  then have "sum_list (count_table ls) = int (length ls)"
    using count_lengths_sum [OF cl] by simp
  moreover have "count_table ls = count_table ls ! 0 # drop 1 (count_table ls)"
    using Cons_nth_drop_Suc [of 0 "count_table ls"] by simp
  ultimately have "sum_list (drop 1 (count_table ls)) \<le> int (length ls)"
    using pos by (metis add_le_same_cancel2 le_add_same_cancel2 list.set_intros(1) sum_list.Cons)
  then show "sound_table n h'"
    using h' pos assms(3-5) by (fastforce simp: sound_table_def)
  show "length (hf_symbol h') = length (hf_symbol h)" by (rule h'(3))
qed

lemma construct_defined:
  assumes "lengths_ok ls" and "length ls \<le> length (hf_symbol h)"
  shows "construct h ls \<noteq> None"
proof -
  have "\<exists>table'. place_symbols (int (length ([] :: int list))) ls (offset_table ls)
        (hf_symbol h) = Some table' \<and> length table' = length (hf_symbol h) \<and>
      (\<forall>i < length ([] @ ls). ([] @ ls) ! i \<noteq> 0 \<longrightarrow> table' ! cell_of ([] @ ls) i = int i)"
    by (rule place_symbols_spec [of "[]"])
      (use assms in \<open>auto simp: offset_table_nth lengths_of_def\<close>)
  then show ?thesis
    using count_lengths_table [OF assms(1)]
    by (auto simp: construct_def Let_def offset_table_def)
qed

lemma new_sound: "0 < n \<Longrightarrow> sound_table n (new_huffman m)"
  by (simp add: sound_table_def new_huffman_def sum_list_replicate)

section \<open>Complete tables\<close>

lemma codes_left_value:
  assumes "0 \<le> codes_left left cs" and "cs \<noteq> []"
    and "left = 2 ^ j - (int (first_code lengths j) + of_bool (j \<noteq> 0) * int (lengths_of lengths j))"
    and "\<forall>i < length cs. cs ! i = int (lengths_of lengths (Suc j + i))"
  shows "codes_left left cs = 2 ^ (j + length cs) -
    int (first_code lengths (j + length cs) + lengths_of lengths (j + length cs))"
  using assms
proof (induction left cs arbitrary: j rule: codes_left.induct)
  case (2 left c cs)
  let ?left = "push_bit 1 left - c"
  have c: "c = int (lengths_of lengths (Suc j))"
    using "2.prems"(4) by force
  have l: "?left = 2 ^ Suc j - (int (first_code lengths (Suc j)) + int (lengths_of lengths (Suc j)))"
    using "2.prems"(3) by (cases j) (simp_all add: c push_bit_eq_mult)
  have pos: "0 \<le> ?left"
    using "2.prems"(1) by (auto simp: Let_def split: if_splits)
  show ?case
  proof (cases "cs = []")
    case True
    then show ?thesis using l pos by (simp add: Let_def)
  next
    case False
    have "codes_left ?left cs = 2 ^ (Suc j + length cs) -
        int (first_code lengths (Suc j + length cs) + lengths_of lengths (Suc j + length cs))"
    proof (rule "2.IH")
      show "\<not> ?left < 0" using pos by simp
      show "0 \<le> codes_left ?left cs" using "2.prems"(1) pos by (simp add: Let_def)
      show "\<forall>i < length cs. cs ! i = int (lengths_of lengths (Suc (Suc j) + i))"
        using "2.prems"(4) by force
    qed (use False l in simp_all)
    then show ?thesis
      using pos by (simp add: Let_def)
  qed
qed simp

lemma complete_scan:
  assumes "hf_count h = count_table lengths"
    and "first_code lengths maxbits + lengths_of lengths maxbits = 2 ^ maxbits"
    and "2 * c + 1 < 2 ^ len" and "1 \<le> len" and "len \<le> maxbits"
    and "scan h bs (int (2 * c)) (int (first_code lengths len)) index len = More a f i m"
  shows "m \<le> maxbits"
  using assms(3-6)
proof (induction bs arbitrary: c index len)
  case (Cons b bs)
  have code: "int (2 * c) OR of_bool b = int (2 * c + of_bool b)"
    unfolding even_or_bit by simp
  have cnt: "hf_count h ! len = int (lengths_of lengths len)"
    using assms(1) Cons.prems(3) by (simp add: count_table_nth)
  have not: "\<not> int (2 * c + of_bool b) < int (first_code lengths len) + int (lengths_of lengths len)"
    using Cons.prems(3,4) unfolding scan.simps code cnt Let_def by (auto split: if_splits)
  then have past: "first_code lengths len + lengths_of lengths len \<le> 2 * c + of_bool b"
    unfolding of_nat_add [symmetric] of_nat_less_iff by simp
  have lt: "2 * c + of_bool b < 2 ^ len"
    using Cons.prems(1) by (cases b) simp_all
  have less: "len < maxbits"
  proof (rule ccontr)
    assume "\<not> len < maxbits"
    with Cons.prems(3) have "len = maxbits" by simp
    with lt past assms(2) show False by simp
  qed
  have first: "push_bit 1 (int (first_code lengths len) + int (lengths_of lengths len)) =
      int (first_code lengths (len + 1))"
    using Cons.prems(2) by simp
  have next_code: "push_bit 1 (int (2 * c + of_bool b)) = int (2 * (2 * c + of_bool b))"
    by (simp add: push_bit_eq_mult)
  have "scan h bs (int (2 * (2 * c + of_bool b))) (int (first_code lengths (len + 1)))
      (index + int (lengths_of lengths len)) (len + 1) = More a f i m"
    using Cons.prems(3,4) not less unfolding scan.simps code cnt Let_def first next_code by simp
  then show ?case
    by (rule Cons.IH [rotated 3]) (use lt less in auto)
qed simp

lemma complete_decode:
  assumes "lengths_ok ls" and "length ls \<le> length (hf_symbol h0)"
    and "construct h0 ls = Some (h, 0)" and "count_list ls 0 \<noteq> length ls" and "aligned s"
  shows "decode h s \<noteq> Done (-9) t \<or> (\<exists>i. 0 \<le> i \<and> i < int (length (hf_symbol h)) \<and> hf_symbol h ! nat i = -9)"
proof -
  have c0: "count_table ls ! 0 \<noteq> int (length ls)"
    using assms(4) by (simp add: count_table_nth lengths_of_def)
  have left: "codes_left 1 (drop 1 (count_table ls)) = 0" and cnt: "hf_count h = count_table ls"
    using assms(3) c0 count_lengths_table [OF assms(1)]
    by (auto simp: construct_def Let_def split: if_splits bind_splits)
  have "codes_left 1 (drop 1 (count_table ls)) =
      2 ^ maxbits - int (first_code ls maxbits + lengths_of ls maxbits)"
    using codes_left_value [of 1 "drop 1 (count_table ls)" 0 ls] left
    by (simp add: count_table_nth maxbits_def)
  with left have "int (first_code ls maxbits + lengths_of ls maxbits) = int (2 ^ maxbits)"
    by simp
  then have full: "first_code ls maxbits + lengths_of ls maxbits = 2 ^ maxbits"
    by (simp only: of_nat_eq_iff)
  note a = aligned_seek [OF assms(5)]
  let ?p = "position s"
  obtain u where d: "decode h s = scan_end (\<lambda>i n. symbol_at h i (seek (?p + n) s))
      (Done (-9) ((seek ?p s)\<lparr>ps_incnt := (?p + maxbits + 7) div 8\<rparr>)) (Jumped u)
      (scan h (drop ?p (src_bits s)) 0 0 0 1)"
    using decode_at [OF a(3,2), of h] a(1) by auto
  show ?thesis
  proof (cases "scan h (drop ?p (src_bits s)) 0 0 0 1")
    case (Found i n)
    then show ?thesis
      unfolding d Found by (auto simp: scan_end_def symbol_at_def)
  next
    case (More c f i m)
    then have "m \<le> maxbits"
      using complete_scan [OF cnt full, of 0 1] by (simp add: maxbits_def)
    then show ?thesis
      unfolding d More by (simp add: scan_end_def)
  qed
qed

text \<open>Every routine of src/puff.cpp on a state it may meet: the destination is
  written inside its limit only, the input is read inside its length only, and the
  position in the input moves forward.\<close>

section \<open>States puff may meet\<close>

definition inside :: "bytes \<Rightarrow> puff_state \<Rightarrow> bool" where
  "inside dest s \<longleftrightarrow>
     (\<exists>d. ps_out s = Some d \<and> length d = length dest \<and>
        drop (ps_outlen s) d = drop (ps_outlen s) dest) \<and>
     ps_outcnt s \<le> ps_outlen s \<and> ps_outlen s \<le> length dest \<and> ps_outlen s + 2 ^ 16 \<le> 2 ^ 32"

definition ready :: "bytes \<Rightarrow> puff_state \<Rightarrow> bool" where
  "ready dest s \<longleftrightarrow> aligned s \<and> input_small s \<and> inside dest s"

definition after :: "puff_state \<Rightarrow> puff_state \<Rightarrow> bool" where
  "after s t \<longleftrightarrow> ps_inlen t = ps_inlen s \<and> ps_outlen t = ps_outlen s \<and> position s \<le> position t"

definition goes :: "bytes \<Rightarrow> puff_state \<Rightarrow> puff_state \<Rightarrow> bool" where
  "goes dest s t \<longleftrightarrow> ready dest t \<and> after s t"

definition stops :: "bytes \<Rightarrow> puff_state \<Rightarrow> puff_state \<Rightarrow> bool" where
  "stops dest s t \<longleftrightarrow> inside dest t \<and> ps_outlen t = ps_outlen s"

lemma goes_refl: "ready dest s \<Longrightarrow> goes dest s s"
  by (simp add: goes_def after_def)

lemma goes_trans: "goes dest s t \<Longrightarrow> goes dest t u \<Longrightarrow> goes dest s u"
  by (auto simp: goes_def after_def)

lemma stops_trans: "goes dest s t \<Longrightarrow> stops dest t u \<Longrightarrow> stops dest s u"
  by (auto simp: goes_def after_def stops_def)

text \<open>One step after another.\<close>

lemma outcome_then:
  assumes "outcome r (\<lambda>x t. Q' x t \<and> goes dest s t) (stops dest s)"
    and "\<And>x t. Q' x t \<Longrightarrow> goes dest s t \<Longrightarrow> outcome (f x t) (\<lambda>y u. Q y \<and> goes dest t u) (stops dest t)"
  shows "outcome (pr_bind r f) (\<lambda>y u. Q y \<and> goes dest s u) (stops dest s)"
proof (rule outcome_bind [OF assms(1)])
  fix x t assume a: "Q' x t \<and> goes dest s t"
  then have "outcome (f x t) (\<lambda>y u. Q y \<and> goes dest t u) (stops dest t)"
    using assms(2) by blast
  then show "outcome (f x t) (\<lambda>y u. Q y \<and> goes dest s u) (stops dest s)"
    by (rule outcome_mono) (use a goes_trans stops_trans in blast)+
qed

lemma inside_same_out: "inside dest s \<Longrightarrow> same_out s t \<Longrightarrow> inside dest t"
  by (simp add: inside_def same_out_def)

lemma same_out_goes:
  assumes "ready dest s" and "same_out s t" and "aligned t" and "position s \<le> position t"
  shows "goes dest s t"
  using assms inside_same_out [of dest s t]
  by (auto simp: goes_def ready_def after_def same_out_def input_small_def input_ok_def)

lemma same_out_stops: "ready dest s \<Longrightarrow> same_out s t \<Longrightarrow> stops dest s t"
  using inside_same_out [of dest s t] by (auto simp: stops_def ready_def same_out_def)

lemma bits_goes:
  assumes "ready dest s"
  shows "outcome (bits n s) (\<lambda>v t. v < 2 ^ n \<and> goes dest s t) (stops dest s)"
proof -
  have al: "aligned s" using assms by (simp add: ready_def)
  note a = aligned_seek [OF al]
  show ?thesis
  proof (cases "bits n s")
    case (Done v t)
    have "position s + n \<le> 8 * ps_inlen s"
      using bits_out_of_input [OF a(3,2), of n] a(1) Done by fastforce
    then have "t = seek (position s + n) s"
      using bits_at [OF a(3), of "position s" n] a(1) Done by simp
    then have "position s \<le> position t" by simp
    then show ?thesis
      using Done bits_outcome [OF al, of n] same_out_goes [OF assms] by simp
  next
    case (Jumped t)
    then show ?thesis
      using bits_outcome [OF al, of n] same_out_stops [OF assms] by simp
  next
    case Wild
    then show ?thesis using bits_outcome [OF al, of n] by simp
  qed
qed

section \<open>Literals and matches\<close>

lemma position_out [simp]:
  "position (s\<lparr>ps_out := x\<rparr>) = position s" "position (s\<lparr>ps_outcnt := n\<rparr>) = position s"
  by (simp_all add: position_def)

lemma aligned_out [simp]: "aligned (s\<lparr>ps_out := x, ps_outcnt := n\<rparr>) = aligned s"
proof -
  have "seek p (s\<lparr>ps_out := x, ps_outcnt := n\<rparr>) = (seek p s)\<lparr>ps_out := x, ps_outcnt := n\<rparr>" for p
    by (simp add: seek_def Let_def src_bits_def)
  moreover have "s\<lparr>ps_out := x, ps_outcnt := n\<rparr> = (seek p s)\<lparr>ps_out := x, ps_outcnt := n\<rparr> \<longleftrightarrow>
      s = seek p s" for p
    by (cases s) (auto simp: seek_def Let_def)
  ultimately show ?thesis
    by (simp add: aligned_def input_ok_def)
qed

lemma put_out_goes:
  assumes "ready dest s" and "ps_outcnt s < ps_outlen s"
  shows "outcome (put_out b s)
    (\<lambda>_ t. goes dest s t \<and> ps_outcnt t = ps_outcnt s + 1) (stops dest s)"
proof -
  obtain d where d: "ps_out s = Some d" "length d = length dest"
    "drop (ps_outlen s) d = drop (ps_outlen s) dest"
    using assms(1) by (auto simp: ready_def inside_def)
  have b: "ps_outlen s \<le> length dest" "ps_outlen s + 2 ^ 16 \<le> 2 ^ 32"
    using assms(1) by (auto simp: ready_def inside_def)
  have w: "wrap32 (ps_outcnt s + 1) = ps_outcnt s + 1"
    using assms(2) b by (simp add: wrap32_def)
  have "ready dest (s\<lparr>ps_out := Some (d[ps_outcnt s := b]), ps_outcnt := ps_outcnt s + 1\<rparr>)"
    using assms d b by (simp add: ready_def input_small_def input_ok_def inside_def drop_update_cancel)
  then show ?thesis
    using d b w assms(2) by (simp add: put_out_def goes_def after_def)
qed

lemma out_at_goes:
  assumes "ready dest s" and "i < ps_outlen s"
  shows "outcome (out_at i s) (\<lambda>_ t. t = s) J"
  using assms by (auto simp: out_at_def ready_def inside_def)

lemma copy_back_goes:
  assumes "ready dest s" and "1 \<le> dist" and "dist \<le> ps_outcnt s"
    and "ps_outcnt s + n \<le> ps_outlen s"
  shows "outcome (copy_back dist n s) (\<lambda>_ t. goes dest s t) (stops dest s)"
  using assms
proof (induction n arbitrary: s)
  case 0
  then show ?case by (simp add: goes_refl)
next
  case (Suc n)
  have one: "outcome (out_at (ps_outcnt s - dist) s) (\<lambda>_ t. t = s) (stops dest s)"
    by (rule out_at_goes [OF Suc.prems(1)]) (use Suc.prems in simp)
  have rest: "outcome (pr_bind (put_out b s) (\<lambda>_ t. copy_back dist n t))
      (\<lambda>_ t. goes dest s t) (stops dest s)" for b
  proof (rule outcome_bind)
    show "outcome (put_out b s) (\<lambda>_ t. goes dest s t \<and> ps_outcnt t = ps_outcnt s + 1) (stops dest s)"
      by (rule put_out_goes [OF Suc.prems(1)]) (use Suc.prems in simp)
    fix t assume t: "goes dest s t \<and> ps_outcnt t = ps_outcnt s + 1"
    have "outcome (copy_back dist n t) (\<lambda>_ u. goes dest t u) (stops dest t)"
      by (rule Suc.IH) (use t Suc.prems in \<open>auto simp: goes_def after_def\<close>)
    then show "outcome (copy_back dist n t) (\<lambda>_ t. goes dest s t) (stops dest s)"
      by (rule outcome_mono) (use t goes_trans stops_trans in blast)+
  qed
  show ?case
    unfolding copy_back.simps by (rule outcome_bind [OF one]) (use rest in simp)
qed

lemma ready_small: "ready dest s \<Longrightarrow> n < 2 ^ 16 \<Longrightarrow> wrap32 (ps_outcnt s + n) = ps_outcnt s + n"
  by (auto simp: ready_def inside_def wrap32_def)

lemma ready_out: "ready dest s \<Longrightarrow> ps_out s \<noteq> None \<and> ps_outcnt s \<le> ps_outlen s"
  by (auto simp: ready_def inside_def)

lemma write_literal_goes:
  assumes "ready dest s"
  shows "outcome (write_literal x s) (\<lambda>_ t. goes dest s t) (stops dest s)"
proof (cases "ps_outcnt s = ps_outlen s")
  case True
  then show ?thesis
    using ready_out [OF assms] by (auto simp: write_literal_def goes_refl [OF assms])
next
  case False
  then have "outcome (put_out (word_of_int x) s)
      (\<lambda>_ t. goes dest s t \<and> ps_outcnt t = ps_outcnt s + 1) (stops dest s)"
    using put_out_goes [OF assms] ready_out [OF assms] by simp
  then have "outcome (pr_bind (put_out (word_of_int x) s) (\<lambda>_ s1. Done (None :: int option) s1))
      (\<lambda>_ t. goes dest s t) (stops dest s)"
    by (rule outcome_bind) simp
  then show ?thesis
    using False ready_out [OF assms] by (auto simp: write_literal_def)
qed

lemma copy_match_goes:
  assumes "ready dest s" and "1 \<le> dist" and "n < 2 ^ 16"
  shows "outcome (copy_match dist n s) (\<lambda>_ t. goes dest s t) (stops dest s)"
proof (cases "dist \<le> ps_outcnt s \<and> ps_outcnt s + n \<le> ps_outlen s")
  case True
  then have "outcome (pr_bind (copy_back dist n s) (\<lambda>_ s1. Done (None :: int option) s1))
      (\<lambda>_ t. goes dest s t) (stops dest s)"
    using copy_back_goes [OF assms(1,2)] by (auto intro!: outcome_bind)
  then show ?thesis
    using True ready_out [OF assms(1)] ready_small [OF assms(1,3)] by (auto simp: copy_match_def)
next
  case False
  then show ?thesis
    using ready_out [OF assms(1)] ready_small [OF assms(1,3)]
    by (auto simp: copy_match_def goes_refl [OF assms(1)])
qed

section \<open>Blocks of codes\<close>

lemma decode_goes:
  assumes "sound_table n h" and "ready dest s"
  shows "outcome (decode h s)
    (\<lambda>x t. (x = -9 \<and> stops dest s t \<or> 0 \<le> x \<and> x < n \<and> goes dest s t)) (stops dest s)"
proof -
  have "outcome (decode h s)
      (\<lambda>x t. same_out s t \<and> (x = -9 \<or> 0 \<le> x \<and> x < n \<and> aligned t \<and> position s \<le> position t))
      (same_out s)"
    using decode_outcome [OF assms(1)] assms(2) by (simp add: ready_def)
  then show ?thesis
    by (rule outcome_mono) (use same_out_goes [OF assms(2)] same_out_stops [OF assms(2)] in auto)
qed

text \<open>A routine that returns: after an error the state only keeps the output inside.\<close>

abbreviation returns :: "bytes \<Rightarrow> puff_state \<Rightarrow> int option puff_res \<Rightarrow> bool" where
  "returns dest s r \<equiv> outcome r
     (\<lambda>e t. stops dest s t \<and> (e = None \<or> e = Some 0 \<longrightarrow> goes dest s t)) (stops dest s)"

lemma goes_stops: "goes dest s t \<Longrightarrow> stops dest s t"
  by (simp add: goes_def ready_def stops_def after_def)

lemma returnsI:
  assumes "outcome r (\<lambda>_ t. goes dest s t) (stops dest s)"
  shows "returns dest s r"
  by (rule outcome_mono [OF assms]) (auto simp: goes_stops)

lemma returns_later:
  assumes "returns dest t r" and "goes dest s t"
  shows "returns dest s r"
  by (rule outcome_mono [OF assms(1)])
    (use assms(2) goes_trans stops_trans in blast)+

lemma read_match_returns:
  assumes "sound_table n dc" and "n \<le> 30" and "ready dest s" and "257 \<le> x"
  shows "returns dest s (read_match dc x s)"
proof (cases "x - 257 \<ge> 29")
  case True
  then show ?thesis
    using goes_stops [OF goes_refl [OF assms(3)]] by (simp add: read_match_def)
next
  case False
  let ?i = "nat (x - 257)"
  have i: "?i < 29" using False assms(4) by simp
  have "returns dest s (pr_bind (bits (lext ! ?i) s) (\<lambda>extra s1.
      pr_bind (decode dc s1) (\<lambda>dsym s2.
        if dsym < 0 then Done (Some dsym) s2
        else if dsym \<ge> 30 then Wild
        else pr_bind (bits (dext ! nat dsym) s2) (\<lambda>dextra s3.
               copy_match (dists ! nat dsym + dextra) (lens ! ?i + extra) s3))))"
  proof (rule outcome_bind [OF bits_goes [OF assms(3)]])
    fix e :: nat and s1 assume e: "e < 2 ^ (lext ! ?i) \<and> goes dest s s1"
    then have r1: "ready dest s1" by (simp add: goes_def)
    show "returns dest s (pr_bind (decode dc s1) (\<lambda>dsym s2.
        if dsym < 0 then Done (Some dsym) s2
        else if dsym \<ge> 30 then Wild
        else pr_bind (bits (dext ! nat dsym) s2) (\<lambda>dextra s3.
               copy_match (dists ! nat dsym + dextra) (lens ! ?i + e) s3)))"
    proof (rule returns_later [OF _ conjunct2 [OF e]], rule outcome_bind [OF decode_goes [OF assms(1) r1]])
      fix d s2 assume d: "d = -9 \<and> stops dest s1 s2 \<or> 0 \<le> d \<and> d < n \<and> goes dest s1 s2"
      show "returns dest s1 (if d < 0 then Done (Some d) s2 else if d \<ge> 30 then Wild
          else pr_bind (bits (dext ! nat d) s2) (\<lambda>dextra s3.
                 copy_match (dists ! nat d + dextra) (lens ! ?i + e) s3))"
      proof (cases "d < 0")
        case True
        then show ?thesis using d by auto
      next
        case False
        then have d': "0 \<le> d" "d < 30" "goes dest s1 s2"
          using d assms(2) by auto
        then have r2: "ready dest s2" by (simp add: goes_def)
        have "outcome (pr_bind (bits (dext ! nat d) s2) (\<lambda>dextra s3.
            copy_match (dists ! nat d + dextra) (lens ! ?i + e) s3))
            (\<lambda>_ t. True \<and> goes dest s2 t) (stops dest s2)"
        proof (rule outcome_then [OF bits_goes [OF r2]])
          fix v t assume "goes dest s2 t"
          then have "ready dest t" by (simp add: goes_def)
          moreover have "1 \<le> dists ! nat d + v"
            using dists_pos [of "nat d"] d' by (simp add: trans_le_add1)
          moreover have "lens ! ?i + e < 2 ^ 16"
            using lens_bounds [OF i] e by blast
          ultimately show "outcome (copy_match (dists ! nat d + v) (lens ! ?i + e) t)
              (\<lambda>_ u. True \<and> goes dest t u) (stops dest t)"
            using copy_match_goes by simp
        qed
        then have "returns dest s2 (pr_bind (bits (dext ! nat d) s2) (\<lambda>dextra s3.
            copy_match (dists ! nat d + dextra) (lens ! ?i + e) s3))"
          by (intro returnsI) simp
        from returns_later [OF this d'(3)] show ?thesis
          using d' by simp
      qed
    qed
  qed
  then show ?thesis
    using False by (simp add: read_match_def Let_def)
qed

lemma codes_body_returns:
  assumes "sound_table m lc" and "sound_table n dc" and "n \<le> 30" and "ready dest s"
  shows "returns dest s (codes_body lc dc s)"
  unfolding codes_body_def
proof (rule outcome_bind [OF decode_goes [OF assms(1,4)]])
  fix x t assume x: "x = -9 \<and> stops dest s t \<or> 0 \<le> x \<and> x < m \<and> goes dest s t"
  show "returns dest s (if x < 0 then Done (Some x) t else if x < 256 then write_literal x t
      else if x > 256 then read_match dc x t else Done (Some 0) t)"
  proof (cases "x < 0")
    case True
    then show ?thesis using x by auto
  next
    case False
    then have g: "goes dest s t" and r: "ready dest t"
      using x by (auto simp: goes_def)
    have "returns dest t (if x < 256 then write_literal x t
        else if x > 256 then read_match dc x t else Done (Some 0) t)"
      using returnsI [OF write_literal_goes [OF r]] read_match_returns [OF assms(2,3) r, of x]
        goes_refl [OF r] goes_stops by auto
    from returns_later [OF this g] show ?thesis
      using False by simp
  qed
qed

text \<open>The result of a block: where it returns 0 the state is ready again.\<close>

abbreviation block_returns :: "bytes \<Rightarrow> puff_state \<Rightarrow> int puff_res \<Rightarrow> bool" where
  "block_returns dest s r \<equiv> outcome r
     (\<lambda>e t. stops dest s t \<and> (e = 0 \<longrightarrow> goes dest s t)) (stops dest s)"

lemma codes_returns:
  assumes "sound_table m lc" and "sound_table n dc" and "n \<le> 30" and "ready dest s"
  shows "block_returns dest s (codes lc dc s)"
  using assms
proof (induction lc dc s rule: codes.induct)
  case (1 lc dc s)
  show ?case
  proof (subst codes.simps, rule outcome_bind [OF outcome_mono])
    have "codes_body lc dc s = codes_body lc dc s" by simp
    show "outcome (codes_body lc dc s) (\<lambda>r t. codes_body lc dc s = Done r t \<and> stops dest s t \<and>
        (r = None \<or> r = Some 0 \<longrightarrow> goes dest s t)) (stops dest s)"
      using codes_body_returns [OF "1.prems"] by (cases "codes_body lc dc s") auto
    fix r t assume a: "codes_body lc dc s = Done r t \<and> stops dest s t \<and>
        (r = None \<or> r = Some 0 \<longrightarrow> goes dest s t)"
    show "block_returns dest s (case r of None \<Rightarrow> codes lc dc t | Some err \<Rightarrow> Done err t)"
    proof (cases r)
      case None
      then have g: "goes dest s t" using a by simp
      then have "block_returns dest t (codes lc dc t)"
        using "1.IH" [of r t] a None "1.prems" by (simp add: goes_def)
      then have "block_returns dest s (codes lc dc t)"
        by (rule outcome_mono) (use g goes_trans stops_trans in blast)+
      then show ?thesis using None by simp
    next
      case (Some e)
      then show ?thesis using a by simp
    qed
  qed simp_all
qed

end
