(* ===== verification/Puff_Ends.thy ===== *)
theory Puff_Ends
  imports Puff_Bounds
begin

text \<open>Stored and dynamic blocks on any input, and all of \<open>puff\<close>: it ends, and stays
  inside its memory but for a dynamic block with an empty code for the code lengths.\<close>

section \<open>Stored blocks\<close>

lemma raw_byte_goes:
  assumes "ready dest s" and "ps_bitcnt s = 0" and "ps_incnt s < ps_inlen s"
  shows "outcome (raw_byte s) (\<lambda>_ t. goes dest s t \<and> ps_bitcnt t = 0 \<and>
    ps_incnt t = ps_incnt s + 1 \<and> ps_outcnt t = ps_outcnt s) (stops dest s)"
proof -
  have al: "aligned s" using assms(1) by (simp add: ready_def)
  note a = aligned_seek [OF al]
  have p: "position s = 8 * ps_incnt s"
    using assms(2) by (simp add: position_def)
  have s: "s = s\<lparr>ps_incnt := ps_incnt s, ps_bitcnt := 0, ps_bitbuf := 0\<rparr>"
    using a(1) unfolding p seek_byte .
  then have b: "ps_bitbuf s = 0"
    by (metis puff_state.select_convs(7) puff_state.surjective puff_state.update_convs(7))
  have t: "s\<lparr>ps_incnt := ps_incnt s + 1\<rparr> = seek (8 * (ps_incnt s + 1)) s"
    unfolding seek_byte using assms(2) b by (cases s) simp
  have "goes dest s (seek (8 * (ps_incnt s + 1)) s)"
    by (rule same_out_goes [OF assms(1) _ seek_aligned [OF a(3)]]) (use assms(3) p in simp_all)
  moreover have "ps_incnt s < length (ps_in s)"
    using assms(3) a(3) by (simp add: input_ok_def)
  ultimately show ?thesis
    unfolding raw_byte_def t [symmetric] using assms(2) by simp
qed

lemma put_out_reader: "put_out b s = Done u t \<Longrightarrow> ps_incnt t = ps_incnt s \<and> ps_bitcnt t = ps_bitcnt s"
  by (auto simp: put_out_def split: option.splits if_splits)

lemma copy_in_goes:
  assumes "ready dest s" and "ps_bitcnt s = 0" and "ps_incnt s + n \<le> ps_inlen s"
    and "ps_outcnt s + n \<le> ps_outlen s"
  shows "outcome (copy_in n s) (\<lambda>_ t. goes dest s t) (stops dest s)"
  using assms
proof (induction n arbitrary: s)
  case 0
  then show ?case by (simp add: goes_refl)
next
  case (Suc n)
  have r: "outcome (raw_byte s) (\<lambda>_ t. goes dest s t \<and> ps_bitcnt t = 0 \<and>
      ps_incnt t = ps_incnt s + 1 \<and> ps_outcnt t = ps_outcnt s) (stops dest s)"
    by (rule raw_byte_goes) (use Suc.prems in simp_all)
  show ?case
    unfolding copy_in.simps
  proof (rule outcome_bind [OF r])
    fix b t assume t: "goes dest s t \<and> ps_bitcnt t = 0 \<and> ps_incnt t = ps_incnt s + 1 \<and>
        ps_outcnt t = ps_outcnt s"
    then have len: "ps_inlen t = ps_inlen s" "ps_outlen t = ps_outlen s" and rt: "ready dest t"
      by (auto simp: goes_def after_def)
    have w: "outcome (put_out b t) (\<lambda>_ u. goes dest t u \<and> ps_outcnt u = ps_outcnt t + 1) (stops dest t)"
      by (rule put_out_goes [OF rt]) (use t len Suc.prems in simp)
    have "outcome (put_out b t) (\<lambda>_ u. goes dest t u \<and> ps_outcnt u = ps_outcnt t + 1 \<and>
        ps_incnt u = ps_incnt t \<and> ps_bitcnt u = 0) (stops dest t)"
      using w put_out_reader [of b t] t by (cases "put_out b t") auto
    then have "outcome (pr_bind (put_out b t) (\<lambda>_ s2. copy_in n s2)) (\<lambda>_ u. goes dest t u) (stops dest t)"
    proof (rule outcome_bind)
      fix u assume u: "goes dest t u \<and> ps_outcnt u = ps_outcnt t + 1 \<and>
        ps_incnt u = ps_incnt t \<and> ps_bitcnt u = 0"
      have "outcome (copy_in n u) (\<lambda>_ v. goes dest u v) (stops dest u)"
        by (rule Suc.IH) (use u t len Suc.prems in \<open>auto simp: goes_def after_def\<close>)
      then show "outcome (copy_in n u) (\<lambda>_ v. goes dest t v) (stops dest t)"
        by (rule outcome_mono) (use u goes_trans stops_trans in blast)+
    qed
    then show "outcome (pr_bind (put_out b t) (\<lambda>_ s2. copy_in n s2)) (\<lambda>_ u. goes dest s u) (stops dest s)"
      by (rule outcome_mono) (use t goes_trans stops_trans in blast)+
  qed
qed

lemma block_later:
  assumes "block_returns dest t r" and "goes dest s t"
  shows "block_returns dest s r"
  by (rule outcome_mono [OF assms(1)]) (use assms(2) goes_trans stops_trans in blast)+

lemma raw_byte_chain:
  assumes "ready dest s" and "k < ps_inlen s"
    and "goes dest s t \<and> ps_bitcnt t = 0 \<and> ps_incnt t = k \<and> ps_outcnt t = ps_outcnt s"
    and "\<And>b u. goes dest s u \<and> ps_bitcnt u = 0 \<and> ps_incnt u = k + 1 \<and> ps_outcnt u = ps_outcnt s \<Longrightarrow>
      block_returns dest s (f b u)"
  shows "block_returns dest s (pr_bind (raw_byte t) f)"
proof (rule outcome_bind)
  have t: "ready dest t" "ps_inlen t = ps_inlen s"
    using assms(3) by (auto simp: goes_def after_def)
  have "outcome (raw_byte t) (\<lambda>_ u. goes dest t u \<and> ps_bitcnt u = 0 \<and>
      ps_incnt u = ps_incnt t + 1 \<and> ps_outcnt u = ps_outcnt t) (stops dest t)"
    by (rule raw_byte_goes) (use t assms in simp_all)
  then show "outcome (raw_byte t) (\<lambda>_ u. goes dest s u \<and> ps_bitcnt u = 0 \<and> ps_incnt u = k + 1 \<and>
      ps_outcnt u = ps_outcnt s) (stops dest s)"
    by (rule outcome_mono) (use assms(3) goes_trans stops_trans in auto)
qed (rule assms(4))

lemma stored_len_16: "unat ((ucast (b0 :: byte) :: u32) OR push_bit 8 (ucast (b1 :: byte))) < 2 ^ 16"
proof -
  have eq: "(ucast b0 :: u32) OR push_bit 8 (ucast b1) = take_bit 16 (ucast b0 OR push_bit 8 (ucast b1))"
    by (rule bit_word_eqI) (auto simp: bit_simps dest: bit_imp_le_length)
  have "unat (take_bit 16 w :: u32) < 2 ^ 16" for w
    unfolding unsigned_take_bit_eq by (rule take_bit_nat_less_exp)
  then show ?thesis
    by (subst eq)
qed

lemma stored_copy:
  assumes "ready dest s" and "ps_bitcnt s = 0" and "n < 2 ^ 16"
  shows "block_returns dest s
    (if wrap32 (ps_incnt s + n) > ps_inlen s then Done 2 s
     else if ps_out s \<noteq> None
     then (if wrap32 (ps_outcnt s + n) > ps_outlen s then Done 1 s
           else pr_bind (copy_in n s) (\<lambda>_ s5. Done 0 s5))
     else Done 0 (s\<lparr>ps_outcnt := wrap32 (ps_outcnt s + n), ps_incnt := wrap32 (ps_incnt s + n)\<rparr>))"
proof -
  have s: "stops dest s s"
    by (rule goes_stops [OF goes_refl [OF assms(1)]])
  have "ps_incnt s \<le> ps_inlen s" "input_small s"
    using assms(1) by (simp_all add: ready_def aligned_def)
  then have w: "wrap32 (ps_incnt s + n) = ps_incnt s + n"
    using assms(3) by (simp add: wrap32_def input_small_def)
  note w2 = ready_small [OF assms(1,3)]
  have "block_returns dest s (pr_bind (copy_in n s) (\<lambda>_ s5. Done 0 s5))"
    if "ps_incnt s + n \<le> ps_inlen s" "ps_outcnt s + n \<le> ps_outlen s"
    by (rule outcome_bind [OF copy_in_goes [OF assms(1,2) that]]) (simp add: goes_stops)
  then show ?thesis
    using s ready_out [OF assms(1)] unfolding w w2 by auto
qed

lemma stored_returns:
  assumes "ready dest s"
  shows "block_returns dest s (stored s)"
proof -
  let ?s = "s\<lparr>ps_bitbuf := 0, ps_bitcnt := 0\<rparr>" and ?k = "ps_incnt s"
  have al: "aligned s" and small: "input_small s"
    using assms by (simp_all add: ready_def)
  have kin: "?k \<le> ps_inlen s" and ok: "input_ok s"
    using al by (simp_all add: aligned_def)
  have "?s = seek (8 * ?k) s"
    unfolding seek_byte by (cases s) simp
  moreover have "position s \<le> 8 * ?k"
    by (simp add: position_def)
  moreover have "goes dest s (seek (8 * ?k) s)" if "position s \<le> 8 * ?k"
    by (rule same_out_goes [OF assms _ seek_aligned [OF ok]]) (use kin that in simp_all)
  ultimately have g: "goes dest s ?s"
    by (simp only:)
  have w4: "wrap32 (?k + 4) = ?k + 4"
    using kin small by (simp add: wrap32_def input_small_def)
  show ?thesis
  proof (cases "?k + 4 \<le> ps_inlen s")
    case False
    then show ?thesis
      using w4 goes_stops [OF g] by (simp add: stored_def Let_def)
  next
    case True
    have three: "block_returns dest s (pr_bind (raw_byte ?s) (\<lambda>b0 s1. pr_bind (raw_byte s1) (\<lambda>b1 s2.
        pr_bind (raw_byte s2) (\<lambda>b2 s3. f b0 b1 b2 s3))))"
      if "\<And>b0 b1 b2 t. goes dest s t \<and> ps_bitcnt t = 0 \<and> ps_incnt t = ?k + 1 + 1 + 1 \<and>
        ps_outcnt t = ps_outcnt s \<Longrightarrow> block_returns dest s (f b0 b1 b2 t)" for f
      by (rule raw_byte_chain [OF assms, of ?k], use True in simp, use g in simp,
          rule raw_byte_chain [OF assms, of "?k + 1"], use True in simp, assumption,
          rule raw_byte_chain [OF assms, of "?k + 1 + 1"], use True in simp, assumption)
        (rule that)
    have four: "block_returns dest s (if bad then Done (-2) t else pr_bind (raw_byte t) f)"
      if "goes dest s t \<and> ps_bitcnt t = 0 \<and> ps_incnt t = ?k + 1 + 1 + 1 \<and> ps_outcnt t = ps_outcnt s"
        and "\<And>b u. goes dest s u \<Longrightarrow> ps_bitcnt u = 0 \<Longrightarrow> block_returns dest u (f b u)" for bad t f
    proof (cases bad)
      case True
      then show ?thesis using that(1) goes_stops by simp
    next
      case False
      have "block_returns dest s (pr_bind (raw_byte t) f)"
        by (rule raw_byte_chain [OF assms _ that(1)], use True in simp,
            rule block_later [OF that(2)]) simp_all
      then show ?thesis using False by simp
    qed
    have last: "block_returns dest u (if bad then Done (-2) u else r)"
      if "goes dest s u" "block_returns dest u r" for bad u r
      using that goes_refl goes_stops by (auto simp: goes_def)
    have "\<not> ps_inlen ?s < wrap32 (ps_incnt ?s + 4)"
      using w4 True by simp
    then show ?thesis
      unfolding stored_def Let_def
      by (subst if_not_P, assumption, intro three four last stored_copy stored_len_16)
        (simp_all add: goes_def)
  qed
qed

section \<open>Dynamic blocks\<close>

definition fits :: "int list \<Rightarrow> bool" where
  "fits ls \<longleftrightarrow> length ls = maxcodes \<and> lengths_ok ls"

lemma fits_update: "fits ls \<Longrightarrow> 0 \<le> l \<Longrightarrow> l \<le> int maxbits \<Longrightarrow> fits (ls[i := l])"
  using set_update_subset_insert [of ls i l] by (auto simp: fits_def lengths_ok_def)

lemma fits_clear: "fits ls \<Longrightarrow> fits (clear_lengths is ls)"
  by (induction "is" ls rule: clear_lengths.induct) (simp_all add: fits_update)

lemma fits_repeat: "fits ls \<Longrightarrow> 0 \<le> l \<Longrightarrow> l \<le> int maxbits \<Longrightarrow> fits (repeat_length n i l ls)"
  by (induction n i l ls rule: repeat_length.induct) (simp_all add: fits_update)

lemma fits_nth: "fits ls \<Longrightarrow> i < maxcodes \<Longrightarrow> 0 \<le> ls ! i \<and> ls ! i \<le> int maxbits"
  by (simp add: fits_def lengths_ok_def)

lemma fits_take: "fits ls \<Longrightarrow> lengths_ok (take n (drop m ls))"
  by (auto simp: fits_def lengths_ok_def dest!: in_set_takeD in_set_dropD)

lemma read_code_lengths_goes:
  assumes "ready dest s" and "fits ls"
  shows "outcome (read_code_lengths is ls s) (\<lambda>ls' t. fits ls' \<and> goes dest s t) (stops dest s)"
  using assms
proof (induction "is" arbitrary: ls s)
  case Nil
  then show ?case by (simp add: goes_refl)
next
  case (Cons i "is" ls s)
  show ?case
    unfolding read_code_lengths.simps
  proof (rule outcome_then [OF bits_goes [OF Cons.prems(1)]])
    fix l t assume "(l :: nat) < 2 ^ 3" and g: "goes dest s t"
    then have "fits (ls[i := int l])"
      by (intro fits_update [OF Cons.prems(2)]) (simp_all add: maxbits_def)
    moreover have "ready dest t" using g by (simp add: goes_def)
    ultimately show "outcome (read_code_lengths is (ls[i := int l]) t)
        (\<lambda>ls' u. fits ls' \<and> goes dest t u) (stops dest t)"
      by (intro Cons.IH)
  qed
qed

text \<open>The code of a complete set never fails to decode.\<close>

definition never_fails :: "huffman \<Rightarrow> bool" where
  "never_fails h \<longleftrightarrow> (\<forall>s t. aligned s \<longrightarrow> decode h s \<noteq> Done (-9) t)"

abbreviation turn :: "nat \<Rightarrow> int + nat \<times> int list \<Rightarrow> bool" where
  "turn lim r \<equiv> (case r of Inl e \<Rightarrow> e \<noteq> 0 | Inr (i, ls) \<Rightarrow> i \<le> lim \<and> fits ls)"

lemma fill_lengths_turn:
  assumes "fits ls" and "0 \<le> l" and "l \<le> int maxbits" and "ready dest s"
  shows "outcome (fill_lengths lim i ls l n s) (\<lambda>r t. turn lim r \<and> goes dest s t) (stops dest s)"
  using assms by (simp add: fill_lengths_def fits_repeat goes_refl)

lemma read_length_turn:
  assumes "sound_table 19 h" and "never_fails h" and "ready dest s" and "fits ls"
    and "i < lim" and "lim \<le> maxcodes"
  shows "outcome (read_length h lim i ls s) (\<lambda>r t. turn lim r \<and> goes dest s t) (stops dest s)"
proof -
  have "outcome (decode h s) (\<lambda>x t. (0 \<le> x \<and> x < 19) \<and> goes dest s t) (stops dest s)"
    using decode_goes [OF assms(1,3)] assms(2,3) by (cases "decode h s") (auto simp: never_fails_def ready_def)
  then show ?thesis
    unfolding read_length_def
  proof (rule outcome_then)
    fix x t assume x: "0 \<le> x \<and> x < (19 :: int)" and g: "goes dest s t"
    have r: "ready dest t" using g by (simp add: goes_def)
    have fill: "outcome (pr_bind (bits k t) (\<lambda>n s2. fill_lengths lim i ls l (m + n) s2))
        (\<lambda>r u. turn lim r \<and> goes dest t u) (stops dest t)" if "0 \<le> l" "l \<le> int maxbits" for i k l m
      by (rule outcome_then [OF bits_goes [OF r]], rule fill_lengths_turn [OF assms(4) that])
        (simp add: goes_def)
    have last: "0 \<le> ls ! (i - 1) \<and> ls ! (i - 1) \<le> int maxbits"
      by (rule fits_nth [OF assms(4)]) (use assms(5,6) in simp)
    show "outcome
        (if x < 16 then Done (Inr (i + 1, ls[i := x])) t
         else if x = 16
         then (if i = 0 then Done (Inl (-5)) t
               else pr_bind (bits 2 t) (\<lambda>n s2. fill_lengths lim i ls (ls ! (i - 1)) (3 + n) s2))
         else if x = 17 then pr_bind (bits 3 t) (\<lambda>n s2. fill_lengths lim i ls 0 (3 + n) s2)
         else pr_bind (bits 7 t) (\<lambda>n s2. fill_lengths lim i ls 0 (11 + n) s2))
        (\<lambda>r u. turn lim r \<and> goes dest t u) (stops dest t)"
      using x assms(5) fits_update [OF assms(4), of x i] goes_refl [OF r] fill [of 0] fill last
      by (simp add: maxbits_def)
  qed
qed

lemma read_lengths_goes:
  assumes "sound_table 19 h" and "never_fails h" and "ready dest s" and "fits ls"
    and "i \<le> lim" and "lim \<le> maxcodes"
  shows "outcome (read_lengths h lim i ls s)
    (\<lambda>r t. (case r of Inl e \<Rightarrow> e \<noteq> 0 | Inr ls' \<Rightarrow> fits ls') \<and> goes dest s t) (stops dest s)"
  using assms
proof (induction h lim i ls s rule: read_lengths.induct)
  case (1 h lim i ls s)
  show ?case
  proof (cases "i < lim")
    case False
    then show ?thesis
      using "1.prems"(3,4) by (subst read_lengths.simps) (simp add: goes_refl)
  next
    case True
    have step: "outcome (read_length h lim i ls s)
        (\<lambda>r t. (turn lim r \<and> read_length h lim i ls s = Done r t) \<and> goes dest s t) (stops dest s)"
      using read_length_turn [OF "1.prems"(1-4) True "1.prems"(6)]
      by (cases "read_length h lim i ls s") auto
    have "outcome (pr_bind (read_length h lim i ls s) (\<lambda>r s1. case r of
          Inl err \<Rightarrow> Done (Inl err) s1
        | Inr p \<Rightarrow> read_lengths h lim (fst p) (snd p) s1))
        (\<lambda>r t. (case r of Inl e \<Rightarrow> e \<noteq> 0 | Inr ls' \<Rightarrow> fits ls') \<and> goes dest s t) (stops dest s)"
    proof (rule outcome_then [OF step])
      fix r t assume a: "turn lim r \<and> read_length h lim i ls s = Done r t" and g: "goes dest s t"
      have rt: "ready dest t" using g by (simp add: goes_def)
      show "outcome (case r of Inl err \<Rightarrow> Done (Inl err) t
          | Inr p \<Rightarrow> read_lengths h lim (fst p) (snd p) t)
          (\<lambda>r u. (case r of Inl e \<Rightarrow> e \<noteq> 0 | Inr ls' \<Rightarrow> fits ls') \<and> goes dest t u) (stops dest t)"
      proof (cases r)
        case (Inl e)
        then show ?thesis using a goes_refl [OF rt] by simp
      next
        case (Inr p)
        then show ?thesis
          using a "1.IH" [OF True _ Inr, of t] "1.prems" rt by (cases p) simp
      qed
    qed
    then show ?thesis
      using True by (simp add: read_lengths.simps [of h lim i ls s])
  qed
qed

text \<open>All of \<open>puff\<close> on any input: it ends, and stays inside its memory but for a
  dynamic block with an empty code for the code lengths, which the code builds a table
  from and decodes with.\<close>

section \<open>Dynamic blocks\<close>

lemma table_of_sound:
  assumes "lengths_ok ls" and "length ls \<le> m" and "int (length ls) \<le> n" and "0 < n"
  shows "sound_table n (table_of m ls)"
proof -
  have m: "length (hf_symbol (new_huffman m)) = m"
    by (simp add: new_huffman_def)
  obtain h left where "construct (new_huffman m) ls = Some (h, left)"
    using construct_defined [of ls "new_huffman m"] assms(1,2) m by auto
  then show ?thesis
    using construct_sound [OF _ assms(1) new_sound [OF assms(4)]] assms(2,3) m
    by (simp add: table_of_def)
qed

lemma fixed_returns:
  assumes "ready dest s"
  shows "block_returns dest s (fixed s)"
proof -
  have "lengths_ok fixed_lengths" "length fixed_lengths = 288"
    by (simp_all add: lengths_ok_def fixed_lengths_def maxbits_def)
  then have "sound_table 288 fixed_lencode"
    unfolding fixed_lencode_def by (intro table_of_sound) (simp_all add: fixlcodes_def)
  moreover have "sound_table 30 fixed_distcode"
    unfolding fixed_distcode_def
    by (intro table_of_sound) (simp_all add: maxdcodes_def maxbits_def lengths_ok_def)
  ultimately show ?thesis
    unfolding fixed_def using codes_returns [OF _ _ _ assms] by blast
qed

lemma sound_mono: "sound_table n h \<Longrightarrow> n \<le> m \<Longrightarrow> sound_table m h"
  by (fastforce simp: sound_table_def)

lemma read_tables_returns:
  assumes "sound_table 19 h" and "length (hf_symbol h) = maxlcodes" and "fits ls"
    and "nlen \<le> maxlcodes" and "ndist \<le> maxdcodes" and "ready dest s"
  shows "block_returns dest s (read_tables h nlen ndist ls s)"
proof -
  note self = goes_stops [OF goes_refl [OF assms(6)]]
  have ok: "lengths_ok (take nlen ls)" "lengths_ok (take ndist (drop nlen ls))"
    using fits_take [OF assms(3), of nlen 0] fits_take [OF assms(3)] by simp_all
  obtain lc e where lc: "construct h (take nlen ls) = Some (lc, e)"
    using construct_defined [OF ok(1), of h] assms(2,4) by (auto simp: min.coboundedI2)
  have slc: "sound_table 286 lc"
    by (rule construct_sound(1) [OF lc ok(1) sound_mono [OF assms(1)]])
      (use assms(2,4) in \<open>simp_all add: maxlcodes_def\<close>)
  obtain dc e2 where dc: "construct (new_huffman maxdcodes) (take ndist (drop nlen ls)) = Some (dc, e2)"
    using construct_defined [OF ok(2), of "new_huffman maxdcodes"] assms(5)
    by (auto simp: new_huffman_def min.coboundedI2)
  have sdc: "sound_table 30 dc"
    by (rule construct_sound(1) [OF dc ok(2) new_sound])
      (use assms(5) in \<open>simp_all add: maxdcodes_def new_huffman_def\<close>)
  show ?thesis
    using self codes_returns [OF slc sdc _ assms(6)] lc dc by (simp add: read_tables_def)
qed

text \<open>The code lengths a dynamic block starts with, and the set of them that the check
  of \<open>dynamic\<close> lets through although no code can be decoded with it.\<close>

definition code_lengths :: "puff_state \<Rightarrow> int list puff_res" where
  "code_lengths s0 =
     pr_bind (bits 5 s0) (\<lambda>_ s1. pr_bind (bits 5 s1) (\<lambda>_ s2. pr_bind (bits 4 s2) (\<lambda>n s3.
       pr_bind (read_code_lengths (take (n + 4) order) (replicate maxcodes 0) s3) (\<lambda>ls s4.
         Done (take 19 (clear_lengths (drop (n + 4) order) ls)) s4))))"

definition empty_code_set :: "puff_state \<Rightarrow> bool" where
  "empty_code_set s =
     (case code_lengths s of Done ls _ \<Rightarrow> count_list ls 0 = length ls | _ \<Rightarrow> False)"

lemma outcome_eqn:
  "outcome r Q J \<Longrightarrow> outcome r (\<lambda>x t. Q x t \<and> r = Done x t) J"
  by (cases r) simp_all

lemma block_then:
  assumes "outcome r (\<lambda>x t. Q x \<and> goes dest s t) (stops dest s)"
    and "\<And>x t. Q x \<Longrightarrow> r = Done x t \<Longrightarrow> goes dest s t \<Longrightarrow> ready dest t \<Longrightarrow> block_returns dest t (f x t)"
  shows "block_returns dest s (pr_bind r f)"
proof (rule outcome_bind [OF outcome_eqn [OF assms(1)]])
  fix x t assume a: "(Q x \<and> goes dest s t) \<and> r = Done x t"
  then show "block_returns dest s (f x t)"
    by (intro block_later [OF assms(2)]) (auto simp: goes_def)
qed

lemma lengths_returns:
  assumes "fits ls" and "count_list (take 19 ls) 0 \<noteq> length (take 19 ls)"
    and "nlen \<le> maxlcodes" and "ndist \<le> maxdcodes" and "ready dest s"
  shows "block_returns dest s
    (case construct (new_huffman maxlcodes) (take 19 ls) of
       None \<Rightarrow> Wild
     | Some (lencode, err) \<Rightarrow>
         if err \<noteq> 0 then Done (-4) s
         else pr_bind (read_lengths lencode (nlen + ndist) 0 ls s) (\<lambda>r s5.
           case r of
             Inl e \<Rightarrow> Done e s5
           | Inr ls' \<Rightarrow> read_tables lencode nlen ndist ls' s5))"
proof -
  have ok: "lengths_ok (take 19 ls)"
    using fits_take [OF assms(1), of 19 0] by simp
  have new: "length (hf_symbol (new_huffman maxlcodes)) = maxlcodes" "19 \<le> maxlcodes"
    by (simp_all add: new_huffman_def maxlcodes_def)
  obtain h e where h: "construct (new_huffman maxlcodes) (take 19 ls) = Some (h, e)"
    using construct_defined [OF ok, of "new_huffman maxlcodes"] new by (auto simp: min.coboundedI2)
  have sh: "sound_table 19 h" and len: "length (hf_symbol h) = maxlcodes"
    using construct_sound [OF h ok new_sound [of 19]] new by (simp_all add: min.coboundedI2)
  show ?thesis
  proof (cases "e = 0")
    case False
    then show ?thesis
      using goes_stops [OF goes_refl [OF assms(5)]] h by simp
  next
    case True
    have "\<not> (\<exists>i. 0 \<le> i \<and> i < int (length (hf_symbol h)) \<and> hf_symbol h ! nat i = -9)"
    proof
      assume "\<exists>i. 0 \<le> i \<and> i < int (length (hf_symbol h)) \<and> hf_symbol h ! nat i = -9"
      then have "-9 \<in> set (hf_symbol h)"
        by (metis nat_less_iff nth_mem)
      then show False
        using sh by (auto simp: sound_table_def)
    qed
    then have "decode h u \<noteq> Done (-9) t" if "aligned u" for u t
      using complete_decode [OF ok _ _ assms(2) that, of "new_huffman maxlcodes" h t] h new True
      by (auto simp: min.coboundedI2)
    then have nf: "never_fails h"
      by (simp add: never_fails_def)
    have "block_returns dest s (pr_bind (read_lengths h (nlen + ndist) 0 ls s) (\<lambda>r s5.
        case r of Inl e \<Rightarrow> Done e s5 | Inr ls' \<Rightarrow> read_tables h nlen ndist ls' s5))"
    proof (rule block_then [OF read_lengths_goes [OF sh nf assms(5,1)]])
      fix r :: "int + int list" and t assume r: "case r of Inl e \<Rightarrow> e \<noteq> 0 | Inr ls' \<Rightarrow> fits ls'" and t: "ready dest t"
      show "block_returns dest t (case r of Inl e \<Rightarrow> Done e t
          | Inr ls' \<Rightarrow> read_tables h nlen ndist ls' t)"
        using r read_tables_returns [OF sh len _ assms(3,4) t] goes_stops [OF goes_refl [OF t]]
        by (cases r) auto
    qed (use assms(3,4) in \<open>simp_all add: maxcodes_def\<close>)
    then show ?thesis using h True by simp
  qed
qed

lemma dynamic_returns:
  assumes "ready dest s" and "\<not> empty_code_set s"
  shows "block_returns dest s (dynamic s)"
  unfolding dynamic_def Let_def
proof (rule block_then [OF bits_goes [OF assms(1)]],
    rule block_then [OF bits_goes], assumption, rule block_then [OF bits_goes], assumption)
  fix n1 n2 n3 s1 s2 s3
  assume r: "bits 5 s = Done n1 s1" "bits 5 s1 = Done n2 s2" "bits 4 s2 = Done n3 s3"
    and s3: "ready dest s3"
  let ?rest = "\<lambda>ls s4. case construct (new_huffman maxlcodes) (take 19 (clear_lengths (drop (n3 + 4) order) ls)) of
       None \<Rightarrow> Wild
     | Some (lencode, err) \<Rightarrow>
         if err \<noteq> 0 then Done (-4) s4
         else pr_bind (read_lengths lencode (n1 + 257 + (n2 + 1)) 0 (clear_lengths (drop (n3 + 4) order) ls) s4)
           (\<lambda>r s5. case r of Inl e \<Rightarrow> Done e s5
             | Inr ls' \<Rightarrow> read_tables lencode (n1 + 257) (n2 + 1) ls' s5)"
  have start: "fits (replicate maxcodes 0)"
    by (simp add: fits_def lengths_ok_def)
  have "block_returns dest s3
      (pr_bind (read_code_lengths (take (n3 + 4) order) (replicate maxcodes 0) s3) ?rest)"
    if "n1 + 257 \<le> maxlcodes" "n2 + 1 \<le> maxdcodes"
  proof (rule block_then [OF read_code_lengths_goes [OF s3 start]])
    fix ls s4
    assume ls: "fits ls" and s4: "ready dest s4"
      and rd: "read_code_lengths (take (n3 + 4) order) (replicate maxcodes 0) s3 = Done ls s4"
    have "count_list (take 19 (clear_lengths (drop (n3 + 4) order) ls)) 0 \<noteq>
        length (take 19 (clear_lengths (drop (n3 + 4) order) ls))"
      using assms(2) r rd by (simp add: empty_code_set_def code_lengths_def)
    then show "block_returns dest s4 (?rest ls s4)"
      by (rule lengths_returns [OF fits_clear [OF ls] _ that s4])
  qed
  then show "block_returns dest s3
      (if maxlcodes < n1 + 257 \<or> maxdcodes < n2 + 1 then Done (-3) s3
       else pr_bind (read_code_lengths (take (n3 + 4) order) (replicate maxcodes 0) s3) ?rest)"
    using goes_stops [OF goes_refl [OF s3]] by auto
qed

section \<open>The whole input\<close>

lemma one_block_returns:
  assumes "ready dest s" and "type = 2 \<longrightarrow> \<not> empty_code_set s"
  shows "block_returns dest s (one_block type s)"
  using assms stored_returns fixed_returns dynamic_returns goes_stops [OF goes_refl [OF assms(1)]]
  by (auto simp: one_block_def)

text \<open>The states at the head of a block.\<close>

inductive block_head :: "puff_state \<Rightarrow> puff_state \<Rightarrow> bool" for s0 where
  first_block: "block_head s0 s0"
| next_block: "block_head s0 s \<Longrightarrow> bits 1 s = Done 0 s1 \<Longrightarrow> bits 2 s1 = Done type s2 \<Longrightarrow>
    one_block type s2 = Done 0 s3 \<Longrightarrow> block_head s0 s3"

definition meets_empty_set :: "puff_state \<Rightarrow> bool" where
  "meets_empty_set s0 \<longleftrightarrow>
     (\<exists>s final s1 s2. block_head s0 s \<and> bits 1 s = Done final s1 \<and> bits 2 s1 = Done 2 s2 \<and>
        empty_code_set s2)"

text \<open>What \<open>puff\<close> may leave: None is an access outside its memory.\<close>

definition ends_inside :: "bytes \<Rightarrow> nat \<Rightarrow> nat \<Rightarrow> int puff_res \<Rightarrow> bool" where
  "ends_inside dest outlen inlen r \<longleftrightarrow>
     outcome r (\<lambda>e t. inside dest t \<and> ps_outlen t = outlen \<and> (e = 0 \<longrightarrow> ps_incnt t \<le> inlen))
       (\<lambda>t. inside dest t \<and> ps_outlen t = outlen)"

lemma block_ends:
  assumes "block_returns dest s r"
  shows "ends_inside dest (ps_outlen s) (ps_inlen s) r"
  unfolding ends_inside_def
  by (rule outcome_mono [OF assms(1)])
    (auto simp: stops_def goes_def ready_def aligned_def after_def)

lemma ready_position: "ready dest s \<Longrightarrow> position s \<le> 8 * ps_inlen s"
  using aligned_seek(2) by (simp add: ready_def)

lemma bits_moves:
  assumes "ready dest s" and "bits n s = Done v t"
  shows "position t = position s + n" and "goes dest s t"
proof -
  have al: "aligned s" using assms(1) by (simp add: ready_def)
  note a = aligned_seek [OF al]
  have p: "position s + n \<le> 8 * ps_inlen s"
    using bits_out_of_input [OF a(3,2), of n] a(1) assms(2) by fastforce
  have "t = seek (position s + n) s"
    using bits_at [OF a(3) p] a(1) assms(2) by simp
  then show "position t = position s + n" by simp
  show "goes dest s t"
    using bits_goes [OF assms(1), of n] assms(2) by simp
qed

end
