(* ===== verification/Puff_Empty.thy ===== *)
theory Puff_Empty
  imports Puff_Ends
begin

text \<open>A dynamic block whose code for the code lengths is empty: every symbol is the
  error -9, which \<open>dynamic\<close> stores as a code length, and \<open>construct\<close> then counts
  outside its array. Then \<open>puff\<close> on any input.\<close>

section \<open>Decoding with an empty code\<close>

definition no_codes :: "huffman \<Rightarrow> bool" where
  "no_codes h \<longleftrightarrow> (\<forall>i. 1 \<le> i \<and> i \<le> maxbits \<longrightarrow> hf_count h ! i = 0)"

lemma decode_bits_empty:
  assumes "no_codes h" and "0 \<le> code" and "1 \<le> len" and "len + left \<le> maxbits + 1"
  shows "\<exists>code' \<ge> 0. decode_bits h left bitbuf code 0 index len = Inr (code', 0, index, len + left)"
  using assms
proof (induction left arbitrary: bitbuf code len)
  case 0
  then show ?case by simp
next
  case (Suc left)
  let ?code = "code OR int (bitbuf AND 1)"
  have "0 \<le> ?code" using Suc.prems(2) by simp
  moreover have "hf_count h ! len = 0"
    using Suc.prems by (simp add: no_codes_def)
  moreover have "\<exists>code' \<ge> 0. decode_bits h left (drop_bit 1 bitbuf) (push_bit 1 ?code) 0 index (len + 1) =
      Inr (code', 0, index, len + 1 + left)"
    by (rule Suc.IH) (use Suc.prems in simp_all)
  ultimately show ?case by (simp add: Let_def)
qed

text \<open>The bits at hand are less than a code may have, and the input is in place.\<close>

definition fetchable :: "puff_state \<Rightarrow> bool" where
  "fetchable s \<longleftrightarrow> ps_bitcnt s \<le> maxbits \<and> ps_incnt s \<le> ps_inlen s \<and> input_ok s"

lemma aligned_fetchable: "aligned s \<Longrightarrow> fetchable s"
proof -
  assume a: "aligned s"
  then have "ps_bitcnt s = ps_bitcnt (seek (position s) s)"
    by (simp only: aligned_def)
  also have "\<dots> = 8 * ((position s + 7) div 8) - position s"
    by (simp add: seek_def Let_def)
  finally have "ps_bitcnt s = 8 * ((position s + 7) div 8) - position s" .
  then show ?thesis
    using a by (simp add: aligned_def fetchable_def maxbits_def)
qed

lemma fetchable_next:
  assumes "fetchable s"
  shows "outcome (next_byte s) (\<lambda>_ t. same_out s t \<and> fetchable t) (same_out s)"
  using assms by (auto simp: next_byte_def raw_byte_def fetchable_def input_ok_def)

lemma decode_rounds_empty:
  assumes "no_codes h" and "0 \<le> code" and "1 \<le> len" and "len + left \<le> maxbits + 1"
    and "fetchable s"
  shows "outcome (decode_rounds h left bitbuf code 0 index len s)
    (\<lambda>x t. x = -9 \<and> same_out s t \<and> fetchable t) (same_out s)"
  using assms
proof (induction "2 * (maxbits + 1 - len) + (if left = 0 then 1 else 0)"
    arbitrary: left bitbuf code len s rule: less_induct)
  case less
  obtain code' where code': "0 \<le> code'"
    and d: "decode_bits h left bitbuf code 0 index len = Inr (code', 0, index, len + left)"
    using decode_bits_empty [OF less.prems(1-4)] by blast
  let ?left = "maxbits + 1 - (len + left)"
  show ?case
  proof (cases "?left = 0")
    case True
    then show ?thesis
      using less.prems(5) by (simp add: decode_rounds.simps [of h left] d Let_def)
  next
    case False
    have "outcome (pr_bind (next_byte s) (\<lambda>b t. decode_rounds h (min 8 ?left) (unat b) code' 0 index (len + left) t))
        (\<lambda>x t. x = -9 \<and> same_out s t \<and> fetchable t) (same_out s)"
    proof (rule outcome_bind [OF fetchable_next [OF less.prems(5)]])
      fix b :: byte and t assume t: "same_out s t \<and> fetchable t"
      have "outcome (decode_rounds h (min 8 ?left) (unat b) code' 0 index (len + left) t)
          (\<lambda>x u. x = -9 \<and> same_out t u \<and> fetchable u) (same_out t)"
        by (rule less.hyps) (use False less.prems t code' in \<open>auto split: if_splits\<close>)
      then show "outcome (decode_rounds h (min 8 ?left) (unat b) code' 0 index (len + left) t)
          (\<lambda>x u. x = -9 \<and> same_out s u \<and> fetchable u) (same_out s)"
        by (rule outcome_mono) (use t same_out_trans in blast)+
    qed
    then show ?thesis
      using False by (simp add: decode_rounds.simps [of h left] d Let_def)
  qed
qed

lemma decode_empty:
  assumes "no_codes h" and "fetchable s"
  shows "outcome (decode h s) (\<lambda>x t. x = -9 \<and> same_out s t \<and> fetchable t) (same_out s)"
  unfolding decode_def
  by (rule decode_rounds_empty) (use assms in \<open>simp_all add: fetchable_def\<close>)

lemma read_lengths_empty:
  assumes "no_codes h" and "fetchable s" and "i \<le> lim" and "0 < lim" and "ls \<noteq> []"
    and "0 < i \<longrightarrow> hd ls = -9"
  shows "outcome (read_lengths h lim i ls s)
    (\<lambda>r _. \<exists>ls'. r = Inr ls' \<and> ls' \<noteq> [] \<and> hd ls' = -9) (same_out s)"
  using assms
proof (induction "lim - i" arbitrary: i ls s)
  case 0
  then show ?case by (subst read_lengths.simps) simp
next
  case (Suc n)
  have lt: "i < lim" using Suc.hyps(2) by simp
  have "outcome (read_length h lim i ls s)
      (\<lambda>r t. r = Inr (i + 1, ls[i := -9]) \<and> same_out s t \<and> fetchable t) (same_out s)"
    unfolding read_length_def
    by (rule outcome_bind [OF decode_empty [OF Suc.prems(1,2)]]) simp
  then have "outcome (pr_bind (read_length h lim i ls s) (\<lambda>r s1. case r of
        Inl err \<Rightarrow> Done (Inl err) s1
      | Inr p \<Rightarrow> read_lengths h lim (fst p) (snd p) s1))
      (\<lambda>r _. \<exists>ls'. r = Inr ls' \<and> ls' \<noteq> [] \<and> hd ls' = -9) (same_out s)"
  proof (rule outcome_bind)
    fix r :: "int + nat \<times> int list" and t assume r: "r = Inr (i + 1, ls[i := -9]) \<and> same_out s t \<and> fetchable t"
    have "hd (ls[i := -9]) = -9"
      using Suc.prems(5,6) by (cases ls; cases i) simp_all
    then have "outcome (read_lengths h lim (i + 1) (ls[i := -9]) t)
        (\<lambda>r _. \<exists>ls'. r = Inr ls' \<and> ls' \<noteq> [] \<and> hd ls' = -9) (same_out t)"
      by (intro Suc.hyps(1)) (use Suc.prems Suc.hyps(2) lt r in simp_all)
    then have "outcome (read_lengths h lim (i + 1) (ls[i := -9]) t)
        (\<lambda>r _. \<exists>ls'. r = Inr ls' \<and> ls' \<noteq> [] \<and> hd ls' = -9) (same_out s)"
      by (rule outcome_mono) (use r same_out_trans in blast)+
    then show "outcome (case r of Inl err \<Rightarrow> Done (Inl err) t
        | Inr p \<Rightarrow> read_lengths h lim (fst p) (snd p) t)
        (\<lambda>r _. \<exists>ls'. r = Inr ls' \<and> ls' \<noteq> [] \<and> hd ls' = -9) (same_out s)"
      using r by simp
  qed
  then show ?case
    using lt by (simp add: read_lengths.simps [of h lim i])
qed

lemma construct_bad: "ls \<noteq> [] \<Longrightarrow> hd ls = -9 \<Longrightarrow> construct h (take (Suc n) ls) = None"
  by (cases ls) (simp_all add: construct_def)

lemma construct_zeros:
  assumes "count_list ls 0 = length ls"
  shows "\<exists>h'. construct h ls = Some (h', 0) \<and> no_codes h'"
proof -
  have "l = 0" if "l \<in> set ls" for l
  proof (rule ccontr)
    assume "l \<noteq> 0"
    then have "count_list ls l + count_list ls 0 \<le> length ls"
      by (induction ls) auto
    moreover have "0 < count_list ls l"
      using that count_list_0_iff [of ls l] by auto
    ultimately show False using assms by simp
  qed
  then have z: "\<forall>l \<in> set ls. l = 0" by blast
  then have ok: "lengths_ok ls"
    unfolding lengths_ok_def by auto
  have none: "lengths_of ls i = 0" if "0 < i" for i
    using z that by (auto simp: lengths_of_def count_list_0_iff)
  have "count_table ls ! 0 = int (length ls)"
    using assms by (simp add: count_table_nth lengths_of_def)
  then have "construct h ls = Some (h\<lparr>hf_count := count_table ls\<rparr>, 0)"
    using count_lengths_table [OF ok] by (simp add: construct_def)
  then show ?thesis
    using none by (simp add: no_codes_def count_table_nth)
qed

section \<open>Dynamic blocks\<close>

lemma DoneI_goes:
  assumes "r = Done x t" and "outcome r (\<lambda>x t. Q x \<and> goes dest s t) J"
  shows "goes dest s t" and "ready dest t" and "Q x"
  using assms by (simp_all add: goes_def)

lemma dynamic_empty:
  assumes "ready dest s" and "empty_code_set s"
  shows "dynamic s = Wild \<or> block_returns dest s (dynamic s)"
proof -
  obtain ls0 t0 where c: "code_lengths s = Done ls0 t0" and z0: "count_list ls0 0 = length ls0"
    using assms(2) by (auto simp: empty_code_set_def split: puff_res.splits)
  obtain n1 s1 n2 s2 n3 s3 ls s4 where r1: "bits 5 s = Done n1 s1" and r2: "bits 5 s1 = Done n2 s2"
    and r3: "bits 4 s2 = Done n3 s3"
    and r4: "read_code_lengths (take (n3 + 4) order) (replicate maxcodes 0) s3 = Done ls s4"
    and ls0: "ls0 = take 19 (clear_lengths (drop (n3 + 4) order) ls)"
    using c by (auto simp: code_lengths_def pr_bind_Done)
  have start: "fits (replicate maxcodes 0)"
    by (simp add: fits_def lengths_ok_def)
  note g1 = DoneI_goes [OF r1 bits_goes [OF assms(1)]]
  note g2 = DoneI_goes [OF r2 bits_goes [OF g1(2)]]
  note g3 = DoneI_goes [OF r3 bits_goes [OF g2(2)]]
  note g4 = DoneI_goes [OF r4 read_code_lengths_goes [OF g3(2) start]]
  have g: "goes dest s s3" "goes dest s s4"
    using g1(1) g2(1) g3(1) g4(1) by (blast intro: goes_trans)+
  let ?ls = "clear_lengths (drop (n3 + 4) order) ls"
  have fit: "fits ?ls" by (rule fits_clear [OF g4(3)])
  obtain h where h: "construct (new_huffman maxlcodes) (take 19 ?ls) = Some (h, 0)" and nc: "no_codes h"
    using construct_zeros [of ls0] z0 by (auto simp: ls0)
  have "fetchable s4"
    using g4(2) aligned_fetchable by (simp add: ready_def)
  moreover have "?ls \<noteq> []"
    using fit by (auto simp: fits_def maxcodes_def maxlcodes_def)
  ultimately have rd: "outcome (read_lengths h (n1 + 257 + (n2 + 1)) 0 ?ls s4)
      (\<lambda>r _. \<exists>ls'. r = Inr ls' \<and> ls' \<noteq> [] \<and> hd ls' = -9) (same_out s4)"
    by (intro read_lengths_empty [OF nc]) simp_all
  have eq: "dynamic s = (if n1 + 257 > maxlcodes \<or> n2 + 1 > maxdcodes then Done (-3) s3
      else pr_bind (read_lengths h (n1 + 257 + (n2 + 1)) 0 ?ls s4) (\<lambda>r s5.
        case r of Inl e \<Rightarrow> Done e s5
        | Inr ls' \<Rightarrow> read_tables h (n1 + 257) (n2 + 1) ls' s5))"
    by (simp only: dynamic_def Let_def r1 r2 r3 r4 h pr_bind_simps option.case prod.case
        simp_thms if_False)
  have Suc: "n1 + 257 = Suc (n1 + 256)" by simp
  obtain lim nlen ndist n bad where d: "dynamic s = (if bad then Done (-3) s3
      else pr_bind (read_lengths h lim 0 ?ls s4) (\<lambda>r s5.
        case r of Inl e \<Rightarrow> Done e s5 | Inr ls' \<Rightarrow> read_tables h nlen ndist ls' s5))"
    and lim: "lim = n1 + 257 + (n2 + 1)" and n: "nlen = Suc n"
    by (rule that [OF eq refl Suc])
  note rd = rd [folded lim]
  show ?thesis
  proof (cases "read_lengths h lim 0 ?ls s4")
    case (Done r t)
    then obtain ls' where "r = Inr ls'" "ls' \<noteq> []" "hd ls' = -9"
      using rd by auto
    then show ?thesis
      using construct_bad [of ls' _ n] goes_stops [OF g(1)] by (simp add: d Done read_tables_def n)
  next
    case (Jumped t)
    then have "same_out s4 t" using rd by simp
    then have "stops dest s t"
      using same_out_stops [OF g4(2)] g(2) stops_trans by blast
    then show ?thesis
      using goes_stops [OF g(1)] by (simp add: d Jumped)
  next
    case Wild
    then show ?thesis using rd by simp
  qed
qed

section \<open>The whole input\<close>

lemma one_block_any:
  assumes "ready dest s"
  shows "block_returns dest s (one_block type s) \<or>
    (type = 2 \<and> one_block type s = Wild \<and> empty_code_set s)"
proof (cases "type = 2 \<and> empty_code_set s")
  case True
  then show ?thesis
    using dynamic_empty [OF assms] by (auto simp: one_block_def)
next
  case False
  then show ?thesis
    using one_block_returns [OF assms, of type] by blast
qed

text \<open>The loop over the blocks ends: inside its memory, or at a dynamic block with an
  empty code.\<close>

lemma body_any:
  assumes "ready dest s" and "\<And>t. bits 2 s = Done 2 t \<Longrightarrow> empty_code_set t \<Longrightarrow> X"
  shows "block_returns dest s (pr_bind (bits 2 s) one_block) \<or>
    pr_bind (bits 2 s) one_block = Wild \<and> X"
proof (cases "\<exists>t. bits 2 s = Done 2 t \<and> one_block 2 t = Wild \<and> empty_code_set t")
  case True
  then show ?thesis using assms(2) by auto
next
  case False
  have "block_returns dest s (pr_bind (bits 2 s) one_block)"
  proof (rule block_then [OF bits_goes [OF assms(1)]])
    fix type t assume "bits 2 s = Done type t" "ready dest t"
    then show "block_returns dest t (one_block type t)"
      using one_block_any [of dest t type] False by blast
  qed
  then show ?thesis by blast
qed

lemma puff_loop_any:
  assumes "ready dest s" and "block_head s0 s"
  shows "\<exists>r. puff_loop s = Some r \<and>
    (ends_inside dest (ps_outlen s) (ps_inlen s) r \<or> r = Wild \<and> meets_empty_set s0)"
  using assms
proof (induction "8 * ps_inlen s - position s" arbitrary: s rule: less_induct)
  case less
  note r = less.prems(1)
  have b1: "outcome (bits 1 s) (\<lambda>v t. v < 2 ^ 1 \<and> goes dest s t) (stops dest s)"
    by (rule bits_goes [OF r])
  show ?case
  proof (cases "bits 1 s")
    case (Done final s1)
    have g1: "position s1 = position s + 1" "goes dest s s1" "ready dest s1"
      using bits_moves [OF r Done] by (auto simp: goes_def)
    have loop: "puff_loop s = (case pr_bind (bits 2 s1) one_block of
        Done err s2 \<Rightarrow> if err \<noteq> 0 \<or> final \<noteq> 0 then Some (Done err s2) else puff_loop s2
      | Jumped s2 \<Rightarrow> Some (Jumped s2) | Wild \<Rightarrow> Some Wild)"
      by (subst puff_loop.simps) (simp only: Done puff_res.case)
    have body: "block_returns dest s1 (pr_bind (bits 2 s1) one_block) \<or>
        pr_bind (bits 2 s1) one_block = Wild \<and> meets_empty_set s0"
      by (rule body_any [OF g1(3)])
        (use less.prems(2) Done in \<open>auto simp: meets_empty_set_def\<close>)
    show ?thesis
    proof (cases "pr_bind (bits 2 s1) one_block = Wild")
      case True
      then show ?thesis using body by (simp add: loop)
    next
      case False
      then have bs1: "block_returns dest s1 (pr_bind (bits 2 s1) one_block)"
        using body by blast
      note e = block_ends [OF block_later [OF bs1 g1(2)]]
      show ?thesis
      proof (cases "pr_bind (bits 2 s1) one_block")
        case err: (Done err s2)
        show ?thesis
        proof (cases "err \<noteq> 0 \<or> final \<noteq> 0")
          case True
          then show ?thesis using e by (simp add: loop err)
        next
          case again: False
          have g2: "goes dest s1 s2" using bs1 err again by simp
          then have s2: "position s1 \<le> position s2" "ps_inlen s2 = ps_inlen s"
            "ps_outlen s2 = ps_outlen s" "ready dest s2"
            using g1(2) by (auto simp: goes_def after_def)
          have "block_head s0 s2"
            using less.prems(2) Done err again by (auto simp: pr_bind_Done intro: next_block)
          moreover have "8 * ps_inlen s2 - position s2 < 8 * ps_inlen s - position s"
            using s2(1,2) g1(1) ready_position [OF g1(3)] g1(2) by (auto simp: goes_def after_def)
          ultimately show ?thesis
            using less.hyps [OF _ s2(4)] again s2(2,3) by (simp add: loop err)
        qed
      next
        case (Jumped s2)
        then show ?thesis using e by (simp add: loop)
      qed (use False in simp)
    qed
  next
    case (Jumped s1)
    then show ?thesis
      using b1 by (subst puff_loop.simps) (simp add: ends_inside_def stops_def)
  next
    case Wild
    then show ?thesis using b1 by simp
  qed
qed

lemma start_ready:
  assumes "sourcelen \<le> length source" and "sourcelen + 2 ^ 17 \<le> 2 ^ 32"
    and "destlen \<le> length dest" and "destlen + 2 ^ 16 \<le> 2 ^ 32"
  shows "ready dest (puff_start (Some dest) destlen source sourcelen)"
  using assms
  by (simp add: ready_def aligned_def input_small_def input_ok_def inside_def puff_start_def
      seek_def position_def)

section \<open>An input that leaves the arrays\<close>

lemma decode_nine:
  assumes "no_codes h" and "ps_bitcnt s = 3" and "ps_incnt s + 2 \<le> ps_inlen s" and "input_ok s"
  shows "decode h s = Done (-9) (s\<lparr>ps_incnt := ps_incnt s + 2\<rparr>)"
proof -
  obtain c1 where c1: "0 \<le> c1" "decode_bits h 3 (ps_bitbuf s) 0 0 0 1 = Inr (c1, 0, 0, 4)"
    using decode_bits_empty [OF assms(1), of 0 1 3 "ps_bitbuf s" 0] by (auto simp: maxbits_def)
  let ?a = "unat (ps_in s ! ps_incnt s)" and ?b = "unat (ps_in s ! Suc (ps_incnt s))"
  obtain c2 where c2: "0 \<le> c2" "decode_bits h 8 ?a c1 0 0 4 = Inr (c2, 0, 0, 12)"
    using decode_bits_empty [OF assms(1) c1(1), of 4 8 ?a 0] by (auto simp: maxbits_def)
  obtain c3 where c3: "decode_bits h 4 ?b c2 0 0 12 = Inr (c3, 0, 0, 16)"
    using decode_bits_empty [OF assms(1) c2(1), of 12 4 ?b 0] by (auto simp: maxbits_def)
  have n: "next_byte s = Done (ps_in s ! ps_incnt s) (s\<lparr>ps_incnt := Suc (ps_incnt s)\<rparr>)"
    "next_byte (s\<lparr>ps_incnt := Suc (ps_incnt s)\<rparr>) =
      Done (ps_in s ! Suc (ps_incnt s)) (s\<lparr>ps_incnt := Suc (Suc (ps_incnt s))\<rparr>)"
    using assms(3,4) by (simp_all add: next_byte_def raw_byte_def input_ok_def)
  show ?thesis
    unfolding decode_def assms(2)
    by (simp add: decode_rounds.simps [of h 3] decode_rounds.simps [of h 8]
        decode_rounds.simps [of h 4] c1 c2 c3 n maxbits_def numeral_2_eq_2 del: One_nat_def)
qed

lemma read_lengths_nine:
  assumes "no_codes h" and "ps_bitcnt s = 3" and "ps_incnt s + 2 * (lim - i) \<le> ps_inlen s"
    and "input_ok s"
  shows "read_lengths h lim i ls s \<noteq> Jumped t"
  using assms
proof (induction "lim - i" arbitrary: i ls s)
  case 0
  then show ?case by (subst read_lengths.simps) simp
next
  case (Suc n)
  let ?s = "s\<lparr>ps_incnt := ps_incnt s + 2\<rparr>"
  have "decode h s = Done (-9) ?s"
    by (rule decode_nine) (use Suc in simp_all)
  then have "read_length h lim i ls s = Done (Inr (i + 1, ls[i := -9])) ?s"
    by (simp add: read_length_def)
  moreover have "read_lengths h lim (i + 1) (ls[i := -9]) ?s \<noteq> Jumped t"
    by (rule Suc.hyps(1)) (use Suc in \<open>simp_all add: input_ok_def\<close>)
  ultimately show ?case
    by (subst read_lengths.simps) (simp add: pr_bind_def)
qed

text \<open>A last block of type 2 and then zeros: 257 lengths of literals, one of a
  distance and four lengths of the code of code lengths, all zero. Each symbol decoded
  with the empty code is -9, stored as a code length, and \<open>construct\<close> increments
  \<open>count[-9]\<close>.\<close>

abbreviation zero_block :: bytes where
  "zero_block \<equiv> 5 # replicate 600 0"

lemma byte_bits_zero: "byte_bits 0 = replicate 8 False"
  by (simp add: byte_bits_def upt_rec numeral_eq_Suc)

lemma bytes_bits_zeros: "bytes_bits (replicate n 0) = replicate (8 * n) False"
  by (induction n) (simp_all add: byte_bits_zero flip: replicate_add)

lemma byte_bits_five: "byte_bits 5 = [True, False, True] @ replicate 5 False"
  by (simp add: byte_bits_def upt_rec numeral_eq_Suc)

lemma from_bits_zeros: "from_bits (replicate n False) = 0"
  by (induction n) simp_all

lemma replicate_update: "(replicate n x)[i := x] = replicate n x"
  by (induction n arbitrary: i) (simp_all split: nat.split)

lemma zero_block_leaves:
  "puff (Some dest) destlen zero_block 601 = Some None"
proof -
  define s where "s = puff_start (Some dest) destlen zero_block 601"
  have s: "ps_in s = zero_block" "ps_inlen s = 601" "input_ok s"
    by (simp_all add: s_def puff_start_def input_ok_def)
  have src: "src_bits s = [True, False, True] @ replicate 4805 False"
    using bytes_bits_zeros [of 600] by (simp add: src_bits_def s byte_bits_five flip: replicate_add)
  have s0: "s = seek 0 s"
    by (simp add: s_def puff_start_def seek_def)
  have b1: "bits 1 (seek 0 s) = Done 1 (seek 1 s)"
    using bits_at [OF s(3), of 0 1] by (simp add: s src)
  have b2: "bits 2 (seek 1 s) = Done 2 (seek 3 s)"
    using bits_at [OF s(3), of 1 2] by (simp add: s src numeral_2_eq_2 numeral_3_eq_3)
  have bz: "bits k (seek p s) = Done 0 (seek (p + k) s)" if "3 \<le> p" "p + k \<le> 4808" for k p
  proof -
    have "take k (drop p (src_bits s)) = replicate k False"
      unfolding src drop_append using that by simp
    then show ?thesis
      using bits_at [OF s(3), of p k] that by (simp add: s from_bits_zeros)
  qed
  have rd: "read_code_lengths (take 4 order) (replicate maxcodes 0) (seek 17 s) =
      Done (replicate maxcodes 0) (seek 29 s)"
    by (simp add: order_def bz replicate_update numeral_eq_Suc)
  have cl: "clear_lengths (drop 4 order) (replicate maxcodes 0) = replicate maxcodes 0"
    by (simp add: order_def replicate_update)
  obtain h where h: "construct (new_huffman maxlcodes) (take 19 (replicate maxcodes 0)) = Some (h, 0)"
    and nc: "no_codes h"
    using construct_zeros [of "take 19 (replicate maxcodes 0)"]
    by (auto simp: maxcodes_def maxlcodes_def count_list_replicate)
  have at: "ps_bitcnt (seek 29 s) = 3" "ps_incnt (seek 29 s) = 4"
    by (simp_all add: seek_def Let_def)
  have rl: "read_lengths h 258 0 (replicate maxcodes 0) (seek 29 s) \<noteq> Jumped t" for t
    by (rule read_lengths_nine [OF nc at(1)]) (simp_all add: at s)
  have fe: "fetchable (seek 29 s)"
    by (simp add: fetchable_def at s maxbits_def)
  obtain ls t where ls: "read_lengths h 258 0 (replicate maxcodes 0) (seek 29 s) = Done (Inr ls) t"
    "ls \<noteq> []" "hd ls = -9"
    using read_lengths_empty [OF nc fe, of 0 258 "replicate maxcodes 0"] rl
    by (cases "read_lengths h 258 0 (replicate maxcodes 0) (seek 29 s)")
      (auto simp: maxcodes_def maxlcodes_def)
  have "dynamic (seek 3 s) = read_tables h 257 1 ls t"
    using ls(1) h by (simp add: dynamic_def Let_def bz rd cl maxlcodes_def maxdcodes_def)
  also have "\<dots> = Wild"
    using construct_bad [OF ls(2,3), of h 256] by (simp add: read_tables_def)
  finally have "puff_loop s = Some Wild"
    by (subst s0, subst puff_loop.simps) (simp add: b1 b2 one_block_def del: One_nat_def)
  then show ?thesis
    by (simp add: puff_def puff_result_def s_def)
qed

section \<open>The whole of puff\<close>

text \<open>C20: \<open>puff\<close>, given a source and a destination that are as long as their
  lengths say (and not within a block's length of 4 GB), always returns. It reads only the
  source and writes only the first \<open>destlen\<close> bytes of the destination, it claims to have
  written at most that, and after a clean end to have read at most the source; but for one
  case: a dynamic block whose lengths for the code of code lengths are all zero takes it
  outside its arrays.\<close>

theorem puff_stays_inside:
  assumes "sourcelen \<le> length source" and "sourcelen + 2 ^ 17 \<le> 2 ^ 32"
    and "destlen \<le> length dest" and "destlen + 2 ^ 16 \<le> 2 ^ 32"
  shows "case puff (Some dest) destlen source sourcelen of
      None \<Rightarrow> False
    | Some None \<Rightarrow> meets_empty_set (puff_start (Some dest) destlen source sourcelen)
    | Some (Some e) \<Rightarrow>
        (\<exists>d. pe_dest e = Some d \<and> length d = length dest \<and> drop destlen d = drop destlen dest) \<and>
        pe_destlen e \<le> destlen \<and> (pe_err e = 0 \<longrightarrow> pe_sourcelen e \<le> sourcelen)"
proof -
  let ?s = "puff_start (Some dest) destlen source sourcelen"
  obtain r where r: "puff_loop ?s = Some r"
    and e: "ends_inside dest (ps_outlen ?s) (ps_inlen ?s) r \<or> r = Wild \<and> meets_empty_set ?s"
    using puff_loop_any [OF start_ready [OF assms] first_block] by blast
  have p: "puff (Some dest) destlen source sourcelen = Some (puff_result destlen sourcelen r)"
    by (simp add: puff_def r)
  have s: "ps_outlen ?s = destlen" "ps_inlen ?s = sourcelen"
    by (simp_all add: puff_start_def)
  show ?thesis
    using e unfolding p s
    by (cases r) (auto simp: puff_result_def ends_inside_def inside_def)
qed

theorem puff_stays_inside_witness:
  "meets_empty_set (puff_start (Some [7, 7]) 1 zero_block 601)"
  using puff_stays_inside [of 601 zero_block 1 "[7, 7]"] zero_block_leaves [of "[7, 7]" 1] by simp

end
