(* ===== verification/Gzip.thy ===== *)
theory Gzip
  imports Puff_Roundtrip
begin

text \<open>src/gzip.cpp: the header of a gzip file and \<open>inflate_gzip\<close>. A read past the
  end of the buffer would be None in \<open>gzip_header\<close>.\<close>

definition FTEXT :: byte where "FTEXT = 0x01"
definition FHCRC :: byte where "FHCRC = 0x02"
definition FEXTRA :: byte where "FEXTRA = 0x04"
definition FNAME :: byte where "FNAME = 0x08"
definition FCOMMENT :: byte where "FCOMMENT = 0x10"
definition FRESERVED :: byte where "FRESERVED = 0xe0"
definition GZIP_MAGIC0 :: byte where "GZIP_MAGIC0 = 0x1f"
definition GZIP_MAGIC1 :: byte where "GZIP_MAGIC1 = 0x8b"

lemmas gzip_consts = FHCRC_def FEXTRA_def FNAME_def FCOMMENT_def FRESERVED_def
  GZIP_MAGIC0_def GZIP_MAGIC1_def

text \<open>The rest of the buffer after each optional part; None is the return of -1.
  \<open>size\<close> of the C code is the length of what is left.\<close>

definition gz_extra :: "byte \<Rightarrow> bytes \<Rightarrow> bytes option" where
  "gz_extra flags buf =
     (if flags AND FEXTRA \<noteq> 0
      then (if length buf < 2 then None
            else let extra_len = unat (buf ! 1) * 256 + unat (buf ! 0) in
                 if length buf < extra_len + 2 then None else Some (drop (extra_len + 2) buf))
      else Some buf)"

fun skip_name :: "bytes \<Rightarrow> bytes option" where
  "skip_name [] = None"
| "skip_name (b # buf) = (if b = 0 then Some buf else skip_name buf)"

definition gz_string :: "byte \<Rightarrow> byte \<Rightarrow> bytes \<Rightarrow> bytes option" where
  "gz_string flag flags buf = (if flags AND flag \<noteq> 0 then skip_name buf else Some buf)"

definition gz_hcrc :: "byte \<Rightarrow> bytes \<Rightarrow> bytes option" where
  "gz_hcrc flags buf =
     (if flags AND FHCRC \<noteq> 0 then (if length buf < 2 then None else Some (drop 2 buf))
      else Some buf)"

definition gzip_header :: "bytes \<Rightarrow> int" where
  "gzip_header buf =
     (if length buf < 10 then -1
      else if buf ! 0 \<noteq> GZIP_MAGIC0 \<or> buf ! 1 \<noteq> GZIP_MAGIC1 then -1
      else let method = buf ! 2; flags = buf ! 3 in
      if method \<noteq> 8 \<or> flags AND FRESERVED \<noteq> 0 then -1
      else case do { b1 \<leftarrow> gz_extra flags (drop 10 buf); b2 \<leftarrow> gz_string FNAME flags b1;
                     b3 \<leftarrow> gz_string FCOMMENT flags b2; gz_hcrc flags b3 } of
             None \<Rightarrow> -1
           | Some rest \<Rightarrow> int (length buf) - int (length rest))"

datatype gzip_error = Invalid_header | Data_too_big | Inflating_error

text \<open>The error message of \<open>inflate_gzip\<close> (None: it returned true) and the contents
  of the vector it fills. \<open>Some None\<close> is an access outside the arrays, or the failure of the
  assertion that the maximum size is not 0 (with 0, the address of the first element of an empty
  vector would be taken).\<close>

record gzip_end =
  ge_error :: "gzip_error option"
  ge_buffer :: bytes

definition resize_bytes :: "nat \<Rightarrow> bytes \<Rightarrow> bytes" where
  "resize_bytes n bs = take n bs @ replicate (n - length bs) 0"

definition inflate_gzip :: "bytes \<Rightarrow> bytes \<Rightarrow> nat \<Rightarrow> gzip_end option option" where
  "inflate_gzip inp buffer maximum_size =
     (let header_len = gzip_header inp in
      if maximum_size = 0 then Some None
      else if header_len < 0
      then Some (Some \<lparr>ge_error = Some Invalid_header, ge_buffer = buffer\<rparr>)
      else
        let buffer' = resize_bytes maximum_size buffer in
        map_option (map_option (\<lambda>e.
          let out = the (pe_dest e) in
          if pe_err e = -1 then \<lparr>ge_error = Some Data_too_big, ge_buffer = out\<rparr>
          else if pe_err e \<noteq> 0
          then \<lparr>ge_error = Some Inflating_error, ge_buffer = resize_bytes (pe_destlen e) out\<rparr>
          else \<lparr>ge_error = None, ge_buffer = resize_bytes (pe_destlen e) out\<rparr>))
        (puff (Some buffer') (length buffer') (drop (nat header_len) inp)
           (length inp - nat header_len)))"

text \<open>Gzip files: the header with its optional parts, and what \<open>inflate_gzip\<close> returns for
  a file, for data that are too big and for a block of an invalid type.\<close>

section \<open>Headers\<close>

text \<open>The parts of a header: six bytes of time and system, the flag of text files, and
  four optional parts.\<close>

record gzip_parts =
  gp_system :: bytes
  gp_text :: bool
  gp_extra :: "bytes option"
  gp_name :: "bytes option"
  gp_comment :: "bytes option"
  gp_crc :: "bytes option"

definition gzip_flags :: "gzip_parts \<Rightarrow> byte" where
  "gzip_flags g = (if gp_text g then FTEXT else 0) OR (if gp_crc g \<noteq> None then FHCRC else 0) OR
     (if gp_extra g \<noteq> None then FEXTRA else 0) OR (if gp_name g \<noteq> None then FNAME else 0) OR
     (if gp_comment g \<noteq> None then FCOMMENT else 0)"

definition part :: "(bytes \<Rightarrow> bytes) \<Rightarrow> bytes option \<Rightarrow> bytes" where
  "part f p = (case p of None \<Rightarrow> [] | Some bs \<Rightarrow> f bs)"

definition extra_bytes :: "bytes \<Rightarrow> bytes" where
  "extra_bytes bs = [word_of_nat (length bs mod 256), word_of_nat (length bs div 256)] @ bs"

definition gzip_head :: "gzip_parts \<Rightarrow> bytes" where
  "gzip_head g = [GZIP_MAGIC0, GZIP_MAGIC1, 8, gzip_flags g] @ gp_system g @
     part extra_bytes (gp_extra g) @ part (\<lambda>bs. bs @ [0]) (gp_name g) @
     part (\<lambda>bs. bs @ [0]) (gp_comment g) @ part (\<lambda>bs. bs) (gp_crc g)"

definition parts_ok :: "gzip_parts \<Rightarrow> bool" where
  "parts_ok g \<longleftrightarrow> length (gp_system g) = 6 \<and>
     pred_option (\<lambda>bs. length bs < 2 ^ 16) (gp_extra g) \<and>
     pred_option (\<lambda>bs. 0 \<notin> set bs) (gp_name g) \<and> pred_option (\<lambda>bs. 0 \<notin> set bs) (gp_comment g) \<and>
     pred_option (\<lambda>bs. length bs = 2) (gp_crc g)"

lemma gzip_flags_bits:
  "gzip_flags g AND FEXTRA \<noteq> 0 \<longleftrightarrow> gp_extra g \<noteq> None"
  "gzip_flags g AND FNAME \<noteq> 0 \<longleftrightarrow> gp_name g \<noteq> None"
  "gzip_flags g AND FCOMMENT \<noteq> 0 \<longleftrightarrow> gp_comment g \<noteq> None"
  "gzip_flags g AND FHCRC \<noteq> 0 \<longleftrightarrow> gp_crc g \<noteq> None"
  "gzip_flags g AND FRESERVED = 0"
  by (cases "gp_text g"; cases "gp_crc g"; cases "gp_extra g"; cases "gp_name g"; cases "gp_comment g";
      simp add: gzip_flags_def gzip_consts FTEXT_def)+

lemma skip_name_string: "0 \<notin> set bs \<Longrightarrow> skip_name (bs @ 0 # rest) = Some rest"
  by (induction bs) auto

lemma skip_name_suffix: "skip_name buf = Some rest \<Longrightarrow> length rest \<le> length buf"
  by (induction buf rule: skip_name.induct) (auto split: if_splits)

lemma gz_extra_part:
  assumes "pred_option (\<lambda>bs. length bs < 2 ^ 16) (gp_extra g)"
  shows "gz_extra (gzip_flags g) (part extra_bytes (gp_extra g) @ rest) = Some rest"
proof (cases "gp_extra g")
  case None
  then show ?thesis by (simp add: gz_extra_def gzip_flags_bits part_def)
next
  case (Some bs)
  have "unat (word_of_nat (length bs div 256) :: byte) = length bs div 256"
    using assms Some by (simp add: unsigned_of_nat take_bit_nat_eq_self)
  moreover have "unat (word_of_nat (length bs mod 256) :: byte) = length bs mod 256"
    by (simp add: unsigned_of_nat take_bit_nat_eq_self)
  ultimately show ?thesis
    using Some by (simp add: gz_extra_def gzip_flags_bits part_def extra_bytes_def Let_def)
qed

lemma gz_string_part:
  assumes "gzip_flags g AND flag \<noteq> 0 \<longleftrightarrow> p \<noteq> None" and "pred_option (\<lambda>bs. 0 \<notin> set bs) p"
  shows "gz_string flag (gzip_flags g) (part (\<lambda>bs. bs @ [0]) p @ rest) = Some rest"
  using assms by (cases p) (simp_all add: gz_string_def part_def skip_name_string)

lemma gz_crc_part:
  assumes "pred_option (\<lambda>bs. length bs = 2) (gp_crc g)"
  shows "gz_hcrc (gzip_flags g) (part (\<lambda>bs. bs) (gp_crc g) @ rest) = Some rest"
  using assms by (cases "gp_crc g") (simp_all add: gz_hcrc_def gzip_flags_bits part_def)

lemma gzip_header_parts:
  assumes "parts_ok g"
  shows "gzip_header (gzip_head g @ rest) = int (length (gzip_head g))"
proof -
  have d: "drop 10 (gzip_head g @ rest) = part extra_bytes (gp_extra g) @ part (\<lambda>bs. bs @ [0]) (gp_name g) @
      part (\<lambda>bs. bs @ [0]) (gp_comment g) @ part (\<lambda>bs. bs) (gp_crc g) @ rest"
    and n: "\<not> length (gzip_head g @ rest) < 10"
    using assms by (simp_all add: gzip_head_def parts_ok_def)
  have h: "(gzip_head g @ rest) ! 0 = GZIP_MAGIC0" "(gzip_head g @ rest) ! 1 = GZIP_MAGIC1"
    "(gzip_head g @ rest) ! 2 = 8" "(gzip_head g @ rest) ! 3 = gzip_flags g"
    by (simp_all add: gzip_head_def)
  show ?thesis
    unfolding gzip_header_def Let_def h d
    using n assms gz_extra_part [of g] gz_string_part [OF gzip_flags_bits(2), of g]
      gz_string_part [OF gzip_flags_bits(3), of g] gz_crc_part [of g]
    by (simp add: parts_ok_def gzip_flags_bits(5))
qed

lemma gzip_header_bounds:
  "gzip_header buf = -1 \<or> 10 \<le> gzip_header buf \<and> gzip_header buf \<le> int (length buf)"
proof -
  have extra: "length b \<le> length a" if "gz_extra f a = Some b" for f a b
    using that by (auto simp: gz_extra_def Let_def split: if_splits)
  have str: "length b \<le> length a" if "gz_string x f a = Some b" for x f a b
    using that by (auto simp: gz_string_def skip_name_suffix split: if_splits)
  have crc: "length b \<le> length a" if "gz_hcrc f a = Some b" for f a b
    using that by (auto simp: gz_hcrc_def split: if_splits)
  let ?r = "do { b1 \<leftarrow> gz_extra (buf ! 3) (drop 10 buf); b2 \<leftarrow> gz_string FNAME (buf ! 3) b1;
    b3 \<leftarrow> gz_string FCOMMENT (buf ! 3) b2; gz_hcrc (buf ! 3) b3 }"
  have le: "length d \<le> length buf - 10" if r: "?r = Some d" for d
  proof -
    obtain b1 b2 b3 where "gz_extra (buf ! 3) (drop 10 buf) = Some b1"
      "gz_string FNAME (buf ! 3) b1 = Some b2" "gz_string FCOMMENT (buf ! 3) b2 = Some b3"
      "gz_hcrc (buf ! 3) b3 = Some d"
      using r by (auto simp: Option.bind_eq_Some_conv)
    from extra [OF this(1)] str [OF this(2)] str [OF this(3)] crc [OF this(4)]
    show ?thesis by simp
  qed
  show ?thesis
  proof (cases ?r)
    case None
    then show ?thesis by (simp add: gzip_header_def Let_def)
  next
    case (Some d)
    then show ?thesis
      using le [OF Some] by (auto simp: gzip_header_def Let_def)
  qed
qed

text \<open>The header of a file is skipped whole, and \<open>gzip_header\<close> returns its length,
  whichever of the optional parts it has and whatever follows; on any other buffer the
  result is -1 or a length from 10 up to that of the buffer.\<close>

lemma gzip_header_length:
  assumes "parts_ok g"
  shows "gzip_header (gzip_head g @ rest) = int (length (gzip_head g)) \<and>
    (gzip_header buf = -1 \<or> 10 \<le> gzip_header buf \<and> gzip_header buf \<le> int (length buf))"
  using gzip_header_parts [OF assms] gzip_header_bounds by blast

definition sample_parts :: gzip_parts where
  "sample_parts = \<lparr>gp_system = [0, 0, 0, 0, 0, 3], gp_text = False, gp_extra = Some [1, 2],
     gp_name = Some [97], gp_comment = None, gp_crc = Some [9, 9]\<rparr>"

lemma sample_parts_ok: "parts_ok sample_parts"
  by (simp add: sample_parts_def parts_ok_def)

lemma sample_head:
  "gzip_head sample_parts = [0x1f, 0x8b, 8, 0x0e, 0, 0, 0, 0, 0, 3, 2, 0, 1, 2, 97, 0, 9, 9]"
  by (simp add: sample_parts_def gzip_head_def gzip_flags_def part_def extra_bytes_def gzip_consts)

section \<open>Files\<close>

lemma resize_bytes_length [simp]: "length (resize_bytes n bs) = n"
  by (simp add: resize_bytes_def)

lemma resize_bytes_take: "n \<le> length bs \<Longrightarrow> resize_bytes n bs = take n bs"
  by (simp add: resize_bytes_def)

lemma inflate_after_head:
  assumes "parts_ok g" and "0 < n"
  shows "inflate_gzip (gzip_head g @ body) buffer n =
    map_option (map_option (\<lambda>e.
      let out = the (pe_dest e) in
      if pe_err e = -1 then \<lparr>ge_error = Some Data_too_big, ge_buffer = out\<rparr>
      else if pe_err e \<noteq> 0
      then \<lparr>ge_error = Some Inflating_error, ge_buffer = resize_bytes (pe_destlen e) out\<rparr>
      else \<lparr>ge_error = None, ge_buffer = resize_bytes (pe_destlen e) out\<rparr>))
    (puff (Some (resize_bytes n buffer)) n body (length body))"
  using assms(2) by (simp add: inflate_gzip_def gzip_header_parts [OF assms(1)] Let_def)

text \<open>C22: A gzip file, a header followed by a stream of deflate blocks and whatever comes
  after it, inflates to the bytes the blocks stand for, if they fit in the maximum size, which is
  not 0 (\<open>inflate_gzip\<close> asserts it), and neither it nor the length of the stream is close to
  $2^{32}$, where the counters of \<open>puff\<close> wrap; the former contents of the vector are gone.\<close>

theorem gzip_file_inflates:
  assumes "parts_ok g" and "blocks \<noteq> []" and "blocks_ok n [] blocks"
    and "bytes_bits body = deflate 0 blocks @ rest" and "n + 2 ^ 16 \<le> 2 ^ 32"
    and "length body + 2 ^ 17 \<le> 2 ^ 32" and "length (fold block_out blocks []) \<le> n" and "0 < n"
  shows "inflate_gzip (gzip_head g @ body) buffer n =
    Some (Some \<lparr>ge_error = None, ge_buffer = fold block_out blocks []\<rparr>)"
proof -
  have "puff_loop (puff_start (Some (resize_bytes n buffer)) n body (length body)) =
    Some (Done 0 (seek (length (deflate 0 blocks)) (written (resize_bytes n buffer)
      (fold block_out blocks []) (puff_start (Some (resize_bytes n buffer)) n body (length body)))))"
    by (rule puff_run) (use assms in simp_all)
  then show ?thesis
    using assms(7)
    by (simp add: inflate_after_head [OF assms(1,8)] puff_def puff_result_def Let_def written_def
        resize_bytes_take)
qed

theorem gzip_file_inflates_witness:
  "inflate_gzip (gzip_head sample_parts @ [1, 2, 0, 0xfd, 0xff, 7, 8, 0, 0]) [1] 10 =
    Some (Some \<lparr>ge_error = None, ge_buffer = [7, 8]\<rparr>)"
proof -
  have "bytes_bits (stored_head (length [7 :: byte, 8]) @ [7, 8]) = bytes_bits [2, 0, 0xfd, 0xff, 7, 8]"
    by code_simp
  moreover have "byte_bits 1 = [True, False, False] @ replicate 5 False" "bytes_bits [0, 0] = replicate 16 False"
    by code_simp+
  ultimately have "bytes_bits [1, 2, 0, 0xfd, 0xff, 7, 8, 0, 0] =
      deflate 0 [Stored_Block [7, 8]] @ replicate 16 False"
    by (simp add: Let_def block_bits_def)
  then show ?thesis
    using gzip_file_inflates [OF sample_parts_ok, of "[Stored_Block [7, 8]]" 10
        "[1, 2, 0, 0xfd, 0xff, 7, 8, 0, 0]" "replicate 16 False" "[1]"]
    by simp
qed

text \<open>The two messages of \<open>inflate_gzip\<close> for data it cannot inflate are exchanged: a
  stream whose block has the invalid type 3 is reported as too big, whatever the maximum
  size, and a stored block of two bytes, one more than the maximum size, as an error while
  inflating.\<close>

lemma gzip_messages_exchanged:
  assumes "parts_ok g" and "0 < n"
  shows "inflate_gzip (gzip_head g @ [7]) buffer n =
      Some (Some \<lparr>ge_error = Some Data_too_big, ge_buffer = resize_bytes n buffer\<rparr>) \<and>
    inflate_gzip (gzip_head g @ [1, 2, 0, 0xfd, 0xff, a, b]) buffer 1 =
      Some (Some \<lparr>ge_error = Some Inflating_error, ge_buffer = resize_bytes 1 buffer\<rparr>)"
proof -
  have b: "bits 1 (puff_start (Some d) k (x # xs) m) =
      Done (unat x mod 2) ((puff_start (Some d) k (x # xs) m)\<lparr>ps_incnt := 1, ps_bitbuf := unat x div 2, ps_bitcnt := 7\<rparr>)"
    if "0 < m" for d k x xs m
    using that by (simp add: puff_start_def bits_def bits_fill.simps next_byte_def raw_byte_def
        drop_bit_eq_div and_one_eq)
  have b2: "bits 2 (s\<lparr>ps_incnt := 1, ps_bitbuf := v, ps_bitcnt := 7\<rparr>) =
      Done (v AND 3) (s\<lparr>ps_incnt := 1, ps_bitbuf := drop_bit 2 v, ps_bitcnt := 5\<rparr>)" for s v
    by (simp add: bits_def bits_fill.simps)
  have "puff_loop (puff_start (Some d) k [7] 1) =
      Some (Done (-1) ((puff_start (Some d) k [7] 1)\<lparr>ps_incnt := 1, ps_bitbuf := 0, ps_bitcnt := 5\<rparr>))" for d k
    by (subst puff_loop.simps) (simp add: b b2 one_block_def del: One_nat_def)
  then have bad: "puff (Some d) k [7] 1 = Some (Some
      \<lparr>pe_err = -1, pe_dest = Some d, pe_destlen = 0, pe_sourcelen = 1\<rparr>)" for d k
    by (simp add: puff_def puff_result_def puff_start_def)
  let ?body = "[1, 2, 0, 0xfd, 0xff, a, b]"
  have st: "ps_in (puff_start d k xs m) = xs" "ps_inlen (puff_start d k xs m) = m"
    "ps_out (puff_start d k xs m) = d" "ps_outlen (puff_start d k xs m) = k"
    "ps_outcnt (puff_start d k xs m) = 0" for d k xs m
    by (simp_all add: puff_start_def)
  have full: "stored ((puff_start (Some d) 1 ?body 7)\<lparr>ps_incnt := 1, ps_bitbuf := 0, ps_bitcnt := 5\<rparr>) =
      Done 1 ((puff_start (Some d) 1 ?body 7)\<lparr>ps_incnt := 5, ps_bitbuf := 0, ps_bitcnt := 0\<rparr>)" for d
    by (simp add: stored_def raw_byte_def wrap32_def st)
  have "puff_loop (puff_start (Some d) 1 ?body 7) =
      Some (Done 1 ((puff_start (Some d) 1 ?body 7)\<lparr>ps_incnt := 5, ps_bitbuf := 0, ps_bitcnt := 0\<rparr>))" for d
    by (subst puff_loop.simps) (simp add: b b2 one_block_def full del: One_nat_def)
  then have big: "puff (Some d) 1 ?body 7 = Some (Some
      \<lparr>pe_err = 1, pe_dest = Some d, pe_destlen = 1, pe_sourcelen = 7\<rparr>)" for d
    by (simp add: puff_def puff_result_def puff_start_def)
  have l: "length ?body = 7" "length [7 :: byte] = 1" by simp_all
  have one: "(0 :: nat) < 1" by simp
  show ?thesis
    unfolding inflate_after_head [OF assms] inflate_after_head [OF assms(1) one] l bad big
    by (simp add: resize_bytes_take)
qed

end
