(* ===== verification/Utf.thy ===== *)
theory Utf
  imports Prelude "HOL-Library.Word"
begin

text \<open>src/convertutf.cpp: the conversions between UTF-8, UTF-16 and UTF-32, and
  src/utf8.cpp, which uses them and the multibyte functions of the C library.

  A source is the list of what is left between its two pointers, the room of a target
  the number of units between its own. A conversion returns its result, the rest of the
  source and the units it has written.\<close>

unbundle bit_operations_syntax

section \<open>Constants\<close>

datatype conversion_result = conversionOK | sourceExhausted | targetExhausted | sourceIllegal

datatype conversion_flags = strictConversion | lenientConversion

definition UNI_REPLACEMENT_CHAR :: u32 where "UNI_REPLACEMENT_CHAR = 0xFFFD"
definition UNI_MAX_BMP :: u32 where "UNI_MAX_BMP = 0xFFFF"
definition UNI_MAX_UTF16 :: u32 where "UNI_MAX_UTF16 = 0x10FFFF"
definition UNI_MAX_LEGAL_UTF32 :: u32 where "UNI_MAX_LEGAL_UTF32 = 0x10FFFF"
definition halfShift :: nat where "halfShift = 10"
definition halfBase :: u32 where "halfBase = 0x10000"
definition halfMask :: u32 where "halfMask = 0x3FF"
definition UNI_SUR_HIGH_START :: u32 where "UNI_SUR_HIGH_START = 0xD800"
definition UNI_SUR_HIGH_END :: u32 where "UNI_SUR_HIGH_END = 0xDBFF"
definition UNI_SUR_LOW_START :: u32 where "UNI_SUR_LOW_START = 0xDC00"
definition UNI_SUR_LOW_END :: u32 where "UNI_SUR_LOW_END = 0xDFFF"

lemmas uni_consts = UNI_REPLACEMENT_CHAR_def UNI_MAX_BMP_def UNI_MAX_UTF16_def
  UNI_MAX_LEGAL_UTF32_def halfShift_def halfBase_def halfMask_def UNI_SUR_HIGH_START_def
  UNI_SUR_HIGH_END_def UNI_SUR_LOW_START_def UNI_SUR_LOW_END_def

definition trailingBytesForUTF8 :: "nat list" where
  "trailingBytesForUTF8 = replicate 192 0 @ replicate 32 1 @ replicate 16 2 @
     replicate 8 3 @ replicate 4 4 @ replicate 4 5"

definition offsetsFromUTF8 :: "u32 list" where
  "offsetsFromUTF8 = [0x00000000, 0x00003080, 0x000E2080, 0x03C82080, 0xFA082080, 0x82082080]"

definition firstByteMark :: bytes where
  "firstByteMark = [0x00, 0x00, 0xC0, 0xE0, 0xF0, 0xF8, 0xFC]"

section \<open>UTF-32 and UTF-16\<close>

type_synonym ('s, 't) conv = "conversion_result \<times> 's list \<times> 't list"

definition put_units :: "'t list \<Rightarrow> ('s, 't) conv \<Rightarrow> ('s, 't) conv" where
  "put_units us r = (case r of (res, rest, out) \<Rightarrow> (res, rest, us @ out))"

definition surrogate_pair :: "u32 \<Rightarrow> u16 list" where
  "surrogate_pair ch0 =
     (let ch = ch0 - halfBase in
      [ucast (drop_bit halfShift ch + UNI_SUR_HIGH_START),
       ucast ((ch AND halfMask) + UNI_SUR_LOW_START)])"

text \<open>The result of the loop is an argument: a strict conversion to UTF-16 sets it for a
  number that is too big and goes on.\<close>

fun utf32_utf16 ::
  "conversion_flags \<Rightarrow> nat \<Rightarrow> conversion_result \<Rightarrow> u32 list \<Rightarrow> (u32, u16) conv" where
  "utf32_utf16 flags room result [] = (result, [], [])"
| "utf32_utf16 flags room result (ch # source) =
     (if room = 0 then (targetExhausted, ch # source, [])
      else if ch \<le> UNI_MAX_BMP
      then (if UNI_SUR_HIGH_START \<le> ch \<and> ch \<le> UNI_SUR_LOW_END
            then (if flags = strictConversion then (sourceIllegal, ch # source, [])
                  else put_units [ucast UNI_REPLACEMENT_CHAR]
                         (utf32_utf16 flags (room - 1) result source))
            else put_units [ucast ch] (utf32_utf16 flags (room - 1) result source))
      else if ch > UNI_MAX_LEGAL_UTF32
      then (if flags = strictConversion then utf32_utf16 flags room sourceIllegal source
            else put_units [ucast UNI_REPLACEMENT_CHAR]
                   (utf32_utf16 flags (room - 1) result source))
      else if room \<le> 1 then (targetExhausted, ch # source, [])
      else put_units (surrogate_pair ch) (utf32_utf16 flags (room - 2) result source))"

definition ConvertUTF32toUTF16 ::
  "u32 list \<Rightarrow> nat \<Rightarrow> conversion_flags \<Rightarrow> (u32, u16) conv" where
  "ConvertUTF32toUTF16 source room flags = utf32_utf16 flags room conversionOK source"

text \<open>One character read from UTF-16, with a surrogate pair put together: an error, or
  the character and the rest of the source.\<close>

definition read_utf16 ::
  "conversion_flags \<Rightarrow> u16 \<Rightarrow> u16 list \<Rightarrow> conversion_result + u32 \<times> u16 list" where
  "read_utf16 flags unit source =
     (let ch = ucast unit :: u32 in
      if UNI_SUR_HIGH_START \<le> ch \<and> ch \<le> UNI_SUR_HIGH_END
      then (case source of
              [] \<Rightarrow> Inl sourceExhausted
            | unit2 # source' \<Rightarrow>
                (let ch2 = ucast unit2 in
                 if UNI_SUR_LOW_START \<le> ch2 \<and> ch2 \<le> UNI_SUR_LOW_END
                 then Inr (push_bit halfShift (ch - UNI_SUR_HIGH_START) +
                           (ch2 - UNI_SUR_LOW_START) + halfBase, source')
                 else if flags = strictConversion then Inl sourceIllegal
                 else Inr (ch, source)))
      else if flags = strictConversion \<and> UNI_SUR_LOW_START \<le> ch \<and> ch \<le> UNI_SUR_LOW_END
      then Inl sourceIllegal
      else Inr (ch, source))"

lemma read_utf16_shorter:
  "read_utf16 flags unit source = Inr (ch, source') \<Longrightarrow> length source' \<le> length source"
  by (auto simp: read_utf16_def Let_def split: if_splits list.splits)

function utf16_utf32 :: "conversion_flags \<Rightarrow> nat \<Rightarrow> u16 list \<Rightarrow> (u16, u32) conv" where
  "utf16_utf32 flags room [] = (conversionOK, [], [])"
| "utf16_utf32 flags room (unit # source) =
     (case read_utf16 flags unit source of
        Inl err \<Rightarrow> (err, unit # source, [])
      | Inr (ch, source') \<Rightarrow>
          if room = 0 then (targetExhausted, unit # source, [])
          else put_units [ch] (utf16_utf32 flags (room - 1) source'))"
  by pat_completeness auto
termination
  by (relation "measure (\<lambda>(flags, room, source). length source)")
    (auto dest!: read_utf16_shorter)

definition ConvertUTF16toUTF32 ::
  "u16 list \<Rightarrow> nat \<Rightarrow> conversion_flags \<Rightarrow> (u16, u32) conv" where
  "ConvertUTF16toUTF32 source room flags = utf16_utf32 flags room source"

section \<open>Writing UTF-8\<close>

text \<open>How many bytes a character takes, and the character that is written in its
  place.\<close>

definition bytes_to_write :: "u32 \<Rightarrow> nat \<times> u32" where
  "bytes_to_write ch =
     (if ch < 0x80 then (1, ch) else if ch < 0x800 then (2, ch)
      else if ch < 0x10000 then (3, ch) else if ch < 0x110000 then (4, ch)
      else (3, UNI_REPLACEMENT_CHAR))"

text \<open>The switch that falls through, from the case of \<open>k\<close> bytes; the bytes come from the
  last to the first.\<close>

fun write_utf8 :: "nat \<Rightarrow> nat \<Rightarrow> u32 \<Rightarrow> bytes" where
  "write_utf8 n 0 ch = []"
| "write_utf8 n (Suc 0) ch = [ucast (ch OR ucast (firstByteMark ! n))]"
| "write_utf8 n (Suc (Suc k)) ch =
     write_utf8 n (Suc k) (drop_bit 6 ch) @ [ucast ((ch OR 0x80) AND 0xBF)]"

function utf16_utf8 :: "conversion_flags \<Rightarrow> nat \<Rightarrow> u16 list \<Rightarrow> (u16, byte) conv" where
  "utf16_utf8 flags room [] = (conversionOK, [], [])"
| "utf16_utf8 flags room (unit # source) =
     (case read_utf16 flags unit source of
        Inl err \<Rightarrow> (err, unit # source, [])
      | Inr (ch0, source') \<Rightarrow>
          (let (n, ch) = bytes_to_write ch0 in
           if room < n then (targetExhausted, unit # source, [])
           else put_units (write_utf8 n n ch) (utf16_utf8 flags (room - n) source')))"
  by pat_completeness auto
termination
  by (relation "measure (\<lambda>(flags, room, source). length source)")
    (auto dest!: read_utf16_shorter)

definition ConvertUTF16toUTF8 ::
  "u16 list \<Rightarrow> nat \<Rightarrow> conversion_flags \<Rightarrow> (u16, byte) conv" where
  "ConvertUTF16toUTF8 source room flags = utf16_utf8 flags room source"

fun utf32_utf8 ::
  "conversion_flags \<Rightarrow> nat \<Rightarrow> conversion_result \<Rightarrow> u32 list \<Rightarrow> (u32, byte) conv" where
  "utf32_utf8 flags room result [] = (result, [], [])"
| "utf32_utf8 flags room result (ch0 # source) =
     (if flags = strictConversion \<and> UNI_SUR_HIGH_START \<le> ch0 \<and> ch0 \<le> UNI_SUR_LOW_END
      then (sourceIllegal, ch0 # source, [])
      else
        (let (n, ch) = bytes_to_write ch0;
             result' = (if ch0 > UNI_MAX_LEGAL_UTF32 then sourceIllegal else result) in
         if room < n then (targetExhausted, ch0 # source, [])
         else put_units (write_utf8 n n ch) (utf32_utf8 flags (room - n) result' source)))"

definition ConvertUTF32toUTF8 ::
  "u32 list \<Rightarrow> nat \<Rightarrow> conversion_flags \<Rightarrow> (u32, byte) conv" where
  "ConvertUTF32toUTF8 source room flags = utf32_utf8 flags room conversionOK source"

section \<open>Reading UTF-8\<close>

text \<open>The second byte of a sequence, which the first one constrains.\<close>

definition legal_second :: "byte \<Rightarrow> byte \<Rightarrow> bool" where
  "legal_second first a \<longleftrightarrow>
     a \<le> 0xBF \<and>
     (if first = 0xE0 then a \<ge> 0xA0 else if first = 0xED then a \<le> 0x9F
      else if first = 0xF0 then a \<ge> 0x90 else if first = 0xF4 then a \<le> 0x8F
      else a \<ge> 0x80)"

definition isLegalUTF8 :: "bytes \<Rightarrow> nat \<Rightarrow> bool" where
  "isLegalUTF8 source n \<longleftrightarrow>
     1 \<le> n \<and> n \<le> 4 \<and>
     (n \<ge> 4 \<longrightarrow> 0x80 \<le> source ! 3 \<and> source ! 3 \<le> 0xBF) \<and>
     (n \<ge> 3 \<longrightarrow> 0x80 \<le> source ! 2 \<and> source ! 2 \<le> 0xBF) \<and>
     (n \<ge> 2 \<longrightarrow> legal_second (source ! 0) (source ! 1)) \<and>
     \<not> (0x80 \<le> source ! 0 \<and> source ! 0 < 0xC2) \<and> source ! 0 \<le> 0xF4"

definition trailing :: "bytes \<Rightarrow> nat" where
  "trailing source = trailingBytesForUTF8 ! unat (source ! 0)"

definition isLegalUTF8Sequence :: "bytes \<Rightarrow> bool" where
  "isLegalUTF8Sequence source =
     (if trailing source + 1 > length source then False
      else isLegalUTF8 source (trailing source + 1))"

text \<open>The switch that falls through, from the case of \<open>k\<close> further bytes.\<close>

fun sum_utf8 :: "nat \<Rightarrow> u32 \<Rightarrow> bytes \<Rightarrow> u32" where
  "sum_utf8 0 ch source = ch + ucast (source ! 0)"
| "sum_utf8 (Suc k) ch source = sum_utf8 k (push_bit 6 (ch + ucast (source ! 0))) (drop 1 source)"

definition read_utf8 :: "bytes \<Rightarrow> u32" where
  "read_utf8 source = sum_utf8 (trailing source) 0 source - offsetsFromUTF8 ! trailing source"

function utf8_utf16 :: "conversion_flags \<Rightarrow> nat \<Rightarrow> bytes \<Rightarrow> (byte, u16) conv" where
  "utf8_utf16 flags room source =
     (if source = [] then (conversionOK, [], [])
      else if length source \<le> trailing source then (sourceExhausted, source, [])
      else if \<not> isLegalUTF8 source (trailing source + 1) then (sourceIllegal, source, [])
      else
        (let ch = read_utf8 source; source' = drop (trailing source + 1) source in
         if room = 0 then (targetExhausted, source, [])
         else if ch \<le> UNI_MAX_BMP
         then (if UNI_SUR_HIGH_START \<le> ch \<and> ch \<le> UNI_SUR_LOW_END
               then (if flags = strictConversion then (sourceIllegal, source, [])
                     else put_units [ucast UNI_REPLACEMENT_CHAR]
                            (utf8_utf16 flags (room - 1) source'))
               else put_units [ucast ch] (utf8_utf16 flags (room - 1) source'))
         else if ch > UNI_MAX_UTF16
         then (if flags = strictConversion then (sourceIllegal, source, [])
               else put_units [ucast UNI_REPLACEMENT_CHAR]
                      (utf8_utf16 flags (room - 1) source'))
         else if room \<le> 1 then (targetExhausted, source, [])
         else put_units (surrogate_pair ch) (utf8_utf16 flags (room - 2) source')))"
  by pat_completeness auto
termination
  by (relation "measure (\<lambda>(flags, room, source). length source)") auto

declare utf8_utf16.simps [simp del]

definition ConvertUTF8toUTF16 ::
  "bytes \<Rightarrow> nat \<Rightarrow> conversion_flags \<Rightarrow> (byte, u16) conv" where
  "ConvertUTF8toUTF16 source room flags = utf8_utf16 flags room source"

function utf8_utf32 ::
  "conversion_flags \<Rightarrow> nat \<Rightarrow> conversion_result \<Rightarrow> bytes \<Rightarrow> (byte, u32) conv" where
  "utf8_utf32 flags room result source =
     (if source = [] then (result, [], [])
      else if length source \<le> trailing source then (sourceExhausted, source, [])
      else if \<not> isLegalUTF8 source (trailing source + 1) then (sourceIllegal, source, [])
      else
        (let ch = read_utf8 source; source' = drop (trailing source + 1) source in
         if room = 0 then (targetExhausted, source, [])
         else if ch \<le> UNI_MAX_LEGAL_UTF32
         then (if UNI_SUR_HIGH_START \<le> ch \<and> ch \<le> UNI_SUR_LOW_END
               then (if flags = strictConversion then (sourceIllegal, source, [])
                     else put_units [UNI_REPLACEMENT_CHAR]
                            (utf8_utf32 flags (room - 1) result source'))
               else put_units [ch] (utf8_utf32 flags (room - 1) result source'))
         else put_units [UNI_REPLACEMENT_CHAR]
                (utf8_utf32 flags (room - 1) sourceIllegal source')))"
  by pat_completeness auto
termination
  by (relation "measure (\<lambda>(flags, room, result, source). length source)") auto

declare utf8_utf32.simps [simp del]

definition ConvertUTF8toUTF32 ::
  "bytes \<Rightarrow> nat \<Rightarrow> conversion_flags \<Rightarrow> (byte, u32) conv" where
  "ConvertUTF8toUTF32 source room flags = utf8_utf32 flags room conversionOK source"

section \<open>Strings and wide strings\<close>

text \<open>\<open>wsize\<close> is \<open>sizeof(wchar_t)\<close>; the characters of a wide string are of 32 bits here,
  and of 16 where the wsize is 2. The result with the string that the second argument is
  left with.\<close>

definition utf8_wchar :: "nat \<Rightarrow> bytes \<Rightarrow> conversion_result \<times> u32 list" where
  "utf8_wchar wsize utf8 =
     (if wsize = 4
      then (case ConvertUTF8toUTF32 utf8 (length utf8) lenientConversion of
              (ret, _, wide) \<Rightarrow> (ret, wide))
      else if wsize = 2
      then (case ConvertUTF8toUTF16 utf8 (length utf8) lenientConversion of
              (ret, _, wide) \<Rightarrow> (ret, map ucast wide))
      else (sourceIllegal, replicate (length utf8) 0))"

definition wchar_utf8 :: "nat \<Rightarrow> u32 list \<Rightarrow> conversion_result \<times> bytes" where
  "wchar_utf8 wsize wide =
     (if wide = [] then (conversionOK, [])
      else if wsize = 4
      then (case ConvertUTF32toUTF8 wide (6 * length wide) lenientConversion of
              (ret, _, utf8) \<Rightarrow> (ret, utf8))
      else if wsize = 2
      then (case ConvertUTF16toUTF8 (map ucast wide) (6 * length wide) lenientConversion of
              (ret, _, utf8) \<Rightarrow> (ret, utf8))
      else (sourceIllegal, replicate (6 * length wide) 0))"

text \<open>The functions of the C library depend on the locale and are arguments. \<open>mbtowc\<close> of
  what is left returns its result and the character it stores, if any; \<open>wctomb\<close> of a
  character the bytes, or None for -1; \<open>wcstombs\<close> and \<open>mbstowcs\<close> the whole string, or None
  for -1.\<close>

function to_wide :: "(bytes \<Rightarrow> int \<times> u32 option) \<Rightarrow> bytes \<Rightarrow> u32 list" where
  "to_wide mbtowc s =
     (if s = [] then []
      else let (result, stored) = mbtowc s in
           (case stored of None \<Rightarrow> 0x2E | Some c \<Rightarrow> c) #
           to_wide mbtowc (drop (if result > 0 then nat result else 1) s))"
  by pat_completeness auto
termination
  by (relation "measure (\<lambda>(mbtowc, s). length s)") (auto split: if_splits)

declare to_wide.simps [simp del]

definition convert_to_wstring ::
  "(bytes \<Rightarrow> int \<times> u32 option) \<Rightarrow> nat \<Rightarrow> bytes \<Rightarrow> u32 list" where
  "convert_to_wstring mbtowc wsize s =
     (if s = [] then []
      else case utf8_wchar wsize s of
             (result, ret) \<Rightarrow> if result = conversionOK then ret else to_wide mbtowc s)"

function from_wide :: "(u32 \<Rightarrow> bytes option) \<Rightarrow> u32 list \<Rightarrow> bytes" where
  "from_wide wctomb s =
     (if s = [] then []
      else case wctomb (hd s) of
             None \<Rightarrow> 0x2E # from_wide wctomb (drop 1 s)
           | Some c \<Rightarrow>
               if c \<noteq> [] then c @ from_wide wctomb (drop (length c) s)
               else 0x2E # from_wide wctomb (drop 1 s))"
  by pat_completeness auto
termination
  by (relation "measure (\<lambda>(wctomb, s). length s)") auto

declare from_wide.simps [simp del]

definition convert_from_wstring ::
  "(u32 \<Rightarrow> bytes option) \<Rightarrow> nat \<Rightarrow> u32 list \<Rightarrow> bytes" where
  "convert_from_wstring wctomb wsize s =
     (if s = [] then []
      else case wchar_utf8 wsize s of
             (result, ret) \<Rightarrow> if result = conversionOK then ret else from_wide wctomb s)"

text \<open>The argument of a function of the C library ends at its first zero.\<close>

definition c_string :: "('a :: zero) list \<Rightarrow> 'a list" where
  "c_string s = takeWhile (\<lambda>c. c \<noteq> 0) s"

definition convert_to_native ::
  "(u32 list \<Rightarrow> bytes option) \<Rightarrow> nat \<Rightarrow> bytes \<Rightarrow> bytes" where
  "convert_to_native wcstombs wsize s =
     (if s = [] then []
      else case utf8_wchar wsize s of
             (result, ws) \<Rightarrow>
               if result \<noteq> conversionOK then s
               else (case wcstombs (c_string ws) of None \<Rightarrow> s | Some ret \<Rightarrow> ret))"

definition convert_from_native ::
  "(bytes \<Rightarrow> u32 list option) \<Rightarrow> nat \<Rightarrow> bytes \<Rightarrow> bytes" where
  "convert_from_native mbstowcs wsize s =
     (if s = [] then []
      else case mbstowcs (c_string s) of
             None \<Rightarrow> s
           | Some stored \<Rightarrow>
               (let ws = take (length s) stored @ replicate (length s - length stored) 0 in
                case wchar_utf8 wsize ws of
                  (result, ret) \<Rightarrow> if result \<noteq> conversionOK then s else ret))"

text \<open>The variant that is built with \<open>iconv\<close> and without wide functions. \<open>iconv\<close> of the
  input and the room returns whether it succeeded, the input left, the room left and the
  bytes written.\<close>

definition iconv_convert_impl ::
  "(bytes \<Rightarrow> nat \<Rightarrow> bool \<times> nat \<times> nat \<times> bytes) \<Rightarrow> bytes \<Rightarrow> bytes" where
  "iconv_convert_impl iconv s =
     (let room = 4 * length s in
      case iconv s room of
        (ok, insize, outsize, written) \<Rightarrow>
          if \<not> ok then s
          else if insize \<noteq> 0 then s
          else if outsize > 4 * length s then s
          else take (room - outsize) (written @ replicate (room - length written) 0))"

end
