(* ===== verification/Utf_Theorems.thy ===== *)
theory Utf_Theorems
  imports Utf
begin

text \<open>The encodings of the Unicode standard, and the conversions of src/convertutf.cpp
  against them.\<close>

section \<open>The encodings\<close>

text \<open>A Unicode scalar value; its UTF-8 and UTF-16 form, in numbers.\<close>

definition scalar :: "nat \<Rightarrow> bool" where
  "scalar n \<longleftrightarrow> n < 0x110000 \<and> \<not> (0xD800 \<le> n \<and> n < 0xE000)"

definition utf8_form :: "nat \<Rightarrow> bytes" where
  "utf8_form n = map word_of_nat
     (if n < 0x80 then [n]
      else if n < 0x800 then [0xC0 + n div 64, 0x80 + n mod 64]
      else if n < 0x10000 then [0xE0 + n div 4096, 0x80 + n div 64 mod 64, 0x80 + n mod 64]
      else [0xF0 + n div 262144, 0x80 + n div 4096 mod 64, 0x80 + n div 64 mod 64, 0x80 + n mod 64])"

definition utf16_form :: "nat \<Rightarrow> u16 list" where
  "utf16_form n = map word_of_nat
     (if n < 0x10000 then [n]
      else [0xD800 + (n - 0x10000) div 1024, 0xDC00 + (n - 0x10000) mod 1024])"

definition chars :: "nat list \<Rightarrow> u32 list" where
  "chars ns = map word_of_nat ns"

section \<open>Writing UTF-8\<close>

lemma cont_byte:
  "(ucast ((ch OR 0x80) AND 0xBF :: u32) :: byte) = word_of_nat (0x80 + unat ch mod 64)"
proof -
  have "(ucast ((ch OR 0x80) AND 0xBF :: u32) :: byte) = 0x80 OR take_bit 6 (ucast ch)"
    by (rule bit_word_eqI) (auto simp: bit_simps less_Suc_eq numeral_eq_Suc)
  also have "\<dots> = 0x80 + take_bit 6 (ucast ch)"
    by (rule disjunctive_add_eq_or [symmetric])
      (rule bit_word_eqI, auto simp: bit_simps less_Suc_eq numeral_eq_Suc)
  also have "take_bit 6 (ucast ch :: byte) = word_of_nat (unat ch mod 64)"
    unfolding word_unat_eq_iff unsigned_take_bit_eq unsigned_ucast_eq unsigned_of_nat take_bit_take_bit
    by (simp add: take_bit_eq_mod mod_mod_cancel)
  finally show ?thesis by simp
qed

lemma mark_byte:
  assumes "unat ch < 2 ^ k" and "k = 5 \<and> m = 0xC0 \<or> k = 4 \<and> m = 0xE0 \<or> k = 3 \<and> m = 0xF0"
  shows "(ucast (ch OR ucast (m :: byte) :: u32) :: byte) = word_of_nat (unat m + unat ch)"
proof -
  have "take_bit k ch = ch"
    using assms(1) by (simp add: word_unat_eq_iff unsigned_take_bit_eq take_bit_nat_eq_self)
  then have "(ucast (ch OR ucast m) :: byte) = ucast (take_bit k ch OR ucast m)" by simp
  also have "\<dots> = m OR take_bit k (ucast ch)"
    by (rule bit_word_eqI) (auto simp: bit_simps)
  also have "\<dots> = m + take_bit k (ucast ch)"
    by (rule disjunctive_add_eq_or [symmetric])
      (rule bit_word_eqI, use assms(2) in \<open>auto simp: bit_simps less_Suc_eq numeral_eq_Suc\<close>)
  also have "take_bit k (ucast ch :: byte) = ucast ch"
    using assms by (auto simp: word_unat_eq_iff unsigned_take_bit_eq unsigned_ucast_eq take_bit_nat_def)
  also have "(ucast ch :: byte) = word_of_nat (unat ch)"
    by simp
  finally show ?thesis by simp
qed

lemma write_utf8_form:
  assumes "n < 0x110000"
  shows "(case bytes_to_write (word_of_nat n) of (k, ch) \<Rightarrow> write_utf8 k k ch) = utf8_form n"
proof -
  have u: "unat (word_of_nat n :: u32) = n"
    using assms by (simp add: unsigned_of_nat take_bit_nat_eq_self)
  have less: "(word_of_nat n :: u32) < 0x80 \<longleftrightarrow> n < 0x80" "(word_of_nat n :: u32) < 0x800 \<longleftrightarrow> n < 0x800"
    "(word_of_nat n :: u32) < 0x10000 \<longleftrightarrow> n < 0x10000" "(word_of_nat n :: u32) < 0x110000 \<longleftrightarrow> n < 0x110000"
    by (simp_all add: word_less_nat_alt u)
  have d: "unat (drop_bit j (word_of_nat n :: u32)) = n div 2 ^ j" for j
    unfolding unsigned_drop_bit_eq u
    using assms by (simp add: drop_bit_eq_div take_bit_nat_eq_self)
  let ?w = "word_of_nat n :: u32"
  have w2: "write_utf8 2 2 ch = [ucast (drop_bit 6 ch OR ucast (0xC0 :: byte)), ucast ((ch OR 0x80) AND 0xBF)]"
    and w3: "write_utf8 3 3 ch = [ucast (drop_bit 12 ch OR ucast (0xE0 :: byte)),
      ucast ((drop_bit 6 ch OR 0x80) AND 0xBF), ucast ((ch OR 0x80) AND 0xBF)]"
    and w4: "write_utf8 4 4 ch = [ucast (drop_bit 18 ch OR ucast (0xF0 :: byte)),
      ucast ((drop_bit 12 ch OR 0x80) AND 0xBF), ucast ((drop_bit 6 ch OR 0x80) AND 0xBF),
      ucast ((ch OR 0x80) AND 0xBF)]" for ch
    by (simp_all add: numeral_2_eq_2 numeral_3_eq_3 numeral_eq_Suc firstByteMark_def drop_bit_drop_bit)
  consider "n < 0x80" | "0x80 \<le> n" "n < 0x800" | "0x800 \<le> n" "n < 0x10000" | "0x10000 \<le> n"
    by linarith
  then show ?thesis
  proof cases
    case 1
    then show ?thesis
      by (simp add: bytes_to_write_def less utf8_form_def firstByteMark_def unsigned_of_nat take_bit_nat_eq_self)
  next
    case 2
    have "unat (drop_bit 6 ?w) < 2 ^ 5" using 2 by (simp add: d)
    then show ?thesis
      using 2 mark_byte [of "drop_bit 6 ?w" 5 "0xC0"]
      by (simp add: bytes_to_write_def less utf8_form_def w2 cont_byte d u)
  next
    case 3
    have "unat (drop_bit 12 ?w) < 2 ^ 4" using 3 by (simp add: d)
    then show ?thesis
      using 3 mark_byte [of "drop_bit 12 ?w" 4 "0xE0"]
      by (simp add: bytes_to_write_def less utf8_form_def w3 cont_byte d u)
  next
    case 4
    have "unat (drop_bit 18 ?w) < 2 ^ 3" using assms by (simp add: d)
    then show ?thesis
      using 4 assms mark_byte [of "drop_bit 18 ?w" 3 "0xF0"]
      by (simp add: bytes_to_write_def less utf8_form_def w4 cont_byte d u)
  qed
qed

section \<open>Reading UTF-8\<close>

lemma trailing_at:
  "i < 256 \<Longrightarrow> trailingBytesForUTF8 ! i = (if i < 192 then 0 else if i < 224 then 1
     else if i < 240 then 2 else if i < 248 then 3 else if i < 252 then 4 else 5)"
  by (auto simp: trailingBytesForUTF8_def nth_append)

lemma byte_unat [simp]: "k < 256 \<Longrightarrow> unat (word_of_nat k :: byte) = k"
  by (simp add: unsigned_of_nat take_bit_nat_eq_self)

lemma byte_add: "unat w + k < 256 \<Longrightarrow> unat (w + word_of_nat k :: byte) = unat w + k"
proof -
  have "w + word_of_nat k = (word_of_nat (unat w + k) :: byte)" by simp
  then show "unat w + k < 256 \<Longrightarrow> unat (w + word_of_nat k) = unat w + k"
    by (simp only: byte_unat)
qed

lemma byte_ucast: "unat w + k < 256 \<Longrightarrow> (ucast (w + word_of_nat k :: byte) :: u32) = ucast w + word_of_nat k"
proof -
  assume a: "unat w + k < 256"
  have "w + word_of_nat k = (word_of_nat (unat w + k) :: byte)" by simp
  then have "(ucast (w + word_of_nat k) :: u32) = word_of_nat (take_bit 8 (unat w + k))"
    by (simp only: unsigned_of_nat) simp
  also have "\<dots> = word_of_nat (unat w + k)"
    using a by (simp add: take_bit_nat_eq_self)
  finally show ?thesis by simp
qed

lemma form_cases:
  assumes "n < 0x110000"
  obtains "n < 0x80" "utf8_form n = [word_of_nat n]"
  | "0x80 \<le> n" "n < 0x800" "n div 64 < 32" "2 \<le> n div 64"
    "utf8_form n = [0xC0 + word_of_nat (n div 64), 0x80 + word_of_nat (n mod 64)]"
  | "0x800 \<le> n" "n < 0x10000" "n div 4096 < 16"
    "utf8_form n = [0xE0 + word_of_nat (n div 4096), 0x80 + word_of_nat (n div 64 mod 64),
       0x80 + word_of_nat (n mod 64)]"
  | "0x10000 \<le> n" "n < 0x110000" "n div 262144 < 5"
    "utf8_form n = [0xF0 + word_of_nat (n div 262144), 0x80 + word_of_nat (n div 4096 mod 64),
       0x80 + word_of_nat (n div 64 mod 64), 0x80 + word_of_nat (n mod 64)]"
proof -
  consider "n < 0x80" | "0x80 \<le> n" "n < 0x800" | "0x800 \<le> n" "n < 0x10000" | "0x10000 \<le> n"
    by linarith
  then show ?thesis
    using assms by cases (rule that; simp add: utf8_form_def)+
qed

lemma trailing_form:
  assumes "n < 0x110000"
  shows "trailing (utf8_form n @ rest) = length (utf8_form n) - 1"
  using assms by (rule form_cases) (simp_all add: trailing_def byte_add trailing_at)

lemma length_form: "1 \<le> length (utf8_form n)" "length (utf8_form n) \<le> 4" "utf8_form n \<noteq> []"
  by (simp_all add: utf8_form_def)

lemma mod_64 [simp]: "(x :: nat) mod 64 \<le> 63"
proof -
  have "x mod 64 < 64" by simp
  then show ?thesis by linarith
qed

lemma legal_form:
  assumes "scalar n"
  shows "isLegalUTF8 (utf8_form n @ rest) (length (utf8_form n))"
proof -
  have "n < 0x110000" using assms by (simp add: scalar_def)
  then show ?thesis
  proof (rule form_cases)
    assume "n < 0x80" "utf8_form n = [word_of_nat n]"
    then show ?thesis
      by (simp add: isLegalUTF8_def word_le_nat_alt)
  next
    assume "2 \<le> n div 64" "n div 64 < 32" "utf8_form n = [0xC0 + word_of_nat (n div 64), 0x80 + word_of_nat (n mod 64)]"
    then show ?thesis
      by (simp add: isLegalUTF8_def legal_second_def word_le_nat_alt word_less_nat_alt word_unat_eq_iff byte_add)
  next
    assume "0x800 \<le> n" "n < 0x10000" "n div 4096 < 16" 
      "utf8_form n = [0xE0 + word_of_nat (n div 4096), 0x80 + word_of_nat (n div 64 mod 64),
       0x80 + word_of_nat (n mod 64)]"
    moreover have "n div 64 mod 64 \<le> 31" if "n div 4096 = 13"
    proof -
      have "n div 64 < 864 \<or> 896 \<le> n div 64"
        using assms by (simp add: scalar_def) linarith
      moreover have "n div 64 = 832 + n div 64 mod 64"
        using div_mult_mod_eq [of "n div 64" 64] that by (simp add: div_mult2_eq [symmetric])
      ultimately show ?thesis
        using mod_64 [of "n div 64"] by linarith
    qed
    moreover have "32 \<le> n div 64" "n div 4096 = 0 \<Longrightarrow> n div 64 \<le> 63"
      using \<open>0x800 \<le> n\<close> by simp_all
    ultimately show ?thesis
      by (simp add: isLegalUTF8_def legal_second_def word_le_nat_alt word_less_nat_alt word_unat_eq_iff byte_add)
  next
    assume "0x10000 \<le> n" "n < 0x110000" "n div 262144 < 5"
      "utf8_form n = [0xF0 + word_of_nat (n div 262144), 0x80 + word_of_nat (n div 4096 mod 64),
       0x80 + word_of_nat (n div 64 mod 64), 0x80 + word_of_nat (n mod 64)]"
    moreover have "n div 4096 mod 64 \<le> 15" if "n div 262144 = 4"
    proof -
      have "n div 4096 < 272"
        using \<open>n < 0x110000\<close> by simp
      moreover have "n div 4096 = 256 + n div 4096 mod 64"
        using div_mult_mod_eq [of "n div 4096" 64] that by (simp add: div_mult2_eq [symmetric])
      ultimately show ?thesis by linarith
    qed
    moreover have "16 \<le> n div 4096"
      using \<open>0x10000 \<le> n\<close> by simp
    ultimately show ?thesis
      by (simp add: isLegalUTF8_def legal_second_def word_le_nat_alt word_less_nat_alt word_unat_eq_iff byte_add)
  qed
qed

lemma digits_64:
  "(n :: nat) = 64 * (n div 64) + n mod 64"
  "n = 4096 * (n div 4096) + 64 * (n div 64 mod 64) + n mod 64"
  "n = 262144 * (n div 262144) + 4096 * (n div 4096 mod 64) + 64 * (n div 64 mod 64) + n mod 64"
proof -
  have 1: "m = 64 * (m div 64) + m mod 64" for m :: nat by simp
  show "n = 64 * (n div 64) + n mod 64" by (rule 1)
  have 2: "n = 4096 * (n div 4096) + 64 * (n div 64 mod 64) + n mod 64" for n :: nat
  proof -
    have "n div 64 = 64 * (n div 4096) + n div 64 mod 64"
      using 1 [of "n div 64"] by (simp add: div_mult2_eq [symmetric])
    then show ?thesis using 1 [of n] by linarith
  qed
  show "n = 4096 * (n div 4096) + 64 * (n div 64 mod 64) + n mod 64" by (rule 2)
  have "n div 4096 = 64 * (n div 262144) + n div 4096 mod 64"
    using 1 [of "n div 4096"] by (simp add: div_mult2_eq [symmetric])
  then show "n = 262144 * (n div 262144) + 4096 * (n div 4096 mod 64) + 64 * (n div 64 mod 64) + n mod 64"
    using 2 [of n] by linarith
qed

lemma mod_64_less [simp]: "(x :: nat) mod 64 < 128"
  by (rule less_trans [of _ 64]) simp_all

lemma read_form:
  assumes "n < 0x110000"
  shows "read_utf8 (utf8_form n @ rest) = word_of_nat n"
proof -
  note tr = trailing_form [OF assms, of rest]
  have x: "(ucast (0x80 + word_of_nat (k mod 64) :: byte) :: u32) = 0x80 + word_of_nat (k mod 64)" for k
    by (subst byte_ucast) simp_all
  have y: "k < 32 \<Longrightarrow> (ucast (0xC0 + word_of_nat k :: byte) :: u32) = 0xC0 + word_of_nat k"
    "k < 16 \<Longrightarrow> (ucast (0xE0 + word_of_nat k :: byte) :: u32) = 0xE0 + word_of_nat k"
    "k < 5 \<Longrightarrow> (ucast (0xF0 + word_of_nat k :: byte) :: u32) = 0xF0 + word_of_nat k" for k
    by (subst byte_ucast, simp, simp)+
  note ws = x y push_bit_eq_mult offsetsFromUTF8_def numeral_2_eq_2 numeral_3_eq_3
  from assms show ?thesis
  proof (rule form_cases)
    assume "n < 0x80" "utf8_form n = [word_of_nat n]"
    then show ?thesis
      using tr byte_ucast [of 0 n] by (simp add: read_utf8_def offsetsFromUTF8_def)
  next
    assume a: "n div 64 < 32" "utf8_form n = [0xC0 + word_of_nat (n div 64), 0x80 + word_of_nat (n mod 64)]"
    have "(word_of_nat n :: u32) = 64 * word_of_nat (n div 64) + word_of_nat (n mod 64)"
      by (subst digits_64(1) [of n]) (simp only: of_nat_add of_nat_mult of_nat_numeral)
    then show ?thesis
      using a tr by (simp add: read_utf8_def ws)
  next
    assume a: "n div 4096 < 16"
      "utf8_form n = [0xE0 + word_of_nat (n div 4096), 0x80 + word_of_nat (n div 64 mod 64),
       0x80 + word_of_nat (n mod 64)]"
    have "(word_of_nat n :: u32) = 4096 * word_of_nat (n div 4096) +
        64 * word_of_nat (n div 64 mod 64) + word_of_nat (n mod 64)"
      by (subst digits_64(2) [of n]) (simp only: of_nat_add of_nat_mult of_nat_numeral)
    then show ?thesis
      using a tr by (simp add: read_utf8_def ws)
  next
    assume a: "n div 262144 < 5"
      "utf8_form n = [0xF0 + word_of_nat (n div 262144), 0x80 + word_of_nat (n div 4096 mod 64),
       0x80 + word_of_nat (n div 64 mod 64), 0x80 + word_of_nat (n mod 64)]"
    have "(word_of_nat n :: u32) = 262144 * word_of_nat (n div 262144) +
        4096 * word_of_nat (n div 4096 mod 64) + 64 * word_of_nat (n div 64 mod 64) + word_of_nat (n mod 64)"
      by (subst digits_64(3) [of n]) (simp only: of_nat_add of_nat_mult of_nat_numeral)
    then show ?thesis
      using a tr by (simp add: read_utf8_def ws)
  qed
qed

section \<open>What isLegalUTF8 accepts\<close>

lemma form_of_digits:
  "c < 0x80 \<Longrightarrow> utf8_form c = [word_of_nat c]"
  "2 \<le> a \<Longrightarrow> a < 32 \<Longrightarrow> c < 64 \<Longrightarrow>
     utf8_form (64 * a + c) = [0xC0 + word_of_nat a, 0x80 + word_of_nat c]"
  "a < 16 \<Longrightarrow> b < 64 \<Longrightarrow> c < 64 \<Longrightarrow> 0x800 \<le> 4096 * a + 64 * b + c \<Longrightarrow>
     utf8_form (4096 * a + 64 * b + c) =
       [0xE0 + word_of_nat a, 0x80 + word_of_nat b, 0x80 + word_of_nat c]"
  "x < 5 \<Longrightarrow> a < 64 \<Longrightarrow> b < 64 \<Longrightarrow> c < 64 \<Longrightarrow> 0x10000 \<le> 262144 * x + 4096 * a + 64 * b + c \<Longrightarrow>
     utf8_form (262144 * x + 4096 * a + 64 * b + c) =
       [0xF0 + word_of_nat x, 0x80 + word_of_nat a, 0x80 + word_of_nat b, 0x80 + word_of_nat c]"
proof -
  have d2: "(64 * a + c) div 64 = a" "(64 * a + c) mod 64 = c" if "c < 64" for a c :: nat
    using that by simp_all
  have d3: "(4096 * a + 64 * b + c) div 4096 = a" "(4096 * a + 64 * b + c) div 64 mod 64 = b"
    "(4096 * a + 64 * b + c) mod 64 = c" if "b < 64" "c < 64" for a b c :: nat
  proof -
    have "4096 * a + 64 * b + c = 64 * (64 * a + b) + c" by simp
    then have q: "(4096 * a + 64 * b + c) div 64 = 64 * a + b" "(4096 * a + 64 * b + c) mod 64 = c"
      using d2 [OF that(2), of "64 * a + b"] by simp_all
    then show "(4096 * a + 64 * b + c) mod 64 = c" "(4096 * a + 64 * b + c) div 64 mod 64 = b"
      using that by simp_all
    have "(4096 * a + 64 * b + c) div 4096 = (4096 * a + 64 * b + c) div 64 div 64"
      by (simp add: div_mult2_eq [symmetric])
    then show "(4096 * a + 64 * b + c) div 4096 = a" using q that by simp
  qed
  have d4: "(262144 * x + 4096 * a + 64 * b + c) div 262144 = x"
    "(262144 * x + 4096 * a + 64 * b + c) div 4096 mod 64 = a"
    "(262144 * x + 4096 * a + 64 * b + c) div 64 mod 64 = b"
    "(262144 * x + 4096 * a + 64 * b + c) mod 64 = c" if "a < 64" "b < 64" "c < 64" for x a b c :: nat
  proof -
    let ?n = "262144 * x + 4096 * a + 64 * b + c"
    have n: "?n = 4096 * (64 * x + a) + 64 * b + c" by simp
    note q = d3 [OF that(2,3), of "64 * x + a", folded n]
    show "?n div 64 mod 64 = b" "?n mod 64 = c" by (rule q)+
    show "?n div 4096 mod 64 = a" using q(1) that by simp
    have "?n div 262144 = ?n div 4096 div 64" by (simp add: div_mult2_eq [symmetric])
    then show "?n div 262144 = x" using q(1) that by simp
  qed
  show "c < 0x80 \<Longrightarrow> utf8_form c = [word_of_nat c]"
    by (simp add: utf8_form_def)
  show "2 \<le> a \<Longrightarrow> a < 32 \<Longrightarrow> c < 64 \<Longrightarrow>
     utf8_form (64 * a + c) = [0xC0 + word_of_nat a, 0x80 + word_of_nat c]"
    unfolding utf8_form_def d2 by simp
  show "a < 16 \<Longrightarrow> b < 64 \<Longrightarrow> c < 64 \<Longrightarrow> 0x800 \<le> 4096 * a + 64 * b + c \<Longrightarrow>
     utf8_form (4096 * a + 64 * b + c) =
       [0xE0 + word_of_nat a, 0x80 + word_of_nat b, 0x80 + word_of_nat c]"
    unfolding utf8_form_def d3 by simp
  show "x < 5 \<Longrightarrow> a < 64 \<Longrightarrow> b < 64 \<Longrightarrow> c < 64 \<Longrightarrow> 0x10000 \<le> 262144 * x + 4096 * a + 64 * b + c \<Longrightarrow>
     utf8_form (262144 * x + 4096 * a + 64 * b + c) =
       [0xF0 + word_of_nat x, 0x80 + word_of_nat a, 0x80 + word_of_nat b, 0x80 + word_of_nat c]"
    unfolding utf8_form_def d4 by simp
qed

text \<open>Besides the encodings, \<open>isLegalUTF8\<close> accepts sequences that start with ED or F4
  and go on with a byte below 80: the cases for those two only look at the upper end.\<close>

definition cont :: "byte \<Rightarrow> bool" where
  "cont b \<longleftrightarrow> 0x80 \<le> b \<and> b \<le> 0xBF"

definition ill_formed :: "bytes \<Rightarrow> bool" where
  "ill_formed bs \<longleftrightarrow>
     (\<exists>a b rest. bs = 0xED # a # b # rest \<and> a < 0x80 \<and> cont b) \<or>
     (\<exists>a b c rest. bs = 0xF4 # a # b # c # rest \<and> a < 0x80 \<and> cont b \<and> cont c)"

lemma byte_split: "w \<le> b \<Longrightarrow> b = w + word_of_nat (unat b - unat w)" for b :: byte
  by (simp add: word_le_nat_alt of_nat_diff)

lemma cont_digit: "cont b \<Longrightarrow> \<exists>y < 64. b = 0x80 + word_of_nat y"
proof -
  assume "cont b"
  then have "0x80 \<le> b" "unat b \<le> 0xBF" "0x80 \<le> unat b" by (simp_all add: cont_def word_le_nat_alt)
  then show ?thesis
    using byte_split [of "0x80" b] by (intro exI [of _ "unat b - 0x80"]) simp
qed

lemma trailing_first:
  "trailing (b # bs) = (if b < 0xC0 then 0 else if b < 0xE0 then 1 else if b < 0xF0 then 2
     else if b < 0xF8 then 3 else if b < 0xFC then 4 else 5)"
proof -
  have "unat b < 256" using unsigned_less [of b] by simp
  then show ?thesis
    by (simp add: trailing_def trailing_at word_less_nat_alt)
qed

text \<open>The sequences of each length.\<close>

lemma legal_two:
  assumes "0xC2 \<le> b" and "b < 0xE0" and "cont x"
  shows "\<exists>n. scalar n \<and> [b, x] = utf8_form n"
proof -
  obtain y where y: "y < 64" "x = 0x80 + word_of_nat y"
    using cont_digit [OF assms(3)] by blast
  have b: "b = 0xC0 + word_of_nat (unat b - 0xC0)"
    using byte_split [of "0xC0" b] assms(1) by (simp add: word_le_nat_alt)
  have r: "2 \<le> unat b - 0xC0" "unat b - 0xC0 < 32"
    using assms(1,2) by (simp_all add: word_le_nat_alt word_less_nat_alt)
  let ?n = "64 * (unat b - 0xC0) + y"
  have "scalar ?n" using r y(1) by (simp add: scalar_def)
  moreover have "[b, x] = utf8_form ?n"
    unfolding form_of_digits(2) [OF r y(1)] using y(2) b by simp
  ultimately show ?thesis by blast
qed

lemma legal_three:
  assumes "0xE0 \<le> b" and "b < 0xF0" and "cont x" and "cont z"
    and "b = 0xE0 \<longrightarrow> 0xA0 \<le> x" and "b = 0xED \<longrightarrow> x \<le> 0x9F"
  shows "\<exists>n. scalar n \<and> [b, x, z] = utf8_form n"
proof -
  obtain y w where y: "y < 64" "x = 0x80 + word_of_nat y" and w: "w < 64" "z = 0x80 + word_of_nat w"
    using cont_digit [OF assms(3)] cont_digit [OF assms(4)] by blast
  have x: "unat x = 0x80 + y" using y by (simp add: byte_add)
  define a where "a = unat b - 0xE0"
  have b: "b = 0xE0 + word_of_nat a"
    using byte_split [of "0xE0" b] assms(1) by (simp add: word_le_nat_alt a_def)
  have a: "a < 16"
    using assms(1,2) by (simp add: word_le_nat_alt word_less_nat_alt a_def)
  have "32 \<le> y" if "a = 0" using assms(5) b x that by (simp add: word_le_nat_alt)
  then have low: "0x800 \<le> 4096 * a + 64 * y + w" by (cases "a = 0") simp_all
  have "y \<le> 31" if "a = 13" using assms(6) b x that by (simp add: word_le_nat_alt)
  then have "scalar (4096 * a + 64 * y + w)"
    using a y(1) w(1) unfolding scalar_def by (cases "a < 13"; cases "a = 13") auto
  moreover have "[b, x, z] = utf8_form (4096 * a + 64 * y + w)"
    unfolding form_of_digits(3) [OF a y(1) w(1) low] using y(2) w(2) b by simp
  ultimately show ?thesis by blast
qed

lemma legal_four:
  assumes "0xF0 \<le> b" and "b \<le> 0xF4" and "cont x" and "cont z" and "cont u"
    and "b = 0xF0 \<longrightarrow> 0x90 \<le> x" and "b = 0xF4 \<longrightarrow> x \<le> 0x8F"
  shows "\<exists>n. scalar n \<and> [b, x, z, u] = utf8_form n"
proof -
  obtain y w v where y: "y < 64" "x = 0x80 + word_of_nat y" and w: "w < 64" "z = 0x80 + word_of_nat w"
    and v: "v < 64" "u = 0x80 + word_of_nat v"
    using cont_digit [OF assms(3)] cont_digit [OF assms(4)] cont_digit [OF assms(5)] by blast
  have x: "unat x = 0x80 + y" using y by (simp add: byte_add)
  define a where "a = unat b - 0xF0"
  have b: "b = 0xF0 + word_of_nat a"
    using byte_split [of "0xF0" b] assms(1) by (simp add: word_le_nat_alt a_def)
  have a: "a < 5"
    using assms(1,2) by (simp add: word_le_nat_alt a_def)
  have "16 \<le> y" if "a = 0" using assms(6) b x that by (simp add: word_le_nat_alt)
  then have low: "0x10000 \<le> 262144 * a + 4096 * y + 64 * w + v" by (cases "a = 0") simp_all
  have "y \<le> 15" if "a = 4" using assms(7) b x that by (simp add: word_le_nat_alt)
  then have "scalar (262144 * a + 4096 * y + 64 * w + v)"
    using a y(1) w(1) v(1) low unfolding scalar_def by (cases "a = 4") auto
  moreover have "[b, x, z, u] = utf8_form (262144 * a + 4096 * y + 64 * w + v)"
    unfolding form_of_digits(4) [OF a y(1) w(1) v(1) low] using y(2) w(2) v(2) b by simp
  ultimately show ?thesis by blast
qed

lemma second_default:
  assumes "legal_second b x" and "b \<noteq> 0xED" and "b \<noteq> 0xF4"
  shows "cont x"
  using assms by (auto simp: legal_second_def cont_def word_le_nat_alt split: if_splits)

lemma legal_only:
  assumes "isLegalUTF8Sequence source" and "source \<noteq> []"
  shows "(\<exists>n rest. scalar n \<and> source = utf8_form n @ rest) \<or> ill_formed source"
proof -
  obtain b s1 where s: "source = b # s1" using assms(2) by (cases source) auto
  have l: "trailing source + 1 \<le> length source" "isLegalUTF8 source (trailing source + 1)"
    using assms(1) by (auto simp: isLegalUTF8Sequence_def split: if_splits)
  have b: "b < 0x80 \<or> 0xC2 \<le> b" "b \<le> 0xF4"
    using l(2) by (auto simp: isLegalUTF8_def s)
  consider "b < 0x80" | "0xC2 \<le> b" "b < 0xE0" | "0xE0 \<le> b" "b < 0xF0" | "0xF0 \<le> b"
    using b(1) by fastforce
  then show ?thesis
  proof cases
    case 1
    then have "scalar (unat b)" "utf8_form (unat b) = [b]"
      by (simp_all add: scalar_def utf8_form_def word_less_nat_alt)
    then show ?thesis using s by (metis append_Cons append_Nil)
  next
    case 2
    then have t: "trailing source = 1"
      by (simp add: s trailing_first) (simp add: word_less_nat_alt word_le_nat_alt)
    then obtain x s2 where s2: "s1 = x # s2" using l(1) s by (cases s1) auto
    have "cont x"
    proof (rule second_default)
      show "legal_second b x" using l(2) t by (simp add: isLegalUTF8_def s s2)
      show "b \<noteq> 0xED" "b \<noteq> 0xF4" using 2(2) by auto
    qed
    then show ?thesis
      using legal_two [OF 2] s s2 by (metis append_Cons append_Nil)
  next
    case 3
    then have t: "trailing source = 2"
      by (simp add: s trailing_first) (simp add: word_less_nat_alt word_le_nat_alt)
    then obtain x z s3 where s3: "s1 = x # z # s3"
      using l(1) s by (cases s1; cases "tl s1") auto
    have x: "legal_second b x" and z: "cont z"
      using l(2) t by (simp_all add: isLegalUTF8_def s s3 cont_def numeral_2_eq_2 numeral_3_eq_3)
    show ?thesis
    proof (cases "cont x")
      case True
      have "\<exists>n. scalar n \<and> [b, x, z] = utf8_form n"
        by (rule legal_three [OF 3 True z]) (use x in \<open>simp_all add: legal_second_def\<close>)
      then show ?thesis using s s3 by (metis append_Cons append_Nil)
    next
      case False
      moreover have "b \<noteq> 0xF4" using 3(2) by auto
      ultimately have "b = 0xED" using second_default [OF x] by blast
      then have "ill_formed source"
        using False x z by (auto simp: ill_formed_def s s3 legal_second_def cont_def)
      then show ?thesis by blast
    qed
  next
    case 4
    then have t: "trailing source = 3"
      using b(2) by (simp add: s trailing_first) (simp add: word_less_nat_alt word_le_nat_alt)
    then obtain x z u s4 where s4: "s1 = x # z # u # s4"
      using l(1) s by (cases s1; cases "tl s1"; cases "tl (tl s1)") auto
    have x: "legal_second b x" and z: "cont z" and u: "cont u"
      using l(2) t by (simp_all add: isLegalUTF8_def s s4 cont_def numeral_2_eq_2 numeral_3_eq_3)
    show ?thesis
    proof (cases "cont x")
      case True
      have "\<exists>n. scalar n \<and> [b, x, z, u] = utf8_form n"
        by (rule legal_four [OF 4 b(2) True z u]) (use x in \<open>simp_all add: legal_second_def\<close>)
      then show ?thesis using s s4 by (metis append_Cons append_Nil)
    next
      case False
      moreover have "b \<noteq> 0xED" using 4 by auto
      ultimately have "b = 0xF4" using second_default [OF x] by blast
      then have "ill_formed source"
        using False x z u by (auto simp: ill_formed_def s s4 legal_second_def cont_def)
      then show ?thesis by blast
    qed
  qed
qed

section \<open>Whole texts\<close>

definition utf8_text :: "nat list \<Rightarrow> bytes" where
  "utf8_text ns = concat (map utf8_form ns)"

definition utf16_text :: "nat list \<Rightarrow> u16 list" where
  "utf16_text ns = concat (map utf16_form ns)"

lemma texts_simps [simp]:
  "utf8_text [] = []" "utf8_text (n # ns) = utf8_form n @ utf8_text ns"
  "utf16_text [] = []" "utf16_text (n # ns) = utf16_form n @ utf16_text ns"
  "chars [] = []" "chars (n # ns) = word_of_nat n # chars ns" "length (chars ns) = length ns"
  by (simp_all add: utf8_text_def utf16_text_def chars_def)

lemma put_units_simps [simp]:
  "put_units us (res, rest, out) = (res, rest, us @ out)"
  "put_units us (put_units vs r) = put_units (us @ vs) r"
  "put_units [] r = r"
  by (simp_all add: put_units_def split: prod.splits)

lemma scalar_unat: "scalar n \<Longrightarrow> unat (word_of_nat n :: u32) = n"
  by (simp add: scalar_def unsigned_of_nat take_bit_nat_eq_self)

lemma scalar_tests:
  assumes "scalar n"
  shows "(word_of_nat n :: u32) \<le> UNI_MAX_LEGAL_UTF32" "(word_of_nat n :: u32) \<le> UNI_MAX_UTF16"
    "(word_of_nat n :: u32) \<le> UNI_MAX_BMP \<longleftrightarrow> n < 0x10000"
    "\<not> (UNI_SUR_HIGH_START \<le> (word_of_nat n :: u32) \<and> (word_of_nat n :: u32) \<le> UNI_SUR_LOW_END)"
  using assms by (auto simp: uni_consts word_le_nat_alt scalar_unat scalar_def)

lemma bytes_to_write_form:
  assumes "scalar n"
  shows "\<exists>k ch. bytes_to_write (word_of_nat n) = (k, ch) \<and> write_utf8 k k ch = utf8_form n \<and>
    k = length (utf8_form n)"
proof -
  have n: "n < 0x110000" using assms by (simp add: scalar_def)
  obtain k ch where w: "bytes_to_write (word_of_nat n) = (k, ch)" "write_utf8 k k ch = utf8_form n"
    using write_utf8_form [OF n] by (cases "bytes_to_write (word_of_nat n)") auto
  moreover have "k = length (utf8_form n)"
    using w(1) n by (auto simp: bytes_to_write_def utf8_form_def word_less_nat_alt
        scalar_unat [OF assms] split: if_splits)
  ultimately show ?thesis by blast
qed

lemma utf32_utf8_text:
  assumes "\<forall>n \<in> set ns. scalar n" and "length (utf8_text ns) \<le> room"
  shows "utf32_utf8 flags room result (chars ns) = (result, [], utf8_text ns)"
  using assms
proof (induction ns arbitrary: room)
  case (Cons n ns)
  have n: "scalar n" "n < 0x110000" using Cons.prems(1) by (simp_all add: scalar_def)
  obtain k ch where w: "bytes_to_write (word_of_nat n) = (k, ch)" "write_utf8 k k ch = utf8_form n"
    and "k = length (utf8_form n)"
    using bytes_to_write_form [OF n(1)] by blast
  moreover have "utf32_utf8 flags (room - length (utf8_form n)) result (chars ns) = (result, [], utf8_text ns)"
    by (rule Cons.IH) (use Cons.prems in simp_all)
  moreover have "\<not> UNI_MAX_LEGAL_UTF32 < (word_of_nat n :: u32)"
    using scalar_tests(1) [OF n(1)] by simp
  ultimately show ?case
    using Cons.prems scalar_tests(4) [OF n(1)] w by auto
qed simp

lemma utf8_step:
  assumes "scalar n"
  shows "trailing (utf8_form n @ rest) + 1 = length (utf8_form n)"
    "isLegalUTF8 (utf8_form n @ rest) (trailing (utf8_form n @ rest) + 1)"
    "read_utf8 (utf8_form n @ rest) = word_of_nat n"
    "drop (trailing (utf8_form n @ rest) + 1) (utf8_form n @ rest) = rest"
proof -
  have n: "n < 0x110000" using assms by (simp add: scalar_def)
  show t: "trailing (utf8_form n @ rest) + 1 = length (utf8_form n)"
    using trailing_form [OF n] length_form(1) [of n] by simp
  show "isLegalUTF8 (utf8_form n @ rest) (trailing (utf8_form n @ rest) + 1)"
    using legal_form [OF assms] t by simp
  show "drop (trailing (utf8_form n @ rest) + 1) (utf8_form n @ rest) = rest"
    using t by simp
  show "read_utf8 (utf8_form n @ rest) = word_of_nat n" by (rule read_form [OF n])
qed

lemma utf8_utf32_text:
  assumes "\<forall>n \<in> set ns. scalar n" and "length ns \<le> room"
  shows "utf8_utf32 flags room result (utf8_text ns @ rest) =
    put_units (chars ns) (utf8_utf32 flags (room - length ns) result rest)"
  using assms
proof (induction ns arbitrary: room)
  case (Cons n ns)
  have n: "scalar n" using Cons.prems(1) by simp
  let ?more = "utf8_text ns @ rest"
  note s = utf8_step [OF n, of ?more]
  have IH: "utf8_utf32 flags (room - 1) result ?more =
      put_units (chars ns) (utf8_utf32 flags (room - 1 - length ns) result rest)"
    by (rule Cons.IH) (use Cons.prems in simp_all)
  have "utf8_utf32 flags room result (utf8_form n @ ?more) =
      put_units [word_of_nat n] (utf8_utf32 flags (room - 1) result ?more)"
    using Cons.prems(2) s scalar_tests [OF n] length_form(3) [of n]
    by (subst utf8_utf32.simps) (auto simp: Let_def)
  then show ?case
    using IH by simp
qed simp

section \<open>Surrogate pairs\<close>

lemma unit_unat: "k < 65536 \<Longrightarrow> unat (word_of_nat k :: u16) = k"
  "k < 65536 \<Longrightarrow> (ucast (word_of_nat k :: u16) :: u32) = word_of_nat k"
  by (simp_all add: unsigned_of_nat take_bit_nat_eq_self)

lemma wide_ucast: "k < 65536 \<Longrightarrow> (ucast (word_of_nat k :: u32) :: u16) = word_of_nat k"
  by (simp add: unsigned_of_nat take_bit_nat_eq_self)

lemma wide_le: "k < 2 ^ 32 \<Longrightarrow> unat (word_of_nat k :: u32) = k"
  by (simp add: unsigned_of_nat take_bit_nat_eq_self)

lemma utf16_form_cases:
  assumes "scalar n"
  obtains "n < 0x10000" "utf16_form n = [word_of_nat n]"
  | m where "m < 0x100000" "n = 0x10000 + m" "m div 1024 < 1024"
    "utf16_form n = [word_of_nat (0xD800 + m div 1024), word_of_nat (0xDC00 + m mod 1024)]"
proof (cases "n < 0x10000")
  case True
  then show ?thesis using that(1) by (simp add: utf16_form_def)
next
  case False
  then show ?thesis
    using assms by (intro that(2) [of "n - 0x10000"]) (simp_all add: utf16_form_def scalar_def)
qed

lemma surrogate_pair_form:
  assumes "scalar n" and "0x10000 \<le> n"
  shows "surrogate_pair (word_of_nat n) = utf16_form n"
  using assms(1)
proof (rule utf16_form_cases)
  fix m assume m: "m < 0x100000" "n = 0x10000 + m" "m div 1024 < 1024"
    and f: "utf16_form n = [word_of_nat (0xD800 + m div 1024), word_of_nat (0xDC00 + m mod 1024)]"
  have ch: "(word_of_nat n :: u32) - halfBase = word_of_nat m"
    using m(2) by (simp add: halfBase_def)
  have u: "unat (word_of_nat m :: u32) = m"
    using m(1) by (intro wide_le) simp
  have "unat (drop_bit 10 (word_of_nat m :: u32)) = unat (word_of_nat (m div 1024) :: u32)"
    unfolding unsigned_drop_bit_eq u using m(1)
    by (subst wide_le) (simp_all add: drop_bit_eq_div take_bit_nat_eq_self)
  then have hi: "drop_bit halfShift (word_of_nat m :: u32) + UNI_SUR_HIGH_START = word_of_nat (0xD800 + m div 1024)"
    by (simp add: word_unat_eq_iff [symmetric] halfShift_def UNI_SUR_HIGH_START_def)
  have "(word_of_nat m :: u32) AND halfMask = take_bit 10 (word_of_nat m)"
    by (simp add: halfMask_def take_bit_eq_mask mask_eq_exp_minus_1)
  also have "\<dots> = word_of_nat (m mod 1024)"
    unfolding word_unat_eq_iff unsigned_take_bit_eq u
    by (subst wide_le) (simp_all add: take_bit_eq_mod less_trans [OF mod_less_divisor])
  finally have lo: "((word_of_nat m :: u32) AND halfMask) + UNI_SUR_LOW_START = word_of_nat (0xDC00 + m mod 1024)"
    by (simp add: UNI_SUR_LOW_START_def)
  have small: "0xD800 + m div 1024 < 65536" "0xDC00 + m mod 1024 < 65536"
    using m(3) mod_less_divisor [of 1024 m] by linarith+
  show ?thesis
    unfolding surrogate_pair_def Let_def ch hi lo f wide_ucast [OF small(1)] wide_ucast [OF small(2)] ..
qed (use assms(2) in simp)

lemma read_utf16_form:
  assumes "scalar n"
  shows "\<exists>u us. utf16_form n = u # us \<and> read_utf16 flags u (us @ rest) = Inr (word_of_nat n, rest)"
  using assms
proof (rule utf16_form_cases)
  assume a: "n < 0x10000" "utf16_form n = [word_of_nat n]"
  then have "\<not> (0xD800 \<le> n \<and> n \<le> 0xDFFF)"
    using assms unfolding scalar_def by linarith
  then show ?thesis
    using a by (auto simp: read_utf16_def Let_def unit_unat uni_consts word_le_nat_alt wide_le)
next
  fix m assume m: "m < 0x100000" "n = 0x10000 + m" "m div 1024 < 1024"
    and f: "utf16_form n = [word_of_nat (0xD800 + m div 1024), word_of_nat (0xDC00 + m mod 1024)]"
  have k: "m mod 1024 < 1024" by simp
  have small: "0xD800 + m div 1024 < 65536" "0xDC00 + m mod 1024 < 65536"
    using m(3) k by linarith+
  let ?h = "word_of_nat (0xD800 + m div 1024) :: u32" and ?l = "word_of_nat (0xDC00 + m mod 1024) :: u32"
  have u: "unat ?h = 0xD800 + m div 1024" "unat ?l = 0xDC00 + m mod 1024"
    by (rule wide_le, use small in simp)+
  have t: "UNI_SUR_HIGH_START \<le> ?h \<and> ?h \<le> UNI_SUR_HIGH_END" "UNI_SUR_LOW_START \<le> ?l \<and> ?l \<le> UNI_SUR_LOW_END"
    using m(3) k unfolding word_le_nat_alt u by (simp_all add: uni_consts)
  have "m = 1024 * (m div 1024) + m mod 1024" by simp
  then have "(word_of_nat m :: u32) = 1024 * word_of_nat (m div 1024) + word_of_nat (m mod 1024)"
    by (metis of_nat_add of_nat_mult of_nat_numeral)
  then have v: "push_bit halfShift (?h - UNI_SUR_HIGH_START) + (?l - UNI_SUR_LOW_START) + halfBase = word_of_nat n"
    by (simp add: m(2) uni_consts push_bit_eq_mult)
  have "read_utf16 flags (word_of_nat (0xD800 + m div 1024)) ([word_of_nat (0xDC00 + m mod 1024)] @ rest) =
      Inr (word_of_nat n, rest)"
    unfolding read_utf16_def Let_def unit_unat(2) [OF small(1)] using t
    by (simp only: append.simps list.case unit_unat(2) [OF small(2)] v if_True simp_thms)
  then show ?thesis
    unfolding f by blast
qed

lemma utf32_utf16_text:
  assumes "\<forall>n \<in> set ns. scalar n" and "length (utf16_text ns) \<le> room"
  shows "utf32_utf16 flags room result (chars ns) = (result, [], utf16_text ns)"
  using assms
proof (induction ns arbitrary: room)
  case (Cons n ns)
  have n: "scalar n" using Cons.prems(1) by simp
  note IH = Cons.IH [of "room - length (utf16_form n)"]
  from n show ?case
  proof (rule utf16_form_cases)
    assume a: "n < 0x10000" "utf16_form n = [word_of_nat n]"
    then show ?thesis
      using IH Cons.prems scalar_tests [OF n] wide_ucast [of n] by auto
  next
    fix m assume a: "m < 0x100000" "n = 0x10000 + m"
      "utf16_form n = [word_of_nat (0xD800 + m div 1024), word_of_nat (0xDC00 + m mod 1024)]"
    then have "length (utf16_form n) = 2" "0x10000 \<le> n" by simp_all
    then show ?thesis
      using IH Cons.prems scalar_tests [OF n] surrogate_pair_form [OF n] by (auto simp: not_less)
  qed
qed simp

lemma utf16_utf32_text:
  assumes "\<forall>n \<in> set ns. scalar n" and "length ns \<le> room"
  shows "utf16_utf32 flags room (utf16_text ns) = (conversionOK, [], chars ns)"
  using assms
proof (induction ns arbitrary: room)
  case (Cons n ns)
  have n: "scalar n" using Cons.prems(1) by simp
  obtain u us where u: "utf16_form n = u # us"
    "read_utf16 flags u (us @ utf16_text ns) = Inr (word_of_nat n, utf16_text ns)"
    using read_utf16_form [OF n] by blast
  have "utf16_utf32 flags (room - 1) (utf16_text ns) = (conversionOK, [], chars ns)"
    by (rule Cons.IH) (use Cons.prems in simp_all)
  then show ?case
    using Cons.prems by (simp add: u)
qed simp

lemma utf16_utf8_text:
  assumes "\<forall>n \<in> set ns. scalar n" and "length (utf8_text ns) \<le> room"
  shows "utf16_utf8 flags room (utf16_text ns) = (conversionOK, [], utf8_text ns)"
  using assms
proof (induction ns arbitrary: room)
  case (Cons n ns)
  have n: "scalar n" "n < 0x110000" using Cons.prems(1) by (simp_all add: scalar_def)
  obtain u us where u: "utf16_form n = u # us"
    "read_utf16 flags u (us @ utf16_text ns) = Inr (word_of_nat n, utf16_text ns)"
    using read_utf16_form [OF n(1)] by blast
  obtain k ch where w: "bytes_to_write (word_of_nat n) = (k, ch)" "write_utf8 k k ch = utf8_form n"
    "k = length (utf8_form n)"
    using bytes_to_write_form [OF n(1)] by blast
  have "utf16_utf8 flags (room - k) (utf16_text ns) = (conversionOK, [], utf8_text ns)"
    by (rule Cons.IH) (use Cons.prems w in simp_all)
  then show ?case
    using Cons.prems w by (simp add: u)
qed simp

lemma utf8_utf16_text:
  assumes "\<forall>n \<in> set ns. scalar n" and "length (utf16_text ns) \<le> room"
  shows "utf8_utf16 flags room (utf8_text ns @ rest) =
    put_units (utf16_text ns) (utf8_utf16 flags (room - length (utf16_text ns)) rest)"
  using assms
proof (induction ns arbitrary: room)
  case (Cons n ns)
  have n: "scalar n" using Cons.prems(1) by simp
  let ?more = "utf8_text ns @ rest" and ?l = "length (utf16_form n)"
  note s = utf8_step [OF n, of ?more]
  have IH: "utf8_utf16 flags (room - ?l) ?more =
      put_units (utf16_text ns) (utf8_utf16 flags (room - ?l - length (utf16_text ns)) rest)"
    by (rule Cons.IH) (use Cons.prems in simp_all)
  have "utf8_utf16 flags room (utf8_form n @ ?more) =
      put_units (utf16_form n) (utf8_utf16 flags (room - ?l) ?more)"
    using n
  proof (rule utf16_form_cases)
    assume a: "n < 0x10000" "utf16_form n = [word_of_nat n]"
    then show ?thesis
      using Cons.prems(2) s scalar_tests [OF n] length_form(3) [of n] wide_ucast [of n]
      by (subst utf8_utf16.simps) (auto simp: Let_def)
  next
    fix m assume a: "m < 0x100000" "n = 0x10000 + m"
      "utf16_form n = [word_of_nat (0xD800 + m div 1024), word_of_nat (0xDC00 + m mod 1024)]"
    then have "?l = 2" "0x10000 \<le> n" by simp_all
    then show ?thesis
      using Cons.prems(2) s scalar_tests [OF n] length_form(3) [of n] surrogate_pair_form [OF n]
      by (subst utf8_utf16.simps) (auto simp: Let_def not_less)
  qed
  then show ?case
    using IH by simp
qed simp

section \<open>Any input\<close>

text \<open>The sequences accepted without being well formed stand for a scalar value all the
  same, so that the branches for surrogates and numbers that are too big are never taken.\<close>

lemma cont_ucast: "y < 64 \<Longrightarrow> b = 0x80 + word_of_nat y \<Longrightarrow> (ucast (b :: byte) :: u32) = 0x80 + word_of_nat y"
  by (simp add: byte_ucast)

lemma read_digits:
  "sum_utf8 2 0 (a # b # c # rest) = 4096 * ucast a + 64 * ucast b + ucast c"
  "sum_utf8 3 0 (a # b # c # d # rest) = 262144 * ucast a + 4096 * ucast b + 64 * ucast c + ucast d"
  by (simp_all add: numeral_2_eq_2 numeral_3_eq_3 push_bit_eq_mult)

lemma ill_formed_legal:
  assumes "ill_formed source"
  shows "isLegalUTF8Sequence source" and "\<exists>m. scalar m \<and> read_utf8 source = word_of_nat m"
proof -
  have "isLegalUTF8Sequence source \<and> (\<exists>m. scalar m \<and> read_utf8 source = word_of_nat m)"
    using assms unfolding ill_formed_def
  proof (elim disjE exE conjE)
    fix a b rest assume s: "source = 0xED # a # b # rest" and a: "a < 0x80" and b: "cont b"
    have t: "trailing source = 2" by (simp add: s trailing_first)
    obtain y where y: "y < 64" "b = 0x80 + word_of_nat y" using cont_digit [OF b] by blast
    have a': "unat a < 128" using a by (simp add: word_less_nat_alt)
    have "isLegalUTF8Sequence source"
      using a b unfolding isLegalUTF8Sequence_def t isLegalUTF8_def cont_def
      by (simp add: s legal_second_def word_le_nat_alt word_less_nat_alt)
    moreover have "read_utf8 source = word_of_nat (0xB000 + 64 * unat a + y)"
      unfolding read_utf8_def t by (simp add: read_digits s cont_ucast [OF y] offsetsFromUTF8_def)
    moreover have "scalar (0xB000 + 64 * unat a + y)"
      using a' y(1) by (simp add: scalar_def)
    ultimately show ?thesis by blast
  next
    fix a b c rest assume s: "source = 0xF4 # a # b # c # rest" and a: "a < 0x80" and b: "cont b" and c: "cont c"
    have t: "trailing source = 3" by (simp add: s trailing_first)
    obtain y z where y: "y < 64" "b = 0x80 + word_of_nat y" and z: "z < 64" "c = 0x80 + word_of_nat z"
      using cont_digit [OF b] cont_digit [OF c] by blast
    have a': "unat a < 128" using a by (simp add: word_less_nat_alt)
    have "isLegalUTF8Sequence source"
      using a b c unfolding isLegalUTF8Sequence_def t isLegalUTF8_def cont_def
      by (simp add: s legal_second_def word_le_nat_alt word_less_nat_alt)
    moreover have "read_utf8 source = word_of_nat (0x80000 + 4096 * unat a + 64 * y + z)"
      unfolding read_utf8_def t by (simp add: read_digits s cont_ucast [OF y] cont_ucast [OF z] offsetsFromUTF8_def)
    moreover have "scalar (0x80000 + 4096 * unat a + 64 * y + z)"
      using a' y(1) z(1) by (simp add: scalar_def)
    ultimately show ?thesis by blast
  qed
  then show "isLegalUTF8Sequence source" and "\<exists>m. scalar m \<and> read_utf8 source = word_of_nat m"
    by blast+
qed

lemma legal_value:
  assumes "source \<noteq> []" and "trailing source < length source"
    and "isLegalUTF8 source (trailing source + 1)"
  shows "\<exists>m. scalar m \<and> read_utf8 source = word_of_nat m"
proof -
  have "isLegalUTF8Sequence source" using assms by (simp add: isLegalUTF8Sequence_def)
  from legal_only [OF this assms(1)] show ?thesis
    using utf8_step(3) ill_formed_legal(2) by blast
qed

text \<open>What a conversion from UTF-8 does to any source.\<close>

definition decoded :: "nat \<Rightarrow> bytes \<Rightarrow> (byte, u32) conv \<Rightarrow> bool" where
  "decoded room source r \<longleftrightarrow>
     (case r of (res, rest, out) \<Rightarrow>
        (\<exists>ns used. out = chars ns \<and> (\<forall>n \<in> set ns. scalar n) \<and> source = used @ rest \<and>
           length ns \<le> room \<and> length ns \<le> length used \<and>
           (res = targetExhausted \<longrightarrow> length ns = room \<and> rest \<noteq> []) \<and>
           (res = sourceExhausted \<longrightarrow> length rest \<le> trailing rest) \<and>
           (res = sourceIllegal \<longrightarrow> \<not> isLegalUTF8 rest (trailing rest + 1)) \<and>
           (res = conversionOK \<longleftrightarrow> rest = [])))"

lemma decoded_put:
  assumes "decoded (room - 1) (drop k source) r" and "scalar n" and "0 < k" and "k \<le> length source"
    and "0 < room"
  shows "decoded room source (put_units [word_of_nat n] r)"
proof -
  obtain res rest out where r: "r = (res, rest, out)" by (cases r)
  obtain ns used where a: "out = chars ns" "\<forall>n \<in> set ns. scalar n" "drop k source = used @ rest"
    "length ns \<le> room - 1" "length ns \<le> length used"
    "res = targetExhausted \<longrightarrow> length ns = room - 1 \<and> rest \<noteq> []"
    "res = sourceExhausted \<longrightarrow> length rest \<le> trailing rest"
    "res = sourceIllegal \<longrightarrow> \<not> isLegalUTF8 rest (trailing rest + 1)" "res = conversionOK \<longleftrightarrow> rest = []"
    using assms(1) by (auto simp: decoded_def r)
  have "source = (take k source @ used) @ rest"
    using a(3) append_take_drop_id [of k source] by simp
  then show ?thesis
    unfolding decoded_def r put_units_simps prod.case
    by (intro exI [of _ "n # ns"] exI [of _ "take k source @ used"] conjI)
      (use a assms(2-5) in auto)
qed

lemma utf8_utf32_any: "decoded room source (utf8_utf32 flags room conversionOK source)"
proof (induction "length source" arbitrary: room source rule: less_induct)
  case less
  let ?k = "trailing source + 1"
  have stop: "decoded room source (res, source, [])" if "source \<noteq> []" "res \<noteq> conversionOK"
    "res = targetExhausted \<Longrightarrow> room = 0" "res = sourceExhausted \<Longrightarrow> length source \<le> trailing source"
    "res = sourceIllegal \<Longrightarrow> \<not> isLegalUTF8 source ?k" for res
    using that by (auto simp: decoded_def intro!: exI [of _ "[]"])
  show ?case
  proof (cases "source \<noteq> [] \<and> trailing source < length source \<and> isLegalUTF8 source ?k \<and> room \<noteq> 0")
    case True
    then obtain m where m: "scalar m" "read_utf8 source = word_of_nat m"
      using legal_value by blast
    have "utf8_utf32 flags room conversionOK source =
        put_units [word_of_nat m] (utf8_utf32 flags (room - 1) conversionOK (drop ?k source))"
      using True scalar_tests [OF m(1)] by (subst utf8_utf32.simps) (auto simp: Let_def m(2) not_le)
    moreover have "decoded (room - 1) (drop ?k source) (utf8_utf32 flags (room - 1) conversionOK (drop ?k source))"
      by (rule less) (use True in simp)
    ultimately show ?thesis
      using decoded_put [OF _ m(1), of room ?k source] True by simp
  next
    case False
    show ?thesis
    proof (cases "source = []")
      case True
      then show ?thesis by (subst utf8_utf32.simps) (simp add: decoded_def chars_def)
    next
      case nonempty: False
      then show ?thesis
        using False stop by (subst utf8_utf32.simps) (auto simp: Let_def not_le)
    qed
  qed
qed

lemma utf8_utf32_flags: "utf8_utf32 flags room result source = utf8_utf32 strictConversion room result source"
proof (induction strictConversion room result source rule: utf8_utf32.induct)
  case (1 room result source)
  show ?case
  proof (cases "source \<noteq> [] \<and> trailing source < length source \<and> isLegalUTF8 source (trailing source + 1) \<and> room \<noteq> 0")
    case True
    then obtain m where m: "scalar m" "read_utf8 source = word_of_nat m"
      using legal_value by blast
    then show ?thesis
      using True 1 scalar_tests [OF m(1)]
      by (subst (1 2) utf8_utf32.simps) (auto simp: Let_def m(2) not_le)
  next
    case False
    then show ?thesis
      by (subst (1 2) utf8_utf32.simps) (auto simp: Let_def not_le)
  qed
qed

section \<open>Properties\<close>

text \<open>C25: The conversions between the three encodings are exact on Unicode text, strict
  or lenient: any sequence of scalar values converts from each encoding to each other one
  without an error and without a unit left over, if the target has room for exactly what
  the standard says.\<close>

theorem utf_conversions_exact:
  assumes "\<forall>n \<in> set ns. scalar n"
  shows "ConvertUTF32toUTF8 (chars ns) (length (utf8_text ns)) flags = (conversionOK, [], utf8_text ns) \<and>
    ConvertUTF8toUTF32 (utf8_text ns) (length ns) flags = (conversionOK, [], chars ns) \<and>
    ConvertUTF32toUTF16 (chars ns) (length (utf16_text ns)) flags = (conversionOK, [], utf16_text ns) \<and>
    ConvertUTF16toUTF32 (utf16_text ns) (length ns) flags = (conversionOK, [], chars ns) \<and>
    ConvertUTF16toUTF8 (utf16_text ns) (length (utf8_text ns)) flags = (conversionOK, [], utf8_text ns) \<and>
    ConvertUTF8toUTF16 (utf8_text ns) (length (utf16_text ns)) flags = (conversionOK, [], utf16_text ns)"
  using utf32_utf8_text [OF assms] utf32_utf16_text [OF assms] utf16_utf32_text [OF assms]
    utf16_utf8_text [OF assms] utf8_utf32_text [OF assms, of "length ns" _ _ "[]"]
    utf8_utf16_text [OF assms, of "length (utf16_text ns)" _ "[]"]
  by (simp add: ConvertUTF32toUTF8_def ConvertUTF8toUTF32_def ConvertUTF32toUTF16_def
      ConvertUTF16toUTF32_def ConvertUTF16toUTF8_def ConvertUTF8toUTF16_def
      utf8_utf32.simps [of _ _ _ "[]"] utf8_utf16.simps [of _ _ "[]"])

theorem utf_conversions_exact_witness:
  "ConvertUTF8toUTF16 [0x41, 0xC3, 0xA9, 0xF0, 0x9F, 0x98, 0x80] 4 strictConversion =
    (conversionOK, [], [0x41, 0xE9, 0xD83D, 0xDE00])"
proof -
  have "utf8_text [0x41, 0xE9, 0x1F600] = [0x41, 0xC3, 0xA9, 0xF0, 0x9F, 0x98, 0x80]"
    "utf16_text [0x41, 0xE9, 0x1F600] = [0x41, 0xE9, 0xD83D, 0xDE00]"
    "length [0x41, 0xE9, 0xD83D, 0xDE00 :: u16] = 4"
    by (simp_all add: utf8_form_def utf16_form_def)
  then show ?thesis
    using utf_conversions_exact [of "[0x41, 0xE9, 0x1F600]" strictConversion]
    by (simp only: scalar_def) simp
qed

text \<open>C26: Converting any bytes to UTF-32 gives only scalar values, one at most for each
  byte taken and no more than the target has room for; it stops at the end, where there is
  no room, at a sequence that is cut off or at one that is not legal, and says which. Legal
  is what \<open>isLegalUTF8\<close> of the source accepts, which is a little more than UTF-8
  (\<open>ED 41 80\<close>, for one); and whether it is strict makes no difference, although
  convertutf.h says that the lenient conversion takes surrogates and greater numbers.\<close>

theorem utf8_decoding_sound:
  "decoded room source (ConvertUTF8toUTF32 source room flags) \<and>
   ConvertUTF8toUTF32 source room flags = ConvertUTF8toUTF32 source room strictConversion"
  unfolding ConvertUTF8toUTF32_def using utf8_utf32_any utf8_utf32_flags by blast

text \<open>The legal sequences are the encodings of the scalar values and the ill-formed ones.
  U+C040 has an encoding that is not its own.\<close>

lemma legal_sequences:
  assumes "source \<noteq> []"
  shows "isLegalUTF8Sequence source \<longleftrightarrow>
    (\<exists>n rest. scalar n \<and> source = utf8_form n @ rest) \<or> ill_formed source"
proof
  assume "isLegalUTF8Sequence source"
  then show "(\<exists>n rest. scalar n \<and> source = utf8_form n @ rest) \<or> ill_formed source"
    by (rule legal_only [OF _ assms])
next
  assume "(\<exists>n rest. scalar n \<and> source = utf8_form n @ rest) \<or> ill_formed source"
  then show "isLegalUTF8Sequence source"
  proof (elim disjE exE conjE)
    fix n rest assume n: "scalar n" "source = utf8_form n @ rest"
    then show ?thesis
      using utf8_step [OF n(1), of rest] by (simp add: isLegalUTF8Sequence_def)
  qed (rule ill_formed_legal)
qed

lemma ill_formed_accepted:
  "ConvertUTF8toUTF32 [0xED, 0x41, 0x80] 3 strictConversion = (conversionOK, [], [0xC040])"
  "utf8_form 0xC040 = [0xEC, 0x81, 0x80]"
proof -
  have t: "trailing [0xED, 0x41, 0x80] = 2" by (simp add: trailing_first)
  have "isLegalUTF8 [0xED, 0x41, 0x80] (2 + 1)"
    by (simp add: isLegalUTF8_def legal_second_def)
  moreover have "read_utf8 [0xED, 0x41, 0x80] = 0xC040"
    unfolding read_utf8_def t by (simp add: read_digits offsetsFromUTF8_def)
  ultimately show "ConvertUTF8toUTF32 [0xED, 0x41, 0x80] 3 strictConversion = (conversionOK, [], [0xC040])"
    by (simp add: ConvertUTF8toUTF32_def utf8_utf32.simps [of _ 3] utf8_utf32.simps [of _ _ _ "[]"] t
        uni_consts)
  show "utf8_form 0xC040 = [0xEC, 0x81, 0x80]" by (simp add: utf8_form_def)
qed

section \<open>Strings and wide strings\<close>

text \<open>Between the encodings of text, the strings of the program do not depend on the C
  library.\<close>

lemma utf8_form_long: "length (utf16_form n) \<le> length (utf8_form n)" "length (utf8_form n) \<le> 6 * length (utf16_form n)"
  by (simp_all add: utf8_form_def utf16_form_def)

lemma texts_long:
  "length ns \<le> length (utf8_text ns)" "length (utf16_text ns) \<le> length (utf8_text ns)"
  "length (utf8_text ns) \<le> 6 * length ns" "length (utf8_text ns) \<le> 6 * length (utf16_text ns)"
proof (induction ns)
  case (Cons n ns)
  show "length (n # ns) \<le> length (utf8_text (n # ns))" "length (utf8_text (n # ns)) \<le> 6 * length (n # ns)"
    "length (utf16_text (n # ns)) \<le> length (utf8_text (n # ns))"
    "length (utf8_text (n # ns)) \<le> 6 * length (utf16_text (n # ns))"
    using Cons utf8_form_long [of n] length_form [of n] by simp_all
qed simp_all

lemma ucast_wide: "map ucast (map ucast us :: u32 list) = (us :: u16 list)"
proof -
  have "(ucast (ucast u :: u32) :: u16) = u" for u :: u16
    by (rule bit_word_eqI) (simp add: bit_simps)
  then show ?thesis by (simp add: comp_def)
qed

lemma wide_strings:
  assumes "\<forall>n \<in> set ns. scalar n"
  shows "convert_to_wstring mbtowc 4 (utf8_text ns) = chars ns"
    "convert_from_wstring wctomb 4 (chars ns) = utf8_text ns"
    "convert_to_wstring mbtowc 2 (utf8_text ns) = map ucast (utf16_text ns)"
    "convert_from_wstring wctomb 2 (map ucast (utf16_text ns)) = utf8_text ns"
proof -
  note long = texts_long [of ns]
  have e: "utf8_text ns = [] \<longleftrightarrow> ns = []" "utf16_text ns = [] \<longleftrightarrow> ns = []" "chars ns = [] \<longleftrightarrow> ns = []"
    by (cases ns; simp add: utf8_form_def utf16_form_def)+
  have "utf8_utf32 lenientConversion (length (utf8_text ns)) conversionOK (utf8_text ns) =
      (conversionOK, [], chars ns)"
    using utf8_utf32_text [OF assms long(1), of _ _ "[]"] by (simp add: utf8_utf32.simps [of _ _ _ "[]"])
  then show "convert_to_wstring mbtowc 4 (utf8_text ns) = chars ns"
    by (simp add: convert_to_wstring_def utf8_wchar_def ConvertUTF8toUTF32_def e)
  have "utf8_utf16 lenientConversion (length (utf8_text ns)) (utf8_text ns) =
      (conversionOK, [], utf16_text ns)"
    using utf8_utf16_text [OF assms long(2), of _ "[]"] by (simp add: utf8_utf16.simps [of _ _ "[]"])
  then show "convert_to_wstring mbtowc 2 (utf8_text ns) = map ucast (utf16_text ns)"
    by (simp add: convert_to_wstring_def utf8_wchar_def ConvertUTF8toUTF16_def e)
  show "convert_from_wstring wctomb 4 (chars ns) = utf8_text ns"
    using utf32_utf8_text [OF assms long(3)]
    by (simp add: convert_from_wstring_def wchar_utf8_def ConvertUTF32toUTF8_def e)
  show "convert_from_wstring wctomb 2 (map ucast (utf16_text ns)) = utf8_text ns"
    using utf16_utf8_text [OF assms long(4)]
    by (simp add: convert_from_wstring_def wchar_utf8_def ConvertUTF16toUTF8_def e ucast_wide
        del: map_map)
qed

text \<open>In a locale whose multibyte encoding is UTF-8, a string that has a character of more
  than one byte gets zeros at its end when it is converted from the native encoding,
  because the wide string keeps the length of the bytes.\<close>

lemma from_native_pads:
  assumes "\<forall>n \<in> set ns. scalar n" and "0 \<notin> set (utf8_text ns)" and "ns \<noteq> []"
    and "mbstowcs (utf8_text ns) = Some (chars ns)"
  shows "convert_from_native mbstowcs 4 (utf8_text ns) =
    utf8_text ns @ replicate (length (utf8_text ns) - length ns) 0"
proof -
  let ?k = "length (utf8_text ns) - length ns"
  have zeros: "utf8_text (replicate j 0) = replicate j 0" "chars (replicate j 0) = replicate j 0" for j
    by (induction j) (simp_all add: utf8_form_def)
  have app: "utf8_text (ns @ replicate ?k 0) = utf8_text ns @ replicate ?k 0"
    "chars (ns @ replicate ?k 0) = chars ns @ replicate ?k 0"
    using zeros [of ?k] by (simp_all add: utf8_text_def chars_def)
  have c: "c_string (utf8_text ns) = utf8_text ns"
    unfolding c_string_def using assms(2) by (intro takeWhile_eq_all_conv [THEN iffD2]) auto
  have l: "length ns \<le> length (utf8_text ns)" by (rule texts_long)
  have ne: "chars ns \<noteq> []" using assms(3) by (simp add: chars_def)
  have "utf8_text ns \<noteq> []" using assms(3) by (cases ns) (simp_all add: utf8_form_def)
  moreover have "utf32_utf8 lenientConversion (6 * length (utf8_text ns)) conversionOK
      (chars (ns @ replicate ?k 0)) = (conversionOK, [], utf8_text (ns @ replicate ?k 0))"
  proof (rule utf32_utf8_text)
    show "\<forall>n \<in> set (ns @ replicate ?k 0). scalar n"
      using assms(1) by (auto simp: scalar_def)
  qed (simp add: app)
  ultimately show ?thesis
    using l assms(4) ne unfolding app
    by (simp add: convert_from_native_def c wchar_utf8_def ConvertUTF32toUTF8_def)
qed

text \<open>Where the fallback of \<open>convert_from_wstring\<close> writes a character in two bytes, the
  next character is left out.\<close>

lemma from_wide_skips:
  assumes "wctomb c = Some [a, b]"
  shows "from_wide wctomb (c # d # s) = [a, b] @ from_wide wctomb s"
  by (subst from_wide.simps) (simp add: assms numeral_2_eq_2)

end
