(* ===== verification/Memory_Pool.thy ===== *)
theory Memory_Pool
  imports Prelude
begin

text \<open>The reusable allocator of p2engine/basic_memory_pool.hpp (one of the four the build
  chooses from): freed blocks are kept in a list for each size, in units of eight bytes, and
  handed out again. An address is a number, a block is known by the address the user
  allocator returned, and its first byte, the mark, is the size in units or 0.

  \<open>UserAllocator\<close> is outside: what its \<open>malloc\<close> answers is an argument (None for NULL), and
  what is freed is recorded. None as a result is a write through a NULL pointer.\<close>

section \<open>State\<close>

definition MAX_INDEX_CNT :: nat where "MAX_INDEX_CNT = 0xFF"
definition BLOCK_SIZE :: nat where "BLOCK_SIZE = 8"

text \<open>The elements of \<open>buf_[which]\<close> up to \<open>size_map_[which]\<close>, and \<open>capacity_map_\<close>; the mark at
  each address; the addresses given back to the user allocator, the last one first.\<close>

record pool_vec =
  pv_buf :: "nat \<Rightarrow> nat list"
  pv_capacity :: "nat \<Rightarrow> nat"
  pv_marks :: "nat \<Rightarrow> nat"
  pv_freed :: "nat list"

definition PtrPtrVec :: pool_vec where
  "PtrPtrVec = \<lparr>pv_buf = (\<lambda>_. []), pv_capacity = (\<lambda>_. 0), pv_marks = (\<lambda>_. 0), pv_freed = []\<rparr>"

definition max_capacity :: "nat \<Rightarrow> nat" where
  "max_capacity i = 32 * 1024 * 1024 div (BLOCK_SIZE * (i + 1))"

section \<open>Operations\<close>

definition grown :: "nat \<Rightarrow> nat" where
  "grown capacity =
     (if capacity = 0 then 8 else if capacity < 16 * 1024 then 2 * capacity else capacity + 1024)"

text \<open>\<open>array_ok\<close>: the user allocator had memory for the array, if it was asked.\<close>

definition pool_push_back :: "nat \<Rightarrow> nat \<Rightarrow> bool \<Rightarrow> pool_vec \<Rightarrow> pool_vec option" where
  "pool_push_back which p array_ok v =
     (if pv_capacity v which \<ge> max_capacity which
      then Some (v\<lparr>pv_freed := (p - BLOCK_SIZE) # pv_freed v\<rparr>)
      else
        let full = pv_capacity v which \<le> length (pv_buf v which);
            v1 = (if full
                  then v\<lparr>pv_capacity := (pv_capacity v)(which := grown (pv_capacity v which))\<rparr>
                  else v) in
        if full \<and> \<not> array_ok then None
        else Some (v1\<lparr>pv_buf := (pv_buf v1)(which := pv_buf v1 which @ [p])\<rparr>))"

definition pool_pop_back :: "nat \<Rightarrow> pool_vec \<Rightarrow> nat option \<times> pool_vec" where
  "pool_pop_back which v =
     (if which > MAX_INDEX_CNT \<or> pv_buf v which = [] then (None, v)
      else (Some (last (pv_buf v which)),
            v\<lparr>pv_buf := (pv_buf v)(which := butlast (pv_buf v which))\<rparr>))"

text \<open>Sizes are of 64 bits and wrap. The bytes asked of the user allocator, if any.\<close>

definition units :: "nat \<Rightarrow> nat" where
  "units n = ((n + 7) mod 2 ^ 64) div 8"

definition asked_bytes :: "nat \<Rightarrow> nat" where
  "asked_bytes n0 =
     (let n = (if n0 = 0 then 1 else n0) in
      if units n \<le> MAX_INDEX_CNT then (units n * 8 + BLOCK_SIZE) mod 2 ^ 64
      else (n + BLOCK_SIZE) mod 2 ^ 64)"

definition pool_malloc :: "nat \<Rightarrow> nat option \<Rightarrow> pool_vec \<Rightarrow> nat option \<times> pool_vec" where
  "pool_malloc n0 answer v =
     (let n = (if n0 = 0 then 1 else n0); n8 = units n in
      if n8 \<le> MAX_INDEX_CNT
      then (case pool_pop_back n8 v of
              (Some p, v1) \<Rightarrow> (Some p, v1)
            | (None, v1) \<Rightarrow>
                (case answer of
                   None \<Rightarrow> (None, v1)
                 | Some pl \<Rightarrow> (Some (pl + BLOCK_SIZE), v1\<lparr>pv_marks := (pv_marks v1)(pl := n8)\<rparr>)))
      else (case answer of
              None \<Rightarrow> (None, v)
            | Some pl \<Rightarrow> (Some (pl + BLOCK_SIZE), v\<lparr>pv_marks := (pv_marks v)(pl := 0)\<rparr>)))"

definition pool_free :: "nat option \<Rightarrow> bool \<Rightarrow> pool_vec \<Rightarrow> pool_vec option" where
  "pool_free p array_ok v =
     (case p of
        None \<Rightarrow> Some v
      | Some p \<Rightarrow>
          (let real_p = p - BLOCK_SIZE; len_8 = pv_marks v real_p in
           if len_8 = 0 then Some (v\<lparr>pv_freed := real_p # pv_freed v\<rparr>)
           else pool_push_back len_8 p array_ok v))"

text \<open>\<open>clear\<close> gives every block in the lists back (the arrays too, which are not modelled).\<close>

definition pool_clear :: "pool_vec \<Rightarrow> pool_vec" where
  "pool_clear v =
     v\<lparr>pv_freed := rev (map (\<lambda>p. p - BLOCK_SIZE)
         (concat (map (pv_buf v) [0..<MAX_INDEX_CNT + 1]))) @ pv_freed v\<rparr>"

section \<open>Programs that use the pool\<close>

text \<open>What the user allocator has given out and not got back, with the bytes of each block,
  and what the program holds, with the bytes it asked for.\<close>

record pool_state =
  ps_vec :: pool_vec
  ps_live :: "nat \<Rightarrow> nat option"
  ps_held :: "nat \<Rightarrow> nat option"

definition pool_start :: pool_state where
  "pool_start = \<lparr>ps_vec = PtrPtrVec, ps_live = (\<lambda>_. None), ps_held = (\<lambda>_. None)\<rparr>"

definition from_list :: "nat \<Rightarrow> pool_vec \<Rightarrow> bool" where
  "from_list n v \<longleftrightarrow> units (max n 1) \<le> MAX_INDEX_CNT \<and> pv_buf v (units (max n 1)) \<noteq> []"

text \<open>The user allocator answers with a block that overlaps none that it has given out.\<close>

definition fresh_block :: "(nat \<Rightarrow> nat option) \<Rightarrow> nat \<Rightarrow> nat \<Rightarrow> bool" where
  "fresh_block live pl bytes \<longleftrightarrow> (\<forall>b m. live b = Some m \<longrightarrow> pl + bytes \<le> b \<or> b + m \<le> pl)"

text \<open>The program asks for any size that leaves room for the header below the greatest
  size, and frees what it holds.\<close>

inductive pool_step :: "pool_state \<Rightarrow> pool_state \<Rightarrow> bool" where
  take_pooled: "from_list n (ps_vec s) \<Longrightarrow> n + 8 < 2 ^ 64 \<Longrightarrow>
    pool_malloc n answer (ps_vec s) = (Some p, v) \<Longrightarrow>
    pool_step s (s\<lparr>ps_vec := v, ps_held := (ps_held s)(p \<mapsto> n)\<rparr>)"
| take_new: "\<not> from_list n (ps_vec s) \<Longrightarrow> n + 8 < 2 ^ 64 \<Longrightarrow>
    fresh_block (ps_live s) pl (asked_bytes n) \<Longrightarrow>
    pool_malloc n (Some pl) (ps_vec s) = (Some p, v) \<Longrightarrow>
    pool_step s (s\<lparr>ps_vec := v, ps_live := (ps_live s)(pl \<mapsto> asked_bytes n),
      ps_held := (ps_held s)(p \<mapsto> n)\<rparr>)"
| give_back: "ps_held s p \<noteq> None \<Longrightarrow> pool_free (Some p) array_ok (ps_vec s) = Some v \<Longrightarrow>
    pool_step s (s\<lparr>ps_vec := v, ps_held := (ps_held s)(p := None),
      ps_live := (if pv_freed v = pv_freed (ps_vec s) then ps_live s
                  else (ps_live s)(hd (pv_freed v) := None))\<rparr>)"

inductive pool_reach :: "pool_state \<Rightarrow> bool" where
  reach_start: "pool_reach pool_start"
| reach_step: "pool_reach s \<Longrightarrow> pool_step s t \<Longrightarrow> pool_reach t"

section \<open>The invariant\<close>

definition apart :: "(nat \<Rightarrow> nat option) \<Rightarrow> bool" where
  "apart live \<longleftrightarrow> (\<forall>b m. live b = Some m \<longrightarrow> 0 < m) \<and>
     (\<forall>b m c k. live b = Some m \<longrightarrow> live c = Some k \<longrightarrow> b \<noteq> c \<longrightarrow> b + m \<le> c \<or> c + k \<le> b)"

definition in_block :: "pool_state \<Rightarrow> nat \<Rightarrow> nat \<Rightarrow> bool" where
  "in_block s p n \<longleftrightarrow> 8 \<le> p \<and> (\<exists>m. ps_live s (p - 8) = Some m \<and> 8 + n \<le> m)"

definition pool_inv :: "pool_state \<Rightarrow> bool" where
  "pool_inv s \<longleftrightarrow> apart (ps_live s) \<and>
     (\<forall>k p. p \<in> set (pv_buf (ps_vec s) k) \<longrightarrow>
        in_block s p (8 * k) \<and> pv_marks (ps_vec s) (p - 8) = k \<and> 0 < k \<and> ps_held s p = None) \<and>
     (\<forall>k. distinct (pv_buf (ps_vec s) k)) \<and>
     (\<forall>p n. ps_held s p = Some n \<longrightarrow>
        in_block s p n \<and> (pv_marks (ps_vec s) (p - 8) \<noteq> 0 \<longrightarrow>
          in_block s p (8 * pv_marks (ps_vec s) (p - 8))))"

lemma units_value: "n + 8 < 2 ^ 64 \<Longrightarrow> units n = (n + 7) div 8"
  by (simp add: units_def)

lemma units_enough:
  assumes "n + 8 < 2 ^ 64"
  shows "n \<le> 8 * units (max n 1)" "0 < units (max n 1)"
proof -
  have "max n 1 + 8 < 2 ^ 64" using assms by (simp add: max_def)
  note u = units_value [OF this]
  show "n \<le> 8 * units (max n 1)" unfolding u by linarith
  show "0 < units (max n 1)" unfolding u by linarith
qed

lemma asked_enough:
  assumes "n + 8 < 2 ^ 64"
  shows "asked_bytes n = (if units (max n 1) \<le> MAX_INDEX_CNT then 8 * units (max n 1) + 8 else max n 1 + 8)"
proof -
  have m: "(if n = 0 then 1 else n) = max n 1" by simp
  have "max n 1 + 8 < 2 ^ 64" using assms by (simp add: max_def)
  then show ?thesis
    unfolding asked_bytes_def Let_def m by (simp add: MAX_INDEX_CNT_def BLOCK_SIZE_def)
qed

lemma pool_malloc_from_list:
  assumes "from_list n v" and "pool_malloc n answer v = (Some p, v1)"
  shows "p = last (pv_buf v (units (max n 1)))"
    and "v1 = v\<lparr>pv_buf := (pv_buf v)(units (max n 1) := butlast (pv_buf v (units (max n 1))))\<rparr>"
proof -
  have m: "(if n = 0 then 1 else n) = max n 1" by simp
  show "p = last (pv_buf v (units (max n 1)))"
    "v1 = v\<lparr>pv_buf := (pv_buf v)(units (max n 1) := butlast (pv_buf v (units (max n 1))))\<rparr>"
    using assms unfolding pool_malloc_def Let_def m by (auto simp: from_list_def pool_pop_back_def)
qed

lemma pool_malloc_new:
  assumes "\<not> from_list n v" and "pool_malloc n (Some pl) v = (Some p, v1)"
  shows "p = pl + 8"
    and "v1 = v\<lparr>pv_marks := (pv_marks v)(pl := if units (max n 1) \<le> MAX_INDEX_CNT then units (max n 1) else 0)\<rparr>"
proof -
  have m: "(if n = 0 then 1 else n) = max n 1" by simp
  show "p = pl + 8"
    "v1 = v\<lparr>pv_marks := (pv_marks v)(pl := if units (max n 1) \<le> MAX_INDEX_CNT then units (max n 1) else 0)\<rparr>"
    using assms unfolding pool_malloc_def Let_def m
    by (auto simp: from_list_def pool_pop_back_def BLOCK_SIZE_def split: if_splits)
qed

lemma pool_invD:
  assumes "pool_inv s"
  shows "apart (ps_live s)"
    "p \<in> set (pv_buf (ps_vec s) k) \<Longrightarrow> in_block s p (8 * k) \<and> pv_marks (ps_vec s) (p - 8) = k \<and>
       0 < k \<and> ps_held s p = None"
    "distinct (pv_buf (ps_vec s) k)"
    "ps_held s p = Some n \<Longrightarrow> in_block s p n \<and> (pv_marks (ps_vec s) (p - 8) \<noteq> 0 \<longrightarrow>
       in_block s p (8 * pv_marks (ps_vec s) (p - 8)))"
  using assms by (simp_all add: pool_inv_def)

lemma in_block_mono: "in_block s p m \<Longrightarrow> n \<le> m \<Longrightarrow> in_block s p n"
  by (force simp: in_block_def)

lemma take_pooled_inv:
  assumes "pool_inv s" and "from_list n (ps_vec s)" and "n + 8 < 2 ^ 64"
    and "pool_malloc n answer (ps_vec s) = (Some p, v)"
  shows "pool_inv (s\<lparr>ps_vec := v, ps_held := (ps_held s)(p \<mapsto> n)\<rparr>)"
proof -
  let ?k = "units (max n 1)" and ?bufs = "pv_buf (ps_vec s)"
  note I = pool_invD [OF assms(1)]
  note m = pool_malloc_from_list [OF assms(2,4)]
  have ne: "?bufs ?k \<noteq> []" using assms(2) by (simp add: from_list_def)
  then have split: "?bufs ?k = butlast (?bufs ?k) @ [p]" using m(1) by simp
  then have p: "p \<in> set (?bufs ?k)" by (metis in_set_conv_decomp)
  have out: "p \<notin> set (butlast (?bufs ?k))"
    using I(3) [of ?k] split by (metis distinct_append disjoint_iff list.set_intros(1))
  have only: "q = ?k" if "p \<in> set (?bufs q)" for q
    using I(2) [OF p] I(2) [OF that] by simp
  have "in_block s p n"
    using I(2) [OF p] in_block_mono [OF _ units_enough(1) [OF assms(3)]] by blast
  then show ?thesis
    using I I(2) [OF p] out only unfolding pool_inv_def m(2)
    by (auto simp: in_block_def distinct_butlast dest: in_set_butlastD)
qed

lemma take_new_inv:
  assumes "pool_inv s" and "\<not> from_list n (ps_vec s)" and "n + 8 < 2 ^ 64"
    and "fresh_block (ps_live s) pl (asked_bytes n)"
    and "pool_malloc n (Some pl) (ps_vec s) = (Some p, v)"
  shows "pool_inv (s\<lparr>ps_vec := v, ps_live := (ps_live s)(pl \<mapsto> asked_bytes n),
    ps_held := (ps_held s)(p \<mapsto> n)\<rparr>)"
proof -
  note I = pool_invD [OF assms(1)]
  note m = pool_malloc_new [OF assms(2,5)]
  note u = units_enough [OF assms(3)] and a = asked_enough [OF assms(3)]
  have pos: "0 < asked_bytes n" "8 + n \<le> asked_bytes n" using u unfolding a by auto
  have none: "ps_live s pl = None"
  proof (rule ccontr)
    assume "ps_live s pl \<noteq> None"
    then obtain b where b: "ps_live s pl = Some b" by blast
    then have "0 < b" using I(1) by (simp add: apart_def)
    then show False using assms(4) b pos(1) by (force simp: fresh_block_def)
  qed
  have other: "q - 8 \<noteq> pl \<and> q \<noteq> p" if "in_block s q j" for q j
    using that none m(1) by (auto simp: in_block_def)
  have keep: "in_block (s\<lparr>ps_vec := v, ps_live := (ps_live s)(pl \<mapsto> asked_bytes n),
      ps_held := (ps_held s)(p \<mapsto> n)\<rparr>) q j" if "in_block s q j" for q j
    using that other [OF that] by (simp add: in_block_def)
  have "apart ((ps_live s)(pl \<mapsto> asked_bytes n))"
    using I(1) assms(4) pos(1) unfolding apart_def fresh_block_def by (auto split: if_splits)
  moreover have marks: "pv_marks v (q - 8) = pv_marks (ps_vec s) (q - 8)" if "in_block s q j" for q j
    using other [OF that] by (simp add: m(2))
  have pooled: "in_block (s\<lparr>ps_vec := v, ps_live := (ps_live s)(pl \<mapsto> asked_bytes n),
      ps_held := (ps_held s)(p \<mapsto> n)\<rparr>) q (8 * k) \<and> pv_marks v (q - 8) = k \<and> 0 < k \<and>
      ((ps_held s)(p \<mapsto> n)) q = None" if "q \<in> set (pv_buf v k)" for q k
  proof -
    have q: "in_block s q (8 * k)" "pv_marks (ps_vec s) (q - 8) = k" "0 < k" "ps_held s q = None"
      using I(2) [of q k] that by (simp_all add: m(2))
    then show ?thesis using keep [OF q(1)] marks [OF q(1)] other [OF q(1)] by simp
  qed
  have new: "in_block (s\<lparr>ps_vec := v, ps_live := (ps_live s)(pl \<mapsto> asked_bytes n),
      ps_held := (ps_held s)(p \<mapsto> n)\<rparr>) p n \<and>
      (pv_marks v (p - 8) \<noteq> 0 \<longrightarrow> in_block (s\<lparr>ps_vec := v, ps_live := (ps_live s)(pl \<mapsto> asked_bytes n),
      ps_held := (ps_held s)(p \<mapsto> n)\<rparr>) p (8 * pv_marks v (p - 8)))"
    using pos(2) by (auto simp: in_block_def m(1) m(2) a)
  have held: "in_block (s\<lparr>ps_vec := v, ps_live := (ps_live s)(pl \<mapsto> asked_bytes n),
      ps_held := (ps_held s)(p \<mapsto> n)\<rparr>) q j \<and>
      (pv_marks v (q - 8) \<noteq> 0 \<longrightarrow> in_block (s\<lparr>ps_vec := v, ps_live := (ps_live s)(pl \<mapsto> asked_bytes n),
      ps_held := (ps_held s)(p \<mapsto> n)\<rparr>) q (8 * pv_marks v (q - 8)))"
    if "((ps_held s)(p \<mapsto> n)) q = Some j" for q j
  proof (cases "q = p")
    case True
    then show ?thesis using new that by simp
  next
    case False
    then have q: "in_block s q j" "pv_marks (ps_vec s) (q - 8) \<noteq> 0 \<longrightarrow>
        in_block s q (8 * pv_marks (ps_vec s) (q - 8))"
      using I(4) [of q j] that by simp_all
    then show ?thesis using keep marks [OF q(1)] by simp
  qed
  have "distinct (pv_buf v k)" for k using I(3) by (simp add: m(2))
  ultimately show ?thesis
    unfolding pool_inv_def using pooled held by simp
qed

text \<open>What \<open>push_back\<close> does, when it does not write through NULL.\<close>

lemma pool_push_back_cases:
  assumes "pool_push_back k p array_ok v = Some v1"
  shows "(max_capacity k \<le> pv_capacity v k \<and> v1 = v\<lparr>pv_freed := (p - 8) # pv_freed v\<rparr>) \<or>
    (pv_freed v1 = pv_freed v \<and> pv_marks v1 = pv_marks v \<and>
     pv_buf v1 = (pv_buf v)(k := pv_buf v k @ [p]))"
  using assms by (auto simp: pool_push_back_def BLOCK_SIZE_def Let_def split: if_splits)

lemma pool_free_cases:
  assumes "pool_free (Some p) array_ok v = Some v1"
  shows "v1 = v\<lparr>pv_freed := (p - 8) # pv_freed v\<rparr> \<or>
    (0 < pv_marks v (p - 8) \<and> pv_freed v1 = pv_freed v \<and> pv_marks v1 = pv_marks v \<and>
     pv_buf v1 = (pv_buf v)(pv_marks v (p - 8) := pv_buf v (pv_marks v (p - 8)) @ [p]))"
  using assms pool_push_back_cases [of "pv_marks v (p - 8)" p array_ok v v1]
  by (auto simp: pool_free_def BLOCK_SIZE_def Let_def split: if_splits)

lemma give_back_inv:
  assumes "pool_inv s" and "ps_held s p = Some n" and "pool_free (Some p) array_ok (ps_vec s) = Some v"
  shows "pool_inv (s\<lparr>ps_vec := v, ps_held := (ps_held s)(p := None),
      ps_live := (if pv_freed v = pv_freed (ps_vec s) then ps_live s
                  else (ps_live s)(hd (pv_freed v) := None))\<rparr>)"
proof -
  note I = pool_invD [OF assms(1)]
  have p: "in_block s p n" and p8: "8 \<le> p" using I(4) [OF assms(2)] by (auto simp: in_block_def)
  consider (freed) "v = (ps_vec s)\<lparr>pv_freed := (p - 8) # pv_freed (ps_vec s)\<rparr>"
    | (kept) "0 < pv_marks (ps_vec s) (p - 8)" "pv_freed v = pv_freed (ps_vec s)"
        "pv_marks v = pv_marks (ps_vec s)"
        "pv_buf v = (pv_buf (ps_vec s))(pv_marks (ps_vec s) (p - 8) :=
           pv_buf (ps_vec s) (pv_marks (ps_vec s) (p - 8)) @ [p])"
    using pool_free_cases [OF assms(3)] by (elim disjE conjE)
  then show ?thesis
  proof cases
    case freed
    have keep: "in_block (s\<lparr>ps_vec := v, ps_held := (ps_held s)(p := None),
        ps_live := (ps_live s)(p - 8 := None)\<rparr>) q j" if "in_block s q j" "q \<noteq> p" for q j
      using that p8 by (auto simp: in_block_def)
    have "apart ((ps_live s)(p - 8 := None))"
      using I(1) unfolding apart_def by (auto split: if_splits)
    moreover have "q \<noteq> p" if "q \<in> set (pv_buf (ps_vec s) k)" for q k
      using I(2) [OF that] assms(2) by auto
    ultimately show ?thesis
      using I keep unfolding pool_inv_def by (auto simp: freed split: if_splits)
  next
    case kept
    have same: "in_block (s\<lparr>ps_vec := v, ps_held := (ps_held s)(p := None)\<rparr>) q j =
        in_block s q j" for q j
      by (simp add: in_block_def)
    have "p \<notin> set (pv_buf (ps_vec s) k)" for k using I(2) [of p k] assms(2) by auto
    then show ?thesis
      using I kept(1) unfolding pool_inv_def
      by (auto simp: kept(2-4) same assms(2) split: if_splits)
  qed
qed

lemma pool_start_inv: "pool_inv pool_start"
  by (simp add: pool_inv_def pool_start_def PtrPtrVec_def apart_def)

lemma pool_step_inv:
  assumes "pool_step s t" and "pool_inv s"
  shows "pool_inv t"
  using assms(1)
proof cases
  case (take_pooled n answer p v)
  then show ?thesis using take_pooled_inv [OF assms(2)] by blast
next
  case (take_new n pl p v)
  then show ?thesis using take_new_inv [OF assms(2)] by blast
next
  case (give_back p array_ok v)
  then obtain n where "ps_held s p = Some n" by blast
  then show ?thesis using give_back give_back_inv [OF assms(2)] by blast
qed

lemma pool_reach_inv: "pool_reach s \<Longrightarrow> pool_inv s"
  by (induction rule: pool_reach.induct) (auto intro: pool_start_inv pool_step_inv)

text \<open>Two blocks of what the user allocator gave do not overlap, so two that are held do not.\<close>

lemma pool_inv_disjoint:
  assumes "pool_inv s" and "ps_held s p = Some n" and "ps_held s q = Some m" and "p \<noteq> q"
  shows "p + n \<le> q \<or> q + m \<le> p"
proof -
  note I = pool_invD [OF assms(1)]
  obtain i where i: "8 \<le> p" "ps_live s (p - 8) = Some i" "8 + n \<le> i"
    using I(4) [OF assms(2)] by (auto simp: in_block_def)
  obtain j where j: "8 \<le> q" "ps_live s (q - 8) = Some j" "8 + m \<le> j"
    using I(4) [OF assms(3)] by (auto simp: in_block_def)
  have "p - 8 \<noteq> q - 8" using i(1) j(1) assms(4) by linarith
  then have "p - 8 + i \<le> q - 8 \<or> q - 8 + j \<le> p - 8"
    using I(1) i(2) j(2) unfolding apart_def by blast
  then show ?thesis using i j by linarith
qed


section \<open>What the pool promises\<close>

lemma fresh_not_live:
  assumes "pool_inv s" and "fresh_block (ps_live s) pl k" and "0 < k"
  shows "ps_live s pl = None"
proof (rule ccontr)
  assume "ps_live s pl \<noteq> None"
  then obtain b where b: "ps_live s pl = Some b" by blast
  then have "0 < b" using pool_invD(1) [OF assms(1)] by (simp add: apart_def)
  then show False using assms(2,3) b by (force simp: fresh_block_def)
qed

lemma malloc_not_held:
  assumes "pool_inv s" and "n + 8 < 2 ^ 64" and "pool_malloc n answer (ps_vec s) = (Some p, v)"
    and "\<not> from_list n (ps_vec s) \<Longrightarrow> answer = Some pl \<and> fresh_block (ps_live s) pl (asked_bytes n)"
  shows "ps_held s p = None"
proof (cases "from_list n (ps_vec s)")
  case True
  then have "p \<in> set (pv_buf (ps_vec s) (units (max n 1)))"
    using pool_malloc_from_list(1) [OF True assms(3)] by (simp add: from_list_def)
  then show ?thesis using pool_invD(2) [OF assms(1)] by blast
next
  case False
  have "0 < asked_bytes n"
    using units_enough(2) [OF assms(2)] by (simp add: asked_enough [OF assms(2)])
  then have none: "ps_live s pl = None"
    using fresh_not_live [OF assms(1)] assms(4) [OF False] by blast
  have "p = pl + 8"
    using pool_malloc_new(1) [OF False] assms(3,4) False by blast
  then have "\<not> in_block s p m" for m
    using none by (simp add: in_block_def)
  then show ?thesis
    using pool_invD(4) [OF assms(1), of p] by (cases "ps_held s p") auto
qed

text \<open>C21: Whatever a program does with the reusable allocator, as long as each request is at least
  eight bytes below the greatest size (\<open>n + 8 < 2 ^ 64\<close>; without it the size wraps, \<open>request_wraps\<close>),
  the user allocator hands out memory of its own each time and no array of the pool fails to grow:
  the block that a request is answered with, from a list or new, is not one the program holds, and
  at the size asked for it overlaps no block the program holds, at the sizes those were asked for;
  and no two held blocks overlap. So no address is ever handed out twice, and a block handed out
  again is as long as the new request.\<close>

theorem pool_blocks_apart:
  assumes "pool_reach s" and "n + 8 < 2 ^ 64" and "pool_malloc n answer (ps_vec s) = (Some p, v)"
    and "\<not> from_list n (ps_vec s) \<Longrightarrow> answer = Some pl \<and> fresh_block (ps_live s) pl (asked_bytes n)"
  shows "ps_held s p = None
    \<and> (\<forall>q m. ps_held s q = Some m \<longrightarrow> p + n \<le> q \<or> q + m \<le> p)
    \<and> (\<forall>q m r k. ps_held s q = Some m \<longrightarrow> ps_held s r = Some k \<longrightarrow> q \<noteq> r \<longrightarrow> q + m \<le> r \<or> r + k \<le> q)"
proof -
  note I = pool_reach_inv [OF assms(1)]
  have held: "ps_held s p = None" by (rule malloc_not_held [OF I assms(2-4)])
  obtain t where t: "pool_step s t" "ps_held t = (ps_held s)(p \<mapsto> n)"
  proof (cases "from_list n (ps_vec s)")
    case True
    then show ?thesis using that [OF take_pooled [OF True assms(2,3)]] by simp
  next
    case False
    then show ?thesis
      using that [OF take_new [OF False assms(2), of pl p v]] assms(3) assms(4) [OF False] by simp
  qed
  note J = pool_reach_inv [OF reach_step [OF assms(1) t(1)]]
  have "p + n \<le> q \<or> q + m \<le> p" if "ps_held s q = Some m" for q m
    using pool_inv_disjoint [OF J, of p n q m] that held t(2) by (cases "q = p") auto
  then show ?thesis
    using held pool_inv_disjoint [OF I] by blast
qed

text \<open>A program that takes 5 bytes, gives them back, takes 3 and gets the same block, and
  takes 20.\<close>

definition pool_example_vec :: "nat list \<Rightarrow> pool_vec" where
  "pool_example_vec xs = \<lparr>pv_buf = (\<lambda>_. [])(1 := xs), pv_capacity = (\<lambda>_. 0)(1 := 8),
     pv_marks = (\<lambda>_. 0)(100 := 1), pv_freed = []\<rparr>"

lemma pool_example_reach:
  "pool_reach \<lparr>ps_vec = (pool_example_vec [])\<lparr>pv_marks := (\<lambda>_. 0)(100 := 1, 200 := 3)\<rparr>,
     ps_live = (\<lambda>_. None)(100 \<mapsto> 16, 200 \<mapsto> 32), ps_held = (\<lambda>_. None)(108 \<mapsto> 3, 208 \<mapsto> 20)\<rparr>"
proof -
  note defs = pool_start_def PtrPtrVec_def from_list_def fresh_block_def asked_bytes_def units_def
    MAX_INDEX_CNT_def BLOCK_SIZE_def pool_malloc_def pool_pop_back_def pool_free_def
    pool_push_back_def max_capacity_def grown_def pool_example_vec_def Let_def
  let ?v1 = "PtrPtrVec\<lparr>pv_marks := (\<lambda>_. 0)(100 := 1)\<rparr>"
  let ?s1 = "\<lparr>ps_vec = ?v1, ps_live = (\<lambda>_. None)(100 \<mapsto> 16), ps_held = (\<lambda>_. None)(108 \<mapsto> 5)\<rparr>"
  let ?s2 = "\<lparr>ps_vec = pool_example_vec [108], ps_live = (\<lambda>_. None)(100 \<mapsto> 16), ps_held = (\<lambda>_. None)\<rparr>"
  let ?s3 = "\<lparr>ps_vec = pool_example_vec [], ps_live = (\<lambda>_. None)(100 \<mapsto> 16), ps_held = (\<lambda>_. None)(108 \<mapsto> 3)\<rparr>"
  have 1: "pool_step pool_start ?s1"
    using take_new [of 5 pool_start 100 108 ?v1] by (simp add: defs)
  have 2: "pool_step ?s1 ?s2"
    using give_back [of ?s1 108 True "pool_example_vec [108]"] by (simp add: defs)
  have 3: "pool_step ?s2 ?s3"
    using take_pooled [of 3 ?s2 None 108 "pool_example_vec []"] by (simp add: defs)
  show ?thesis
    using reach_step [OF reach_step [OF reach_step [OF reach_step [OF reach_start 1] 2] 3]
        take_new [of 20 ?s3 200 208 "(pool_example_vec [])\<lparr>pv_marks := (\<lambda>_. 0)(100 := 1, 200 := 3)\<rparr>"]]
    by (simp add: defs)
qed

theorem pool_blocks_apart_witness:
  "\<exists>s v. pool_reach s \<and> ps_held s 108 = Some 3 \<and> ps_held s 208 = Some 20 \<and>
     pool_malloc 40 (Some 300) (ps_vec s) = (Some 308, v) \<and> ps_held s 308 = None \<and>
     ((208::nat) + 20 \<le> 308 \<or> (308::nat) + 40 \<le> 208)"
proof -
  note defs = from_list_def fresh_block_def asked_bytes_def units_def MAX_INDEX_CNT_def
    BLOCK_SIZE_def pool_malloc_def pool_pop_back_def pool_example_vec_def Let_def
  let ?s = "\<lparr>ps_vec = (pool_example_vec [])\<lparr>pv_marks := (\<lambda>_. 0)(100 := 1, 200 := 3)\<rparr>,
     ps_live = (\<lambda>_. None)(100 \<mapsto> 16, 200 \<mapsto> 32), ps_held = (\<lambda>_. None)(108 \<mapsto> 3, 208 \<mapsto> 20)\<rparr>"
  obtain v where m: "pool_malloc 40 (Some 300) (ps_vec ?s) = (Some 308, v)"
    by (simp add: defs)
  have f: "fresh_block (ps_live ?s) 300 (asked_bytes 40)" by (simp add: defs)
  show ?thesis
    using pool_blocks_apart [OF pool_example_reach _ m, of 300] f m pool_example_reach
    by (intro exI [of _ ?s] exI [of _ v]) simp
qed

text \<open>Giving a block of a small size back and asking for one of the same number of units gives
  that block again, while the list has not reached its greatest capacity.\<close>

lemma pool_reuses:
  assumes "pool_free (Some p) array_ok v = Some v1" and "0 < pv_marks v (p - 8)"
    and "pv_capacity v (pv_marks v (p - 8)) < max_capacity (pv_marks v (p - 8))"
    and "units (max n 1) = pv_marks v (p - 8)" and "units (max n 1) \<le> MAX_INDEX_CNT"
  shows "fst (pool_malloc n answer v1) = Some p"
proof -
  have m: "(if n = 0 then 1 else n) = max n 1" by simp
  have "pv_buf v1 (units (max n 1)) = pv_buf v (units (max n 1)) @ [p]"
    using assms by (auto simp: pool_free_def pool_push_back_def BLOCK_SIZE_def Let_def split: if_splits)
  then show ?thesis
    using assms(5) unfolding pool_malloc_def Let_def m by (simp add: pool_pop_back_def)
qed

text \<open>But \<open>push_back\<close> compares the capacity of the list with the greatest one, not its size, and
  a list never shrinks: once the capacity of a size is there, no block of that size is ever kept
  again, even when the list is empty, and what is in it only goes down.\<close>

lemma full_list_never_grows:
  assumes "pool_step s t" and "max_capacity k \<le> pv_capacity (ps_vec s) k"
  shows "pv_capacity (ps_vec t) k = pv_capacity (ps_vec s) k \<and>
    set (pv_buf (ps_vec t) k) \<subseteq> set (pv_buf (ps_vec s) k)"
  using assms(1)
proof cases
  case (take_pooled n answer p v)
  then show ?thesis
    using pool_malloc_from_list(2) [OF take_pooled(2,4)] by (auto dest: in_set_butlastD)
next
  case (take_new n pl p v)
  then show ?thesis using pool_malloc_new(2) [OF take_new(2,5)] by simp
next
  case (give_back p array_ok v)
  then show ?thesis
    using assms(2)
    by (auto simp: pool_free_def pool_push_back_def Let_def split: if_splits)
qed

text \<open>The sizes of 2040 bytes: the 8193rd block in the list at one time takes its capacity to
  the greatest.\<close>

lemma largest_size_is_switched_off:
  "max_capacity 255 = 16384"
  "grown (grown (grown (grown (grown (grown (grown (grown (grown (grown (grown (grown 0))))))))))) = 16384"
  by (simp_all add: max_capacity_def BLOCK_SIZE_def grown_def)

text \<open>A request of almost the greatest size wraps to a few bytes: the user allocator is asked
  for two bytes, and the program is told it has the whole.\<close>

lemma request_wraps:
  "units (2 ^ 64 - 8) = 2 ^ 61 - 1" "asked_bytes (2 ^ 64 - 6) = 8" "asked_bytes (2 ^ 64 - 8) = 0"
  by (simp_all add: units_def asked_bytes_def MAX_INDEX_CNT_def BLOCK_SIZE_def Let_def)

end
