(* ===== verification/Ticks.thy ===== *)
theory Ticks
  imports Byte_Order
begin

text \<open>Clocks: src/time.cpp, \<open>system_time\<close> of p2engine/time.hpp, and the time client of
  src/ntp.cpp. What a clock of the system reads is an argument; each of the platforms has its
  own definition.

  The 64-bit clock made from the 32-bit one of Windows is modelled statement by statement,
  because threads share its two words.\<close>

section \<open>Precise ticks\<close>

text \<open>POSIX: seconds and nanoseconds of the monotonic clock. Windows: a counter and its
  frequency. Mach: nanoseconds from \<open>numer / denom\<close>, in signed integers.\<close>

definition posix_ticks :: "nat \<Rightarrow> nat \<Rightarrow> u64" where
  "posix_ticks tv_sec tv_nsec = word_of_nat tv_sec * 1000 + word_of_nat tv_nsec div 1000000"

definition counter_ticks :: "u64 \<Rightarrow> u64 \<Rightarrow> u64" where
  "counter_ticks now frequency = (now * 1000) div frequency"

definition mach_ticks :: "nat \<Rightarrow> nat \<Rightarrow> nat \<Rightarrow> nat" where
  "mach_ticks at_time numer denom = (at_time div 1000 * numer div denom) div 1000"

text \<open>The rough clock where it is not that of Windows: the monotonic clock or \<open>gettimeofday\<close>, and the
  distance to the precise clock at the start.\<close>

definition day_ticks :: "nat \<Rightarrow> nat \<Rightarrow> u64" where
  "day_ticks tv_sec tv_usec = word_of_nat tv_sec * 1000 + word_of_nat tv_usec div 1000"

definition posix_rough_ticks :: "u64 \<Rightarrow> u64 \<Rightarrow> u64" where
  "posix_rough_ticks s_diff now = s_diff + now"

text \<open>\<open>system_time::elapse\<close>: ticks since the first call, which found the clock at \<open>first\<close>.\<close>

definition elapse :: "u64 \<Rightarrow> u64 \<Rightarrow> u64" where
  "elapse t0 now = now - t0"

text \<open>\<open>sleep_microseconds\<close>: the arguments of \<open>usleep\<close>, an \<open>int\<close> each.\<close>

function sleep_parts :: "int \<Rightarrow> int list" where
  "sleep_parts us =
     (if us > 0 then min us (2 ^ 31 - 1) # sleep_parts (us - min us (2 ^ 31 - 1)) else [])"
  by auto
termination by (relation "measure nat") auto

declare sleep_parts.simps [simp del]

definition sleep_microseconds :: "int \<Rightarrow> int list" where
  "sleep_microseconds us = (if us = 0 then [0] else sleep_parts us)"

section \<open>The 64-bit clock of Windows\<close>

text \<open>The two static words, and the local variables of one thread inside the function; \<open>pc\<close> is the
  statement that is next. \<open>Returned\<close> holds the result.\<close>

record tick_words =
  h_time :: u32
  l_time :: u32

datatype tick_pc = Read_timer | Read_l | Read_h | Compute | Write_h | Write_l | Reload_l | Reload_h
  | Compare_l | Compare_h | Returned u64

record tick_thread =
  tk_pc :: tick_pc
  tk_now :: u32
  tk_ltime :: u32
  tk_htime :: u32
  tk_last :: u64

definition tick_call :: tick_thread where
  "tick_call = \<lparr>tk_pc = Read_timer, tk_now = 0, tk_ltime = 0, tk_htime = 0, tk_last = 0\<rparr>"

definition joined :: "u32 \<Rightarrow> u32 \<Rightarrow> u64" where
  "joined h l = (push_bit 32 (ucast h)) OR ucast l"

text \<open>One statement; \<open>timer\<close> is what \<open>timeGetTime\<close> answers now, \<open>s_diff\<close> the distance to the precise
  clock that was taken at the start of the program.\<close>

definition tick_step :: "u64 \<Rightarrow> u32 \<Rightarrow> tick_words \<times> tick_thread \<Rightarrow> tick_words \<times> tick_thread" where
  "tick_step s_diff timer st = (case st of (w, t) \<Rightarrow>
     (case tk_pc t of
        Read_timer \<Rightarrow> (w, t\<lparr>tk_now := timer, tk_pc := Read_l\<rparr>)
      | Read_l \<Rightarrow> (w, t\<lparr>tk_ltime := l_time w, tk_pc := Read_h\<rparr>)
      | Read_h \<Rightarrow> (w, t\<lparr>tk_htime := h_time w, tk_pc := Compute\<rparr>)
      | Compute \<Rightarrow>
          (let diff = tk_now t - tk_ltime t;
               t1 = t\<lparr>tk_last := joined (tk_htime t) (tk_ltime t) + ucast diff\<rparr> in
           (w, t1\<lparr>tk_pc := if tk_ltime t > tk_now t \<or> diff > 0x7fffffff
                            then Write_h else Compare_l\<rparr>))
      | Write_h \<Rightarrow> (w\<lparr>h_time := ucast (drop_bit 32 (tk_last t))\<rparr>, t\<lparr>tk_pc := Write_l\<rparr>)
      | Write_l \<Rightarrow> (w\<lparr>l_time := tk_now t\<rparr>, t\<lparr>tk_pc := Reload_l\<rparr>)
      | Reload_l \<Rightarrow> (w, t\<lparr>tk_ltime := l_time w, tk_pc := Reload_h\<rparr>)
      | Reload_h \<Rightarrow> (w, t\<lparr>tk_htime := h_time w, tk_pc := Compare_l\<rparr>)
      | Compare_l \<Rightarrow> (w, t\<lparr>tk_pc := if tk_ltime t \<noteq> l_time w then Read_timer else Compare_h\<rparr>)
      | Compare_h \<Rightarrow>
          (w, t\<lparr>tk_pc := if tk_htime t \<noteq> h_time w then Read_timer
                         else Returned (tk_last t + s_diff)\<rparr>)
      | Returned r \<Rightarrow> (w, t)))"

text \<open>A call that no other thread interrupts is over after ten statements.\<close>

definition rough_local_tick_count :: "u64 \<Rightarrow> u32 \<Rightarrow> tick_words \<Rightarrow> u64 option \<times> tick_words" where
  "rough_local_tick_count s_diff timer w =
     (case (tick_step s_diff timer ^^ 10) (w, tick_call) of (w1, t) \<Rightarrow>
        (case tk_pc t of Returned r \<Rightarrow> (Some r, w1) | _ \<Rightarrow> (None, w1)))"

text \<open>Calls at the given times, in milliseconds since \<open>timeGetTime\<close> was 0, one after the other.\<close>

fun rough_ticks :: "u64 \<Rightarrow> nat list \<Rightarrow> tick_words \<Rightarrow> u64 option list" where
  "rough_ticks s_diff [] w = []"
| "rough_ticks s_diff (now # rest) w =
     (case rough_local_tick_count s_diff (word_of_nat now) w of (r, w1) \<Rightarrow>
        r # rough_ticks s_diff rest w1)"

text \<open>Two threads: each step names the thread that moves and the time.\<close>

fun tick_schedule ::
  "u64 \<Rightarrow> (bool \<times> nat) list \<Rightarrow> tick_words \<times> tick_thread \<times> tick_thread \<Rightarrow>
   tick_words \<times> tick_thread \<times> tick_thread" where
  "tick_schedule s_diff [] st = st"
| "tick_schedule s_diff ((second, now) # rest) (w, a, b) =
     (if second
      then (case tick_step s_diff (word_of_nat now) (w, b) of (w1, b1) \<Rightarrow>
              tick_schedule s_diff rest (w1, a, b1))
      else (case tick_step s_diff (word_of_nat now) (w, a) of (w1, a1) \<Rightarrow>
              tick_schedule s_diff rest (w1, a1, b)))"

section \<open>Theorems about the clocks\<close>

lemma ten_times: "(f ^^ 10) x = f (f (f (f (f (f (f (f (f (f x)))))))))"
  by (simp add: eval_nat_numeral)

lemma rough_call_alone:
  "rough_local_tick_count s_diff now w =
     (let diff = now - l_time w; r = joined (h_time w) (l_time w) + ucast diff in
      (Some (r + s_diff),
       if l_time w > now \<or> diff > 0x7fffffff
       then \<lparr>h_time = ucast (drop_bit 32 r), l_time = now\<rparr> else w))"
proof (cases "l_time w > now \<or> now - l_time w > 0x7fffffff")
  case True
  then show ?thesis
    unfolding rough_local_tick_count_def ten_times
    by (simp add: tick_call_def tick_step_def Let_def)
next
  case False
  then show ?thesis
    unfolding rough_local_tick_count_def ten_times
    by (simp add: tick_call_def tick_step_def Let_def)
qed

lemma joined_value: "joined h l = word_of_nat (unat h * 2 ^ 32 + unat l)"
proof -
  have "\<not> bit (push_bit 32 (ucast h) :: u64) n \<or> \<not> bit (ucast l :: u64) n" for n
    using bit_imp_le_length [of l n] by (auto simp: bit_simps)
  then have "joined h l = push_bit 32 (ucast h) + ucast l"
    unfolding joined_def by (metis disjunctive_add)
  then show ?thesis
    by (simp add: push_bit_eq_mult)
qed

lemma joined_parts:
  "ucast (drop_bit 32 (word_of_nat n :: u64)) = (word_of_nat (n div 2 ^ 32) :: u32)"
proof -
  have "n mod 2 ^ 64 div 2 ^ 32 mod 2 ^ 32 = n div 2 ^ 32 mod (2 ^ 32 :: nat)"
    using div_mult_mod_eq mod_mult2_eq [of n "2 ^ 32" "2 ^ 32"] by simp
  then have "drop_bit 32 (n mod 2 ^ 64) mod 2 ^ 32 = n div 2 ^ 32 mod (2 ^ 32 :: nat)"
    by (simp add: drop_bit_eq_div)
  then show ?thesis
    by (simp add: word_unat_eq_iff unat_drop_bit_eq unsigned_ucast_eq unat_of_nat take_bit_eq_mod)
qed

lemma joined_time:
  "joined (word_of_nat (R div 2 ^ 32)) (word_of_nat R) = (word_of_nat R :: u64)"
proof -
  have "R mod 2 ^ 64 = 2 ^ 32 * (R div 2 ^ 32 mod 2 ^ 32) + R mod (2 ^ 32 :: nat)"
    using mod_mult2_eq [of R "2 ^ 32" "2 ^ 32"] by simp
  then have parts: "R div 2 ^ 32 mod 2 ^ 32 * 2 ^ 32 + R mod 2 ^ 32 = R mod (2 ^ 64 :: nat)"
    by (simp only: mult.commute)
  have "joined (word_of_nat (R div 2 ^ 32)) (word_of_nat R) =
      word_of_nat (R div 2 ^ 32 mod 2 ^ 32 * 2 ^ 32 + R mod 2 ^ 32)"
    unfolding joined_value unat_of_nat by simp
  also have "\<dots> = (word_of_nat R :: u64)"
    unfolding parts by (simp add: word_of_nat_eq_iff take_bit_eq_mod)
  finally show ?thesis .
qed

text \<open>The words stand for the time \<open>R\<close>.\<close>

definition stands_for :: "tick_words \<Rightarrow> nat \<Rightarrow> bool" where
  "stands_for w R \<longleftrightarrow> h_time w = word_of_nat (R div 2 ^ 32) \<and> l_time w = word_of_nat R"

lemma rough_call_exact:
  assumes "stands_for w R" and "R \<le> now" and "now < R + 2 ^ 32"
  shows "\<exists>w1 R1. rough_local_tick_count s_diff (word_of_nat now) w =
    (Some (word_of_nat now + s_diff), w1) \<and> stands_for w1 R1 \<and> R1 \<le> now \<and> now \<le> R1 + 0x7fffffff"
proof -
  have diff: "(word_of_nat now - word_of_nat R :: u32) = word_of_nat (now - R)"
    using assms(2) by simp
  have small: "unat (word_of_nat (now - R) :: u32) = now - R"
    using assms(3) by (simp add: unat_of_nat)
  have "(ucast (word_of_nat (now - R) :: u32) :: u64) = word_of_nat (now - R)"
    using small assms(3) by (simp add: word_unat_eq_iff unsigned_ucast_eq unat_of_nat take_bit_eq_mod)
  then have sum: "word_of_nat R + ucast (word_of_nat (now - R) :: u32) = (word_of_nat now :: u64)"
    using assms(2) by simp
  note call = rough_call_alone [of s_diff "word_of_nat now" w]
  show ?thesis
  proof (cases "l_time w > word_of_nat now \<or> word_of_nat now - l_time w > (0x7fffffff :: u32)")
    case True
    then have "rough_local_tick_count s_diff (word_of_nat now) w = (Some (word_of_nat now + s_diff),
        \<lparr>h_time = word_of_nat (now div 2 ^ 32), l_time = word_of_nat now\<rparr>)"
      using assms(1) unfolding call Let_def stands_for_def
      by (simp only: joined_time diff sum joined_parts if_True)
    then show ?thesis by (auto simp: stands_for_def)
  next
    case False
    then have "rough_local_tick_count s_diff (word_of_nat now) w = (Some (word_of_nat now + s_diff), w)"
      using assms(1) unfolding call Let_def stands_for_def
      by (simp only: joined_time diff sum if_False)
    moreover have "now \<le> R + 0x7fffffff"
      using False assms(1) small unfolding stands_for_def word_less_nat_alt
      by (auto simp: diff)
    ultimately show ?thesis using assms(1,2) by blast
  qed
qed

text \<open>Times that do not go back, the next one at most 24.8 days after the last.\<close>

fun close_times :: "nat \<Rightarrow> nat list \<Rightarrow> bool" where
  "close_times prev [] \<longleftrightarrow> True"
| "close_times prev (now # rest) \<longleftrightarrow> prev \<le> now \<and> now \<le> prev + 2 ^ 31 \<and> close_times now rest"

lemma rough_ticks_from:
  assumes "stands_for w R" and "R \<le> prev" and "prev \<le> R + 0x7fffffff" and "close_times prev ts"
  shows "rough_ticks s_diff ts w = map (\<lambda>now. Some (word_of_nat now + s_diff)) ts"
  using assms
proof (induction ts arbitrary: w R prev)
  case (Cons now rest)
  then have "R \<le> now" "now < R + 2 ^ 32" by simp_all
  then obtain w1 R1 where call: "rough_local_tick_count s_diff (word_of_nat now) w =
      (Some (word_of_nat now + s_diff), w1)" "stands_for w1 R1" "R1 \<le> now" "now \<le> R1 + 0x7fffffff"
    using rough_call_exact [OF Cons.prems(1)] by blast
  then show ?case using Cons.IH [OF call(2-4)] Cons.prems(4) by simp
qed simp

text \<open>C28: the 64-bit clock of Windows is exact: called one after the other, the first time within
  49 days of the start of the 32-bit clock and then again within 24.8 days of the last call,
  it answers the milliseconds that have passed, though the clock it reads starts again from 0
  every 49.7 days.\<close>

theorem rough_ticks_exact:
  assumes "start < 2 ^ 32" and "close_times start ts"
  shows "rough_ticks s_diff ts \<lparr>h_time = 0, l_time = word_of_nat start\<rparr> =
    map (\<lambda>now. Some (word_of_nat now + s_diff)) ts"
  using assms rough_ticks_from [of "\<lparr>h_time = 0, l_time = word_of_nat start\<rparr>" start start ts]
  by (simp add: stands_for_def)

theorem rough_ticks_exact_witness:
  "rough_ticks 7 [4294967290, 4294967300, 6442450948] \<lparr>h_time = 0, l_time = 4294967000\<rparr> =
    [Some 4294967297, Some 4294967307, Some 6442450955]"
  using rough_ticks_exact [of 4294967000 "[4294967290, 4294967300, 6442450948]" 7] by simp

text \<open>With two threads it is not. The clock wraps; the first thread has written \<open>h_time\<close> and not
  yet \<open>l_time\<close> when the second one reads both, and takes the wrap for another one: it answers
  49.7 days too much, and writes that to the words, so that every later call does too.\<close>

definition tick_race :: "(bool \<times> nat) list" where
  "tick_race = replicate 5 (False, 4294967300) @ replicate 10 (True, 4294967300) @
     replicate 5 (False, 4294967300)"

lemma ticks_race:
  "case tick_schedule 0 tick_race (\<lparr>h_time = 0, l_time = 4294967290\<rparr>, tick_call, tick_call) of (w, a, b) \<Rightarrow>
    tk_pc a = Returned 4294967300 \<and> tk_pc b = Returned (4294967300 + 2 ^ 32) \<and>
    fst (rough_local_tick_count 0 5 w) = Some (4294967301 + 2 ^ 32)"
proof -
  have "replicate 5 x = [x, x, x, x, x]" "replicate 10 x = replicate 5 x @ replicate 5 x"
    for x :: "bool \<times> nat"
    by (simp_all add: eval_nat_numeral)
  then show ?thesis
    unfolding tick_race_def
    by (simp add: rough_call_alone tick_call_def tick_step_def joined_def)
qed

section \<open>The other platforms\<close>

lemma sleep_parts_sum:
  assumes "0 \<le> us"
  shows "sum_list (sleep_parts us) = us \<and> (\<forall>p \<in> set (sleep_parts us). 0 < p \<and> p < 2 ^ 31)"
  using assms
proof (induction us rule: sleep_parts.induct)
  case (1 us)
  then show ?case by (cases "us > 0") (auto simp: sleep_parts.simps [of us] sleep_parts.simps [of 0])
qed

text \<open>\<open>now.QuadPart * 1000ULL\<close> wraps: a counter of 3 GHz starts again from 0 after 71 days.\<close>

lemma counter_ticks_start_again:
  "counter_ticks 18446744073709551 3000000000 = 6148914691"
  "counter_ticks 18446744073709552 3000000000 = 0"
  by (simp_all add: counter_ticks_def)

section \<open>The time client\<close>

text \<open>\<open>parse\<close>: 32 bits of seconds and 32 bits of their fraction, as milliseconds. No value here
  leaves 64 bits.\<close>

definition ntp_parse :: "bool \<Rightarrow> bytes \<Rightarrow> nat \<Rightarrow> int option" where
  "ntp_parse big buf p =
     (case read_int_ntoh big buf p True :: (u32 \<times> nat) option of
        None \<Rightarrow> None
      | Some (iPart, q) \<Rightarrow>
          (case read_int_ntoh big buf q True :: (u32 \<times> nat) option of
             None \<Rightarrow> None
           | Some (fPart, _) \<Rightarrow> Some (uint iPart * 1000 + uint fPart * 1000 div 2 ^ 32)))"

definition ntp_ticks :: "int \<Rightarrow> int \<Rightarrow> int \<Rightarrow> int \<Rightarrow> int" where
  "ntp_ticks t1 t4 t2 t3 = (let d = (t4 - t1) - (t3 - t2) in t3 + d div 2)"

text \<open>A call of \<open>gettime\<close> is a coroutine that waits for the name to be resolved, then for the
  answer to the request it sent at a time. The \<open>bool\<close> of a wait says that it has been cancelled.
  \<open>nc_threw\<close> counts the coroutines that \<open>send\<close> left with an exception.\<close>

datatype ntp_wait = Resolving | Receiving int

datatype ntp_error = Timed_out | Aborted | System_error nat

datatype ntp_signal = Gottime int | Failed ntp_error

record ntp_client =
  nc_open :: bool
  nc_armed :: bool
  nc_buf :: bytes
  nc_waits :: "(ntp_wait \<times> bool) list"
  nc_signals :: "ntp_signal list"
  nc_threw :: nat

definition ntp_new :: ntp_client where
  "ntp_new = \<lparr>nc_open = False, nc_armed = False, nc_buf = replicate 48 0, nc_waits = [],
     nc_signals = [], nc_threw = 0\<rparr>"

definition ntp_wait_for :: "ntp_wait \<Rightarrow> ntp_client \<Rightarrow> ntp_client" where
  "ntp_wait_for x c = c\<lparr>nc_waits := nc_waits c @ [(x, False)]\<rparr>"

definition ntp_signal_off :: "ntp_signal \<Rightarrow> ntp_client \<Rightarrow> ntp_client" where
  "ntp_signal_off x c = c\<lparr>nc_armed := False, nc_signals := nc_signals c @ [x]\<rparr>"

text \<open>Cancelling the waits that satisfy \<open>P\<close>: their handlers are still to come.\<close>

definition ntp_cancel :: "(ntp_wait \<Rightarrow> bool) \<Rightarrow> ntp_client \<Rightarrow> ntp_client" where
  "ntp_cancel P c = c\<lparr>nc_waits := map (\<lambda>(x, b). (x, b \<or> P x)) (nc_waits c)\<rparr>"

definition is_receiving :: "ntp_wait \<Rightarrow> bool" where
  "is_receiving x \<longleftrightarrow> (case x of Receiving _ \<Rightarrow> True | Resolving \<Rightarrow> False)"

definition ntp_request :: "int \<Rightarrow> bool \<Rightarrow> ntp_client \<Rightarrow> ntp_client" where
  "ntp_request now sent c =
     (if sent then ntp_wait_for (Receiving now) c else c\<lparr>nc_threw := nc_threw c + 1\<rparr>)"

definition ntp_gettime :: "int \<Rightarrow> bool \<Rightarrow> ntp_client \<Rightarrow> ntp_client" where
  "ntp_gettime now sent c =
     (let c1 = c\<lparr>nc_armed := True\<rparr> in
      if nc_open c1 then ntp_request now sent c1 else ntp_wait_for Resolving c1)"

definition ntp_resolved :: "ntp_error option \<Rightarrow> bool \<Rightarrow> int \<Rightarrow> bool \<Rightarrow> ntp_client \<Rightarrow> ntp_client" where
  "ntp_resolved ec opened now sent c =
     (case ec of
        Some e \<Rightarrow> ntp_signal_off (Failed e) c
      | None \<Rightarrow> ntp_request now sent
          (c\<lparr>nc_buf := (replicate 48 0)[0 := 0x1B], nc_open := nc_open c \<or> opened\<rparr>))"

text \<open>The bytes that came are at the front of the buffer; the rest of it is as it was.\<close>

definition ntp_received ::
  "bool \<Rightarrow> int \<Rightarrow> ntp_error option \<Rightarrow> bytes \<Rightarrow> int \<Rightarrow> ntp_client \<Rightarrow> ntp_client option" where
  "ntp_received big requestTime ec bs now c =
     (let c1 = (ntp_cancel is_receiving c)\<lparr>nc_open := False,
                  nc_buf := take 48 bs @ drop (length bs) (nc_buf c)\<rparr> in
      case ec of
        Some e \<Rightarrow> Some (ntp_signal_off (Failed e) c1)
      | None \<Rightarrow>
          (case (ntp_parse big (nc_buf c1) 32, ntp_parse big (nc_buf c1) 40) of
             (Some t2, Some t3) \<Rightarrow>
               Some (ntp_signal_off (Gottime (ntp_ticks requestTime now t2 t3)) c1)
           | _ \<Rightarrow> None))"

definition ntp_time_out :: "ntp_client \<Rightarrow> ntp_client" where
  "ntp_time_out c = ntp_signal_off (Failed Timed_out) ((ntp_cancel (\<lambda>_. True) c)\<lparr>nc_open := False\<rparr>)"

text \<open>The events, with the number of calls and of time-outs so far. A handler runs for any wait;
  only what has been cancelled is aborted.\<close>

definition without :: "nat \<Rightarrow> ntp_client \<Rightarrow> ntp_client" where
  "without k c = c\<lparr>nc_waits := take k (nc_waits c) @ drop (Suc k) (nc_waits c)\<rparr>"

inductive ntp_reach :: "bool \<Rightarrow> nat \<Rightarrow> nat \<Rightarrow> ntp_client \<Rightarrow> bool" for big where
  ntp_start: "ntp_reach big 0 0 ntp_new"
| ntp_called: "ntp_reach big n k c \<Longrightarrow> ntp_reach big (Suc n) k (ntp_gettime now sent c)"
| ntp_resolves: "ntp_reach big n k c \<Longrightarrow> i < length (nc_waits c) \<Longrightarrow>
    nc_waits c ! i = (Resolving, cancelled) \<Longrightarrow> ec = Some Aborted \<longrightarrow> cancelled \<Longrightarrow>
    ntp_reach big n k (ntp_resolved ec opened now sent (without i c))"
| ntp_receives: "ntp_reach big n k c \<Longrightarrow> i < length (nc_waits c) \<Longrightarrow>
    nc_waits c ! i = (Receiving t, cancelled) \<Longrightarrow> ec = Some Aborted \<longrightarrow> cancelled \<Longrightarrow> length bs \<le> 48 \<Longrightarrow>
    ntp_received big t ec bs now (without i c) = Some c1 \<Longrightarrow> ntp_reach big n k c1"
| ntp_times_out: "ntp_reach big n k c \<Longrightarrow> nc_armed c \<Longrightarrow> ntp_reach big n (Suc k) (ntp_time_out c)"

lemmas ntp_defs = ntp_new_def ntp_gettime_def ntp_resolved_def ntp_received_def ntp_time_out_def
  ntp_request_def ntp_wait_for_def ntp_signal_off_def ntp_cancel_def without_def

text \<open>Every call is answered once, is still waited for, or was left with an exception; and every
  time-out is a signal more.\<close>

lemma ntp_signals_accounted:
  assumes "ntp_reach big n k c"
  shows "length (nc_signals c) + length (nc_waits c) + nc_threw c = n + k"
  using assms
proof induction
  case (ntp_receives n k c i t cancelled ec bs now c1)
  then show ?case
    by (auto simp: ntp_defs Let_def split: option.splits)
qed (auto simp: ntp_defs Let_def split: option.splits)

text \<open>The buffer is always read inside: what \<open>parse\<close> needs is there, however short the answer.\<close>

lemma ntp_buf_length:
  "ntp_reach big n k c \<Longrightarrow> length (nc_buf c) = 48"
  by (induction rule: ntp_reach.induct) (auto simp: ntp_defs Let_def split: option.splits)

lemma ntp_parse_defined:
  assumes "p + 8 \<le> length buf"
  shows "ntp_parse big buf p \<noteq> None"
  using assms by (simp add: ntp_parse_def read_int_ntoh_def read_int_def read_value_def Let_def)

lemma ntp_answer_defined:
  assumes "ntp_reach big n k c" and "length bs \<le> 48"
  shows "ntp_received big t ec bs now (without i c) \<noteq> None"
proof -
  let ?buf = "take 48 bs @ drop (length bs) (nc_buf (without i c))"
  have "length ?buf = 48"
    using ntp_buf_length [OF assms(1)] assms(2) by (simp add: without_def)
  then obtain t2 t3 where "ntp_parse big ?buf 32 = Some t2" "ntp_parse big ?buf 40 = Some t3"
    using ntp_parse_defined [of 32 ?buf big] ntp_parse_defined [of 40 ?buf big] by auto
  then show ?thesis
    by (cases ec) (simp_all add: ntp_received_def ntp_cancel_def Let_def)
qed

text \<open>The answer is off by half of the difference of the two ways: the request took \<open>a\<close>, the answer
  \<open>b\<close>, and the clock of the server is ahead by \<open>off\<close>.\<close>

lemma ntp_ticks_error:
  assumes "t2 = t1 + a + off" and "t3 + b = t4 + off"
  shows "ntp_ticks t1 t4 t2 t3 - (t4 + off) = (a - b) div 2"
proof -
  have "t4 - t1 - (t3 - t2) = a + b" using assms by simp
  moreover have "(a + b) div 2 - b = (a - b) div 2" by presburger
  ultimately show ?thesis using assms by (simp add: ntp_ticks_def Let_def)
qed

text \<open>A call that times out is answered twice; and if it is called again in between, the second
  answer stops the timer of the second call, which then waits for ever when no answer comes.\<close>

lemma ntp_waits_for_ever:
  "ntp_reach big (Suc (Suc 0)) (Suc 0) \<lparr>nc_open = True, nc_armed = False, nc_buf = (replicate 48 0)[0 := 0x1B],
     nc_waits = [(Receiving 0, False)], nc_signals = [Failed Timed_out, Failed Aborted], nc_threw = 0\<rparr>"
proof -
  note 1 = ntp_called [OF ntp_start, of big 0 True]
  have 2: "ntp_reach big (Suc 0) (Suc 0) (ntp_time_out (ntp_gettime 0 True ntp_new))"
    using ntp_times_out [OF 1] by (simp add: ntp_defs)
  note 3 = ntp_called [OF 2, of 0 True]
  have 4: "ntp_reach big (Suc (Suc 0)) (Suc 0) (ntp_resolved (Some Aborted) True 0 True
      (without 0 (ntp_gettime 0 True (ntp_time_out (ntp_gettime 0 True ntp_new)))))"
    using ntp_resolves [OF 3, of 0 True "Some Aborted" True 0 True] by (simp add: ntp_defs)
  have "ntp_reach big (Suc (Suc 0)) (Suc 0) (ntp_resolved None True 0 True (without 0 (ntp_resolved (Some Aborted) True 0 True
      (without 0 (ntp_gettime 0 True (ntp_time_out (ntp_gettime 0 True ntp_new)))))))"
    using ntp_resolves [OF 4, of 0 False None True 0 True] by (simp add: ntp_defs)
  then show ?thesis by (simp add: ntp_defs)
qed

text \<open>An answer of no bytes is taken for the time of the year 1900.\<close>

lemma ntp_parse_zeros:
  assumes "drop p buf = replicate n 0" and "8 \<le> n" and "p + n = length buf"
  shows "ntp_parse big buf p = Some 0"
proof -
  have "drop (p + 4) buf = replicate (n - 4) 0"
    using arg_cong [OF assms(1), of "drop 4"] by (simp add: add.commute)
  moreover have "replicate 4 x = [x, x, x, x]" for x :: byte by (simp add: eval_nat_numeral)
  then have "of_memory big (replicate 4 0) = (0 :: u32)"
    by (simp add: of_memory_def word_of_bytes_def)
  moreover have "ntoh big (0 :: u32) = 0"
    by (simp add: ntoh_def hton_with_n_bytes_def htonl_def bswap_32_def)
  ultimately show ?thesis
    using assms by (simp add: ntp_parse_def read_int_ntoh_def read_int_def read_value_def Let_def)
qed

lemma ntp_empty_answer:
  "map_option nc_signals (ntp_received big 100 None [] 140
     (ntp_new\<lparr>nc_buf := (replicate 48 0)[0 := 0x1B]\<rparr>)) = Some [Gottime 20]"
proof -
  let ?buf = "(replicate 48 0)[0 := 0x1B :: byte]"
  have "ntp_parse big ?buf 32 = Some 0" "ntp_parse big ?buf 40 = Some 0"
    by (rule ntp_parse_zeros [where n = 16] ntp_parse_zeros [where n = 8]; simp)+
  then show ?thesis
    by (simp add: ntp_received_def ntp_signal_off_def ntp_cancel_def ntp_new_def ntp_ticks_def)
qed

end
