(* ===== verification/File_Service.thy ===== *)
theory File_Service
  imports Wrappable
begin

text \<open>Files on POSIX systems: \<open>open_file\<close> of src/file/file_api.cpp, the service of
  p2engine/file/normal_aiofile_service.hpp and the thread of file_background_service.hpp that
  runs its operations.

  The system calls are a record of functions over a state \<open>'os\<close> of the system, an argument of every
  definition that calls them; the numbers of the flags are those of Linux. Each operation of
  the background thread is one step: that the caller's thread may change \<open>fd\<close> in the middle of
  it is not modelled.\<close>

section \<open>The system\<close>

text \<open>\<open>struct flock\<close> of Linux, its fields in their order.\<close>

record flock =
  l_type :: int
  l_whence :: int
  l_start :: int
  l_len :: int
  l_pid :: int

record 'os posix =
  px_getpid :: int
  px_open :: "string \<Rightarrow> u32 \<Rightarrow> u32 \<Rightarrow> 'os \<Rightarrow> int \<times> 'os"
  px_setlk :: "int \<Rightarrow> flock \<Rightarrow> 'os \<Rightarrow> int \<times> 'os"
  px_fadvise :: "int \<Rightarrow> 'os \<Rightarrow> 'os"
  px_close :: "int \<Rightarrow> 'os \<Rightarrow> int \<times> 'os"
  px_lseek :: "int \<Rightarrow> int \<Rightarrow> int \<Rightarrow> 'os \<Rightarrow> int \<times> 'os"
  px_write :: "int \<Rightarrow> byte list \<Rightarrow> 'os \<Rightarrow> int \<times> 'os"
  px_read :: "int \<Rightarrow> nat \<Rightarrow> 'os \<Rightarrow> int \<times> byte list \<times> 'os"
  px_errno :: "'os \<Rightarrow> int"

datatype file_error = Already_open | Bad_descriptor | Operation_aborted | System_code int

text \<open>An \<open>error_code\<close>, cleared or not, and whether it counts as an error: a code of 0 does not.\<close>

type_synonym file_ec = "file_error option"

definition ec_set :: "file_ec \<Rightarrow> bool" where
  "ec_set ec \<longleftrightarrow> (case ec of None \<Rightarrow> False | Some (System_code n) \<Rightarrow> n \<noteq> 0 | Some _ \<Rightarrow> True)"

section \<open>Opening a file\<close>

definition write_only :: u32 where "write_only = 1"
definition rw_mask :: u32 where "rw_mask = 3"
definition no_atime :: u32 where "no_atime = 16"
definition random_access :: u32 where "random_access = 32"
definition lock_file :: u32 where "lock_file = 64"
definition attribute_executable :: u32 where "attribute_executable = 0x2000"

definition open_permissions :: "u32 \<Rightarrow> u32" where
  "open_permissions mode = (if mode AND attribute_executable \<noteq> 0 then 0x1FF else 0x1B6)"

text \<open>\<open>O_RDONLY\<close>, \<open>O_WRONLY | O_CREAT\<close>, \<open>O_RDWR | O_CREAT\<close>; with \<open>O_NOATIME\<close> and \<open>O_NONBLOCK\<close>. None
  is an access behind the end of \<open>mode_array\<close>.\<close>

definition mode_array :: "u32 list" where
  "mode_array = [0, 0x41, 0x42]"

definition open_flags :: "u32 \<Rightarrow> u32 option" where
  "open_flags mode =
     (if unat (mode AND rw_mask) < length mode_array
      then Some (mode_array ! unat (mode AND rw_mask)
             OR (if mode AND no_atime \<noteq> 0 then 0x40000 else 0) OR 0x800)
      else None)"

text \<open>The initialiser of the lock, as it is written, goes to the fields in their order.\<close>

definition lock_request :: "int \<Rightarrow> u32 \<Rightarrow> flock" where
  "lock_request pid mode =
     \<lparr>l_type = 0, l_whence = 0, l_start = pid,
      l_len = (if mode AND write_only \<noteq> 0 then 1 else 0), l_pid = 0\<rparr>"

definition open_file ::
  "'os posix \<Rightarrow> string \<Rightarrow> u32 \<Rightarrow> file_ec \<Rightarrow> 'os \<Rightarrow> (int \<times> file_ec \<times> 'os) option" where
  "open_file px path mode ec os =
     (case open_flags mode of
        None \<Rightarrow> None
      | Some flags \<Rightarrow>
          (case px_open px path flags (open_permissions mode) os of (handle, os1) \<Rightarrow>
             if handle = -1 then Some (handle, Some (System_code (px_errno px os1)), os1)
             else
               (case (if mode AND lock_file \<noteq> 0
                      then px_setlk px handle (lock_request (px_getpid px) mode) os1
                      else (0, os1)) of (r, os2) \<Rightarrow>
                  if r \<noteq> 0 then Some (handle, Some (System_code (px_errno px os2)), os2)
                  else Some (handle, ec,
                    if mode AND random_access \<noteq> 0 then px_fadvise px handle os2 else os2))))"

section \<open>The handle\<close>

record aio_file =
  af_fd :: int
  af_op_count :: u32

definition af_construct :: "aio_file \<Rightarrow> aio_file" where
  "af_construct f = f\<lparr>af_fd := -1, af_op_count := af_op_count f + 1\<rparr>"

definition af_is_open :: "aio_file \<Rightarrow> bool" where
  "af_is_open f \<longleftrightarrow> af_fd f \<noteq> -1"

definition af_assign :: "int \<Rightarrow> aio_file \<Rightarrow> file_ec \<times> aio_file" where
  "af_assign handle f =
     (if af_is_open f then (Some Already_open, f)
      else (None, f\<lparr>af_fd := handle, af_op_count := af_op_count f + 1\<rparr>))"

text \<open>\<open>err\<close> is the caller's, with what it held before.\<close>

definition af_open ::
  "'os posix \<Rightarrow> string \<Rightarrow> u32 \<Rightarrow> file_ec \<Rightarrow> aio_file \<Rightarrow> 'os \<Rightarrow> (file_ec \<times> aio_file \<times> 'os) option" where
  "af_open px path mode err f os =
     (if af_is_open f then Some (Some Already_open, f, os)
      else
        (case open_file px path mode err os of
           None \<Rightarrow> None
         | Some (fd, err1, os1) \<Rightarrow>
             if ec_set err1 then Some (err1, f, os1)
             else (case af_assign fd f of (err2, f1) \<Rightarrow> Some (err2, f1, os1))))"

definition af_close :: "'os posix \<Rightarrow> aio_file \<Rightarrow> 'os \<Rightarrow> file_ec \<times> aio_file \<times> 'os" where
  "af_close px f os =
     (let f1 = f\<lparr>af_op_count := af_op_count f + 1\<rparr> in
      if af_fd f \<noteq> -1
      then (case px_close px (af_fd f) os of (r, os1) \<Rightarrow>
              (if r \<noteq> 0 then Some (System_code (px_errno px os1)) else None, f1\<lparr>af_fd := -1\<rparr>, os1))
      else (None, f1, os))"

definition af_seek :: "'os posix \<Rightarrow> int \<Rightarrow> int \<Rightarrow> aio_file \<Rightarrow> 'os \<Rightarrow> file_ec \<times> 'os" where
  "af_seek px offset origin f os =
     (if af_fd f = -1 then (Some Bad_descriptor, os)
      else (case px_lseek px (af_fd f) offset origin os of (r, os1) \<Rightarrow>
              (if r < 0 then Some (System_code (px_errno px os1)) else None, os1)))"

definition af_cancel :: "aio_file \<Rightarrow> aio_file" where
  "af_cancel f = f\<lparr>af_op_count := af_op_count f + 1\<rparr>"

section \<open>Reading and writing\<close>

definition as_int :: "int \<Rightarrow> int" where
  "as_int n = sint (word_of_int n :: u32)"

text \<open>The loops over the buffers: the bytes written or read, and the bytes of the buffers that were
  come to. A buffer to write is its bytes, one to read is its length.\<close>

fun write_bufs :: "'os posix \<Rightarrow> int \<Rightarrow> byte list list \<Rightarrow> 'os \<Rightarrow> nat \<times> nat \<times> 'os" where
  "write_bufs px fd [] os = (0, 0, os)"
| "write_bufs px fd (b # bs) os =
     (if b = [] then write_bufs px fd bs os
      else (case px_write px fd b os of (r, os1) \<Rightarrow>
              if as_int r < 0 then (0, length b, os1)
              else if nat (as_int r) \<noteq> length b then (nat (as_int r), length b, os1)
              else (case write_bufs px fd bs os1 of (w, l, os2) \<Rightarrow>
                      (nat (as_int r) + w, length b + l, os2))))"

fun read_bufs :: "'os posix \<Rightarrow> int \<Rightarrow> nat list \<Rightarrow> 'os \<Rightarrow> nat \<times> nat \<times> byte list \<times> 'os" where
  "read_bufs px fd [] os = (0, 0, [], os)"
| "read_bufs px fd (n # ns) os =
     (if n = 0 then read_bufs px fd ns os
      else (case px_read px fd n os of (r, bs, os1) \<Rightarrow>
              if as_int r < 0 then (0, n, [], os1)
              else if nat (as_int r) \<noteq> n then (nat (as_int r), n, bs, os1)
              else (case read_bufs px fd ns os1 of (w, l, cs, os2) \<Rightarrow>
                      (nat (as_int r) + w, n + l, bs @ cs, os2))))"

definition transfer_result :: "'os posix \<Rightarrow> nat \<Rightarrow> nat \<Rightarrow> 'os \<Rightarrow> file_ec \<times> nat" where
  "transfer_result px moved asked os =
     (if asked = 0 then (None, 0)
      else if moved \<noteq> asked
      then (if moved = 0 then (Some (System_code (px_errno px os)), 0) else (None, moved))
      else (None, moved))"

text \<open>What both operations do first: an offset of \<open>INT64_MAX\<close> is none.\<close>

definition aio_ready ::
  "'os posix \<Rightarrow> u32 \<Rightarrow> int \<Rightarrow> aio_file \<Rightarrow> 'os \<Rightarrow> file_ec \<times> 'os" where
  "aio_ready px op_count offset f os =
     (if wrappable_greater (af_op_count f) op_count then (Some Operation_aborted, os)
      else if af_fd f = -1 then (Some Bad_descriptor, os)
      else if offset \<noteq> 2 ^ 63 - 1
      then (case px_lseek px (af_fd f) offset 0 os of (r, os1) \<Rightarrow>
              (if r < 0 then Some (System_code (px_errno px os1)) else None, os1))
      else (None, os))"

definition write_some ::
  "'os posix \<Rightarrow> u32 \<Rightarrow> int \<Rightarrow> byte list list \<Rightarrow> aio_file \<Rightarrow> 'os \<Rightarrow> file_ec \<times> nat \<times> 'os" where
  "write_some px op_count offset bufs f os =
     (case aio_ready px op_count offset f os of
        (Some e, os1) \<Rightarrow> (Some e, 0, os1)
      | (None, os1) \<Rightarrow>
          (case write_bufs px (af_fd f) bufs os1 of (moved, asked, os2) \<Rightarrow>
             (case transfer_result px moved asked os2 of (ec, n) \<Rightarrow> (ec, n, os2))))"

definition read_some ::
  "'os posix \<Rightarrow> u32 \<Rightarrow> int \<Rightarrow> nat list \<Rightarrow> aio_file \<Rightarrow> 'os \<Rightarrow> file_ec \<times> nat \<times> byte list \<times> 'os" where
  "read_some px op_count offset sizes f os =
     (case aio_ready px op_count offset f os of
        (Some e, os1) \<Rightarrow> (Some e, 0, [], os1)
      | (None, os1) \<Rightarrow>
          (case read_bufs px (af_fd f) sizes os1 of (moved, asked, bs, os2) \<Rightarrow>
             (case transfer_result px moved asked os2 of (ec, n) \<Rightarrow> (ec, n, bs, os2))))"

section \<open>The background thread\<close>

text \<open>The operations that wait, with what they took along when they were asked for, and the handlers
  that have been called: of which operation, with which error, how many bytes, and for a read the
  bytes that are in the buffers now.\<close>

datatype aio_op =
    Op_open nat string u32
  | Op_write nat u32 int "byte list list"
  | Op_read nat u32 int "nat list"

record aio_done =
  ad_id :: nat
  ad_ec :: file_ec
  ad_bytes :: nat
  ad_data :: "byte list"

record 'os aio_world =
  aw_file :: aio_file
  aw_os :: 'os
  aw_queue :: "aio_op list"
  aw_done :: "aio_done list"

definition aio_perform :: "'os posix \<Rightarrow> aio_op \<Rightarrow> aio_file \<Rightarrow> 'os \<Rightarrow> (aio_done \<times> aio_file \<times> 'os) option" where
  "aio_perform px x f os =
     (case x of
        Op_open k path mode \<Rightarrow>
          (case af_open px path mode None f os of
             None \<Rightarrow> None
           | Some (ec, f1, os1) \<Rightarrow> Some (\<lparr>ad_id = k, ad_ec = ec, ad_bytes = 0, ad_data = []\<rparr>, f1, os1))
      | Op_write k stamp offset bufs \<Rightarrow>
          (case write_some px stamp offset bufs f os of (ec, n, os1) \<Rightarrow>
             Some (\<lparr>ad_id = k, ad_ec = ec, ad_bytes = n, ad_data = []\<rparr>, f, os1))
      | Op_read k stamp offset sizes \<Rightarrow>
          (case read_some px stamp offset sizes f os of (ec, n, bs, os1) \<Rightarrow>
             Some (\<lparr>ad_id = k, ad_ec = ec, ad_bytes = n, ad_data = bs\<rparr>, f, os1)))"

text \<open>What the caller does, and \<open>Work\<close>, the background thread taking the next operation. An offset
  comes as \<open>uint64_t\<close> and is kept as \<open>int64_t\<close>.\<close>

datatype aio_event =
    Open string u32 file_ec
  | Assign int
  | Close
  | Cancel
  | Seek int int
  | Async_open nat string u32
  | Async_write nat "u64 option" "byte list list"
  | Async_read nat "u64 option" "nat list"
  | Work

definition kept_offset :: "u64 option \<Rightarrow> int" where
  "kept_offset offset = (case offset of None \<Rightarrow> 2 ^ 63 - 1 | Some n \<Rightarrow> sint n)"

definition aio_event :: "'os posix \<Rightarrow> aio_event \<Rightarrow> 'os aio_world \<Rightarrow> 'os aio_world option" where
  "aio_event px e w =
     (case e of
        Open path mode err \<Rightarrow>
          (case af_open px path mode err (aw_file w) (aw_os w) of
             None \<Rightarrow> None
           | Some (_, f, os) \<Rightarrow> Some (w\<lparr>aw_file := f, aw_os := os\<rparr>))
      | Assign handle \<Rightarrow> Some (w\<lparr>aw_file := snd (af_assign handle (aw_file w))\<rparr>)
      | Close \<Rightarrow> (case af_close px (aw_file w) (aw_os w) of (_, f, os) \<Rightarrow>
                  Some (w\<lparr>aw_file := f, aw_os := os\<rparr>))
      | Cancel \<Rightarrow> Some (w\<lparr>aw_file := af_cancel (aw_file w)\<rparr>)
      | Seek offset origin \<Rightarrow>
          Some (w\<lparr>aw_os := snd (af_seek px offset origin (aw_file w) (aw_os w))\<rparr>)
      | Async_open k path mode \<Rightarrow> Some (w\<lparr>aw_queue := aw_queue w @ [Op_open k path mode]\<rparr>)
      | Async_write k offset bufs \<Rightarrow>
          Some (w\<lparr>aw_queue := aw_queue w @
            [Op_write k (af_op_count (aw_file w)) (kept_offset offset) bufs]\<rparr>)
      | Async_read k offset sizes \<Rightarrow>
          Some (w\<lparr>aw_queue := aw_queue w @
            [Op_read k (af_op_count (aw_file w)) (kept_offset offset) sizes]\<rparr>)
      | Work \<Rightarrow>
          (case aw_queue w of
             [] \<Rightarrow> Some w
           | x # rest \<Rightarrow>
               (case aio_perform px x (aw_file w) (aw_os w) of
                  None \<Rightarrow> None
                | Some (d, f, os) \<Rightarrow>
                    Some (w\<lparr>aw_file := f, aw_os := os, aw_queue := rest, aw_done := aw_done w @ [d]\<rparr>))))"

fun aio_run :: "'os posix \<Rightarrow> aio_event list \<Rightarrow> 'os aio_world \<Rightarrow> 'os aio_world option" where
  "aio_run px [] w = Some w"
| "aio_run px (e # es) w = Option.bind (aio_event px e w) (aio_run px es)"

section \<open>Cancelling\<close>

text \<open>An event moves the counter on by one or not at all; closing and cancelling do.\<close>

lemma af_open_count:
  "af_open px path mode err f os = Some (ec, f1, os1) \<Longrightarrow>
   af_op_count f1 = af_op_count f \<or> af_op_count f1 = af_op_count f + 1"
  by (auto simp: af_open_def af_assign_def split: if_splits option.splits prod.splits)

lemma aio_perform_count:
  "aio_perform px x f os = Some (d, f1, os1) \<Longrightarrow>
   af_op_count f1 = af_op_count f \<or> af_op_count f1 = af_op_count f + 1"
  using af_open_count [of px _ _ None f os]
  by (auto simp: aio_perform_def split: aio_op.splits option.splits prod.splits)

lemma aio_event_count:
  assumes "aio_event px e w = Some w1"
  shows "af_op_count (aw_file w1) = af_op_count (aw_file w) \<and> e \<noteq> Close \<and> e \<noteq> Cancel \<or>
    af_op_count (aw_file w1) = af_op_count (aw_file w) + 1"
proof (cases e)
  case (Open path mode err)
  then show ?thesis
    using assms af_open_count [of px path mode err "aw_file w" "aw_os w"]
    by (auto simp: aio_event_def split: option.splits prod.splits)
next
  case Work
  then show ?thesis
    using assms
    by (auto simp: aio_event_def split: list.splits option.splits prod.splits dest!: aio_perform_count)
qed (use assms in \<open>auto simp: aio_event_def af_assign_def af_close_def af_cancel_def Let_def
       split: if_splits prod.splits\<close>)

lemma aio_run_count:
  assumes "aio_run px es w = Some w1"
  shows "\<exists>k. af_op_count (aw_file w1) = af_op_count (aw_file w) + word_of_nat k \<and>
    k \<le> length es \<and> (Close \<in> set es \<or> Cancel \<in> set es \<longrightarrow> 0 < k)"
  using assms
proof (induction es arbitrary: w)
  case (Cons e es)
  then obtain w2 where w2: "aio_event px e w = Some w2" "aio_run px es w2 = Some w1"
    by (auto split: Option.bind_splits)
  obtain k where k: "af_op_count (aw_file w1) = af_op_count (aw_file w2) + word_of_nat k"
      "k \<le> length es" "Close \<in> set es \<or> Cancel \<in> set es \<longrightarrow> 0 < k"
    using Cons.IH [OF w2(2)] by blast
  from aio_event_count [OF w2(1)] show ?case
  proof
    assume "af_op_count (aw_file w2) = af_op_count (aw_file w) \<and> e \<noteq> Close \<and> e \<noteq> Cancel"
    then show ?thesis using k by (intro exI [of _ k]) auto
  next
    assume "af_op_count (aw_file w2) = af_op_count (aw_file w) + 1"
    then show ?thesis using k by (intro exI [of _ "Suc k"]) auto
  qed
qed simp

text \<open>The operations that are waiting stay in their order; each \<open>Work\<close> takes one.\<close>

definition works :: "aio_event list \<Rightarrow> nat" where
  "works es = length (filter (\<lambda>e. e = Work) es)"

lemma aio_run_queue:
  assumes "aio_run px es w = Some w1" and "works es \<le> length (aw_queue w)"
  shows "\<exists>more. aw_queue w1 = drop (works es) (aw_queue w) @ more"
  using assms
proof (induction es arbitrary: w)
  case (Cons e es)
  then obtain w2 where w2: "aio_event px e w = Some w2" "aio_run px es w2 = Some w1"
    by (auto split: Option.bind_splits)
  show ?case
  proof (cases "e = Work")
    case True
    then obtain x rest where "aw_queue w = x # rest"
      using Cons.prems(2) by (cases "aw_queue w") (simp_all add: works_def)
    moreover from this have "aw_queue w2 = rest"
      using w2(1) True by (auto simp: aio_event_def split: option.splits)
    ultimately show ?thesis
      using Cons.IH [OF w2(2)] Cons.prems(2) True by (simp add: works_def)
  next
    case False
    then obtain new where new: "aw_queue w2 = aw_queue w @ new"
      using w2(1) by (cases e) (auto simp: aio_event_def split: option.splits prod.splits)
    then show ?thesis
      using Cons.IH [OF w2(2)] Cons.prems(2) False by (auto simp: works_def)
  qed
qed (simp add: works_def)

lemma counted_greater:
  assumes "0 < k" and "k < 2 ^ 31"
  shows "wrappable_greater (c + word_of_nat k) (c :: u32)"
proof -
  have "uint (word_of_nat k :: u32) = int k"
    using assms(2) by (simp add: uint_nat unat_of_nat)
  then show ?thesis
    using assms by (simp add: wrappable_greater_def wrap_simps)
qed

text \<open>C24: a file that is closed, or whose operations are cancelled, is left alone by the operations
  that were waiting: a read or a write that was asked for before, and that the background
  thread comes to afterwards, is called back as aborted with no bytes, and the system is as it
  was, the new file of the handle too if it has been opened again. This is so as long as fewer
  than \<open>2 ^ 31\<close> things happen in between; after those the counter has come round.\<close>

theorem cancelled_writes_abort:
  assumes "e = Async_write k offset bufs \<or> e = Async_read k offset sizes"
    and "aio_event px e w0 = Some w" and "aio_run px es w = Some w1"
    and "Close \<in> set es \<or> Cancel \<in> set es" and "length es < 2 ^ 31"
    and "works es = length (aw_queue w0)"
  shows "\<exists>w2. aio_event px Work w1 = Some w2 \<and> aw_os w2 = aw_os w1 \<and> aw_file w2 = aw_file w1 \<and>
    aw_done w2 = aw_done w1 @
      [\<lparr>ad_id = k, ad_ec = Some Operation_aborted, ad_bytes = 0, ad_data = []\<rparr>]"
proof -
  let ?stamp = "af_op_count (aw_file w)"
  obtain x where x: "x = Op_write k ?stamp (kept_offset offset) bufs \<or>
      x = Op_read k ?stamp (kept_offset offset) sizes"
    and w: "aw_queue w = aw_queue w0 @ [x]"
  proof (cases "e = Async_write k offset bufs")
    case True
    then show ?thesis
      using that [OF disjI1 [OF refl]] assms(2) by (force simp: aio_event_def)
  next
    case False
    then have "e = Async_read k offset sizes" using assms(1) by simp
    then show ?thesis
      using that [OF disjI2 [OF refl]] assms(2) by (force simp: aio_event_def)
  qed
  then obtain more where q: "aw_queue w1 = x # more"
    using aio_run_queue [OF assms(3)] assms(6) by auto
  obtain n where n: "af_op_count (aw_file w1) = ?stamp + word_of_nat n" "n \<le> length es" "0 < n"
    using aio_run_count [OF assms(3)] assms(4) by blast
  then have "wrappable_greater (af_op_count (aw_file w1)) ?stamp"
    using counted_greater [of n ?stamp] assms(5) by simp
  then show ?thesis
    using x by (auto simp: aio_event_def q aio_perform_def write_some_def read_some_def aio_ready_def)
qed

section \<open>What is in the file\<close>

definition overwrite :: "nat \<Rightarrow> byte list \<Rightarrow> byte list \<Rightarrow> byte list" where
  "overwrite p bs content =
     (if bs = [] then content
      else take p (content @ replicate (p - length content) 0) @ bs @ drop (p + length bs) content)"

text \<open>What POSIX says of a regular file under \<open>fd\<close>, with its bytes and the position: the calls may fail
  and change nothing, and a write or a read may be short.\<close>

definition regular_file :: "'os posix \<Rightarrow> int \<Rightarrow> ('os \<Rightarrow> byte list) \<Rightarrow> ('os \<Rightarrow> nat) \<Rightarrow> bool" where
  "regular_file px fd content position \<longleftrightarrow>
     (\<forall>offset os. 0 \<le> offset \<longrightarrow> (case px_lseek px fd offset 0 os of (r, os1) \<Rightarrow>
        content os1 = content os \<and> (r = -1 \<or> r = offset \<and> position os1 = nat offset))) \<and>
     (\<forall>bs os. bs \<noteq> [] \<longrightarrow> (case px_write px fd bs os of (r, os1) \<Rightarrow>
        r = -1 \<and> content os1 = content os \<and> position os1 = position os \<or>
        0 \<le> r \<and> r < 2 ^ 31 \<and> nat r \<le> length bs \<and> position os1 = position os + nat r \<and>
        content os1 = overwrite (position os) (take (nat r) bs) (content os))) \<and>
     (\<forall>n os. 0 < n \<longrightarrow> (case px_read px fd n os of (r, bs, os1) \<Rightarrow> content os1 = content os \<and>
        (r = -1 \<and> position os1 = position os \<or>
         0 \<le> r \<and> r < 2 ^ 31 \<and> nat r \<le> n \<and> position os1 = position os + nat r \<and> length bs = nat r \<and>
         bs = take (nat r) (drop (position os) (content os)))))"

lemma overwrite_append:
  "overwrite (p + length xs) ys (overwrite p xs c) = overwrite p (xs @ ys) c"
  by (auto simp: overwrite_def min_def ac_simps)

lemma overwrite_read:
  "drop p (overwrite p bs c) = bs @ (if bs = [] then drop p c else drop (p + length bs) c)"
  by (auto simp: overwrite_def)

lemma as_int_small: "-1 \<le> n \<Longrightarrow> n < 2 ^ 31 \<Longrightarrow> as_int n = n"
  unfolding as_int_def by (rule sint_small_int) simp_all

lemma as_int_minus_one [simp]: "as_int (-1) = -1"
  by (simp add: as_int_def)

lemma regular_lseek:
  assumes "regular_file px fd content position" and "0 \<le> offset" and "px_lseek px fd offset 0 os = (r, os1)"
  shows "content os1 = content os \<and> (r = -1 \<or> r = offset \<and> position os1 = nat offset)"
  using assms(1) [unfolded regular_file_def, THEN conjunct1, rule_format, OF assms(2), of os]
  by (simp add: assms(3))

lemma regular_write:
  assumes "regular_file px fd content position" and "bs \<noteq> []" and "px_write px fd bs os = (r, os1)"
  shows "r = -1 \<and> content os1 = content os \<and> position os1 = position os \<or>
    0 \<le> r \<and> r < 2 ^ 31 \<and> nat r \<le> length bs \<and> position os1 = position os + nat r \<and>
    content os1 = overwrite (position os) (take (nat r) bs) (content os)"
  using assms(1) [unfolded regular_file_def, THEN conjunct2, THEN conjunct1, rule_format, OF assms(2), of os]
  by (simp add: assms(3))

lemma regular_read:
  assumes "regular_file px fd content position" and "0 < n" and "px_read px fd n os = (r, bs, os1)"
  shows "content os1 = content os \<and> (r = -1 \<and> position os1 = position os \<or>
    0 \<le> r \<and> r < 2 ^ 31 \<and> nat r \<le> n \<and> position os1 = position os + nat r \<and> length bs = nat r \<and>
    bs = take (nat r) (drop (position os) (content os)))"
  using assms(1) [unfolded regular_file_def, THEN conjunct2, THEN conjunct2, rule_format, OF assms(2), of os]
  by (simp add: assms(3))

lemma write_bufs_content:
  assumes "regular_file px fd content position" and "write_bufs px fd bufs os = (w, l, os1)"
  shows "w \<le> length (concat bufs) \<and> w \<le> l \<and> position os1 = position os + w \<and>
    content os1 = overwrite (position os) (take w (concat bufs)) (content os)"
  using assms(2)
proof (induction bufs arbitrary: os w l)
  case Nil
  then show ?case by (simp add: overwrite_def)
next
  case (Cons b bs)
  show ?case
  proof (cases "b = []")
    case True
    then show ?thesis using Cons by simp
  next
    case False
    obtain r os2 where call: "px_write px fd b os = (r, os2)" by fastforce
    note law = regular_write [OF assms(1) False call]
    have small: "as_int r = r" using law by (intro as_int_small) auto
    consider (failed) "r = -1" | (short) "0 \<le> r" "nat r < length b" | (all) "r = int (length b)"
      using law by linarith
    then show ?thesis
    proof cases
      case failed
      then show ?thesis using Cons.prems False law by (auto simp: call small overwrite_def)
    next
      case short
      then show ?thesis using Cons.prems False law by (auto simp: call small)
    next
      case all
      obtain w3 l3 where rest: "write_bufs px fd bs os2 = (w3, l3, os1)" "w = length b + w3" "l = length b + l3"
        using Cons.prems False all small by (auto simp: call split: prod.splits)
      then show ?thesis
        using Cons.IH [OF rest(1)] law all overwrite_append [of "position os" b] by auto
    qed
  qed
qed

lemma read_bufs_content:
  assumes "regular_file px fd content position" and "read_bufs px fd sizes os = (w, l, bs, os1)"
  shows "w \<le> sum_list sizes \<and> w \<le> l \<and> position os1 = position os + w \<and> content os1 = content os \<and>
    bs = take w (drop (position os) (content os)) \<and> length bs = w"
  using assms(2)
proof (induction sizes arbitrary: os w l bs)
  case Nil
  then show ?case by simp
next
  case (Cons n ns)
  show ?case
  proof (cases "n = 0")
    case True
    then show ?thesis using Cons by simp
  next
    case False
    obtain r cs os2 where call: "px_read px fd n os = (r, cs, os2)" by (cases "px_read px fd n os") auto
    then have law: "content os2 = content os \<and> (r = -1 \<and> position os2 = position os \<or>
        0 \<le> r \<and> r < 2 ^ 31 \<and> nat r \<le> n \<and> position os2 = position os + nat r \<and> length cs = nat r \<and>
        cs = take (nat r) (drop (position os) (content os)))"
      using regular_read [OF assms(1)] False by simp
    have small: "as_int r = r" using law by (intro as_int_small) auto
    consider (failed) "r = -1" | (short) "0 \<le> r" "nat r < n" | (all) "r = int n"
      using law by linarith
    then show ?thesis
    proof cases
      case failed
      then show ?thesis using Cons.prems False law by (auto simp: call small)
    next
      case short
      then show ?thesis using Cons.prems False law by (auto simp: call small)
    next
      case all
      obtain w3 l3 ds where rest: "read_bufs px fd ns os2 = (w3, l3, ds, os1)" "w = n + w3" "l = n + l3"
          "bs = cs @ ds"
        using Cons.prems False all small by (auto simp: call split: prod.splits)
      note ih = Cons.IH [OF rest(1)]
      have "nat r = n" "r \<noteq> -1" using all by simp_all
      then have os2: "position os2 = position os + n" "content os2 = content os" "length cs = n"
          "cs = take n (drop (position os) (content os))"
        using law by metis+
      moreover have "bs = take w (drop (position os) (content os))"
        using ih os2(1,2,4) take_add [of n w3 "drop (position os) (content os)"]
        by (simp add: rest(2,4) add.commute)
      moreover have "length ds = w3" using ih by blast
      then have "length bs = w" using os2(3) unfolding rest(2,4) by simp
      ultimately show ?thesis using ih by (simp add: rest(2,3))
    qed
  qed
qed

text \<open>A file handle that was not cancelled since.\<close>

lemma write_some_content:
  assumes "regular_file px (af_fd f) content position" and "0 \<le> offset" and "offset < 2 ^ 63 - 1"
    and "write_some px stamp offset bufs f os = (ec, n, os1)"
  shows "n \<le> length (concat bufs) \<and> (ec \<noteq> None \<longrightarrow> n = 0) \<and>
    content os1 = overwrite (nat offset) (take n (concat bufs)) (content os)"
proof -
  obtain e os2 where ready: "aio_ready px stamp offset f os = (e, os2)" by fastforce
  then have os2: "content os2 = content os" "e = None \<longrightarrow> position os2 = nat offset"
    using assms(2,3) regular_lseek [OF assms(1,2), of os]
    by (auto simp: aio_ready_def split: if_splits prod.splits)
  show ?thesis
  proof (cases e)
    case None
    obtain w l os3 where bufs: "write_bufs px (af_fd f) bufs os2 = (w, l, os3)" by (metis prod_cases3)
    then show ?thesis
      using assms(4) write_bufs_content [OF assms(1) bufs] os2 None
      by (auto simp: write_some_def ready transfer_result_def overwrite_def split: if_splits)
  next
    case (Some x)
    then show ?thesis
      using assms(4) os2 by (auto simp: write_some_def ready overwrite_def)
  qed
qed

lemma read_some_content:
  assumes "regular_file px (af_fd f) content position" and "0 \<le> offset" and "offset < 2 ^ 63 - 1"
    and "read_some px stamp offset sizes f os = (ec, n, bs, os1)"
  shows "n \<le> sum_list sizes \<and> (ec \<noteq> None \<longrightarrow> n = 0) \<and> content os1 = content os \<and>
    bs = take n (drop (nat offset) (content os)) \<and> length bs = n"
proof -
  obtain e os2 where ready: "aio_ready px stamp offset f os = (e, os2)" by fastforce
  then have os2: "content os2 = content os" "e = None \<longrightarrow> position os2 = nat offset"
    using assms(2,3) regular_lseek [OF assms(1,2), of os]
    by (auto simp: aio_ready_def split: if_splits prod.splits)
  show ?thesis
  proof (cases e)
    case None
    obtain w l cs os3 where bufs: "read_bufs px (af_fd f) sizes os2 = (w, l, cs, os3)" by (metis prod_cases4)
    then show ?thesis
      using assms(4) read_bufs_content [OF assms(1) bufs] os2 None
      by (auto simp: read_some_def ready transfer_result_def split: if_splits)
  next
    case (Some x)
    then show ?thesis
      using assms(4) os2 by (auto simp: read_some_def ready)
  qed
qed

text \<open>C23: what has been written to a regular file is read back: a write at an offset that reports
  \<open>n\<close> bytes has put exactly the first \<open>n\<close> bytes of its buffers there, whatever short writes the
  system made of it, and a read at the same offset afterwards, of as many buffers of
  whatever size, gives a prefix of those as far as they reach.\<close>

theorem file_write_read:
  assumes "regular_file px (af_fd f) content position" and "0 \<le> offset" and "offset < 2 ^ 63 - 1"
    and "write_some px stamp1 offset bufs f os = (ec1, n, os1)"
    and "read_some px stamp2 offset sizes f os1 = (ec2, m, bs, os2)"
  shows "content os2 = overwrite (nat offset) (take n (concat bufs)) (content os) \<and>
    length bs = m \<and> n \<le> length (concat bufs) \<and> take n bs = take m (take n (concat bufs))"
proof -
  note w = write_some_content [OF assms(1-4)] and r = read_some_content [OF assms(1-3,5)]
  have "take n bs = take m (take n (drop (nat offset) (content os1)))"
    using r by (simp add: min.commute)
  also have "take n (drop (nat offset) (content os1)) = take n (concat bufs)"
    using w by (simp add: overwrite_read)
  finally have "take n bs = take m (take n (concat bufs))" .
  moreover have "length bs = m" "content os2 = content os1" using r by blast+
  ultimately show ?thesis using w by simp
qed

text \<open>A system with one open file, that moves three bytes at most at a time.\<close>

definition small_posix :: "(byte list \<times> nat) posix" where
  "small_posix = \<lparr>px_getpid = 1, px_open = (\<lambda>_ _ _ os. (5, os)), px_setlk = (\<lambda>_ _ os. (0, os)),
     px_fadvise = (\<lambda>_ os. os), px_close = (\<lambda>_ os. (0, os)),
     px_lseek = (\<lambda>_ offset _ os. (offset, fst os, nat offset)),
     px_write = (\<lambda>_ bs os. (int (min 3 (length bs)),
        overwrite (snd os) (take 3 bs) (fst os), snd os + min 3 (length bs))),
     px_read = (\<lambda>_ n os. (let bs = take (min 3 n) (drop (snd os) (fst os)) in
        (int (length bs), bs, fst os, snd os + length bs))),
     px_errno = (\<lambda>_. 0)\<rparr>"

lemma small_posix_regular: "regular_file small_posix fd fst snd"
  by (auto simp: regular_file_def small_posix_def Let_def min_def take_all_iff split: if_splits)

theorem file_write_read_witness:
  "regular_file small_posix 5 fst snd
   \<and> write_some small_posix 0 2 [[10, 11, 12], [], [20, 21, 22]] \<lparr>af_fd = 5, af_op_count = 0\<rparr>
       ([1, 2, 3, 4, 5, 6, 7, 8], 0) = (None, 6, ([1, 2, 10, 11, 12, 20, 21, 22], 8))
   \<and> read_some small_posix 0 2 [4] \<lparr>af_fd = 5, af_op_count = 0\<rparr> ([1, 2, 10, 11, 12, 20, 21, 22], 8)
       = (None, 3, [10, 11, 12], ([1, 2, 10, 11, 12, 20, 21, 22], 5))
   \<and> overwrite 2 (take 6 (concat [[10, 11, 12], [], [20, 21, 22]])) [1, 2, 3, 4, 5, 6, 7, 8] =
       [1, 2, 10, 11, 12, 20, 21, 22]"
proof -
  let ?f = "\<lparr>af_fd = 5, af_op_count = 0\<rparr>" and ?os = "([1, 2, 3, 4, 5, 6, 7, 8 :: byte], 0)"
  have w: "write_some small_posix 0 2 [[10, 11, 12], [], [20, 21, 22]] ?f ?os =
      (None, 6, ([1, 2, 10, 11, 12, 20, 21, 22], 8))"
    by (simp add: write_some_def aio_ready_def small_posix_def wrappable_greater_def wrappable_less_def
        as_int_def transfer_result_def overwrite_def)
  have r: "read_some small_posix 0 2 [4] ?f ([1, 2, 10, 11, 12, 20, 21, 22], 8) =
      (None, 3, [10, 11, 12], ([1, 2, 10, 11, 12, 20, 21, 22], 5))"
    by (simp add: read_some_def aio_ready_def small_posix_def wrappable_greater_def wrappable_less_def
        as_int_def transfer_result_def Let_def)
  show ?thesis
    using file_write_read [OF small_posix_regular _ _ w r] small_posix_regular w r by simp
qed

theorem cancelled_writes_abort_witness:
  "\<exists>w2. aio_event small_posix Work
      \<lparr>aw_file = \<lparr>af_fd = 5, af_op_count = 3\<rparr>, aw_os = ([1], 0),
        aw_queue = [Op_write 9 1 0 [[7]]], aw_done = []\<rparr> = Some w2 \<and>
    aw_os w2 = ([1], 0) \<and> aw_file w2 = \<lparr>af_fd = 5, af_op_count = 3\<rparr> \<and>
    aw_done w2 = [\<lparr>ad_id = 9, ad_ec = Some Operation_aborted, ad_bytes = 0, ad_data = []\<rparr>]"
proof -
  let ?w0 = "\<lparr>aw_file = \<lparr>af_fd = 5, af_op_count = 1\<rparr>, aw_os = ([1 :: byte], 0 :: nat),
    aw_queue = [], aw_done = []\<rparr>"
  let ?w1 = "\<lparr>aw_file = \<lparr>af_fd = 5, af_op_count = 3\<rparr>, aw_os = ([1 :: byte], 0 :: nat),
    aw_queue = [Op_write 9 1 0 [[7 :: byte]]], aw_done = []\<rparr>"
  have 1: "aio_event small_posix (Async_write 9 (Some 0) [[7]]) ?w0 =
      Some (?w0\<lparr>aw_queue := [Op_write 9 1 0 [[7]]]\<rparr>)"
    by (simp add: aio_event_def kept_offset_def)
  have 2: "aio_run small_posix [Close, Open ''a'' 0 None] (?w0\<lparr>aw_queue := [Op_write 9 1 0 [[7]]]\<rparr>) = Some ?w1"
    by (simp add: aio_event_def af_close_def af_open_def open_file_def open_flags_def mode_array_def
        rw_mask_def no_atime_def lock_file_def random_access_def small_posix_def af_is_open_def af_assign_def
        ec_set_def Let_def)
  show ?thesis
    using cancelled_writes_abort [OF disjI1 [OF refl] 1 2] by (simp add: works_def)
qed

section \<open>Errors\<close>

text \<open>Reading at the end of a file is no error for the system, which leaves \<open>errno\<close> as it was: the
  handler is given that, whatever it is, and when it is 0 a success with no bytes.\<close>

lemma read_at_end:
  assumes "regular_file px (af_fd f) content position" and "af_fd f \<noteq> -1"
    and "px_lseek px (af_fd f) offset 0 os = (offset, os1)" and "0 \<le> offset" and "offset < 2 ^ 63 - 1"
    and "px_read px (af_fd f) n os1 = (0, [], os2)" and "0 < n"
  shows "read_some px (af_op_count f) offset [n] f os =
    (Some (System_code (px_errno px os2)), 0, [], os2)"
  using assms
  by (simp add: read_some_def aio_ready_def wrappable_greater_def transfer_result_def as_int_def)

text \<open>Every lock asked for on Linux is a lock for reading, at the process id as its offset.\<close>

lemma lock_is_for_reading:
  "l_type (lock_request pid mode) = 0 \<and> l_start (lock_request pid mode) = pid"
  by (simp add: lock_request_def)

text \<open>A mode of \<open>write_only | read_write\<close> is read behind the end of the table.\<close>

lemma open_mode_three: "mode AND rw_mask = 3 \<Longrightarrow> open_file px path mode ec os = None"
  by (simp add: open_file_def open_flags_def mode_array_def)

text \<open>With an error left in the caller's code the file is opened and forgotten, and so it is when it
  cannot be locked: the handle stays closed, no \<open>close\<close> is ever asked for.\<close>

lemma open_with_old_error:
  assumes "open_flags mode = Some flags" and "mode AND lock_file = 0" and "mode AND random_access = 0"
    and "\<not> af_is_open f" and "px_open px path flags (open_permissions mode) os = (fd, os1)"
    and "fd \<noteq> -1" and "ec_set err"
  shows "af_open px path mode err f os = Some (err, f, os1)"
  using assms by (simp add: af_open_def open_file_def)

lemma open_not_locked:
  assumes "open_flags mode = Some flags" and "mode AND lock_file \<noteq> 0" and "\<not> af_is_open f"
    and "px_open px path flags (open_permissions mode) os = (fd, os1)" and "fd \<noteq> -1"
    and "px_setlk px fd (lock_request (px_getpid px) mode) os1 = (-1, os2)" and "px_errno px os2 \<noteq> 0"
  shows "af_open px path mode err f os = Some (Some (System_code (px_errno px os2)), f, os2)"
  using assms by (simp add: af_open_def open_file_def ec_set_def)

text \<open>A write at the offset \<open>2 ^ 63 - 1\<close> goes to wherever the file is at.\<close>

lemma greatest_offset_is_none: "kept_offset (Some (2 ^ 63 - 1)) = kept_offset None"
  by (simp add: kept_offset_def)

end
