(* ===== verification/Udp_Pool.thy ===== *)
theory Udp_Pool
  imports Udp_Requests Tcp_Layer_Inv
begin

text \<open>Making, finding and destroying the shared UDP layers of a process, and reading their sockets:
  the rest of src/rdp/basic_shared_udp_layer.cpp.

  Layers are known by their addresses, natural numbers: \<open>un_slots\<close> are all that were ever made, one
  that has been destroyed is \<open>None\<close>. The pool is the static map of the source, in the order of
  its endpoints. What the operating system answers is an argument. \<open>None\<close> as a result is the
  use of a layer that is not there, or a header read behind a datagram.\<close>

section \<open>State\<close>

definition mtu_size :: nat where "mtu_size = 1450 + 128"

datatype udp_error = U_success | U_layer layer_error | U_io nat

text \<open>A layer, with what \<open>Udp_Layer\<close> leaves out: the endpoint it is in the pool under, the length of
  \<open>recv_buffer_\<close> (0 when there is none), the count of datagrams read without waiting, whether
  \<open>async_receive\<close> has been posted, and whether a receive is under way.\<close>

record udp_slot =
  us_layer :: udp_layer
  us_local_endpoint :: edp
  us_buffer :: nat
  us_continuous :: nat
  us_posted :: bool
  us_pending :: bool

record udp_net =
  un_pool :: "(edp \<times> nat) list"
  un_slots :: "udp_slot option list"
  un_rng :: rng

record flow_token =
  ft_shared_layer :: nat
  ft_flow_id :: u32

record udp_acceptor_token =
  ut_shared_layer :: nat
  ut_domain :: bytes
  ut_acceptor :: nat

definition un_slot :: "nat \<Rightarrow> udp_net \<Rightarrow> udp_slot option" where
  "un_slot i w = (if i < length (un_slots w) then un_slots w ! i else None)"

definition un_change :: "nat \<Rightarrow> (udp_slot \<Rightarrow> udp_slot) \<Rightarrow> udp_net \<Rightarrow> udp_net" where
  "un_change i g w = w\<lparr>un_slots := (un_slots w)[i := map_option g (un_slot i w)]\<rparr>"

definition un_is_open :: "nat \<Rightarrow> udp_net \<Rightarrow> bool" where
  "un_is_open i w = (case un_slot i w of Some u \<Rightarrow> ul_open (us_layer u) | None \<Rightarrow> False)"

section \<open>A layer\<close>

text \<open>The constructor. The answers: of opening the socket, of closing it when that failed, of binding,
  and of asking for the local endpoint. The errors of setting options are cleared and left
  out. The clock and the packet memory are those of the layer that is made.\<close>

record udp_answer =
  uo_open :: udp_error
  uo_close :: udp_error
  uo_bind :: udp_error
  uo_local :: udp_error
  uo_edp :: edp

definition un_add :: "udp_slot \<Rightarrow> udp_net \<Rightarrow> nat \<times> udp_net" where
  "un_add u w = (length (un_slots w), w\<lparr>un_slots := un_slots w @ [Some u]\<rparr>)"

definition un_pool_insert :: "edp \<Rightarrow> nat \<Rightarrow> udp_net \<Rightarrow> udp_net" where
  "un_pool_insert e i w = w\<lparr>un_pool := oset_insert (\<lambda>a b. edp_less (fst a) (fst b)) (e, i) (un_pool w)\<rparr>"

definition closed_slot :: "udp_layer \<Rightarrow> nat \<Rightarrow> udp_slot" where
  "closed_slot l n = \<lparr>us_layer = l\<lparr>ul_open := False\<rparr>, us_local_endpoint = (0, 0), us_buffer = n,
     us_continuous = 0, us_posted = False, us_pending = False\<rparr>"

definition udp_construct :: "udp_answer \<Rightarrow> udp_layer \<Rightarrow> udp_net \<Rightarrow> udp_error \<times> nat \<times> udp_net" where
  "udp_construct ans l w =
     (if uo_open ans \<noteq> U_success
      then case un_add (closed_slot l 0) w of (i, w1) \<Rightarrow> (uo_close ans, i, w1)
      else if uo_bind ans \<noteq> U_success
      then case un_add (closed_slot l mtu_size) w of (i, w1) \<Rightarrow> (uo_bind ans, i, w1)
      else if uo_local ans \<noteq> U_success
      then case un_add (closed_slot l 0) w of (i, w1) \<Rightarrow> (uo_local ans, i, w1)
      else
        (case un_add ((closed_slot l mtu_size)\<lparr>us_layer := l, us_local_endpoint := uo_edp ans\<rparr>) w of
           (i, w1) \<Rightarrow> (U_success, i, un_pool_insert (uo_edp ans) i w1)))"

definition udp_destroy :: "nat \<Rightarrow> udp_net \<Rightarrow> udp_net" where
  "udp_destroy i w =
     (case un_slot i w of
        None \<Rightarrow> w
      | Some u \<Rightarrow>
          w\<lparr>un_pool := filter (\<lambda>e. fst e \<noteq> us_local_endpoint u) (un_pool w),
            un_slots := (un_slots w)[i := None]\<rparr>)"

definition udp_start :: "udp_slot \<Rightarrow> udp_slot" where
  "udp_start u =
     (if ul_state (us_layer u) \<noteq> L_INIT then u
      else u\<lparr>us_layer := layer_start (us_layer u), us_posted := True\<rparr>)"

section \<open>The pool\<close>

definition udp_is_shared_endpoint :: "edp \<Rightarrow> udp_net \<Rightarrow> bool" where
  "udp_is_shared_endpoint e w = (e \<in> fst ` set (un_pool w))"

fun udp_search :: "edp \<Rightarrow> udp_net \<Rightarrow> (edp \<times> nat) list \<Rightarrow> nat option option" where
  "udp_search e w [] = Some None"
| "udp_search e w ((_, i) # rest) =
     (case un_slot i w of
        None \<Rightarrow> None
      | Some u \<Rightarrow>
          if ((snd e = 0 \<and> fst e = fst (us_local_endpoint u)) \<or> (fst e = 0 \<and> snd e = snd (us_local_endpoint u)))
             \<and> ul_open (us_layer u)
          then Some (Some i) else udp_search e w rest)"

text \<open>The attempts to make a layer; the next one takes the place of \<open>net_obj\<close>, which is destroyed.
  \<open>os\<close> answers for each endpoint that is tried.\<close>

fun udp_attempts :: "(nat \<Rightarrow> edp \<Rightarrow> udp_answer) \<Rightarrow> udp_layer \<Rightarrow> edp \<Rightarrow> nat \<Rightarrow> udp_error \<Rightarrow> nat option \<Rightarrow>
    udp_net \<Rightarrow> udp_error \<times> nat option \<times> udp_net" where
  "udp_attempts os l e 0 ec net_obj w = (ec, net_obj, w)"
| "udp_attempts os l e (Suc n) ec net_obj w =
     (let (p, g) = (if snd e = 0 then range_random 1024 10000 (un_rng w) else (uint (snd e), un_rng w));
          (ec1, i, w1) = udp_construct (os n (fst e, word_of_int p)) l (w\<lparr>un_rng := g\<rparr>);
          w2 = (case net_obj of None \<Rightarrow> w1 | Some j \<Rightarrow> udp_destroy j w1)
      in if ec1 = U_success \<and> un_is_open i w2
         then (ec1, Some i, un_change i udp_start w2)
         else udp_attempts os l e n ec1 (Some i) w2)"

declare udp_attempts.simps [simp del]

definition udp_create :: "(nat \<Rightarrow> edp \<Rightarrow> udp_answer) \<Rightarrow> udp_layer \<Rightarrow> edp \<Rightarrow> udp_error \<Rightarrow> udp_net \<Rightarrow>
    (udp_error \<times> nat option \<times> udp_net) option" where
  "udp_create os l e ec w =
     (if snd e = 0 \<or> fst e = 0
      then case udp_search e w (un_pool w) of
             None \<Rightarrow> None
           | Some (Some i) \<Rightarrow> Some (ec, Some i, w)
           | Some None \<Rightarrow> Some (udp_attempts os l e (if snd e = 0 then 16 else 1) ec None w)
      else case map_of (un_pool w) e of
             Some i \<Rightarrow>
               (case un_slot i w of
                  None \<Rightarrow> None
                | Some u \<Rightarrow> if ul_open (us_layer u) then Some (ec, Some i, w)
                            else Some (udp_attempts os l e 1 ec None w))
           | None \<Rightarrow> Some (udp_attempts os l e 1 ec None w))"

text \<open>Tokens. The error of making the layer is looked at for an acceptor and not for a flow.\<close>

definition layer_ec :: "layer_error \<Rightarrow> udp_error" where
  "layer_ec x = (if x = L_success then U_success else U_layer x)"

definition udp_flow_token_on :: "nat \<Rightarrow> nat \<Rightarrow> udp_net \<Rightarrow> (udp_error \<times> flow_token \<times> udp_net) option" where
  "udp_flow_token_on i p w =
     (case un_slot i w of
        None \<Rightarrow> None
      | Some u \<Rightarrow>
          (case register_flow p (us_layer u) of
             None \<Rightarrow> None
           | Some (fid, x, l) \<Rightarrow>
               Some (layer_ec x, \<lparr>ft_shared_layer = i, ft_flow_id = fid\<rparr>,
                 un_change i (\<lambda>u. u\<lparr>us_layer := l\<rparr>) w)))"

definition udp_create_flow_token :: "(nat \<Rightarrow> edp \<Rightarrow> udp_answer) \<Rightarrow> udp_layer \<Rightarrow> edp \<Rightarrow> nat \<Rightarrow> udp_error \<Rightarrow>
    udp_net \<Rightarrow> (udp_error \<times> flow_token \<times> udp_net) option" where
  "udp_create_flow_token os l e p ec w =
     (case udp_create os l e ec w of
        Some (_, Some i, w1) \<Rightarrow> udp_flow_token_on i p w1
      | _ \<Rightarrow> None)"

definition udp_create_acceptor_token :: "(nat \<Rightarrow> edp \<Rightarrow> udp_answer) \<Rightarrow> udp_layer \<Rightarrow> edp \<Rightarrow> nat \<Rightarrow> bytes \<Rightarrow>
    udp_error \<Rightarrow> udp_net \<Rightarrow> (udp_error \<times> udp_acceptor_token \<times> udp_net) option" where
  "udp_create_acceptor_token os l e acc name ec w =
     (case udp_create os l e ec w of
        Some (ec1, Some i, w1) \<Rightarrow>
          (let t = \<lparr>ut_shared_layer = i, ut_domain = name, ut_acceptor = acc\<rparr> in
           if ec1 \<noteq> U_success then Some (ec1, t, w1)
           else
             (case un_slot i w1 of
                None \<Rightarrow> None
              | Some u \<Rightarrow>
                  (case register_acceptor acc name (us_layer u) of (x, l1) \<Rightarrow>
                     Some (layer_ec x, t, un_change i (\<lambda>u. u\<lparr>us_layer := l1\<rparr>) w1))))
      | _ \<Rightarrow> None)"

text \<open>The destructors of the tokens.\<close>

definition flow_token_gone :: "flow_token \<Rightarrow> udp_net \<Rightarrow> udp_net option" where
  "flow_token_gone t w =
     (case un_slot (ft_shared_layer t) w of
        None \<Rightarrow> None
      | Some u \<Rightarrow> map_option (\<lambda>l. un_change (ft_shared_layer t) (\<lambda>u. u\<lparr>us_layer := l\<rparr>) w)
          (unregister_flow (ft_flow_id t) (us_layer u)))"

definition udp_acceptor_token_gone :: "udp_acceptor_token \<Rightarrow> udp_net \<Rightarrow> udp_net" where
  "udp_acceptor_token_gone t w =
     un_change (ut_shared_layer t)
       (\<lambda>u. u\<lparr>us_layer := unregister_acceptor (ut_acceptor t) (us_layer u)\<rparr>) w"

section \<open>Reading the socket\<close>

text \<open>What the socket answers, in the order it is asked: how much is there to read, with an error;
  and the datagrams, with their senders.\<close>

datatype recv_error = R_success | R_message_size | R_other

record udp_script =
  sc_available :: "(nat \<times> bool) list"
  sc_datagrams :: "(recv_error \<times> bytes \<times> edp) list"

definition next_available :: "udp_script \<Rightarrow> (nat \<times> bool) \<times> udp_script" where
  "next_available s =
     (case sc_available s of [] \<Rightarrow> ((0, False), s) | a # as \<Rightarrow> (a, s\<lparr>sc_available := as\<rparr>))"

definition next_datagram :: "udp_script \<Rightarrow> (recv_error \<times> bytes \<times> edp) \<times> udp_script" where
  "next_datagram s =
     (case sc_datagrams s of [] \<Rightarrow> ((R_other, [], (0, 0)), s) | d # ds \<Rightarrow> (d, s\<lparr>sc_datagrams := ds\<rparr>))"

type_synonym on_request_t = "nat \<Rightarrow> edp \<Rightarrow> udp_layer \<Rightarrow> (u32 \<times> udp_layer) option"

definition count_in :: "nat \<Rightarrow> udp_layer \<Rightarrow> udp_layer" where
  "count_in n l = l\<lparr>ul_in_meter := sm_add (ul_clock l) n (ul_in_meter l)\<rparr>"

text \<open>A datagram that was too long, which the system has thrown away: the next one is read without
  asking who sent it, and handled if it is not too long either.\<close>

definition drop_long :: "on_request_t \<Rightarrow> udp_script \<Rightarrow> udp_slot \<Rightarrow> (routed list \<times> udp_slot \<times> udp_script) option" where
  "drop_long on_request s u =
     (case next_available s of ((n, err), s1) \<Rightarrow>
        if n = 0 then Some ([], u, s1)
        else
          (case next_datagram s1 of ((ec, bs, _), s2) \<Rightarrow>
             let got = (if ec = R_success then take n bs else []);
                 l = count_in (length got) (us_layer u) in
             if \<not> err \<and> n > 65536 then Some ([], u\<lparr>us_layer := l\<rparr>, s2)
             else if n < 2 * mtu_size then
               (if ec = R_success
                then map_option (\<lambda>(r, l1). ([r], u\<lparr>us_layer := l1, us_buffer := mtu_size\<rparr>, s2))
                       (do_handle_received on_request got l)
                else Some ([], u\<lparr>us_layer := l, us_buffer := mtu_size\<rparr>, s2))
             else Some ([], u\<lparr>us_layer := l\<rparr>, s2)))"

text \<open>The body of \<open>handle_receive\<close> before it calls \<open>async_receive\<close>.\<close>

definition received_one :: "on_request_t \<Rightarrow> recv_error \<Rightarrow> bytes \<Rightarrow> edp \<Rightarrow> udp_script \<Rightarrow> udp_slot \<Rightarrow>
    (routed list \<times> udp_slot \<times> udp_script) option" where
  "received_one on_request ec bs sender s u =
     (case ec of
        R_success \<Rightarrow>
          map_option (\<lambda>(r, l). ([r], u\<lparr>us_layer := l, us_buffer := mtu_size\<rparr>, s))
            (handle_receive on_request (take (us_buffer u) bs) sender (us_layer u))
      | R_message_size \<Rightarrow> drop_long on_request s u
      | R_other \<Rightarrow> Some ([], u, s))"

text \<open>\<open>async_receive\<close>: while there is something to read it is read at once, but not twice in a row;
  \<open>cnt\<close> is \<open>continuous_recv_cnt_\<close>.\<close>

function udp_async_receive :: "on_request_t \<Rightarrow> nat \<Rightarrow> udp_script \<Rightarrow> udp_slot \<Rightarrow>
    (routed list \<times> udp_slot \<times> udp_script) option" where
  "udp_async_receive on_request cnt s u =
     (if ul_state (us_layer u) \<noteq> L_STARTED then Some ([], u\<lparr>us_continuous := cnt\<rparr>, s)
      else
        (case next_available s of ((n, err), s1) \<Rightarrow>
           let u1 = u\<lparr>us_layer := (us_layer u)\<lparr>ul_recv_handler := True\<rparr>\<rparr> in
           if n > 0 \<and> \<not> err \<and> cnt + 1 < 2
           then
             (case next_datagram s1 of ((ec, bs, sender), s2) \<Rightarrow>
                (case received_one on_request ec bs sender s2 u1 of
                   None \<Rightarrow> None
                 | Some (rs, u2, s3) \<Rightarrow>
                     map_option (\<lambda>(rs1, r). (rs @ rs1, r)) (udp_async_receive on_request (cnt + 1) s3 u2)))
           else Some ([], u1\<lparr>us_continuous := 0, us_pending := True\<rparr>, s1)))"
  by auto
termination by (relation "measure (\<lambda>(_, cnt, _). 2 - cnt)") auto

declare udp_async_receive.simps [simp del]

text \<open>The handler of a receive that is over, and of what \<open>start\<close> has posted.\<close>

definition udp_handle_receive :: "on_request_t \<Rightarrow> recv_error \<Rightarrow> bytes \<Rightarrow> edp \<Rightarrow> udp_script \<Rightarrow> udp_slot \<Rightarrow>
    (routed list \<times> udp_slot \<times> udp_script) option" where
  "udp_handle_receive on_request ec bs sender s u =
     (let u0 = u\<lparr>us_pending := False\<rparr> in
      if ul_state (us_layer u0) \<noteq> L_STARTED then Some ([], u0, s)
      else
        (case received_one on_request ec bs sender s u0 of
           None \<Rightarrow> None
         | Some (rs, u1, s1) \<Rightarrow>
             map_option (\<lambda>(rs1, r). (rs @ rs1, r)) (udp_async_receive on_request (us_continuous u1) s1 u1)))"

definition udp_posted :: "on_request_t \<Rightarrow> udp_script \<Rightarrow> udp_slot \<Rightarrow>
    (routed list \<times> udp_slot \<times> udp_script) option" where
  "udp_posted on_request s u =
     udp_async_receive on_request (us_continuous u) s (u\<lparr>us_posted := False\<rparr>)"

section \<open>The pool in any order of operations\<close>

lemma slot_change [simp]:
  "un_slot j (un_change i g w) = (if j = i then map_option g (un_slot i w) else un_slot j w)"
  "un_pool (un_change i g w) = un_pool w"
  by (auto simp: un_slot_def un_change_def)

lemma slot_update [simp]: "un_slot i (w\<lparr>un_rng := g\<rparr>) = un_slot i w" "un_slot i (w\<lparr>un_pool := p\<rparr>) = un_slot i w"
  by (simp_all add: un_slot_def)

lemma slot_add [simp]:
  "un_slot i (snd (un_add u w)) = (if i = length (un_slots w) then Some u else un_slot i w)"
  "un_pool (snd (un_add u w)) = un_pool w" "fst (un_add u w) = length (un_slots w)"
  by (auto simp: un_add_def un_slot_def nth_append)

text \<open>Every endpoint of the pool has one entry, which is a layer that lives, has that endpoint and an
  open socket; every open socket is in the pool; and only a socket that is open has a port.\<close>

definition un_ok :: "udp_net \<Rightarrow> bool" where
  "un_ok w \<longleftrightarrow>
     sorted_wrt (\<lambda>a b. edp_less (fst a) (fst b)) (un_pool w)
   \<and> (\<forall>e i. (e, i) \<in> set (un_pool w) \<longrightarrow>
        (\<exists>u. un_slot i w = Some u \<and> us_local_endpoint u = e \<and> ul_open (us_layer u)))
   \<and> (\<forall>i u. un_slot i w = Some u \<longrightarrow> ul_open (us_layer u) \<longrightarrow> (us_local_endpoint u, i) \<in> set (un_pool w))
   \<and> (\<forall>i u. un_slot i w = Some u \<longrightarrow> ul_open (us_layer u) = (snd (us_local_endpoint u) \<noteq> 0))"

text \<open>The system binds a socket to a port, and to no endpoint that an open one has.\<close>

definition edp_free :: "edp \<Rightarrow> udp_net \<Rightarrow> bool" where
  "edp_free e w \<longleftrightarrow> (\<forall>i u. un_slot i w = Some u \<longrightarrow> ul_open (us_layer u) \<longrightarrow> us_local_endpoint u \<noteq> e)"

definition os_sound :: "udp_net \<Rightarrow> (nat \<Rightarrow> edp \<Rightarrow> udp_answer) \<Rightarrow> bool" where
  "os_sound w os \<longleftrightarrow> (\<forall>n e. uo_bind (os n e) = U_success \<longrightarrow> edp_free (uo_edp (os n e)) w \<and> snd (uo_edp (os n e)) \<noteq> 0)"

lemma un_okI:
  assumes "sorted_wrt (\<lambda>a b. edp_less (fst a) (fst b)) (un_pool w)"
    and "\<And>e i. (e, i) \<in> set (un_pool w) \<Longrightarrow>
      \<exists>u. un_slot i w = Some u \<and> us_local_endpoint u = e \<and> ul_open (us_layer u)"
    and "\<And>i u. un_slot i w = Some u \<Longrightarrow> ul_open (us_layer u) \<Longrightarrow> (us_local_endpoint u, i) \<in> set (un_pool w)"
    and "\<And>i u. un_slot i w = Some u \<Longrightarrow> ul_open (us_layer u) = (snd (us_local_endpoint u) \<noteq> 0)"
  shows "un_ok w"
  using assms unfolding un_ok_def by blast

lemma un_okD:
  assumes "un_ok w"
  shows "sorted_wrt (\<lambda>a b. edp_less (fst a) (fst b)) (un_pool w)"
    and "(e, i) \<in> set (un_pool w) \<Longrightarrow>
      \<exists>u. un_slot i w = Some u \<and> us_local_endpoint u = e \<and> ul_open (us_layer u)"
    and "un_slot i w = Some u \<Longrightarrow> ul_open (us_layer u) \<Longrightarrow> (us_local_endpoint u, i) \<in> set (un_pool w)"
    and "un_slot i w = Some u \<Longrightarrow> ul_open (us_layer u) = (snd (us_local_endpoint u) \<noteq> 0)"
  using assms unfolding un_ok_def by blast+

text \<open>A layer that is replaced by one with the same endpoint, as open as it.\<close>

lemma un_ok_change:
  assumes "un_ok w"
    and "\<And>u. un_slot i w = Some u \<Longrightarrow> us_local_endpoint (g u) = us_local_endpoint u"
    and "\<And>u. un_slot i w = Some u \<Longrightarrow> ul_open (us_layer (g u)) = ul_open (us_layer u)"
  shows "un_ok (un_change i g w)"
proof (rule un_okI)
  show "sorted_wrt (\<lambda>a b. edp_less (fst a) (fst b)) (un_pool (un_change i g w))"
    using un_okD(1) [OF assms(1)] by simp
next
  fix e j
  assume "(e, j) \<in> set (un_pool (un_change i g w))"
  then obtain u where "un_slot j w = Some u" "us_local_endpoint u = e" "ul_open (us_layer u)"
    using un_okD(2) [OF assms(1), of e j] by auto
  then show "\<exists>u. un_slot j (un_change i g w) = Some u \<and> us_local_endpoint u = e \<and> ul_open (us_layer u)"
    using assms(2,3) by (cases "j = i") auto
next
  fix j u
  assume "un_slot j (un_change i g w) = Some u" "ul_open (us_layer u)"
  then show "(us_local_endpoint u, j) \<in> set (un_pool (un_change i g w))"
    using assms un_okD(3) [OF assms(1)] by (auto split: if_splits)
next
  fix j u
  assume "un_slot j (un_change i g w) = Some u"
  then show "ul_open (us_layer u) = (snd (us_local_endpoint u) \<noteq> 0)"
    using assms(2,3) un_okD(4) [OF assms(1)] by (auto split: if_splits)
qed

lemma un_ok_same:
  assumes "un_ok w" and "un_pool w' = un_pool w" and "\<And>i. un_slot i w' = un_slot i w"
  shows "un_ok w'"
  using assms by (simp add: un_ok_def)

lemma slot_new: "un_slot (length (un_slots w)) w = None"
  by (simp add: un_slot_def)

lemma un_ok_add_closed:
  assumes "un_ok w" and "\<not> ul_open (us_layer u)" and "snd (us_local_endpoint u) = 0"
  shows "un_ok (snd (un_add u w))"
proof (rule un_okI)
  fix e i
  assume "(e, i) \<in> set (un_pool (snd (un_add u w)))"
  then obtain v where v: "un_slot i w = Some v" "us_local_endpoint v = e" "ul_open (us_layer v)"
    using un_okD(2) [OF assms(1), of e i] by auto
  then have "i \<noteq> length (un_slots w)" using slot_new by auto
  then show "\<exists>v. un_slot i (snd (un_add u w)) = Some v \<and> us_local_endpoint v = e \<and> ul_open (us_layer v)"
    using v by simp
qed (use un_okD(1,3,4) [OF assms(1)] assms(2,3) in \<open>auto split: if_splits\<close>)

lemma edp_same: "\<not> edp_less a b \<Longrightarrow> \<not> edp_less b a \<Longrightarrow> a = b"
  by (auto simp: edp_less_def prod_eq_iff)

lemma pool_insert_new:
  assumes "un_ok w" and "\<forall>j. (e, j) \<notin> set (un_pool w)"
  shows "set (un_pool (un_pool_insert e i w)) = insert (e, i) (set (un_pool w))"
    and "sorted_wrt (\<lambda>a b. edp_less (fst a) (fst b)) (un_pool (un_pool_insert e i w))"
proof -
  let ?lt = "\<lambda>a b :: edp \<times> nat. edp_less (fst a) (fst b)"
  have "\<not> oset_mem ?lt (e, i) (un_pool w)"
    using assms(2) edp_same [of e] by (fastforce simp: oset_mem_def)
  then show "set (un_pool (un_pool_insert e i w)) = insert (e, i) (set (un_pool w))"
    using pool_order.oset_insert_member [OF un_okD(1) [OF assms(1)], of "(e, i)"]
    by (simp add: un_pool_insert_def)
  show "sorted_wrt ?lt (un_pool (un_pool_insert e i w))"
    using pool_order.oset_insert_sorted [OF un_okD(1) [OF assms(1)], of "(e, i)"]
    by (simp add: un_pool_insert_def)
qed

lemma un_ok_add_open:
  assumes "un_ok w" and "edp_free e w" and "us_local_endpoint u = e" and "ul_open (us_layer u)" and "snd e \<noteq> 0"
  shows "un_ok (un_pool_insert e (length (un_slots w)) (snd (un_add u w)))"
proof -
  let ?n = "length (un_slots w)" and ?w1 = "snd (un_add u w)"
  let ?w2 = "un_pool_insert e ?n ?w1"
  have "\<forall>j. (e, j) \<notin> set (un_pool w)"
    using un_okD(2) [OF assms(1)] assms(2) unfolding edp_free_def by blast
  moreover have "un_pool ?w2 = un_pool (un_pool_insert e ?n w)" by (simp add: un_pool_insert_def)
  ultimately have pool: "set (un_pool ?w2) = insert (e, ?n) (set (un_pool w))"
      "sorted_wrt (\<lambda>a b. edp_less (fst a) (fst b)) (un_pool ?w2)"
    using pool_insert_new [OF assms(1), of e ?n] by simp_all
  have slot: "un_slot j ?w2 = (if j = ?n then Some u else un_slot j w)" for j
    by (simp add: un_pool_insert_def)
  show ?thesis
  proof (rule un_okI)
    fix d j
    assume "(d, j) \<in> set (un_pool ?w2)"
    then consider "d = e" "j = ?n" | "(d, j) \<in> set (un_pool w)" using pool(1) by blast
    then show "\<exists>v. un_slot j ?w2 = Some v \<and> us_local_endpoint v = d \<and> ul_open (us_layer v)"
      using slot assms(3,4) un_okD(2) [OF assms(1), of d j] slot_new [of w]
      by cases auto
  next
    fix j v
    assume "un_slot j ?w2 = Some v" "ul_open (us_layer v)"
    then show "(us_local_endpoint v, j) \<in> set (un_pool ?w2)"
      using slot pool(1) assms(3) un_okD(3) [OF assms(1), of j v] by (auto split: if_splits)
  next
    fix j v
    assume "un_slot j ?w2 = Some v"
    then show "ul_open (us_layer v) = (snd (us_local_endpoint v) \<noteq> 0)"
      using slot assms(3-5) un_okD(4) [OF assms(1), of j v] by (auto split: if_splits)
  qed (rule pool(2))
qed

lemma udp_construct_ok:
  assumes "un_ok w" and "uo_bind ans = U_success \<longrightarrow> edp_free (uo_edp ans) w \<and> snd (uo_edp ans) \<noteq> 0" and "ul_open l"
    and "udp_construct ans l w = (ec, i, w1)"
  shows "un_ok w1 \<and> i = length (un_slots w)"
proof -
  have "un_ok (snd (un_add (closed_slot l n) w))" for n
    by (rule un_ok_add_closed [OF assms(1)]) (simp_all add: closed_slot_def)
  then show ?thesis
    using assms un_ok_add_open [OF assms(1), of "uo_edp ans"
        "(closed_slot l mtu_size)\<lparr>us_layer := l, us_local_endpoint := uo_edp ans\<rparr>"]
    by (auto simp: udp_construct_def un_add_def Let_def split: if_splits)
qed

lemma ok_once: "un_ok w \<Longrightarrow> (e, i) \<in> set (un_pool w) \<Longrightarrow> (e, j) \<in> set (un_pool w) \<Longrightarrow> i = j"
proof -
  have "sorted_wrt (\<lambda>a b. edp_less (fst a) (fst b)) pool \<Longrightarrow> distinct (map fst pool)" for pool :: "(edp \<times> nat) list"
    by (induction pool) (auto simp: edp_less_def)
  then show "un_ok w \<Longrightarrow> (e, i) \<in> set (un_pool w) \<Longrightarrow> (e, j) \<in> set (un_pool w) \<Longrightarrow> i = j"
    using un_okD(1) eq_key_imp_eq_value by metis
qed

lemma udp_destroy_ok:
  assumes "un_ok w"
  shows "un_ok (udp_destroy i w)"
proof (cases "un_slot i w")
  case None
  then show ?thesis using assms by (simp add: udp_destroy_def)
next
  case (Some u)
  let ?w1 = "udp_destroy i w"
  have slot: "un_slot j ?w1 = (if j = i then None else un_slot j w)" for j
    using Some by (auto simp: udp_destroy_def un_slot_def)
  have pool: "un_pool ?w1 = filter (\<lambda>e. fst e \<noteq> us_local_endpoint u) (un_pool w)"
    using Some by (simp add: udp_destroy_def)
  have one: "j = i" if "(us_local_endpoint u, j) \<in> set (un_pool w)" "ul_open (us_layer u)" for j
    using un_okD(3) [OF assms Some that(2)] that(1) ok_once [OF assms] by blast
  show ?thesis
  proof (rule un_okI)
    show "sorted_wrt (\<lambda>a b. edp_less (fst a) (fst b)) (un_pool ?w1)"
      using un_okD(1) [OF assms] by (simp add: pool sorted_wrt_filter)
  next
    fix d j
    assume "(d, j) \<in> set (un_pool ?w1)"
    then show "\<exists>v. un_slot j ?w1 = Some v \<and> us_local_endpoint v = d \<and> ul_open (us_layer v)"
      using un_okD(2) [OF assms, of d j] slot Some by (auto simp: pool)
  next
    fix j v
    assume v: "un_slot j ?w1 = Some v" "ul_open (us_layer v)"
    then have j: "j \<noteq> i" "un_slot j w = Some v" using slot [of j] by (auto split: if_splits)
    have "us_local_endpoint v \<noteq> us_local_endpoint u"
      using un_okD(3) [OF assms j(2) v(2)] un_okD(4) [OF assms j(2)] un_okD(4) [OF assms Some] one v(2) j(1)
      by metis
    then show "(us_local_endpoint v, j) \<in> set (un_pool ?w1)"
      using un_okD(3) [OF assms j(2) v(2)] by (simp add: pool)
  next
    fix j v
    assume "un_slot j ?w1 = Some v"
    then show "ul_open (us_layer v) = (snd (us_local_endpoint v) \<noteq> 0)"
      using slot [of j] un_okD(4) [OF assms, of j v] by (auto split: if_splits)
  qed
qed

text \<open>What is open stays free of the endpoints that are not, when layers only go or come closed.\<close>

lemma edp_free_less:
  assumes "edp_free e w" and "\<And>i u. un_slot i w' = Some u \<Longrightarrow> ul_open (us_layer u) \<Longrightarrow> un_slot i w = Some u"
  shows "edp_free e w'"
  using assms unfolding edp_free_def by blast

lemma os_sound_less:
  assumes "os_sound w os" and "\<And>i u. un_slot i w' = Some u \<Longrightarrow> ul_open (us_layer u) \<Longrightarrow> un_slot i w = Some u"
  shows "os_sound w' os"
  using assms(1) edp_free_less [OF _ assms(2)] unfolding os_sound_def by blast

lemma udp_destroy_slot: "un_slot j (udp_destroy i w) = (if j = i then None else un_slot j w)"
  by (auto simp: udp_destroy_def un_slot_def split: option.splits)

lemma udp_construct_closed:
  assumes "udp_construct ans l w = (ec, i, w1)" and "ec \<noteq> U_success" and "un_slot i w1 = Some u"
  shows "\<not> ul_open (us_layer u)"
  using assms
  by (auto simp: udp_construct_def un_add_def closed_slot_def un_slot_def split: if_splits)

lemma udp_construct_other:
  assumes "udp_construct ans l w = (ec, i, w1)" and "j \<noteq> i"
  shows "un_slot j w1 = un_slot j w"
  using assms
  by (auto simp: udp_construct_def un_add_def un_slot_def un_pool_insert_def nth_append split: if_splits)

lemma udp_attempts_ok:
  assumes "un_ok w" and "os_sound w os" and "ul_open l"
    and "udp_attempts os l e n ec obj w = (ec1, obj1, w1)"
  shows "un_ok w1"
  using assms(1,2,4)
proof (induction n arbitrary: ec obj w)
  case 0
  then show ?case by (simp add: udp_attempts.simps)
next
  case (Suc n)
  let ?pg = "if snd e = 0 then range_random 1024 10000 (un_rng w) else (uint (snd e), un_rng w)"
  obtain p g where pg: "?pg = (p, g)" by (cases ?pg)
  let ?ans = "os n (fst e, word_of_int p)"
  obtain ec2 i w2 where c: "udp_construct ?ans l (w\<lparr>un_rng := g\<rparr>) = (ec2, i, w2)"
    using prod_cases3 by blast
  have start: "un_ok (w\<lparr>un_rng := g\<rparr>)" by (rule un_ok_same [OF Suc.prems(1)]) simp_all
  have "uo_bind ?ans = U_success \<longrightarrow> edp_free (uo_edp ?ans) (w\<lparr>un_rng := g\<rparr>) \<and> snd (uo_edp ?ans) \<noteq> 0"
    using Suc.prems(2) by (simp add: os_sound_def edp_free_def)
  then have w2: "un_ok w2" using udp_construct_ok [OF start _ assms(3) c] by simp
  let ?w3 = "case obj of None \<Rightarrow> w2 | Some j \<Rightarrow> udp_destroy j w2"
  have w3: "un_ok ?w3" using w2 udp_destroy_ok by (auto split: option.split)
  show ?case
  proof (cases "ec2 = U_success \<and> un_is_open i ?w3")
    case True
    then have "w1 = un_change i udp_start ?w3"
      using Suc.prems(3) unfolding udp_attempts.simps pg Let_def prod.case c by simp
    then show ?thesis
      using un_ok_change [OF w3, of i udp_start] by (simp add: udp_start_def layer_start_def)
  next
    case False
    then have run: "udp_attempts os l e n ec2 (Some i) ?w3 = (ec1, obj1, w1)"
      using Suc.prems(3) unfolding udp_attempts.simps pg Let_def prod.case c by (simp split: if_splits)
    have "un_slot j w = Some u" if j: "un_slot j ?w3 = Some u" "ul_open (us_layer u)" for j u
    proof -
      have j2: "un_slot j w2 = Some u"
        using j(1) by (simp add: udp_destroy_slot split: option.splits if_splits)
      have "j \<noteq> i"
      proof
        assume "j = i"
        then have "un_is_open i ?w3" using j by (simp add: un_is_open_def)
        then show False using False udp_construct_closed [OF c] j2 \<open>j = i\<close> j(2) by blast
      qed
      then show ?thesis using j2 udp_construct_other [OF c] by simp
    qed
    then have "os_sound ?w3 os" using os_sound_less [OF Suc.prems(2)] by blast
    then show ?thesis using Suc.IH [OF w3 _ run] by blast
  qed
qed

lemma udp_create_ok:
  assumes "un_ok w" and "os_sound w os" and "ul_open l" and "udp_create os l e ec w = Some (ec1, obj, w1)"
  shows "un_ok w1"
  using assms(4) udp_attempts_ok [OF assms(1-3)] assms(1)
  by (auto simp: udp_create_def split: if_splits option.splits)

section \<open>Handling keeps a layer open\<close>

text \<open>What handling a datagram does not touch.\<close>

definition same_status :: "udp_layer \<Rightarrow> udp_layer \<Rightarrow> bool" where
  "same_status l l1 \<longleftrightarrow> ul_open l1 = ul_open l \<and> ul_state l1 = ul_state l"

definition keeps_status :: "on_request_t \<Rightarrow> bool" where
  "keeps_status on_request \<longleftrightarrow>
     (\<forall>h e l i l1. on_request h e l = Some (i, l1) \<longrightarrow> same_status l l1)"

lemma status_drain: "same_status l (layer_drain l)"
  by (simp add: same_status_def layer_drain_def case_prod_unfold Let_def)

lemma status_release: "release_flow_id i l = Some l1 \<Longrightarrow> same_status l l1"
  by (auto simp: release_flow_id_def same_status_def layer_drain_def case_prod_unfold Let_def split: if_splits)

lemma status_register: "register_flow p l = Some (i, x, l1) \<Longrightarrow> same_status l l1"
  by (auto simp: register_flow_def Let_def same_status_def layer_drain_def case_prod_unfold
      split: option.splits if_splits dest!: status_release)

lemma status_unregister: "unregister_flow i l = Some l1 \<Longrightarrow> same_status l l1"
  by (auto simp: unregister_flow_def drop_recv_handler_def same_status_def split: if_splits dest!: status_release)

lemma status_acceptor:
  "same_status l (snd (register_acceptor acc name l))" "same_status l (unregister_acceptor acc l)"
  by (simp_all add: register_acceptor_def unregister_acceptor_def drop_recv_handler_def same_status_def)

lemma status_send: "same_status l (snd (async_send_to b ep l))"
  by (simp add: async_send_to_def same_status_def)

lemma status_refuse: "send_refuse b l = Some l1 \<Longrightarrow> same_status l l1"
  by (auto simp: send_refuse_def status_send)

lemma status_deliver: "deliver_to dst b l = Some (r, l1) \<Longrightarrow> same_status l l1"
  by (auto simp: deliver_to_def bind_eq_Some_conv same_status_def split: if_splits dest!: status_refuse)

lemma status_route:
  assumes "keeps_status on_request" and "route_request on_request elm b l = Some (dst, l1)"
  shows "same_status l l1"
proof -
  obtain peer session where h: "get_src_peer_id (ul_big l) b = Some peer"
      "get_session (ul_big l) b = Some session"
    using assms(2) by (auto simp: route_request_def bind_eq_Some_conv)
  let ?q = "\<lparr>rq_endpoint = sender_endpoint l, rq_peer = peer, rq_session = session, rq_flow = 0\<rparr>"
  obtain found s1 where f: "request_find ?q (ul_clock l) (request_uuid_keeper l) = (found, s1)" by fastforce
  show ?thesis
  proof (cases found)
    case (Some q)
    then show ?thesis using assms(2) by (auto simp: route_request_def h f same_status_def)
  next
    case None
    then obtain i l2 where "on_request (ae_handler elm) (sender_endpoint l) (l\<lparr>request_uuid_keeper := s1\<rparr>) = Some (i, l2)"
        "ul_open l1 = ul_open l2" "ul_state l1 = ul_state l2"
      using assms(2) by (auto simp: route_request_def h f bind_eq_Some_conv case_prod_unfold Let_def)
    then show ?thesis using assms(1) unfolding keeps_status_def same_status_def by fastforce
  qed
qed

lemma status_message:
  assumes "keeps_status on_request" and "do_handle_received_urdp_msg on_request b l = Some (r, l1)"
  shows "same_status l l1"
  using assms(2)
  by (auto simp: do_handle_received_urdp_msg_def bind_eq_Some_conv case_prod_unfold Let_def same_status_def
      split: if_splits option.splits prod.splits
      dest!: status_deliver status_refuse status_route [OF assms(1)])

lemma status_received:
  assumes "keeps_status on_request" and "do_handle_received on_request b l = Some (r, l1)"
  shows "same_status l l1"
  using assms(2) status_message [OF assms(1)]
  by (auto simp: do_handle_received_def same_status_def split: if_splits)

lemma status_handle:
  assumes "keeps_status on_request" and "handle_receive on_request b sender l = Some (r, l1)"
  shows "same_status l l1"
  using assms(2)
  by (auto simp: handle_receive_def same_status_def Let_def split: if_splits
      dest!: status_received [OF assms(1)])

lemma passive_keeps: "keeps_status (passive_request p)"
  by (auto simp: keeps_status_def passive_request_def dest!: status_register)

text \<open>Reading: the layer is as open as it was, one datagram at most is handed on for each that is
  read, and none is read but the one that has come and one more.\<close>

lemma received_one_status:
  assumes "keeps_status on_request" and "received_one on_request ec bs sender s u = Some (rs, u1, s1)"
  shows "same_status (us_layer u) (us_layer u1) \<and> us_local_endpoint u1 = us_local_endpoint u \<and>
    us_continuous u1 = us_continuous u \<and> length rs \<le> 1"
proof (cases ec)
  case R_success
  then show ?thesis using assms(2) by (auto simp: received_one_def dest!: status_handle [OF assms(1)])
next
  case R_other
  then show ?thesis using assms(2) by (auto simp: received_one_def same_status_def)
next
  case R_message_size
  have in_status: "same_status l (count_in n l)" for n l by (simp add: count_in_def same_status_def)
  have later: "same_status l l2" if "do_handle_received on_request b (count_in n l) = Some (r, l2)" for b n l r l2
    using status_received [OF assms(1) that] in_status [of l n] by (simp add: same_status_def)
  have "same_status (us_layer u) (us_layer u)" by (simp add: same_status_def)
  then show ?thesis
    using R_message_size assms(2) later in_status
    by (auto simp: received_one_def drop_long_def Let_def case_prod_unfold split: if_splits)
qed

lemma udp_async_receive_last:
  assumes "1 \<le> cnt" and "udp_async_receive on_request cnt s u = Some (rs, u1, s1)"
  shows "same_status (us_layer u) (us_layer u1) \<and> us_local_endpoint u1 = us_local_endpoint u \<and> rs = [] \<and>
    (ul_state (us_layer u) = L_STARTED \<longrightarrow> us_pending u1 \<and> us_continuous u1 = 0)"
  using assms
  by (auto simp: udp_async_receive.simps [of on_request cnt] same_status_def case_prod_unfold Let_def
      split: if_splits)

lemma udp_async_receive_status:
  assumes "keeps_status on_request" and "udp_async_receive on_request cnt s u = Some (rs, u1, s1)"
  shows "same_status (us_layer u) (us_layer u1) \<and> us_local_endpoint u1 = us_local_endpoint u \<and>
    length rs \<le> 1 \<and> (ul_state (us_layer u) = L_STARTED \<longrightarrow> us_pending u1 \<and> us_continuous u1 = 0)"
proof -
  obtain n err s2 where a: "next_available s = ((n, err), s2)" by (metis surj_pair)
  obtain ec bs sender s3 where d: "next_datagram s2 = ((ec, bs, sender), s3)" by (metis surj_pair)
  let ?u = "u\<lparr>us_layer := (us_layer u)\<lparr>ul_recv_handler := True\<rparr>\<rparr>"
  note step = assms(2) [unfolded udp_async_receive.simps [of on_request cnt] a, simplified, unfolded Let_def d]
  show ?thesis
  proof (cases "ul_state (us_layer u) = L_STARTED \<and> n > 0 \<and> \<not> err \<and> cnt = 0")
    case False
    then show ?thesis using step by (auto simp: same_status_def split: if_splits)
  next
    case True
    then obtain rs2 u2 s4 rs3 where one: "received_one on_request ec bs sender s3 ?u = Some (rs2, u2, s4)"
        and more: "udp_async_receive on_request (Suc cnt) s4 u2 = Some (rs3, u1, s1)" and rs: "rs = rs2 @ rs3"
      using step by (auto simp: d split: option.splits)
    have "same_status (us_layer ?u) (us_layer u2)" "us_local_endpoint u2 = us_local_endpoint ?u" "length rs2 \<le> 1"
      using received_one_status [OF assms(1) one] by blast+
    moreover have "same_status (us_layer u2) (us_layer u1)" "us_local_endpoint u1 = us_local_endpoint u2"
        "rs3 = []" "ul_state (us_layer u2) = L_STARTED \<longrightarrow> us_pending u1 \<and> us_continuous u1 = 0"
      using udp_async_receive_last [OF _ more] by simp_all
    ultimately show ?thesis using rs True by (simp add: same_status_def)
  qed
qed

text \<open>A layer that has started never stops reading, whatever errors the socket reports: when the handler
  returns a receive is under way, and at most two datagrams have been handed on.\<close>

lemma udp_handle_receive_status:
  assumes "keeps_status on_request" and "udp_handle_receive on_request ec bs sender s u = Some (rs, u1, s1)"
  shows "same_status (us_layer u) (us_layer u1) \<and> us_local_endpoint u1 = us_local_endpoint u \<and>
    length rs \<le> 2 \<and> (ul_state (us_layer u) = L_STARTED \<longrightarrow> us_pending u1 \<and> us_continuous u1 = 0)"
proof (cases "ul_state (us_layer u) = L_STARTED")
  case False
  then show ?thesis using assms(2) by (auto simp: udp_handle_receive_def same_status_def)
next
  case True
  then obtain rs2 u2 s2 rs3 where one: "received_one on_request ec bs sender s (u\<lparr>us_pending := False\<rparr>) = Some (rs2, u2, s2)"
      and more: "udp_async_receive on_request (us_continuous u2) s2 u2 = Some (rs3, u1, s1)" and rs: "rs = rs2 @ rs3"
    using assms(2) by (auto simp: udp_handle_receive_def Let_def split: option.splits)
  show ?thesis
    using received_one_status [OF assms(1) one] udp_async_receive_status [OF assms(1) more] rs True
    by (simp add: same_status_def)
qed

section \<open>Sharing\<close>

text \<open>Everything that happens to the layers of a process, in any order: layers, tokens and datagrams
  come and go, and the layers do whatever \<open>layer_step\<close> has but closing, which only the destructor
  does.\<close>

inductive un_step :: "udp_net \<Rightarrow> udp_net \<Rightarrow> bool" where
  un_create: "os_sound w os \<Longrightarrow> udp_create os (udp_layer_new big now mem) e ec w = Some (ec1, obj, w1) \<Longrightarrow>
    un_step w w1"
| un_flow_token: "udp_flow_token_on i p w = Some (ec, t, w1) \<Longrightarrow> un_step w w1"
| un_flow: "os_sound w os \<Longrightarrow>
    udp_create_flow_token os (udp_layer_new big now mem) e p ec w = Some (ec1, tok, w1) \<Longrightarrow> un_step w w1"
| un_acceptor: "os_sound w os \<Longrightarrow>
    udp_create_acceptor_token os (udp_layer_new big now mem) e acc name ec w = Some (ec1, tok, w1) \<Longrightarrow>
    un_step w w1"
| un_flow_gone: "flow_token_gone ft w = Some w1 \<Longrightarrow> un_step w w1"
| un_acceptor_gone: "un_step w (udp_acceptor_token_gone tok w)"
| un_layer: "un_slot i w = Some u \<Longrightarrow> layer_step (us_layer u) l \<Longrightarrow> ul_open l = ul_open (us_layer u) \<Longrightarrow>
    un_step w (un_change i (\<lambda>u. u\<lparr>us_layer := l\<rparr>) w)"
| un_receive: "un_slot i w = Some u \<Longrightarrow> udp_handle_receive (passive_request p) ec bs sender s u = Some (rs, u1, s1) \<Longrightarrow>
    un_step w (un_change i (\<lambda>_. u1) w)"
| un_posted: "un_slot i w = Some u \<Longrightarrow> udp_posted (passive_request p) s u = Some (rs, u1, s1) \<Longrightarrow>
    un_step w (un_change i (\<lambda>_. u1) w)"
| un_destroy: "un_step w (udp_destroy i w)"

definition un_start :: "rng \<Rightarrow> udp_net" where
  "un_start g = \<lparr>un_pool = [], un_slots = [], un_rng = g\<rparr>"

text \<open>A step keeps the invariant; and a layer that is still there has the endpoint it had, and is as open
  as it was.\<close>

definition slots_kept :: "udp_net \<Rightarrow> udp_net \<Rightarrow> bool" where
  "slots_kept w w1 \<longleftrightarrow> length (un_slots w) \<le> length (un_slots w1) \<and>
     (\<forall>i u. un_slot i w1 = Some u \<longrightarrow> i < length (un_slots w) \<longrightarrow>
        (\<exists>v. un_slot i w = Some v \<and> us_local_endpoint u = us_local_endpoint v \<and>
             ul_open (us_layer u) = ul_open (us_layer v)))"

lemma kept_change:
  assumes "\<And>u. un_slot i w = Some u \<Longrightarrow>
      us_local_endpoint (g u) = us_local_endpoint u \<and> ul_open (us_layer (g u)) = ul_open (us_layer u)"
  shows "slots_kept w (un_change i g w)"
proof -
  have "length (un_slots (un_change i g w)) = length (un_slots w)" by (simp add: un_change_def)
  then show ?thesis using assms by (auto simp: slots_kept_def split: if_splits)
qed

lemma keptD:
  assumes "slots_kept w w1"
  shows "length (un_slots w) \<le> length (un_slots w1)"
    and "un_slot i w1 = Some u \<Longrightarrow> i < length (un_slots w) \<Longrightarrow>
      \<exists>v. un_slot i w = Some v \<and> us_local_endpoint u = us_local_endpoint v \<and>
          ul_open (us_layer u) = ul_open (us_layer v)"
  using assms unfolding slots_kept_def by blast+

lemma kept_trans:
  assumes "slots_kept w w1" and "slots_kept w1 w2"
  shows "slots_kept w w2"
  unfolding slots_kept_def
proof (intro conjI allI impI)
  show "length (un_slots w) \<le> length (un_slots w2)"
    using keptD(1) [OF assms(1)] keptD(1) [OF assms(2)] by linarith
  fix i u
  assume i: "un_slot i w2 = Some u" "i < length (un_slots w)"
  then have "i < length (un_slots w1)" using keptD(1) [OF assms(1)] by linarith
  then obtain v where v: "un_slot i w1 = Some v" "us_local_endpoint u = us_local_endpoint v"
      "ul_open (us_layer u) = ul_open (us_layer v)"
    using keptD(2) [OF assms(2) i(1)] by blast
  then show "\<exists>v. un_slot i w = Some v \<and> us_local_endpoint u = us_local_endpoint v \<and>
      ul_open (us_layer u) = ul_open (us_layer v)"
    using keptD(2) [OF assms(1) v(1) i(2)] by auto
qed

lemma kept_refl: "slots_kept w w"
  by (simp add: slots_kept_def)

lemma kept_destroy: "slots_kept w (udp_destroy i w)"
  by (auto simp: slots_kept_def udp_destroy_slot split: if_splits)
    (simp add: udp_destroy_def split: option.splits)

lemma kept_construct: "udp_construct ans l w = (ec, i, w1) \<Longrightarrow> slots_kept w w1"
  by (auto simp: udp_construct_def un_add_def un_pool_insert_def slots_kept_def un_slot_def nth_append
      split: if_splits)

lemma kept_attempts:
  "udp_attempts os l e n ec obj w = (ec1, obj1, w1) \<Longrightarrow> slots_kept w w1"
proof (induction n arbitrary: ec obj w)
  case 0
  then show ?case by (simp add: udp_attempts.simps kept_refl)
next
  case (Suc n)
  let ?pg = "if snd e = 0 then range_random 1024 10000 (un_rng w) else (uint (snd e), un_rng w)"
  obtain p g where pg: "?pg = (p, g)" by (cases ?pg)
  obtain ec2 i w2 where c: "udp_construct (os n (fst e, word_of_int p)) l (w\<lparr>un_rng := g\<rparr>) = (ec2, i, w2)"
    using prod_cases3 by blast
  let ?w3 = "case obj of None \<Rightarrow> w2 | Some j \<Rightarrow> udp_destroy j w2"
  have "slots_kept w (w\<lparr>un_rng := g\<rparr>)" by (auto simp: slots_kept_def)
  then have w2: "slots_kept w w2" using kept_trans kept_construct [OF c] by blast
  have w3: "slots_kept w ?w3" using w2 kept_trans [OF w2 kept_destroy] by (simp split: option.split)
  have started: "slots_kept ?w3 (un_change i udp_start ?w3)"
    by (rule kept_change) (simp add: udp_start_def layer_start_def)
  show ?case
    using Suc.prems Suc.IH [of ec2 "Some i" ?w3] kept_trans [OF w3] started
    unfolding udp_attempts.simps pg Let_def prod.case c by (auto split: if_splits)
qed

lemma kept_create: "udp_create os l e ec w = Some (ec1, obj, w1) \<Longrightarrow> slots_kept w w1"
  by (auto simp: udp_create_def kept_refl split: if_splits option.splits dest: kept_attempts)

text \<open>Changes of a layer that leave its endpoint and its status alone.\<close>

definition harmless :: "nat \<Rightarrow> udp_net \<Rightarrow> udp_net \<Rightarrow> bool" where
  "harmless i w w1 \<longleftrightarrow> (\<exists>g. w1 = un_change i g w \<and> (\<forall>u. un_slot i w = Some u \<longrightarrow>
     us_local_endpoint (g u) = us_local_endpoint u \<and> ul_open (us_layer (g u)) = ul_open (us_layer u)))"

lemma harmless_ok: "harmless i w w1 \<Longrightarrow> un_ok w \<Longrightarrow> un_ok w1 \<and> slots_kept w w1"
  unfolding harmless_def using un_ok_change kept_change by metis

lemma harmless_same:
  assumes "un_slot i w = Some u" and "same_status (us_layer u) l"
  shows "harmless i w (un_change i (\<lambda>u. u\<lparr>us_layer := l\<rparr>) w)"
  unfolding harmless_def
  by (rule exI [of _ "\<lambda>u. u\<lparr>us_layer := l\<rparr>"]) (use assms in \<open>simp add: same_status_def\<close>)

lemma harmless_flow_token: "udp_flow_token_on i p w = Some (ec, t, w1) \<Longrightarrow> harmless i w w1"
  by (auto simp: udp_flow_token_on_def split: option.splits intro!: harmless_same status_register)

lemma harmless_flow_gone: "flow_token_gone ft w = Some w1 \<Longrightarrow> harmless (ft_shared_layer ft) w w1"
  by (auto simp: flow_token_gone_def split: option.splits intro!: harmless_same status_unregister)

lemma harmless_acceptor_gone: "harmless (ut_shared_layer t) w (udp_acceptor_token_gone t w)"
  using status_acceptor(2) unfolding harmless_def udp_acceptor_token_gone_def same_status_def by fastforce

lemma udp_new_open: "ul_open (udp_layer_new big now mem)"
  by (simp add: udp_layer_new_def)

lemma un_step_ok:
  assumes "un_step w w1" and "un_ok w"
  shows "un_ok w1 \<and> slots_kept w w1"
  using assms
proof (induction rule: un_step.induct)
  case (un_create w os big now mem e ec ec1 obj w1)
  then show ?case using udp_create_ok [OF _ _ udp_new_open] kept_create by blast
next
  case (un_flow w os big now mem e p ec ec1 tok w1)
  then obtain ec2 i w2 where c: "udp_create os (udp_layer_new big now mem) e ec w = Some (ec2, Some i, w2)"
      "udp_flow_token_on i p w2 = Some (ec1, tok, w1)"
    by (auto simp: udp_create_flow_token_def split: option.splits)
  then have "un_ok w2" "slots_kept w w2"
    using udp_create_ok [OF un_flow(3,1) udp_new_open c(1)] kept_create [OF c(1)] by blast+
  then show ?case using harmless_ok [OF harmless_flow_token [OF c(2)]] kept_trans by blast
next
  case (un_acceptor w os big now mem e acc name ec ec1 tok w1)
  then obtain ec2 i w2 where c: "udp_create os (udp_layer_new big now mem) e ec w = Some (ec2, Some i, w2)"
      "w1 = w2 \<or> (\<exists>u. un_slot i w2 = Some u \<and>
         w1 = un_change i (\<lambda>v. v\<lparr>us_layer := snd (register_acceptor acc name (us_layer u))\<rparr>) w2)"
    by (auto simp: udp_create_acceptor_token_def Let_def case_prod_unfold split: option.splits if_splits)
  have w2: "un_ok w2" "slots_kept w w2"
    using udp_create_ok [OF un_acceptor(3,1) udp_new_open c(1)] kept_create [OF c(1)] by blast+
  then show ?case
    using c(2) harmless_ok [OF harmless_same [OF _ status_acceptor(1)] w2(1)] kept_trans by blast
next
  case (un_layer i w u l)
  have "harmless i w (un_change i (\<lambda>u. u\<lparr>us_layer := l\<rparr>) w)"
    unfolding harmless_def by (rule exI [of _ "\<lambda>u. u\<lparr>us_layer := l\<rparr>"]) (use un_layer in simp)
  then show ?case using harmless_ok un_layer(4) by blast
next
  case (un_receive i w u p ec bs sender s rs u1 s1)
  have "harmless i w (un_change i (\<lambda>_. u1) w)"
    unfolding harmless_def by (rule exI [of _ "\<lambda>_. u1"])
      (use un_receive udp_handle_receive_status [OF passive_keeps un_receive(2)] in \<open>simp add: same_status_def\<close>)
  then show ?case using harmless_ok un_receive(3) by blast
next
  case (un_posted i w u p s rs u1 s1)
  have "harmless i w (un_change i (\<lambda>_. u1) w)"
    unfolding harmless_def by (rule exI [of _ "\<lambda>_. u1"])
      (use un_posted udp_async_receive_status [OF passive_keeps un_posted(2) [unfolded udp_posted_def]]
        in \<open>simp add: same_status_def\<close>)
  then show ?case using harmless_ok un_posted(3) by blast
qed (use harmless_ok harmless_flow_token harmless_flow_gone harmless_acceptor_gone udp_destroy_ok kept_destroy in \<open>blast+\<close>)

lemma un_run_ok:
  assumes "un_step\<^sup>*\<^sup>* w w1" and "un_ok w"
  shows "un_ok w1 \<and> slots_kept w w1"
  using assms
proof (induction rule: rtranclp_induct)
  case base
  then show ?case using kept_refl by blast
next
  case (step y z)
  then show ?case using un_step_ok kept_trans by blast
qed

lemma un_start_ok: "un_ok (un_start g)"
  by (simp add: un_ok_def un_start_def un_slot_def)

text \<open>C5: sockets are shared. Once the layer of a local endpoint, at an address that is not the any
  address, is there and open, then, whatever flows,
  acceptors, other layers and datagrams come and go, every request for a layer at that
  endpoint is given this one, without a new socket and without an error of its own, until the
  layer is destroyed; and the pool never holds a layer that is gone.\<close>

theorem udp_endpoint_is_shared:
  assumes "un_step\<^sup>*\<^sup>* (un_start g) w" and "un_slot i w = Some u" and "ul_open (us_layer u)"
    and "un_step\<^sup>*\<^sup>* w w1" and "un_slot i w1 \<noteq> None" and "fst (us_local_endpoint u) \<noteq> 0"
  shows "udp_create os l (us_local_endpoint u) ec w1 = Some (ec, Some i, w1) \<and>
    (\<forall>(e, j) \<in> set (un_pool w1). un_slot j w1 \<noteq> None)"
proof -
  have w: "un_ok w" using un_run_ok [OF assms(1) un_start_ok] by blast
  then have w1: "un_ok w1" "slots_kept w w1" using un_run_ok [OF assms(4)] by blast+
  obtain u1 where u1: "un_slot i w1 = Some u1" using assms(5) by blast
  have i: "i < length (un_slots w)" using assms(2) by (simp add: un_slot_def split: if_splits)
  have same: "us_local_endpoint u1 = us_local_endpoint u" "ul_open (us_layer u1)"
    using keptD(2) [OF w1(2) u1 i] assms(2,3) by auto
  then have "(us_local_endpoint u, i) \<in> set (un_pool w1)"
    using un_okD(3) [OF w1(1) u1] by simp
  then have "map_of (un_pool w1) (us_local_endpoint u) = Some i"
    using ok_once [OF w1(1)] by (metis map_of_SomeD weak_map_of_SomeI)
  moreover have "snd (us_local_endpoint u) \<noteq> 0" using un_okD(4) [OF w assms(2)] assms(3) by simp
  ultimately have "udp_create os l (us_local_endpoint u) ec w1 = Some (ec, Some i, w1)"
    using assms(6) same u1 by (simp add: udp_create_def)
  moreover have "\<forall>(e, j) \<in> set (un_pool w1). un_slot j w1 \<noteq> None"
    using un_okD(2) [OF w1(1)] by fastforce
  ultimately show ?thesis by blast
qed

definition one_layer :: "rng \<Rightarrow> udp_net" where
  "one_layer g = \<lparr>un_pool = [((0x7F000001, 80), 0)],
     un_slots = [Some (udp_start ((closed_slot (udp_layer_new False 0 []) mtu_size)
       \<lparr>us_layer := udp_layer_new False 0 [], us_local_endpoint := (0x7F000001, 80)\<rparr>))], un_rng = g\<rparr>"

definition good_answer :: "edp \<Rightarrow> udp_answer" where
  "good_answer e = \<lparr>uo_open = U_success, uo_close = U_success, uo_bind = U_success, uo_local = U_success,
     uo_edp = e\<rparr>"

lemma one_layer_made:
  assumes "os 0 (0x7F000001, 80) = good_answer (0x7F000001, 80)"
  shows "udp_create os (udp_layer_new False 0 []) (0x7F000001, 80) U_success (un_start g) =
    Some (U_success, Some 0, one_layer g)"
  using assms
  by (simp add: udp_create_def un_start_def udp_attempts.simps udp_construct_def good_answer_def un_add_def
      un_pool_insert_def un_is_open_def un_slot_def un_change_def udp_layer_new_def one_layer_def)

theorem udp_endpoint_is_shared_witness:
  "udp_create (\<lambda>_. good_answer) (udp_layer_new False 7 []) (0x7F000001, 80) U_success (one_layer (rng_seed 1)) =
    Some (U_success, Some 0, one_layer (rng_seed 1))"
proof -
  have answers: "os_sound (un_start (rng_seed 1)) (\<lambda>_ _. good_answer (0x7F000001, 80))"
    by (simp add: os_sound_def edp_free_def un_start_def un_slot_def good_answer_def)
  have "udp_create (\<lambda>_ _. good_answer (0x7F000001, 80)) (udp_layer_new False 0 []) (0x7F000001, 80) U_success
      (un_start (rng_seed 1)) = Some (U_success, Some 0, one_layer (rng_seed 1))"
    by (rule one_layer_made) simp
  then have run: "un_step\<^sup>*\<^sup>* (un_start (rng_seed 1)) (one_layer (rng_seed 1))"
    using un_create [OF answers] by blast
  show ?thesis
    using udp_endpoint_is_shared [OF run, of 0 _ "one_layer (rng_seed 1)" "\<lambda>_. good_answer" "udp_layer_new False 7 []" U_success]
    by (simp add: one_layer_def un_slot_def udp_start_def layer_start_def udp_layer_new_def closed_slot_def)
qed

section \<open>Errors that are lost\<close>

text \<open>When the socket cannot be opened, closing it clears the error code: the layer is made without an
  error and without a socket.\<close>

lemma open_failure_is_lost:
  assumes "fst e \<noteq> 0" and "snd e \<noteq> 0" and "map_of (un_pool w) e = None"
    and "uo_open (os 0 e) \<noteq> U_success" and "uo_close (os 0 e) = U_success"
  shows "\<exists>w1. udp_create os l e ec w = Some (U_success, Some (length (un_slots w)), w1) \<and>
    \<not> un_is_open (length (un_slots w)) w1"
  using assms
  by (simp add: udp_create_def udp_attempts.simps udp_construct_def un_add_def un_is_open_def un_slot_def
      closed_slot_def nth_append Let_def)

text \<open>When it cannot be bound, \<open>register_flow\<close> clears the error: a flow is given a token of a layer with
  no socket, and is told that all is well.\<close>

lemma register_flow_error:
  "register_flow p k = Some (i, x, k1) \<Longrightarrow> x = L_success \<or> x = L_no_descriptors"
  by (auto simp: register_flow_def Let_def split: option.splits if_splits)

lemma flow_token_error:
  assumes "udp_create_flow_token os l e p ec w = Some (ec1, t, w1)"
  shows "ec1 = U_success \<or> ec1 = U_layer L_no_descriptors"
  using assms
  by (auto simp: udp_create_flow_token_def udp_flow_token_on_def layer_ec_def split: option.splits
      dest!: register_flow_error)

text \<open>After a datagram that was too long the next one is handled as one of the sender before: who has
  sent it makes no difference.\<close>

lemma sender_ignored:
  assumes "0 < n"
  shows "received_one on_request R_message_size bs sender
     \<lparr>sc_available = [(n, False)], sc_datagrams = [(R_success, b, from1)]\<rparr> u =
   received_one on_request R_message_size bs sender
     \<lparr>sc_available = [(n, False)], sc_datagrams = [(R_success, b, from2)]\<rparr> u"
  using assms by (simp add: received_one_def drop_long_def next_available_def next_datagram_def)

end
