(* ===== verification/Spec2Isabelle.thy ===== *)
theory Spec2Isabelle
  imports Wrappable Op_Mark Keeper Speed_Meter Buffer_Io Urdp_Safety Urdp_Delivery Udp_Requests
    Http_Theorems Trdp_Theorems Http_Conn_Timers Http_Acceptor Bitset
    Mime_Lookup Timer Tcp_Accept Rdp_Accept_Flows Operation_Theorems
    Safe_Buffer_Theorems Rdp_Conn_Theorems Puff_Empty Gzip Utf_Theorems Memory_Pool
    Ticks File_Service Udp_Pool
begin

text \<open>
  This is a verification of the core of \<open>p2engine\<close>, a C++ network engine: messages over UDP
  (URDP) and over TCP (TRDP) behind one interface, HTTP messages, and the small machinery they
  stand on. All paths below are under \<open>src/\<close> of the repository.

  \<^bold>\<open>How the program is put together.\<close> User code holds connections and acceptors. A connection
  drives a flow. A URDP flow (\<open>src/rdp/urdp_flow.cpp\<close>) makes a reliable ordered stream of messages
  out of datagrams; many flows share one UDP socket, the shared layer
  (\<open>src/rdp/basic_shared_udp_layer.cpp\<close>), which routes datagrams by flow ids and connect requests
  by domains. A TRDP flow (\<open>src/rdp/trdp_flow.cpp\<close>) frames messages on a TCP connection of its own.
  Both use stamps to cancel pending operations (\<open>p2engine/operation_mark.hpp\<close>), comparisons of
  wrapping numbers (\<open>p2engine/wrappable_integer.hpp\<close>), integers in network order
  (\<open>p2engine/byteorder.hpp\<close>, \<open>io.hpp\<close>, \<open>safe_buffer_io.hpp\<close>), packet formats
  (\<open>p2engine/packet_format_def.hpp\<close>), keepers that remember a key for a time
  (\<open>p2engine/keeper.hpp\<close>) and speed meters (\<open>p2engine/speed_meter.hpp\<close>). HTTP messages
  (\<open>src/http\<close>) use the URI parser (\<open>src/uri.cpp\<close>). Gzip files (\<open>src/gzip.cpp\<close>) are inflated by
  \<open>src/puff.cpp\<close>.

  \<^bold>\<open>Conventions.\<close> State is a record and every operation a function from the old state to the new
  one. Machine integers are words where they wrap (\<open>u16\<close>, \<open>u32\<close>, \<open>byte\<close>), durations and counts that do
  not reach their limits are integers; the clock is an integer of milliseconds held in the state or
  an argument, doubles are rationals. Ordered containers are lists in the order of iteration. What
  an operation asks of the world (a datagram sent, an asynchronous read, a posted handler, a call of
  the owner) is an effect appended to a list of the state; what the world answers is the argument of
  the definition that models the handler. A result of \<open>None\<close> marks what C++ leaves undefined, an
  assertion of the source that fails, or the error of a parser, as the text of each definition says. The host's byte order is an argument.

  \<^bold>\<open>Theories.\<close>
  \<^item> \<open>Prelude\<close>: type names, ordered lists under a comparator, the collections of rewrite rules.
  \<^item> \<open>Wrappable\<close>: the comparison functors and the circular difference; inside half the circle the
    comparisons agree with the order of offsets.
  \<^item> \<open>Op_Mark\<close>: operation stamps, the random generator. A cancellation covers the operations started
    before it and no later one.
  \<^item> \<open>Keeper\<close>: the timed set and the timed map; interface \<open>timed_keeper\<close>, interpreted on the model;
    a key is accepted once in its period.
  \<^item> \<open>Speed_Meter\<close>: the sliding window of byte counts, with the 32-bit counters of the source; the speed
    is the average over the window as long as the counts fit.
  \<^item> \<open>Byte_Order\<close>, \<open>Buffer_Io\<close>: memory layout of integers and the stream codecs; interfaces of
    codecs, interpreted at every width.
  \<^item> \<open>Packet_Format\<close>, \<open>Urdp_Header\<close>: bit fields and the three URDP formats, the visitors of the
    shared layer; fields read back and do not disturb each other.
  \<^item> \<open>Urdp_Types\<close>, \<open>Urdp_Send\<close>, \<open>Urdp_Clock\<close>, \<open>Urdp_Process\<close>, \<open>Urdp_Receive\<close>: the URDP flow, one
    definition for each function of \<open>urdp_flow.cpp\<close>, in the parts of the source.
  \<^item> \<open>Urdp_Inv\<close>, \<open>Urdp_Steps\<close>, \<open>Urdp_Safety\<close>: a step relation over all handlers, the invariant of a
    flow and what follows from it in every reachable state.
  \<^item> \<open>Urdp_Stream\<close>, \<open>Urdp_Reassembly\<close>, \<open>Urdp_Packets\<close>: the two segment queues as a stream of
    bytes, reassembly in any order of arrival, messages out of the stream, packets read back at the
    other side, and why the loops with fuel end.
  \<^item> \<open>Urdp_Delivery\<close>: the whole way of messages, from \<open>async_send\<close> of one flow through its datagrams
    to the packet handler, the receive loop and the owner of the other.
  \<^item> \<open>Id_Allocator\<close>: the ids of flows; interface \<open>id_source\<close>, interpreted on the allocator.
  \<^item> \<open>Udp_Layer\<close>, \<open>Udp_Layer_Inv\<close>, \<open>Udp_Requests\<close>: the shared layer, its invariant over all its
    operations in any order, its refinement to a table from ids to flows, the rest of released ids,
    and repeated connect requests.
  \<^item> \<open>Udp_Pool\<close>: making, finding and destroying the shared UDP layers, and reading their sockets. In
    any order of operations the layers of a process share one socket for each endpoint; errors
    of opening and binding that are lost on the way to a flow.
  \<^item> \<open>Trdp_Flow\<close>, \<open>Trdp_Coro\<close>: the TRDP flow; each coroutine is one definition for each point at
    which it is resumed. \<open>Trdp_Stream\<close>, \<open>Trdp_Theorems\<close>: both sides as a stream of messages, and
    four places where the code departs from what it means.
  \<^item> \<open>Text\<close>: the C and boost string functions the source uses. \<open>Uri\<close>: parsing, printing, comparing
    and escaping of URIs; the printer and the parser are inverse on the URIs the grammar allows.
  \<^item> \<open>Http_Header\<close>, \<open>Http_Messages\<close>: fields, requests and responses with their character-wise
    parsers. \<open>Http_Fields\<close>: the container of fields against the interface \<open>name_map\<close>, the parser
    over printed lines. \<open>Http_Parse\<close>, \<open>Http_Theorems\<close>: printing and parsing are inverse, pieces
    parse as the whole, and fields with a structure read back.
  \<^item> \<open>Http_Connection\<close>: the connection of \<open>src/http/http_connection_impl.cpp\<close>, its coroutines cut at
    the points where they are resumed. \<open>Http_Conn_Stream\<close>, \<open>Http_Conn_Theorems\<close>: the invariant of
    writing, a graceful close, and requests that reach the owner whole from whatever pieces the socket
    delivers. \<open>Http_Conn_Timers\<close>: where timers and the resolver do not do what they should.
    \<open>Http_Acceptor\<close>: the acceptor and the connection it keeps while it is blocked.
  \<^item> \<open>Bitset\<close>: the run-length coding of bit sets; it unpacks to what was packed,
    within the bounds the packer promises.
  \<^item> \<open>Mime_Types\<close>, \<open>Mime_Lookup\<close>: the two tables and their binary search, which is the lookup of
    the maps the tables stand for because they are sorted.
  \<^item> \<open>Tcp_Layer\<close>: the listening sockets that TCP acceptors share, and the pool that finds them.
    \<open>Tcp_Layer_Inv\<close>, \<open>Tcp_Accept\<close>: the pool never dangles; a connection reaches the acceptor of its
    domain, by way of \<open>Trdp_Coro\<close>; a layer whose accept failed.
  \<^item> \<open>Rdp_Acceptors\<close>, \<open>Rdp_Accept_Flows\<close>: the acceptors of both transports and their queues of flows;
    interface \<open>flow_queue\<close>, interpreted on both: of every flow there is one account.
  \<^item> \<open>Operation_Queue\<close>: the queue of reactor operations, its linked lists in a store of nodes,
    and the lists the nodes stand for. \<open>Operation_Refine\<close>, \<open>Operation_Theorems\<close>: each function
    against its specification, and all of them in any order.
  \<^item> \<open>Fssignal\<close>: signals, the connections of their slots, and emissions that slots interrupt.
    \<open>Fssignal_Inv\<close>, \<open>Fssignal_Emit\<close>, \<open>Fssignal_Theorems\<close>: the invariant of nodes, connections and
    trackables, and what an emission calls, in any sequence of operations. \<open>Dispatcher\<close>,
    \<open>Dispatcher_Theorems\<close>: the signals of a connection, and what is left of them after an error.
  \<^item> \<open>Rdp_Connections\<close>: the connections of both transports, over a flow and a dispatcher.
    \<open>Rdp_Conn_Theorems\<close>: messages of one side come out by type on the other; closing.
  \<^item> \<open>Safe_Buffer\<close>: buffers as windows of blocks they share, in a store. \<open>Safe_Buffer_Theorems\<close>: no
    sequence of operations takes a buffer out of its block; the stream operations refine those of
    \<open>Buffer_Io\<close>; who sees a write.
  \<^item> \<open>Puff\<close>, \<open>Puff_Blocks\<close>: the inflater of \<open>src/puff.cpp\<close>, a function of the source for each
    definition; an access outside an array or buffer is the value \<open>Wild\<close>, the \<open>longjmp\<close> out of a
    reader without input the value \<open>Jumped\<close>. \<open>Puff_Stream\<close>: the readers as moves of a position in a
    list of bits; the fast decoder against the plain one. \<open>Puff_Codes\<close>: the tables are those of the
    canonical code. \<open>Puff_Deflate\<close>, \<open>Puff_Roundtrip\<close>: an encoder
    for any choice of blocks, tokens and tables, and the inflating of what it writes.
    \<open>Puff_Bounds\<close>, \<open>Puff_Ends\<close>, \<open>Puff_Empty\<close>: any input:
    the inflater returns and stays inside its memory, but for one kind of dynamic block, which is
    shown to leave it.
  \<^item> \<open>Gzip\<close>: the header of a gzip file and \<open>inflate_gzip\<close>, and both messages of an error exchanged.
  \<^item> \<open>Utf\<close>, \<open>Utf_Theorems\<close>: the conversions between UTF-8, UTF-16 and UTF-32 of
    \<open>src/convertutf.cpp\<close> and the strings of \<open>src/utf8.cpp\<close>, with the multibyte functions of the C
    library as arguments; the conversions are exact on text, and sound on any bytes.
  \<^item> \<open>Memory_Pool\<close>: the reusable allocator of \<open>basic_memory_pool.hpp\<close>; no sequence of requests and
    returns makes two blocks overlap. \<open>Ticks\<close>: the clocks of \<open>src/time.cpp\<close>, the one of Windows
    statement by statement, exact for one thread and not for two; the time client. \<open>File_Service\<close>:
    opening files, and the thread that reads and writes them, with the system calls as parameters.
  \<^item> \<open>Timer\<close>: the timer over a deadline timer; periodic firing, cancelling, and the count of waits.

  \<^bold>\<open>Fuel and bounds.\<close> Two loops of the URDP flow have fuel: the rounds of receiving (one more
  than the bytes that can be read, \<open>receive_rounds\<close>) and the clock handler that schedules itself.
  \<open>receive_loop_ends\<close> shows that more rounds of receiving change nothing, and \<open>on_clock_returns\<close>
  that the clock handler is done after one. The resending of unreliable packets stops after as many
  packets as its argument says, as the code does; with as many as are due no due packet is left
  (\<open>unreliable_resend_ends\<close>).
  The second loop of the id allocator has the number of reserved ids as fuel, and
  \<open>alloc_id_returns\<close> shows that it is enough. The loops that hand flows to an owner have one more
  than the flows that wait (\<open>ta_loop_ends\<close>, \<open>ua_loop_ends\<close>). The loops that disconnect slots have a
  round for each node or connection there is, and each round takes one away (\<open>clear_loop_ok\<close>,
  \<open>untrack_loop_ok\<close>). The loop of the inflater over the blocks is a \<open>partial_function\<close>, because its
  counters wrap; on inputs and outputs that are not within a block of 4 GiB it ends
  (\<open>puff_loop_any\<close>). The properties of streams assume that less than half
  of the circle of sequence numbers is in flight, and messages of less than 64 KiB, because the
  length of a frame has 16 bits.

  \<^bold>\<open>Not modelled.\<close> Calls of the operating system are parameters where a component uses their
  answers (files, clocks, the sockets of UDP and TCP layers) and left out otherwise (options of sockets, network
  enumeration). Threads and reference counts, the other allocators, the Windows file service,
  logging, and vendored code (\<open>nedmalloc\<close>) are left out. The self test at the end of \<open>puff.cpp\<close> is
  left out. Locks are left out: every handler runs to its end before the next,
  but for the two words of the Windows clock.
\<close>

end
